(* ===== verification/Prelude.thy ===== *)
theory Prelude
  imports Complex_Main "HOL-Library.Word"
begin

text \<open>
  The vocabulary every component shares: machine words, JavaScript numbers and values, C's
  conversions from \<open>double\<close>, the exceptions a native leaf ends with, and the state-and-error
  monad in which the leaves are written.

  A JavaScript number is a \<open>double\<close>: a NaN, an infinity or a finite binary fraction, which is a
  rational number (\<open>-0\<close> is identified with \<open>0\<close>, no modelled code tells them apart).  A
  number the code makes from a size or a count (\<open>(double)n\<close>) is exact, because a region of memory
  is shorter than \<open>2 ^ 53\<close> bytes.
\<close>

section \<open>Words\<close>

type_synonym u8 = "8 word"
type_synonym u16 = "16 word"
type_synonym u32 = "32 word"
type_synonym u64 = "64 word"
type_synonym i64 = "64 word"
type_synonym addr = nat

section \<open>JavaScript numbers\<close>

datatype jsnum = NaN | PInf | NInf | Fin rat

text \<open>C's and JavaScript's comparisons agree: every comparison with a NaN is false.\<close>

fun num_le :: "jsnum \<Rightarrow> jsnum \<Rightarrow> bool" where
  "num_le NaN y = False"
| "num_le x NaN = False"
| "num_le NInf y = True"
| "num_le x PInf = True"
| "num_le PInf y = False"
| "num_le x NInf = False"
| "num_le (Fin a) (Fin b) = (a \<le> b)"

fun num_lt :: "jsnum \<Rightarrow> jsnum \<Rightarrow> bool" where
  "num_lt NaN y = False"
| "num_lt x NaN = False"
| "num_lt NInf NInf = False"
| "num_lt NInf y = True"
| "num_lt PInf y = False"
| "num_lt x PInf = True"
| "num_lt x NInf = False"
| "num_lt (Fin a) (Fin b) = (a < b)"

fun num_eq :: "jsnum \<Rightarrow> jsnum \<Rightarrow> bool" where
  "num_eq NaN y = False"
| "num_eq x y = (x = y)"

definition js_nat :: "nat \<Rightarrow> jsnum" where
  "js_nat n = Fin (of_nat n)"

definition js_int :: "int \<Rightarrow> jsnum" where
  "js_int n = Fin (of_int n)"

lemma js_nat_inject [simp]: "js_nat m = js_nat n \<longleftrightarrow> m = n"
  by (simp add: js_nat_def)

lemma js_int_inject [simp]: "js_int m = js_int n \<longleftrightarrow> m = n"
  by (simp add: js_int_def)

text \<open>
  C's conversion of a \<open>double\<close> to an integer type cuts the fraction off; where the cut value does
  not fit the type, the behaviour is undefined.  \<open>None\<close> is that undefined behaviour.
\<close>

definition trunc :: "rat \<Rightarrow> int" where
  "trunc r = (if 0 \<le> r then \<lfloor>r\<rfloor> else \<lceil>r\<rceil>)"

definition c_cast :: "int \<Rightarrow> int \<Rightarrow> jsnum \<Rightarrow> int option" where
  "c_cast lo hi d =
     (case d of
        Fin r \<Rightarrow> (let t = trunc r in if lo \<le> t \<and> t \<le> hi then Some t else None)
      | _ \<Rightarrow> None)"

lemma trunc_of_int [simp]: "trunc (of_int n) = n"
  by (simp add: trunc_def)

lemma trunc_of_nat [simp]: "trunc (of_nat n) = int n"
  by (simp add: trunc_def)

lemma trunc_numeral [simp]: "trunc (numeral n) = numeral n"
  by (simp add: trunc_def)

lemma trunc_0_1 [simp]: "trunc 0 = 0" "trunc 1 = 1"
  by (simp_all add: trunc_def)

lemma trunc_neg_numeral [simp]: "trunc (- numeral n) = - numeral n"
  by (simp add: trunc_def)

lemma trunc_mono_bounds:
  "of_int a \<le> r \<Longrightarrow> r \<le> of_int b \<Longrightarrow> a \<le> trunc r \<and> trunc r \<le> b"
  by (auto simp: trunc_def le_floor_iff floor_le_iff ceiling_le_iff le_ceiling_iff)

lemma c_cast_Some:
  "c_cast lo hi d = Some t \<longleftrightarrow> (\<exists>r. d = Fin r \<and> t = trunc r \<and> lo \<le> t \<and> t \<le> hi)"
  by (auto simp: c_cast_def Let_def split: jsnum.splits)

lemma c_cast_in_range:
  "of_int a \<le> r \<Longrightarrow> r \<le> of_int b \<Longrightarrow> lo \<le> a \<Longrightarrow> b \<le> hi \<Longrightarrow> c_cast lo hi (Fin r) = Some (trunc r)"
  using trunc_mono_bounds [of a r b] by (auto simp: c_cast_def Let_def)

text \<open>The integer a number is, if it is one.\<close>

definition whole_of :: "jsnum \<Rightarrow> int option" where
  "whole_of d = (case d of Fin r \<Rightarrow> if r = of_int (trunc r) then Some (trunc r) else None | _ \<Rightarrow> None)"

lemma whole_iff: "whole_of d = Some t \<longleftrightarrow> d = js_int t"
  by (auto simp: whole_of_def js_int_def split: jsnum.splits)

lemma whole_js_int [simp]: "whole_of (js_int t) = Some t"
  by (simp add: whole_iff)

lemma whole_js_nat [simp]: "whole_of (js_nat n) = Some (int n)"
  by (simp add: whole_iff js_int_def js_nat_def)

lemma whole_nonfinite [simp]: "whole_of NaN = None" "whole_of PInf = None" "whole_of NInf = None"
  by (simp_all add: whole_of_def)

lemma num_between:
  "\<not> num_le (Fin a) d \<or> num_lt (Fin b) d \<longleftrightarrow> \<not> (num_le (Fin a) d \<and> num_le d (Fin b))"
  by (cases d) auto

text \<open>
  The idiom of the gates: compare with the bounds, convert, convert back, compare.  With the
  bounds inside the C type the conversion is always defined, and the test accepts exactly the
  whole numbers between the bounds.
\<close>

lemma bounded_cast:
  assumes "clo \<le> lo" and "hi \<le> chi"
  shows "(if \<not> (num_le (Fin (of_int lo)) d \<and> num_le d (Fin (of_int hi))) then T
          else case c_cast clo chi d of None \<Rightarrow> U
               | Some t \<Rightarrow> if \<not> num_eq d (js_int t) then T else R t) =
         (case whole_of d of None \<Rightarrow> T | Some t \<Rightarrow> if lo \<le> t \<and> t \<le> hi then R t else T)"
proof (cases d)
  case (Fin r)
  show ?thesis
  proof (cases "of_int lo \<le> r \<and> r \<le> of_int hi")
    case True
    then have "c_cast clo chi (Fin r) = Some (trunc r)"
      using c_cast_in_range assms by blast
    moreover have "lo \<le> trunc r \<and> trunc r \<le> hi"
      using True trunc_mono_bounds by blast
    ultimately show ?thesis
      using True Fin by (auto simp: whole_of_def js_int_def)
  next
    case False
    have "\<not> (lo \<le> t \<and> t \<le> hi)" if "whole_of d = Some t" for t
      using that False Fin by (auto simp: whole_iff js_int_def)
    then show ?thesis
      using False Fin by (auto split: option.splits)
  qed
qed auto

section \<open>JavaScript values\<close>

text \<open>
  A value as the engine hands it over.  A string is the list of its UTF-8 bytes; an object (a
  typed array, an array, a function, a \<open>Buf\<close>) is a reference, and what it refers to is the
  engine's business (the theory \<open>Engine\<close>).
\<close>

datatype jsval =
    JUndef
  | JNull
  | JBool bool
  | JNum jsnum
  | JBig int
  | JStr string
  | JSym
  | JObj nat

definition is_obj :: "jsval \<Rightarrow> bool" where
  "is_obj v = (case v of JObj _ \<Rightarrow> True | _ \<Rightarrow> False)"

definition is_str :: "jsval \<Rightarrow> bool" where
  "is_str v = (case v of JStr _ \<Rightarrow> True | _ \<Rightarrow> False)"

definition is_bool :: "jsval \<Rightarrow> bool" where
  "is_bool v = (case v of JBool _ \<Rightarrow> True | _ \<Rightarrow> False)"

lemma is_kind_simps [simp]:
  "is_obj (JObj n)" "\<not> is_obj JUndef" "\<not> is_obj JNull" "\<not> is_obj (JBool b)" "\<not> is_obj (JNum d)"
  "\<not> is_obj (JBig i)" "\<not> is_obj (JStr s)" "\<not> is_obj JSym"
  "is_str (JStr s)" "\<not> is_str JUndef" "\<not> is_str JNull" "\<not> is_str (JBool b)" "\<not> is_str (JNum d)"
  "\<not> is_str (JBig i)" "\<not> is_str JSym" "\<not> is_str (JObj n)"
  "is_bool (JBool b)" "\<not> is_bool JUndef" "\<not> is_bool JNull" "\<not> is_bool (JNum d)"
  "\<not> is_bool (JBig i)" "\<not> is_bool (JStr s)" "\<not> is_bool JSym" "\<not> is_bool (JObj n)"
  by (simp_all add: is_obj_def is_str_def is_bool_def)

text \<open>\<open>JS_ToBool\<close>: the falsy values are undefined, null, false, 0, NaN, 0n and the empty string.\<close>

fun to_bool :: "jsval \<Rightarrow> bool" where
  "to_bool JUndef = False"
| "to_bool JNull = False"
| "to_bool (JBool b) = b"
| "to_bool (JNum d) = (d \<noteq> NaN \<and> d \<noteq> Fin 0)"
| "to_bool (JBig i) = (i \<noteq> 0)"
| "to_bool (JStr s) = (s \<noteq> [])"
| "to_bool JSym = True"
| "to_bool (JObj n) = True"

section \<open>Exceptions and the leaf monad\<close>

text \<open>
  How a native leaf ends other than by returning: \<open>JABC_THROW\<close> throws a JavaScript \<open>Error\<close>,
  a gate of \<open>arg.c\<close> throws the bare message string, a value thrown by JavaScript code passes
  through.  \<open>CUndef\<close> is no exception of the program: it stands for undefined behaviour in C, so
  that a model says where the code would reach it.
\<close>

datatype exn = ThrowError string | ThrowStr string | ThrowVal jsval | CUndef

type_synonym ('w, 'a) js = "'w \<Rightarrow> (exn + 'a) \<times> 'w"

definition jret :: "'a \<Rightarrow> ('w, 'a) js" where
  "jret x = (\<lambda>w. (Inr x, w))"

definition jthrow :: "exn \<Rightarrow> ('w, 'a) js" where
  "jthrow e = (\<lambda>w. (Inl e, w))"

definition jbind :: "('w, 'a) js \<Rightarrow> ('a \<Rightarrow> ('w, 'b) js) \<Rightarrow> ('w, 'b) js" where
  "jbind m f = (\<lambda>w. case m w of (Inl e, w') \<Rightarrow> (Inl e, w') | (Inr x, w') \<Rightarrow> f x w')"

definition jget :: "('w \<Rightarrow> 'a) \<Rightarrow> ('w, 'a) js" where
  "jget f = (\<lambda>w. (Inr (f w), w))"

definition jput :: "('w \<Rightarrow> 'w) \<Rightarrow> ('w, unit) js" where
  "jput f = (\<lambda>w. (Inr (), f w))"

definition jlift :: "exn + 'a \<Rightarrow> ('w, 'a) js" where
  "jlift r = (\<lambda>w. (r, w))"

definition jcatch :: "('w, 'a) js \<Rightarrow> (exn \<Rightarrow> ('w, 'a) js) \<Rightarrow> ('w, 'a) js" where
  "jcatch m h = (\<lambda>w. case m w of (Inl e, w') \<Rightarrow> h e w' | (Inr x, w') \<Rightarrow> (Inr x, w'))"

named_theorems js_defs "the definitions of the leaf monad and of the gates"

lemmas [js_defs] = jret_def jthrow_def jbind_def jget_def jput_def jlift_def jcatch_def

lemma jbind_jret [simp]: "jbind (jret x) f = f x"
  by (simp add: js_defs)

lemma jbind_jthrow [simp]: "jbind (jthrow e) f = jthrow e"
  by (simp add: js_defs)

lemma jret_apply [simp]: "jret x w = (Inr x, w)"
  by (simp add: jret_def)

lemma jthrow_apply [simp]: "jthrow e w = (Inl e, w)"
  by (simp add: jthrow_def)

lemma jget_apply [simp]: "jget f w = (Inr (f w), w)"
  by (simp add: jget_def)

lemma jput_apply [simp]: "jput f w = (Inr (), f w)"
  by (simp add: jput_def)

lemma jlift_apply [simp]: "jlift r w = (r, w)"
  by (simp add: jlift_def)

lemma jbind_Inr [simp]: "m w = (Inr x, w') \<Longrightarrow> jbind m f w = f x w'"
  by (simp add: jbind_def)

lemma jbind_Inl [simp]: "m w = (Inl e, w') \<Longrightarrow> jbind m f w = (Inl e, w')"
  by (simp add: jbind_def)

lemma jbind_eq_Inr:
  "jbind m f w = (Inr y, w'') \<longleftrightarrow> (\<exists>x w'. m w = (Inr x, w') \<and> f x w' = (Inr y, w''))"
  by (auto simp: jbind_def split: prod.splits sum.splits)

lemma jbind_eq_Inl:
  "jbind m f w = (Inl e, w'') \<longleftrightarrow>
     m w = (Inl e, w'') \<or> (\<exists>x w'. m w = (Inr x, w') \<and> f x w' = (Inl e, w''))"
  by (auto simp: jbind_def split: prod.splits sum.splits)

lemma jbind_assoc: "jbind (jbind m f) g = jbind m (\<lambda>x. jbind (f x) g)"
  by (rule ext) (auto simp: jbind_def split: prod.splits sum.splits)

text \<open>
  A computation is \<^emph>\<open>quiet\<close> when it leaves the world alone, whatever it returns.  That is what
  "runs no JavaScript" comes to: JavaScript may do anything to the world.
\<close>

definition quiet :: "('w, 'a) js \<Rightarrow> bool" where
  "quiet m = (\<forall>w. snd (m w) = w)"

named_theorems quiet_intros "computations that leave the world alone"

lemma quietD: "quiet m \<Longrightarrow> m w = (r, w') \<Longrightarrow> w' = w"
  by (metis quiet_def snd_conv)

lemma quiet_jret [quiet_intros]: "quiet (jret x)"
  by (simp add: quiet_def)

lemma quiet_jthrow [quiet_intros]: "quiet (jthrow e)"
  by (simp add: quiet_def)

lemma quiet_Pair [simp, quiet_intros]: "quiet (Pair r)"
  by (simp add: quiet_def)

lemma quiet_jlift [quiet_intros]: "quiet (jlift r)"
  by (simp add: quiet_def)

lemma quiet_jget [quiet_intros]: "quiet (jget f)"
  by (simp add: quiet_def)

lemma quiet_jbind [quiet_intros]: "quiet m \<Longrightarrow> (\<And>x. quiet (f x)) \<Longrightarrow> quiet (jbind m f)"
  unfolding quiet_def jbind_def by (auto split: prod.splits sum.splits) (metis snd_conv)+

lemma quiet_if [quiet_intros]:
  "(b \<Longrightarrow> quiet m) \<Longrightarrow> (\<not> b \<Longrightarrow> quiet n) \<Longrightarrow> quiet (if b then m else n)"
  by simp

lemma quiet_option [quiet_intros]:
  "(x = None \<Longrightarrow> quiet m) \<Longrightarrow> (\<And>y. x = Some y \<Longrightarrow> quiet (f y)) \<Longrightarrow>
   quiet (case x of None \<Rightarrow> m | Some y \<Rightarrow> f y)"
  by (cases x) auto

lemma quiet_jbind_apply:
  "quiet m \<Longrightarrow> jbind m f w = (case fst (m w) of Inl e \<Rightarrow> (Inl e, w) | Inr x \<Rightarrow> f x w)"
  by (auto simp: jbind_def quiet_def split: prod.splits sum.splits) (metis snd_conv)+

section \<open>Lists\<close>

lemma take_drop_shift: "take n (drop m xs) = drop m (take (m + n) xs)"
  by (simp add: take_drop add.commute)

text \<open>Overwrite the cells of a list from position \<open>i\<close> on (\<open>Uint8Array.set\<close>, \<open>memcpy\<close>).\<close>

definition splice_at :: "'a list \<Rightarrow> nat \<Rightarrow> 'a list \<Rightarrow> 'a list" where
  "splice_at xs i ys = take i xs @ ys @ drop (i + length ys) xs"

lemma length_splice_at [simp]: "i + length ys \<le> length xs \<Longrightarrow> length (splice_at xs i ys) = length xs"
  by (simp add: splice_at_def)

lemma splice_at_Nil [simp]: "splice_at xs i [] = xs"
  by (simp add: splice_at_def)

lemma take_splice_at: "n \<le> i \<Longrightarrow> i \<le> length xs \<Longrightarrow> take n (splice_at xs i ys) = take n xs"
  by (simp add: splice_at_def min_def)

lemma drop_splice_at:
  "i + length ys \<le> n \<Longrightarrow> i + length ys \<le> length xs \<Longrightarrow> drop n (splice_at xs i ys) = drop n xs"
  by (simp add: splice_at_def min_def)

lemma take_splice_at_all:
  "i \<le> length xs \<Longrightarrow> take (i + length ys) (splice_at xs i ys) = take i xs @ ys"
  by (simp add: splice_at_def)

lemma take_splice_twice:
  assumes "i + length p + length t \<le> length xs"
  shows "take (i + length p + length t) (splice_at (splice_at xs (i + length p) t) i p) =
    take i xs @ p @ t"
proof -
  have "take i (splice_at xs (i + length p) t) = take i xs"
    using assms by (intro take_splice_at) auto
  moreover have "drop (i + length p) (splice_at xs (i + length p) t) =
      t @ drop (i + length p + length t) xs"
    using assms by (simp add: splice_at_def)
  ultimately have "splice_at (splice_at xs (i + length p) t) i p =
      (take i xs @ p @ t) @ drop (i + length p + length t) xs"
    by (simp add: splice_at_def [of _ i])
  moreover have "i \<le> length xs" using assms by simp
  ultimately show ?thesis by simp
qed

end
