(* ===== verification/Engine.thy ===== *)
theory Engine
  imports Prelude
begin

text \<open>
  The two libraries under the program, as parameters of the model: the JavaScript engine
  (quickjs-ng, the git submodule \<open>qjs\<close>) and libabc (the submodule \<open>dog\<close>).  Their code is not
  part of the repository, so each is a record of the calls the bindings make, which every
  definition that makes them takes as an argument.  What the bindings rely on is stated once, as
  the predicates \<open>prim_quiet\<close>, \<open>abc_laws\<close> and \<open>engine_total\<close>, and is a named hypothesis
  wherever a theorem needs it.

  \<open>'w\<close> is the state of the engine: its heap, its array buffers, everything JavaScript can change.
  A call that can run JavaScript (a property read, a conversion of an object, a callback) returns
  a new state; a call that cannot is a function of the state.
\<close>

section \<open>The engine\<close>

record 'w engine =
  is_typed :: "'w \<Rightarrow> jsval \<Rightarrow> bool"
    \<comment> \<open>\<open>JS_GetTypedArrayType (v) >= 0\<close>\<close>
  typed_buffer :: "'w \<Rightarrow> jsval \<Rightarrow> exn + (jsval \<times> nat \<times> nat)"
    \<comment> \<open>\<open>JS_GetTypedArrayBuffer\<close>: the array buffer, the view's byte offset and byte length\<close>
  buffer_data :: "'w \<Rightarrow> jsval \<Rightarrow> addr \<times> nat"
    \<comment> \<open>\<open>JS_GetArrayBuffer\<close>: the base pointer and the size, \<open>(0, 0)\<close> for a detached buffer\<close>
  to_number :: "jsval \<Rightarrow> ('w, jsnum) js"
    \<comment> \<open>\<open>JS_ToFloat64\<close>\<close>
  to_int64 :: "jsval \<Rightarrow> ('w, int) js"
    \<comment> \<open>\<open>JS_ToInt64Ext\<close>, a Number or a BigInt modulo \<open>2 ^ 64\<close>\<close>
  is_callable :: "'w \<Rightarrow> jsval \<Rightarrow> bool"
  get_prop :: "jsval \<Rightarrow> string \<Rightarrow> ('w, jsval) js"
  set_prop :: "jsval \<Rightarrow> string \<Rightarrow> jsval \<Rightarrow> ('w, unit) js"
  is_array :: "'w \<Rightarrow> jsval \<Rightarrow> bool"
  get_length :: "jsval \<Rightarrow> ('w, int) js"
    \<comment> \<open>\<open>JS_GetLength\<close>, which reads the property \<open>length\<close>\<close>
  get_index :: "jsval \<Rightarrow> nat \<Rightarrow> ('w, jsval) js"
  call_fn :: "jsval \<Rightarrow> jsval list \<Rightarrow> ('w, jsval) js"
  new_view :: "jsval \<Rightarrow> nat \<Rightarrow> nat \<Rightarrow> ('w, jsval) js"
    \<comment> \<open>\<open>JS_NewTypedArray\<close> of bytes over a buffer, an offset and a length\<close>
  new_external :: "addr \<Rightarrow> nat \<Rightarrow> bool \<Rightarrow> ('w, jsval) js"
    \<comment> \<open>\<open>JS_NewUint8Array\<close> over foreign memory; the flag says whether a deallocator is attached\<close>
  detach_buffer :: "jsval \<Rightarrow> 'w \<Rightarrow> 'w"

text \<open>Converting a primitive to a number runs no JavaScript: only an object has a \<open>valueOf\<close>.\<close>

definition prim_quiet :: "'w engine \<Rightarrow> bool" where
  "prim_quiet E = (\<forall>v. \<not> is_obj v \<longrightarrow> quiet (to_number E v) \<and> quiet (to_int64 E v))"

text \<open>The engine itself does not run into undefined behaviour.\<close>

definition engine_defined :: "'w engine \<Rightarrow> bool" where
  "engine_defined E =
     (\<forall>v w. \<not> is_obj v \<longrightarrow> fst (to_number E v w) \<noteq> Inl CUndef \<and> fst (to_int64 E v w) \<noteq> Inl CUndef)"

text \<open>A Number converts to itself, and a missing argument (undefined) to a NaN.\<close>

definition num_faithful :: "'w engine \<Rightarrow> bool" where
  "num_faithful E = (\<forall>w. (\<forall>d. to_number E (JNum d) w = (Inr d, w)) \<and>
     to_number E JUndef w = (Inr NaN, w))"

lemma prim_quiet_number: "prim_quiet E \<Longrightarrow> \<not> is_obj v \<Longrightarrow> quiet (to_number E v)"
  by (simp add: prim_quiet_def)

lemma prim_quiet_int64: "prim_quiet E \<Longrightarrow> \<not> is_obj v \<Longrightarrow> quiet (to_int64 E v)"
  by (simp add: prim_quiet_def)

section \<open>libabc's byte buffers\<close>

text \<open>
  libabc's \<open>u8b\<close>, the \<open>u8 *buf[4]\<close> of the bindings: four pointers that cut a region into
  PAST (\<open>[b0, b1)\<close>), DATA (\<open>[b1, b2)\<close>) and IDLE (\<open>[b2, b3)\<close>).
\<close>

record u8b =
  b0 :: addr
  b1 :: addr
  b2 :: addr
  b3 :: addr

definition wf_u8b :: "u8b \<Rightarrow> bool" where
  "wf_u8b b = (b0 b \<le> b1 b \<and> b1 b \<le> b2 b \<and> b2 b \<le> b3 b)"

definition past_len :: "u8b \<Rightarrow> nat" where "past_len b = b1 b - b0 b"
definition data_len :: "u8b \<Rightarrow> nat" where "data_len b = b2 b - b1 b"
definition idle_len :: "u8b \<Rightarrow> nat" where "idle_len b = b3 b - b2 b"
definition busy_len :: "u8b \<Rightarrow> nat" where "busy_len b = b2 b - b0 b"

named_theorems u8b_defs "the regions of a four-pointer buffer"

lemmas [u8b_defs] = wf_u8b_def past_len_def data_len_def idle_len_def busy_len_def

text \<open>The codes of libabc's \<open>ok64\<close> that the bindings name.\<close>

datatype ok64 =
    OK | BADARG | NOROOM | NODATA | MISS | FILESKIP | FILESIGNAL | JABCSCANSTOP
  | HITTOOMANY | DELTFAIL | DELTBADFMT | PACKREF | PACKBADFMT | PACKBADOBJ | ZINFFAIL
  | REPACKTORN | REPACKBIG | REPACKBASE | REPACKROOM | REPACKLOGS | REPACKHDR | REPACKSUM
  | REPACKFAIL | FSWNOROOM | SNOROOM | HTTPNONE | HTTPBAD | HTTPFAIL | DIRCSPLIT | DIRCBADFMT
  | ODBFULL | ODBNOMEM | ODBCLOSED | ODBNOTYPE | ODBNOTHEX | ODBSHA40 | OTHERFAIL

record abc =
  u8bOK :: "u8b \<Rightarrow> bool"
  u8bUsed :: "u8b \<Rightarrow> nat \<Rightarrow> u8b option"   \<comment> \<open>\<open>None\<close> is any code but \<open>OK\<close>\<close>
  u8bFed :: "u8b \<Rightarrow> nat \<Rightarrow> u8b option"
  u8csFind :: "string \<Rightarrow> char \<Rightarrow> bool"
  pad_feed :: "nat \<Rightarrow> string \<Rightarrow> ok64"       \<comment> \<open>\<open>u8bFeed\<close> of a string into a fresh pad of a capacity\<close>
  PAGESIZE :: nat
  FILE_PATH_MAX_LEN :: nat

text \<open>
  What the bindings' comments say of these calls: \<open>u8bUsed\<close> moves the front of DATA and refuses to
  pass its end; \<open>u8bFed\<close> moves the end of DATA and refuses to pass the end of IDLE; \<open>u8bOK\<close>
  accepts ordered pointers only; \<open>u8bFeed\<close> into a pad fails when the pad is too small.
\<close>

definition abc_laws :: "abc \<Rightarrow> bool" where
  "abc_laws A \<longleftrightarrow>
     (\<forall>b. u8bOK A b \<longrightarrow> wf_u8b b) \<and>
     (\<forall>b. wf_u8b b \<and> b0 b \<noteq> 0 \<longrightarrow> u8bOK A b) \<and>
     (\<forall>b n. wf_u8b b \<longrightarrow>
        u8bUsed A b n = (if n \<le> data_len b then Some (b\<lparr>b1 := b1 b + n\<rparr>) else None)) \<and>
     (\<forall>b n. wf_u8b b \<longrightarrow>
        u8bFed A b n = (if n \<le> idle_len b then Some (b\<lparr>b2 := b2 b + n\<rparr>) else None)) \<and>
     (\<forall>s c. u8csFind A s c \<longleftrightarrow> c \<in> set s) \<and>
     (\<forall>n s. pad_feed A n s = (if length s \<le> n then OK else NOROOM))"

lemma abc_okD: "abc_laws A \<Longrightarrow> u8bOK A b \<Longrightarrow> wf_u8b b"
  by (simp add: abc_laws_def)

lemma abc_okI: "abc_laws A \<Longrightarrow> wf_u8b b \<Longrightarrow> b0 b \<noteq> 0 \<Longrightarrow> u8bOK A b"
  by (simp add: abc_laws_def)

lemma abc_used: "abc_laws A \<Longrightarrow> wf_u8b b \<Longrightarrow>
    u8bUsed A b n = (if n \<le> data_len b then Some (b\<lparr>b1 := b1 b + n\<rparr>) else None)"
  by (simp add: abc_laws_def)

lemma abc_fed: "abc_laws A \<Longrightarrow> wf_u8b b \<Longrightarrow>
    u8bFed A b n = (if n \<le> idle_len b then Some (b\<lparr>b2 := b2 b + n\<rparr>) else None)"
  by (simp add: abc_laws_def)

lemma abc_find: "abc_laws A \<Longrightarrow> u8csFind A s c \<longleftrightarrow> c \<in> set s"
  by (simp add: abc_laws_def)

lemma abc_pad_feed: "abc_laws A \<Longrightarrow> pad_feed A n s = (if length s \<le> n then OK else NOROOM)"
  by (simp add: abc_laws_def)

section \<open>A concrete engine\<close>

text \<open>
  An engine and a libabc that satisfy the laws, for the closed instances of the theorems.  The
  engine's state is a list of array buffers (base address and size); object \<open>2 k\<close> is buffer
  \<open>k\<close>, object \<open>2 k + 1\<close> is a view of the whole of it.  Reading any property yields the state's
  current answer from \<open>props\<close>; reading index \<open>i\<close> of any array yields the view of buffer \<open>i\<close>.
\<close>

record sample_state =
  bufs :: "(addr \<times> nat) list"
  props :: "string \<Rightarrow> jsval"

definition sample_buf :: "sample_state \<Rightarrow> nat \<Rightarrow> addr \<times> nat" where
  "sample_buf s k = (if k < length (bufs s) then bufs s ! k else (0, 0))"

definition sample_number :: "jsval \<Rightarrow> jsnum" where
  "sample_number v = (case v of JNum d \<Rightarrow> d | JBool b \<Rightarrow> Fin (if b then 1 else 0) | JNull \<Rightarrow> Fin 0 | _ \<Rightarrow> NaN)"

definition sample_engine :: "sample_state engine" where
  "sample_engine = \<lparr>
     is_typed = (\<lambda>s v. case v of JObj n \<Rightarrow> odd n | _ \<Rightarrow> False),
     typed_buffer = (\<lambda>s v. case v of JObj n \<Rightarrow> Inr (JObj (n - 1), 0, snd (sample_buf s (n div 2)))
                                   | _ \<Rightarrow> Inl (ThrowError ''not a view'')),
     buffer_data = (\<lambda>s v. case v of JObj n \<Rightarrow> sample_buf s (n div 2) | _ \<Rightarrow> (0, 0)),
     to_number = (\<lambda>v. jret (sample_number v)),
     to_int64 = (\<lambda>v. jret (case v of JBig i \<Rightarrow> i | _ \<Rightarrow> 0)),
     is_callable = (\<lambda>s v. False),
     get_prop = (\<lambda>v p. jget (\<lambda>s. props s p)),
     set_prop = (\<lambda>v p x. jput (\<lambda>s. s\<lparr>props := (props s)(p := x)\<rparr>)),
     is_array = (\<lambda>s v. is_obj v),
     get_length = (\<lambda>v. jget (\<lambda>s. int (length (bufs s)))),
     get_index = (\<lambda>v i. jret (JObj (2 * i + 1))),
     call_fn = (\<lambda>f vs. jret JUndef),
     new_view = (\<lambda>b off n. jret b),
     new_external = (\<lambda>p n f. \<lambda>s. (Inr (JObj (2 * length (bufs s) + 1)), s\<lparr>bufs := bufs s @ [(p, n)]\<rparr>)),
     detach_buffer = (\<lambda>v s. case v of JObj n \<Rightarrow> s\<lparr>bufs := (bufs s)[n div 2 := (0, 0)]\<rparr> | _ \<Rightarrow> s) \<rparr>"

definition sample_abc :: abc where
  "sample_abc = \<lparr>
     u8bOK = (\<lambda>b. b0 b \<noteq> 0 \<and> wf_u8b b),
     u8bUsed = (\<lambda>b n. if n \<le> data_len b then Some (b\<lparr>b1 := b1 b + n\<rparr>) else None),
     u8bFed = (\<lambda>b n. if n \<le> idle_len b then Some (b\<lparr>b2 := b2 b + n\<rparr>) else None),
     u8csFind = (\<lambda>s c. c \<in> set s),
     pad_feed = (\<lambda>n s. if length s \<le> n then OK else NOROOM),
     PAGESIZE = 4096,
     FILE_PATH_MAX_LEN = 1024 \<rparr>"

lemma sample_abc_laws: "abc_laws sample_abc"
  by (simp add: abc_laws_def sample_abc_def)

lemma sample_prim_quiet: "prim_quiet sample_engine"
  by (simp add: prim_quiet_def sample_engine_def quiet_jret)

lemma sample_engine_defined: "engine_defined sample_engine"
  by (simp add: engine_defined_def sample_engine_def)

lemma sample_num_faithful: "num_faithful sample_engine"
  by (simp add: num_faithful_def sample_engine_def sample_number_def)

end
