(* ===== verification/Arg.thy ===== *)
theory Arg
  imports Engine
begin

text \<open>
  \<open>arg.c\<close>: the boundary between JavaScript and C.  The number gates turn a JavaScript number into
  a C one or throw; the buffer gates turn a typed array into a \<open>u8b\<close>; \<open>JABCRunsOf\<close> and
  \<open>JABCBufIn\<close> unwrap views only after every property they need has been read, because reading one
  may run JavaScript that frees the memory.  The locale \<open>number_gate\<close> states what all the number
  gates promise; each gate interprets it.
\<close>

section \<open>The number gates\<close>

definition JABCScalar :: "jsval \<Rightarrow> ('w, unit) js" where
  "JABCScalar arg =
     (if \<not> is_obj arg then jret ()
      else jthrow (ThrowStr ''expected a number, not an object''))"

definition JABCu64Of :: "'w engine \<Rightarrow> jsval \<Rightarrow> ('w, u64) js" where
  "JABCu64Of E arg =
     jbind (JABCScalar arg) (\<lambda>_.
     jbind (to_number E arg) (\<lambda>d.
       if \<not> num_le (Fin 0) d \<or> num_lt (Fin 9007199254740991) d
       then jthrow (ThrowStr ''expected a whole non-negative number'')
       else case c_cast 0 (2 ^ 64 - 1) d of
              None \<Rightarrow> jthrow CUndef
            | Some t \<Rightarrow>
                if \<not> num_eq d (js_int t)
                then jthrow (ThrowStr ''expected a whole non-negative number'')
                else jret (word_of_int t)))"

definition JABCi64Of :: "'w engine \<Rightarrow> jsval \<Rightarrow> ('w, i64) js" where
  "JABCi64Of E arg =
     jbind (JABCScalar arg) (\<lambda>_.
     jbind (to_number E arg) (\<lambda>d.
       if \<not> (num_le (Fin (- 9007199254740991)) d \<and> num_le d (Fin 9007199254740991))
       then jthrow (ThrowStr ''expected a whole number'')
       else case c_cast (- (2 ^ 63)) (2 ^ 63 - 1) d of
              None \<Rightarrow> jthrow CUndef
            | Some t \<Rightarrow>
                if \<not> num_eq d (js_int t)
                then jthrow (ThrowStr ''expected a whole number'')
                else jret (word_of_int t)))"

definition JABCu32Of :: "'w engine \<Rightarrow> jsval \<Rightarrow> ('w, u32) js" where
  "JABCu32Of E arg =
     jbind (JABCu64Of E arg) (\<lambda>v.
       if 0xffffffff < v then jthrow (ThrowStr ''number does not fit 32 bits'')
       else jret (ucast v))"

definition JABCFdOf :: "'w engine \<Rightarrow> jsval \<Rightarrow> ('w, 32 word) js" where
  "JABCFdOf E arg =
     jbind (JABCu64Of E arg) (\<lambda>v.
       if 0x7fffffff < v then jthrow (ThrowStr ''expected a file descriptor'')
       else jret (ucast v))"

definition JABCu8Of :: "'w engine \<Rightarrow> jsval \<Rightarrow> ('w, u8) js" where
  "JABCu8Of E arg =
     jbind (JABCu64Of E arg) (\<lambda>v.
       if 0xff < v then jthrow (ThrowStr ''number does not fit a byte'')
       else jret (ucast v))"

definition JABCBigU64 :: "u64 \<Rightarrow> jsval" where
  "JABCBigU64 v = JBig (uint v)"

definition JABCBigU64Of :: "'w engine \<Rightarrow> jsval \<Rightarrow> ('w, u64) js" where
  "JABCBigU64Of E arg =
     jbind (JABCScalar arg) (\<lambda>_.
     jbind (to_int64 E arg) (\<lambda>v. jret (word_of_int v)))"

lemmas gate_defs = JABCu64Of_def JABCi64Of_def JABCu32Of_def JABCFdOf_def JABCu8Of_def

lemma JABCScalar_prim [simp]: "\<not> is_obj v \<Longrightarrow> JABCScalar v = jret ()"
  by (simp add: JABCScalar_def)

lemma JABCScalar_obj [simp]:
  "is_obj v \<Longrightarrow> JABCScalar v = jthrow (ThrowStr ''expected a number, not an object'')"
  by (simp add: JABCScalar_def)

subsection \<open>What every number gate promises\<close>

text \<open>
  A gate with a range \<open>[lo, hi]\<close>: an object is refused before the engine is asked anything; an
  exception of the engine passes through; a whole number inside the range comes out as itself;
  everything else (NaN, an infinity, a fraction, a number outside) is thrown back.
\<close>

locale number_gate =
  fixes E :: "'w engine" and gate :: "jsval \<Rightarrow> ('w, 'a) js" and val :: "'a \<Rightarrow> int"
    and lo hi :: int
  assumes gate_obj: "is_obj v \<Longrightarrow>
      gate v w = (Inl (ThrowStr ''expected a number, not an object''), w)"
    and gate_exn: "\<not> is_obj v \<Longrightarrow> to_number E v w = (Inl e, w') \<Longrightarrow> gate v w = (Inl e, w')"
    and gate_in: "\<not> is_obj v \<Longrightarrow> to_number E v w = (Inr (js_int t), w') \<Longrightarrow> lo \<le> t \<Longrightarrow> t \<le> hi \<Longrightarrow>
      \<exists>x. gate v w = (Inr x, w') \<and> val x = t"
    and gate_out: "\<not> is_obj v \<Longrightarrow> to_number E v w = (Inr d, w') \<Longrightarrow>
      (\<And>t. d = js_int t \<Longrightarrow> lo \<le> t \<Longrightarrow> t \<le> hi \<Longrightarrow> False) \<Longrightarrow>
      \<exists>m. gate v w = (Inl (ThrowStr m), w')"
begin

lemma gate_Inr:
  assumes "gate v w = (Inr x, w')"
  shows "\<not> is_obj v \<and> to_number E v w = (Inr (js_int (val x)), w') \<and> lo \<le> val x \<and> val x \<le> hi"
proof (cases "is_obj v")
  case True
  then show ?thesis using assms gate_obj by simp
next
  case False
  obtain r w1 where t: "to_number E v w = (r, w1)" by (cases "to_number E v w")
  then show ?thesis
  proof (cases r)
    case (Inl e)
    with t False gate_exn [of v w e w1] assms show ?thesis by simp
  next
    case (Inr d)
    show ?thesis
    proof (cases "\<exists>t. d = js_int t \<and> lo \<le> t \<and> t \<le> hi")
      case True
      then obtain n where n: "d = js_int n" "lo \<le> n" "n \<le> hi" by blast
      with gate_in [OF False _ n(2,3)] t Inr assms False show ?thesis by fastforce
    next
      case no: False
      with gate_out [OF False] t Inr assms show ?thesis by fastforce
    qed
  qed
qed

lemma gate_range: "gate v w = (Inr x, w') \<Longrightarrow> lo \<le> val x \<and> val x \<le> hi"
  using gate_Inr by blast

lemma gate_defined:
  assumes "engine_defined E" and "gate v w = (Inl e, w')"
  shows "e \<noteq> CUndef"
proof (cases "is_obj v")
  case True
  then show ?thesis using assms(2) gate_obj [of v w] by auto
next
  case False
  with assms(1) have no: "fst (to_number E v w) \<noteq> Inl CUndef" by (simp add: engine_defined_def)
  obtain r w1 where t: "to_number E v w = (r, w1)" by (cases "to_number E v w")
  show ?thesis
  proof (cases r)
    case (Inl e')
    with no t gate_exn [OF False] assms(2) show ?thesis by auto
  next
    case (Inr d)
    show ?thesis
    proof (cases "\<exists>t. d = js_int t \<and> lo \<le> t \<and> t \<le> hi")
      case True
      with gate_in [OF False] t Inr assms(2) show ?thesis by fastforce
    next
      case no: False
      with gate_out [OF False] t Inr assms(2) show ?thesis by fastforce
    qed
  qed
qed

lemma gate_quiet:
  assumes "prim_quiet E"
  shows "quiet (gate v)"
  unfolding quiet_def
proof
  fix w
  show "snd (gate v w) = w"
  proof (cases "is_obj v")
    case True
    then show ?thesis by (simp add: gate_obj)
  next
    case False
    with assms have q: "snd (to_number E v w) = w" by (simp add: prim_quiet_def quiet_def)
    then obtain r where t: "to_number E v w = (r, w)" by (cases "to_number E v w") auto
    show ?thesis
    proof (cases r)
      case (Inl e)
      with t gate_exn [OF False] show ?thesis by simp
    next
      case (Inr d)
      show ?thesis
      proof (cases "\<exists>t. d = js_int t \<and> lo \<le> t \<and> t \<le> hi")
        case True
        with gate_in [OF False] t Inr show ?thesis by fastforce
      next
        case no: False
        with gate_out [OF False] t Inr show ?thesis by fastforce
      qed
    qed
  qed
qed

lemma gate_of_number:
  assumes "num_faithful E" "lo \<le> t" "t \<le> hi"
  shows "\<exists>x. gate (JNum (js_int t)) w = (Inr x, w) \<and> val x = t"
  using gate_in [of "JNum (js_int t)" w t w] assms by (simp add: num_faithful_def)

lemma gate_accepts:
  assumes "num_faithful E"
  shows "(\<exists>x. gate (JNum d) w = (Inr x, w) \<and> val x = t) \<longleftrightarrow> d = js_int t \<and> lo \<le> t \<and> t \<le> hi"
proof
  assume "\<exists>x. gate (JNum d) w = (Inr x, w) \<and> val x = t"
  then show "d = js_int t \<and> lo \<le> t \<and> t \<le> hi"
    using assms by (auto dest!: gate_Inr simp: num_faithful_def)
qed (use assms gate_of_number in blast)

end

subsection \<open>Each gate keeps the promise\<close>

lemma JABCu64Of_prim:
  assumes "\<not> is_obj v"
  shows "JABCu64Of E v = jbind (to_number E v) (\<lambda>d.
    case whole_of d of
      None \<Rightarrow> jthrow (ThrowStr ''expected a whole non-negative number'')
    | Some t \<Rightarrow> if 0 \<le> t \<and> t \<le> 9007199254740991 then jret (word_of_int t)
                else jthrow (ThrowStr ''expected a whole non-negative number''))"
  unfolding JABCu64Of_def num_between JABCScalar_prim [OF assms] jbind_jret
  by (rule arg_cong [where f = "jbind (to_number E v)"], rule ext,
      rule bounded_cast [where lo = 0 and hi = 9007199254740991, unfolded of_int_0 of_int_numeral])
    simp_all

lemma JABCi64Of_prim:
  assumes "\<not> is_obj v"
  shows "JABCi64Of E v = jbind (to_number E v) (\<lambda>d.
    case whole_of d of
      None \<Rightarrow> jthrow (ThrowStr ''expected a whole number'')
    | Some t \<Rightarrow> if - 9007199254740991 \<le> t \<and> t \<le> 9007199254740991 then jret (word_of_int t)
                else jthrow (ThrowStr ''expected a whole number''))"
  unfolding JABCi64Of_def JABCScalar_prim [OF assms] jbind_jret
  by (rule arg_cong [where f = "jbind (to_number E v)"], rule ext,
      rule bounded_cast [where lo = "- 9007199254740991" and hi = 9007199254740991,
        unfolded of_int_neg_numeral of_int_numeral])
    simp_all

text \<open>The three narrower gates are the u64 gate and an upper bound.\<close>

lemma narrow_gate:
  assumes "\<not> is_obj v" and "m \<le> 9007199254740991" and "0 \<le> m"
  shows "jbind (JABCu64Of E v) (\<lambda>x. if (word_of_int m :: u64) < x then jthrow T else R x) =
    jbind (to_number E v) (\<lambda>d.
      case whole_of d of
        None \<Rightarrow> jthrow (ThrowStr ''expected a whole non-negative number'')
      | Some t \<Rightarrow> if 0 \<le> t \<and> t \<le> m then R (word_of_int t)
                  else if 0 \<le> t \<and> t \<le> 9007199254740991 then jthrow T
                  else jthrow (ThrowStr ''expected a whole non-negative number''))"
proof -
  have less: "(word_of_int m :: u64) < word_of_int t \<longleftrightarrow> m < t" if "0 \<le> t" "t \<le> 9007199254740991" for t
    using that assms(2,3) by (simp add: word_less_def uint_word_of_int)
  show ?thesis
    unfolding JABCu64Of_prim [OF assms(1)] jbind_assoc
    by (rule arg_cong [where f = "jbind (to_number E v)"], rule ext)
      (use assms(2,3) in \<open>auto simp: less not_less split: option.splits\<close>)
qed

lemma uint_u64_of: "0 \<le> t \<Longrightarrow> t \<le> 9007199254740991 \<Longrightarrow> uint (word_of_int t :: u64) = t"
  by (simp add: uint_word_of_int)

lemma sint_i64_of:
  "- 9007199254740991 \<le> t \<Longrightarrow> t \<le> 9007199254740991 \<Longrightarrow> sint (word_of_int t :: i64) = t"
  by (simp add: sint_sbintrunc' signed_take_bit_int_eq_self)

interpretation u64_gate: number_gate E "JABCu64Of E" uint 0 9007199254740991 for E
proof
  fix v w t w'
  assume "\<not> is_obj v" "to_number E v w = (Inr (js_int t), w')" "0 \<le> t" "t \<le> 9007199254740991"
  then show "\<exists>x. JABCu64Of E v w = (Inr x, w') \<and> uint x = t"
    by (simp add: JABCu64Of_prim uint_u64_of)
next
  fix v w d w'
  assume "\<not> is_obj v" "to_number E v w = (Inr d, w')"
    and "\<And>t. d = js_int t \<Longrightarrow> 0 \<le> t \<Longrightarrow> t \<le> 9007199254740991 \<Longrightarrow> False"
  then show "\<exists>m. JABCu64Of E v w = (Inl (ThrowStr m), w')"
    by (auto simp: JABCu64Of_prim whole_iff split: option.splits)
qed (simp_all add: JABCu64Of_def JABCu64Of_prim)

interpretation i64_gate: number_gate E "JABCi64Of E" sint "- 9007199254740991" 9007199254740991 for E
proof
  fix v w t w'
  assume "\<not> is_obj v" "to_number E v w = (Inr (js_int t), w')"
    "- 9007199254740991 \<le> t" "t \<le> 9007199254740991"
  then show "\<exists>x. JABCi64Of E v w = (Inr x, w') \<and> sint x = t"
    by (simp add: JABCi64Of_prim sint_i64_of)
next
  fix v w d w'
  assume "\<not> is_obj v" "to_number E v w = (Inr d, w')"
    and "\<And>t. d = js_int t \<Longrightarrow> - 9007199254740991 \<le> t \<Longrightarrow> t \<le> 9007199254740991 \<Longrightarrow> False"
  then show "\<exists>m. JABCi64Of E v w = (Inl (ThrowStr m), w')"
    by (auto simp: JABCi64Of_prim whole_iff split: option.splits)
qed (simp_all add: JABCi64Of_def JABCi64Of_prim)

lemma JABCu32Of_prim:
  assumes "\<not> is_obj v"
  shows "JABCu32Of E v = jbind (to_number E v) (\<lambda>d.
    case whole_of d of
      None \<Rightarrow> jthrow (ThrowStr ''expected a whole non-negative number'')
    | Some t \<Rightarrow> if 0 \<le> t \<and> t \<le> 4294967295 then jret (ucast (word_of_int t :: u64))
                else if 0 \<le> t \<and> t \<le> 9007199254740991
                then jthrow (ThrowStr ''number does not fit 32 bits'')
                else jthrow (ThrowStr ''expected a whole non-negative number''))"
  using narrow_gate [OF assms, of 4294967295] by (simp add: JABCu32Of_def)

lemma JABCFdOf_prim:
  assumes "\<not> is_obj v"
  shows "JABCFdOf E v = jbind (to_number E v) (\<lambda>d.
    case whole_of d of
      None \<Rightarrow> jthrow (ThrowStr ''expected a whole non-negative number'')
    | Some t \<Rightarrow> if 0 \<le> t \<and> t \<le> 2147483647 then jret (ucast (word_of_int t :: u64))
                else if 0 \<le> t \<and> t \<le> 9007199254740991
                then jthrow (ThrowStr ''expected a file descriptor'')
                else jthrow (ThrowStr ''expected a whole non-negative number''))"
  using narrow_gate [OF assms, of 2147483647] by (simp add: JABCFdOf_def)

lemma JABCu8Of_prim:
  assumes "\<not> is_obj v"
  shows "JABCu8Of E v = jbind (to_number E v) (\<lambda>d.
    case whole_of d of
      None \<Rightarrow> jthrow (ThrowStr ''expected a whole non-negative number'')
    | Some t \<Rightarrow> if 0 \<le> t \<and> t \<le> 255 then jret (ucast (word_of_int t :: u64))
                else if 0 \<le> t \<and> t \<le> 9007199254740991
                then jthrow (ThrowStr ''number does not fit a byte'')
                else jthrow (ThrowStr ''expected a whole non-negative number''))"
  using narrow_gate [OF assms, of 255] by (simp add: JABCu8Of_def)

lemma uint_ucast_word_of_int:
  "0 \<le> t \<Longrightarrow> t < 2 ^ LENGTH('a::len) \<Longrightarrow> t \<le> 9007199254740991 \<Longrightarrow>
   uint (ucast (word_of_int t :: u64) :: 'a word) = t"
  by (simp add: unsigned_ucast_eq uint_word_of_int take_bit_int_eq_self)

lemma sint_fd_of:
  "0 \<le> t \<Longrightarrow> t \<le> 2147483647 \<Longrightarrow> sint (ucast (word_of_int t :: u64) :: 32 word) = t"
  by (simp add: ucast_eq uint_word_of_int sint_sbintrunc' signed_take_bit_int_eq_self)

interpretation u32_gate: number_gate E "JABCu32Of E" uint 0 4294967295 for E
proof
  fix v w t w'
  assume "\<not> is_obj v" "to_number E v w = (Inr (js_int t), w')" "0 \<le> t" "t \<le> 4294967295"
  then show "\<exists>x. JABCu32Of E v w = (Inr x, w') \<and> uint x = t"
    by (simp add: JABCu32Of_prim uint_ucast_word_of_int)
next
  fix v w d w'
  assume "\<not> is_obj v" "to_number E v w = (Inr d, w')"
    and "\<And>t. d = js_int t \<Longrightarrow> 0 \<le> t \<Longrightarrow> t \<le> 4294967295 \<Longrightarrow> False"
  then show "\<exists>m. JABCu32Of E v w = (Inl (ThrowStr m), w')"
    by (auto simp: JABCu32Of_prim whole_iff split: option.splits)
qed (simp_all add: JABCu32Of_def JABCu64Of_def JABCu32Of_prim JABCu64Of_prim)

interpretation fd_gate: number_gate E "JABCFdOf E" sint 0 2147483647 for E
proof
  fix v w t w'
  assume "\<not> is_obj v" "to_number E v w = (Inr (js_int t), w')" "0 \<le> t" "t \<le> 2147483647"
  then show "\<exists>x. JABCFdOf E v w = (Inr x, w') \<and> sint x = t"
    by (simp add: JABCFdOf_prim sint_fd_of)
next
  fix v w d w'
  assume "\<not> is_obj v" "to_number E v w = (Inr d, w')"
    and "\<And>t. d = js_int t \<Longrightarrow> 0 \<le> t \<Longrightarrow> t \<le> 2147483647 \<Longrightarrow> False"
  then show "\<exists>m. JABCFdOf E v w = (Inl (ThrowStr m), w')"
    by (auto simp: JABCFdOf_prim whole_iff split: option.splits)
qed (simp_all add: JABCFdOf_def JABCu64Of_def JABCFdOf_prim JABCu64Of_prim)

interpretation u8_gate: number_gate E "JABCu8Of E" uint 0 255 for E
proof
  fix v w t w'
  assume "\<not> is_obj v" "to_number E v w = (Inr (js_int t), w')" "0 \<le> t" "t \<le> 255"
  then show "\<exists>x. JABCu8Of E v w = (Inr x, w') \<and> uint x = t"
    by (simp add: JABCu8Of_prim uint_ucast_word_of_int)
next
  fix v w d w'
  assume "\<not> is_obj v" "to_number E v w = (Inr d, w')"
    and "\<And>t. d = js_int t \<Longrightarrow> 0 \<le> t \<Longrightarrow> t \<le> 255 \<Longrightarrow> False"
  then show "\<exists>m. JABCu8Of E v w = (Inl (ThrowStr m), w')"
    by (auto simp: JABCu8Of_prim whole_iff split: option.splits)
qed (simp_all add: JABCu8Of_def JABCu64Of_def JABCu8Of_prim JABCu64Of_prim)

lemma JABCBigU64Of_quiet [quiet_intros]: "prim_quiet E \<Longrightarrow> quiet (JABCBigU64Of E v)"
  by (cases "is_obj v") (auto simp: JABCBigU64Of_def intro!: quiet_intros dest: prim_quiet_int64)

lemmas gates_quiet [quiet_intros] =
  u64_gate.gate_quiet i64_gate.gate_quiet u32_gate.gate_quiet fd_gate.gate_quiet u8_gate.gate_quiet

section \<open>Views\<close>

definition JABCViewOf :: "'w engine \<Rightarrow> jsval \<Rightarrow> ('w, addr \<times> nat) js" where
  "JABCViewOf E arg = (\<lambda>w.
     if \<not> is_typed E w arg then (Inl (ThrowStr ''expected a typed array''), w)
     else case typed_buffer E w arg of
       Inl e \<Rightarrow> (Inl e, w)
     | Inr (ab, off, n) \<Rightarrow>
         let p = fst (buffer_data E w ab) in
         if p = 0 \<and> n \<noteq> 0 then (Inl (ThrowStr ''detached buffer''), w)
         else (Inr (p + off, n), w))"

definition JABCViewSame :: "'w engine \<Rightarrow> jsval \<Rightarrow> addr \<Rightarrow> nat \<Rightarrow> ('w, unit) js" where
  "JABCViewSame E arg base len =
     jbind (JABCViewOf E arg) (\<lambda>(now, n).
       if now \<noteq> base \<or> n \<noteq> len
       then jthrow (ThrowStr ''the buffer moved while the call was running'')
       else jret ())"

definition JABCDataOf :: "'w engine \<Rightarrow> abc \<Rightarrow> jsval \<Rightarrow> ('w, u8b) js" where
  "JABCDataOf E A arg =
     jbind (JABCViewOf E arg) (\<lambda>(base, len).
       let buf = \<lparr>b0 = base, b1 = base, b2 = base + len, b3 = base + len\<rparr> in
       if \<not> u8bOK A buf then jthrow (ThrowStr ''bad buffer bounds'') else jret buf)"

definition JABCIdleOf :: "'w engine \<Rightarrow> abc \<Rightarrow> jsval \<Rightarrow> ('w, u8b) js" where
  "JABCIdleOf E A arg =
     jbind (JABCViewOf E arg) (\<lambda>(base, len).
       let buf = \<lparr>b0 = base, b1 = base, b2 = base, b3 = base + len\<rparr> in
       if \<not> u8bOK A buf then jthrow (ThrowStr ''bad buffer bounds'') else jret buf)"

text \<open>An offset inside a slice of \<open>wlen\<close> bytes, and the two ways to place a cursor there.\<close>

definition JABCOffOf :: "'w engine \<Rightarrow> nat \<Rightarrow> jsval \<Rightarrow> ('w, nat) js" where
  "JABCOffOf E wlen arg =
     jbind (JABCu64Of E arg) (\<lambda>v.
       if wlen < unat v then jthrow (ThrowStr ''offset is past the end of the buffer'')
       else jret (unat v))"

definition JABCBufAt :: "'w engine \<Rightarrow> abc \<Rightarrow> u8b \<Rightarrow> jsval \<Rightarrow> ('w, u8b) js" where
  "JABCBufAt E A buf arg =
     jbind (JABCOffOf E (data_len buf) arg) (\<lambda>off.
       case u8bUsed A buf off of
         None \<Rightarrow> jthrow (ThrowStr ''offset is past the end of the buffer'')
       | Some buf' \<Rightarrow> jret buf')"

definition JABCBufFedAt :: "abc \<Rightarrow> u8b \<Rightarrow> u64 \<Rightarrow> ('w, u8b) js" where
  "JABCBufFedAt A buf off =
     (if idle_len buf < unat off
      then jthrow (ThrowStr ''offset is past the end of the buffer'')
      else case u8bFed A buf (unat off) of
             None \<Rightarrow> jthrow (ThrowStr ''offset is past the end of the buffer'')
           | Some buf' \<Rightarrow> jret buf')"

definition JABCBufFed :: "'w engine \<Rightarrow> abc \<Rightarrow> u8b \<Rightarrow> jsval \<Rightarrow> ('w, u8b) js" where
  "JABCBufFed E A buf arg = jbind (JABCu64Of E arg) (\<lambda>off. JABCBufFedAt A buf off)"

lemma JABCViewOf_quiet [quiet_intros]: "quiet (JABCViewOf E v)"
  by (auto simp: quiet_def JABCViewOf_def Let_def split: sum.splits)

lemma JABCDataOf_quiet [quiet_intros]: "quiet (JABCDataOf E A v)"
  unfolding JABCDataOf_def by (auto simp: Let_def split: prod.splits intro!: quiet_intros)

lemma JABCIdleOf_quiet [quiet_intros]: "quiet (JABCIdleOf E A v)"
  unfolding JABCIdleOf_def by (auto simp: Let_def split: prod.splits intro!: quiet_intros)

lemma JABCViewSame_quiet [quiet_intros]: "quiet (JABCViewSame E v base len)"
  unfolding JABCViewSame_def by (auto split: prod.splits intro!: quiet_intros)

lemma JABCOffOf_quiet [quiet_intros]: "prim_quiet E \<Longrightarrow> quiet (JABCOffOf E n v)"
  unfolding JABCOffOf_def by (intro quiet_intros)

lemma JABCBufAt_quiet [quiet_intros]: "prim_quiet E \<Longrightarrow> quiet (JABCBufAt E A b v)"
  unfolding JABCBufAt_def by (intro quiet_intros)

lemma JABCBufFedAt_quiet [quiet_intros]: "quiet (JABCBufFedAt A b off)"
  unfolding JABCBufFedAt_def by (intro quiet_intros)

lemma JABCBufFed_quiet [quiet_intros]: "prim_quiet E \<Longrightarrow> quiet (JABCBufFed E A b v)"
  unfolding JABCBufFed_def by (intro quiet_intros)

lemma JABCViewSame_Inr:
  "JABCViewSame E v base len w = (Inr u, w') \<longleftrightarrow> JABCViewOf E v w = (Inr (base, len), w')"
  by (auto simp: JABCViewSame_def jbind_def split: prod.splits sum.splits if_splits)

lemma JABCDataOf_Inr:
  "JABCDataOf E A v w = (Inr b, w') \<longleftrightarrow>
     (\<exists>base len. JABCViewOf E v w = (Inr (base, len), w') \<and> u8bOK A b \<and>
        b = \<lparr>b0 = base, b1 = base, b2 = base + len, b3 = base + len\<rparr>)"
  by (auto simp: JABCDataOf_def jbind_eq_Inr Let_def split: if_splits)

lemma JABCIdleOf_Inr:
  "JABCIdleOf E A v w = (Inr b, w') \<longleftrightarrow>
     (\<exists>base len. JABCViewOf E v w = (Inr (base, len), w') \<and> u8bOK A b \<and>
        b = \<lparr>b0 = base, b1 = base, b2 = base, b3 = base + len\<rparr>)"
  by (auto simp: JABCIdleOf_def jbind_eq_Inr Let_def split: if_splits)

section \<open>Runs: collect first, unwrap after\<close>

text \<open>
  Pass 1 reads the elements of the array, which may run a getter or a Proxy trap; pass 2 unwraps
  them and runs no JavaScript.
\<close>

primrec runs_collect :: "'w engine \<Rightarrow> jsval \<Rightarrow> nat \<Rightarrow> nat \<Rightarrow> ('w, jsval list) js" where
  "runs_collect E arr i 0 = jret []"
| "runs_collect E arr i (Suc n) =
     jbind (get_index E arr i) (\<lambda>v.
     jbind (runs_collect E arr (Suc i) n) (\<lambda>vs. jret (v # vs)))"

primrec runs_unwrap :: "'w engine \<Rightarrow> jsval list \<Rightarrow> ('w, (addr \<times> nat) list) js" where
  "runs_unwrap E [] = jret []"
| "runs_unwrap E (v # vs) =
     jbind (JABCViewOf E v) (\<lambda>r.
     jbind (runs_unwrap E vs) (\<lambda>rs. jret (r # rs)))"

definition JABCRunsOf :: "'w engine \<Rightarrow> nat \<Rightarrow> jsval \<Rightarrow> ('w, (addr \<times> nat) list \<times> jsval list) js" where
  "JABCRunsOf E n arr =
     jbind (runs_collect E arr 0 n) (\<lambda>view.
     jbind (runs_unwrap E view) (\<lambda>runs. jret (runs, view)))"

lemma runs_collect_length: "runs_collect E arr i n w = (Inr vs, w') \<Longrightarrow> length vs = n"
  by (induction n arbitrary: i w vs w') (auto simp: jbind_eq_Inr)

lemma runs_unwrap_quiet [quiet_intros]: "quiet (runs_unwrap E vs)"
  by (induction vs) (auto intro!: quiet_intros)

lemma runs_unwrap_views:
  "runs_unwrap E vs w = (Inr rs, w') \<Longrightarrow>
   w' = w \<and> list_all2 (\<lambda>v r. JABCViewOf E v w = (Inr r, w)) vs rs"
proof (induction vs arbitrary: rs)
  case Nil
  then show ?case by simp
next
  case (Cons v vs)
  then obtain r w1 rs' where r: "JABCViewOf E v w = (Inr r, w1)"
    and rs': "runs_unwrap E vs w1 = (Inr rs', w')" and rs: "rs = r # rs'"
    by (auto simp: jbind_eq_Inr)
  have "w1 = w" by (rule quietD [OF JABCViewOf_quiet r])
  with Cons.IH rs' r rs show ?case by auto
qed

section \<open>The cursor object of JavaScript\<close>

text \<open>
  \<open>JABCBufIn\<close>: the two cursors are read first (reading a property may run a getter), the
  \<open>bytes\<close> view is unwrapped last; then IDLE is cut off at \<open>_idle\<close> and DATA at \<open>_data\<close>.  The view
  itself is handed back for \<open>JABCBufOfKeep\<close>.
\<close>

definition JABCBufIn :: "'w engine \<Rightarrow> abc \<Rightarrow> jsval \<Rightarrow> ('w, u8b \<times> jsval) js" where
  "JABCBufIn E A arg =
     (if \<not> is_obj arg then jthrow (ThrowStr ''expected a Buf'')
      else
        jbind (get_prop E arg ''_data'') (\<lambda>dv.
        jbind (JABCu64Of E dv) (\<lambda>data.
        jbind (get_prop E arg ''_idle'') (\<lambda>iv.
        jbind (JABCu64Of E iv) (\<lambda>idle.
        jbind (get_prop E arg ''bytes'') (\<lambda>bytes.
        jbind (JABCIdleOf E A bytes) (\<lambda>buf.
          if idle < data then jthrow (ThrowStr ''the buffer's cursor is out of range'')
          else case u8bFed A buf (unat idle) of
            None \<Rightarrow> jthrow (ThrowStr ''the buffer's cursor is out of range'')
          | Some buf1 \<Rightarrow>
              (case u8bUsed A buf1 (unat data) of
                 None \<Rightarrow> jthrow (ThrowStr ''the buffer's cursor is out of range'')
               | Some buf2 \<Rightarrow> jret (buf2, bytes)))))))))"

definition JABCBufOf :: "'w engine \<Rightarrow> abc \<Rightarrow> jsval \<Rightarrow> ('w, u8b) js" where
  "JABCBufOf E A arg = jbind (JABCBufIn E A arg) (\<lambda>(buf, view). jret buf)"

definition JABCBufOfKeep :: "'w engine \<Rightarrow> abc \<Rightarrow> jsval \<Rightarrow> ('w, u8b \<times> jsval) js" where
  "JABCBufOfKeep E A arg = JABCBufIn E A arg"

definition JABCBufBack :: "'w engine \<Rightarrow> jsval \<Rightarrow> u8b \<Rightarrow> ('w, unit) js" where
  "JABCBufBack E bo buf =
     jbind (set_prop E bo ''_data'' (JNum (js_nat (past_len buf)))) (\<lambda>_.
     set_prop E bo ''_idle'' (JNum (js_nat (busy_len buf))))"

lemma JABCBufIn_Inr:
  assumes laws: "abc_laws A" and ret: "JABCBufIn E A arg w = (Inr (buf, view), w')"
  shows "\<exists>base len. JABCViewOf E view w' = (Inr (base, len), w') \<and>
    wf_u8b buf \<and> b0 buf = base \<and> b3 buf = base + len"
proof -
  from ret obtain i0 w1 bytes raw data idle buf1 where
      idle: "JABCIdleOf E A bytes w1 = (Inr raw, w')"
    and le: "\<not> idle < (data :: u64)"
    and fed: "u8bFed A raw (unat idle) = Some buf1"
    and used: "u8bUsed A buf1 (unat data) = Some buf"
    and view: "view = bytes"
    unfolding JABCBufIn_def
    by (fastforce simp: jbind_eq_Inr split: if_splits option.splits)
  obtain base len where v: "JABCViewOf E bytes w1 = (Inr (base, len), w')"
    and raw: "raw = \<lparr>b0 = base, b1 = base, b2 = base, b3 = base + len\<rparr>"
    using idle by (auto simp: JABCIdleOf_Inr)
  have same: "w1 = w'" by (rule quietD [OF JABCViewOf_quiet v, symmetric])
  have wf: "wf_u8b raw" by (simp add: raw wf_u8b_def)
  have buf1: "buf1 = raw\<lparr>b2 := base + unat idle\<rparr>" "unat idle \<le> len"
    using fed abc_fed [OF laws wf] by (auto simp: raw idle_len_def split: if_splits)
  have wf1: "wf_u8b buf1" using buf1 by (simp add: raw wf_u8b_def)
  have "buf = buf1\<lparr>b1 := base + unat data\<rparr>" "unat data \<le> unat idle"
    using used abc_used [OF laws wf1] buf1 by (auto simp: raw data_len_def split: if_splits)
  with buf1 raw v same view show ?thesis by (auto simp: wf_u8b_def)
qed

section \<open>Paths\<close>

text \<open>
  \<open>JABCPath\<close> copies a string argument into a path buffer of \<open>FILE_PATH_MAX_LEN\<close> bytes: empty and
  page-sized strings are \<open>NOROOM\<close>, a string with an inner NUL is \<open>BADARG\<close>.
\<close>

definition JABCPath :: "abc \<Rightarrow> jsval \<Rightarrow> ok64 + string" where
  "JABCPath A arg =
     (case arg of
        JStr s \<Rightarrow>
          (if length s < 1 \<or> PAGESIZE A \<le> length s + 1 then Inl NOROOM
           else if u8csFind A s (CHR 0x00) then Inl BADARG
           else case pad_feed A (FILE_PATH_MAX_LEN A) s of
                  OK \<Rightarrow> Inr s
                | e \<Rightarrow> Inl e)
      | _ \<Rightarrow> Inl BADARG)"

text \<open>The use every leaf makes of it: a path that does not convert is the leaf's own error.\<close>

definition path_or :: "abc \<Rightarrow> string \<Rightarrow> jsval \<Rightarrow> ('w, string) js" where
  "path_or A msg arg =
     (case JABCPath A arg of Inl _ \<Rightarrow> jthrow (ThrowError msg) | Inr p \<Rightarrow> jret p)"

lemma JABCPath_Inr:
  assumes "abc_laws A"
  shows "JABCPath A v = Inr p \<longleftrightarrow>
    v = JStr p \<and> p \<noteq> [] \<and> length p + 1 < PAGESIZE A \<and> length p \<le> FILE_PATH_MAX_LEN A \<and>
    CHR 0x00 \<notin> set p"
  using assms
  by (cases v) (auto simp: JABCPath_def abc_find abc_pad_feed Suc_le_eq not_le split: ok64.splits)

lemma path_or_quiet [quiet_intros]: "quiet (path_or A m v)"
  by (auto simp: path_or_def split: sum.splits intro!: quiet_intros)

lemma path_or_Inr: "path_or A m v w = (Inr p, w') \<longleftrightarrow> JABCPath A v = Inr p \<and> w' = w"
  by (auto simp: path_or_def split: sum.splits)

section \<open>The leaf registry and the BASS bracket\<close>

text \<open>
  Every native function goes into the table \<open>JABC_LEAVES\<close> and is reached through one trampoline
  that picks it by its index.  The trampoline saves the two cursors of the scratch arena
  \<open>ABC_BASS\<close> and puts them back after the call, so no leaf leaks what it carved.  A leaf runs on
  the engine's state and on the arena's cursors.
\<close>

record bass =
  bass_data :: addr
  bass_idle :: addr

type_synonym 'w leaf = "jsval list \<Rightarrow> ('w \<times> bass, jsval) js"

definition JABC_LEAF_MAX :: nat where "JABC_LEAF_MAX = 512"

record 'w registry =
  leaves :: "'w leaf list"
  bound :: "(string \<times> string) \<rightharpoonup> nat"

definition empty_registry :: "'w registry" where
  "empty_registry = \<lparr>leaves = [], bound = Map.empty\<rparr>"

definition JABCBassTrampoline :: "'w leaf list \<Rightarrow> nat \<Rightarrow> 'w leaf" where
  "JABCBassTrampoline ls magic argv = (\<lambda>(w, b).
     if length ls \<le> magic then (Inl CUndef, (w, b))
     else let data = bass_data b; idle = bass_idle b;
              (r, (w', b')) = (ls ! magic) argv (w, b)
          in (r, (w', b'\<lparr>bass_data := data, bass_idle := idle\<rparr>)))"

definition JABCApiFn :: "'w registry \<Rightarrow> string \<Rightarrow> string \<Rightarrow> 'w leaf \<Rightarrow> 'w registry" where
  "JABCApiFn reg obj name f =
     (if JABC_LEAF_MAX \<le> length (leaves reg) then reg
      else reg\<lparr>leaves := leaves reg @ [f], bound := (bound reg)((obj, name) \<mapsto> length (leaves reg))\<rparr>)"

primrec register_all :: "'w registry \<Rightarrow> ((string \<times> string) \<times> 'w leaf) list \<Rightarrow> 'w registry" where
  "register_all reg [] = reg"
| "register_all reg (x # xs) = register_all (JABCApiFn reg (fst (fst x)) (snd (fst x)) (snd x)) xs"

text \<open>Calling a registered name from JavaScript.\<close>

definition call_leaf :: "'w registry \<Rightarrow> string \<times> string \<Rightarrow> 'w leaf option" where
  "call_leaf reg n = map_option (JABCBassTrampoline (leaves reg)) (bound reg n)"

lemma trampoline_bass: "snd (snd (JABCBassTrampoline ls m argv (w, b))) = b"
  by (auto simp: JABCBassTrampoline_def Let_def split: prod.splits)

lemma trampoline_append:
  "m < length ls \<Longrightarrow> JABCBassTrampoline (ls @ fs) m = JABCBassTrampoline ls m"
  by (intro ext) (auto simp: JABCBassTrampoline_def Let_def nth_append split: prod.splits)

definition registry_ok :: "'w registry \<Rightarrow> bool" where
  "registry_ok reg \<longleftrightarrow>
     length (leaves reg) \<le> JABC_LEAF_MAX \<and> (\<forall>n m. bound reg n = Some m \<longrightarrow> m < length (leaves reg))"

lemma registry_ok_empty [simp]: "registry_ok empty_registry"
  by (simp add: registry_ok_def empty_registry_def)

lemma registry_ok_ApiFn: "registry_ok reg \<Longrightarrow> registry_ok (JABCApiFn reg obj name f)"
  by (auto simp: registry_ok_def JABCApiFn_def intro: less_SucI)

lemma call_leaf_other:
  assumes "registry_ok reg" and "n \<noteq> (obj, name)"
  shows "call_leaf (JABCApiFn reg obj name f) n = call_leaf reg n"
proof (cases "bound reg n")
  case (Some m)
  with assms(1) have "m < length (leaves reg)" by (cases n) (auto simp: registry_ok_def)
  with Some assms(2) show ?thesis
    by (simp add: call_leaf_def JABCApiFn_def trampoline_append)
qed (use assms(2) in \<open>simp add: call_leaf_def JABCApiFn_def\<close>)

lemma call_leaf_new:
  assumes "length (leaves reg) < JABC_LEAF_MAX"
  shows "call_leaf (JABCApiFn reg obj name f) (obj, name) =
    Some (JABCBassTrampoline (leaves reg @ [f]) (length (leaves reg)))"
  using assms by (simp add: call_leaf_def JABCApiFn_def)

lemma register_all_other:
  "registry_ok reg \<Longrightarrow> n \<notin> fst ` set xs \<Longrightarrow> call_leaf (register_all reg xs) n = call_leaf reg n"
  by (induction xs arbitrary: reg) (auto simp: registry_ok_ApiFn call_leaf_other)

lemma length_leaves_ApiFn: "length (leaves (JABCApiFn reg o' n f)) \<le> Suc (length (leaves reg))"
  by (simp add: JABCApiFn_def)

text \<open>One leaf, bracketed: what a registered name runs.\<close>

definition bracketed :: "'w leaf \<Rightarrow> 'w leaf" where
  "bracketed f argv = (\<lambda>(w, b). let (r, (w', b')) = f argv (w, b) in (r, (w', b)))"

lemma trampoline_last: "JABCBassTrampoline (ls @ [f]) (length ls) = bracketed f"
  by (intro ext) (auto simp: JABCBassTrampoline_def bracketed_def Let_def split: prod.splits)

lemma register_all_calls:
  assumes "registry_ok reg" and "length (leaves reg) + length xs \<le> JABC_LEAF_MAX"
    and "distinct (map fst xs)" and "(n, f) \<in> set xs"
  shows "call_leaf (register_all reg xs) n = Some (bracketed f)"
  using assms
proof (induction xs arbitrary: reg)
  case Nil
  then show ?case by simp
next
  case (Cons x xs)
  obtain obj name g where x: "x = ((obj, name), g)" by (cases x) auto
  let ?reg = "JABCApiFn reg obj name g"
  have ok: "registry_ok ?reg" using Cons.prems(1) by (rule registry_ok_ApiFn)
  have room: "length (leaves reg) < JABC_LEAF_MAX" using Cons.prems(2) by simp
  then have room': "length (leaves ?reg) + length xs \<le> JABC_LEAF_MAX"
    using Cons.prems(2) by (simp add: JABCApiFn_def)
  show ?case
  proof (cases "(n, f) \<in> set xs")
    case True
    then show ?thesis using Cons.IH [OF ok room'] Cons.prems(3) x by simp
  next
    case False
    with Cons.prems(4) x have nf: "n = (obj, name)" "f = g" by auto
    with Cons.prems(3) x have "n \<notin> fst ` set xs" by auto
    then have "call_leaf (register_all reg (x # xs)) n = call_leaf ?reg n"
      using register_all_other [OF ok] x by simp
    then show ?thesis using call_leaf_new [OF room, of obj name g] nf
      by (simp add: trampoline_last)
  qed
qed

section \<open>Subviews and foreign memory\<close>

text \<open>
  \<open>JABCSubView\<close>: a view over the same buffer, shifted by the offset of the view it is cut from.
  \<open>JABCReallocBridge\<close> is the engine's realloc-style callback over a free-style deallocator: it
  answers a resize with the pointer itself and a free by calling the deallocator once.
\<close>

definition JABCSubView :: "'w engine \<Rightarrow> jsval \<Rightarrow> nat \<Rightarrow> nat \<Rightarrow> ('w, jsval) js" where
  "JABCSubView E view off len = (\<lambda>w.
     case typed_buffer E w view of
       Inl e \<Rightarrow> (Inl e, w)
     | Inr (buf, voff, vlen) \<Rightarrow> new_view E buf (voff + off) len w)"

record 'f bridge =
  freef :: "'f option"
  opaque :: addr

definition JABCReallocBridge ::
    "('f \<Rightarrow> addr \<Rightarrow> addr \<Rightarrow> 'm \<Rightarrow> 'm) \<Rightarrow> 'f bridge option \<Rightarrow> addr \<Rightarrow> nat \<Rightarrow> 'm \<Rightarrow> addr \<times> 'f bridge option \<times> 'm" where
  "JABCReallocBridge run b ptr sz m =
     (if sz \<noteq> 0 then (ptr, b, m)
      else case b of
        None \<Rightarrow> (0, None, m)
      | Some br \<Rightarrow> (0, None, case freef br of None \<Rightarrow> m | Some f \<Rightarrow> run f (opaque br) ptr m))"

section \<open>Properties\<close>

text \<open>
  The number gates are exact.  A JavaScript number passes a gate if and only if it is a whole
  number inside the gate's range (\<open>[0, 2^53 - 1]\<close> for u64, \<open>\<plusminus>(2^53 - 1)\<close> for i64, 32 bits, a
  non-negative int, a byte), and what comes out is that number: no NaN, infinity, fraction or
  negative number turns into a size.
\<close>

theorem gates_exact:
  assumes "num_faithful E"
  shows "((\<exists>x. JABCu64Of E (JNum d) w = (Inr x, w) \<and> uint x = t) \<longleftrightarrow>
            d = js_int t \<and> 0 \<le> t \<and> t \<le> 9007199254740991) \<and>
         ((\<exists>x. JABCi64Of E (JNum d) w = (Inr x, w) \<and> sint x = t) \<longleftrightarrow>
            d = js_int t \<and> - 9007199254740991 \<le> t \<and> t \<le> 9007199254740991) \<and>
         ((\<exists>x. JABCu32Of E (JNum d) w = (Inr x, w) \<and> uint x = t) \<longleftrightarrow>
            d = js_int t \<and> 0 \<le> t \<and> t \<le> 4294967295) \<and>
         ((\<exists>x. JABCFdOf E (JNum d) w = (Inr x, w) \<and> sint x = t) \<longleftrightarrow>
            d = js_int t \<and> 0 \<le> t \<and> t \<le> 2147483647) \<and>
         ((\<exists>x. JABCu8Of E (JNum d) w = (Inr x, w) \<and> uint x = t) \<longleftrightarrow>
            d = js_int t \<and> 0 \<le> t \<and> t \<le> 255)"
  using assms
  by (intro conjI u64_gate.gate_accepts i64_gate.gate_accepts u32_gate.gate_accepts
      fd_gate.gate_accepts u8_gate.gate_accepts)

theorem gates_exact_witness:
  "num_faithful sample_engine \<and>
   (\<forall>w. \<exists>x. JABCu64Of sample_engine (JNum (js_int 7)) w = (Inr x, w) \<and> uint x = 7)"
  using gates_exact [OF sample_num_faithful, of "js_int 7" _ 7] sample_num_faithful by simp

text \<open>
  C7: the gates close the re-entry through \<open>valueOf\<close>.  Whatever value is passed (an object with a
  \<open>valueOf\<close> of its own included), no number gate and no offset gate changes the engine's state, so
  none runs JavaScript while a leaf holds a raw pointer.
\<close>

theorem gates_run_no_javascript:
  assumes "prim_quiet E"
  shows "snd (JABCu64Of E v w) = w \<and> snd (JABCi64Of E v w) = w \<and> snd (JABCu32Of E v w) = w \<and>
         snd (JABCFdOf E v w) = w \<and> snd (JABCu8Of E v w) = w \<and> snd (JABCBigU64Of E v w) = w \<and>
         snd (JABCOffOf E n v w) = w \<and> snd (JABCBufAt E A b v w) = w \<and>
         snd (JABCBufFed E A b v w) = w"
proof -
  note q = gates_quiet [OF assms] JABCBigU64Of_quiet [OF assms] JABCOffOf_quiet [OF assms]
    JABCBufAt_quiet [OF assms] JABCBufFed_quiet [OF assms]
  show ?thesis using q by (simp add: quiet_def)
qed

theorem gates_run_no_javascript_witness:
  "prim_quiet sample_engine \<and> snd (JABCu64Of sample_engine (JObj 3) \<lparr>bufs = [], props = (\<lambda>_. JUndef)\<rparr>) =
     \<lparr>bufs = [], props = (\<lambda>_. JUndef)\<rparr>"
  using gates_run_no_javascript [OF sample_prim_quiet] sample_prim_quiet by blast

text \<open>
  No conversion in a gate is undefined in C.  A gate ends with a value or with an exception;
  the cast of a \<open>double\<close> to an integer type it makes is always in range.
\<close>

theorem gates_never_undefined:
  assumes "engine_defined E"
  shows "fst (JABCu64Of E v w) \<noteq> Inl CUndef \<and> fst (JABCi64Of E v w) \<noteq> Inl CUndef \<and>
         fst (JABCu32Of E v w) \<noteq> Inl CUndef \<and> fst (JABCFdOf E v w) \<noteq> Inl CUndef \<and>
         fst (JABCu8Of E v w) \<noteq> Inl CUndef"
  using u64_gate.gate_defined [OF assms] i64_gate.gate_defined [OF assms]
    u32_gate.gate_defined [OF assms] fd_gate.gate_defined [OF assms] u8_gate.gate_defined [OF assms]
  by (metis prod.collapse)

theorem gates_never_undefined_witness:
  "engine_defined sample_engine \<and> (\<forall>w. fst (JABCu64Of sample_engine (JNum NaN) w) \<noteq> Inl CUndef)"
  using gates_never_undefined [OF sample_engine_defined] sample_engine_defined by blast

text \<open>
  C2: every run \<open>JABCRunsOf\<close> hands back is live.  The engine may run any JavaScript while the
  elements of the array are read; still, when the call succeeds, each base pointer and length is
  the one the element's view has in the state the call ends in, for all \<open>n\<close> elements.
\<close>

theorem runs_are_live:
  assumes "JABCRunsOf E n arr w = (Inr (runs, view), w')"
  shows "length runs = n \<and> length view = n \<and>
    (\<forall>i < n. JABCViewOf E (view ! i) w' = (Inr (runs ! i), w'))"
proof -
  from assms obtain w1 where c: "runs_collect E arr 0 n w = (Inr view, w1)"
    and u: "runs_unwrap E view w1 = (Inr runs, w')"
    by (auto simp: JABCRunsOf_def jbind_eq_Inr)
  have len: "length view = n" using c by (rule runs_collect_length)
  from runs_unwrap_views [OF u] len show ?thesis
    by (auto simp: list_all2_conv_all_nth)
qed

theorem runs_are_live_witness:
  "JABCViewOf sample_engine (JObj 3) \<lparr>bufs = [(100, 8), (200, 4)], props = (\<lambda>_. JUndef)\<rparr> =
     (Inr (200, 4), \<lparr>bufs = [(100, 8), (200, 4)], props = (\<lambda>_. JUndef)\<rparr>)"
proof -
  let ?s = "\<lparr>bufs = [(100, 8), (200, 4)], props = (\<lambda>_. JUndef)\<rparr>"
  have "JABCRunsOf sample_engine (Suc (Suc 0)) (JObj 99) ?s = (Inr ([(100, 8), (200, 4)], [JObj 1, JObj 3]), ?s)"
    by (simp add: JABCRunsOf_def sample_engine_def sample_buf_def JABCViewOf_def js_defs)
  from runs_are_live [OF this] show ?thesis
    by (auto dest!: spec [of _ 1])
qed

text \<open>
  A \<open>Buf\<close> that passes \<open>JABCBufIn\<close> is in order and live.  The four pointers are ordered
  (PAST, DATA, IDLE), they span exactly the memory the \<open>bytes\<close> view has after the last property
  read, and writing the cursors back stores the two numbers the \<open>Buf\<close> had.
\<close>

theorem buf_in_order_and_live:
  assumes "abc_laws A" and "JABCBufIn E A arg w = (Inr (buf, view), w')"
  shows "b0 buf \<le> b1 buf \<and> b1 buf \<le> b2 buf \<and> b2 buf \<le> b3 buf \<and>
    (\<exists>len. JABCViewOf E view w' = (Inr (b0 buf, len), w') \<and> b3 buf = b0 buf + len \<and>
       past_len buf + data_len buf + idle_len buf = len)"
  using JABCBufIn_Inr [OF assms] by (auto simp: u8b_defs)

theorem buf_in_order_and_live_witness:
  "b1 \<lparr>b0 = 100, b1 = 102, b2 = 105, b3 = 108\<rparr> \<le> (105 :: addr)"
proof -
  let ?s = "\<lparr>bufs = [(100, 8)], props = (\<lambda>p. if p = ''_data'' then JNum (Fin 2)
              else if p = ''_idle'' then JNum (Fin 5) else JObj 1)\<rparr>"
  have "JABCBufIn sample_engine sample_abc (JObj 9) ?s =
      (Inr (\<lparr>b0 = 100, b1 = 102, b2 = 105, b3 = 108\<rparr>, JObj 1), ?s)"
    by (simp add: JABCBufIn_def JABCu64Of_prim JABCIdleOf_def JABCViewOf_def sample_engine_def
        sample_number_def sample_buf_def sample_abc_def u8b_defs js_defs whole_of_def)
  from buf_in_order_and_live [OF sample_abc_laws this] show ?thesis by simp
qed

text \<open>
  \<open>JABCPath\<close> accepts exactly the strings the system can use as they are: non-empty, within a
  page and the path buffer, and with no NUL inside, so the path the system opens is the whole
  string and never a truncated one.
\<close>

theorem path_accepts_exactly:
  assumes "abc_laws A"
  shows "JABCPath A v = Inr p \<longleftrightarrow>
    v = JStr p \<and> p \<noteq> [] \<and> length p + 1 < PAGESIZE A \<and> length p \<le> FILE_PATH_MAX_LEN A \<and>
    CHR 0x00 \<notin> set p"
  using assms by (rule JABCPath_Inr)

theorem path_accepts_exactly_witness:
  "abc_laws sample_abc \<and> JABCPath sample_abc (JStr ''a/b'') = Inr ''a/b'' \<and>
   JABCPath sample_abc (JStr (''safe'' @ [CHR 0x00] @ ''/x'')) \<noteq> Inr (''safe'' @ [CHR 0x00] @ ''/x'')"
  using path_accepts_exactly [OF sample_abc_laws] sample_abc_laws by (simp add: sample_abc_def)

text \<open>
  The leaf registry.  When at most 512 functions with distinct names are installed, each name
  runs its own function and no other, inside the bracket that leaves the scratch arena's cursors
  exactly where they were before the call.
\<close>

theorem registry_runs_each_leaf:
  assumes "length fs \<le> JABC_LEAF_MAX" and "distinct (map fst fs)" and "(n, f) \<in> set fs"
  shows "call_leaf (register_all empty_registry fs) n = Some (bracketed f) \<and>
    snd (snd (bracketed f argv (w, b))) = b \<and>
    fst (bracketed f argv (w, b)) = fst (f argv (w, b))"
  using register_all_calls [of empty_registry fs n f] assms
  by (simp add: empty_registry_def bracketed_def split: prod.splits)
    (simp add: registry_ok_def)

theorem registry_runs_each_leaf_witness:
  "call_leaf (register_all empty_registry [((''hex'', ''encode''), \<lambda>argv. jret (JBool True))])
     (''hex'', ''encode'') = Some (bracketed (\<lambda>argv. jret (JBool True)))"
  using registry_runs_each_leaf
    [of "[((''hex'', ''encode''), \<lambda>argv. jret (JBool True))]" "(''hex'', ''encode'')"
        "\<lambda>argv. jret (JBool True)", THEN conjunct1]
  by (simp add: JABC_LEAF_MAX_def)

end
