(* ===== verification/JsLang.thy ===== *)
theory JsLang
  imports Prelude
begin

text \<open>
  The JavaScript the embedded bundles are written in, as far as they use it: arithmetic on numbers,
  \<open>x | 0\<close>, and the operations of \<open>Uint8Array\<close> on a list of bytes.  An index argument goes
  through ECMAScript's relative-index conversion, so that a NaN is 0 and a number past the end is
  the end.
\<close>

section \<open>Arithmetic\<close>

fun num_neg :: "jsnum \<Rightarrow> jsnum" where
  "num_neg NaN = NaN"
| "num_neg PInf = NInf"
| "num_neg NInf = PInf"
| "num_neg (Fin r) = Fin (- r)"

fun num_add :: "jsnum \<Rightarrow> jsnum \<Rightarrow> jsnum" where
  "num_add (Fin a) (Fin b) = Fin (a + b)"
| "num_add NaN y = NaN"
| "num_add x NaN = NaN"
| "num_add PInf NInf = NaN"
| "num_add NInf PInf = NaN"
| "num_add PInf y = PInf"
| "num_add NInf y = NInf"
| "num_add x PInf = PInf"
| "num_add x NInf = NInf"

definition num_sub :: "jsnum \<Rightarrow> jsnum \<Rightarrow> jsnum" where
  "num_sub x y = num_add x (num_neg y)"

text \<open>\<open>x | 0\<close>: cut the fraction off and wrap into 32 bits, two's complement.\<close>

definition to_int32 :: "jsnum \<Rightarrow> int" where
  "to_int32 d = (case d of Fin r \<Rightarrow> (trunc r + 2 ^ 31) mod 2 ^ 32 - 2 ^ 31 | _ \<Rightarrow> 0)"

lemma to_int32_small: "- (2 ^ 31) \<le> t \<Longrightarrow> t < 2 ^ 31 \<Longrightarrow> to_int32 (js_int t) = t"
  by (simp add: to_int32_def js_int_def)

lemma to_int32_nat: "n < 2 ^ 31 \<Longrightarrow> to_int32 (js_nat n) = int n"
  by (simp add: to_int32_def js_nat_def)

lemma to_int32_range: "- (2 ^ 31) \<le> to_int32 d \<and> to_int32 d < 2 ^ 31"
proof (cases d)
  case (Fin r)
  have "0 \<le> (trunc r + 2 ^ 31) mod 2 ^ 32" "(trunc r + 2 ^ 31) mod 2 ^ 32 < 2 ^ 32"
    by simp_all
  with Fin show ?thesis by (simp add: to_int32_def)
qed (simp_all add: to_int32_def)

lemma num_add_nat [simp]: "num_add (js_nat m) (js_nat n) = js_nat (m + n)"
  by (simp add: js_nat_def)

lemma num_sub_nat: "num_sub (js_nat m) (js_nat n) = js_int (int m - int n)"
  by (simp add: num_sub_def js_nat_def js_int_def)

lemma num_sub_nat_le [simp]:
  "n \<le> m \<Longrightarrow> num_sub (js_nat m) (js_nat n) = js_nat (m - n)"
  by (simp add: num_sub_def js_nat_def of_nat_diff)

lemma num_le_nat [simp]: "num_le (js_nat m) (js_nat n) \<longleftrightarrow> m \<le> n"
  by (simp add: js_nat_def)

lemma num_lt_nat [simp]: "num_lt (js_nat m) (js_nat n) \<longleftrightarrow> m < n"
  by (simp add: js_nat_def)

lemma num_lt_0_nat [simp]: "\<not> num_lt (js_nat m) (Fin 0)"
  by (simp add: js_nat_def)

lemma num_lt_nat_1 [simp]: "num_lt (js_nat m) (Fin 1) \<longleftrightarrow> m = 0"
  by (simp add: js_nat_def)

lemma num_lt_0_pos [simp]: "num_lt (Fin 0) (js_nat m) \<longleftrightarrow> 0 < m"
  by (simp add: js_nat_def)

lemma num_eq_nat [simp]: "num_eq (js_nat m) (js_nat n) \<longleftrightarrow> m = n"
  by (simp add: js_nat_def)

section \<open>Typed arrays\<close>

text \<open>ECMAScript's relative index of \<open>x\<close> in an array of length \<open>n\<close>.\<close>

definition rel_index :: "nat \<Rightarrow> jsnum \<Rightarrow> nat" where
  "rel_index n x =
     (case x of
        NaN \<Rightarrow> 0
      | NInf \<Rightarrow> 0
      | PInf \<Rightarrow> n
      | Fin r \<Rightarrow> (let t = trunc r in
                   if t < 0 then nat (max (int n + t) 0) else nat (min t (int n))))"

lemma rel_index_nat [simp]: "rel_index n (js_nat k) = min k n"
  by (simp add: rel_index_def js_nat_def min_def)

lemma rel_index_le: "rel_index n x \<le> n"
  by (cases x) (auto simp: rel_index_def Let_def)

text \<open>\<open>subarray (begin, end)\<close>, as the bytes it shows.\<close>

definition ta_subarray :: "u8 list \<Rightarrow> jsnum \<Rightarrow> jsnum \<Rightarrow> u8 list" where
  "ta_subarray xs b e =
     (let n = length xs; i = rel_index n b; j = rel_index n e in take (j - i) (drop i xs))"

text \<open>\<open>set (source, offset)\<close>: a negative offset or a source that does not fit is a RangeError.\<close>

definition ta_set :: "u8 list \<Rightarrow> jsnum \<Rightarrow> u8 list \<Rightarrow> exn + u8 list" where
  "ta_set xs off src =
     (case off of
        NaN \<Rightarrow> if length src \<le> length xs then Inr (splice_at xs 0 src) else Inl (ThrowError ''RangeError'')
      | Fin r \<Rightarrow> (let t = trunc r in
                   if t < 0 \<or> int (length xs) < t + int (length src) then Inl (ThrowError ''RangeError'')
                   else Inr (splice_at xs (nat t) src))
      | _ \<Rightarrow> Inl (ThrowError ''RangeError''))"

text \<open>\<open>copyWithin (target, start, end)\<close>.\<close>

definition ta_copyWithin :: "u8 list \<Rightarrow> jsnum \<Rightarrow> jsnum \<Rightarrow> jsnum \<Rightarrow> u8 list" where
  "ta_copyWithin xs tgt s e =
     (let n = length xs; t = rel_index n tgt; i = rel_index n s; j = rel_index n e;
          c = min (j - i) (n - t)
      in splice_at xs t (take c (drop i xs)))"

text \<open>Element access: out of range reads undefined (\<open>None\<close>) and writes nothing.\<close>

definition ta_get :: "u8 list \<Rightarrow> jsnum \<Rightarrow> u8 option" where
  "ta_get xs i =
     (case whole_of i of Some t \<Rightarrow> if 0 \<le> t \<and> t < int (length xs) then Some (xs ! nat t) else None
                    | None \<Rightarrow> None)"

definition ta_put :: "u8 list \<Rightarrow> jsnum \<Rightarrow> u8 \<Rightarrow> u8 list" where
  "ta_put xs i v =
     (case whole_of i of Some t \<Rightarrow> if 0 \<le> t \<and> t < int (length xs) then xs[nat t := v] else xs
                    | None \<Rightarrow> xs)"

named_theorems ta_nat "typed-array operations at indices inside the array"

lemma ta_subarray_nat [ta_nat]:
  "i \<le> j \<Longrightarrow> j \<le> length xs \<Longrightarrow>
   ta_subarray xs (js_nat i) (js_nat j) = take (j - i) (drop i xs)"
  by (simp add: ta_subarray_def Let_def min_def)

lemma ta_set_nat [ta_nat]:
  "i + length src \<le> length xs \<Longrightarrow> ta_set xs (js_nat i) src = Inr (splice_at xs i src)"
  by (simp add: ta_set_def js_nat_def Let_def)

lemma ta_copyWithin_nat [ta_nat]:
  "i \<le> j \<Longrightarrow> j \<le> length xs \<Longrightarrow> t + (j - i) \<le> length xs \<Longrightarrow>
   ta_copyWithin xs (js_nat t) (js_nat i) (js_nat j) =
     splice_at xs t (take (j - i) (drop i xs))"
  by (simp add: ta_copyWithin_def Let_def min_def)

lemma ta_get_nat [ta_nat]: "i < length xs \<Longrightarrow> ta_get xs (js_nat i) = Some (xs ! i)"
  by (simp add: ta_get_def)

lemma ta_put_nat [ta_nat]: "i < length xs \<Longrightarrow> ta_put xs (js_nat i) v = xs[i := v]"
  by (simp add: ta_put_def)

lemma length_ta_copyWithin [simp]: "length (ta_copyWithin xs t i j) = length xs"
  using rel_index_le [of "length xs" t]
  by (simp add: ta_copyWithin_def Let_def splice_at_def)

lemma length_ta_put [simp]: "length (ta_put xs i v) = length xs"
  by (simp add: ta_put_def split: option.splits)

lemma ta_set_Inr_length: "ta_set xs off src = Inr ys \<Longrightarrow> length ys = length xs"
  by (auto simp: ta_set_def Let_def split: jsnum.splits if_splits)

end
