(* ===== verification/BufJs.thy ===== *)
theory BufJs
  imports JsLang
begin

text \<open>
  \<open>buf.c\<close> and the encoder of \<open>utf8.c\<close>: the class \<open>Buf\<close>, a \<open>Uint8Array\<close> with two cursors that
  cut it into PAST (\<open>[0, _data)\<close>), DATA (\<open>[_data, _idle)\<close>) and IDLE (\<open>[_idle, cap)\<close>), and the
  loops that move bytes between a file descriptor and a buffer.  The cursors are JavaScript
  numbers, as the class keeps them.  A source passed to \<open>feed\<close> is the list of the bytes it shows
  (a \<open>Buf\<close> shows its DATA); the paste of \<open>splice\<close> is what it shows of the bytes of the buffer at the
  time, as it may be a view of them that is read after they have moved.
\<close>

section \<open>The class\<close>

record buf =
  bytes :: "u8 list"
  bdata :: jsnum     \<comment> \<open>\<open>_data\<close>\<close>
  bidle :: jsnum     \<comment> \<open>\<open>_idle\<close>\<close>
  cap :: nat

definition Buf_new :: "u8 list \<Rightarrow> jsnum \<Rightarrow> jsnum option \<Rightarrow> buf" where
  "Buf_new bs data idle =
     \<lparr>bytes = bs, bdata = js_int (to_int32 data),
      bidle = js_int (to_int32 (case idle of None \<Rightarrow> data | Some i \<Rightarrow> i)),
      cap = length bs\<rparr>"

definition Buf_over :: "u8 list \<Rightarrow> buf" where
  "Buf_over u8 = Buf_new u8 (Fin 0) (Some (js_nat (length u8)))"

definition Buf_into :: "u8 list \<Rightarrow> buf" where
  "Buf_into u8 = Buf_new u8 (Fin 0) (Some (Fin 0))"

definition bsize :: "buf \<Rightarrow> jsnum" where "bsize b = num_sub (bidle b) (bdata b)"
definition broom :: "buf \<Rightarrow> jsnum" where "broom b = num_sub (js_nat (cap b)) (bidle b)"
definition bempty :: "buf \<Rightarrow> bool" where "bempty b = num_eq (bidle b) (bdata b)"

definition bview_data :: "buf \<Rightarrow> u8 list" where
  "bview_data b = ta_subarray (bytes b) (bdata b) (bidle b)"

definition bview_idle :: "buf \<Rightarrow> u8 list" where
  "bview_idle b = ta_subarray (bytes b) (bidle b) (js_nat (cap b))"

definition bview_past :: "buf \<Rightarrow> u8 list" where
  "bview_past b = ta_subarray (bytes b) (Fin 0) (bdata b)"

definition bset :: "u8 list \<Rightarrow> jsnum \<Rightarrow> (buf, unit) js" where
  "bset s pos = (\<lambda>b. case ta_set (bytes b) pos s of Inl e \<Rightarrow> (Inl e, b)
                                                | Inr bs \<Rightarrow> (Inr (), b\<lparr>bytes := bs\<rparr>))"

definition Buf_feed :: "u8 list \<Rightarrow> (buf, nat) js" where
  "Buf_feed s = (\<lambda>b.
     if num_lt (broom b) (js_nat (length s)) then (Inl (ThrowStr ''NOROOM''), b)
     else jbind (bset s (bidle b)) (\<lambda>_.
          jbind (jput (\<lambda>b. b\<lparr>bidle := num_add (bidle b) (js_nat (length s))\<rparr>)) (\<lambda>_.
          jret (length s))) b)"

definition Buf_feed1 :: "jsnum \<Rightarrow> (buf, nat) js" where
  "Buf_feed1 x = (\<lambda>b.
     if num_lt (broom b) (Fin 1) then (Inl (ThrowStr ''NOROOM''), b)
     else (Inr 1, b\<lparr>bytes := ta_put (bytes b) (bidle b) (word_of_int (to_int32 x)),
                    bidle := num_add (bidle b) (Fin 1)\<rparr>))"

definition Buf_fed :: "jsnum \<Rightarrow> (buf, unit) js" where
  "Buf_fed n = (\<lambda>b.
     if num_lt n (Fin 0) \<or> num_lt (broom b) n then (Inl (ThrowStr ''BADARG''), b)
     else (Inr (), b\<lparr>bidle := num_add (bidle b) n\<rparr>))"

definition Buf_take :: "jsnum \<Rightarrow> (buf, u8 list) js" where
  "Buf_take n = (\<lambda>b.
     if num_lt n (Fin 0) \<or> num_lt (bsize b) n then (Inl (ThrowStr ''BADARG''), b)
     else (Inr (ta_subarray (bytes b) (bdata b) (num_add (bdata b) n)),
           b\<lparr>bdata := num_add (bdata b) n\<rparr>))"

definition Buf_skip :: "jsnum \<Rightarrow> (buf, unit) js" where
  "Buf_skip n = (\<lambda>b.
     if num_lt n (Fin 0) \<or> num_lt (bsize b) n then (Inl (ThrowStr ''BADARG''), b)
     else (Inr (), b\<lparr>bdata := num_add (bdata b) n\<rparr>))"

definition Buf_shed :: "jsnum \<Rightarrow> (buf, unit) js" where
  "Buf_shed n = (\<lambda>b.
     if num_lt n (Fin 0) \<or> num_lt (bsize b) n then (Inl (ThrowStr ''BADARG''), b)
     else (Inr (), b\<lparr>bidle := num_sub (bidle b) n\<rparr>))"

definition Buf_pop :: "(buf, u8 option) js" where
  "Buf_pop = (\<lambda>b.
     if bempty b then (Inl (ThrowStr ''NODATA''), b)
     else let i = num_sub (bidle b) (Fin 1) in
          (Inr (ta_get (bytes b) i), b\<lparr>bidle := i\<rparr>))"

definition Buf_reset :: "(buf, unit) js" where
  "Buf_reset = jput (\<lambda>b. b\<lparr>bdata := Fin 0, bidle := Fin 0\<rparr>)"

definition Buf_shift :: "(buf, unit) js" where
  "Buf_shift = jput (\<lambda>b.
     if num_eq (bdata b) (Fin 0) then b
     else b\<lparr>bytes := ta_copyWithin (bytes b) (Fin 0) (bdata b) (bidle b),
            bidle := num_sub (bidle b) (bdata b), bdata := Fin 0\<rparr>)"

type_synonym paste = "u8 list \<Rightarrow> u8 list"

definition apart :: "u8 list \<Rightarrow> paste" where "apart p = (\<lambda>_. p)"

definition shown_at :: "nat \<Rightarrow> nat \<Rightarrow> paste" where "shown_at a n = (\<lambda>bs. take n (drop a bs))"

definition Buf_splice :: "jsnum \<Rightarrow> jsnum \<Rightarrow> paste \<Rightarrow> (buf, unit) js" where
  "Buf_splice off ct p = (\<lambda>b.
     if num_lt off (Fin 0) \<or> num_lt ct (Fin 0) \<or> num_lt (bsize b) (num_add off ct)
     then (Inl (ThrowStr ''BADARG''), b)
     else let n = length (p (bytes b));
              delta = num_sub (js_nat n) ct in
       if num_lt (broom b) delta then (Inl (ThrowStr ''NOROOM''), b)
       else let d = bdata b;
                b1 = b\<lparr>bytes := ta_copyWithin (bytes b)
                         (num_add (num_add d off) (js_nat n))
                         (num_add (num_add d off) ct) (bidle b)\<rparr>
            in jbind (bset (p (bytes b1)) (num_add d off)) (\<lambda>_.
               jput (\<lambda>b. b\<lparr>bidle := num_add (bidle b) delta\<rparr>)) b1)"

text \<open>\<open>grow\<close> without the hook of a mapped backing: a longer array with PAST and DATA copied.\<close>

definition Buf_grow :: "nat \<Rightarrow> (buf, unit) js" where
  "Buf_grow n = jput (\<lambda>b.
     if n \<le> cap b then b
     else b\<lparr>bytes := splice_at (replicate n 0) 0 (ta_subarray (bytes b) (Fin 0) (bidle b)),
            cap := n\<rparr>)"

lemmas Buf_defs = Buf_feed_def Buf_feed1_def Buf_fed_def Buf_take_def Buf_skip_def Buf_shed_def
  Buf_pop_def Buf_reset_def Buf_shift_def Buf_splice_def Buf_grow_def

section \<open>Buffers in order\<close>

text \<open>
  \<open>buf_at b d i\<close>: the cursors are the whole numbers \<open>d \<le> i \<le> cap\<close>, and \<open>cap\<close> is the length of
  the array.  \<open>past\<close>, \<open>live\<close> and \<open>idle\<close> are then the three regions.
\<close>

definition buf_at :: "buf \<Rightarrow> nat \<Rightarrow> nat \<Rightarrow> bool" where
  "buf_at b d i \<longleftrightarrow> bdata b = js_nat d \<and> bidle b = js_nat i \<and> d \<le> i \<and> i \<le> cap b \<and>
     cap b = length (bytes b)"

definition buf_ok :: "buf \<Rightarrow> bool" where
  "buf_ok b = (\<exists>d i. buf_at b d i)"

definition live :: "buf \<Rightarrow> u8 list" where "live b = bview_data b"
definition room_of :: "buf \<Rightarrow> nat" where "room_of b = length (bview_idle b)"

lemma Fin_0_nat: "Fin 0 = js_nat 0"
  by (simp add: js_nat_def)

lemma Fin_1_nat: "Fin 1 = js_nat 1"
  by (simp add: js_nat_def)

lemma buf_at_simps:
  assumes "buf_at b d i"
  shows "bdata b = js_nat d" "bidle b = js_nat i" "d \<le> i" "i \<le> cap b"
    "length (bytes b) = cap b" "bsize b = js_nat (i - d)" "broom b = js_nat (cap b - i)"
    "bempty b \<longleftrightarrow> i = d" "live b = take (i - d) (drop d (bytes b))" "room_of b = cap b - i"
    "bview_past b = take d (bytes b)" "bview_idle b = drop i (bytes b)"
  using assms
  by (auto simp: buf_at_def bsize_def broom_def bempty_def live_def room_of_def bview_data_def
      bview_idle_def bview_past_def ta_nat Fin_0_nat)

lemma buf_at_ok: "buf_at b d i \<Longrightarrow> buf_ok b"
  by (auto simp: buf_ok_def)

lemma buf_atI:
  "bdata b = js_nat d \<Longrightarrow> bidle b = js_nat i \<Longrightarrow> d \<le> i \<Longrightarrow> i \<le> cap b \<Longrightarrow>
   length (bytes b) = cap b \<Longrightarrow> buf_at b d i"
  by (simp add: buf_at_def)

lemma Buf_over_at: "length bs < 2 ^ 31 \<Longrightarrow> buf_at (Buf_over bs) 0 (length bs)"
  by (simp add: buf_at_def Buf_over_def Buf_new_def to_int32_def js_int_def js_nat_def)

lemma Buf_into_at: "buf_at (Buf_into bs) 0 0"
  by (simp add: buf_at_def Buf_into_def Buf_new_def to_int32_def js_int_def js_nat_def)

section \<open>What each operation does to a buffer in order\<close>

lemma Buf_feed_at:
  assumes "buf_at b d i"
  shows "Buf_feed s b =
    (if cap b - i < length s then (Inl (ThrowStr ''NOROOM''), b)
     else (Inr (length s), b\<lparr>bytes := splice_at (bytes b) i s, bidle := js_nat (i + length s)\<rparr>))"
  using assms buf_at_simps [OF assms]
  by (auto simp: Buf_feed_def bset_def ta_nat jbind_def)

lemma Buf_feed1_at:
  assumes "buf_at b d i"
  shows "Buf_feed1 x b =
    (if cap b = i then (Inl (ThrowStr ''NOROOM''), b)
     else (Inr 1, b\<lparr>bytes := (bytes b)[i := word_of_int (to_int32 x)], bidle := js_nat (i + 1)\<rparr>))"
  using assms buf_at_simps [OF assms] by (auto simp: Buf_feed1_def ta_nat Fin_1_nat)

lemma Buf_fed_at:
  assumes "buf_at b d i"
  shows "Buf_fed (js_nat n) b =
    (if cap b - i < n then (Inl (ThrowStr ''BADARG''), b)
     else (Inr (), b\<lparr>bidle := js_nat (i + n)\<rparr>))"
  using assms buf_at_simps [OF assms] by (auto simp: Buf_fed_def)

lemma Buf_take_at:
  assumes "buf_at b d i"
  shows "Buf_take (js_nat n) b =
    (if i - d < n then (Inl (ThrowStr ''BADARG''), b)
     else (Inr (take n (live b)), b\<lparr>bdata := js_nat (d + n)\<rparr>))"
  using assms buf_at_simps [OF assms] by (auto simp: Buf_take_def ta_nat)

lemma Buf_skip_at:
  assumes "buf_at b d i"
  shows "Buf_skip (js_nat n) b =
    (if i - d < n then (Inl (ThrowStr ''BADARG''), b)
     else (Inr (), b\<lparr>bdata := js_nat (d + n)\<rparr>))"
  using assms buf_at_simps [OF assms] by (auto simp: Buf_skip_def)

lemma Buf_shed_at:
  assumes "buf_at b d i"
  shows "Buf_shed (js_nat n) b =
    (if i - d < n then (Inl (ThrowStr ''BADARG''), b)
     else (Inr (), b\<lparr>bidle := js_nat (i - n)\<rparr>))"
  using assms buf_at_simps [OF assms] by (auto simp: Buf_shed_def)

lemma Buf_pop_at:
  assumes "buf_at b d i"
  shows "Buf_pop b =
    (if i = d then (Inl (ThrowStr ''NODATA''), b)
     else (Inr (Some (bytes b ! (i - 1))), b\<lparr>bidle := js_nat (i - 1)\<rparr>))"
  using assms buf_at_simps [OF assms] by (auto simp: Buf_pop_def Fin_1_nat ta_nat)

lemma Buf_shift_at:
  assumes "buf_at b d i"
  shows "Buf_shift b =
    (Inr (), if d = 0 then b
             else b\<lparr>bytes := splice_at (bytes b) 0 (live b), bidle := js_nat (i - d),
                    bdata := js_nat 0\<rparr>)"
  using assms buf_at_simps [OF assms] by (auto simp: Buf_shift_def Fin_0_nat ta_nat)

lemma Buf_splice_at:
  assumes at: "buf_at b d i"
  shows "Buf_splice (js_nat off) (js_nat ct) (apart p) b =
    (if i - d < off + ct then (Inl (ThrowStr ''BADARG''), b)
     else if cap b - i + ct < length p then (Inl (ThrowStr ''NOROOM''), b)
     else (Inr (), b\<lparr>bytes := splice_at
              (splice_at (bytes b) (d + off + length p) (take (i - (d + off + ct)) (drop (d + off + ct) (bytes b))))
              (d + off) p,
            bidle := js_nat (i + length p - ct)\<rparr>))"
proof -
  note s = buf_at_simps [OF at]
  have room: "num_lt (js_nat (cap b - i)) (js_int (int (length p) - int ct)) \<longleftrightarrow>
      cap b - i + ct < length p"
    by (auto simp: js_nat_def js_int_def)
  have sum: "num_add (js_nat i) (js_int (int (length p) - int ct)) =
      js_nat (i + length p - ct)" if "ct \<le> i"
    using that by (simp add: js_nat_def js_int_def of_nat_diff)
  show ?thesis
  proof (cases "i - d < off + ct \<or> cap b - i + ct < length p")
    case True
    then show ?thesis using s by (auto simp: Buf_splice_def apart_def num_sub_nat room Let_def)
  next
    case False
    then have "ct \<le> i" "d + off + ct \<le> i" "d + off + length p + (i - (d + off + ct)) \<le> cap b"
      using s(3,4) by linarith+
    with False s show ?thesis
      by (auto simp: Buf_splice_def apart_def num_sub_nat room sum Let_def ta_nat bset_def jbind_def)
  qed
qed

text \<open>The regions after an operation, the form the properties use.\<close>

lemma live_feed:
  assumes "buf_at b d i" and "length s \<le> cap b - i"
  defines "b' \<equiv> b\<lparr>bytes := splice_at (bytes b) i s, bidle := js_nat (i + length s)\<rparr>"
  shows "buf_at b' d (i + length s)" "live b' = live b @ s" "bview_past b' = bview_past b"
    "room_of b' = room_of b - length s"
proof -
  note s = buf_at_simps [OF assms(1)]
  show at: "buf_at b' d (i + length s)"
    using s assms by (auto intro!: buf_atI simp: b'_def)
  note s' = buf_at_simps [OF at]
  have "take (i + length s) (splice_at (bytes b) i s) = take i (bytes b) @ s"
    using s by (intro take_splice_at_all) simp
  then have "drop d (take (i + length s) (splice_at (bytes b) i s)) = drop d (take i (bytes b)) @ s"
    using s by simp
  then show "live b' = live b @ s"
    using s s' by (simp add: b'_def drop_take add_diff_assoc2)
  show "bview_past b' = bview_past b" "room_of b' = room_of b - length s"
    using s s' assms(2) by (simp_all add: b'_def take_splice_at)
qed

lemma live_skip:
  assumes "buf_at b d i" and "n \<le> i - d"
  shows "buf_at (b\<lparr>bdata := js_nat (d + n)\<rparr>) (d + n) i"
    "live (b\<lparr>bdata := js_nat (d + n)\<rparr>) = drop n (live b)"
    "room_of (b\<lparr>bdata := js_nat (d + n)\<rparr>) = room_of b"
proof -
  note s = buf_at_simps [OF assms(1)]
  show at: "buf_at (b\<lparr>bdata := js_nat (d + n)\<rparr>) (d + n) i"
    using s assms by (auto intro!: buf_atI)
  show "live (b\<lparr>bdata := js_nat (d + n)\<rparr>) = drop n (live b)"
    "room_of (b\<lparr>bdata := js_nat (d + n)\<rparr>) = room_of b"
    using s buf_at_simps [OF at] by (simp_all add: drop_take add.commute)
qed

lemma length_live: "buf_at b d i \<Longrightarrow> length (live b) = i - d"
  using buf_at_simps [of b d i] by simp

lemma live_shed:
  assumes "buf_at b d i" and "n \<le> i - d"
  shows "buf_at (b\<lparr>bidle := js_nat (i - n)\<rparr>) d (i - n)"
    "live (b\<lparr>bidle := js_nat (i - n)\<rparr>) = take (length (live b) - n) (live b)"
proof -
  note s = buf_at_simps [OF assms(1)]
  show at: "buf_at (b\<lparr>bidle := js_nat (i - n)\<rparr>) d (i - n)"
    using s assms by (auto intro!: buf_atI)
  show "live (b\<lparr>bidle := js_nat (i - n)\<rparr>) = take (length (live b) - n) (live b)"
    unfolding length_live [OF assms(1)] buf_at_simps(9) [OF at] s(9)
    using s assms(2) by (simp add: add.commute)
qed

lemma live_shift:
  assumes "buf_at b d i"
  shows "buf_at (snd (Buf_shift b)) 0 (i - d)" "live (snd (Buf_shift b)) = live b"
proof -
  note s = buf_at_simps [OF assms]
  have l: "length (live b) = i - d" using assms by (rule length_live)
  show at: "buf_at (snd (Buf_shift b)) 0 (i - d)"
    using s l assms by (auto simp: Buf_shift_at [OF assms] intro!: buf_atI)
  have "take (i - d) (splice_at (bytes b) 0 (live b)) = live b"
    using take_splice_at_all [of 0 "bytes b" "live b"] l by simp
  then show "live (snd (Buf_shift b)) = live b"
    using buf_at_simps(9) [OF at] s(9) by (auto simp: Buf_shift_at [OF assms])
qed

lemma live_splice:
  assumes at: "buf_at b d i"
    and fits: "off + ct \<le> i - d" "length p \<le> cap b - i + ct"
  defines "b' \<equiv> snd (Buf_splice (js_nat off) (js_nat ct) (apart p) b)"
  shows "buf_at b' d (i + length p - ct)"
    "live b' = take off (live b) @ p @ drop (off + ct) (live b)"
    "bview_past b' = bview_past b"
proof -
  note s = buf_at_simps [OF at]
  let ?tail = "take (i - (d + off + ct)) (drop (d + off + ct) (bytes b))"
  let ?x = "splice_at (bytes b) (d + off + length p) ?tail"
  have tl: "length ?tail = i - (d + off + ct)" using s fits by simp
  have fit: "d + off + length p + length ?tail \<le> cap b" "ct \<le> i"
    using s fits tl by linarith+
  have lx: "length ?x = cap b" using fit s by simp
  have b': "b' = b\<lparr>bytes := splice_at ?x (d + off) p, bidle := js_nat (i + length p - ct)\<rparr>"
    using fits by (simp add: b'_def Buf_splice_at [OF at])
  show at': "buf_at b' d (i + length p - ct)"
    using s fits fit lx by (auto simp: b' intro!: buf_atI)
  note s' = buf_at_simps [OF at']
  have end': "i + length p - ct = d + off + length p + length ?tail"
    using tl fits s by linarith
  have all: "take (i + length p - ct) (splice_at ?x (d + off) p) = take (d + off) (bytes b) @ p @ ?tail"
    using take_splice_twice [of "d + off" p ?tail "bytes b"] fit s unfolding end' by simp
  have tail: "?tail = drop (off + ct) (live b)"
  proof -
    have "i - (d + off + ct) = i - d - (off + ct)" "d + off + ct = off + ct + d" by simp_all
    then show ?thesis by (simp only: s(9) drop_take drop_drop)
  qed
  have bb: "bytes b' = splice_at ?x (d + off) p" by (simp add: b')
  have dl: "d + off \<le> length (bytes b)" using s(3,4,5) fits(1) by linarith
  have "live b' = drop d (take (i + length p - ct) (bytes b'))"
    using s'(9) by (simp only: drop_take)
  also have "\<dots> = drop d (take (d + off) (bytes b) @ p @ ?tail)"
    by (simp only: bb all)
  also have "\<dots> = take off (drop d (bytes b)) @ p @ ?tail"
    using dl by (simp add: drop_take)
  also have "take off (drop d (bytes b)) = take off (live b)"
    using fits(1) by (simp add: s(9) min_def)
  finally show "live b' = take off (live b) @ p @ drop (off + ct) (live b)"
    by (simp only: tail)
  have "bview_past b' = take d (bytes b')" using s'(11) .
  also have "\<dots> = take d (bytes b)"
    using dl fit lx by (simp add: bb take_splice_at s(5))
  finally show "bview_past b' = bview_past b" by (simp only: s(11))
qed

section \<open>The contract: a bounded queue of bytes\<close>

text \<open>
  What a \<open>Buf\<close> promises, without arrays and cursors: bytes gone by, bytes held, free places.  An
  operation of the class is a value of \<open>bop\<close>; \<open>buf_op\<close> runs it on the class, \<open>queue_op\<close> on the
  queue.  A result is the bytes handed back.
\<close>

datatype bop = Feed "u8 list" | Feed1 jsnum | Fed int | Take int | Skip int | Shed int | Pop
  | Reset | Shift | Splice int int "u8 list"

record queue =
  gone :: nat
  held :: "u8 list"
  free :: nat

definition buf_op :: "bop \<Rightarrow> (buf, u8 list) js" where
  "buf_op op = (case op of
     Feed s \<Rightarrow> jbind (Buf_feed s) (\<lambda>_. jret [])
   | Feed1 x \<Rightarrow> jbind (Buf_feed1 x) (\<lambda>_. jret [])
   | Fed n \<Rightarrow> jbind (Buf_fed (js_int n)) (\<lambda>_. jret [])
   | Take n \<Rightarrow> Buf_take (js_int n)
   | Skip n \<Rightarrow> jbind (Buf_skip (js_int n)) (\<lambda>_. jret [])
   | Shed n \<Rightarrow> jbind (Buf_shed (js_int n)) (\<lambda>_. jret [])
   | Pop \<Rightarrow> jbind Buf_pop (\<lambda>x. jret (case x of None \<Rightarrow> [] | Some c \<Rightarrow> [c]))
   | Reset \<Rightarrow> jbind Buf_reset (\<lambda>_. jret [])
   | Shift \<Rightarrow> jbind Buf_shift (\<lambda>_. jret [])
   | Splice off ct p \<Rightarrow> jbind (Buf_splice (js_int off) (js_int ct) (apart p)) (\<lambda>_. jret []))"

text \<open>\<open>Fed\<close> commits bytes written into IDLE behind the class's back, so the queue takes them as given.\<close>

definition queue_op :: "bop \<Rightarrow> u8 list \<Rightarrow> (queue, u8 list) js" where
  "queue_op op wrote = (\<lambda>q. case op of
     Feed s \<Rightarrow> if free q < length s then (Inl (ThrowStr ''NOROOM''), q)
       else (Inr [], q\<lparr>held := held q @ s, free := free q - length s\<rparr>)
   | Feed1 x \<Rightarrow> if free q = 0 then (Inl (ThrowStr ''NOROOM''), q)
       else (Inr [], q\<lparr>held := held q @ [word_of_int (to_int32 x)], free := free q - 1\<rparr>)
   | Fed n \<Rightarrow> if n < 0 \<or> int (free q) < n then (Inl (ThrowStr ''BADARG''), q)
       else (Inr [], q\<lparr>held := held q @ take (nat n) wrote, free := free q - nat n\<rparr>)
   | Take n \<Rightarrow> if n < 0 \<or> int (length (held q)) < n then (Inl (ThrowStr ''BADARG''), q)
       else (Inr (take (nat n) (held q)), q\<lparr>gone := gone q + nat n, held := drop (nat n) (held q)\<rparr>)
   | Skip n \<Rightarrow> if n < 0 \<or> int (length (held q)) < n then (Inl (ThrowStr ''BADARG''), q)
       else (Inr [], q\<lparr>gone := gone q + nat n, held := drop (nat n) (held q)\<rparr>)
   | Shed n \<Rightarrow> if n < 0 \<or> int (length (held q)) < n then (Inl (ThrowStr ''BADARG''), q)
       else (Inr [], q\<lparr>held := take (length (held q) - nat n) (held q), free := free q + nat n\<rparr>)
   | Pop \<Rightarrow> if held q = [] then (Inl (ThrowStr ''NODATA''), q)
       else (Inr [last (held q)], q\<lparr>held := butlast (held q), free := free q + 1\<rparr>)
   | Reset \<Rightarrow> (Inr [], \<lparr>gone = 0, held = [], free = gone q + length (held q) + free q\<rparr>)
   | Shift \<Rightarrow> (Inr [], q\<lparr>gone := 0, free := gone q + free q\<rparr>)
   | Splice off ct p \<Rightarrow>
       if off < 0 \<or> ct < 0 \<or> int (length (held q)) < off + ct then (Inl (ThrowStr ''BADARG''), q)
       else if int (free q) + ct < int (length p) then (Inl (ThrowStr ''NOROOM''), q)
       else (Inr [], q\<lparr>held := take (nat off) (held q) @ p @ drop (nat (off + ct)) (held q),
                       free := nat (int (free q) + ct - int (length p))\<rparr>))"

definition queue_of :: "buf \<Rightarrow> queue" where
  "queue_of b = \<lparr>gone = length (bview_past b), held = live b, free = room_of b\<rparr>"

lemma queue_of_at:
  "buf_at b d i \<Longrightarrow> queue_of b = \<lparr>gone = d, held = live b, free = cap b - i\<rparr>"
  using buf_at_simps [of b d i] by (simp add: queue_of_def)

lemma Buf_feed1_is_feed:
  assumes "buf_at b d i"
  shows "jbind (Buf_feed1 x) (\<lambda>_. jret y) b =
    jbind (Buf_feed [word_of_int (to_int32 x)]) (\<lambda>_. jret y) b"
  using buf_at_simps(4,5) [OF assms]
  by (auto simp: Buf_feed1_at [OF assms] Buf_feed_at [OF assms] jbind_def splice_at_def
      upd_conv_take_nth_drop)

lemma live_fed:
  assumes "buf_at b d i" and "n \<le> cap b - i"
  shows "buf_at (b\<lparr>bidle := js_nat (i + n)\<rparr>) d (i + n)"
    "live (b\<lparr>bidle := js_nat (i + n)\<rparr>) = live b @ take n (bview_idle b)"
proof -
  note s = buf_at_simps [OF assms(1)]
  show at: "buf_at (b\<lparr>bidle := js_nat (i + n)\<rparr>) d (i + n)"
    using s assms by (auto intro!: buf_atI)
  have e: "i + n - d = (i - d) + n" using s(3) by simp
  have "drop (i - d) (drop d (bytes b)) = drop i (bytes b)" using s(3) by simp
  then show "live (b\<lparr>bidle := js_nat (i + n)\<rparr>) = live b @ take n (bview_idle b)"
    unfolding buf_at_simps(9) [OF at] s(9) s(12) e take_add by simp
qed

lemma js_int_nat: "js_int (int n) = js_nat n"
  by (simp add: js_int_def js_nat_def)

lemma below_zero: "n < 0 \<Longrightarrow> num_lt (js_int n) (Fin 0)"
  by (simp add: js_int_def)

lemma negative_refused:
  assumes "n < 0"
  shows "Buf_fed (js_int n) b = (Inl (ThrowStr ''BADARG''), b)"
    "Buf_take (js_int n) b = (Inl (ThrowStr ''BADARG''), b)"
    "Buf_skip (js_int n) b = (Inl (ThrowStr ''BADARG''), b)"
    "Buf_shed (js_int n) b = (Inl (ThrowStr ''BADARG''), b)"
  using assms by (simp_all add: Buf_defs below_zero)

lemma splice_refused:
  "off < 0 \<or> ct < 0 \<Longrightarrow> Buf_splice (js_int off) (js_int ct) p b = (Inl (ThrowStr ''BADARG''), b)"
  by (auto simp: Buf_splice_def below_zero)

lemma queue_step_Feed1:
  assumes "buf_ok b"
  shows "buf_op (Feed1 x) b = buf_op (Feed [word_of_int (to_int32 x)]) b"
    "queue_op (Feed1 x) w q = queue_op (Feed [word_of_int (to_int32 x)]) w q"
  using assms by (auto simp: buf_op_def queue_op_def buf_ok_def Buf_feed1_is_feed less_Suc_eq)

lemma queue_step:
  assumes "buf_ok b"
  shows "fst (buf_op op b) = fst (queue_op op (bview_idle b) (queue_of b)) \<and>
    queue_of (snd (buf_op op b)) = snd (queue_op op (bview_idle b) (queue_of b)) \<and>
    buf_ok (snd (buf_op op b)) \<and> cap (snd (buf_op op b)) = cap b"
proof -
  from assms obtain d i where at: "buf_at b d i" by (auto simp: buf_ok_def)
  note s = buf_at_simps [OF at] and l = length_live [OF at] and q = queue_of_at [OF at]
  have feed: "fst (buf_op (Feed xs) b) = fst (queue_op (Feed xs) (bview_idle b) (queue_of b)) \<and>
    queue_of (snd (buf_op (Feed xs) b)) = snd (queue_op (Feed xs) (bview_idle b) (queue_of b)) \<and>
    buf_ok (snd (buf_op (Feed xs) b)) \<and> cap (snd (buf_op (Feed xs) b)) = cap b" for xs
    using at assms live_feed [OF at, of xs] s(3,4)
    by (auto simp: buf_op_def queue_op_def Buf_feed_at jbind_def q queue_of_at buf_at_ok)
  show ?thesis
  proof (cases op)
    case (Feed xs)
    then show ?thesis using feed by simp
  next
    case (Feed1 x)
    then show ?thesis
      using feed queue_step_Feed1 [OF assms] by simp
  next
    case (Fed n)
    show ?thesis
    proof (cases n)
      case (nonneg k)
      with Fed show ?thesis
        using at assms live_fed [OF at, of k] s(3,4)
        by (auto simp: buf_op_def queue_op_def js_int_nat Buf_fed_at jbind_def q queue_of_at buf_at_ok)
    next
      case (neg k)
      with Fed assms show ?thesis by (simp add: buf_op_def queue_op_def negative_refused jbind_def)
    qed
  next
    case (Take n)
    show ?thesis
    proof (cases n)
      case (nonneg k)
      with Take show ?thesis
        using at assms live_skip [OF at, of k] s(3,4) l
        by (auto simp: buf_op_def queue_op_def js_int_nat Buf_take_at jbind_def q queue_of_at buf_at_ok)
    next
      case (neg k)
      with Take assms show ?thesis by (simp add: buf_op_def queue_op_def negative_refused jbind_def)
    qed
  next
    case (Skip n)
    show ?thesis
    proof (cases n)
      case (nonneg k)
      with Skip show ?thesis
        using at assms live_skip [OF at, of k] s(3,4) l
        by (auto simp: buf_op_def queue_op_def js_int_nat Buf_skip_at jbind_def q queue_of_at buf_at_ok)
    next
      case (neg k)
      with Skip assms show ?thesis by (simp add: buf_op_def queue_op_def negative_refused jbind_def)
    qed
  next
    case (Shed n)
    show ?thesis
    proof (cases n)
      case (nonneg k)
      with Shed show ?thesis
        using at assms live_shed [OF at, of k] s(3,4) l
        by (auto simp: buf_op_def queue_op_def js_int_nat Buf_shed_at jbind_def q queue_of_at buf_at_ok)
    next
      case (neg k)
      with Shed assms show ?thesis by (simp add: buf_op_def queue_op_def negative_refused jbind_def)
    qed
  next
    case Pop
    have e: "live b = [] \<longleftrightarrow> i = d" using l s(3) by (metis diff_is_0_eq' length_0_conv diff_is_0_eq le_antisym le_refl)
    show ?thesis
    proof (cases "i = d")
      case True
      then show ?thesis using e assms Pop
        by (simp add: buf_op_def queue_op_def Buf_pop_at [OF at] jbind_def q)
    next
      case False
      then have "1 \<le> i - d" "cap b - (i - 1) = cap b - i + 1" using s(3,4) by linarith+
      moreover from this have "bytes b ! (i - 1) = last (live b)"
        using s(4,5,9) e False by (simp add: last_conv_nth)
      ultimately show ?thesis
        using live_shed [OF at, of 1] s(3,4) l Pop False e
        by (simp add: buf_op_def queue_op_def Buf_pop_at [OF at] jbind_def q queue_of_at buf_at_ok
            butlast_conv_take)
    qed
  next
    case Reset
    have "buf_at (b\<lparr>bdata := Fin 0, bidle := Fin 0\<rparr>) 0 0"
      using s(5) by (intro buf_atI) (simp_all add: Fin_0_nat)
    then show ?thesis using Reset s(3,4) l length_live [of "b\<lparr>bdata := Fin 0, bidle := Fin 0\<rparr>" 0 0]
      by (simp add: buf_op_def queue_op_def Buf_reset_def q queue_of_at buf_at_ok)
  next
    case Shift
    have "cap (snd (Buf_shift b)) = cap b" by (simp add: Buf_shift_at [OF at])
    with Shift show ?thesis using live_shift [OF at] s(3,4) at
      by (simp add: buf_op_def queue_op_def q queue_of_at buf_at_ok jbind_def Buf_shift_at)
  next
    case (Splice off ct p)
    show ?thesis
    proof (cases "off < 0 \<or> ct < 0")
      case True
      with Splice assms show ?thesis by (auto simp: buf_op_def queue_op_def splice_refused jbind_def)
    next
      case False
      then obtain o' c' where e: "off = int o'" "ct = int c'"
        by (metis not_less nonneg_int_cases)
      with Splice show ?thesis
        using at assms live_splice [OF at, of o' c' p] s(3,4) l
        by (auto simp: buf_op_def queue_op_def js_int_nat Buf_splice_at jbind_def q queue_of_at buf_at_ok
            nat_add_distrib nat_diff_distrib')
    qed
  qed
qed

lemma live_grow:
  assumes "buf_at b d i"
  shows "buf_at (snd (Buf_grow n b)) d i" "live (snd (Buf_grow n b)) = live b"
    "cap (snd (Buf_grow n b)) = max n (cap b)"
proof -
  note s = buf_at_simps [OF assms]
  have all: "ta_subarray (bytes b) (Fin 0) (bidle b) = take i (bytes b)"
    using s by (simp add: Fin_0_nat ta_nat)
  have all': "ta_subarray (bytes b) (Fin 0) (js_nat i) = take i (bytes b)"
    using all s(2) by simp
  have ti: "take i (splice_at (replicate n 0) 0 (take i (bytes b))) = take i (bytes b)"
    using s(4,5) take_splice_at_all [of 0 "replicate n 0" "take i (bytes b)"] by simp
  show at: "buf_at (snd (Buf_grow n b)) d i"
    using s assms by (auto simp: Buf_grow_def all all' intro!: buf_atI)
  show "cap (snd (Buf_grow n b)) = max n (cap b)" by (simp add: Buf_grow_def)
  show "live (snd (Buf_grow n b)) = live b"
    unfolding buf_at_simps(9) [OF at] s(9)
    using ti by (auto simp: Buf_grow_def all take_drop_shift s(3))
qed

text \<open>The buffers a program can make: from the constructors, by operations and growth.\<close>

inductive buf_reach :: "buf \<Rightarrow> bool" where
  reach_over: "length bs < 2 ^ 31 \<Longrightarrow> buf_reach (Buf_over bs)"
| reach_into: "buf_reach (Buf_into bs)"
| reach_op: "buf_reach b \<Longrightarrow> buf_reach (snd (buf_op op b))"
| reach_grow: "buf_reach b \<Longrightarrow> buf_reach (snd (Buf_grow n b))"

lemma buf_reach_ok: "buf_reach b \<Longrightarrow> buf_ok b"
proof (induction rule: buf_reach.induct)
  case (reach_grow b n)
  then obtain d i where "buf_at b d i" by (auto simp: buf_ok_def)
  then show ?case using live_grow(1) buf_at_ok by blast
qed (use Buf_over_at Buf_into_at queue_step in \<open>auto intro: buf_at_ok\<close>)

section \<open>Properties\<close>

text \<open>
  C4: at whole-number arguments a \<open>Buf\<close> is a bounded byte queue.  On every buffer made out of
  \<open>Buf.over\<close> (an array shorter than 2 GiB) and \<open>Buf.into\<close> by the class's operations, the counts and
  offsets passed being whole numbers, negative ones included (a NaN breaks the class,
  \<open>Buf_cursor_takes_NaN\<close>), and no paste of \<open>splice\<close> a view of the buffer's own bytes
  (\<open>splice_reads_moved_bytes\<close>), the cursors stay in order inside the array, and every operation has the result (bytes or exception)
  and the effect that the queue of held bytes prescribes: \<open>feed\<close> appends or throws NOROOM and
  changes nothing, \<open>take\<close> hands out the oldest bytes, \<open>shed\<close> and \<open>pop\<close> drop the youngest, \<open>shift\<close>
  turns PAST into room without touching DATA, \<open>splice\<close> replaces exactly the cut bytes, and a negative
  count or offset is refused and changes nothing.
\<close>

theorem Buf_is_a_byte_queue:
  assumes "buf_reach b"
  shows "buf_ok b \<and>
    fst (buf_op op b) = fst (queue_op op (bview_idle b) (queue_of b)) \<and>
    queue_of (snd (buf_op op b)) = snd (queue_op op (bview_idle b) (queue_of b)) \<and>
    cap (snd (buf_op op b)) = cap b"
  using queue_step [OF buf_reach_ok [OF assms]] buf_reach_ok [OF assms] by simp

theorem Buf_is_a_byte_queue_witness:
  "fst (buf_op (Take 2) (snd (buf_op (Feed [5, 6, 7]) (Buf_into [0, 0, 0, 0])))) = Inr [5, 6]"
proof -
  have r: "buf_reach (Buf_into [0, 0, 0, 0])" by (rule reach_into)
  have q: "queue_of (Buf_into [0, 0, 0, 0]) = \<lparr>gone = 0, held = [], free = 4\<rparr>"
    using queue_of_at [OF Buf_into_at, of "[0, 0, 0, 0]"] length_live [OF Buf_into_at, of "[0, 0, 0, 0]"]
    by (simp add: Buf_into_def Buf_new_def eval_nat_numeral)
  from Buf_is_a_byte_queue [OF r, of "Feed [5, 6, 7]"] q
  have "queue_of (snd (buf_op (Feed [5, 6, 7]) (Buf_into [0, 0, 0, 0]))) =
    \<lparr>gone = 0, held = [5, 6, 7], free = 1\<rparr>" by (simp add: queue_op_def)
  with Buf_is_a_byte_queue [OF reach_op [OF r, of "Feed [5, 6, 7]"], of "Take 2"] show ?thesis by (simp add: queue_op_def)
qed

text \<open>
  A paste that is a view of the buffer's own bytes is read after the tail has been moved: pasting the
  last two of four bytes at the front pastes the first two, which the move has put there.
\<close>

lemma splice_reads_moved_bytes:
  "live (Buf_new [1, 2, 3, 4, 0, 0] (Fin 0) (Some (Fin 4))) = [1, 2, 3, 4] \<and>
   shown_at 2 2 [1, 2, 3, 4, 0, 0] = [3, 4 :: u8] \<and>
   live (snd (Buf_splice (Fin 0) (Fin 0) (shown_at 2 2) (Buf_new [1, 2, 3, 4, 0, 0] (Fin 0) (Some (Fin 4))))) =
     [1, 2, 1, 2, 3, 4]"
  by code_simp

text \<open>
  The argument checks of the cursor methods let a NaN through.  \<open>n < 0 || n > room\<close> is false
  for a NaN, so \<open>fed (NaN)\<close> succeeds and leaves a NaN cursor; the next \<open>feed\<close> then passes its
  NOROOM check whatever the size of the buffer's live part and overwrites the array from its very
  start, PAST and DATA included.  \<open>take\<close>, \<open>skip\<close> and \<open>shed\<close> take a NaN in the same way.
\<close>

theorem Buf_cursor_takes_NaN:
  assumes "buf_ok b" and "length s \<le> cap b"
  shows "Buf_fed NaN b = (Inr (), b\<lparr>bidle := NaN\<rparr>) \<and>
    Buf_feed s (b\<lparr>bidle := NaN\<rparr>) = (Inr (length s), b\<lparr>bidle := NaN, bytes := splice_at (bytes b) 0 s\<rparr>) \<and>
    Buf_skip NaN b = (Inr (), b\<lparr>bdata := NaN\<rparr>) \<and> Buf_shed NaN b = (Inr (), b\<lparr>bidle := NaN\<rparr>) \<and>
    snd (Buf_take NaN b) = b\<lparr>bdata := NaN\<rparr>"
proof -
  from assms(1) obtain d i where at: "buf_at b d i" by (auto simp: buf_ok_def)
  have "num_add x NaN = NaN" for x by (cases x) auto
  moreover have "\<not> num_lt x NaN" for x by (cases x) auto
  ultimately show ?thesis using buf_at_simps(5) [OF at] assms(2)
    by (simp add: Buf_fed_def Buf_feed_def Buf_skip_def Buf_shed_def Buf_take_def broom_def num_sub_def
        bset_def ta_set_def jbind_def)
qed

theorem Buf_cursor_takes_NaN_witness:
  "bytes (snd (Buf_feed [9, 9] (snd (Buf_fed NaN (Buf_over [1, 2, 3]))))) = [9, 9, 3]"
proof -
  have "buf_ok (Buf_over [1, 2, 3])" using Buf_over_at [of "[1, 2, 3]"] buf_at_ok by simp
  moreover have "length [9, 9 :: u8] \<le> cap (Buf_over [1, 2, 3])" by (simp add: Buf_over_def Buf_new_def)
  ultimately show ?thesis
    using Buf_cursor_takes_NaN [of "Buf_over [1, 2, 3]" "[9, 9]"]
    by (simp add: Buf_over_def Buf_new_def splice_at_def)
qed

end
