(* ===== verification/Utf8.thy ===== *)
theory Utf8
  imports Arg BufJs
begin

text \<open>
  \<open>utf8.c\<close> and the text sugar of \<open>buf.c\<close>: \<open>utf8.encodeInto\<close> copies the UTF-8 bytes of a string
  into a typed array, cut at a character boundary; \<open>utf8.Encode\<close> and \<open>Buf.feedStr\<close> sit on it;
  \<open>utf8.Decode\<close> checks the bytes (libabc's \<open>utf8sValid\<close>, a parameter) before a string is built.
\<close>

section \<open>Strings and bytes\<close>

definition bytes_of :: "string \<Rightarrow> u8 list" where
  "bytes_of s = map (\<lambda>c. word_of_nat (of_char c)) s"

definition string_of :: "u8 list \<Rightarrow> string" where
  "string_of bs = map (\<lambda>b. char_of (unat b)) bs"

lemma unat_of_char: "unat (word_of_nat (of_char c) :: u8) = of_char c"
proof -
  have "of_char c < (256 :: nat)" using of_char_mod_256 [of c, where 'a = nat] by (metis mod_less_divisor zero_less_numeral)
  then show ?thesis by (simp add: unat_of_nat)
qed

lemma string_of_bytes_of [simp]: "string_of (bytes_of s) = s"
  by (simp add: string_of_def bytes_of_def comp_def unat_of_char)

lemma bytes_of_string_of [simp]: "bytes_of (string_of bs) = bs"
proof -
  have "unat b mod 256 = unat b" for b :: u8
    using unsigned_less [of b, where 'a = nat] by simp
  then show ?thesis by (simp add: string_of_def bytes_of_def comp_def)
qed

lemma length_bytes_of [simp]: "length (bytes_of s) = length s"
  by (simp add: bytes_of_def)

section \<open>encodeInto\<close>

definition is_cont :: "u8 \<Rightarrow> bool" where
  "is_cont c \<longleftrightarrow> and c 0xC0 = 0x80"

text \<open>\<open>while (n > 0 && n < len && (s[n] & 0xC0) == 0x80) n--\<close>\<close>

fun back_off :: "u8 list \<Rightarrow> nat \<Rightarrow> nat" where
  "back_off s 0 = 0"
| "back_off s (Suc n) =
     (if Suc n < length s \<and> is_cont (s ! Suc n) then back_off s n else Suc n)"

definition encode_cut :: "u8 list \<Rightarrow> nat \<Rightarrow> nat" where
  "encode_cut s room = back_off s (if length s < room then length s else room)"

text \<open>The leaf: its result, and the bytes the destination holds after it.\<close>

definition JABCutf8EncodeInto :: "jsval list \<Rightarrow> u8 list \<Rightarrow> (exn + nat) \<times> u8 list" where
  "JABCutf8EncodeInto argv dst =
     (if length argv < 2 \<or> \<not> is_str (argv ! 0)
      then (Inl (ThrowError ''utf8.encodeInto(string, Uint8Array) -> n''), dst)
      else case argv ! 0 of
        JStr str \<Rightarrow>
          (let s = bytes_of str; n = encode_cut s (length dst) in
           if length dst < n then (Inl (ThrowError ''utf8.encodeInto(): the target buffer is too small''), dst)
           else (Inr n, splice_at dst 0 (take n s)))
      | _ \<Rightarrow> (Inl CUndef, dst))"

definition JABCutf8Decode :: "(u8 list \<Rightarrow> bool) \<Rightarrow> u8 list \<Rightarrow> exn + jsval" where
  "JABCutf8Decode utf8sValid src =
     (if \<not> utf8sValid src then Inl (ThrowError ''utf8.Decode(): malformed UTF-8'')
      else Inr (JStr (string_of src)))"

definition Buf_feedStr :: "string \<Rightarrow> (buf, nat) js" where
  "Buf_feedStr str = (\<lambda>b.
     let idle = bview_idle b in
     case JABCutf8EncodeInto [JStr str, JUndef] idle of
       (Inl e, _) \<Rightarrow> (Inl e, b)
     | (Inr n, idle') \<Rightarrow>
         (Inr n, b\<lparr>bytes := splice_at (bytes b) (rel_index (length (bytes b)) (bidle b)) idle',
                   bidle := num_add (bidle b) (js_nat n)\<rparr>))"

text \<open>\<open>utf8.Encode\<close> sizes its array by the number of UTF-16 units, \<open>units\<close>.\<close>

definition Encode :: "nat \<Rightarrow> string \<Rightarrow> exn + u8 list" where
  "Encode units str =
     (case JABCutf8EncodeInto [JStr str, JUndef] (replicate (units * 3 + 4) 0) of
        (Inl e, _) \<Rightarrow> Inl e
      | (Inr n, b) \<Rightarrow> Inr (take n b))"

lemma back_off_le: "back_off s n \<le> n"
  by (induction n) auto

lemma encode_cut_le: "encode_cut s room \<le> room" "encode_cut s room \<le> length s"
  using back_off_le [of s "length s"] back_off_le [of s room] by (auto simp: encode_cut_def)

lemma EncodeInto_str:
  "JABCutf8EncodeInto [JStr str, v] dst =
     (Inr (encode_cut (bytes_of str) (length dst)),
      splice_at dst 0 (take (encode_cut (bytes_of str) (length dst)) (bytes_of str)))"
  using encode_cut_le [of "bytes_of str" "length dst"]
  by (simp add: JABCutf8EncodeInto_def Let_def not_less)

section \<open>Characters\<close>

text \<open>
  The shape of UTF-8 that the engine hands out: a character is one to four bytes, the first no
  continuation byte, the others continuation bytes.
\<close>

definition utf8_char :: "u8 list \<Rightarrow> bool" where
  "utf8_char c \<longleftrightarrow> c \<noteq> [] \<and> length c \<le> 4 \<and> \<not> is_cont (hd c) \<and> list_all is_cont (tl c)"

lemma back_off_inside:
  assumes "utf8_char t" and "k < length t"
  shows "back_off (p @ t @ q) (length p + k) = length p"
  using assms(2)
proof (induction k)
  case 0
  have "(p @ t @ q) ! length p = hd t" using assms(1) 0
    by (simp add: utf8_char_def nth_append hd_conv_nth)
  then show ?case using assms(1) by (cases "length p") (auto simp: utf8_char_def)
next
  case (Suc k)
  have "(p @ t @ q) ! (length p + Suc k) = tl t ! k"
    using Suc.prems by (simp add: nth_append nth_tl)
  moreover have "is_cont (tl t ! k)"
    using assms(1) Suc.prems by (simp add: utf8_char_def list_all_length)
  ultimately show ?case using Suc by simp
qed

text \<open>The longest run of whole characters that fits.\<close>

fun whole_chars :: "u8 list list \<Rightarrow> nat \<Rightarrow> nat" where
  "whole_chars [] room = 0"
| "whole_chars (c # cs) room =
     (if length c \<le> room then length c + whole_chars cs (room - length c) else 0)"

lemma whole_chars_all: "length (concat cs) \<le> room \<Longrightarrow> whole_chars cs room = length (concat cs)"
  by (induction cs arbitrary: room) auto

lemma back_off_whole:
  assumes "list_all utf8_char cs" and "room < length (concat cs)"
  shows "back_off (p @ concat cs) (length p + room) = length p + whole_chars cs room"
  using assms
proof (induction cs arbitrary: p room)
  case (Cons c cs)
  show ?case
  proof (cases "length c \<le> room")
    case True
    then have "back_off ((p @ c) @ concat cs) (length (p @ c) + (room - length c)) =
        length (p @ c) + whole_chars cs (room - length c)"
      using Cons.prems by (intro Cons.IH) auto
    then show ?thesis using True by simp
  next
    case False
    then show ?thesis using back_off_inside [of c room p "concat cs"] Cons.prems by simp
  qed
qed simp

lemma encode_cut_whole:
  assumes "list_all utf8_char cs"
  shows "encode_cut (concat cs) room = whole_chars cs room"
proof (cases "length (concat cs) \<le> room")
  case True
  have "back_off s (length s) = length s" for s :: "u8 list"
    by (cases "length s") auto
  with True show ?thesis
    by (auto simp: encode_cut_def whole_chars_all)
next
  case False
  then show ?thesis using back_off_whole [OF assms, of room "[]"] by (simp add: encode_cut_def)
qed

text \<open>A character of four bytes is two UTF-16 units, any other is one.\<close>

definition utf16_units :: "u8 list list \<Rightarrow> nat" where
  "utf16_units cs = sum_list (map (\<lambda>c. if length c = 4 then 2 else 1) cs)"

lemma units_bound:
  "list_all utf8_char cs \<Longrightarrow> length (concat cs) \<le> utf16_units cs * 3"
  by (induction cs) (auto simp: utf16_units_def utf8_char_def)

section \<open>Properties\<close>

text \<open>
  \<open>encodeInto\<close> writes whole characters only.  For a string made of the characters \<open>cs\<close> it
  writes the longest run of whole characters that fits the destination, from its start on, leaves
  the bytes after it alone and returns its length; it fails on no destination.
\<close>

theorem encodeInto_whole_characters:
  fixes dst :: "u8 list"
  assumes "list_all utf8_char cs" and "bytes_of str = concat cs"
  defines "n \<equiv> whole_chars cs (length dst)"
  shows "JABCutf8EncodeInto [JStr str, v] dst = (Inr n, take n (concat cs) @ drop n dst) \<and>
    n \<le> length dst \<and> (\<exists>k \<le> length cs. take n (concat cs) = concat (take k cs) \<and>
      (k < length cs \<longrightarrow> length dst < length (concat (take (Suc k) cs))))"
proof -
  have run: "\<exists>k \<le> length cs. take (whole_chars cs room) (concat cs) = concat (take k cs) \<and>
      (k < length cs \<longrightarrow> room < length (concat (take (Suc k) cs)))" for room
  proof (induction cs arbitrary: room)
    case (Cons c cs)
    show ?case
    proof (cases "length c \<le> room")
      case True
      from Cons.IH [of "room - length c"] obtain k where "k \<le> length cs"
        "take (whole_chars cs (room - length c)) (concat cs) = concat (take k cs)"
        "k < length cs \<longrightarrow> room - length c < length (concat (take (Suc k) cs))" by blast
      then show ?thesis using True by (intro exI [of _ "Suc k"]) auto
    next
      case False
      then show ?thesis by (intro exI [of _ 0]) auto
    qed
  qed simp
  have n: "encode_cut (bytes_of str) (length dst) = n"
    using assms by (simp add: encode_cut_whole)
  have "n \<le> length dst" "n \<le> length (concat cs)"
    using encode_cut_le [of "bytes_of str" "length dst"] n assms(2) by simp_all
  with n run [of "length dst"] show ?thesis
    by (simp add: EncodeInto_str assms(2) splice_at_def n_def min_def)
qed

theorem encodeInto_whole_characters_witness:
  "JABCutf8EncodeInto [JStr [CHR 0x61, CHR 0xC3, CHR 0xA9], JUndef] [7, 7] = (Inr 1, [0x61, 7])"
proof -
  have ok: "list_all utf8_char [[0x61], [0xC3, 0xA9]]"
    "bytes_of [CHR 0x61, CHR 0xC3, CHR 0xA9] = concat [[0x61], [0xC3, 0xA9]]"
    by (simp_all add: utf8_char_def is_cont_def bytes_of_def)
  from encodeInto_whole_characters [OF ok, of JUndef "[7, 7]"] show ?thesis by simp
qed

text \<open>
  \<open>utf8.Encode\<close> never truncates.  Three bytes per UTF-16 unit and four to spare are enough for
  any string, so the result is the string's UTF-8 bytes; and when the validator accepts them,
  \<open>utf8.Decode\<close> gives the string back.
\<close>

theorem Encode_round_trip:
  assumes "list_all utf8_char cs" and "bytes_of str = concat cs"
  shows "Encode (utf16_units cs) str = Inr (bytes_of str) \<and>
    (utf8sValid (bytes_of str) \<longrightarrow> JABCutf8Decode utf8sValid (bytes_of str) = Inr (JStr str))"
proof -
  let ?m = "utf16_units cs * 3 + 4"
  have fit: "length (concat cs) \<le> ?m" using units_bound [OF assms(1)] by simp
  then have "encode_cut (bytes_of str) ?m = length (bytes_of str)"
    using assms by (simp add: encode_cut_whole whole_chars_all)
  then show ?thesis using fit string_of_bytes_of [of str] unfolding assms(2)
    by (simp add: Encode_def EncodeInto_str splice_at_def JABCutf8Decode_def assms(2))
qed

theorem Encode_round_trip_witness:
  "Encode 2 [CHR 0x61, CHR 0xC3, CHR 0xA9] = Inr [0x61, 0xC3, 0xA9]"
proof -
  have ok: "list_all utf8_char [[0x61], [0xC3, 0xA9]]"
    "bytes_of [CHR 0x61, CHR 0xC3, CHR 0xA9] = concat [[0x61], [0xC3, 0xA9]]"
    by (simp_all add: utf8_char_def is_cont_def bytes_of_def)
  have two: "utf16_units [[0x61], [0xC3, 0xA9]] = 2" by (simp add: utf16_units_def)
  from Encode_round_trip [OF ok, unfolded two, of "\<lambda>_. True"] show ?thesis by (simp only: ok(2)) simp
qed

end
