(* ===== verification/Streams.thy ===== *)
theory Streams
  imports BufJs
begin

text \<open>
  The transfers between a file descriptor and a buffer in \<open>buf.c\<close>: \<open>io.read\<close>, \<open>io.write\<close>,
  \<open>readAll\<close>, \<open>writeAll\<close>, \<open>readv\<close> and \<open>writev\<close>, each in its form over a \<open>Buf\<close> and its form over a
  bare \<open>Uint8Array\<close>.  \<open>'k\<close> is the state of the system behind the descriptor; \<open>io._read\<close> and
  \<open>io._write\<close> on it are the parameters \<open>rd\<close> and \<open>wr\<close> (the theory \<open>Io\<close> models the leaves).

  The four loops have one shape, \<open>pump\<close>; the locale \<open>pump_port\<close> states what one transfer step
  promises, its lemmas are about the loop, and the four steps interpret it.
\<close>

section \<open>One transfer\<close>

type_synonym 'k reader = "nat \<Rightarrow> ('k, u8 list) js"
type_synonym 'k writer = "u8 list \<Rightarrow> ('k, nat) js"

text \<open>A bare view: an array and where the view of its rest starts.\<close>

record span =
  mem :: "u8 list"
  pos :: nat

definition rest :: "span \<Rightarrow> u8 list" where
  "rest v = drop (pos v) (mem v)"

definition io_read :: "'k reader \<Rightarrow> ('k \<times> buf, nat) js" where
  "io_read rd = (\<lambda>(k, b). case rd (length (bview_idle b)) k of
     (Inl e, k') \<Rightarrow> (Inl e, (k', b))
   | (Inr xs, k') \<Rightarrow>
       (Inr (length xs),
        (k', b\<lparr>bytes := splice_at (bytes b) (rel_index (length (bytes b)) (bidle b)) xs,
               bidle := num_add (bidle b) (js_nat (length xs))\<rparr>)))"

definition io_write :: "'k writer \<Rightarrow> ('k \<times> buf, nat) js" where
  "io_write wr = (\<lambda>(k, b). case wr (bview_data b) k of
     (Inl e, k') \<Rightarrow> (Inl e, (k', b))
   | (Inr n, k') \<Rightarrow> (Inr n, (k', b\<lparr>bdata := num_add (bdata b) (js_nat n)\<rparr>)))"

definition view_read :: "'k reader \<Rightarrow> ('k \<times> span, nat) js" where
  "view_read rd = (\<lambda>(k, v). case rd (length (rest v)) k of
     (Inl e, k') \<Rightarrow> (Inl e, (k', v))
   | (Inr xs, k') \<Rightarrow>
       (Inr (length xs), (k', v\<lparr>mem := splice_at (mem v) (pos v) xs, pos := pos v + length xs\<rparr>)))"

definition view_write :: "'k writer \<Rightarrow> ('k \<times> span, nat) js" where
  "view_write wr = (\<lambda>(k, v). case wr (rest v) k of
     (Inl e, k') \<Rightarrow> (Inl e, (k', v))
   | (Inr n, k') \<Rightarrow> (Inr n, (k', v\<lparr>pos := pos v + n\<rparr>)))"

section \<open>The loops\<close>

text \<open>
  \<open>let t = 0, n; while (going && (n = step ()) > 0) t += n; return t\<close>, with fuel; \<open>None\<close> is a loop
  cut short, which enough fuel excludes.
\<close>

primrec pump :: "nat \<Rightarrow> ('s \<Rightarrow> bool) \<Rightarrow> ('s, nat) js \<Rightarrow> nat \<Rightarrow> ('s, nat option) js" where
  "pump 0 going step t = jret None"
| "pump (Suc f) going step t = (\<lambda>s.
     if \<not> going s then (Inr (Some t), s)
     else jbind step (\<lambda>n. if n = 0 then jret (Some t) else pump f going step (t + n)) s)"

definition io_readAll :: "nat \<Rightarrow> 'k reader \<Rightarrow> ('k \<times> buf, nat option) js" where
  "io_readAll fuel rd = pump fuel (\<lambda>(k, b). num_lt (Fin 0) (broom b)) (io_read rd) 0"

definition io_writeAll :: "nat \<Rightarrow> 'k writer \<Rightarrow> ('k \<times> buf, nat option) js" where
  "io_writeAll fuel wr = pump fuel (\<lambda>(k, b). num_lt (Fin 0) (bsize b)) (io_write wr) 0"

definition view_readAll :: "nat \<Rightarrow> 'k reader \<Rightarrow> ('k \<times> span, nat option) js" where
  "view_readAll fuel rd = pump fuel (\<lambda>(k, v). rest v \<noteq> []) (view_read rd) 0"

definition view_writeAll :: "nat \<Rightarrow> 'k writer \<Rightarrow> ('k \<times> span, nat option) js" where
  "view_writeAll fuel wr = pump fuel (\<lambda>(k, v). rest v \<noteq> []) (view_write wr) 0"

text \<open>
  \<open>readv\<close> and \<open>writev\<close> over a list of buffers: the total, and the buffers as they are then.
\<close>

primrec io_readv :: "'k reader \<Rightarrow> buf list \<Rightarrow> 'k \<Rightarrow> (exn + nat) \<times> 'k \<times> buf list" where
  "io_readv rd [] k = (Inr 0, k, [])"
| "io_readv rd (b # bs) k =
     (case io_read rd (k, b) of
        (Inl e, (k', b')) \<Rightarrow> (Inl e, k', b' # bs)
      | (Inr n, (k', b')) \<Rightarrow>
          (case io_readv rd bs k' of
             (r, k'', bs') \<Rightarrow> (map_sum id (\<lambda>t. n + t) r, k'', b' # bs')))"

primrec io_writev :: "nat \<Rightarrow> 'k writer \<Rightarrow> buf list \<Rightarrow> 'k \<Rightarrow> (exn + nat option) \<times> 'k \<times> buf list" where
  "io_writev fuel wr [] k = (Inr (Some 0), k, [])"
| "io_writev fuel wr (b # bs) k =
     (case io_writeAll fuel wr (k, b) of
        (Inl e, (k', b')) \<Rightarrow> (Inl e, k', b' # bs)
      | (Inr None, (k', b')) \<Rightarrow> (Inr None, k', b' # bs)
      | (Inr (Some n), (k', b')) \<Rightarrow>
          (case io_writev fuel wr bs k' of
             (r, k'', bs') \<Rightarrow> (map_sum id (map_option (\<lambda>t. n + t)) r, k'', b' # bs')))"

section \<open>What one step promises, and the loop over it\<close>

text \<open>
  \<open>got k\<close> is what has been read from the descriptor so far, \<open>sent k\<close> what has been written to it.
  A read delivers no more than it was asked for, a write takes a prefix of what it was given, and
  a failing call moves nothing.
\<close>

definition reader_ok :: "('k \<Rightarrow> u8 list) \<Rightarrow> 'k reader \<Rightarrow> bool" where
  "reader_ok got rd \<longleftrightarrow>
     (\<forall>n k xs k'. rd n k = (Inr xs, k') \<longrightarrow> length xs \<le> n \<and> got k' = got k @ xs) \<and>
     (\<forall>n k e k'. rd n k = (Inl e, k') \<longrightarrow> got k' = got k)"

definition writer_ok :: "('k \<Rightarrow> u8 list) \<Rightarrow> 'k writer \<Rightarrow> bool" where
  "writer_ok sent wr \<longleftrightarrow>
     (\<forall>xs k n k'. wr xs k = (Inr n, k') \<longrightarrow> n \<le> length xs \<and> sent k' = sent k @ take n xs) \<and>
     (\<forall>xs k e k'. wr xs k = (Inl e, k') \<longrightarrow> sent k' = sent k)"

locale pump_port =
  fixes inv :: "'s \<Rightarrow> bool" and level :: "'s \<Rightarrow> nat" and going :: "'s \<Rightarrow> bool"
    and step :: "('s, nat) js" and moved :: "'s \<Rightarrow> 's \<Rightarrow> u8 list \<Rightarrow> bool"
  assumes going_level: "inv s \<Longrightarrow> going s \<longleftrightarrow> 0 < level s"
    and step_moves: "inv s \<Longrightarrow> step s = (Inr n, s') \<Longrightarrow>
      inv s' \<and> level s = n + level s' \<and> (\<exists>xs. length xs = n \<and> moved s s' xs)"
    and step_fails: "inv s \<Longrightarrow> step s = (Inl e, s') \<Longrightarrow> inv s' \<and> moved s s' []"
    and moved_none: "inv s \<Longrightarrow> moved s s []"
    and moved_append: "moved s s' xs \<Longrightarrow> moved s' s'' ys \<Longrightarrow> moved s s'' (xs @ ys)"
begin

text \<open>
  With more fuel than there is room left the loop ends; what it moved is what the total says, also
  when a step throws; and it ends without an exception only when nothing is left to move or a step
  moved nothing (the end of the file).
\<close>

lemma pump_moves:
  assumes "inv s" and "level s < fuel"
  shows "\<exists>r s' xs. pump fuel going step t s = (r, s') \<and> inv s' \<and> moved s s' xs \<and>
    (case r of Inl e \<Rightarrow> \<exists>s''. step s'' = (Inl e, s')
     | Inr None \<Rightarrow> False
     | Inr (Some t') \<Rightarrow> t' = t + length xs \<and> (\<not> going s' \<or> (\<exists>s''. step s'' = (Inr 0, s'))))"
  using assms
proof (induction fuel arbitrary: s t)
  case (Suc f)
  show ?case
  proof (cases "going s")
    case False
    then show ?thesis using Suc.prems(1) moved_none by fastforce
  next
    case True
    obtain r s1 where st: "step s = (r, s1)" by (cases "step s")
    show ?thesis
    proof (cases r)
      case (Inl e)
      then show ?thesis using step_fails [of s e s1] st Suc.prems(1) True by fastforce
    next
      case (Inr n)
      with step_moves [of s n s1] st Suc.prems(1) obtain xs where s1: "inv s1"
        "level s = n + level s1" "length xs = n" "moved s s1 xs" by blast
      show ?thesis
      proof (cases "n = 0")
        case n0: True
        then show ?thesis using st Inr True s1
          by (intro exI [of _ "Inr (Some t)"] exI [of _ s1] exI [of _ xs]) auto
      next
        case False
        then have "level s1 < f" using s1(2) Suc.prems(2) by linarith
        from Suc.IH [OF s1(1) this, of "t + n"] obtain r' s' ys
          where p: "pump f going step (t + n) s1 = (r', s')" "inv s'" "moved s1 s' ys"
            "case r' of Inl e \<Rightarrow> \<exists>s''. step s'' = (Inl e, s') | Inr None \<Rightarrow> False
             | Inr (Some t') \<Rightarrow> t' = t + n + length ys \<and> (\<not> going s' \<or> (\<exists>s''. step s'' = (Inr 0, s')))"
          by blast
        have "moved s s' (xs @ ys)" using s1(4) p(3) by (rule moved_append)
        then show ?thesis using st Inr True False p s1(3)
          by (intro exI [of _ r'] exI [of _ s'] exI [of _ "xs @ ys"])
            (auto split: sum.splits option.splits)
      qed
    qed
  qed
qed simp

lemma pump_run:
  assumes "inv s" and "level s < fuel"
  obtains r s' xs where "pump fuel going step 0 s = (r, s')" "inv s'" "moved s s' xs" "r \<noteq> Inr None"
    "\<And>t. r = Inr (Some t) \<Longrightarrow> t = length xs"
proof -
  from pump_moves [OF assms, of 0] obtain r s' xs where p: "pump fuel going step 0 s = (r, s')" "inv s'"
    "moved s s' xs" and c: "case r of Inl e \<Rightarrow> \<exists>s''. step s'' = (Inl e, s') | Inr None \<Rightarrow> False
      | Inr (Some t') \<Rightarrow> t' = 0 + length xs \<and> (\<not> going s' \<or> (\<exists>s''. step s'' = (Inr 0, s')))"
    by blast
  have "r \<noteq> Inr None" using c by auto
  moreover have "t = length xs" if "r = Inr (Some t)" for t using c that by simp
  ultimately show thesis using that p by blast
qed

end

section \<open>The four steps keep the promise\<close>

lemma io_read_at:
  assumes "buf_at b d i"
  shows "io_read rd (k, b) = (case rd (cap b - i) k of
     (Inl e, k') \<Rightarrow> (Inl e, (k', b))
   | (Inr xs, k') \<Rightarrow>
       (Inr (length xs), (k', b\<lparr>bytes := splice_at (bytes b) i xs, bidle := js_nat (i + length xs)\<rparr>)))"
  using buf_at_simps [OF assms]
  by (auto simp: io_read_def min_def split: prod.splits sum.splits)

lemma io_write_at:
  assumes "buf_at b d i"
  shows "io_write wr (k, b) = (case wr (live b) k of
     (Inl e, k') \<Rightarrow> (Inl e, (k', b))
   | (Inr n, k') \<Rightarrow> (Inr n, (k', b\<lparr>bdata := js_nat (d + n)\<rparr>)))"
  using buf_at_simps(1) [OF assms] by (auto simp: io_write_def live_def split: prod.splits sum.splits)

lemma buf_size_pos: "buf_ok b \<Longrightarrow> num_lt (Fin 0) (bsize b) \<longleftrightarrow> live b \<noteq> []"
proof -
  assume "buf_ok b"
  then obtain d i where at: "buf_at b d i" by (auto simp: buf_ok_def)
  have "live b \<noteq> [] \<longleftrightarrow> 0 < i - d" using length_live [OF at] by (metis length_greater_0_conv)
  then show ?thesis using buf_at_simps(6) [OF at] by simp
qed

text \<open>What each kind of endpoint moved: from the descriptor into DATA, from DATA to the descriptor.\<close>

definition buf_received :: "('k \<Rightarrow> u8 list) \<Rightarrow> 'k \<times> buf \<Rightarrow> 'k \<times> buf \<Rightarrow> u8 list \<Rightarrow> bool" where
  "buf_received got s s' xs \<longleftrightarrow>
     got (fst s') = got (fst s) @ xs \<and> live (snd s') = live (snd s) @ xs \<and>
     bview_past (snd s') = bview_past (snd s) \<and> cap (snd s') = cap (snd s)"

definition buf_sent :: "('k \<Rightarrow> u8 list) \<Rightarrow> 'k \<times> buf \<Rightarrow> 'k \<times> buf \<Rightarrow> u8 list \<Rightarrow> bool" where
  "buf_sent sent s s' xs \<longleftrightarrow>
     sent (fst s') = sent (fst s) @ xs \<and> live (snd s) = xs @ live (snd s') \<and>
     bytes (snd s') = bytes (snd s) \<and> bidle (snd s') = bidle (snd s)"

definition span_ok :: "span \<Rightarrow> bool" where
  "span_ok v \<longleftrightarrow> pos v \<le> length (mem v)"

definition span_received :: "('k \<Rightarrow> u8 list) \<Rightarrow> 'k \<times> span \<Rightarrow> 'k \<times> span \<Rightarrow> u8 list \<Rightarrow> bool" where
  "span_received got s s' xs \<longleftrightarrow>
     got (fst s') = got (fst s) @ xs \<and>
     pos (snd s') = pos (snd s) + length xs \<and> length (mem (snd s')) = length (mem (snd s)) \<and>
     take (pos (snd s')) (mem (snd s')) = take (pos (snd s)) (mem (snd s)) @ xs \<and>
     rest (snd s') = drop (length xs) (rest (snd s))"

definition span_sent :: "('k \<Rightarrow> u8 list) \<Rightarrow> 'k \<times> span \<Rightarrow> 'k \<times> span \<Rightarrow> u8 list \<Rightarrow> bool" where
  "span_sent sent s s' xs \<longleftrightarrow>
     sent (fst s') = sent (fst s) @ xs \<and> rest (snd s) = xs @ rest (snd s') \<and>
     mem (snd s') = mem (snd s)"

lemmas moved_defs = buf_received_def buf_sent_def span_received_def span_sent_def

interpretation buf_in: pump_port
  "\<lambda>(k, b). reader_ok got rd \<and> buf_ok b" "\<lambda>(k, b). room_of b" "\<lambda>(k, b). num_lt (Fin 0) (broom b)"
  "io_read rd" "buf_received got" for got rd
proof
  fix s :: "'a \<times> buf" and n s'
  assume inv: "case s of (k, b) \<Rightarrow> reader_ok got rd \<and> buf_ok b" and st: "io_read rd s = (Inr n, s')"
  obtain k b where s: "s = (k, b)" by (cases s)
  from inv s obtain d i where at: "buf_at b d i" and rd: "reader_ok got rd" by (auto simp: buf_ok_def)
  from st s at obtain xs k' where r: "rd (cap b - i) k = (Inr xs, k')" "n = length xs"
    "s' = (k', b\<lparr>bytes := splice_at (bytes b) i xs, bidle := js_nat (i + length xs)\<rparr>)"
    by (auto simp: io_read_at split: prod.splits sum.splits)
  from rd r(1) have l: "length xs \<le> cap b - i" "got k' = got k @ xs" by (auto simp: reader_ok_def)
  note f = live_feed [OF at l(1)]
  have "room_of b = length xs + room_of (snd s')"
    using f(4) l(1) r(3) buf_at_simps(10) [OF at] by simp
  then show "(case s' of (k, b) \<Rightarrow> reader_ok got rd \<and> buf_ok b) \<and>
      (case s of (k, b) \<Rightarrow> room_of b) = n + (case s' of (k, b) \<Rightarrow> room_of b) \<and>
      (\<exists>xs. length xs = n \<and> buf_received got s s' xs)"
    using s r rd l f buf_at_ok [OF f(1)] by (auto simp: buf_received_def)
qed (auto simp: buf_received_def io_read_def reader_ok_def buf_ok_def buf_at_simps
      split: prod.splits sum.splits)

interpretation buf_out: pump_port
  "\<lambda>(k, b). writer_ok sent wr \<and> buf_ok b" "\<lambda>(k, b). length (live b)" "\<lambda>(k, b). num_lt (Fin 0) (bsize b)"
  "io_write wr" "buf_sent sent" for sent wr
proof
  fix s :: "'a \<times> buf" and n s'
  assume inv: "case s of (k, b) \<Rightarrow> writer_ok sent wr \<and> buf_ok b" and st: "io_write wr s = (Inr n, s')"
  obtain k b where s: "s = (k, b)" by (cases s)
  from inv s obtain d i where at: "buf_at b d i" and wr: "writer_ok sent wr" by (auto simp: buf_ok_def)
  from st s at obtain k' where r: "wr (live b) k = (Inr n, k')" "s' = (k', b\<lparr>bdata := js_nat (d + n)\<rparr>)"
    by (auto simp: io_write_at split: prod.splits sum.splits)
  from wr r(1) have l: "n \<le> length (live b)" "sent k' = sent k @ take n (live b)"
    unfolding writer_ok_def by blast+
  have len: "length (live b) = i - d" using at by (rule length_live)
  note f = live_skip [OF at l(1) [unfolded len]]
  show "(case s' of (k, b) \<Rightarrow> writer_ok sent wr \<and> buf_ok b) \<and>
      (case s of (k, b) \<Rightarrow> length (live b)) = n + (case s' of (k, b) \<Rightarrow> length (live b)) \<and>
      (\<exists>xs. length xs = n \<and> buf_sent sent s s' xs)"
    using s r wr l f buf_at_ok [OF f(1)]
    by (auto simp: buf_sent_def intro!: exI [of _ "take n (live b)"])
qed (auto simp: buf_sent_def io_write_def writer_ok_def buf_size_pos split: prod.splits sum.splits)

interpretation span_in: pump_port
  "\<lambda>(k, v). reader_ok got rd \<and> span_ok v" "\<lambda>(k, v). length (rest v)" "\<lambda>(k, v). rest v \<noteq> []"
  "view_read rd" "span_received got" for got rd
proof
  fix s :: "'a \<times> span" and n s'
  assume inv: "case s of (k, v) \<Rightarrow> reader_ok got rd \<and> span_ok v" and st: "view_read rd s = (Inr n, s')"
  obtain k v where s: "s = (k, v)" by (cases s)
  from st s obtain xs k' where r: "rd (length (rest v)) k = (Inr xs, k')" "n = length xs"
    "s' = (k', v\<lparr>mem := splice_at (mem v) (pos v) xs, pos := pos v + length xs\<rparr>)"
    by (auto simp: view_read_def split: prod.splits sum.splits)
  have v: "pos v \<le> length (mem v)" and rd: "reader_ok got rd" using inv s by (auto simp: span_ok_def)
  from rd r(1) have l: "length xs \<le> length (mem v) - pos v" "got k' = got k @ xs"
    by (auto simp: reader_ok_def rest_def)
  show "(case s' of (k, v) \<Rightarrow> reader_ok got rd \<and> span_ok v) \<and>
      (case s of (k, v) \<Rightarrow> length (rest v)) = n + (case s' of (k, v) \<Rightarrow> length (rest v)) \<and>
      (\<exists>xs. length xs = n \<and> span_received got s s' xs)"
    using s r v l rd
    by (auto simp: span_received_def span_ok_def rest_def take_splice_at_all drop_splice_at add.commute
        take_splice_at_all [of "pos v" "mem v" xs, unfolded add.commute [of "pos v"]] intro!: exI [of _ xs])
qed (auto simp: span_received_def view_read_def reader_ok_def add.commute split: prod.splits sum.splits)

interpretation span_out: pump_port
  "\<lambda>(k, v). writer_ok sent wr \<and> span_ok v" "\<lambda>(k, v). length (rest v)" "\<lambda>(k, v). rest v \<noteq> []"
  "view_write wr" "span_sent sent" for sent wr
proof
  fix s :: "'a \<times> span" and n s'
  assume inv: "case s of (k, v) \<Rightarrow> writer_ok sent wr \<and> span_ok v" and st: "view_write wr s = (Inr n, s')"
  obtain k v where s: "s = (k, v)" by (cases s)
  from st s obtain k' where r: "wr (rest v) k = (Inr n, k')" "s' = (k', v\<lparr>pos := pos v + n\<rparr>)"
    by (auto simp: view_write_def split: prod.splits sum.splits)
  have v: "pos v \<le> length (mem v)" and wr: "writer_ok sent wr" using inv s by (auto simp: span_ok_def)
  from wr r(1) have l: "n \<le> length (rest v)" "sent k' = sent k @ take n (rest v)"
    unfolding writer_ok_def by blast+
  have "rest v = take n (rest v) @ drop (pos v + n) (mem v)"
    by (metis append_take_drop_id drop_drop rest_def add.commute)
  then show "(case s' of (k, v) \<Rightarrow> writer_ok sent wr \<and> span_ok v) \<and>
      (case s of (k, v) \<Rightarrow> length (rest v)) = n + (case s' of (k, v) \<Rightarrow> length (rest v)) \<and>
      (\<exists>xs. length xs = n \<and> span_sent sent s s' xs)"
    using s r v l wr
    by (auto simp: span_sent_def span_ok_def rest_def intro!: exI [of _ "take n (rest v)"])
qed (auto simp: span_sent_def view_write_def writer_ok_def split: prod.splits sum.splits)

text \<open>A system for the closed instances: it reads two bytes at a time and writes three.\<close>

definition sample_reader :: "(u8 list \<times> u8 list) reader" where
  "sample_reader n = (\<lambda>(input, g). let xs = take (min n 2) input in
     (Inr xs, (drop (length xs) input, g @ xs)))"

definition sample_writer :: "u8 list writer" where
  "sample_writer xs = (\<lambda>out. (Inr (min 3 (length xs)), out @ take 3 xs))"

lemma sample_reader_ok: "reader_ok snd sample_reader"
  by (auto simp: reader_ok_def sample_reader_def Let_def)

lemma sample_writer_ok: "writer_ok id sample_writer"
  by (auto simp: writer_ok_def sample_writer_def min_def)

section \<open>Properties\<close>

text \<open>
  C22: \<open>io.readAll\<close> into a \<open>Buf\<close> returns, and is exact.  Whatever short reads the system makes, a
  loop bounded by one more turn than the free room ends; on a normal end the bytes it took from the
  descriptor are the bytes appended to DATA, the total is their number, PAST is untouched, and
  either the buffer is full or a read met the end of the file.  When a read throws, the bytes of
  the reads before it are in the buffer all the same.
\<close>

theorem readAll_exact:
  assumes "reader_ok got rd" and "buf_ok b" and "room_of b < fuel"
  shows "\<exists>r k' b' xs. io_readAll fuel rd (k, b) = (r, (k', b')) \<and> r \<noteq> Inr None \<and> buf_ok b' \<and>
    got k' = got k @ xs \<and> live b' = live b @ xs \<and> bview_past b' = bview_past b \<and>
    (\<forall>t. r = Inr (Some t) \<longrightarrow> t = length xs \<and>
       (room_of b' = 0 \<or> (\<exists>s. io_read rd s = (Inr 0, (k', b')))))"
proof -
  from buf_in.pump_moves [of got rd "(k, b)" fuel 0] assms obtain r s' xs where p:
    "io_readAll fuel rd (k, b) = (r, s')" "case s' of (k, b) \<Rightarrow> reader_ok got rd \<and> buf_ok b"
    "buf_received got (k, b) s' xs"
    "case r of Inl e \<Rightarrow> \<exists>s''. io_read rd s'' = (Inl e, s') | Inr None \<Rightarrow> False
     | Inr (Some t') \<Rightarrow> t' = 0 + length xs \<and>
         (\<not> (case s' of (k, b) \<Rightarrow> num_lt (Fin 0) (broom b)) \<or> (\<exists>s''. io_read rd s'' = (Inr 0, s')))"
    by (auto simp: io_readAll_def)
  obtain k' b' where s': "s' = (k', b')" by (cases s')
  have "\<not> num_lt (Fin 0) (broom b') \<longrightarrow> room_of b' = 0"
    using p(2) s' by (auto simp: buf_ok_def buf_at_simps)
  then show ?thesis using p s'
    by (intro exI [of _ r] exI [of _ k'] exI [of _ b'] exI [of _ xs])
      (auto simp: buf_received_def split: sum.splits option.splits)
qed

theorem readAll_exact_witness:
  "\<exists>r k' b' xs. io_readAll 9 sample_reader (([1, 2, 3], []), Buf_into (replicate 8 0)) = (r, (k', b')) \<and>
     r \<noteq> Inr None \<and> snd k' = xs \<and> live b' = live (Buf_into (replicate 8 0)) @ xs"
proof -
  have at: "buf_at (Buf_into (replicate 8 0)) 0 0" by (rule Buf_into_at)
  then have "room_of (Buf_into (replicate 8 0)) < 9" by (simp add: buf_at_simps(10) Buf_into_def Buf_new_def)
  from readAll_exact [OF sample_reader_ok buf_at_ok [OF at] this, of "([1, 2, 3], [])"]
  show ?thesis by fastforce
qed

text \<open>
  \<open>io.writeAll\<close> from a \<open>Buf\<close> returns, and is exact.  Whatever short writes the system makes,
  the bytes it took are a prefix of DATA, the cursor moved past exactly them (DATA is what is left
  to write, also when a write throws), and the total on a normal end is their number.
\<close>

theorem writeAll_exact:
  assumes "writer_ok sent wr" and "buf_ok b" and "length (live b) < fuel"
  shows "\<exists>r k' b' xs. io_writeAll fuel wr (k, b) = (r, (k', b')) \<and> r \<noteq> Inr None \<and> buf_ok b' \<and>
    sent k' = sent k @ xs \<and> live b = xs @ live b' \<and> bytes b' = bytes b \<and>
    (\<forall>t. r = Inr (Some t) \<longrightarrow> t = length xs \<and>
       (live b' = [] \<or> (\<exists>s. io_write wr s = (Inr 0, (k', b')))))"
proof -
  from buf_out.pump_moves [of sent wr "(k, b)" fuel 0] assms obtain r s' xs where p:
    "io_writeAll fuel wr (k, b) = (r, s')" "case s' of (k, b) \<Rightarrow> writer_ok sent wr \<and> buf_ok b"
    "buf_sent sent (k, b) s' xs"
    "case r of Inl e \<Rightarrow> \<exists>s''. io_write wr s'' = (Inl e, s') | Inr None \<Rightarrow> False
     | Inr (Some t') \<Rightarrow> t' = 0 + length xs \<and>
         (\<not> (case s' of (k, b) \<Rightarrow> num_lt (Fin 0) (bsize b)) \<or> (\<exists>s''. io_write wr s'' = (Inr 0, s')))"
    by (auto simp: io_writeAll_def)
  obtain k' b' where s': "s' = (k', b')" by (cases s')
  show ?thesis using p s'
    by (intro exI [of _ r] exI [of _ k'] exI [of _ b'] exI [of _ xs])
      (auto simp: buf_sent_def buf_size_pos split: sum.splits option.splits)
qed

theorem writeAll_exact_witness:
  "\<exists>r k' b' xs. io_writeAll 9 sample_writer ([], Buf_over [1, 2, 3, 4]) = (r, (k', b')) \<and>
     r \<noteq> Inr None \<and> k' = xs \<and> live (Buf_over [1, 2, 3, 4]) = xs @ live b'"
proof -
  have four: "length [1, 2, 3, 4 :: u8] = 4" by simp
  then have at: "buf_at (Buf_over [1, 2, 3, 4]) 0 4"
    using Buf_over_at [of "[1, 2, 3, 4]", unfolded four] by simp
  then have "length (live (Buf_over [1, 2, 3, 4])) < 9" by (simp add: length_live)
  from writeAll_exact [OF sample_writer_ok buf_at_ok [OF at] this, of "[]"]
  show ?thesis by fastforce
qed

text \<open>
  The bare forms move the same bytes.  \<open>readAll\<close> into a \<open>Uint8Array\<close> of \<open>n\<close> bytes fills its
  front with the bytes read and reports their number; \<open>writeAll\<close> from one writes a prefix of it
  and reports its length; both return.
\<close>

theorem view_transfers_exact:
  assumes "reader_ok got rd" and "writer_ok sent wr" and "length m < fuel"
  shows "(\<exists>r k' v xs. view_readAll fuel rd (k, \<lparr>mem = m, pos = 0\<rparr>) = (r, (k', v)) \<and> r \<noteq> Inr None \<and>
      got k' = got k @ xs \<and> take (length xs) (mem v) = xs \<and> length xs \<le> length m \<and>
      (\<forall>t. r = Inr (Some t) \<longrightarrow> t = length xs)) \<and>
    (\<exists>r k' v xs. view_writeAll fuel wr (l, \<lparr>mem = m, pos = 0\<rparr>) = (r, (k', v)) \<and> r \<noteq> Inr None \<and>
      sent k' = sent l @ xs \<and> take (length xs) m = xs \<and>
      (\<forall>t. r = Inr (Some t) \<longrightarrow> t = length xs))"
proof
  let ?v = "\<lparr>mem = m, pos = 0\<rparr>"
  have "case (k, ?v) of (k, v) \<Rightarrow> reader_ok got rd \<and> span_ok v"
    "(case (k, ?v) of (k, v) \<Rightarrow> length (rest v)) < fuel"
    using assms by (simp_all add: span_ok_def rest_def)
  then obtain r s' xs where
    run: "view_readAll fuel rd (k, ?v) = (r, s')"
    and ok: "case s' of (k, v) \<Rightarrow> reader_ok got rd \<and> span_ok v"
    and mv: "span_received got (k, ?v) s' xs" and nn: "r \<noteq> Inr None"
    and t: "\<And>t. r = Inr (Some t) \<Longrightarrow> t = length xs"
    by (rule span_in.pump_run [folded view_readAll_def]) blast
  obtain k' v where s': "s' = (k', v)" by (cases s')
  have "pos v = length xs" "take (length xs) (mem v) = xs" "length (mem v) = length m" "got k' = got k @ xs"
    using mv s' by (auto simp: span_received_def)
  then show "\<exists>r k' v xs. view_readAll fuel rd (k, ?v) = (r, (k', v)) \<and> r \<noteq> Inr None \<and>
      got k' = got k @ xs \<and> take (length xs) (mem v) = xs \<and> length xs \<le> length m \<and>
      (\<forall>t. r = Inr (Some t) \<longrightarrow> t = length xs)"
    using run t nn ok s'
    by (intro exI [of _ r] exI [of _ k'] exI [of _ v] exI [of _ xs]) (simp add: span_ok_def)
next
  let ?v = "\<lparr>mem = m, pos = 0\<rparr>"
  have "case (l, ?v) of (k, v) \<Rightarrow> writer_ok sent wr \<and> span_ok v"
    "(case (l, ?v) of (k, v) \<Rightarrow> length (rest v)) < fuel"
    using assms by (simp_all add: span_ok_def rest_def)
  then obtain r s' xs where
    run: "view_writeAll fuel wr (l, ?v) = (r, s')"
    and ok: "case s' of (k, v) \<Rightarrow> writer_ok sent wr \<and> span_ok v"
    and mv: "span_sent sent (l, ?v) s' xs" and nn: "r \<noteq> Inr None"
    and t: "\<And>t. r = Inr (Some t) \<Longrightarrow> t = length xs"
    by (rule span_out.pump_run [folded view_writeAll_def]) blast
  obtain k' v where s': "s' = (k', v)" by (cases s')
  have "rest ?v = xs @ rest v" and sent: "sent k' = sent l @ xs"
    using mv s' unfolding span_sent_def by simp_all
  moreover have "rest ?v = m" by (simp add: rest_def)
  ultimately have "take (length xs) m = xs" by (metis append_eq_conv_conj)
  then show "\<exists>r k' v xs. view_writeAll fuel wr (l, ?v) = (r, (k', v)) \<and> r \<noteq> Inr None \<and>
      sent k' = sent l @ xs \<and> take (length xs) m = xs \<and> (\<forall>t. r = Inr (Some t) \<longrightarrow> t = length xs)"
    using run t nn s' sent
    by (intro exI [of _ r] exI [of _ k'] exI [of _ v] exI [of _ xs]) simp
qed

theorem view_transfers_exact_witness:
  "\<exists>r k' v xs. view_writeAll 9 sample_writer ([], \<lparr>mem = [1, 2, 3, 4], pos = 0\<rparr>) = (r, (k', v)) \<and>
     r \<noteq> Inr None \<and> id k' = xs \<and> take (length xs) [1, 2, 3, 4] = xs"
proof -
  have "length [1, 2, 3, 4 :: u8] < 9" by simp
  from view_transfers_exact [OF sample_reader_ok sample_writer_ok this, of "([], [])" "[]"]
  show ?thesis by fastforce
qed

end
