(* ===== verification/TextFile.thy ===== *)
theory TextFile
  imports Utf8 Streams
begin

text \<open>
  A text through the whole of \<open>buf.c\<close> and \<open>utf8.c\<close>: encoded, written from a bare array, read back into
  a \<open>Buf\<close>, decoded.
\<close>

text \<open>
  \<open>io.readAll\<close> over the descriptor of a file: what was read so far is a prefix of the file, and a
  read that delivers nothing though there was room for a byte has met its end.
\<close>

definition file_reader :: "u8 list \<Rightarrow> ('k \<Rightarrow> u8 list) \<Rightarrow> 'k reader \<Rightarrow> bool" where
  "file_reader f got rd \<longleftrightarrow> reader_ok got rd \<and> (\<forall>j. \<exists>n. got j = take n f) \<and>
     (\<forall>n j j'. 0 < n \<longrightarrow> rd n j = (Inr [], j') \<longrightarrow> got j = f)"

text \<open>A loop over a bare array that counted every byte sent the array.\<close>

lemma writeAll_whole:
  assumes "writer_ok sent wr" and "view_writeAll fuel wr (k, \<lparr>mem = u, pos = 0\<rparr>) = (Inr (Some (length u)), (k', v))"
    and "length u < fuel"
  shows "sent k' = sent k @ u"
proof -
  have "rest \<lparr>mem = u, pos = 0\<rparr> = u" by (simp add: rest_def)
  with span_out.pump_moves [of sent wr "(k, \<lparr>mem = u, pos = 0\<rparr>)" fuel 0] assms
  show ?thesis by (auto simp: view_writeAll_def span_ok_def span_sent_def)
qed

text \<open>Where the cursors of a \<open>Buf\<close> with no DATA are once bytes were appended.\<close>

lemma buf_emptied:
  assumes "buf_ok b" and "live b = []" and "buf_ok b'" and "bview_past b' = bview_past b"
  obtains d where "buf_at b d d" "buf_at b' d (d + length (live b'))"
proof -
  from assms(1,3) obtain d i d' i' where at: "buf_at b d i" "buf_at b' d' i'" by (auto simp: buf_ok_def)
  note s = buf_at_simps [OF at(1)] and s' = buf_at_simps [OF at(2)]
  have "length (take d' (bytes b')) = length (take d (bytes b))" using assms(4) s(11) s'(11) by simp
  then have "d' = d" using s(3-5) s'(3-5) by simp
  moreover have "i = d" "i' = d' + length (live b')"
    using assms(2) length_live [OF at(1)] length_live [OF at(2)] s(3) s'(3) by simp_all
  ultimately show thesis using at that by simp
qed

text \<open>A read of nothing leaves the buffer as it is; it was asked for all the room there is.\<close>

lemma io_read_none:
  assumes "io_read rd s = (Inr 0, (j', b'))"
  shows "\<exists>j. rd (room_of b') j = (Inr [], j')"
proof -
  obtain j b where s: "s = (j, b)" by (cases s)
  from assms s obtain xs where x: "rd (length (bview_idle b)) j = (Inr xs, j')" "xs = []"
    "b' = b\<lparr>bytes := bytes b, bidle := num_add (bidle b) (js_nat 0)\<rparr>"
    by (auto simp: io_read_def split: prod.splits sum.splits)
  have "num_add (bidle b) (js_nat 0) = bidle b" by (cases "bidle b") (auto simp: js_nat_def)
  then have "b' = b" using x(3) by simp
  then show ?thesis using x(1,2) by (auto simp: room_of_def)
qed

text \<open>A \<open>Buf\<close> with more room than the file is long takes the whole of it.\<close>

lemma readAll_whole:
  assumes "file_reader f got rd" and "got j = []" and "buf_ok b" and "live b = []" and "length f < room_of b"
    and "room_of b < fuel" and "io_readAll fuel rd (j, b) = (r, (j', b'))"
  shows "r \<noteq> Inr None \<and> (\<forall>t. r = Inr (Some t) \<longrightarrow> t = length f \<and> live b' = f)"
proof -
  note fr = assms(1) [unfolded file_reader_def]
  from buf_in.pump_moves [of got rd "(j, b)" fuel 0] assms fr obtain xs where p:
    "reader_ok got rd" "buf_ok b'" "buf_received got (j, b) (j', b') xs"
    "case r of Inl e \<Rightarrow> True | Inr None \<Rightarrow> False
     | Inr (Some t') \<Rightarrow> t' = length xs \<and>
         (\<not> num_lt (Fin 0) (broom b') \<or> (\<exists>s. io_read rd s = (Inr 0, (j', b'))))"
    by (fastforce simp: io_readAll_def split: sum.splits option.splits)
  have xs: "got j' = xs" "live b' = xs" "cap b' = cap b" "bview_past b' = bview_past b"
    using p(3) assms(2,4) by (auto simp: buf_received_def)
  have "length xs \<le> length f" using fr xs(1) by (metis length_take min.cobounded1)
  moreover obtain d where at: "buf_at b d d" "buf_at b' d (d + length xs)"
    using buf_emptied [OF assms(3,4) p(2) xs(4)] xs(2) by blast
  ultimately have room: "0 < room_of b'" and "num_lt (Fin 0) (broom b')"
    using assms(5) xs(3) by (simp_all add: buf_at_simps [OF at(1)] buf_at_simps [OF at(2)] js_nat_def)
  moreover have "got j' = f" if "io_read rd s = (Inr 0, (j', b'))" for s
    using io_read_none [OF that] fr room by (auto simp: reader_ok_def)
  ultimately show ?thesis using p(4) xs by (auto split: sum.splits option.splits)
qed

text \<open>A file read two bytes at a time; the state is the offset.\<close>

definition two_at_a_time :: "u8 list \<Rightarrow> nat reader" where
  "two_at_a_time f n j = (let xs = take (min n 2) (drop j f) in (Inr xs, j + length xs))"

lemma two_at_a_time_file: "file_reader f (\<lambda>j. take j f) (two_at_a_time f)"
  by (auto simp: file_reader_def reader_ok_def two_at_a_time_def Let_def take_add min_def)

lemma two_at_a_time_reads:
  assumes "buf_ok b" and "io_readAll (Suc (room_of b)) (two_at_a_time f) (j, b) = (r, s')"
  shows "\<exists>t. r = Inr (Some t)"
proof -
  have "io_read (two_at_a_time f) s \<noteq> (Inl e, s')" for s e
    by (auto simp: io_read_def two_at_a_time_def Let_def split: prod.splits)
  with buf_in.pump_moves [of "\<lambda>j. take j f" "two_at_a_time f" "(j, b)" "Suc (room_of b)" 0] assms
  show ?thesis using two_at_a_time_file [of f]
    by (cases r; cases "projr r") (auto simp: io_readAll_def file_reader_def split: sum.splits option.splits)
qed

text \<open>
  C21: A text survives a file.  It is encoded (nothing is cut), written out whatever short writes the
  system makes, read back whatever short reads it makes into a \<open>Buf\<close> with room to spare, and decoded:
  the read ends, and when no call of the system threw it has counted the bytes of the text, and the text
  that comes out is the one that went in.
\<close>

theorem text_survives_a_file:
  assumes "list_all utf8_char cs" and "bytes_of str = concat cs" and "utf8sValid (bytes_of str)"
    and "writer_ok sent wr" and "sent k = []"
    and "view_writeAll fuel wr (k, \<lparr>mem = bytes_of str, pos = 0\<rparr>) = (Inr (Some (length (bytes_of str))), (k', v))"
    and "length (bytes_of str) < fuel"
    and "file_reader (sent k') got rd" and "got j = []"
    and "buf_ok b" and "live b = []" and "length (bytes_of str) < room_of b"
    and "io_readAll (Suc (room_of b)) rd (j, b) = (r, (j', b'))"
  shows "Encode (utf16_units cs) str = Inr (bytes_of str) \<and> r \<noteq> Inr None \<and>
    (\<forall>t. r = Inr (Some t) \<longrightarrow> t = length (bytes_of str) \<and>
       JABCutf8Decode utf8sValid (live b') = Inr (JStr str))"
proof -
  have "sent k' = bytes_of str" using writeAll_whole [OF assms(4,6,7)] assms(5) by simp
  with assms(8) have f: "file_reader (bytes_of str) got rd" by simp
  show ?thesis
    using Encode_round_trip [OF assms(1,2), of utf8sValid] assms(3)
      readAll_whole [OF f assms(9-12) _ assms(13)] by auto
qed

theorem text_survives_a_file_witness:
  "\<exists>j' b'. io_readAll 9 (two_at_a_time [0x61, 0xC3, 0xA9]) (0, Buf_into (replicate 8 0)) = (Inr (Some 3), (j', b')) \<and>
     JABCutf8Decode (\<lambda>_. True) (live b') = Inr (JStr [CHR 0x61, CHR 0xC3, CHR 0xA9])"
proof -
  let ?s = "[CHR 0x61, CHR 0xC3, CHR 0xA9]" and ?b = "Buf_into (replicate 8 0)"
  have cs: "list_all utf8_char [[0x61], [0xC3, 0xA9]]" "bytes_of ?s = concat [[0x61], [0xC3, 0xA9]]"
    by (simp_all add: utf8_char_def is_cont_def bytes_of_def)
  have out: "view_writeAll 4 sample_writer ([], \<lparr>mem = bytes_of ?s, pos = 0\<rparr>) =
      (Inr (Some (length (bytes_of ?s))), ([0x61, 0xC3, 0xA9], \<lparr>mem = bytes_of ?s, pos = 3\<rparr>))"
    by (simp add: cs(2) view_writeAll_def view_write_def sample_writer_def rest_def jbind_def eval_nat_numeral jret_def)
  have at: "buf_at ?b 0 0" by (rule Buf_into_at)
  have b: "live ?b = []" "room_of ?b = 8" "length (bytes_of ?s) < room_of ?b" "length (bytes_of ?s) < 4"
    unfolding buf_at_simps(9,10) [OF at] cs(2) by (simp_all add: Buf_into_def Buf_new_def)
  obtain t j' b' where r: "io_readAll (Suc (room_of ?b)) (two_at_a_time [0x61, 0xC3, 0xA9]) (0, ?b) = (Inr (Some t), (j', b'))"
    using two_at_a_time_reads [OF buf_at_ok [OF at]] by (metis prod.collapse)
  have f: "file_reader (id [0x61, 0xC3, 0xA9]) (\<lambda>j. take j [0x61, 0xC3, 0xA9]) (two_at_a_time [0x61, 0xC3, 0xA9])"
    by (simp add: two_at_a_time_file)
  from text_survives_a_file [OF cs _ sample_writer_ok _ out b(4) f _ buf_at_ok [OF at] b(1,3) r, of "\<lambda>_. True"] r
  show ?thesis by (simp add: b(2))
qed

end
