(* ===== verification/Leaf.thy ===== *)
theory Leaf
  imports Arg
begin

text \<open>
  The vocabulary the native leaves are written in: the argument count check every leaf opens with,
  a call of the system or of a library that fails with \<open>strerror (errno)\<close> or with a message, an
  unguarded cast of a \<open>double\<close>, and what a leaf hands back to JavaScript.  A leaf is a function of
  its arguments in the monad \<open>js\<close>; the state \<open>'w\<close> holds the engine and the system behind it.
\<close>

text \<open>
  A leaf returns a value, an object with fields, an array, or a fresh \<open>Uint8Array\<close> of bytes
  (\<open>JABCBlob\<close>, or foreign memory the array now owns).
\<close>

datatype jout = JVal jsval | JFields "(string \<times> jsval) list" | JArr "jsval list" | JBytes "u8 list"

abbreviation js_undef :: "('w, jout) js" where "js_undef \<equiv> jret (JVal JUndef)"
abbreviation js_num :: "nat \<Rightarrow> ('w, jout) js" where "js_num n \<equiv> jret (JVal (JNum (js_nat n)))"
abbreviation js_bool :: "bool \<Rightarrow> ('w, jout) js" where "js_bool b \<equiv> jret (JVal (JBool b))"
abbreviation js_str :: "string \<Rightarrow> ('w, jout) js" where "js_str s \<equiv> jret (JVal (JStr s))"

text \<open>\<open>if (argc < n) JABC_THROW (usage)\<close>.\<close>

definition need :: "nat \<Rightarrow> string \<Rightarrow> jsval list \<Rightarrow> ('w, 'a) js \<Rightarrow> ('w, 'a) js" where
  "need n usage argv m = (if length argv < n then jthrow (ThrowError usage) else m)"

text \<open>
  A call that answers with a code: anything but \<open>OK\<close> is thrown, as the system's error text or as a
  message of the leaf.
\<close>

definition or_errno :: "('w \<Rightarrow> string) \<Rightarrow> ('w \<Rightarrow> ok64 \<times> 'w) \<Rightarrow> ('w, unit) js" where
  "or_errno strerror call = (\<lambda>w. case call w of (o', w') \<Rightarrow>
     if o' = OK then (Inr (), w') else (Inl (ThrowError (strerror w')), w'))"

definition or_msg :: "string \<Rightarrow> ok64 \<Rightarrow> ('w, unit) js" where
  "or_msg msg o' = (if o' = OK then jret () else jthrow (ThrowError msg))"

text \<open>\<open>(size_t) d\<close> and \<open>(u32) d\<close> with no check before them.\<close>

definition cast_or_undef :: "int \<Rightarrow> int \<Rightarrow> jsnum \<Rightarrow> ('w, int) js" where
  "cast_or_undef lo hi d =
     (case c_cast lo hi d of None \<Rightarrow> jthrow CUndef | Some t \<Rightarrow> jret t)"

definition as_size :: "jsnum \<Rightarrow> ('w, nat) js" where
  "as_size d = jbind (cast_or_undef 0 (2 ^ 64 - 1) d) (\<lambda>t. jret (nat t))"

lemma need_enough [simp]: "n \<le> length argv \<Longrightarrow> need n u argv m = m"
  by (simp add: need_def)

lemma need_few [simp]: "length argv < n \<Longrightarrow> need n u argv m = jthrow (ThrowError u)"
  by (simp add: need_def)

lemma need_eq_Inr:
  "need n u argv m w = (Inr x, w') \<longleftrightarrow> n \<le> length argv \<and> m w = (Inr x, w')"
  by (auto simp: need_def)

lemma or_errno_Inr: "or_errno s c w = (Inr u, w') \<longleftrightarrow> c w = (OK, w')"
  by (auto simp: or_errno_def split: prod.splits)

lemma or_msg_Inr: "or_msg m o' w = (Inr u, w') \<longleftrightarrow> o' = OK \<and> w' = w"
  by (auto simp: or_msg_def)

lemma as_size_nat [simp]: "n < 2 ^ 64 \<Longrightarrow> as_size (js_nat n) = jret n"
  by (rule ext) (simp add: as_size_def cast_or_undef_def c_cast_def js_nat_def Let_def)

lemma as_size_undef: "as_size d w = (Inl CUndef, w) \<longleftrightarrow> c_cast 0 (2 ^ 64 - 1) d = None"
  by (auto simp: as_size_def cast_or_undef_def jbind_def split: option.splits)

lemma map_sum_id_Inr: "map_sum id f x = Inr y \<longleftrightarrow> (\<exists>z. x = Inr z \<and> f z = y)"
  by (cases x) auto

lemma quiet_need [quiet_intros]: "quiet m \<Longrightarrow> quiet (need n u argv m)"
  by (simp add: need_def quiet_jthrow)

lemma quiet_or_msg [quiet_intros]: "quiet (or_msg m o')"
  by (simp add: or_msg_def quiet_jret quiet_jthrow)

end
