(* ===== verification/Io.thy ===== *)
theory Io
  imports Leaf Streams
begin

text \<open>
  \<open>io.c\<close>, the leaves over files, directories and processes.  The system (libabc's \<open>FILE\<close> module and
  libc) is the record \<open>sys\<close>: its calls act on the state and answer with a code.  Mapped memory and
  its finalizers are the theory \<open>IoMaps\<close>, the directory walk is \<open>Readdir\<close>.
\<close>

datatype file_kind = FILE_KIND_REG | FILE_KIND_DIR | FILE_KIND_LNK | FILE_KIND_OTHER

record filestat =
  fs_size :: nat
  fs_mode :: nat
  fs_kind :: file_kind
  fs_mtime :: u64
  fs_atime :: u64

text \<open>What \<open>read\<close> and \<open>write\<close> answer: a count, an interruption, another failure.\<close>

datatype sysret = Got nat | Eintr | Failed

record 'w sys =
  strerror :: "'w \<Rightarrow> string"
  FILECreate :: "string \<Rightarrow> 'w \<Rightarrow> (ok64 \<times> int) \<times> 'w"
  FILEOpen :: "string \<Rightarrow> bool \<Rightarrow> 'w \<Rightarrow> (ok64 \<times> int) \<times> 'w"
  FILEClose :: "int \<Rightarrow> 'w \<Rightarrow> 'w"
  FILESync :: "int \<Rightarrow> 'w \<Rightarrow> ok64 \<times> 'w"
  FILESize :: "int \<Rightarrow> 'w \<Rightarrow> (ok64 \<times> nat) \<times> 'w"
  FILEResize :: "int \<Rightarrow> nat \<Rightarrow> 'w \<Rightarrow> ok64 \<times> 'w"
  FILELock :: "int \<Rightarrow> bool \<Rightarrow> 'w \<Rightarrow> ok64 \<times> 'w"
  FILEUnlock :: "int \<Rightarrow> 'w \<Rightarrow> ok64 \<times> 'w"
  FILEStat :: "string \<Rightarrow> 'w \<Rightarrow> (ok64 \<times> filestat) \<times> 'w"
  FILELStat :: "string \<Rightarrow> 'w \<Rightarrow> (ok64 \<times> filestat) \<times> 'w"
  FILEReadLink :: "string \<Rightarrow> 'w \<Rightarrow> (ok64 \<times> string) \<times> 'w"
  realpath :: "string \<Rightarrow> 'w \<Rightarrow> (ok64 \<times> string) \<times> 'w"
  FILESymLink :: "string \<Rightarrow> string \<Rightarrow> 'w \<Rightarrow> ok64 \<times> 'w"
  FILEChmod :: "string \<Rightarrow> u32 \<Rightarrow> 'w \<Rightarrow> ok64 \<times> 'w"
  FILESetMtime :: "string \<Rightarrow> u64 \<Rightarrow> 'w \<Rightarrow> ok64 \<times> 'w"
  FILEUnLink :: "string \<Rightarrow> 'w \<Rightarrow> ok64 \<times> 'w"
  FILERename :: "string \<Rightarrow> string \<Rightarrow> 'w \<Rightarrow> ok64 \<times> 'w"
  FILEMakeDirP :: "string \<Rightarrow> 'w \<Rightarrow> ok64 \<times> 'w"
  FILERmDir :: "string \<Rightarrow> bool \<Rightarrow> 'w \<Rightarrow> ok64 \<times> 'w"
  FILEGetCwd :: "'w \<Rightarrow> (ok64 \<times> string) \<times> 'w"
  chdir :: "string \<Rightarrow> 'w \<Rightarrow> ok64 \<times> 'w"
  FILEGetEnv :: "string \<Rightarrow> 'w \<Rightarrow> string"
  getpid :: "'w \<Rightarrow> nat"
  sys_read :: "int \<Rightarrow> addr \<Rightarrow> nat \<Rightarrow> 'w \<Rightarrow> sysret \<times> 'w"
  sys_write :: "int \<Rightarrow> addr \<Rightarrow> nat \<Rightarrow> 'w \<Rightarrow> sysret \<times> 'w"
  msync :: "addr \<Rightarrow> nat \<Rightarrow> 'w \<Rightarrow> ok64 \<times> 'w"
  isatty :: "int \<Rightarrow> 'w \<Rightarrow> bool"
  FILESpawn :: "string \<Rightarrow> string list \<Rightarrow> 'w \<Rightarrow> (ok64 \<times> int \<times> int \<times> int) \<times> 'w"
  FILESpawnFds :: "string \<Rightarrow> string list \<Rightarrow> int \<Rightarrow> int \<Rightarrow> 'w \<Rightarrow> (ok64 \<times> int) \<times> 'w"
  FILEReap :: "int \<Rightarrow> 'w \<Rightarrow> (ok64 \<times> int) \<times> 'w"
  fork :: "'w \<Rightarrow> int \<times> 'w"

text \<open>A call that answers with a code and a value: the value, or the system's error text.\<close>

definition val_or_errno :: "('w \<Rightarrow> string) \<Rightarrow> ('w \<Rightarrow> (ok64 \<times> 'a) \<times> 'w) \<Rightarrow> ('w, 'a) js" where
  "val_or_errno err call = (\<lambda>w. case call w of ((o', x), w') \<Rightarrow>
     if o' = OK then (Inr x, w') else (Inl (ThrowError (err w')), w'))"

section \<open>Numbers and words\<close>

definition JABCInt :: "'w engine \<Rightarrow> jsval \<Rightarrow> ('w, int) js" where
  "JABCInt E v = jbind (to_number E v) (\<lambda>d.
     if num_le (Fin (- 2147483648)) d \<and> num_le d (Fin 2147483647)
     then cast_or_undef (- 2147483648) 2147483647 d
     else jret (- 1))"

text \<open>
  A word of at most \<open>room - 1\<close> bytes, read as C reads it (up to the first NUL); anything but a string
  leaves the default.
\<close>

definition JABCWord :: "nat \<Rightarrow> string \<Rightarrow> jsval \<Rightarrow> string" where
  "JABCWord room dflt arg =
     (case arg of JStr s \<Rightarrow> takeWhile (\<lambda>c. c \<noteq> CHR 0x00) (take (room - 1) s) | _ \<Rightarrow> dflt)"

section \<open>Descriptors\<close>

definition JABCioOpen :: "'w engine \<Rightarrow> abc \<Rightarrow> 'w sys \<Rightarrow> jsval list \<Rightarrow> ('w, jout) js" where
  "JABCioOpen E A S argv =
     need 1 ''io.open(path, mode) -> fd'' argv
     (jbind (path_or A ''io.open(): bad path'' (argv ! 0)) (\<lambda>path.
      let mode = (if 1 < length argv then JABCWord 8 ''r'' (argv ! 1) else ''r'') in (\<lambda>w.
      case (if mode = ''c'' then FILECreate S path w else FILEOpen S path (mode = ''rw'') w) of
        ((o', fd), w') \<Rightarrow>
          if o' \<noteq> OK \<or> fd < 0 then (Inl (ThrowError (strerror S w')), w')
          else (Inr (JVal (JNum (js_int fd))), w'))))"

definition JABCioClose :: "'w engine \<Rightarrow> 'w sys \<Rightarrow> jsval list \<Rightarrow> ('w, jout) js" where
  "JABCioClose E S argv =
     need 1 ''io.close(fd)'' argv
     (jbind (JABCInt E (argv ! 0)) (\<lambda>fd.
      jbind (jput (FILEClose S fd)) (\<lambda>_. js_undef)))"

definition JABCioSync :: "'w engine \<Rightarrow> 'w sys \<Rightarrow> jsval list \<Rightarrow> ('w, jout) js" where
  "JABCioSync E S argv =
     need 1 ''io.sync(fd)'' argv
     (jbind (JABCInt E (argv ! 0)) (\<lambda>fd.
      jbind (or_errno (strerror S) (FILESync S fd)) (\<lambda>_. js_undef)))"

definition JABCioSize :: "'w engine \<Rightarrow> 'w sys \<Rightarrow> jsval list \<Rightarrow> ('w, jout) js" where
  "JABCioSize E S argv =
     need 1 ''io.size(fd)'' argv
     (jbind (JABCInt E (argv ! 0)) (\<lambda>fd.
      jbind (val_or_errno (strerror S) (FILESize S fd)) js_num))"

definition JABCioResize :: "'w engine \<Rightarrow> 'w sys \<Rightarrow> jsval list \<Rightarrow> ('w, jout) js" where
  "JABCioResize E S argv =
     need 2 ''io.resize(fd, n)'' argv
     (jbind (JABCInt E (argv ! 0)) (\<lambda>fd.
      jbind (to_number E (argv ! 1)) (\<lambda>n.
      if num_lt n (Fin 0) then jthrow (ThrowError ''io.resize(): negative size'')
      else jbind (as_size n) (\<lambda>size.
           jbind (or_errno (strerror S) (FILEResize S fd size)) (\<lambda>_. js_undef)))))"

definition JABCioLock :: "'w engine \<Rightarrow> 'w sys \<Rightarrow> jsval list \<Rightarrow> ('w, jout) js" where
  "JABCioLock E S argv =
     need 1 ''io.lock(fd, exclusive)'' argv
     (jbind (JABCInt E (argv ! 0)) (\<lambda>fd.
      let excl = (if 1 < length argv then to_bool (argv ! 1) else True) in
      jbind (or_errno (strerror S) (FILELock S fd excl)) (\<lambda>_. js_undef)))"

definition JABCioUnlock :: "'w engine \<Rightarrow> 'w sys \<Rightarrow> jsval list \<Rightarrow> ('w, jout) js" where
  "JABCioUnlock E S argv =
     need 1 ''io.unlock(fd)'' argv
     (jbind (JABCInt E (argv ! 0)) (\<lambda>fd.
      jbind (or_errno (strerror S) (FILEUnlock S fd)) (\<lambda>_. js_undef)))"

text \<open>
  One \<open>read\<close> or \<open>write\<close>, repeated while it is interrupted; with fuel, \<open>None\<close> when that never ends.
\<close>

primrec retry :: "nat \<Rightarrow> ('w \<Rightarrow> sysret \<times> 'w) \<Rightarrow> 'w \<Rightarrow> sysret option \<times> 'w" where
  "retry 0 call w = (None, w)"
| "retry (Suc k) call w =
     (case call w of (Eintr, w') \<Rightarrow> retry k call w' | (r, w') \<Rightarrow> (Some r, w'))"

definition counted :: "'w sys \<Rightarrow> nat \<Rightarrow> ('w \<Rightarrow> sysret \<times> 'w) \<Rightarrow> ('w, jout option) js" where
  "counted S fuel call = (\<lambda>w. case retry fuel call w of
     (None, w') \<Rightarrow> (Inr None, w')
   | (Some (Got n), w') \<Rightarrow> (Inr (Some (JVal (JNum (js_nat n)))), w')
   | (Some _, w') \<Rightarrow> (Inl (ThrowError (strerror S w')), w'))"

definition JABCioRead :: "'w engine \<Rightarrow> abc \<Rightarrow> 'w sys \<Rightarrow> nat \<Rightarrow> jsval list \<Rightarrow> ('w, jout option) js" where
  "JABCioRead E A S fuel argv =
     need 2 ''io._read(fd, Uint8Array)'' argv
     (jbind (JABCInt E (argv ! 0)) (\<lambda>fd.
      jbind (JABCIdleOf E A (argv ! 1)) (\<lambda>tab.
      counted S fuel (sys_read S fd (b2 tab) (idle_len tab)))))"

definition JABCioWrite :: "'w engine \<Rightarrow> abc \<Rightarrow> 'w sys \<Rightarrow> nat \<Rightarrow> jsval list \<Rightarrow> ('w, jout option) js" where
  "JABCioWrite E A S fuel argv =
     need 2 ''io._write(fd, Uint8Array)'' argv
     (jbind (JABCInt E (argv ! 0)) (\<lambda>fd.
      jbind (JABCDataOf E A (argv ! 1)) (\<lambda>tab.
      counted S fuel (sys_write S fd (b1 tab) (data_len tab)))))"

definition JABCioIsatty :: "'w engine \<Rightarrow> 'w sys \<Rightarrow> jsval list \<Rightarrow> ('w, jout) js" where
  "JABCioIsatty E S argv =
     need 1 ''io.isatty(fd)'' argv
     (jbind (JABCInt E (argv ! 0)) (\<lambda>fd.
      jbind (jget (isatty S fd)) js_bool))"

section \<open>Paths\<close>

definition JABCStatObj :: "filestat \<Rightarrow> jout" where
  "JABCStatObj fs = JFields
     [(''size'', JNum (js_nat (fs_size fs))), (''mode'', JNum (js_nat (fs_mode fs))),
      (''kind'', JStr (if fs_kind fs = FILE_KIND_REG then ''reg''
                       else if fs_kind fs = FILE_KIND_DIR then ''dir''
                       else if fs_kind fs = FILE_KIND_LNK then ''lnk'' else ''other'')),
      (''mtime'', JABCBigU64 (fs_mtime fs)), (''atime'', JABCBigU64 (fs_atime fs))]"

definition JABCioStat :: "abc \<Rightarrow> 'w sys \<Rightarrow> jsval list \<Rightarrow> ('w, jout) js" where
  "JABCioStat A S argv =
     need 1 ''io.stat(path)'' argv
     (jbind (path_or A ''io.stat(): bad path'' (argv ! 0)) (\<lambda>path.
      jbind (val_or_errno (strerror S) (FILEStat S path)) (\<lambda>fs. jret (JABCStatObj fs))))"

definition JABCioLStat :: "abc \<Rightarrow> 'w sys \<Rightarrow> jsval list \<Rightarrow> ('w, jout) js" where
  "JABCioLStat A S argv =
     need 1 ''io.lstat(path)'' argv
     (jbind (path_or A ''io.lstat(): bad path'' (argv ! 0)) (\<lambda>path.
      jbind (val_or_errno (strerror S) (FILELStat S path)) (\<lambda>fs. jret (JABCStatObj fs))))"

definition JABCioReadLink :: "abc \<Rightarrow> 'w sys \<Rightarrow> jsval list \<Rightarrow> ('w, jout) js" where
  "JABCioReadLink A S argv =
     need 1 ''io.readlink(path) -> string'' argv
     (jbind (path_or A ''io.readlink(): bad path'' (argv ! 0)) (\<lambda>path.
      jbind (val_or_errno (strerror S) (FILEReadLink S path)) js_str))"

definition JABCioRealPath :: "abc \<Rightarrow> 'w sys \<Rightarrow> jsval list \<Rightarrow> ('w, jout) js" where
  "JABCioRealPath A S argv =
     need 1 ''io.realpath(path) -> string'' argv
     (jbind (path_or A ''io.realpath(): bad path'' (argv ! 0)) (\<lambda>path.
      jbind (val_or_errno (strerror S) (realpath S path)) js_str))"

definition JABCioSymLink :: "abc \<Rightarrow> 'w sys \<Rightarrow> jsval list \<Rightarrow> ('w, jout) js" where
  "JABCioSymLink A S argv =
     need 2 ''io.symlink(target, linkpath)'' argv
     (jbind (path_or A ''io.symlink(): bad path'' (argv ! 0)) (\<lambda>target.
      jbind (path_or A ''io.symlink(): bad path'' (argv ! 1)) (\<lambda>linkpath.
      jbind (or_errno (strerror S) (FILESymLink S target linkpath)) (\<lambda>_. js_undef))))"

definition JABCioChmod :: "'w engine \<Rightarrow> abc \<Rightarrow> 'w sys \<Rightarrow> jsval list \<Rightarrow> ('w, jout) js" where
  "JABCioChmod E A S argv =
     need 2 ''io.chmod(path, mode)'' argv
     (jbind (path_or A ''io.chmod(): bad path'' (argv ! 0)) (\<lambda>path.
      jbind (to_number E (argv ! 1)) (\<lambda>dm.
      if num_lt dm (Fin 0) then jthrow (ThrowError ''io.chmod(): negative mode'')
      else jbind (cast_or_undef 0 (2 ^ 32 - 1) dm) (\<lambda>t.
           jbind (or_errno (strerror S) (FILEChmod S path (word_of_int t))) (\<lambda>_. js_undef)))))"

definition JABCioSetMtime :: "'w engine \<Rightarrow> abc \<Rightarrow> 'w sys \<Rightarrow> jsval list \<Rightarrow> ('w, jout) js" where
  "JABCioSetMtime E A S argv =
     need 2 ''io.setMtime(path, ron60)'' argv
     (jbind (path_or A ''io.setMtime(): bad path'' (argv ! 0)) (\<lambda>path.
      jbind (JABCBigU64Of E (argv ! 1)) (\<lambda>ts.
      jbind (or_errno (strerror S) (FILESetMtime S path ts)) (\<lambda>_. js_undef))))"

definition JABCioTruncate :: "'w engine \<Rightarrow> abc \<Rightarrow> 'w sys \<Rightarrow> jsval list \<Rightarrow> ('w, jout) js" where
  "JABCioTruncate E A S argv =
     need 2 ''io._truncate(path, bytes)'' argv
     (jbind (path_or A ''io._truncate(): bad path'' (argv ! 0)) (\<lambda>path.
      jbind (to_number E (argv ! 1)) (\<lambda>db.
      if num_lt db (Fin 0) then jthrow (ThrowError ''io._truncate(): negative size'')
      else (\<lambda>w. case FILEOpen S path True w of ((o1, fd), w1) \<Rightarrow>
        if o1 \<noteq> OK \<or> fd < 0 then (Inl (ThrowError (strerror S w1)), w1)
        else jbind (as_size db) (\<lambda>n w2.
             case FILEResize S fd n w2 of (o2, w3) \<Rightarrow>
               let w4 = FILEClose S fd w3 in
               if o2 \<noteq> OK then (Inl (ThrowError (strerror S w4)), w4)
               else (Inr (JVal JUndef), w4)) w1))))"

definition JABCioCwd :: "'w sys \<Rightarrow> jsval list \<Rightarrow> ('w, jout) js" where
  "JABCioCwd S argv = jbind (val_or_errno (strerror S) (FILEGetCwd S)) js_str"

definition JABCioChdir :: "abc \<Rightarrow> 'w sys \<Rightarrow> jsval list \<Rightarrow> ('w, jout) js" where
  "JABCioChdir A S argv =
     need 1 ''io.chdir(path)'' argv
     (jbind (path_or A ''io.chdir(): bad path'' (argv ! 0)) (\<lambda>path.
      jbind (or_errno (strerror S) (chdir S path)) (\<lambda>_. js_undef)))"

text \<open>\<open>getenv\<close> takes the C string: the name up to its first NUL.\<close>

definition JABCioGetenv :: "'w sys \<Rightarrow> jsval list \<Rightarrow> ('w, jout) js" where
  "JABCioGetenv S argv =
     (case argv of
        JStr name # _ \<Rightarrow>
          jbind (jget (FILEGetEnv S (takeWhile (\<lambda>c. c \<noteq> CHR 0x00) name))) (\<lambda>v.
          if v = [] then js_undef else js_str v)
      | _ \<Rightarrow> jthrow (ThrowError ''io.getenv(name) -> string|undefined''))"

definition JABCioGetpid :: "'w sys \<Rightarrow> jsval list \<Rightarrow> ('w, jout) js" where
  "JABCioGetpid S argv = jbind (jget (getpid S)) js_num"

definition JABCioUnlink :: "abc \<Rightarrow> 'w sys \<Rightarrow> jsval list \<Rightarrow> ('w, jout) js" where
  "JABCioUnlink A S argv =
     need 1 ''io.unlink(path)'' argv
     (jbind (path_or A ''io.unlink(): bad path'' (argv ! 0)) (\<lambda>path.
      jbind (or_errno (strerror S) (FILEUnLink S path)) (\<lambda>_. js_undef)))"

definition JABCioRename :: "abc \<Rightarrow> 'w sys \<Rightarrow> jsval list \<Rightarrow> ('w, jout) js" where
  "JABCioRename A S argv =
     need 2 ''io.rename(old, new)'' argv
     (jbind (path_or A ''io.rename(): bad path'' (argv ! 0)) (\<lambda>oldp.
      jbind (path_or A ''io.rename(): bad path'' (argv ! 1)) (\<lambda>newp.
      jbind (or_errno (strerror S) (FILERename S oldp newp)) (\<lambda>_. js_undef))))"

definition JABCioMkdir :: "abc \<Rightarrow> 'w sys \<Rightarrow> jsval list \<Rightarrow> ('w, jout) js" where
  "JABCioMkdir A S argv =
     need 1 ''io.mkdir(path)'' argv
     (jbind (path_or A ''io.mkdir(): bad path'' (argv ! 0)) (\<lambda>path.
      jbind (or_errno (strerror S) (FILEMakeDirP S path)) (\<lambda>_. js_undef)))"

definition JABCioRmdir :: "abc \<Rightarrow> 'w sys \<Rightarrow> jsval list \<Rightarrow> ('w, jout) js" where
  "JABCioRmdir A S argv =
     need 1 ''io.rmdir(path[, recursive])'' argv
     (jbind (path_or A ''io.rmdir(): bad path'' (argv ! 0)) (\<lambda>path.
      let recursive = (if 1 < length argv then to_bool (argv ! 1) else False) in
      jbind (or_errno (strerror S) (FILERmDir S path recursive)) (\<lambda>_. js_undef)))"

definition JABCioMsync :: "'w engine \<Rightarrow> abc \<Rightarrow> 'w sys \<Rightarrow> jsval list \<Rightarrow> ('w, jout) js" where
  "JABCioMsync E A S argv =
     need 1 ''io._msync(Uint8Array)'' argv
     (jbind (JABCDataOf E A (argv ! 0)) (\<lambda>tab.
      if data_len tab = 0 then js_undef
      else jbind (or_errno (strerror S) (msync S (b1 tab) (data_len tab))) (\<lambda>_. js_undef)))"

section \<open>Processes\<close>

definition JABC_ARGV_MAX :: nat where "JABC_ARGV_MAX = 256"
definition JABC_ARGV_BYTES :: nat where "JABC_ARGV_BYTES = 65536"

text \<open>
  The argument vector: the elements are read one by one into a scratch buffer of which \<open>room\<close> bytes
  are left, each with a NUL after it.  The code's slices point into the buffer; here they are the
  strings the child sees.
\<close>

primrec build_args :: "'w engine \<Rightarrow> jsval \<Rightarrow> nat \<Rightarrow> nat \<Rightarrow> nat \<Rightarrow> ('w, ok64 + string list) js" where
  "build_args E arr i 0 room = jret (Inr [])"
| "build_args E arr i (Suc n) room = (\<lambda>w.
     case get_index E arr i w of
       (Inl e, w') \<Rightarrow> (Inl e, w')
     | (Inr v, w') \<Rightarrow>
         (case v of
            JStr s \<Rightarrow>
              if room < length s + 1 then (Inr (Inl NOROOM), w')
              else jbind (build_args E arr (i + 1) n (room - (length s + 1)))
                     (\<lambda>r. jret (map_sum id (\<lambda>ss. s # ss) r)) w'
          | _ \<Rightarrow> (Inr (Inl BADARG), w')))"

definition JABCBuildArgv :: "'w engine \<Rightarrow> jsval \<Rightarrow> ('w, ok64 + string list) js" where
  "JABCBuildArgv E arg = (\<lambda>w.
     if \<not> is_array E w arg then (Inr (Inl BADARG), w)
     else jbind (get_length E arg) (\<lambda>len.
       if len < 1 then jret (Inl BADARG)
       else if int JABC_ARGV_MAX < len then jret (Inl NOROOM)
       else build_args E arg 0 (nat len) JABC_ARGV_BYTES) w)"

text \<open>The argument vector or the leaf's message; an exception of the engine stays what it is.\<close>

definition argv_or :: "'w engine \<Rightarrow> string \<Rightarrow> jsval \<Rightarrow> ('w, string list) js" where
  "argv_or E msg arg = jbind (JABCBuildArgv E arg) (\<lambda>r.
     case r of Inl _ \<Rightarrow> jthrow (ThrowError msg) | Inr ss \<Rightarrow> jret ss)"

definition JABCioSpawn :: "'w engine \<Rightarrow> abc \<Rightarrow> 'w sys \<Rightarrow> jsval list \<Rightarrow> ('w, jout) js" where
  "JABCioSpawn E A S argv =
     need 2 ''io.spawn(path, argv) -> {pid, stdin, stdout}'' argv
     (jbind (path_or A ''io.spawn(): bad path'' (argv ! 0)) (\<lambda>path.
      jbind (argv_or E ''io.spawn(): argv must be a non-empty string[]'' (argv ! 1)) (\<lambda>args.
      jbind (val_or_errno (strerror S) (FILESpawn S path args)) (\<lambda>(wfd, rfd, pid).
      jret (JFields [(''pid'', JNum (js_int pid)), (''stdin'', JNum (js_int wfd)),
                     (''stdout'', JNum (js_int rfd))])))))"

definition JABCioSpawnFds :: "'w engine \<Rightarrow> abc \<Rightarrow> 'w sys \<Rightarrow> jsval list \<Rightarrow> ('w, jout) js" where
  "JABCioSpawnFds E A S argv =
     need 2 ''io.spawnFds(path, argv, inFd, outFd) -> pid'' argv
     (jbind (path_or A ''io.spawnFds(): bad path'' (argv ! 0)) (\<lambda>path.
      jbind (argv_or E ''io.spawnFds(): argv must be a non-empty string[]'' (argv ! 1)) (\<lambda>args.
      jbind (if 2 < length argv then JABCInt E (argv ! 2) else jret (- 1)) (\<lambda>inFd.
      jbind (if 3 < length argv then JABCInt E (argv ! 3) else jret (- 1)) (\<lambda>outFd.
      jbind (val_or_errno (strerror S) (FILESpawnFds S path args inFd outFd)) (\<lambda>pid.
      jret (JVal (JNum (js_int pid)))))))))"

definition JABCioReap :: "'w engine \<Rightarrow> 'w sys \<Rightarrow> jsval list \<Rightarrow> ('w, jout) js" where
  "JABCioReap E S argv =
     need 1 ''io.reap(pid) -> {code}|{signal}'' argv
     (jbind (JABCInt E (argv ! 0)) (\<lambda>pid w.
      case FILEReap S pid w of ((o', rc), w') \<Rightarrow>
        if o' \<noteq> OK \<and> o' \<noteq> FILESIGNAL then (Inl (ThrowError (strerror S w')), w')
        else (Inr (JFields [(if o' = FILESIGNAL then ''signal'' else ''code'', JNum (js_int rc))]), w')))"

definition JABCioFork :: "'w sys \<Rightarrow> jsval list \<Rightarrow> ('w, jout) js" where
  "JABCioFork S argv = (\<lambda>w. case fork S w of (pid, w') \<Rightarrow>
     if pid < 0 then (Inl (ThrowError (take 127 (''io.fork(): '' @ strerror S w'))), w')
     else (Inr (JVal (JNum (js_int pid))), w'))"

text \<open>\<open>_exit (code & 0xff)\<close>: the process's status, there is nothing to return to.\<close>

definition JABCioExit :: "'w engine \<Rightarrow> jsval list \<Rightarrow> ('w, int) js" where
  "JABCioExit E argv =
     jbind (if 0 < length argv then JABCInt E (argv ! 0) else jret 0) (\<lambda>code. jret (code mod 256))"

section \<open>Lemmas\<close>

lemma path_or_bad: "JABCPath A v = Inl e \<Longrightarrow> path_or A m v = jthrow (ThrowError m)"
  by (simp add: path_or_def)

lemma JABCInt_defined:
  assumes "to_number E v w = (Inr d, w')"
  shows "JABCInt E v w =
    (Inr (if num_le (Fin (- 2147483648)) d \<and> num_le d (Fin 2147483647) then the (c_cast (- 2147483648) 2147483647 d)
          else - 1), w')"
proof (cases "num_le (Fin (- 2147483648)) d \<and> num_le d (Fin 2147483647)")
  case True
  then obtain r where r: "d = Fin r" "- 2147483648 \<le> r" "r \<le> 2147483647" by (cases d) auto
  then have "c_cast (- 2147483648) 2147483647 d = Some (trunc r)"
    using c_cast_in_range [of "- 2147483648" r 2147483647 "- 2147483648" 2147483647] by simp
  with True assms show ?thesis by (simp add: JABCInt_def cast_or_undef_def)
qed (use assms in \<open>auto simp: JABCInt_def\<close>)

lemma JABCInt_whole:
  assumes "num_faithful E" "- 2147483648 \<le> t" "t \<le> 2147483647"
  shows "JABCInt E (JNum (js_int t)) w = (Inr t, w)"
proof -
  have "to_number E (JNum (js_int t)) w = (Inr (js_int t), w)"
    using assms(1) by (simp add: num_faithful_def)
  moreover have "c_cast (- 2147483648) 2147483647 (js_int t) = Some t"
    using assms(2,3) by (simp add: c_cast_def js_int_def)
  moreover have "num_le (Fin (- 2147483648)) (js_int t) \<and> num_le (js_int t) (Fin 2147483647)"
    using assms(2,3) by (simp add: js_int_def)
  ultimately show ?thesis by (simp add: JABCInt_defined)
qed

lemma build_args_Inr:
  "build_args E arr i n room w = (Inr (Inr ss), w') \<Longrightarrow>
   length ss = n \<and> sum_list (map (\<lambda>s. length s + 1) ss) \<le> room"
proof (induction n arbitrary: i room w ss)
  case (Suc n)
  then obtain s w1 ss' where *: "get_index E arr i w = (Inr (JStr s), w1)" "\<not> room < length s + 1"
    "build_args E arr (i + 1) n (room - (length s + 1)) w1 = (Inr (Inr ss'), w')" "ss = s # ss'"
    by (auto simp: jbind_eq_Inr map_sum_id_Inr split: prod.splits sum.splits jsval.splits if_splits)
  from Suc.IH [OF *(3)] *(2,4) show ?case by auto
qed simp

lemma retry_stops:
  assumes "retry k call w = (Some r, w')"
  shows "r \<noteq> Eintr \<and> (\<exists>w0. call w0 = (r, w')) \<and> (\<forall>j. retry (k + j) call w = (Some r, w'))"
  using assms
proof (induction k arbitrary: w)
  case (Suc k)
  then show ?case by (fastforce split: prod.splits sysret.splits)
qed simp

section \<open>Properties\<close>

text \<open>
  A bad path never reaches the system.  Whatever leaf takes it, a path argument that
  \<open>JABCPath\<close> refuses ends the leaf with its "bad path" error, and neither the system nor the
  engine has been touched.
\<close>

theorem bad_path_stops_every_leaf:
  assumes "JABCPath A v = Inl e"
  shows "JABCioOpen E A S (v # vs) w = (Inl (ThrowError ''io.open(): bad path''), w) \<and>
    JABCioStat A S (v # vs) w = (Inl (ThrowError ''io.stat(): bad path''), w) \<and>
    JABCioLStat A S (v # vs) w = (Inl (ThrowError ''io.lstat(): bad path''), w) \<and>
    JABCioReadLink A S (v # vs) w = (Inl (ThrowError ''io.readlink(): bad path''), w) \<and>
    JABCioRealPath A S (v # vs) w = (Inl (ThrowError ''io.realpath(): bad path''), w) \<and>
    JABCioChdir A S (v # vs) w = (Inl (ThrowError ''io.chdir(): bad path''), w) \<and>
    JABCioUnlink A S (v # vs) w = (Inl (ThrowError ''io.unlink(): bad path''), w) \<and>
    JABCioMkdir A S (v # vs) w = (Inl (ThrowError ''io.mkdir(): bad path''), w) \<and>
    JABCioRmdir A S (v # vs) w = (Inl (ThrowError ''io.rmdir(): bad path''), w) \<and>
    JABCioSymLink A S (v # x # vs) w = (Inl (ThrowError ''io.symlink(): bad path''), w) \<and>
    JABCioRename A S (v # x # vs) w = (Inl (ThrowError ''io.rename(): bad path''), w) \<and>
    JABCioChmod E A S (v # x # vs) w = (Inl (ThrowError ''io.chmod(): bad path''), w) \<and>
    JABCioSetMtime E A S (v # x # vs) w = (Inl (ThrowError ''io.setMtime(): bad path''), w) \<and>
    JABCioTruncate E A S (v # x # vs) w = (Inl (ThrowError ''io._truncate(): bad path''), w) \<and>
    JABCioSpawn E A S (v # x # vs) w = (Inl (ThrowError ''io.spawn(): bad path''), w) \<and>
    JABCioSpawnFds E A S (v # x # vs) w = (Inl (ThrowError ''io.spawnFds(): bad path''), w)"
  by (simp add: path_or_bad [OF assms] JABCioOpen_def JABCioStat_def JABCioLStat_def JABCioReadLink_def
      JABCioRealPath_def JABCioChdir_def JABCioUnlink_def JABCioMkdir_def JABCioRmdir_def
      JABCioSymLink_def JABCioRename_def JABCioChmod_def JABCioSetMtime_def JABCioTruncate_def
      JABCioSpawn_def JABCioSpawnFds_def)

theorem bad_path_stops_every_leaf_witness:
  "\<forall>S w. JABCioUnlink sample_abc S [JStr (''a'' @ [CHR 0x00])] w = (Inl (ThrowError ''io.unlink(): bad path''), w)"
proof -
  have "JABCPath sample_abc (JStr (''a'' @ [CHR 0x00])) = Inl BADARG"
    by (simp add: JABCPath_def sample_abc_def)
  note stops = bad_path_stops_every_leaf [OF this, where vs = "[]"]
  show ?thesis
  proof (intro allI)
    fix S w
    show "JABCioUnlink sample_abc S [JStr (''a'' @ [CHR 0x00])] w = (Inl (ThrowError ''io.unlink(): bad path''), w)"
      using stops [of undefined S w] by simp
  qed
qed

text \<open>
  Four leaves cast a number to an integer type without checking it.  \<open>n < 0\<close> is false for a
  NaN and for numbers beyond the type, so \<open>io.resize\<close>, \<open>io._truncate\<close> and \<open>io.chmod\<close> reach a cast
  that is undefined in C for every such number; inside the type they do not.
\<close>

theorem unguarded_casts:
  assumes "num_faithful E" and "JABCPath A p = Inr path" and "\<not> num_lt d (Fin 0)"
  shows "(fst (JABCioResize E S [JNum (js_int 3), JNum d] w) = Inl CUndef \<longleftrightarrow> c_cast 0 (2 ^ 64 - 1) d = None) \<and>
    (fst (JABCioChmod E A S [p, JNum d] w) = Inl CUndef \<longleftrightarrow> c_cast 0 (2 ^ 32 - 1) d = None) \<and>
    c_cast 0 (2 ^ 64 - 1) NaN = None \<and> c_cast 0 (2 ^ 32 - 1) (Fin (2 ^ 32)) = None"
proof -
  have d: "to_number E (JNum d) w = (Inr d, w)" for w
    using assms(1) by (simp add: num_faithful_def)
  have "JABCInt E (JNum (js_int 3)) w = (Inr 3, w)"
    using JABCInt_whole [OF assms(1), of 3] by simp
  then have "fst (JABCioResize E S [JNum (js_int 3), JNum d] w) = Inl CUndef \<longleftrightarrow>
      c_cast 0 (2 ^ 64 - 1) d = None"
    using assms(3) d
    by (auto simp: JABCioResize_def as_size_def cast_or_undef_def or_errno_def jbind_def
        split: option.splits prod.splits)
  moreover have "fst (JABCioChmod E A S [p, JNum d] w) = Inl CUndef \<longleftrightarrow> c_cast 0 (2 ^ 32 - 1) d = None"
    using assms(2,3) d
    by (auto simp: JABCioChmod_def path_or_def cast_or_undef_def or_errno_def jbind_def
        split: option.splits prod.splits)
  ultimately show ?thesis by (simp add: c_cast_def)
qed

theorem unguarded_casts_witness:
  "\<forall>S w. fst (JABCioResize sample_engine S [JNum (js_int 3), JNum NaN] w) = Inl CUndef"
proof -
  have "JABCPath sample_abc (JStr ''a'') = Inr ''a''" by (simp add: JABCPath_def sample_abc_def)
  from unguarded_casts [OF sample_num_faithful this, of NaN] show ?thesis by simp
qed

text \<open>
  The argument vector of a child is exact.  When \<open>JABCBuildArgv\<close> succeeds it has at least the
  program's name, at most 256 strings, and all of them with their NULs fit the 64 KiB scratch
  buffer, so no copy runs past it.
\<close>

theorem argv_fits_its_buffer:
  assumes "JABCBuildArgv E arg w = (Inr (Inr ss), w')"
  shows "1 \<le> length ss \<and> length ss \<le> JABC_ARGV_MAX \<and>
    sum_list (map (\<lambda>s. length s + 1) ss) \<le> JABC_ARGV_BYTES"
proof -
  from assms obtain len w1 where "get_length E arg w = (Inr len, w1)" "\<not> len < 1"
    "\<not> int JABC_ARGV_MAX < len" "build_args E arg 0 (nat len) JABC_ARGV_BYTES w1 = (Inr (Inr ss), w')"
    by (auto simp: JABCBuildArgv_def jbind_eq_Inr split: if_splits)
  with build_args_Inr [OF this(4)] show ?thesis by linarith
qed

theorem argv_fits_its_buffer_witness:
  "1 \<le> length [''ls''] \<and> sum_list (map (\<lambda>s. length s + 1) [''ls'']) \<le> JABC_ARGV_BYTES"
proof -
  let ?E = "sample_engine\<lparr>get_index := (\<lambda>v i. jret (JStr ''ls''))\<rparr>"
  have "JABCBuildArgv ?E (JObj 9) \<lparr>bufs = [(8, 8)], props = (\<lambda>_. JUndef)\<rparr> =
      (Inr (Inr [''ls'']), \<lparr>bufs = [(8, 8)], props = (\<lambda>_. JUndef)\<rparr>)"
    by (simp add: JABCBuildArgv_def sample_engine_def JABC_ARGV_MAX_def JABC_ARGV_BYTES_def jbind_def)
  from argv_fits_its_buffer [OF this] show ?thesis by blast
qed

end
