(* ===== verification/IoMaps.thy ===== *)
theory IoMaps
  imports Io
begin

text \<open>
  Mapped memory in \<open>io.c\<close>: who unmaps what, and when.  A mapping is handed to JavaScript as a typed
  array with a finalizer and a heap record (base, length, identity).  A file mapped read-only or
  an anonymous region is released by its own finalizer; a file mapped "rw" or "c" occupies a slot
  of libabc's table, indexed by its descriptor, may be released early by \<open>io._munmap\<close>, and its slot
  may then be reused before the finalizer of the old array runs.  The generation packed into the
  identity keeps the late finalizer away from the new tenant.

  \<open>want\<close> is libabc's table as the leaves see it (the base of the slot's mapping), \<open>live\<close> the records
  whose arrays are not yet finalized.  The libabc calls that map and unmap are the record \<open>filemap\<close>.
\<close>

section \<open>State\<close>

datatype mkind = Slot | Once | Anon

record mrec =
  kind :: mkind
  base :: addr
  mlen :: nat
  ident :: nat

type_synonym slots = "nat \<Rightarrow> addr option"

record mapst =
  PIN_MAP :: nat
  PIN_FD :: nat
  PIN_MAP_MARK :: nat
  PIN_FD_MARK :: nat
  MAP_GEN :: "nat \<Rightarrow> nat"
  want :: slots
  lives :: "mrec list"

definition JABC_PIN_MAPS :: nat where "JABC_PIN_MAPS = 4096"
definition JABC_PIN_FDS :: nat where "JABC_PIN_FDS = 256"
definition JABC_MAP_MAX :: nat where "JABC_MAP_MAX = 2 ^ 31 - 1"

definition maps0 :: mapst where
  "maps0 = \<lparr>PIN_MAP = 0, PIN_FD = 0, PIN_MAP_MARK = JABC_PIN_MAPS, PIN_FD_MARK = JABC_PIN_FDS,
     MAP_GEN = (\<lambda>_. 0), want = (\<lambda>_. None), lives = []\<rparr>"

text \<open>A booked slot: descriptor, base, DATA and IDLE lengths.\<close>

record booked =
  bfd :: nat
  bbase :: addr
  bdlen :: nat
  bilen :: nat

record filemap =
  open_bits :: nat
  FILEMapCreate :: "string \<Rightarrow> nat \<Rightarrow> slots \<Rightarrow> (ok64 \<times> booked) \<times> slots"
  FILEMapRW :: "string \<Rightarrow> slots \<Rightarrow> (ok64 \<times> booked) \<times> slots"
  FILEMapOnce :: "string \<Rightarrow> ok64 \<times> addr \<times> nat"
  mmap_anon :: "nat \<Rightarrow> addr option"
  FILEUnMap :: "nat \<Rightarrow> slots \<Rightarrow> slots"
  FILEUnMapBase :: "addr \<Rightarrow> slots \<Rightarrow> slots"

text \<open>
  What the leaves rely on: a mapping call that succeeds books a free slot below the descriptor
  limit at a non-null base, one that fails books none; unmapping a slot empties that slot; unmapping
  a base empties the slot that has it.
\<close>

definition books :: "filemap \<Rightarrow> slots \<Rightarrow> (ok64 \<times> booked) \<times> slots \<Rightarrow> bool" where
  "books F t r \<longleftrightarrow> (case r of ((o', b), t') \<Rightarrow>
     if o' = OK then bfd b < 2 ^ open_bits F \<and> t (bfd b) = None \<and> bbase b \<noteq> 0 \<and> t' = t(bfd b \<mapsto> bbase b)
     else t' = t)"

definition filemap_laws :: "filemap \<Rightarrow> bool" where
  "filemap_laws F \<longleftrightarrow>
     (\<forall>p n t. books F t (FILEMapCreate F p n t)) \<and> (\<forall>p t. books F t (FILEMapRW F p t)) \<and>
     (\<forall>fd t. FILEUnMap F fd t = t(fd := None)) \<and>
     (\<forall>b t. FILEUnMapBase F b t = (\<lambda>fd. if t fd = Some b then None else t fd))"

section \<open>Pins\<close>

definition JABCPinTake :: "bool \<Rightarrow> mapst \<Rightarrow> mapst" where
  "JABCPinTake fd s =
     (let s1 = s\<lparr>PIN_MAP := PIN_MAP s + 1\<rparr> in if fd then s1\<lparr>PIN_FD := PIN_FD s1 + 1\<rparr> else s1)"

definition JABCPinDrop :: "bool \<Rightarrow> mapst \<Rightarrow> mapst" where
  "JABCPinDrop fd s =
     (let s1 = (if PIN_MAP s \<noteq> 0 then s\<lparr>PIN_MAP := PIN_MAP s - 1\<rparr> else s)
      in if fd \<and> PIN_FD s1 \<noteq> 0 then s1\<lparr>PIN_FD := PIN_FD s1 - 1\<rparr> else s1)"

section \<open>Finalizers\<close>

text \<open>The identity: the slot's generation above the descriptor's bits, in a 64-bit word.\<close>

definition JABCMapIdent :: "filemap \<Rightarrow> nat \<Rightarrow> mapst \<Rightarrow> nat \<times> mapst" where
  "JABCMapIdent F fd s =
     (let g = MAP_GEN s fd + 1
      in ((g * 2 ^ open_bits F + fd) mod 2 ^ 64, s\<lparr>MAP_GEN := (MAP_GEN s)(fd := g)\<rparr>))"

definition JABCMapFree :: "filemap \<Rightarrow> mrec option \<Rightarrow> mapst \<Rightarrow> mapst" where
  "JABCMapFree F opq s =
     (case opq of None \<Rightarrow> s
      | Some r \<Rightarrow>
          let s1 = JABCPinDrop True s; fd = ident r mod 2 ^ open_bits F in
          if want s1 fd = Some (base r) \<and> ident r div 2 ^ open_bits F = MAP_GEN s1 fd
          then s1\<lparr>want := FILEUnMap F fd (want s1)\<rparr> else s1)"

definition JABCMapROFree :: "mrec option \<Rightarrow> mapst \<Rightarrow> mapst" where
  "JABCMapROFree opq s = (case opq of None \<Rightarrow> s | Some r \<Rightarrow> JABCPinDrop False s)"

definition JABCRamFree :: "mrec option \<Rightarrow> mapst \<Rightarrow> mapst" where
  "JABCRamFree opq s = (case opq of None \<Rightarrow> s | Some r \<Rightarrow> JABCPinDrop False s)"

text \<open>The engine runs the finalizer of one array, once.\<close>

definition finalize :: "filemap \<Rightarrow> mrec \<Rightarrow> mapst \<Rightarrow> mapst" where
  "finalize F r s =
     (if r \<notin> set (lives s) then s
      else let s1 = s\<lparr>lives := remove1 r (lives s)\<rparr> in
        case kind r of Slot \<Rightarrow> JABCMapFree F (Some r) s1
                     | Once \<Rightarrow> JABCMapROFree (Some r) s1
                     | Anon \<Rightarrow> JABCRamFree (Some r) s1)"

text \<open>A collection finalizes some of the arrays, \<open>dead\<close> (those the engine finds unreachable).\<close>

definition JABCPinSweep :: "filemap \<Rightarrow> mrec list \<Rightarrow> mapst \<Rightarrow> mapst" where
  "JABCPinSweep F dead s =
     (if PIN_MAP s < PIN_MAP_MARK s \<and> PIN_FD s < PIN_FD_MARK s then s
      else let s1 = fold (finalize F) dead s
           in s1\<lparr>PIN_MAP_MARK := PIN_MAP s1 + JABC_PIN_MAPS, PIN_FD_MARK := PIN_FD s1 + JABC_PIN_FDS\<rparr>)"

section \<open>The leaves\<close>

text \<open>
  What a call runs into: the arrays a collection would reap, and whether the record or the typed
  array can be allocated.
\<close>

record mapenv =
  reap :: "mrec list"
  rec_oom :: bool
  view_oom :: bool

definition hand_out :: "filemap \<Rightarrow> mapenv \<Rightarrow> string \<Rightarrow> mkind \<Rightarrow> mrec \<Rightarrow> (mapst \<Rightarrow> mapst) \<Rightarrow> (mapst, mrec option) js" where
  "hand_out F env err k r unmap = (\<lambda>s.
     if rec_oom env then (Inl (ThrowError err), unmap s)
     else if view_oom env then (Inl (ThrowVal JUndef), unmap s)
     else (Inr (Some r), JABCPinTake (k = Slot) (s\<lparr>lives := r # lives s\<rparr>)))"

text \<open>The part of \<open>io._mmap\<close> after the mapping: refuse what is too big, attach the record.\<close>

definition slot_out :: "filemap \<Rightarrow> mapenv \<Rightarrow> string \<Rightarrow> (ok64 \<times> booked) \<times> slots \<Rightarrow> (mapst, mrec option) js" where
  "slot_out F env err r = (\<lambda>s. case r of ((o', b), t') \<Rightarrow>
     let s1 = s\<lparr>want := t'\<rparr>; n = bdlen b + bilen b;
         unmap = (\<lambda>s. s\<lparr>want := FILEUnMap F (bfd b) (want s)\<rparr>) in
     if o' \<noteq> OK \<or> bbase b = 0 then (Inl (ThrowError err), s1)
     else if JABC_MAP_MAX < n
     then (Inl (ThrowError ''io._mmap(): the file is bigger than 2 GiB, which is the largest region jab can map at once''), unmap s1)
     else case JABCMapIdent F (bfd b) s1 of (i, s2) \<Rightarrow>
       hand_out F env err Slot \<lparr>kind = Slot, base = bbase b, mlen = n, ident = i\<rparr> unmap s2)"

definition once_out :: "filemap \<Rightarrow> mapenv \<Rightarrow> string \<Rightarrow> ok64 \<times> addr \<times> nat \<Rightarrow> (mapst, mrec option) js" where
  "once_out F env err r = (\<lambda>s. case r of (o', b, n) \<Rightarrow>
     if o' \<noteq> OK then (Inl (ThrowError err), s)
     else if n = 0 then (Inr None, s)
     else if JABC_MAP_MAX < n
     then (Inl (ThrowError ''io._mmap(): the file is bigger than 2 GiB, which is the largest region jab can map at once''), s)
     else hand_out F env err Once \<lparr>kind = Once, base = b, mlen = n, ident = 0\<rparr> id s)"

text \<open>\<open>(path, mode, size)\<close> after their gates; \<open>err\<close> is the system's error text.\<close>

definition JABCioMmap :: "filemap \<Rightarrow> mapenv \<Rightarrow> string \<Rightarrow> string \<Rightarrow> string \<Rightarrow> jsnum \<Rightarrow> (mapst, mrec option) js" where
  "JABCioMmap F env err path mode sz = (\<lambda>s.
     let s1 = JABCPinSweep F (reap env) s in
     if mode = ''c'' then
       if num_lt sz (Fin 0) then (Inl (ThrowError ''io._mmap(): negative size''), s1)
       else jbind (as_size sz) (\<lambda>n s. slot_out F env err (FILEMapCreate F path n (want s)) s) s1
     else if mode = ''rw'' then slot_out F env err (FILEMapRW F path (want s1)) s1
     else once_out F env err (FILEMapOnce F path) s1)"

definition JABCioMunmap :: "filemap \<Rightarrow> addr \<Rightarrow> mapst \<Rightarrow> mapst" where
  "JABCioMunmap F b s = s\<lparr>want := FILEUnMapBase F b (want s)\<rparr>"

definition JABCioRam :: "filemap \<Rightarrow> mapenv \<Rightarrow> string \<Rightarrow> jsnum \<Rightarrow> (mapst, mrec option) js" where
  "JABCioRam F env err dn = (\<lambda>s.
     if num_le dn (Fin 0) then (Inl (ThrowError ''io._ram(): size must be > 0''), s)
     else if num_lt (js_nat JABC_MAP_MAX) dn
     then (Inl (ThrowError ''io._ram(): the request is bigger than 2 GiB, which is the largest region jab can map at once''), s)
     else jbind (as_size dn) (\<lambda>n s.
       let s1 = JABCPinSweep F (reap env) s in
       case mmap_anon F n of
         None \<Rightarrow> (Inl (ThrowError err), s1)
       | Some b \<Rightarrow> hand_out F env err Anon \<lparr>kind = Anon, base = b, mlen = n, ident = 0\<rparr> id s1) s)"

section \<open>Ownership\<close>

text \<open>
  \<open>owner F s fd r\<close>: \<open>r\<close> is the record made for the mapping the slot \<open>fd\<close> holds now.
\<close>

definition slot_ident :: "filemap \<Rightarrow> mapst \<Rightarrow> nat \<Rightarrow> nat" where
  "slot_ident F s fd = MAP_GEN s fd * 2 ^ open_bits F + fd"

definition maps_ok :: "filemap \<Rightarrow> mapst \<Rightarrow> bool" where
  "maps_ok F s \<longleftrightarrow>
     PIN_MAP s = length (lives s) \<and>
     PIN_FD s = length (filter (\<lambda>r. kind r = Slot) (lives s)) \<and>
     distinct (map ident (filter (\<lambda>r. kind r = Slot) (lives s))) \<and>
     (\<forall>r \<in> set (lives s). kind r = Slot \<longrightarrow>
        ident r div 2 ^ open_bits F \<le> MAP_GEN s (ident r mod 2 ^ open_bits F)) \<and>
     (\<forall>fd b. want s fd = Some b \<longrightarrow> fd < 2 ^ open_bits F \<and>
        (\<exists>r \<in> set (lives s). kind r = Slot \<and> ident r = slot_ident F s fd \<and> base r = b))"

lemma maps_ok_init: "maps_ok F maps0"
  by (simp add: maps_ok_def maps0_def)

lemma slot_ident_parts:
  assumes "fd < 2 ^ open_bits F"
  shows "slot_ident F s fd mod 2 ^ open_bits F = fd" "slot_ident F s fd div 2 ^ open_bits F = MAP_GEN s fd"
  unfolding slot_ident_def using assms by (simp_all only: mod_mult_self3 mod_less div_mult_self3 div_less)

lemma slot_ident_inj:
  "fd < 2 ^ open_bits F \<Longrightarrow> fd' < 2 ^ open_bits F \<Longrightarrow> slot_ident F s fd = slot_ident F s fd' \<Longrightarrow> fd = fd'"
  by (metis slot_ident_parts(1))

lemma length_filter_remove1:
  "length (filter P (remove1 x xs)) = length (filter P xs) - (if x \<in> set xs \<and> P x then 1 else 0)"
  by (simp add: filter_remove1 length_remove1)

lemma distinct_ident_same:
  assumes "distinct (map ident (filter P xs))" "r \<in> set xs" "P r" "r' \<in> set xs" "P r'" "ident r = ident r'"
  shows "r = r'"
  using assms by (auto simp: distinct_map inj_on_def)

lemma remove1_other: "r' \<in> set xs \<Longrightarrow> r' \<noteq> r \<Longrightarrow> r' \<in> set (remove1 r xs)"
  by simp

subsection \<open>A finalizer frees its own mapping only\<close>

lemma finalize_Slot:
  assumes ok: "maps_ok F s" and r: "r \<in> set (lives s)" "kind r = Slot"
  defines "fd \<equiv> ident r mod 2 ^ open_bits F"
  shows "finalize F r s = s\<lparr>lives := remove1 r (lives s), PIN_MAP := PIN_MAP s - 1, PIN_FD := PIN_FD s - 1,
    want := (if want s fd = Some (base r) \<and> ident r = slot_ident F s fd then FILEUnMap F fd (want s) else want s)\<rparr>"
proof -
  have "0 < PIN_MAP s" using ok r by (auto simp: maps_ok_def length_pos_if_in_set)
  moreover have "0 < PIN_FD s"
    using ok r by (auto simp: maps_ok_def) (metis (mono_tags) filter_empty_conv)
  moreover have "ident r div 2 ^ open_bits F = MAP_GEN s fd \<longleftrightarrow> ident r = slot_ident F s fd"
    using slot_ident_parts(2) [of fd F s] unfolding fd_def slot_ident_def
    by (metis div_mult_mod_eq mod_less_divisor zero_less_numeral zero_less_power)
  ultimately show ?thesis using r
    by (simp add: finalize_def JABCMapFree_def JABCPinDrop_def Let_def fd_def)
qed

lemma finalize_ok:
  assumes laws: "filemap_laws F" and ok: "maps_ok F s"
  shows "maps_ok F (finalize F r s)"
proof (cases "r \<in> set (lives s)")
  case False
  then show ?thesis using ok by (simp add: finalize_def)
next
  case r: True
  let ?d = "distinct (map ident (filter (\<lambda>r. kind r = Slot) (remove1 r (lives s))))"
  have d: ?d using ok by (auto simp: maps_ok_def filter_remove1 distinct_map distinct_remove1
        intro: inj_on_subset dest: notin_set_remove1)
  show ?thesis
  proof (cases "kind r = Slot")
    case False
    have "finalize F r s = s\<lparr>lives := remove1 r (lives s), PIN_MAP := PIN_MAP s - 1\<rparr>"
      using False r ok
      by (cases "kind r") (auto simp: finalize_def JABCMapROFree_def JABCRamFree_def JABCPinDrop_def Let_def maps_ok_def)
    moreover have "r' \<noteq> r" if "kind r' = Slot" for r' using that False by auto
    ultimately show ?thesis using ok d r False
      by (fastforce simp: maps_ok_def length_remove1 length_filter_remove1 slot_ident_def
          dest: notin_set_remove1)
  next
    case True
    let ?fd = "ident r mod 2 ^ open_bits F"
    let ?s = "finalize F r s"
    have f: "?s = s\<lparr>lives := remove1 r (lives s), PIN_MAP := PIN_MAP s - 1, PIN_FD := PIN_FD s - 1,
      want := (if want s ?fd = Some (base r) \<and> ident r = slot_ident F s ?fd then (want s)(?fd := None) else want s)\<rparr>"
      using finalize_Slot [OF ok r True] laws by (simp add: filemap_laws_def)
    have keeps: "want s fd = Some b" if "want ?s fd = Some b" for fd b
      using that f by (auto split: if_splits)
    have own: "\<exists>r' \<in> set (lives ?s). kind r' = Slot \<and> ident r' = slot_ident F ?s fd \<and> base r' = b"
      if "want ?s fd = Some b" for fd b
    proof -
      have w: "want s fd = Some b" using that by (rule keeps)
      with ok obtain r' where r': "r' \<in> set (lives s)" "kind r' = Slot" "ident r' = slot_ident F s fd"
        "base r' = b" "fd < 2 ^ open_bits F" unfolding maps_ok_def by blast
      have "r' \<noteq> r"
      proof
        assume "r' = r"
        with r' have "?fd = fd" "ident r = slot_ident F s fd" "base r = b"
          by (simp_all add: slot_ident_parts)
        with w that f show False by simp
      qed
      then show ?thesis using r' f by (auto simp: slot_ident_def)
    qed
    have "want ?s fd = Some b \<Longrightarrow> fd < 2 ^ open_bits F" for fd b
      using keeps [of fd b] ok unfolding maps_ok_def by blast
    moreover have lv: "lives ?s = remove1 r (lives s)" "MAP_GEN ?s = MAP_GEN s"
      "PIN_MAP ?s = PIN_MAP s - 1" "PIN_FD ?s = PIN_FD s - 1" using f by simp_all
    moreover have "PIN_MAP s = length (lives s)" "PIN_FD s = length (filter (\<lambda>r. kind r = Slot) (lives s))"
      "\<forall>r \<in> set (lives s). kind r = Slot \<longrightarrow>
        ident r div 2 ^ open_bits F \<le> MAP_GEN s (ident r mod 2 ^ open_bits F)"
      using ok unfolding maps_ok_def by blast+
    moreover have "\<forall>r \<in> set (lives ?s). kind r = Slot \<longrightarrow>
        ident r div 2 ^ open_bits F \<le> MAP_GEN ?s (ident r mod 2 ^ open_bits F)"
      using calculation(8) lv(1,2) by (auto dest: notin_set_remove1)
    ultimately show ?thesis using own d r True unfolding maps_ok_def
      by (simp only: length_remove1 length_filter_remove1 lv) simp
  qed
qed

lemma fold_finalize_ok:
  "filemap_laws F \<Longrightarrow> maps_ok F s \<Longrightarrow> maps_ok F (fold (finalize F) dead s)"
  by (induction dead arbitrary: s) (auto simp: finalize_ok)

lemma finalize_gen: "MAP_GEN (finalize F r s) = MAP_GEN s"
  by (simp add: finalize_def JABCMapFree_def JABCMapROFree_def JABCRamFree_def JABCPinDrop_def Let_def
      split: mkind.splits)

lemma fold_finalize_gen: "MAP_GEN (fold (finalize F) dead s) = MAP_GEN s"
  by (induction dead arbitrary: s) (simp_all add: finalize_gen)

lemma sweep_ok:
  assumes "filemap_laws F" "maps_ok F s"
  shows "maps_ok F (JABCPinSweep F dead s)" "MAP_GEN (JABCPinSweep F dead s) = MAP_GEN s"
  using fold_finalize_ok [OF assms, of dead] assms(2)
  by (auto simp: JABCPinSweep_def Let_def maps_ok_def slot_ident_def fold_finalize_gen)

subsection \<open>A new mapping\<close>

definition gens_fit :: "filemap \<Rightarrow> mapst \<Rightarrow> bool" where
  "gens_fit F s \<longleftrightarrow> open_bits F \<le> 64 \<and> (\<forall>fd. MAP_GEN s fd + 1 < 2 ^ (64 - open_bits F))"

lemma JABCMapIdent_fits:
  assumes "gens_fit F s" "fd < 2 ^ open_bits F"
  shows "JABCMapIdent F fd s =
    (slot_ident F (s\<lparr>MAP_GEN := (MAP_GEN s)(fd := MAP_GEN s fd + 1)\<rparr>) fd,
     s\<lparr>MAP_GEN := (MAP_GEN s)(fd := MAP_GEN s fd + 1)\<rparr>)"
proof -
  let ?g = "MAP_GEN s fd + 1" and ?b = "open_bits F"
  have "?g * 2 ^ ?b + fd < (?g + 1) * 2 ^ ?b" using assms(2) by simp
  also have "\<dots> \<le> 2 ^ (64 - ?b) * 2 ^ ?b"
    using assms(1) unfolding gens_fit_def by (intro mult_right_mono) (auto simp: Suc_le_eq)
  also have "\<dots> = 2 ^ 64" using assms(1) by (simp add: gens_fit_def flip: power_add)
  finally show ?thesis by (simp add: JABCMapIdent_def slot_ident_def Let_def)
qed

text \<open>A generation that moved on an empty slot changes nothing of the invariant.\<close>

lemma bump_ok:
  assumes "maps_ok F s" "want s fd = None"
  shows "maps_ok F (s\<lparr>MAP_GEN := (MAP_GEN s)(fd := MAP_GEN s fd + 1)\<rparr>)"
proof -
  have "slot_ident F (s\<lparr>MAP_GEN := (MAP_GEN s)(fd := MAP_GEN s fd + 1)\<rparr>) fd' = slot_ident F s fd'"
    if "want s fd' = Some b" for fd' b
    using that assms(2) by (auto simp: slot_ident_def)
  with assms show ?thesis unfolding maps_ok_def by (auto intro: le_SucI)
qed

lemma book_ok:
  assumes ok: "maps_ok F s" and free: "want s fd = None" and fd: "fd < 2 ^ open_bits F"
    and i: "i = slot_ident F (s\<lparr>MAP_GEN := (MAP_GEN s)(fd := MAP_GEN s fd + 1)\<rparr>) fd"
  shows "maps_ok F (JABCPinTake True (s\<lparr>want := (want s)(fd \<mapsto> b),
    MAP_GEN := (MAP_GEN s)(fd := MAP_GEN s fd + 1), lives := \<lparr>kind = Slot, base = b, mlen = n, ident = i\<rparr> # lives s\<rparr>))"
    (is "maps_ok F ?t")
proof -
  let ?s = "s\<lparr>MAP_GEN := (MAP_GEN s)(fd := MAP_GEN s fd + 1)\<rparr>"
  have ok': "maps_ok F ?s" using ok free by (rule bump_ok)
  have parts: "i mod 2 ^ open_bits F = fd" "i div 2 ^ open_bits F = MAP_GEN s fd + 1"
    using slot_ident_parts [OF fd, of ?s] by (simp_all add: i)
  have new: "ident r \<noteq> i" if "r \<in> set (lives s)" "kind r = Slot" for r
  proof
    assume "ident r = i"
    with parts have "ident r mod 2 ^ open_bits F = fd" "ident r div 2 ^ open_bits F = MAP_GEN s fd + 1" by simp_all
    moreover have "ident r div 2 ^ open_bits F \<le> MAP_GEN s (ident r mod 2 ^ open_bits F)"
      using ok that unfolding maps_ok_def by blast
    ultimately show False by simp
  qed
  have si: "slot_ident F ?t fd' = slot_ident F ?s fd'" for fd'
    by (simp add: slot_ident_def JABCPinTake_def)
  have own: "fd' < 2 ^ open_bits F \<and> (\<exists>r \<in> set (lives ?t). kind r = Slot \<and> ident r = slot_ident F ?t fd' \<and> base r = b')"
    if "want ?t fd' = Some b'" for fd' b'
  proof (cases "fd' = fd")
    case True
    with that fd i si show ?thesis by (simp add: JABCPinTake_def)
  next
    case False
    then have "want ?s fd' = Some b'" using that by (simp add: JABCPinTake_def)
    with ok' have "fd' < 2 ^ open_bits F"
      "\<exists>r \<in> set (lives ?s). kind r = Slot \<and> ident r = slot_ident F ?s fd' \<and> base r = b'"
      unfolding maps_ok_def by blast+
    then show ?thesis unfolding si by (auto simp: JABCPinTake_def)
  qed
  have "PIN_MAP ?t = length (lives ?t) \<and> PIN_FD ?t = length (filter (\<lambda>r. kind r = Slot) (lives ?t))"
    using ok unfolding maps_ok_def by (simp add: JABCPinTake_def)
  moreover have "distinct (map ident (filter (\<lambda>r. kind r = Slot) (lives ?t)))"
    using ok new unfolding maps_ok_def by (auto simp: JABCPinTake_def)
  moreover have "\<forall>r \<in> set (lives ?t). kind r = Slot \<longrightarrow>
      ident r div 2 ^ open_bits F \<le> MAP_GEN ?t (ident r mod 2 ^ open_bits F)"
    using ok' parts unfolding maps_ok_def by (auto simp: JABCPinTake_def)
  ultimately show ?thesis using own unfolding maps_ok_def by blast
qed

lemma hand_out_Slot:
  "snd (hand_out F env err Slot r unmap s) =
     (if rec_oom env \<or> view_oom env then unmap s else JABCPinTake True (s\<lparr>lives := r # lives s\<rparr>))"
  by (simp add: hand_out_def)

lemma hand_out_other_ok:
  assumes "maps_ok F s" "k \<noteq> Slot" "kind r = k"
  shows "maps_ok F (snd (hand_out F env err k r id s))"
  using assms by (auto simp: hand_out_def JABCPinTake_def maps_ok_def slot_ident_def Let_def)

lemma slot_out_ok:
  assumes laws: "filemap_laws F" and ok: "maps_ok F s" and fit: "gens_fit F s" and bk: "books F (want s) r"
  shows "maps_ok F (snd (slot_out F env err r s))"
proof -
  obtain o' b t' where r: "r = ((o', b), t')" by (metis prod.collapse)
  have un: "FILEUnMap F fd t = t(fd := None)" for fd t using laws by (simp add: filemap_laws_def)
  show ?thesis
  proof (cases "o' = OK")
    case False
    then have "t' = want s" using bk r by (simp add: books_def)
    then show ?thesis using False r ok by (simp add: slot_out_def)
  next
    case True
    then have fd: "bfd b < 2 ^ open_bits F" and free: "want s (bfd b) = None" and b0: "bbase b \<noteq> 0"
      and t': "t' = (want s)(bfd b \<mapsto> bbase b)" using bk r by (simp_all add: books_def)
    have rst: "(want s)(bfd b := None) = want s" using free by auto
    let ?s = "s\<lparr>want := t'\<rparr>"
    have fit': "gens_fit F ?s" using fit by (simp add: gens_fit_def)
    note bump = bump_ok [OF ok free] and book = book_ok [OF ok free fd]
    have si: "slot_ident F (?s\<lparr>MAP_GEN := g\<rparr>) x = slot_ident F (s\<lparr>MAP_GEN := g\<rparr>) x" for g x
      by (simp add: slot_ident_def)
    show ?thesis
      using True b0 bump book [OF refl] ok rst
      by (simp add: r slot_out_def Let_def JABCMapIdent_fits [OF fit' [unfolded t'] fd]
          hand_out_Slot un si [unfolded t'] t')
  qed
qed

subsection \<open>Reachable states\<close>

text \<open>
  Any sequence of mappings, early releases and finalizers, in any order the engine and the program
  choose, with allocation failures anywhere; no slot sees \<open>2 ^ (64 - bits)\<close> generations.
\<close>

inductive maps_reach :: "filemap \<Rightarrow> mapst \<Rightarrow> bool" for F where
  reach_init: "maps_reach F maps0"
| reach_mmap: "maps_reach F s \<Longrightarrow> gens_fit F s \<Longrightarrow>
    maps_reach F (snd (JABCioMmap F env err path mode sz s))"
| reach_ram: "maps_reach F s \<Longrightarrow> maps_reach F (snd (JABCioRam F env err dn s))"
| reach_munmap: "maps_reach F s \<Longrightarrow> maps_reach F (JABCioMunmap F b s)"
| reach_free: "maps_reach F s \<Longrightarrow> maps_reach F (finalize F r s)"

lemma JABCioMmap_ok:
  assumes laws: "filemap_laws F" and ok: "maps_ok F s" and fit: "gens_fit F s"
  shows "maps_ok F (snd (JABCioMmap F env err path mode sz s))"
proof -
  let ?s = "JABCPinSweep F (reap env) s"
  have s: "maps_ok F ?s" "gens_fit F ?s"
    using sweep_ok [OF laws ok, of "reap env"] fit by (simp_all add: gens_fit_def)
  have "maps_ok F (snd (slot_out F env err (FILEMapCreate F path n (want ?s)) ?s))" for n
    using laws s by (intro slot_out_ok) (simp_all add: filemap_laws_def)
  moreover have "maps_ok F (snd (slot_out F env err (FILEMapRW F path (want ?s)) ?s))"
    using laws s by (intro slot_out_ok) (simp_all add: filemap_laws_def)
  moreover have "maps_ok F (snd (once_out F env err (FILEMapOnce F path) ?s))"
    using hand_out_other_ok [OF s(1)] s(1) by (simp add: once_out_def split: prod.splits)
  moreover have "maps_ok F (snd (jbind (as_size sz)
      (\<lambda>n s. slot_out F env err (FILEMapCreate F path n (want s)) s) ?s))"
    using calculation(1) s(1) by (auto simp: as_size_def cast_or_undef_def jbind_def split: option.splits)
  ultimately show ?thesis using s(1) by (simp add: JABCioMmap_def Let_def)
qed

lemma JABCioRam_ok:
  assumes laws: "filemap_laws F" and ok: "maps_ok F s"
  shows "maps_ok F (snd (JABCioRam F env err dn s))"
proof -
  have s: "maps_ok F (JABCPinSweep F (reap env) s)" using sweep_ok [OF laws ok] by simp
  show ?thesis using hand_out_other_ok [OF s] s ok
    by (auto simp: JABCioRam_def as_size_def cast_or_undef_def jbind_def Let_def split: option.splits)
qed

lemma maps_reach_ok: "maps_reach F s \<Longrightarrow> filemap_laws F \<Longrightarrow> maps_ok F s"
proof (induction rule: maps_reach.induct)
  case (reach_munmap s b)
  then have ok: "maps_ok F s" by simp
  have "FILEUnMapBase F b (want s) = (\<lambda>fd. if want s fd = Some b then None else want s fd)"
    using reach_munmap.prems by (simp add: filemap_laws_def)
  with ok show ?case
    unfolding maps_ok_def JABCioMunmap_def slot_ident_def by (auto split: if_splits)
qed (simp_all add: maps_ok_init JABCioMmap_ok JABCioRam_ok finalize_ok)

section \<open>Properties\<close>

text \<open>A libabc for the closed instance: descriptor 3, base 4096, one page.\<close>

definition sample_filemap :: filemap where
  "sample_filemap = \<lparr>open_bits = 10,
     FILEMapCreate = (\<lambda>p n t. if t 3 = None then ((OK, \<lparr>bfd = 3, bbase = 4096, bdlen = 0, bilen = n\<rparr>), t(3 \<mapsto> 4096))
                              else ((OTHERFAIL, \<lparr>bfd = 0, bbase = 0, bdlen = 0, bilen = 0\<rparr>), t)),
     FILEMapRW = (\<lambda>p t. if t 3 = None then ((OK, \<lparr>bfd = 3, bbase = 4096, bdlen = 100, bilen = 0\<rparr>), t(3 \<mapsto> 4096))
                        else ((OTHERFAIL, \<lparr>bfd = 0, bbase = 0, bdlen = 0, bilen = 0\<rparr>), t)),
     FILEMapOnce = (\<lambda>p. (OK, 8192, 100)), mmap_anon = (\<lambda>n. Some 16384),
     FILEUnMap = (\<lambda>fd t. t(fd := None)),
     FILEUnMapBase = (\<lambda>b t fd. if t fd = Some b then None else t fd)\<rparr>"

lemma sample_filemap_laws: "filemap_laws sample_filemap"
  by (simp add: filemap_laws_def sample_filemap_def books_def)

definition plenty :: mapenv where
  "plenty = \<lparr>reap = [], rec_oom = False, view_oom = False\<rparr>"

text \<open>
  C5: a finalizer unmaps its own mapping or nothing.  Whatever mappings, early releases and
  finalizers ran before, and whichever descriptors were reused in between: when the finalizer of a
  "rw" or "c" array runs, a slot it empties is the one booked for that very array, and every other
  slot keeps its mapping.  A late finalizer of a released array touches no new tenant.
\<close>

theorem finalizer_frees_its_own:
  assumes "filemap_laws F" and "maps_reach F s" and "r \<in> set (lives s)" and "kind r = Slot"
    and "want (finalize F r s) fd \<noteq> want s fd"
  shows "want (finalize F r s) fd = None \<and> want s fd = Some (base r) \<and> ident r = slot_ident F s fd \<and>
    (\<forall>r' \<in> set (lives s). kind r' = Slot \<and> r' \<noteq> r \<longrightarrow> ident r' \<noteq> slot_ident F s fd) \<and>
    (\<forall>fd'. fd' \<noteq> fd \<longrightarrow> want (finalize F r s) fd' = want s fd')"
proof -
  have ok: "maps_ok F s" using assms(1,2) maps_reach_ok by blast
  let ?fd = "ident r mod 2 ^ open_bits F"
  have w: "want (finalize F r s) =
      (if want s ?fd = Some (base r) \<and> ident r = slot_ident F s ?fd then (want s)(?fd := None) else want s)"
    using finalize_Slot [OF ok assms(3,4)] assms(1) by (simp add: filemap_laws_def)
  then have own: "want s ?fd = Some (base r)" "ident r = slot_ident F s ?fd" and fd: "fd = ?fd"
    using assms(5) by (auto split: if_splits)
  have "ident r' \<noteq> slot_ident F s fd" if "r' \<in> set (lives s)" "kind r' = Slot" "r' \<noteq> r" for r'
    using distinct_ident_same [of "\<lambda>r. kind r = Slot" "lives s" r r'] that assms(3,4) ok own(2) fd
    unfolding maps_ok_def by metis
  with w own fd show ?thesis by auto
qed

theorem finalizer_frees_its_own_witness:
  "want (finalize sample_filemap \<lparr>kind = Slot, base = 4096, mlen = 100, ident = 1027\<rparr>
     (snd (JABCioMmap sample_filemap plenty ''e'' ''f'' ''rw'' NaN maps0))) 3 = None"
proof -
  let ?s = "snd (JABCioMmap sample_filemap plenty ''e'' ''f'' ''rw'' NaN maps0)"
  let ?r = "\<lparr>kind = Slot, base = 4096, mlen = 100, ident = 1027\<rparr>"
  have "gens_fit sample_filemap maps0" by (simp add: gens_fit_def sample_filemap_def maps0_def)
  then have "maps_reach sample_filemap ?s" by (intro reach_mmap reach_init)
  moreover have s: "lives ?s = [?r]" "want ?s 3 = Some 4096" "want (finalize sample_filemap ?r ?s) 3 = None"
    by (simp_all add: JABCioMmap_def JABCPinSweep_def maps0_def slot_out_def sample_filemap_def plenty_def
        hand_out_def JABCMapIdent_def JABCPinTake_def JABC_MAP_MAX_def finalize_def JABCMapFree_def
        JABCPinDrop_def JABC_PIN_MAPS_def JABC_PIN_FDS_def)
  ultimately show ?thesis
    using finalizer_frees_its_own [OF sample_filemap_laws, of ?s ?r 3] by simp
qed

text \<open>
  C23: the pin counters are exact and nothing leaks.  In every reachable state \<open>PIN_MAP\<close> is the
  number of mapped arrays not yet finalized and \<open>PIN_FD\<close> the number of those that hold a descriptor,
  so \<open>JABCPinSweep\<close> prices what it means to price; every booked slot has a living owner; and once
  the last array is finalized every slot is empty again.
\<close>

theorem pins_exact_no_leak:
  assumes "filemap_laws F" and "maps_reach F s"
  shows "PIN_MAP s = length (lives s) \<and> PIN_FD s = length (filter (\<lambda>r. kind r = Slot) (lives s)) \<and>
    (\<forall>fd b. want s fd = Some b \<longrightarrow>
       (\<exists>r \<in> set (lives s). kind r = Slot \<and> ident r = slot_ident F s fd \<and> base r = b)) \<and>
    (lives s = [] \<longrightarrow> (\<forall>fd. want s fd = None))"
proof -
  have ok: "maps_ok F s" using assms maps_reach_ok by blast
  then have "want s fd = None" if "lives s = []" for fd
    using that unfolding maps_ok_def by (cases "want s fd") auto
  with ok show ?thesis unfolding maps_ok_def by blast
qed

theorem pins_exact_no_leak_witness:
  "PIN_MAP (snd (JABCioRam sample_filemap plenty ''e'' (Fin 10) maps0)) = 1"
proof -
  let ?s = "snd (JABCioRam sample_filemap plenty ''e'' (Fin 10) maps0)"
  have "maps_reach sample_filemap ?s" by (intro reach_ram reach_init)
  from pins_exact_no_leak [OF sample_filemap_laws this]
  have "PIN_MAP ?s = length (lives ?s)" by blast
  also have "\<dots> = 1"
    by (simp add: JABCioRam_def as_size_def cast_or_undef_def c_cast_def JABCPinSweep_def maps0_def
        sample_filemap_def plenty_def hand_out_def JABCPinTake_def JABC_MAP_MAX_def js_nat_def Let_def
        JABC_PIN_MAPS_def JABC_PIN_FDS_def)
  finally show ?thesis .
qed

end
