(* ===== verification/Readdir.thy ===== *)
theory Readdir
  imports Io
begin

text \<open>
  \<open>io.readdir\<close>: one entry point over libabc's directory scans, which call back once per entry with
  the full path of the entry.  The two scans are parameters that take the callback; what the code
  relies on is \<open>scan_law\<close>: the entries of the directory are delivered in order until a callback
  answers with a code that is neither \<open>OK\<close> nor \<open>FILESKIP\<close>, or the scan itself fails, and a path is
  copied when it fits and does not end in a slash.  The nested descent of "recur" re-enters
  the one-level scan, at most 64 deep, which is what the recursion of the model runs on.
\<close>

section \<open>State\<close>

record rdctx =
  rd_arr :: "string list"
  rd_rootlen :: nat
  rd_recursive :: bool
  rd_hidden :: bool
  rd_stop :: bool
  rd_threw :: "exn option"

type_synonym 'w scb = "string \<Rightarrow> 'w \<times> rdctx \<Rightarrow> ok64 \<times> ('w \<times> rdctx)"

record 'w scans =
  FILEScanDir :: "string \<Rightarrow> 'w scb \<Rightarrow> 'w \<times> rdctx \<Rightarrow> ok64 \<times> ('w \<times> rdctx)"
  FILEDeepScanDir :: "string \<Rightarrow> 'w scb \<Rightarrow> 'w \<times> rdctx \<Rightarrow> ok64 \<times> ('w \<times> rdctx)"
  path_dup :: "string \<Rightarrow> ok64"                \<comment> \<open>\<open>PATHu8bDup\<close> into a path buffer\<close>
  path_feed :: "string \<Rightarrow> string \<Rightarrow> ok64"     \<comment> \<open>\<open>PATHu8bFeed\<close>, more bytes after a path\<close>
  path_base :: "string \<Rightarrow> string"             \<comment> \<open>\<open>PATHu8sBase\<close>\<close>
  drain_jobs :: "'w \<Rightarrow> 'w"

definition JABC_READDIR_MAX_DEPTH :: nat where "JABC_READDIR_MAX_DEPTH = 64"

section \<open>Entries\<close>

definition drop_slash :: "string \<Rightarrow> string" where
  "drop_slash s = (if s \<noteq> [] \<and> last s = CHR 0x2F then butlast s else s)"

text \<open>The name relative to the scanned root, a directory's trailing slash kept.\<close>

definition JABCReaddirRel :: "'w scans \<Rightarrow> string \<Rightarrow> nat \<Rightarrow> ok64 + string" where
  "JABCReaddirRel D full rootlen =
     (if length full \<le> rootlen + 1 then Inl NODATA
      else let rel = drop (rootlen + 1) full; bare = drop_slash rel in
        if bare = [] then Inl NODATA
        else if path_dup D bare \<noteq> OK then Inl (path_dup D bare)
        else if bare = rel then Inr bare
        else if path_feed D bare ''/'' \<noteq> OK then Inl (path_feed D bare ''/'')
        else Inr (bare @ ''/''))"

definition JABCReaddirIsHidden :: "'w scans \<Rightarrow> string \<Rightarrow> bool" where
  "JABCReaddirIsHidden D full =
     (let b = path_base D (drop_slash full) in b \<noteq> [] \<and> hd b = CHR ''.'')"

definition JABCReaddirEmit :: "'w scans \<Rightarrow> 'w scb" where
  "JABCReaddirEmit D path = (\<lambda>(w, c).
     if \<not> rd_hidden c \<and> JABCReaddirIsHidden D path then (FILESKIP, (w, c))
     else case JABCReaddirRel D path (rd_rootlen c) of
       Inl e \<Rightarrow> (if e = NODATA then OK else e, (w, c))
     | Inr rel \<Rightarrow> (OK, (w, c\<lparr>rd_arr := rd_arr c @ [rel]\<rparr>)))"

text \<open>What a callback's value directs: the code, and whether to descend.\<close>

definition JABCReaddirDirective :: "jsval \<Rightarrow> rdctx \<Rightarrow> ok64 \<times> bool \<times> rdctx" where
  "JABCReaddirDirective r c =
     (if is_str r then
        let tag = JABCWord 8 '''' r in
        if tag = ''enough'' then (JABCSCANSTOP, False, c\<lparr>rd_stop := True\<rparr>)
        else if tag = ''recur'' then (OK, True, c)
        else if tag = ''skip'' then (FILESKIP, False, c)
        else (OK, False, c)
      else if r \<noteq> JUndef \<and> \<not> to_bool r then (JABCSCANSTOP, False, c\<lparr>rd_stop := True\<rparr>)
      else (OK, False, c))"

text \<open>
  The callback form.  \<open>descend\<close> is the nested scan "recur" asks for, \<open>None\<close> at the deepest level.
\<close>

definition readdir_entry ::
    "'w scans \<Rightarrow> (string \<Rightarrow> ('w, jsval) js) \<Rightarrow> (string \<Rightarrow> 'w \<times> rdctx \<Rightarrow> ok64 \<times> ('w \<times> rdctx)) option \<Rightarrow> 'w scb" where
  "readdir_entry D cb descend path = (\<lambda>(w, c).
     if \<not> rd_hidden c \<and> JABCReaddirIsHidden D path then (FILESKIP, (w, c))
     else case JABCReaddirRel D path (rd_rootlen c) of
       Inl e \<Rightarrow> (if e = NODATA then OK else e, (w, c))
     | Inr rel \<Rightarrow>
         (case cb rel w of
            (Inl e, w1) \<Rightarrow> (JABCSCANSTOP, (w1, c\<lparr>rd_threw := Some e\<rparr>))
          | (Inr r, w1) \<Rightarrow>
              let w2 = drain_jobs D w1 in
              (case JABCReaddirDirective r c of (o', recur, c1) \<Rightarrow>
                 if o' \<noteq> OK then (o', (w2, c1))
                 else if recur \<and> \<not> rd_recursive c1 then
                   (case descend of
                      None \<Rightarrow> (JABCSCANSTOP, (w2, c1\<lparr>rd_threw :=
                        Some (ThrowStr ''io.readdir(): \"recur\" nests deeper than 64'')\<rparr>))
                    | Some scan \<Rightarrow>
                        (case path_dup D path of OK \<Rightarrow> scan path (w2, c1) | e \<Rightarrow> (e, (w2, c1))))
                 else (OK, (w2, c1)))))"

text \<open>\<open>left\<close> is how many more levels may open: 64 less the depth counter of the code.\<close>

primrec JABCReaddirCall :: "nat \<Rightarrow> 'w scans \<Rightarrow> (string \<Rightarrow> ('w, jsval) js) \<Rightarrow> 'w scb" where
  "JABCReaddirCall 0 D cb = readdir_entry D cb None"
| "JABCReaddirCall (Suc left) D cb =
     readdir_entry D cb (Some (\<lambda>p. FILEScanDir D p (JABCReaddirCall left D cb)))"

section \<open>The leaf\<close>

text \<open>An option: a getter that throws reads as false, and its exception is not looked at.\<close>

definition JABCReaddirOptBool :: "'w engine \<Rightarrow> jsval \<Rightarrow> string \<Rightarrow> 'w \<Rightarrow> bool \<times> 'w" where
  "JABCReaddirOptBool E opts key w =
     (case get_prop E opts key w of (Inl e, w') \<Rightarrow> (False, w') | (Inr v, w') \<Rightarrow> (to_bool v, w'))"

text \<open>The second argument: callback, recursive, hidden.\<close>

definition readdir_opts :: "'w engine \<Rightarrow> jsval list \<Rightarrow> ('w, jsval option \<times> bool \<times> bool) js" where
  "readdir_opts E argv = (\<lambda>w.
     if length argv < 2 \<or> argv ! 1 = JUndef \<or> argv ! 1 = JNull then (Inr (None, False, False), w)
     else if \<not> is_obj (argv ! 1)
     then (Inl (ThrowError ''io.readdir(): 2nd arg must be a function or an options object''), w)
     else if is_callable E w (argv ! 1) then (Inr (Some (argv ! 1), False, False), w)
     else case JABCReaddirOptBool E (argv ! 1) ''recursive'' w of (recursive, w1) \<Rightarrow>
          case JABCReaddirOptBool E (argv ! 1) ''hidden'' w1 of (hidden, w2) \<Rightarrow>
          case get_prop E (argv ! 1) ''callback'' w2 of
            (Inl e, w3) \<Rightarrow> (Inr (None, recursive, hidden), w3)
          | (Inr cbv, w3) \<Rightarrow>
              (Inr (if is_callable E w3 cbv then Some cbv else None, recursive, hidden), w3))"

definition JABCioReaddir :: "'w engine \<Rightarrow> abc \<Rightarrow> 'w sys \<Rightarrow> 'w scans \<Rightarrow> jsval list \<Rightarrow> ('w, jout) js" where
  "JABCioReaddir E A S D argv =
     need 1 ''io.readdir(path[, fn|{recursive,callback,hidden}])'' argv
     (jbind (path_or A ''io.readdir(): bad path'' (argv ! 0)) (\<lambda>path.
      jbind (readdir_opts E argv) (\<lambda>(cb, recursive, hidden) w.
        let c = \<lparr>rd_arr = [], rd_rootlen = length path, rd_recursive = recursive, rd_hidden = hidden,
                 rd_stop = False, rd_threw = None\<rparr>;
            scan = (if recursive then FILEDeepScanDir D else FILEScanDir D) in
        case cb of
          Some f \<Rightarrow>
            (case scan path (JABCReaddirCall JABC_READDIR_MAX_DEPTH D (\<lambda>name. call_fn E f [JStr name])) (w, c) of
               (o', (w', c')) \<Rightarrow>
                 (case rd_threw c' of
                    Some e \<Rightarrow> (Inl e, w')
                  | None \<Rightarrow> if o' \<noteq> OK \<and> o' \<noteq> JABCSCANSTOP then (Inl (ThrowError (strerror S w')), w')
                            else (Inr (JVal JUndef), w')))
        | None \<Rightarrow>
            (case scan path (JABCReaddirEmit D) (w, c) of
               (o', (w', c')) \<Rightarrow>
                 if o' \<noteq> OK then (Inl (ThrowError (strerror S w')), w')
                 else (Inr (JArr (map JStr (rd_arr c'))), w')))))"

section \<open>The scan\<close>

text \<open>A scan that delivers the entries \<open>xs\<close> and then ends with the code \<open>fin\<close>.\<close>

fun scan_list :: "string list \<Rightarrow> ok64 \<Rightarrow> 'w scb \<Rightarrow> 'w \<times> rdctx \<Rightarrow> ok64 \<times> ('w \<times> rdctx)" where
  "scan_list [] fin cb s = (fin, s)"
| "scan_list (x # xs) fin cb s =
     (case cb x s of (o', s') \<Rightarrow> if o' = OK \<or> o' = FILESKIP then scan_list xs fin cb s' else (o', s'))"

definition slashed :: "string \<Rightarrow> bool" where
  "slashed p \<longleftrightarrow> p \<noteq> [] \<and> last p = CHR 0x2F"

text \<open>
  \<open>names w p\<close> is what a scan of the directory \<open>p\<close> comes to: the entries it delivers, a directory's
  name with a slash after it, and the code it ends with when no callback stops it: \<open>OK\<close> for the whole
  directory, another code when it cannot be opened or read on.  An entry is delivered under its full
  path, which fits the path buffer.  This is said of roots that do not end in a slash and of callbacks
  that leave the world alone.  A path is copied into a path buffer when it fits and does not end in a
  slash; nothing is said of one that does (\<open>PATHu8bPush\<close> rejects it, as \<open>io.c\<close> notes).  The base name is
  what follows the last slash.
\<close>

definition scan_law :: "'w scans \<Rightarrow> nat \<Rightarrow> ('w \<Rightarrow> string \<Rightarrow> string list \<times> ok64) \<Rightarrow> bool" where
  "scan_law D room names \<longleftrightarrow>
     (\<forall>p cb w c. \<not> slashed p \<longrightarrow> (\<forall>x w' c'. fst (snd (cb x (w', c'))) = w') \<longrightarrow>
        FILEScanDir D p cb (w, c) =
          (case names w p of (ns, fin) \<Rightarrow> scan_list (map (\<lambda>n. p @ ''/'' @ n) ns) fin cb (w, c))) \<and>
     (\<forall>p. p \<noteq> [] \<longrightarrow> \<not> slashed p \<longrightarrow> length p < room \<longrightarrow> path_dup D p = OK) \<and>
     (\<forall>p q. length p + length q < room \<longrightarrow> path_feed D p q = OK) \<and>
     (\<forall>p n. CHR 0x2F \<notin> set n \<longrightarrow> path_base D (p @ ''/'' @ n) = n) \<and>
     (\<forall>w p n. n \<in> set (fst (names w p)) \<longrightarrow>
        drop_slash n \<noteq> [] \<and> CHR 0x2F \<notin> set (drop_slash n) \<and> length (p @ ''/'' @ n) < room)"

definition dotted :: "string \<Rightarrow> bool" where
  "dotted n \<longleftrightarrow> n \<noteq> [] \<and> hd n = CHR ''.''"

lemma drop_slash_cases: "drop_slash n = n \<or> n = drop_slash n @ ''/''"
  by (auto simp: drop_slash_def) (metis append_butlast_last_id)

lemma drop_slash_append: "n \<noteq> [] \<Longrightarrow> drop_slash (p @ n) = p @ drop_slash n"
  by (simp add: drop_slash_def butlast_append)

lemma Rel_entry:
  assumes law: "scan_law D room names" and n: "n \<in> set (fst (names w p))"
  shows "JABCReaddirRel D (p @ ''/'' @ n) (length p) = Inr n"
    "JABCReaddirIsHidden D (p @ ''/'' @ n) \<longleftrightarrow> dotted n"
proof -
  let ?b = "drop_slash n"
  have b: "?b \<noteq> []" "CHR 0x2F \<notin> set ?b" and fits: "length n < room"
    using law n unfolding scan_law_def by fastforce+
  have "\<not> slashed ?b" using b by (auto simp: slashed_def dest: last_in_set)
  moreover have "length ?b < room" using fits by (auto simp: drop_slash_def)
  ultimately have dup: "path_dup D ?b = OK" using law b(1) unfolding scan_law_def by blast
  have ne: "n \<noteq> []" using b by (auto simp: drop_slash_def)
  show "JABCReaddirRel D (p @ ''/'' @ n) (length p) = Inr n"
  proof (cases "?b = n")
    case True
    with b dup ne show ?thesis by (simp add: JABCReaddirRel_def Let_def)
  next
    case False
    then have split: "n = ?b @ ''/''" using drop_slash_cases [of n] by simp
    then have "length ?b + length ''/'' < room" using fits by (metis length_append)
    then have "path_feed D ?b ''/'' = OK" using law unfolding scan_law_def by blast
    with b dup ne False split show ?thesis by (simp add: JABCReaddirRel_def Let_def)
  qed
  have "drop_slash (p @ ''/'' @ n) = p @ ''/'' @ ?b"
    using ne drop_slash_append [of "''/'' @ n" p] drop_slash_append [of n "''/''"] by simp
  moreover have "path_base D (p @ ''/'' @ ?b) = ?b"
    using law b(2) unfolding scan_law_def by blast
  moreover have "hd ?b = hd n"
    using b(1) drop_slash_cases [of n] by (metis hd_append2)
  ultimately show "JABCReaddirIsHidden D (p @ ''/'' @ n) \<longleftrightarrow> dotted n"
    using b(1) ne by (simp add: JABCReaddirIsHidden_def dotted_def Let_def)
qed

lemma Emit_still: "fst (snd (JABCReaddirEmit D x (w, c))) = w"
  by (simp add: JABCReaddirEmit_def split: sum.split)

lemma Emit_list:
  assumes "scan_law D room names" "set ns \<subseteq> set (fst (names w p))" "rd_rootlen c = length p" "\<not> rd_hidden c"
  shows "scan_list (map (\<lambda>n. p @ ''/'' @ n) ns) fin (JABCReaddirEmit D) (w, c) =
    (fin, (w, c\<lparr>rd_arr := rd_arr c @ filter (\<lambda>n. \<not> dotted n) ns\<rparr>))"
  using assms(2-)
proof (induction ns arbitrary: c)
  case (Cons n ns)
  have n: "n \<in> set (fst (names w p))" using Cons.prems(1) by simp
  let ?c = "if dotted n then c else c\<lparr>rd_arr := rd_arr c @ [n]\<rparr>"
  have "JABCReaddirEmit D (p @ ''/'' @ n) (w, c) = (if dotted n then FILESKIP else OK, (w, ?c))"
    using Rel_entry [OF assms(1) n] Cons.prems(2,3) by (simp add: JABCReaddirEmit_def)
  moreover have "scan_list (map (\<lambda>n. p @ ''/'' @ n) ns) fin (JABCReaddirEmit D) (w, ?c) =
      (fin, (w, ?c\<lparr>rd_arr := rd_arr ?c @ filter (\<lambda>n. \<not> dotted n) ns\<rparr>))"
    using Cons.prems by (intro Cons.IH) auto
  ultimately show ?case by simp
qed simp

section \<open>Properties\<close>

definition sample_dir :: "string \<Rightarrow> string list \<times> ok64" where
  "sample_dir p = (if length p < 100 then ([''a'', ''.git/'', ''sub/''], OK) else ([], NODATA))"

definition sample_scans :: "'w scans" where
  "sample_scans = \<lparr>
     FILEScanDir = (\<lambda>p cb s. case sample_dir p of (ns, fin) \<Rightarrow> scan_list (map (\<lambda>n. p @ ''/'' @ n) ns) fin cb s),
     FILEDeepScanDir = (\<lambda>p cb s. (OK, s)),
     path_dup = (\<lambda>p. if p \<noteq> [] \<and> \<not> slashed p \<and> length p < 200 then OK else NODATA),
     path_feed = (\<lambda>p q. if length p + length q < 200 then OK else NODATA),
     path_base = (\<lambda>p. rev (takeWhile (\<lambda>c. c \<noteq> CHR 0x2F) (rev p))), drain_jobs = id\<rparr>"

lemma sample_scan_law: "scan_law sample_scans 200 (\<lambda>w. sample_dir)"
proof -
  have "takeWhile (\<lambda>c. c \<noteq> CHR 0x2F) (rev n @ CHR 0x2F # rev p) = rev n" if "CHR 0x2F \<notin> set n"
    for n p :: string
    using that by (subst takeWhile_append2) auto
  then show ?thesis by (auto simp: scan_law_def sample_scans_def sample_dir_def drop_slash_def)
qed

text \<open>
  C24: the one-level array form lists the directory.  For a root that does not end in a slash,
  \<open>io.readdir (path)\<close> returns the names of the entries in the order of the scan, each relative to the
  directory, a directory marked by its trailing slash, and the ones that start with a dot left out; when
  the scan fails, at once or half way, it throws and returns no part of the list.  Either way it
  changes nothing.
\<close>

theorem readdir_lists_the_directory:
  assumes "scan_law D room names" and "JABCPath A v = Inr path" and "\<not> slashed path"
  shows "JABCioReaddir E A S D [v] w =
    (if snd (names w path) = OK
     then Inr (JArr (map JStr (filter (\<lambda>n. \<not> dotted n) (fst (names w path)))))
     else Inl (ThrowError (strerror S w)), w)"
proof -
  let ?c = "\<lparr>rd_arr = [], rd_rootlen = length path, rd_recursive = False, rd_hidden = False,
             rd_stop = False, rd_threw = None\<rparr>"
  obtain ns fin where names: "names w path = (ns, fin)" by (cases "names w path")
  have "FILEScanDir D path (JABCReaddirEmit D) (w, ?c) =
      scan_list (map (\<lambda>n. path @ ''/'' @ n) ns) fin (JABCReaddirEmit D) (w, ?c)"
    using assms(1,3) Emit_still [of D] names unfolding scan_law_def by fastforce
  also have "\<dots> = (fin, (w, ?c\<lparr>rd_arr := filter (\<lambda>n. \<not> dotted n) ns\<rparr>))"
    using Emit_list [OF assms(1), of ns w path ?c fin] names by simp
  finally show ?thesis
    using assms(2) names by (simp add: JABCioReaddir_def path_or_def readdir_opts_def Let_def)
qed

theorem readdir_lists_the_directory_witness:
  "\<forall>S w. JABCioReaddir sample_engine sample_abc S sample_scans [JStr ''d''] w =
     (Inr (JArr [JStr ''a'', JStr ''sub/'']), w)"
proof -
  have "JABCPath sample_abc (JStr ''d'') = Inr ''d''" by (simp add: JABCPath_def sample_abc_def)
  from readdir_lists_the_directory [OF sample_scan_law this, of sample_engine]
  have "JABCioReaddir sample_engine sample_abc S sample_scans [JStr ''d''] w =
      (Inr (JArr [JStr ''a'', JStr ''sub/'']), w)" for S w by (simp add: dotted_def slashed_def sample_dir_def)
  then show ?thesis by blast
qed

text \<open>
  An answer of the callback that stops the scan stops it there.  When a callback throws or
  answers "enough" or a falsy value other than undefined, the entry ends with the private stop code
  (so no later entry of the scan is delivered), the exception if any is kept to be thrown, and the
  callback has run exactly once for the entry.
\<close>

theorem readdir_callback_stops:
  assumes "rd_hidden c \<or> \<not> JABCReaddirIsHidden D path"
    and "JABCReaddirRel D path (rd_rootlen c) = Inr rel"
    and "cb rel w = (r, w1)"
    and "\<And>v. r = Inr v \<Longrightarrow> v = JStr ''enough'' \<or> \<not> is_str v \<and> v \<noteq> JUndef \<and> \<not> to_bool v"
  shows "\<exists>w2 c2. JABCReaddirCall left D cb path (w, c) = (JABCSCANSTOP, (w2, c2)) \<and>
    (\<forall>e. r = Inl e \<longrightarrow> rd_threw c2 = Some e \<and> w2 = w1) \<and>
    (\<forall>v. r = Inr v \<longrightarrow> rd_stop c2 \<and> rd_threw c2 = rd_threw c \<and> w2 = drain_jobs D w1) \<and>
    (\<forall>xs fin. scan_list (path # xs) fin (JABCReaddirCall left D cb) (w, c) = (JABCSCANSTOP, (w2, c2)))"
proof -
  have "\<exists>w2 c2. readdir_entry D cb d path (w, c) = (JABCSCANSTOP, (w2, c2)) \<and>
    (\<forall>e. r = Inl e \<longrightarrow> rd_threw c2 = Some e \<and> w2 = w1) \<and>
    (\<forall>v. r = Inr v \<longrightarrow> rd_stop c2 \<and> rd_threw c2 = rd_threw c \<and> w2 = drain_jobs D w1)" for d
  proof (cases r)
    case (Inl e)
    then show ?thesis using assms(1-3) by (auto simp: readdir_entry_def)
  next
    case (Inr v)
    then have "JABCReaddirDirective v c = (JABCSCANSTOP, False, c\<lparr>rd_stop := True\<rparr>)"
      using assms(4) [OF Inr] by (auto simp: JABCReaddirDirective_def JABCWord_def)
    then show ?thesis using assms(1-3) Inr by (auto simp: readdir_entry_def Let_def)
  qed
  then show ?thesis by (cases left) fastforce+
qed

theorem readdir_callback_stops_witness:
  "\<exists>w2 c2. JABCReaddirCall 3 sample_scans (\<lambda>n w. (Inr (JBool False), w + 1)) ''d/a'' (0 :: nat,
     \<lparr>rd_arr = [], rd_rootlen = 1, rd_recursive = False, rd_hidden = False, rd_stop = False,
      rd_threw = None\<rparr>) = (JABCSCANSTOP, (w2, c2)) \<and> w2 = 1"
proof -
  let ?c = "\<lparr>rd_arr = [], rd_rootlen = 1, rd_recursive = False, rd_hidden = False, rd_stop = False,
      rd_threw = None\<rparr>"
  let ?cb = "\<lambda>n w :: nat. (Inr (JBool False), w + 1) :: (exn + jsval) \<times> nat"
  have h: "rd_hidden ?c \<or> \<not> JABCReaddirIsHidden sample_scans ''d/a''"
    by (simp add: JABCReaddirIsHidden_def sample_scans_def drop_slash_def)
  have r: "JABCReaddirRel sample_scans ''d/a'' (rd_rootlen ?c) = Inr ''a''"
    by (simp add: JABCReaddirRel_def sample_scans_def drop_slash_def slashed_def Let_def)
  have cb: "?cb ''a'' 0 = (Inr (JBool False), 1)" by simp
  from readdir_callback_stops [OF h r, of ?cb 0, OF cb, of 3] show ?thesis
    by (fastforce simp: sample_scans_def)
qed

end
