(* ===== verification/Paths.thy ===== *)
theory Paths
  imports Prelude
begin

text \<open>
  The path arithmetic of \<open>require.c\<close>: \<open>normalize\<close>, \<open>dirname\<close>, \<open>isExplicit\<close>, and what they promise.
  A string is the list of its characters.
\<close>

section \<open>Splitting and joining\<close>

abbreviation slash :: char where "slash \<equiv> CHR 0x2F"

text \<open>\<open>p.split ("/")\<close>: never empty, the pieces between the slashes.\<close>

fun split_slash :: "string \<Rightarrow> string list" where
  "split_slash [] = [[]]"
| "split_slash (c # cs) =
     (if c = slash then [] # split_slash cs
      else case split_slash cs of [] \<Rightarrow> [[c]] | s # ss \<Rightarrow> (c # s) # ss)"

text \<open>\<open>out.join ("/")\<close>.\<close>

fun join_slash :: "string list \<Rightarrow> string" where
  "join_slash [] = []"
| "join_slash [s] = s"
| "join_slash (s # t # ss) = s @ slash # join_slash (t # ss)"

section \<open>normalize, dirname, isExplicit\<close>

definition is_abs :: "string \<Rightarrow> bool" where
  "is_abs p \<longleftrightarrow> p \<noteq> [] \<and> hd p = slash"

definition norm_step :: "bool \<Rightarrow> string list \<Rightarrow> string \<Rightarrow> string list" where
  "norm_step ab out s =
     (if s = [] \<or> s = ''.'' then out
      else if s = ''..'' then
        (if out \<noteq> [] \<and> last out \<noteq> ''..'' then butlast out
         else if \<not> ab then out @ [''..''] else out)
      else out @ [s])"

definition norm_parts :: "string \<Rightarrow> string list" where
  "norm_parts p = foldl (norm_step (is_abs p)) [] (split_slash p)"

definition normalize :: "string \<Rightarrow> string" where
  "normalize p = (if is_abs p then ''/'' else []) @ join_slash (norm_parts p)"

text \<open>\<open>lastIndexOf\<close> is -1 when there is none, here \<open>None\<close>.\<close>

fun last_slash :: "string \<Rightarrow> nat option" where
  "last_slash [] = None"
| "last_slash (c # cs) =
     (case last_slash cs of Some i \<Rightarrow> Some (Suc i) | None \<Rightarrow> if c = slash then Some 0 else None)"

definition dirname :: "string \<Rightarrow> string" where
  "dirname p = (case last_slash p of None \<Rightarrow> ''.'' | Some i \<Rightarrow> if i = 0 then ''/'' else take i p)"

definition isExplicit :: "string \<Rightarrow> bool" where
  "isExplicit spec \<longleftrightarrow> is_abs spec \<or> take 2 spec = ''./'' \<or> take 3 spec = ''../''"

section \<open>Lemmas\<close>

lemma split_slash_ne [simp]: "split_slash p \<noteq> []"
  by (induction p) (auto split: list.splits)

lemma split_slash_no_slash: "s \<in> set (split_slash p) \<Longrightarrow> slash \<notin> set s"
  by (induction p arbitrary: s) (auto split: list.splits if_splits)

lemma split_single: "slash \<notin> set s \<Longrightarrow> split_slash s = [s]"
  by (induction s) auto

lemma split_append: "split_slash (p @ slash # q) = split_slash p @ split_slash q"
  by (induction p) (auto split: list.splits)

lemma split_join:
  "ss \<noteq> [] \<Longrightarrow> (\<And>s. s \<in> set ss \<Longrightarrow> slash \<notin> set s) \<Longrightarrow> split_slash (join_slash ss) = ss"
  by (induction ss rule: join_slash.induct) (auto simp: split_single split_append)

lemma join_split [simp]: "join_slash (split_slash p) = p"
proof (induction p)
  case (Cons c cs)
  then show ?case by (cases "split_slash cs"; cases "tl (split_slash cs)") auto
qed simp

lemma join_append: "ss \<noteq> [] \<Longrightarrow> ts \<noteq> [] \<Longrightarrow> join_slash (ss @ ts) = join_slash ss @ slash # join_slash ts"
  by (induction ss rule: join_slash.induct) (auto simp: neq_Nil_conv)

text \<open>A component that \<open>normalize\<close> keeps.\<close>

definition proper :: "string \<Rightarrow> bool" where
  "proper s \<longleftrightarrow> s \<noteq> [] \<and> s \<noteq> ''.'' \<and> slash \<notin> set s"

text \<open>The result of normalizing: some \<open>..\<close> in front (none for an absolute path), then plain names.\<close>

definition normal_parts :: "bool \<Rightarrow> string list \<Rightarrow> bool" where
  "normal_parts ab out \<longleftrightarrow>
     (\<forall>s \<in> set out. proper s) \<and>
     (\<exists>n ns. out = replicate n ''..'' @ ns \<and> ''..'' \<notin> set ns \<and> (ab \<longrightarrow> n = 0))"

lemma normal_step:
  assumes "normal_parts ab out" "slash \<notin> set s"
  shows "normal_parts ab (norm_step ab out s)"
proof -
  from assms(1) obtain n ns where o: "out = replicate n ''..'' @ ns" "''..'' \<notin> set ns" "ab \<longrightarrow> n = 0"
    and p: "\<forall>s \<in> set out. proper s" by (auto simp: normal_parts_def)
  show ?thesis
  proof (cases "s = ''..''")
    case False
    have "replicate n ''..'' @ ns @ [s] = replicate n ''..'' @ (ns @ [s])" by simp
    then show ?thesis using False o p assms(2) unfolding norm_step_def normal_parts_def proper_def
      by (auto intro!: exI [of _ n])
  next
    case True
    show ?thesis
    proof (cases ns rule: rev_cases)
      case Nil
      have "norm_step ab out s = (if ab then [] else replicate (Suc n) ''..'')"
      proof (cases n)
        case 0
        then show ?thesis using True o Nil by (simp add: norm_step_def)
      next
        case (Suc k)
        then have "out \<noteq> []" "last out = ''..''" "\<not> ab" using o Nil by auto
        then show ?thesis using True o Nil by (simp add: norm_step_def replicate_append_same)
      qed
      moreover have "normal_parts False (replicate k ''..'')" for k
        by (auto simp: normal_parts_def proper_def intro: exI [of _ k])
      moreover have "normal_parts True []" by (simp add: normal_parts_def)
      ultimately show ?thesis by (cases ab) (simp_all del: replicate_Suc)
    next
      case (snoc ms m)
      then show ?thesis using True o p unfolding norm_step_def normal_parts_def
        by (auto simp: butlast_append intro!: exI [of _ n])
    qed
  qed
qed

lemma normal_fold:
  "normal_parts ab out \<Longrightarrow> (\<And>s. s \<in> set ss \<Longrightarrow> slash \<notin> set s) \<Longrightarrow>
   normal_parts ab (foldl (norm_step ab) out ss)"
  by (induction ss arbitrary: out) (auto simp: normal_step)

lemma normal_norm_parts: "normal_parts (is_abs p) (norm_parts p)"
  unfolding norm_parts_def
  by (rule normal_fold) (auto simp: normal_parts_def split_slash_no_slash)

text \<open>Folding over parts that are normal already just appends them.\<close>

lemma fold_normal:
  assumes "normal_parts ab (out @ ss)"
  shows "foldl (norm_step ab) out ss = out @ ss"
  using assms
proof (induction ss arbitrary: out)
  case (Cons s ss)
  have np: "normal_parts ab ((out @ [s]) @ ss)" using Cons.prems by simp
  have "norm_step ab out s = out @ [s]"
  proof (cases "s = ''..''")
    case False
    then show ?thesis using Cons.prems by (auto simp: norm_step_def normal_parts_def proper_def)
  next
    case True
    from Cons.prems obtain n ns where o: "out @ s # ss = replicate n ''..'' @ ns" "''..'' \<notin> set ns"
      "ab \<longrightarrow> n = 0" by (auto simp: normal_parts_def)
    have "length out < n"
    proof (rule ccontr)
      assume "\<not> length out < n"
      then have "(out @ s # ss) ! length out = ns ! (length out - n)"
        unfolding o(1) by (simp add: nth_append)
      moreover have "length out - n < length ns"
        using arg_cong [OF o(1), of length] \<open>\<not> length out < n\<close> by simp
      ultimately show False using True o(2) by (metis nth_append_length nth_mem)
    qed
    have "out = take (length out) (out @ s # ss)" by simp
    also have "\<dots> = take (length out) (replicate n ''..'' @ ns)" by (simp only: o(1))
    also have "\<dots> = replicate (length out) ''..''" using \<open>length out < n\<close> by simp
    finally have "out = replicate (length out) ''..''" .
    then have "out = [] \<or> last out = ''..''" using last_replicate [of "length out" "''..''"] by auto
    moreover have "\<not> ab" using o(3) \<open>length out < n\<close> by auto
    ultimately show ?thesis using True by (auto simp: norm_step_def)
  qed
  then show ?case using Cons.IH [OF np] by simp
qed simp

lemma join_empty_iff: "(\<And>s. s \<in> set ss \<Longrightarrow> s \<noteq> []) \<Longrightarrow> join_slash ss = [] \<longleftrightarrow> ss = []"
  by (cases ss rule: join_slash.cases) auto

lemma norm_parts_rel: "(\<And>s. s \<in> set ss \<Longrightarrow> proper s) \<Longrightarrow> \<not> is_abs (join_slash ss)"
proof -
  assume p: "\<And>s. s \<in> set ss \<Longrightarrow> proper s"
  have "hd (join_slash (s # ts)) = hd s" if "s \<noteq> []" for s ts
    using that by (cases ts) auto
  moreover have "s \<noteq> [] \<and> hd s \<noteq> slash" if "s \<in> set ss" for s
    using p [OF that] by (metis hd_in_set proper_def)
  ultimately show ?thesis by (cases ss) (auto simp: is_abs_def)
qed

lemma norm_step_Nil [simp]: "norm_step ab out [] = out"
  by (simp add: norm_step_def)

lemma norm_parts_abs:
  assumes "normal_parts True ss"
  shows "norm_parts (''/'' @ join_slash ss) = ss"
proof (cases "ss = []")
  case False
  have "split_slash (''/'' @ join_slash ss) = [] # ss"
    using assms False by (simp add: split_join normal_parts_def proper_def)
  then show ?thesis using fold_normal [of True "[]" ss] assms
    by (simp add: norm_parts_def is_abs_def)
qed (simp add: norm_parts_def is_abs_def)

lemma norm_parts_join:
  assumes "normal_parts False ss"
  shows "norm_parts (join_slash ss) = ss" "\<not> is_abs (join_slash ss)"
proof -
  show r: "\<not> is_abs (join_slash ss)" using assms by (intro norm_parts_rel) (auto simp: normal_parts_def)
  show "norm_parts (join_slash ss) = ss"
  proof (cases "ss = []")
    case False
    then have "split_slash (join_slash ss) = ss"
      using assms by (intro split_join) (auto simp: normal_parts_def proper_def)
    then show ?thesis using r fold_normal [of False "[]" ss] assms by (simp add: norm_parts_def)
  qed (simp add: norm_parts_def)
qed

lemma normalize_idem: "normalize (normalize p) = normalize p"
proof (cases "is_abs p")
  case True
  then have "normal_parts True (norm_parts p)" using normal_norm_parts [of p] by simp
  from norm_parts_abs [OF this] True show ?thesis
    by (simp add: normalize_def) (simp add: is_abs_def)
next
  case False
  then have "normal_parts False (norm_parts p)" using normal_norm_parts [of p] by simp
  from norm_parts_join [OF this] False show ?thesis by (simp add: normalize_def)
qed

section \<open>Paths under a base\<close>

text \<open>An absolute path as \<open>normalize\<close> writes it, other than the root.\<close>

definition clean_base :: "string \<Rightarrow> bool" where
  "clean_base b \<longleftrightarrow> is_abs b \<and> normalize b = b \<and> b \<noteq> ''/''"

lemma normal_join_inj:
  "normal_parts ab ss \<Longrightarrow> normal_parts ab ts \<Longrightarrow> join_slash ss = join_slash ts \<Longrightarrow> ss = ts"
  by (metis norm_parts_abs norm_parts_join(1))

lemma clean_base_parts:
  assumes "clean_base b"
  shows "b = ''/'' @ join_slash (norm_parts b)" "norm_parts b \<noteq> []" "normal_parts True (norm_parts b)"
proof -
  show b: "b = ''/'' @ join_slash (norm_parts b)"
    using assms unfolding clean_base_def normalize_def by (simp split: if_splits)
  show "norm_parts b \<noteq> []" using b assms by (auto simp: clean_base_def)
  show "normal_parts True (norm_parts b)"
    using assms normal_norm_parts [of b] by (simp add: clean_base_def)
qed

lemma norm_parts_under:
  assumes "clean_base b"
  shows "norm_parts (b @ ''/'' @ s) = foldl (norm_step True) (norm_parts b) (split_slash s)"
    "is_abs (b @ ''/'' @ s)"
proof -
  show a: "is_abs (b @ ''/'' @ s)" using assms by (auto simp: clean_base_def is_abs_def)
  have "split_slash (b @ ''/'' @ s) = split_slash b @ split_slash s"
    using split_append [of b s] by simp
  then show "norm_parts (b @ ''/'' @ s) = foldl (norm_step True) (norm_parts b) (split_slash s)"
    using a assms by (simp add: norm_parts_def clean_base_def)
qed

lemma starts_under:
  assumes b: "clean_base b" and c: "is_abs c" "normalize c = c"
  shows "take (length b + 1) c = b @ ''/'' \<longleftrightarrow>
    (\<exists>rest. rest \<noteq> [] \<and> norm_parts c = norm_parts b @ rest)"
proof -
  have cc: "c = ''/'' @ join_slash (norm_parts c)" "normal_parts True (norm_parts c)"
    using c normal_norm_parts [of c] by (simp_all add: normalize_def)
  note bb = clean_base_parts [OF b]
  show ?thesis
  proof
    assume "take (length b + 1) c = b @ ''/''"
    then obtain t where "c = b @ ''/'' @ t" by (metis append_take_drop_id append.assoc)
    then have "''/'' @ join_slash (norm_parts c) = ''/'' @ join_slash (norm_parts b) @ ''/'' @ t"
      using cc(1) bb(1) by (metis append.assoc)
    then have j: "join_slash (norm_parts c) = join_slash (norm_parts b) @ slash # t" by simp
    have ss: "split_slash (join_slash ss) = ss" if "normal_parts True ss" "ss \<noteq> []" for ss
      using that by (intro split_join) (auto simp: normal_parts_def proper_def)
    have "norm_parts c \<noteq> []" using j by auto
    then have "norm_parts c = norm_parts b @ split_slash t"
      using ss [OF cc(2)] ss [OF bb(3,2)] split_append j by metis
    then show "\<exists>rest. rest \<noteq> [] \<and> norm_parts c = norm_parts b @ rest"
      by (metis split_slash_ne)
  next
    assume "\<exists>rest. rest \<noteq> [] \<and> norm_parts c = norm_parts b @ rest"
    then obtain rest where r: "rest \<noteq> []" "norm_parts c = norm_parts b @ rest" by blast
    have "c = b @ ''/'' @ join_slash rest"
      using cc(1) bb(1) r join_append [OF bb(2) r(1)] by simp
    then show "take (length b + 1) c = b @ ''/''" by simp
  qed
qed

text \<open>The parent of an absolute path has fewer characters, until the root.\<close>

lemma last_slash_Some: "last_slash p = Some i \<Longrightarrow> i < length p \<and> p ! i = slash"
  by (induction p arbitrary: i) (auto split: option.splits if_splits)

lemma last_slash_abs: "is_abs p \<Longrightarrow> \<exists>i. last_slash p = Some i"
  by (cases p) (auto simp: is_abs_def split: option.splits)

lemma dirname_shrinks:
  assumes "is_abs p" "p \<noteq> ''/''"
  shows "length (dirname p) < length p" "is_abs (dirname p)"
proof -
  obtain i where i: "last_slash p = Some i" using last_slash_abs [OF assms(1)] by blast
  have "i < length p" using last_slash_Some [OF i] by simp
  moreover have "1 < length p"
    using assms by (cases p; cases "tl p") (auto simp: is_abs_def)
  ultimately show "length (dirname p) < length p" using i by (simp add: dirname_def)
  have "hd (take i p) = hd p" "take i p \<noteq> []" if "i \<noteq> 0"
    using that \<open>i < length p\<close> by (cases p; cases i; simp)+
  then show "is_abs (dirname p)" using i assms(1) by (auto simp: dirname_def is_abs_def)
qed

lemma last_slash_append:
  "slash \<notin> set s \<Longrightarrow> last_slash (p @ slash # s) = Some (length p)"
proof (induction p)
  case Nil
  have "last_slash s = None" if "slash \<notin> set s" for s using that by (induction s) auto
  with Nil show ?case by simp
qed simp

lemma dirname_join:
  assumes "ss \<noteq> []" "slash \<notin> set s"
  shows "dirname (''/'' @ join_slash (ss @ [s])) = ''/'' @ join_slash ss"
proof -
  have "''/'' @ join_slash (ss @ [s]) = (''/'' @ join_slash ss) @ slash # s"
    using join_append [of ss "[s]"] assms(1) by simp
  then show ?thesis using last_slash_append [OF assms(2), of "''/'' @ join_slash ss"]
    by (simp add: dirname_def)
qed

end
