(* ===== verification/Require.thy ===== *)
theory Require
  imports Paths JsLang
begin

text \<open>
  \<open>require.c\<close>: the synchronous CommonJS \<open>require\<close>.  A bareword resolves against one base per
  process, chosen once: the packed scripts unpacked into the user's cache, else the directory of
  the entry script, else the first \<open>jsrc/\<close> at or above the working directory.  Explicit paths
  resolve against the requiring module.  Resolutions are memoized, modules are cached.

  The system is the record \<open>'w rqsys\<close>, evaluation of a module's source \<open>'w rqrun\<close>; both are
  parameters.  The state of the bundle is \<open>'w rq\<close>, with the system's state in \<open>world\<close>.
\<close>

section \<open>State\<close>

record 'w rq =
  world :: 'w
  modcache :: "string \<Rightarrow> nat option"       \<comment> \<open>\<open>cache\<close>: the module object of a file name\<close>
  requireBase :: "string option"
  scriptDir :: "string option"
  resolved :: "string \<Rightarrow> string option"
  top_dir :: string                           \<comment> \<open>the directory \<open>g.require\<close> was made with\<close>
  proc_argv :: "string list option"           \<comment> \<open>\<open>process.argv\<close>\<close>

record 'w rqsys =
  stat_kind :: "'w \<Rightarrow> string \<Rightarrow> string option"    \<comment> \<open>\<open>io.stat (p).kind\<close>, \<open>None\<close> when it throws\<close>
  rq_getenv :: "'w \<Rightarrow> string \<Rightarrow> string option"
  rq_cwd :: "'w \<Rightarrow> string"
  rq_pid :: "'w \<Rightarrow> string"
  rq_mkdir :: "string \<Rightarrow> ('w, unit) js"
  rq_open_c :: "string \<Rightarrow> ('w, nat) js"
  rq_writeAll :: "nat \<Rightarrow> u8 list \<Rightarrow> ('w, unit) js"
  rq_close :: "nat \<Rightarrow> ('w, unit) js"
  rq_rename :: "string \<Rightarrow> string \<Rightarrow> ('w, unit) js"
  rq_rmdir :: "string \<Rightarrow> ('w, unit) js"
  rq_decode :: "u8 list \<Rightarrow> exn + string"          \<comment> \<open>\<open>utf8.Decode\<close>\<close>
  rq_inflate :: "u8 list \<Rightarrow> nat \<Rightarrow> exn + u8 list"
  jsrcpack :: "u8 list option"

abbreviation quoted :: "string \<Rightarrow> string" where
  "quoted s \<equiv> CHR 0x27 # s @ [CHR 0x27]"

definition isFile :: "'w rqsys \<Rightarrow> 'w \<Rightarrow> string \<Rightarrow> bool" where
  "isFile S w p \<longleftrightarrow> stat_kind S w p = Some ''reg''"

definition isDir :: "'w rqsys \<Rightarrow> 'w \<Rightarrow> string \<Rightarrow> bool" where
  "isDir S w p \<longleftrightarrow> stat_kind S w p = Some ''dir''"

section \<open>The pack\<close>

definition hex_digit :: "nat \<Rightarrow> char" where
  "hex_digit n = ''0123456789abcdef'' ! n"

definition hex2 :: "u8 \<Rightarrow> string" where
  "hex2 b = [hex_digit (unat b div 16), hex_digit (unat b mod 16)]"

definition packHex :: "u8 list \<Rightarrow> string" where
  "packHex b = concat (map hex2 (take 8 (drop 8 b)))"

definition byte_at :: "u8 list \<Rightarrow> int \<Rightarrow> u8 option" where
  "byte_at b i = (if 0 \<le> i \<and> i < int (length b) then Some (b ! nat i) else None)"

definition packStr :: "'w rqsys \<Rightarrow> u8 list \<Rightarrow> int \<Rightarrow> nat \<Rightarrow> exn + string" where
  "packStr S b off len =
     (let e = off + int (length (takeWhile (\<lambda>i. byte_at b i \<noteq> Some 0) (map (\<lambda>k. off + int k) [0..<len])))
      in rq_decode S (ta_subarray b (js_int off) (js_int e)))"

definition is_ws :: "char \<Rightarrow> bool" where
  "is_ws c \<longleftrightarrow> c \<in> set [CHR '' '', CHR 0x09, CHR 0x0A, CHR 0x0B, CHR 0x0C, CHR 0x0D]"

definition trim :: "string \<Rightarrow> string" where
  "trim s = rev (dropWhile is_ws (rev (dropWhile is_ws s)))"

text \<open>\<open>parseInt (s, 8)\<close>: a sign, then the octal digits in front; \<open>None\<close> is NaN.\<close>

definition octal :: "char \<Rightarrow> bool" where
  "octal c \<longleftrightarrow> of_char c \<in> {48::nat..55}"

definition parse8 :: "string \<Rightarrow> int option" where
  "parse8 s =
     (let (sg, t) = (case s of CHR ''-'' # t \<Rightarrow> (- 1, t) | CHR ''+'' # t \<Rightarrow> (1, t) | _ \<Rightarrow> (1, s));
          ds = takeWhile octal t
      in if ds = [] then None else Some (sg * foldl (\<lambda>n c. n * 8 + (of_char c - 48)) 0 ds))"

definition size_of_entry :: "string \<Rightarrow> int option" where
  "size_of_entry f = parse8 (if trim f = [] then ''0'' else trim f)"

text \<open>\<open>(size + 511) & ~511\<close>, on 32 bits; a NaN is 0.\<close>

definition padded :: "int option \<Rightarrow> int" where
  "padded sz = (case sz of None \<Rightarrow> 0 | Some n \<Rightarrow> to_int32 (js_int (n + 511)) div 512 * 512)"

text \<open>\<open>try { body } finally { last }\<close>.\<close>

definition jfinally :: "('w, 'a) js \<Rightarrow> ('w, unit) js \<Rightarrow> ('w, 'a) js" where
  "jfinally body fin = (\<lambda>w. case body w of (r, w1) \<Rightarrow>
     (case fin w1 of (Inl e, w2) \<Rightarrow> (Inl e, w2) | (Inr _, w2) \<Rightarrow> (r, w2)))"

definition put_file :: "'w rqsys \<Rightarrow> string \<Rightarrow> u8 list \<Rightarrow> ('w, unit) js" where
  "put_file S p bs =
     jbind (rq_mkdir S (dirname p)) (\<lambda>_.
     jbind (rq_open_c S p) (\<lambda>fd. jfinally (rq_writeAll S fd bs) (rq_close S fd)))"

text \<open>The loop over the entries, with fuel; False when it runs out.\<close>

primrec packUntar :: "nat \<Rightarrow> 'w rqsys \<Rightarrow> string \<Rightarrow> u8 list \<Rightarrow> int \<Rightarrow> ('w, bool) js" where
  "packUntar 0 S dir raw off = jret False"
| "packUntar (Suc k) S dir raw off =
     (if \<not> (off + 512 \<le> int (length raw) \<and> byte_at raw off \<noteq> Some 0) then jret True
      else
        jbind (jlift (packStr S raw off 100)) (\<lambda>name0.
        jbind (jlift (packStr S raw (off + 345) 155)) (\<lambda>prefix.
        jbind (jlift (packStr S raw (off + 124) 12)) (\<lambda>field.
        let name = (if prefix \<noteq> [] then prefix @ ''/'' @ name0 else name0);
            sz = size_of_entry field;
            type = byte_at raw (off + 156);
            off1 = off + 512;
            body = ta_subarray raw (js_int off1) (case sz of None \<Rightarrow> NaN | Some n \<Rightarrow> js_int (off1 + n)) in
        jbind (if type = Some 48 \<or> type = Some 0 then put_file S (dir @ ''/'' @ name) body else jret ())
          (\<lambda>_. packUntar k S dir raw (off1 + padded sz))))))"

definition le32 :: "u8 list \<Rightarrow> nat \<Rightarrow> nat" where
  "le32 b i = unat (b ! i) + unat (b ! (i + 1)) * 256 + unat (b ! (i + 2)) * 65536 + unat (b ! (i + 3)) * 16777216"

definition packExtract :: "nat \<Rightarrow> 'w rqsys \<Rightarrow> ('w, string option) js" where
  "packExtract fuel S = (\<lambda>w.
     case jsrcpack S of
       None \<Rightarrow> (Inr None, w)
     | Some b \<Rightarrow>
       if length b < 16 \<or> b ! 0 \<noteq> 74 \<or> b ! 1 \<noteq> 83 \<or> b ! 2 \<noteq> 82 then (Inr None, w)
       else if b ! 3 \<noteq> 1
       then (Inl (ThrowStr ''the built-in scripts are packed in a format this jab does not know''), w)
       else
         let cachedir = (case rq_getenv S w ''XDG_CACHE_HOME'' of Some c \<Rightarrow> c
               | None \<Rightarrow> (case rq_getenv S w ''HOME'' of Some h \<Rightarrow> h @ ''/.cache'' | None \<Rightarrow> []));
             dir = cachedir @ ''/jsrcs/'' @ packHex b;
             tmp = cachedir @ ''/jsrcs/.tmp-'' @ rq_pid S w in
         if cachedir = []
         then (Inl (ThrowStr ''neither XDG_CACHE_HOME nor HOME is set, so there is nowhere to unpack the built-in scripts''), w)
         else if isDir S w dir then (Inr (Some dir), w)
         else
           jbind (jlift (rq_inflate S (drop 16 b) (le32 b 4))) (\<lambda>raw.
           jbind (rq_mkdir S tmp) (\<lambda>_.
           jbind (jcatch
              (jbind (packUntar fuel S tmp raw 0) (\<lambda>_. rq_rename S tmp dir))
              (\<lambda>e. jbind (rq_rmdir S tmp) (\<lambda>_ w. if \<not> isDir S w dir then (Inl e, w) else (Inr (), w))))
           (\<lambda>_. jret (Some dir)))) w)"

section \<open>The base\<close>

primrec climb :: "nat \<Rightarrow> (string \<Rightarrow> bool) \<Rightarrow> string \<Rightarrow> string \<Rightarrow> string option option" where
  "climb 0 isd ceil dir = None"
| "climb (Suc k) isd ceil dir =
     (if isd (dir @ ''/jsrc'') then Some (Some (dir @ ''/jsrc''))
      else if dir = ceil \<or> dir = ''/'' then Some None
      else climb k isd ceil (dirname dir))"

definition climbJsrc :: "nat \<Rightarrow> 'w rqsys \<Rightarrow> 'w \<Rightarrow> string option option" where
  "climbJsrc fuel S w =
     climb fuel (isDir S w)
       (case rq_getenv S w ''HOME'' of None \<Rightarrow> ''/'' | Some h \<Rightarrow> normalize h)
       (normalize (rq_cwd S w))"

text \<open>Run a computation of the system inside the bundle's state.\<close>

definition on_world :: "('w, 'a) js \<Rightarrow> ('w rq, 'a) js" where
  "on_world m = (\<lambda>s. case m (world s) of (r, w') \<Rightarrow> (r, s\<lparr>world := w'\<rparr>))"

definition pinBase :: "nat \<Rightarrow> 'w rqsys \<Rightarrow> string \<Rightarrow> ('w rq, string) js" where
  "pinBase fuel S spec = (\<lambda>s.
     case requireBase s of
       Some b \<Rightarrow> (Inr b, s)
     | None \<Rightarrow>
       jbind (on_world (packExtract fuel S)) (\<lambda>packed s.
         let base = (case packed of Some d \<Rightarrow> Some (Some d)
                     | None \<Rightarrow> (case scriptDir s of Some d \<Rightarrow> Some (Some d) | None \<Rightarrow> climbJsrc fuel S (world s))) in
         case base of
           None \<Rightarrow> (Inl CUndef, s)
         | Some None \<Rightarrow> (Inl (ThrowStr (''require: cannot find '' @ quoted (''jsrc/'' @ spec) @
             '': there is no jsrc/ directory at or above '' @ quoted (rq_cwd S (world s)))), s)
         | Some (Some b) \<Rightarrow> (Inr b, s\<lparr>requireBase := Some b\<rparr>)) s)"

section \<open>Resolution\<close>

definition starts_with :: "string \<Rightarrow> string \<Rightarrow> bool" where
  "starts_with c pre \<longleftrightarrow> take (length pre) c = pre"

definition escapes :: "string \<Rightarrow> string \<Rightarrow> string" where
  "escapes spec base = ''require: '' @ quoted spec @ '' escapes the require base '' @ quoted base"

primrec resolve_in :: "string list \<Rightarrow> string \<Rightarrow> string \<Rightarrow> (string \<Rightarrow> bool) \<Rightarrow> exn + string" where
  "resolve_in [] spec base isf = Inl (ThrowStr (''require: cannot find '' @ quoted spec @ '' in '' @ quoted base))"
| "resolve_in (s # ss) spec base isf =
     (let pre = base @ ''/''; c = normalize (pre @ s) in
      if \<not> starts_with c pre then Inl (ThrowStr (escapes spec base))
      else if isf c then Inr c else resolve_in ss spec base isf)"

definition resolveJsrc :: "nat \<Rightarrow> 'w rqsys \<Rightarrow> string \<Rightarrow> ('w rq, string) js" where
  "resolveJsrc fuel S spec =
     jbind (pinBase fuel S spec) (\<lambda>base s.
       (resolve_in [spec, spec @ ''.js''] spec base (isFile S (world s)), s))"

definition resolve :: "nat \<Rightarrow> 'w rqsys \<Rightarrow> string \<Rightarrow> string \<Rightarrow> ('w rq, string) js" where
  "resolve fuel S spec baseDir =
     (if \<not> isExplicit spec then resolveJsrc fuel S spec
      else (\<lambda>s.
        let base = normalize (if is_abs spec then spec else baseDir @ ''/'' @ spec) in
        case filter (isFile S (world s)) [base, base @ ''.js'', base @ ''/index.js''] of
          c # _ \<Rightarrow> (Inr c, s)
        | [] \<Rightarrow> (Inl (ThrowStr (''require: cannot find '' @ quoted spec @ '' from '' @ quoted baseDir)), s)))"

text \<open>Decimal digits of a number.\<close>

fun decimal :: "nat \<Rightarrow> string" where
  "decimal n = (if n < 10 then [char_of (48 + n)] else decimal (n div 10) @ [char_of (48 + n mod 10)])"

declare decimal.simps [simp del]

definition memo_key :: "string \<Rightarrow> string \<Rightarrow> string" where
  "memo_key spec baseDir = decimal (length spec) @ '':'' @ spec @ baseDir"

definition resolveMemo :: "nat \<Rightarrow> 'w rqsys \<Rightarrow> string \<Rightarrow> string \<Rightarrow> ('w rq, string) js" where
  "resolveMemo fuel S spec baseDir =
     (if isExplicit spec \<and> \<not> is_abs spec \<and> \<not> is_abs baseDir then resolve fuel S spec baseDir
      else (\<lambda>s. case resolved s (memo_key spec baseDir) of
        Some a \<Rightarrow> (Inr a, s)
      | None \<Rightarrow> jbind (resolve fuel S spec baseDir) (\<lambda>a.
          jbind (jput (\<lambda>s. s\<lparr>resolved := (resolved s)(memo_key spec baseDir \<mapsto> a)\<rparr>)) (\<lambda>_. jret a)) s))"

section \<open>Modules\<close>

record 'w rqrun =
  read_source :: "string \<Rightarrow> ('w rq, string) js"
  new_module :: "string \<Rightarrow> ('w rq, nat) js"
  eval_module :: "nat \<Rightarrow> string \<Rightarrow> string \<Rightarrow> string \<Rightarrow> ('w rq, unit) js"
    \<comment> \<open>module, source, file name, directory its \<open>require\<close> is made with\<close>
  exports_of :: "'w \<Rightarrow> nat \<Rightarrow> jsval"

text \<open>
  \<open>cache\<close> is a plain object, so a lookup also finds what every object inherits; that is no module,
  and its \<open>exports\<close> is undefined.
\<close>

definition object_proto :: "string list" where
  "object_proto = [''constructor'', ''toString'', ''toLocaleString'', ''valueOf'', ''hasOwnProperty'',
     ''isPrototypeOf'', ''propertyIsEnumerable'', ''__proto__'', ''__defineGetter__'',
     ''__defineSetter__'', ''__lookupGetter__'', ''__lookupSetter__'']"

definition cached_exports :: "'w rqrun \<Rightarrow> 'w rq \<Rightarrow> string \<Rightarrow> jsval option" where
  "cached_exports R s a =
     (case modcache s a of
        Some m \<Rightarrow> Some (exports_of R (world s) m)
      | None \<Rightarrow> if a \<in> set object_proto then Some JUndef else None)"

definition load :: "nat \<Rightarrow> 'w rqsys \<Rightarrow> 'w rqrun \<Rightarrow> string \<Rightarrow> string \<Rightarrow> ('w rq, jsval) js" where
  "load fuel S R spec baseDir =
     jbind (resolveMemo fuel S spec baseDir) (\<lambda>a s.
       case cached_exports R s a of
         Some x \<Rightarrow> (Inr x, s)
       | None \<Rightarrow>
         jbind (read_source R a) (\<lambda>src.
         jbind (new_module R a) (\<lambda>m.
         jbind (jput (\<lambda>s. s\<lparr>modcache := (modcache s)(a \<mapsto> m)\<rparr>)) (\<lambda>_.
         jbind (jcatch (eval_module R m src a (dirname a))
                  (\<lambda>e. jbind (jput (\<lambda>s. s\<lparr>modcache := (modcache s)(a := None)\<rparr>)) (\<lambda>_. jthrow e)))
           (\<lambda>_. jget (\<lambda>s. exports_of R (world s) m))))) s)"

definition pinScript :: "'w rqsys \<Rightarrow> string \<Rightarrow> ('w rq, unit) js" where
  "pinScript S p = jput (\<lambda>s.
     let d = dirname (normalize (if is_abs p then p else rq_cwd S (world s) @ ''/'' @ p)) in
     s\<lparr>scriptDir := Some d, top_dir := d\<rparr>)"

definition main_entry :: "nat \<Rightarrow> 'w rqsys \<Rightarrow> 'w rqrun \<Rightarrow> ('w rq, jsval) js" where
  "main_entry fuel S R =
     jbind (resolveJsrc fuel S ''main.js'') (\<lambda>a.
     jbind (jput (\<lambda>s. case proc_argv s of
              None \<Rightarrow> s
            | Some av \<Rightarrow> s\<lparr>proc_argv := Some ([hd av, a] @ tl av)\<rparr>)) (\<lambda>_.
     load fuel S R a (dirname a)))"

section \<open>Lemmas\<close>

subsection \<open>Containment\<close>

lemma is_abs_normalize: "is_abs (normalize p) = is_abs p"
proof (cases "is_abs p")
  case True
  then show ?thesis by (simp add: normalize_def) (simp add: is_abs_def)
next
  case False
  then have "normal_parts False (norm_parts p)" using normal_norm_parts [of p] by simp
  from norm_parts_join(2) [OF this] False show ?thesis by (simp add: normalize_def)
qed

text \<open>Nothing normalized lies under a base that is not clean itself.\<close>

lemma under_unclean:
  assumes "is_abs b" "starts_with (normalize x) (b @ ''/'')"
  shows "clean_base b"
proof -
  let ?y = "normalize x"
  have y: "?y = b @ ''/'' @ drop (length b + 1) ?y"
    using assms(2) by (metis append.assoc append_take_drop_id length_append_singleton starts_with_def
        Suc_eq_plus1 length_append list.size(3) list.size(4) add.commute plus_1_eq_Suc append_Cons append_Nil)
  then have a: "is_abs ?y" using assms(1) by (metis hd_append2 is_abs_def append_is_Nil_conv)
  have n: "normal_parts True (norm_parts ?y)" using normal_norm_parts [of ?y] a by simp
  have yy: "?y = ''/'' @ join_slash (norm_parts ?y)"
    using normalize_idem [of x] a by (simp add: normalize_def [of "normalize x"])
  let ?t = "drop (length b + 1) ?y"
  have "norm_parts ?y \<noteq> []"
  proof
    assume "norm_parts ?y = []"
    then have "?y = ''/''" using yy by simp
    then show False using y assms(1) by (cases b) (auto simp: is_abs_def)
  qed
  then have "split_slash ?y = [] # norm_parts ?y"
    using yy n by (metis (no_types, lifting) append_Cons append_Nil normal_parts_def proper_def split_join split_slash.simps(2))
  moreover have "split_slash ?y = split_slash b @ split_slash ?t"
    using split_append [of b ?t] y by simp
  ultimately obtain bs where bs: "split_slash b = [] # bs" "norm_parts ?y = bs @ split_slash ?t"
    by (cases "split_slash b") auto
  have nb: "normal_parts True bs" using n unfolding bs(2) normal_parts_def by auto
  have ne: "bs \<noteq> []"
  proof
    assume "bs = []"
    then have "b = []" using bs(1) join_split [of b] by simp
    then show False using assms(1) by (simp add: is_abs_def)
  qed
  have "b = join_slash ([] # bs)" using bs(1) join_split [of b] by simp
  then have b: "b = ''/'' @ join_slash bs" using ne by (cases bs) auto
  then have "norm_parts b = bs" using norm_parts_abs [OF nb] by simp
  moreover have "b \<noteq> ''/''"
    using b nb ne join_empty_iff [of bs] by (auto simp: normal_parts_def proper_def)
  ultimately show ?thesis using b assms(1) by (simp add: clean_base_def normalize_def)
qed

lemma resolve_in_unclean:
  "is_abs b \<Longrightarrow> \<not> clean_base b \<Longrightarrow> ss \<noteq> [] \<Longrightarrow>
   resolve_in ss spec b isf = Inl (ThrowStr (escapes spec b))"
  using under_unclean [of b] by (cases ss) (auto simp: Let_def)

lemma resolve_in_contained:
  assumes "clean_base b" "resolve_in ss spec b isf = Inr c"
  shows "isf c \<and> (\<exists>rest. rest \<noteq> [] \<and> ''..'' \<notin> set rest \<and> c = b @ ''/'' @ join_slash rest) \<and>
    (\<exists>s \<in> set ss. c = normalize (b @ ''/'' @ s))"
  using assms(2)
proof (induction ss)
  case (Cons s ss)
  let ?c = "normalize (b @ ''/'' @ s)"
  show ?case
  proof (cases "isf ?c")
    case False
    then show ?thesis using Cons by (auto simp: Let_def split: if_splits)
  next
    case True
    then have c: "c = ?c" "starts_with c (b @ ''/'')"
      using Cons.prems by (auto simp: Let_def split: if_splits)
    have ab: "is_abs c" using c(1) norm_parts_under(2) [OF assms(1)] by (simp add: is_abs_normalize)
    have idem: "normalize c = c" using c(1) normalize_idem by simp
    obtain rest where r: "rest \<noteq> []" "norm_parts c = norm_parts b @ rest"
      using starts_under [OF assms(1) ab idem] c(2) by (auto simp: starts_with_def)
    have "normal_parts True (norm_parts c)" using normal_norm_parts [of c] ab by simp
    then have "''..'' \<notin> set rest" unfolding r(2) normal_parts_def by auto
    moreover have "c = ''/'' @ join_slash (norm_parts b @ rest)"
      using idem ab r(2) by (simp add: normalize_def)
    then have "c = b @ ''/'' @ join_slash rest"
      using join_append [OF clean_base_parts(2) [OF assms(1)] r(1)] clean_base_parts(1) [OF assms(1)]
      by (metis append.assoc append_Cons append_Nil)
    ultimately show ?thesis using True c(1) r(1) by auto
  qed
qed simp

subsection \<open>The climb\<close>

lemma climb_runs:
  assumes "is_abs dir" "length dir < fuel"
  shows "\<exists>r k. climb fuel isd ceil dir = Some r \<and>
    (\<forall>i < k. \<not> isd ((dirname ^^ i) dir @ ''/jsrc'') \<and> (dirname ^^ i) dir \<noteq> ceil \<and> (dirname ^^ i) dir \<noteq> ''/'') \<and>
    (case r of Some j \<Rightarrow> j = (dirname ^^ k) dir @ ''/jsrc'' \<and> isd j
     | None \<Rightarrow> \<not> isd ((dirname ^^ k) dir @ ''/jsrc'') \<and> ((dirname ^^ k) dir = ceil \<or> (dirname ^^ k) dir = ''/''))"
  using assms
proof (induction fuel arbitrary: dir)
  case (Suc fuel)
  show ?case
  proof (cases "isd (dir @ ''/jsrc'') \<or> dir = ceil \<or> dir = ''/''")
    case True
    then show ?thesis by (intro exI [of _ "if isd (dir @ ''/jsrc'') then Some (dir @ ''/jsrc'') else None"]
          exI [of _ 0]) auto
  next
    case False
    then have d: "is_abs (dirname dir)" "length (dirname dir) < fuel"
      using dirname_shrinks [of dir] Suc.prems by auto
    from Suc.IH [OF d] obtain r k where rk: "climb fuel isd ceil (dirname dir) = Some r"
      "\<forall>i < k. \<not> isd ((dirname ^^ i) (dirname dir) @ ''/jsrc'') \<and> (dirname ^^ i) (dirname dir) \<noteq> ceil \<and>
         (dirname ^^ i) (dirname dir) \<noteq> ''/''"
      "case r of Some j \<Rightarrow> j = (dirname ^^ k) (dirname dir) @ ''/jsrc'' \<and> isd j
       | None \<Rightarrow> \<not> isd ((dirname ^^ k) (dirname dir) @ ''/jsrc'') \<and>
           ((dirname ^^ k) (dirname dir) = ceil \<or> (dirname ^^ k) (dirname dir) = ''/'')"
      by blast
    have sw: "(dirname ^^ i) (dirname dir) = (dirname ^^ Suc i) dir" for i
      by (simp add: funpow_swap1)
    have "\<forall>i < Suc k. \<not> isd ((dirname ^^ i) dir @ ''/jsrc'') \<and> (dirname ^^ i) dir \<noteq> ceil \<and>
        (dirname ^^ i) dir \<noteq> ''/''"
      using rk(2) False unfolding sw by (auto simp: less_Suc_eq_0_disj)
    then show ?thesis using rk(1,3) False unfolding sw
      by (intro exI [of _ r] exI [of _ "Suc k"]) auto
  qed
qed simp

subsection \<open>The memo\<close>

definition digits_value :: "string \<Rightarrow> nat" where
  "digits_value s = foldl (\<lambda>n c. n * 10 + (of_char c - 48)) 0 s"

lemma of_char_digit: "n < 10 \<Longrightarrow> of_char (char_of (48 + n)) = (48 + n :: nat)"
  by simp

lemma digits_value_decimal: "digits_value (decimal n) = n"
proof (induction n rule: decimal.induct)
  case (1 n)
  then show ?case
    by (subst decimal.simps) (auto simp: digits_value_def)
qed

lemma decimal_digits: "c \<in> set (decimal n) \<Longrightarrow> c \<noteq> CHR '':''"
proof (induction n rule: decimal.induct)
  case (1 n)
  have "char_of (48 + k) \<noteq> CHR '':''" if "k < 10" for k :: nat
  proof
    assume "char_of (48 + k) = CHR '':''"
    then have "of_char (char_of (48 + k)) = (of_char (CHR '':'') :: nat)" by simp
    also have "\<dots> = 58" by simp
    finally show False using of_char_digit [OF that] that by linarith
  qed
  note digit = this
  have c: "c \<in> set (if n < 10 then [char_of (48 + n)] else decimal (n div 10) @ [char_of (48 + n mod 10)])"
    using 1(2) decimal.simps [of n] by simp
  show ?case
  proof (cases "n < 10")
    case True
    then have "c = char_of (48 + n)" using c by simp
    then show ?thesis using digit [OF True] by metis
  next
    case False
    then have "c \<in> set (decimal (n div 10)) \<or> c = char_of (48 + n mod 10)" using c by auto
    then show ?thesis using 1(1) [OF False] digit [of "n mod 10"] by (metis mod_less_divisor zero_less_numeral)
  qed
qed

lemma memo_key_inj: "memo_key spec d = memo_key spec' d' \<longleftrightarrow> spec = spec' \<and> d = d'"
proof
  assume e: "memo_key spec d = memo_key spec' d'"
  have tw: "takeWhile (\<lambda>c. c \<noteq> CHR '':'') (memo_key s x) = decimal (length s)" for s x
    unfolding memo_key_def by (subst takeWhile_append2) (auto simp: decimal_digits)
  have "decimal (length spec) = decimal (length spec')" using e tw by metis
  then have l: "length spec = length spec'" using digits_value_decimal by metis
  with e have "spec @ d = spec' @ d'" by (simp add: memo_key_def)
  with l show "spec = spec' \<and> d = d'" by simp
qed simp

text \<open>With the base pinned, resolving reads the system and changes nothing.\<close>

lemma pinBase_pinned: "requireBase s = Some b \<Longrightarrow> pinBase fuel S spec s = (Inr b, s)"
  by (simp add: pinBase_def)

lemma resolveJsrc_pinned:
  "requireBase s = Some b \<Longrightarrow>
   resolveJsrc fuel S spec s = (resolve_in [spec, spec @ ''.js''] spec b (isFile S (world s)), s)"
  by (simp add: resolveJsrc_def pinBase_pinned)

lemma resolve_pinned:
  "requireBase s = Some b \<Longrightarrow> snd (resolve fuel S spec d s) = s"
  by (auto simp: resolve_def resolveJsrc_pinned Let_def split: list.splits)

lemma resolve_pinned_same:
  "requireBase s = Some b \<Longrightarrow> requireBase t = Some b \<Longrightarrow> world t = world s \<Longrightarrow>
   fst (resolve fuel S spec d t) = fst (resolve fuel S spec d s)"
  by (auto simp: resolve_def resolveJsrc_pinned Let_def split: list.splits)

lemma pinBase_pins:
  "pinBase fuel S spec s = (Inr b, s') \<Longrightarrow> requireBase s' = Some b"
  by (auto simp: pinBase_def jbind_def Let_def on_world_def split: option.splits prod.splits sum.splits)

text \<open>The memo holds what resolving would answer now.\<close>

definition memo_sound :: "nat \<Rightarrow> 'w rqsys \<Rightarrow> 'w rq \<Rightarrow> bool" where
  "memo_sound fuel S s \<longleftrightarrow>
     (\<forall>spec d a. resolved s (memo_key spec d) = Some a \<longrightarrow> fst (resolve fuel S spec d s) = Inr a)"

subsection \<open>The pack\<close>

definition sizes_ok :: "'w rqsys \<Rightarrow> u8 list \<Rightarrow> bool" where
  "sizes_ok S raw \<longleftrightarrow> (\<forall>off f n. packStr S raw off 12 = Inr f \<longrightarrow> size_of_entry f = Some n \<longrightarrow>
     0 \<le> n \<and> n < 2 ^ 31 - 512)"

lemma padded_nonneg:
  assumes "\<And>n. sz = Some n \<Longrightarrow> 0 \<le> n \<and> n < 2 ^ 31 - 512"
  shows "0 \<le> padded sz"
proof (cases sz)
  case (Some n)
  have "to_int32 (js_int (n + 511)) = n + 511" using assms [OF Some] by (intro to_int32_small) simp_all
  then show ?thesis using Some assms [OF Some] by (simp add: padded_def pos_imp_zdiv_nonneg_iff)
qed (simp add: padded_def)

lemma packUntar_ends:
  assumes "sizes_ok S raw" "0 \<le> off" "0 < fuel" "int (length raw) < off + 512 * int fuel"
  shows "fst (packUntar fuel S dir raw off w) \<noteq> Inr False"
  using assms(2-)
proof (induction fuel arbitrary: off w)
  case (Suc k)
  let ?more = "off + 512 \<le> int (length raw) \<and> byte_at raw off \<noteq> Some 0"
  show ?case
  proof (cases ?more)
    case True
    have step: "fst (packUntar k S dir raw (off + 512 + padded (size_of_entry f)) w') \<noteq> Inr False"
      if "packStr S raw (off + 124) 12 = Inr f" for f w'
    proof (rule Suc.IH)
      have "0 \<le> padded (size_of_entry f)"
        using assms(1) that unfolding sizes_ok_def by (intro padded_nonneg) blast
      then show "0 < k" "0 \<le> off + 512 + padded (size_of_entry f)"
        "int (length raw) < off + 512 + padded (size_of_entry f) + 512 * int k"
        using Suc.prems True by simp_all
    qed
    show ?thesis
    proof
      assume "fst (packUntar (Suc k) S dir raw off w) = Inr False"
      then obtain w1 where "packUntar (Suc k) S dir raw off w = (Inr False, w1)" by (metis prod.collapse)
      then obtain f w' where "packStr S raw (off + 124) 12 = Inr f"
        "packUntar k S dir raw (off + 512 + padded (size_of_entry f)) w' = (Inr False, w1)"
        using True by (auto simp: jbind_eq_Inr Let_def)
      then show False using step [of f w'] by simp
    qed
  next
    case False
    then show ?thesis by auto
  qed
qed simp

section \<open>Properties\<close>

text \<open>A small system and state for the closed instances: two files under \<open>/p/jsrc\<close>, no pack.\<close>

definition sample_rq :: "string rqsys" where
  "sample_rq = \<lparr>
     stat_kind = (\<lambda>w p. if p = ''/p/jsrc'' then Some ''dir''
                        else if p = ''/p/jsrc/a.js'' \<or> p = ''/p/jsrc/main.js'' then Some ''reg'' else None),
     rq_getenv = (\<lambda>w n. None), rq_cwd = (\<lambda>w. w), rq_pid = (\<lambda>w. ''7''),
     rq_mkdir = (\<lambda>p. jret ()), rq_open_c = (\<lambda>p. jret 3), rq_writeAll = (\<lambda>fd b. jret ()),
     rq_close = (\<lambda>fd. jret ()), rq_rename = (\<lambda>a b. jret ()), rq_rmdir = (\<lambda>p. jret ()),
     rq_decode = (\<lambda>b. Inr (map (\<lambda>x. char_of (unat x)) b)), rq_inflate = (\<lambda>b n. Inr []),
     jsrcpack = None\<rparr>"

definition rq0 :: "string \<Rightarrow> string rq" where
  "rq0 w = \<lparr>world = w, modcache = (\<lambda>_. None), requireBase = None, scriptDir = None,
     resolved = (\<lambda>_. None), top_dir = ''.'', proc_argv = Some [''jab'', ''get'', ''x'']\<rparr>"

definition sample_run :: "string rqrun" where
  "sample_run = \<lparr>read_source = (\<lambda>a. jret ''src''), new_module = (\<lambda>a. jret 5),
     eval_module = (\<lambda>m src a d. jret ()), exports_of = (\<lambda>w m. JNum (js_nat m))\<rparr>"

text \<open>
  C3: a bareword never escapes the require base.  Whatever \<open>spec\<close> is (dot-dots, empty and dot
  components, trailing slashes), a file \<open>resolveJsrc\<close> returns is a regular file strictly below the
  pinned base: the base, a slash, and components none of which is dot-dot.
\<close>

theorem bareword_stays_under_base:
  assumes "requireBase s = Some b" and "clean_base b"
    and "resolveJsrc fuel S spec s = (Inr c, s')"
  shows "isFile S (world s) c \<and> s' = s \<and>
    (\<exists>rest. rest \<noteq> [] \<and> ''..'' \<notin> set rest \<and> c = b @ ''/'' @ join_slash rest) \<and>
    (c = normalize (b @ ''/'' @ spec) \<or> c = normalize (b @ ''/'' @ spec @ ''.js''))"
  using resolve_in_contained [OF assms(2), of "[spec, spec @ ''.js'']" spec "isFile S (world s)" c]
    assms(3) resolveJsrc_pinned [OF assms(1), of fuel S spec] by auto

theorem bareword_stays_under_base_witness:
  "\<exists>rest. ''..'' \<notin> set rest \<and> ''/p/jsrc/a.js'' = ''/p/jsrc'' @ ''/'' @ join_slash rest"
proof -
  let ?s = "rq0 ''/p''\<lparr>requireBase := Some ''/p/jsrc''\<rparr>"
  have b: "clean_base ''/p/jsrc''"
    by (simp add: clean_base_def is_abs_def normalize_def norm_parts_def norm_step_def)
  have "resolveJsrc 9 sample_rq ''x/../a'' ?s = (Inr ''/p/jsrc/a.js'', ?s)"
    by (simp add: resolveJsrc_def pinBase_def Let_def starts_with_def normalize_def norm_parts_def
        norm_step_def is_abs_def isFile_def sample_rq_def rq0_def)
  from bareword_stays_under_base [OF _ b this] show ?thesis by auto
qed

text \<open>
  A base that is not in normal form makes every bareword fail.  The candidates are normalized
  and the base is not, so with a base such as \<open>/\<close> (an entry script in the root directory),
  \<open>//jsrc\<close> (a climb that ends at the root) or one under an \<open>XDG_CACHE_HOME\<close> with a trailing slash
  the prefix test rejects every candidate, and \<open>require\<close> reports an escape for any name.
\<close>

theorem unclean_base_rejects_everything:
  assumes "requireBase s = Some b" and "is_abs b" and "\<not> clean_base b"
  shows "resolveJsrc fuel S spec s = (Inl (ThrowStr (escapes spec b)), s)"
  using resolve_in_unclean [OF assms(2,3), of "[spec, spec @ ''.js'']"] resolveJsrc_pinned [OF assms(1)]
  by simp

theorem unclean_base_rejects_everything_witness:
  "climb (Suc 0) (isDir (sample_rq\<lparr>stat_kind := (\<lambda>w p. Some ''dir'')\<rparr>) ''/'') ''/'' ''/'' = Some (Some ''//jsrc'') \<and>
   resolveJsrc 9 sample_rq ''a'' (rq0 ''/''\<lparr>requireBase := Some ''//jsrc''\<rparr>) =
     (Inl (ThrowStr (escapes ''a'' ''//jsrc'')), rq0 ''/''\<lparr>requireBase := Some ''//jsrc''\<rparr>)"
proof -
  have "\<not> clean_base ''//jsrc''"
    by (simp add: clean_base_def is_abs_def normalize_def norm_parts_def norm_step_def)
  moreover have "climb (Suc 0) (isDir (sample_rq\<lparr>stat_kind := (\<lambda>w p. Some ''dir'')\<rparr>) ''/'') ''/'' ''/'' =
      Some (Some ''//jsrc'')" by (simp add: isDir_def sample_rq_def)
  ultimately show ?thesis
    using unclean_base_rejects_everything [of "rq0 ''/''\<lparr>requireBase := Some ''//jsrc''\<rparr>" "''//jsrc''"]
    by (simp add: is_abs_def)
qed

text \<open>
  The climb ends, and finds the nearest \<open>jsrc/\<close>.  From an absolute working directory the loop
  makes at most as many turns as the path has characters; it returns the first \<open>jsrc\<close> directory at
  or above it, never looks above the ceiling (\<open>HOME\<close>, else the root), and null when there is none.
\<close>

theorem climb_finds_nearest:
  assumes "is_abs (rq_cwd S w)" and "length (normalize (rq_cwd S w)) < fuel"
  defines "d \<equiv> normalize (rq_cwd S w)"
    and "ceil \<equiv> (case rq_getenv S w ''HOME'' of None \<Rightarrow> ''/'' | Some h \<Rightarrow> normalize h)"
  shows "\<exists>r k. climbJsrc fuel S w = Some r \<and>
    (\<forall>i < k. \<not> isDir S w ((dirname ^^ i) d @ ''/jsrc'') \<and> (dirname ^^ i) d \<noteq> ceil) \<and>
    (case r of Some j \<Rightarrow> j = (dirname ^^ k) d @ ''/jsrc'' \<and> isDir S w j
     | None \<Rightarrow> \<not> isDir S w ((dirname ^^ k) d @ ''/jsrc'') \<and> ((dirname ^^ k) d = ceil \<or> (dirname ^^ k) d = ''/''))"
proof -
  have "is_abs d" using assms(1) by (simp add: d_def is_abs_normalize)
  from climb_runs [OF this, of fuel "isDir S w" ceil] assms(2) show ?thesis
    unfolding climbJsrc_def ceil_def [symmetric] d_def by blast
qed

theorem climb_finds_nearest_witness:
  "\<exists>r. climbJsrc 9 sample_rq ''/p/q'' = Some r"
proof -
  have "is_abs (rq_cwd sample_rq ''/p/q'')" "length (normalize (rq_cwd sample_rq ''/p/q'')) < 9"
    by (simp_all add: sample_rq_def is_abs_def normalize_def norm_parts_def norm_step_def)
  from climb_finds_nearest [OF this] show ?thesis by blast
qed

text \<open>
  The base is chosen once.  Once a bareword has pinned it, any later bareword uses the same
  base and has no effect on the system, whatever became of the working directory, the environment
  and the files.
\<close>

theorem base_is_frozen:
  assumes "pinBase fuel S spec s = (Inr b, s')" and "requireBase t = requireBase s'"
  shows "pinBase fuel' S' spec' t = (Inr b, t) \<and>
    resolveJsrc fuel' S' spec' t = (resolve_in [spec', spec' @ ''.js''] spec' b (isFile S' (world t)), t)"
  using pinBase_pins [OF assms(1)] assms(2) by (simp add: pinBase_pinned resolveJsrc_pinned)

theorem base_is_frozen_witness:
  "fst (pinBase 1 sample_rq ''b'' (rq0 ''/elsewhere''\<lparr>requireBase := Some ''/p/jsrc''\<rparr>)) = Inr ''/p/jsrc''"
proof -
  have "pinBase (Suc (Suc (Suc 0))) sample_rq ''a'' (rq0 ''/p'') = (Inr ''/p/jsrc'', rq0 ''/p''\<lparr>requireBase := Some ''/p/jsrc''\<rparr>)"
    by (simp add: pinBase_def packExtract_def on_world_def climbJsrc_def isDir_def sample_rq_def rq0_def
        normalize_def norm_parts_def norm_step_def is_abs_def jbind_def Let_def)
  from base_is_frozen [OF this, of "rq0 ''/elsewhere''\<lparr>requireBase := Some ''/p/jsrc''\<rparr>" 1 sample_rq "''b''"]
  show ?thesis by simp
qed

text \<open>
  The memo is transparent.  Two different pairs of a spec and a directory have different keys, so no pair
  reads another's entry; and with the base pinned, as long as the memo holds what resolving would
  answer, \<open>resolveMemo\<close> returns exactly what \<open>resolve\<close> returns (its exceptions too, which are not
  memoized) and leaves the memo so.
\<close>

theorem memo_is_transparent:
  assumes "requireBase s = Some b" and "memo_sound fuel S s"
  shows "fst (resolveMemo fuel S spec d s) = fst (resolve fuel S spec d s) \<and>
    memo_sound fuel S (snd (resolveMemo fuel S spec d s)) \<and>
    (memo_key spec d = memo_key spec' d' \<longrightarrow> spec = spec' \<and> d = d')"
proof (cases "isExplicit spec \<and> \<not> is_abs spec \<and> \<not> is_abs d")
  case True
  then show ?thesis using assms resolve_pinned [OF assms(1)]
    by (simp add: resolveMemo_def memo_key_inj)
next
  case False
  show ?thesis
  proof (cases "resolved s (memo_key spec d)")
    case (Some a)
    then have "fst (resolve fuel S spec d s) = Inr a" using assms(2) unfolding memo_sound_def by blast
    then show ?thesis using False Some assms(2) by (auto simp: resolveMemo_def memo_key_inj)
  next
    case None
    obtain r where r: "resolve fuel S spec d s = (r, s)"
      using resolve_pinned [OF assms(1)] by (metis prod.collapse)
    have sound: "memo_sound fuel S (s\<lparr>resolved := (resolved s)(memo_key spec d \<mapsto> a)\<rparr>)"
      if "r = Inr a" for a
      using assms r that resolve_pinned_same [of s b "s\<lparr>resolved := (resolved s)(memo_key spec d \<mapsto> a)\<rparr>"]
      unfolding memo_sound_def by (auto simp: memo_key_inj)
    show ?thesis using False None r sound assms(2)
      by (cases r) (auto simp: resolveMemo_def memo_key_inj jbind_def)
  qed
qed

theorem memo_is_transparent_witness:
  "fst (resolveMemo 1 sample_rq ''a'' ''/p'' (rq0 ''/p''\<lparr>requireBase := Some ''/p/jsrc''\<rparr>)) =
   fst (resolve 1 sample_rq ''a'' ''/p'' (rq0 ''/p''\<lparr>requireBase := Some ''/p/jsrc''\<rparr>))"
proof -
  let ?s = "rq0 ''/p''\<lparr>requireBase := Some ''/p/jsrc''\<rparr>"
  have "memo_sound 1 sample_rq ?s" by (simp add: memo_sound_def rq0_def)
  then show ?thesis using memo_is_transparent [of ?s] by simp
qed

text \<open>
  What a program of nested requires does.  \<open>evaluated\<close> is the evaluation a require comes to, if it
  comes to one: the file, the module, the source and the state it starts in.  In \<open>module_run\<close> the source
  of a module is any such program again; JavaScript in between may change anything but the cache
  (\<open>require.cache\<close> is a property programs could reach).  The events are the evaluations.
\<close>

datatype event = Began string | Ended string | Failed string

definition evaluated :: "nat \<Rightarrow> 'w rqsys \<Rightarrow> 'w rqrun \<Rightarrow> string \<Rightarrow> string \<Rightarrow> 'w rq \<Rightarrow> (string \<times> nat \<times> string \<times> 'w rq) option" where
  "evaluated fuel S R spec d s = (case resolveMemo fuel S spec d s of
     (Inl e, s1) \<Rightarrow> None
   | (Inr a, s1) \<Rightarrow> if cached_exports R s1 a \<noteq> None then None else
      (case read_source R a s1 of (Inl e, s2) \<Rightarrow> None | (Inr src, s2) \<Rightarrow>
      (case new_module R a s2 of (Inl e, s3) \<Rightarrow> None | (Inr m, s3) \<Rightarrow>
         Some (a, m, src, s3\<lparr>modcache := (modcache s3)(a \<mapsto> m)\<rparr>))))"

inductive module_run :: "nat \<Rightarrow> 'w rqsys \<Rightarrow> 'w rqrun \<Rightarrow> 'w rq \<Rightarrow> event list \<Rightarrow> 'w rq \<Rightarrow> bool" for fuel S R where
  mod_none: "module_run fuel S R s [] s"
| mod_seq: "module_run fuel S R s es t \<Longrightarrow> module_run fuel S R t fs u \<Longrightarrow> module_run fuel S R s (es @ fs) u"
| mod_js: "modcache t = modcache s \<Longrightarrow> module_run fuel S R s [] t"
| mod_quiet: "evaluated fuel S R spec d s = None \<Longrightarrow> load fuel S R spec d s = (r, t) \<Longrightarrow> module_run fuel S R s [] t"
| mod_load: "evaluated fuel S R spec d s = Some (a, m, src, s1) \<Longrightarrow>
    module_run fuel S R s1 es (snd (eval_module R m src a (dirname a) s1)) \<Longrightarrow> load fuel S R spec d s = (r, t) \<Longrightarrow>
    module_run fuel S R s (Began a # es @ [if isl r then Failed a else Ended a]) t"

text \<open>Reading a source and making the module object leave the cache alone, and so does resolving.\<close>

definition cache_kept :: "'w rqrun \<Rightarrow> bool" where
  "cache_kept R \<longleftrightarrow> (\<forall>a s. modcache (snd (read_source R a s)) = modcache s \<and>
     modcache (snd (new_module R a s)) = modcache s)"

lemma pinBase_cache: "modcache (snd (pinBase fuel S spec s)) = modcache s"
  by (cases "packExtract fuel S (world s)"; cases "fst (packExtract fuel S (world s))"; cases "climbJsrc fuel S (snd (packExtract fuel S (world s)))")
     (auto simp: pinBase_def jbind_def on_world_def Let_def split: option.splits)

lemma resolve_cache: "modcache (snd (resolve fuel S spec d s)) = modcache s"
  using pinBase_cache [of fuel S spec s]
  by (cases "pinBase fuel S spec s"; cases "fst (pinBase fuel S spec s)")
     (auto simp: resolve_def resolveJsrc_def jbind_def Let_def split: list.split)

lemma resolveMemo_cache: "modcache (snd (resolveMemo fuel S spec d s)) = modcache s"
  using resolve_cache [of fuel S spec d s]
  by (auto simp: resolveMemo_def jbind_def jput_def jret_def split: option.split prod.split sum.split)

lemma cached_none: "cached_exports R s a = None \<Longrightarrow> modcache s a = None"
  by (auto simp: cached_exports_def split: option.splits)

lemma evaluatedD:
  assumes "cache_kept R" and "evaluated fuel S R spec d s = Some (a, m, src, s1)"
  shows "modcache s a = None" "modcache s1 = (modcache s)(a \<mapsto> m)"
proof -
  from assms(2) obtain s2 s3 s4 where r: "resolveMemo fuel S spec d s = (Inr a, s2)" "cached_exports R s2 a = None"
    "read_source R a s2 = (Inr src, s3)" "new_module R a s3 = (Inr m, s4)" "s1 = s4\<lparr>modcache := (modcache s4)(a \<mapsto> m)\<rparr>"
    by (auto simp: evaluated_def split: prod.splits sum.splits if_splits)
  have "modcache s2 = modcache s" using resolveMemo_cache [of fuel S spec d s] r(1) by simp
  moreover have "modcache s3 = modcache s2" "modcache s4 = modcache s3"
    using assms(1) r(3,4) unfolding cache_kept_def by (metis snd_conv)+
  ultimately show "modcache s a = None" "modcache s1 = (modcache s)(a \<mapsto> m)"
    using cached_none [OF r(2)] r(5) by simp_all
qed

lemma load_quiet:
  assumes "cache_kept R" and "evaluated fuel S R spec d s = None" and "load fuel S R spec d s = (r, t)"
  shows "modcache t = modcache s"
proof -
  obtain x s1 where r: "resolveMemo fuel S spec d s = (x, s1)" by fastforce
  then have c: "modcache s1 = modcache s" using resolveMemo_cache [of fuel S spec d s] by simp
  have k: "modcache (snd (read_source R a q)) = modcache q" "modcache (snd (new_module R a q)) = modcache q" for a q
    using assms(1) by (simp_all add: cache_kept_def)
  show ?thesis
  proof (cases x)
    case (Inl e)
    with r assms(3) c show ?thesis by (simp add: load_def)
  next
    case (Inr a)
    obtain y s2 where y: "read_source R a s1 = (y, s2)" by fastforce
    obtain z s3 where z: "new_module R a s2 = (z, s3)" by fastforce
    have "modcache s2 = modcache s" "modcache s3 = modcache s" using k(1) [of a s1] k(2) [of a s2] y z c by simp_all
    with assms(2,3) r Inr y z c show ?thesis
      by (cases y; cases z) (auto simp: evaluated_def load_def split: option.splits if_splits)
  qed
qed

lemma load_evaluated:
  assumes "evaluated fuel S R spec d s = Some (a, m, src, s1)" and "load fuel S R spec d s = (r, t)"
  defines "u \<equiv> snd (eval_module R m src a (dirname a) s1)"
  shows "modcache t = (if isl r then (modcache u)(a := None) else modcache u)"
proof -
  from assms(1) obtain s2 s3 s4 where "resolveMemo fuel S spec d s = (Inr a, s2)" "cached_exports R s2 a = None"
    "read_source R a s2 = (Inr src, s3)" "new_module R a s3 = (Inr m, s4)" "s1 = s4\<lparr>modcache := (modcache s4)(a \<mapsto> m)\<rparr>"
    by (auto simp: evaluated_def split: prod.splits sum.splits if_splits)
  with assms(2) show ?thesis
    unfolding u_def by (cases "eval_module R m src a (dirname a) s1"; cases "fst (eval_module R m src a (dirname a) s1)")
      (auto simp: load_def jcatch_def)
qed

text \<open>A file in the cache stays there and is not evaluated again, its own evaluation included.\<close>

lemma cached_stays:
  assumes "cache_kept R" and "module_run fuel S R s es t" and "modcache s a = Some m"
  shows "modcache t a = Some m \<and> Began a \<notin> set es \<and> Failed a \<notin> set es"
  using assms(2,3)
proof (induction rule: module_run.induct)
  case (mod_quiet spec d s r t)
  then show ?case using load_quiet [OF assms(1)] by simp
next
  case (mod_load spec d s b m' src s1 es r t)
  from evaluatedD [OF assms(1) mod_load.hyps(1)] mod_load.prems have "b \<noteq> a" "modcache s1 a = Some m" by auto
  with mod_load.IH load_evaluated [OF mod_load.hyps(1,3)] show ?case by auto
qed auto

text \<open>What the events say of one file: it is evaluated only when it is not in the cache.\<close>

fun log_walk :: "string \<Rightarrow> bool \<Rightarrow> event list \<Rightarrow> bool option" where
  "log_walk a c [] = Some c"
| "log_walk a c (Began b # es) = (if b \<noteq> a then log_walk a c es else if c then None else log_walk a True es)"
| "log_walk a c (Failed b # es) = (if b \<noteq> a then log_walk a c es else if c then log_walk a False es else None)"
| "log_walk a c (Ended b # es) = log_walk a c es"

lemma log_walk_append: "log_walk a c (es @ fs) = (case log_walk a c es of None \<Rightarrow> None | Some c' \<Rightarrow> log_walk a c' fs)"
  by (induction a c es rule: log_walk.induct) auto

lemma log_walk_apart: "Began a \<notin> set es \<Longrightarrow> Failed a \<notin> set es \<Longrightarrow> log_walk a c es = Some c"
  by (induction a c es rule: log_walk.induct) auto

lemma log_walk_to_False: "log_walk a c es = Some False \<Longrightarrow> c \<Longrightarrow> Failed a \<in> set es"
  by (induction a c es rule: log_walk.induct) (auto split: if_splits)

lemma log_walk_to_True: "log_walk a c es = Some c' \<Longrightarrow> Failed a \<notin> set es \<Longrightarrow> c \<or> Began a \<in> set es \<Longrightarrow> c'"
  by (induction a c es rule: log_walk.induct) (auto split: if_splits)

lemma run_walks:
  assumes "cache_kept R" and "module_run fuel S R s es t"
  shows "log_walk a (modcache s a \<noteq> None) es = Some (modcache t a \<noteq> None)"
  using assms(2)
proof (induction rule: module_run.induct)
  case (mod_quiet spec d s r t)
  then show ?case using load_quiet [OF assms(1)] by simp
next
  case (mod_load spec d s b m src s1 es r t)
  note ev = evaluatedD [OF assms(1) mod_load.hyps(1)] and out = load_evaluated [OF mod_load.hyps(1,3)]
  show ?case
  proof (cases "b = a")
    case True
    with ev have "modcache s1 a = Some m" by simp
    from cached_stays [OF assms(1) mod_load.hyps(2) this] True ev(1) out
    show ?thesis by (auto simp: log_walk_append log_walk_apart)
  next
    case False
    with ev mod_load.IH out show ?thesis by (auto simp: log_walk_append split: option.splits)
  qed
qed (auto simp: log_walk_append)

text \<open>
  C25: a module that has not failed is evaluated once.  In any program of nested requires from an empty
  cache that does not write \<open>require.cache\<close>, with cycles, exceptions and other JavaScript in
  between: between two evaluations of one file there is a failed one of it (a cycle does not evaluate
  again what is under way); and after a run in which a file has been evaluated and has not failed, every
  require that resolves to it answers the exports of one module object and changes nothing but what
  resolving changed.
\<close>

theorem modules_run_once:
  assumes "cache_kept R" and "module_run fuel S R s es t" and "modcache s = Map.empty"
  shows "(\<forall>xs ys zs. es = xs @ Began a # ys @ Began a # zs \<longrightarrow> Failed a \<in> set ys) \<and>
    (Began a \<in> set es \<and> Failed a \<notin> set es \<longrightarrow> (\<exists>m. modcache t a = Some m \<and>
       (\<forall>fs u k spec d u'. module_run fuel S R t fs u \<longrightarrow> resolveMemo k S spec d u = (Inr a, u') \<longrightarrow>
          load k S R spec d u = (Inr (exports_of R (world u') m), u'))))"
proof (intro conjI allI impI)
  have w: "log_walk a False es = Some (modcache t a \<noteq> None)"
    using run_walks [OF assms(1,2), of a] assms(3) by simp
  {
    fix xs ys zs
    assume "es = xs @ Began a # ys @ Began a # zs"
    with w have "log_walk a True ys = Some False"
      by (auto simp: log_walk_append split: option.splits if_splits)
    then show "Failed a \<in> set ys" using log_walk_to_False by blast
  }
  assume "Began a \<in> set es \<and> Failed a \<notin> set es"
  with w log_walk_to_True obtain m where m: "modcache t a = Some m" by blast
  have "load k S R spec d u = (Inr (exports_of R (world u') m), u')"
    if "module_run fuel S R t fs u" and r: "resolveMemo k S spec d u = (Inr a, u')" for fs u k spec d u'
  proof -
    have "modcache u' a = Some m"
      using cached_stays [OF assms(1) that(1) m] resolveMemo_cache [of k S spec d u] r by simp
    with r show ?thesis by (simp add: load_def cached_exports_def)
  qed
  with m show "\<exists>m. modcache t a = Some m \<and> (\<forall>fs u k spec d u'. module_run fuel S R t fs u \<longrightarrow>
      resolveMemo k S spec d u = (Inr a, u') \<longrightarrow> load k S R spec d u = (Inr (exports_of R (world u') m), u'))" by blast
qed

text \<open>The file \<open>a.js\<close>, required twice by its path.\<close>

abbreviation a_js :: string where "a_js \<equiv> ''/p/jsrc/a.js''"

lemma sample_resolves:
  "resolved s = Map.empty \<or> resolved s = [memo_key a_js ''/'' \<mapsto> a_js] \<Longrightarrow>
   resolveMemo 1 sample_rq a_js ''/'' s = (Inr a_js, s\<lparr>resolved := [memo_key a_js ''/'' \<mapsto> a_js]\<rparr>)"
  by (auto simp: resolveMemo_def resolve_def isExplicit_def is_abs_def isFile_def sample_rq_def
      normalize_def norm_parts_def norm_step_def jbind_def Let_def)

lemma sample_cache_kept: "cache_kept sample_run"
  by (simp add: cache_kept_def sample_run_def)

theorem modules_run_once_witness:
  "\<exists>es t. module_run 1 sample_rq sample_run (rq0 ''/p'') es t \<and> Began a_js \<in> set es \<and>
     load 1 sample_rq sample_run a_js ''/'' t = (Inr (JNum (js_nat 5)), t)"
proof -
  let ?s1 = "(rq0 ''/p'')\<lparr>resolved := [memo_key a_js ''/'' \<mapsto> a_js], modcache := [a_js \<mapsto> 5]\<rparr>"
  have first: "resolveMemo 1 sample_rq a_js ''/'' (rq0 ''/p'') = (Inr a_js, (rq0 ''/p'')\<lparr>resolved := [memo_key a_js ''/'' \<mapsto> a_js]\<rparr>)"
    by (rule sample_resolves) (simp add: rq0_def)
  have ev: "evaluated 1 sample_rq sample_run a_js ''/'' (rq0 ''/p'') = Some (a_js, 5, ''src'', ?s1)"
    unfolding evaluated_def first by (simp add: cached_exports_def object_proto_def rq0_def sample_run_def)
  have ld: "load 1 sample_rq sample_run a_js ''/'' (rq0 ''/p'') = (Inr (JNum (js_nat 5)), ?s1)"
    unfolding load_def jbind_def first by (simp add: cached_exports_def object_proto_def rq0_def sample_run_def jcatch_def)
  have "module_run 1 sample_rq sample_run ?s1 [] (snd (eval_module sample_run 5 ''src'' a_js (dirname a_js) ?s1))"
    by (simp add: sample_run_def mod_none)
  from mod_load [OF ev this ld] have run: "module_run 1 sample_rq sample_run (rq0 ''/p'') [Began a_js, Ended a_js] ?s1" by simp
  have again: "resolveMemo 1 sample_rq a_js ''/'' ?s1 = (Inr a_js, ?s1)"
    using sample_resolves [of ?s1] by simp
  have "modcache (rq0 ''/p'') = Map.empty" by (simp add: rq0_def)
  from modules_run_once [OF sample_cache_kept run this, of a_js] obtain m where m: "modcache ?s1 a_js = Some m"
    "\<And>fs u k spec d u'. module_run 1 sample_rq sample_run ?s1 fs u \<Longrightarrow> resolveMemo k sample_rq spec d u = (Inr a_js, u') \<Longrightarrow>
       load k sample_rq sample_run spec d u = (Inr (exports_of sample_run (world u') m), u')"
    by auto
  from m(2) [OF mod_none again] m(1) have "load 1 sample_rq sample_run a_js ''/'' ?s1 = (Inr (JNum (js_nat 5)), ?s1)"
    by (simp add: sample_run_def)
  with run show ?thesis by (intro exI conjI) (assumption | simp)+
qed

text \<open>
  The module cache answers for files it never loaded.  The cache is a plain object and its keys
  are file names: a top-level \<open>require ("./constructor")\<close> finds the inherited \<open>constructor\<close> and
  returns undefined without reading the file; and a relative name, cached under the working
  directory of the first call, is returned unread after a change of directory although the same
  name is another file there.
\<close>

theorem cache_answers_for_other_files:
  assumes "isFile S (world s) ''constructor''" and "modcache s ''constructor'' = None"
    and "isFile S (world t) ''x.js''" and "modcache t ''x.js'' = Some m"
  shows "load fuel S R ''./constructor'' ''.'' s = (Inr JUndef, s) \<and>
    load fuel S R ''./x.js'' ''.'' t = (Inr (exports_of R (world t) m), t)"
proof -
  have n: "normalize ''././constructor'' = ''constructor''" "normalize ''././x.js'' = ''x.js''"
    by (simp_all add: normalize_def norm_parts_def norm_step_def is_abs_def)
  have "resolveMemo fuel S ''./constructor'' ''.'' s = (Inr ''constructor'', s)"
    "resolveMemo fuel S ''./x.js'' ''.'' t = (Inr ''x.js'', t)"
    using assms(1,3) n by (simp_all add: resolveMemo_def resolve_def isExplicit_def is_abs_def Let_def)
  then show ?thesis using assms(2,4) by (simp add: load_def cached_exports_def object_proto_def)
qed

theorem cache_answers_for_other_files_witness:
  "load 1 (sample_rq\<lparr>stat_kind := (\<lambda>w p. Some ''reg'')\<rparr>) sample_run ''./constructor'' ''.'' (rq0 ''/p'') =
     (Inr JUndef, rq0 ''/p'')"
proof -
  let ?S = "sample_rq\<lparr>stat_kind := (\<lambda>w p. Some ''reg'')\<rparr>"
  have "isFile ?S (world (rq0 ''/p'')) ''constructor''" "modcache (rq0 ''/p'') ''constructor'' = None"
    "isFile ?S (world (rq0 ''/q''\<lparr>modcache := [''x.js'' \<mapsto> 4]\<rparr>)) ''x.js''"
    "modcache (rq0 ''/q''\<lparr>modcache := [''x.js'' \<mapsto> 4]\<rparr>) ''x.js'' = Some 4"
    by (simp_all add: isFile_def rq0_def)
  from cache_answers_for_other_files [OF this] show ?thesis by blast
qed

text \<open>
  Unpacking ends.  On an archive whose size fields are not negative and fit 31 bits, the loop
  over the entries stops within one turn per 512 bytes, by reaching the end or by an exception.
\<close>

theorem untar_ends:
  assumes "sizes_ok S raw" and "length raw < 512 * fuel"
  shows "fst (packUntar fuel S dir raw 0 w) \<noteq> Inr False"
  using assms packUntar_ends [of S raw 0 fuel dir w] by (cases fuel) auto

theorem untar_ends_witness:
  "fst (packUntar 2 sample_rq ''/t'' (replicate 600 0) 0 ''/p'') \<noteq> Inr False"
proof -
  have "sizes_ok (sample_rq\<lparr>rq_decode := (\<lambda>b. Inr [])\<rparr>) (replicate 600 0)"
    by (simp add: sizes_ok_def packStr_def size_of_entry_def trim_def parse8_def octal_def)
  then have "fst (packUntar 2 (sample_rq\<lparr>rq_decode := (\<lambda>b. Inr [])\<rparr>) ''/t'' (replicate 600 0) 0 ''/p'') \<noteq> Inr False"
    by (rule untar_ends) simp
  then show ?thesis by (simp add: byte_at_def eval_nat_numeral)
qed

end
