(* ===== verification/Pup.thy ===== *)
theory Pup
  imports Leaf
begin

text \<open>
  \<open>pup.c\<close>: handles to sorted-run indexes.  A handle is a slot of a table of 32; behind it is a stack
  of immutable sorted runs, oldest first, and a memtable (dog's \<open>Pup\<close>, the parameter \<open>dogpup\<close>).
  The leaves exist once per lane (kv64, wh128, u64, u32); here they are one set of definitions over
  the record \<open>lane\<close>, which holds what the macros \<open>PUP_*_x\<close> say of a lane.

  The hard part is memory: runs are mapped files, a cursor and the views JavaScript holds point
  into them, and put, commit, drop and close unmap them.  The code bars those leaves while a range
  scan runs (\<open>busy\<close>), detaches the views before the mappings move, and stamps the cursor with the
  version of the stack (\<open>epoch\<close>).
\<close>

section \<open>Parameters\<close>

definition PUP_MAX_OPEN :: nat where "PUP_MAX_OPEN = 32"
definition HIT_MAX_RUNS :: nat where "HIT_MAX_RUNS = 64"
definition PUP_MAX_MEM_PAGES :: nat where "PUP_MAX_MEM_PAGES = 2 ^ 16"
abbreviation PUP_TOOMANY :: exn where
  "PUP_TOOMANY \<equiv> ThrowError ''too many index runs: drop them and re-derive the index''"
abbreviation PUP_BUSY :: exn where
  "PUP_BUSY \<equiv> ThrowError ''this index is being scanned: finish the range first''"

text \<open>
  A slice of rows is a pair of row addresses, the first and one past the last; what lies at an
  address is \<open>'r\<close>.
\<close>

type_synonym slice = "addr \<times> addr"
type_synonym 'r rowmem = "addr \<Rightarrow> 'r"

text \<open>
  A lane, as the macros \<open>PUP_RD_x\<close>, \<open>PUP_PUTVAL_x\<close>, \<open>PUP_EMIT_x\<close>, \<open>PUP_GETV_x\<close>,
  \<open>PUP_KEYEQ_x\<close> and \<open>PUP_STABLE_x\<close> say it.  \<open>Z\<close>, \<open>findGE\<close> and \<open>toc_rows\<close> are
  libabc's and dog's: the order of rows, the search for the first row not below a needle, and how
  many rows one cell of a table of contents covers.
\<close>

record ('w, 'r) lane =
  lname :: string
  Z :: "'r \<Rightarrow> 'r \<Rightarrow> bool"
  findGE :: "'r rowmem \<Rightarrow> slice \<Rightarrow> 'r \<Rightarrow> addr"
  toc_rows :: nat
  rowsize :: nat
  rd_needle :: "jsval \<Rightarrow> ('w, 'r) js"
  rd_row :: "jsval list \<Rightarrow> ('w, 'r) js"
  emit :: "'r \<Rightarrow> jout"
  getv :: "'r \<Rightarrow> jsval"
  keyeq :: "'r \<Rightarrow> 'r \<Rightarrow> bool"
  stable :: bool

text \<open>abc's merge heap over sorted slices (\<open>HITSeekRange\<close>, \<open>Load\<close>, the top, \<open>AdvanceTops\<close>, \<open>Step\<close>).\<close>

record 'r hit =
  hit_seek :: "'r rowmem \<Rightarrow> slice list \<Rightarrow> 'r \<Rightarrow> 'r \<Rightarrow> slice list"
  hit_load :: "'r rowmem \<Rightarrow> slice list \<Rightarrow> slice list option"
  hit_top :: "'r rowmem \<Rightarrow> slice list \<Rightarrow> nat"
  hit_advance :: "'r rowmem \<Rightarrow> slice list \<Rightarrow> slice list"
  hit_step :: "'r rowmem \<Rightarrow> slice list \<Rightarrow> slice list"

text \<open>
  dog's \<open>Pup\<close>: \<open>'p\<close> is a stack with its memtable.  A source is a slice and the slice of its table
  of contents; asking for the sources may tidy the memtable.  \<open>pup_run\<close> (\<open>DOGPupDataRow\<close>) is the base and
  the length in bytes of the rows of a run, for rows of a given size: where a table of contents follows
  the rows, the size decides how much of the file is rows.
\<close>

record ('p, 'r) dogpup =
  pup_open :: "string \<Rightarrow> string \<Rightarrow> ok64 \<times> 'p"
  pup_count :: "'p \<Rightarrow> nat"
  pup_put :: "string \<Rightarrow> string \<Rightarrow> 'r \<Rightarrow> nat \<Rightarrow> 'p \<Rightarrow> ok64 \<times> 'p"
  pup_commit :: "string \<Rightarrow> string \<Rightarrow> bool \<Rightarrow> 'p \<Rightarrow> ok64 \<times> 'p"
  pup_thin :: "string \<Rightarrow> string \<Rightarrow> nat \<Rightarrow> 'p \<Rightarrow> ok64 \<times> 'p"
  pup_drop :: "string \<Rightarrow> string \<Rightarrow> u32 \<Rightarrow> 'p \<Rightarrow> ok64 \<times> 'p"
  pup_sources :: "'p \<Rightarrow> (slice \<times> slice) list option \<times> 'p"
  rowat :: "'p \<Rightarrow> 'r rowmem"
  pup_run :: "nat \<Rightarrow> 'p \<Rightarrow> nat \<Rightarrow> (addr \<times> nat) option"
  pup_none :: 'p
  syspage :: nat
  DOG_PUP_MEM_PAGES :: nat

section \<open>Lanes\<close>

text \<open>The u32 lane's own number gate.\<close>

definition JABCPupU32 :: "'w engine \<Rightarrow> jsval \<Rightarrow> ('w, u32) js" where
  "JABCPupU32 E arg =
     jbind (JABCScalar arg) (\<lambda>_.
     jbind (to_number E arg) (\<lambda>d.
       if \<not> num_le (Fin 0) d \<or> num_lt (Fin 4294967295) d
       then jthrow (ThrowStr ''the u32 index takes a whole number under 2^32'')
       else case c_cast 0 (2 ^ 32 - 1) d of
              None \<Rightarrow> jthrow CUndef
            | Some t \<Rightarrow> if \<not> num_eq d (js_int t)
                        then jthrow (ThrowStr ''the u32 index takes a whole number under 2^32'')
                        else jret (word_of_int t)))"

text \<open>A needle of a pair lane carries the lowest value; the scalar lanes take the scalar.\<close>

definition JABCPupKv64 :: "'w engine \<Rightarrow> jsval \<Rightarrow> ('w, u64 \<times> u64) js" where
  "JABCPupKv64 E arg = jbind (JABCBigU64Of E arg) (\<lambda>k. jret (k, 0))"

definition JABCPupWh128 :: "'w engine \<Rightarrow> jsval \<Rightarrow> ('w, u64 \<times> u64) js" where
  "JABCPupWh128 E arg = jbind (JABCBigU64Of E arg) (\<lambda>k. jret (k, 0))"

definition JABCPupU64 :: "'w engine \<Rightarrow> jsval \<Rightarrow> ('w, u64) js" where
  "JABCPupU64 E arg = JABCBigU64Of E arg"

text \<open>
  Reading \<open>argv[i]\<close>: the leaves are registered with length 0, so the engine does not pad the
  vector, and past its end lies somebody else's memory.
\<close>

definition arg_at :: "jsval list \<Rightarrow> nat \<Rightarrow> ('w, jsval) js" where
  "arg_at argv i = (if i < length argv then jret (argv ! i) else jthrow CUndef)"

definition put_pair :: "'w engine \<Rightarrow> (jsval \<Rightarrow> ('w, u64 \<times> u64) js) \<Rightarrow> jsval list \<Rightarrow> ('w, u64 \<times> u64) js" where
  "put_pair E rd argv =
     jbind (arg_at argv 3) (\<lambda>a. jbind (rd a) (\<lambda>row.
     jbind (arg_at argv 4) (\<lambda>b. jbind (JABCBigU64Of E b) (\<lambda>v. jret (fst row, v)))))"

definition lane_kv64 :: "'w engine \<Rightarrow> (u64 \<times> u64 \<Rightarrow> u64 \<times> u64 \<Rightarrow> bool) \<Rightarrow>
    ((u64 \<times> u64) rowmem \<Rightarrow> slice \<Rightarrow> u64 \<times> u64 \<Rightarrow> addr) \<Rightarrow> nat \<Rightarrow> ('w, u64 \<times> u64) lane" where
  "lane_kv64 E lessr fge per = \<lparr> lname = ''kv64'', Z = lessr, findGE = fge, toc_rows = per, rowsize = 16,
     rd_needle = JABCPupKv64 E, rd_row = put_pair E (JABCPupKv64 E),
     emit = (\<lambda>r. JArr [JABCBigU64 (fst r), JABCBigU64 (snd r)]), getv = (\<lambda>r. JABCBigU64 (snd r)),
     keyeq = (\<lambda>pos needle. fst pos = fst needle), stable = True \<rparr>"

definition lane_wh128 :: "'w engine \<Rightarrow> (u64 \<times> u64 \<Rightarrow> u64 \<times> u64 \<Rightarrow> bool) \<Rightarrow>
    ((u64 \<times> u64) rowmem \<Rightarrow> slice \<Rightarrow> u64 \<times> u64 \<Rightarrow> addr) \<Rightarrow> nat \<Rightarrow> ('w, u64 \<times> u64) lane" where
  "lane_wh128 E lessr fge per = \<lparr> lname = ''wh128'', Z = lessr, findGE = fge, toc_rows = per, rowsize = 16,
     rd_needle = JABCPupWh128 E, rd_row = put_pair E (JABCPupWh128 E),
     emit = (\<lambda>r. JArr [JABCBigU64 (fst r), JABCBigU64 (snd r)]), getv = (\<lambda>r. JABCBigU64 (snd r)),
     keyeq = (\<lambda>pos needle. fst pos = fst needle), stable = False \<rparr>"

definition lane_u64 :: "'w engine \<Rightarrow> (u64 \<Rightarrow> u64 \<Rightarrow> bool) \<Rightarrow>
    (u64 rowmem \<Rightarrow> slice \<Rightarrow> u64 \<Rightarrow> addr) \<Rightarrow> nat \<Rightarrow> ('w, u64) lane" where
  "lane_u64 E lessr fge per = \<lparr> lname = ''u64'', Z = lessr, findGE = fge, toc_rows = per, rowsize = 8,
     rd_needle = JABCPupU64 E, rd_row = (\<lambda>argv. jbind (arg_at argv 3) (JABCPupU64 E)),
     emit = (\<lambda>r. JVal (JABCBigU64 r)), getv = JABCBigU64,
     keyeq = (\<lambda>pos needle. pos = needle), stable = False \<rparr>"

definition lane_u32 :: "'w engine \<Rightarrow> (u32 \<Rightarrow> u32 \<Rightarrow> bool) \<Rightarrow>
    (u32 rowmem \<Rightarrow> slice \<Rightarrow> u32 \<Rightarrow> addr) \<Rightarrow> nat \<Rightarrow> ('w, u32) lane" where
  "lane_u32 E lessr fge per = \<lparr> lname = ''u32'', Z = lessr, findGE = fge, toc_rows = per, rowsize = 4,
     rd_needle = JABCPupU32 E, rd_row = (\<lambda>argv. jbind (arg_at argv 3) (JABCPupU32 E)),
     emit = (\<lambda>r. JVal (JNum (js_int (uint r)))), getv = (\<lambda>r. JNum (js_int (uint r))),
     keyeq = (\<lambda>pos needle. pos = needle), stable = False \<rparr>"

lemma JABCPupU32_prim:
  assumes "\<not> is_obj v"
  shows "JABCPupU32 E v = jbind (to_number E v) (\<lambda>d.
    case whole_of d of
      None \<Rightarrow> jthrow (ThrowStr ''the u32 index takes a whole number under 2^32'')
    | Some t \<Rightarrow> if 0 \<le> t \<and> t \<le> 4294967295 then jret (word_of_int t)
                else jthrow (ThrowStr ''the u32 index takes a whole number under 2^32''))"
  unfolding JABCPupU32_def num_between JABCScalar_prim [OF assms] jbind_jret
  by (rule arg_cong [where f = "jbind (to_number E v)"], rule ext,
      rule bounded_cast [where lo = 0 and hi = 4294967295, unfolded of_int_0 of_int_numeral])
    simp_all

interpretation pup_u32_gate: number_gate E "JABCPupU32 E" uint 0 4294967295 for E
proof
  fix v w t w'
  assume "\<not> is_obj v" "to_number E v w = (Inr (js_int t), w')" "0 \<le> t" "t \<le> 4294967295"
  then show "\<exists>x. JABCPupU32 E v w = (Inr x, w') \<and> uint x = t"
    by (simp add: JABCPupU32_prim uint_word_of_int)
next
  fix v w d w'
  assume "\<not> is_obj v" "to_number E v w = (Inr d, w')"
    and "\<And>t. d = js_int t \<Longrightarrow> 0 \<le> t \<Longrightarrow> t \<le> 4294967295 \<Longrightarrow> False"
  then show "\<exists>m. JABCPupU32 E v w = (Inl (ThrowStr m), w')"
    by (auto simp: JABCPupU32_prim whole_iff split: option.splits)
qed (simp_all add: JABCPupU32_def JABCPupU32_prim)

section \<open>State\<close>

record pupview =
  vbuf :: nat
  vbase :: addr
  vlen :: nat

record 'p pupslot =
  pups :: 'p
  live :: bool
  rw :: bool
  busy :: bool
  pages :: nat
  memrows :: nat
  epoch :: nat
  view :: "nat \<Rightarrow> pupview option"
  nview :: nat

text \<open>A handle's cursor: entries, bound, whether the bound was pulled, armed, the epoch of its cut.\<close>

record 'r pupcur =
  ents :: "slice list"
  curk :: 'r
  curx :: bool
  cura :: bool
  cure :: nat

text \<open>
  \<open>eng\<close> is the engine; \<open>bufs_at\<close> is the memory an array buffer shows: \<open>None\<close> once detached.
  The cursors are those of one lane.
\<close>

record ('w, 'p, 'r) pst =
  eng :: 'w
  slots :: "nat \<Rightarrow> 'p pupslot"
  curs :: "nat \<Rightarrow> 'r pupcur"
  bufs_at :: "nat \<Rightarrow> (addr \<times> nat) option"
  next_buf :: nat

definition on_eng :: "('w, 'a) js \<Rightarrow> (('w, 'p, 'r) pst, 'a) js" where
  "on_eng m = (\<lambda>s. case m (eng s) of (r, w) \<Rightarrow> (r, s\<lparr>eng := w\<rparr>))"

definition set_slot :: "nat \<Rightarrow> ('p pupslot \<Rightarrow> 'p pupslot) \<Rightarrow> ('w, 'p, 'r) pst \<Rightarrow> ('w, 'p, 'r) pst" where
  "set_slot h f s = s\<lparr>slots := (slots s)(h := f (slots s h))\<rparr>"

definition set_cur :: "nat \<Rightarrow> ('r pupcur \<Rightarrow> 'r pupcur) \<Rightarrow> ('w, 'p, 'r) pst \<Rightarrow> ('w, 'p, 'r) pst" where
  "set_cur h f s = s\<lparr>curs := (curs s)(h := f (curs s h))\<rparr>"

section \<open>Gates\<close>

definition JABCPupEnough :: "jsval \<Rightarrow> bool" where
  "JABCPupEnough r = (if is_bool r \<and> \<not> to_bool r then True else if is_str r then r = JStr ''enough'' else False)"

text \<open>A live slot, or nothing; every leaf throws its usage for nothing.\<close>

definition JABCPupSlot :: "'w engine \<Rightarrow> jsval list \<Rightarrow> ('w, 'p, 'r) pst \<Rightarrow> nat option \<times> ('w, 'p, 'r) pst" where
  "JABCPupSlot E argv s =
     (if argv = [] then (None, s)
      else case on_eng (JABCu64Of E (argv ! 0)) s of
        (Inl e, s1) \<Rightarrow> (None, s1)
      | (Inr h, s1) \<Rightarrow>
          if PUP_MAX_OPEN \<le> unat h \<or> \<not> live (slots s1 (unat h)) then (None, s1)
          else (Some (unat h), s1))"

definition pup_slot_or :: "'w engine \<Rightarrow> nat \<Rightarrow> string \<Rightarrow> jsval list \<Rightarrow> (('w, 'p, 'r) pst, nat) js" where
  "pup_slot_or E n usage argv = (\<lambda>s.
     case JABCPupSlot E argv s of
       (None, s1) \<Rightarrow> (Inl (ThrowError usage), s1)
     | (Some h, s1) \<Rightarrow> if length argv < n then (Inl (ThrowError usage), s1) else (Inr h, s1))"

text \<open>\<open>PUP_PATHS\<close>.\<close>

definition pup_paths :: "abc \<Rightarrow> jsval list \<Rightarrow> nat \<Rightarrow> (('w, 'p, 'r) pst, string \<times> string) js" where
  "pup_paths A argv i =
     jbind (path_or A ''the index dir and ext must be strings'' (argv ! i)) (\<lambda>d.
     jbind (path_or A ''the index dir and ext must be strings'' (argv ! (i + 1))) (\<lambda>e. jret (d, e)))"

section \<open>Views and the epoch\<close>

definition JABCPupUnview :: "nat \<Rightarrow> ('w, 'p, 'r) pst \<Rightarrow> ('w, 'p, 'r) pst" where
  "JABCPupUnview h s =
     (if nview (slots s h) = 0 then s
      else set_slot h (\<lambda>sl. sl\<lparr>view := (\<lambda>i. if i < HIT_MAX_RUNS then None else view sl i), nview := 0\<rparr>)
        (s\<lparr>bufs_at := (\<lambda>b. if \<exists>i < HIT_MAX_RUNS. map_option vbuf (view (slots s h) i) = Some b
                          then None else bufs_at s b)\<rparr>))"

definition JABCPupMoved :: "nat \<Rightarrow> ('w, 'p, 'r) pst \<Rightarrow> ('w, 'p, 'r) pst" where
  "JABCPupMoved h s = set_slot h (\<lambda>sl. sl\<lparr>epoch := epoch sl + 1\<rparr>) (JABCPupUnview h s)"

text \<open>
  A view over run \<open>i\<close>, re-minted when the handle's buffer shows something else by now; the result
  is the buffer the fresh view sits on.
\<close>

definition JABCPupView :: "nat \<Rightarrow> nat \<Rightarrow> addr \<times> nat \<Rightarrow> (('w, 'p, 'r) pst, nat) js" where
  "JABCPupView h i run = (\<lambda>s.
     let stale = (case view (slots s h) i of None \<Rightarrow> False
                  | Some v \<Rightarrow> bufs_at s (vbuf v) \<noteq> Some (vbase v, vlen v) \<or> (vbase v, vlen v) \<noteq> run);
         s1 = (if stale then set_slot h (\<lambda>sl. sl\<lparr>view := (view sl)(i := None), nview := nview sl - 1\<rparr>) s else s)
     in case view (slots s1 h) i of
          Some v \<Rightarrow> (Inr (vbuf v), s1)
        | None \<Rightarrow>
            let b = next_buf s1 in
            (Inr b, set_slot h (\<lambda>sl. sl\<lparr>view := (view sl)(i \<mapsto> \<lparr>vbuf = b, vbase = fst run, vlen = snd run\<rparr>),
                                     nview := nview sl + 1\<rparr>)
               (s1\<lparr>bufs_at := (bufs_at s1)(b \<mapsto> run), next_buf := b + 1\<rparr>)))"

section \<open>The memtable's hook\<close>

text \<open>
  \<open>jpup_sync\<close>: PAST and DATA of the memtable are lists of rows here.  Sorting and merging are
  abc's: the stable insertion sort, the introsort, keep-last, and the merge with the ties to the
  younger slice into a scratch of a size.
\<close>

record 'r sorts =
  InSort :: "'r list \<Rightarrow> 'r list"
  sSort :: "'r list \<Rightarrow> 'r list"
  sDedup :: "'r list \<Rightarrow> 'r list"
  hit_merge :: "'r list list \<Rightarrow> nat \<Rightarrow> 'r list option"

fun rows_clean :: "('r \<Rightarrow> 'r \<Rightarrow> bool) \<Rightarrow> 'r list \<Rightarrow> bool" where
  "rows_clean lessr (a # b # rs) = (lessr a b \<and> rows_clean lessr (b # rs))"
| "rows_clean lessr rs = True"

definition jpup_sync :: "('w, 'r) lane \<Rightarrow> 'r sorts \<Rightarrow> nat \<Rightarrow> bool \<Rightarrow> nat \<Rightarrow> 'r list \<times> 'r list \<Rightarrow>
    ('r list \<times> 'r list) option" where
  "jpup_sync L Q page collapse room mem =
     (case mem of (past, dat) \<Rightarrow>
      let dat' = (if rows_clean (Z L) dat then dat
                  else sDedup Q (if stable L \<or> length dat * rowsize L \<le> page then InSort Q dat else sSort Q dat)) in
      if \<not> collapse then Some (past, dat')
      else if past = [] then Some (dat', [])
      else case hit_merge Q [past, dat'] room of
             None \<Rightarrow> None
           | Some merged \<Rightarrow> Some (merged, []))"

text \<open>The compaction merge: the slices of rows, at most 64 of them, into the destination.\<close>

definition jpup_merge :: "'r sorts \<Rightarrow> 'r list list \<Rightarrow> nat \<Rightarrow> ok64 \<times> 'r list" where
  "jpup_merge Q srcs room =
     (if HIT_MAX_RUNS < length srcs then (HITTOOMANY, [])
      else case hit_merge Q srcs room of None \<Rightarrow> (NOROOM, []) | Some m \<Rightarrow> (OK, m))"

section \<open>Lookup and cursor\<close>

text \<open>
  The page of a run that can hold the key: cell \<open>i\<close> of the table of contents covers page \<open>i\<close>.  The
  result is the address of a cell that matches, or the slice of one page.
\<close>

definition jpup_page :: "('w, 'r) lane \<Rightarrow> 'r rowmem \<Rightarrow> slice \<Rightarrow> slice \<Rightarrow> 'r \<Rightarrow> addr option \<times> slice" where
  "jpup_page L M run toc key =
     (let per = toc_rows L in
      if per = 0 \<or> snd toc \<le> fst toc then (None, run)
      else let c = findGE L M toc key;
               i = c - fst toc;
               i = (if c = snd toc \<or> Z L key (M c) then (if i \<noteq> 0 then i - 1 else 0) else i) in
        if i + 1 < snd toc - fst toc \<and> keyeq L (M (fst toc + i + 1)) key then (Some (fst toc + i + 1), run)
        else let a = min (fst run + i * per) (snd run) in
             (None, (a, if a + per < snd run then a + per else snd run)))"

text \<open>The query sources of a handle, oldest first.\<close>

definition jpup_src :: "('p, 'r) dogpup \<Rightarrow> nat \<Rightarrow> (('w, 'p, 'r) pst, (slice \<times> slice) list) js" where
  "jpup_src D h = (\<lambda>s. case pup_sources D (pups (slots s h)) of (r, p) \<Rightarrow>
     (case r of None \<Rightarrow> Inl PUP_TOOMANY | Some srcs \<Rightarrow> Inr srcs, set_slot h (\<lambda>sl. sl\<lparr>pups := p\<rparr>) s))"

text \<open>Walk the sources from the newest: the first that has the key answers.\<close>

fun lookup_from :: "('w, 'r) lane \<Rightarrow> 'r rowmem \<Rightarrow> 'r \<Rightarrow> (slice \<times> slice) list \<Rightarrow> addr option" where
  "lookup_from L M k [] = None"
| "lookup_from L M k ((run, toc) # older) =
     (case jpup_page L M run toc k of
        (Some cell, _) \<Rightarrow> Some cell
      | (None, win) \<Rightarrow>
          let p = findGE L M win k in
          if p < snd win \<and> keyeq L (M p) k then Some p else lookup_from L M k older)"

text \<open>One entry of a cut: from the first row not below the bound; a pulled bound's group is skipped.\<close>

fun skip_group :: "nat \<Rightarrow> ('w, 'r) lane \<Rightarrow> 'r rowmem \<Rightarrow> 'r \<Rightarrow> addr \<Rightarrow> addr \<Rightarrow> addr" where
  "skip_group 0 L M key pos e = pos"
| "skip_group (Suc n) L M key pos e =
     (if pos < e \<and> \<not> Z L key (M pos) then skip_group n L M key (pos + 1) e else pos)"

definition cut_entry :: "('w, 'r) lane \<Rightarrow> 'r rowmem \<Rightarrow> 'r \<Rightarrow> bool \<Rightarrow> slice \<Rightarrow> slice" where
  "cut_entry L M key pulled run =
     (let pos = findGE L M run key in
      (if pulled then skip_group (snd run - pos) L M key pos (snd run) else pos, snd run))"

definition jpup_cut :: "('w, 'r) lane \<Rightarrow> ('p, 'r) dogpup \<Rightarrow> nat \<Rightarrow> (('w, 'p, 'r) pst, unit) js" where
  "jpup_cut L D h =
     jbind (jput (set_cur h (\<lambda>c. c\<lparr>ents := []\<rparr>))) (\<lambda>_.
     jbind (jpup_src D h) (\<lambda>srcs.
     jput (\<lambda>s. set_cur h (\<lambda>c. c\<lparr>
       ents := filter (\<lambda>e. fst e < snd e)
                 (map (\<lambda>x. cut_entry L (rowat D (pups (slots s h))) (curk c) (curx c) (fst x)) srcs),
       cure := epoch (slots s h)\<rparr>) s)))"


section \<open>The leaves\<close>

definition usage :: "('w, 'r) lane \<Rightarrow> string \<Rightarrow> string" where
  "usage L rest = ''_pup_'' @ lname L @ rest"

definition first_free :: "(nat \<Rightarrow> 'p pupslot) \<Rightarrow> nat option" where
  "first_free t = List.find (\<lambda>i. \<not> live (t i)) [0..<PUP_MAX_OPEN]"

definition open_mode :: "jsval list \<Rightarrow> bool" where
  "open_mode argv = (if 3 \<le> length argv \<and> is_str (argv ! 2) then argv ! 2 \<noteq> JStr ''r'' else True)"

definition open_rows :: "'w engine \<Rightarrow> jsval list \<Rightarrow> (('w, 'p, 'r) pst, u64) js" where
  "open_rows E argv =
     (if 4 \<le> length argv \<and> argv ! 3 \<noteq> JUndef
      then jcatch (on_eng (JABCu64Of E (argv ! 3)))
             (\<lambda>_. jthrow (ThrowError ''the index memtable size is a row count''))
      else jret 0)"

definition open_pages :: "('w, 'r) lane \<Rightarrow> ('p, 'r) dogpup \<Rightarrow> u64 \<Rightarrow> nat" where
  "open_pages L D rows =
     (let n = unat (rows * of_nat (rowsize L) + of_nat (syspage D) - 1) div syspage D in
      if n = 0 then DOG_PUP_MEM_PAGES D else n)"

definition jpup_open :: "'w engine \<Rightarrow> abc \<Rightarrow> ('w, 'r) lane \<Rightarrow> ('p, 'r) dogpup \<Rightarrow> jsval list \<Rightarrow>
    (('w, 'p, 'r) pst, jout) js" where
  "jpup_open E A L D argv =
     need 2 (usage L ''_open(dir, ext, mode, mem)'') argv
     (jbind (pup_paths A argv 0) (\<lambda>(dir, ext).
      jbind (open_rows E argv) (\<lambda>rows.
      let n = open_pages L D rows in
      if PUP_MAX_MEM_PAGES < n then jthrow (ThrowError ''the index memtable is too big: ask for fewer rows'')
      else jbind (jget (\<lambda>s. first_free (slots s))) (\<lambda>fr.
        case fr of
          None \<Rightarrow> jthrow (ThrowError ''too many open indexes'')
        | Some h \<Rightarrow>
            (case pup_open D dir ext of (o', p) \<Rightarrow>
               if o' \<noteq> OK \<or> HIT_MAX_RUNS < pup_count D p
               then jbind (jput (set_slot h (\<lambda>sl. sl\<lparr>pups := pup_none D\<rparr>))) (\<lambda>_. jthrow PUP_TOOMANY)
               else jbind (jput (set_slot h (\<lambda>sl. sl\<lparr>pups := p, live := True, rw := open_mode argv, busy := False,
                      pages := n, memrows := n * syspage D div rowsize L\<rparr>))) (\<lambda>_.
                    jbind (jput (set_cur h (\<lambda>c. c\<lparr>ents := [], cura := False\<rparr>))) (\<lambda>_.
                    jbind (jput (JABCPupMoved h)) (\<lambda>_. js_num h))))))))"

text \<open>What the leaves that change a stack check first: writable, and not being scanned.\<close>

definition pup_writable :: "nat \<Rightarrow> (('w, 'p, 'r) pst, unit) js" where
  "pup_writable h = (\<lambda>s.
     if \<not> rw (slots s h) then (Inl (ThrowError ''this index is open read-only''), s)
     else if busy (slots s h) then (Inl PUP_BUSY, s) else (Inr (), s))"

text \<open>A call of dog on the handle's stack; what it fails with is thrown as \<open>err\<close> says.\<close>

definition pup_change :: "nat \<Rightarrow> ('p \<Rightarrow> ok64 \<times> 'p) \<Rightarrow> (ok64 \<Rightarrow> exn) \<Rightarrow> (('w, 'p, 'r) pst, jout) js" where
  "pup_change h f err = (\<lambda>s. case f (pups (slots s h)) of (o', p) \<Rightarrow>
     let s1 = set_slot h (\<lambda>sl. sl\<lparr>pups := p\<rparr>) s in
     if o' = OK then (Inr (JVal JUndef), s1) else (Inl (err o'), s1))"

definition jpup_put :: "'w engine \<Rightarrow> abc \<Rightarrow> ('w, 'r) lane \<Rightarrow> ('p, 'r) dogpup \<Rightarrow> jsval list \<Rightarrow>
    (('w, 'p, 'r) pst, jout) js" where
  "jpup_put E A L D argv =
     jbind (pup_slot_or E 4 (usage L ''_put(h, dir, ext, k[, v])'') argv) (\<lambda>h.
     jbind (pup_writable h) (\<lambda>_.
     jbind (pup_paths A argv 1) (\<lambda>(dir, ext).
     jbind (on_eng (rd_row L argv)) (\<lambda>row.
     jbind (jput (JABCPupMoved h)) (\<lambda>_.
     jbind (jget (\<lambda>s. pages (slots s h))) (\<lambda>n.
     pup_change h (pup_put D dir ext row n)
       (\<lambda>o'. if o' = HITTOOMANY then PUP_TOOMANY else ThrowError ''cannot write to the index'')))))))"

definition jpup_commit :: "'w engine \<Rightarrow> abc \<Rightarrow> ('w, 'r) lane \<Rightarrow> ('p, 'r) dogpup \<Rightarrow> jsval list \<Rightarrow>
    (('w, 'p, 'r) pst, jout) js" where
  "jpup_commit E A L D argv =
     jbind (pup_slot_or E 3 (usage L ''_commit(h, dir, ext[, durable])'') argv) (\<lambda>h.
     jbind (pup_writable h) (\<lambda>_.
     jbind (pup_paths A argv 1) (\<lambda>(dir, ext).
     let durable = (if 4 \<le> length argv \<and> is_bool (argv ! 3) then to_bool (argv ! 3) else True) in
     jbind (jput (JABCPupMoved h)) (\<lambda>_.
     pup_change h (pup_commit D dir ext durable)
       (\<lambda>o'. if o' = HITTOOMANY then PUP_TOOMANY else ThrowError ''cannot commit the index'')))))"

definition jpup_get :: "'w engine \<Rightarrow> ('w, 'r) lane \<Rightarrow> ('p, 'r) dogpup \<Rightarrow> jsval list \<Rightarrow>
    (('w, 'p, 'r) pst, jout) js" where
  "jpup_get E L D argv =
     jbind (pup_slot_or E 2 (usage L ''_get(h, k)'') argv) (\<lambda>h.
     jbind (on_eng (rd_needle L (argv ! 1))) (\<lambda>k.
     jbind (jpup_src D h) (\<lambda>srcs.
     jbind (jget (\<lambda>s. rowat D (pups (slots s h)))) (\<lambda>M.
     case lookup_from L M k (rev srcs) of
       None \<Rightarrow> js_undef
     | Some p \<Rightarrow> jret (JVal (getv L (M p)))))))"

text \<open>
  Past the row on top of the heap: every entry it tops moves on, then the rows that still tie
  with it are stepped over.
\<close>

primrec skip_ties :: "nat \<Rightarrow> ('w, 'r) lane \<Rightarrow> 'r hit \<Rightarrow> 'r rowmem \<Rightarrow> 'r \<Rightarrow> slice list \<Rightarrow> slice list" where
  "skip_ties 0 L H M v es = es"
| "skip_ties (Suc k) L H M v es =
     (if (\<exists>e \<in> set es. fst e < snd e) \<and> \<not> Z L (M (fst (es ! hit_top H M es))) v \<and>
         \<not> Z L v (M (fst (es ! hit_top H M es)))
      then skip_ties k L H M v (hit_step H M es) else es)"

definition rows_left :: "slice list \<Rightarrow> nat" where
  "rows_left es = (\<Sum>e\<leftarrow>es. snd e - fst e)"

definition top_row :: "'r hit \<Rightarrow> 'r rowmem \<Rightarrow> slice list \<Rightarrow> 'r" where
  "top_row H M es = M (fst (es ! hit_top H M es))"

definition past_top :: "('w, 'r) lane \<Rightarrow> 'r hit \<Rightarrow> 'r rowmem \<Rightarrow> slice list \<Rightarrow> slice list" where
  "past_top L H M es = skip_ties (rows_left es) L H M (top_row H M es) (hit_advance H M es)"

text \<open>
  The scan: emit the top row, move past it, call back, stop on an exception or on "enough".  The
  memory is read anew at every turn.
\<close>

primrec scan_rows :: "nat \<Rightarrow> ('w, 'r) lane \<Rightarrow> ('p, 'r) dogpup \<Rightarrow> 'r hit \<Rightarrow>
    (jout \<Rightarrow> (('w, 'p, 'r) pst, jsval) js) \<Rightarrow> nat \<Rightarrow> slice list \<Rightarrow> (('w, 'p, 'r) pst, unit) js" where
  "scan_rows 0 L D H cb h es = jret ()"
| "scan_rows (Suc k) L D H cb h es =
     (if \<forall>e \<in> set es. snd e \<le> fst e then jret ()
      else jbind (jget (\<lambda>s. rowat D (pups (slots s h)))) (\<lambda>M.
        jbind (cb (emit L (top_row H M es))) (\<lambda>r.
        if JABCPupEnough r then jret () else scan_rows k L D H cb h (past_top L H M es))))"

text \<open>An entry of the scan: the table of contents moves its lower end.\<close>

definition range_entry :: "('w, 'r) lane \<Rightarrow> 'r rowmem \<Rightarrow> 'r \<Rightarrow> slice \<times> slice \<Rightarrow> slice" where
  "range_entry L M lo src =
     (case jpup_page L M (fst src) (snd src) lo of
        (Some cell, _) \<Rightarrow> (cell, snd (fst src))
      | (None, win) \<Rightarrow> (fst win, snd (fst src)))"

definition jpup_range :: "'w engine \<Rightarrow> ('w, 'r) lane \<Rightarrow> ('p, 'r) dogpup \<Rightarrow> 'r hit \<Rightarrow>
    (jsval \<Rightarrow> jout \<Rightarrow> (('w, 'p, 'r) pst, jsval) js) \<Rightarrow> jsval list \<Rightarrow> (('w, 'p, 'r) pst, jout) js" where
  "jpup_range E L D H cb argv =
     jbind (pup_slot_or E 4 (usage L ''_range(h, lo, hi, cb)'') argv) (\<lambda>h.
     jbind (on_eng (rd_needle L (argv ! 1))) (\<lambda>lo.
     jbind (on_eng (rd_needle L (argv ! 2))) (\<lambda>hi.
     jbind (jget (\<lambda>s. is_callable E (eng s) (argv ! 3))) (\<lambda>callable.
     if \<not> callable then jthrow (ThrowError ''the range callback must be a function'')
     else jbind (jpup_src D h) (\<lambda>srcs.
     jbind (jget (\<lambda>s. rowat D (pups (slots s h)))) (\<lambda>M.
     case hit_load H M (hit_seek H M (map (range_entry L M lo) srcs) lo hi) of
       None \<Rightarrow> jthrow PUP_TOOMANY
     | Some es \<Rightarrow>
         jbind (jget (\<lambda>s. busy (slots s h))) (\<lambda>was.
         jbind (jput (set_slot h (\<lambda>sl. sl\<lparr>busy := True\<rparr>))) (\<lambda>_.
         jbind (jcatch (scan_rows (rows_left es) L D H (cb (argv ! 3)) h es)
                  (\<lambda>e. jbind (jput (set_slot h (\<lambda>sl. sl\<lparr>busy := was\<rparr>))) (\<lambda>_. jthrow e))) (\<lambda>_.
         jbind (jput (set_slot h (\<lambda>sl. sl\<lparr>busy := was\<rparr>))) (\<lambda>_. js_undef))))))))))"

definition jpup_seek :: "'w engine \<Rightarrow> ('w, 'r) lane \<Rightarrow> ('p, 'r) dogpup \<Rightarrow> jsval list \<Rightarrow>
    (('w, 'p, 'r) pst, jout) js" where
  "jpup_seek E L D argv =
     jbind (pup_slot_or E 2 (usage L ''_seek(h, k)'') argv) (\<lambda>h.
     jbind (on_eng (rd_needle L (argv ! 1))) (\<lambda>k.
     jbind (jput (set_cur h (\<lambda>c. c\<lparr>curk := k, curx := False, cura := True\<rparr>))) (\<lambda>_.
     jbind (jcatch (jpup_cut L D h)
              (\<lambda>e. jbind (jput (set_cur h (\<lambda>c. c\<lparr>cura := False\<rparr>))) (\<lambda>_. jthrow PUP_TOOMANY))) (\<lambda>_.
     js_undef))))"

text \<open>One merged row of the cursor of \<open>h\<close>.\<close>

definition next_row :: "('w, 'r) lane \<Rightarrow> ('p, 'r) dogpup \<Rightarrow> 'r hit \<Rightarrow> nat \<Rightarrow>
    (('w, 'p, 'r) pst, 'r option) js" where
  "next_row L D H h = (\<lambda>s.
     if \<not> cura (curs s h) then (Inr None, s)
     else jbind (if cure (curs s h) \<noteq> epoch (slots s h)
                 then jcatch (jpup_cut L D h)
                   (\<lambda>e. jbind (jput (set_cur h (\<lambda>c. c\<lparr>cura := False\<rparr>))) (\<lambda>_. jthrow PUP_TOOMANY))
                 else jret ()) (\<lambda>_ s.
       let M = rowat D (pups (slots s h)) in
       case hit_load H M (ents (curs s h)) of
         None \<Rightarrow> (Inl PUP_TOOMANY, s)
       | Some es \<Rightarrow>
           if \<forall>e \<in> set es. snd e \<le> fst e
           then (Inr None, set_cur h (\<lambda>c. c\<lparr>ents := es, cura := False\<rparr>) s)
           else let v = top_row H M es in
             (Inr (Some v), set_cur h (\<lambda>c. c\<lparr>ents := past_top L H M es, curk := v, curx := True\<rparr>) s)) s)"

definition jpup_next :: "'w engine \<Rightarrow> ('w, 'r) lane \<Rightarrow> ('p, 'r) dogpup \<Rightarrow> 'r hit \<Rightarrow> jsval list \<Rightarrow>
    (('w, 'p, 'r) pst, jout) js" where
  "jpup_next E L D H argv =
     jbind (pup_slot_or E 0 (usage L ''_next(h)'') argv) (\<lambda>h.
     jbind (next_row L D H h) (\<lambda>r. jret (case r of None \<Rightarrow> JVal JUndef | Some v \<Rightarrow> emit L v)))"

definition jpup_count :: "'w engine \<Rightarrow> ('w, 'r) lane \<Rightarrow> ('p, 'r) dogpup \<Rightarrow> jsval list \<Rightarrow>
    (('w, 'p, 'r) pst, jout) js" where
  "jpup_count E L D argv =
     jbind (pup_slot_or E 0 (usage L ''_count(h)'') argv) (\<lambda>h.
     jbind (jget (\<lambda>s. pup_count D (pups (slots s h)))) (\<lambda>n. js_num n))"

text \<open>A view over the rows of a committed run; the value is the buffer it sits on.\<close>

definition jpup_run :: "'w engine \<Rightarrow> ('w, 'r) lane \<Rightarrow> ('p, 'r) dogpup \<Rightarrow> jsval list \<Rightarrow>
    (('w, 'p, 'r) pst, nat) js" where
  "jpup_run E L D argv =
     jbind (pup_slot_or E 2 (usage L ''_run(h, i)'') argv) (\<lambda>h.
     jbind (on_eng (JABCu64Of E (argv ! 1))) (\<lambda>i.
     jbind (jget (\<lambda>s. pups (slots s h))) (\<lambda>p.
     if pup_count D p \<le> unat i \<or> HIT_MAX_RUNS \<le> unat i then jthrow (ThrowError ''no such index run'')
     else case pup_run D (rowsize L) p (unat i) of
       None \<Rightarrow> jthrow (ThrowError ''no such index run'')
     | Some run \<Rightarrow> JABCPupView h (unat i) run)))"

definition jpup_drop :: "'w engine \<Rightarrow> abc \<Rightarrow> ('w, 'r) lane \<Rightarrow> ('p, 'r) dogpup \<Rightarrow> jsval list \<Rightarrow>
    (('w, 'p, 'r) pst, jout) js" where
  "jpup_drop E A L D argv =
     jbind (pup_slot_or E 3 (usage L ''_drop(h, dir, ext[, i])'') argv) (\<lambda>h.
     jbind (pup_writable h) (\<lambda>_.
     jbind (pup_paths A argv 1) (\<lambda>(dir, ext).
     jbind (jput (JABCPupMoved h)) (\<lambda>_.
     jbind (jput (set_cur h (\<lambda>c. c\<lparr>ents := [], cura := False\<rparr>))) (\<lambda>_.
     if length argv < 4 \<or> argv ! 3 = JUndef
     then jbind (jget (\<lambda>s. pup_count D (pups (slots s h)))) (\<lambda>n.
          pup_change h (pup_thin D dir ext n) (\<lambda>_. ThrowError ''cannot drop the index runs''))
     else jbind (on_eng (JABCu64Of E (argv ! 3))) (\<lambda>i.
          pup_change h (pup_drop D dir ext (ucast i)) (\<lambda>_. ThrowError ''no such index run'')))))))"

definition jpup_close :: "'w engine \<Rightarrow> ('w, 'r) lane \<Rightarrow> ('p, 'r) dogpup \<Rightarrow> jsval list \<Rightarrow>
    (('w, 'p, 'r) pst, jout) js" where
  "jpup_close E L D argv =
     jbind (pup_slot_or E 0 (usage L ''_close(h)'') argv) (\<lambda>h.
     jbind (jget (\<lambda>s. busy (slots s h))) (\<lambda>b.
     if b then jthrow PUP_BUSY
     else jbind (jput (JABCPupMoved h)) (\<lambda>_.
     jbind (jput (set_slot h (\<lambda>sl. sl\<lparr>pups := pup_none D, live := False\<rparr>))) (\<lambda>_.
     jbind (jput (set_cur h (\<lambda>c. c\<lparr>ents := [], cura := False\<rparr>))) (\<lambda>_.
     js_undef)))))"

definition jpup_mem :: "'w engine \<Rightarrow> jsval list \<Rightarrow> (('w, 'p, 'r) pst, jout) js" where
  "jpup_mem E argv =
     jbind (pup_slot_or E 0 ''_pup_mem(h)'' argv) (\<lambda>h.
     jbind (jget (\<lambda>s. memrows (slots s h))) (\<lambda>n. js_num n))"

definition JABCUninstallPup :: "('w, 'p, 'r) pst \<Rightarrow> ('w, 'p, 'r) pst" where
  "JABCUninstallPup s = fold JABCPupUnview [0..<PUP_MAX_OPEN] s"

section \<open>A concrete instance\<close>

text \<open>
  A search, a heap and a stack that satisfy what is relied on, for the closed instances: the stack is
  one run of u64 rows at a base address that every put moves.
\<close>

definition sample_find :: "('r \<Rightarrow> 'r \<Rightarrow> bool) \<Rightarrow> 'r rowmem \<Rightarrow> slice \<Rightarrow> 'r \<Rightarrow> addr" where
  "sample_find lt M run k =
     (case List.find (\<lambda>a. \<not> lt (M a) k) [fst run..<snd run] of None \<Rightarrow> max (fst run) (snd run) | Some a \<Rightarrow> a)"

definition sample_top :: "('r \<Rightarrow> 'r \<Rightarrow> bool) \<Rightarrow> 'r rowmem \<Rightarrow> slice list \<Rightarrow> nat" where
  "sample_top lt M es = last (0 # filter (\<lambda>i. fst (es ! i) < snd (es ! i) \<and>
     list_all (\<lambda>e. fst e < snd e \<longrightarrow> \<not> lt (M (fst e)) (M (fst (es ! i)))) es) [0..<length es])"

definition sample_hit :: "('r \<Rightarrow> 'r \<Rightarrow> bool) \<Rightarrow> 'r hit" where
  "sample_hit lt = \<lparr>
     hit_seek = (\<lambda>M es lo hi. map (\<lambda>e. (sample_find lt M e lo, sample_find lt M e hi)) es),
     hit_load = (\<lambda>M es. if length es \<le> HIT_MAX_RUNS then Some (filter (\<lambda>e. fst e < snd e) es) else None),
     hit_top = sample_top lt,
     hit_advance = (\<lambda>M es. map (\<lambda>e. let v = M (fst (es ! sample_top lt M es)) in
        if fst e < snd e \<and> \<not> lt (M (fst e)) v \<and> \<not> lt v (M (fst e)) then (fst e + 1, snd e) else e) es),
     hit_step = (\<lambda>M es. if list_ex (\<lambda>e. fst e < snd e) es
        then es[sample_top lt M es := (fst (es ! sample_top lt M es) + 1, snd (es ! sample_top lt M es))] else es) \<rparr>"

definition sample_pup :: "(nat \<times> u64 list, u64) dogpup" where
  "sample_pup = \<lparr>
     pup_open = (\<lambda>d e. (OK, (1, [2, 4, 6]))),
     pup_count = (\<lambda>p. 1),
     pup_put = (\<lambda>d e r n p. (OK, (fst p + 100, snd p @ [r]))),
     pup_commit = (\<lambda>d e b p. (OK, (fst p + 100, snd p))),
     pup_thin = (\<lambda>d e n p. (OK, (fst p + 100, []))),
     pup_drop = (\<lambda>d e i p. if i = 0 then (OK, (fst p + 100, [])) else (MISS, p)),
     pup_sources = (\<lambda>p. (Some [((fst p, fst p + length (snd p)), (0, 0))], p)),
     rowat = (\<lambda>p a. if fst p \<le> a \<and> a < fst p + length (snd p) then snd p ! (a - fst p) else 0),
     pup_run = (\<lambda>w p i. if i = 0 then Some (fst p, length (snd p)) else None),
     pup_none = (0, []),
     syspage = 4096,
     DOG_PUP_MEM_PAGES = 1 \<rparr>"

definition sample_lane :: "(sample_state, u64) lane" where
  "sample_lane = lane_u64 sample_engine (<) (sample_find (<)) 0"

lemma sample_find_ge: "fst run \<le> sample_find lt M run k"
  by (auto simp: sample_find_def find_Some_iff split: option.splits)

lemma sample_find_le: "fst run \<le> snd run \<Longrightarrow> sample_find lt M run k \<le> snd run"
  by (auto simp: sample_find_def find_Some_iff less_imp_le split: option.splits)

lemma sample_lane_fields [simp]:
  "lname sample_lane = ''u64''" "Z sample_lane = (<)" "findGE sample_lane = sample_find (<)"
  "toc_rows sample_lane = 0" "rowsize sample_lane = 8" "rd_needle sample_lane = JABCPupU64 sample_engine"
  "rd_row sample_lane = (\<lambda>argv. jbind (arg_at argv 3) (JABCPupU64 sample_engine))"
  "emit sample_lane = (\<lambda>r. JVal (JABCBigU64 r))" "getv sample_lane = JABCBigU64" "keyeq sample_lane = (=)"
  by (simp_all add: sample_lane_def lane_u64_def fun_eq_iff)

lemma sample_pup_fields [simp]:
  "pup_open sample_pup d e = (OK, (1, [2, 4, 6]))"
  "pup_count sample_pup p = 1"
  "pup_put sample_pup d e r n p = (OK, (fst p + 100, snd p @ [r]))"
  "pup_sources sample_pup p = (Some [((fst p, fst p + length (snd p)), (0, 0))], p)"
  "rowat sample_pup p a = (if fst p \<le> a \<and> a < fst p + length (snd p) then snd p ! (a - fst p) else 0)"
  "pup_run sample_pup w p i = (if i = 0 then Some (fst p, length (snd p)) else None)"
  "pup_drop sample_pup d e j p = (if j = 0 then (OK, (fst p + 100, [])) else (MISS, p))"
  "pup_none sample_pup = (0, [])" "syspage sample_pup = 4096" "DOG_PUP_MEM_PAGES sample_pup = 1"
  by (simp_all add: sample_pup_def)

end
