(* ===== verification/Triple.thy ===== *)
theory Triple
  imports Prelude
begin

text \<open>
  Pre- and postconditions for the leaf monad.  A triple says what holds after a computation that
  returned and after one that threw; the components use it to carry an invariant through a leaf.
\<close>

definition triple :: "('w \<Rightarrow> bool) \<Rightarrow> ('w, 'a) js \<Rightarrow> ('a \<Rightarrow> 'w \<Rightarrow> bool) \<Rightarrow> ('w \<Rightarrow> bool) \<Rightarrow> bool" where
  "triple P m Q R = (\<forall>w. P w \<longrightarrow> (case m w of (Inr x, w') \<Rightarrow> Q x w' | (Inl e, w') \<Rightarrow> R w'))"

named_theorems triple_intros "rules that split a triple along the code"

lemma tripleI:
  "(\<And>w x w'. P w \<Longrightarrow> m w = (Inr x, w') \<Longrightarrow> Q x w') \<Longrightarrow>
   (\<And>w e w'. P w \<Longrightarrow> m w = (Inl e, w') \<Longrightarrow> R w') \<Longrightarrow> triple P m Q R"
  by (auto simp: triple_def split: prod.splits sum.splits)

lemma tripleD_Inr: "triple P m Q R \<Longrightarrow> P w \<Longrightarrow> m w = (Inr x, w') \<Longrightarrow> Q x w'"
  unfolding triple_def by (drule spec [of _ w]) simp

lemma tripleD_Inl: "triple P m Q R \<Longrightarrow> P w \<Longrightarrow> m w = (Inl e, w') \<Longrightarrow> R w'"
  unfolding triple_def by (drule spec [of _ w]) simp

lemma tripleD_snd: "triple P m (\<lambda>_. R) R \<Longrightarrow> P w \<Longrightarrow> R (snd (m w))"
  unfolding triple_def by (drule spec [of _ w]) (auto split: prod.splits sum.splits)

lemma triple_pre: "triple P' m Q R \<Longrightarrow> (\<And>w. P w \<Longrightarrow> P' w) \<Longrightarrow> triple P m Q R"
  by (auto simp: triple_def)

lemma triple_post:
  "triple P m Q' R' \<Longrightarrow> (\<And>x w. Q' x w \<Longrightarrow> Q x w) \<Longrightarrow> (\<And>w. R' w \<Longrightarrow> R w) \<Longrightarrow> triple P m Q R"
  by (fastforce simp: triple_def split: prod.splits sum.splits)

lemma triple_bind [triple_intros]:
  "triple P m Q' R \<Longrightarrow> (\<And>x. triple (Q' x) (f x) Q R) \<Longrightarrow> triple P (jbind m f) Q R"
  by (rule tripleI) (auto simp: jbind_eq_Inr jbind_eq_Inl dest: tripleD_Inr tripleD_Inl)

lemma triple_ret: "(\<And>w. P w \<Longrightarrow> Q x w) \<Longrightarrow> triple P (jret x) Q R"
  by (simp add: triple_def)

lemma triple_throw: "(\<And>w. P w \<Longrightarrow> R w) \<Longrightarrow> triple P (jthrow e) Q R"
  by (simp add: triple_def)

lemma triple_get: "(\<And>w. P w \<Longrightarrow> Q (f w) w) \<Longrightarrow> triple P (jget f) Q R"
  by (simp add: triple_def)

lemma triple_put: "(\<And>w. P w \<Longrightarrow> Q () (f w)) \<Longrightarrow> triple P (jput f) Q R"
  by (simp add: triple_def)

lemma triple_if [triple_intros]:
  "(b \<Longrightarrow> triple P m Q R) \<Longrightarrow> (\<not> b \<Longrightarrow> triple P n Q R) \<Longrightarrow> triple P (if b then m else n) Q R"
  by simp

lemma triple_option [triple_intros]:
  "(x = None \<Longrightarrow> triple P m Q R) \<Longrightarrow> (\<And>y. x = Some y \<Longrightarrow> triple P (f y) Q R) \<Longrightarrow>
   triple P (case x of None \<Rightarrow> m | Some y \<Rightarrow> f y) Q R"
  by (cases x) auto

lemma triple_prod [triple_intros]:
  "(\<And>a b. x = (a, b) \<Longrightarrow> triple P (f a b) Q R) \<Longrightarrow> triple P (case x of (a, b) \<Rightarrow> f a b) Q R"
  by (cases x) auto

lemma triple_catch:
  "triple P m Q R' \<Longrightarrow> (\<And>e. triple R' (h e) Q R) \<Longrightarrow> triple P (jcatch m h) Q R"
  by (rule tripleI)
     (auto simp: jcatch_def split: prod.splits sum.splits dest: tripleD_Inr tripleD_Inl)

lemma triple_quiet: "quiet m \<Longrightarrow> (\<And>x w. P w \<Longrightarrow> Q x w) \<Longrightarrow> (\<And>w. P w \<Longrightarrow> R w) \<Longrightarrow> triple P m Q R"
  by (rule tripleI) (auto dest: quietD)

end
