(* ===== verification/PupSafe.thy ===== *)
theory PupSafe
  imports Pup Triple
begin

text \<open>
  What keeps the memory of an index safe.  The mappings of a handle move under put, commit, drop
  and close; JavaScript holds views over them, the cursor holds addresses in them, and a range
  scan holds addresses in them while a callback runs.  Three invariants of JavaScript programs over
  the leaves say that none of the three is stale.  Each is an instance of one locale, whose lemmas walk
  the leaves once.  The leaves of the four lanes work on one table of handles; the views are treated
  over programs that mix the lanes, the cursor and the scan over programs of one lane.
\<close>

section \<open>Programs\<close>

text \<open>
  JavaScript between two leaves: it changes the engine, and it can detach a buffer it holds
  (\<open>ArrayBuffer.transfer\<close>), never attach one.
\<close>

definition js_between :: "('w, 'p, 'r) pst \<Rightarrow> ('w, 'p, 'r) pst \<Rightarrow> bool" where
  "js_between s s' \<longleftrightarrow> slots s' = slots s \<and> curs s' = curs s \<and> next_buf s' = next_buf s \<and>
     (\<forall>b. bufs_at s' b = bufs_at s b \<or> bufs_at s' b = None)"

text \<open>The leaves of one lane, other than \<open>_run\<close>, which lends a view, and \<open>_range\<close>, which calls back.\<close>

inductive pup_leaf :: "'w engine \<Rightarrow> abc \<Rightarrow> ('w, 'r) lane \<Rightarrow> ('p, 'r) dogpup \<Rightarrow> 'r hit \<Rightarrow>
    (('w, 'p, 'r) pst \<Rightarrow> ('w, 'p, 'r) pst) \<Rightarrow> bool"
  for E A L D H where
  leaf_open: "pup_leaf E A L D H (\<lambda>s. snd (jpup_open E A L D argv s))"
| leaf_put: "pup_leaf E A L D H (\<lambda>s. snd (jpup_put E A L D argv s))"
| leaf_commit: "pup_leaf E A L D H (\<lambda>s. snd (jpup_commit E A L D argv s))"
| leaf_get: "pup_leaf E A L D H (\<lambda>s. snd (jpup_get E L D argv s))"
| leaf_seek: "pup_leaf E A L D H (\<lambda>s. snd (jpup_seek E L D argv s))"
| leaf_next: "pup_leaf E A L D H (\<lambda>s. snd (jpup_next E L D H argv s))"
| leaf_count: "pup_leaf E A L D H (\<lambda>s. snd (jpup_count E L D argv s))"
| leaf_drop: "pup_leaf E A L D H (\<lambda>s. snd (jpup_drop E A L D argv s))"
| leaf_close: "pup_leaf E A L D H (\<lambda>s. snd (jpup_close E L D argv s))"
| leaf_mem: "pup_leaf E A L D H (\<lambda>s. snd (jpup_mem E argv s))"

text \<open>
  The effect of a JavaScript program over the leaves of one lane: any composition and choice of them;
  the callback of a range is a program itself.
\<close>

inductive pup_prog :: "'w engine \<Rightarrow> abc \<Rightarrow> ('w, 'r) lane \<Rightarrow> ('p, 'r) dogpup \<Rightarrow> 'r hit \<Rightarrow>
    (('w, 'p, 'r) pst \<Rightarrow> ('w, 'p, 'r) pst) \<Rightarrow> bool"
  for E A L D H where
  prog_js: "(\<And>s. js_between s (f s)) \<Longrightarrow> pup_prog E A L D H f"
| prog_seq: "pup_prog E A L D H f \<Longrightarrow> pup_prog E A L D H g \<Longrightarrow> pup_prog E A L D H (\<lambda>s. g (f s))"
| prog_if: "pup_prog E A L D H f \<Longrightarrow> pup_prog E A L D H g \<Longrightarrow>
    pup_prog E A L D H (\<lambda>s. if P s then f s else g s)"
| prog_leaf: "pup_leaf E A L D H f \<Longrightarrow> pup_prog E A L D H f"
| prog_run: "pup_prog E A L D H (\<lambda>s. snd (jpup_run E L D argv s))"
| prog_range: "(\<And>f v. pup_prog E A L D H (\<lambda>s. snd (cb f v s))) \<Longrightarrow>
    pup_prog E A L D H (\<lambda>s. snd (jpup_range E L D H cb argv s))"

section \<open>What is relied on\<close>

text \<open>A slice starts inside another and ends where it ends.\<close>

definition tail_of :: "slice \<Rightarrow> slice \<Rightarrow> bool" where
  "tail_of e run \<longleftrightarrow> fst run \<le> fst e \<and> snd e = snd run"

definition tails_of :: "slice list \<Rightarrow> slice list \<Rightarrow> bool" where
  "tails_of es runs \<longleftrightarrow> (\<forall>e \<in> set es. \<exists>r \<in> set runs. tail_of e r)"

text \<open>
  The documented behaviour of the libraries: asking for the sources tidies the memtable once and
  for all and moves no run; the search returns an address of its slice; the heap moves the
  beginnings of its slices forward.
\<close>

definition pup_laws :: "('w, 'r) lane \<Rightarrow> ('p, 'r) dogpup \<Rightarrow> 'r hit \<Rightarrow> bool" where
  "pup_laws L D H \<longleftrightarrow>
     (\<forall>p. pup_sources D (snd (pup_sources D p)) = pup_sources D p) \<and>
     (\<forall>w p. pup_run D w (snd (pup_sources D p)) = pup_run D w p) \<and>
     (\<forall>M run k. fst run \<le> findGE L M run k) \<and>
     (\<forall>M es es'. hit_load H M es = Some es' \<longrightarrow> set es' \<subseteq> set es) \<and>
     (\<forall>M es. tails_of (hit_advance H M es) es) \<and>
     (\<forall>M es. tails_of (hit_step H M es) es)"

lemma pup_lawD:
  assumes "pup_laws L D H"
  shows "pup_sources D (snd (pup_sources D p)) = pup_sources D p"
    and "pup_run D w (snd (pup_sources D p)) = pup_run D w p"
    and "fst run \<le> findGE L M run k"
    and "hit_load H M es = Some es' \<Longrightarrow> set es' \<subseteq> set es"
    and "tails_of (hit_advance H M es) es"
    and "tails_of (hit_step H M es) es"
  using assms unfolding pup_laws_def by blast+

lemma tails_refl: "set es' \<subseteq> set es \<Longrightarrow> tails_of es' es"
  by (auto simp: tails_of_def tail_of_def)

lemma tails_trans: "tails_of a b \<Longrightarrow> tails_of b c \<Longrightarrow> tails_of a c"
  unfolding tails_of_def tail_of_def by (metis order.trans)

lemma tails_skip:
  assumes "pup_laws L D H"
  shows "tails_of (skip_ties k L H M v es) es"
proof (induction k arbitrary: es)
  case (Suc k)
  have "tails_of (skip_ties k L H M v (hit_step H M es)) es"
    by (rule tails_trans [OF Suc]) (use assms in \<open>simp add: pup_laws_def\<close>)
  then show ?case by (simp add: tails_refl)
qed (simp add: tails_refl)

lemma tails_past_top: "pup_laws L D H \<Longrightarrow> tails_of (past_top L H M es) es"
  unfolding past_top_def by (rule tails_trans [OF tails_skip]) (auto simp: pup_laws_def)

lemma skip_group_ge: "pos \<le> skip_group n L M k pos e"
  by (induction n arbitrary: pos) (auto intro: le_trans [OF le_SucI])

lemma cut_entry_tail: "pup_laws L D H \<Longrightarrow> tail_of (cut_entry L M k x run) run"
  by (auto simp: tail_of_def cut_entry_def Let_def intro: le_trans [OF pup_lawD(3) skip_group_ge] pup_lawD(3))

text \<open>
  The contract of an invariant: every elementary change the leaves make keeps it, under the guard
  the leaves have checked by then.  \<open>loose h\<close> is what the invariant has established of a handle once
  \<open>JABCPupMoved\<close> ran, and needs when the stack of the handle changes; \<open>fits h\<close> is what it needs of a
  handle before \<open>_run\<close> lends a view.
\<close>

locale pup_invariant =
  fixes L :: "('w, 'r) lane" and D :: "('p, 'r) dogpup" and H :: "'r hit"
    and I :: "('w, 'p, 'r) pst \<Rightarrow> bool" and loose :: "nat \<Rightarrow> ('w, 'p, 'r) pst \<Rightarrow> bool"
    and fits :: "nat \<Rightarrow> ('w, 'p, 'r) pst \<Rightarrow> bool"
  assumes laws_of: "I s \<Longrightarrow> pup_laws L D H"
    and keep_js: "I s \<Longrightarrow> js_between s s' \<Longrightarrow> I s'"
    and keep_src: "I s \<Longrightarrow> pup_sources D (pups (slots s h)) = (r, p) \<Longrightarrow>
      I (set_slot h (\<lambda>sl. sl\<lparr>pups := p\<rparr>) s)"
    and keep_moved: "I s \<Longrightarrow> \<not> busy (slots s h) \<Longrightarrow>
      I (JABCPupMoved h s) \<and> loose h (JABCPupMoved h s) \<and> \<not> busy (slots (JABCPupMoved h s) h)"
    and loose_js: "loose h s \<Longrightarrow> js_between s s' \<Longrightarrow> loose h s'"
    and loose_cur: "loose h s \<Longrightarrow> loose h (set_cur h (\<lambda>c. c\<lparr>ents := es, cura := a\<rparr>) s)"
    and keep_change: "I s \<Longrightarrow> \<not> busy (slots s h) \<Longrightarrow> loose h s \<Longrightarrow>
      I (set_slot h (\<lambda>sl. sl\<lparr>pups := p\<rparr>) s)"
    and keep_dead: "I s \<Longrightarrow> \<not> live (slots s h) \<Longrightarrow> I (set_slot h (\<lambda>sl. sl\<lparr>pups := p\<rparr>) s)"
    and keep_open: "I s \<Longrightarrow> \<not> live (slots s h) \<Longrightarrow>
      I (JABCPupMoved h (set_cur h (\<lambda>c. c\<lparr>ents := [], cura := False\<rparr>)
          (set_slot h (\<lambda>sl. sl\<lparr>pups := p, live := True, rw := m, busy := False, pages := n, memrows := k\<rparr>) s)))"
    and keep_close: "I s \<Longrightarrow> \<not> busy (slots s h) \<Longrightarrow> loose h s \<Longrightarrow>
      I (set_slot h (\<lambda>sl. sl\<lparr>pups := p, live := False\<rparr>) s)"
    and keep_busy: "I s \<Longrightarrow> I (set_slot h (\<lambda>sl. sl\<lparr>busy := True\<rparr>) s)"
    and keep_unbusy: "I s0 \<Longrightarrow> I s \<Longrightarrow> I (set_slot h (\<lambda>sl. sl\<lparr>busy := busy (slots s0 h)\<rparr>) s)"
    and fits_eng: "fits h s \<Longrightarrow> fits h (s\<lparr>eng := w\<rparr>)"
    and keep_view: "I s \<Longrightarrow> fits h s \<Longrightarrow> live (slots s h) \<Longrightarrow> i < HIT_MAX_RUNS \<Longrightarrow>
      pup_run D (rowsize L) (pups (slots s h)) i = Some run \<Longrightarrow> I (snd (JABCPupView h i run s))"
    and keep_cur: "I s \<Longrightarrow> cure c = cure (curs s h) \<Longrightarrow> tails_of (ents c) (ents (curs s h)) \<Longrightarrow>
      I (set_cur h (\<lambda>_. c) s)"
    and keep_cut: "I s \<Longrightarrow> fst (pup_sources D (pups (slots s h))) = Some srcs \<Longrightarrow>
      tails_of es (map fst srcs) \<Longrightarrow>
      I (set_cur h (\<lambda>c. c\<lparr>ents := es, cure := epoch (slots s h)\<rparr>) s)"
begin

abbreviation keeps :: "(('w, 'p, 'r) pst, 'a) js \<Rightarrow> bool" where
  "keeps m \<equiv> triple I m (\<lambda>_. I) I"

lemma with_laws: "(pup_laws L D H \<Longrightarrow> triple I m Q R) \<Longrightarrow> triple I m Q R"
  using laws_of by (auto simp: triple_def)

lemma js_between_eng: "js_between s (s\<lparr>eng := w\<rparr>)"
  by (simp add: js_between_def)

lemma keeps_eng: "keeps (on_eng m)"
  by (rule tripleI) (auto simp: on_eng_def split: prod.splits intro: keep_js js_between_eng)

lemma keeps_paths: "keeps (pup_paths A argv i)"
  unfolding pup_paths_def by (rule triple_quiet) (auto intro!: quiet_intros)

lemma keeps_get: "keeps (jget f)"
  by (rule triple_get)

lemma keeps_slot: "triple I (pup_slot_or E n u argv) (\<lambda>h s. I s \<and> live (slots s h)) I"
  by (rule tripleI)
     (auto simp: pup_slot_or_def JABCPupSlot_def on_eng_def
       split: prod.splits option.splits sum.splits if_splits intro: keep_js js_between_eng)

lemma keeps_slot': "keeps (pup_slot_or E n u argv)"
  by (rule triple_post [OF keeps_slot]) auto

lemma keeps_writable: "triple I (pup_writable h) (\<lambda>_ s. I s \<and> \<not> busy (slots s h)) I"
  by (rule tripleI) (auto simp: pup_writable_def split: if_splits)

lemma keeps_src: "keeps (jpup_src D h)"
  by (rule tripleI) (auto simp: jpup_src_def split: prod.splits intro: keep_src)

lemma src_Inr:
  "triple I (jpup_src D h) (\<lambda>srcs s. I s \<and> fst (pup_sources D (pups (slots s h))) = Some srcs) I"
proof (rule tripleI)
  fix w x w'
  assume I: "I w" and "jpup_src D h w = (Inr x, w')"
  moreover have "pup_sources D (snd (pup_sources D p)) = pup_sources D p" for p
    by (rule pup_lawD(1) [OF laws_of [OF I]])
  ultimately show "I w' \<and> fst (pup_sources D (pups (slots w' h))) = Some x"
    by (auto simp: jpup_src_def set_slot_def split: prod.splits option.splits intro: keep_src [unfolded set_slot_def])
      (metis fst_conv snd_conv)+
qed (rule tripleD_Inl [OF keeps_src])

lemma keeps_cut: "keeps (jpup_cut L D h)"
proof (rule with_laws)
  assume laws: "pup_laws L D H"
  have clear: "I (set_cur h (\<lambda>c. c\<lparr>ents := []\<rparr>) s)" if "I s" for s
    using keep_cur [OF that, of "(curs s h)\<lparr>ents := []\<rparr>" h] by (simp add: set_cur_def tails_of_def)
  have cut: "I (set_cur h (\<lambda>c. c\<lparr>ents := filter (\<lambda>e. fst e < snd e)
        (map (\<lambda>x. cut_entry L M (curk c) (curx c) (fst x)) srcs), cure := epoch (slots s h)\<rparr>) s)"
    if "I s" and "fst (pup_sources D (pups (slots s h))) = Some srcs" for s srcs M
  proof -
    have "tails_of (filter (\<lambda>e. fst e < snd e) (map (\<lambda>x. cut_entry L M k y (fst x)) srcs)) (map fst srcs)" for k y
    proof (unfold tails_of_def, rule ballI)
      fix e
      assume "e \<in> set (filter (\<lambda>e. fst e < snd e) (map (\<lambda>x. cut_entry L M k y (fst x)) srcs))"
      then obtain x where "x \<in> set srcs" "e = cut_entry L M k y (fst x)" by auto
      then show "\<exists>r \<in> set (map fst srcs). tail_of e r"
        using cut_entry_tail [OF laws, of M k y "fst x"] by (intro bexI [of _ "fst x"]) auto
    qed
    from keep_cut [OF that this] show ?thesis by (simp add: set_cur_def)
  qed
  show ?thesis
    unfolding jpup_cut_def
    by (rule triple_bind, rule triple_put, erule clear, rule triple_bind, rule src_Inr, rule triple_put)
      (blast intro: cut)
qed

lemma set_cur_const: "set_cur h f s = set_cur h (\<lambda>_. f (curs s h)) s"
  by (simp add: set_cur_def)

lemma keep_cur_at:
  "I s \<Longrightarrow> cure (f (curs s h)) = cure (curs s h) \<Longrightarrow> tails_of (ents (f (curs s h))) (ents (curs s h)) \<Longrightarrow>
   I (set_cur h f s)"
  by (subst set_cur_const, rule keep_cur)

lemma keep_cur_flags: "I s \<Longrightarrow> (\<And>c. ents (f c) = ents c \<and> cure (f c) = cure c) \<Longrightarrow> I (set_cur h f s)"
  by (subst set_cur_const, rule keep_cur) (auto intro: tails_refl)

lemma keeps_disarm: "keeps (jbind (jput (set_cur h (\<lambda>c. c\<lparr>cura := False\<rparr>))) (\<lambda>_. jthrow e))"
  by (rule triple_bind [where Q' = "\<lambda>_. I"], rule triple_put, erule keep_cur_flags) (auto intro: triple_throw)

lemma keeps_open: "keeps (jpup_open E A L D argv)"
proof -
  have dead: "\<not> live (slots s h)" if "first_free (slots s) = Some h" for s h
    using that by (auto simp: first_free_def find_Some_iff)
  have ok: "triple (\<lambda>s. I s \<and> \<not> live (slots s h))
      (jbind (jput (set_slot h (\<lambda>sl. sl\<lparr>pups := p, live := True, rw := open_mode argv, busy := False,
                      pages := n, memrows := k\<rparr>))) (\<lambda>_.
                    jbind (jput (set_cur h (\<lambda>c. c\<lparr>ents := [], cura := False\<rparr>))) (\<lambda>_.
                    jbind (jput (JABCPupMoved h)) (\<lambda>_. js_num h)))) (\<lambda>_. I) I" for h p n k
    by (rule tripleI) (auto simp: jbind_eq_Inr jbind_eq_Inl keep_open)
  have bad: "triple (\<lambda>s. I s \<and> \<not> live (slots s h))
      (jbind (jput (set_slot h (\<lambda>sl. sl\<lparr>pups := p\<rparr>))) (\<lambda>_. jthrow PUP_TOOMANY)) (\<lambda>_. I) I" for h p
    by (rule tripleI) (auto simp: jbind_eq_Inr jbind_eq_Inl keep_dead)
  have rows: "keeps (open_rows E argv)"
    unfolding open_rows_def
    by (rule triple_if) (auto intro!: triple_catch [OF keeps_eng] triple_throw triple_ret)
  show ?thesis
    unfolding jpup_open_def need_def Let_def
    by (intro triple_if triple_bind [OF keeps_paths] triple_bind [OF rows] triple_prod triple_throw
          triple_bind [where Q' = "\<lambda>fr s. I s \<and> fr = first_free (slots s)"] triple_get triple_option
          triple_pre [OF ok] triple_pre [OF bad])
      (auto simp: dead)
qed

lemma keeps_change:
  "triple (\<lambda>s. I s \<and> loose h s \<and> \<not> busy (slots s h)) (pup_change h f err) (\<lambda>_. I) I"
  by (rule tripleI) (auto simp: pup_change_def Let_def split: prod.splits if_splits intro: keep_change)

lemma moved_put:
  "triple (\<lambda>s. I s \<and> \<not> busy (slots s h)) (jput (JABCPupMoved h))
     (\<lambda>_ s. I s \<and> loose h s \<and> \<not> busy (slots s h)) I"
  by (rule triple_put) (simp add: keep_moved)

lemma keeps_held: "triple (\<lambda>s. I s \<and> \<not> busy (slots s h)) (on_eng m) (\<lambda>_ s. I s \<and> \<not> busy (slots s h)) I"
  by (rule tripleI) (auto simp: on_eng_def split: prod.splits intro: keep_js js_between_eng)

lemma paths_held: "triple (\<lambda>s. I s \<and> P s) (pup_paths A argv i) (\<lambda>_ s. I s \<and> P s) I"
  unfolding pup_paths_def by (rule triple_quiet) (auto intro!: quiet_intros)

lemma get_held:
  "triple (\<lambda>s. I s \<and> loose h s \<and> \<not> busy (slots s h)) (jget f)
     (\<lambda>_ s. I s \<and> loose h s \<and> \<not> busy (slots s h)) I"
  by (rule triple_get)

lemma keeps_put: "keeps (jpup_put E A L D argv)"
  unfolding jpup_put_def
  by (intro triple_bind [OF keeps_slot'] triple_bind [OF keeps_writable] triple_prod
        triple_bind [OF paths_held] triple_bind [OF keeps_held] triple_bind [OF moved_put]
        triple_bind [OF get_held] keeps_change)

lemma keeps_commit: "keeps (jpup_commit E A L D argv)"
  unfolding jpup_commit_def Let_def
  by (intro triple_bind [OF keeps_slot'] triple_bind [OF keeps_writable] triple_prod
        triple_bind [OF paths_held] triple_bind [OF moved_put] keeps_change)

lemma keeps_getleaf: "keeps (jpup_get E L D argv)"
  unfolding jpup_get_def
  by (intro triple_bind [OF keeps_slot'] triple_bind [OF keeps_eng] triple_bind [OF keeps_src]
        triple_bind [OF keeps_get] triple_option triple_ret)

lemma keeps_seek: "keeps (jpup_seek E L D argv)"
  unfolding jpup_seek_def
  by (intro triple_bind [OF keeps_slot'] triple_bind [OF keeps_eng] triple_bind [where Q' = "\<lambda>_. I"]
        triple_put keep_cur_flags triple_catch [OF keeps_cut] keeps_disarm triple_ret) auto

lemma keeps_pull:
  "keeps (\<lambda>s.
       let M = rowat D (pups (slots s h)) in
       case hit_load H M (ents (curs s h)) of
         None \<Rightarrow> (Inl PUP_TOOMANY, s)
       | Some es \<Rightarrow>
           if \<forall>e \<in> set es. snd e \<le> fst e
           then (Inr None, set_cur h (\<lambda>c. c\<lparr>ents := es, cura := False\<rparr>) s)
           else let v = top_row H M es in
             (Inr (Some v), set_cur h (\<lambda>c. c\<lparr>ents := past_top L H M es, curk := v, curx := True\<rparr>) s))"
proof (rule tripleI, goal_cases)
  case (1 s x s')
  note laws = laws_of [OF 1(1)]
  let ?M = "rowat D (pups (slots s h))"
  from 1(2) obtain es where es: "hit_load H ?M (ents (curs s h)) = Some es"
    by (auto simp: Let_def split: option.splits)
  then have t: "tails_of es (ents (curs s h))"
    by (intro tails_refl pup_lawD(4) [OF laws])
  have "tails_of (past_top L H ?M es) (ents (curs s h))"
    by (rule tails_trans [OF tails_past_top [OF laws] t])
  with t 1 es show ?case
    by (auto simp: Let_def split: if_splits intro!: keep_cur_at)
next
  case (2 s e s')
  then show ?case by (auto simp: Let_def split: option.splits if_splits)
qed

lemma keeps_next_row: "keeps (next_row L D H h)"
proof -
  have cut: "keeps (jcatch (jpup_cut L D h) (\<lambda>e. jbind (jput (set_cur h (\<lambda>c. c\<lparr>cura := False\<rparr>))) (\<lambda>_. jthrow PUP_TOOMANY)))"
    by (intro triple_catch [OF keeps_cut] keeps_disarm)
  have ret: "keeps (jret x)" for x :: unit by (simp add: triple_ret)
  have "keeps (jbind (if b then jcatch (jpup_cut L D h)
      (\<lambda>e. jbind (jput (set_cur h (\<lambda>c. c\<lparr>cura := False\<rparr>))) (\<lambda>_. jthrow PUP_TOOMANY)) else jret ())
      (\<lambda>_ s. let M = rowat D (pups (slots s h)) in
       case hit_load H M (ents (curs s h)) of
         None \<Rightarrow> (Inl PUP_TOOMANY, s)
       | Some es \<Rightarrow>
           if \<forall>e \<in> set es. snd e \<le> fst e
           then (Inr None, set_cur h (\<lambda>c. c\<lparr>ents := es, cura := False\<rparr>) s)
           else let v = top_row H M es in
             (Inr (Some v), set_cur h (\<lambda>c. c\<lparr>ents := past_top L H M es, curk := v, curx := True\<rparr>) s)))" for b
    by (rule triple_bind [OF _ keeps_pull]) (use cut ret in simp)
  then show ?thesis
    unfolding next_row_def triple_def by (auto simp: jret_def)
qed

lemma keeps_next: "keeps (jpup_next E L D H argv)"
  unfolding jpup_next_def
  by (intro triple_bind [OF keeps_slot'] triple_bind [OF keeps_next_row] triple_ret)

lemma keeps_count: "keeps (jpup_count E L D argv)"
  unfolding jpup_count_def by (intro triple_bind [OF keeps_slot'] triple_bind [OF keeps_get] triple_ret)

lemma keeps_mem: "keeps (jpup_mem E argv)"
  unfolding jpup_mem_def by (intro triple_bind [OF keeps_slot'] triple_bind [OF keeps_get] triple_ret)

text \<open>A call of \<open>_run\<close> whose handle fits.\<close>

definition run_fits :: "'w engine \<Rightarrow> jsval list \<Rightarrow> ('w, 'p, 'r) pst \<Rightarrow> bool" where
  "run_fits E argv s \<longleftrightarrow> (\<forall>h s'. JABCPupSlot E argv s = (Some h, s') \<longrightarrow> fits h s)"

lemma keeps_run:
  "triple (\<lambda>s. I s \<and> run_fits E argv s) (jpup_run E L D argv) (\<lambda>_. I) I"
proof -
  have slot: "triple (\<lambda>s. I s \<and> run_fits E argv s) (pup_slot_or E n u argv) (\<lambda>h s. I s \<and> fits h s \<and> live (slots s h)) I" for n u
  proof (rule tripleI)
    fix s h s'
    assume P: "I s \<and> run_fits E argv s" and run: "pup_slot_or E n u argv s = (Inr h, s')"
    then have slot: "JABCPupSlot E argv s = (Some h, s')"
      by (auto simp: pup_slot_or_def split: prod.splits option.splits if_splits)
    then obtain w where "s' = s\<lparr>eng := w\<rparr>"
      by (auto simp: JABCPupSlot_def on_eng_def split: prod.splits sum.splits if_splits)
    with P slot have "fits h s'" by (auto simp: run_fits_def intro: fits_eng)
    with P run tripleD_Inr [OF keeps_slot, of s E n u argv h s'] show "I s' \<and> fits h s' \<and> live (slots s' h)" by simp
  next
    fix s e s'
    assume "I s \<and> run_fits E argv s" and "pup_slot_or E n u argv s = (Inl e, s')"
    with tripleD_Inl [OF keeps_slot] show "I s'" by blast
  qed
  have eng: "triple (\<lambda>s. I s \<and> fits h s \<and> live (slots s h)) (on_eng m) (\<lambda>_ s. I s \<and> fits h s \<and> live (slots s h)) I"
    for h and m :: "('w, 'x) js"
    by (rule tripleI) (auto simp: on_eng_def split: prod.splits intro: keep_js js_between_eng fits_eng)
  have got: "triple (\<lambda>s. I s \<and> fits h s \<and> live (slots s h)) (jget (\<lambda>s. pups (slots s h)))
      (\<lambda>p s. I s \<and> fits h s \<and> live (slots s h) \<and> pups (slots s h) = p) I" for h
    by (rule triple_get) simp
  have mint: "triple (\<lambda>s. I s \<and> fits h s \<and> live (slots s h) \<and> pups (slots s h) = p) (JABCPupView h i run) (\<lambda>_. I) I"
    if "i < HIT_MAX_RUNS" "pup_run D (rowsize L) p i = Some run" for h p i run
  proof (rule tripleI)
    fix s x s' e
    assume "I s \<and> fits h s \<and> live (slots s h) \<and> pups (slots s h) = p"
    then have "I (snd (JABCPupView h i run s))"
      using keep_view [of s h i run] that by simp
    then show "JABCPupView h i run s = (Inr x, s') \<Longrightarrow> I s'" "JABCPupView h i run s = (Inl e, s') \<Longrightarrow> I s'"
      by simp_all
  qed
  show ?thesis
    unfolding jpup_run_def
    by (intro triple_bind [OF slot] triple_bind [OF eng] triple_bind [OF got] triple_if triple_throw
          triple_option mint) auto
qed

lemma keeps_drop: "keeps (jpup_drop E A L D argv)"
proof -
  let ?held = "\<lambda>h s. I s \<and> loose h s \<and> \<not> busy (slots s h)"
  have spent: "triple (?held h) (jput (set_cur h (\<lambda>c. c\<lparr>ents := [], cura := False\<rparr>))) (\<lambda>_. ?held h) I" for h
  proof (rule triple_put)
    fix s assume s: "?held h s"
    have "I (set_cur h (\<lambda>c. c\<lparr>ents := [], cura := False\<rparr>) s)"
      by (subst set_cur_const, rule keep_cur) (use s in \<open>auto simp: tails_of_def\<close>)
    with s show "?held h (set_cur h (\<lambda>c. c\<lparr>ents := [], cura := False\<rparr>) s)"
      by (simp add: loose_cur) (simp add: set_cur_def)
  qed
  have eng: "triple (?held h) (on_eng m) (\<lambda>_. ?held h) I" for h and m :: "('w, 'x) js"
    by (rule tripleI) (auto simp: on_eng_def split: prod.splits intro: keep_js loose_js js_between_eng)
  show ?thesis
    unfolding jpup_drop_def
    by (intro triple_bind [OF keeps_slot'] triple_bind [OF keeps_writable] triple_prod
          triple_bind [OF paths_held] triple_bind [OF moved_put] triple_bind [OF spent] triple_if
          triple_bind [OF get_held] triple_bind [OF eng] keeps_change)
qed

lemma keeps_close: "keeps (jpup_close E L D argv)"
proof -
  have closed: "triple (\<lambda>s. I s \<and> loose h s \<and> \<not> busy (slots s h))
      (jput (set_slot h (\<lambda>sl. sl\<lparr>pups := pup_none D, live := False\<rparr>))) (\<lambda>_. I) I" for h
    by (rule triple_put) (auto intro: keep_close)
  have spent: "keeps (jput (set_cur h (\<lambda>c. c\<lparr>ents := [], cura := False\<rparr>)))" for h
    by (rule triple_put, subst set_cur_const, rule keep_cur) (auto simp: tails_of_def)
  show ?thesis
    unfolding jpup_close_def
    by (intro triple_bind [OF keeps_slot'] triple_if triple_throw triple_bind [OF closed] triple_bind [OF spent]
          triple_bind [where Q' = "\<lambda>b s. I s \<and> b = busy (slots s h)" and m = "jget f" for h f]
          triple_get triple_bind [OF triple_pre [OF moved_put]] triple_ret) auto
qed

lemma keeps_scan:
  assumes "\<And>v. keeps (cb v)"
  shows "keeps (scan_rows n L D H cb h es)"
proof (induction n arbitrary: es)
  case 0
  then show ?case unfolding scan_rows.simps by (rule triple_ret)
next
  case (Suc n)
  show ?case
    unfolding scan_rows.simps
    by (intro triple_if triple_ret triple_bind [OF keeps_get] triple_bind [OF assms] Suc)
qed

lemma keeps_range:
  assumes cb: "\<And>f v. keeps (cb f v)"
  shows "keeps (jpup_range E L D H cb argv)"
proof -
  have busied: "triple I (jget (\<lambda>s. busy (slots s h))) (\<lambda>was s. I s \<and> (\<exists>s0. I s0 \<and> was = busy (slots s0 h))) I" for h
    by (rule triple_get) auto
  have on: "triple (\<lambda>s. I s \<and> P) (jput (set_slot h (\<lambda>sl. sl\<lparr>busy := True\<rparr>))) (\<lambda>_ s. I s \<and> P) I" for h P
    by (rule triple_put) (auto intro: keep_busy)
  have off: "triple (\<lambda>s. I s \<and> (\<exists>s0. I s0 \<and> was = busy (slots s0 h)))
      (jput (set_slot h (\<lambda>sl. sl\<lparr>busy := was\<rparr>))) (\<lambda>_. I) I" for h was
    by (rule triple_put) (auto intro: keep_unbusy)
  have scan: "triple (\<lambda>s. I s \<and> P) (scan_rows n L D H (cb f) h es) (\<lambda>_ s. I s \<and> P) (\<lambda>s. I s \<and> P)" for n f h es P
    using keeps_scan [of "cb f" n h es] cb by (cases P) (auto simp: triple_def)
  show ?thesis
    unfolding jpup_range_def
    by (intro triple_bind [OF keeps_slot'] triple_bind [OF keeps_eng] triple_bind [OF keeps_get]
          triple_bind [OF keeps_src] triple_if triple_throw triple_option
          triple_bind [OF busied] triple_bind [OF on] triple_bind [OF triple_catch [OF scan]]
          triple_bind [OF off] triple_ret)
qed

lemma leaf_keeps: "pup_leaf E A L D H f \<Longrightarrow> I s \<Longrightarrow> I (f s)"
  by (erule pup_leaf.cases)
    (simp_all add: tripleD_snd [OF keeps_open] tripleD_snd [OF keeps_put] tripleD_snd [OF keeps_commit]
      tripleD_snd [OF keeps_getleaf] tripleD_snd [OF keeps_seek] tripleD_snd [OF keeps_next]
      tripleD_snd [OF keeps_count] tripleD_snd [OF keeps_drop]
      tripleD_snd [OF keeps_close] tripleD_snd [OF keeps_mem])

lemma run_keeps: "I s \<Longrightarrow> run_fits E argv s \<Longrightarrow> I (snd (jpup_run E L D argv s))"
  using keeps_run [of E argv] by (cases "jpup_run E L D argv s") (auto simp: triple_def split: prod.splits sum.splits)

lemma range_keeps:
  assumes "\<And>f v s. I s \<Longrightarrow> I (snd (cb f v s))" and "I s"
  shows "I (snd (jpup_range E L D H cb argv s))"
  by (rule tripleD_snd [OF keeps_range assms(2)]) (auto intro!: tripleI, (metis assms(1) snd_conv)+)

end

text \<open>Where every handle fits, every program of the lane keeps the invariant.\<close>

locale pup_program = pup_invariant +
  assumes always: "fits h s"
begin

lemma prog_keeps: "pup_prog E A L D H f \<Longrightarrow> I s \<Longrightarrow> I (f s)"
proof (induction arbitrary: s rule: pup_prog.induct)
  case (prog_range cb argv)
  then show ?case by (intro range_keeps)
qed (simp_all add: keep_js leaf_keeps run_keeps run_fits_def always)

end

section \<open>The views never dangle\<close>

text \<open>
  A view in the table of a handle is over the rows, of one of the sizes \<open>W\<close>, of the run it is filed
  under, only live handles have one, the counter counts them, no two entries share a buffer, and a
  buffer that shows memory is in a table.  \<open>R\<close> is \<open>DOGPupDataRow\<close>.
\<close>

type_synonym 'p datarow = "nat \<Rightarrow> 'p \<Rightarrow> nat \<Rightarrow> (addr \<times> nat) option"

definition views_ok :: "nat set \<Rightarrow> 'p datarow \<Rightarrow> ('w, 'p, 'r) pst \<Rightarrow> bool" where
  "views_ok W R s \<longleftrightarrow>
     (\<forall>h i v. view (slots s h) i = Some v \<longrightarrow> i < HIT_MAX_RUNS \<and> live (slots s h) \<and> vbuf v < next_buf s \<and>
        (\<exists>w\<in>W. R w (pups (slots s h)) i = Some (vbase v, vlen v))) \<and>
     (\<forall>h. nview (slots s h) = card (dom (view (slots s h)))) \<and>
     (\<forall>h i v h' i' v'. view (slots s h) i = Some v \<and> view (slots s h') i' = Some v' \<and> vbuf v = vbuf v' \<longrightarrow>
        h = h' \<and> i = i') \<and>
     (\<forall>b m. bufs_at s b = Some m \<longrightarrow>
        (\<exists>h i v. view (slots s h) i = Some v \<and> vbuf v = b \<and> m = (vbase v, vlen v)))"

text \<open>A handle fits a row size when what it lends shows exactly the rows of that size.\<close>

definition lends :: "'p datarow \<Rightarrow> nat \<Rightarrow> nat \<Rightarrow> ('w, 'p, 'r) pst \<Rightarrow> bool" where
  "lends R w h s \<longleftrightarrow> (\<forall>i v. view (slots s h) i = Some v \<longrightarrow> R w (pups (slots s h)) i = Some (vbase v, vlen v))"

lemma views_okI:
  assumes "\<And>h i v. view (slots s h) i = Some v \<Longrightarrow> i < HIT_MAX_RUNS \<and> live (slots s h) \<and> vbuf v < next_buf s \<and>
        (\<exists>w\<in>W. R w (pups (slots s h)) i = Some (vbase v, vlen v))"
    and "\<And>h. nview (slots s h) = card (dom (view (slots s h)))"
    and "\<And>h i v h' i' v'. view (slots s h) i = Some v \<Longrightarrow> view (slots s h') i' = Some v' \<Longrightarrow> vbuf v = vbuf v' \<Longrightarrow>
        h = h' \<and> i = i'"
    and "\<And>b m. bufs_at s b = Some m \<Longrightarrow>
        \<exists>h i v. view (slots s h) i = Some v \<and> vbuf v = b \<and> m = (vbase v, vlen v)"
  shows "views_ok W R s"
  unfolding views_ok_def by (intro conjI allI impI; (elim conjE)?) (simp_all add: assms del: split_paired_All; blast dest: assms(3))+

lemma views_at:
  assumes "views_ok W R s" "view (slots s h) i = Some v"
  shows "i < HIT_MAX_RUNS" "live (slots s h)" "vbuf v < next_buf s"
    "\<exists>w\<in>W. R w (pups (slots s h)) i = Some (vbase v, vlen v)"
  using assms unfolding views_ok_def by blast+

lemma views_count: "views_ok W R s \<Longrightarrow> nview (slots s h) = card (dom (view (slots s h)))"
  unfolding views_ok_def by blast

lemma views_inj:
  "views_ok W R s \<Longrightarrow> view (slots s h) i = Some v \<Longrightarrow> view (slots s h') i' = Some v' \<Longrightarrow> vbuf v = vbuf v' \<Longrightarrow>
   h = h' \<and> i = i'"
  unfolding views_ok_def by blast

lemma views_shown:
  "views_ok W R s \<Longrightarrow> bufs_at s b = Some m \<Longrightarrow>
   \<exists>h i v. view (slots s h) i = Some v \<and> vbuf v = b \<and> m = (vbase v, vlen v)"
  unfolding views_ok_def by blast

lemma one_size_lends: "views_ok {w} R s \<Longrightarrow> lends R w h s"
  by (auto simp: lends_def dest: views_at(4))

lemma views_finite: "views_ok W R s \<Longrightarrow> finite (dom (view (slots s h)))"
  by (rule finite_subset [of _ "{..<HIT_MAX_RUNS}"]) (auto dest: views_at(1))

lemma views_none: "views_ok W R s \<Longrightarrow> nview (slots s h) = 0 \<longleftrightarrow> view (slots s h) = (\<lambda>_. None)"
  using views_finite [of W R s h] by (auto simp: views_count)

text \<open>What \<open>JABCPupUnview\<close> leaves of such a state.\<close>

lemma unview_eq:
  assumes ok: "views_ok W R s"
  shows "JABCPupUnview h s = set_slot h (\<lambda>sl. sl\<lparr>view := (\<lambda>_. None), nview := 0\<rparr>)
    (s\<lparr>bufs_at := (\<lambda>b. if \<exists>i v. view (slots s h) i = Some v \<and> vbuf v = b then None else bufs_at s b)\<rparr>)"
proof (cases "nview (slots s h) = 0")
  case True
  then have "view (slots s h) = (\<lambda>_. None)" using views_none [OF ok] by simp
  with True have same: "(slots s h)\<lparr>view := (\<lambda>_. None), nview := 0\<rparr> = slots s h" by (cases "slots s h") simp
  from True \<open>view (slots s h) = (\<lambda>_. None)\<close> show ?thesis
    by (cases s) (use same in \<open>simp add: JABCPupUnview_def set_slot_def fun_upd_idem\<close>)
next
  case False
  have none: "view (slots s h) i = None" if "\<not> i < HIT_MAX_RUNS" for i
    using views_at(1) [OF ok] that by (cases "view (slots s h) i") auto
  have "(\<exists>i < HIT_MAX_RUNS. map_option vbuf (view (slots s h) i) = Some b) \<longleftrightarrow>
      (\<exists>i v. view (slots s h) i = Some v \<and> vbuf v = b)" for b
    using views_at(1) [OF ok] by auto
  moreover have "(\<lambda>i. if i < HIT_MAX_RUNS then None else view (slots s h) i) = (\<lambda>_. None)"
    using none by auto
  ultimately show ?thesis using False by (simp add: JABCPupUnview_def set_slot_def cong: if_cong)
qed

lemma views_unview:
  assumes ok: "views_ok W R s"
  shows "views_ok W R (JABCPupUnview h s)"
  unfolding unview_eq [OF ok]
proof (rule views_okI, goal_cases)
  case (1 h' i v)
  then have "h' \<noteq> h" "view (slots s h') i = Some v" by (auto simp: set_slot_def split: if_splits)
  with views_at [OF ok this(2)] show ?case by (simp add: set_slot_def)
next
  case (2 h')
  then show ?case using views_count [OF ok] by (simp add: set_slot_def)
next
  case (3 h1 i v h2 i' v')
  then show ?case using views_inj [OF ok, of h1 i v h2 i' v'] by (auto simp: set_slot_def split: if_splits)
next
  case (4 b m)
  then have b: "bufs_at s b = Some m" and n: "\<not> (\<exists>i v. view (slots s h) i = Some v \<and> vbuf v = b)"
    by (auto simp: set_slot_def split: if_splits)
  from views_shown [OF ok b] obtain h' i v
    where w: "view (slots s h') i = Some v" "vbuf v = b" "m = (vbase v, vlen v)" by blast
  with n have "h' \<noteq> h" by blast
  with w show ?case by (intro exI [of _ h'] exI [of _ i] exI [of _ v]) (simp add: set_slot_def)
qed

text \<open>Changes that leave the tables, the runs under them and the showing buffers alone.\<close>

lemma views_frame:
  assumes ok: "views_ok W R s"
    and "\<And>h. view (slots s' h) = view (slots s h)" "\<And>h. nview (slots s' h) = nview (slots s h)"
    and "next_buf s' = next_buf s"
    and "\<And>b. bufs_at s' b = bufs_at s b \<or> bufs_at s' b = None"
    and "\<And>h. view (slots s h) \<noteq> (\<lambda>_. None) \<Longrightarrow> live (slots s h) \<Longrightarrow>
      live (slots s' h) \<and> (\<forall>w. R w (pups (slots s' h)) = R w (pups (slots s h)))"
  shows "views_ok W R s'"
proof (rule views_okI, goal_cases)
  case (1 h i v)
  then have v: "view (slots s h) i = Some v" using assms(2) by simp
  then have "view (slots s h) \<noteq> (\<lambda>_. None)" by auto
  with views_at [OF ok v] assms(4) assms(6) [of h] show ?case by simp
next
  case (2 h)
  then show ?case using views_count [OF ok] assms(2,3) by simp
next
  case (3 h i v h' i' v')
  then show ?case using views_inj [OF ok, of h i v h' i' v'] assms(2) by simp
next
  case (4 b m)
  then have "bufs_at s b = Some m" using assms(5) [of b] by simp
  then show ?case using views_shown [OF ok] assms(2) by simp
qed

lemma moved_eq:
  "views_ok W R s \<Longrightarrow> JABCPupMoved h s = set_slot h (\<lambda>sl. sl\<lparr>view := (\<lambda>_. None), nview := 0, epoch := epoch sl + 1\<rparr>)
    (s\<lparr>bufs_at := (\<lambda>b. if \<exists>i v. view (slots s h) i = Some v \<and> vbuf v = b then None else bufs_at s b)\<rparr>)"
  by (simp add: JABCPupMoved_def unview_eq) (simp add: set_slot_def)

lemma views_moved: "views_ok W R s \<Longrightarrow> views_ok W R (JABCPupMoved h s)"
  unfolding JABCPupMoved_def
  by (rule views_frame [OF views_unview]) (auto simp: set_slot_def)

lemma views_mint:
  assumes ok: "views_ok W R s" and live: "live (slots s h)" and i: "i < HIT_MAX_RUNS"
    and w: "w \<in> W" and fits: "lends R w h s" and run: "R w (pups (slots s h)) i = Some run"
  shows "views_ok W R (snd (JABCPupView h i run s))"
proof -
  have mint: "views_ok W R (set_slot h (\<lambda>sl. sl\<lparr>view := (view sl)(i \<mapsto> \<lparr>vbuf = next_buf t, vbase = fst run, vlen = snd run\<rparr>),
        nview := nview sl + 1\<rparr>) (t\<lparr>bufs_at := (bufs_at t)(next_buf t \<mapsto> run), next_buf := next_buf t + 1\<rparr>))"
    if ok: "views_ok W R t" and "live (slots t h)" "R w (pups (slots t h)) i = Some run"
      and no: "view (slots t h) i = None" for t
  proof (rule views_okI, goal_cases)
    case (1 h' i' v)
    show ?case
    proof (cases "h' = h \<and> i' = i")
      case True
      with 1 that i w show ?thesis by (auto simp: set_slot_def)
    next
      case False
      with 1 have "view (slots t h') i' = Some v" by (auto simp: set_slot_def split: if_splits)
      with views_at [OF ok this] show ?thesis by (auto simp: set_slot_def)
    qed
  next
    case (2 h')
    then show ?case
      using views_count [OF ok] views_finite [OF ok, of h] no
      by (auto simp: set_slot_def dom_def [symmetric] card_insert_if domIff insert_absorb)
  next
    case (3 h1 i1 v1 h2 i2 v2)
    then show ?case
      using views_inj [OF ok, of h1 i1 v1 h2 i2 v2] views_at(3) [OF ok, of h1 i1 v1] views_at(3) [OF ok, of h2 i2 v2]
      by (auto simp: set_slot_def split: if_splits)
  next
    case (4 b m)
    show ?case
    proof (cases "b = next_buf t")
      case True
      with 4 show ?thesis
        by (intro exI [of _ h] exI [of _ i] exI [of _ "\<lparr>vbuf = next_buf t, vbase = fst run, vlen = snd run\<rparr>"])
           (auto simp: set_slot_def)
    next
      case False
      with 4 have "bufs_at t b = Some m" by (simp add: set_slot_def)
      from views_shown [OF ok this] obtain h' i' v
        where w: "view (slots t h') i' = Some v" "vbuf v = b" "m = (vbase v, vlen v)" by blast
      with no have "h' \<noteq> h \<or> i' \<noteq> i" by auto
      with w show ?thesis by (intro exI [of _ h'] exI [of _ i'] exI [of _ v]) (auto simp: set_slot_def)
    qed
  qed
  have drop: "views_ok W R (set_slot h (\<lambda>sl. sl\<lparr>view := (view sl)(i := None), nview := nview sl - 1\<rparr>) s)"
    if v: "view (slots s h) i = Some v" and gone: "bufs_at s (vbuf v) \<noteq> Some (vbase v, vlen v)" for v
  proof (rule views_okI, goal_cases)
    case (1 h' i' v)
    then show ?case using views_at [OF ok, of h' i' v] by (auto simp: set_slot_def split: if_splits)
  next
    case (2 h')
    then show ?case
      using views_count [OF ok] views_finite [OF ok, of h] v by (auto simp: set_slot_def card_Diff_singleton domIff)
  next
    case (3 h1 i1 v1 h2 i2 v2)
    then show ?case using views_inj [OF ok, of h1 i1 v1 h2 i2 v2] by (auto simp: set_slot_def split: if_splits)
  next
    case (4 b m)
    then have b: "bufs_at s b = Some m" by (simp add: set_slot_def)
    from views_shown [OF ok this] obtain h' i' w
      where w: "view (slots s h') i' = Some w" "vbuf w = b" "m = (vbase w, vlen w)" by blast
    with b gone v have "\<not> (h' = h \<and> i' = i)" by auto
    with w show ?case by (intro exI [of _ h'] exI [of _ i'] exI [of _ w]) (auto simp: set_slot_def)
  qed
  show ?thesis
  proof (cases "view (slots s h) i")
    case None
    with mint [OF ok live run] show ?thesis by (simp add: JABCPupView_def Let_def)
  next
    case (Some v)
    with fits Some run have same: "(vbase v, vlen v) = run" by (simp add: lends_def)
    show ?thesis
    proof (cases "bufs_at s (vbuf v) = Some (vbase v, vlen v)")
      case True
      with Some same ok show ?thesis by (simp add: JABCPupView_def Let_def)
    next
      case False
      let ?t = "set_slot h (\<lambda>sl. sl\<lparr>view := (view sl)(i := None), nview := nview sl - 1\<rparr>) s"
      have t: "live (slots ?t h)" "R w (pups (slots ?t h)) i = Some run" "view (slots ?t h) i = None"
        using live run by (auto simp: set_slot_def)
      have "snd (JABCPupView h i run s) =
          set_slot h (\<lambda>sl. sl\<lparr>view := (view sl)(i \<mapsto> \<lparr>vbuf = next_buf ?t, vbase = fst run, vlen = snd run\<rparr>),
            nview := nview sl + 1\<rparr>) (?t\<lparr>bufs_at := (bufs_at ?t)(next_buf ?t \<mapsto> run), next_buf := next_buf ?t + 1\<rparr>)"
        using Some False t(3) by (simp add: JABCPupView_def Let_def)
      with mint [OF drop [OF Some False] t] show ?thesis by simp
    qed
  qed
qed

interpretation run_views: pup_invariant L D H "\<lambda>s. pup_laws L D H \<and> rowsize L \<in> W \<and> views_ok W (pup_run D) s"
    "\<lambda>h s. view (slots s h) = (\<lambda>_. None)" "lends (pup_run D) (rowsize L)" for L D H W
proof (unfold_locales, goal_cases)
  case (2 s s')
  then show ?case by (auto simp: js_between_def elim!: views_frame)
next
  case (3 s h r p)
  then have "pup_run D w p = pup_run D w (pups (slots s h))" for w using pup_lawD(2) by (metis snd_conv)
  with 3 show ?case by (auto simp: set_slot_def elim!: views_frame)
next
  case (4 s h)
  then show ?case
    by (auto simp: views_moved) (auto simp: moved_eq set_slot_def)
next
  case (7 s h p)
  then show ?case by (auto simp: set_slot_def elim!: views_frame)
next
  case (8 s h p)
  then show ?case by (auto simp: set_slot_def elim!: views_frame)
next
  case (9 s h k n m p)
  then have "views_ok W (pup_run D) (set_cur h (\<lambda>c. c\<lparr>ents := [], cura := False\<rparr>)
          (set_slot h (\<lambda>sl. sl\<lparr>pups := p, live := True, rw := m, busy := False, pages := n, memrows := k\<rparr>) s))"
    by (auto simp: set_slot_def set_cur_def elim!: views_frame)
  with 9 show ?case by (simp add: views_moved)
next
  case (10 s h p)
  then show ?case by (auto simp: set_slot_def elim!: views_frame)
next
  case (11 s h)
  then show ?case by (auto simp: set_slot_def elim!: views_frame)
next
  case (12 s0 s h)
  then have "views_ok W (pup_run D) s" by simp
  then have "views_ok W (pup_run D) (set_slot h (\<lambda>sl. sl\<lparr>busy := busy (slots s0 h)\<rparr>) s)"
    by (rule views_frame) (auto simp: set_slot_def)
  with 12 show ?case by simp
next
  case (14 s h i run)
  then have "views_ok W (pup_run D) (snd (JABCPupView h i run s))" by (elim conjE) (rule views_mint)
  with 14 show ?case by simp
next
  case (15 s c h)
  then show ?case by (auto simp: set_cur_def elim!: views_frame)
next
  case (16 s h srcs es)
  then show ?case by (auto simp: set_cur_def elim!: views_frame)
qed (auto simp: js_between_def set_cur_def lends_def)

section \<open>The cursor is never stale\<close>

text \<open>
  A cursor that was cut at the current version of its handle's stack has its entries inside the
  sources the stack has now.
\<close>

definition cursor_ok :: "('p, 'r) dogpup \<Rightarrow> ('w, 'p, 'r) pst \<Rightarrow> bool" where
  "cursor_ok D s \<longleftrightarrow> (\<forall>h. cure (curs s h) \<le> epoch (slots s h) \<and>
     (live (slots s h) \<and> cure (curs s h) = epoch (slots s h) \<and> ents (curs s h) \<noteq> [] \<longrightarrow>
      (\<exists>srcs. fst (pup_sources D (pups (slots s h))) = Some srcs \<and> tails_of (ents (curs s h)) (map fst srcs))))"

lemma moved_frame [simp]:
  "epoch (slots (JABCPupMoved h s) h') = (if h' = h then epoch (slots s h) + 1 else epoch (slots s h'))"
  "pups (slots (JABCPupMoved h s) h') = pups (slots s h')"
  "live (slots (JABCPupMoved h s) h') = live (slots s h')"
  "busy (slots (JABCPupMoved h s) h') = busy (slots s h')"
  "curs (JABCPupMoved h s) = curs s"
  by (auto simp: JABCPupMoved_def JABCPupUnview_def set_slot_def)

lemma view_frame [simp]:
  "pups (slots (snd (JABCPupView h i run s)) h') = pups (slots s h')"
  "live (slots (snd (JABCPupView h i run s)) h') = live (slots s h')"
  "busy (slots (snd (JABCPupView h i run s)) h') = busy (slots s h')"
  "epoch (slots (snd (JABCPupView h i run s)) h') = epoch (slots s h')"
  "curs (snd (JABCPupView h i run s)) = curs s"
  by (auto simp: JABCPupView_def Let_def set_slot_def split: option.splits)

lemma tails_of_Nil: "tails_of es [] \<Longrightarrow> es = []"
  by (cases es) (auto simp: tails_of_def)

interpretation pulled_cursor: pup_program L D H "\<lambda>s. pup_laws L D H \<and> cursor_ok D s"
    "\<lambda>h s. cure (curs s h) < epoch (slots s h)" "\<lambda>_ _. True" for L D H
proof (unfold_locales, goal_cases)
  case (3 s h r p)
  then have "fst (pup_sources D p) = fst (pup_sources D (pups (slots s h)))"
    using pup_lawD(1) by (metis snd_conv)
  with 3 show ?case by (auto simp: set_slot_def cursor_ok_def)
next
  case (15 s c h)
  then have ok: "cursor_ok D s" and c: "cure c = cure (curs s h)" "tails_of (ents c) (ents (curs s h))" by auto
  have "\<exists>srcs. fst (pup_sources D (pups (slots s h))) = Some srcs \<and> tails_of (ents c) (map fst srcs)"
    if "live (slots s h)" "cure c = epoch (slots s h)" "ents c \<noteq> []"
  proof -
    have "ents (curs s h) \<noteq> []" using c(2) that(3) tails_of_Nil by auto
    with ok that c(1) obtain srcs where "fst (pup_sources D (pups (slots s h))) = Some srcs"
      "tails_of (ents (curs s h)) (map fst srcs)" unfolding cursor_ok_def by metis
    with c(2) tails_trans show ?thesis by blast
  qed
  with ok c have "cursor_ok D (set_cur h (\<lambda>_. c) s)" by (simp add: cursor_ok_def set_cur_def)
  with 15 show ?case by simp
next
  case (16 s h srcs es)
  then show ?case by (auto simp: cursor_ok_def set_cur_def)
next
  case (2 s s')
  then show ?case by (simp add: cursor_ok_def js_between_def)
next
  case (4 s h)
  then show ?case by (simp add: cursor_ok_def less_Suc_eq_le le_SucI) (metis Suc_n_not_le_n)
next
  case (7 s h p)
  then show ?case by (simp add: cursor_ok_def set_slot_def)
next
  case (8 s h p)
  then show ?case by (simp add: cursor_ok_def set_slot_def)
next
  case (9 s h k n m p)
  then show ?case
    by (simp add: cursor_ok_def set_slot_def set_cur_def le_SucI)
next
  case (10 s h p)
  then show ?case by (simp add: cursor_ok_def set_slot_def)
next
  case (14 s h i run)
  then show ?case by (simp add: cursor_ok_def)
qed (simp_all add: js_between_def set_slot_def set_cur_def cursor_ok_def)

section \<open>A scan holds its handle still\<close>

text \<open>A handle being scanned, with its stack as the scan found it.\<close>

definition held :: "('p, 'r) dogpup \<Rightarrow> nat \<Rightarrow> 'p \<Rightarrow> ('w, 'p, 'r) pst \<Rightarrow> bool" where
  "held D h p s \<longleftrightarrow> live (slots s h) \<and> busy (slots s h) \<and> pups (slots s h) = p \<and> snd (pup_sources D p) = p"

interpretation scanned: pup_program L D H "\<lambda>s. pup_laws L D H \<and> held D h p s" "\<lambda>h' s. h' \<noteq> h" "\<lambda>_ _. True" for L D H h p
proof (unfold_locales, goal_cases)
  case (3 s h' r q)
  then show ?case by (auto simp: held_def set_slot_def split: if_splits)
qed (auto simp: js_between_def set_slot_def set_cur_def held_def)

section \<open>Programs from the start\<close>

text \<open>The tables as C zeroes them.\<close>

definition pup_start :: "('p, 'r) dogpup \<Rightarrow> 'r \<Rightarrow> 'w \<Rightarrow> ('w, 'p, 'r) pst" where
  "pup_start D r w = \<lparr> eng = w,
     slots = (\<lambda>_. \<lparr>pups = pup_none D, live = False, rw = False, busy = False, pages = 0, memrows = 0,
       epoch = 0, view = (\<lambda>_. None), nview = 0\<rparr>),
     curs = (\<lambda>_. \<lparr>ents = [], curk = r, curx = False, cura = False, cure = 0\<rparr>),
     bufs_at = (\<lambda>_. None), next_buf = 0 \<rparr>"

lemma start_ok: "views_ok W R (pup_start D r w)" "cursor_ok D (pup_start D r w)"
  by (simp_all add: views_ok_def cursor_ok_def pup_start_def)

section \<open>Programs over the four lanes\<close>

text \<open>
  The table of handles and the array buffers (\<open>JABC_PUPS\<close>) are one for the leaves of all lanes; each
  lane has cursors and a type of rows of its own.  A program is followed by what it does to the table:
  a step is a leaf of some lane, run from any state of that lane that has this table (the engine and the
  cursors may be whatever they are by then, which allows more than the code can do), or JavaScript in
  between.  The callback of a scan is a program over all lanes again.  With \<open>fit\<close> there is one
  restriction, on \<open>_run\<close>: the views the handle has lent show the rows of its runs at the size of the lane
  that asks (\<open>lends\<close>), as they do when the runs of each handle are asked for by lanes of one row size.
\<close>

record 'p pup_table =
  tslots :: "nat \<Rightarrow> 'p pupslot"
  tbufs :: "nat \<Rightarrow> (addr \<times> nat) option"
  tnext :: nat

definition table_of :: "('w, 'p, 'r) pst \<Rightarrow> 'p pup_table" where
  "table_of s = \<lparr>tslots = slots s, tbufs = bufs_at s, tnext = next_buf s\<rparr>"

text \<open>The libraries of one lane, and of the four.\<close>

record ('p, 'r) puplib =
  lib_less :: "'r \<Rightarrow> 'r \<Rightarrow> bool"
  lib_find :: "'r rowmem \<Rightarrow> slice \<Rightarrow> 'r \<Rightarrow> addr"
  lib_per :: nat
  lib_pup :: "('p, 'r) dogpup"
  lib_hit :: "'r hit"

record 'p puplibs =
  on_kv64 :: "('p, u64 \<times> u64) puplib"
  on_wh128 :: "('p, u64 \<times> u64) puplib"
  on_u64 :: "('p, u64) puplib"
  on_u32 :: "('p, u32) puplib"

definition of_lib :: "('w engine \<Rightarrow> ('r \<Rightarrow> 'r \<Rightarrow> bool) \<Rightarrow> ('r rowmem \<Rightarrow> slice \<Rightarrow> 'r \<Rightarrow> addr) \<Rightarrow> nat \<Rightarrow> ('w, 'r) lane) \<Rightarrow>
    'w engine \<Rightarrow> ('p, 'r) puplib \<Rightarrow> ('w, 'r) lane" where
  "of_lib lane E B = lane E (lib_less B) (lib_find B) (lib_per B)"

definition lane_step :: "bool \<Rightarrow> 'w engine \<Rightarrow> abc \<Rightarrow> ('w, 'r) lane \<Rightarrow> ('p, 'r) puplib \<Rightarrow>
    ('p pup_table \<Rightarrow> 'p pup_table \<Rightarrow> bool) \<Rightarrow> 'p pup_table \<Rightarrow> 'p pup_table \<Rightarrow> bool" where
  "lane_step fit E A L B X t u \<longleftrightarrow>
     (\<exists>f s :: ('w, 'p, 'r) pst. pup_leaf E A L (lib_pup B) (lib_hit B) f \<and> t = table_of s \<and> u = table_of (f s)) \<or>
     (\<exists>argv (s :: ('w, 'p, 'r) pst).
        (fit \<longrightarrow> (\<forall>h s'. JABCPupSlot E argv s = (Some h, s') \<longrightarrow> lends (pup_run (lib_pup B)) (rowsize L) h s)) \<and>
        t = table_of s \<and> u = table_of (snd (jpup_run E L (lib_pup B) argv s))) \<or>
     (\<exists>cb argv (s :: ('w, 'p, 'r) pst).
        (\<forall>f v (s' :: ('w, 'p, 'r) pst). X (table_of s') (table_of (snd (cb f v s')))) \<and>
        t = table_of s \<and> u = table_of (snd (jpup_range E L (lib_pup B) (lib_hit B) cb argv s)))"

lemma lane_step_mono [mono]:
  "(\<And>t u. X t u \<longrightarrow> Y t u) \<Longrightarrow> lane_step fit E A L B X t u \<longrightarrow> lane_step fit E A L B Y t u"
  unfolding lane_step_def by (intro disj_mono ex_mono conj_mono all_mono imp_refl)

inductive table_run :: "bool \<Rightarrow> 'w engine \<Rightarrow> abc \<Rightarrow> 'p puplibs \<Rightarrow> 'p pup_table \<Rightarrow> 'p pup_table \<Rightarrow> bool"
  for fit E A S where
  run_done: "table_run fit E A S t t"
| run_then: "table_run fit E A S t u \<Longrightarrow> table_run fit E A S u v \<Longrightarrow> table_run fit E A S t v"
| run_js: "(\<And>b. tbufs u b = tbufs t b \<or> tbufs u b = None) \<Longrightarrow> tslots u = tslots t \<Longrightarrow> tnext u = tnext t \<Longrightarrow>
    table_run fit E A S t u"
| run_kv64: "lane_step fit E A (of_lib lane_kv64 E (on_kv64 S)) (on_kv64 S) (table_run fit E A S) t u \<Longrightarrow> table_run fit E A S t u"
| run_wh128: "lane_step fit E A (of_lib lane_wh128 E (on_wh128 S)) (on_wh128 S) (table_run fit E A S) t u \<Longrightarrow> table_run fit E A S t u"
| run_u64: "lane_step fit E A (of_lib lane_u64 E (on_u64 S)) (on_u64 S) (table_run fit E A S) t u \<Longrightarrow> table_run fit E A S t u"
| run_u32: "lane_step fit E A (of_lib lane_u32 E (on_u32 S)) (on_u32 S) (table_run fit E A S) t u \<Longrightarrow> table_run fit E A S t u"

text \<open>The laws of the four libraries; the runs of a stack are found by one \<open>DOGPupDataRow\<close>.\<close>

definition lib_laws :: "('w, 'r) lane \<Rightarrow> 'p datarow \<Rightarrow> ('p, 'r) puplib \<Rightarrow> bool" where
  "lib_laws L R B \<longleftrightarrow> pup_laws L (lib_pup B) (lib_hit B) \<and> pup_run (lib_pup B) = R"

definition libs_laws :: "'w engine \<Rightarrow> 'p datarow \<Rightarrow> 'p puplibs \<Rightarrow> bool" where
  "libs_laws E R S \<longleftrightarrow> lib_laws (of_lib lane_kv64 E (on_kv64 S)) R (on_kv64 S) \<and>
     lib_laws (of_lib lane_wh128 E (on_wh128 S)) R (on_wh128 S) \<and>
     lib_laws (of_lib lane_u64 E (on_u64 S)) R (on_u64 S) \<and> lib_laws (of_lib lane_u32 E (on_u32 S)) R (on_u32 S)"

definition row_sizes :: "nat set" where "row_sizes = {4, 8, 16}"

lemma lane_sizes:
  "rowsize (of_lib lane_kv64 E B) \<in> row_sizes" "rowsize (of_lib lane_wh128 E B) \<in> row_sizes"
  "rowsize (of_lib lane_u64 E B') \<in> row_sizes" "rowsize (of_lib lane_u32 E B'') \<in> row_sizes"
  by (simp_all add: of_lib_def lane_kv64_def lane_wh128_def lane_u64_def lane_u32_def row_sizes_def)

text \<open>The views of a table, and the invariant of a lane's state as one of its table.\<close>

definition table_ok :: "'p datarow \<Rightarrow> 'p pup_table \<Rightarrow> bool" where
  "table_ok R t = views_ok row_sizes R \<lparr>eng = (), slots = tslots t,
     curs = (\<lambda>_. \<lparr>ents = [], curk = (), curx = False, cura = False, cure = 0\<rparr>), bufs_at = tbufs t, next_buf = tnext t\<rparr>"

lemma table_ok_of: "table_ok R (table_of s) = views_ok row_sizes R s"
  by (simp add: table_ok_def table_of_def views_ok_def)

lemma lane_step_ok:
  fixes L :: "('w, 'r) lane" and B :: "('p, 'r) puplib" and R :: "'p datarow"
  assumes step: "lane_step True E A L B (\<lambda>t u. table_ok R t \<longrightarrow> table_ok R u) t u"
    and laws: "lib_laws L R B" and size: "rowsize L \<in> row_sizes" and t: "table_ok R t"
  shows "table_ok R u"
proof -
  have law: "pup_laws L (lib_pup B) (lib_hit B)" and R: "R = pup_run (lib_pup B)"
    using laws by (simp_all add: lib_laws_def)
  let ?I = "\<lambda>s :: ('w, 'p, 'r) pst. pup_laws L (lib_pup B) (lib_hit B) \<and> rowsize L \<in> row_sizes \<and>
    views_ok row_sizes (pup_run (lib_pup B)) s"
  have I: "?I s \<longleftrightarrow> table_ok R (table_of s)" for s :: "('w, 'p, 'r) pst"
    using law size by (simp add: table_ok_of R)
  note leaf = run_views.leaf_keeps [of E A L "lib_pup B" "lib_hit B" _ row_sizes, unfolded I]
  note lend = run_views.run_keeps [of L "lib_pup B" "lib_hit B" row_sizes _ E, unfolded I run_views.run_fits_def]
  note scan = run_views.range_keeps [where L = L and D = "lib_pup B" and H = "lib_hit B" and W = row_sizes and E = E, unfolded I]
  from step show ?thesis
    unfolding lane_step_def
  proof (elim disjE exE conjE)
    fix f and s :: "('w, 'p, 'r) pst"
    assume "pup_leaf E A L (lib_pup B) (lib_hit B) f" and "t = table_of s" and "u = table_of (f s)"
    with leaf t show ?thesis by blast
  next
    fix argv and s :: "('w, 'p, 'r) pst"
    assume "True \<longrightarrow> (\<forall>h s'. JABCPupSlot E argv s = (Some h, s') \<longrightarrow> lends (pup_run (lib_pup B)) (rowsize L) h s)"
      and "t = table_of s" and "u = table_of (snd (jpup_run E L (lib_pup B) argv s))"
    with lend t show ?thesis by blast
  next
    fix cb argv and s :: "('w, 'p, 'r) pst"
    assume "\<forall>f v s' :: ('w, 'p, 'r) pst. table_ok R (table_of s') \<longrightarrow> table_ok R (table_of (snd (cb f v s')))"
      and "t = table_of s" and "u = table_of (snd (jpup_range E L (lib_pup B) (lib_hit B) cb argv s))"
    with scan t show ?thesis by blast
  qed
qed

lemma table_run_ok:
  assumes laws: "libs_laws E R S" and "table_run True E A S t u"
  shows "table_ok R t \<longrightarrow> table_ok R u"
  using assms(2)
proof (induction rule: table_run.induct)
  case (run_js u t)
  have "views_ok row_sizes R \<lparr>eng = (), slots = tslots u,
     curs = (\<lambda>_. \<lparr>ents = [], curk = (), curx = False, cura = False, cure = 0\<rparr>), bufs_at = tbufs u, next_buf = tnext u\<rparr>"
    if "table_ok R t"
    by (rule views_frame [OF that [unfolded table_ok_def]]) (use run_js in simp_all)
  then show ?case by (simp add: table_ok_def)
next
  case (run_kv64 t u)
  have "lane_step True E A (of_lib lane_kv64 E (on_kv64 S)) (on_kv64 S) (\<lambda>t u. table_ok R t \<longrightarrow> table_ok R u) t u"
    by (rule lane_step_mono [rule_format, OF _ run_kv64(1)]) blast
  from lane_step_ok [OF this _ lane_sizes(1)] laws show ?case by (simp add: libs_laws_def)
next
  case (run_wh128 t u)
  have "lane_step True E A (of_lib lane_wh128 E (on_wh128 S)) (on_wh128 S) (\<lambda>t u. table_ok R t \<longrightarrow> table_ok R u) t u"
    by (rule lane_step_mono [rule_format, OF _ run_wh128(1)]) blast
  from lane_step_ok [OF this _ lane_sizes(2)] laws show ?case by (simp add: libs_laws_def)
next
  case (run_u64 t u)
  have "lane_step True E A (of_lib lane_u64 E (on_u64 S)) (on_u64 S) (\<lambda>t u. table_ok R t \<longrightarrow> table_ok R u) t u"
    by (rule lane_step_mono [rule_format, OF _ run_u64(1)]) blast
  from lane_step_ok [OF this _ lane_sizes(3)] laws show ?case by (simp add: libs_laws_def)
next
  case (run_u32 t u)
  have "lane_step True E A (of_lib lane_u32 E (on_u32 S)) (on_u32 S) (\<lambda>t u. table_ok R t \<longrightarrow> table_ok R u) t u"
    by (rule lane_step_mono [rule_format, OF _ run_u32(1)]) blast
  from lane_step_ok [OF this _ lane_sizes(4)] laws show ?case by (simp add: libs_laws_def)
qed auto

text \<open>The table of a handle being scanned; no lane's sources change its stack.\<close>

definition table_held :: "'p puplibs \<Rightarrow> nat \<Rightarrow> 'p \<Rightarrow> 'p pup_table \<Rightarrow> bool" where
  "table_held S h p t \<longleftrightarrow> live (tslots t h) \<and> busy (tslots t h) \<and> pups (tslots t h) = p \<and>
     snd (pup_sources (lib_pup (on_kv64 S)) p) = p \<and> snd (pup_sources (lib_pup (on_wh128 S)) p) = p \<and>
     snd (pup_sources (lib_pup (on_u64 S)) p) = p \<and> snd (pup_sources (lib_pup (on_u32 S)) p) = p"

lemma lane_step_held:
  fixes L :: "('w, 'r) lane" and B :: "('p, 'r) puplib"
  assumes step: "lane_step fit E A L B (\<lambda>t u. table_held S h p t \<longrightarrow> table_held S h p u) t u"
    and laws: "lib_laws L R B" and still: "table_held S h p t \<Longrightarrow> snd (pup_sources (lib_pup B) p) = p"
    and t: "table_held S h p t"
  shows "table_held S h p u"
proof -
  let ?I = "\<lambda>s :: ('w, 'p, 'r) pst. pup_laws L (lib_pup B) (lib_hit B) \<and> held (lib_pup B) h p s"
  have I: "?I s \<longleftrightarrow> table_held S h p (table_of s)" for s :: "('w, 'p, 'r) pst"
    using laws still [OF t] t by (auto simp: held_def table_held_def table_of_def lib_laws_def)
  note leaf = scanned.leaf_keeps [of E A L "lib_pup B" "lib_hit B" _ h p, unfolded I]
  note lend = scanned.run_keeps [of L "lib_pup B" "lib_hit B" h p _ E, unfolded I scanned.run_fits_def]
  note scan = scanned.range_keeps [where L = L and D = "lib_pup B" and H = "lib_hit B" and h = h and p = p and E = E,
      unfolded I]
  from step show ?thesis
    unfolding lane_step_def
  proof (elim disjE exE conjE)
    fix f and s :: "('w, 'p, 'r) pst"
    assume "pup_leaf E A L (lib_pup B) (lib_hit B) f" and "t = table_of s" and "u = table_of (f s)"
    with leaf t show ?thesis by blast
  next
    fix argv and s :: "('w, 'p, 'r) pst"
    assume "t = table_of s" and "u = table_of (snd (jpup_run E L (lib_pup B) argv s))"
    with lend t show ?thesis by blast
  next
    fix cb argv and s :: "('w, 'p, 'r) pst"
    assume "\<forall>f v s' :: ('w, 'p, 'r) pst. table_held S h p (table_of s') \<longrightarrow> table_held S h p (table_of (snd (cb f v s')))"
      and "t = table_of s" and "u = table_of (snd (jpup_range E L (lib_pup B) (lib_hit B) cb argv s))"
    with scan t show ?thesis by blast
  qed
qed

lemma table_run_held:
  assumes laws: "libs_laws E R S" and "table_run fit E A S t u"
  shows "table_held S h p t \<longrightarrow> table_held S h p u"
  using assms(2)
proof (induction rule: table_run.induct)
  case (run_kv64 t u)
  have "lane_step fit E A (of_lib lane_kv64 E (on_kv64 S)) (on_kv64 S) (\<lambda>t u. table_held S h p t \<longrightarrow> table_held S h p u) t u"
    by (rule lane_step_mono [rule_format, OF _ run_kv64(1)]) blast
  from lane_step_held [OF this] laws show ?case by (auto simp: libs_laws_def table_held_def)
next
  case (run_wh128 t u)
  have "lane_step fit E A (of_lib lane_wh128 E (on_wh128 S)) (on_wh128 S) (\<lambda>t u. table_held S h p t \<longrightarrow> table_held S h p u) t u"
    by (rule lane_step_mono [rule_format, OF _ run_wh128(1)]) blast
  from lane_step_held [OF this] laws show ?case by (auto simp: libs_laws_def table_held_def)
next
  case (run_u64 t u)
  have "lane_step fit E A (of_lib lane_u64 E (on_u64 S)) (on_u64 S) (\<lambda>t u. table_held S h p t \<longrightarrow> table_held S h p u) t u"
    by (rule lane_step_mono [rule_format, OF _ run_u64(1)]) blast
  from lane_step_held [OF this] laws show ?case by (auto simp: libs_laws_def table_held_def)
next
  case (run_u32 t u)
  have "lane_step fit E A (of_lib lane_u32 E (on_u32 S)) (on_u32 S) (\<lambda>t u. table_held S h p t \<longrightarrow> table_held S h p u) t u"
    by (rule lane_step_mono [rule_format, OF _ run_u32(1)]) blast
  from lane_step_held [OF this] laws show ?case by (auto simp: libs_laws_def table_held_def)
qed (auto simp: table_held_def)

text \<open>
  C1: no view dangles.  Whatever a JavaScript program does with the leaves of the four lanes over the
  one table of handles, any buffer over run bytes that still shows memory shows exactly the rows, at
  the row size of some lane, of a run that a live handle has now; provided no run is asked for through
  a lane while its handle lends views that show other bytes than that lane's rows.  Without the
  proviso it is false (\<open>remint_leaves_the_old_view\<close>).
\<close>

theorem run_views_never_dangle:
  assumes "libs_laws E R S" and "table_run True E A S (table_of (pup_start D r w)) t"
    and "tbufs t b = Some (base, n)"
  shows "\<exists>h i z. live (tslots t h) \<and> i < HIT_MAX_RUNS \<and> z \<in> {4, 8, 16} \<and>
    R z (pups (tslots t h)) i = Some (base, n)"
proof -
  let ?s = "\<lparr>eng = (), slots = tslots t, curs = (\<lambda>_. \<lparr>ents = [], curk = (), curx = False, cura = False, cure = 0\<rparr>),
    bufs_at = tbufs t, next_buf = tnext t\<rparr>"
  have "table_ok R t"
    using table_run_ok [OF assms(1,2)] start_ok(1) [of row_sizes R D r w] by (simp add: table_ok_of)
  then have ok: "views_ok row_sizes R ?s" by (simp add: table_ok_def)
  from views_shown [OF ok, of b "(base, n)"] assms(3) obtain h i v
    where v: "view (slots ?s h) i = Some v" "(base, n) = (vbase v, vlen v)" by auto
  from views_at(4) [OF ok v(1)] obtain z where "z \<in> row_sizes" "R z (pups (tslots t h)) i = Some (base, n)"
    using v(2) by auto
  with views_at(1,2) [OF ok v(1)] show ?thesis
    by (intro exI [of _ h] exI [of _ i] exI [of _ z]) (simp add: row_sizes_def)
qed

text \<open>
  A run asked for again through a lane of another row size is minted anew when the rows are another
  length; the buffer of the first view is dropped from the table but not detached, and when the stack
  moves it still shows the bytes that are unmapped.
\<close>

lemma remint_leaves_the_old_view:
  assumes ok: "views_ok W R s" and v: "view (slots s h) i = Some v"
    and shown: "bufs_at s (vbuf v) = Some (vbase v, vlen v)" and other: "run \<noteq> (vbase v, vlen v)"
    and i: "i < HIT_MAX_RUNS"
  shows "bufs_at (JABCPupMoved h (snd (JABCPupView h i run s))) (vbuf v) = Some (vbase v, vlen v)"
proof -
  let ?s1 = "set_slot h (\<lambda>sl. sl\<lparr>view := (view sl)(i := None), nview := nview sl - 1\<rparr>) s"
  let ?s2 = "set_slot h (\<lambda>sl. sl\<lparr>view := (view sl)(i \<mapsto> \<lparr>vbuf = next_buf s, vbase = fst run, vlen = snd run\<rparr>),
      nview := nview sl + 1\<rparr>) (?s1\<lparr>bufs_at := (bufs_at s)(next_buf s \<mapsto> run), next_buf := next_buf s + 1\<rparr>)"
  have new: "snd (JABCPupView h i run s) = ?s2"
    using v other by (auto simp: JABCPupView_def Let_def set_slot_def)
  have fresh: "vbuf v < next_buf s" by (rule views_at(3) [OF ok v])
  have none: "map_option vbuf (view (slots ?s2 h) k) \<noteq> Some (vbuf v)" for k
    using views_inj [OF ok v, of h k] fresh by (auto simp: set_slot_def)
  have "bufs_at ?s2 (vbuf v) = Some (vbase v, vlen v)" using shown fresh by (simp add: set_slot_def)
  then show ?thesis
    unfolding new JABCPupMoved_def JABCPupUnview_def using none by (simp add: set_slot_def)
qed

text \<open>
  No cursor is stale.  In every state a program reaches, a cursor that stands at the current
  version of its handle's stack has all its entries inside the stack's current sources.
\<close>

theorem cursor_never_stale:
  assumes "pup_laws L D H" and "pup_prog E A L D H f"
    and "s = f (pup_start D r w)" and "live (slots s h)" and "e \<in> set (ents (curs s h))"
    and "cure (curs s h) = epoch (slots s h)"
  shows "\<exists>srcs src. fst (pup_sources D (pups (slots s h))) = Some srcs \<and> src \<in> set srcs \<and>
    fst (fst src) \<le> fst e \<and> snd e = snd (fst src)"
proof -
  have ok: "cursor_ok D s"
    unfolding assms(3)
    by (rule conjunct2 [OF pulled_cursor.prog_keeps [OF assms(2)]]) (simp add: assms(1) start_ok)
  moreover have "ents (curs s h) \<noteq> []" using assms(5) by auto
  ultimately obtain srcs where s: "fst (pup_sources D (pups (slots s h))) = Some srcs"
    and t: "tails_of (ents (curs s h)) (map fst srcs)"
    using assms(4,6) unfolding cursor_ok_def by blast
  from t assms(5) obtain src where "src \<in> set srcs" "tail_of e (fst src)"
    unfolding tails_of_def by auto
  with s show ?thesis
    by (intro exI [of _ srcs] exI [of _ src]) (simp add: tail_of_def)
qed

text \<open>
  A scan holds its handle still.  While a handle is being scanned, nothing a callback does
  changes its stack or closes it: whatever program runs, the handle stays live, busy, and on the
  very stack the scan started from; and closing it answers with the busy error.
\<close>

theorem scan_holds_its_handle:
  assumes "pup_laws L D H" and "held D h p s" and "pup_prog E A L D H f"
  shows "held D h p (f s) \<and>
    (\<forall>argv. pup_slot_or E 0 (usage L ''_close(h)'') argv (f s) = (Inr h, f s) \<longrightarrow>
      jpup_close E L D argv (f s) = (Inl PUP_BUSY, f s))"
proof -
  have "held D h p (f s)"
    by (rule conjunct2 [OF scanned.prog_keeps [OF assms(3)]]) (simp add: assms(1,2))
  then show ?thesis by (simp add: jpup_close_def held_def)
qed

section \<open>Instances\<close>

lemma sample_heap_laws:
  assumes find: "findGE L = sample_find lt'"
    and src: "\<And>p. snd (pup_sources D p) = p"
  shows "pup_laws L D (sample_hit lt)"
proof -
  have adv: "tails_of (map (\<lambda>e. if P e then (fst e + 1, snd e) else e) es) es" for P and es :: "slice list"
    unfolding tails_of_def tail_of_def by force
  have upd: "tails_of (es[i := (Suc (fst (es ! i)), snd (es ! i))]) es" for i and es :: "slice list"
  proof (cases "i < length es")
    case True
    then have "set (es[i := (Suc (fst (es ! i)), snd (es ! i))]) \<subseteq> insert (Suc (fst (es ! i)), snd (es ! i)) (set es)"
      by (simp add: set_update_subset_insert)
    with True show ?thesis
      unfolding tails_of_def tail_of_def
      by (metis (no_types, lifting) Suc_leD dual_order.refl fst_conv insertE nth_mem snd_conv subsetD)
  qed (simp add: tails_refl list_update_beyond)
  show ?thesis
    unfolding pup_laws_def find src
    by (intro conjI allI impI)
      (auto simp: sample_hit_def Let_def adv upd tails_refl intro: sample_find_ge split: if_splits)
qed

lemma sample_pup_laws: "pup_laws sample_lane sample_pup (sample_hit (<))"
  by (rule sample_heap_laws [where lt' = "(<)"]) simp_all

text \<open>
  A stack for all lanes: one file of bytes at a base that every put moves, of which as many are rows
  as are whole rows.
\<close>

definition byte_pup :: "'r \<Rightarrow> (nat \<times> nat, 'r) dogpup" where
  "byte_pup r = \<lparr>
     pup_open = (\<lambda>d e. (OK, (1, 44))),
     pup_count = (\<lambda>p. 1),
     pup_put = (\<lambda>d e r n p. (OK, (fst p + 100, snd p))),
     pup_commit = (\<lambda>d e b p. (OK, (fst p + 100, snd p))),
     pup_thin = (\<lambda>d e n p. (OK, (fst p + 100, 0))),
     pup_drop = (\<lambda>d e i p. (OK, (fst p + 100, 0))),
     pup_sources = (\<lambda>p. (Some [], p)),
     rowat = (\<lambda>p a. r),
     pup_run = (\<lambda>z p i. if i = 0 then Some (fst p, z * (snd p div z)) else None),
     pup_none = (0, 0),
     syspage = 4096,
     DOG_PUP_MEM_PAGES = 1 \<rparr>"

definition byte_lib :: "'r \<Rightarrow> ('r \<Rightarrow> 'r \<Rightarrow> bool) \<Rightarrow> (nat \<times> nat, 'r) puplib" where
  "byte_lib r lt = \<lparr>lib_less = lt, lib_find = sample_find lt, lib_per = 0, lib_pup = byte_pup r, lib_hit = sample_hit lt\<rparr>"

definition byte_libs :: "(nat \<times> nat) puplibs" where
  "byte_libs = \<lparr>on_kv64 = byte_lib (0, 0) (\<lambda>a b. fst a < fst b),
     on_wh128 = byte_lib (0, 0) (\<lambda>a b. fst a < fst b \<or> fst a = fst b \<and> snd a < snd b),
     on_u64 = byte_lib 0 (<), on_u32 = byte_lib 0 (<)\<rparr>"

definition byte_rows :: "(nat \<times> nat) datarow" where
  "byte_rows = (\<lambda>z p i. if i = 0 then Some (fst p, z * (snd p div z)) else None)"

lemma byte_lib_laws: "findGE L = sample_find lt \<Longrightarrow> lib_laws L byte_rows (byte_lib r lt)"
  using sample_heap_laws [of L lt "byte_pup r" lt]
  by (simp add: lib_laws_def byte_lib_def byte_pup_def byte_rows_def)

lemma byte_lib_find: "lib_find (byte_lib r lt) = sample_find lt"
  by (simp add: byte_lib_def)

lemma byte_libs_laws: "libs_laws E byte_rows byte_libs"
  unfolding libs_laws_def byte_libs_def puplibs.select_convs
  by (intro conjI byte_lib_laws)
     (simp_all add: of_lib_def byte_lib_find lane_kv64_def lane_wh128_def lane_u64_def lane_u32_def)

definition sample_start :: "(sample_state, nat \<times> u64 list, u64) pst" where
  "sample_start = pup_start sample_pup 0 \<lparr>bufs = [], props = (\<lambda>_. JUndef)\<rparr>"

abbreviation sample_program :: "(sample_state, nat \<times> u64 list, u64) pst \<Rightarrow> (sample_state, nat \<times> u64 list, u64) pst" where
  "sample_program s \<equiv>
     snd (jpup_run sample_engine sample_lane sample_pup [JNum (Fin 0), JNum (Fin 0)]
      (snd (jpup_seek sample_engine sample_lane sample_pup [JNum (Fin 0), JBig 3]
       (snd (jpup_open sample_engine sample_abc sample_lane sample_pup [JStr ''d'', JStr ''x''] s)))))"

lemma sample_program_is: "pup_prog sample_engine sample_abc sample_lane sample_pup (sample_hit (<)) sample_program"
  by (rule prog_seq [OF prog_seq [OF prog_leaf [OF leaf_open] prog_leaf [OF leaf_seek]] prog_run])

lemma sample_gate: "JABCu64Of sample_engine (JNum (Fin 0)) w = (Inr 0, w)"
  by (simp add: JABCu64Of_def sample_engine_def sample_number_def c_cast_def js_int_def)

lemma sample_pages: "open_pages sample_lane sample_pup 0 = 1"
  by (simp add: open_pages_def)

lemma sample_free: "first_free (slots sample_start) = Some 0"
  by (simp add: first_free_def PUP_MAX_OPEN_def sample_start_def pup_start_def upt_rec)

lemma sample_slot:
  "live (slots s 0) \<Longrightarrow> n \<le> length (JNum (Fin 0) # vs) \<Longrightarrow>
   pup_slot_or sample_engine n u (JNum (Fin 0) # vs) s = (Inr 0, s)"
  by (simp add: pup_slot_or_def JABCPupSlot_def on_eng_def sample_gate PUP_MAX_OPEN_def)

lemma sample_opened:
  "snd (jpup_open sample_engine sample_abc sample_lane sample_pup [JStr ''d'', JStr ''x''] sample_start) =
   JABCPupMoved 0 (set_cur 0 (\<lambda>c. c\<lparr>ents := [], cura := False\<rparr>)
     (set_slot 0 (\<lambda>sl. sl\<lparr>pups := (1, [2, 4, 6]), live := True, rw := True, busy := False, pages := 1, memrows := 512\<rparr>)
       sample_start))"
  by (simp add: jpup_open_def pup_paths_def path_or_def JABCPath_def sample_abc_def open_rows_def sample_pages
    sample_free PUP_MAX_MEM_PAGES_def open_mode_def HIT_MAX_RUNS_def)

lemma sample_found: "sample_find (<) (rowat sample_pup (1, [2, 4, 6])) (1, 4) (3::u64) = 2"
  by (simp add: sample_find_def upt_rec)

lemma sample_needle: "on_eng (JABCPupU64 sample_engine (JBig 3)) s = (Inr 3, s)"
  by (simp add: on_eng_def JABCPupU64_def JABCBigU64Of_def sample_engine_def)

lemma sample_src:
  "pups (slots s 0) = (1, [2, 4, 6]) \<Longrightarrow> jpup_src sample_pup 0 s = (Inr [((1, 4), (0, 0))], s)"
  by (cases s) (simp add: jpup_src_def set_slot_def fun_upd_idem)

lemma sample_cut:
  assumes "pups (slots s 0) = (1, [2, 4, 6])" and "curk (curs s 0) = 3" and "curx (curs s 0) = False"
  shows "jpup_cut sample_lane sample_pup 0 s =
    (Inr (), set_cur 0 (\<lambda>c. c\<lparr>ents := [(2, 4)], cure := epoch (slots s 0)\<rparr>) s)"
proof -
  let ?s = "set_cur 0 (\<lambda>c. c\<lparr>ents := []\<rparr>) s"
  have "jpup_src sample_pup 0 ?s = (Inr [((1, 4), (0, 0))], ?s)"
    by (rule sample_src) (simp add: set_cur_def assms)
  then have "jpup_cut sample_lane sample_pup 0 s = (Inr (), set_cur 0 (\<lambda>c. c\<lparr>
      ents := filter (\<lambda>e. fst e < snd e)
        (map (\<lambda>x. cut_entry sample_lane (rowat sample_pup (1, [2, 4, 6])) (curk c) (curx c) (fst x)) [((1, 4), (0, 0))]),
      cure := epoch (slots s 0)\<rparr>) ?s)"
    by (simp add: jpup_cut_def jbind_def set_cur_def assms)
  then show ?thesis
    using assms sample_found by (simp add: cut_entry_def set_cur_def del: sample_pup_fields(5))
qed

lemma sample_sought:
  assumes "live (slots s 0)" and "pups (slots s 0) = (1, [2, 4, 6])"
  shows "snd (jpup_seek sample_engine sample_lane sample_pup [JNum (Fin 0), JBig 3] s) =
    set_cur 0 (\<lambda>c. c\<lparr>curk := 3, curx := False, cura := True, ents := [(2, 4)], cure := epoch (slots s 0)\<rparr>) s"
  using assms
  by (simp add: jpup_seek_def sample_slot sample_needle jcatch_def sample_cut set_cur_def)

lemma sample_ran:
  assumes "live (slots s 0)" and "pups (slots s 0) = (1, [2, 4, 6])" and "view (slots s 0) 0 = None" and "next_buf s = 0"
  shows "bufs_at (snd (jpup_run sample_engine sample_lane sample_pup [JNum (Fin 0), JNum (Fin 0)] s)) 0 = Some (1, 3)"
    "curs (snd (jpup_run sample_engine sample_lane sample_pup [JNum (Fin 0), JNum (Fin 0)] s)) = curs s"
    "epoch (slots (snd (jpup_run sample_engine sample_lane sample_pup [JNum (Fin 0), JNum (Fin 0)] s)) 0) = epoch (slots s 0)"
    "live (slots (snd (jpup_run sample_engine sample_lane sample_pup [JNum (Fin 0), JNum (Fin 0)] s)) 0)"
    "pups (slots (snd (jpup_run sample_engine sample_lane sample_pup [JNum (Fin 0), JNum (Fin 0)] s)) 0) = (1, [2, 4, 6])"
  using assms
  by (simp_all add: jpup_run_def sample_slot on_eng_def sample_gate HIT_MAX_RUNS_def JABCPupView_def Let_def
    set_slot_def)

lemma sample_program_state:
  "bufs_at (sample_program sample_start) 0 = Some (1, 3)"
  "ents (curs (sample_program sample_start) 0) = [(2, 4)]"
  "cure (curs (sample_program sample_start) 0) = epoch (slots (sample_program sample_start) 0)"
  "live (slots (sample_program sample_start) 0)"
  "pups (slots (sample_program sample_start) 0) = (1, [2, 4, 6])"
proof -
  let ?o = "snd (jpup_open sample_engine sample_abc sample_lane sample_pup [JStr ''d'', JStr ''x''] sample_start)"
  let ?s = "snd (jpup_seek sample_engine sample_lane sample_pup [JNum (Fin 0), JBig 3] ?o)"
  have o: "live (slots ?o 0)" "pups (slots ?o 0) = (1, [2, 4, 6])" "view (slots ?o 0) 0 = None" "next_buf ?o = 0"
    unfolding sample_opened by (simp_all add: JABCPupMoved_def JABCPupUnview_def set_slot_def set_cur_def
      sample_start_def pup_start_def)
  have s: "live (slots ?s 0)" "pups (slots ?s 0) = (1, [2, 4, 6])" "view (slots ?s 0) 0 = None" "next_buf ?s = 0"
    "ents (curs ?s 0) = [(2, 4)]" "cure (curs ?s 0) = epoch (slots ?s 0)"
    unfolding sample_sought [OF o(1,2)] using o by (simp_all add: set_cur_def)
  show "bufs_at (sample_program sample_start) 0 = Some (1, 3)"
    "ents (curs (sample_program sample_start) 0) = [(2, 4)]"
    "cure (curs (sample_program sample_start) 0) = epoch (slots (sample_program sample_start) 0)"
    "live (slots (sample_program sample_start) 0)"
    "pups (slots (sample_program sample_start) 0) = (1, [2, 4, 6])"
    using sample_ran [OF s(1-4)] s(5,6) by simp_all
qed

text \<open>
  A handle opened through the kv64 lane, and a view of its run taken through the wh128 lane: the view is
  over two rows of 16 bytes.
\<close>

definition byte_start :: "(sample_state, nat \<times> nat, u64 \<times> u64) pst" where
  "byte_start = pup_start (byte_pup (0, 0)) (0, 0) \<lparr>bufs = [], props = (\<lambda>_. JUndef)\<rparr>"

abbreviation byte_opened :: "(sample_state, nat \<times> nat, u64 \<times> u64) pst" where
  "byte_opened \<equiv> snd (jpup_open sample_engine sample_abc (of_lib lane_kv64 sample_engine (on_kv64 byte_libs))
     (lib_pup (on_kv64 byte_libs)) [JStr ''d'', JStr ''x''] byte_start)"

abbreviation byte_viewed :: "(sample_state, nat \<times> nat, u64 \<times> u64) pst" where
  "byte_viewed \<equiv> snd (jpup_run sample_engine (of_lib lane_wh128 sample_engine (on_wh128 byte_libs))
     (lib_pup (on_wh128 byte_libs)) [JNum (Fin 0), JNum (Fin 0)] byte_opened)"

lemma byte_opens:
  "byte_opened = JABCPupMoved 0 (set_cur 0 (\<lambda>c. c\<lparr>ents := [], cura := False\<rparr>)
     (set_slot 0 (\<lambda>sl. sl\<lparr>pups := (1, 44), live := True, rw := True, busy := False, pages := 1, memrows := 256\<rparr>)
       byte_start))"
proof -
  have "open_pages (of_lib lane_kv64 sample_engine (on_kv64 byte_libs)) (byte_pup (0, 0)) 0 = 1"
    by (simp add: open_pages_def of_lib_def lane_kv64_def byte_pup_def)
  moreover have "first_free (slots byte_start) = Some 0"
    by (simp add: first_free_def PUP_MAX_OPEN_def byte_start_def pup_start_def upt_rec)
  ultimately show ?thesis
    by (simp add: jpup_open_def pup_paths_def path_or_def JABCPath_def sample_abc_def open_rows_def byte_libs_def
        byte_lib_def byte_pup_def of_lib_def lane_kv64_def PUP_MAX_MEM_PAGES_def open_mode_def HIT_MAX_RUNS_def Let_def)
qed

lemma byte_opened_state: "live (slots byte_opened 0)" "pups (slots byte_opened 0) = (1, 44)"
  "view (slots byte_opened h) = (\<lambda>_. None)" "next_buf byte_opened = 0"
  unfolding byte_opens
  by (simp_all add: JABCPupMoved_def JABCPupUnview_def set_slot_def set_cur_def byte_start_def pup_start_def)

lemma byte_shows: "tbufs (table_of byte_viewed) 0 = Some (1, 32)"
  using byte_opened_state
  by (simp add: jpup_run_def sample_slot on_eng_def sample_gate HIT_MAX_RUNS_def JABCPupView_def Let_def set_slot_def
      byte_libs_def byte_lib_def byte_pup_def of_lib_def lane_wh128_def table_of_def)

lemma byte_program: "table_run True sample_engine sample_abc byte_libs (table_of byte_start) (table_of byte_viewed)"
proof (rule run_then)
  show "table_run True sample_engine sample_abc byte_libs (table_of byte_start) (table_of byte_opened)"
    by (rule run_kv64, unfold lane_step_def, intro disjI1 exI conjI) (rule leaf_open, rule refl, rule refl)
  have "lends R z h byte_opened" for R z h
    using byte_opened_state(3) by (simp add: lends_def)
  then show "table_run True sample_engine sample_abc byte_libs (table_of byte_opened) (table_of byte_viewed)"
    by (intro run_wh128) (unfold lane_step_def, blast)
qed

lemma run_views_never_dangle_witness:
  "\<exists>h i z. live (tslots (table_of byte_viewed) h) \<and> i < HIT_MAX_RUNS \<and> z \<in> {4, 8, 16} \<and>
    byte_rows z (pups (tslots (table_of byte_viewed) h)) i = Some (1, 32)"
  by (rule run_views_never_dangle [OF byte_libs_laws byte_program [unfolded byte_start_def] byte_shows [unfolded byte_start_def],
        folded byte_start_def])

lemma cursor_never_stale_witness:
  "ents (curs (sample_program sample_start) 0) = [(2, 4)] \<and>
   (\<exists>srcs src. fst (pup_sources sample_pup (pups (slots (sample_program sample_start) 0))) = Some srcs \<and>
     src \<in> set srcs \<and> fst (fst src) \<le> 2 \<and> 4 = snd (fst src))"
  using cursor_never_stale [OF sample_pup_laws sample_program_is, of "sample_program sample_start" 0
      "\<lparr>bufs = [], props = (\<lambda>_. JUndef)\<rparr>" 0 "(2, 4)", folded sample_start_def] sample_program_state
  by simp

text \<open>A program run from a state where handle 0 is being scanned.\<close>

lemma scan_holds_its_handle_witness:
  "held sample_pup 0 (1, [2, 4, 6])
     (sample_program (set_slot 0 (\<lambda>sl. sl\<lparr>busy := True\<rparr>) (sample_program sample_start)))"
proof -
  have "held sample_pup 0 (1, [2, 4, 6]) (set_slot 0 (\<lambda>sl. sl\<lparr>busy := True\<rparr>) (sample_program sample_start))"
    using sample_program_state(4,5) by (simp add: held_def set_slot_def)
  with scan_holds_its_handle [OF sample_pup_laws _ sample_program_is] show ?thesis by blast
qed

end
