(* ===== verification/PupMerge.thy ===== *)
theory PupMerge
  imports PupSafe "HOL-Library.Multiset"
begin

text \<open>
  What an index answers.  The sources of a handle are sorted slices of rows, oldest first; a row
  shadows the rows that tie with it in older slices.  Point lookup, the range scan and the pull
  cursor all answer from that one picture, the definition \<open>newest\<close>, whatever pages, tables of
  contents and heaps they go through.
\<close>

section \<open>Rows of slices\<close>

definition rows :: "'r rowmem \<Rightarrow> slice \<Rightarrow> 'r list" where
  "rows M e = map M [fst e..<snd e]"

definition tie :: "('r \<Rightarrow> 'r \<Rightarrow> bool) \<Rightarrow> 'r \<Rightarrow> 'r \<Rightarrow> bool" where
  "tie lt a b \<longleftrightarrow> \<not> lt a b \<and> \<not> lt b a"

text \<open>The order of a lane: strict and weak (rows that tie need not be equal).\<close>

definition weak_order :: "('r \<Rightarrow> 'r \<Rightarrow> bool) \<Rightarrow> bool" where
  "weak_order lt \<longleftrightarrow> (\<forall>a. \<not> lt a a) \<and> (\<forall>a b c. lt a b \<longrightarrow> lt b c \<longrightarrow> lt a c) \<and>
     (\<forall>a b c. \<not> lt a b \<longrightarrow> \<not> lt b c \<longrightarrow> \<not> lt a c)"

text \<open>A row of the youngest list that has a row of its key.\<close>

fun newest :: "('r \<Rightarrow> 'r \<Rightarrow> bool) \<Rightarrow> 'r list list \<Rightarrow> 'r \<Rightarrow> bool" where
  "newest lt [] r = False"
| "newest lt (l # ls) r = (newest lt ls r \<or> r \<in> set l \<and> (\<forall>l' \<in> set ls. \<forall>x \<in> set l'. \<not> tie lt x r))"

lemma wo_irrefl: "weak_order lt \<Longrightarrow> \<not> lt a a"
  by (simp add: weak_order_def)

lemma wo_trans: "weak_order lt \<Longrightarrow> lt a b \<Longrightarrow> lt b c \<Longrightarrow> lt a c"
  unfolding weak_order_def by blast

lemma wo_neg: "weak_order lt \<Longrightarrow> lt a c \<Longrightarrow> lt a b \<or> lt b c"
  unfolding weak_order_def by blast

lemma rows_Nil [simp]: "rows M e = [] \<longleftrightarrow> snd e \<le> fst e"
  by (auto simp: rows_def)

lemma rows_Cons: "fst e < snd e \<Longrightarrow> rows M e = M (fst e) # rows M (fst e + 1, snd e)"
  by (simp add: rows_def upt_conv_Cons)

lemma length_rows [simp]: "length (rows M e) = snd e - fst e"
  by (simp add: rows_def)

lemma set_rows: "set (rows M e) = M ` {fst e..<snd e}"
  by (simp add: rows_def)

lemma sorted_rows:
  "sorted_wrt lt (rows M e) \<longleftrightarrow> (\<forall>a b. fst e \<le> a \<and> a < b \<and> b < snd e \<longrightarrow> lt (M a) (M b))"
proof -
  have "sorted_wrt lt (rows M e) \<longleftrightarrow>
      (\<forall>i j. i < j \<longrightarrow> j < snd e - fst e \<longrightarrow> lt (M (fst e + i)) (M (fst e + j)))"
    by (auto simp: sorted_wrt_iff_nth_less rows_def)
  also have "\<dots> \<longleftrightarrow> (\<forall>a b. fst e \<le> a \<and> a < b \<and> b < snd e \<longrightarrow> lt (M a) (M b))"
  proof (intro iffI allI impI)
    fix a b
    assume H: "\<forall>i j. i < j \<longrightarrow> j < snd e - fst e \<longrightarrow> lt (M (fst e + i)) (M (fst e + j))"
      and "fst e \<le> a \<and> a < b \<and> b < snd e"
    moreover from this have "a - fst e < b - fst e" "b - fst e < snd e - fst e" by arith+
    ultimately show "lt (M a) (M b)"
      using H [rule_format, of "a - fst e" "b - fst e"] by simp
  qed auto
  finally show ?thesis .
qed

lemma newest_filter_Nil: "newest lt (filter (\<lambda>l. l \<noteq> []) ls) r = newest lt ls r"
  by (induction ls) auto

lemma newest_in: "newest lt ls r \<Longrightarrow> \<exists>l \<in> set ls. r \<in> set l"
  by (induction ls) auto

lemma newest_append:
  "newest lt (as @ bs) r \<longleftrightarrow> newest lt bs r \<or> newest lt as r \<and> (\<forall>l \<in> set bs. \<forall>x \<in> set l. \<not> tie lt x r)"
  by (induction as) auto

text \<open>A key that some list has, has a newest row.\<close>

lemma newest_exists:
  assumes "weak_order lt" and "\<exists>l \<in> set ls. \<exists>x \<in> set l. tie lt x k"
  shows "\<exists>r. newest lt ls r \<and> tie lt r k"
  using assms(2)
proof (induction ls)
  case (Cons l ls)
  show ?case
  proof (cases "\<exists>l \<in> set ls. \<exists>x \<in> set l. tie lt x k")
    case True
    with Cons.IH show ?thesis by auto
  next
    case False
    with Cons.prems obtain x where x: "x \<in> set l" "tie lt x k" by auto
    have "\<not> tie lt y x" if "l' \<in> set ls" "y \<in> set l'" for l' y
    proof
      assume "tie lt y x"
      with x(2) have "tie lt y k" using assms(1) unfolding weak_order_def tie_def by blast
      with False that show False by blast
    qed
    with x show ?thesis by auto
  qed
qed simp

lemma sum_list_strict:
  fixes f :: "'a \<Rightarrow> nat"
  assumes "\<And>x. x \<in> set xs \<Longrightarrow> f x \<le> g x" and "\<exists>x \<in> set xs. f x < g x"
  shows "(\<Sum>x\<leftarrow>xs. f x) < (\<Sum>x\<leftarrow>xs. g x)"
  using assms
proof (induction xs)
  case (Cons x xs)
  have "(\<Sum>x\<leftarrow>xs. f x) \<le> (\<Sum>x\<leftarrow>xs. g x)" using Cons.prems(1) by (intro sum_list_mono) auto
  moreover have "f x < g x \<or> (\<Sum>x\<leftarrow>xs. f x) < (\<Sum>x\<leftarrow>xs. g x)" using Cons by auto
  moreover have "f x \<le> g x" using Cons.prems(1) by simp
  ultimately show ?case by auto
qed simp

section \<open>Past the top row\<close>

text \<open>
  What abc's heap is relied on for: Load keeps the slices that have rows, the top is a least row
  of the youngest slice that has one, AdvanceTops moves every slice whose head ties with it, and
  SeekRange leaves of every sorted slice its rows in the range.
\<close>

definition hit_laws :: "('w, 'r) lane \<Rightarrow> 'r hit \<Rightarrow> bool" where
  "hit_laws L H \<longleftrightarrow>
     (\<forall>M es. length es \<le> HIT_MAX_RUNS \<longrightarrow> hit_load H M es = Some (filter (\<lambda>e. fst e < snd e) es)) \<and>
     (\<forall>M es. (\<exists>e \<in> set es. fst e < snd e) \<longrightarrow>
        hit_top H M es < length es \<and> fst (es ! hit_top H M es) < snd (es ! hit_top H M es) \<and>
        (\<forall>j < length es. fst (es ! j) < snd (es ! j) \<longrightarrow> \<not> Z L (M (fst (es ! j))) (top_row H M es) \<and>
           (hit_top H M es < j \<longrightarrow> Z L (top_row H M es) (M (fst (es ! j))))) \<and>
        hit_advance H M es = map (\<lambda>e. if fst e < snd e \<and> tie (Z L) (M (fst e)) (top_row H M es)
                                   then (fst e + 1, snd e) else e) es) \<and>
     (\<forall>M es lo hi. (\<forall>e \<in> set es. sorted_wrt (Z L) (rows M e)) \<longrightarrow>
        length (hit_seek H M es lo hi) \<le> length es \<and>
        (\<forall>e \<in> set (hit_seek H M es lo hi). sorted_wrt (Z L) (rows M e)) \<and>
        filter (\<lambda>l. l \<noteq> []) (map (rows M) (hit_seek H M es lo hi)) =
        filter (\<lambda>l. l \<noteq> []) (map (\<lambda>e. filter (\<lambda>r. \<not> Z L r lo \<and> Z L r hi) (rows M e)) es))"

lemma hit_loadD: "hit_laws L H \<Longrightarrow> length es \<le> HIT_MAX_RUNS \<Longrightarrow>
    hit_load H M es = Some (filter (\<lambda>e. fst e < snd e) es)"
  unfolding hit_laws_def by blast

lemma hit_topD:
  assumes "hit_laws L H" and "\<exists>e \<in> set es. fst e < snd e"
  shows "hit_top H M es < length es" and "fst (es ! hit_top H M es) < snd (es ! hit_top H M es)"
    and "j < length es \<Longrightarrow> fst (es ! j) < snd (es ! j) \<Longrightarrow> \<not> Z L (M (fst (es ! j))) (top_row H M es)"
    and "j < length es \<Longrightarrow> fst (es ! j) < snd (es ! j) \<Longrightarrow> hit_top H M es < j \<Longrightarrow>
      Z L (top_row H M es) (M (fst (es ! j)))"
    and "hit_advance H M es = map (\<lambda>e. if fst e < snd e \<and> tie (Z L) (M (fst e)) (top_row H M es)
                                   then (fst e + 1, snd e) else e) es"
  using assms unfolding hit_laws_def by blast+

lemma hit_seekD:
  assumes "hit_laws L H" and "\<forall>e \<in> set es. sorted_wrt (Z L) (rows M e)"
  shows "length (hit_seek H M es lo hi) \<le> length es"
    and "\<forall>e \<in> set (hit_seek H M es lo hi). sorted_wrt (Z L) (rows M e)"
    and "filter (\<lambda>l. l \<noteq> []) (map (rows M) (hit_seek H M es lo hi)) =
        filter (\<lambda>l. l \<noteq> []) (map (\<lambda>e. filter (\<lambda>r. \<not> Z L r lo \<and> Z L r hi) (rows M e)) es)"
  using assms unfolding hit_laws_def by blast+

text \<open>The rows of an entry once the heap is past a least row \<open>v\<close>: those above \<open>v\<close>.\<close>

lemma advance_rows:
  assumes wo: "weak_order lt" and sorted: "sorted_wrt lt (rows M e)"
    and least: "fst e < snd e \<Longrightarrow> \<not> lt (M (fst e)) v"
  shows "rows M (if fst e < snd e \<and> tie lt (M (fst e)) v then (fst e + 1, snd e) else e) =
    filter (lt v) (rows M e)"
proof (cases "fst e < snd e")
  case True
  let ?t = "rows M (fst e + 1, snd e)"
  have split: "rows M e = M (fst e) # ?t" by (rule rows_Cons [OF True])
  have above: "lt (M (fst e)) x" if "x \<in> set ?t" for x
    using sorted that by (simp add: split)
  have "lt v x" if "x \<in> set ?t" for x
    using wo_neg [OF wo above [OF that], of v] least [OF True] by blast
  then have "filter (lt v) ?t = ?t" by simp
  moreover have "tie lt (M (fst e)) v \<longleftrightarrow> \<not> lt v (M (fst e))"
    using least [OF True] by (auto simp: tie_def)
  ultimately show ?thesis using True by (simp add: split)
next
  case False
  then have "rows M e = []" by simp
  with False show ?thesis by (simp del: rows_Nil)
qed

lemma least_all:
  assumes "weak_order lt" and "sorted_wrt lt (rows M e)"
    and "fst e < snd e \<Longrightarrow> \<not> lt (M (fst e)) v" and "x \<in> set (rows M e)"
  shows "\<not> lt x v"
proof -
  from assms(4) have ne: "fst e < snd e" by (auto simp: set_rows)
  then have "x = M (fst e) \<or> lt (M (fst e)) x"
    using assms(2,4) by (auto simp: rows_Cons)
  then show ?thesis using wo_trans [OF assms(1), of "M (fst e)" x v] assms(3) [OF ne] by blast
qed

lemma past_top_rows:
  assumes wo: "weak_order (Z L)" and laws: "hit_laws L H"
    and sorted: "\<forall>e \<in> set es. sorted_wrt (Z L) (rows M e)" and ne: "\<exists>e \<in> set es. fst e < snd e"
  shows "map (rows M) (past_top L H M es) = map (\<lambda>e. filter (Z L (top_row H M es)) (rows M e)) es"
    and "length (past_top L H M es) = length es"
    and "\<forall>e \<in> set (past_top L H M es). sorted_wrt (Z L) (rows M e)"
    and "rows_left (past_top L H M es) < rows_left es"
    and "\<forall>e \<in> set es. \<forall>x \<in> set (rows M e). \<not> Z L x (top_row H M es)"
proof -
  let ?v = "top_row H M es" and ?adv = "\<lambda>e. if fst e < snd e \<and> tie (Z L) (M (fst e)) (top_row H M es)
                                   then (fst e + 1, snd e) else e"
  note top = hit_topD [OF laws ne, where M = M]
  have least: "fst e < snd e \<Longrightarrow> \<not> Z L (M (fst e)) ?v" if "e \<in> set es" for e
    using that top(3) by (auto simp: in_set_conv_nth)
  have adv: "rows M (?adv e) = filter (Z L ?v) (rows M e)" if "e \<in> set es" for e
    using advance_rows [OF wo] sorted least that by blast
  have stop: "skip_ties n L H M ?v (map ?adv es) = map ?adv es" for n
  proof (cases n)
    case (Suc k)
    have "Z L ?v (M (fst (map ?adv es ! hit_top H M (map ?adv es))))"
      if ne': "\<exists>e \<in> set (map ?adv es). fst e < snd e"
    proof -
      let ?t = "hit_top H M (map ?adv es)"
      from hit_topD(1,2) [OF laws ne', where M = M] have t: "?t < length es"
        "fst (map ?adv es ! ?t) < snd (map ?adv es ! ?t)" by simp_all
      then have "M (fst (map ?adv es ! ?t)) \<in> set (rows M (?adv (es ! ?t)))"
        by (simp add: set_rows)
      then show ?thesis using adv [of "es ! ?t"] t(1) by simp
    qed
    then show ?thesis unfolding Suc skip_ties.simps by auto
  qed simp
  then have eq: "past_top L H M es = map ?adv es"
    by (simp add: past_top_def top(5))
  then show "map (rows M) (past_top L H M es) = map (\<lambda>e. filter (Z L ?v) (rows M e)) es"
    using adv by (simp add: o_def cong: map_cong)
  show "length (past_top L H M es) = length es" by (simp add: eq)
  show "\<forall>e \<in> set (past_top L H M es). sorted_wrt (Z L) (rows M e)"
    using adv sorted unfolding eq by (auto simp only: set_map ball_simps intro!: sorted_wrt_filter ballI)
  show "\<forall>e \<in> set es. \<forall>x \<in> set (rows M e). \<not> Z L x ?v"
    using least_all [OF wo] sorted least by blast
  have "rows_left (past_top L H M es) = (\<Sum>e\<leftarrow>es. length (filter (Z L ?v) (rows M e)))"
  proof -
    have "rows_left (past_top L H M es) = (\<Sum>e\<leftarrow>past_top L H M es. length (rows M e))"
      by (simp add: rows_left_def)
    also have "\<dots> = sum_list (map length (map (rows M) (past_top L H M es)))" by (simp add: o_def)
    also have "\<dots> = sum_list (map length (map (\<lambda>e. filter (Z L ?v) (rows M e)) es))"
      by (simp only: \<open>map (rows M) (past_top L H M es) = map (\<lambda>e. filter (Z L ?v) (rows M e)) es\<close>)
    finally show ?thesis by (simp add: o_def)
  qed
  also have "\<dots> < (\<Sum>e\<leftarrow>es. length (rows M e))"
  proof (rule sum_list_strict)
    let ?e = "es ! hit_top H M es"
    have "?v \<in> set (rows M ?e)" using top(2) by (simp add: top_row_def set_rows)
    then have "length (filter (Z L ?v) (rows M ?e)) < length (rows M ?e)"
      by (rule length_filter_less) (rule wo_irrefl [OF wo])
    then show "\<exists>e \<in> set es. length (filter (Z L ?v) (rows M e)) < length (rows M e)"
      using top(1) by auto
  qed (rule length_filter_le)
  finally show "rows_left (past_top L H M es) < rows_left es" by (simp add: rows_left_def)
qed

text \<open>The top row is the newest of its key, and the other keys are left for the entries past it.\<close>

lemma newest_past:
  assumes wo: "weak_order lt" and least: "\<forall>l \<in> set ls. \<forall>x \<in> set l. \<not> lt x v" and r: "\<not> tie lt r v"
  shows "newest lt ls r \<longleftrightarrow> newest lt (map (filter (lt v)) ls) r"
  using least
proof (induction ls)
  case (Cons l ls)
  show ?case
  proof (cases "lt v r")
    case True
    have "\<not> tie lt x r" if "x \<in> set l'" "l' \<in> set ls" "\<not> lt v x" for x l'
      using wo_neg [OF wo True, of x] that(3) by (auto simp: tie_def)
    then have "(\<forall>l' \<in> set ls. \<forall>x \<in> set l'. \<not> tie lt x r) \<longleftrightarrow>
        (\<forall>l' \<in> set (map (filter (lt v)) ls). \<forall>x \<in> set l'. \<not> tie lt x r)"
      by auto
    with Cons True show ?thesis by simp
  next
    case False
    then have "lt r v" using r by (auto simp: tie_def)
    then have "\<not> newest lt (l # ls) r" using newest_in [of lt "l # ls" r] Cons.prems by blast
    moreover have "\<not> newest lt (map (filter (lt v)) (l # ls)) r"
      using newest_in [of lt "map (filter (lt v)) (l # ls)" r] False by fastforce
    ultimately show ?thesis by blast
  qed
qed simp

lemma newest_top:
  assumes wo: "weak_order lt" and r: "tie lt r v"
    and ls: "ls = as @ b # cs" and b: "sorted_wrt lt b" "b \<noteq> []" "hd b = v"
    and above: "\<forall>l \<in> set cs. \<forall>x \<in> set l. lt v x"
  shows "newest lt ls r \<longleftrightarrow> r = v"
proof -
  have v: "v \<in> set b" "tie lt v r" using b(2,3) r by (auto simp: tie_def)
  have "\<not> tie lt x r" if "l \<in> set cs" "x \<in> set l" for l x
    using wo_neg [OF wo, of v x r] above that r by (auto simp: tie_def)
  moreover from this have "\<not> newest lt cs r"
    using newest_in [of lt cs r] wo_irrefl [OF wo] by (auto simp: tie_def) 
  moreover have "r \<in> set b \<longleftrightarrow> r = v"
  proof
    assume "r \<in> set b"
    then have "r = v \<or> lt v r" using b by (cases b) auto
    then show "r = v" using r by (auto simp: tie_def)
  qed (use v in simp)
  ultimately show ?thesis
    unfolding ls newest_append using v by auto
qed

section \<open>The merge\<close>

text \<open>The rows a scan emits, in order.\<close>

primrec merged :: "nat \<Rightarrow> ('w, 'r) lane \<Rightarrow> 'r hit \<Rightarrow> 'r rowmem \<Rightarrow> slice list \<Rightarrow> 'r list" where
  "merged 0 L H M es = []"
| "merged (Suc n) L H M es =
     (if \<forall>e \<in> set es. snd e \<le> fst e then [] else top_row H M es # merged n L H M (past_top L H M es))"

lemma top_row_newest:
  assumes wo: "weak_order (Z L)" and laws: "hit_laws L H"
    and sorted: "\<forall>e \<in> set es. sorted_wrt (Z L) (rows M e)" and ne: "\<exists>e \<in> set es. fst e < snd e"
  shows "newest (Z L) (map (rows M) es) r \<longleftrightarrow>
    r = top_row H M es \<or> newest (Z L) (map (rows M) (past_top L H M es)) r"
proof -
  let ?v = "top_row H M es" and ?t = "hit_top H M es"
  note top = hit_topD [OF laws ne, where M = M]
  note past = past_top_rows [OF wo laws sorted ne]
  have past_rows: "map (rows M) (past_top L H M es) = map (filter (Z L ?v)) (map (rows M) es)"
    using past(1) by (simp add: o_def)
  have least: "\<forall>l \<in> set (map (rows M) es). \<forall>x \<in> set l. \<not> Z L x ?v" using past(5) by simp
  show ?thesis
  proof (cases "tie (Z L) r ?v")
    case False
    then have "r \<noteq> ?v" using wo_irrefl [OF wo] by (auto simp: tie_def)
    with newest_past [OF wo least False] past_rows show ?thesis by simp
  next
    case True
    have "map (rows M) es = map (rows M) (take ?t es) @ rows M (es ! ?t) # map (rows M) (drop (Suc ?t) es)"
      using top(1) id_take_nth_drop [of ?t es] by (metis list.simps(9) map_append)
    moreover have "hd (rows M (es ! ?t)) = ?v" using top(2) by (simp add: rows_Cons top_row_def)
    moreover have "Z L ?v x" if "l \<in> set (map (rows M) (drop (Suc ?t) es))" "x \<in> set l" for l x
    proof -
      from that(1) obtain e where "e \<in> set (drop (Suc ?t) es)" and l: "l = rows M e" by auto
      then obtain i where "i < length (drop (Suc ?t) es)" "e = drop (Suc ?t) es ! i" by (auto simp: in_set_conv_nth)
      then have e: "e = es ! (Suc ?t + i)" "Suc ?t + i < length es" by simp_all
      with that(2) l have ee: "fst e < snd e" by (auto simp: set_rows)
      with top(4) [OF e(2)] e(1) have hd: "Z L ?v (M (fst e))" by simp
      have "x = M (fst e) \<or> Z L (M (fst e)) x"
      proof -
        have "sorted_wrt (Z L) (rows M e)" using sorted e nth_mem [OF e(2)] by simp
        then show ?thesis using that(2) unfolding l rows_Cons [OF ee] by auto
      qed
      with hd show "Z L ?v x" using wo_trans [OF wo] by blast
    qed
    ultimately have "newest (Z L) (map (rows M) es) r \<longleftrightarrow> r = ?v"
      using newest_top [OF wo True] sorted top(1,2) by (metis nth_mem rows_Nil not_less)
    moreover have "\<not> newest (Z L) (map (filter (Z L ?v)) (map (rows M) es)) r"
      using newest_in [of "Z L" "map (filter (Z L ?v)) (map (rows M) es)" r] True by (fastforce simp: tie_def)
    ultimately show ?thesis by (simp add: past_rows)
  qed
qed

lemma merged_spec:
  assumes wo: "weak_order (Z L)" and laws: "hit_laws L H"
    and "\<forall>e \<in> set es. sorted_wrt (Z L) (rows M e)" and "rows_left es \<le> n"
  shows "(\<forall>r. r \<in> set (merged n L H M es) \<longleftrightarrow> newest (Z L) (map (rows M) es) r) \<and>
    sorted_wrt (Z L) (merged n L H M es)"
  using assms(3,4)
proof (induction n arbitrary: es)
  case 0
  then have "\<forall>e \<in> set es. snd e \<le> fst e" by (auto simp: rows_left_def)
  then have "\<not> newest (Z L) (map (rows M) es) r" for r
    using newest_in [of "Z L" "map (rows M) es" r] by (auto simp: set_rows)
  then show ?case by simp
next
  case (Suc n)
  show ?case
  proof (cases "\<forall>e \<in> set es. snd e \<le> fst e")
    case True
    then have "\<not> newest (Z L) (map (rows M) es) r" for r
      using newest_in [of "Z L" "map (rows M) es" r] by (auto simp: set_rows)
    with True show ?thesis by simp
  next
    case False
    then have ne: "\<exists>e \<in> set es. fst e < snd e" by (simp add: not_le)
    note past = past_top_rows [OF wo laws Suc.prems(1) ne]
    have IH: "(\<forall>r. r \<in> set (merged n L H M (past_top L H M es)) \<longleftrightarrow>
        newest (Z L) (map (rows M) (past_top L H M es)) r) \<and>
      sorted_wrt (Z L) (merged n L H M (past_top L H M es))"
      using Suc.IH [OF past(3)] past(4) Suc.prems(2) by simp
    have "Z L (top_row H M es) r" if "r \<in> set (merged n L H M (past_top L H M es))" for r
    proof -
      from that IH have "newest (Z L) (map (rows M) (past_top L H M es)) r" by simp
      from newest_in [OF this] show ?thesis unfolding past(1) by auto
    qed
    with IH top_row_newest [OF wo laws Suc.prems(1) ne] ne show ?thesis
      by (auto simp: not_le)
  qed
qed

section \<open>Pages\<close>

text \<open>abc's search over a sorted slice, and dog's table of contents: cell \<open>j\<close> is row \<open>j * per\<close>.\<close>

definition find_law :: "('w, 'r) lane \<Rightarrow> bool" where
  "find_law L \<longleftrightarrow> (\<forall>M run k. fst run \<le> snd run \<and> sorted_wrt (Z L) (rows M run) \<longrightarrow>
     fst run \<le> findGE L M run k \<and> findGE L M run k \<le> snd run \<and>
     (\<forall>a. fst run \<le> a \<and> a < findGE L M run k \<longrightarrow> Z L (M a) k) \<and>
     (\<forall>a. findGE L M run k \<le> a \<and> a < snd run \<longrightarrow> \<not> Z L (M a) k))"

definition toc_ok :: "('w, 'r) lane \<Rightarrow> 'r rowmem \<Rightarrow> slice \<Rightarrow> slice \<Rightarrow> bool" where
  "toc_ok L M run toc \<longleftrightarrow> toc_rows L = 0 \<or> snd toc \<le> fst toc \<or>
     snd run - fst run \<le> (snd toc - fst toc) * toc_rows L \<and>
     (\<forall>j < snd toc - fst toc. fst run + j * toc_rows L < snd run \<and> M (fst toc + j) = M (fst run + j * toc_rows L))"

definition source_ok :: "('w, 'r) lane \<Rightarrow> 'r rowmem \<Rightarrow> slice \<times> slice \<Rightarrow> bool" where
  "source_ok L M src \<longleftrightarrow> fst (fst src) \<le> snd (fst src) \<and> sorted_wrt (Z L) (rows M (fst src)) \<and>
     toc_ok L M (fst src) (snd src)"

lemma find_lawD:
  assumes "find_law L" and "fst run \<le> snd run" and "sorted_wrt (Z L) (rows M run)"
  shows "fst run \<le> findGE L M run k" "findGE L M run k \<le> snd run"
    "fst run \<le> a \<Longrightarrow> a < findGE L M run k \<Longrightarrow> Z L (M a) k"
    "findGE L M run k \<le> a \<Longrightarrow> a < snd run \<Longrightarrow> \<not> Z L (M a) k"
  using assms unfolding find_law_def by blast+

lemma sorted_sub:
  "sorted_wrt lt (rows M e) \<Longrightarrow> fst e \<le> a \<Longrightarrow> b \<le> snd e \<Longrightarrow> sorted_wrt lt (rows M (a, b))"
  unfolding sorted_rows by auto

text \<open>The cells of a table of contents are sorted as the rows they stand for.\<close>

lemma toc_sorted:
  assumes "sorted_wrt (Z L) (rows M run)" and "toc_ok L M run toc"
    and "toc_rows L \<noteq> 0" and "fst toc < snd toc"
  shows "sorted_wrt (Z L) (rows M toc)"
  unfolding sorted_rows
proof (intro allI impI)
  fix a b
  assume ab: "fst toc \<le> a \<and> a < b \<and> b < snd toc"
  let ?i = "a - fst toc" and ?j = "b - fst toc"
  from ab have ij: "?i < ?j" "?j < snd toc - fst toc" "?i < snd toc - fst toc" by arith+
  with assms(2-4) have c: "M (fst toc + ?i) = M (fst run + ?i * toc_rows L)"
    "M (fst toc + ?j) = M (fst run + ?j * toc_rows L)" "fst run + ?j * toc_rows L < snd run"
    unfolding toc_ok_def by auto
  have "Z L (M (fst run + ?i * toc_rows L)) (M (fst run + ?j * toc_rows L))"
    using assms(1,3) c(3) ij(1) unfolding sorted_rows by simp
  with c ab show "Z L (M a) (M b)" by simp
qed

text \<open>
  The page is right: a cell that is returned is a row of the run that carries the key; otherwise
  every row before the page is below the key, and every row behind it above.
\<close>

lemma page_right:
  assumes wo: "weak_order (Z L)" and law: "find_law L" and ok: "source_ok L M (run, toc)"
    and pg: "jpup_page L M run toc key = (r, win)"
  shows "case r of
      Some cell \<Rightarrow> keyeq L (M cell) key \<and> Z L key (M cell) \<and> M cell \<in> set (rows M run) \<and>
        fst toc \<le> cell \<and> cell < snd toc
    | None \<Rightarrow> fst run \<le> fst win \<and> fst win \<le> snd win \<and> snd win \<le> snd run \<and>
        (\<forall>a. fst run \<le> a \<and> a < fst win \<longrightarrow> Z L (M a) key) \<and>
        (\<forall>a. snd win \<le> a \<and> a < snd run \<longrightarrow> Z L key (M a))"
proof (cases "toc_rows L = 0 \<or> snd toc \<le> fst toc")
  case True
  with pg ok show ?thesis by (auto simp: jpup_page_def Let_def source_ok_def)
next
  case False
  let ?per = "toc_rows L" and ?n = "snd toc - fst toc" and ?c = "findGE L M toc key - fst toc"
  define i where "i = (if findGE L M toc key = snd toc \<or> Z L key (M (findGE L M toc key))
    then (if ?c \<noteq> 0 then ?c - 1 else 0) else ?c)"
  from ok have run: "fst run \<le> snd run" "sorted_wrt (Z L) (rows M run)" and toc: "toc_ok L M run toc"
    by (simp_all add: source_ok_def)
  from toc False have cov: "snd run - fst run \<le> ?n * ?per"
    and cell: "\<And>j. j < ?n \<Longrightarrow> fst run + j * ?per < snd run \<and> M (fst toc + j) = M (fst run + j * ?per)"
    by (auto simp: toc_ok_def)
  note srt = toc_sorted [OF run(2) toc]
  from False have ft: "fst toc \<le> snd toc" and nz: "?per \<noteq> 0" by auto
  have tsort: "sorted_wrt (Z L) (rows M toc)" using srt False by auto
  note fnd = find_lawD [OF law ft tsort, where k = key]
  have c: "fst toc + ?c = findGE L M toc key" "?c \<le> ?n" using fnd(1,2) [of] by auto
  let ?a = "min (fst run + i * ?per) (snd run)"
  have unf: "jpup_page L M run toc key =
      (if i + 1 < ?n \<and> keyeq L (M (fst toc + i + 1)) key then (Some (fst toc + i + 1), run)
       else (None, (?a, if ?a + ?per < snd run then ?a + ?per else snd run)))"
    using False unfolding jpup_page_def Let_def i_def [symmetric] by (simp only: if_False)
  have behind: "Z L key (M (fst toc + (i + 1)))" if i1: "i + 1 < ?n"
    proof (cases "findGE L M toc key = snd toc \<or> Z L key (M (findGE L M toc key))")
      case True
      show ?thesis
      proof (cases "?c = 0")
        case c0: True
        have "Z L key (M (fst toc))" using True c c0 ft False by auto
        moreover have "Z L (M (fst toc)) (M (fst toc + (i + 1)))"
          using tsort i1 unfolding sorted_rows by auto
        ultimately show ?thesis using wo_trans [OF wo] by blast
      next
        case c0: False
        then have "i + 1 = ?c" using True by (simp add: i_def)
        with True c i1 show ?thesis by auto
      qed
    next
      case F: False
      then have i: "i = ?c" by (simp add: i_def)
      have "\<not> Z L (M (fst toc + i)) key \<and> \<not> Z L key (M (fst toc + i))"
        using F fnd(4) [of "fst toc + i"] i c i1 by auto
      moreover have "Z L (M (fst toc + i)) (M (fst toc + (i + 1)))"
        using tsort i1 unfolding sorted_rows by auto
      ultimately show ?thesis using wo_neg [OF wo] by blast
    qed
  show ?thesis
  proof (cases "i + 1 < ?n \<and> keyeq L (M (fst toc + i + 1)) key")
    case True
    with pg have "r = Some (fst toc + i + 1)" by (simp add: unf)
    moreover have "M (fst toc + (i + 1)) \<in> set (rows M run)"
      using cell [of "i + 1"] True by (simp add: set_rows)
    moreover have "fst toc + i + 1 < snd toc" using True by arith
    ultimately show ?thesis using True behind by (simp add: add.assoc)
  next
    case no: False
    have rw: "r = None" "win = (?a, if ?a + ?per < snd run then ?a + ?per else snd run)"
      using pg no by (simp_all only: unf if_False prod.inject)
    have below: "Z L (M x) key" if x: "fst run \<le> x" "x < ?a" for x
    proof -
      from x have i0: "i \<noteq> 0" by (cases i) auto
      have key_i: "\<not> Z L key (M (fst toc + i)) \<and> i < ?n"
      proof (cases "findGE L M toc key = snd toc \<or> Z L key (M (findGE L M toc key))")
        case True
        with i0 have i: "i = ?c - 1" "?c \<noteq> 0" by (auto simp: i_def split: if_splits)
        then have "Z L (M (fst toc + i)) key" using fnd(3) [of "fst toc + i"] c by auto
        then show ?thesis using i c wo_trans [OF wo] wo_irrefl [OF wo] by auto
      next
        case F: False
        then have "i = ?c" by (simp add: i_def)
        with F c fnd(2) show ?thesis by auto
      qed
      then have "fst run + i * ?per < snd run" and eq: "M (fst toc + i) = M (fst run + i * ?per)"
        using cell by auto
      then have "Z L (M x) (M (fst run + i * ?per))"
        using x run(2) unfolding sorted_rows by auto
      with key_i eq wo_neg [OF wo, of "M x" "M (fst run + i * ?per)" key] show ?thesis by auto
    qed
    have above: "Z L key (M x)" if b: "?a + ?per < snd run" and x: "?a + ?per \<le> x" "x < snd run" for x
    proof -
      have a: "?a = fst run + i * ?per" using b by auto
      have "(i + 1) * ?per < ?n * ?per" using b a cov by (simp add: algebra_simps)
      then have i1: "i + 1 < ?n" using mult_less_cancel2 by blast
      note ci = behind [OF i1]
      have eq: "M (fst toc + (i + 1)) = M (?a + ?per)" using cell [OF i1] a by (simp add: algebra_simps)
      show ?thesis
      proof (cases "x = ?a + ?per")
        case True
        with ci eq show ?thesis by simp
      next
        case False
        then have "Z L (M (?a + ?per)) (M x)" using x run(2) a unfolding sorted_rows by auto
        with ci eq show ?thesis using wo_trans [OF wo] by metis
      qed
    qed
    show ?thesis using rw run(1) below above by auto
  qed
qed

text \<open>On a lane whose rows tie exactly when they carry one key, a cell is never the answer by itself.\<close>

lemma no_cell:
  assumes "weak_order (Z L)" and "find_law L" and "source_ok L M src" and "\<And>a b. keyeq L a b \<longleftrightarrow> tie (Z L) a b"
  shows "fst (jpup_page L M (fst src) (snd src) key) = None"
proof -
  obtain r win where pg: "jpup_page L M (fst src) (snd src) key = (r, win)"
    by (cases "jpup_page L M (fst src) (snd src) key")
  have "source_ok L M (fst src, snd src)" using assms(3) by simp
  from page_right [OF assms(1,2) this pg] assms(4) show ?thesis
    by (cases r) (auto simp: pg tie_def)
qed

section \<open>Point lookup\<close>

lemma newest_rev_Cons:
  "newest lt (ls @ [l]) r \<longleftrightarrow> r \<in> set l \<or> newest lt ls r \<and> (\<forall>x \<in> set l. \<not> tie lt x r)"
  by (simp add: newest_append)

lemma lookup_right:
  assumes wo: "weak_order (Z L)" and law: "find_law L" and ks: "\<And>a b. keyeq L a b \<longleftrightarrow> tie (Z L) a b"
    and "\<forall>src \<in> set srcs. source_ok L M src"
  shows "case lookup_from L M k srcs of
      Some p \<Rightarrow> newest (Z L) (map (\<lambda>src. rows M (fst src)) (rev srcs)) (M p) \<and> tie (Z L) (M p) k
    | None \<Rightarrow> \<forall>src \<in> set srcs. \<forall>x \<in> set (rows M (fst src)). \<not> tie (Z L) x k"
  using assms(4)
proof (induction srcs)
  case (Cons src older)
  obtain run toc where src: "src = (run, toc)" by (cases src)
  obtain r win where pg: "jpup_page L M run toc k = (r, win)" by (cases "jpup_page L M run toc k")
  have ok: "source_ok L M (run, toc)" using Cons.prems src by simp
  note right = page_right [OF wo law ok pg]
  show ?case
  proof (cases r)
    case (Some cell)
    with right ks src pg show ?thesis by (simp add: newest_rev_Cons)
  next
    case None
    with right have w: "fst run \<le> fst win" "fst win \<le> snd win" "snd win \<le> snd run"
      "\<And>a. fst run \<le> a \<Longrightarrow> a < fst win \<Longrightarrow> Z L (M a) k"
      "\<And>a. snd win \<le> a \<Longrightarrow> a < snd run \<Longrightarrow> Z L k (M a)" by auto
    have "sorted_wrt (Z L) (rows M win)"
      using sorted_sub [of "Z L" M run "fst win" "snd win"] ok w(1,3) by (simp add: source_ok_def)
    note fnd = find_lawD [OF law w(2) this, where k = k]
    let ?p = "findGE L M win k"
    have sorted_run: "sorted_wrt (Z L) (rows M run)" using ok by (simp add: source_ok_def)
    show ?thesis
    proof (cases "?p < snd win \<and> keyeq L (M ?p) k")
      case True
      then have "M ?p \<in> set (rows M run)" using fnd(1) w(1,3) by (auto simp: set_rows)
      with True None ks src pg show ?thesis by (simp add: newest_rev_Cons Let_def)
    next
      case False
      have none: "\<not> tie (Z L) (M a) k" if a: "fst run \<le> a" "a < snd run" for a
      proof
        assume t: "tie (Z L) (M a) k"
        then have "fst win \<le> a" "a < snd win" using w(4,5) a by (auto simp: tie_def not_le [symmetric])
        moreover have "\<not> a < ?p" using fnd(3) [of a] t \<open>fst win \<le> a\<close> by (auto simp: tie_def)
        ultimately have pa: "?p \<le> a" "?p < snd win" by auto
        then have np: "\<not> Z L (M ?p) k" using fnd(4) by auto
        have "\<not> Z L k (M ?p)"
        proof (cases "?p = a")
          case True
          with t show ?thesis by (simp add: tie_def)
        next
          case F: False
          then have "Z L (M ?p) (M a)" using sorted_run pa a fnd(1) w(1) unfolding sorted_rows by auto
          then show ?thesis using t wo_trans [OF wo, of k "M ?p" "M a"] by (auto simp: tie_def)
        qed
        with np pa False ks show False by (auto simp: tie_def)
      qed
      have go: "lookup_from L M k (src # older) = lookup_from L M k older"
        using False None src pg by (simp only: lookup_from.simps option.case prod.case Let_def if_False)
      have IH: "case lookup_from L M k older of
          Some p \<Rightarrow> newest (Z L) (map (\<lambda>src. rows M (fst src)) (rev older)) (M p) \<and> tie (Z L) (M p) k
        | None \<Rightarrow> \<forall>src \<in> set older. \<forall>x \<in> set (rows M (fst src)). \<not> tie (Z L) x k"
        using Cons by simp
      have shadow: "\<not> tie (Z L) x (M q)" if "x \<in> set (rows M run)" "tie (Z L) (M q) k" for x q
      proof
        assume "tie (Z L) x (M q)"
        then have "tie (Z L) x k" using that(2) wo unfolding weak_order_def tie_def by blast
        with none that(1) show False by (auto simp: set_rows)
      qed
      show ?thesis
        unfolding go using IH none shadow src
        by (auto simp: newest_rev_Cons set_rows split: option.splits)
    qed
  qed
qed simp

text \<open>The lanes whose order is that of the key.\<close>

lemma lanes_tie:
  "keyeq (lane_kv64 E (\<lambda>a b. fst a < fst b) f n) a b \<longleftrightarrow> tie (Z (lane_kv64 E (\<lambda>a b. fst a < fst b) f n)) a b"
  "keyeq (lane_u64 E (<) f' n) c d \<longleftrightarrow> tie (Z (lane_u64 E (<) f' n)) c d"
  "keyeq (lane_u32 E (<) f'' n) x y \<longleftrightarrow> tie (Z (lane_u32 E (<) f'' n)) x y"
  by (auto simp: lane_kv64_def lane_u64_def lane_u32_def tie_def)

text \<open>
  C26: point lookup is right on a lane whose rows tie exactly when they carry one key, as kv64, u64 and
  u32 do (\<open>lanes_tie\<close>) and wh128 does not (\<open>wh128_get_depends_on_pages\<close>).  There \<open>_get\<close> answers with
  the row of the youngest source that has the key, and with undefined exactly when no source has it:
  pages and tables of contents change nothing.
\<close>

theorem get_newest_wins:
  assumes "weak_order (Z L)" and "find_law L" and "\<And>a b. keyeq L a b \<longleftrightarrow> tie (Z L) a b"
    and "pup_slot_or E 2 (usage L ''_get(h, k)'') argv s = (Inr h, s1)"
    and "on_eng (rd_needle L (argv ! 1)) s1 = (Inr k, s2)"
    and "pup_sources D (pups (slots s2 h)) = (Some srcs, p)"
    and "\<forall>src \<in> set srcs. source_ok L (rowat D p) src"
  shows "\<exists>res. fst (jpup_get E L D argv s) = Inr (JVal res) \<and>
    ((\<exists>r. newest (Z L) (map (\<lambda>src. rows (rowat D p) (fst src)) srcs) r \<and> tie (Z L) r k \<and> res = getv L r) \<or>
     (\<forall>src \<in> set srcs. \<forall>x \<in> set (rows (rowat D p) (fst src)). \<not> tie (Z L) x k) \<and> res = JUndef)"
proof -
  have src: "jpup_src D h s2 = (Inr srcs, set_slot h (\<lambda>sl. sl\<lparr>pups := p\<rparr>) s2)"
    using assms(6) by (simp add: jpup_src_def)
  have M: "rowat D (pups (slots (set_slot h (\<lambda>sl. sl\<lparr>pups := p\<rparr>) s2) h)) = rowat D p"
    by (simp add: set_slot_def)
  have run: "jpup_get E L D argv s =
      (case lookup_from L (rowat D p) k (rev srcs) of None \<Rightarrow> js_undef
       | Some a \<Rightarrow> jret (JVal (getv L (rowat D p a)))) (set_slot h (\<lambda>sl. sl\<lparr>pups := p\<rparr>) s2)"
    by (simp add: jpup_get_def jbind_def assms(4) assms(5) [unfolded One_nat_def] src M cong: option.case_cong)
  from lookup_right [OF assms(1,2,3), of "rev srcs" "rowat D p" k] assms(7)
  show ?thesis
    unfolding run by (auto split: option.splits)
qed

section \<open>The range scan\<close>

text \<open>Calling back with a list of rows, until the callback throws or says enough.\<close>

primrec call_each :: "('w, 'r) lane \<Rightarrow> (jout \<Rightarrow> ('s, jsval) js) \<Rightarrow> 'r list \<Rightarrow> ('s, unit) js" where
  "call_each L cb [] = jret ()"
| "call_each L cb (r # rs) =
     jbind (cb (emit L r)) (\<lambda>x. if JABCPupEnough x then jret () else call_each L cb rs)"

lemma scan_is_call_each:
  assumes kept: "\<And>v s. rowat D (pups (slots s h)) = M \<and> J s \<Longrightarrow>
      rowat D (pups (slots (snd (cb v s)) h)) = M \<and> J (snd (cb v s))"
  shows "rowat D (pups (slots s h)) = M \<and> J s \<Longrightarrow>
    scan_rows n L D H cb h es s = call_each L cb (merged n L H M es) s"
proof (induction n arbitrary: es s)
  case (Suc n)
  show ?case
  proof (cases "\<forall>e \<in> set es. snd e \<le> fst e")
    case False
    have go: "scan_rows (Suc n) L D H cb h es s = jbind (cb (emit L (top_row H M es))) (\<lambda>r.
        if JABCPupEnough r then jret () else scan_rows n L D H cb h (past_top L H M es)) s"
    proof -
      from Suc.prems have M: "rowat D (pups (slots s h)) = M" by simp
      show ?thesis unfolding scan_rows.simps if_not_P [OF False] M [symmetric] by (simp add: jbind_def)
    qed
    obtain r s' where c: "cb (emit L (top_row H M es)) s = (r, s')" by (cases "cb (emit L (top_row H M es)) s")
    with kept [OF Suc.prems] have "rowat D (pups (slots s' h)) = M \<and> J s'" by (metis snd_conv)
    moreover have "merged (Suc n) L H M es = top_row H M es # merged n L H M (past_top L H M es)"
      by (simp only: merged.simps if_not_P [OF False])
    ultimately show ?thesis
      unfolding go using c Suc.IH by (cases r) (simp_all add: jbind_def)
  qed (simp add: jbind_def)
qed simp

text \<open>With no cell of a table of contents on \<open>lo\<close>, the narrowed entries hold the same rows of the range.\<close>

lemma range_entry_rows:
  assumes wo: "weak_order (Z L)" and law: "find_law L" and ok: "source_ok L M src"
    and nocell: "fst (jpup_page L M (fst src) (snd src) lo) = None"
  shows "filter (\<lambda>r. \<not> Z L r lo \<and> Z L r hi) (rows M (range_entry L M lo src)) =
      filter (\<lambda>r. \<not> Z L r lo \<and> Z L r hi) (rows M (fst src))"
    and "sorted_wrt (Z L) (rows M (range_entry L M lo src))"
proof -
  obtain run toc where src: "src = (run, toc)" by (cases src)
  obtain win where pg: "jpup_page L M run toc lo = (None, win)"
    using nocell src by (cases "jpup_page L M run toc lo") auto
  have ok': "source_ok L M (run, toc)" using ok src by simp
  from page_right [OF wo law ok' pg] have w: "fst run \<le> fst win" "fst win \<le> snd win" "snd win \<le> snd run"
    "\<forall>a. fst run \<le> a \<and> a < fst win \<longrightarrow> Z L (M a) lo" by auto
  have e: "range_entry L M lo src = (fst win, snd run)" using pg src by (simp add: range_entry_def)
  have "[fst run..<snd run] = [fst run..<fst win] @ [fst win..<snd run]"
    using w upt_add_eq_append [of "fst run" "fst win" "snd run - fst win"] by simp
  then have "rows M run = map M [fst run..<fst win] @ rows M (fst win, snd run)" by (simp add: rows_def)
  moreover have "filter (\<lambda>r. \<not> Z L r lo \<and> Z L r hi) (map M [fst run..<fst win]) = []"
    using w(4) by (auto simp: filter_empty_conv)
  ultimately show "filter (\<lambda>r. \<not> Z L r lo \<and> Z L r hi) (rows M (range_entry L M lo src)) =
      filter (\<lambda>r. \<not> Z L r lo \<and> Z L r hi) (rows M (fst src))"
    using e src by simp
  show "sorted_wrt (Z L) (rows M (range_entry L M lo src))"
    unfolding e using sorted_sub [of "Z L" M run "fst win" "snd run"] ok' w(1) by (simp add: source_ok_def)
qed

lemma newest_map_filter_Nil:
  "filter (\<lambda>l. l \<noteq> []) ls = filter (\<lambda>l. l \<noteq> []) ls' \<Longrightarrow> newest lt ls r = newest lt ls' r"
  by (metis newest_filter_Nil)

lemma map_rows_filter: "map (rows M) (filter (\<lambda>e. fst e < snd e) es) = filter (\<lambda>l. l \<noteq> []) (map (rows M) es)"
  by (induction es) auto

text \<open>
  C27: the range scan is right on a lane whose rows tie exactly when they carry one key, as kv64, u64 and
  u32 do (\<open>lanes_tie\<close>) and wh128 does not (\<open>wh128_range_misses_rows\<close>).  There a scan under way calls
  back, whatever programs over the four lanes the callbacks run, with exactly the newest rows of the keys in
  \<open>[lo, hi)\<close>, in strictly ascending order, one by one until a callback throws or says enough; the
  fuel of the model never cuts it short.
\<close>

theorem range_emits_the_merge:
  fixes cb :: "jout \<Rightarrow> (('w, 'p, 'r) pst, jsval) js"
  assumes "weak_order (Z L)" and "find_law L" and "hit_laws L H" and "libs_laws E R S"
    and "\<forall>src \<in> set srcs. source_ok L M src" and "length srcs \<le> HIT_MAX_RUNS"
    and "\<And>a b. keyeq L a b \<longleftrightarrow> tie (Z L) a b"
    and "table_held S h p (table_of s)" and "M = rowat D p"
    and "\<And>v s. table_run False E A S (table_of s) (table_of (snd (cb v s)))"
  shows "\<exists>es ms. hit_load H M (hit_seek H M (map (range_entry L M lo) srcs) lo hi) = Some es \<and>
    scan_rows (rows_left es) L D H cb h es s = call_each L cb ms s \<and>
    sorted_wrt (Z L) ms \<and>
    (\<forall>r. r \<in> set ms \<longleftrightarrow>
      newest (Z L) (map (\<lambda>src. filter (\<lambda>r. \<not> Z L r lo \<and> Z L r hi) (rows M (fst src))) srcs) r)"
proof -
  let ?in = "\<lambda>r. \<not> Z L r lo \<and> Z L r hi"
  have nocell: "\<forall>src \<in> set srcs. fst (jpup_page L M (fst src) (snd src) lo) = None"
    using no_cell [OF assms(1,2) _ assms(7)] assms(5) by blast
  let ?entries = "map (range_entry L M lo) srcs"
  let ?sk = "hit_seek H M ?entries lo hi"
  let ?es = "filter (\<lambda>e. fst e < snd e) ?sk"
  have sorted0: "\<forall>e \<in> set ?entries. sorted_wrt (Z L) (rows M e)"
    using range_entry_rows(2) [OF assms(1,2)] assms(5) nocell by auto
  note seek = hit_seekD [OF assms(3) sorted0, where lo = lo and hi = hi]
  have load: "hit_load H M ?sk = Some ?es"
    using hit_loadD [OF assms(3)] seek(1) assms(6) by simp
  have filt: "map (\<lambda>e. filter ?in (rows M e)) ?entries = map (\<lambda>src. filter ?in (rows M (fst src))) srcs"
    using range_entry_rows(1) [OF assms(1,2)] assms(5) nocell by simp
  have sorted: "\<forall>e \<in> set ?es. sorted_wrt (Z L) (rows M e)" using seek(2) by (meson filter_is_subset subsetD)
  note spec = merged_spec [OF assms(1,3) sorted order_refl]
  have "newest (Z L) (map (rows M) ?es) r \<longleftrightarrow>
      newest (Z L) (map (\<lambda>src. filter ?in (rows M (fst src))) srcs) r" for r
    unfolding map_rows_filter newest_filter_Nil
    by (rule newest_map_filter_Nil) (rule seek(3) [unfolded filt])
  moreover have "scan_rows (rows_left ?es) L D H cb h ?es s = call_each L cb (merged (rows_left ?es) L H M ?es) s"
  proof (rule scan_is_call_each [where J = "\<lambda>t. table_held S h p (table_of t)"])
    fix v and t :: "('w, 'p, 'r) pst"
    assume "rowat D (pups (slots t h)) = M \<and> table_held S h p (table_of t)"
    with table_run_held [OF assms(4,10)] have "table_held S h p (table_of (snd (cb v t)))" by blast
    then show "rowat D (pups (slots (snd (cb v t)) h)) = M \<and> table_held S h p (table_of (snd (cb v t)))"
      using assms(9) by (simp add: table_held_def table_of_def)
  qed (use assms(8,9) in \<open>simp add: table_held_def table_of_def\<close>)
  ultimately show ?thesis using load spec by blast
qed

text \<open>
  Where a cell does match, the scan of that source starts at the cell, inside the table of contents:
  with the table behind the rows, as an appended index is, the source loses every row.
\<close>

lemma range_starts_in_the_toc:
  assumes "weak_order (Z L)" and "find_law L" and "source_ok L M (run, toc)"
    and "fst (jpup_page L M run toc lo) = Some cell"
  shows "range_entry L M lo (run, toc) = (cell, snd run) \<and> fst toc \<le> cell \<and> cell < snd toc \<and>
    (\<exists>x \<in> set (rows M run). keyeq L x lo) \<and>
    (snd run \<le> fst toc \<longrightarrow> rows M (range_entry L M lo (run, toc)) = [])"
proof -
  obtain win where pg: "jpup_page L M run toc lo = (Some cell, win)"
    using assms(4) by (cases "jpup_page L M run toc lo") auto
  from page_right [OF assms(1-3) pg] have c: "keyeq L (M cell) lo" "M cell \<in> set (rows M run)"
    "fst toc \<le> cell" "cell < snd toc" by auto
  have "range_entry L M lo (run, toc) = (cell, snd run)" by (simp add: range_entry_def pg)
  with c show ?thesis by auto
qed

section \<open>The pull cursor\<close>

definition past_bound :: "('w, 'r) lane \<Rightarrow> 'r pupcur \<Rightarrow> 'r \<Rightarrow> bool" where
  "past_bound L c r = (if curx c then Z L (curk c) r else \<not> Z L r (curk c))"

text \<open>A cursor that stands on some sources: its entries hold their rows past its bound.\<close>

definition stands :: "('w, 'r) lane \<Rightarrow> 'r rowmem \<Rightarrow> (slice \<times> slice) list \<Rightarrow> 'r pupcur \<Rightarrow> bool" where
  "stands L M srcs c \<longleftrightarrow> length (ents c) \<le> HIT_MAX_RUNS \<and>
     (\<forall>e \<in> set (ents c). sorted_wrt (Z L) (rows M e)) \<and>
     filter (\<lambda>l. l \<noteq> []) (map (rows M) (ents c)) =
     filter (\<lambda>l. l \<noteq> []) (map (\<lambda>src. filter (past_bound L c) (rows M (fst src))) srcs)"

lemma rows_from:
  assumes "fst run \<le> q" and "q \<le> snd run"
    and "\<And>a. fst run \<le> a \<Longrightarrow> a < q \<Longrightarrow> \<not> P (M a)" and "\<And>a. q \<le> a \<Longrightarrow> a < snd run \<Longrightarrow> P (M a)"
  shows "rows M (q, snd run) = filter P (rows M run)"
proof -
  have "[fst run..<snd run] = [fst run..<q] @ [q..<snd run]"
    using assms(1,2) upt_add_eq_append [of "fst run" q "snd run - q"] by simp
  then have "rows M run = map M [fst run..<q] @ rows M (q, snd run)" by (simp add: rows_def)
  moreover have "filter P (map M [fst run..<q]) = []" using assms(3) by (auto simp: filter_empty_conv)
  moreover have "filter P (rows M (q, snd run)) = rows M (q, snd run)"
    using assms(4) by (auto simp: set_rows)
  ultimately show ?thesis by simp
qed

lemma skip_group_stops:
  "pos \<le> e \<Longrightarrow> e - pos \<le> n \<Longrightarrow>
   pos \<le> skip_group n L M key pos e \<and> skip_group n L M key pos e \<le> e \<and>
   (\<forall>a. pos \<le> a \<and> a < skip_group n L M key pos e \<longrightarrow> \<not> Z L key (M a)) \<and>
   (skip_group n L M key pos e < e \<longrightarrow> Z L key (M (skip_group n L M key pos e)))"
proof (induction n arbitrary: pos)
  case (Suc n)
  show ?case
  proof (cases "pos < e \<and> \<not> Z L key (M pos)")
    case True
    let ?q = "skip_group n L M key (pos + 1) e"
    have IH: "pos + 1 \<le> ?q \<and> ?q \<le> e \<and> (\<forall>a. pos + 1 \<le> a \<and> a < ?q \<longrightarrow> \<not> Z L key (M a)) \<and>
        (?q < e \<longrightarrow> Z L key (M ?q))"
      by (rule Suc.IH) (use True Suc.prems in auto)
    then have "\<not> Z L key (M a)" if "pos \<le> a" "a < ?q" for a
      using True that by (cases "a = pos") auto
    with IH True show ?thesis by auto
  qed (use Suc.prems in auto)
qed auto

lemma cut_entry_rows:
  fixes c :: "'r pupcur"
  assumes wo: "weak_order (Z L)" and law: "find_law L"
    and run: "fst run \<le> snd run" "sorted_wrt (Z L) (rows M run)"
  shows "rows M (cut_entry L M (curk c) (curx c) run) = filter (past_bound L c) (rows M run)"
proof -
  note fnd = find_lawD [OF law run, where k = "curk c"]
  let ?p = "findGE L M run (curk c)"
  show ?thesis
  proof (cases "curx c")
    case False
    then show ?thesis
      unfolding cut_entry_def Let_def
      by (simp, intro rows_from) (use fnd in \<open>auto simp: past_bound_def\<close>)
  next
    case True
    let ?q = "skip_group (snd run - ?p) L M (curk c) ?p (snd run)"
    from skip_group_stops [OF fnd(2) order_refl, of L M "curk c"]
    have q: "?p \<le> ?q" "?q \<le> snd run" "\<And>a. ?p \<le> a \<Longrightarrow> a < ?q \<Longrightarrow> \<not> Z L (curk c) (M a)"
      "?q < snd run \<Longrightarrow> Z L (curk c) (M ?q)" by auto
    have "rows M (?q, snd run) = filter (past_bound L c) (rows M run)"
    proof (rule rows_from)
      fix a
      assume a: "fst run \<le> a" "a < ?q"
      show "\<not> past_bound L c (M a)"
      proof (cases "a < ?p")
        case less: True
        with fnd(3) a have "Z L (M a) (curk c)" by blast
        then have "\<not> Z L (curk c) (M a)" using wo_trans [OF wo] wo_irrefl [OF wo] by blast
        with True show ?thesis by (simp add: past_bound_def)
      qed (use q(3) a True in \<open>auto simp: past_bound_def\<close>)
    next
      fix a
      assume a: "?q \<le> a" "a < snd run"
      then have Zq: "Z L (curk c) (M ?q)" using q(4) by simp
      have "a = ?q \<or> Z L (M ?q) (M a)"
        using a fnd(1) q(1) run(2) unfolding sorted_rows by (metis le_neq_implies_less order.trans)
      with Zq have "Z L (curk c) (M a)" using wo_trans [OF wo] by metis
      with True show "past_bound L c (M a)" by (simp add: past_bound_def)
    qed (use fnd(1) q in auto)
    with True show ?thesis by (simp add: cut_entry_def Let_def)
  qed
qed

lemma cut_stands:
  fixes c c' :: "'r pupcur"
  assumes "weak_order (Z L)" and "find_law L" and "\<forall>src \<in> set srcs. source_ok L M src"
    and "length srcs \<le> HIT_MAX_RUNS" and "curk c' = curk c" and "curx c' = curx c"
    and "ents c' = filter (\<lambda>e. fst e < snd e) (map (\<lambda>x. cut_entry L M (curk c) (curx c) (fst x)) srcs)"
  shows "stands L M srcs c'"
proof -
  have pb: "past_bound L c' = past_bound L c" using assms(5,6) by (auto simp: past_bound_def)
  have rws: "rows M (cut_entry L M (curk c) (curx c) (fst src)) = filter (past_bound L c) (rows M (fst src))"
    if "src \<in> set srcs" for src
    using cut_entry_rows [OF assms(1,2)] assms(3) that by (simp add: source_ok_def)
  have e1: "map (rows M) (map (\<lambda>x. cut_entry L M (curk c) (curx c) (fst x)) srcs) =
      map (\<lambda>src. filter (past_bound L c) (rows M (fst src))) srcs"
    using rws by simp
  have "sorted_wrt (Z L) (rows M e)" if "e \<in> set (ents c')" for e
  proof -
    from that assms(7) obtain src where "src \<in> set srcs" "e = cut_entry L M (curk c) (curx c) (fst src)" by auto
    with rws assms(3) show ?thesis by (simp add: source_ok_def sorted_wrt_filter)
  qed
  moreover have "length (ents c') \<le> HIT_MAX_RUNS"
    using assms(4,7) by (metis length_filter_le length_map order.trans)
  moreover have "filter (\<lambda>l. l \<noteq> []) (map (rows M) (ents c')) =
      filter (\<lambda>l. l \<noteq> []) (map (\<lambda>src. filter (past_bound L c) (rows M (fst src))) srcs)"
    unfolding assms(7) map_rows_filter e1 filter_filter by simp
  ultimately show ?thesis unfolding stands_def pb by blast
qed

text \<open>One pull from a cursor that stands on its sources.\<close>

lemma pull_right:
  assumes wo: "weak_order (Z L)" and laws: "hit_laws L H" and st: "stands L M srcs c"
  shows "\<exists>es. hit_load H M (ents c) = Some es \<and>
    ((\<forall>e \<in> set es. snd e \<le> fst e) \<longrightarrow> (\<forall>src \<in> set srcs. \<forall>x \<in> set (rows M (fst src)). \<not> past_bound L c x)) \<and>
    (\<not> (\<forall>e \<in> set es. snd e \<le> fst e) \<longrightarrow>
      newest (Z L) (map (\<lambda>src. filter (past_bound L c) (rows M (fst src))) srcs) (top_row H M es) \<and>
      (\<forall>src \<in> set srcs. \<forall>x \<in> set (rows M (fst src)). past_bound L c x \<longrightarrow> \<not> Z L x (top_row H M es)) \<and>
      stands L M srcs (c\<lparr>ents := past_top L H M es, curk := top_row H M es, curx := True\<rparr>))"
proof -
  let ?es = "filter (\<lambda>e. fst e < snd e) (ents c)" and ?ls = "map (\<lambda>src. filter (past_bound L c) (rows M (fst src))) srcs"
  from st have len: "length (ents c) \<le> HIT_MAX_RUNS" and sorted: "\<forall>e \<in> set ?es. sorted_wrt (Z L) (rows M e)"
    and eq: "map (rows M) ?es = filter (\<lambda>l. l \<noteq> []) ?ls"
    by (simp_all add: stands_def map_rows_filter)
  have load: "hit_load H M (ents c) = Some ?es" by (rule hit_loadD [OF laws len])
  have rows_in: "x \<in> set (rows M (fst src)) \<Longrightarrow> src \<in> set srcs \<Longrightarrow> past_bound L c x \<Longrightarrow>
      \<exists>e \<in> set ?es. x \<in> set (rows M e)" for x src
  proof -
    assume "x \<in> set (rows M (fst src))" "src \<in> set srcs" "past_bound L c x"
    then have "filter (past_bound L c) (rows M (fst src)) \<in> set (filter (\<lambda>l. l \<noteq> []) ?ls)"
      and x: "x \<in> set (filter (past_bound L c) (rows M (fst src)))"
      by (auto simp: filter_empty_conv)
    then obtain e where "e \<in> set ?es" "rows M e = filter (past_bound L c) (rows M (fst src))"
      unfolding eq [symmetric] by auto
    with x show ?thesis by metis
  qed
  have none: "\<forall>src \<in> set srcs. \<forall>x \<in> set (rows M (fst src)). \<not> past_bound L c x"
    if "\<forall>e \<in> set ?es. snd e \<le> fst e"
    using rows_in that by (fastforce simp: set_rows)
  moreover have "newest (Z L) ?ls (top_row H M ?es) \<and>
      (\<forall>src \<in> set srcs. \<forall>x \<in> set (rows M (fst src)). past_bound L c x \<longrightarrow> \<not> Z L x (top_row H M ?es)) \<and>
      stands L M srcs (c\<lparr>ents := past_top L H M ?es, curk := top_row H M ?es, curx := True\<rparr>)"
    if "\<not> (\<forall>e \<in> set ?es. snd e \<le> fst e)"
  proof -
    let ?v = "top_row H M ?es"
    from that have ne: "\<exists>e \<in> set ?es. fst e < snd e" by (simp add: not_le)
    note past = past_top_rows [OF wo laws sorted ne]
    have "newest (Z L) (map (rows M) ?es) ?v" using top_row_newest [OF wo laws sorted ne, of ?v] by simp
    then have nv: "newest (Z L) ?ls ?v" unfolding eq newest_filter_Nil .
    then have pv: "past_bound L c ?v" using newest_in [OF nv] by auto
    have le: "\<forall>src \<in> set srcs. \<forall>x \<in> set (rows M (fst src)). past_bound L c x \<longrightarrow> \<not> Z L x ?v"
      using rows_in past(5) by blast
    have "filter (Z L ?v) (filter (past_bound L c) l) = filter (Z L ?v) l" for l
    proof -
      have "Z L ?v x \<Longrightarrow> past_bound L c x" for x
        using pv wo_trans [OF wo, of "curk c" ?v x] wo_trans [OF wo, of ?v x "curk c"]
        by (cases "curx c") (simp_all add: past_bound_def, blast)
      then show ?thesis by (induction l) auto
    qed
    then have "map (filter (Z L ?v)) ?ls = map (\<lambda>src. filter (Z L ?v) (rows M (fst src))) srcs" by simp
    moreover have "filter (\<lambda>l. l \<noteq> []) (map (filter (Z L ?v)) (filter (\<lambda>l. l \<noteq> []) ls)) =
        filter (\<lambda>l. l \<noteq> []) (map (filter (Z L ?v)) ls)" for ls by (induction ls) auto
    ultimately have "filter (\<lambda>l. l \<noteq> []) (map (rows M) (past_top L H M ?es)) =
        filter (\<lambda>l. l \<noteq> []) (map (\<lambda>src. filter (Z L ?v) (rows M (fst src))) srcs)"
    proof -
      assume a: "map (filter (Z L ?v)) ?ls = map (\<lambda>src. filter (Z L ?v) (rows M (fst src))) srcs"
        and b: "\<And>ls. filter (\<lambda>l. l \<noteq> []) (map (filter (Z L ?v)) (filter (\<lambda>l. l \<noteq> []) ls)) =
          filter (\<lambda>l. l \<noteq> []) (map (filter (Z L ?v)) ls)"
      have "map (rows M) (past_top L H M ?es) = map (filter (Z L ?v)) (map (rows M) ?es)"
        using past(1) by simp
      also have "\<dots> = map (filter (Z L ?v)) (filter (\<lambda>l. l \<noteq> []) ?ls)" by (simp only: eq)
      finally show ?thesis by (simp only: a b)
    qed
    moreover have "length (past_top L H M ?es) \<le> HIT_MAX_RUNS"
      unfolding past(2) using len by (meson length_filter_le order.trans)
    ultimately have "stands L M srcs (c\<lparr>ents := past_top L H M ?es, curk := ?v, curx := True\<rparr>)"
      using past(3) unfolding stands_def past_bound_def by simp
    with nv le show ?thesis by blast
  qed
  ultimately show ?thesis using load by blast
qed

text \<open>What \<open>_next\<close> does once the cursor is at the current version.\<close>

lemma next_row_pull:
  assumes "cura (curs s h)" and "cure (curs s h) = epoch (slots s h)"
    and "M = rowat D (pups (slots s h))" and "hit_load H M (ents (curs s h)) = Some es"
  shows "next_row L D H h s =
    (if \<forall>e \<in> set es. snd e \<le> fst e then (Inr None, set_cur h (\<lambda>c. c\<lparr>ents := es, cura := False\<rparr>) s)
     else (Inr (Some (top_row H M es)),
       set_cur h (\<lambda>c. c\<lparr>ents := past_top L H M es, curk := top_row H M es, curx := True\<rparr>) s))"
  using assms by (simp add: next_row_def Let_def)

lemma next_row_recut:
  assumes "cura (curs s h)" and "cure (curs s h) \<noteq> epoch (slots s h)"
    and "pup_sources D (pups (slots s h)) = (Some srcs, p)"
  shows "next_row L D H h s = next_row L D H h
    (set_cur h (\<lambda>c. c\<lparr>ents := filter (\<lambda>e. fst e < snd e)
        (map (\<lambda>x. cut_entry L (rowat D p) (curk c) (curx c) (fst x)) srcs), cure := epoch (slots s h)\<rparr>)
      (set_slot h (\<lambda>sl. sl\<lparr>pups := p\<rparr>) s))"
proof -
  have "jpup_cut L D h s = (Inr (), set_cur h (\<lambda>c. c\<lparr>ents := filter (\<lambda>e. fst e < snd e)
        (map (\<lambda>x. cut_entry L (rowat D p) (curk c) (curx c) (fst x)) srcs), cure := epoch (slots s h)\<rparr>)
      (set_slot h (\<lambda>sl. sl\<lparr>pups := p\<rparr>) s))"
    using assms(3) by (simp add: jpup_cut_def jpup_src_def set_cur_def set_slot_def jbind_def)
  then show ?thesis
    using assms(1,2) by (simp add: next_row_def jcatch_def jbind_def set_cur_def set_slot_def)
qed

text \<open>
  The pull cursor walks the merge of the live stack.  An armed cursor, whatever put, commit or
  read happened since its last pull, answers with the newest row of the least key past its bound
  in the sources the stack has now, moves its bound there and keeps standing on those sources; it
  is spent exactly when no source has a row past the bound.
\<close>

theorem cursor_walks_the_merge:
  fixes s :: "('w, 'p, 'r) pst"
  assumes "weak_order (Z L)" and "find_law L" and "hit_laws L H"
    and "cura (curs s h)" and "pup_sources D (pups (slots s h)) = (Some srcs, p)"
    and "\<forall>src \<in> set srcs. source_ok L (rowat D p) src" and "length srcs \<le> HIT_MAX_RUNS"
    and "cure (curs s h) = epoch (slots s h) \<Longrightarrow> pups (slots s h) = p \<and> stands L (rowat D p) srcs (curs s h)"
  shows "\<exists>res s'. next_row L D H h s = (Inr res, s') \<and> pups (slots s' h) = p \<and>
    (case res of
       None \<Rightarrow> \<not> cura (curs s' h) \<and>
         (\<forall>src \<in> set srcs. \<forall>x \<in> set (rows (rowat D p) (fst src)). \<not> past_bound L (curs s h) x)
     | Some v \<Rightarrow>
         newest (Z L) (map (\<lambda>src. filter (past_bound L (curs s h)) (rows (rowat D p) (fst src))) srcs) v \<and>
         (\<forall>src \<in> set srcs. \<forall>x \<in> set (rows (rowat D p) (fst src)). past_bound L (curs s h) x \<longrightarrow> \<not> Z L x v) \<and>
         cura (curs s' h) \<and> curx (curs s' h) \<and> curk (curs s' h) = v \<and>
         cure (curs s' h) = epoch (slots s' h) \<and> stands L (rowat D p) srcs (curs s' h))"
proof -
  let ?M = "rowat D p"
  have pull: "\<exists>res s'. next_row L D H h t = (Inr res, s') \<and> pups (slots s' h) = p \<and>
    (case res of
       None \<Rightarrow> \<not> cura (curs s' h) \<and>
         (\<forall>src \<in> set srcs. \<forall>x \<in> set (rows ?M (fst src)). \<not> past_bound L (curs t h) x)
     | Some v \<Rightarrow>
         newest (Z L) (map (\<lambda>src. filter (past_bound L (curs t h)) (rows ?M (fst src))) srcs) v \<and>
         (\<forall>src \<in> set srcs. \<forall>x \<in> set (rows ?M (fst src)). past_bound L (curs t h) x \<longrightarrow> \<not> Z L x v) \<and>
         cura (curs s' h) \<and> curx (curs s' h) \<and> curk (curs s' h) = v \<and>
         cure (curs s' h) = epoch (slots s' h) \<and> stands L ?M srcs (curs s' h))"
    if t: "cura (curs t h)" "cure (curs t h) = epoch (slots t h)" "pups (slots t h) = p" "stands L ?M srcs (curs t h)"
    for t :: "('w, 'p, 'r) pst"
  proof -
    from pull_right [OF assms(1,3) t(4)] obtain es where load: "hit_load H ?M (ents (curs t h)) = Some es"
      and R: "(\<forall>e \<in> set es. snd e \<le> fst e) \<longrightarrow> (\<forall>src \<in> set srcs. \<forall>x \<in> set (rows ?M (fst src)). \<not> past_bound L (curs t h) x)"
      "\<not> (\<forall>e \<in> set es. snd e \<le> fst e) \<longrightarrow>
      newest (Z L) (map (\<lambda>src. filter (past_bound L (curs t h)) (rows ?M (fst src))) srcs) (top_row H ?M es) \<and>
      (\<forall>src \<in> set srcs. \<forall>x \<in> set (rows ?M (fst src)). past_bound L (curs t h) x \<longrightarrow> \<not> Z L x (top_row H ?M es)) \<and>
      stands L ?M srcs (curs t h\<lparr>ents := past_top L H ?M es, curk := top_row H ?M es, curx := True\<rparr>)"
      by blast
    note go = next_row_pull [OF t(1,2) _ load, of D L, unfolded t(3), OF refl]
    show ?thesis
    proof (cases "\<forall>e \<in> set es. snd e \<le> fst e")
      case True
      with R(1) t show ?thesis
        by (intro exI conjI) (rule go [unfolded if_P [OF True]], simp_all add: set_cur_def)
    next
      case False
      with R(2) t show ?thesis
        by (intro exI conjI) (rule go [unfolded if_not_P [OF False]], simp_all add: set_cur_def)
    qed
  qed
  show ?thesis
  proof (cases "cure (curs s h) = epoch (slots s h)")
    case True
    with pull [OF assms(4) True] assms(8) show ?thesis by blast
  next
    case False
    let ?t = "set_cur h (\<lambda>c. c\<lparr>ents := filter (\<lambda>e. fst e < snd e)
        (map (\<lambda>x. cut_entry L ?M (curk c) (curx c) (fst x)) srcs), cure := epoch (slots s h)\<rparr>)
      (set_slot h (\<lambda>sl. sl\<lparr>pups := p\<rparr>) s)"
    have st: "stands L ?M srcs (curs ?t h)"
      by (rule cut_stands [OF assms(1,2,6,7), where c = "curs s h"]) (simp_all add: set_cur_def set_slot_def)
    have pb: "past_bound L (curs ?t h) = past_bound L (curs s h)"
      by (rule ext) (simp add: past_bound_def set_cur_def set_slot_def)
    have "cura (curs ?t h)" "cure (curs ?t h) = epoch (slots ?t h)" "pups (slots ?t h) = p"
      using assms(4) by (simp_all add: set_cur_def set_slot_def)
    from pull [OF this st] show ?thesis
      unfolding next_row_recut [OF assms(4) False assms(5)] pb .
  qed
qed

section \<open>The memtable's hook\<close>

text \<open>
  abc's sorts: both sorts permute, the insertion sort keeps rows that tie in order of arrival, and
  keep-last leaves of every key its last row.
\<close>

definition sort_laws :: "('r \<Rightarrow> 'r \<Rightarrow> bool) \<Rightarrow> 'r sorts \<Rightarrow> bool" where
  "sort_laws lt Q \<longleftrightarrow>
     (\<forall>xs r. filter (tie lt r) (InSort Q xs) = filter (tie lt r) xs) \<and>
     (\<forall>xs. mset (sSort Q xs) = mset xs) \<and>
     (\<forall>xs. sorted_wrt (\<lambda>a b. \<not> lt b a) (InSort Q xs) \<and> sorted_wrt (\<lambda>a b. \<not> lt b a) (sSort Q xs)) \<and>
     (\<forall>xs. sorted_wrt (\<lambda>a b. \<not> lt b a) xs \<longrightarrow> sorted_wrt lt (sDedup Q xs) \<and>
        (\<forall>r. filter (tie lt r) (sDedup Q xs) =
          (if filter (tie lt r) xs = [] then [] else [last (filter (tie lt r) xs)])))"

lemma rows_clean_sorted: "weak_order lt \<Longrightarrow> rows_clean lt xs \<longleftrightarrow> sorted_wrt lt xs"
proof (induction lt xs rule: rows_clean.induct)
  case (1 lt a b rs)
  then show ?case by (auto intro: wo_trans)
qed simp_all

text \<open>
  The memtable keeps the newest row of every key.  Whether the rows arrived in order or not, after
  the hook has tidied the memtable its rows are strictly ascending, and of every key they hold
  the one row that was put last; on a lane that sorts unstably that needs rows that tie to be
  equal, as they are there.
\<close>

theorem sync_keeps_newest:
  assumes "weak_order (Z L)" and "sort_laws (Z L) Q"
    and "stable L \<or> (\<forall>a b. tie (Z L) a b \<longrightarrow> a = b)"
    and "jpup_sync L Q page False room (past, dat) = Some (past', dat')"
  shows "past' = past \<and> sorted_wrt (Z L) dat' \<and>
    (\<forall>r. filter (tie (Z L) r) dat' = (if filter (tie (Z L) r) dat = [] then [] else [last (filter (tie (Z L) r) dat)]))"
proof (cases "rows_clean (Z L) dat")
  case True
  with assms(4) have eq: "past' = past" "dat' = dat" by (simp_all add: jpup_sync_def)
  have sorted: "sorted_wrt (Z L) dat" using True rows_clean_sorted [OF assms(1)] by simp
  have "filter (tie (Z L) r) dat = (if filter (tie (Z L) r) dat = [] then [] else [last (filter (tie (Z L) r) dat)])" for r
  proof -
    let ?f = "filter (tie (Z L) r) dat"
    have s: "sorted_wrt (Z L) ?f" by (rule sorted_wrt_filter [OF sorted])
    have "length ?f \<le> 1"
    proof (rule ccontr)
      assume "\<not> length ?f \<le> 1"
      then obtain a b rs where f: "?f = a # b # rs" by (cases ?f; cases "tl ?f") auto
      then have "Z L a b" using s by simp
      moreover have "a \<in> set ?f" "b \<in> set ?f" unfolding f by simp_all
      then have "tie (Z L) r a" "tie (Z L) r b" by simp_all
      ultimately show False using wo_neg [OF assms(1), of a b r] by (auto simp: tie_def)
    qed
    then show ?thesis by (cases ?f) auto
  qed
  with eq sorted show ?thesis by blast
next
  case False
  define xs where "xs = (if stable L \<or> length dat * rowsize L \<le> page then InSort Q dat else sSort Q dat)"
  from False assms(4) have eq: "past' = past" "dat' = sDedup Q xs" by (simp_all add: jpup_sync_def xs_def)
  have sorted: "sorted_wrt (\<lambda>a b. \<not> Z L b a) xs"
    using assms(2) by (simp add: sort_laws_def xs_def)
  have same: "filter (tie (Z L) r) xs = filter (tie (Z L) r) dat" for r
  proof (cases "stable L \<or> length dat * rowsize L \<le> page")
    case True
    then show ?thesis using assms(2) by (simp add: xs_def sort_laws_def)
  next
    case unstable: False
    with assms(3) have one: "tie (Z L) a b \<Longrightarrow> a = b" for a b by blast
    have m: "mset xs = mset dat" using unstable assms(2) by (simp add: xs_def sort_laws_def)
    have rep: "filter (tie (Z L) r) ys = replicate (count (mset ys) r) r" for ys
    proof (induction ys)
      case (Cons y ys)
      then show ?case using one [of r y] wo_irrefl [OF assms(1), of r] by (auto simp: tie_def)
    qed simp
    show ?thesis unfolding rep m ..
  qed
  from assms(2) sorted have "sorted_wrt (Z L) (sDedup Q xs)"
    "\<forall>r. filter (tie (Z L) r) (sDedup Q xs) = (if filter (tie (Z L) r) xs = [] then [] else [last (filter (tie (Z L) r) xs)])"
    unfolding sort_laws_def by blast+
  with eq same show ?thesis by simp
qed

section \<open>Instances\<close>

lemma u64_order: "weak_order ((<) :: u64 \<Rightarrow> u64 \<Rightarrow> bool)"
  by (auto simp: weak_order_def)

lemma u64_tie [simp]: "tie (<) (a :: u64) b \<longleftrightarrow> a = b"
  by (auto simp: tie_def)

lemma sample_find_first:
  assumes "fst run \<le> a" and "a < sample_find lt M run k" and "a < snd run"
  shows "lt (M a) k"
proof (cases "List.find (\<lambda>a. \<not> lt (M a) k) [fst run..<snd run]")
  case None
  with assms show ?thesis by (auto simp: find_None_iff)
next
  case (Some b)
  then obtain i where i: "i < length [fst run..<snd run]" "b = [fst run..<snd run] ! i"
    "\<forall>j<i. lt (M ([fst run..<snd run] ! j)) k" by (auto simp: find_Some_iff)
  with assms Some have "a - fst run < i" by (simp add: sample_find_def)
  with i(1,3) assms show ?thesis by force
qed

lemma sample_find_at:
  assumes "sample_find lt M run k < snd run"
  shows "\<not> lt (M (sample_find lt M run k)) k"
proof (cases "List.find (\<lambda>a. \<not> lt (M a) k) [fst run..<snd run]")
  case None
  with assms show ?thesis by (simp add: sample_find_def)
next
  case (Some b)
  then have "sample_find lt M run k = b" by (simp add: sample_find_def)
  moreover have "\<not> lt (M b) k" using Some by (auto simp: find_Some_iff)
  ultimately show ?thesis by simp
qed

lemma sample_find_law: "find_law sample_lane"
  unfolding find_law_def sample_lane_fields
proof (intro allI impI conjI, goal_cases)
  case (1 M run k)
  show ?case by (rule sample_find_ge)
next
  case (2 M run k)
  then show ?case by (simp add: sample_find_le)
next
  case (3 M run k a)
  then show ?case using sample_find_first sample_find_le by (metis less_le_trans)
next
  case (4 M run k a)
  let ?p = "sample_find (<) M run k"
  have "\<not> M ?p < k" by (rule sample_find_at) (use 4 in simp)
  moreover have "?p = a \<or> M ?p < M a"
    using 4 sample_find_ge [of run "(<)" M k] unfolding sorted_rows by (metis le_neq_implies_less)
  ultimately show ?case by auto
qed

lemma le_last: "sorted_wrt (<) (xs :: nat list) \<Longrightarrow> x \<in> set xs \<Longrightarrow> x \<le> last xs"
  by (induction xs) (auto intro: less_imp_le)

lemma sample_top_ok:
  fixes M :: "u64 rowmem"
  assumes "\<exists>e \<in> set es. fst e < snd e"
  defines "t \<equiv> sample_top (<) M es"
  shows "t < length es" "fst (es ! t) < snd (es ! t)"
    "j < length es \<Longrightarrow> fst (es ! j) < snd (es ! j) \<Longrightarrow> \<not> M (fst (es ! j)) < M (fst (es ! t))"
    "j < length es \<Longrightarrow> fst (es ! j) < snd (es ! j) \<Longrightarrow> t < j \<Longrightarrow> M (fst (es ! t)) < M (fst (es ! j))"
proof -
  let ?P = "\<lambda>i. fst (es ! i) < snd (es ! i) \<and>
     list_all (\<lambda>e. fst e < snd e \<longrightarrow> \<not> M (fst e) < M (fst (es ! i))) es"
  let ?N = "{i. i < length es \<and> fst (es ! i) < snd (es ! i)}" and ?f = "filter ?P [0..<length es]"
  have "finite ?N" by simp
  moreover have "?N \<noteq> {}"
    using assms(1) by (metis (mono_tags, lifting) empty_iff in_set_conv_nth mem_Collect_eq)
  ultimately have "finite ?N" "?N \<noteq> {}" by blast+
  then obtain m where m: "m \<in> ?N" "\<forall>i \<in> ?N. M (fst (es ! m)) \<le> M (fst (es ! i))"
    using ex_min_if_finite [of "(\<lambda>i. M (fst (es ! i))) ` ?N"] by (auto simp: not_less) (metis not_less)
  then have "?P m" by (auto simp: list_all_length not_less)
  with m(1) have "m \<in> set ?f" by simp
  then have "0 < length ?f" by (rule length_pos_if_in_set)
  then have ne: "?f \<noteq> []" unfolding length_greater_0_conv .
  then have t: "t = last ?f" by (simp add: t_def sample_top_def)
  have "t \<in> set ?f" unfolding t by (rule last_in_set [OF ne])
  then have Pt: "t < length es" "?P t" by auto
  then show "t < length es" "fst (es ! t) < snd (es ! t)" by auto
  show le: "\<not> M (fst (es ! j)) < M (fst (es ! t))" if "j < length es" "fst (es ! j) < snd (es ! j)" for j
    using Pt(2) that by (auto simp: list_all_length)
  show "M (fst (es ! t)) < M (fst (es ! j))"
    if j: "j < length es" "fst (es ! j) < snd (es ! j)" "t < j"
  proof (rule ccontr)
    assume "\<not> M (fst (es ! t)) < M (fst (es ! j))"
    then have "?P j" using le j(1,2) by (auto simp: list_all_length not_less) (meson leD le_less_trans not_less)
    with j(1) have "j \<in> set ?f" by simp
    have "sorted_wrt (<) ?f" by (rule sorted_wrt_filter) (simp add: sorted_wrt_upt)
    from this \<open>j \<in> set ?f\<close> have "j \<le> last ?f"
      by (rule le_last)
    with t j(3) show False by simp
  qed
qed

lemma sample_seek_rows:
  fixes M :: "u64 rowmem"
  assumes "sorted_wrt (<) (rows M e)"
  shows "rows M (sample_find (<) M e lo, sample_find (<) M e hi) = filter (\<lambda>r. \<not> r < lo \<and> r < hi) (rows M e)"
proof (cases "fst e \<le> snd e")
  case True
  note fnd = find_lawD [OF sample_find_law True, unfolded sample_lane_fields, OF assms]
  let ?a = "sample_find (<) M e lo" and ?b = "sample_find (<) M e hi"
  have low: "rows M (?a, snd e) = filter (\<lambda>r. \<not> r < lo) (rows M e)"
    by (rule rows_from) (use fnd [where k = lo] in auto)
  have "rows M (?a, ?b) = filter (\<lambda>r. r < hi) (rows M (?a, snd e))"
  proof (cases "?a \<le> ?b")
    case ab: True
    have "[?a..<snd e] = [?a..<?b] @ [?b..<snd e]"
      using ab fnd(2) [where k = hi] upt_add_eq_append [of ?a ?b "snd e - ?b"] by simp
    then have "rows M (?a, snd e) = rows M (?a, ?b) @ rows M (?b, snd e)" by (simp add: rows_def)
    moreover have "filter (\<lambda>r. r < hi) (rows M (?b, snd e)) = []"
      using fnd(4) [where k = hi] by (auto simp: filter_empty_conv set_rows)
    moreover have "filter (\<lambda>r. r < hi) (rows M (?a, ?b)) = rows M (?a, ?b)"
      using fnd(1,3) [where k = hi] fnd(1) [where k = lo] by (auto simp: set_rows)
    ultimately show ?thesis by simp
  next
    case False
    have "filter (\<lambda>r. r < hi) (rows M (?a, snd e)) = []"
      using fnd(4) [where k = hi] False by (auto simp: filter_empty_conv set_rows)
    with False show ?thesis by simp
  qed
  then show ?thesis unfolding low by (simp add: conj_commute)
next
  case False
  then have "[fst e..<snd e] = []" by simp
  with False show ?thesis by (simp add: rows_def sample_find_def)
qed

lemma sample_hit_laws: "hit_laws sample_lane (sample_hit (<))"
  unfolding hit_laws_def sample_lane_fields
proof (intro conjI allI impI, goal_cases)
  case (1 M es)
  then show ?case by (simp add: sample_hit_def)
next
  case (2 M es)
  then show ?case using sample_top_ok(1) by (simp add: sample_hit_def)
next
  case (3 M es)
  then show ?case using sample_top_ok(2) by (simp add: sample_hit_def)
next
  case (4 M es j)
  then show ?case using sample_top_ok(3) [of es j M] by (simp add: sample_hit_def top_row_def)
next
  case (5 M es j)
  then show ?case using sample_top_ok(4) [of es j M] by (simp add: sample_hit_def top_row_def)
next
  case (6 M es)
  then show ?case by (simp add: sample_hit_def top_row_def tie_def Let_def)
next
  case (7 M es lo hi)
  then show ?case by (simp add: sample_hit_def)
next
  case (8 M es lo hi)
  then show ?case by (auto simp: sample_hit_def sample_seek_rows sorted_wrt_filter simp del: split_paired_All)
next
  case (9 M es lo hi)
  then have "map (\<lambda>e. rows M (sample_find (<) M e lo, sample_find (<) M e hi)) es =
      map (\<lambda>e. filter (\<lambda>r. \<not> r < lo \<and> r < hi) (rows M e)) es"
    by (intro map_cong refl) (simp add: sample_seek_rows)
  then show ?case by (simp only: sample_hit_def hit.simps map_map o_def)
qed

text \<open>The rows 2, 4, 6 at the addresses 1, 2, 3: the sources of the sample stack.\<close>

lemma sample_rows: "rows (rowat sample_pup (1, [2, 4, 6])) (1, 4) = [2, 4, 6]"
  by (simp add: rows_def upt_rec)

lemma sample_source: "source_ok sample_lane (rowat sample_pup (1, [2, 4, 6])) ((1, 4), (0, 0))"
  using sample_rows by (simp add: source_ok_def toc_ok_def del: sample_pup_fields(5))

lemma sample_keyeq: "keyeq sample_lane a b \<longleftrightarrow> tie (Z sample_lane) a b"
  by simp

abbreviation sample_open :: "(sample_state, nat \<times> u64 list, u64) pst" where
  "sample_open \<equiv> sample_program sample_start"

lemma sample_key: "on_eng (rd_needle sample_lane ([JNum (Fin 0), JBig 4] ! 1)) s = (Inr 4, s)"
  by (simp add: on_eng_def JABCPupU64_def JABCBigU64Of_def sample_engine_def)

text \<open>
  An index file of five u64 rows: three of data and a table of contents with a row for every two.  The
  key 4 is found, on the page of the first cell; a scan of \<open>[3, 7)\<close> calls back with 4 and 6, while the
  callback opens another handle through the kv64 lane.
\<close>

definition toc_lane :: "(sample_state, u64) lane" where
  "toc_lane = lane_u64 sample_engine (<) (sample_find (<)) 2"

definition toc_mem :: "u64 rowmem" where
  "toc_mem a = [2, 4, 6, 2, 6] ! (a - 1)"

definition toc_pup :: "(nat \<times> nat, u64) dogpup" where
  "toc_pup = (byte_pup 0)\<lparr>pup_sources := (\<lambda>p. (Some [((1, 4), (4, 6))], p)), rowat := (\<lambda>p. toc_mem)\<rparr>"

definition toc_state :: "(sample_state, nat \<times> nat, u64) pst" where
  "toc_state = set_slot 0 (\<lambda>sl. sl\<lparr>pups := (1, 40), live := True\<rparr>) (pup_start toc_pup 0 \<lparr>bufs = [], props = (\<lambda>_. JUndef)\<rparr>)"

lemma toc_fields:
  "Z toc_lane = (<)" "findGE toc_lane = sample_find (<)" "getv toc_lane = JABCBigU64" "lname toc_lane = ''u64''"
  "rd_needle toc_lane = rd_needle sample_lane" "toc_rows toc_lane = 2" "keyeq toc_lane a b \<longleftrightarrow> tie (Z toc_lane) a b"
  by (auto simp: toc_lane_def lane_u64_def tie_def sample_lane_def)

lemma toc_laws: "find_law toc_lane" "hit_laws toc_lane (sample_hit (<))" "weak_order (Z toc_lane)"
  using sample_find_law sample_hit_laws u64_order by (simp_all add: find_law_def hit_laws_def toc_fields)

lemma toc_source: "\<forall>src \<in> set [((1, 4), (4, 6))]. source_ok toc_lane toc_mem src"
  by (auto simp: source_ok_def toc_ok_def toc_fields rows_def toc_mem_def upt_rec less_2_cases_iff)

lemma toc_data: "rows toc_mem (1, 4) = [2, 4, 6]"
  by (simp add: rows_def toc_mem_def upt_rec)

lemma toc_slot: "pups (slots toc_state 0) = (1, 40)" "live (slots toc_state 0)"
  by (simp_all add: toc_state_def set_slot_def)

lemma get_newest_wins_witness:
  "fst (jpup_get sample_engine toc_lane toc_pup [JNum (Fin 0), JBig 4] toc_state) = Inr (JVal (JABCBigU64 4))"
proof -
  have src: "pup_sources toc_pup (pups (slots toc_state 0)) = (Some [((1, 4), (4, 6))], (1, 40))"
    by (simp add: toc_pup_def toc_slot)
  have ok: "\<forall>src \<in> set [((1, 4), (4, 6))]. source_ok toc_lane (rowat toc_pup (1, 40)) src"
    using toc_source by (simp add: toc_pup_def)
  from get_newest_wins [OF toc_laws(3,1) toc_fields(7) sample_slot [OF toc_slot(2)]
      sample_key [folded toc_fields(5)] src ok]
  show ?thesis
    by (auto simp: toc_fields toc_data toc_pup_def tie_def simp del: One_nat_def)
qed

definition toc_cb :: "jout \<Rightarrow> ((sample_state, nat \<times> nat, u64) pst, jsval) js" where
  "toc_cb v = (\<lambda>s. (Inr JUndef, snd (jpup_open sample_engine sample_abc (of_lib lane_u64 sample_engine (on_u64 byte_libs))
     (lib_pup (on_u64 byte_libs)) [JStr ''d'', JStr ''x''] s)))"

lemma toc_cb_runs: "table_run False sample_engine sample_abc byte_libs (table_of s) (table_of (snd (toc_cb v s)))"
  unfolding toc_cb_def snd_conv
  by (rule run_u64, unfold lane_step_def, intro disjI1 exI conjI) (rule leaf_open, rule refl, rule refl)

lemma range_emits_the_merge_witness:
  "\<exists>es. hit_load (sample_hit (<)) toc_mem (hit_seek (sample_hit (<)) toc_mem
       (map (range_entry toc_lane toc_mem 3) [((1, 4), (4, 6))]) 3 7) = Some es \<and>
    scan_rows (rows_left es) toc_lane toc_pup (sample_hit (<)) toc_cb 0 es
      (set_slot 0 (\<lambda>sl. sl\<lparr>busy := True\<rparr>) toc_state) =
    call_each toc_lane toc_cb [4, 6] (set_slot 0 (\<lambda>sl. sl\<lparr>busy := True\<rparr>) toc_state)"
proof -
  have held: "table_held byte_libs 0 (1, 40) (table_of (set_slot 0 (\<lambda>sl. sl\<lparr>busy := True\<rparr>) toc_state))"
    using toc_slot by (simp add: table_held_def table_of_def set_slot_def byte_libs_def byte_lib_def byte_pup_def)
  have mem: "toc_mem = rowat toc_pup (1, 40)" by (simp add: toc_pup_def)
  have len: "length [((1 :: nat, 4 :: nat), (4 :: nat, 6 :: nat))] \<le> HIT_MAX_RUNS" by (simp add: HIT_MAX_RUNS_def)
  from range_emits_the_merge [where cb = toc_cb, OF toc_laws(3,1,2) byte_libs_laws toc_source len toc_fields(7) held mem
      toc_cb_runs, where lo = 3 and hi = 7]
  obtain es ms where R: "hit_load (sample_hit (<)) toc_mem (hit_seek (sample_hit (<)) toc_mem
       (map (range_entry toc_lane toc_mem 3) [((1, 4), (4, 6))]) 3 7) = Some es"
    "scan_rows (rows_left es) toc_lane toc_pup (sample_hit (<)) toc_cb 0 es
      (set_slot 0 (\<lambda>sl. sl\<lparr>busy := True\<rparr>) toc_state) =
    call_each toc_lane toc_cb ms (set_slot 0 (\<lambda>sl. sl\<lparr>busy := True\<rparr>) toc_state)"
    "sorted_wrt (Z toc_lane) ms"
    "\<forall>r. r \<in> set ms \<longleftrightarrow> newest (Z toc_lane) (map (\<lambda>src. filter (\<lambda>r. \<not> Z toc_lane r 3 \<and> Z toc_lane r 7)
        (rows toc_mem (fst src))) [((1, 4), (4, 6)) :: slice \<times> slice]) r"
    by (elim exE conjE) (rule that, assumption+)
  have "filter (\<lambda>r. \<not> r < 3 \<and> r < 7) [2, 4, 6 :: u64] = [4, 6]" by simp
  then have "r \<in> set ms \<longleftrightarrow> r = 4 \<or> r = 6" for r
    unfolding R(4) [rule_format] by (simp only: list.map fst_conv toc_data toc_fields newest.simps) simp
  then have "set ms = set [4, 6]" by auto
  moreover have "sorted ms" "distinct ms" using R(3) by (simp_all add: toc_fields strict_sorted_iff)
  ultimately have "ms = [4, 6]" by (intro sorted_distinct_set_unique) simp_all
  with R(1,2) show ?thesis by blast
qed

text \<open>The cursor sought to 3 yields 4.\<close>

lemma cursor_walks_the_merge_witness:
  "\<exists>s'. next_row sample_lane sample_pup (sample_hit (<)) 0
      (set_cur 0 (\<lambda>c. c\<lparr>curk := 3, curx := False, cura := True, cure := 0\<rparr>) (set_slot 0 (\<lambda>sl. sl\<lparr>epoch := 1\<rparr>) sample_open)) =
    (Inr (Some 4), s')"
proof -
  let ?s = "set_cur 0 (\<lambda>c. c\<lparr>curk := 3, curx := False, cura := True, cure := 0\<rparr>) (set_slot 0 (\<lambda>sl. sl\<lparr>epoch := 1\<rparr>) sample_open)"
  have p: "pups (slots ?s 0) = (1, [2, 4, 6])"
    using sample_program_state(5) by (simp add: set_cur_def set_slot_def)
  have src: "pup_sources sample_pup (pups (slots ?s 0)) = (Some [((1, 4), (0, 0))], (1, [2, 4, 6]))"
    by (simp only: p) simp
  have ok: "\<forall>src \<in> set [((1, 4), (0, 0))]. source_ok sample_lane (rowat sample_pup (1, [2, 4, 6])) src"
    using sample_source by simp
  have c: "cura (curs ?s 0)" "cure (curs ?s 0) \<noteq> epoch (slots ?s 0)" "curk (curs ?s 0) = 3" "curx (curs ?s 0) = False"
    by (simp_all add: set_cur_def set_slot_def)
  have "weak_order (Z sample_lane)" using u64_order by simp
  from cursor_walks_the_merge [OF this sample_find_law sample_hit_laws c(1) src ok]
  obtain res s' where R: "next_row sample_lane sample_pup (sample_hit (<)) 0 ?s = (Inr res, s')"
    "case res of None \<Rightarrow> \<forall>x \<in> set (rows (rowat sample_pup (1, [2, 4, 6])) (1, 4)). \<not> past_bound sample_lane (curs ?s 0) x
     | Some v \<Rightarrow> newest (<) [filter (past_bound sample_lane (curs ?s 0)) (rows (rowat sample_pup (1, [2, 4, 6])) (1, 4))] v \<and>
         (\<forall>x \<in> set (rows (rowat sample_pup (1, [2, 4, 6])) (1, 4)). past_bound sample_lane (curs ?s 0) x \<longrightarrow> \<not> x < v)"
    using c(2) by (fastforce simp: HIT_MAX_RUNS_def split: option.splits)
  have pb: "past_bound sample_lane (curs ?s 0) = (\<lambda>r. \<not> r < 3)"
    using c(3,4) by (auto simp: past_bound_def)
  from R(2) have "res = Some 4"
    unfolding pb sample_rows by (auto split: option.splits)
  with R(1) show ?thesis by blast
qed

text \<open>Sorts over u64 rows, and the memtable \<open>7, 3, 7\<close>.\<close>

definition sample_sorts :: "u64 sorts" where
  "sample_sorts = \<lparr> InSort = sort, sSort = sort, sDedup = remdups,
     hit_merge = (\<lambda>ls n. Some (sort (concat ls))) \<rparr>"

lemma sorted_adj: "sorted xs \<Longrightarrow> sorted_wrt (<) (remdups xs)"
  by (simp add: strict_sorted_iff sorted_remdups)

lemma filter_eq_replicate: "filter ((=) r) xs = replicate (count (mset xs) r) r"
  by (induction xs) auto

lemma sample_sort_laws: "sort_laws (<) sample_sorts"
proof -
  have eq: "tie (<) r = ((=) r)" for r :: u64 by (rule ext) simp
  have adj: "filter ((=) r) (remdups xs) = (if filter ((=) r) xs = [] then [] else [last (filter ((=) r) xs)])"
    if "sorted xs" for xs and r :: u64
  proof -
    have "count (mset (remdups xs)) r = (if r \<in> set xs then 1 else 0)"
      using sorted_adj [OF that] by (simp add: strict_sorted_iff distinct_count_atmost_1)
    then show ?thesis by (auto simp: filter_eq_replicate)
  qed
  have le: "(\<lambda>a b. \<not> b < a) = ((\<le>) :: u64 \<Rightarrow> u64 \<Rightarrow> bool)" by (auto simp: not_less)
  show ?thesis
    unfolding sort_laws_def eq le
    by (simp add: sample_sorts_def filter_eq_replicate [of _ "sort xs" for xs] adj sorted_adj)
      (simp add: filter_eq_replicate)
qed

lemma sync_keeps_newest_witness:
  "jpup_sync sample_lane sample_sorts 4096 False 0 ([], [7, 3, 7]) = Some ([], [3, 7]) \<and>
   sorted_wrt (<) [3 :: u64, 7]"
proof -
  have run: "jpup_sync sample_lane sample_sorts 4096 False 0 ([], [7, 3, 7]) = Some ([], [3, 7])"
    by (simp add: jpup_sync_def sample_sorts_def)
  have "weak_order (Z sample_lane)" "sort_laws (Z sample_lane) sample_sorts"
    "stable sample_lane \<or> (\<forall>a b. tie (Z sample_lane) a b \<longrightarrow> a = b)"
    using u64_order sample_sort_laws by simp_all
  from sync_keeps_newest [OF this run] show ?thesis using run by simp
qed

section \<open>Where the code and its comments part\<close>

text \<open>
  On the wh128 lane a run may hold several rows of one key (its order is of the whole row), and
  \<open>_get\<close> then depends on where the page boundaries lie: the same run, with and without a table of
  contents, answers with different rows.
\<close>

definition wh128_less :: "u64 \<times> u64 \<Rightarrow> u64 \<times> u64 \<Rightarrow> bool" where
  "wh128_less a b \<longleftrightarrow> fst a < fst b \<or> fst a = fst b \<and> snd a < snd b"

definition wh128_mem :: "(u64 \<times> u64) rowmem" where
  "wh128_mem a = [(5, 1), (7, 1), (7, 2), (9, 1), (5, 1), (7, 2)] ! a"

lemma wh128_found: "sample_find wh128_less wh128_mem (4, 6) (7, 0) = 5" "sample_find wh128_less wh128_mem (0, 4) (7, 0) = 1"
  by code_simp+

lemma wh128_get_depends_on_pages:
  "map_option wh128_mem (lookup_from (lane_wh128 sample_engine wh128_less (sample_find wh128_less) 2)
     wh128_mem (7, 0) [((0, 4), (4, 6))]) = Some (7, 2) \<and>
   map_option wh128_mem (lookup_from (lane_wh128 sample_engine wh128_less (sample_find wh128_less) 2)
     wh128_mem (7, 0) [((0, 4), (0, 0))]) = Some (7, 1)"
  by (simp add: jpup_page_def lane_wh128_def wh128_found) (simp add: wh128_less_def wh128_mem_def)

text \<open>The same run, scanned from the key 7: the entry lies behind the rows and is empty.\<close>

lemma wh128_range_misses_rows:
  "range_entry (lane_wh128 sample_engine wh128_less (sample_find wh128_less) 2) wh128_mem (7, 0) ((0, 4), (4, 6)) = (5, 4)"
  by (simp add: range_entry_def jpup_page_def lane_wh128_def wh128_found) (simp add: wh128_less_def wh128_mem_def)

text \<open>\<open>_put\<close> of a pair lane with the four arguments its usage allows reads past the argument vector.\<close>

lemma put_reads_past_its_arguments:
  assumes "length argv = 4" and "rd (argv ! 3) w = (Inr row, w')"
  shows "put_pair E rd argv w = (Inl CUndef, w')"
  using assms by (simp add: put_pair_def arg_at_def jbind_def)

text \<open>\<open>_drop\<close> narrows the run index to 32 bits unchecked: run \<open>2 ^ 32\<close> is run 0.\<close>

lemma drop_index_wraps: "(ucast (0x100000000 :: u64) :: u32) = ucast (0 :: u64)"
  by simp

end
