(* ===== verification/Lanes.thy ===== *)
theory Lanes
  imports Leaf "HOL-Library.Multiset"
begin

text \<open>
  The lanes of the containers: a typed array of JavaScript is a run of bytes, and a leaf of
  \<open>heap.c\<close>, \<open>hash.c\<close>, \<open>hit.c\<close> or \<open>index.c\<close> casts its base pointer to the lane's C type.  A
  \<open>cell\<close> is that type as far as the leaves see it: its \<open>sizeof\<close> and how a value lies in memory.
  The memory is part of the engine's state, because JavaScript writes to it as well; \<open>memory\<close> is
  how C reads and writes it.
\<close>

section \<open>Bytes\<close>

text \<open>A number of \<open>k\<close> bytes, the least significant first (the order of the supported hosts).\<close>

primrec le_bytes :: "nat \<Rightarrow> nat \<Rightarrow> u8 list" where
  "le_bytes 0 x = []"
| "le_bytes (Suc k) x = of_nat (x mod 256) # le_bytes k (x div 256)"

primrec le_nat :: "u8 list \<Rightarrow> nat" where
  "le_nat [] = 0"
| "le_nat (b # bs) = unat b + 256 * le_nat bs"

lemma unat_less_exp: "unat (w :: 'a::len word) < 2 ^ LENGTH('a)"
  using unsigned_less [of w] by (simp only:)

lemma length_le_bytes [simp]: "length (le_bytes k x) = k"
  by (induction k arbitrary: x) auto

lemma unat_byte [simp]: "unat (of_nat (x mod 256) :: u8) = x mod 256"
  by (simp add: unat_of_nat)

lemma le_nat_le_bytes: "le_nat (le_bytes k x) = x mod 256 ^ k"
  by (induction k arbitrary: x) (simp_all add: mod_mult2_eq add.commute)

lemma le_bytes_le_nat: "le_bytes (length bs) (le_nat bs) = bs"
proof (induction bs)
  case (Cons b bs)
  have "unat b < 256" by (rule unat_less_exp [where 'a = 8, simplified])
  then show ?case using Cons by simp
qed simp

lemma le_nat_less: "le_nat bs < 256 ^ length bs"
proof (induction bs)
  case (Cons b bs)
  have "unat b < 256" by (rule unat_less_exp [where 'a = 8, simplified])
  with Cons show ?case by simp
qed simp

lemma le_nat_round: "x < 256 ^ k \<Longrightarrow> le_nat (le_bytes k x) = x"
  by (simp add: le_nat_le_bytes)

section \<open>Memory\<close>

record 'w memory =
  peek :: "'w \<Rightarrow> addr \<Rightarrow> u8"
  poke :: "addr \<Rightarrow> u8 list \<Rightarrow> 'w \<Rightarrow> 'w"

text \<open>Writing bytes changes these bytes, no others, and no view.\<close>

definition mem_laws :: "'w engine \<Rightarrow> 'w memory \<Rightarrow> bool" where
  "mem_laws E M \<longleftrightarrow>
     (\<forall>a bs w x. peek M (poke M a bs w) x =
        (if a \<le> x \<and> x < a + length bs then bs ! (x - a) else peek M w x)) \<and>
     (\<forall>a bs w. is_typed E (poke M a bs w) = is_typed E w) \<and>
     (\<forall>a bs w. typed_buffer E (poke M a bs w) = typed_buffer E w) \<and>
     (\<forall>a bs w. buffer_data E (poke M a bs w) = buffer_data E w)"

definition bytes_at :: "'w memory \<Rightarrow> 'w \<Rightarrow> addr \<Rightarrow> nat \<Rightarrow> u8 list" where
  "bytes_at M w a n = map (\<lambda>i. peek M w (a + i)) [0..<n]"

lemma length_bytes_at [simp]: "length (bytes_at M w a n) = n"
  by (simp add: bytes_at_def)

lemma peek_poke: "mem_laws E M \<Longrightarrow>
    peek M (poke M a bs w) x = (if a \<le> x \<and> x < a + length bs then bs ! (x - a) else peek M w x)"
  by (simp add: mem_laws_def)

lemma view_poke:
  "mem_laws E M \<Longrightarrow> JABCViewOf E v w = (r, w') \<Longrightarrow>
   JABCViewOf E v (poke M a bs w) = (r, poke M a bs w)"
  by (auto simp: mem_laws_def JABCViewOf_def Let_def split: sum.splits prod.splits if_splits)

lemma bytes_at_inside:
  assumes "mem_laws E M" and "a \<le> x" and "x + n \<le> a + length bs"
  shows "bytes_at M (poke M a bs w) x n = take n (drop (x - a) bs)"
proof (rule nth_equalityI)
  fix i assume "i < length (bytes_at M (poke M a bs w) x n)"
  then show "bytes_at M (poke M a bs w) x n ! i = take n (drop (x - a) bs) ! i"
    using assms by (simp add: bytes_at_def peek_poke [OF assms(1)] add.commute)
qed (use assms in simp)

lemma bytes_at_outside:
  "mem_laws E M \<Longrightarrow> x + n \<le> a \<or> a + length bs \<le> x \<Longrightarrow>
   bytes_at M (poke M a bs w) x n = bytes_at M w x n"
  by (auto simp: bytes_at_def peek_poke)

section \<open>Cells\<close>

record 'r cell =
  csize :: nat
  cdec :: "u8 list \<Rightarrow> 'r"
  cenc :: "'r \<Rightarrow> u8 list"
  cok :: "'r \<Rightarrow> bool"

definition cell_at :: "'r cell \<Rightarrow> 'w memory \<Rightarrow> 'w \<Rightarrow> addr \<Rightarrow> nat \<Rightarrow> 'r" where
  "cell_at C M w a i = cdec C (bytes_at M w (a + i * csize C) (csize C))"

definition cells :: "'r cell \<Rightarrow> 'w memory \<Rightarrow> 'w \<Rightarrow> addr \<Rightarrow> nat \<Rightarrow> 'r list" where
  "cells C M w a n = map (cell_at C M w a) [0..<n]"

definition put_cells :: "'r cell \<Rightarrow> 'w memory \<Rightarrow> addr \<Rightarrow> 'r list \<Rightarrow> 'w \<Rightarrow> 'w" where
  "put_cells C M a rs = poke M a (concat (map (cenc C) rs))"

lemma length_cells [simp]: "length (cells C M w a n) = n"
  by (simp add: cells_def)

lemma cells_Nil [simp]: "cells C M w a n = [] \<longleftrightarrow> n = 0"
  by (simp add: cells_def)

lemma nth_cells [simp]: "i < n \<Longrightarrow> cells C M w a n ! i = cell_at C M w a i"
  by (simp add: cells_def)

lemma take_cells: "m \<le> n \<Longrightarrow> take m (cells C M w a n) = cells C M w a m"
  by (rule nth_equalityI) auto

lemma cells_Suc: "cells C M w a (Suc n) = cells C M w a n @ [cell_at C M w a n]"
  by (simp add: cells_def)

text \<open>What every lane's C type promises: its values and its bytes are the same thing.\<close>

locale lane_codec =
  fixes C :: "'r cell"
  assumes size_pos: "0 < csize C"
    and enc_size: "cok C r \<Longrightarrow> length (cenc C r) = csize C"
    and dec_enc: "cok C r \<Longrightarrow> cdec C (cenc C r) = r"
    and dec_ok: "length bs = csize C \<Longrightarrow> cok C (cdec C bs)"
    and enc_dec: "length bs = csize C \<Longrightarrow> cenc C (cdec C bs) = bs"
begin

lemma cell_at_ok: "cok C (cell_at C M w a i)"
  by (simp add: cell_at_def dec_ok)

lemma cells_ok: "list_all (cok C) (cells C M w a n)"
  by (simp add: cells_def list_all_iff cell_at_ok)

lemma encs_size: "list_all (cok C) rs \<Longrightarrow> length (concat (map (cenc C) rs)) = length rs * csize C"
  by (induction rs) (auto simp: enc_size)

lemma nth_encs:
  "list_all (cok C) rs \<Longrightarrow> i < length rs \<Longrightarrow>
   take (csize C) (drop (i * csize C) (concat (map (cenc C) rs))) = cenc C (rs ! i)"
proof (induction rs arbitrary: i)
  case (Cons r rs)
  then show ?case by (cases i) (auto simp: enc_size)
qed simp

lemma cells_put:
  assumes "mem_laws E M" and "list_all (cok C) rs"
  shows "cells C M (put_cells C M a rs w) a (length rs) = rs"
proof (rule nth_equalityI)
  fix i assume "i < length (cells C M (put_cells C M a rs w) a (length rs))"
  then have i: "i < length rs" by simp
  then have "Suc i * csize C \<le> length rs * csize C" by (intro mult_le_mono1) simp
  then have "bytes_at M (put_cells C M a rs w) (a + i * csize C) (csize C) = cenc C (rs ! i)"
    unfolding put_cells_def
    by (subst bytes_at_inside [OF assms(1)])
       (use assms(2) i in \<open>simp_all add: encs_size nth_encs\<close>)
  moreover have "cok C (rs ! i)" using assms(2) i by (simp add: list_all_iff)
  ultimately show "cells C M (put_cells C M a rs w) a (length rs) ! i = rs ! i"
    using i by (simp add: cell_at_def dec_enc)
qed simp

lemma cells_put_other:
  assumes "mem_laws E M" and "list_all (cok C) rs"
    and "x + n * csize C \<le> a \<or> a + length rs * csize C \<le> x"
  shows "cells C M (put_cells C M a rs w) x n = cells C M w x n"
proof (rule nth_equalityI)
  fix i assume "i < length (cells C M (put_cells C M a rs w) x n)"
  then have "i < n" by simp
  then have "Suc i * csize C \<le> n * csize C" by (intro mult_le_mono1) simp
  then have "x + i * csize C + csize C \<le> a \<or> a + length rs * csize C \<le> x + i * csize C"
    using assms(3) by auto
  then have "bytes_at M (put_cells C M a rs w) (x + i * csize C) (csize C) =
      bytes_at M w (x + i * csize C) (csize C)"
    unfolding put_cells_def by (intro bytes_at_outside [OF assms(1)]) (simp add: encs_size assms(2))
  then show "cells C M (put_cells C M a rs w) x n ! i = cells C M w x n ! i"
    using \<open>i < n\<close> by (simp add: cell_at_def)
qed simp

lemma peek_put_other:
  "mem_laws E M \<Longrightarrow> list_all (cok C) rs \<Longrightarrow> x < a \<or> a + length rs * csize C \<le> x \<Longrightarrow>
   peek M (put_cells C M a rs w) x = peek M w x"
  by (auto simp: put_cells_def peek_poke encs_size)

end

section \<open>The ten lanes\<close>

text \<open>Scalars (\<open>u8\<close> to \<open>u64\<close>, \<open>wh64\<close>), key-value pairs, and the hashes as blobs.\<close>

definition word_cell :: "('a::len) word cell" where
  "word_cell = \<lparr>csize = LENGTH('a) div 8, cdec = (\<lambda>bs. of_nat (le_nat bs)),
     cenc = (\<lambda>x. le_bytes (LENGTH('a) div 8) (unat x)), cok = (\<lambda>_. True)\<rparr>"

definition pair_cell :: "'k cell \<Rightarrow> 'v cell \<Rightarrow> ('k \<times> 'v) cell" where
  "pair_cell K V = \<lparr>csize = csize K + csize V,
     cdec = (\<lambda>bs. (cdec K (take (csize K) bs), cdec V (drop (csize K) bs))),
     cenc = (\<lambda>(k, v). cenc K k @ cenc V v), cok = (\<lambda>(k, v). cok K k \<and> cok V v)\<rparr>"

definition blob_cell :: "nat \<Rightarrow> u8 list cell" where
  "blob_cell n = \<lparr>csize = n, cdec = (\<lambda>bs. bs), cenc = (\<lambda>bs. bs), cok = (\<lambda>bs. length bs = n)\<rparr>"

abbreviation u8_cell :: "u8 cell" where "u8_cell \<equiv> word_cell"
abbreviation u16_cell :: "u16 cell" where "u16_cell \<equiv> word_cell"
abbreviation u32_cell :: "u32 cell" where "u32_cell \<equiv> word_cell"
abbreviation u64_cell :: "u64 cell" where "u64_cell \<equiv> word_cell"
abbreviation kv32_cell :: "(u32 \<times> u32) cell" where "kv32_cell \<equiv> pair_cell word_cell word_cell"
abbreviation kv64_cell :: "(u64 \<times> u64) cell" where "kv64_cell \<equiv> pair_cell word_cell word_cell"
abbreviation sha1_cell :: "u8 list cell" where "sha1_cell \<equiv> blob_cell 20"
abbreviation sha256_cell :: "u8 list cell" where "sha256_cell \<equiv> blob_cell 32"

lemma word_codec:
  assumes "LENGTH('a::len) = 8 * k" and "0 < k"
  shows "lane_codec (word_cell :: 'a word cell)"
proof
  have len: "(256::nat) ^ k = 2 ^ LENGTH('a)" by (simp add: assms(1) power_mult)
  have lenk: "LENGTH('a) div 8 = k" using assms(1) by simp
  show "0 < csize (word_cell :: 'a word cell)" using assms by (simp add: word_cell_def lenk)
  fix r :: "'a word" and bs :: "u8 list"
  show "length (cenc word_cell r) = csize (word_cell :: 'a word cell)" by (simp add: word_cell_def)
  have "unat r < 256 ^ k" using unat_less_exp [of r] len by simp
  then show "cdec word_cell (cenc word_cell r) = r"
    by (simp add: word_cell_def lenk le_nat_round)
  show "cok word_cell (cdec word_cell bs :: 'a word)" by (simp add: word_cell_def)
  assume l: "length bs = csize (word_cell :: 'a word cell)"
  then have "length bs = k" by (simp add: word_cell_def lenk)
  then have "unat (of_nat (le_nat bs) :: 'a word) = le_nat bs"
    using le_nat_less [of bs] len by (simp add: unat_of_nat)
  then show "cenc word_cell (cdec word_cell bs :: 'a word) = bs"
    using le_bytes_le_nat [of bs] \<open>length bs = k\<close> by (simp add: word_cell_def lenk)
qed

lemma pair_codec: "lane_codec K \<Longrightarrow> lane_codec V \<Longrightarrow> lane_codec (pair_cell K V)"
  unfolding lane_codec_def by (fastforce simp: pair_cell_def)

interpretation u8_lane: lane_codec u8_cell by (rule word_codec [of 1]) simp_all
interpretation u16_lane: lane_codec u16_cell by (rule word_codec [of 2]) simp_all
interpretation u32_lane: lane_codec u32_cell by (rule word_codec [of 4]) simp_all
interpretation u64_lane: lane_codec u64_cell by (rule word_codec [of 8]) simp_all
interpretation kv32_lane: lane_codec kv32_cell
  by (rule pair_codec [OF u32_lane.lane_codec_axioms u32_lane.lane_codec_axioms])
interpretation kv64_lane: lane_codec kv64_cell
  by (rule pair_codec [OF u64_lane.lane_codec_axioms u64_lane.lane_codec_axioms])
interpretation sha1_lane: lane_codec sha1_cell by standard (simp_all add: blob_cell_def)
interpretation sha256_lane: lane_codec sha256_cell by standard (simp_all add: blob_cell_def)

section \<open>Reading an element from the arguments\<close>

text \<open>
  The marshalling shapes \<open>heap.c\<close> and \<open>hash.c\<close> share: a number that is cast with no range check, a
  Number or BigInt modulo \<open>2 ^ 64\<close>, the bytes of a \<open>Uint8Array\<close> of exactly the element's size.
\<close>

definition JABCNumOf :: "'w engine \<Rightarrow> jsval \<Rightarrow> ('w, jsnum) js" where
  "JABCNumOf E arg = jbind (JABCScalar arg) (\<lambda>_. to_number E arg)"

definition num_cast :: "jsnum \<Rightarrow> ('w, ('a::len) word) js" where
  "num_cast d = jbind (cast_or_undef 0 (2 ^ LENGTH('a) - 1) d) (\<lambda>t. jret (word_of_int t))"

definition rd_num :: "'w engine \<Rightarrow> nat \<Rightarrow> jsval list \<Rightarrow> ('w, ('a::len) word) js" where
  "rd_num E i argv = jbind (JABCNumOf E (argv ! i)) num_cast"

definition rd_u64 :: "'w engine \<Rightarrow> nat \<Rightarrow> jsval list \<Rightarrow> ('w, u64) js" where
  "rd_u64 E i argv = JABCBigU64Of E (argv ! i)"

definition rd_two :: "('w, 'k) js \<Rightarrow> ('w, 'v) js \<Rightarrow> ('w, 'k \<times> 'v) js" where
  "rd_two rk rv = jbind rk (\<lambda>k. jbind rv (\<lambda>v. jret (k, v)))"

definition rd_blob :: "'w engine \<Rightarrow> abc \<Rightarrow> 'w memory \<Rightarrow> string \<Rightarrow> nat \<Rightarrow> nat \<Rightarrow> jsval list \<Rightarrow>
    ('w, u8 list) js" where
  "rd_blob E A M msg n i argv =
     jbind (JABCDataOf E A (argv ! i)) (\<lambda>bb.
       if data_len bb \<noteq> n then jthrow (ThrowError msg)
       else jget (\<lambda>w. bytes_at M w (b1 bb) n))"

definition wr_num :: "('a::len) word \<Rightarrow> jsval" where
  "wr_num v = JNum (js_int (uint v))"

text \<open>The gate of a lane array: base pointer and capacity in whole elements (heap.c, hit.c).\<close>

definition JABCLaneArr :: "'w engine \<Rightarrow> abc \<Rightarrow> nat \<Rightarrow> jsval \<Rightarrow> ('w, addr \<times> nat) js" where
  "JABCLaneArr E A esz arg = jbind (JABCDataOf E A arg) (\<lambda>b. jret (b1 b, data_len b div esz))"

lemma JABCNumOf_quiet [quiet_intros]: "prim_quiet E \<Longrightarrow> quiet (JABCNumOf E v)"
  by (cases "is_obj v")
    (auto simp: JABCNumOf_def JABCScalar_def intro!: quiet_intros dest: prim_quiet_number)

lemma cast_or_undef_quiet [quiet_intros]: "quiet (cast_or_undef lo hi d)"
  by (auto simp: cast_or_undef_def split: option.splits intro!: quiet_intros)

lemma rd_quiet [quiet_intros]:
  "prim_quiet E \<Longrightarrow> quiet (rd_num E i argv)"
  "prim_quiet E \<Longrightarrow> quiet (rd_u64 E i argv)"
  "quiet rk \<Longrightarrow> quiet rv \<Longrightarrow> quiet (rd_two rk rv)"
  "quiet (rd_blob E A M msg n i argv)"
  unfolding rd_num_def rd_u64_def rd_two_def rd_blob_def num_cast_def
  by (auto intro!: quiet_intros)

lemma JABCLaneArr_quiet [quiet_intros]: "quiet (JABCLaneArr E A esz arg)"
  unfolding JABCLaneArr_def by (intro quiet_intros)

lemma JABCLaneArr_Inr:
  assumes "abc_laws A"
  shows "JABCLaneArr E A esz arg w = (Inr (base, cap), w') \<longleftrightarrow>
    (\<exists>len. JABCViewOf E arg w = (Inr (base, len), w') \<and> cap = len div esz \<and>
       u8bOK A \<lparr>b0 = base, b1 = base, b2 = base + len, b3 = base + len\<rparr>)"
  by (auto simp: JABCLaneArr_def jbind_eq_Inr JABCDataOf_Inr data_len_def)

section \<open>A concrete memory\<close>

text \<open>
  An engine over plain memory, for the closed instances: object \<open>k\<close> is the view \<open>vs ! k\<close>.
\<close>

definition ram_engine :: "(addr \<times> nat) list \<Rightarrow> (addr \<Rightarrow> u8) engine" where
  "ram_engine vs = \<lparr>
     is_typed = (\<lambda>s v. case v of JObj n \<Rightarrow> n < length vs | _ \<Rightarrow> False),
     typed_buffer = (\<lambda>s v. case v of JObj n \<Rightarrow> Inr (v, 0, snd (vs ! n)) | _ \<Rightarrow> Inl (ThrowError ''not a view'')),
     buffer_data = (\<lambda>s v. case v of JObj n \<Rightarrow> vs ! n | _ \<Rightarrow> (0, 0)),
     to_number = (\<lambda>v. jret (sample_number v)),
     to_int64 = (\<lambda>v. jret (case v of JBig i \<Rightarrow> i | _ \<Rightarrow> 0)),
     is_callable = (\<lambda>s v. True),
     get_prop = (\<lambda>v p. jret (JNum (js_nat (length vs)))),
     set_prop = (\<lambda>v p x. jret ()),
     is_array = (\<lambda>s v. is_obj v),
     get_length = (\<lambda>v. jret (int (length vs))),
     get_index = (\<lambda>v i. jret (JObj i)),
     call_fn = (\<lambda>f vs. jret JUndef),
     new_view = (\<lambda>b off n. jret b),
     new_external = (\<lambda>p n f. jret (JObj 0)),
     detach_buffer = (\<lambda>v s. s) \<rparr>"

definition ram :: "(addr \<Rightarrow> u8) memory" where
  "ram = \<lparr>peek = (\<lambda>s. s),
     poke = (\<lambda>a bs s x. if a \<le> x \<and> x < a + length bs then bs ! (x - a) else s x)\<rparr>"

lemma ram_laws: "mem_laws (ram_engine vs) ram"
  by (simp add: mem_laws_def ram_engine_def ram_def)

lemma ram_prim_quiet: "prim_quiet (ram_engine vs)"
  by (simp add: prim_quiet_def ram_engine_def quiet_jret)

lemma ram_num_faithful: "num_faithful (ram_engine vs)"
  by (simp add: num_faithful_def ram_engine_def sample_number_def)

lemma ram_view: "n < length vs \<Longrightarrow> vs ! n = (p, k) \<Longrightarrow> p \<noteq> 0 \<Longrightarrow>
    JABCViewOf (ram_engine vs) (JObj n) w = (Inr (p, k), w)"
  by (simp add: JABCViewOf_def ram_engine_def)

end
