(* ===== verification/Heap.thy ===== *)
theory Heap
  imports Lanes Triple JsLang
begin

text \<open>
  \<open>heap.c\<close>: a binary heap in the first \<open>size\<close> elements of a typed array, pushed, popped and fed in
  bulk, and the heap container of \<open>cont.c\<close>, which keeps the size as the array buffer's
  \<open>watermark\<close>.  The sift itself is libabc's \<open>HEAPx.h\<close>, a parameter with the two laws of a heap.
\<close>

section \<open>libabc's heap\<close>

text \<open>
  \<open>HPush\<close>: the elements of DATA, the room in IDLE and the new element give a code and the elements
  afterwards.  \<open>HPop\<close>: a code, the element taken out, and what the cells hold then, of which the
  last one is no longer in the heap.
\<close>

record 'r heap_ops =
  HPush :: "'r list \<Rightarrow> nat \<Rightarrow> 'r \<Rightarrow> ok64 \<times> 'r list"
  HPop :: "'r list \<Rightarrow> ok64 \<times> 'r \<times> 'r list"

text \<open>A binary heap in an array: no element is before its parent in the lane's order.\<close>

definition is_heap :: "('r \<Rightarrow> 'r \<Rightarrow> bool) \<Rightarrow> 'r list \<Rightarrow> bool" where
  "is_heap Z xs = (\<forall>i < length xs. 0 < i \<longrightarrow> \<not> Z (xs ! i) (xs ! ((i - 1) div 2)))"

definition heap_laws :: "('r \<Rightarrow> 'r \<Rightarrow> bool) \<Rightarrow> 'r heap_ops \<Rightarrow> bool" where
  "heap_laws Z H \<longleftrightarrow>
     (\<forall>xs room v. 0 < room \<longrightarrow> (\<exists>ys. HPush H xs room v = (OK, ys) \<and>
        mset ys = add_mset v (mset xs) \<and> (is_heap Z xs \<longrightarrow> is_heap Z ys))) \<and>
     (\<forall>xs. xs \<noteq> [] \<longrightarrow> (\<exists>v ys z. HPop H xs = (OK, v, ys @ [z]) \<and> z \<in> set xs \<and>
        mset xs = add_mset v (mset ys) \<and>
        (is_heap Z xs \<longrightarrow> is_heap Z ys \<and> (\<forall>x \<in> set xs. \<not> Z x v))))"

lemma heap_laws_push:
  "heap_laws Z H \<Longrightarrow> 0 < room \<Longrightarrow> \<exists>ys. HPush H xs room v = (OK, ys) \<and>
     mset ys = add_mset v (mset xs) \<and> (is_heap Z xs \<longrightarrow> is_heap Z ys)"
  by (simp add: heap_laws_def)

lemma heap_laws_pop:
  "heap_laws Z H \<Longrightarrow> xs \<noteq> [] \<Longrightarrow> \<exists>v ys z. HPop H xs = (OK, v, ys @ [z]) \<and> z \<in> set xs \<and>
     mset xs = add_mset v (mset ys) \<and>
     (is_heap Z xs \<longrightarrow> is_heap Z ys \<and> (\<forall>x \<in> set xs. \<not> Z x v))"
  by (simp add: heap_laws_def)

lemma is_heap_Nil [simp]: "is_heap Z []"
  by (simp add: is_heap_def)

section \<open>A lane's marshalling\<close>

record ('w, 'r) hlane =
  hname :: string
  hcell :: "'r cell"
  NPUSH :: nat
  RDV :: "jsval list \<Rightarrow> ('w, 'r) js"
  WRV :: "'r \<Rightarrow> jout"

definition HEAP_NUM :: "'w engine \<Rightarrow> string \<Rightarrow> ('w, ('a::len) word) hlane" where
  "HEAP_NUM E nm = \<lparr>hname = nm, hcell = word_cell, NPUSH = 3,
     RDV = rd_num E 2, WRV = (\<lambda>v. JVal (wr_num v))\<rparr>"

definition HEAP_U64 :: "'w engine \<Rightarrow> string \<Rightarrow> ('w, u64) hlane" where
  "HEAP_U64 E nm = \<lparr>hname = nm, hcell = word_cell, NPUSH = 3,
     RDV = rd_u64 E 2, WRV = (\<lambda>v. JVal (JABCBigU64 v))\<rparr>"

definition HEAP_PN :: "'w engine \<Rightarrow> string \<Rightarrow> ('w, u32 \<times> u32) hlane" where
  "HEAP_PN E nm = \<lparr>hname = nm, hcell = pair_cell word_cell word_cell, NPUSH = 4,
     RDV = (\<lambda>argv. jbind (JABCNumOf E (argv ! 2)) (\<lambda>k. jbind (JABCNumOf E (argv ! 3)) (\<lambda>v.
             rd_two (num_cast k) (num_cast v)))),
     WRV = (\<lambda>(k, v). JArr [wr_num k, wr_num v])\<rparr>"

definition HEAP_PB :: "'w engine \<Rightarrow> string \<Rightarrow> ('w, u64 \<times> u64) hlane" where
  "HEAP_PB E nm = \<lparr>hname = nm, hcell = pair_cell word_cell word_cell, NPUSH = 4,
     RDV = (\<lambda>argv. rd_two (rd_u64 E 2 argv) (rd_u64 E 3 argv)),
     WRV = (\<lambda>(k, v). JArr [JABCBigU64 k, JABCBigU64 v])\<rparr>"

definition HEAP_BLOB :: "'w engine \<Rightarrow> abc \<Rightarrow> 'w memory \<Rightarrow> string \<Rightarrow> nat \<Rightarrow> ('w, u8 list) hlane" where
  "HEAP_BLOB E A M nm n = \<lparr>hname = nm, hcell = blob_cell n, NPUSH = 3,
     RDV = rd_blob E A M ''heap: blob size'' n 2, WRV = JBytes\<rparr>"

definition heap_usage :: "('w, 'r) hlane \<Rightarrow> string \<Rightarrow> string" where
  "heap_usage L rest = ''_heap_'' @ hname L @ rest"

section \<open>The leaves\<close>

text \<open>One push or pop of libabc's over the buffer \<open>{base, base, base + n, base + cap}\<close>.\<close>

definition heap_push1 :: "'w memory \<Rightarrow> 'r cell \<Rightarrow> 'r heap_ops \<Rightarrow> addr \<Rightarrow> nat \<Rightarrow> nat \<Rightarrow> 'r \<Rightarrow> ('w, nat) js" where
  "heap_push1 M C H base cap n v = (\<lambda>w.
     case HPush H (cells C M w base n) (cap - n) v of (o', rs) \<Rightarrow>
       if o' \<noteq> OK then (Inl (ThrowError ''heap: push''), put_cells C M base rs w)
       else (Inr (length rs), put_cells C M base rs w))"

definition heap_pop1 :: "'w memory \<Rightarrow> 'r cell \<Rightarrow> 'r heap_ops \<Rightarrow> addr \<Rightarrow> nat \<Rightarrow> ('w, 'r option) js" where
  "heap_pop1 M C H base n = (\<lambda>w.
     case HPop H (cells C M w base n) of (o', v, rs) \<Rightarrow>
       (Inr (if o' \<noteq> OK then None else Some v), put_cells C M base rs w))"

definition jheap_push :: "'w engine \<Rightarrow> abc \<Rightarrow> 'w memory \<Rightarrow> ('w, 'r) hlane \<Rightarrow> 'r heap_ops \<Rightarrow> jsval list \<Rightarrow>
    ('w, jout) js" where
  "jheap_push E A M L H argv =
     need (NPUSH L) (heap_usage L ''_push(arr, size, v[, val])'') argv
     (jbind (JABCLaneArr E A (csize (hcell L)) (argv ! 0)) (\<lambda>(base, cap).
      jbind (JABCu64Of E (argv ! 1)) (\<lambda>n.
      if cap \<le> unat n then jthrow (ThrowError ''heap: full'')
      else jbind (RDV L argv) (\<lambda>v.
           jbind (heap_push1 M (hcell L) H base cap (unat n) v) js_num))))"

definition jheap_pop :: "'w engine \<Rightarrow> abc \<Rightarrow> 'w memory \<Rightarrow> ('w, 'r) hlane \<Rightarrow> 'r heap_ops \<Rightarrow> jsval list \<Rightarrow>
    ('w, jout) js" where
  "jheap_pop E A M L H argv =
     need 2 (heap_usage L ''_pop(arr, size)'') argv
     (jbind (JABCLaneArr E A (csize (hcell L)) (argv ! 0)) (\<lambda>(base, cap).
      jbind (JABCu64Of E (argv ! 1)) (\<lambda>n.
      if cap < unat n then jthrow (ThrowError ''heap: the watermark is past the end'')
      else if unat n = 0 then js_undef
      else jbind (heap_pop1 M (hcell L) H base (unat n)) (\<lambda>r.
           case r of None \<Rightarrow> js_undef | Some v \<Rightarrow> jret (WRV L v)))))"

text \<open>The loop of \<open>feed\<close>: element \<open>i\<close> of the entries is read when its turn comes.\<close>

primrec feed_loop :: "'w memory \<Rightarrow> 'r cell \<Rightarrow> 'r heap_ops \<Rightarrow> addr \<Rightarrow> nat \<Rightarrow> addr \<Rightarrow> nat \<Rightarrow> nat \<Rightarrow> nat \<Rightarrow>
    ('w, nat) js" where
  "feed_loop M C H base cap e i 0 n = jret n"
| "feed_loop M C H base cap e i (Suc k) n =
     jbind (jget (\<lambda>w. cell_at C M w e i)) (\<lambda>v.
     jbind (heap_push1 M C H base cap n v) (\<lambda>n'. feed_loop M C H base cap e (Suc i) k n'))"

definition jheap_feed :: "'w engine \<Rightarrow> abc \<Rightarrow> 'w memory \<Rightarrow> ('w, 'r) hlane \<Rightarrow> 'r heap_ops \<Rightarrow> jsval list \<Rightarrow>
    ('w, jout) js" where
  "jheap_feed E A M L H argv =
     need 3 ''heap: feed argc'' argv
     (jbind (JABCLaneArr E A (csize (hcell L)) (argv ! 0)) (\<lambda>(base, cap).
      jbind (JABCu64Of E (argv ! 1)) (\<lambda>n.
      jbind (JABCDataOf E A (argv ! 2)) (\<lambda>ebb.
      let sz = csize (hcell L); m = data_len ebb div sz in
      if data_len ebb \<noteq> m * sz then jthrow (ThrowError ''heap: feed align'')
      else if cap < unat n \<or> cap - unat n < m then jthrow (ThrowError ''heap: full'')
      else if base < b2 ebb \<and> b1 ebb < base + cap * sz then jthrow (ThrowError ''heap: feed overlap'')
      else jbind (feed_loop M (hcell L) H base cap (b1 ebb) 0 m (unat n)) js_num))))"

section \<open>The container\<close>

text \<open>
  The heap prototype of \<open>cont.c\<close>: a container is its typed array and the \<open>watermark\<close> property of
  that array's buffer, the second part of the state.
\<close>

definition on_fst :: "('w, 'a) js \<Rightarrow> ('w \<times> 'x, 'a) js" where
  "on_fst m = (\<lambda>(w, x). case m w of (r, w') \<Rightarrow> (r, (w', x)))"

definition heap_box_push :: "'w engine \<Rightarrow> abc \<Rightarrow> 'w memory \<Rightarrow> ('w, 'r) hlane \<Rightarrow> 'r heap_ops \<Rightarrow> jsval \<Rightarrow>
    jsval list \<Rightarrow> ('w \<times> jsval, unit) js" where
  "heap_box_push E A M L H arr vs =
     jbind (jget snd) (\<lambda>wm.
     jbind (on_fst (jheap_push E A M L H (arr # wm # vs))) (\<lambda>r.
     jput (\<lambda>(w, x). (w, case r of JVal v \<Rightarrow> v | _ \<Rightarrow> JUndef))))"

definition heap_box_feed :: "'w engine \<Rightarrow> abc \<Rightarrow> 'w memory \<Rightarrow> ('w, 'r) hlane \<Rightarrow> 'r heap_ops \<Rightarrow> jsval \<Rightarrow>
    jsval \<Rightarrow> ('w \<times> jsval, unit) js" where
  "heap_box_feed E A M L H arr v =
     jbind (jget snd) (\<lambda>wm.
     jbind (on_fst (jheap_feed E A M L H [arr, wm, v])) (\<lambda>r.
     jput (\<lambda>(w, x). (w, case r of JVal v \<Rightarrow> v | _ \<Rightarrow> JUndef))))"

definition heap_box_pop :: "'w engine \<Rightarrow> abc \<Rightarrow> 'w memory \<Rightarrow> ('w, 'r) hlane \<Rightarrow> 'r heap_ops \<Rightarrow> jsval \<Rightarrow>
    ('w \<times> jsval, jout) js" where
  "heap_box_pop E A M L H arr =
     jbind (jget snd) (\<lambda>wm.
     if wm = JNum (Fin 0) then js_undef
     else jbind (on_fst (jheap_pop E A M L H [arr, wm])) (\<lambda>r.
          jbind (jget snd) (\<lambda>wm'.
          jbind (on_fst (to_number E wm')) (\<lambda>d.
          jbind (jput (\<lambda>(w, x). (w, JNum (num_sub d (Fin 1))))) (\<lambda>_. jret r)))))"

definition heap_box_size :: "('w \<times> jsval, jsval) js" where
  "heap_box_size = jget snd"

text \<open>Take \<open>k\<close> elements out, one call after another.\<close>

primrec drain_n :: "('s, 'v) js \<Rightarrow> nat \<Rightarrow> ('s, 'v list) js" where
  "drain_n pop 0 = jret []"
| "drain_n pop (Suc k) = jbind pop (\<lambda>v. jbind (drain_n pop k) (\<lambda>vs. jret (v # vs)))"

section \<open>A store that gives its least element\<close>

locale min_store =
  fixes inv :: "'s \<Rightarrow> bool" and contents :: "'s \<Rightarrow> 'r multiset"
    and pop :: "('s, 'v) js" and out :: "'r \<Rightarrow> 'v" and Z :: "'r \<Rightarrow> 'r \<Rightarrow> bool"
  assumes pop_least: "inv s \<Longrightarrow> contents s \<noteq> {#} \<Longrightarrow>
    \<exists>x s'. pop s = (Inr (out x), s') \<and> inv s' \<and> contents s = add_mset x (contents s') \<and>
      (\<forall>y \<in># contents s. \<not> Z y x)"
begin

lemma drain_sorts:
  "inv s \<Longrightarrow> size (contents s) = k \<Longrightarrow>
   \<exists>xs s'. drain_n pop k s = (Inr (map out xs), s') \<and> inv s' \<and> contents s' = {#} \<and>
     mset xs = contents s \<and> sorted_wrt (\<lambda>x y. \<not> Z y x) xs"
proof (induction k arbitrary: s)
  case 0
  then show ?case by (intro exI [of _ "[]"]) simp
next
  case (Suc k)
  then have "contents s \<noteq> {#}" by auto
  with pop_least Suc.prems(1) obtain x s' where
    p: "pop s = (Inr (out x), s')" "inv s'" "contents s = add_mset x (contents s')"
      "\<forall>y \<in># contents s. \<not> Z y x"
    by blast
  with Suc.prems(2) Suc.IH [of s'] obtain xs s2 where
    d: "drain_n pop k s' = (Inr (map out xs), s2)" "inv s2" "contents s2 = {#}"
      "mset xs = contents s'" "sorted_wrt (\<lambda>x y. \<not> Z y x) xs"
    by auto
  have "\<forall>y \<in> set xs. \<not> Z y x"
    using p(3,4) d(4) by (metis set_mset_mset insert_iff set_mset_add_mset_insert)
  with p d show ?case
    by (intro exI [of _ "x # xs"] exI [of _ s2]) simp
qed

end

section \<open>What the leaves do to memory\<close>

text \<open>The world after a leaf agrees with the one before outside a region, and shows the same views.\<close>

definition same_outside :: "'w engine \<Rightarrow> 'w memory \<Rightarrow> addr \<Rightarrow> addr \<Rightarrow> 'w \<Rightarrow> 'w \<Rightarrow> bool" where
  "same_outside E M lo hi w w' \<longleftrightarrow>
     (\<forall>x. x < lo \<or> hi \<le> x \<longrightarrow> peek M w' x = peek M w x) \<and>
     (\<forall>v r. JABCViewOf E v w = (r, w) \<longrightarrow> JABCViewOf E v w' = (r, w'))"

lemma same_outside_refl [simp]: "same_outside E M lo hi w w"
  by (simp add: same_outside_def)

lemma same_outside_trans:
  "same_outside E M lo hi w w1 \<Longrightarrow> same_outside E M lo hi w1 w2 \<Longrightarrow> same_outside E M lo hi w w2"
  by (simp add: same_outside_def)

lemma same_outside_view:
  "same_outside E M lo hi w w' \<Longrightarrow> JABCViewOf E v w = (r, w) \<Longrightarrow> JABCViewOf E v w' = (r, w')"
  by (simp add: same_outside_def)

lemma same_outside_wider:
  "same_outside E M lo hi w w' \<Longrightarrow> hi \<le> hi' \<Longrightarrow> same_outside E M lo hi' w w'"
  by (simp add: same_outside_def)

lemma same_outside_put:
  assumes "lane_codec C" and "mem_laws E M" and "list_all (cok C) rs"
    and "a + length rs * csize C \<le> hi"
  shows "same_outside E M a hi w (put_cells C M a rs w)"
  unfolding same_outside_def
  using assms lane_codec.peek_put_other [OF assms(1,2,3), of _ a w]
  by (auto simp: put_cells_def intro: view_poke)

lemma same_outside_cell:
  assumes "same_outside E M lo hi w w'" and "a + Suc i * csize C \<le> lo \<or> hi \<le> a + i * csize C"
  shows "cell_at C M w' a i = cell_at C M w a i"
proof -
  have "bytes_at M w' (a + i * csize C) (csize C) = bytes_at M w (a + i * csize C) (csize C)"
    using assms by (auto simp: bytes_at_def same_outside_def)
  then show ?thesis by (simp add: cell_at_def)
qed

lemma cok_mset:
  "list_all (cok C) xs \<Longrightarrow> cok C v \<Longrightarrow> mset ys = add_mset v (mset xs) \<Longrightarrow> list_all (cok C) ys"
  by (metis list_all_iff set_mset_mset insert_iff set_mset_add_mset_insert)

lemma heap_push1_ok:
  assumes "lane_codec C" and "mem_laws E M" and "heap_laws Z H" and "n < cap" and "cok C v"
  shows "\<exists>w'. heap_push1 M C H base cap n v w = (Inr (Suc n), w') \<and>
    mset (cells C M w' base (Suc n)) = add_mset v (mset (cells C M w base n)) \<and>
    (is_heap Z (cells C M w base n) \<longrightarrow> is_heap Z (cells C M w' base (Suc n))) \<and>
    same_outside E M base (base + cap * csize C) w w'"
proof -
  note codec = lane_codec.cells_ok [OF assms(1)] lane_codec.cells_put [OF assms(1,2)]
  let ?xs = "cells C M w base n"
  obtain ys where ys: "HPush H ?xs (cap - n) v = (OK, ys)" "mset ys = add_mset v (mset ?xs)"
    "is_heap Z ?xs \<longrightarrow> is_heap Z ys"
    using heap_laws_push [OF assms(3), of "cap - n" ?xs v] assms(4) by auto
  have len: "length ys = Suc n" using ys(2) by (metis length_cells size_add_mset size_mset)
  have ok: "list_all (cok C) ys" by (rule cok_mset [OF codec(1) assms(5) ys(2)])
  have "Suc n * csize C \<le> cap * csize C" using assms(4) by (intro mult_le_mono1) simp
  then have "same_outside E M base (base + cap * csize C) w (put_cells C M base ys w)"
    using len by (intro same_outside_put [OF assms(1,2) ok]) simp
  moreover have "cells C M (put_cells C M base ys w) base (Suc n) = ys"
    using codec(2) [OF ok] len by metis
  ultimately show ?thesis
    using ys len by (simp add: heap_push1_def)
qed

lemma heap_pop1_ok:
  assumes "lane_codec C" and "mem_laws E M" and "heap_laws Z H" and "n \<le> cap"
  shows "\<exists>v w'. heap_pop1 M C H base (Suc n) w = (Inr (Some v), w') \<and>
    mset (cells C M w base (Suc n)) = add_mset v (mset (cells C M w' base n)) \<and>
    (is_heap Z (cells C M w base (Suc n)) \<longrightarrow> is_heap Z (cells C M w' base n) \<and>
       (\<forall>x \<in> set (cells C M w base (Suc n)). \<not> Z x v)) \<and>
    same_outside E M base (base + Suc cap * csize C) w w'"
proof -
  note codec = lane_codec.cells_ok [OF assms(1)] lane_codec.cells_put [OF assms(1,2)]
  let ?xs = "cells C M w base (Suc n)"
  have "?xs \<noteq> []" by (metis length_0_conv length_cells Zero_not_Suc)
  then obtain v ys z where p: "HPop H ?xs = (OK, v, ys @ [z])" "z \<in> set ?xs"
    "mset ?xs = add_mset v (mset ys)"
    "is_heap Z ?xs \<longrightarrow> is_heap Z ys \<and> (\<forall>x \<in> set ?xs. \<not> Z x v)"
    using heap_laws_pop [OF assms(3), of ?xs] by blast
  have "size (mset ?xs) = size (add_mset v (mset ys))" using p(3) by simp
  then have len: "length (ys @ [z]) = Suc n" by simp
  have "set ys \<subseteq> set ?xs" using p(3) by (metis set_mset_mset set_mset_add_mset_insert subset_insertI)
  then have ok: "list_all (cok C) (ys @ [z])"
    using codec(1) [of M w base "Suc n"] p(2) by (auto simp: list_all_iff)
  have "Suc n * csize C \<le> Suc cap * csize C" using assms(4) by (intro mult_le_mono1) simp
  then have out: "same_outside E M base (base + Suc cap * csize C) w (put_cells C M base (ys @ [z]) w)"
    using len by (intro same_outside_put [OF assms(1,2) ok]) simp
  have "cells C M (put_cells C M base (ys @ [z]) w) base (Suc n) = ys @ [z]"
    using codec(2) [OF ok] len by metis
  then have "cells C M (put_cells C M base (ys @ [z]) w) base n = ys"
    using len by (simp add: cells_Suc)
  with p out show ?thesis
    by (intro exI [of _ v]) (simp add: heap_pop1_def)
qed

lemma feed_loop_ok:
  assumes "lane_codec C" and "mem_laws E M" and "heap_laws Z H"
  shows "n + k \<le> cap \<Longrightarrow> e + (i + k) * csize C \<le> base \<or> base + cap * csize C \<le> e \<Longrightarrow>
    \<exists>w'. feed_loop M C H base cap e i k n w = (Inr (n + k), w') \<and>
      mset (cells C M w' base (n + k)) =
        mset (cells C M w base n) + mset (map (cell_at C M w e) [i..<i + k]) \<and>
      (is_heap Z (cells C M w base n) \<longrightarrow> is_heap Z (cells C M w' base (n + k))) \<and>
      same_outside E M base (base + cap * csize C) w w'"
proof (induction k arbitrary: i n w)
  case 0
  then show ?case by simp
next
  case (Suc k)
  have "n < cap" using Suc.prems(1) by simp
  from heap_push1_ok [OF assms this lane_codec.cell_at_ok [OF assms(1), of M w e i],
      of base w]
  obtain w1 where p: "heap_push1 M C H base cap n (cell_at C M w e i) w = (Inr (Suc n), w1)"
    "mset (cells C M w1 base (Suc n)) = add_mset (cell_at C M w e i) (mset (cells C M w base n))"
    "is_heap Z (cells C M w base n) \<longrightarrow> is_heap Z (cells C M w1 base (Suc n))"
    "same_outside E M base (base + cap * csize C) w w1"
    by blast
  from Suc.prems Suc.IH [of "Suc n" "Suc i" w1] obtain w' where
    l: "feed_loop M C H base cap e (Suc i) k (Suc n) w1 = (Inr (Suc n + k), w')"
    "mset (cells C M w' base (Suc n + k)) =
       mset (cells C M w1 base (Suc n)) + mset (map (cell_at C M w1 e) [Suc i..<Suc i + k])"
    "is_heap Z (cells C M w1 base (Suc n)) \<longrightarrow> is_heap Z (cells C M w' base (Suc n + k))"
    "same_outside E M base (base + cap * csize C) w1 w'"
    by auto
  have "map (cell_at C M w1 e) [Suc i..<Suc i + k] = map (cell_at C M w e) [Suc i..<Suc i + k]"
  proof (rule map_cong [OF refl], rule same_outside_cell [OF p(4)])
    fix j assume "j \<in> set [Suc i..<Suc i + k]"
    then have "Suc j \<le> i + Suc k" by auto
    then have "Suc j * csize C \<le> (i + Suc k) * csize C" by (rule mult_le_mono1)
    with Suc.prems(2) show "e + Suc j * csize C \<le> base \<or> base + cap * csize C \<le> e + j * csize C"
      by (elim disjE) linarith+
  qed
  then have "map (cell_at C M w e) [i..<i + Suc k] =
      cell_at C M w e i # map (cell_at C M w1 e) [Suc i..<Suc i + k]"
    by (simp only: upt_conv_Cons [of i "i + Suc k"] list.map add_Suc_right add_Suc)
      (simp add: upt_conv_Cons del: upt_Suc)
  then have "mset (map (cell_at C M w e) [i..<i + Suc k]) =
      add_mset (cell_at C M w e i) (mset (map (cell_at C M w1 e) [Suc i..<Suc i + k]))"
    by (simp only: mset.simps)
  with p l same_outside_trans [OF p(4) l(4)] show ?case by simp
qed

section \<open>The leaves, exactly\<close>

text \<open>What the proofs about a lane ask of libabc, the engine and the memory.\<close>

definition heap_setting :: "'w engine \<Rightarrow> abc \<Rightarrow> 'w memory \<Rightarrow> 'r cell \<Rightarrow> ('r \<Rightarrow> 'r \<Rightarrow> bool) \<Rightarrow>
    'r heap_ops \<Rightarrow> bool" where
  "heap_setting E A M C Z H \<longleftrightarrow> prim_quiet E \<and> num_faithful E \<and> abc_laws A \<and> mem_laws E M \<and>
     lane_codec C \<and> heap_laws Z H"

lemma heap_feed_Inr:
  assumes set: "heap_setting E A M (hcell L) Z H"
    and ret: "jheap_feed E A M L H argv w = (Inr out, w')"
  shows "\<exists>base len e n m. JABCViewOf E (argv ! 0) w = (Inr (base, len), w) \<and>
    JABCViewOf E (argv ! 2) w = (Inr (e, m * csize (hcell L)), w) \<and>
    JABCu64Of E (argv ! 1) w = (Inr n, w) \<and> out = JVal (JNum (js_nat (unat n + m))) \<and>
    unat n + m \<le> len div csize (hcell L) \<and>
    mset (cells (hcell L) M w' base (unat n + m)) =
      mset (cells (hcell L) M w base (unat n)) + mset (cells (hcell L) M w e m) \<and>
    (is_heap Z (cells (hcell L) M w base (unat n)) \<longrightarrow>
       is_heap Z (cells (hcell L) M w' base (unat n + m))) \<and>
    same_outside E M base (base + len) w w'"
proof -
  let ?C = "hcell L"
  have laws: "prim_quiet E" "abc_laws A" "mem_laws E M" "lane_codec ?C" "heap_laws Z H"
    using set by (simp_all add: heap_setting_def)
  have pos: "0 < csize ?C" using laws(4) by (rule lane_codec.size_pos)
  from ret obtain base cap n b w1 w2 w3 where
      arr: "JABCLaneArr E A (csize ?C) (argv ! 0) w = (Inr (base, cap), w1)"
    and n: "JABCu64Of E (argv ! 1) w1 = (Inr n, w2)"
    and b: "JABCDataOf E A (argv ! 2) w2 = (Inr b, w3)"
    and whole: "data_len b = data_len b div csize ?C * csize ?C"
    and room: "\<not> cap < unat n" "\<not> cap - unat n < data_len b div csize ?C"
    and apart: "\<not> (base < b2 b \<and> b1 b < base + cap * csize ?C)"
    and loop: "jbind (feed_loop M ?C H base cap (b1 b) 0 (data_len b div csize ?C) (unat n)) js_num w3 =
        (Inr out, w')"
    by (auto simp: jheap_feed_def need_eq_Inr jbind_eq_Inr Let_def split: if_splits)
  have same: "w1 = w" "w2 = w1" "w3 = w2"
    using quietD [OF JABCLaneArr_quiet arr] quietD [OF u64_gate.gate_quiet [OF laws(1)] n]
      quietD [OF JABCDataOf_quiet b] by auto
  obtain len where v: "JABCViewOf E (argv ! 0) w = (Inr (base, len), w)" "cap = len div csize ?C"
    using arr same by (auto simp: JABCLaneArr_Inr [OF laws(2)])
  obtain elen where ve: "JABCViewOf E (argv ! 2) w = (Inr (b1 b, elen), w)" "b2 b = b1 b + elen"
    using b same by (auto simp: JABCDataOf_Inr)
  let ?m = "data_len b div csize ?C"
  have elen: "elen = ?m * csize ?C" using whole ve(2) by (simp add: data_len_def)
  have fits: "cap * csize ?C \<le> len" using v(2) by simp
  have sum: "unat n + ?m \<le> cap" using room by simp
  have "b1 b + (0 + ?m) * csize ?C \<le> base \<or> base + cap * csize ?C \<le> b1 b"
    using apart ve(2) elen by auto
  from feed_loop_ok [OF laws(4,3,5) sum this] obtain w4 where
    f: "feed_loop M ?C H base cap (b1 b) 0 ?m (unat n) w = (Inr (unat n + ?m), w4)"
    "mset (cells ?C M w4 base (unat n + ?m)) =
       mset (cells ?C M w base (unat n)) + mset (map (cell_at ?C M w (b1 b)) [0..<0 + ?m])"
    "is_heap Z (cells ?C M w base (unat n)) \<longrightarrow> is_heap Z (cells ?C M w4 base (unat n + ?m))"
    "same_outside E M base (base + cap * csize ?C) w w4"
    by blast
  have "out = JVal (JNum (js_nat (unat n + ?m)))" "w' = w4"
    using loop f(1) same by simp_all
  moreover have "same_outside E M base (base + len) w w4"
    using f(4) fits by (rule same_outside_wider [OF _ add_left_mono])
  ultimately show ?thesis
    using v ve elen n same sum f(2,3)
    by (intro exI [of _ base] exI [of _ len] exI [of _ "b1 b"] exI [of _ n] exI [of _ ?m])
      (simp add: cells_def)
qed

lemma heap_feed_Inl:
  assumes set: "heap_setting E A M (hcell L) Z H"
    and ret: "jheap_feed E A M L H argv w = (Inl x, w')"
  shows "w' = w"
proof (rule ccontr)
  assume ne: "w' \<noteq> w"
  let ?C = "hcell L"
  have laws: "prim_quiet E" "abc_laws A" "mem_laws E M" "lane_codec ?C" "heap_laws Z H"
    using set by (simp_all add: heap_setting_def)
  note step = quiet_jbind_apply [OF JABCLaneArr_quiet] quiet_jbind_apply [OF JABCDataOf_quiet]
    quiet_jbind_apply [OF u64_gate.gate_quiet [OF laws(1)]]
  from ret ne obtain base cap n b where
      "fst (JABCDataOf E A (argv ! 2) w) = Inr b"
    and whole: "data_len b = data_len b div csize ?C * csize ?C"
    and room: "\<not> cap < n" "\<not> cap - n < data_len b div csize ?C"
    and apart: "\<not> (base < b2 b \<and> b1 b < base + cap * csize ?C)"
    and loop: "jbind (feed_loop M ?C H base cap (b1 b) 0 (data_len b div csize ?C) n) js_num w = (Inl x, w')"
    unfolding jheap_feed_def need_def Let_def
    by (auto simp: step split: if_splits sum.splits prod.splits)
  then have b: "JABCDataOf E A (argv ! 2) w = (Inr b, w)"
    by (metis JABCDataOf_quiet quiet_def prod.collapse)
  let ?m = "data_len b div csize ?C"
  have "b2 b = b1 b + ?m * csize ?C" using b whole by (auto simp: JABCDataOf_Inr data_len_def)
  then have "b1 b + (0 + ?m) * csize ?C \<le> base \<or> base + cap * csize ?C \<le> b1 b"
    using apart by auto
  with feed_loop_ok [OF laws(4,3,5), of n ?m cap "b1 b" 0] room obtain w4 where
    "feed_loop M ?C H base cap (b1 b) 0 ?m n w = (Inr (n + ?m), w4)"
    by fastforce
  with loop show False by simp
qed

text \<open>A heap container: its view, a watermark inside it, a heap below the watermark.\<close>

definition box_inv :: "'w engine \<Rightarrow> abc \<Rightarrow> 'w memory \<Rightarrow> ('w, 'r) hlane \<Rightarrow> ('r \<Rightarrow> 'r \<Rightarrow> bool) \<Rightarrow>
    'r heap_ops \<Rightarrow> jsval \<Rightarrow> addr \<Rightarrow> nat \<Rightarrow> 'w \<times> jsval \<Rightarrow> bool" where
  "box_inv E A M L Z H arr base len = (\<lambda>(w, wm).
     heap_setting E A M (hcell L) Z H \<and> base \<noteq> 0 \<and> len \<le> 9007199254740991 \<and>
     JABCViewOf E arr w = (Inr (base, len), w) \<and>
     (\<exists>n. wm = JNum (js_nat n) \<and> n \<le> len div csize (hcell L) \<and> is_heap Z (cells (hcell L) M w base n)))"

definition box_contents :: "'w memory \<Rightarrow> ('w, 'r) hlane \<Rightarrow> addr \<Rightarrow> 'w \<times> jsval \<Rightarrow> 'r multiset" where
  "box_contents M L base = (\<lambda>(w, wm). mset (cells (hcell L) M w base
     (case wm of JNum d \<Rightarrow> (case whole_of d of Some t \<Rightarrow> nat t | None \<Rightarrow> 0) | _ \<Rightarrow> 0)))"

lemma box_contents_nat [simp]:
  "box_contents M L base (w, JNum (js_nat n)) = mset (cells (hcell L) M w base n)"
  by (simp add: box_contents_def)

lemma u64_of_nat:
  assumes "num_faithful E" and "n \<le> 9007199254740991"
  shows "\<exists>x. JABCu64Of E (JNum (js_nat n)) w = (Inr x, w) \<and> unat x = n"
proof -
  have "js_nat n = js_int (int n)" by (simp add: js_nat_def js_int_def)
  with u64_gate.gate_of_number [OF assms(1), of "int n" w] assms(2) obtain x
    where "JABCu64Of E (JNum (js_nat n)) w = (Inr x, w)" "uint x = int n" by auto
  then show ?thesis by (intro exI [of _ x]) (simp flip: unat_eq_nat_uint add: unat_eq_nat_uint)
qed

lemma lane_arr_ok:
  "abc_laws A \<Longrightarrow> base \<noteq> 0 \<Longrightarrow> JABCViewOf E arr w = (Inr (base, len), w) \<Longrightarrow>
   JABCLaneArr E A esz arr w = (Inr (base, len div esz), w)"
  using abc_okI [of A "\<lparr>b0 = base, b1 = base, b2 = base + len, b3 = base + len\<rparr>"]
  by (auto simp: JABCLaneArr_Inr wf_u8b_def)

lemma box_pop_least:
  assumes inv: "box_inv E A M L Z H arr base len s" and ne: "box_contents M L base s \<noteq> {#}"
  shows "\<exists>x s'. heap_box_pop E A M L H arr s = (Inr (WRV L x), s') \<and>
    box_inv E A M L Z H arr base len s' \<and>
    box_contents M L base s = add_mset x (box_contents M L base s') \<and>
    (\<forall>y \<in># box_contents M L base s. \<not> Z y x)"
proof -
  let ?C = "hcell L"
  obtain w n where s: "s = (w, JNum (js_nat n))" and view: "JABCViewOf E arr w = (Inr (base, len), w)"
    and n: "n \<le> len div csize ?C" and heap: "is_heap Z (cells ?C M w base n)"
    and set: "heap_setting E A M ?C Z H" and base: "base \<noteq> 0" and small: "len \<le> 9007199254740991"
    using inv by (cases s) (auto simp: box_inv_def)
  have laws: "prim_quiet E" "num_faithful E" "abc_laws A" "mem_laws E M" "lane_codec ?C" "heap_laws Z H"
    using set by (simp_all add: heap_setting_def)
  obtain m where m: "n = Suc m" using ne s by (cases n) (auto simp: cells_def)
  have "n \<le> 9007199254740991" using n small div_le_dividend le_trans by blast
  with u64_of_nat [OF laws(2)] obtain x where x: "JABCu64Of E (JNum (js_nat n)) w = (Inr x, w)" "unat x = n"
    by blast
  have arr: "JABCLaneArr E A (csize ?C) arr w = (Inr (base, len div csize ?C), w)"
    using lane_arr_ok [OF laws(3) base view] .
  obtain cap where cap: "len div csize ?C = Suc cap" "m \<le> cap"
    using n m by (cases "len div csize ?C") auto
  from heap_pop1_ok [OF laws(5,4,6) cap(2), of base w] obtain v w' where
    p: "heap_pop1 M ?C H base n w = (Inr (Some v), w')"
    "mset (cells ?C M w base n) = add_mset v (mset (cells ?C M w' base m))"
    "is_heap Z (cells ?C M w' base m)" "\<forall>x \<in> set (cells ?C M w base n). \<not> Z x v"
    "same_outside E M base (base + Suc cap * csize ?C) w w'"
    using heap m by blast
  have pop: "jheap_pop E A M L H [arr, JNum (js_nat n)] w = (Inr (WRV L v), w')"
    using arr x n m p(1) by (simp add: jheap_pop_def)
  have nz: "js_nat n \<noteq> Fin 0" using m by (simp add: js_nat_def)
  have num: "to_number E (JNum (js_nat n)) w' = (Inr (js_nat n), w')"
    using laws(2) by (simp add: num_faithful_def)
  have dec: "num_sub (js_nat n) (Fin 1) = js_nat m"
    using m by (simp add: num_sub_def js_nat_def)
  have "heap_box_pop E A M L H arr s = (Inr (WRV L v), (w', JNum (js_nat m)))"
    using pop nz num dec by (simp add: heap_box_pop_def s on_fst_def)
  moreover have "box_inv E A M L Z H arr base len (w', JNum (js_nat m))"
    using set base small same_outside_view [OF p(5) view] p(3) n m by (auto simp: box_inv_def)
  moreover have "box_contents M L base s = add_mset v (box_contents M L base (w', JNum (js_nat m)))"
    using p(2) by (simp add: s)
  moreover have "\<forall>y \<in># box_contents M L base s. \<not> Z y v" using p(4) by (simp add: s)
  ultimately show ?thesis by blast
qed

interpretation heap_box: min_store "box_inv E A M L Z H arr base len" "box_contents M L base"
    "heap_box_pop E A M L H arr" "WRV L" Z for E A M L Z H arr base len
  by standard (rule box_pop_least)

lemma heap_box_feed_ok:
  assumes set: "heap_setting E A M (hcell L) Z H" and base: "base \<noteq> 0" "e \<noteq> 0"
    and small: "len \<le> 9007199254740991"
    and arr: "JABCViewOf E arr w = (Inr (base, len), w)"
    and ent: "JABCViewOf E ent w = (Inr (e, m * csize (hcell L)), w)"
    and fit: "m \<le> len div csize (hcell L)"
    and apart: "e + m * csize (hcell L) \<le> base \<or> base + len div csize (hcell L) * csize (hcell L) \<le> e"
  shows "\<exists>w'. heap_box_feed E A M L H arr ent (w, JNum (js_nat 0)) = (Inr (), (w', JNum (js_nat m))) \<and>
    box_inv E A M L Z H arr base len (w', JNum (js_nat m)) \<and>
    mset (cells (hcell L) M w' base m) = mset (cells (hcell L) M w e m)"
proof -
  let ?C = "hcell L" and ?cap = "len div csize (hcell L)"
  have laws: "prim_quiet E" "num_faithful E" "abc_laws A" "mem_laws E M" "lane_codec ?C" "heap_laws Z H"
    using set by (simp_all add: heap_setting_def)
  have pos: "0 < csize ?C" using laws(5) by (rule lane_codec.size_pos)
  obtain x where x: "JABCu64Of E (JNum (js_nat 0)) w = (Inr x, w)" "unat x = 0"
    using u64_of_nat [OF laws(2), of 0 w] by auto
  have a: "JABCLaneArr E A (csize ?C) arr w = (Inr (base, ?cap), w)"
    using lane_arr_ok [OF laws(3) base(1) arr] .
  let ?b = "\<lparr>b0 = e, b1 = e, b2 = e + m * csize ?C, b3 = e + m * csize ?C\<rparr>"
  have b: "JABCDataOf E A ent w = (Inr ?b, w)"
    using ent abc_okI [OF laws(3), of ?b] base(2) by (auto simp: JABCDataOf_Inr wf_u8b_def)
  have dl: "data_len ?b = m * csize ?C" by (simp add: data_len_def)
  from feed_loop_ok [OF laws(5,4,6), of 0 m ?cap e 0 base w] fit apart obtain w' where
    f: "feed_loop M ?C H base ?cap e 0 m 0 w = (Inr m, w')"
    "mset (cells ?C M w' base m) = mset (cells ?C M w base 0) + mset (map (cell_at ?C M w e) [0..<m])"
    "is_heap Z (cells ?C M w' base m)" "same_outside E M base (base + ?cap * csize ?C) w w'"
    by (auto simp: cells_def)
  have nt: "\<not> (base < e + m * csize ?C \<and> e < base + ?cap * csize ?C)" using apart by auto
  have "jheap_feed E A M L H [arr, JNum (js_nat 0), ent] w = (Inr (JVal (JNum (js_nat m))), w')"
    using a x b f(1) fit pos nt by (simp add: jheap_feed_def dl Let_def)
  then have "heap_box_feed E A M L H arr ent (w, JNum (js_nat 0)) = (Inr (), (w', JNum (js_nat m)))"
    by (simp add: heap_box_feed_def on_fst_def)
  moreover have "box_inv E A M L Z H arr base len (w', JNum (js_nat m))"
    using set base small fit f(3) same_outside_view [OF f(4) arr] by (auto simp: box_inv_def)
  ultimately show ?thesis using f(2) by (auto simp: cells_def)
qed

text \<open>A heap for the closed instances: it keeps its elements sorted.\<close>

definition sorted_heap :: "('r::linorder) heap_ops" where
  "sorted_heap = \<lparr>HPush = (\<lambda>xs room v. if room = 0 then (NOROOM, xs) else (OK, sort (v # xs))),
     HPop = (\<lambda>xs. case sort xs of [] \<Rightarrow> (NODATA, undefined, xs) | v # ys \<Rightarrow> (OK, v, ys @ [v]))\<rparr>"

lemma sorted_is_heap: "sorted xs \<Longrightarrow> is_heap (<) xs"
  by (auto simp: is_heap_def not_less intro!: sorted_nth_mono)

lemma sorted_heap_laws: "heap_laws (<) (sorted_heap :: ('r::linorder) heap_ops)"
  unfolding heap_laws_def
proof (intro conjI allI impI)
  fix xs :: "'r list" and room :: nat and v :: 'r
  assume "0 < room"
  then show "\<exists>ys. HPush sorted_heap xs room v = (OK, ys) \<and> mset ys = add_mset v (mset xs) \<and>
      (is_heap (<) xs \<longrightarrow> is_heap (<) ys)"
    using sorted_is_heap [OF sorted_sort [of "v # xs"]] by (simp add: sorted_heap_def)
next
  fix xs :: "'r list"
  assume "xs \<noteq> []"
  then obtain v ys where s: "sort xs = v # ys" by (metis neq_Nil_conv length_0_conv length_sort)
  have "sorted (v # ys)" by (metis s sorted_sort)
  moreover have m: "mset xs = add_mset v (mset ys)" by (metis s mset_sort mset.simps(2))
  moreover have "set xs = insert v (set ys)" by (metis s set_sort list.simps(15))
  ultimately show "\<exists>v ys z. HPop sorted_heap xs = (OK, v, ys @ [z]) \<and> z \<in> set xs \<and>
      mset xs = add_mset v (mset ys) \<and>
      (is_heap (<) xs \<longrightarrow> is_heap (<) ys \<and> (\<forall>x \<in> set xs. \<not> x < v))"
    using s by (intro exI [of _ v] exI [of _ ys]) (auto simp: sorted_heap_def not_less intro: sorted_is_heap)
qed

section \<open>Properties\<close>

text \<open>
  C10: the bulk push is all or nothing.  Whatever the arguments, a \<open>feed\<close> that throws has written
  nothing.  One that returns has left the memory outside the lane array and every view as they
  were, its result is the new size, within the array's capacity, the heap holds exactly the old
  elements and the entries as they were before the call (never an entry the sifting had
  overwritten), and a heap stays a heap.
\<close>

theorem heap_feed_all_or_nothing:
  assumes "heap_setting E A M (hcell L) Z H" and "jheap_feed E A M L H argv w = (res, w')"
  shows "case res of Inl x \<Rightarrow> w' = w | Inr out \<Rightarrow>
    \<exists>base len e n m. JABCViewOf E (argv ! 0) w = (Inr (base, len), w) \<and>
      JABCViewOf E (argv ! 2) w = (Inr (e, m * csize (hcell L)), w) \<and>
      JABCu64Of E (argv ! 1) w = (Inr n, w) \<and> out = JVal (JNum (js_nat (unat n + m))) \<and>
      unat n + m \<le> len div csize (hcell L) \<and>
      mset (cells (hcell L) M w' base (unat n + m)) =
        mset (cells (hcell L) M w base (unat n)) + mset (cells (hcell L) M w e m) \<and>
      (is_heap Z (cells (hcell L) M w base (unat n)) \<longrightarrow>
         is_heap Z (cells (hcell L) M w' base (unat n + m))) \<and>
      same_outside E M base (base + len) w w'"
  using assms heap_feed_Inl [OF assms(1)] heap_feed_Inr [OF assms(1)] by (cases res) auto

text \<open>
  The heap container sorts.  Feeding an empty container from a view of whole elements that
  fits and does not overlap it, and then popping as many times, answers the entries in the lane's
  order, each exactly once, and leaves the container empty.
\<close>

theorem heap_box_sorts:
  assumes "heap_setting E A M (hcell L) Z H" and "base \<noteq> 0" and "e \<noteq> 0"
    and "len \<le> 9007199254740991"
    and "JABCViewOf E arr w = (Inr (base, len), w)"
    and "JABCViewOf E ent w = (Inr (e, m * csize (hcell L)), w)"
    and "m \<le> len div csize (hcell L)"
    and "e + m * csize (hcell L) \<le> base \<or> base + len div csize (hcell L) * csize (hcell L) \<le> e"
  shows "\<exists>xs w'. jbind (heap_box_feed E A M L H arr ent) (\<lambda>_. drain_n (heap_box_pop E A M L H arr) m)
      (w, JNum (js_nat 0)) = (Inr (map (WRV L) xs), (w', JNum (js_nat 0))) \<and>
    mset xs = mset (cells (hcell L) M w e m) \<and> sorted_wrt (\<lambda>x y. \<not> Z y x) xs"
proof -
  from heap_box_feed_ok [OF assms] obtain w1 where
    f: "heap_box_feed E A M L H arr ent (w, JNum (js_nat 0)) = (Inr (), (w1, JNum (js_nat m)))"
    and inv: "box_inv E A M L Z H arr base len (w1, JNum (js_nat m))"
    and c: "mset (cells (hcell L) M w1 base m) = mset (cells (hcell L) M w e m)"
    by blast
  from heap_box.drain_sorts [OF inv, of m] obtain xs w' wm where
    d: "drain_n (heap_box_pop E A M L H arr) m (w1, JNum (js_nat m)) = (Inr (map (WRV L) xs), (w', wm))"
    "box_inv E A M L Z H arr base len (w', wm)" "box_contents M L base (w', wm) = {#}"
    "mset xs = mset (cells (hcell L) M w e m)" "sorted_wrt (\<lambda>x y. \<not> Z y x) xs"
    by (auto simp: c)
  then have "wm = JNum (js_nat 0)" by (auto simp: box_inv_def)
  with f d show ?thesis by auto
qed

lemma sample_heap_setting:
  "heap_setting (ram_engine vs) sample_abc ram (hcell (HEAP_NUM (ram_engine vs) ''u8'' :: (_, u8) hlane))
     (<) sorted_heap"
  by (simp add: heap_setting_def HEAP_NUM_def ram_prim_quiet ram_num_faithful sample_abc_laws ram_laws
      u8_lane.lane_codec_axioms sorted_heap_laws)

theorem heap_box_sorts_witness:
  "let E = ram_engine [(100, 4), (200, 2)]; L = (HEAP_NUM E ''u8'' :: (_, u8) hlane) in
   \<exists>xs w'. jbind (heap_box_feed E sample_abc ram L sorted_heap (JObj 0) (JObj 1))
       (\<lambda>_. drain_n (heap_box_pop E sample_abc ram L sorted_heap (JObj 0)) 2)
       (\<lambda>x. if x = 200 then 7 else 3, JNum (js_nat 0)) =
       (Inr (map (WRV L) xs), (w', JNum (js_nat 0))) \<and> mset xs = {#7, 3#} \<and> sorted_wrt (\<lambda>x y. \<not> y < x) xs"
  unfolding Let_def
  using heap_box_sorts [OF sample_heap_setting, of 100 200 4 "[(100, 4), (200, 2)]" "JObj 0"
      "\<lambda>x. if x = 200 then 7 else 3" "JObj 1" 2]
  by (simp add: ram_view HEAP_NUM_def word_cell_def cells_def cell_at_def bytes_at_def ram_def
      upt_conv_Cons)

theorem heap_feed_all_or_nothing_witness:
  "let E = ram_engine [(100, 4), (99, 2)]; L = (HEAP_NUM E ''u8'' :: (_, u8) hlane) in
   snd (jheap_feed E sample_abc ram L sorted_heap [JObj 0, JNum (Fin 0), JObj 1] (\<lambda>x. 3)) = (\<lambda>x. 3)"
proof -
  let ?E = "ram_engine [(100, 4), (99, 2)]"
  let ?L = "HEAP_NUM ?E ''u8'' :: (_, u8) hlane"
  let ?r = "jheap_feed ?E sample_abc ram ?L sorted_heap [JObj 0, JNum (Fin 0), JObj 1] (\<lambda>x. 3)"
  have "\<exists>x. fst ?r = Inl x"
    by (simp add: jheap_feed_def HEAP_NUM_def word_cell_def JABCLaneArr_def JABCDataOf_def ram_view
        JABCViewOf_def JABCu64Of_prim ram_engine_def sample_number_def sample_abc_def u8b_defs js_defs
        whole_of_def Let_def)
  then obtain x where "?r = (Inl x, snd ?r)" by (metis prod.collapse)
  from heap_feed_all_or_nothing [OF sample_heap_setting this] show ?thesis by simp
qed

end
