(* ===== verification/Hash.thy ===== *)
theory Hash
  imports Heap
begin

text \<open>
  \<open>hash.c\<close>: an open-addressed table over a whole typed array.  libabc masks a slot with
  \<open>length - 1\<close> and probes a line of 16 slots, so the gate of the lane array lets only
  power-of-two capacities of at least 16 through.  The probing itself is libabc's \<open>HASHx.h\<close>, a
  parameter; its law is that of a finite map on the tables the gate admits.
\<close>

unbundle bit_operations_syntax

section \<open>The gate of the lane array\<close>

definition JABC_HASH_LINE :: nat where "JABC_HASH_LINE = 16"

definition JABCLaneArr_hash :: "'w engine \<Rightarrow> abc \<Rightarrow> nat \<Rightarrow> jsval \<Rightarrow> ('w, addr \<times> nat) js" where
  "JABCLaneArr_hash E A esz arg =
     jbind (JABCDataOf E A arg) (\<lambda>b.
     let n = data_len b div esz in
     if n < JABC_HASH_LINE \<or> n AND (n - 1) \<noteq> 0
     then jthrow (ThrowError (''hash: the table needs a power-of-two slot count '' @
            ''of at least 16 (use abc.ram/abc.mmap)''))
     else jret (b1 b, n))"

lemma JABCLaneArr_hash_quiet [quiet_intros]: "quiet (JABCLaneArr_hash E A esz arg)"
  unfolding JABCLaneArr_hash_def Let_def by (intro quiet_intros)

lemma pow2_mask: "0 < n \<Longrightarrow> n AND (n - 1) = 0 \<longleftrightarrow> (\<exists>k. n = (2::nat) ^ k)"
proof (induction n rule: less_induct)
  case (less n)
  show ?case
  proof (cases "even n")
    case True
    then obtain m where m: "n = 2 * m" by blast
    with less.prems have "0 < m" "m < n" by auto
    have "(n - 1) div 2 = m - 1" "even n" "odd (n - 1)" using m \<open>0 < m\<close> by auto
    then have "n AND (n - 1) = 2 * (m AND (m - 1))"
      using and_rec [of n "n - 1"] m by simp
    moreover have "(\<exists>k. n = 2 ^ k) \<longleftrightarrow> (\<exists>k. m = 2 ^ k)"
    proof
      assume "\<exists>k. n = 2 ^ k"
      then obtain k where k: "2 * m = 2 ^ k" using m by auto
      with \<open>0 < m\<close> show "\<exists>k. m = 2 ^ k" by (cases k) auto
    next
      assume "\<exists>k. m = 2 ^ k"
      then show "\<exists>k. n = 2 ^ k" using m by (metis power_Suc)
    qed
    ultimately show ?thesis using less.IH [OF \<open>m < n\<close> \<open>0 < m\<close>] by simp
  next
    case False
    then obtain m where m: "n = 2 * m + 1" by (elim oddE)
    then have "n AND (n - 1) = 2 * m"
      using and_rec [of n "n - 1"] by simp
    moreover have "(\<exists>k. n = 2 ^ k) \<longleftrightarrow> m = 0"
    proof
      assume "\<exists>k. n = 2 ^ k"
      then obtain k where "2 * m + 1 = (2::nat) ^ k" using m by auto
      then show "m = 0" by (cases k) (auto simp: double_not_eq_Suc_double Suc_double_not_eq_double)
    qed (use m in \<open>auto intro: exI [of _ 0]\<close>)
    ultimately show ?thesis by simp
  qed
qed

text \<open>The capacities the gate admits.\<close>

definition line_pow2 :: "nat \<Rightarrow> bool" where
  "line_pow2 n \<longleftrightarrow> (\<exists>k. 4 \<le> k \<and> n = 2 ^ k)"

lemma gate_line_pow2: "n < JABC_HASH_LINE \<or> n AND (n - 1) \<noteq> 0 \<longleftrightarrow> \<not> line_pow2 n"
proof (cases "n < 16")
  case True
  have "16 \<le> (2::nat) ^ k" if "4 \<le> k" for k
    using power_increasing [OF that, of "2::nat"] by simp
  with True show ?thesis by (fastforce simp: JABC_HASH_LINE_def line_pow2_def)
next
  case False
  have four: "4 \<le> k" if "16 \<le> (2::nat) ^ k" for k
  proof (rule ccontr)
    assume "\<not> 4 \<le> k"
    then have "(2::nat) ^ k < 2 ^ 4" by (intro power_strict_increasing) auto
    with that show False by simp
  qed
  have "(\<exists>k. n = 2 ^ k) \<longleftrightarrow> line_pow2 n"
    using False four unfolding line_pow2_def not_less by metis
  with False pow2_mask [of n] show ?thesis by (simp add: JABC_HASH_LINE_def)
qed

lemma JABCLaneArr_hash_Inr:
  "JABCLaneArr_hash E A esz arg w = (Inr (base, cap), w') \<longleftrightarrow>
    (\<exists>len. JABCViewOf E arg w = (Inr (base, len), w') \<and> cap = len div esz \<and> line_pow2 cap \<and>
       u8bOK A \<lparr>b0 = base, b1 = base, b2 = base + len, b3 = base + len\<rparr>)"
  (is "?L \<longleftrightarrow> ?R")
proof
  assume ?L
  then show ?R
    unfolding JABCLaneArr_hash_def Let_def gate_line_pow2
    by (auto simp: jbind_eq_Inr JABCDataOf_Inr data_len_def split: if_splits)
next
  assume ?R
  then obtain len where d: "JABCDataOf E A arg w = (Inr \<lparr>b0 = base, b1 = base, b2 = base + len, b3 = base + len\<rparr>, w')"
    and c: "cap = len div esz" "line_pow2 cap"
    by (auto simp: JABCDataOf_Inr)
  then show ?L
    unfolding JABCLaneArr_hash_def Let_def gate_line_pow2 by (simp add: data_len_def)
qed

section \<open>libabc's table\<close>

record 'r hash_ops =
  TPut :: "'r list \<Rightarrow> 'r \<Rightarrow> ok64 \<times> 'r list"
  TGet :: "'r list \<Rightarrow> 'r \<Rightarrow> ok64 \<times> 'r"
  TDel :: "'r list \<Rightarrow> 'r \<Rightarrow> 'r list"

text \<open>
  \<open>key\<close> is what the lane compares (\<open>hashEq\<close>), \<open>tok\<close> the tables the operations build from a zeroed
  region, \<open>tmap\<close> what such a table holds.  A put may fail (the table is full); when it answers
  \<open>OK\<close> the element is in.
\<close>

definition hash_laws :: "'r cell \<Rightarrow> ('r \<Rightarrow> 'k) \<Rightarrow> ('r list \<Rightarrow> bool) \<Rightarrow> ('r list \<Rightarrow> 'k \<Rightarrow> 'r option) \<Rightarrow>
    'r hash_ops \<Rightarrow> bool" where
  "hash_laws C key tok tmap T \<longleftrightarrow>
     (\<forall>n z. line_pow2 n \<and> z = cdec C (replicate (csize C) 0) \<longrightarrow>
        tok (replicate n z) \<and> tmap (replicate n z) = Map.empty) \<and>
     (\<forall>t v t'. line_pow2 (length t) \<and> list_all (cok C) t \<and> cok C v \<and> tok t \<and> TPut T t v = (OK, t') \<longrightarrow>
        length t' = length t \<and> list_all (cok C) t' \<and> tok t' \<and> tmap t' = (tmap t)(key v \<mapsto> v)) \<and>
     (\<forall>t v. line_pow2 (length t) \<and> list_all (cok C) t \<and> tok t \<longrightarrow>
        (case tmap t (key v) of None \<Rightarrow> fst (TGet T t v) \<noteq> OK | Some r \<Rightarrow> TGet T t v = (OK, r))) \<and>
     (\<forall>t v t'. line_pow2 (length t) \<and> list_all (cok C) t \<and> tok t \<and> TDel T t v = t' \<longrightarrow>
        length t' = length t \<and> list_all (cok C) t' \<and> tok t' \<and> tmap t' = (tmap t)(key v := None))"

lemma hash_laws_zero:
  "hash_laws C key tok tmap T \<Longrightarrow> line_pow2 n \<Longrightarrow>
   tok (replicate n (cdec C (replicate (csize C) 0))) \<and>
   tmap (replicate n (cdec C (replicate (csize C) 0))) = Map.empty"
  unfolding hash_laws_def by blast

section \<open>A lane's marshalling\<close>

text \<open>
  \<open>junk\<close> is what the stack held: a lookup on a key-value lane fills the key of \<open>v\<close> only.
\<close>

record ('w, 'r) tlane =
  tname :: string
  tcell :: "'r cell"
  NPUT :: nat
  NKEY :: nat
  RDPUT :: "jsval list \<Rightarrow> ('w, 'r) js"
  RDKEY :: "jsval list \<Rightarrow> ('w, 'r) js"
  WRGET :: "'r \<Rightarrow> jout"

definition HASH_NUM :: "'w engine \<Rightarrow> string \<Rightarrow> ('w, ('a::len) word) tlane" where
  "HASH_NUM E nm = \<lparr>tname = nm, tcell = word_cell, NPUT = 2, NKEY = 2, RDPUT = rd_num E 1,
     RDKEY = rd_num E 1, WRGET = (\<lambda>v. JVal (wr_num v))\<rparr>"

definition HASH_U64 :: "'w engine \<Rightarrow> string \<Rightarrow> ('w, u64) tlane" where
  "HASH_U64 E nm = \<lparr>tname = nm, tcell = word_cell, NPUT = 2, NKEY = 2, RDPUT = rd_u64 E 1,
     RDKEY = rd_u64 E 1, WRGET = (\<lambda>v. JVal (JABCBigU64 v))\<rparr>"

definition HASH_PN :: "'w engine \<Rightarrow> string \<Rightarrow> u32 \<Rightarrow> ('w, u32 \<times> u32) tlane" where
  "HASH_PN E nm junk = \<lparr>tname = nm, tcell = pair_cell word_cell word_cell, NPUT = 3, NKEY = 2,
     RDPUT = (\<lambda>argv. rd_two (rd_num E 1 argv) (rd_num E 2 argv)),
     RDKEY = (\<lambda>argv. rd_two (rd_num E 1 argv) (jret junk)),
     WRGET = (\<lambda>(k, v). JVal (wr_num v))\<rparr>"

definition HASH_PB :: "'w engine \<Rightarrow> string \<Rightarrow> u64 \<Rightarrow> ('w, u64 \<times> u64) tlane" where
  "HASH_PB E nm junk = \<lparr>tname = nm, tcell = pair_cell word_cell word_cell, NPUT = 3, NKEY = 2,
     RDPUT = (\<lambda>argv. rd_two (rd_u64 E 1 argv) (rd_u64 E 2 argv)),
     RDKEY = (\<lambda>argv. rd_two (rd_u64 E 1 argv) (jret junk)),
     WRGET = (\<lambda>(k, v). JVal (JABCBigU64 v))\<rparr>"

definition HASH_SET_PB :: "'w engine \<Rightarrow> string \<Rightarrow> ('w, u64 \<times> u64) tlane" where
  "HASH_SET_PB E nm = \<lparr>tname = nm, tcell = pair_cell word_cell word_cell, NPUT = 3, NKEY = 3,
     RDPUT = (\<lambda>argv. rd_two (rd_u64 E 1 argv) (rd_u64 E 2 argv)),
     RDKEY = (\<lambda>argv. rd_two (rd_u64 E 1 argv) (rd_u64 E 2 argv)),
     WRGET = (\<lambda>(k, v). JArr [JABCBigU64 k, JABCBigU64 v])\<rparr>"

definition HASH_BLOB :: "'w engine \<Rightarrow> abc \<Rightarrow> 'w memory \<Rightarrow> string \<Rightarrow> nat \<Rightarrow> ('w, u8 list) tlane" where
  "HASH_BLOB E A M nm n = \<lparr>tname = nm, tcell = blob_cell n, NPUT = 2, NKEY = 2,
     RDPUT = rd_blob E A M ''hash: blob size'' n 1, RDKEY = rd_blob E A M ''hash: blob size'' n 1,
     WRGET = JBytes\<rparr>"

text \<open>The lanes' hashers, of which only the equality matters to a client.\<close>

definition wh64hashEq :: "u64 \<Rightarrow> u64 \<Rightarrow> bool" where "wh64hashEq a b = (a = b)"

definition sha_hashEq :: "u8 list \<Rightarrow> u8 list \<Rightarrow> bool" where "sha_hashEq a b = (a = b)"

definition sha_hash :: "(u64 \<Rightarrow> u64) \<Rightarrow> u8 list \<Rightarrow> u64" where
  "sha_hash mix64 v = mix64 (of_nat (le_nat (take 8 v)))"

definition word_hash :: "(u64 \<Rightarrow> u64) \<Rightarrow> ('a::len) word \<Rightarrow> u64" where
  "word_hash mix64 v = mix64 (ucast v)"

lemma hash_eq_hash: "sha_hashEq a b \<Longrightarrow> sha_hash m a = sha_hash m b" "wh64hashEq x y \<Longrightarrow> word_hash m x = word_hash m y"
  by (simp_all add: sha_hashEq_def wh64hashEq_def)

section \<open>The leaves\<close>

definition hash_usage :: "('w, 'r) tlane \<Rightarrow> string \<Rightarrow> string" where
  "hash_usage L rest = ''_hash_'' @ tname L @ rest"

definition jhash_put :: "'w engine \<Rightarrow> abc \<Rightarrow> 'w memory \<Rightarrow> ('w, 'r) tlane \<Rightarrow> 'r hash_ops \<Rightarrow> jsval list \<Rightarrow>
    ('w, jout) js" where
  "jhash_put E A M L T argv =
     need (NPUT L) (hash_usage L ''_put(arr, key[, val])'') argv
     (jbind (JABCLaneArr_hash E A (csize (tcell L)) (argv ! 0)) (\<lambda>(base, cap).
      jbind (RDPUT L argv) (\<lambda>v.
      jbind (jget (\<lambda>w. TPut T (cells (tcell L) M w base cap) v)) (\<lambda>(o', t').
      jbind (jput (put_cells (tcell L) M base t')) (\<lambda>_.
      if o' \<noteq> OK then jthrow (ThrowError ''hash: full'') else js_undef)))))"

definition jhash_get :: "'w engine \<Rightarrow> abc \<Rightarrow> 'w memory \<Rightarrow> ('w, 'r) tlane \<Rightarrow> 'r hash_ops \<Rightarrow> jsval list \<Rightarrow>
    ('w, jout) js" where
  "jhash_get E A M L T argv =
     need (NKEY L) (hash_usage L ''_get(arr, key[, val])'') argv
     (jbind (JABCLaneArr_hash E A (csize (tcell L)) (argv ! 0)) (\<lambda>(base, cap).
      jbind (RDKEY L argv) (\<lambda>v.
      jbind (jget (\<lambda>w. TGet T (cells (tcell L) M w base cap) v)) (\<lambda>(o', r).
      if o' \<noteq> OK then js_undef else jret (WRGET L r)))))"

definition jhash_del :: "'w engine \<Rightarrow> abc \<Rightarrow> 'w memory \<Rightarrow> ('w, 'r) tlane \<Rightarrow> 'r hash_ops \<Rightarrow> jsval list \<Rightarrow>
    ('w, jout) js" where
  "jhash_del E A M L T argv =
     need (NKEY L) (hash_usage L ''_del(arr, key[, val])'') argv
     (jbind (JABCLaneArr_hash E A (csize (tcell L)) (argv ! 0)) (\<lambda>(base, cap).
      jbind (RDKEY L argv) (\<lambda>v.
      jbind (jput (\<lambda>w. put_cells (tcell L) M base (TDel T (cells (tcell L) M w base cap) v) w)) (\<lambda>_.
      js_undef))))"

section \<open>The container's capacity\<close>

text \<open>\<open>pow2up\<close> of \<open>cont.c\<close>: double from 16 until the requested number of slots fits.\<close>

function pow2from :: "nat \<Rightarrow> nat \<Rightarrow> nat" where
  "pow2from p n = (if p = 0 then 0 else if p < n then pow2from (p * 2) n else p)"
  by pat_completeness auto
termination by (relation "measure (\<lambda>(p, n). n - p)") auto

declare pow2from.simps [simp del]

definition pow2up :: "nat \<Rightarrow> nat" where
  "pow2up n = pow2from 16 n"

lemma pow2from_ok: "\<exists>k. 4 \<le> k \<and> p = 2 ^ k \<Longrightarrow> line_pow2 (pow2from p n) \<and> n \<le> pow2from p n"
proof (induction p n rule: pow2from.induct)
  case (1 p n)
  then obtain k where k: "4 \<le> k" "p = 2 ^ k" by blast
  show ?case
  proof (cases "p < n")
    case True
    have "p \<noteq> 0" using k by simp
    moreover have "\<exists>k. 4 \<le> k \<and> p * 2 = 2 ^ k" using k by (intro exI [of _ "Suc k"]) simp
    ultimately show ?thesis using 1 True by (simp add: pow2from.simps [of p n])
  next
    case False
    then have "pow2from p n = p" by (simp add: pow2from.simps [of p n])
    with k False show ?thesis by (auto simp: line_pow2_def)
  qed
qed

lemma pow2up_ok: "line_pow2 (pow2up n)" "n \<le> pow2up n"
proof -
  have "\<exists>k. 4 \<le> k \<and> (16::nat) = 2 ^ k" by (rule exI [of _ 4]) simp
  from pow2from_ok [OF this, of n] show "line_pow2 (pow2up n)" "n \<le> pow2up n"
    by (simp_all add: pow2up_def)
qed

section \<open>A map behind the three leaves\<close>

datatype cmd = CPut "jsval list" | CDel "jsval list"

primrec run_cmd :: "(jsval list \<Rightarrow> ('s, jout) js) \<Rightarrow> (jsval list \<Rightarrow> ('s, jout) js) \<Rightarrow> cmd \<Rightarrow> ('s, jout) js" where
  "run_cmd put del (CPut vs) = put vs"
| "run_cmd put del (CDel vs) = del vs"

primrec run_cmds :: "(jsval list \<Rightarrow> ('s, jout) js) \<Rightarrow> (jsval list \<Rightarrow> ('s, jout) js) \<Rightarrow> cmd list \<Rightarrow> ('s, unit) js" where
  "run_cmds put del [] = jret ()"
| "run_cmds put del (c # cs) = jbind (run_cmd put del c) (\<lambda>_. run_cmds put del cs)"

text \<open>What the commands mean, given the element each one's arguments denote.\<close>

fun spec_cmd :: "('r \<Rightarrow> 'k) \<Rightarrow> cmd \<times> 'r \<Rightarrow> ('k \<Rightarrow> 'r option) \<Rightarrow> 'k \<Rightarrow> 'r option" where
  "spec_cmd key (CPut vs, v) m = m(key v \<mapsto> v)"
| "spec_cmd key (CDel vs, v) m = m(key v := None)"

definition spec_cmds :: "('r \<Rightarrow> 'k) \<Rightarrow> (cmd \<times> 'r) list \<Rightarrow> ('k \<Rightarrow> 'r option) \<Rightarrow> 'k \<Rightarrow> 'r option" where
  "spec_cmds key cs m = fold (spec_cmd key) cs m"

locale map_store =
  fixes inv :: "'s \<Rightarrow> bool" and look :: "'s \<Rightarrow> 'k \<Rightarrow> 'r option" and key :: "'r \<Rightarrow> 'k"
    and put del get :: "jsval list \<Rightarrow> ('s, jout) js"
    and item probe :: "jsval list \<Rightarrow> 's \<Rightarrow> 'r option" and out :: "'r \<Rightarrow> jout"
  assumes put_ok: "inv s \<Longrightarrow> item vs s = Some v \<Longrightarrow> put vs s = (Inr r, s') \<Longrightarrow>
      inv s' \<and> look s' = (look s)(key v \<mapsto> v)"
    and del_ok: "inv s \<Longrightarrow> probe vs s = Some v \<Longrightarrow> del vs s = (Inr r, s') \<Longrightarrow>
      inv s' \<and> look s' = (look s)(key v := None)"
    and get_ok: "inv s \<Longrightarrow> probe vs s = Some v \<Longrightarrow>
      get vs s = (Inr (case look s (key v) of None \<Rightarrow> JVal JUndef | Some r \<Rightarrow> out r), s)"
begin

lemma cmds_ok:
  assumes "inv s" and "run_cmds put del (map fst cs) s = (Inr u, s')"
    and "\<forall>x \<in> set cs. \<forall>s. inv s \<longrightarrow> (case fst x of CPut vs \<Rightarrow> item vs s | CDel vs \<Rightarrow> probe vs s) = Some (snd x)"
  shows "inv s' \<and> look s' = spec_cmds key cs (look s)"
  using assms
proof (induction cs arbitrary: s)
  case Nil
  then show ?case by (simp add: spec_cmds_def)
next
  case (Cons x cs)
  obtain c v where x: "x = (c, v)" by (cases x)
  from Cons.prems(2) x obtain r s1 where
    c: "run_cmd put del c s = (Inr r, s1)" and rest: "run_cmds put del (map fst cs) s1 = (Inr u, s')"
    by (auto simp: jbind_eq_Inr)
  have val: "(case c of CPut vs \<Rightarrow> item vs s | CDel vs \<Rightarrow> probe vs s) = Some v"
    using Cons.prems(1,3) x by simp
  have "inv s1 \<and> look s1 = spec_cmd key (c, v) (look s)"
  proof (cases c)
    case (CPut vs)
    with put_ok [OF Cons.prems(1), of vs v r s1] val c show ?thesis by simp
  next
    case (CDel vs)
    with del_ok [OF Cons.prems(1), of vs v r s1] val c show ?thesis by simp
  qed
  moreover from this have "inv s' \<and> look s' = spec_cmds key cs (look s1)"
    using Cons.IH [of s1] rest Cons.prems(3) by simp
  ultimately show ?case by (simp add: x spec_cmds_def)
qed

lemma get_after_cmds:
  assumes "inv s" and "run_cmds put del (map fst cs) s = (Inr u, s')"
    and "\<forall>x \<in> set cs. \<forall>s. inv s \<longrightarrow> (case fst x of CPut vs \<Rightarrow> item vs s | CDel vs \<Rightarrow> probe vs s) = Some (snd x)"
    and "probe vs s' = Some v"
  shows "get vs s' = (Inr (case spec_cmds key cs (look s) (key v) of None \<Rightarrow> JVal JUndef | Some r \<Rightarrow> out r), s')"
  using cmds_ok [OF assms(1-3)] get_ok [OF _ assms(4)] by simp

end

definition hash_setting :: "'w engine \<Rightarrow> abc \<Rightarrow> 'w memory \<Rightarrow> 'r cell \<Rightarrow> ('r \<Rightarrow> 'k) \<Rightarrow> ('r list \<Rightarrow> bool) \<Rightarrow>
    ('r list \<Rightarrow> 'k \<Rightarrow> 'r option) \<Rightarrow> 'r hash_ops \<Rightarrow> bool" where
  "hash_setting E A M C key tok tmap T \<longleftrightarrow>
     abc_laws A \<and> mem_laws E M \<and> lane_codec C \<and> hash_laws C key tok tmap T"

definition table_inv :: "'w engine \<Rightarrow> abc \<Rightarrow> 'w memory \<Rightarrow> 'r cell \<Rightarrow> ('r \<Rightarrow> 'k) \<Rightarrow> ('r list \<Rightarrow> bool) \<Rightarrow>
    ('r list \<Rightarrow> 'k \<Rightarrow> 'r option) \<Rightarrow> 'r hash_ops \<Rightarrow> jsval \<Rightarrow> addr \<Rightarrow> nat \<Rightarrow> 'w \<Rightarrow> bool" where
  "table_inv E A M C key tok tmap T arr base len w \<longleftrightarrow>
     hash_setting E A M C key tok tmap T \<and> base \<noteq> 0 \<and> line_pow2 (len div csize C) \<and>
     JABCViewOf E arr w = (Inr (base, len), w) \<and> tok (cells C M w base (len div csize C))"

text \<open>What the arguments of a call denote, when they denote an element.\<close>

definition denotes :: "nat \<Rightarrow> (jsval list \<Rightarrow> ('w, 'r) js) \<Rightarrow> jsval \<Rightarrow> jsval list \<Rightarrow> 'w \<Rightarrow> 'r option" where
  "denotes n rd arr vs w =
     (if length (arr # vs) < n then None
      else case rd (arr # vs) w of (Inr v, w') \<Rightarrow> Some v | (Inl e, w') \<Rightarrow> None)"

text \<open>Reading the arguments of a lane changes nothing and yields an element of the lane.\<close>

definition reads_ok :: "('w, 'r) tlane \<Rightarrow> bool" where
  "reads_ok L \<longleftrightarrow> (\<forall>argv. quiet (RDPUT L argv) \<and> quiet (RDKEY L argv)) \<and>
     (\<forall>argv w v w'. RDPUT L argv w = (Inr v, w') \<longrightarrow> cok (tcell L) v)"

lemma denotes_Some:
  "(\<forall>argv. quiet (rd argv)) \<Longrightarrow> denotes n rd arr vs w = Some v \<Longrightarrow>
   n \<le> length (arr # vs) \<and> rd (arr # vs) w = (Inr v, w)"
  by (auto simp: denotes_def split: prod.splits sum.splits if_splits dest: quietD)

lemma table_put_cells:
  assumes inv: "table_inv E A M C key tok tmap T arr base len w"
    and t: "length t = len div csize C" "list_all (cok C) t" "tok t"
  shows "table_inv E A M C key tok tmap T arr base len (put_cells C M base t w) \<and>
    cells C M (put_cells C M base t w) base (len div csize C) = t"
proof -
  have laws: "mem_laws E M" "lane_codec C" and view: "JABCViewOf E arr w = (Inr (base, len), w)"
    using inv by (auto simp: table_inv_def hash_setting_def)
  have "cells C M (put_cells C M base t w) base (len div csize C) = t"
    using lane_codec.cells_put [OF laws(2,1) t(2)] t(1) by metis
  with inv t(3) view_poke [OF laws(1) view] show ?thesis
    by (auto simp: table_inv_def put_cells_def)
qed

lemma table_lane:
  assumes "table_inv E A M (tcell L) key tok tmap T arr base len w"
  shows "JABCLaneArr_hash E A (csize (tcell L)) arr w = (Inr (base, len div csize (tcell L)), w)"
  using assms abc_okI [of A "\<lparr>b0 = base, b1 = base, b2 = base + len, b3 = base + len\<rparr>"]
  by (auto simp: JABCLaneArr_hash_Inr table_inv_def hash_setting_def wf_u8b_def)

definition table_look :: "'w memory \<Rightarrow> 'r cell \<Rightarrow> ('r list \<Rightarrow> 'k \<Rightarrow> 'r option) \<Rightarrow> addr \<Rightarrow> nat \<Rightarrow> 'w \<Rightarrow> 'k \<Rightarrow> 'r option" where
  "table_look M C tmap base len w = tmap (cells C M w base (len div csize C))"

interpretation hash_table: map_store
    "\<lambda>w. table_inv E A M (tcell L) key tok tmap T arr base len w \<and> reads_ok L"
    "table_look M (tcell L) tmap base len" key
    "\<lambda>vs. jhash_put E A M L T (arr # vs)" "\<lambda>vs. jhash_del E A M L T (arr # vs)"
    "\<lambda>vs. jhash_get E A M L T (arr # vs)"
    "denotes (NPUT L) (RDPUT L) arr" "denotes (NKEY L) (RDKEY L) arr" "WRGET L"
  for E A M L key tok tmap T arr base len
proof
  fix vs v w r w'
  assume inv: "table_inv E A M (tcell L) key tok tmap T arr base len w \<and> reads_ok L"
    and d: "denotes (NPUT L) (RDPUT L) arr vs w = Some v"
    and put: "jhash_put E A M L T (arr # vs) w = (Inr r, w')"
  let ?C = "tcell L"
  let ?n = "len div csize ?C"
  let ?t = "cells ?C M w base ?n"
  have ro: "\<forall>argv. quiet (RDPUT L argv)" using inv by (simp add: reads_ok_def)
  from denotes_Some [OF ro d] have v: "NPUT L \<le> length (arr # vs)" "RDPUT L (arr # vs) w = (Inr v, w)" by auto
  have cv: "cok ?C v" using inv v(2) unfolding reads_ok_def by blast
  have lane: "lane_codec ?C" "hash_laws ?C key tok tmap T" "line_pow2 ?n" "tok ?t"
    using inv by (auto simp: table_inv_def hash_setting_def)
  from put v table_lane [OF conjunct1 [OF inv]] obtain t' where
    t': "TPut T ?t v = (OK, t')" "w' = put_cells ?C M base t' w"
    by (auto simp: jhash_put_def split: prod.splits if_splits)
  have "length t' = ?n \<and> list_all (cok ?C) t' \<and> tok t' \<and> tmap t' = (tmap ?t)(key v \<mapsto> v)"
    using lane(2-4) lane_codec.cells_ok [OF lane(1), of M w base ?n] cv t'(1)
    unfolding hash_laws_def by (metis length_cells)
  with table_put_cells [OF conjunct1 [OF inv], of t'] inv t'(2)
  show "(table_inv E A M ?C key tok tmap T arr base len w' \<and> reads_ok L) \<and>
      table_look M ?C tmap base len w' = (table_look M ?C tmap base len w)(key v \<mapsto> v)"
    by (simp add: table_look_def fun_upd_def)
next
  fix vs v w r w'
  assume inv: "table_inv E A M (tcell L) key tok tmap T arr base len w \<and> reads_ok L"
    and d: "denotes (NKEY L) (RDKEY L) arr vs w = Some v"
    and del: "jhash_del E A M L T (arr # vs) w = (Inr r, w')"
  let ?C = "tcell L"
  let ?n = "len div csize ?C"
  let ?t = "cells ?C M w base ?n"
  have ro: "\<forall>argv. quiet (RDKEY L argv)" using inv by (simp add: reads_ok_def)
  from denotes_Some [OF ro d] have v: "NKEY L \<le> length (arr # vs)" "RDKEY L (arr # vs) w = (Inr v, w)" by auto
  have lane: "lane_codec ?C" "hash_laws ?C key tok tmap T" "line_pow2 ?n" "tok ?t"
    using inv by (auto simp: table_inv_def hash_setting_def)
  have w': "w' = put_cells ?C M base (TDel T ?t v) w"
    using del v table_lane [OF conjunct1 [OF inv]] by (simp add: jhash_del_def)
  have "length (TDel T ?t v) = ?n \<and> list_all (cok ?C) (TDel T ?t v) \<and> tok (TDel T ?t v) \<and>
      tmap (TDel T ?t v) = (tmap ?t)(key v := None)"
    using lane(2-4) lane_codec.cells_ok [OF lane(1), of M w base ?n]
    unfolding hash_laws_def by (metis length_cells)
  with table_put_cells [OF conjunct1 [OF inv], of "TDel T ?t v"] inv w'
  show "(table_inv E A M ?C key tok tmap T arr base len w' \<and> reads_ok L) \<and>
      table_look M ?C tmap base len w' = (table_look M ?C tmap base len w)(key v := None)"
    by (simp add: table_look_def fun_upd_def)
next
  fix vs v w
  assume inv: "table_inv E A M (tcell L) key tok tmap T arr base len w \<and> reads_ok L"
    and d: "denotes (NKEY L) (RDKEY L) arr vs w = Some v"
  let ?C = "tcell L"
  let ?n = "len div csize ?C"
  let ?t = "cells ?C M w base ?n"
  have ro: "\<forall>argv. quiet (RDKEY L argv)" using inv by (simp add: reads_ok_def)
  from denotes_Some [OF ro d] have v: "NKEY L \<le> length (arr # vs)" "RDKEY L (arr # vs) w = (Inr v, w)" by auto
  have lane: "lane_codec ?C" "hash_laws ?C key tok tmap T" "line_pow2 ?n" "tok ?t"
    using inv by (auto simp: table_inv_def hash_setting_def)
  have g: "case tmap ?t (key v) of None \<Rightarrow> fst (TGet T ?t v) \<noteq> OK | Some r \<Rightarrow> TGet T ?t v = (OK, r)"
    using lane(2-4) lane_codec.cells_ok [OF lane(1), of M w base ?n]
    unfolding hash_laws_def by (metis length_cells)
  show "jhash_get E A M L T (arr # vs) w =
      (Inr (case table_look M ?C tmap base len w (key v) of None \<Rightarrow> JVal JUndef | Some r \<Rightarrow> WRGET L r), w)"
    using g v table_lane [OF conjunct1 [OF inv]]
    by (cases "TGet T ?t v") (auto simp: jhash_get_def table_look_def split: option.splits)
qed

text \<open>Every lane reads its arguments in that way.\<close>

lemma hash_lane_defs:
  "tcell (HASH_NUM E nm) = word_cell" "RDPUT (HASH_NUM E nm) = rd_num E 1" "RDKEY (HASH_NUM E nm) = rd_num E 1"
  by (simp_all add: HASH_NUM_def)

lemma reads_ok_lanes:
  assumes "prim_quiet E"
  shows "reads_ok (HASH_NUM E nm :: ('w, ('a::len) word) tlane)" "reads_ok (HASH_U64 E nm)"
    "reads_ok (HASH_PN E nm j32)" "reads_ok (HASH_PB E nm j64)" "reads_ok (HASH_SET_PB E nm)"
    "reads_ok (HASH_BLOB E A M nm n)"
  using assms
  by (auto simp: reads_ok_def HASH_NUM_def HASH_U64_def HASH_PN_def HASH_PB_def HASH_SET_PB_def
      HASH_BLOB_def word_cell_def pair_cell_def blob_cell_def rd_blob_def jbind_eq_Inr
      intro!: quiet_intros split: if_splits)

text \<open>
  A table for the closed instances: 0 is the empty slot, an element sits wherever a slot was free.
\<close>

definition plain_put :: "u8 list \<Rightarrow> u8 \<Rightarrow> ok64 \<times> u8 list" where
  "plain_put t v =
     (if v = 0 then (BADARG, t)
      else if v \<in> set t then (OK, t)
      else case List.find (\<lambda>i. t ! i = 0) [0..<length t] of
             None \<Rightarrow> (NOROOM, t) | Some i \<Rightarrow> (OK, t[i := v]))"

definition plain_hash :: "u8 hash_ops" where
  "plain_hash = \<lparr>TPut = plain_put, TGet = (\<lambda>t v. if v \<noteq> 0 \<and> v \<in> set t then (OK, v) else (NODATA, v)),
     TDel = (\<lambda>t v. if v = 0 then t else map (\<lambda>x. if x = v then 0 else x) t)\<rparr>"

definition plain_map :: "u8 list \<Rightarrow> u8 \<Rightarrow> u8 option" where
  "plain_map t k = (if k \<noteq> 0 \<and> k \<in> set t then Some k else None)"

lemma plain_put_map:
  assumes "plain_put t v = (OK, t')"
  shows "length t' = length t \<and> plain_map t' = (plain_map t)(v \<mapsto> v)"
proof -
  consider (old) "v \<noteq> 0" "v \<in> set t" "t' = t"
    | (new) i where "v \<noteq> 0" "i < length t" "t ! i = 0" "t' = t[i := v]"
  proof -
    show thesis
    proof (cases "v = 0 \<or> v \<in> set t")
      case True
      with assms have "v \<noteq> 0" "v \<in> set t" "t' = t" by (auto simp: plain_put_def split: if_splits)
      then show thesis by (rule that(1))
    next
      case False
      with assms obtain i where i: "List.find (\<lambda>i. t ! i = 0) [0..<length t] = Some i" "t' = t[i := v]"
        by (auto simp: plain_put_def split: option.splits)
      from i(1) have "i < length t" "t ! i = 0"
        by (auto simp del: upt_Suc dest!: find_Some_iff [THEN iffD1])
      with False i(2) show thesis by (intro that(2)) auto
    qed
  qed
  then show ?thesis
  proof cases
    case new
    then have "set t' - {0} = insert v (set t - {0})"
    proof (intro set_eqI iffI)
      fix x assume "x \<in> set t' - {0}"
      then show "x \<in> insert v (set t - {0})" using new set_update_subset_insert [of t i v] by auto
    next
      fix x assume x: "x \<in> insert v (set t - {0})"
      show "x \<in> set t' - {0}"
      proof (cases "x = v")
        case True
        with new show ?thesis by (simp add: set_update_memI)
      next
        case False
        with x obtain j where "j < length t" "t ! j = x" "x \<noteq> 0" by (auto simp: in_set_conv_nth)
        with new have "j \<noteq> i" by auto
        with \<open>j < length t\<close> \<open>t ! j = x\<close> new(4) have "j < length t'" "t' ! j = x" by simp_all
        with \<open>x \<noteq> 0\<close> show ?thesis by (auto simp: in_set_conv_nth)
      qed
    qed
    then have "k \<noteq> 0 \<and> k \<in> set t' \<longleftrightarrow> k = v \<or> k \<noteq> 0 \<and> k \<in> set t" for k
      by (metis Diff_iff insert_iff singletonD singletonI)
    then have "plain_map t' = (plain_map t)(v \<mapsto> v)" by (auto simp: plain_map_def fun_eq_iff)
    with new show ?thesis by simp
  qed (auto simp: plain_map_def)
qed

lemma plain_hash_laws: "hash_laws u8_cell (\<lambda>v. v) (\<lambda>t. True) plain_map plain_hash"
  unfolding hash_laws_def
proof (intro conjI allI impI)
  fix t t' v
  assume "line_pow2 (length t) \<and> list_all (cok u8_cell) t \<and> cok u8_cell v \<and> True \<and> TPut plain_hash t v = (OK, t')"
  then have "plain_put t v = (OK, t')" by (simp add: plain_hash_def)
  with plain_put_map [OF this]
  show "length t' = length t" "plain_map t' = (plain_map t)(v \<mapsto> v)" by simp_all
next
  fix t v t'
  assume "line_pow2 (length t) \<and> list_all (cok u8_cell) t \<and> True \<and> TDel plain_hash t v = t'"
  then have t': "t' = (if v = 0 then t else map (\<lambda>x. if x = v then 0 else x) t)"
    by (simp add: plain_hash_def)
  then show "length t' = length t" by simp
  show "plain_map t' = (plain_map t)(v := None)"
  proof (cases "v = 0")
    case False
    then have "k \<noteq> 0 \<and> k \<in> set t' \<longleftrightarrow> k \<noteq> v \<and> k \<noteq> 0 \<and> k \<in> set t" for k
      using t' by auto
    then show ?thesis by (auto simp: plain_map_def fun_eq_iff)
  qed (auto simp: t' plain_map_def fun_eq_iff)
qed (simp_all add: plain_hash_def plain_map_def fun_eq_iff word_cell_def list_all_iff)

section \<open>Properties\<close>

text \<open>
  C14: the gate of a hash table is exact, and the container's constructor meets it.  A lane array
  passes if and only if its capacity is a power of two and at least 16, the shape libabc's masking
  and probing need to stay inside the region; and for every number of slots a program asks
  \<open>abc.ram\<close> or \<open>abc.mmap\<close> for, \<open>pow2up\<close> ends with such a capacity, not below the request.
\<close>

theorem hash_gate_exact:
  assumes "abc_laws A" and "base \<noteq> 0" and "JABCViewOf E arr w = (Inr (base, len), w)"
  shows "JABCLaneArr_hash E A esz arr w =
      (if \<exists>k. 4 \<le> k \<and> len div esz = 2 ^ k then Inr (base, len div esz)
       else Inl (ThrowError (''hash: the table needs a power-of-two slot count '' @
              ''of at least 16 (use abc.ram/abc.mmap)'')), w) \<and>
    (\<exists>k. 4 \<le> k \<and> pow2up n = 2 ^ k) \<and> n \<le> pow2up n"
proof -
  let ?b = "\<lparr>b0 = base, b1 = base, b2 = base + len, b3 = base + len\<rparr>"
  have "JABCDataOf E A arr w = (Inr ?b, w)"
    using assms abc_okI [OF assms(1), of ?b] by (auto simp: JABCDataOf_Inr wf_u8b_def)
  moreover have "data_len ?b = len" by (simp add: data_len_def)
  ultimately show ?thesis
    using pow2up_ok [of n]
    unfolding JABCLaneArr_hash_def Let_def gate_line_pow2 by (auto simp: line_pow2_def)
qed

theorem hash_gate_exact_witness:
  "\<forall>w. JABCLaneArr_hash (ram_engine [(100, 20)]) sample_abc 1 (JObj 0) w \<noteq> (Inr (100, 20), w) \<and> 20 \<le> pow2up 20"
proof (rule allI)
  fix w
  have no: "\<not> (\<exists>k. 4 \<le> k \<and> (20::nat) div 1 = 2 ^ k)"
  proof
    assume "\<exists>k. 4 \<le> k \<and> (20::nat) div 1 = 2 ^ k"
    then obtain k where k: "4 \<le> k" "(20::nat) = 2 ^ k" by auto
    then have "k = 4 \<or> 5 \<le> k" by auto
    with k(2) power_increasing [of 5 k "2::nat"] show False by auto
  qed
  have "JABCViewOf (ram_engine [(100, 20)]) (JObj 0) w = (Inr (100, 20), w)" by (simp add: ram_view)
  from hash_gate_exact [OF sample_abc_laws _ this, of 1 20] no
  show "JABCLaneArr_hash (ram_engine [(100, 20)]) sample_abc 1 (JObj 0) w \<noteq> (Inr (100, 20), w) \<and> 20 \<le> pow2up 20"
    by simp
qed

text \<open>
  What libabc says of a table of an admitted capacity: a put or a delete works in place.  Of other
  capacities nothing is known (the operations may write past the region).
\<close>

definition in_place :: "'r cell \<Rightarrow> 'r hash_ops \<Rightarrow> bool" where
  "in_place C T \<longleftrightarrow> (\<forall>t v. line_pow2 (length t) \<longrightarrow>
     length (snd (TPut T t v)) = length t \<and> length (TDel T t v) = length t) \<and>
     (\<forall>t v. list_all (cok C) t \<and> cok C v \<longrightarrow> list_all (cok C) (snd (TPut T t v))) \<and>
     (\<forall>t v. list_all (cok C) t \<longrightarrow> list_all (cok C) (TDel T t v))"

lemma put_cells_inside:
  assumes "mem_laws E M" and "lane_codec C" and "length t = len div csize C" and "list_all (cok C) t"
  shows "same_outside E M base (base + len) w (put_cells C M base t w)"
  by (rule same_outside_put [OF assms(2,1,4)]) (simp add: assms(3))

text \<open>
  C9: no hash leaf writes outside its table.  Whatever the arguments are (too few, not a view, a view
  of any length, values that do not read), after a call of a leaf of any of the ten lanes either
  nothing has changed, or the first argument is a view of an admitted capacity and nothing has changed
  but bytes of that view; a lookup changes nothing at all.
\<close>

theorem hash_leaves_stay_inside:
  assumes "mem_laws E M" and "lane_codec (tcell L)" and "reads_ok L" and "in_place (tcell L) T"
    and "f \<in> {jhash_put E A M L T, jhash_get E A M L T, jhash_del E A M L T}"
  shows "snd (f argv w) = w \<or>
      f \<noteq> jhash_get E A M L T \<and>
      (\<exists>base len k. JABCViewOf E (argv ! 0) w = (Inr (base, len), w) \<and> 4 \<le> k \<and>
        len div csize (tcell L) = 2 ^ k \<and> same_outside E M base (base + len) w (snd (f argv w)))"
proof (cases "snd (f argv w) = w")
  case False
  let ?C = "tcell L"
  have ro: "quiet (RDPUT L argv)" "quiet (RDKEY L argv)" and cv: "RDPUT L argv w = (Inr v, w') \<Longrightarrow> cok ?C v" for v w'
    using assms(3) by (simp_all add: reads_ok_def) blast
  obtain g w1 where lane: "JABCLaneArr_hash E A (csize ?C) (argv ! 0) w = (g, w1)" by fastforce
  then have w1: "w1 = w" using JABCLaneArr_hash_quiet quietD by metis
  obtain x w2 where put: "RDPUT L argv w = (x, w2)" by fastforce
  then have w2: "w2 = w" using ro(1) quietD by metis
  obtain y w3 where key: "RDKEY L argv w = (y, w3)" by fastforce
  then have w3: "w3 = w" using ro(2) quietD by metis
  have "jhash_get E A M L T argv w = (fst (jhash_get E A M L T argv w), w)"
    using lane key unfolding w1 w3 by (auto simp: jhash_get_def need_def jbind_def split: sum.splits prod.splits)
  then have get: "f \<noteq> jhash_get E A M L T" using False by (metis snd_conv)
  from False assms(5) get obtain base cap t where g: "g = Inr (base, cap)" and
    t: "snd (f argv w) = put_cells ?C M base t w" and
    how: "(\<exists>v. x = Inr v \<and> t = snd (TPut T (cells ?C M w base cap) v)) \<or> (\<exists>v. t = TDel T (cells ?C M w base cap) v)"
    using lane put key unfolding w1 w2 w3
    by (auto simp: jhash_put_def jhash_del_def need_def jbind_def split: sum.splits prod.splits if_splits) blast
  from lane g w1 obtain len where v: "JABCViewOf E (argv ! 0) w = (Inr (base, len), w)"
    and c: "cap = len div csize ?C" "line_pow2 cap"
    by (auto simp: JABCLaneArr_hash_Inr)
  have "length t = cap \<and> list_all (cok ?C) t"
    using how c(2) assms(4) lane_codec.cells_ok [OF assms(2)] cv put unfolding in_place_def by (metis length_cells)
  with put_cells_inside [OF assms(1,2)] c(1) have "same_outside E M base (base + len) w (snd (f argv w))"
    unfolding t by blast
  with get v c show ?thesis by (auto simp: line_pow2_def)
qed simp

lemma plain_in_place: "in_place u8_cell plain_hash"
  by (auto simp: in_place_def plain_hash_def plain_put_def word_cell_def list_all_iff split: option.splits)

theorem hash_leaves_stay_inside_witness:
  "let E = ram_engine [(100, 16)]; L = (HASH_NUM E ''u8'' :: (_, u8) tlane);
      w' = snd (jhash_put E sample_abc ram L plain_hash [JObj 0, JNum (Fin 7)] (\<lambda>x. 9)) in
   w' 99 = 9 \<and> w' 116 = 9"
proof -
  let ?E = "ram_engine [(100, 16)]"
  let ?L = "HASH_NUM ?E ''u8'' :: (_, u8) tlane"
  have lc: "lane_codec (tcell ?L)" "in_place (tcell ?L) plain_hash"
    by (simp_all add: HASH_NUM_def u8_lane.lane_codec_axioms plain_in_place)
  have view: "JABCViewOf ?E (JObj 0) w = (Inr (b, l), w) \<Longrightarrow> b = 100 \<and> l = 16" for w b l
    by (simp add: ram_view)
  have "jhash_put ?E sample_abc ram ?L plain_hash \<in> {jhash_put ?E sample_abc ram ?L plain_hash,
      jhash_get ?E sample_abc ram ?L plain_hash, jhash_del ?E sample_abc ram ?L plain_hash}" by simp
  from hash_leaves_stay_inside [OF ram_laws lc(1) reads_ok_lanes(1) [OF ram_prim_quiet] lc(2) this,
      of "[JObj 0, JNum (Fin 7)]" "\<lambda>x. 9"]
  show ?thesis
    unfolding Let_def by (auto simp: same_outside_def ram_def dest!: view)
qed

text \<open>
  And what is in them is a map: from a zeroed table of an admitted capacity, after any sequence of
  puts and deletes that all return, a lookup answers the element last put under the key, or undefined
  when there is none or it was deleted since.  It is for arguments that denote the same element in
  every state, as numbers and BigInts do and views of bytes do not.
\<close>

theorem hash_leaves_are_a_map:
  assumes "hash_setting E A M (tcell L) key tok tmap T" and "reads_ok L" and "base \<noteq> 0"
    and "JABCViewOf E arr w = (Inr (base, len), w)" and "line_pow2 (len div csize (tcell L))"
    and "cells (tcell L) M w base (len div csize (tcell L)) =
      replicate (len div csize (tcell L)) (cdec (tcell L) (replicate (csize (tcell L)) 0))"
    and "run_cmds (\<lambda>vs. jhash_put E A M L T (arr # vs)) (\<lambda>vs. jhash_del E A M L T (arr # vs))
      (map fst cs) w = (Inr u, w')"
    and "\<forall>x \<in> set cs. \<forall>w. (case fst x of CPut vs \<Rightarrow> denotes (NPUT L) (RDPUT L) arr vs w
      | CDel vs \<Rightarrow> denotes (NKEY L) (RDKEY L) arr vs w) = Some (snd x)"
    and "denotes (NKEY L) (RDKEY L) arr vs w' = Some v"
  shows "jhash_get E A M L T (arr # vs) w' =
    (Inr (case spec_cmds key cs Map.empty (key v) of None \<Rightarrow> JVal JUndef | Some r \<Rightarrow> WRGET L r), w')"
proof -
  have "tok (cells (tcell L) M w base (len div csize (tcell L))) \<and>
      tmap (cells (tcell L) M w base (len div csize (tcell L))) = Map.empty"
    unfolding assms(6) using assms(1) hash_laws_zero [of "tcell L" key tok tmap T, OF _ assms(5)]
    by (simp only: hash_setting_def)
  then have "table_inv E A M (tcell L) key tok tmap T arr base len w \<and> reads_ok L"
    and look: "table_look M (tcell L) tmap base len w = Map.empty"
    using assms(1-5) by (simp_all add: table_inv_def table_look_def)
  let ?inv = "\<lambda>w. table_inv E A M (tcell L) key tok tmap T arr base len w \<and> reads_ok L"
  have reads: "\<forall>x \<in> set cs. \<forall>s. ?inv s \<longrightarrow> (case fst x of CPut vs \<Rightarrow> denotes (NPUT L) (RDPUT L) arr vs s
      | CDel vs \<Rightarrow> denotes (NKEY L) (RDKEY L) arr vs s) = Some (snd x)"
    using assms(8) by blast
  show ?thesis
    using hash_table.get_after_cmds [OF \<open>?inv w\<close> assms(7) reads assms(9)] unfolding look .
qed

theorem hash_leaves_are_a_map_witness:
  "let E = ram_engine [(100, 16)]; L = (HASH_NUM E ''u8'' :: (_, u8) tlane) in
   \<exists>w'. jhash_get E sample_abc ram L plain_hash [JObj 0, JNum (Fin 7)] w' = (Inr (JVal (wr_num (7 :: u8))), w') \<and>
     jhash_get E sample_abc ram L plain_hash [JObj 0, JNum (Fin 9)] w' = (Inr (JVal JUndef), w')"
proof -
  let ?E = "ram_engine [(100, 16)]"
  let ?L = "HASH_NUM ?E ''u8'' :: (_, u8) tlane"
  let ?put = "\<lambda>vs. jhash_put ?E sample_abc ram ?L plain_hash (JObj 0 # vs)"
  let ?del = "\<lambda>vs. jhash_del ?E sample_abc ram ?L plain_hash (JObj 0 # vs)"
  let ?w = "(\<lambda>x. 0) :: addr \<Rightarrow> u8"
  let ?cs = "[(CPut [JNum (Fin 7)], 7)] :: (cmd \<times> u8) list"
  have setting: "hash_setting ?E sample_abc ram (tcell ?L) (\<lambda>v. v) (\<lambda>t. True) plain_map plain_hash"
    by (simp add: hash_setting_def HASH_NUM_def sample_abc_laws ram_laws u8_lane.lane_codec_axioms plain_hash_laws)
  have view: "JABCViewOf ?E (JObj 0) w = (Inr (100, 16), w)" for w by (simp add: ram_view)
  have size: "csize (tcell ?L) = 1" by (simp add: HASH_NUM_def word_cell_def)
  have pow: "line_pow2 (16 div csize (tcell ?L))" by (simp add: size line_pow2_def) (rule exI [of _ 4], simp)
  then have "line_pow2 16" by (simp add: size)
  then have lane: "JABCLaneArr_hash ?E sample_abc 1 (JObj 0) w = (Inr (100, 16), w)" for w
    using hash_gate_exact [OF sample_abc_laws _ view, of 1 w] by (simp add: line_pow2_def)
  have num: "rd_num ?E 1 [JObj 0, JNum (Fin 7)] w = (Inr (7 :: u8), w)"
    "rd_num ?E 1 [JObj 0, JNum (Fin 9)] w = (Inr (9 :: u8), w)" for w
    by (simp_all add: rd_num_def JABCNumOf_def ram_engine_def sample_number_def num_cast_def
        cast_or_undef_def c_cast_def)
  have reads: "denotes (NPUT ?L) (RDPUT ?L) (JObj 0) [JNum (Fin 7)] w = Some 7"
    "denotes (NKEY ?L) (RDKEY ?L) (JObj 0) [JNum (Fin 7)] w = Some 7"
    "denotes (NKEY ?L) (RDKEY ?L) (JObj 0) [JNum (Fin 9)] w = Some 9" for w
    using num by (simp_all add: denotes_def HASH_NUM_def)
  have zero: "cells (tcell ?L) ram ?w 100 16 = replicate 16 0"
    by (rule nth_equalityI) (simp_all add: cell_at_def HASH_NUM_def word_cell_def bytes_at_def ram_def)
  have slot: "plain_put (replicate 16 0) 7 = (OK, (replicate 16 0) [0 := 7])"
    by (simp add: plain_put_def upt_conv_Cons)
  have put: "fst (?put [JNum (Fin 7)] ?w) = Inr (JVal JUndef)"
    using lane num(1) zero slot size
    by (simp add: jhash_put_def plain_hash_def HASH_NUM_def)
  then obtain w' where "run_cmds ?put ?del (map fst ?cs) ?w = (Inr (), w')"
    by (cases "?put [JNum (Fin 7)] ?w") simp
  note get = hash_leaves_are_a_map [OF setting reads_ok_lanes(1) [OF ram_prim_quiet] _ view pow _ this]
  have "cells (tcell ?L) ram ?w 100 (16 div csize (tcell ?L)) =
      replicate (16 div csize (tcell ?L)) (cdec (tcell ?L) (replicate (csize (tcell ?L)) 0))"
    using zero by (simp add: size) (simp add: HASH_NUM_def word_cell_def)
  from get [OF _ this _ reads(2)] get [OF _ this _ reads(3)] reads(1)
  show ?thesis
    unfolding Let_def
    by (intro exI [of _ w']) (simp add: spec_cmds_def HASH_NUM_def)
qed

end
