(* ===== verification/Hit.thy ===== *)
theory Hit
  imports Heap
begin

text \<open>
  \<open>hit.c\<close>: bulk operations over sorted runs: sort a container in place, merge or intersect an array
  of typed arrays into a destination or into fresh memory.  The sort and the k-way walk are
  libabc's (\<open>QSORTx.h\<close>, \<open>HITx.h\<close>), parameters; the runs are slices of memory, the merge is a
  change of memory.
\<close>

type_synonym bslice = "addr \<times> addr"

text \<open>
  \<open>HMerge\<close> and \<open>HIsect\<close>: the runs, the destination, and the state give a code, the head of the
  destination past the output, and the new state.
\<close>

record ('w, 'r) kway_ops =
  SSort :: "'r list \<Rightarrow> 'r list"
  HMerge :: "bslice list \<Rightarrow> bslice \<Rightarrow> 'w \<Rightarrow> (ok64 \<times> addr) \<times> 'w"
  HIsect :: "bslice list \<Rightarrow> bslice \<Rightarrow> nat \<Rightarrow> 'w \<Rightarrow> (ok64 \<times> addr) \<times> 'w"

record 'w cheap =
  malloc :: "nat \<Rightarrow> 'w \<Rightarrow> addr \<times> 'w"
  mfree :: "addr \<Rightarrow> 'w \<Rightarrow> 'w"

definition HIT_CAP :: nat where "HIT_CAP = 64"

definition TOO_MANY_RUNS :: exn where
  "TOO_MANY_RUNS = ThrowError ''too many index runs: drop them and re-derive the index''"

section \<open>The leaves\<close>

definition JABCRunsLen :: "'w engine \<Rightarrow> jsval \<Rightarrow> ('w, u64) js" where
  "JABCRunsLen E arr = jbind (get_prop E arr ''length'') (\<lambda>lv. JABCu64Of E lv)"

definition jsort :: "'w engine \<Rightarrow> abc \<Rightarrow> 'w memory \<Rightarrow> string \<Rightarrow> 'r cell \<Rightarrow> ('w, 'r) kway_ops \<Rightarrow> jsval list \<Rightarrow>
    ('w, jout) js" where
  "jsort E A M nm C K argv =
     need 2 (''_sort_'' @ nm @ ''(arr, size)'') argv
     (jbind (JABCu64Of E (argv ! 1)) (\<lambda>n.
      jbind (JABCLaneArr E A (csize C) (argv ! 0)) (\<lambda>(base, cap).
      let n = (if cap < unat n then cap else unat n) in
      jbind (jput (\<lambda>w. put_cells C M base (SSort K (cells C M w base n)) w)) (\<lambda>_. js_undef))))"

text \<open>The entries: the head and the end of every run, and the sum of their whole elements.\<close>

definition run_entries :: "(addr \<times> nat) list \<Rightarrow> bslice list" where
  "run_entries runs = map (\<lambda>(b, n). (b, b + n)) runs"

definition run_total :: "nat \<Rightarrow> (addr \<times> nat) list \<Rightarrow> nat" where
  "run_total sz runs = sum_list (map (\<lambda>(b, n). n div sz) runs)"

definition kway :: "('w, 'r) kway_ops \<Rightarrow> bool \<Rightarrow> (addr \<times> nat) list \<Rightarrow> bslice \<Rightarrow> 'w \<Rightarrow> (ok64 \<times> addr) \<times> 'w" where
  "kway K isect runs dst =
     (if runs = [] then Pair (OK, fst dst)
      else if isect then HIsect K (run_entries runs) dst (length runs)
      else HMerge K (run_entries runs) dst)"

text \<open>Into a destination the caller gave: the count of the elements written.\<close>

definition kway_into :: "'w engine \<Rightarrow> abc \<Rightarrow> 'r cell \<Rightarrow> ('w, 'r) kway_ops \<Rightarrow> bool \<Rightarrow> (addr \<times> nat) list \<Rightarrow> jsval \<Rightarrow>
    ('w, jout) js" where
  "kway_into E A C K isect runs dst =
     jbind (JABCDataOf E A dst) (\<lambda>d. \<lambda>w.
       if data_len d < run_total (csize C) runs * csize C
       then (Inl (ThrowError ''merge: out too small''), w)
       else case kway K isect runs (b1 d, b2 d) w of ((mo, hd'), w') \<Rightarrow>
         if mo \<noteq> OK then (Inl (ThrowError ''merge: out too small''), w')
         else js_num ((hd' - b1 d) div csize C) w')"

text \<open>Into fresh memory, which a view of the elements written then owns.\<close>

definition kway_fresh :: "'w engine \<Rightarrow> 'w cheap \<Rightarrow> 'r cell \<Rightarrow> ('w, 'r) kway_ops \<Rightarrow> bool \<Rightarrow> (addr \<times> nat) list \<Rightarrow>
    ('w, jout) js" where
  "kway_fresh E P C K isect runs = (\<lambda>w.
     let bytes = run_total (csize C) runs * csize C in
     case malloc P (bytes + 1) w of (mem, w1) \<Rightarrow>
       if mem = 0 then (Inl (ThrowError ''merge: out of memory''), w1)
       else case kway K isect runs (mem, mem + bytes) w1 of ((mo, hd'), w2) \<Rightarrow>
         if mo \<noteq> OK then (Inl (ThrowError ''merge: out too small''), mfree P mem w2)
         else let cnt = (hd' - mem) div csize C in
           case new_external E mem bytes True w2 of
             (Inl e, w3) \<Rightarrow> (Inl e, mfree P mem w3)
           | (Inr whole, w3) \<Rightarrow> jbind (JABCSubView E whole 0 (cnt * csize C)) (\<lambda>v. jret (JVal v)) w3)"

definition JABChit :: "'w engine \<Rightarrow> abc \<Rightarrow> 'w cheap \<Rightarrow> 'r cell \<Rightarrow> ('w, 'r) kway_ops \<Rightarrow> bool \<Rightarrow> jsval list \<Rightarrow>
    ('w, jout) js" where
  "JABChit E A P C K isect argv =
     (if argv = [] \<or> \<not> is_obj (argv ! 0) then jthrow (ThrowError ''merge/intersect([runs])'')
      else jbind (JABCRunsLen E (argv ! 0)) (\<lambda>N.
        if HIT_CAP < unat N then jthrow TOO_MANY_RUNS
        else jbind (JABCRunsOf E (unat N) (argv ! 0)) (\<lambda>(runs, rv). \<lambda>w.
          if 2 \<le> length argv \<and> is_typed E w (argv ! 1)
          then kway_into E A C K isect runs (argv ! 1) w
          else kway_fresh E P C K isect runs w)))"

definition jmerge :: "'w engine \<Rightarrow> abc \<Rightarrow> 'w cheap \<Rightarrow> 'r cell \<Rightarrow> ('w, 'r) kway_ops \<Rightarrow> jsval list \<Rightarrow> ('w, jout) js" where
  "jmerge E A P C K argv = JABChit E A P C K False argv"

definition jisect :: "'w engine \<Rightarrow> abc \<Rightarrow> 'w cheap \<Rightarrow> 'r cell \<Rightarrow> ('w, 'r) kway_ops \<Rightarrow> jsval list \<Rightarrow> ('w, jout) js" where
  "jisect E A P C K argv = JABChit E A P C K True argv"

section \<open>What libabc promises\<close>

definition same :: "('r \<Rightarrow> 'r \<Rightarrow> bool) \<Rightarrow> 'r \<Rightarrow> 'r \<Rightarrow> bool" where
  "same Z a b \<longleftrightarrow> \<not> Z a b \<and> \<not> Z b a"

text \<open>The sorted union of runs, and the sorted list of what is in all of them.\<close>

definition union_of :: "('r \<Rightarrow> 'r \<Rightarrow> bool) \<Rightarrow> 'r list list \<Rightarrow> 'r list \<Rightarrow> bool" where
  "union_of Z runs ms \<longleftrightarrow> sorted_wrt Z ms \<and>
     (\<forall>m \<in> set ms. \<exists>r \<in> set runs. m \<in> set r) \<and> (\<forall>r \<in> set runs. \<forall>x \<in> set r. \<exists>m \<in> set ms. same Z m x)"

definition common_of :: "('r \<Rightarrow> 'r \<Rightarrow> bool) \<Rightarrow> 'r list list \<Rightarrow> 'r list \<Rightarrow> bool" where
  "common_of Z runs ms \<longleftrightarrow> sorted_wrt Z ms \<and>
     (\<forall>m \<in> set ms. \<forall>r \<in> set runs. \<exists>x \<in> set r. same Z m x) \<and>
     (\<forall>x. (\<forall>r \<in> set runs. \<exists>y \<in> set r. same Z x y) \<longrightarrow> (\<exists>m \<in> set ms. same Z m x))"

definition runs_at :: "'r cell \<Rightarrow> 'w memory \<Rightarrow> 'w \<Rightarrow> (addr \<times> nat) list \<Rightarrow> 'r list list" where
  "runs_at C M w runs = map (\<lambda>(b, n). cells C M w b (n div csize C)) runs"

text \<open>
  The laws hold where the comments ask for it: the runs are of whole elements and sorted, the
  destination has room for all of them and overlaps none.
\<close>

definition kway_ready :: "'r cell \<Rightarrow> 'w memory \<Rightarrow> ('r \<Rightarrow> 'r \<Rightarrow> bool) \<Rightarrow> 'w \<Rightarrow> (addr \<times> nat) list \<Rightarrow> bslice \<Rightarrow> bool" where
  "kway_ready C M Z w runs dst \<longleftrightarrow>
     (\<forall>(b, n) \<in> set runs. csize C dvd n \<and> (b + n \<le> fst dst \<or> snd dst \<le> b)) \<and>
     (\<forall>r \<in> set (runs_at C M w runs). sorted_wrt (\<lambda>x y. \<not> Z y x) r) \<and>
     fst dst + run_total (csize C) runs * csize C \<le> snd dst"

definition kway_laws :: "'r cell \<Rightarrow> 'w memory \<Rightarrow> ('r \<Rightarrow> 'r \<Rightarrow> bool) \<Rightarrow> ('w, 'r) kway_ops \<Rightarrow> bool" where
  "kway_laws C M Z K \<longleftrightarrow>
     (\<forall>w runs dst. runs \<noteq> [] \<and> kway_ready C M Z w runs dst \<longrightarrow>
        (\<exists>ms. HMerge K (run_entries runs) dst w =
            ((OK, fst dst + length ms * csize C), put_cells C M (fst dst) ms w) \<and>
          length ms \<le> run_total (csize C) runs \<and> list_all (cok C) ms \<and>
          union_of Z (runs_at C M w runs) ms) \<and>
        (\<exists>ms. HIsect K (run_entries runs) dst (length runs) w =
            ((OK, fst dst + length ms * csize C), put_cells C M (fst dst) ms w) \<and>
          length ms \<le> run_total (csize C) runs \<and> list_all (cok C) ms \<and>
          common_of Z (runs_at C M w runs) ms)) \<and>
     (\<forall>xs. mset (SSort K xs) = mset xs \<and> sorted_wrt (\<lambda>x y. \<not> Z y x) (SSort K xs))"

lemma union_of_Nil: "union_of Z [] ms \<longleftrightarrow> ms = []"
  by (cases ms) (auto simp: union_of_def)

section \<open>Sorting in place\<close>

lemma jsort_sorts:
  assumes laws: "kway_laws C M Z K" "mem_laws E M" "lane_codec C" "abc_laws A"
    and ret: "jsort E A M nm C K argv w = (Inr out, w')"
  shows "\<exists>n w1 base len. JABCu64Of E (argv ! 1) w = (Inr n, w1) \<and>
    JABCViewOf E (argv ! 0) w1 = (Inr (base, len), w1) \<and>
    (let k = min (unat n) (len div csize C) in
     mset (cells C M w' base k) = mset (cells C M w1 base k) \<and>
     sorted_wrt (\<lambda>x y. \<not> Z y x) (cells C M w' base k) \<and>
     same_outside E M base (base + k * csize C) w1 w')"
proof -
  from ret obtain n w1 base cap w2 where n: "JABCu64Of E (argv ! 1) w = (Inr n, w1)"
    and arr: "JABCLaneArr E A (csize C) (argv ! 0) w1 = (Inr (base, cap), w2)"
    and w': "w' = put_cells C M base (SSort K (cells C M w2 base (if cap < unat n then cap else unat n))) w2"
    by (auto simp: jsort_def need_eq_Inr jbind_eq_Inr Let_def)
  have w2: "w2 = w1" by (rule quietD [OF JABCLaneArr_quiet arr])
  obtain len where v: "JABCViewOf E (argv ! 0) w1 = (Inr (base, len), w1)" "cap = len div csize C"
    using arr w2 by (auto simp: JABCLaneArr_Inr [OF laws(4)])
  define k where "k = min (unat n) (len div csize C)"
  have k: "(if cap < unat n then cap else unat n) = k" using v(2) by (auto simp: k_def)
  let ?xs = "cells C M w1 base k" and ?ys = "SSort K (cells C M w1 base k)"
  have s: "mset ?ys = mset ?xs" "sorted_wrt (\<lambda>x y. \<not> Z y x) ?ys"
    using laws(1) by (simp_all add: kway_laws_def)
  have len: "length ?ys = k" using s(1) by (metis length_cells size_mset)
  have "set ?ys = set ?xs" using s(1) by (rule mset_eq_setD)
  then have ok: "list_all (cok C) ?ys"
    using lane_codec.cells_ok [OF laws(3), of M w1 base k] by (simp add: list_all_iff)
  have w1': "w' = put_cells C M base ?ys w1" using w' by (simp only: w2 k)
  have "cells C M w' base k = ?ys"
    using lane_codec.cells_put [OF laws(3,2) ok, of base w1] by (simp only: len w1')
  moreover have "same_outside E M base (base + k * csize C) w1 w'"
    unfolding w1' using len by (intro same_outside_put [OF laws(3,2) ok]) simp
  ultimately show ?thesis
    using n v(1) s unfolding Let_def
    by (intro exI [of _ n] exI [of _ w1] exI [of _ base] exI [of _ len]) (simp add: k_def)
qed

section \<open>Properties\<close>

lemma kway_ok:
  assumes "kway_laws C M Z K" and "kway_ready C M Z w runs dst" and "runs \<noteq> []"
  shows "\<exists>ms. kway K isect runs dst w =
      ((OK, fst dst + length ms * csize C), put_cells C M (fst dst) ms w) \<and>
    length ms \<le> run_total (csize C) runs \<and> list_all (cok C) ms \<and>
    (if isect then common_of Z (runs_at C M w runs) ms else union_of Z (runs_at C M w runs) ms)"
proof (cases isect)
  case True
  from assms(1) have "\<exists>ms. HIsect K (run_entries runs) dst (length runs) w =
            ((OK, fst dst + length ms * csize C), put_cells C M (fst dst) ms w) \<and>
          length ms \<le> run_total (csize C) runs \<and> list_all (cok C) ms \<and>
          common_of Z (runs_at C M w runs) ms"
    unfolding kway_laws_def using assms(2,3) by blast
  with True assms(3) show ?thesis by (simp add: kway_def)
next
  case False
  from assms(1) have "\<exists>ms. HMerge K (run_entries runs) dst w =
            ((OK, fst dst + length ms * csize C), put_cells C M (fst dst) ms w) \<and>
          length ms \<le> run_total (csize C) runs \<and> list_all (cok C) ms \<and>
          union_of Z (runs_at C M w runs) ms"
    unfolding kway_laws_def using assms(2,3) by blast
  with False assms(3) show ?thesis by (simp add: kway_def)
qed

lemma JABChit_Inr:
  assumes "JABChit E A P C K isect argv w = (Inr out, w')"
  shows "\<exists>(N :: u64) w0 runs rv w1. \<not> HIT_CAP < unat N \<and> JABCRunsOf E (unat N) (argv ! 0) w0 = (Inr (runs, rv), w1) \<and>
    (if 2 \<le> length argv \<and> is_typed E w1 (argv ! 1)
     then kway_into E A C K isect runs (argv ! 1) w1
     else kway_fresh E P C K isect runs w1) = (Inr out, w')"
proof -
  have a: "\<not> (argv = [] \<or> \<not> is_obj (argv ! 0))"
  proof
    assume "argv = [] \<or> \<not> is_obj (argv ! 0)"
    from assms [unfolded JABChit_def if_P [OF this]] show False by simp
  qed
  from assms obtain N :: u64 and w0 where r: "(if HIT_CAP < unat N then jthrow TOO_MANY_RUNS
      else jbind (JABCRunsOf E (unat N) (argv ! 0)) (\<lambda>(runs, rv). \<lambda>w.
          if 2 \<le> length argv \<and> is_typed E w (argv ! 1)
          then kway_into E A C K isect runs (argv ! 1) w
          else kway_fresh E P C K isect runs w)) w0 = (Inr out, w')"
    unfolding JABChit_def if_not_P [OF a] jbind_eq_Inr by (elim exE conjE) (rule that)
  then have b: "\<not> HIT_CAP < unat N" by auto
  from r obtain p w1 where p: "JABCRunsOf E (unat N) (argv ! 0) w0 = (Inr p, w1)"
    "(case p of (runs, rv) \<Rightarrow> \<lambda>w.
          if 2 \<le> length argv \<and> is_typed E w (argv ! 1)
          then kway_into E A C K isect runs (argv ! 1) w
          else kway_fresh E P C K isect runs w) w1 = (Inr out, w')"
    unfolding if_not_P [OF b] jbind_eq_Inr by (elim exE conjE) (rule that)
  obtain runs rv where "p = (runs, rv)" by (cases p)
  with p have "JABCRunsOf E (unat N) (argv ! 0) w0 = (Inr (runs, rv), w1)"
    "(if 2 \<le> length argv \<and> is_typed E w1 (argv ! 1)
     then kway_into E A C K isect runs (argv ! 1) w1
     else kway_fresh E P C K isect runs w1) = (Inr out, w')"
    by simp_all
  with b show ?thesis by blast
qed

lemma kway_into_ok:
  assumes laws: "kway_laws C M Z K" "mem_laws E M" "lane_codec C"
    and ready: "kway_ready C M Z w runs (b1 d, b2 d)" "runs \<noteq> []"
    and dst: "JABCDataOf E A dst w = (Inr d, w)"
  shows "\<exists>ms w'. kway_into E A C K isect runs dst w = (Inr (JVal (JNum (js_nat (length ms)))), w') \<and>
    length ms * csize C \<le> data_len d \<and> cells C M w' (b1 d) (length ms) = ms \<and>
    (if isect then common_of Z (runs_at C M w runs) ms else union_of Z (runs_at C M w runs) ms) \<and>
    same_outside E M (b1 d) (b2 d) w w'"
proof -
  obtain ms where ms: "kway K isect runs (b1 d, b2 d) w =
      ((OK, b1 d + length ms * csize C), put_cells C M (b1 d) ms w)"
    and n: "length ms \<le> run_total (csize C) runs" and ok: "list_all (cok C) ms"
    and u: "if isect then common_of Z (runs_at C M w runs) ms else union_of Z (runs_at C M w runs) ms"
    using kway_ok [OF laws(1) ready] by auto
  have pos: "0 < csize C" using laws(3) by (rule lane_codec.size_pos)
  have room: "b1 d + run_total (csize C) runs * csize C \<le> b2 d" using ready(1) by (simp add: kway_ready_def)
  moreover have "length ms * csize C \<le> run_total (csize C) runs * csize C"
    using n by (rule mult_le_mono1)
  ultimately have fit: "b1 d + length ms * csize C \<le> b2 d" by linarith
  have "kway_into E A C K isect runs dst w =
      (Inr (JVal (JNum (js_nat (length ms)))), put_cells C M (b1 d) ms w)"
    using dst ms room pos by (simp add: kway_into_def data_len_def)
  moreover have "cells C M (put_cells C M (b1 d) ms w) (b1 d) (length ms) = ms"
    by (rule lane_codec.cells_put [OF laws(3,2) ok])
  moreover have "same_outside E M (b1 d) (b2 d) w (put_cells C M (b1 d) ms w)"
    using fit by (intro same_outside_put [OF laws(3,2) ok]) simp
  ultimately show ?thesis using fit u by (intro exI) (auto simp: data_len_def)
qed

text \<open>
  C28: merging into a container answers the union, intersecting the intersection.  When the leaf
  collects and then unwraps the runs of its first argument, at most 64, and they are whole, sorted
  and apart from a destination that can hold all of them, it returns the length of the sorted union (or
  intersection) of what the runs hold at that moment, the destination begins with exactly these
  elements, and no byte outside it has changed.
\<close>

theorem kway_leaf_exact:
  assumes "mem_laws E M" and "lane_codec C" and "kway_laws C M Z K"
    and "2 \<le> length argv" and "is_obj (argv ! 0)"
    and "JABCRunsLen E (argv ! 0) w = (Inr N, w0)" and "unat N \<le> 64"
    and "JABCRunsOf E (unat N) (argv ! 0) w0 = (Inr (runs, rv), w1)" and "runs \<noteq> []"
    and "is_typed E w1 (argv ! 1)" and "JABCDataOf E A (argv ! 1) w1 = (Inr d, w1)"
    and "kway_ready C M Z w1 runs (b1 d, b2 d)"
  shows "\<exists>ms w'. JABChit E A P C K isect argv w = (Inr (JVal (JNum (js_nat (length ms)))), w') \<and>
    length ms * csize C \<le> data_len d \<and> cells C M w' (b1 d) (length ms) = ms \<and>
    (if isect then common_of Z (runs_at C M w1 runs) ms else union_of Z (runs_at C M w1 runs) ms) \<and>
    same_outside E M (b1 d) (b2 d) w1 w'"
proof -
  have "JABChit E A P C K isect argv w = kway_into E A C K isect runs (argv ! 1) w1"
    using assms(4-8,10) by (cases argv) (simp_all add: JABChit_def HIT_CAP_def jbind_def)
  then show ?thesis using kway_into_ok [OF assms(3,1,2,12,9,11)] by simp
qed

section \<open>A concrete walk\<close>

lemma u8_size: "csize u8_cell = 1"
  by (simp add: word_cell_def)

lemma u8_cells: "cells u8_cell M w a n = bytes_at M w a n"
  by (rule nth_equalityI) (simp_all add: cell_at_def word_cell_def bytes_at_def)

lemma u8_put_cells: "put_cells u8_cell M a ms = poke M a ms"
proof -
  have "cenc u8_cell x = [x]" for x
    using unat_less_exp [of x] by (simp add: word_cell_def)
  then have "concat (map (cenc u8_cell) ms) = ms" by (induction ms) auto
  then show ?thesis by (simp add: put_cells_def)
qed

definition slice_rows :: "(addr \<Rightarrow> u8) \<Rightarrow> bslice list \<Rightarrow> u8 list list" where
  "slice_rows w es = map (\<lambda>(a, b). bytes_at ram w a (b - a)) es"

definition plain_write :: "bslice \<Rightarrow> u8 list \<Rightarrow> (addr \<Rightarrow> u8) \<Rightarrow> (ok64 \<times> addr) \<times> (addr \<Rightarrow> u8)" where
  "plain_write dst ms w = ((OK, fst dst + length ms), poke ram (fst dst) ms w)"

definition plain_kway :: "(addr \<Rightarrow> u8, u8) kway_ops" where
  "plain_kway = \<lparr>SSort = sort,
     HMerge = (\<lambda>es dst w. plain_write dst (sort (remdups (concat (slice_rows w es)))) w),
     HIsect = (\<lambda>es dst n w. plain_write dst (sort (remdups (filter
       (\<lambda>x. \<forall>r \<in> set (slice_rows w es). x \<in> set r) (concat (slice_rows w es))))) w)\<rparr>"

lemma slice_rows_runs: "slice_rows w (run_entries runs) = runs_at u8_cell ram w runs"
  by (simp add: slice_rows_def run_entries_def runs_at_def u8_cells u8_size o_def split_def)

lemma total_rows: "length (concat (runs_at u8_cell ram w runs)) = run_total 1 runs"
  by (induction runs) (auto simp: runs_at_def run_total_def u8_cells u8_size)

lemma same_eq: "same (<) a b \<longleftrightarrow> a = (b :: 'a::linorder)"
  by (auto simp: same_def)

lemma sorted_remdups: "sorted_wrt (<) (sort (remdups (xs :: 'a::linorder list)))"
  by (simp add: strict_sorted_iff)

lemma plain_kway_laws: "kway_laws u8_cell ram (<) plain_kway"
  unfolding kway_laws_def
proof (intro conjI allI impI)
  fix w :: "addr \<Rightarrow> u8" and runs :: "(addr \<times> nat) list" and dst :: bslice
  assume a: "runs \<noteq> [] \<and> kway_ready u8_cell ram (<) w runs dst"
  let ?rs = "runs_at u8_cell ram w runs"
  have ok: "list_all (cok u8_cell) ms" for ms by (simp add: word_cell_def list_all_iff)
  let ?ms = "sort (remdups (concat ?rs))"
  have "length ?ms \<le> run_total 1 runs"
    using length_remdups_leq [of "concat ?rs"] total_rows [of w runs] by simp
  moreover have "union_of (<) ?rs ?ms"
    unfolding union_of_def same_eq by (intro conjI sorted_remdups) auto
  ultimately show "\<exists>ms. HMerge plain_kway (run_entries runs) dst w =
        ((OK, fst dst + length ms * csize u8_cell), put_cells u8_cell ram (fst dst) ms w) \<and>
      length ms \<le> run_total (csize u8_cell) runs \<and> list_all (cok u8_cell) ms \<and> union_of (<) ?rs ms"
    by (intro exI [of _ ?ms]) (simp add: plain_kway_def plain_write_def slice_rows_runs u8_size ok u8_put_cells)
  let ?f = "filter (\<lambda>x. \<forall>r \<in> set ?rs. x \<in> set r) (concat ?rs)"
  let ?cs = "sort (remdups ?f)"
  have "length ?cs \<le> run_total 1 runs"
  proof -
    have "length ?cs \<le> length ?f" using length_remdups_leq [of ?f] by (simp only: length_sort)
    also have "\<dots> \<le> length (concat ?rs)" by (rule length_filter_le)
    finally show ?thesis by (simp only: total_rows)
  qed
  moreover have "common_of (<) ?rs ?cs"
  proof -
    have "?rs \<noteq> []" using a by (simp add: runs_at_def)
    then obtain r where "r \<in> set ?rs" by (cases ?rs) auto
    then show ?thesis unfolding common_of_def same_eq by (intro conjI sorted_remdups) auto
  qed
  ultimately show "\<exists>ms. HIsect plain_kway (run_entries runs) dst (length runs) w =
        ((OK, fst dst + length ms * csize u8_cell), put_cells u8_cell ram (fst dst) ms w) \<and>
      length ms \<le> run_total (csize u8_cell) runs \<and> list_all (cok u8_cell) ms \<and> common_of (<) ?rs ms"
    by (intro exI [of _ ?cs]) (simp add: plain_kway_def plain_write_def slice_rows_runs u8_size ok u8_put_cells)
next
  fix xs :: "u8 list"
  show "mset (SSort plain_kway xs) = mset xs" by (simp add: plain_kway_def)
  have "sorted (sort xs)" by simp
  then show "sorted_wrt (\<lambda>x y. \<not> y < x) (SSort plain_kway xs)"
    by (simp add: plain_kway_def not_less)
qed

text \<open>Two runs of bytes, \<open>d e\<close> at 100 and \<open>c8 c9\<close> at 200, merged into four bytes at 300.\<close>

theorem kway_leaf_exact_witness:
  "let E = (ram_engine [(100, 2), (200, 2), (300, 4)])\<lparr>get_prop := (\<lambda>v p. jret (JNum (Fin 2)))\<rparr> in
   \<exists>ms w'. JABChit E sample_abc \<lparr>malloc = (\<lambda>n. Pair 0), mfree = (\<lambda>a w. w)\<rparr> u8_cell plain_kway False
       [JObj 9, JObj 2] (\<lambda>x. of_nat x) = (Inr (JVal (JNum (js_nat (length ms)))), w') \<and>
     bytes_at ram w' 300 (length ms) = ms \<and> union_of (<) [[100, 101], [200, 201]] ms"
proof -
  let ?E = "(ram_engine [(100, 2), (200, 2), (300, 4)])\<lparr>get_prop := (\<lambda>v p. jret (JNum (Fin 2)))\<rparr>"
  let ?P = "\<lparr>malloc = (\<lambda>n. Pair 0), mfree = (\<lambda>a w. w)\<rparr> :: (addr \<Rightarrow> u8) cheap"
  let ?w = "(\<lambda>x. of_nat x) :: addr \<Rightarrow> u8" and ?d = "\<lparr>b0 = 300, b1 = 300, b2 = 304, b3 = 304\<rparr>"
  have laws: "mem_laws ?E ram" by (simp add: mem_laws_def ram_engine_def ram_def)
  have view: "JABCViewOf ?E (JObj 0) w = (Inr (100, 2), w)" "JABCViewOf ?E (JObj 1) w = (Inr (200, 2), w)"
    "JABCViewOf ?E (JObj 2) w = (Inr (300, 4), w)" for w
    by (simp_all add: JABCViewOf_def ram_engine_def)
  have len: "JABCRunsLen ?E ([JObj 9, JObj 2] ! 0) ?w = (Inr 2, ?w)"
    by (simp add: JABCRunsLen_def JABCu64Of_prim ram_engine_def sample_number_def whole_of_def js_defs)
  have "JABCRunsOf ?E 2 (JObj 9) w = (Inr ([(100, 2), (200, 2)], [JObj 0, JObj 1]), w)" for w
    using view by (simp add: JABCRunsOf_def numeral_2_eq_2 ram_engine_def js_defs)
  then have runs: "JABCRunsOf ?E (unat (2 :: u64)) ([JObj 9, JObj 2] ! 0) ?w =
      (Inr ([(100, 2), (200, 2)], [JObj 0, JObj 1]), ?w)" by simp
  have typed: "is_typed ?E ?w ([JObj 9, JObj 2] ! 1)" by (simp add: ram_engine_def)
  have data: "JABCDataOf ?E sample_abc ([JObj 9, JObj 2] ! 1) ?w = (Inr ?d, ?w)"
    using view(3) by (simp add: JABCDataOf_def sample_abc_def wf_u8b_def)
  have at: "runs_at u8_cell ram ?w [(100, 2), (200, 2)] = [[100, 101], [200, 201]]"
    by (simp add: runs_at_def u8_cells u8_size bytes_at_def ram_def numeral_2_eq_2)
  have ready: "kway_ready u8_cell ram (<) ?w [(100, 2), (200, 2)] (b1 ?d, b2 ?d)"
    by (simp add: kway_ready_def at run_total_def u8_size)
  from kway_leaf_exact [OF laws u8_lane.lane_codec_axioms plain_kway_laws _ _ len _ runs _ typed data ready,
      where P = ?P and isect = False]
  show ?thesis unfolding Let_def at by (auto simp: u8_cells)
qed

end
