(* ===== verification/Defined.thy ===== *)
theory Defined
  imports Leaf
begin

text \<open>
  A small calculus of definedness: \<open>defined_from P m Q\<close> says that a leaf \<open>m\<close>, started where \<open>P\<close> holds,
  never runs into undefined behaviour, and that \<open>Q\<close> holds of its result when it returns.  It is how
  the theorems that a leaf touches live memory only are proved.
\<close>

text \<open>A computation that never ends in undefined behaviour from the states of a predicate.\<close>

definition defined_from :: "('w \<Rightarrow> bool) \<Rightarrow> ('w, 'a) js \<Rightarrow> ('a \<Rightarrow> 'w \<Rightarrow> bool) \<Rightarrow> bool" where
  "defined_from P m Q \<longleftrightarrow> (\<forall>w. P w \<longrightarrow> (case m w of (Inl e, w') \<Rightarrow> e \<noteq> CUndef | (Inr x, w') \<Rightarrow> Q x w'))"

lemma defined_bind:
  "defined_from P m Q \<Longrightarrow> (\<And>x. defined_from (Q x) (f x) R) \<Longrightarrow> defined_from P (jbind m f) R"
  by (fastforce simp: defined_from_def jbind_def split: prod.splits sum.splits)

lemma defined_ret: "(\<And>w. P w \<Longrightarrow> Q x w) \<Longrightarrow> defined_from P (jret x) Q"
  by (simp add: defined_from_def)

lemma defined_Pair [simp]: "(\<And>w. P w \<Longrightarrow> Q x w) \<Longrightarrow> defined_from P (Pair (Inr x)) Q"
  by (simp add: defined_from_def)

lemma defined_throw: "e \<noteq> CUndef \<Longrightarrow> defined_from P (jthrow e) Q"
  by (simp add: defined_from_def)

lemma defined_get: "(\<And>w. P w \<Longrightarrow> Q (f w) w) \<Longrightarrow> defined_from P (jget f) Q"
  by (simp add: defined_from_def)

lemma defined_if:
  "(b \<Longrightarrow> defined_from P m Q) \<Longrightarrow> (\<not> b \<Longrightarrow> defined_from P n Q) \<Longrightarrow> defined_from P (if b then m else n) Q"
  by simp

lemma defined_any: "(\<And>w. fst (m w) \<noteq> Inl CUndef) \<Longrightarrow> defined_from P m (\<lambda>_ _. True)"
  by (auto simp: defined_from_def split: prod.splits sum.splits) (metis fst_conv)

lemma defined_any_iff: "defined_from P m (\<lambda>_ _. True) \<longleftrightarrow> (\<forall>w. P w \<longrightarrow> fst (m w) \<noteq> Inl CUndef)"
  unfolding defined_from_def by (intro iff_allI imp_cong refl) (auto split: prod.splits sum.splits)

lemma view_defined: "(\<forall>v w. typed_buffer E w v \<noteq> Inl CUndef) \<Longrightarrow> fst (JABCViewOf E v w) \<noteq> Inl CUndef"
  by (auto simp: JABCViewOf_def Let_def split: sum.splits)

lemma defined_post:
  "defined_from P m Q' \<Longrightarrow> (\<And>w x w'. P w \<Longrightarrow> m w = (Inr x, w') \<Longrightarrow> Q x w') \<Longrightarrow> defined_from P m Q"
  by (fastforce simp: defined_from_def split: prod.splits sum.splits)

lemma defined_pre: "defined_from P' m Q \<Longrightarrow> (\<And>w. P w \<Longrightarrow> P' w) \<Longrightarrow> defined_from P m Q"
  by (simp add: defined_from_def)

end
