(* ===== verification/Index.thy ===== *)
theory Index
  imports Hit Pup Defined
begin

text \<open>
  \<open>index.c\<close>: the search, the merged range scan with a callback, and the compaction ladder over
  arrays of sorted runs.  The callback of a scan is JavaScript and can detach or move any run, so
  the code checks every run again after each call.  Here a read of the runs in a state in which one
  of them is no longer where it was is undefined behaviour (\<open>CUndef\<close>), and the theorem is that the
  scan never comes to one.
\<close>

section \<open>Lanes and gates\<close>

record ('w, 'r) ilane =
  iname :: string
  icell :: "'r cell"
  ARGN :: nat
  IRD :: "nat \<Rightarrow> jsval list \<Rightarrow> ('w, 'r) js"
  EMIT :: "'r \<Rightarrow> jout"

definition JABCIdxWh128 :: "'w engine \<Rightarrow> nat \<Rightarrow> jsval list \<Rightarrow> ('w, u64 \<times> u64) js" where
  "JABCIdxWh128 E i argv = rd_two (JABCBigU64Of E (argv ! i)) (JABCBigU64Of E (argv ! (i + 1)))"

definition JABCIdxU64 :: "'w engine \<Rightarrow> nat \<Rightarrow> jsval list \<Rightarrow> ('w, u64) js" where
  "JABCIdxU64 E i argv = JABCBigU64Of E (argv ! i)"

definition index_wh128 :: "'w engine \<Rightarrow> ('w, u64 \<times> u64) ilane" where
  "index_wh128 E = \<lparr>iname = ''wh128'', icell = kv64_cell, ARGN = 2, IRD = JABCIdxWh128 E,
     EMIT = (\<lambda>(k, v). JArr [JABCBigU64 k, JABCBigU64 v])\<rparr>"

definition index_u64 :: "'w engine \<Rightarrow> ('w, u64) ilane" where
  "index_u64 E = \<lparr>iname = ''u64'', icell = u64_cell, ARGN = 1, IRD = JABCIdxU64 E,
     EMIT = (\<lambda>v. JVal (JABCBigU64 v))\<rparr>"

definition JABCLaneAligned :: "addr \<Rightarrow> ('w, unit) js" where
  "JABCLaneAligned base =
     (if base mod 8 = 0 then jret () else jthrow (ThrowStr ''index: the lane array is not 8-byte aligned''))"

definition JABCLaneArr_idx :: "'w engine \<Rightarrow> abc \<Rightarrow> nat \<Rightarrow> jsval \<Rightarrow> ('w, addr \<times> nat) js" where
  "JABCLaneArr_idx E A esz arg =
     jbind (JABCDataOf E A arg) (\<lambda>b.
     jbind (JABCLaneAligned (b1 b)) (\<lambda>_. jret (b1 b, data_len b div esz)))"

text \<open>Collect, unwrap, and the alignment of every run.\<close>

primrec all_aligned :: "(addr \<times> nat) list \<Rightarrow> ('w, unit) js" where
  "all_aligned [] = jret ()"
| "all_aligned (r # rs) = jbind (JABCLaneAligned (fst r)) (\<lambda>_. all_aligned rs)"

definition JABCIdxRuns :: "'w engine \<Rightarrow> nat \<Rightarrow> jsval \<Rightarrow> ('w, (addr \<times> nat) list \<times> jsval list) js" where
  "JABCIdxRuns E n arr =
     jbind (JABCRunsOf E n arr) (\<lambda>(runs, rv). jbind (all_aligned runs) (\<lambda>_. jret (runs, rv)))"

fun JABCIdxRunsSame :: "'w engine \<Rightarrow> jsval list \<Rightarrow> (addr \<times> nat) list \<Rightarrow> ('w, unit) js" where
  "JABCIdxRunsSame E (v # rv) (r # runs) =
     jbind (JABCViewSame E v (fst r) (snd r)) (\<lambda>_. JABCIdxRunsSame E rv runs)"
| "JABCIdxRunsSame E rv runs = jret ()"

definition JABCIdxStop :: "jsval \<Rightarrow> bool" where
  "JABCIdxStop r = (if is_bool r then \<not> to_bool r else if \<not> is_str r then False else r = JStr ''enough'')"

section \<open>The search\<close>

definition lane_usage :: "string \<Rightarrow> ('w, 'r) ilane \<Rightarrow> string \<Rightarrow> string" where
  "lane_usage verb L rest = ''_'' @ verb @ ''_'' @ iname L @ rest"

definition cell_mem :: "'r cell \<Rightarrow> 'w memory \<Rightarrow> 'w \<Rightarrow> 'r rowmem" where
  "cell_mem C M w a = cdec C (bytes_at M w a (csize C))"

definition jfindge :: "'w engine \<Rightarrow> abc \<Rightarrow> 'w memory \<Rightarrow> ('w, 'r) ilane \<Rightarrow>
    ('r rowmem \<Rightarrow> slice \<Rightarrow> 'r \<Rightarrow> addr) \<Rightarrow> jsval list \<Rightarrow> ('w, jout) js" where
  "jfindge E A M L fge argv =
     need (1 + ARGN L) (lane_usage ''findge'' L ''(run, needle...)'') argv
     (jbind (IRD L 1 argv) (\<lambda>needle.
      jbind (JABCLaneArr_idx E A (csize (icell L)) (argv ! 0)) (\<lambda>(base, cap).
      jbind (jget (\<lambda>w. fge (cell_mem (icell L) M w) (base, base + cap * csize (icell L)) needle)) (\<lambda>pos.
      js_num ((pos - base) div csize (icell L))))))"

section \<open>The scan\<close>

text \<open>Are all runs where they were when they were unwrapped?\<close>

definition all_live :: "'w engine \<Rightarrow> jsval list \<Rightarrow> (addr \<times> nat) list \<Rightarrow> 'w \<Rightarrow> bool" where
  "all_live E rv runs w = list_all2 (\<lambda>v r. JABCViewOf E v w = (Inr r, w)) rv runs"

text \<open>A read of the runs' memory.\<close>

definition reading :: "'w engine \<Rightarrow> jsval list \<Rightarrow> (addr \<times> nat) list \<Rightarrow> ('w \<Rightarrow> 'a) \<Rightarrow> ('w, 'a) js" where
  "reading E rv runs f = (\<lambda>w. if all_live E rv runs w then (Inr (f w), w) else (Inl CUndef, w))"

text \<open>
  The drain of the merge heap: the row on top goes to the callback; an exception or a moved run ends
  the scan, "enough" ends it well, else the heap steps.
\<close>

primrec seek_drain :: "nat \<Rightarrow> 'w engine \<Rightarrow> 'w memory \<Rightarrow> ('w, 'r) ilane \<Rightarrow> 'r hit \<Rightarrow> (jout \<Rightarrow> ('w, jsval) js) \<Rightarrow>
    jsval list \<Rightarrow> (addr \<times> nat) list \<Rightarrow> slice list \<Rightarrow> ('w, unit) js" where
  "seek_drain 0 E M L H cb rv runs es = jret ()"
| "seek_drain (Suc k) E M L H cb rv runs es =
     (if \<forall>e \<in> set es. snd e \<le> fst e then jret ()
      else jbind (reading E rv runs (\<lambda>w. top_row H (cell_mem (icell L) M w) es)) (\<lambda>top.
        jbind (cb (EMIT L top)) (\<lambda>r.
        jbind (JABCIdxRunsSame E rv runs) (\<lambda>_.
        if JABCIdxStop r then jret ()
        else jbind (reading E rv runs (\<lambda>w. hit_step H (cell_mem (icell L) M w) es)) (\<lambda>es'.
             seek_drain k E M L H cb rv runs es')))))"

definition jseekrange :: "'w engine \<Rightarrow> 'w memory \<Rightarrow> ('w, 'r) ilane \<Rightarrow> 'r hit \<Rightarrow>
    (jsval \<Rightarrow> jout \<Rightarrow> ('w, jsval) js) \<Rightarrow> jsval list \<Rightarrow> ('w, jout) js" where
  "jseekrange E M L H call argv =
     (if length argv < 2 + 2 * ARGN L \<or> \<not> is_obj (argv ! 0)
      then jthrow (ThrowError (lane_usage ''seekrange'' L ''(runs[], lo..., hi..., cb)''))
      else jbind (JABCRunsLen E (argv ! 0)) (\<lambda>N.
        if HIT_MAX_RUNS < unat N then jthrow TOO_MANY_RUNS
        else jbind (IRD L 1 argv) (\<lambda>lo.
          jbind (IRD L (1 + ARGN L) argv) (\<lambda>hi.
          jbind (jget (\<lambda>w. is_callable E w (argv ! (1 + 2 * ARGN L)))) (\<lambda>fn.
          if \<not> fn then jthrow (ThrowError ''_seekrange: cb must be a function'')
          else jbind (JABCIdxRuns E (unat N) (argv ! 0)) (\<lambda>(runs, rv).
            jbind (reading E rv runs (\<lambda>w. hit_load H (cell_mem (icell L) M w)
                     (hit_seek H (cell_mem (icell L) M w) (run_entries runs) lo hi))) (\<lambda>ph.
            case ph of
              None \<Rightarrow> jthrow TOO_MANY_RUNS
            | Some es \<Rightarrow>
                jbind (seek_drain (rows_left es) E M L H (call (argv ! (1 + 2 * ARGN L))) rv runs es) (\<lambda>_.
                js_undef)))))))) "

section \<open>The compaction\<close>

text \<open>
  \<open>compactR\<close> is libabc's ladder: the stack, the destination and the state give a code, how many
  entries are left, the head of the destination past the output, and the new state.
\<close>

definition jcompact :: "'w engine \<Rightarrow> abc \<Rightarrow> ('w, 'r) ilane \<Rightarrow>
    (slice list \<Rightarrow> slice \<Rightarrow> 'w \<Rightarrow> (ok64 \<times> nat \<times> addr) \<times> 'w) \<Rightarrow> jsval list \<Rightarrow> ('w, jout) js" where
  "jcompact E A L compactR argv =
     (if length argv < 2 \<or> \<not> is_obj (argv ! 0)
      then jthrow (ThrowError (lane_usage ''compact'' L ''(runs[], out)''))
      else jbind (JABCRunsLen E (argv ! 0)) (\<lambda>N.
        if HIT_MAX_RUNS < unat N then jthrow TOO_MANY_RUNS
        else jbind (JABCIdxRuns E (unat N) (argv ! 0)) (\<lambda>(runs, rv).
          jbind (JABCDataOf E A (argv ! 1)) (\<lambda>d.
          jbind (JABCLaneAligned (b1 d)) (\<lambda>_ w.
          case compactR (run_entries runs) (b1 d, b2 d) w of ((co, left, hd'), w') \<Rightarrow>
            let m = length runs - left + 1;
                merged = (hd' - b1 d) div csize (icell L)
            in if co \<noteq> OK then (Inl (ThrowError ''_compact: out too small''), w')
               else (Inr (JArr [JNum (js_nat (if m < 2 then 0 else merged)), JNum (js_nat m)]), w'))))))"

section \<open>The scan reads live memory only\<close>

lemma all_aligned_quiet [quiet_intros]: "quiet (all_aligned rs)"
  by (induction rs) (auto simp: JABCLaneAligned_def intro!: quiet_intros)

lemma JABCIdxRuns_live:
  assumes "JABCIdxRuns E n arr w = (Inr (runs, rv), w')"
  shows "all_live E rv runs w' \<and> length runs = n \<and> (\<forall>r \<in> set runs. fst r mod 8 = 0)"
proof -
  from assms obtain w1 where r: "JABCRunsOf E n arr w = (Inr (runs, rv), w1)"
    and a: "all_aligned runs w1 = (Inr (), w')"
    by (auto simp: JABCIdxRuns_def jbind_eq_Inr split: prod.splits)
  have "w' = w1" by (rule quietD [OF all_aligned_quiet a])
  moreover from r obtain w2 where "runs_unwrap E rv w2 = (Inr runs, w1)"
    and "runs_collect E arr 0 n w = (Inr rv, w2)"
    by (auto simp: JABCRunsOf_def jbind_eq_Inr)
  moreover from a have "\<forall>r \<in> set runs. fst r mod 8 = 0"
  proof (induction runs arbitrary: w1)
    case (Cons r rs)
    then show ?case by (auto simp: JABCLaneAligned_def jbind_eq_Inr split: if_splits)
  qed simp
  ultimately show ?thesis
    using runs_unwrap_views [of E rv w2 runs w1] runs_collect_length [of E arr 0 n w rv w2]
    by (auto simp: all_live_def dest: list_all2_lengthD)
qed

lemma JABCIdxRunsSame_quiet [quiet_intros]: "quiet (JABCIdxRunsSame E rv runs)"
  by (induction E rv runs rule: JABCIdxRunsSame.induct) (auto intro!: quiet_intros)

lemma JABCIdxRunsSame_live:
  "JABCIdxRunsSame E rv runs w = (Inr u, w') \<Longrightarrow> length rv = length runs \<Longrightarrow> all_live E rv runs w'"
proof (induction E rv runs arbitrary: w rule: JABCIdxRunsSame.induct)
  case (1 E v rv r runs)
  from 1(2) obtain w1 where s: "JABCViewSame E v (fst r) (snd r) w = (Inr (), w1)"
    and rest: "JABCIdxRunsSame E rv runs w1 = (Inr u, w')"
    by (auto simp: jbind_eq_Inr)
  have "w1 = w" by (rule quietD [OF JABCViewSame_quiet s])
  moreover have "w' = w1" by (rule quietD [OF JABCIdxRunsSame_quiet rest])
  ultimately show ?case using s 1(1) [OF rest] 1(3)
    by (auto simp: all_live_def JABCViewSame_Inr)
qed (auto simp: all_live_def)

text \<open>The engine itself does not run into undefined behaviour, the callback included.\<close>

definition engine_sound :: "'w engine \<Rightarrow> ('w, 'r) ilane \<Rightarrow> (jsval \<Rightarrow> jout \<Rightarrow> ('w, jsval) js) \<Rightarrow> bool" where
  "engine_sound E L call \<longleftrightarrow> engine_defined E \<and>
     (\<forall>v p w. fst (get_prop E v p w) \<noteq> Inl CUndef) \<and> (\<forall>v i w. fst (get_index E v i w) \<noteq> Inl CUndef) \<and>
     (\<forall>v w. typed_buffer E w v \<noteq> Inl CUndef) \<and> (\<forall>f x w. fst (call f x w) \<noteq> Inl CUndef) \<and>
     (\<forall>i argv w. fst (IRD L i argv w) \<noteq> Inl CUndef)"

lemma defined_reading: "defined_from (all_live E rv runs) (reading E rv runs f) (\<lambda>_. all_live E rv runs)"
  by (simp add: defined_from_def reading_def)

lemma same_defined:
  assumes "\<forall>v w. typed_buffer E w v \<noteq> Inl CUndef" and "length rv = length runs"
  shows "defined_from P (JABCIdxRunsSame E rv runs) (\<lambda>_. all_live E rv runs)"
proof -
  have one: "fst (JABCViewSame E v b n w) \<noteq> Inl CUndef" for v b n w
    using view_defined [OF assms(1), of v w]
    by (auto simp: JABCViewSame_def jbind_def split: prod.splits sum.splits)
  have "defined_from Q (JABCIdxRunsSame E rv runs) (\<lambda>_ _. True)" for Q
  proof (induction rv arbitrary: runs Q)
    case (Cons v rv)
    show ?case
    proof (cases runs)
      case (Cons r rs)
      then show ?thesis
        using defined_bind [OF defined_any [OF one] Cons.IH] by simp
    qed (simp add: defined_ret)
  qed (simp add: defined_ret)
  then show ?thesis
    by (rule defined_post) (rule JABCIdxRunsSame_live [OF _ assms(2)])
qed

lemma drain_defined:
  assumes "\<forall>v w. typed_buffer E w v \<noteq> Inl CUndef" and "\<And>x w. fst (cb x w) \<noteq> Inl CUndef"
    and "length rv = length runs"
  shows "defined_from (all_live E rv runs) (seek_drain k E M L H cb rv runs es) (\<lambda>_ _. True)"
proof (induction k arbitrary: es)
  case 0
  then show ?case by (simp add: defined_ret)
next
  case (Suc k)
  show ?case
    unfolding seek_drain.simps
    by (intro defined_if defined_ret TrueI defined_bind [OF defined_reading] Suc.IH
        defined_bind [OF defined_any [OF assms(2)]] defined_bind [OF same_defined [OF assms(1,3)]])
qed

lemma runs_of_defined:
  assumes "engine_sound E L call"
  shows "fst (JABCRunsOf E n arr w) \<noteq> Inl CUndef"
proof -
  have "fst (runs_collect E arr i n w) \<noteq> Inl CUndef" for i w
  proof (induction n arbitrary: i w)
    case (Suc n)
    have "fst (get_index E arr i w) \<noteq> Inl CUndef" using assms by (simp add: engine_sound_def)
    then show ?case
      using Suc by (auto simp: jbind_def split: prod.splits sum.splits) (metis fst_conv)
  qed simp
  moreover have "fst (runs_unwrap E vs w) \<noteq> Inl CUndef" for vs w
  proof (induction vs arbitrary: w)
    case (Cons v vs)
    have "fst (JABCViewOf E v w) \<noteq> Inl CUndef"
      using assms view_defined [of E v w] unfolding engine_sound_def by blast
    then show ?case
      using Cons by (auto simp: jbind_def split: prod.splits sum.splits) (metis fst_conv)
  qed simp
  ultimately show ?thesis
    unfolding JABCRunsOf_def by (auto simp: jbind_def split: prod.splits sum.splits) (metis fst_conv)+
qed

lemma aligned_defined: "fst (all_aligned rs w) \<noteq> Inl CUndef"
  by (induction rs arbitrary: w) (auto simp: JABCLaneAligned_def jbind_def)

lemma idx_runs_defined:
  assumes "engine_sound E L call"
  shows "defined_from P (JABCIdxRuns E n arr)
    (\<lambda>p w. all_live E (snd p) (fst p) w \<and> length (snd p) = length (fst p))"
proof (rule defined_post)
  show "defined_from P (JABCIdxRuns E n arr) (\<lambda>_ _. True)"
    unfolding JABCIdxRuns_def
    by (intro defined_bind [OF defined_any [OF runs_of_defined [OF assms]]])
      (auto intro!: defined_bind [OF defined_any [OF aligned_defined]] defined_ret split: prod.splits)
next
  fix w w' p
  assume r: "JABCIdxRuns E n arr w = (Inr p, w')"
  obtain runs rv where "p = (runs, rv)" by (cases p)
  with JABCIdxRuns_live [of E n arr w runs rv w'] r
  show "all_live E (snd p) (fst p) w' \<and> length (snd p) = length (fst p)"
    by (auto simp: all_live_def dest: list_all2_lengthD)
qed

lemma runs_len_defined:
  assumes "engine_sound E L call"
  shows "fst (JABCRunsLen E arr w) \<noteq> Inl CUndef"
proof -
  obtain r w1 where g: "get_prop E arr ''length'' w = (r, w1)" by (cases "get_prop E arr ''length'' w")
  have "fst (get_prop E arr ''length'' w) \<noteq> Inl CUndef" using assms by (simp add: engine_sound_def)
  moreover have "fst (JABCu64Of E v w1) \<noteq> Inl CUndef" for v
    using u64_gate.gate_defined [of E v w1] assms by (metis engine_sound_def prod.collapse)
  ultimately show ?thesis using g by (cases r) (auto simp: JABCRunsLen_def)
qed

lemma seekrange_defined:
  assumes "engine_sound E L call"
  shows "defined_from (\<lambda>_. True) (jseekrange E M L H call argv) (\<lambda>_ _. True)"
proof -
  have typed: "\<forall>v w. typed_buffer E w v \<noteq> Inl CUndef" and rd: "\<And>i argv w. fst (IRD L i argv w) \<noteq> Inl CUndef"
    and cb: "\<And>f x w. fst (call f x w) \<noteq> Inl CUndef"
    using assms unfolding engine_sound_def by blast+
  have scan: "defined_from (\<lambda>w. all_live E (snd p) (fst p) w \<and> length (snd p) = length (fst p))
      (case p of (runs, rv) \<Rightarrow>
        jbind (reading E rv runs (\<lambda>w. hit_load H (cell_mem (icell L) M w)
                 (hit_seek H (cell_mem (icell L) M w) (run_entries runs) lo hi))) (\<lambda>ph.
        case ph of None \<Rightarrow> jthrow TOO_MANY_RUNS
        | Some es \<Rightarrow> jbind (seek_drain (rows_left es) E M L H (call f) rv runs es) (\<lambda>_. js_undef))) (\<lambda>_ _. True)"
    for p :: "(addr \<times> nat) list \<times> jsval list" and lo hi f
  proof (cases "length (snd p) = length (fst p)")
    case True
    obtain runs rv where p: "p = (runs, rv)" by (cases p)
    have len: "length rv = length runs" using True p by simp
    have "defined_from (all_live E rv runs) (case ph of None \<Rightarrow> jthrow TOO_MANY_RUNS
        | Some es \<Rightarrow> jbind (seek_drain (rows_left es) E M L H (call f) rv runs es) (\<lambda>_. js_undef)) (\<lambda>_ _. True)" for ph
      by (cases ph) (auto intro!: defined_throw defined_ret
          defined_bind [OF drain_defined [OF typed cb len]] simp: TOO_MANY_RUNS_def)
    then show ?thesis
      unfolding p by simp (rule defined_pre [OF defined_bind [OF defined_reading]], auto)
  qed (simp add: defined_from_def)
  show ?thesis
    unfolding jseekrange_def
    by (intro defined_if defined_throw defined_bind [OF defined_any [OF runs_len_defined [OF assms]]]
        defined_bind [OF defined_any [OF rd]] defined_bind [OF defined_get] defined_bind [OF idx_runs_defined [OF assms]] scan TrueI)
      (simp_all add: TOO_MANY_RUNS_def)
qed

section \<open>The scan follows the heap\<close>

text \<open>The rows a heap of entries delivers from a memory, step by step.\<close>

inductive delivers :: "'r hit \<Rightarrow> 'r rowmem \<Rightarrow> slice list \<Rightarrow> 'r list \<Rightarrow> bool" for H M where
  del_nil: "\<forall>e \<in> set es. snd e \<le> fst e \<Longrightarrow> delivers H M es []"
| del_row: "\<not> (\<forall>e \<in> set es. snd e \<le> fst e) \<Longrightarrow> delivers H M (hit_step H M es) rs \<Longrightarrow>
    delivers H M es (top_row H M es # rs)"

inductive_cases delivers_NilE: "delivers H M es []"
inductive_cases delivers_ConsE: "delivers H M es (r # rs)"

text \<open>Call back for each row, until an exception or "enough".\<close>

primrec each_until :: "(jout \<Rightarrow> ('w, jsval) js) \<Rightarrow> ('r \<Rightarrow> jout) \<Rightarrow> 'r list \<Rightarrow> ('w, unit) js" where
  "each_until cb em [] = jret ()"
| "each_until cb em (r # rs) =
     jbind (cb (em r)) (\<lambda>x. if JABCIdxStop x then jret () else each_until cb em rs)"

text \<open>A callback that leaves the runs alone: same bytes in them, same views.\<close>

definition keeps_runs :: "'w engine \<Rightarrow> 'w memory \<Rightarrow> (jout \<Rightarrow> ('w, jsval) js) \<Rightarrow> bool" where
  "keeps_runs E M cb \<longleftrightarrow> (\<forall>x w r w'. cb x w = (r, w') \<longrightarrow>
     peek M w' = peek M w \<and> (\<forall>v y. JABCViewOf E v w = (y, w) \<longrightarrow> JABCViewOf E v w' = (y, w')))"

lemma keeps_cell_mem: "keeps_runs E M cb \<Longrightarrow> cb x w = (r, w') \<Longrightarrow> cell_mem C M w' = cell_mem C M w"
  by (simp add: keeps_runs_def cell_mem_def bytes_at_def fun_eq_iff)

lemma keeps_live: "keeps_runs E M cb \<Longrightarrow> cb x w = (r, w') \<Longrightarrow> all_live E rv runs w \<Longrightarrow> all_live E rv runs w'"
  unfolding all_live_def keeps_runs_def by (blast intro: list_all2_mono)

lemma live_same: "all_live E rv runs w \<Longrightarrow> JABCIdxRunsSame E rv runs w = (Inr (), w)"
proof (induction E rv runs rule: JABCIdxRunsSame.induct)
  case (1 E v rv r runs)
  then have "JABCViewSame E v (fst r) (snd r) w = (Inr (), w)" "all_live E rv runs w"
    by (auto simp: all_live_def JABCViewSame_Inr)
  with 1 show ?case by simp
qed auto

lemma drain_follows:
  assumes "keeps_runs E M cb"
  shows "delivers H (cell_mem (icell L) M w) es rs \<Longrightarrow> length rs \<le> k \<Longrightarrow> all_live E rv runs w \<Longrightarrow>
    seek_drain k E M L H cb rv runs es w = each_until cb (EMIT L) rs w"
proof (induction k arbitrary: es rs w)
  case 0
  then show ?case by simp
next
  case (Suc k)
  show ?case
  proof (cases rs)
    case Nil
    with Suc.prems(1) show ?thesis by (auto elim: delivers_NilE)
  next
    case (Cons r rs')
    from Suc.prems(1) [unfolded Cons] have ne: "\<not> (\<forall>e \<in> set es. snd e \<le> fst e)"
      and r: "r = top_row H (cell_mem (icell L) M w) es"
      and rest: "delivers H (cell_mem (icell L) M w) (hit_step H (cell_mem (icell L) M w) es) rs'"
      by (auto elim: delivers_ConsE)
    obtain x w1 where c: "cb (EMIT L r) w = (x, w1)" by (cases "cb (EMIT L r) w")
    have mem: "cell_mem (icell L) M w1 = cell_mem (icell L) M w" by (rule keeps_cell_mem [OF assms c])
    have live: "all_live E rv runs w1" by (rule keeps_live [OF assms c Suc.prems(3)])
    have "seek_drain (Suc k) E M L H cb rv runs es w =
        jbind (cb (EMIT L r)) (\<lambda>r. jbind (JABCIdxRunsSame E rv runs) (\<lambda>_.
        if JABCIdxStop r then jret ()
        else jbind (reading E rv runs (\<lambda>w. hit_step H (cell_mem (icell L) M w) es)) (\<lambda>es'.
             seek_drain k E M L H cb rv runs es'))) w"
      unfolding seek_drain.simps if_not_P [OF ne] using Suc.prems(3) r by (simp add: reading_def)
    also have "\<dots> = each_until cb (EMIT L) rs w"
    proof (cases x)
      case (Inr y)
      have "seek_drain k E M L H cb rv runs (hit_step H (cell_mem (icell L) M w) es) w1 =
          each_until cb (EMIT L) rs' w1"
        using Suc.IH [of w1 "hit_step H (cell_mem (icell L) M w) es" rs'] rest live mem Suc.prems(2) Cons
        by simp
      with c Inr live mem show ?thesis by (simp add: Cons live_same reading_def)
    qed (simp add: c Cons)
    finally show ?thesis .
  qed
qed

section \<open>Properties\<close>

text \<open>
  C8: a scan reads live memory only.  The callback may detach, move or free any run; still no read
  of the runs, in the seek, the load, the row on top or the step, happens in a state in which one of
  them is not exactly where it was unwrapped.  The scan ends with undefined or with an exception.
\<close>

theorem scan_reads_live_memory:
  assumes "engine_sound E L call"
  shows "fst (jseekrange E M L H call argv w) \<noteq> Inl CUndef"
proof -
  have "case jseekrange E M L H call argv w of (Inl e, w') \<Rightarrow> e \<noteq> CUndef | (Inr x, w') \<Rightarrow> True"
    using seekrange_defined [OF assms, of M H argv] by (simp add: defined_from_def)
  then show ?thesis by (auto split: prod.splits sum.splits)
qed

text \<open>A callback that detaches the first run at every call.\<close>

definition rogue :: "jsval \<Rightarrow> jout \<Rightarrow> (sample_state, jsval) js" where
  "rogue f x = (\<lambda>s. (Inr JUndef, detach_buffer sample_engine (JObj 1) s))"

theorem scan_reads_live_memory_witness:
  "\<forall>argv s. fst (jseekrange sample_engine \<lparr>peek = (\<lambda>s a. of_nat a), poke = (\<lambda>a bs s. s)\<rparr>
     (index_u64 sample_engine) (sample_hit (<)) rogue argv s) \<noteq> Inl CUndef"
proof -
  have "engine_sound sample_engine (index_u64 sample_engine) rogue"
    unfolding engine_sound_def
    by (intro conjI sample_engine_defined)
      (auto simp: sample_engine_def rogue_def index_u64_def JABCIdxU64_def JABCBigU64Of_def JABCScalar_def
        split: jsval.splits)
  from scan_reads_live_memory [OF this] show ?thesis by blast
qed

text \<open>
  The scan is the loop over the merged rows.  With a callback that leaves the runs alone, the
  leaf behaves as the plain loop that calls back with the rows the merge heap delivers between the
  two bounds, in its order, until the callback throws or answers false or "enough", and then
  returns undefined.
\<close>

theorem scan_calls_back_the_merge:
  assumes "2 + 2 * ARGN L \<le> length argv" and "is_obj (argv ! 0)"
    and "JABCRunsLen E (argv ! 0) w = (Inr N, w)" and "unat N \<le> HIT_MAX_RUNS"
    and "IRD L 1 argv w = (Inr lo, w)" and "IRD L (1 + ARGN L) argv w = (Inr hi, w)"
    and "is_callable E w (argv ! (1 + 2 * ARGN L))"
    and "JABCIdxRuns E (unat N) (argv ! 0) w = (Inr (runs, rv), w)"
    and "hit_load H (cell_mem (icell L) M w)
           (hit_seek H (cell_mem (icell L) M w) (run_entries runs) lo hi) = Some es"
    and "delivers H (cell_mem (icell L) M w) es rs" and "length rs \<le> rows_left es"
    and "keeps_runs E M (call (argv ! (1 + 2 * ARGN L)))"
  shows "jseekrange E M L H call argv w =
    jbind (each_until (call (argv ! (1 + 2 * ARGN L))) (EMIT L) rs) (\<lambda>_. js_undef) w"
proof -
  have live: "all_live E rv runs w" using JABCIdxRuns_live [OF assms(8)] by blast
  have drain: "seek_drain (rows_left es) E M L H (call (argv ! (1 + 2 * ARGN L))) rv runs es w =
      each_until (call (argv ! (1 + 2 * ARGN L))) (EMIT L) rs w"
    by (rule drain_follows [OF assms(12,10,11) live])
  have ok: "\<not> (length argv < 2 + 2 * ARGN L \<or> \<not> is_obj (argv ! 0))" "\<not> HIT_MAX_RUNS < unat N"
    using assms(1,2,4) by auto
  show ?thesis
    unfolding jseekrange_def if_not_P [OF ok(1)]
    using assms(3,5-9) ok(2) live drain
    by (simp add: reading_def jbind_def [of "seek_drain (rows_left es) E M L H _ rv runs es"]
        jbind_def [of "each_until _ (EMIT L) rs"])
qed

theorem scan_calls_back_the_merge_witness:
  "let E = ram_engine [(104, 2)];
       L = \<lparr>iname = ''u8'', icell = u8_cell, ARGN = 1, IRD = rd_num E, EMIT = (\<lambda>v. JVal (wr_num v))\<rparr> in
   jseekrange E ram L (sample_hit (<)) (\<lambda>f x. jret (JBool False)) [JObj 5, JNum (Fin 0), JNum (Fin 9), JObj 7]
     (\<lambda>a. if a = 104 then 3 else 7) = (Inr (JVal JUndef), \<lambda>a. if a = 104 then 3 else 7)"
proof -
  let ?E = "ram_engine [(104, 2)]"
  let ?L = "\<lparr>iname = ''u8'', icell = u8_cell, ARGN = 1, IRD = rd_num ?E, EMIT = (\<lambda>v. JVal (wr_num v))\<rparr>"
  let ?w = "\<lambda>a. if a = (104 :: nat) then 3 else (7 :: u8)"
  let ?argv = "[JObj 5, JNum (Fin 0), JNum (Fin 9), JObj 7]"
  have mem: "cell_mem u8_cell ram ?w = ?w"
    by (simp add: cell_mem_def word_cell_def bytes_at_def ram_def fun_eq_iff)
  have len: "JABCRunsLen ?E (JObj 5) ?w = (Inr 1, ?w)"
    by (simp add: JABCRunsLen_def JABCu64Of_prim ram_engine_def sample_number_def whole_of_def js_defs js_nat_def)
  have rd: "rd_num ?E 1 ?argv ?w = (Inr (0 :: u8), ?w)" "rd_num ?E 2 ?argv ?w = (Inr (9 :: u8), ?w)"
    by (simp_all add: rd_num_def JABCNumOf_def ram_engine_def sample_number_def num_cast_def
        cast_or_undef_def c_cast_def)
  have runs: "JABCIdxRuns ?E 1 (JObj 5) ?w = (Inr ([(104, 2)], [JObj 0]), ?w)"
    by (simp add: JABCIdxRuns_def JABCRunsOf_def JABCViewOf_def ram_engine_def JABCLaneAligned_def js_defs)
  have seek: "hit_load (sample_hit (<)) ?w (hit_seek (sample_hit (<)) ?w (run_entries [(104, 2)]) 0 9) =
      Some [(104, 106)]"
    by (simp add: sample_hit_def run_entries_def sample_find_def HIT_MAX_RUNS_def upt_conv_Cons)
  have step: "hit_step (sample_hit (<)) ?w [(104, 106)] = [(105, 106)]"
    "hit_step (sample_hit (<)) ?w [(105, 106)] = [(106, 106)]"
    by (simp_all add: sample_hit_def sample_top_def)
  have top: "top_row (sample_hit (<)) ?w [(104, 106)] = 3" "top_row (sample_hit (<)) ?w [(105, 106)] = 7"
    by (simp_all add: top_row_def sample_hit_def sample_top_def)
  have "delivers (sample_hit (<)) ?w [(105, 106)] (top_row (sample_hit (<)) ?w [(105, 106)] # [])"
    by (rule del_row) (auto simp: step intro: del_nil)
  then have "delivers (sample_hit (<)) ?w [(104, 106)] (top_row (sample_hit (<)) ?w [(104, 106)] # [7])"
    by (intro del_row) (auto simp: step top)
  then have del: "delivers (sample_hit (<)) (cell_mem (icell ?L) ram ?w) [(104, 106)] [3, 7]"
    by (simp add: top mem)
  have fn: "is_callable ?E ?w v" for v by (simp add: ram_engine_def)
  have keeps: "keeps_runs ?E ram (\<lambda>x. jret (JBool False))"
    by (simp add: keeps_runs_def)
  have "jseekrange ?E ram ?L (sample_hit (<)) (\<lambda>f x. jret (JBool False)) ?argv ?w =
      jbind (each_until (\<lambda>x. jret (JBool False)) (EMIT ?L) [3, 7]) (\<lambda>_. js_undef) ?w"
    by (rule scan_calls_back_the_merge [where N = 1 and runs = "[(104, 2)]" and rv = "[JObj 0]" and
          es = "[(104, 106)]" and lo = 0 and hi = 9])
      (use len rd runs seek del keeps mem fn in \<open>simp_all add: HIT_MAX_RUNS_def rows_left_def numeral_3_eq_3 numeral_2_eq_2\<close>)
  then show ?thesis unfolding Let_def by (simp add: JABCIdxStop_def)
qed

end
