(* ===== verification/Installs.thy ===== *)
theory Installs
  imports Arg
begin

text \<open>
  The installs of all modules, in the order \<open>main.c\<close> runs them: which global objects are made,
  which native functions go under which names, which JavaScript bundles run.  An install is a list
  of such steps; \<open>impl\<close> gives the leaf a C function's name stands for.  The theorem is about the
  whole program: the table of 512 leaves is large enough and no module takes a name or an object
  away from another.
\<close>

datatype item =
    NewObj string
  | GetObj string
  | EnsureObj string
  | Fn string string string
  | Bundle string

section \<open>The installs\<close>

definition HEAP_REG :: "string \<Rightarrow> item list" where
  "HEAP_REG l =
     [Fn ''abc'' (''_heap_'' @ l @ ''_push'') (''jheap_'' @ l @ ''_push''),
      Fn ''abc'' (''_heap_'' @ l @ ''_pop'') (''jheap_'' @ l @ ''_pop''),
      Fn ''abc'' (''_heap_'' @ l @ ''_feed'') (''jheap_'' @ l @ ''_feed'')]"

definition HASH_REG :: "string \<Rightarrow> item list" where
  "HASH_REG l =
     [Fn ''abc'' (''_hash_'' @ l @ ''_put'') (''jhash_'' @ l @ ''_put''),
      Fn ''abc'' (''_hash_'' @ l @ ''_get'') (''jhash_'' @ l @ ''_get''),
      Fn ''abc'' (''_hash_'' @ l @ ''_del'') (''jhash_'' @ l @ ''_del'')]"

definition HIT_REG :: "string \<Rightarrow> item list" where
  "HIT_REG l =
     [Fn ''abc'' (''_sort_'' @ l) (''jsort_'' @ l),
      Fn ''abc'' (''_merge_'' @ l) (''jmerge_'' @ l),
      Fn ''abc'' (''_isect_'' @ l) (''jisect_'' @ l)]"

definition INDEX_REG :: "string \<Rightarrow> item list" where
  "INDEX_REG l =
     [Fn ''abc'' (''_findge_'' @ l) (''jfindge_'' @ l),
      Fn ''abc'' (''_seekrange_'' @ l) (''jseekrange_'' @ l),
      Fn ''abc'' (''_compact_'' @ l) (''jcompact_'' @ l)]"

definition PUP_REG :: "string \<Rightarrow> item list" where
  "PUP_REG l =
     [Fn ''abc'' (''_pup_'' @ l @ ''_open'') (''jpup_'' @ l @ ''_open''),
      Fn ''abc'' (''_pup_'' @ l @ ''_put'') (''jpup_'' @ l @ ''_put''),
      Fn ''abc'' (''_pup_'' @ l @ ''_commit'') (''jpup_'' @ l @ ''_commit''),
      Fn ''abc'' (''_pup_'' @ l @ ''_get'') (''jpup_'' @ l @ ''_get''),
      Fn ''abc'' (''_pup_'' @ l @ ''_range'') (''jpup_'' @ l @ ''_range''),
      Fn ''abc'' (''_pup_'' @ l @ ''_seek'') (''jpup_'' @ l @ ''_seek''),
      Fn ''abc'' (''_pup_'' @ l @ ''_next'') (''jpup_'' @ l @ ''_next''),
      Fn ''abc'' (''_pup_'' @ l @ ''_count'') (''jpup_'' @ l @ ''_count''),
      Fn ''abc'' (''_pup_'' @ l @ ''_run'') (''jpup_'' @ l @ ''_run''),
      Fn ''abc'' (''_pup_'' @ l @ ''_drop'') (''jpup_'' @ l @ ''_drop''),
      Fn ''abc'' (''_pup_'' @ l @ ''_close'') (''jpup_'' @ l @ ''_close'')]"

definition JABCInstallUtf8 :: "item list" where
  "JABCInstallUtf8 =
     [NewObj ''utf8'',
      Fn ''utf8'' ''encodeInto'' ''JABCutf8EncodeInto'',
      Fn ''utf8'' ''Decode'' ''JABCutf8Decode'']"

definition JABCInstallIo :: "item list" where
  "JABCInstallIo =
     [NewObj ''io'',
      Fn ''io'' ''open'' ''JABCioOpen'',
      Fn ''io'' ''close'' ''JABCioClose'',
      Fn ''io'' ''sync'' ''JABCioSync'',
      Fn ''io'' ''size'' ''JABCioSize'',
      Fn ''io'' ''resize'' ''JABCioResize'',
      Fn ''io'' ''lock'' ''JABCioLock'',
      Fn ''io'' ''unlock'' ''JABCioUnlock'',
      Fn ''io'' ''stat'' ''JABCioStat'',
      Fn ''io'' ''lstat'' ''JABCioLStat'',
      Fn ''io'' ''readlink'' ''JABCioReadLink'',
      Fn ''io'' ''realpath'' ''JABCioRealPath'',
      Fn ''io'' ''symlink'' ''JABCioSymLink'',
      Fn ''io'' ''chmod'' ''JABCioChmod'',
      Fn ''io'' ''setMtime'' ''JABCioSetMtime'',
      Fn ''io'' ''readdir'' ''JABCioReaddir'',
      Fn ''io'' ''_read'' ''JABCioRead'',
      Fn ''io'' ''_write'' ''JABCioWrite'',
      Fn ''io'' ''_mmap'' ''JABCioMmap'',
      Fn ''io'' ''_munmap'' ''JABCioMunmap'',
      Fn ''io'' ''_ram'' ''JABCioRam'',
      Fn ''io'' ''_msync'' ''JABCioMsync'',
      Fn ''io'' ''_truncate'' ''JABCioTruncate'',
      Fn ''io'' ''unlink'' ''JABCioUnlink'',
      Fn ''io'' ''rename'' ''JABCioRename'',
      Fn ''io'' ''mkdir'' ''JABCioMkdir'',
      Fn ''io'' ''rmdir'' ''JABCioRmdir'',
      Fn ''io'' ''spawn'' ''JABCioSpawn'',
      Fn ''io'' ''spawnFds'' ''JABCioSpawnFds'',
      Fn ''io'' ''reap'' ''JABCioReap'',
      Fn ''io'' ''fork'' ''JABCioFork'',
      Fn ''io'' ''exit'' ''JABCioExit'',
      Fn ''io'' ''isatty'' ''JABCioIsatty'',
      Fn ''io'' ''cwd'' ''JABCioCwd'',
      Fn ''io'' ''chdir'' ''JABCioChdir'',
      Fn ''io'' ''getpid'' ''JABCioGetpid'',
      Fn ''io'' ''getenv'' ''JABCioGetenv'',
      Fn ''io'' ''log'' ''JABCioLog'']"

definition JABCInstallBuf :: "item list" where
  "JABCInstallBuf =
     [Bundle ''JABC_BUF_JS'']"

definition JABCInstallConsole :: "item list" where
  "JABCInstallConsole =
     [Bundle ''JABC_CONSOLE_JS'']"

definition JABCInstallCont :: "item list" where
  "JABCInstallCont =
     [NewObj ''abc'',
      Bundle ''JABC_CONT_JS'']"

definition JABCInstallHeap :: "item list" where
  "JABCInstallHeap =
     [GetObj ''abc''] @
     HEAP_REG ''u8'' @
     HEAP_REG ''u16'' @
     HEAP_REG ''u32'' @
     HEAP_REG ''u64'' @
     HEAP_REG ''kv32'' @
     HEAP_REG ''kv64'' @
     HEAP_REG ''wh64'' @
     HEAP_REG ''wh128'' @
     HEAP_REG ''sha1'' @
     HEAP_REG ''sha256''"

definition JABCInstallHash :: "item list" where
  "JABCInstallHash =
     [GetObj ''abc''] @
     HASH_REG ''u8'' @
     HASH_REG ''u16'' @
     HASH_REG ''u32'' @
     HASH_REG ''u64'' @
     HASH_REG ''kv32'' @
     HASH_REG ''kv64'' @
     HASH_REG ''wh64'' @
     HASH_REG ''wh128'' @
     HASH_REG ''sha1'' @
     HASH_REG ''sha256''"

definition JABCInstallHit :: "item list" where
  "JABCInstallHit =
     [GetObj ''abc''] @
     HIT_REG ''u8'' @
     HIT_REG ''u16'' @
     HIT_REG ''u32'' @
     HIT_REG ''u64'' @
     HIT_REG ''kv32'' @
     HIT_REG ''kv64'' @
     HIT_REG ''wh64'' @
     HIT_REG ''wh128'' @
     HIT_REG ''sha1'' @
     HIT_REG ''sha256''"

definition JABCInstallIndex :: "item list" where
  "JABCInstallIndex =
     [GetObj ''abc''] @
     INDEX_REG ''wh128'' @
     INDEX_REG ''u64''"

definition JABCInstallPup :: "item list" where
  "JABCInstallPup =
     [GetObj ''abc''] @
     PUP_REG ''kv64'' @
     PUP_REG ''wh128'' @
     PUP_REG ''u64'' @
     PUP_REG ''u32'' @
     [Fn ''abc'' ''_pup_mem'' ''jpup_mem'']"

definition JABCInstallHunk :: "item list" where
  "JABCInstallHunk =
     [GetObj ''abc'',
      Fn ''abc'' ''_hunk_feed'' ''JABChunkFeed'',
      Fn ''abc'' ''_hunk_dogenize'' ''JABChunkDogenize'',
      Fn ''abc'' ''_hunk_next'' ''JABChunkNext'',
      Fn ''abc'' ''_hunk_uri'' ''JABChunkUri'',
      Fn ''abc'' ''_hunk_text'' ''JABChunkText'',
      Fn ''abc'' ''_hunk_toks'' ''JABChunkToks'',
      Fn ''abc'' ''_hunk_verb'' ''JABChunkVerb'',
      Fn ''abc'' ''_hunk_time'' ''JABChunkTime'',
      Fn ''abc'' ''_hunk_render'' ''JABChunkRender'']"

definition JABCInstallPack :: "item list" where
  "JABCInstallPack =
     [GetObj ''abc'',
      Fn ''abc'' ''_pack_repack'' ''JABCpackRepack'',
      Fn ''abc'' ''_git_tree_next'' ''JABCgitTreeNext'',
      Fn ''abc'' ''_git_parse_commit'' ''JABCgitParseCommit'',
      Fn ''abc'' ''_pack_header'' ''JABCpackHeader'',
      Fn ''abc'' ''_pack_count'' ''JABCpackCount'',
      Fn ''abc'' ''_pack_feed'' ''JABCpackFeed'',
      Fn ''abc'' ''_pack_next'' ''JABCpackNext'',
      Fn ''abc'' ''_pack_type'' ''JABCpackType'',
      Fn ''abc'' ''_pack_size'' ''JABCpackSize'',
      Fn ''abc'' ''_pack_baseoff'' ''JABCpackBaseOff'',
      Fn ''abc'' ''_pack_ref'' ''JABCpackRef'',
      Fn ''abc'' ''_pack_inflate'' ''JABCpackInflate'',
      Fn ''abc'' ''_pack_resolve'' ''JABCpackResolve'',
      Fn ''abc'' ''_pack_scan'' ''JABCpackScan'',
      Fn ''abc'' ''_pack_feed_emit'' ''JABCpackFeedEmit'',
      Fn ''abc'' ''_delt_apply'' ''JABCdeltApply'',
      Fn ''abc'' ''_delt_encode'' ''JABCdeltEncode'']"

definition JABCInstallGit :: "item list" where
  "JABCInstallGit =
     [GetObj ''abc'',
      Fn ''abc'' ''_git_open'' ''JABCgitOpen'',
      Fn ''abc'' ''_git_get'' ''JABCgitGet'',
      Fn ''abc'' ''_git_get_safe'' ''JABCgitGetSafe'',
      Fn ''abc'' ''_git_tree_diff'' ''JABCgitTreeDiff'',
      Fn ''abc'' ''_git_close'' ''JABCgitClose'',
      Bundle ''JABC_GIT_JS'']"

definition JABCInstallUlog :: "item list" where
  "JABCInstallUlog =
     [GetObj ''abc'',
      Fn ''abc'' ''_ulog_feed'' ''JABCulogFeed'',
      Fn ''abc'' ''_ulog_open'' ''JABCulogOpen'',
      Fn ''abc'' ''_ulog_append'' ''JABCulogAppend'',
      Fn ''abc'' ''_ulog_count'' ''JABCulogCount'',
      Fn ''abc'' ''_ulog_rowUri'' ''JABCulogRowUri'',
      Fn ''abc'' ''_ulog_rowTime'' ''JABCulogRowTime'',
      Fn ''abc'' ''_ulog_close'' ''JABCulogClose'',
      Fn ''abc'' ''_ulog_now'' ''JABCulogNow'',
      Fn ''abc'' ''_ulog_next'' ''JABCulogNext'',
      Fn ''abc'' ''_ulog_time'' ''JABCulogTime'',
      Fn ''abc'' ''_ulog_verb'' ''JABCulogVerb'',
      Fn ''abc'' ''_ulog_uri'' ''JABCulogUri'',
      Fn ''abc'' ''_ulog_seekVerb'' ''JABCulogSeekVerb'',
      Fn ''abc'' ''_ulog_seekTime'' ''JABCulogSeekTime'',
      Fn ''abc'' ''_ulog_seekURI'' ''JABCulogSeekURI'']"

definition JABCInstallCfold :: "item list" where
  "JABCInstallCfold =
     [GetObj ''abc'',
      Fn ''abc'' ''_cfold_count'' ''JABCcfoldCount'',
      Fn ''abc'' ''_cfold_commits'' ''JABCcfoldCommits'',
      Fn ''abc'' ''_cfold_next'' ''JABCcfoldNext'',
      Fn ''abc'' ''_cfold_merge'' ''JABCcfoldMerge'',
      Fn ''abc'' ''_cfold_alive'' ''JABCcfoldAlive'',
      Fn ''abc'' ''_cfold_produce'' ''JABCcfoldProduce'',
      Fn ''abc'' ''_cfold_blame'' ''JABCcfoldBlame'',
      Fn ''abc'' ''_cfold_itermem'' ''JABCcfoldIterMem'',
      Fn ''abc'' ''_cfold_step'' ''JABCcfoldStep'',
      Fn ''abc'' ''_cfold_emitdiff'' ''JABCcfoldEmitDiff'',
      Fn ''abc'' ''_cfold_emitfull'' ''JABCcfoldEmitFull'']"

definition JABCInstallWeave :: "item list" where
  "JABCInstallWeave =
     []"

definition JABCInstallTok :: "item list" where
  "JABCInstallTok =
     [NewObj ''tok'',
      Fn ''tok'' ''_tok_parse_into'' ''JABCtokParseInto'',
      Bundle ''JABC_TOK_JS'']"

definition JABCInstallUri :: "item list" where
  "JABCInstallUri =
     [NewObj ''uri'',
      Fn ''uri'' ''_parse'' ''JABCuriParse'',
      Fn ''uri'' ''_make'' ''JABCuriMake'',
      Fn ''uri'' ''_esc'' ''JABCuriEsc'',
      Fn ''uri'' ''_unesc'' ''JABCuriUnesc'',
      Bundle ''JABC_URI_JS'']"

definition JABCInstallCodec :: "item list" where
  "JABCInstallCodec =
     [NewObj ''ron'',
      Fn ''ron'' ''encode'' ''JABCronEncode'',
      Fn ''ron'' ''decode'' ''JABCronDecode'',
      Fn ''ron'' ''_now'' ''JABCronNow'',
      Fn ''ron'' ''_ofMs'' ''JABCronOfMs'',
      Fn ''ron'' ''_date'' ''JABCronDate'',
      NewObj ''hex'',
      Fn ''hex'' ''encode'' ''JABChexEncode'',
      Fn ''hex'' ''encodeInto'' ''JABChexEncodeInto'',
      Fn ''hex'' ''decode'' ''JABChexDecode'',
      Fn ''global'' ''sha1'' ''JABCsha1'',
      Fn ''global'' ''sha256'' ''JABCsha256'',
      Bundle ''JABC_RON_JS'']"

definition JABCInstallZip :: "item list" where
  "JABCInstallZip =
     [NewObj ''zip'',
      Fn ''zip'' ''_deflate'' ''JABCzipDeflate'',
      Fn ''zip'' ''_inflate'' ''JABCzipInflate'',
      Bundle ''JABC_ZIP_JS'']"

definition JABCInstallIgno :: "item list" where
  "JABCInstallIgno =
     [EnsureObj ''dog'',
      Fn ''dog'' ''_igno_open'' ''JABCignoOpen'',
      Fn ''dog'' ''_igno_match'' ''JABCignoMatch'',
      Fn ''dog'' ''_igno_close'' ''JABCignoClose'']"

definition JABCInstallDirc :: "item list" where
  "JABCInstallDirc =
     [EnsureObj ''dog'',
      Fn ''dog'' ''_dirc_read'' ''JABCdircRead'',
      Bundle ''JABC_DIRC_JS'']"

definition JABCInstallAnsi :: "item list" where
  "JABCInstallAnsi =
     [Bundle ''JABC_ANSI_JS'']"

definition JABCInstallTty :: "item list" where
  "JABCInstallTty =
     [NewObj ''tty'',
      Fn ''tty'' ''raw'' ''JABCttyRaw'',
      Fn ''tty'' ''cook'' ''JABCttyCook'',
      Fn ''tty'' ''size'' ''JABCttySize'',
      Fn ''tty'' ''openpty'' ''JABCttyOpenPty'',
      Fn ''tty'' ''setSize'' ''JABCttySetSize'']"

definition JABCInstallPol :: "item list" where
  "JABCInstallPol =
     [NewObj ''pol'',
      Fn ''pol'' ''_watch'' ''JABCPolWatch'',
      Fn ''pol'' ''_more'' ''JABCPolMore'',
      Fn ''pol'' ''_unwatch'' ''JABCPolUnwatch'',
      Fn ''pol'' ''_every'' ''JABCPolEvery'',
      Fn ''pol'' ''sooner'' ''JABCPolSooner'',
      Fn ''pol'' ''_untimer'' ''JABCPolUntimer'',
      Fn ''pol'' ''_run'' ''JABCPolRun'',
      Fn ''pol'' ''stop'' ''JABCPolStop'',
      Fn ''pol'' ''sleep'' ''JABCPolSleep'',
      Fn ''pol'' ''any'' ''JABCPolAny'',
      Fn ''pol'' ''now'' ''JABCPolNow'',
      Fn ''pol'' ''_init'' ''JABCPolInit'',
      Bundle ''JABC_POL_JS'']"

definition JABCInstallNet :: "item list" where
  "JABCInstallNet =
     [NewObj ''net'',
      Fn ''net'' ''_listen'' ''JABCNetListen'',
      Fn ''net'' ''_connect'' ''JABCNetConnect'',
      Fn ''net'' ''_accept'' ''JABCNetAccept'',
      Fn ''net'' ''_recv'' ''JABCNetRecv'',
      Fn ''net'' ''_send'' ''JABCNetSend'',
      Fn ''net'' ''_shutwr'' ''JABCNetShutwr'',
      Fn ''net'' ''_close'' ''JABCNetClose'',
      NewObj ''dgram'',
      Fn ''dgram'' ''_bind'' ''JABCDgramBind'',
      Fn ''dgram'' ''_recv'' ''JABCDgramRecv'',
      Fn ''dgram'' ''_send'' ''JABCDgramSend'',
      Bundle ''JABC_NET_JS'']"

definition JABCInstallHttp :: "item list" where
  "JABCInstallHttp =
     [NewObj ''http'',
      Fn ''http'' ''_drain'' ''JABChttpDrain'',
      Fn ''http'' ''_feed'' ''JABChttpFeed'']"

definition JABCInstallFsw :: "item list" where
  "JABCInstallFsw =
     [NewObj ''fsw'',
      Fn ''fsw'' ''init'' ''JABCFswInit'',
      Fn ''fsw'' ''dir'' ''JABCFswDir'',
      Fn ''fsw'' ''drain'' ''JABCFswDrain'',
      Fn ''fsw'' ''close'' ''JABCFswClose'',
      Bundle ''JABC_FSW_JS'']"

definition JABCInstallJsrcPack :: "item list" where
  "JABCInstallJsrcPack =
     []"

definition JABCInstallRequire :: "item list" where
  "JABCInstallRequire =
     [Bundle ''JABC_REQUIRE_JS'']"

definition JABCInstallModules :: "item list" where
  "JABCInstallModules =
     (JABCInstallUtf8 @
      JABCInstallIo @
      JABCInstallBuf @
      JABCInstallConsole @
      JABCInstallCont @
      JABCInstallHeap @
      JABCInstallHash @
      JABCInstallHit @
      JABCInstallIndex @
      JABCInstallPup @
      JABCInstallHunk @
      JABCInstallPack @
      JABCInstallGit @
      JABCInstallUlog @
      JABCInstallCfold @
      JABCInstallWeave @
      JABCInstallTok @
      JABCInstallUri @
      JABCInstallCodec @
      JABCInstallZip @
      JABCInstallIgno @
      JABCInstallDirc @
      JABCInstallAnsi @
      JABCInstallTty @
      JABCInstallPol @
      JABCInstallNet @
      JABCInstallHttp @
      JABCInstallFsw @
      JABCInstallJsrcPack @
      JABCInstallRequire)"

section \<open>What an install does\<close>

text \<open>
  \<open>JABC_API_OBJECT\<close> makes a fresh object, so the names of an old one of that name are gone;
  \<open>JABC_API_GET\<close> needs the object to be there (\<open>JABC_API_FN\<close> on a missing object binds
  nothing, though it takes a slot of the table).  A bundle is JavaScript the model does not run; none
  of the bundles assigns or deletes a name the C side registered (they wrap the underscored leaves
  under names of their own), so it leaves both components as they are.
\<close>

record 'w install =
  reg :: "'w registry"
  objs :: "string list"

definition empty_install :: "'w install" where
  "empty_install = \<lparr>reg = empty_registry, objs = [''global'']\<rparr>"

fun install_item :: "(string \<Rightarrow> 'w leaf) \<Rightarrow> item \<Rightarrow> 'w install \<Rightarrow> 'w install" where
  "install_item impl (NewObj o') s =
     s\<lparr>reg := (reg s)\<lparr>bound := (\<lambda>n. if fst n = o' then None else bound (reg s) n)\<rparr>, objs := o' # objs s\<rparr>"
| "install_item impl (GetObj o') s = s"
| "install_item impl (EnsureObj o') s = (if o' \<in> set (objs s) then s else s\<lparr>objs := o' # objs s\<rparr>)"
| "install_item impl (Fn o' n f) s =
     (if o' \<in> set (objs s) then s\<lparr>reg := JABCApiFn (reg s) o' n (impl f)\<rparr>
      else s\<lparr>reg := (if JABC_LEAF_MAX \<le> length (leaves (reg s)) then reg s
                     else (reg s)\<lparr>leaves := leaves (reg s) @ [impl f]\<rparr>)\<rparr>)"
| "install_item impl (Bundle b) s = s"

definition install :: "(string \<Rightarrow> 'w leaf) \<Rightarrow> item list \<Rightarrow> 'w install \<Rightarrow> 'w install" where
  "install impl items s = fold (install_item impl) items s"

section \<open>A check on the list that is enough\<close>

text \<open>
  Walk the items with the objects made so far, the names bound so far and the room left in the
  table: an object is made before any name goes on it and only once, a name goes on once.
\<close>

fun item_names :: "item list \<Rightarrow> (string \<times> string) list" where
  "item_names [] = []"
| "item_names (Fn o' n f # is) = (o', n) # item_names is"
| "item_names (i # is) = item_names is"

fun objects_ok :: "string list \<Rightarrow> item list \<Rightarrow> bool" where
  "objects_ok os [] = True"
| "objects_ok os (NewObj o' # is) = (o' \<notin> set os \<and> objects_ok (o' # os) is)"
| "objects_ok os (EnsureObj o' # is) = objects_ok (o' # os) is"
| "objects_ok os (GetObj o' # is) = (o' \<in> set os \<and> objects_ok os is)"
| "objects_ok os (Fn o' n f # is) = (o' \<in> set os \<and> objects_ok os is)"
| "objects_ok os (Bundle b # is) = objects_ok os is"

lemma call_leaf_NewObj:
  "fst n \<noteq> o' \<Longrightarrow> call_leaf (reg (install_item impl (NewObj o') s)) n = call_leaf (reg s) n"
  by (simp add: call_leaf_def)

lemma registry_ok_item: "registry_ok (reg s) \<Longrightarrow> registry_ok (reg (install_item impl i s))"
  by (cases i) (auto simp: registry_ok_def JABCApiFn_def split: if_splits intro: less_SucI)

lemma objects_ok_cong: "set os = set os' \<Longrightarrow> objects_ok os is = objects_ok os' is"
proof (induction "is" arbitrary: os os')
  case (Cons i "is")
  have "objects_ok (p # os) is = objects_ok (p # os') is" for p
    using Cons.prems by (intro Cons.IH) simp
  moreover have "objects_ok os is = objects_ok os' is" using Cons.prems by (rule Cons.IH)
  ultimately show ?case using Cons.prems by (cases i) simp_all
qed simp

lemma install_keeps:
  assumes "registry_ok (reg s)" and "objects_ok (objs s) is" and "fst n \<in> set (objs s)"
    and "n \<notin> set (item_names is)"
  shows "call_leaf (reg (install impl is s)) n = call_leaf (reg s) n"
  using assms
proof (induction "is" arbitrary: s)
  case Nil
  then show ?case by (simp add: install_def)
next
  case (Cons i "is")
  have ok: "registry_ok (reg (install_item impl i s))" using Cons.prems(1) by (rule registry_ok_item)
  have "call_leaf (reg (install impl is (install_item impl i s))) n =
      call_leaf (reg (install_item impl i s)) n"
  proof (rule Cons.IH [OF ok])
    have "objects_ok (o' # objs s) is = objects_ok (objs s) is" if "o' \<in> set (objs s)" for o'
      using that by (intro objects_ok_cong) auto
    then show "objects_ok (objs (install_item impl i s)) is" using Cons.prems(2) by (cases i) auto
    show "fst n \<in> set (objs (install_item impl i s))" using Cons.prems(3) by (cases i) auto
    show "n \<notin> set (item_names is)" using Cons.prems(4) by (cases i) auto
  qed
  also have "\<dots> = call_leaf (reg s) n"
  proof (cases i)
    case (NewObj o')
    with Cons.prems(2,3) have "fst n \<noteq> o'" by auto
    with NewObj show ?thesis using call_leaf_NewObj by blast
  next
    case (Fn o' m f)
    with Cons.prems(2,4) have "o' \<in> set (objs s)" "n \<noteq> (o', m)" by auto
    with Fn call_leaf_other [OF Cons.prems(1)] show ?thesis by simp
  qed auto
  finally show ?case by (simp add: install_def)
qed

lemma install_binds:
  assumes "registry_ok (reg s)" and "objects_ok (objs s) is" and "distinct (item_names is)"
    and "length (leaves (reg s)) + length (item_names is) \<le> JABC_LEAF_MAX" and "Fn o' n f \<in> set is"
  shows "call_leaf (reg (install impl is s)) (o', n) = Some (bracketed (impl f))"
  using assms
proof (induction "is" arbitrary: s)
  case Nil
  then show ?case by simp
next
  case (Cons i "is")
  have ok: "registry_ok (reg (install_item impl i s))" using Cons.prems(1) by (rule registry_ok_item)
  have "objects_ok (p # objs s) is = objects_ok (objs s) is" if "p \<in> set (objs s)" for p
    using that by (intro objects_ok_cong) auto
  then have objs: "objects_ok (objs (install_item impl i s)) is" using Cons.prems(2) by (cases i) auto
  show ?case
  proof (cases "Fn o' n f \<in> set is")
    case True
    have "call_leaf (reg (install impl is (install_item impl i s))) (o', n) = Some (bracketed (impl f))"
    proof (rule Cons.IH [OF ok objs _ _ True])
      show "distinct (item_names is)" using Cons.prems(3) by (cases i) auto
      show "length (leaves (reg (install_item impl i s))) + length (item_names is) \<le> JABC_LEAF_MAX"
        using Cons.prems(4) by (cases i) (auto simp: JABCApiFn_def)
    qed
    then show ?thesis by (simp add: install_def)
  next
    case False
    with Cons.prems(5) have i: "i = Fn o' n f" by simp
    then have o': "o' \<in> set (objs s)" using Cons.prems(2) by simp
    have "(o', n) \<notin> set (item_names is)" using Cons.prems(3) i by simp
    then have "call_leaf (reg (install impl is (install_item impl i s))) (o', n) =
        call_leaf (reg (install_item impl i s)) (o', n)"
      using o' i by (intro install_keeps [OF ok objs]) simp_all
    also have "\<dots> = Some (bracketed (impl f))"
      using call_leaf_new [of "reg s" o' n "impl f"] Cons.prems(4) i o' by (simp add: trampoline_last)
    finally show ?thesis by (simp add: install_def)
  qed
qed

text \<open>The installs of the program pass the check.\<close>

lemma modules_objects: "objects_ok [''global''] JABCInstallModules"
  by code_simp

lemma modules_count: "length (item_names JABCInstallModules) = 291"
  by code_simp

text \<open>
  The names fall into groups, one per module (\<open>pack\<close> and \<open>git\<close> share the names \<open>_git_*\<close>), told
  apart by the object and the first word of the name.
\<close>

definition name_tag :: "string \<times> string \<Rightarrow> string \<times> string" where
  "name_tag n = (fst n, takeWhile (\<lambda>c. c \<noteq> CHR ''_'') (tl (snd n)))"

definition module_names :: "(string \<times> string) list list" where
  "module_names =
     [item_names JABCInstallUtf8,
      item_names JABCInstallIo,
      item_names JABCInstallHeap,
      item_names JABCInstallHash,
      item_names JABCInstallHit,
      item_names JABCInstallIndex,
      item_names JABCInstallPup,
      item_names JABCInstallHunk,
      item_names (JABCInstallPack @ JABCInstallGit),
      item_names JABCInstallUlog,
      item_names JABCInstallCfold,
      item_names JABCInstallTok,
      item_names JABCInstallUri,
      item_names JABCInstallCodec,
      item_names JABCInstallZip,
      item_names JABCInstallIgno,
      item_names JABCInstallDirc,
      item_names JABCInstallTty,
      item_names JABCInstallPol,
      item_names JABCInstallNet,
      item_names JABCInstallHttp,
      item_names JABCInstallFsw]"

lemma item_names_append: "item_names (xs @ ys) = item_names xs @ item_names ys"
  by (induction xs rule: item_names.induct) simp_all

lemma distinct_groups:
  assumes "\<forall>g\<in>set gs. distinct g" and "distinct (concat (map (\<lambda>g. remdups (map t g)) gs))"
  shows "distinct (concat gs)"
  using assms
proof (induction gs)
  case (Cons g gs)
  have "set g \<inter> set (concat gs) = {}"
  proof (rule ccontr)
    assume "set g \<inter> set (concat gs) \<noteq> {}"
    then obtain x where "x \<in> set g" "x \<in> set (concat gs)" by blast
    then have "t x \<in> t ` set g" "t x \<in> t ` set (concat gs)" by auto
    moreover have "t ` set g \<inter> t ` set (concat gs) = {}" using Cons.prems(2) by (simp add: image_Union)
    ultimately show False by blast
  qed
  with Cons show ?case by simp
qed simp

lemma module_names_all: "concat module_names = item_names JABCInstallModules"
  by (simp add: module_names_def JABCInstallModules_def item_names_append JABCInstallBuf_def
      JABCInstallConsole_def JABCInstallCont_def JABCInstallWeave_def JABCInstallAnsi_def
      JABCInstallJsrcPack_def JABCInstallRequire_def)

lemma module_names_each: "list_all distinct module_names"
  by code_simp

lemma module_tags: "distinct (concat (map (\<lambda>g. remdups (map name_tag g)) module_names))"
  by code_simp

lemma modules_distinct: "distinct (item_names JABCInstallModules)"
  using distinct_groups [OF _ module_tags] module_names_each
  unfolding list_all_iff module_names_all by blast

section \<open>Properties\<close>

text \<open>
  After the installs of all modules, in the order \<open>main\<close> runs them, every name the program
  registers is bound to its own function, inside the bracket that restores the scratch arena: no
  module overwrites a name or an object of another, no name is put on an object that is not there
  yet, and the table of 512 leaves does not overflow.
\<close>

theorem all_modules_bound:
  assumes "Fn o' n f \<in> set JABCInstallModules"
  shows "call_leaf (reg (install impl JABCInstallModules empty_install)) (o', n) = Some (bracketed (impl f)) \<and>
    length (item_names JABCInstallModules) \<le> JABC_LEAF_MAX"
proof -
  have room: "length (item_names JABCInstallModules) \<le> JABC_LEAF_MAX"
    by (simp add: modules_count JABC_LEAF_MAX_def)
  then show ?thesis
    using install_binds [of empty_install JABCInstallModules o' n f impl] modules_objects modules_distinct assms
    by (simp add: empty_install_def) (simp add: empty_registry_def)
qed

theorem all_modules_bound_witness:
  "\<forall>impl. call_leaf (reg (install impl JABCInstallModules empty_install)) (''abc'', ''_heap_u8_push'') =
     Some (bracketed (impl ''jheap_u8_push''))"
proof -
  have "Fn ''abc'' ''_heap_u8_push'' ''jheap_u8_push'' \<in> set JABCInstallModules"
    by (simp add: JABCInstallModules_def JABCInstallHeap_def HEAP_REG_def)
  from all_modules_bound [OF this] show ?thesis by blast
qed

end
