(* ===== verification/Entry.thy ===== *)
theory Entry
  imports Leaf "HOL-Library.Monad_Syntax"
begin

text \<open>
  The program's entry (\<open>main.c\<close>): the command line, the entry route (script, eval or the resident
  loop), the evaluation of a script with its report and the drain of the job queue, the exit code
  and the teardown.  The JavaScript engine is the parameter \<open>vm\<close>; a computation that may not come
  back is an option, \<open>None\<close> when it does not.  Where the engine runs JavaScript, a program can also
  leave through \<open>io.exit\<close> (\<open>_exit\<close> in \<open>io.c\<close>), which ends the process there: that is the \<open>Inl\<close> of a
  computation, with the integer it was given, and \<open>andthen\<close> passes it up.
\<close>

section \<open>The engine and the system, as far as this file uses them\<close>

datatype job_outcome = NoJob | Ran | Threw "jsval option"

datatype stack_outcome = StackUndef | StackExn | StackVal jsval

record process =
  p_argv :: "string list"
  p_execPath :: "string option"
  p_version :: string
  p_build :: string
  p_build_date :: string

datatype gval = GWords "string list" | GString string | GProcess process

datatype down = UnPol | UnPup | CloseJS | UnIo | UnIgno | UnBass

datatype event = Stderr string | Down down

text \<open>A script file as \<open>fopen\<close> gives it: what \<open>ftell\<close> says at its end, and its bytes.\<close>

record sfile =
  f_tell :: int
  f_bytes :: string

type_synonym ('w, 'a) ran = "(int \<times> 'w + 'a \<times> 'w) option"

record 'w vm =
  js_eval :: "string \<Rightarrow> string \<Rightarrow> 'w \<Rightarrow> ('w, jsval option) ran"
  js_job :: "'w \<Rightarrow> ('w, job_outcome) ran"
  js_cstring :: "jsval \<Rightarrow> 'w \<Rightarrow> ('w, string option) ran"
  js_is_object :: "jsval \<Rightarrow> bool"
  js_stack :: "jsval \<Rightarrow> 'w \<Rightarrow> ('w, stack_outcome) ran"
  js_global :: "string \<Rightarrow> gval \<Rightarrow> 'w \<Rightarrow> 'w"
  js_boot :: "'w \<Rightarrow> 'w option"
  js_down :: "down \<Rightarrow> 'w \<Rightarrow> 'w"
  sys_open :: "string \<Rightarrow> 'w \<Rightarrow> sfile option"
  sys_malloc :: "nat \<Rightarrow> 'w \<Rightarrow> bool"
  sys_exe :: "'w \<Rightarrow> string option"
  sys_realpath :: "string \<Rightarrow> 'w \<Rightarrow> string option"
  debug :: bool
  packed :: bool
  bass_ok :: bool
  versn :: "string \<times> string \<times> string"

record 'w prog =
  wld :: 'w
  evs :: "event list"

definition enter :: "'w prog \<Rightarrow> ('w, 'a) ran \<Rightarrow> ('w prog, 'a) ran" where
  "enter s r = map_option (map_sum (\<lambda>(c, w). (c, s\<lparr>wld := w\<rparr>)) (\<lambda>(a, w). (a, s\<lparr>wld := w\<rparr>))) r"

definition andthen :: "('s, 'a) ran \<Rightarrow> ('a \<Rightarrow> 's \<Rightarrow> ('s, 'b) ran) \<Rightarrow> ('s, 'b) ran" where
  "andthen r k = do { x \<leftarrow> r; case x of Inl e \<Rightarrow> Some (Inl e) | Inr (a, s) \<Rightarrow> k a s }"

definition ret :: "'a \<Rightarrow> 's \<Rightarrow> ('s, 'a) ran" where
  "ret a s = Some (Inr (a, s))"

definition PATH_MAX :: nat where
  "PATH_MAX = 4096"

definition say :: "string \<Rightarrow> 'w prog \<Rightarrow> 'w prog" where
  "say t s = s\<lparr>evs := evs s @ [Stderr t]\<rparr>"

definition nl :: string where
  "nl = [CHR 0x0A]"

text \<open>A C string: the bytes before the first NUL.\<close>

definition cstr :: "string \<Rightarrow> string" where
  "cstr t = takeWhile (\<lambda>c. c \<noteq> CHR 0x00) t"

section \<open>Reports and jobs\<close>

text \<open>The tail of \<open>JABCReport\<close> in a debug build: the stack of an object, when it can be read.\<close>

definition report_stack :: "'w vm \<Rightarrow> jsval \<Rightarrow> 'w prog \<Rightarrow> ('w prog, unit) ran" where
  "report_stack vm e s =
     (if js_is_object vm e then
        andthen (enter s (js_stack vm e (wld s))) (\<lambda>st s.
          case st of
            StackVal v \<Rightarrow> andthen (enter s (js_cstring vm v (wld s))) (\<lambda>t s.
              ret () (case t of Some t' \<Rightarrow> say (t' @ nl) s | None \<Rightarrow> s))
          | _ \<Rightarrow> ret () s)
      else ret () s)"

definition JABCReport :: "'w vm \<Rightarrow> jsval \<Rightarrow> 'w prog \<Rightarrow> ('w prog, unit) ran" where
  "JABCReport vm e s =
     andthen (enter s (js_cstring vm e (wld s))) (\<lambda>t s.
       case t of
         None \<Rightarrow> ret () (say (''JS exception: <unprintable>'' @ nl) s)
       | Some t' \<Rightarrow>
           (let s' = say (''JS exception: '' @ t' @ nl) s in
            if debug vm then report_stack vm e s' else ret () s'))"

partial_function (option) JABCDrainJobs :: "'w vm \<Rightarrow> 'w prog \<Rightarrow> ('w prog, unit) ran" where
  "JABCDrainJobs vm s = do {
     x \<leftarrow> enter s (js_job vm (wld s));
     case x of
       Inl e \<Rightarrow> Some (Inl e)
     | Inr (NoJob, s) \<Rightarrow> ret () s
     | Inr (Threw None, s) \<Rightarrow> ret () s
     | Inr (Threw (Some e), s) \<Rightarrow> JABCReport vm e s
     | Inr (Ran, s) \<Rightarrow> JABCDrainJobs vm s
   }"

text \<open>\<open>JABCEval\<close> hands the engine \<open>strlen(script)\<close> bytes.\<close>

definition JABCEval :: "'w vm \<Rightarrow> string \<Rightarrow> string \<Rightarrow> 'w prog \<Rightarrow> ('w prog, bool) ran" where
  "JABCEval vm script name s =
     andthen (enter s (js_eval vm (cstr script) name (wld s))) (\<lambda>r s.
     andthen (case r of
        Some e \<Rightarrow> andthen (JABCReport vm e s) (\<lambda>_ s. ret False s)
      | None \<Rightarrow> ret True s) (\<lambda>ok s.
     andthen (JABCDrainJobs vm s) (\<lambda>_ s. ret ok s)))"

definition JABCExecute :: "'w vm \<Rightarrow> string \<Rightarrow> 'w prog \<Rightarrow> ('w prog, unit) ran" where
  "JABCExecute vm script s = andthen (JABCEval vm script ''<bundle>'' s) (\<lambda>_ s. ret () s)"

definition JABCRun :: "'w vm \<Rightarrow> string \<Rightarrow> 'w prog \<Rightarrow> ('w prog, bool) ran" where
  "JABCRun vm script s = JABCEval vm script ''<eval>'' s"

definition JABCRunFile :: "'w vm \<Rightarrow> string \<Rightarrow> 'w prog \<Rightarrow> ('w prog, bool) ran" where
  "JABCRunFile vm path s =
     (case sys_open vm path (wld s) of
        None \<Rightarrow> ret False (say (''Error: cannot open '' @ path @ nl) s)
      | Some f \<Rightarrow>
          if f_tell f < 0 then ret False (say (''Error: cannot size '' @ path @ nl) s)
          else if \<not> sys_malloc vm (nat (f_tell f) + 1) (wld s)
          then ret False (say (''Error: out of memory reading '' @ path @ nl) s)
          else JABCEval vm (take (nat (f_tell f)) (f_bytes f) @ [CHR 0x00]) path s)"

section \<open>The command line\<close>

definition ch :: "char \<Rightarrow> nat" where
  "ch c = of_char c"

definition is_alpha :: "char \<Rightarrow> bool" where
  "is_alpha c \<longleftrightarrow> ch (CHR ''a'') \<le> ch c \<and> ch c \<le> ch (CHR ''z'') \<or>
     ch (CHR ''A'') \<le> ch c \<and> ch c \<le> ch (CHR ''Z'')"

definition is_digit :: "char \<Rightarrow> bool" where
  "is_digit c \<longleftrightarrow> ch (CHR ''0'') \<le> ch c \<and> ch c \<le> ch (CHR ''9'')"

definition JABCEndsWithJs :: "string \<Rightarrow> bool" where
  "JABCEndsWithJs t \<longleftrightarrow> 3 \<le> length t \<and> drop (length t - 3) t = ''.js''"

fun scheme_tail :: "string \<Rightarrow> bool" where
  "scheme_tail [] = False"
| "scheme_tail (c # p) =
     (if c = CHR '':'' then True
      else if c = CHR ''/'' then False
      else if \<not> (is_alpha c \<or> is_digit c \<or> c = CHR ''+'' \<or> c = CHR ''-'' \<or> c = CHR ''.'') then False
      else scheme_tail p)"

fun JABCHasScheme :: "string \<Rightarrow> bool" where
  "JABCHasScheme [] = False"
| "JABCHasScheme (c # p) = (if \<not> is_alpha c then False else scheme_tail p)"

datatype start = Version | EvalMissing | Go "string option" "string option" nat

fun scan_args :: "bool \<Rightarrow> nat \<Rightarrow> string option \<Rightarrow> string list \<Rightarrow> start" where
  "scan_args pk i ev [] = Go ev None i"
| "scan_args pk i ev (a # as) =
     (if a = ''--version'' then Version
      else if a = ''--eval'' then
        (case as of [] \<Rightarrow> EvalMissing | c # as' \<Rightarrow> scan_args pk (i + 2) (Some c) as')
      else Go ev (if pk then None else Some a) (if pk then i else i + 1))"

text \<open>The loop starts at \<open>argv[1]\<close>; \<open>tail\<close> is \<open>argc\<close> when it finds no word (also for \<open>argc = 0\<close>).\<close>

definition main_scan :: "bool \<Rightarrow> string list \<Rightarrow> start" where
  "main_scan pk argv = (case argv of [] \<Rightarrow> Go None None 0 | _ # as \<Rightarrow> scan_args pk 1 None as)"

definition JABCArgvArray :: "string list \<Rightarrow> nat \<Rightarrow> string option \<Rightarrow> string option \<Rightarrow> string list" where
  "JABCArgvArray argv from head0 head1 =
     (case head0 of Some h \<Rightarrow> [h] | None \<Rightarrow> []) @
     (case head1 of Some h \<Rightarrow> [h] | None \<Rightarrow> []) @ drop from argv"

definition JABCExecPath :: "'w vm \<Rightarrow> string option \<Rightarrow> 'w \<Rightarrow> string option" where
  "JABCExecPath vm argv0 w =
     (case sys_exe vm w of
        Some b \<Rightarrow> if b \<noteq> [] then Some (cstr (take (PATH_MAX - 1) b))
                  else (case argv0 of Some a \<Rightarrow> sys_realpath vm a w | None \<Rightarrow> None)
      | None \<Rightarrow> (case argv0 of Some a \<Rightarrow> sys_realpath vm a w | None \<Rightarrow> None))"

definition process_of :: "'w vm \<Rightarrow> string list \<Rightarrow> nat \<Rightarrow> string option \<Rightarrow> 'w \<Rightarrow> process" where
  "process_of vm argv tail script w =
     \<lparr>p_argv = JABCArgvArray argv tail (Some ''jab'') script,
      p_execPath = JABCExecPath vm (case argv of [] \<Rightarrow> None | a # _ \<Rightarrow> Some a) w,
      p_version = fst (versn vm), p_build = fst (snd (versn vm)), p_build_date = snd (snd (versn vm))\<rparr>"

definition JABCSetGlobal :: "'w vm \<Rightarrow> string \<Rightarrow> gval \<Rightarrow> 'w prog \<Rightarrow> 'w prog" where
  "JABCSetGlobal vm name v s = s\<lparr>wld := js_global vm name v (wld s)\<rparr>"

definition JABCInstallArgv :: "'w vm \<Rightarrow> string list \<Rightarrow> nat \<Rightarrow> string option \<Rightarrow> 'w prog \<Rightarrow> 'w prog" where
  "JABCInstallArgv vm argv tail script s =
     (let s1 = JABCSetGlobal vm ''args'' (GWords (JABCArgvArray argv tail None None)) s in
      JABCSetGlobal vm ''process'' (GProcess (process_of vm argv tail script (wld s1))) s1)"

section \<open>main\<close>

definition is_script :: "string option \<Rightarrow> bool" where
  "is_script sf = (case sf of None \<Rightarrow> False | Some p \<Rightarrow> JABCEndsWithJs p \<and> \<not> JABCHasScheme p)"

text \<open>The middle of \<open>main\<close>: \<open>rc\<close> is the C variable, \<open>True\<close> for 1.\<close>

definition main_body :: "'w vm \<Rightarrow> string option \<Rightarrow> string option \<Rightarrow> 'w prog \<Rightarrow> ('w prog, bool) ran" where
  "main_body vm ev sf s =
     andthen (case ev of
        Some code \<Rightarrow> andthen (JABCRun vm code s) (\<lambda>ok s. ret (\<not> ok) s)
      | None \<Rightarrow> ret False s) (\<lambda>rc s.
     andthen
       (if rc then ret rc s
        else if is_script sf then
          (let s = JABCSetGlobal vm ''__mainSpec'' (GString (the sf)) s in
           andthen (JABCRun vm ''__pinScript(__mainSpec)'' s) (\<lambda>ok s.
             if \<not> ok then ret True s
             else andthen (JABCRunFile vm (the sf) s) (\<lambda>ok s. ret (\<not> ok) s)))
        else if ev = None then andthen (JABCRun vm ''__main()'' s) (\<lambda>ok s. ret (\<not> ok) s)
        else ret False s) (\<lambda>rc s.
     if rc then ret rc s
     else andthen (JABCRun vm ''typeof pol === 'object' && pol.run(pol.NEVER)'' s) (\<lambda>ok s. ret (\<not> ok) s)))"

definition tear :: "'w vm \<Rightarrow> down \<Rightarrow> 'w prog \<Rightarrow> 'w prog" where
  "tear vm d s = s\<lparr>wld := js_down vm d (wld s), evs := evs s @ [Down d]\<rparr>"

definition teardown :: "'w vm \<Rightarrow> 'w prog \<Rightarrow> 'w prog" where
  "teardown vm s = tear vm UnBass (tear vm UnIgno (tear vm UnIo (tear vm CloseJS (tear vm UnPup (tear vm UnPol s)))))"

text \<open>How the process ends: \<open>main\<close> returned this code, or \<open>io.exit\<close> left with this status.\<close>

datatype ending = Returned nat | Exited nat

definition main :: "'w vm \<Rightarrow> string list \<Rightarrow> 'w prog \<Rightarrow> (ending \<times> 'w prog) option" where
  "main vm argv s =
     (if \<not> bass_ok vm then Some (Returned 1, say (''ABC_BASS u8bMap failed'' @ nl) s)
      else (case main_scan (packed vm) argv of
          Version \<Rightarrow> Some (Returned 0, say (''jab v0.1.0'' @ nl) s)
        | EvalMissing \<Rightarrow> Some (Returned 1, say (''Error: --eval requires a code argument'' @ nl) s)
        | Go ev sf tail \<Rightarrow> do {
            w \<leftarrow> js_boot vm (wld s);
            x \<leftarrow> main_body vm ev sf (JABCInstallArgv vm argv tail sf (s\<lparr>wld := w\<rparr>));
            Some (case x of
              Inl (c, s') \<Rightarrow> (Exited (nat (c mod 256)), s')
            | Inr (rc, s') \<Rightarrow> (Returned (if rc then 1 else 0), teardown vm s'))
          }))"

text \<open>\<open>__main\<close> of \<open>require.c\<close>, the one step it does on \<open>process.argv\<close>.\<close>

definition main_argv :: "string \<Rightarrow> string list \<Rightarrow> string list" where
  "main_argv main_js av = [hd av, main_js] @ drop 1 av"

section \<open>What the parts do\<close>

definition scheme_char :: "char \<Rightarrow> bool" where
  "scheme_char c \<longleftrightarrow> is_alpha c \<or> is_digit c \<or> c \<in> {CHR ''+'', CHR ''-'', CHR ''.''}"

lemma scheme_char_neither: "\<not> scheme_char (CHR '':'')" "\<not> scheme_char (CHR ''/'')"
  by (simp_all add: scheme_char_def is_alpha_def is_digit_def ch_def)

lemma scheme_tail_iff:
  "scheme_tail p \<longleftrightarrow> (\<exists>w rest. p = w @ CHR '':'' # rest \<and> list_all scheme_char w)"
proof (induction p)
  case (Cons c p)
  consider "c = CHR '':''" | "c \<noteq> CHR '':''" "scheme_char c" | "c \<noteq> CHR '':''" "\<not> scheme_char c" by blast
  then show ?case
  proof cases
    case 1
    then have "c # p = [] @ CHR '':'' # p \<and> list_all scheme_char []" by simp
    moreover have "scheme_tail (c # p)" using 1 by simp
    ultimately show ?thesis by blast
  next
    case 2
    then have "scheme_tail (c # p) = scheme_tail p"
      using scheme_char_neither(2) by (auto simp: scheme_char_def)
    moreover have "(\<exists>w rest. c # p = w @ CHR '':'' # rest \<and> list_all scheme_char w) \<longleftrightarrow>
        (\<exists>w rest. p = w @ CHR '':'' # rest \<and> list_all scheme_char w)"
      (is "?L \<longleftrightarrow> ?R")
    proof
      show "?L \<Longrightarrow> ?R" using 2 by (auto simp: Cons_eq_append_conv)
      assume ?R
      then obtain w rest where "p = w @ CHR '':'' # rest" "list_all scheme_char w" by blast
      with 2 have "c # p = (c # w) @ CHR '':'' # rest \<and> list_all scheme_char (c # w)" by simp
      then show ?L by blast
    qed
    ultimately show ?thesis using Cons.IH by simp
  next
    case 3
    then have "\<not> scheme_tail (c # p)" by (simp add: scheme_char_def)
    moreover have "\<not> (\<exists>w rest. c # p = w @ CHR '':'' # rest \<and> list_all scheme_char w)"
      using 3 by (auto simp: Cons_eq_append_conv)
    ultimately show ?thesis by blast
  qed
qed simp

lemma cstr_nul: "cstr (a @ CHR 0x00 # b) = cstr a"
  by (induction a) (simp_all add: cstr_def)

text \<open>One job that ran, in the world \<open>w\<close>.\<close>

definition ran_one :: "'w vm \<Rightarrow> 'w \<Rightarrow> 'w \<Rightarrow> bool" where
  "ran_one vm w w' \<longleftrightarrow> js_job vm w = Some (Inr (Ran, w'))"

text \<open>The end of a drain that stops at the outcome \<open>j\<close> with the world \<open>w\<close> after it.\<close>

definition drained :: "'w vm \<Rightarrow> 'w prog \<Rightarrow> job_outcome \<Rightarrow> 'w \<Rightarrow> ('w prog, unit) ran" where
  "drained vm s j w =
     (case j of
        Threw (Some e) \<Rightarrow> JABCReport vm e (s\<lparr>wld := w\<rparr>)
      | _ \<Rightarrow> ret () (s\<lparr>wld := w\<rparr>))"

lemma drain_step:
  assumes "js_job vm (wld s) = Some (Inr (j, w))"
  shows "JABCDrainJobs vm s = (if j = Ran then JABCDrainJobs vm (s\<lparr>wld := w\<rparr>) else drained vm s j w)"
  using assms by (subst JABCDrainJobs.simps) (auto simp: enter_def drained_def split: job_outcome.split option.split)

text \<open>The words of the command line after the options, as a shell user counts them.\<close>

fun cli_words :: "string list \<Rightarrow> string list" where
  "cli_words [] = []"
| "cli_words (a # as) = (if a = ''--eval'' then cli_words (drop 1 as) else a # as)"

text \<open>
  Everything before the teardown only adds lines to stderr, and a failure adds at least one.  The
  rules follow the way a computation is put together.
\<close>

definition wrote :: "bool \<Rightarrow> 'w prog \<Rightarrow> 'w prog \<Rightarrow> bool" where
  "wrote b s s' \<longleftrightarrow> (\<exists>ts. evs s' = evs s @ map Stderr ts \<and> (b \<longrightarrow> ts \<noteq> []))"

text \<open>An \<open>io.exit\<close> a program can reach: some call of the engine leaves with it.\<close>

definition asked_exit :: "'w vm \<Rightarrow> int \<Rightarrow> bool" where
  "asked_exit vm c \<longleftrightarrow> (\<exists>w w'. (\<exists>t n. js_eval vm t n w = Some (Inl (c, w'))) \<or>
     js_job vm w = Some (Inl (c, w')) \<or> (\<exists>v. js_cstring vm v w = Some (Inl (c, w'))) \<or>
     (\<exists>v. js_stack vm v w = Some (Inl (c, w'))))"

definition tells :: "'w vm \<Rightarrow> ('a \<Rightarrow> bool) \<Rightarrow> 'w prog \<Rightarrow> ('w prog, 'a) ran \<Rightarrow> bool" where
  "tells vm bad s r \<longleftrightarrow> (case r of
     None \<Rightarrow> True
   | Some (Inl (c, s')) \<Rightarrow> asked_exit vm c \<and> wrote False s s'
   | Some (Inr (a, s')) \<Rightarrow> wrote (bad a) s s')"

lemma wrote_refl: "wrote False s s"
  by (simp add: wrote_def)

lemma wrote_wld [simp]: "wrote b (s\<lparr>wld := w\<rparr>) s' = wrote b s s'" "wrote b s (s'\<lparr>wld := w\<rparr>) = wrote b s s'"
  by (simp_all add: wrote_def)

lemma wrote_less: "wrote b s s' \<Longrightarrow> wrote False s s'"
  by (auto simp: wrote_def)

lemma wrote_say: "wrote b s s' \<Longrightarrow> wrote c s (say t s')"
  unfolding wrote_def say_def by (auto intro: exI [of _ "ts @ [t]" for ts])

lemma wrote_trans: "wrote b s s' \<Longrightarrow> wrote c s' s'' \<Longrightarrow> wrote (b \<or> c) s s''"
  unfolding wrote_def by (metis Nil_is_append_conv append.assoc map_append)

lemma tells_ret: "wrote (bad a) s s' \<Longrightarrow> tells vm bad s (ret a s')"
  by (simp add: tells_def ret_def)

lemma tells_enter:
  assumes "wrote b s s'" and "\<And>c w. r = Some (Inl (c, w)) \<Longrightarrow> asked_exit vm c"
  shows "tells vm (\<lambda>_. b) s (enter s' r)"
proof (cases r)
  case (Some x)
  show ?thesis
  proof (cases x)
    case (Inl e)
    with assms Some wrote_less show ?thesis by (cases e) (fastforce simp: tells_def enter_def)
  next
    case (Inr e)
    with assms Some show ?thesis by (cases e) (simp add: tells_def enter_def)
  qed
qed (simp add: tells_def enter_def)

lemma tells_calls:
  assumes "wrote b s s'"
  shows "tells vm (\<lambda>_. b) s (enter s' (js_eval vm t n w))"
    "tells vm (\<lambda>_. b) s (enter s' (js_job vm w))"
    "tells vm (\<lambda>_. b) s (enter s' (js_cstring vm v w))"
    "tells vm (\<lambda>_. b) s (enter s' (js_stack vm v w))"
  by (rule tells_enter [OF assms], unfold asked_exit_def, blast)+

lemma tells_andthen:
  assumes r: "tells vm bad s r" and k: "\<And>a s'. wrote (bad a) s s' \<Longrightarrow> tells vm bad' s (k a s')"
  shows "tells vm bad' s (andthen r k)"
proof (cases r)
  case (Some x)
  show ?thesis
  proof (cases x)
    case (Inl e)
    with Some r show ?thesis by (cases e) (simp add: tells_def andthen_def)
  next
    case (Inr e)
    with Some r k show ?thesis by (cases e) (simp add: tells_def andthen_def)
  qed
qed (simp add: tells_def andthen_def)

lemma tells_less:
  assumes "tells vm bad s r"
  shows "tells vm (\<lambda>_. False) s r"
proof (cases r)
  case (Some x)
  show ?thesis
  proof (cases x)
    case (Inl e)
    with assms Some show ?thesis by (cases e) (simp add: tells_def)
  next
    case (Inr e)
    with assms Some wrote_less show ?thesis by (cases e) (auto simp: tells_def)
  qed
qed (simp add: tells_def)

lemma tells_trans:
  assumes "wrote b s s'" and "tells vm bad s' r"
  shows "tells vm (\<lambda>a. b \<or> bad a) s r"
proof (cases r)
  case (Some x)
  show ?thesis
  proof (cases x)
    case (Inl e)
    with assms Some show ?thesis by (cases e) (auto simp: tells_def dest: wrote_trans [THEN wrote_less])
  next
    case (Inr e)
    with assms Some show ?thesis by (cases e) (auto simp: tells_def dest: wrote_trans)
  qed
qed (simp add: tells_def)

lemma report_stack_tells:
  assumes "wrote True s s'"
  shows "tells vm (\<lambda>_. True) s (report_stack vm e s')"
proof -
  have str: "tells vm (\<lambda>_. True) s (andthen (enter t (js_cstring vm v (wld t))) (\<lambda>u s.
      ret () (case u of Some t' \<Rightarrow> say (t' @ nl) s | None \<Rightarrow> s)))" if "wrote True s t" for t v
    by (rule tells_andthen [OF tells_calls(3) [OF that]], rule tells_ret) (auto intro: wrote_say split: option.split)
  show ?thesis
    unfolding report_stack_def
    by (cases "js_is_object vm e"; simp)
      (rule tells_andthen [OF tells_calls(4) [OF assms]], auto intro: str tells_ret assms split: stack_outcome.split)+
qed

lemma report_tells:
  assumes "wrote b s s'"
  shows "tells vm (\<lambda>_. True) s (JABCReport vm e s')"
  unfolding JABCReport_def
  by (rule tells_andthen [OF tells_calls(3) [OF assms]])
    (auto intro!: tells_ret report_stack_tells intro: wrote_say simp: Let_def split: option.split)

lemma drain_tells:
  assumes "wrote b s s'"
  shows "tells vm (\<lambda>_. b) s (JABCDrainJobs vm s')"
proof (cases "JABCDrainJobs vm s'")
  case (Some x)
  have "tells vm (\<lambda>_. False) s' (Some x)"
  proof (rule JABCDrainJobs.raw_induct [where P = "\<lambda>vm s x. tells vm (\<lambda>_. False) s (Some x)", OF _ Some])
    fix f and vm' :: "'a vm" and t y
    assume IH: "\<And>v u z. f v u = Some z \<Longrightarrow> tells v (\<lambda>_. False) u (Some z)"
      and step: "do {
       x \<leftarrow> enter t (js_job vm' (wld t));
       case x of
         Inl e \<Rightarrow> Some (Inl e)
       | Inr (NoJob, s) \<Rightarrow> ret () s
       | Inr (Ran, s) \<Rightarrow> f vm' s
       | Inr (Threw None, s) \<Rightarrow> ret () s
       | Inr (Threw (Some e), s) \<Rightarrow> JABCReport vm' e s
     } = Some y"
    have go: "tells vm' (\<lambda>_. False) t (f vm' u)" if "wrote False t u" for u
    proof (cases "f vm' u")
      case (Some z)
      from tells_trans [OF that IH [OF Some]] Some show ?thesis by simp
    qed (simp add: tells_def)
    have "tells vm' (\<lambda>_. False) t (andthen (enter t (js_job vm' (wld t))) (\<lambda>j s.
       case j of NoJob \<Rightarrow> ret () s | Ran \<Rightarrow> f vm' s | Threw None \<Rightarrow> ret () s | Threw (Some e) \<Rightarrow> JABCReport vm' e s))"
      by (auto intro!: tells_andthen [OF tells_calls(2) [OF wrote_refl]] tells_ret go report_tells [THEN tells_less]
          split: job_outcome.split option.split)
    also have "andthen (enter t (js_job vm' (wld t))) (\<lambda>j s.
       case j of NoJob \<Rightarrow> ret () s | Ran \<Rightarrow> f vm' s | Threw None \<Rightarrow> ret () s | Threw (Some e) \<Rightarrow> JABCReport vm' e s) = Some y"
      unfolding step [symmetric] andthen_def
      by (rule arg_cong [where f = "Option.bind _"]) (auto simp: fun_eq_iff split: sum.split job_outcome.split option.split)
    finally show "tells vm' (\<lambda>_. False) t (Some y)" .
  qed
  from tells_trans [OF assms this] Some show ?thesis by simp
qed (simp add: tells_def)

lemma eval_tells:
  assumes "wrote False s s'"
  shows "tells vm (\<lambda>ok. \<not> ok) s (JABCEval vm c n s')"
  unfolding JABCEval_def
proof (rule tells_andthen [OF tells_calls(1) [OF assms]])
  fix r and t :: "'a prog"
  assume t: "wrote False s t"
  have thrown: "tells vm (\<lambda>ok. \<not> ok) s (andthen (JABCReport vm e t) (\<lambda>_ s. ret False s))" for e
    by (rule tells_andthen [OF report_tells [OF t]]) (auto intro: tells_ret)
  show "tells vm (\<lambda>ok. \<not> ok) s (andthen (case r of
        Some e \<Rightarrow> andthen (JABCReport vm e t) (\<lambda>_ s. ret False s)
      | None \<Rightarrow> ret True t) (\<lambda>ok s. andthen (JABCDrainJobs vm s) (\<lambda>_ s. ret ok s)))"
  proof (rule tells_andthen)
    show "tells vm (\<lambda>ok. \<not> ok) s (case r of
        Some e \<Rightarrow> andthen (JABCReport vm e t) (\<lambda>_ s. ret False s) | None \<Rightarrow> ret True t)"
      using thrown t by (auto intro: tells_ret split: option.split)
  next
    fix ok and u :: "'a prog"
    assume "wrote (\<not> ok) s u"
    then show "tells vm (\<lambda>ok. \<not> ok) s (andthen (JABCDrainJobs vm u) (\<lambda>_ s. ret ok s))"
      by (rule tells_andthen [OF drain_tells]) (rule tells_ret)
  qed
qed

lemma file_tells: "wrote False s s' \<Longrightarrow> tells vm (\<lambda>ok. \<not> ok) s (JABCRunFile vm p s')"
  unfolding JABCRunFile_def
  by (auto intro!: tells_ret eval_tells intro: wrote_say split: option.split)

lemma body_tells: "tells vm (\<lambda>rc. rc) s (main_body vm ev sf s)"
proof -
  have run: "tells vm (\<lambda>rc. rc) s (andthen (JABCRun vm c t) (\<lambda>ok s. ret (\<not> ok) s))" if "wrote False s t" for c t
    unfolding JABCRun_def by (rule tells_andthen [OF eval_tells [OF that]]) (auto intro: tells_ret)
  have "file": "tells vm (\<lambda>rc. rc) s (andthen (JABCRunFile vm p t) (\<lambda>ok s. ret (\<not> ok) s))" if "wrote False s t" for p t
    by (rule tells_andthen [OF file_tells [OF that]]) (auto intro: tells_ret)
  have pin: "tells vm (\<lambda>rc. rc) s (andthen (JABCRun vm c (JABCSetGlobal vm n v t)) (\<lambda>ok s.
      if \<not> ok then ret True s else andthen (JABCRunFile vm p s) (\<lambda>ok s. ret (\<not> ok) s)))"
    if "wrote False s t" for c n v p t
  proof (rule tells_andthen)
    show "tells vm (\<lambda>ok. \<not> ok) s (JABCRun vm c (JABCSetGlobal vm n v t))"
      unfolding JABCRun_def by (rule eval_tells) (use that in \<open>simp add: JABCSetGlobal_def\<close>)
  qed (auto intro: tells_ret "file")
  have cmd: "tells vm (\<lambda>rc. rc) s (case ev of
      Some code \<Rightarrow> andthen (JABCRun vm code s) (\<lambda>ok s. ret (\<not> ok) s) | None \<Rightarrow> ret False s)"
    by (auto intro: run tells_ret wrote_refl split: option.split)
  show ?thesis
    unfolding main_body_def Let_def
    by (rule tells_andthen [OF cmd], rule tells_andthen [where bad = "\<lambda>rc. rc"])
      (auto intro: tells_ret run pin)
qed

text \<open>What a drain comes to: the jobs that ran, then the first outcome that is not a run.\<close>

lemma drain_outcome:
  fixes q :: "'w \<Rightarrow> nat" and vm :: "'w vm"
  assumes job: "\<And>w. \<exists>j w'. js_job vm w = Some (Inr (j, w')) \<and> (j = Ran \<longrightarrow> q w' < q w)"
  shows "\<exists>w1 j w2. (ran_one vm)\<^sup>*\<^sup>* (wld s) w1 \<and> js_job vm w1 = Some (Inr (j, w2)) \<and> j \<noteq> Ran \<and>
    JABCDrainJobs vm s = drained vm s j w2"
proof (induction "q (wld s)" arbitrary: s rule: less_induct)
  case less
  obtain j w where j: "js_job vm (wld s) = Some (Inr (j, w))" and q: "j = Ran \<longrightarrow> q w < q (wld s)"
    using job by blast
  show ?case
  proof (cases "j = Ran")
    case True
    have one: "ran_one vm (wld s) w" using j True by (simp add: ran_one_def)
    have "q (wld (s\<lparr>wld := w\<rparr>)) < q (wld s)" using q True by simp
    from less.hyps [OF this] obtain w1 k w2 where IH: "(ran_one vm)\<^sup>*\<^sup>* w w1"
      "js_job vm w1 = Some (Inr (k, w2))" "k \<noteq> Ran" "JABCDrainJobs vm (s\<lparr>wld := w\<rparr>) = drained vm (s\<lparr>wld := w\<rparr>) k w2"
      by auto
    have "(ran_one vm)\<^sup>*\<^sup>* (wld s) w1" using one IH(1) by (rule converse_rtranclp_into_rtranclp)
    moreover have "drained vm (s\<lparr>wld := w\<rparr>) k w2 = drained vm s k w2"
      by (simp add: drained_def split: job_outcome.split option.split)
    ultimately show ?thesis using IH drain_step [OF j] True by auto
  next
    case False
    with drain_step [OF j] have "JABCDrainJobs vm s = drained vm s j w" by simp
    with False j show ?thesis by blast
  qed
qed

lemma scan_words:
  assumes "scan_args pk (length pre) ev as = Go ev' sf tail"
  shows "drop (if sf = None then tail else tail - 1) (pre @ as) = cli_words as \<and>
    (sf \<noteq> None \<longrightarrow> \<not> pk \<and> cli_words as = the sf # drop tail (pre @ as)) \<and>
    (sf = None \<longrightarrow> pk \<or> cli_words as = [])"
  using assms
proof (induction "as" arbitrary: pre ev rule: cli_words.induct)
  case 1
  then show ?case by auto
next
  case (2 a "as")
  show ?case
  proof (cases "a = ''--eval''")
    case True
    with 2 obtain c as' where "as": "as = c # as'" by (cases "as") (auto split: if_splits)
    have "scan_args pk (length (pre @ [a, c])) (Some c) as' = Go ev' sf tail"
      using 2(2) True "as" by simp
    with 2(1) [OF True, of "pre @ [a, c]" "Some c"] "as" True show ?thesis by simp
  next
    case False
    with 2(2) have "sf = (if pk then None else Some a)" "tail = (if pk then length pre else length pre + 1)"
      by (auto split: if_splits)
    with False show ?thesis by simp
  qed
qed

section \<open>Properties\<close>

text \<open>
  C15: a word is a URI for the loop, not a script, exactly when it begins with a letter, then any
  letters, digits, \<open>+\<close>, \<open>-\<close>, \<open>.\<close>, then a colon: no slash and no other character before the first
  colon; and it counts as a script exactly when it ends in \<open>.js\<close> (the last three characters,
  \<open>.js\<close> alone included) and is no such URI.
\<close>

theorem script_words_exact:
  "(JABCHasScheme t \<longleftrightarrow>
     (\<exists>a w rest. t = a # w @ CHR '':'' # rest \<and> is_alpha a \<and> list_all scheme_char w)) \<and>
   (is_script (Some t) \<longleftrightarrow> (\<exists>stem. t = stem @ ''.js'') \<and> \<not> JABCHasScheme t)"
proof (rule conjI)
  show "JABCHasScheme t \<longleftrightarrow>
     (\<exists>a w rest. t = a # w @ CHR '':'' # rest \<and> is_alpha a \<and> list_all scheme_char w)"
    by (cases t) (auto simp: scheme_tail_iff)
  have "JABCEndsWithJs t \<longleftrightarrow> (\<exists>stem. t = stem @ ''.js'')"
  proof
    assume "JABCEndsWithJs t"
    then have "t = take (length t - 3) t @ ''.js''"
      by (metis JABCEndsWithJs_def append_take_drop_id)
    then show "\<exists>stem. t = stem @ ''.js''" by blast
  qed (auto simp: JABCEndsWithJs_def)
  then show "is_script (Some t) \<longleftrightarrow> (\<exists>stem. t = stem @ ''.js'') \<and> \<not> JABCHasScheme t"
    by (simp add: is_script_def)
qed

text \<open>
  A drain of the job queue comes back whenever running a job shortens the queue and no job leaves
  the program: it runs the jobs in order up to the first outcome that is not a run, an empty queue
  or a job that threw.  A throw ends the drain with its report, and the jobs behind it stay queued.
\<close>

theorem drain_returns:
  fixes q :: "'w \<Rightarrow> nat" and vm :: "'w vm"
  assumes "\<And>w. \<exists>j w'. js_job vm w = Some (Inr (j, w')) \<and> (j = Ran \<longrightarrow> q w' < q w)"
  shows "\<exists>w1 j w2. (ran_one vm)\<^sup>*\<^sup>* (wld s) w1 \<and> js_job vm w1 = Some (Inr (j, w2)) \<and> j \<noteq> Ran \<and>
    JABCDrainJobs vm s = drained vm s j w2"
  using assms by (rule drain_outcome)

text \<open>An engine with a queue: the world is the list of jobs, \<open>True\<close> for a job that throws.\<close>

definition list_vm :: "bool list vm" where
  "list_vm = \<lparr>js_eval = \<lambda>c n w. ret None w,
     js_job = \<lambda>w. (case w of [] \<Rightarrow> ret NoJob []
       | b # js \<Rightarrow> ret (if b then Threw (Some JUndef) else Ran) js),
     js_cstring = \<lambda>v w. ret (Some ''undefined'') w, js_is_object = \<lambda>v. False,
     js_stack = \<lambda>v w. ret StackUndef w, js_global = \<lambda>n v w. w, js_boot = Some,
     js_down = \<lambda>d w. w, sys_open = \<lambda>p w. None, sys_malloc = \<lambda>n w. True,
     sys_exe = \<lambda>w. None, sys_realpath = \<lambda>p w. None, debug = False, packed = False,
     bass_ok = True, versn = ('''', '''', '''')\<rparr>"

lemma list_vm_jobs:
  "\<exists>j w'. js_job list_vm w = Some (Inr (j, w')) \<and> (j = Ran \<longrightarrow> length w' < length w)"
  by (cases w) (auto simp: list_vm_def ret_def)

theorem drain_returns_witness:
  "\<exists>w1 j w2. (ran_one list_vm)\<^sup>*\<^sup>* [False, True, False] w1 \<and> js_job list_vm w1 = Some (Inr (j, w2)) \<and>
    j \<noteq> Ran \<and> JABCDrainJobs list_vm \<lparr>wld = [False, True, False], evs = []\<rparr> =
      drained list_vm \<lparr>wld = [False, True, False], evs = []\<rparr> j w2"
  using drain_returns [OF list_vm_jobs, of "\<lparr>wld = [False, True, False], evs = []\<rparr>"] by simp

text \<open>
  Where the words of the command line go.  Take away the program's name and the options; the rest
  are the words.  In the loop (packed or not), after \<open>__main\<close> has put the path of \<open>main.js\<close> in,
  \<open>process.argv\<close> is \<open>jab\<close>, that path, and all the words, the first at index 2.  With a script,
  \<open>process.argv\<close> is \<open>jab\<close> and all the words, the script first, and \<open>args\<close> is the words after it.
  Only an unpacked build has a script word.
\<close>

theorem words_reach_the_script:
  assumes "main_scan pk argv = Go ev sf tail"
  shows "main_argv main_js (JABCArgvArray argv tail (Some ''jab'') sf) =
      ''jab'' # main_js # cli_words (tl argv) \<and>
    JABCArgvArray argv tail (Some ''jab'') sf = ''jab'' # cli_words (tl argv) \<and>
    (sf \<noteq> None \<longrightarrow> \<not> pk \<and> sf = Some (hd (cli_words (tl argv))) \<and>
       JABCArgvArray argv tail None None = tl (cli_words (tl argv)))"
proof (cases argv)
  case Nil
  with assms show ?thesis by (simp add: main_scan_def JABCArgvArray_def main_argv_def)
next
  case (Cons prog "as")
  with assms have "scan_args pk (length [prog]) None as = Go ev sf tail" by (simp add: main_scan_def)
  from scan_words [OF this] have
    words: "drop (if sf = None then tail else tail - 1) argv = cli_words as"
      "sf \<noteq> None \<longrightarrow> \<not> pk \<and> cli_words as = the sf # drop tail argv"
    using Cons by simp_all
  show ?thesis
  proof (cases sf)
    case None
    with words Cons show ?thesis by (simp add: JABCArgvArray_def main_argv_def)
  next
    case (Some p)
    with words Cons show ?thesis by (simp add: JABCArgvArray_def main_argv_def)
  qed
qed

theorem words_reach_the_script_witness:
  "main_argv ''/x/main.js'' (JABCArgvArray [''jab'', ''--eval'', ''1'', ''diff:a.js'', ''b''] 4 (Some ''jab'') (Some ''diff:a.js'')) =
     [''jab'', ''/x/main.js'', ''diff:a.js'', ''b'']"
proof -
  have "main_scan False [''jab'', ''--eval'', ''1'', ''diff:a.js'', ''b''] = Go (Some ''1'') (Some ''diff:a.js'') 4"
    by (simp add: main_scan_def)
  from words_reach_the_script [OF this, of "''/x/main.js''", THEN conjunct1] show ?thesis by simp
qed

text \<open>
  C13: how a run of the program ends.  When \<open>main\<close> returns, the exit code is 0 or 1, a 1 never comes
  without a line on stderr, and once the engine was started, whatever failed, the whole teardown ran
  as the last thing, each part once and in the order the parts need: the router and the run views
  while the context is alive, the context before the files it maps.  The three exits before the start
  (no scratch arena, \<open>--version\<close>, \<open>--eval\<close> without code) tear nothing down.  The only other way out
  is an \<open>io.exit\<close> of the JavaScript: it ends the process with the low eight bits of the code it was
  given, and no part of the teardown runs.
\<close>

theorem teardown_is_last:
  assumes "main vm argv s = Some (e, s')"
  shows "\<exists>ts. case e of
    Returned rc \<Rightarrow> rc \<in> {0, 1} \<and> (rc = 1 \<longrightarrow> ts \<noteq> []) \<and> evs s' = evs s @ map Stderr ts @
      (if bass_ok vm \<and> (\<exists>ev sf tail. main_scan (packed vm) argv = Go ev sf tail)
       then map Down [UnPol, UnPup, CloseJS, UnIo, UnIgno, UnBass] else [])
  | Exited n \<Rightarrow> (\<exists>c. asked_exit vm c \<and> n = nat (c mod 256)) \<and> evs s' = evs s @ map Stderr ts \<and>
      bass_ok vm \<and> (\<exists>ev sf tail. main_scan (packed vm) argv = Go ev sf tail)"
proof (cases "bass_ok vm \<and> (\<exists>ev sf tail. main_scan (packed vm) argv = Go ev sf tail)")
  case False
  have "\<exists>rc t. main vm argv s = Some (Returned rc, say t s) \<and> rc \<in> {0, 1}"
    using False by (cases "bass_ok vm"; cases "main_scan (packed vm) argv"; simp add: main_def) blast+
  with assms obtain rc t where "e = Returned rc" "s' = say t s" "rc \<in> {0, 1}" by auto
  with False show ?thesis by (intro exI [of _ "[t]"]) (auto simp: say_def)
next
  case started: True
  then obtain ev sf tail where Go: "main_scan (packed vm) argv = Go ev sf tail" by blast
  with started assms obtain w x where
    body: "main_body vm ev sf (JABCInstallArgv vm argv tail sf (s\<lparr>wld := w\<rparr>)) = Some x"
    and e: "(e, s') = (case x of Inl (c, s') \<Rightarrow> (Exited (nat (c mod 256)), s')
      | Inr (rc, s') \<Rightarrow> (Returned (if rc then 1 else 0), teardown vm s'))"
    by (auto simp: main_def bind_eq_Some_conv)
  let ?s = "JABCInstallArgv vm argv tail sf (s\<lparr>wld := w\<rparr>)"
  have out: "tells vm (\<lambda>rc. rc) ?s (Some x)" using body_tells [of vm ?s] body by metis
  have evs: "evs ?s = evs s" by (simp add: JABCInstallArgv_def JABCSetGlobal_def Let_def)
  show ?thesis
  proof (cases x)
    case (Inl c)
    with out e evs started Go show ?thesis by (cases c) (auto simp: tells_def wrote_def)
  next
    case (Inr r)
    obtain rc t where r: "r = (rc, t)" by (cases r)
    with out Inr obtain ts where "evs t = evs ?s @ map Stderr ts" "rc \<longrightarrow> ts \<noteq> []"
      by (auto simp: tells_def wrote_def)
    with e evs started Inr r show ?thesis
      by (intro exI [of _ ts]) (auto simp: teardown_def tear_def)
  qed
qed

text \<open>An engine whose script calls \<open>io.exit(263)\<close>, and a run that fails for want of its file.\<close>

definition exit_vm :: "bool list vm" where
  "exit_vm = list_vm\<lparr>js_eval := \<lambda>c n w. Some (Inl (263, w))\<rparr>"

theorem teardown_is_last_witness:
  "(\<exists>s' ts. main list_vm [''jab'', ''nope.js''] \<lparr>wld = [], evs = []\<rparr> = Some (Returned 1, s') \<and> ts \<noteq> [] \<and>
     evs s' = map Stderr ts @ map Down [UnPol, UnPup, CloseJS, UnIo, UnIgno, UnBass]) \<and>
   (\<exists>s' ts. main exit_vm [''jab''] \<lparr>wld = [], evs = []\<rparr> = Some (Exited 7, s') \<and> evs s' = map Stderr ts)"
proof
  have drain: "JABCDrainJobs list_vm s = ret () s" if "wld s = []" for s
    using that by (subst drain_step [of _ _ NoJob "[]"]) (cases s; simp add: list_vm_def ret_def drained_def)+
  have run: "JABCRun list_vm c s = ret True s" if "wld s = []" for c s
  proof -
    have "enter s (js_eval list_vm t n (wld s)) = ret None s" for t n
      by (cases s) (simp add: list_vm_def enter_def ret_def)
    then show ?thesis using drain [of s] that by (simp add: JABCRun_def JABCEval_def andthen_def ret_def)
  qed
  have sets: "JABCSetGlobal vm n v s = s" if "js_global vm = (\<lambda>n v w. w)" for vm n v and s :: "bool list prog"
    using that by (cases s) (simp add: JABCSetGlobal_def)
  have args: "JABCInstallArgv vm a t p s = s" if "js_global vm = (\<lambda>n v w. w)" for vm a t p and s :: "bool list prog"
    by (simp add: JABCInstallArgv_def sets [OF that])
  have opens: "JABCRunFile list_vm p s = ret False (say (''Error: cannot open '' @ p @ nl) s)" for p s
    by (simp add: JABCRunFile_def list_vm_def)
  have vm: "bass_ok list_vm" "packed list_vm = False" "js_boot list_vm = Some" "js_global list_vm = (\<lambda>n v w. w)"
    "bass_ok exit_vm" "packed exit_vm = False" "js_boot exit_vm = Some" "js_global exit_vm = (\<lambda>n v w. w)"
    by (simp_all add: list_vm_def exit_vm_def)
  have scan: "main_scan False [''jab'', ''nope.js''] = Go None (Some ''nope.js'') 2"
    "main_scan False [''jab''] = Go None None 1"
    by (simp_all add: main_scan_def)
  have js: "is_script (Some ''nope.js'')" by code_simp
  have "\<exists>s'. main list_vm [''jab'', ''nope.js''] \<lparr>wld = [], evs = []\<rparr> = Some (Returned 1, s')"
    by (simp add: main_def vm scan args sets main_body_def js run opens andthen_def ret_def Let_def)
  then obtain s' where "main list_vm [''jab'', ''nope.js''] \<lparr>wld = [], evs = []\<rparr> = Some (Returned 1, s')" by blast
  with teardown_is_last [OF this] scan vm
  show "\<exists>s' ts. main list_vm [''jab'', ''nope.js''] \<lparr>wld = [], evs = []\<rparr> = Some (Returned 1, s') \<and> ts \<noteq> [] \<and>
     evs s' = map Stderr ts @ map Down [UnPol, UnPup, CloseJS, UnIo, UnIgno, UnBass]" by auto
  have "JABCRun exit_vm c s = Some (Inl (263, s))" for c s
    by (cases s) (simp add: JABCRun_def JABCEval_def exit_vm_def enter_def andthen_def)
  then have "\<exists>s'. main exit_vm [''jab''] \<lparr>wld = [], evs = []\<rparr> = Some (Exited 7, s')"
    by (simp add: main_def vm scan args main_body_def is_script_def andthen_def ret_def)
  then obtain s' where "main exit_vm [''jab''] \<lparr>wld = [], evs = []\<rparr> = Some (Exited 7, s')" by blast
  with teardown_is_last [OF this] scan vm
  show "\<exists>s' ts. main exit_vm [''jab''] \<lparr>wld = [], evs = []\<rparr> = Some (Exited 7, s') \<and> evs s' = map Stderr ts" by auto
qed

text \<open>
  A script file is run up to its first NUL byte: the bytes after it change nothing, the run
  reports success or failure of the part before it alone.
\<close>

theorem nul_cuts_the_script:
  assumes "sys_open vm p (wld s) = Some \<lparr>f_tell = int (length (a @ CHR 0x00 # b)), f_bytes = a @ CHR 0x00 # b\<rparr>"
    and "\<And>n. sys_malloc vm n (wld s)"
  shows "JABCRunFile vm p s = JABCEval vm a p s"
proof -
  have "JABCRunFile vm p s = JABCEval vm ((a @ CHR 0x00 # b) @ [CHR 0x00]) p s"
    using assms by (simp add: JABCRunFile_def)
  also have "\<dots> = JABCEval vm a p s" by (simp add: JABCEval_def cstr_nul)
  finally show ?thesis .
qed

theorem nul_cuts_the_script_witness:
  "let vm = list_vm\<lparr>sys_open := \<lambda>p w. Some \<lparr>f_tell = 3, f_bytes = [CHR ''1'', CHR 0x00, CHR ''!'']\<rparr>\<rparr>
   in JABCRunFile vm ''x.js'' \<lparr>wld = [], evs = []\<rparr> = JABCEval vm ''1'' ''x.js'' \<lparr>wld = [], evs = []\<rparr>"
proof -
  let ?vm = "list_vm\<lparr>sys_open := \<lambda>p w. Some \<lparr>f_tell = 3, f_bytes = [CHR ''1'', CHR 0x00, CHR ''!'']\<rparr>\<rparr>"
  have "JABCRunFile ?vm ''x.js'' \<lparr>wld = [], evs = []\<rparr> = JABCEval ?vm ''1'' ''x.js'' \<lparr>wld = [], evs = []\<rparr>"
    by (rule nul_cuts_the_script [where b = "''!''"]) (simp_all add: list_vm_def)
  then show ?thesis by simp
qed

end
