(* ===== verification/Pol.thy ===== *)
theory Pol
  imports Leaf JsLang
begin

text \<open>
  The event loop's binding (\<open>pol.c\<close>): the leaves over libabc's \<open>POL\<close>, the two routers C calls
  back through, and the JavaScript that keeps the handlers.  \<open>POL\<close> is not in the repository: its
  calls are the fields of \<open>pollib\<close>, and what it does between callbacks is an arbitrary schedule.
  JavaScript (a handler, a conversion of an argument) may do anything to the whole state.
\<close>

section \<open>State\<close>

text \<open>
  The single timer's handler is one of the closures the bundles make: a function given to
  \<open>pol.timer\<close>, the wrapper of \<open>pol.every\<close> or \<open>pol.after\<close>, or the tick of the timer wheel of
  \<open>net.c\<close>.  A timer of the wheel keeps when it is due, its period (0 for \<open>setTimeout\<close>), its
  function and its arguments.
\<close>

datatype tfun = TRaw nat | TEvery jsval nat | TAfter nat | TWheel

record wtimer =
  dueNs :: jsnum
  periodNs :: jsnum
  wfn :: nat
  wargs :: "jsval list"

text \<open>
  \<open>pw\<close> is the world behind the module: the engine's heap and \<open>POL\<close>'s own state.  \<open>exc\<close> is the pair
  \<open>JABC_POL_EXC\<close>, \<open>JABC_POL_THREW\<close>.  The wheel lives in \<open>net.c\<close>'s bundle; \<open>fired\<close> is a history of
  the wheel's calls, which the code does not keep.
\<close>

record 'w pols =
  pw :: 'w
  table :: "jsval \<rightharpoonup> nat"
  timer :: "tfun option"
  dflt :: "nat option"
  exc :: "exn option"
  running :: bool
  TW :: "(nat \<times> wtimer) list"
  twId :: nat
  twOn :: bool
  fired :: "nat list"

record 'w pollib =
  P_int32 :: "jsval \<Rightarrow> ('w pols, int) js"      \<comment> \<open>\<open>JS_ToInt32\<close>\<close>
  P_number :: "jsval \<Rightarrow> ('w pols, jsnum) js"   \<comment> \<open>\<open>JS_ToFloat64\<close>, JavaScript's ToNumber\<close>
  P_call :: "nat \<Rightarrow> jsval list \<Rightarrow> ('w pols, jsval) js"
  P_jobs :: "'w pols \<Rightarrow> 'w pols"            \<comment> \<open>\<open>JABCDrainJobs\<close>\<close>
  P_round :: "jsnum \<Rightarrow> jsnum"               \<comment> \<open>rounding to a double\<close>
  POLTrackEvents :: "int \<Rightarrow> u16 \<Rightarrow> 'w \<Rightarrow> ok64 \<times> 'w"
  POLAddEvents :: "int \<Rightarrow> int \<Rightarrow> 'w \<Rightarrow> ok64 \<times> 'w"
  POLIgnoreEvents :: "int \<Rightarrow> 'w \<Rightarrow> 'w"
  POLTrackTime :: "'w \<Rightarrow> ok64 \<times> 'w"
  POLAddTime :: "int \<Rightarrow> 'w \<Rightarrow> 'w"
  POLIgnoreTime :: "'w \<Rightarrow> 'w"
  POLStop :: "'w \<Rightarrow> 'w"
  POLFree :: "'w \<Rightarrow> 'w"
  POLInit :: "int \<Rightarrow> 'w \<Rightarrow> ok64 \<times> 'w"
  POLSleep :: "nat \<Rightarrow> 'w \<Rightarrow> 'w"
  POLAny :: "'w \<Rightarrow> bool"
  POLNow :: "'w \<Rightarrow> nat \<times> 'w"
  P_fd_answered :: "int \<Rightarrow> int \<Rightarrow> 'w \<Rightarrow> 'w"  \<comment> \<open>\<open>POL\<close> takes the mask its fd callback returned\<close>
  P_tick_answered :: "int \<Rightarrow> 'w \<Rightarrow> 'w"      \<comment> \<open>\<open>POL\<close> takes the period its timer callback returned\<close>

definition on_pol :: "('w \<Rightarrow> 'w) \<Rightarrow> ('w pols, unit) js" where
  "on_pol f = jput (\<lambda>s. s\<lparr>pw := f (pw s)\<rparr>)"

definition pol_code :: "('w \<Rightarrow> 'a \<times> 'w) \<Rightarrow> ('w pols, 'a) js" where
  "pol_code f = (\<lambda>s. case f (pw s) of (r, w) \<Rightarrow> (Inr r, s\<lparr>pw := w\<rparr>))"

text \<open>\<open>v | 0\<close>.\<close>

definition or0 :: "'w pollib \<Rightarrow> jsval \<Rightarrow> ('w pols, int) js" where
  "or0 L v = jbind (P_number L v) (\<lambda>d. jret (to_int32 d))"

section \<open>The leaves\<close>

definition JABCPolWatch :: "'w pollib \<Rightarrow> jsval list \<Rightarrow> ('w pols, jout) js" where
  "JABCPolWatch L argv =
     need 2 ''pol._watch(fd, events)'' argv
     (jbind (P_int32 L (argv ! 0)) (\<lambda>fd.
      jbind (P_int32 L (argv ! 1)) (\<lambda>ev.
      jbind (pol_code (POLTrackEvents L fd (word_of_int ev))) (\<lambda>o'.
      jbind (or_msg ''pol.watch failed'' o') (\<lambda>_. js_undef)))))"

text \<open>\<open>(short) ev\<close> of an \<open>i32\<close>: two's complement.\<close>

definition as_short :: "int \<Rightarrow> int" where
  "as_short t = (t + 2 ^ 15) mod 2 ^ 16 - 2 ^ 15"

definition JABCPolMore :: "'w pollib \<Rightarrow> jsval list \<Rightarrow> ('w pols, jout) js" where
  "JABCPolMore L argv =
     need 2 ''pol._more(fd, events)'' argv
     (jbind (P_int32 L (argv ! 0)) (\<lambda>fd.
      jbind (P_int32 L (argv ! 1)) (\<lambda>ev.
      jbind (pol_code (POLAddEvents L fd (as_short ev))) (\<lambda>o'.
      jbind (or_msg ''pol.more: fd not tracked'' o') (\<lambda>_. js_undef)))))"

definition JABCPolUnwatch :: "'w pollib \<Rightarrow> jsval list \<Rightarrow> ('w pols, jout) js" where
  "JABCPolUnwatch L argv =
     need 1 ''pol._unwatch(fd)'' argv
     (jbind (P_int32 L (argv ! 0)) (\<lambda>fd.
      jbind (on_pol (POLIgnoreEvents L fd)) (\<lambda>_. js_undef)))"

definition JABCPolEvery :: "'w pollib \<Rightarrow> ('w pols, jout) js" where
  "JABCPolEvery L =
     jbind (pol_code (POLTrackTime L)) (\<lambda>o'.
     jbind (or_msg ''pol.every failed'' o') (\<lambda>_. js_undef))"

definition JABCPolSooner :: "'w pollib \<Rightarrow> jsval list \<Rightarrow> ('w pols, jout) js" where
  "JABCPolSooner L argv =
     need 1 ''pol.sooner(ms)'' argv
     (jbind (P_int32 L (argv ! 0)) (\<lambda>ms.
      jbind (on_pol (POLAddTime L ms)) (\<lambda>_. js_undef)))"

definition JABCPolUntimer :: "'w pollib \<Rightarrow> ('w pols, jout) js" where
  "JABCPolUntimer L = jbind (on_pol (POLIgnoreTime L)) (\<lambda>_. js_undef)"

definition JABCPolStop :: "'w pollib \<Rightarrow> ('w pols, jout) js" where
  "JABCPolStop L = jbind (on_pol (POLStop L)) (\<lambda>_. js_undef)"

definition JABCPolSleep :: "'w pollib \<Rightarrow> jsval list \<Rightarrow> ('w pols, jout) js" where
  "JABCPolSleep L argv =
     need 1 ''pol.sleep(ns)'' argv
     (jbind (P_number L (argv ! 0)) (\<lambda>dns.
      if num_lt (Fin 0) dns
      then jbind (as_size dns) (\<lambda>ns. jbind (on_pol (POLSleep L ns)) (\<lambda>_. js_undef))
      else js_undef))"

definition JABCPolAny :: "'w pollib \<Rightarrow> ('w pols, jout) js" where
  "JABCPolAny L = jbind (jget (\<lambda>s. POLAny L (pw s))) js_bool"

definition JABCPolNow :: "'w pollib \<Rightarrow> ('w pols, jsnum) js" where
  "JABCPolNow L = jbind (pol_code (POLNow L)) (\<lambda>n. jret (P_round L (js_nat n)))"

definition JABCPolInit :: "'w pollib \<Rightarrow> jsval list \<Rightarrow> ('w pols, jout) js" where
  "JABCPolInit L argv =
     jbind (if argv \<noteq> [] then P_int32 L (argv ! 0) else jret 4096) (\<lambda>mx.
     jbind (jget running) (\<lambda>r.
     if r then jthrow (ThrowError ''pol.init: called from inside the loop'')
     else jbind (on_pol (POLFree L)) (\<lambda>_.
          jbind (pol_code (POLInit L mx)) (\<lambda>o'.
          jbind (or_msg ''pol.init failed'' o') (\<lambda>_. js_undef)))))"

section \<open>The bundle\<close>

definition pol_watch :: "'w pollib \<Rightarrow> jsval \<Rightarrow> jsval \<Rightarrow> nat option \<Rightarrow> ('w pols, jsval) js" where
  "pol_watch L fd events fn =
     jbind (case fn of Some f \<Rightarrow> jput (\<lambda>s. s\<lparr>table := (table s)(fd \<mapsto> f)\<rparr>) | None \<Rightarrow> jret ()) (\<lambda>_.
     jbind (JABCPolWatch L [fd, events]) (\<lambda>_. jret fd))"

definition pol_more :: "'w pollib \<Rightarrow> jsval \<Rightarrow> jsval \<Rightarrow> ('w pols, unit) js" where
  "pol_more L fd events = jbind (JABCPolMore L [fd, events]) (\<lambda>_. jret ())"

definition pol_unwatch :: "'w pollib \<Rightarrow> jsval \<Rightarrow> ('w pols, unit) js" where
  "pol_unwatch L fd =
     jbind (jput (\<lambda>s. s\<lparr>table := (table s)(fd := None)\<rparr>)) (\<lambda>_.
     jbind (JABCPolUnwatch L [fd]) (\<lambda>_. jret ()))"

definition pol_timer :: "'w pollib \<Rightarrow> tfun \<Rightarrow> ('w pols, unit) js" where
  "pol_timer L f =
     jbind (jput (\<lambda>s. s\<lparr>timer := Some f\<rparr>)) (\<lambda>_.
     jbind (JABCPolEvery L) (\<lambda>_. jret ()))"

definition pol_every :: "'w pollib \<Rightarrow> jsval \<Rightarrow> nat \<Rightarrow> ('w pols, unit) js" where
  "pol_every L ms f = pol_timer L (TEvery ms f)"

definition pol_after :: "'w pollib \<Rightarrow> jsval \<Rightarrow> nat \<Rightarrow> ('w pols, unit) js" where
  "pol_after L ms f =
     jbind (pol_timer L (TAfter f)) (\<lambda>_. jbind (JABCPolSooner L [ms]) (\<lambda>_. jret ()))"

definition pol_untimer :: "'w pollib \<Rightarrow> ('w pols, unit) js" where
  "pol_untimer L =
     jbind (jput (\<lambda>s. s\<lparr>timer := None\<rparr>)) (\<lambda>_. jbind (JABCPolUntimer L) (\<lambda>_. jret ()))"

definition pol_init :: "'w pollib \<Rightarrow> jsval \<Rightarrow> ('w pols, unit) js" where
  "pol_init L maxfd =
     jbind (jput (\<lambda>s. s\<lparr>table := Map.empty, timer := None, dflt := None\<rparr>)) (\<lambda>_.
     jbind (or0 L maxfd) (\<lambda>m.
     jbind (JABCPolInit L [JNum (js_int (if m \<noteq> 0 then m else 4096))]) (\<lambda>_. jret ())))"

text \<open>The router of a ready fd.  A handler the table has no entry for is the default one.\<close>

definition pol_fd :: "'w pollib \<Rightarrow> int \<Rightarrow> int \<Rightarrow> ('w pols, jsnum) js" where
  "pol_fd L fd revents =
     (let key = JNum (js_int fd); drop = jput (\<lambda>s. s\<lparr>table := (table s)(key := None)\<rparr>) in
      jbind (jget (\<lambda>s. case table s key of Some h \<Rightarrow> Some h | None \<Rightarrow> dflt s)) (\<lambda>h.
      case h of
        None \<Rightarrow> jbind drop (\<lambda>_. jret (Fin 0))
      | Some f \<Rightarrow>
          jbind (P_call L f [key, JNum (js_int revents)]) (\<lambda>v.
          jbind (or0 L v) (\<lambda>m.
          jbind (if m = 0 then drop else jret ()) (\<lambda>_. jret (js_int m))))))"

section \<open>The timer wheel of net.c\<close>

text \<open>\<open>now\<close>, the sums and the products are doubles: each result is rounded.\<close>

definition TW_MS :: rat where "TW_MS = 1000000"

fun num_scale :: "rat \<Rightarrow> jsnum \<Rightarrow> jsnum" where
  "num_scale k (Fin r) = Fin (k * r)"
| "num_scale k NaN = NaN"
| "num_scale k PInf = (if 0 < k then PInf else if k < 0 then NInf else NaN)"
| "num_scale k NInf = (if 0 < k then NInf else if k < 0 then PInf else NaN)"

fun num_ceil :: "jsnum \<Rightarrow> jsnum" where
  "num_ceil (Fin r) = js_int \<lceil>r\<rceil>"
| "num_ceil d = d"

definition num_max :: "rat \<Rightarrow> jsnum \<Rightarrow> jsnum" where
  "num_max a d = (if d = NaN then NaN else if num_lt (Fin a) d then d else Fin a)"

text \<open>\<open>+ms || alt\<close>.\<close>

definition num_or :: "jsnum \<Rightarrow> jsnum \<Rightarrow> jsnum" where
  "num_or d alt = (if d = NaN \<or> d = Fin 0 then alt else d)"

definition tw_set :: "nat \<Rightarrow> wtimer \<Rightarrow> 'w pols \<Rightarrow> 'w pols" where
  "tw_set i t s = s\<lparr>TW := TW s @ [(i, t)]\<rparr>"

definition tw_delete :: "nat \<Rightarrow> 'w pols \<Rightarrow> 'w pols" where
  "tw_delete i s = s\<lparr>TW := filter (\<lambda>e. fst e \<noteq> i) (TW s)\<rparr>"

definition tw_postpone :: "nat \<Rightarrow> jsnum \<Rightarrow> 'w pols \<Rightarrow> 'w pols" where
  "tw_postpone i d s = s\<lparr>TW := map (\<lambda>e. if fst e = i then (i, (snd e)\<lparr>dueNs := d\<rparr>) else e) (TW s)\<rparr>"

text \<open>
  One entry of the list \<open>due\<close>: an interval is postponed (its object, which the map may hold no
  longer), a timeout is deleted; then the function is called, whatever a call before it deleted.
\<close>

primrec tw_fire :: "'w pollib \<Rightarrow> (nat \<times> wtimer) list \<Rightarrow> ('w pols, unit) js" where
  "tw_fire L [] = jret ()"
| "tw_fire L (e # es) =
     jbind (if num_lt (Fin 0) (periodNs (snd e))
            then jbind (JABCPolNow L) (\<lambda>n.
                 jput (tw_postpone (fst e) (P_round L (num_add n (periodNs (snd e))))))
            else jput (tw_delete (fst e))) (\<lambda>_.
     jbind (jput (\<lambda>s. s\<lparr>fired := fired s @ [fst e]\<rparr>)) (\<lambda>_.
     jbind (P_call L (wfn (snd e)) (wargs (snd e))) (\<lambda>_. tw_fire L es)))"

definition tw_soon :: "(nat \<times> wtimer) list \<Rightarrow> jsnum" where
  "tw_soon ts = fold (\<lambda>e m. if num_lt (dueNs (snd e)) m then dueNs (snd e) else m) ts PInf"

definition twTick :: "'w pollib \<Rightarrow> ('w pols, jsnum) js" where
  "twTick L =
     jbind (JABCPolNow L) (\<lambda>now.
     jbind (jget (\<lambda>s. filter (\<lambda>e. num_le (dueNs (snd e)) now) (TW s))) (\<lambda>due.
     jbind (tw_fire L due) (\<lambda>_.
     jbind (jget TW) (\<lambda>ts.
     if ts = [] then jbind (jput (\<lambda>s. s\<lparr>twOn := False\<rparr>)) (\<lambda>_. jret (Fin 3600001))
     else jbind (JABCPolNow L) (\<lambda>n.
          let ms = num_ceil (P_round L (num_scale (1 / TW_MS) (P_round L (num_sub (tw_soon ts) n)))) in
          jret (if num_lt ms (Fin 1) then Fin 1 else ms))))))"

definition twArm :: "'w pollib \<Rightarrow> jsnum \<Rightarrow> ('w pols, unit) js" where
  "twArm L ms =
     jbind (jget twOn) (\<lambda>on.
     jbind (if on then jret () else jbind (jput (\<lambda>s. s\<lparr>twOn := True\<rparr>)) (\<lambda>_. pol_timer L TWheel)) (\<lambda>_.
     jbind (JABCPolSooner L [JNum (js_int (if num_lt ms (Fin 1) then 1 else to_int32 ms))]) (\<lambda>_. jret ())))"

definition tw_add :: "'w pollib \<Rightarrow> nat \<Rightarrow> jsnum \<Rightarrow> jsnum \<Rightarrow> jsval list \<Rightarrow> ('w pols, nat) js" where
  "tw_add L f ms period args =
     jbind (jget twId) (\<lambda>i.
     jbind (jput (\<lambda>s. s\<lparr>twId := twId s + 1\<rparr>)) (\<lambda>_.
     jbind (JABCPolNow L) (\<lambda>n.
     jbind (jput (tw_set i \<lparr>dueNs = P_round L (num_add n (P_round L (num_scale TW_MS ms))),
                            periodNs = period, wfn = f, wargs = args\<rparr>)) (\<lambda>_.
     jbind (twArm L ms) (\<lambda>_. jret i)))))"

definition setTimeout :: "'w pollib \<Rightarrow> nat \<Rightarrow> jsval \<Rightarrow> jsval list \<Rightarrow> ('w pols, nat) js" where
  "setTimeout L f ms args =
     jbind (P_number L ms) (\<lambda>d. tw_add L f (num_max 0 (num_or d (Fin 0))) (Fin 0) args)"

definition setInterval :: "'w pollib \<Rightarrow> nat \<Rightarrow> jsval \<Rightarrow> jsval list \<Rightarrow> ('w pols, nat) js" where
  "setInterval L f ms args =
     jbind (P_number L ms) (\<lambda>d. let m = num_max 1 (num_or d (Fin 1)) in
       tw_add L f m (P_round L (num_scale TW_MS m)) args)"

text \<open>\<open>clearTimeout\<close>, and \<open>clearInterval\<close>, which is the same function.\<close>

definition clearTimeout :: "nat \<Rightarrow> ('w pols, unit) js" where
  "clearTimeout i = jput (tw_delete i)"

definition setImmediate :: "'w pollib \<Rightarrow> nat \<Rightarrow> jsval list \<Rightarrow> ('w pols, nat) js" where
  "setImmediate L f args = setTimeout L f (JNum (Fin 0)) args"

section \<open>The routers and the loop\<close>

text \<open>The call of the timer's handler; the wheel's tick ignores the deadline.\<close>

definition call_timer :: "'w pollib \<Rightarrow> tfun \<Rightarrow> jsval \<Rightarrow> ('w pols, jsval) js" where
  "call_timer L t ns =
     (case t of
        TRaw f \<Rightarrow> P_call L f [ns]
      | TEvery ms f \<Rightarrow> jbind (P_call L f [ns]) (\<lambda>_. jret ms)
      | TAfter f \<Rightarrow> jbind (P_call L f [ns]) (\<lambda>_. jret (JNum (Fin 3600001)))
      | TWheel \<Rightarrow> jbind (twTick L) (\<lambda>d. jret (JNum d)))"

definition pol_tick :: "'w pollib \<Rightarrow> jsnum \<Rightarrow> ('w pols, jsnum) js" where
  "pol_tick L ns =
     jbind (jget timer) (\<lambda>t.
     case t of
       None \<Rightarrow> jret (Fin 3600001)
     | Some h \<Rightarrow>
         jbind (call_timer L h (JNum ns)) (\<lambda>v.
         jbind (or0 L v) (\<lambda>ms.
         jbind (if 3600000 \<le> ms then jput (\<lambda>s. s\<lparr>timer := None\<rparr>) else jret ()) (\<lambda>_.
         jret (js_int ms)))))"

definition JABCPolStash :: "'w pollib \<Rightarrow> exn \<Rightarrow> 'w pols \<Rightarrow> 'w pols" where
  "JABCPolStash L e s =
     (let s' = (if exc s = None then s\<lparr>exc := Some e\<rparr> else s) in s'\<lparr>pw := POLStop L (pw s')\<rparr>)"

text \<open>
  \<open>JABCPolCall\<close>: the routers answer with a Number, so the conversion after the call is the identity.
  Undefined behaviour in a callback is no exception to stash.
\<close>

definition JABCPolCall :: "'w pollib \<Rightarrow> ('w pols, jsnum) js \<Rightarrow> ('w pols, jsnum) js" where
  "JABCPolCall L fn = (\<lambda>s.
     case fn s of
       (Inr m, s') \<Rightarrow> (Inr m, P_jobs L s')
     | (Inl CUndef, s') \<Rightarrow> (Inl CUndef, s')
     | (Inl e, s') \<Rightarrow> (Inr (Fin (- 1)), P_jobs L (JABCPolStash L e s')))"

definition JABCPolFd :: "'w pollib \<Rightarrow> int \<Rightarrow> int \<Rightarrow> ('w pols, int) js" where
  "JABCPolFd L fd revents =
     jbind (JABCPolCall L (pol_fd L fd revents)) (\<lambda>m.
     if num_lt m (Fin 0) then jret 0 else cast_or_undef (- (2 ^ 15)) (2 ^ 15 - 1) m)"

definition JABCPolTimer :: "'w pollib \<Rightarrow> nat \<Rightarrow> ('w pols, int) js" where
  "JABCPolTimer L ns =
     jbind (JABCPolCall L (pol_tick L (P_round L (js_nat ns)))) (\<lambda>ms.
     if num_lt ms (Fin 0) \<or> (\<forall>r. ms \<noteq> Fin r) then jret 3600000
     else cast_or_undef 0 (2 ^ 32 - 1) ms)"

text \<open>What \<open>POLLoop\<close> does in a run: it waits, an fd is ready, the timer is due.\<close>

datatype 'w pev = Wait "'w \<Rightarrow> 'w" | Ready int int | Tick nat

definition pol_event :: "'w pollib \<Rightarrow> 'w pev \<Rightarrow> ('w pols, unit) js" where
  "pol_event L ev =
     (case ev of
        Wait f \<Rightarrow> on_pol f
      | Ready fd revents \<Rightarrow> jbind (JABCPolFd L fd revents) (\<lambda>m. on_pol (P_fd_answered L fd m))
      | Tick ns \<Rightarrow> jbind (JABCPolTimer L ns) (\<lambda>ms. on_pol (P_tick_answered L ms)))"

primrec POLLoop :: "'w pollib \<Rightarrow> 'w pev list \<Rightarrow> ('w pols, unit) js" where
  "POLLoop L [] = jret ()"
| "POLLoop L (ev # evs) = jbind (pol_event L ev) (\<lambda>_. POLLoop L evs)"

text \<open>\<open>None\<close> is \<open>POLNever\<close>.\<close>

definition run_time :: "jsnum \<Rightarrow> ('w, nat option) js" where
  "run_time dns =
     (if num_lt dns (Fin 0) \<or> (\<forall>r. dns \<noteq> Fin r) then jret None
      else jbind (as_size dns) (\<lambda>n. jret (Some n)))"

definition JABCPolRun :: "'w pollib \<Rightarrow> (nat option \<Rightarrow> 'w pev list) \<Rightarrow> jsval list \<Rightarrow> ('w pols, jout) js" where
  "JABCPolRun L sched argv =
     jbind (if argv \<noteq> [] then P_number L (argv ! 0) else jret (Fin (- 1))) (\<lambda>dns.
     jbind (run_time dns) (\<lambda>ns.
     jbind (jput (\<lambda>s. s\<lparr>running := True\<rparr>)) (\<lambda>_.
     jbind (POLLoop L (sched ns)) (\<lambda>_.
     jbind (jput (\<lambda>s. s\<lparr>running := False\<rparr>)) (\<lambda>_.
     jbind (jget exc) (\<lambda>e.
     case e of
       Some x \<Rightarrow> jbind (jput (\<lambda>s. s\<lparr>exc := None\<rparr>)) (\<lambda>_. jthrow x)
     | None \<Rightarrow> js_undef))))))"

definition pol_run :: "'w pollib \<Rightarrow> (nat option \<Rightarrow> 'w pev list) \<Rightarrow> jsval \<Rightarrow> ('w pols, jout) js" where
  "pol_run L sched ns = JABCPolRun L sched [if ns = JUndef then JNum (Fin (- 1)) else ns]"

definition JABCUninstallPol :: "'w pollib \<Rightarrow> 'w pols \<Rightarrow> 'w pols" where
  "JABCUninstallPol L s = s\<lparr>exc := None, pw := POLFree L (pw s)\<rparr>"

end
