(* ===== verification/Wheel.thy ===== *)
theory Wheel
  imports Pol
begin

text \<open>
  What the loop and the timer wheel guarantee: how a handler's exception reaches the caller of
  \<open>pol.run\<close>, what a refused \<open>pol.init\<close> leaves behind, and when the wheel of \<open>net.c\<close> stays armed.
\<close>

section \<open>Exceptions of the handlers\<close>

text \<open>A state change that leaves the stash of \<open>pol.c\<close> and the flag of the loop alone.\<close>

definition keeps_stash :: "('w pols, 'a) js \<Rightarrow> bool" where
  "keeps_stash m \<longleftrightarrow> (\<forall>s. exc (snd (m s)) = exc s \<and> running (snd (m s)) = running s)"

lemma keeps_stashD:
  "keeps_stash m \<Longrightarrow> m s = (r, s') \<Longrightarrow> exc s' = exc s \<and> running s' = running s"
  unfolding keeps_stash_def by (metis snd_conv)

named_theorems stash_intros "computations that leave the stash alone"

lemma keeps_jret [stash_intros]: "keeps_stash (jret x)"
  by (simp add: keeps_stash_def)

lemma keeps_Pair [stash_intros]: "keeps_stash (Pair r)"
  by (simp add: keeps_stash_def)

lemma keeps_jthrow [stash_intros]: "keeps_stash (jthrow x)"
  by (simp add: keeps_stash_def)

lemma keeps_jget [stash_intros]: "keeps_stash (jget f)"
  by (simp add: keeps_stash_def)

lemma keeps_jbind [stash_intros]:
  assumes m: "keeps_stash m" and f: "\<And>x. keeps_stash (f x)"
  shows "keeps_stash (jbind m f)"
  unfolding keeps_stash_def
proof
  fix s
  obtain r s' where r: "m s = (r, s')" by (cases "m s")
  note s' = keeps_stashD [OF m r]
  show "exc (snd (jbind m f s)) = exc s \<and> running (snd (jbind m f s)) = running s"
  proof (cases r)
    case (Inl e)
    with r s' show ?thesis by simp
  next
    case (Inr x)
    obtain q s'' where q: "f x s' = (q, s'')" by (cases "f x s'")
    from keeps_stashD [OF f q] s' r q Inr show ?thesis by simp
  qed
qed

lemma keeps_if [stash_intros]:
  "(b \<Longrightarrow> keeps_stash m) \<Longrightarrow> (\<not> b \<Longrightarrow> keeps_stash n) \<Longrightarrow> keeps_stash (if b then m else n)"
  by simp

lemma keeps_option [stash_intros]:
  "(x = None \<Longrightarrow> keeps_stash m) \<Longrightarrow> (\<And>y. x = Some y \<Longrightarrow> keeps_stash (f y)) \<Longrightarrow>
   keeps_stash (case x of None \<Rightarrow> m | Some y \<Rightarrow> f y)"
  by (cases x) auto

lemma keeps_pol_code [stash_intros]: "keeps_stash (pol_code f)"
  by (simp add: keeps_stash_def pol_code_def split: prod.splits)

lemma keeps_on_pol [stash_intros]: "keeps_stash (on_pol f)"
  by (simp add: keeps_stash_def on_pol_def)

lemma keeps_or_msg [stash_intros]: "keeps_stash (or_msg m o')"
  by (simp add: or_msg_def keeps_jret keeps_jthrow)

lemma keeps_jput [stash_intros]:
  "(\<And>s. exc (f s) = exc s) \<Longrightarrow> (\<And>s. running (f s) = running s) \<Longrightarrow> keeps_stash (jput f)"
  by (simp add: keeps_stash_def)

text \<open>Handlers that run no loop of their own, in a handler, a conversion or a job.\<close>

definition no_nested_run :: "'w pollib \<Rightarrow> bool" where
  "no_nested_run L \<longleftrightarrow>
     (\<forall>f args. keeps_stash (P_call L f args)) \<and> (\<forall>v. keeps_stash (P_number L v)) \<and>
     (\<forall>v. keeps_stash (P_int32 L v)) \<and>
     (\<forall>s. exc (P_jobs L s) = exc s \<and> running (P_jobs L s) = running s)"

lemma keeps_user [stash_intros]:
  "no_nested_run L \<Longrightarrow> keeps_stash (P_call L f args)"
  "no_nested_run L \<Longrightarrow> keeps_stash (P_number L v)"
  "no_nested_run L \<Longrightarrow> keeps_stash (P_int32 L v)"
  by (simp_all add: no_nested_run_def)

lemma keeps_or0 [stash_intros]: "no_nested_run L \<Longrightarrow> keeps_stash (or0 L v)"
  unfolding or0_def by (intro stash_intros)

lemma keeps_pol_fd: "no_nested_run L \<Longrightarrow> keeps_stash (pol_fd L fd revents)"
  unfolding pol_fd_def Let_def by (intro stash_intros) simp_all

lemma keeps_now [stash_intros]: "keeps_stash (JABCPolNow L)"
  unfolding JABCPolNow_def by (intro stash_intros)

lemma keeps_fire [stash_intros]: "no_nested_run L \<Longrightarrow> keeps_stash (tw_fire L es)"
proof (induction es)
  case (Cons e es)
  show ?case unfolding tw_fire.simps
    by (intro stash_intros Cons) (simp_all add: tw_postpone_def tw_delete_def Cons.prems)
qed (simp add: stash_intros)

lemma keeps_twTick [stash_intros]: "no_nested_run L \<Longrightarrow> keeps_stash (twTick L)"
  unfolding twTick_def Let_def by (intro stash_intros) simp_all

lemma keeps_call_timer [stash_intros]: "no_nested_run L \<Longrightarrow> keeps_stash (call_timer L t ns)"
  unfolding call_timer_def by (cases t) (simp_all add: stash_intros)

lemma keeps_pol_tick: "no_nested_run L \<Longrightarrow> keeps_stash (pol_tick L ns)"
  unfolding pol_tick_def by (intro stash_intros) simp_all

text \<open>The exceptions the callbacks of a schedule end with, in order, as the loop meets them.\<close>

definition router :: "'w pollib \<Rightarrow> 'w pev \<Rightarrow> ('w pols, jsnum) js" where
  "router L ev =
     (case ev of
        Wait f \<Rightarrow> jret (Fin 0)
      | Ready fd revents \<Rightarrow> pol_fd L fd revents
      | Tick ns \<Rightarrow> pol_tick L (P_round L (js_nat ns)))"

primrec thrown :: "'w pollib \<Rightarrow> 'w pev list \<Rightarrow> 'w pols \<Rightarrow> exn list" where
  "thrown L [] s = []"
| "thrown L (ev # evs) s =
     (case fst (router L ev s) of Inl e \<Rightarrow> [e] | Inr m \<Rightarrow> []) @ thrown L evs (snd (pol_event L ev s))"


definition stash_one :: "exn option \<Rightarrow> exn list \<Rightarrow> exn option" where
  "stash_one x es = (case x of Some e \<Rightarrow> Some e | None \<Rightarrow> (case es of [] \<Rightarrow> None | e # _ \<Rightarrow> Some e))"

lemma stash_one_append: "stash_one (stash_one x as) bs = stash_one x (as @ bs)"
  by (simp add: stash_one_def split: option.split list.split)

lemma stash_one_None [simp]: "stash_one None es = (case es of [] \<Rightarrow> None | e # _ \<Rightarrow> Some e)"
  by (simp add: stash_one_def)

lemma PolCall_result:
  assumes "no_nested_run L" and "keeps_stash m"
  shows "case JABCPolCall L m s of
      (Inr x, s') \<Rightarrow> exc s' = stash_one (exc s) (case fst (m s) of Inl e \<Rightarrow> [e] | Inr _ \<Rightarrow> []) \<and>
        running s' = running s
    | (Inl e, s') \<Rightarrow> e = CUndef"
proof -
  obtain r s1 where r: "m s = (r, s1)" by (cases "m s")
  note k = keeps_stashD [OF assms(2) r]
  have jobs: "exc (P_jobs L t) = exc t" "running (P_jobs L t) = running t" for t
    using assms(1) by (simp_all add: no_nested_run_def)
  show ?thesis
  proof (cases r)
    case (Inl e)
    with r k jobs show ?thesis
      by (cases e) (auto simp: JABCPolCall_def JABCPolStash_def Let_def stash_one_def split: option.split)
  next
    case (Inr x)
    with r k jobs show ?thesis by (simp add: JABCPolCall_def stash_one_def split: option.split)
  qed
qed

lemma cast_or_undef_Inl: "cast_or_undef a b d s = (Inl x, s') \<Longrightarrow> x = CUndef"
  by (auto simp: cast_or_undef_def split: option.splits)

lemma cast_or_undef_Inr: "cast_or_undef a b d s = (Inr x, s') \<Longrightarrow> s' = s"
  by (auto simp: cast_or_undef_def split: option.splits)

lemma event_result:
  assumes "no_nested_run L"
  shows "case pol_event L ev s of
      (Inr x, s') \<Rightarrow> exc s' = stash_one (exc s) (case fst (router L ev s) of Inl e \<Rightarrow> [e] | Inr _ \<Rightarrow> []) \<and>
        running s' = running s
    | (Inl e, s') \<Rightarrow> e = CUndef"
proof (cases ev)
  case (Wait f)
  then show ?thesis
    by (simp add: pol_event_def on_pol_def router_def stash_one_def split: option.split)
next
  case (Ready fd revents)
  let ?m = "pol_fd L fd revents"
  obtain r s1 where r: "JABCPolCall L ?m s = (r, s1)" by (cases "JABCPolCall L ?m s")
  note res = PolCall_result [OF assms keeps_pol_fd [OF assms, of fd revents], where s = s, unfolded r]
  show ?thesis
  proof (cases r)
    case (Inl e)
    with res r Ready show ?thesis by (simp add: pol_event_def JABCPolFd_def)
  next
    case (Inr m)
    with r Ready res show ?thesis
      by (auto simp: pol_event_def JABCPolFd_def jbind_def on_pol_def router_def
          split: prod.splits sum.splits if_splits dest: cast_or_undef_Inl cast_or_undef_Inr)
  qed
next
  case (Tick ns)
  let ?m = "pol_tick L (P_round L (js_nat ns))"
  obtain r s1 where r: "JABCPolCall L ?m s = (r, s1)" by (cases "JABCPolCall L ?m s")
  note res = PolCall_result [OF assms keeps_pol_tick [OF assms, of "P_round L (js_nat ns)"], where s = s, unfolded r]
  show ?thesis
  proof (cases r)
    case (Inl e)
    with res r Tick show ?thesis by (simp add: pol_event_def JABCPolTimer_def)
  next
    case (Inr m)
    with r Tick res show ?thesis
      by (auto simp: pol_event_def JABCPolTimer_def jbind_def on_pol_def router_def
          split: prod.splits sum.splits if_splits dest: cast_or_undef_Inl cast_or_undef_Inr)
  qed
qed

lemma loop_result:
  assumes "no_nested_run L"
  shows "case POLLoop L evs s of
      (Inr x, s') \<Rightarrow> exc s' = stash_one (exc s) (thrown L evs s) \<and> running s' = running s
    | (Inl e, s') \<Rightarrow> e = CUndef"
proof (induction evs arbitrary: s)
  case Nil
  then show ?case by (simp add: stash_one_def split: option.split)
next
  case (Cons ev evs)
  obtain r s1 where r: "pol_event L ev s = (r, s1)" by (cases "pol_event L ev s")
  note one = event_result [OF assms, where ev = ev and s = s, unfolded r]
  show ?case
  proof (cases r)
    case (Inl e)
    with r one show ?thesis by simp
  next
    case (Inr x)
    with r one have "exc s1 = stash_one (exc s) (case fst (router L ev s) of Inl e \<Rightarrow> [e] | Inr _ \<Rightarrow> [])"
      "running s1 = running s" by simp_all
    with Cons.IH [of s1] r Inr show ?thesis
      by (simp add: stash_one_append [symmetric] split: prod.splits sum.splits)
  qed
qed

lemma run_result:
  assumes "no_nested_run L" and "P_number L v s = (Inr d, s0)" and "run_time d s0 = (Inr ns, s0)"
    and "exc s0 = None" and "JABCPolRun L sched [v] s = (r, s')" and "r \<noteq> Inl CUndef"
  shows "r = (case thrown L (sched ns) (s0\<lparr>running := True\<rparr>) of [] \<Rightarrow> Inr (JVal JUndef) | e # _ \<Rightarrow> Inl e) \<and>
    exc s' = None \<and> \<not> running s'"
proof -
  let ?s = "s0\<lparr>running := True\<rparr>"
  obtain q s1 where q: "POLLoop L (sched ns) ?s = (q, s1)" by (cases "POLLoop L (sched ns) ?s")
  note res = loop_result [OF assms(1), where evs = "sched ns" and s = ?s, unfolded q]
  show ?thesis
  proof (cases q)
    case (Inl e)
    with res q assms show ?thesis by (simp add: JABCPolRun_def)
  next
    case (Inr x)
    with res q assms show ?thesis
      by (cases "thrown L (sched ns) ?s") (auto simp: JABCPolRun_def)
  qed
qed


section \<open>The wheel\<close>

text \<open>
  \<open>ticking\<close> says whether \<open>POL\<close> holds the timer.  What \<open>pol.c\<close>'s comments say of \<open>POL\<close>: tracking the time
  arms the timer, a callback that answers an hour or more removes it, and advancing a timer that is
  not there does nothing.  A Number converts to itself without running JavaScript.
\<close>

definition pol_laws :: "'w pollib \<Rightarrow> ('w \<Rightarrow> bool) \<Rightarrow> bool" where
  "pol_laws L ticking \<longleftrightarrow>
     (\<forall>w w'. POLTrackTime L w = (OK, w') \<longrightarrow> ticking w') \<and>
     (\<forall>ms w. ticking (POLAddTime L ms w) = ticking w) \<and>
     (\<forall>w. ticking (snd (POLNow L w)) = ticking w) \<and>
     (\<forall>w. ticking (POLStop L w) = ticking w) \<and>
     (\<forall>fd m w. ticking (P_fd_answered L fd m w) = ticking w) \<and>
     (\<forall>ms w. ticking (P_tick_answered L ms w) \<longleftrightarrow> ticking w \<and> ms < 3600000) \<and>
     (\<forall>d. P_int32 L (JNum d) = jret (to_int32 d)) \<and> (\<forall>d. P_number L (JNum d) = jret d)"

lemma pol_lawsD:
  assumes "pol_laws L ticking"
  shows "POLTrackTime L w = (OK, w') \<Longrightarrow> ticking w'" "ticking (POLAddTime L ms w) = ticking w"
    "ticking (snd (POLNow L w)) = ticking w" "ticking (POLStop L w) = ticking w"
    "ticking (P_fd_answered L fd m w) = ticking w"
    "ticking (P_tick_answered L t w) \<longleftrightarrow> ticking w \<and> t < 3600000"
    "P_int32 L (JNum d) = jret (to_int32 d)" "P_number L (JNum d) = jret d"
  using assms by (simp_all add: pol_laws_def)

text \<open>
  What a program does to the wheel: it sets timers, clears timers, and does anything else that
  leaves the wheel and the single timer alone (it does not call \<open>pol.timer\<close>, \<open>pol.every\<close>,
  \<open>pol.after\<close>, \<open>pol.untimer\<close> or \<open>pol.init\<close> beside the wheel, which \<open>pol.c\<close> says it must not).
\<close>

definition same_wheel :: "('w \<Rightarrow> bool) \<Rightarrow> 'w pols \<Rightarrow> 'w pols \<Rightarrow> bool" where
  "same_wheel ticking s s' \<longleftrightarrow>
     TW s' = TW s \<and> twId s' = twId s \<and> twOn s' = twOn s \<and> timer s' = timer s \<and> fired s' = fired s \<and>
     ticking (pw s') = ticking (pw s)"

inductive wheel_steps :: "'w pollib \<Rightarrow> ('w \<Rightarrow> bool) \<Rightarrow> 'w pols \<Rightarrow> 'w pols \<Rightarrow> bool"
  for L ticking s where
  none: "wheel_steps L ticking s s"
| other: "wheel_steps L ticking s s' \<Longrightarrow> same_wheel ticking s' s'' \<Longrightarrow> wheel_steps L ticking s s''"
| add: "wheel_steps L ticking s s' \<Longrightarrow> tw_add L f ms period args s' = (Inr i, s'') \<Longrightarrow> wheel_steps L ticking s s''"
| clear: "wheel_steps L ticking s s' \<Longrightarrow> wheel_steps L ticking s (tw_delete i s')"

text \<open>A program whose callbacks play by these rules, and whose jobs leave the wheel alone.\<close>

definition plays :: "'w pollib \<Rightarrow> ('w \<Rightarrow> bool) \<Rightarrow> bool" where
  "plays L ticking \<longleftrightarrow>
     (\<forall>f args s. wheel_steps L ticking s (snd (P_call L f args s))) \<and>
     (\<forall>v s. wheel_steps L ticking s (snd (P_number L v s))) \<and>
     (\<forall>s. same_wheel ticking s (P_jobs L s))"

lemma plays_call: "plays L ticking \<Longrightarrow> P_call L f args s = (r, s') \<Longrightarrow> wheel_steps L ticking s s'"
  unfolding plays_def by (metis snd_conv)

definition ids :: "'w pols \<Rightarrow> nat set" where
  "ids s = set (map fst (TW s))"

definition wheel_ok :: "('w \<Rightarrow> bool) \<Rightarrow> 'w pols \<Rightarrow> bool" where
  "wheel_ok ticking s \<longleftrightarrow>
     distinct (map fst (TW s)) \<and> (\<forall>i\<in>ids s. i < twId s) \<and> (TW s \<noteq> [] \<longrightarrow> twOn s) \<and>
     (twOn s \<longrightarrow> timer s = Some TWheel \<and> ticking (pw s))"

definition wheel_dead :: "('w \<Rightarrow> bool) \<Rightarrow> 'w pols \<Rightarrow> bool" where
  "wheel_dead ticking s \<longleftrightarrow> twOn s \<and> \<not> ticking (pw s)"

text \<open>The ids after a step: old ones, or ids not used before.\<close>

definition wheel_grows :: "'w pols \<Rightarrow> 'w pols \<Rightarrow> bool" where
  "wheel_grows s s' \<longleftrightarrow>
     twId s \<le> twId s' \<and> (\<forall>i\<in>ids s'. i \<in> ids s \<or> twId s \<le> i)"

lemma wheel_grows_refl [simp]: "wheel_grows s s"
  by (simp add: wheel_grows_def)

lemma wheel_grows_trans [trans]: "wheel_grows s s' \<Longrightarrow> wheel_grows s' s'' \<Longrightarrow> wheel_grows s s''"
  unfolding wheel_grows_def by (meson le_trans)

lemma now_result:
  "JABCPolNow L s = (Inr (P_round L (js_nat (fst (POLNow L (pw s))))), s\<lparr>pw := snd (POLNow L (pw s))\<rparr>)"
  by (simp add: JABCPolNow_def pol_code_def jbind_def split: prod.splits)

lemma twArm_result:
  assumes "pol_laws L ticking" and "twArm L ms s = (Inr u, s')"
  shows "TW s' = TW s \<and> twId s' = twId s \<and> fired s' = fired s \<and> twOn s' \<and>
    (if twOn s then timer s' = timer s \<and> ticking (pw s') = ticking (pw s)
     else timer s' = Some TWheel \<and> ticking (pw s'))"
proof -
  note L = pol_lawsD [OF assms(1)]
  show ?thesis
  proof (cases "twOn s")
    case True
    with assms(2) show ?thesis
      by (auto simp: twArm_def JABCPolSooner_def L on_pol_def)
  next
    case False
    obtain o' w where t: "POLTrackTime L (pw s) = (o', w)" by fastforce
    with assms(2) False show ?thesis
      by (cases "o' = OK")
        (auto simp: twArm_def JABCPolSooner_def L on_pol_def pol_timer_def JABCPolEvery_def
          pol_code_def jbind_def or_msg_def)
  qed
qed

lemma tw_add_result:
  assumes "pol_laws L ticking" and "tw_add L f ms period args s = (Inr i, s')"
  shows "i = twId s \<and> twId s' = twId s + 1 \<and> fired s' = fired s \<and> twOn s' \<and>
    (\<exists>t. TW s' = TW s @ [(twId s, t)]) \<and>
    (if twOn s then timer s' = timer s \<and> ticking (pw s') = ticking (pw s)
     else timer s' = Some TWheel \<and> ticking (pw s'))"
proof -
  let ?w = "snd (POLNow L (pw s))"
  let ?t = "\<lparr>dueNs = P_round L (num_add (P_round L (js_nat (fst (POLNow L (pw s)))))
      (P_round L (num_scale TW_MS ms))), periodNs = period, wfn = f, wargs = args\<rparr>"
  let ?s = "tw_set (twId s) ?t (s\<lparr>twId := twId s + 1, pw := ?w\<rparr>)"
  have "twArm L ms ?s = (Inr (), s') \<and> i = twId s"
    using assms(2) by (auto simp: tw_add_def now_result jbind_def split: prod.splits sum.splits)
  with twArm_result [OF assms(1), of ms ?s "()" s'] pol_lawsD(3) [OF assms(1), of "pw s"]
  show ?thesis by (auto simp: tw_set_def)
qed

lemma ids_simps [simp]:
  "ids (tw_delete i s) = ids s - {i}" "ids (tw_postpone i d s) = ids s"
proof -
  have "map fst (TW (tw_postpone i d s)) = map fst (TW s)" by (simp add: tw_postpone_def)
  then show "ids (tw_postpone i d s) = ids s" by (simp only: ids_def)
qed (auto simp: ids_def tw_delete_def)

lemma ids_fields [simp]: "ids (s\<lparr>fired := x\<rparr>) = ids s" "ids (s\<lparr>pw := w\<rparr>) = ids s"
  by (simp_all add: ids_def)

lemma tw_delete_fields [simp]:
  "twId (tw_delete i s) = twId s" "twOn (tw_delete i s) = twOn s"
  "timer (tw_delete i s) = timer s" "pw (tw_delete i s) = pw s" "fired (tw_delete i s) = fired s"
  by (simp_all add: tw_delete_def)

lemma tw_add_ids:
  "pol_laws L ticking \<Longrightarrow> tw_add L f ms period args s = (Inr i, s') \<Longrightarrow> ids s' = insert (twId s) (ids s)"
  using tw_add_result [of L ticking f ms period args s i s'] by (auto simp: ids_def)

lemma tw_add_ok:
  assumes "pol_laws L ticking" and "wheel_ok ticking s" and "tw_add L f ms period args s = (Inr i, s')"
  shows "wheel_ok ticking s'"
proof -
  note new = tw_add_result [OF assms(1,3)]
  then obtain t where t: "TW s' = TW s @ [(twId s, t)]" by blast
  have old: "\<forall>i\<in>ids s. i < twId s" "distinct (map fst (TW s))"
    using assms(2) by (simp_all add: wheel_ok_def)
  then have "twId s \<notin> set (map fst (TW s))" by (auto simp: ids_def)
  with old(2) t have "distinct (map fst (TW s'))" by simp
  moreover have "\<forall>i\<in>ids s'. i < twId s'"
    using old(1) new tw_add_ids [OF assms(1,3)] by (simp add: less_SucI)
  moreover have "timer s' = Some TWheel \<and> ticking (pw s')"
    using new assms(2) by (simp add: wheel_ok_def split: if_splits)
  ultimately show ?thesis using new by (simp add: wheel_ok_def)
qed

lemma wheel_ok_delete: "wheel_ok ticking s \<Longrightarrow> wheel_ok ticking (tw_delete i s)"
  unfolding wheel_ok_def ids_simps by (auto simp: tw_delete_def distinct_map_filter)

lemma tw_postpone_fields [simp]:
  "map fst (TW (tw_postpone i d s)) = map fst (TW s)" "TW (tw_postpone i d s) = [] \<longleftrightarrow> TW s = []"
  "twId (tw_postpone i d s) = twId s" "twOn (tw_postpone i d s) = twOn s"
  "timer (tw_postpone i d s) = timer s" "pw (tw_postpone i d s) = pw s"
  "fired (tw_postpone i d s) = fired s"
  by (simp_all add: tw_postpone_def)

lemma wheel_ok_postpone: "wheel_ok ticking s \<Longrightarrow> wheel_ok ticking (tw_postpone i d s)"
  by (simp add: wheel_ok_def)

lemma steps_grow:
  assumes "pol_laws L ticking"
  shows "wheel_steps L ticking s s' \<Longrightarrow> wheel_grows s s' \<and> fired s' = fired s \<and> (twOn s \<longrightarrow> twOn s')"
proof (induction rule: wheel_steps.induct)
  case (other s' s'')
  then show ?case by (simp add: wheel_grows_def same_wheel_def ids_def)
next
  case (add s' f ms period args i s'')
  with tw_add_result [OF assms add.hyps(2)] tw_add_ids [OF assms add.hyps(2)] show ?case
    by (auto simp: wheel_grows_def)
next
  case (clear s' i)
  then show ?case by (simp add: wheel_grows_def)
qed simp

lemma steps_ok:
  assumes "pol_laws L ticking"
  shows "wheel_steps L ticking s s' \<Longrightarrow> wheel_ok ticking s \<Longrightarrow> wheel_ok ticking s'"
proof (induction rule: wheel_steps.induct)
  case (other s' s'')
  then show ?case by (simp add: wheel_ok_def same_wheel_def ids_def)
next
  case (add s' f ms period args i s'')
  from add.IH [OF add.prems] add.hyps(2) show ?case by (rule tw_add_ok [OF assms])
qed (simp_all add: wheel_ok_delete)

lemma steps_dead:
  assumes "pol_laws L ticking"
  shows "wheel_steps L ticking s s' \<Longrightarrow> wheel_dead ticking s \<Longrightarrow> wheel_dead ticking s'"
proof (induction rule: wheel_steps.induct)
  case (other s' s'')
  then show ?case by (simp add: wheel_dead_def same_wheel_def)
next
  case (add s' f ms period args i s'')
  with tw_add_result [OF assms add.hyps(2)] show ?case by (auto simp: wheel_dead_def)
next
  case (clear s' i)
  then show ?case by (simp add: wheel_dead_def tw_delete_def)
qed

lemma ok_fields:
  "wheel_ok ticking (s\<lparr>fired := x\<rparr>) = wheel_ok ticking s"
  "ticking w = ticking (pw s) \<Longrightarrow> wheel_ok ticking (s\<lparr>pw := w\<rparr>) = wheel_ok ticking s"
  by (simp_all add: wheel_ok_def ids_def)

lemma grows_fields:
  "wheel_grows s (s'\<lparr>fired := x\<rparr>) = wheel_grows s s'" "wheel_grows s (s'\<lparr>pw := w\<rparr>) = wheel_grows s s'"
  by (simp_all add: wheel_grows_def ids_def)

lemma dead_fields:
  "wheel_dead ticking (s\<lparr>fired := x\<rparr>) = wheel_dead ticking s"
  "ticking w = ticking (pw s) \<Longrightarrow> wheel_dead ticking (s\<lparr>pw := w\<rparr>) = wheel_dead ticking s"
  by (simp_all add: wheel_dead_def)

text \<open>What comes before the call of one due timer.\<close>

definition tw_before :: "'w pollib \<Rightarrow> nat \<times> wtimer \<Rightarrow> 'w pols \<Rightarrow> 'w pols" where
  "tw_before L e s =
     (if num_lt (Fin 0) (periodNs (snd e))
      then (let s' = s\<lparr>pw := snd (POLNow L (pw s))\<rparr>;
                n = P_round L (js_nat (fst (POLNow L (pw s)))) in
            (tw_postpone (fst e) (P_round L (num_add n (periodNs (snd e)))) s')\<lparr>fired := fired s @ [fst e]\<rparr>)
      else (tw_delete (fst e) s)\<lparr>fired := fired s @ [fst e]\<rparr>)"

lemma tw_fire_Cons:
  "tw_fire L (e # es) s =
     jbind (P_call L (wfn (snd e)) (wargs (snd e))) (\<lambda>_. tw_fire L es) (tw_before L e s)"
  by (simp add: tw_before_def now_result Let_def tw_delete_def)

lemma tw_before_facts:
  assumes "pol_laws L ticking" and "wheel_ok ticking s"
  shows "wheel_ok ticking (tw_before L e s)" "wheel_grows s (tw_before L e s)"
    "fired (tw_before L e s) = fired s @ [fst e]"
    "\<not> num_lt (Fin 0) (periodNs (snd e)) \<Longrightarrow> fst e \<notin> ids (tw_before L e s)"
  using assms pol_lawsD(3) [OF assms(1), of "pw s"]
  by (simp_all add: tw_before_def Let_def ok_fields wheel_ok_postpone wheel_ok_delete wheel_grows_def)

text \<open>Firing a list of due timers, when every call returns and when one throws.\<close>

lemma tw_fire_result:
  assumes "pol_laws L ticking" and "plays L ticking"
  shows "wheel_ok ticking s \<Longrightarrow> tw_fire L es s = (r, s') \<Longrightarrow>
    wheel_ok ticking s' \<and> wheel_grows s s' \<and> (twOn s \<longrightarrow> twOn s') \<and>
    (r = Inr () \<longrightarrow> fired s' = fired s @ map fst es \<and>
       (\<forall>e\<in>set es. \<not> num_lt (Fin 0) (periodNs (snd e)) \<and> fst e < twId s \<longrightarrow> fst e \<notin> ids s')) \<and>
    (\<forall>x. r = Inl x \<longrightarrow> (\<exists>k. 0 < k \<and> k \<le> length es \<and> fired s' = fired s @ map fst (take k es)))"
proof (induction es arbitrary: s)
  case (Cons e es)
  let ?b = "tw_before L e s"
  note before = tw_before_facts [OF assms(1) Cons.prems(1), where e = e]
  have on: "twOn ?b = twOn s" by (simp add: tw_before_def Let_def)
  obtain q s1 where q: "P_call L (wfn (snd e)) (wargs (snd e)) ?b = (q, s1)" by fastforce
  note st = plays_call [OF assms(2) q]
  note g = steps_grow [OF assms(1) st]
  have ok1: "wheel_ok ticking s1" using steps_ok [OF assms(1) st] before(1) by blast
  have grow1: "wheel_grows s s1" using before(2) g wheel_grows_trans by blast
  show ?case
  proof (cases q)
    case (Inl x)
    with Cons.prems(2) q have "r = Inl x" "s' = s1" by (simp_all add: tw_fire_Cons del: tw_fire.simps)
    with ok1 grow1 g on before(3) show ?thesis by (auto intro!: exI [of _ 1])
  next
    case (Inr v)
    with Cons.prems(2) q have rest: "tw_fire L es s1 = (r, s')" by (simp add: tw_fire_Cons del: tw_fire.simps)
    note IH = Cons.IH [OF ok1 rest]
    have grow: "wheel_grows s s'" using grow1 IH wheel_grows_trans by blast
    have gone: "fst e \<notin> ids s'" if "\<not> num_lt (Fin 0) (periodNs (snd e))" "fst e < twId s"
    proof -
      have "fst e \<notin> ids ?b" using before(4) that(1) by blast
      moreover have "fst e < twId ?b" using before(2) that(2) by (simp add: wheel_grows_def)
      moreover have "wheel_grows ?b s'" using g IH wheel_grows_trans by blast
      ultimately show ?thesis by (auto simp: wheel_grows_def)
    qed
    have later: "fst e' < twId s1" if "fst e' < twId s" for e' :: "nat \<times> wtimer"
      using grow1 that by (simp add: wheel_grows_def)
    have "\<exists>k. 0 < k \<and> k \<le> length (e # es) \<and> fired s' = fired s @ map fst (take k (e # es))" if "r = Inl x" for x
    proof -
      from IH that obtain k where "k \<le> length es" "fired s' = fired s1 @ map fst (take k es)" by blast
      then show ?thesis using g before(3) by (intro exI [of _ "Suc k"]) simp
    qed
    then show ?thesis using IH grow gone later g before(3) on by auto
  qed
qed (auto dest: sym)

definition due_timers :: "'w pollib \<Rightarrow> 'w pols \<Rightarrow> (nat \<times> wtimer) list" where
  "due_timers L s =
     filter (\<lambda>e. num_le (dueNs (snd e)) (P_round L (js_nat (fst (POLNow L (pw s)))))) (TW s)"

text \<open>What a tick leaves when every callback returned, and when one threw.\<close>

lemma twTick_result:
  assumes "pol_laws L ticking" and "plays L ticking" and "wheel_ok ticking s" and "twOn s"
    and "twTick L s = (r, s')"
  shows "wheel_ok ticking s'"
    "r = Inl x \<Longrightarrow> twOn s' \<and>
       (\<exists>k. 0 < k \<and> k \<le> length (due_timers L s) \<and> fired s' = fired s @ map fst (take k (due_timers L s)))"
    "r = Inr d \<Longrightarrow> twOn s' = (TW s' \<noteq> []) \<and> fired s' = fired s @ map fst (due_timers L s) \<and>
       (\<forall>e\<in>set (due_timers L s). \<not> num_lt (Fin 0) (periodNs (snd e)) \<longrightarrow> fst e \<notin> ids s')"
proof -
  let ?s = "s\<lparr>pw := snd (POLNow L (pw s))\<rparr>"
  obtain q s1 where q: "tw_fire L (due_timers L s) ?s = (q, s1)" by fastforce
  have "wheel_ok ticking ?s"
    using assms(3) pol_lawsD(3) [OF assms(1), of "pw s"] by (simp add: ok_fields)
  note f = tw_fire_result [OF assms(1,2) this q]
  have old: "fst e < twId ?s" if "e \<in> set (due_timers L s)" for e
    using assms(3) that by (auto simp: wheel_ok_def due_timers_def ids_def)
  have tick: "twTick L s = jbind (tw_fire L (due_timers L s)) (\<lambda>_. jbind (jget TW) (\<lambda>ts.
     if ts = [] then jbind (jput (\<lambda>s. s\<lparr>twOn := False\<rparr>)) (\<lambda>_. jret (Fin 3600001))
     else jbind (JABCPolNow L) (\<lambda>n.
          let ms = num_ceil (P_round L (num_scale (1 / TW_MS) (P_round L (num_sub (tw_soon ts) n)))) in
          jret (if num_lt ms (Fin 1) then Fin 1 else ms)))) ?s"
    by (simp add: twTick_def now_result due_timers_def)
  have on: "twOn s1" using f assms(4) by simp
  show "wheel_ok ticking s'"
  proof (cases q)
    case (Inl x)
    with tick q assms(5) f show ?thesis by simp
  next
    case (Inr u)
    show ?thesis
    proof (cases "TW s1 = []")
      case True
      with Inr tick q assms(5) have "s' = s1\<lparr>twOn := False\<rparr>" by simp
      with f True show ?thesis by (simp add: wheel_ok_def ids_def)
    next
      case False
      with Inr tick q assms(5) have "s' = s1\<lparr>pw := snd (POLNow L (pw s1))\<rparr>" by (simp add: now_result Let_def)
      with f pol_lawsD(3) [OF assms(1), of "pw s1"] show ?thesis by (simp add: ok_fields)
    qed
  qed
  show "twOn s' \<and>
       (\<exists>k. 0 < k \<and> k \<le> length (due_timers L s) \<and> fired s' = fired s @ map fst (take k (due_timers L s)))"
    if "r = Inl x"
  proof -
    have "q = Inl x \<and> s' = s1"
      using that tick q assms(5) by (cases q) (auto simp: now_result Let_def split: if_splits)
    with on f show ?thesis by auto
  qed
  show "twOn s' = (TW s' \<noteq> []) \<and> fired s' = fired s @ map fst (due_timers L s) \<and>
       (\<forall>e\<in>set (due_timers L s). \<not> num_lt (Fin 0) (periodNs (snd e)) \<longrightarrow> fst e \<notin> ids s')" if "r = Inr d"
  proof -
    from that tick q assms(5) have qr: "q = Inr ()" by (cases q) auto
    with f old have facts: "fired s1 = fired s @ map fst (due_timers L s)"
      "\<forall>e\<in>set (due_timers L s). \<not> num_lt (Fin 0) (periodNs (snd e)) \<longrightarrow> fst e \<notin> ids s1" by auto
    show ?thesis
    proof (cases "TW s1 = []")
      case True
      with qr tick q assms(5) have "s' = s1\<lparr>twOn := False\<rparr>" by simp
      with facts True show ?thesis by (simp add: ids_def)
    next
      case False
      with qr tick q assms(5) have "s' = s1\<lparr>pw := snd (POLNow L (pw s1))\<rparr>" by (simp add: now_result Let_def)
      with facts on False show ?thesis by simp
    qed
  qed
qed

lemma same_wheel_jobs:
  assumes "plays L ticking"
  shows "wheel_ok ticking (P_jobs L s) = wheel_ok ticking s" "wheel_dead ticking (P_jobs L s) = wheel_dead ticking s"
    "TW (P_jobs L s) = TW s" "twOn (P_jobs L s) = twOn s" "ticking (pw (P_jobs L s)) = ticking (pw s)"
    "fired (P_jobs L s) = fired s"
  using assms by (simp_all add: plays_def same_wheel_def wheel_ok_def wheel_dead_def ids_def)

text \<open>Whether the tick's answer leaves the timer with \<open>POL\<close>: between 0 and an hour, in 32 bits.\<close>

definition within_hour :: "jsnum \<Rightarrow> bool" where
  "within_hour d \<longleftrightarrow> 0 \<le> to_int32 d \<and> to_int32 d < 3600000"

lemma PolTimer_wheel:
  assumes "pol_laws L ticking" and "timer s = Some TWheel" and "twTick L s = (Inr d, s1)"
  shows "JABCPolTimer L ns s = (Inr (if to_int32 d < 0 then 3600000 else to_int32 d),
    P_jobs L (if 3600000 \<le> to_int32 d then s1\<lparr>timer := None\<rparr> else s1))"
proof -
  have "pol_tick L (P_round L (js_nat ns)) s =
      (Inr (js_int (to_int32 d)), if 3600000 \<le> to_int32 d then s1\<lparr>timer := None\<rparr> else s1)"
    using assms by (simp add: pol_tick_def call_timer_def or0_def pol_lawsD(8) [OF assms(1)])
  then show ?thesis
    using to_int32_range [of d]
    by (auto simp: JABCPolTimer_def JABCPolCall_def jbind_def cast_or_undef_def c_cast_def js_int_def Let_def)
qed

lemma PolTimer_threw:
  assumes "timer s = Some TWheel" and "twTick L s = (Inl e, s1)" and "e \<noteq> CUndef"
  shows "JABCPolTimer L ns s = (Inr 3600000, P_jobs L (JABCPolStash L e s1))"
proof -
  have "pol_tick L (P_round L (js_nat ns)) s = (Inl e, s1)"
    using assms by (simp add: pol_tick_def call_timer_def)
  then show ?thesis
    using assms(3) by (cases e) (auto simp: JABCPolTimer_def JABCPolCall_def jbind_def)
qed

text \<open>
  One turn of the loop on the wheel: what became of it follows from the tick's own answer.
\<close>

lemma tick_outcome:
  assumes "pol_laws L ticking" and "plays L ticking" and "wheel_ok ticking s" and "twOn s"
    and "pol_event L (Tick ns) s = (Inr (), s')"
  shows "case twTick L s of
      (Inr d, s1) \<Rightarrow> if TW s1 = [] \<or> within_hour d then wheel_ok ticking s' else wheel_dead ticking s'
    | (Inl e, s1) \<Rightarrow> wheel_dead ticking s'"
proof -
  note L = pol_lawsD [OF assms(1)]
  have timer: "timer s = Some TWheel" using assms(3,4) by (simp add: wheel_ok_def)
  obtain r s1 where r: "twTick L s = (r, s1)" by fastforce
  note tick = twTick_result [OF assms(1-4) r]
  show ?thesis
  proof (cases r)
    case (Inl e)
    show ?thesis
    proof (cases "e = CUndef")
      case True
      with timer r Inl assms(5) show ?thesis
        by (auto simp: pol_event_def JABCPolTimer_def JABCPolCall_def pol_tick_def call_timer_def)
    next
      case False
      note threw = PolTimer_threw [OF timer _ False, where L = L and ns = ns]
      have "s' = (P_jobs L (JABCPolStash L e s1))\<lparr>pw := P_tick_answered L 3600000 (pw (P_jobs L (JABCPolStash L e s1)))\<rparr>"
        using threw r Inl assms(5) by (simp add: pol_event_def on_pol_def)
      moreover have "twOn (JABCPolStash L e s1)" using tick(2) Inl by (simp add: JABCPolStash_def Let_def)
      ultimately show ?thesis using r Inl by (simp add: wheel_dead_def same_wheel_jobs [OF assms(2)] L)
    qed
  next
    case (Inr d)
    let ?t = "if 3600000 \<le> to_int32 d then s1\<lparr>timer := None\<rparr> else s1"
    let ?a = "if to_int32 d < 0 then 3600000 else to_int32 d"
    note on = tick(3) [OF Inr, THEN conjunct1]
    have s': "s' = (P_jobs L ?t)\<lparr>pw := P_tick_answered L ?a (pw (P_jobs L ?t))\<rparr>"
      using PolTimer_wheel [OF assms(1) timer, of d s1 ns] r Inr assms(5)
      by (simp add: pol_event_def on_pol_def)
    have armed: "ticking (pw s1)" if "TW s1 \<noteq> []" using tick(1) on that by (simp add: wheel_ok_def)
    consider "TW s1 = []" | "TW s1 \<noteq> []" "within_hour d" | "TW s1 \<noteq> []" "\<not> within_hour d" by blast
    then show ?thesis
    proof cases
      case 1
      then have "wheel_ok ticking ?t" "\<not> twOn ?t" using tick(1) on by (simp_all add: wheel_ok_def ids_def)
      then have "wheel_ok ticking (P_jobs L ?t)" "\<not> twOn (P_jobs L ?t)"
        by (simp_all only: same_wheel_jobs [OF assms(2)] simp_thms)
      then have "wheel_ok ticking s'" unfolding s' by (simp add: wheel_ok_def ids_def)
      with 1 r Inr show ?thesis by simp
    next
      case 2
      then have "?t = s1" "?a = to_int32 d" by (auto simp: within_hour_def)
      with s' 2 have "wheel_ok ticking s'"
        using tick(1) armed by (simp add: ok_fields same_wheel_jobs [OF assms(2)] L within_hour_def)
      with 2 r Inr show ?thesis by simp
    next
      case 3
      then have "\<not> ?a < 3600000" by (auto simp: within_hour_def)
      then have "wheel_dead ticking s'"
        unfolding s' using on 3 by (simp add: wheel_dead_def same_wheel_jobs [OF assms(2)] L)
      with 3 r Inr show ?thesis by simp
    qed
  qed
qed

text \<open>
  The runs of a program: it changes the wheel, and \<open>POL\<close>, as long as it holds the timer, ticks.  The flag
  says whether every tick so far ended well: no callback threw, and the next timer, if there is one, was
  less than an hour away.
\<close>

definition tick_fine :: "'w pollib \<Rightarrow> 'w pols \<Rightarrow> bool" where
  "tick_fine L s = (case twTick L s of (Inr d, s1) \<Rightarrow> TW s1 = [] \<or> within_hour d | (Inl e, s1) \<Rightarrow> False)"

inductive wheel_runs :: "'w pollib \<Rightarrow> ('w \<Rightarrow> bool) \<Rightarrow> bool \<Rightarrow> 'w pols \<Rightarrow> bool" for L ticking where
  start: "TW s = [] \<Longrightarrow> \<not> twOn s \<Longrightarrow> wheel_runs L ticking True s"
| script: "wheel_runs L ticking fine s \<Longrightarrow> wheel_steps L ticking s s' \<Longrightarrow> wheel_runs L ticking fine s'"
| tick: "wheel_runs L ticking fine s \<Longrightarrow> twOn s \<Longrightarrow> ticking (pw s) \<Longrightarrow>
    pol_event L (Tick ns) s = (Inr (), s') \<Longrightarrow> wheel_runs L ticking (tick_fine L s) s'"

lemma runs_ok:
  assumes "pol_laws L ticking" and "plays L ticking"
  shows "wheel_runs L ticking fine s \<Longrightarrow> if fine then wheel_ok ticking s else wheel_dead ticking s"
proof (induction rule: wheel_runs.induct)
  case (start s)
  then show ?case by (simp add: wheel_ok_def ids_def)
next
  case (script fine s s')
  then show ?case using steps_ok [OF assms(1)] steps_dead [OF assms(1)] by (cases fine) auto
next
  case (tick fine s ns s')
  then have "wheel_ok ticking s" by (cases fine) (simp_all add: wheel_dead_def)
  from tick_outcome [OF assms this tick.hyps(2,4)] show ?case
    by (auto simp: tick_fine_def split: prod.splits sum.splits if_splits)
qed

section \<open>A small loop to run\<close>

text \<open>
  The world is a clock and whether the timer is tracked.  Function 1 throws, every other one
  returns undefined.
\<close>

definition toy :: "(nat \<times> bool) pollib" where
  "toy = \<lparr>
     P_int32 = (\<lambda>v. case v of JNum d \<Rightarrow> jret (to_int32 d) | _ \<Rightarrow> jret 0),
     P_number = (\<lambda>v. case v of JNum d \<Rightarrow> jret d | _ \<Rightarrow> jret NaN),
     P_call = (\<lambda>f args. if f = 1 then jthrow (ThrowStr ''oops'') else jret JUndef),
     P_jobs = (\<lambda>s. s), P_round = (\<lambda>d. d),
     POLTrackEvents = (\<lambda>fd ev w. (OK, w)), POLAddEvents = (\<lambda>fd ev w. (OK, w)),
     POLIgnoreEvents = (\<lambda>fd w. w), POLTrackTime = (\<lambda>w. (OK, (fst w, True))),
     POLAddTime = (\<lambda>ms w. w), POLIgnoreTime = (\<lambda>w. (fst w, False)), POLStop = (\<lambda>w. w),
     POLFree = (\<lambda>w. (fst w, False)), POLInit = (\<lambda>n w. (OK, w)), POLSleep = (\<lambda>n w. w),
     POLAny = snd, POLNow = (\<lambda>w. (fst w, w)), P_fd_answered = (\<lambda>fd m w. w),
     P_tick_answered = (\<lambda>ms w. (fst w, snd w \<and> ms < 3600000)) \<rparr>"

definition fresh_pols :: "nat \<times> bool \<Rightarrow> (nat \<times> bool) pols" where
  "fresh_pols w = \<lparr>pw = w, table = Map.empty, timer = None, dflt = None, exc = None, running = False,
     TW = [], twId = 1, twOn = False, fired = []\<rparr>"

lemma toy_laws: "pol_laws toy snd"
  by (auto simp: pol_laws_def toy_def)

lemma toy_plays: "plays toy snd"
  by (auto simp: plays_def toy_def same_wheel_def intro: wheel_steps.none split: jsval.split)

lemma toy_no_nested: "no_nested_run toy"
  by (auto simp: no_nested_run_def toy_def keeps_stash_def split: jsval.split)

lemma toy_fields [simp]:
  "P_int32 toy (JNum d) = jret (to_int32 d)" "P_number toy (JNum d) = jret d"
  "P_call toy f args = (if f = 1 then jthrow (ThrowStr ''oops'') else jret JUndef)"
  "P_jobs toy s = s" "P_round toy d = d" "POLNow toy w = (fst w, w)" "POLStop toy w = w"
  "POLTrackTime toy w = (OK, (fst w, True))" "POLAddTime toy ms w = w"
  "P_fd_answered toy fd m w = w" "P_tick_answered toy ms w = (fst w, snd w \<and> ms < 3600000)"
  by (simp_all add: toy_def)

section \<open>Properties\<close>

text \<open>
  The first exception a handler ends with in a run of the loop is the one \<open>pol.run\<close> throws, the
  later ones are dropped; without any, it returns undefined.  Either way the stash is empty
  afterwards and the loop is no longer marked as running.  It holds for any schedule of ready fds
  and timer ticks, as long as no handler runs a loop of its own and none reaches an undefined cast.
\<close>

theorem run_throws_first:
  assumes "no_nested_run L" and "P_number L v s = (Inr d, s0)" and "run_time d s0 = (Inr ns, s0)"
    and "exc s0 = None" and "JABCPolRun L sched [v] s = (r, s')" and "r \<noteq> Inl CUndef"
  shows "r = (case thrown L (sched ns) (s0\<lparr>running := True\<rparr>) of [] \<Rightarrow> Inr (JVal JUndef) | e # _ \<Rightarrow> Inl e) \<and>
    exc s' = None \<and> \<not> running s'"
  using assms by (rule run_result)

text \<open>Fd 3 has the handler that throws, fd 4 one that returns.\<close>

definition two_fds :: "(nat \<times> bool) pols" where
  "two_fds = (fresh_pols (0, False))\<lparr>table := [JNum (js_int 3) \<mapsto> 1, JNum (js_int 4) \<mapsto> 0]\<rparr>"

lemma two_fds_run:
  "fst (JABCPolRun toy (\<lambda>_. [Ready 4 1, Ready 3 1, Ready 3 1]) [JNum (Fin (- 1))] two_fds) = Inl (ThrowStr ''oops'')"
proof -
  have or0: "or0 toy JUndef = jret 0" by (rule ext) (simp add: or0_def toy_def to_int32_def)
  have four: "pol_event toy (Ready 4 1) s = (Inr (), s\<lparr>table := (table s)(JNum (js_int 4) := None)\<rparr>)"
    if "table s (JNum (js_int 4)) = Some 0" for s
    using that by (simp add: pol_event_def JABCPolFd_def JABCPolCall_def pol_fd_def or0 Let_def jbind_def
        cast_or_undef_def c_cast_def js_int_def on_pol_def)
  have three: "pol_event toy (Ready 3 1) s = (Inr (), JABCPolStash toy (ThrowStr ''oops'') s)"
    if "table s (JNum (js_int 3)) = Some 1" for s
    using that by (simp add: pol_event_def JABCPolFd_def JABCPolCall_def pol_fd_def Let_def jbind_def on_pol_def)
  let ?s = "two_fds\<lparr>running := True, table := [JNum (js_int 3) \<mapsto> 1]\<rparr>"
  have "POLLoop toy [Ready 4 1, Ready 3 1, Ready 3 1] (two_fds\<lparr>running := True\<rparr>) =
      (Inr (), ?s\<lparr>exc := Some (ThrowStr ''oops'')\<rparr>)"
    by (simp add: four three two_fds_def fresh_pols_def JABCPolStash_def Let_def jbind_def)
  then show ?thesis by (simp add: JABCPolRun_def run_time_def)
qed

theorem run_throws_first_witness:
  "thrown toy [Ready 4 1, Ready 3 1, Ready 3 1] (two_fds\<lparr>running := True\<rparr>) \<noteq> [] \<and>
   hd (thrown toy [Ready 4 1, Ready 3 1, Ready 3 1] (two_fds\<lparr>running := True\<rparr>)) = ThrowStr ''oops''"
proof -
  let ?run = "JABCPolRun toy (\<lambda>_. [Ready 4 1, Ready 3 1, Ready 3 1]) [JNum (Fin (- 1))] two_fds"
  obtain s' where s': "?run = (Inl (ThrowStr ''oops''), s')" using two_fds_run by (metis prod.collapse)
  have "run_time (Fin (- 1)) two_fds = (Inr None, two_fds)" by (simp add: run_time_def)
  moreover have "P_number toy (JNum (Fin (- 1))) two_fds = (Inr (Fin (- 1)), two_fds)" "exc two_fds = None"
    by (simp_all add: two_fds_def fresh_pols_def)
  ultimately have "Inl (ThrowStr ''oops'') =
      (case thrown toy [Ready 4 1, Ready 3 1, Ready 3 1] (two_fds\<lparr>running := True\<rparr>) of
         [] \<Rightarrow> Inr (JVal JUndef) | e # _ \<Rightarrow> Inl e)"
    using run_throws_first [OF toy_no_nested _ _ _ s'] by blast
  then show ?thesis
    by (cases "thrown toy [Ready 4 1, Ready 3 1, Ready 3 1] (two_fds\<lparr>running := True\<rparr>)")
      (simp_all del: thrown.simps)
qed

text \<open>
  A call of \<open>pol.init\<close> from inside the loop is refused with \<open>POL\<close> untouched, but only after it
  has emptied the handler table and forgotten the timer and the default handler: the loop that goes
  on answers every ready fd with 0, which drops it, and the timer with an hour, which removes it.
\<close>

theorem refused_init_wipes:
  assumes "pol_laws L ticking" and "running s"
  shows "\<exists>s'. pol_init L (JNum d) s = (Inl (ThrowError ''pol.init: called from inside the loop''), s') \<and>
    pw s' = pw s \<and> running s' \<and>
    fst (pol_fd L fd revents s') = Inr (Fin 0) \<and> fst (pol_tick L ns s') = Inr (Fin 3600001)"
proof -
  let ?s = "s\<lparr>table := Map.empty, timer := None, dflt := None\<rparr>"
  have "pol_init L (JNum d) s = (Inl (ThrowError ''pol.init: called from inside the loop''), ?s)"
    using assms(2) by (simp add: pol_init_def or0_def JABCPolInit_def pol_lawsD(7,8) [OF assms(1)] jbind_def)
  moreover have "fst (pol_fd L fd revents ?s) = Inr (Fin 0)" by (simp add: pol_fd_def Let_def)
  moreover have "fst (pol_tick L ns ?s) = Inr (Fin 3600001)" by (simp add: pol_tick_def)
  ultimately show ?thesis using assms(2) by fastforce
qed

theorem refused_init_wipes_witness:
  "\<exists>s'. pol_init toy (JNum (Fin 64)) (two_fds\<lparr>running := True\<rparr>) =
     (Inl (ThrowError ''pol.init: called from inside the loop''), s') \<and> fst (pol_fd toy 4 1 s') = Inr (Fin 0)"
proof -
  have "running (two_fds\<lparr>running := True\<rparr>)" by simp
  from refused_init_wipes [OF toy_laws this, where d = "Fin 64" and fd = 4 and revents = 1] show ?thesis by blast
qed


lemma toy_timeout:
  "setTimeout toy 0 (JNum (Fin 5)) [] (fresh_pols (0, False)) =
     (Inr 1, (fresh_pols (0, True))\<lparr>timer := Some TWheel, twId := 2, twOn := True,
        TW := [(1, \<lparr>dueNs = Fin 5000000, periodNs = Fin 0, wfn = 0, wargs = []\<rparr>)]\<rparr>)"
  by (simp add: setTimeout_def tw_add_def now_result fresh_pols_def num_or_def num_max_def TW_MS_def
      js_nat_def tw_set_def twArm_def pol_timer_def JABCPolEvery_def pol_code_def or_msg_def
      JABCPolSooner_def on_pol_def jbind_def)


text \<open>
  C29: while the wheel is armed, a tick calls the function of every timer whose time had come when it
  began, each once, in the order they were set, whatever the calls before it set or cleared, and every
  one-shot timer among them is gone afterwards.  When a call throws, the tick ends with it: the timers
  called are the due ones up to that one, in the same order.
\<close>

theorem due_timers_fire:
  assumes "pol_laws L ticking" and "plays L ticking" and "wheel_runs L ticking True s" and "twOn s"
    and "twTick L s = (r, s')"
  shows "case r of
      Inr d \<Rightarrow> fired s' = fired s @ map fst (due_timers L s) \<and>
        (\<forall>e\<in>set (due_timers L s). num_lt (Fin 0) (periodNs (snd e)) \<or> fst e \<notin> ids s')
    | Inl e \<Rightarrow> (\<exists>k. 0 < k \<and> k \<le> length (due_timers L s) \<and>
        fired s' = fired s @ map fst (take k (due_timers L s)))"
proof -
  have ok: "wheel_ok ticking s" using runs_ok [OF assms(1-3)] by simp
  show ?thesis
    using twTick_result(2,3) [OF assms(1,2) ok assms(4,5)] by (cases r) auto
qed

definition one_due :: "(nat \<times> bool) pols" where
  "one_due = (fresh_pols (7000000, True))\<lparr>timer := Some TWheel, twId := 2, twOn := True,
     TW := [(1, \<lparr>dueNs = Fin 5000000, periodNs = Fin 0, wfn = 0, wargs = []\<rparr>)]\<rparr>"

lemma one_due_runs: "wheel_runs toy snd True one_due"
proof -
  let ?s = "snd (setTimeout toy 0 (JNum (Fin 5)) [] (fresh_pols (0, False)))"
  have add: "tw_add toy 0 (Fin 5) (Fin 0) [] (fresh_pols (0, False)) = (Inr 1, ?s)"
    using toy_timeout by (simp add: setTimeout_def num_or_def num_max_def)
  have "wheel_runs toy snd True (fresh_pols (0, False))" by (rule wheel_runs.start) (simp_all add: fresh_pols_def)
  then have "wheel_runs toy snd True ?s"
    by (rule wheel_runs.script) (rule wheel_steps.add [OF wheel_steps.none add])
  moreover have "same_wheel snd ?s one_due"
    unfolding toy_timeout by (simp add: one_due_def fresh_pols_def same_wheel_def)
  ultimately show ?thesis by (metis wheel_runs.script wheel_steps.none wheel_steps.other)
qed

lemma one_due_list: "due_timers toy one_due = TW one_due"
  by (simp add: due_timers_def one_due_def fresh_pols_def js_nat_def)

lemma one_due_tick: "twTick toy one_due = (Inr (Fin 3600001), one_due\<lparr>TW := [], twOn := False, fired := [1]\<rparr>)"
  by (simp add: twTick_def now_result one_due_def fresh_pols_def js_nat_def tw_delete_def jbind_def)

theorem due_timers_fire_witness:
  "fired (snd (twTick toy one_due)) = [1] \<and> 1 \<notin> ids (snd (twTick toy one_due))"
proof -
  have "twOn one_due" by (simp add: one_due_def)
  from due_timers_fire [OF toy_laws toy_plays one_due_runs this one_due_tick]
  show ?thesis by (simp add: one_due_list one_due_tick) (simp add: one_due_def fresh_pols_def)
qed

text \<open>
  The other ticks end the wheel for good.  When a callback throws, or the next timer is an hour
  or more away (or so far that the 32-bit conversion makes it negative), \<open>POL\<close> drops the timer while
  the wheel's flag stays set; from then on no timer the program sets or clears arms it again.
\<close>

theorem wheel_dies:
  assumes "pol_laws L ticking" and "plays L ticking" and "wheel_runs L ticking True s" and "twOn s"
    and "pol_event L (Tick ns) s = (Inr (), s')"
    and "case twTick L s of (Inr d, s1) \<Rightarrow> TW s1 \<noteq> [] \<and> \<not> within_hour d | (Inl e, s1) \<Rightarrow> True"
    and "wheel_steps L ticking s' s''"
  shows "twOn s'' \<and> \<not> ticking (pw s'')"
proof -
  have "wheel_ok ticking s" using runs_ok [OF assms(1-3)] by simp
  from tick_outcome [OF assms(1,2) this assms(4,5)] assms(6)
  have "wheel_dead ticking s'" by (auto split: prod.splits sum.splits if_splits)
  with steps_dead [OF assms(1,7)] show ?thesis by (simp add: wheel_dead_def)
qed

definition far_timer :: "(nat \<times> bool) pols" where
  "far_timer = one_due\<lparr>TW := TW one_due @ [(2, \<lparr>dueNs = Fin 3600007000000, periodNs = Fin 0, wfn = 0, wargs = []\<rparr>)],
     twId := 3\<rparr>"

lemma far_timer_runs: "wheel_runs toy snd True far_timer"
proof -
  have "tw_add toy 0 (Fin 3600000) (Fin 0) [] one_due = (Inr 2, far_timer)"
    by (simp add: tw_add_def now_result one_due_def far_timer_def fresh_pols_def TW_MS_def js_nat_def
        tw_set_def twArm_def JABCPolSooner_def on_pol_def jbind_def)
  from wheel_runs.script [OF one_due_runs wheel_steps.add [OF wheel_steps.none this]] show ?thesis .
qed

lemma far_timer_tick:
  "twTick toy far_timer = (Inr (Fin 3600000), far_timer\<lparr>TW := tl (TW far_timer), fired := [1]\<rparr>)"
  by (simp add: twTick_def now_result one_due_def far_timer_def fresh_pols_def js_nat_def tw_delete_def
      jbind_def tw_soon_def num_sub_def TW_MS_def js_int_def)

theorem wheel_dies_witness:
  "\<exists>s'. pol_event toy (Tick 0) far_timer = (Inr (), s') \<and> twOn s' \<and> \<not> snd (pw s')"
proof -
  have far: "\<not> within_hour (Fin 3600000)" by (simp add: within_hour_def to_int32_def)
  have timer: "timer far_timer = Some TWheel" "twOn far_timer" by (simp_all add: far_timer_def one_due_def)
  obtain s' where s': "pol_event toy (Tick 0) far_timer = (Inr (), s')"
    using PolTimer_wheel [OF toy_laws timer(1) far_timer_tick, of 0] by (simp add: pol_event_def on_pol_def)
  have "TW (far_timer\<lparr>TW := tl (TW far_timer), fired := [1]\<rparr>) \<noteq> []"
    by (simp add: far_timer_def one_due_def)
  with far have "case twTick toy far_timer of (Inr d, s1) \<Rightarrow> TW s1 \<noteq> [] \<and> \<not> within_hour d | (Inl e, s1) \<Rightarrow> True"
    by (simp add: far_timer_tick)
  from wheel_dies [OF toy_laws toy_plays far_timer_runs timer(2) s' this wheel_steps.none] s' show ?thesis by blast
qed

text \<open>
  What the handler of \<open>pol.after\<close> sets as the next timer is forgotten: the router clears the handler
  when the wrapper answers an hour.
\<close>

lemma after_forgets_the_next:
  assumes "pol_laws L ticking" and "timer s = Some (TAfter f)" and "P_call L f [JNum ns] s = (Inr v, s1)"
  shows "pol_tick L ns s = (Inr (Fin 3600001), s1\<lparr>timer := None\<rparr>)"
  using assms(2,3)
  by (simp add: pol_tick_def call_timer_def or0_def pol_lawsD(8) [OF assms(1)] to_int32_def js_int_def)

text \<open>A nested run clears the flag that guards \<open>pol.init\<close> while the outer loop goes on.\<close>

lemma nested_run_unguards:
  assumes "P_number L v s = (Inr d, s0)" and "run_time d s0 = (Inr ns, s0)" and "sched ns = []" and "exc s0 = None"
  shows "\<exists>s'. JABCPolRun L sched [v] s = (Inr (JVal JUndef), s') \<and> \<not> running s'"
  using assms by (simp add: JABCPolRun_def)

text \<open>The unguarded casts: a wait of \<open>2 ^ 64\<close> ns or more, and a mask past a \<open>short\<close>.\<close>

lemma run_cast_undefined: "run_time (Fin (2 ^ 64)) s = (Inl CUndef, s)"
  by (simp add: run_time_def as_size_def cast_or_undef_def c_cast_def jbind_def)

lemma sleep_cast_undefined:
  "pol_laws L ticking \<Longrightarrow> P_number L (JNum PInf) = jret PInf \<Longrightarrow> JABCPolSleep L [JNum PInf] s = (Inl CUndef, s)"
  by (simp add: JABCPolSleep_def as_size_def cast_or_undef_def c_cast_def jbind_def)

lemma mask_cast_undefined:
  "JABCPolCall L (pol_fd L fd revents) s = (Inr (Fin 32768), s') \<Longrightarrow> JABCPolFd L fd revents s = (Inl CUndef, s')"
  by (simp add: JABCPolFd_def cast_or_undef_def c_cast_def)

end
