(* ===== verification/Socket.thy ===== *)
theory Socket
  imports BufJs
begin

unbundle bit_operations_syntax

text \<open>
  The \<open>Emitter\<close> and the \<open>Socket\<close> of \<open>net.c\<close>'s bundle: one socket, its read buffer, its write FIFO and
  its four flags, driven by the event loop and by the methods a program calls.  The kernel's calls
  are the fields of \<open>netlib\<close>.  A listener is a program of method calls (and of anything it does to the
  world outside the socket) that may depend on the whole state; the depth of nested \<open>emit\<close>s is
  bounded, as the JavaScript stack is.
\<close>

section \<open>State\<close>

datatype listener = Plain nat | Once nat nat

datatype sarg = AData "u8 list" | AText string

text \<open>The calls a socket has made on its fd, a history the code does not keep.\<close>

datatype nsys = NRecv | NSend "u8 list" | NShut | NClose

record 'w sock =
  sw :: 'w
  sfd :: int
  rb :: buf
  wb :: buf
  readEnded :: bool
  ending :: bool
  wrShut :: bool
  closed :: bool
  ev :: "string \<rightharpoonup> listener list"
  onces :: nat
  sys :: "nsys list"
  accepted :: "u8 list"

datatype 'w sop =
    OpWrite "u8 list" | OpEnd "u8 list option" | OpDestroy
  | OpOn string nat | OpOnce string nat | OpOff string nat
  | OpWorld "'w \<Rightarrow> 'w" | OpThrow exn

text \<open>
  What \<open>net._recv\<close> and \<open>net._send\<close> answer when they do not throw: bytes, the end of the stream, or
  would-block (-1).  \<open>send\<close> takes at least one byte of a nonempty view or fails.
\<close>

datatype received = Got "u8 list" | Eof | RBlock

datatype sent_out = Took nat | SBlock

record 'w netlib =
  net_recv :: "int \<Rightarrow> nat \<Rightarrow> 'w \<Rightarrow> (exn + received) \<times> 'w"
  net_send :: "int \<Rightarrow> u8 list \<Rightarrow> 'w \<Rightarrow> (exn + sent_out) \<times> 'w"
  net_shutwr :: "int \<Rightarrow> 'w \<Rightarrow> 'w"
  net_close :: "int \<Rightarrow> 'w \<Rightarrow> 'w"
  pol_watch_in :: "int \<Rightarrow> 'w \<Rightarrow> (exn + unit) \<times> 'w"
  pol_more_out :: "int \<Rightarrow> 'w \<Rightarrow> (exn + unit) \<times> 'w"
  behave :: "nat \<Rightarrow> sarg list \<Rightarrow> 'w sock \<Rightarrow> 'w sop list"
  exn_text :: "exn \<Rightarrow> string"   \<comment> \<open>\<open>(e && e.message) || String(e)\<close>\<close>

text \<open>The poll bits, as \<open>poll.h\<close> has them on Linux.\<close>

definition POLLIN :: u16 where "POLLIN = 1"
definition POLLOUT :: u16 where "POLLOUT = 4"
definition POLLERR :: u16 where "POLLERR = 8"
definition POLLHUP :: u16 where "POLLHUP = 16"
definition POLLNVAL :: u16 where "POLLNVAL = 32"

type_synonym 'w emitter = "string \<Rightarrow> sarg list \<Rightarrow> ('w sock, unit) js"

definition on_world :: "('w \<Rightarrow> (exn + 'a) \<times> 'w) \<Rightarrow> ('w sock, 'a) js" where
  "on_world f = (\<lambda>s. case f (sw s) of (r, w) \<Rightarrow> (r, s\<lparr>sw := w\<rparr>))"

definition on_wb :: "(buf, 'a) js \<Rightarrow> ('w sock, 'a) js" where
  "on_wb m = (\<lambda>s. case m (wb s) of (r, b) \<Rightarrow> (r, s\<lparr>wb := b\<rparr>))"

definition on_rb :: "(buf, 'a) js \<Rightarrow> ('w sock, 'a) js" where
  "on_rb m = (\<lambda>s. case m (rb s) of (r, b) \<Rightarrow> (r, s\<lparr>rb := b\<rparr>))"

definition logged :: "nsys \<Rightarrow> ('w sock, unit) js" where
  "logged x = jput (\<lambda>s. s\<lparr>sys := sys s @ [x]\<rparr>)"

section \<open>Emitter\<close>

definition emitter_on :: "string \<Rightarrow> listener \<Rightarrow> ('w sock, unit) js" where
  "emitter_on name l = jput (\<lambda>s. s\<lparr>ev := (ev s)(name \<mapsto> (case ev s name of Some a \<Rightarrow> a | None \<Rightarrow> []) @ [l])\<rparr>)"

definition emitter_off :: "string \<Rightarrow> listener \<Rightarrow> ('w sock, unit) js" where
  "emitter_off name l = jput (\<lambda>s. case ev s name of Some a \<Rightarrow> s\<lparr>ev := (ev s)(name \<mapsto> remove1 l a)\<rparr> | None \<Rightarrow> s)"

text \<open>\<open>once\<close> makes a fresh closure, which is the listener it registers and later removes.\<close>

definition emitter_once :: "string \<Rightarrow> nat \<Rightarrow> ('w sock, unit) js" where
  "emitter_once name f =
     jbind (jget onces) (\<lambda>k.
     jbind (jput (\<lambda>s. s\<lparr>onces := onces s + 1\<rparr>)) (\<lambda>_. emitter_on name (Once k f)))"

section \<open>Socket\<close>

text \<open>Both buffers are \<open>io.buf (64 << 10)\<close>.\<close>

definition new_socket :: "int \<Rightarrow> 'w \<Rightarrow> 'w sock" where
  "new_socket fd w =
     \<lparr>sw = w, sfd = fd, rb = Buf_into (replicate 65536 0), wb = Buf_into (replicate 65536 0),
      readEnded = False, ending = False, wrShut = False, closed = False,
      ev = Map.empty, onces = 0, sys = [], accepted = []\<rparr>"

definition sock_register :: "'w netlib \<Rightarrow> ('w sock, unit) js" where
  "sock_register N = jbind (jget sfd) (\<lambda>fd. on_world (pol_watch_in N fd))"

definition doClose :: "'w netlib \<Rightarrow> 'w emitter \<Rightarrow> ('w sock, unit) js" where
  "doClose N emit =
     jbind (jget closed) (\<lambda>c.
     if c then jret ()
     else jbind (jput (\<lambda>s. s\<lparr>closed := True, sw := net_close N (sfd s) (sw s)\<rparr>)) (\<lambda>_.
          jbind (logged NClose) (\<lambda>_. emit ''close'' [])))"

definition fatal :: "'w netlib \<Rightarrow> 'w emitter \<Rightarrow> string \<Rightarrow> ('w sock, unit) js" where
  "fatal N emit t = jbind (emit ''error'' [AText t]) (\<lambda>_. doClose N emit)"

text \<open>\<open>write\<close> makes room first: it shifts, and grows when that is not enough.\<close>

definition make_room :: "u8 list \<Rightarrow> ('w sock, unit) js" where
  "make_room u =
     jbind (jget (\<lambda>s. num_lt (broom (wb s)) (js_nat (length u)))) (\<lambda>backed.
     if backed then
       jbind (on_wb Buf_shift) (\<lambda>_.
       jbind (jget wb) (\<lambda>b.
       if num_lt (broom b) (js_nat (length u))
       then on_wb (Buf_grow (max (cap b * 2) (length (bview_data b) + length u)))
       else jret ()))
     else jret ())"

definition sock_write :: "'w netlib \<Rightarrow> u8 list \<Rightarrow> ('w sock, bool) js" where
  "sock_write N u =
     jbind (jget (\<lambda>s. closed s \<or> ending s)) (\<lambda>no.
     if no then jret False
     else
       jbind (make_room u) (\<lambda>_.
       jbind (on_wb (Buf_feed u)) (\<lambda>_.
       jbind (jput (\<lambda>s. s\<lparr>accepted := accepted s @ u\<rparr>)) (\<lambda>_.
       jbind (jget sfd) (\<lambda>fd.
       jbind (on_world (pol_more_out N fd)) (\<lambda>_.
       jget (\<lambda>s. num_lt (bsize (wb s)) (js_nat 262144))))))))"

definition sock_end :: "'w netlib \<Rightarrow> u8 list option \<Rightarrow> ('w sock, unit) js" where
  "sock_end N data =
     jbind (case data of Some u \<Rightarrow> jbind (sock_write N u) (\<lambda>_. jret ()) | None \<Rightarrow> jret ()) (\<lambda>_.
     jbind (jput (\<lambda>s. s\<lparr>ending := True\<rparr>)) (\<lambda>_.
     jbind (jget (\<lambda>s. (closed s, sfd s))) (\<lambda>(c, fd).
     if c then jret () else jcatch (on_world (pol_more_out N fd)) (\<lambda>_. jret ()))))"

definition sock_destroy :: "'w netlib \<Rightarrow> 'w emitter \<Rightarrow> ('w sock, unit) js" where
  "sock_destroy N emit = jbind (jput (\<lambda>s. s\<lparr>ending := True\<rparr>)) (\<lambda>_. doClose N emit)"

definition readEnd :: "'w netlib \<Rightarrow> 'w emitter \<Rightarrow> ('w sock, unit) js" where
  "readEnd N emit =
     jbind (jget readEnded) (\<lambda>r.
     if r then jret ()
     else jbind (jput (\<lambda>s. s\<lparr>readEnded := True\<rparr>)) (\<lambda>_.
          jbind (emit ''end'' []) (\<lambda>_. sock_end N None)))"

text \<open>
  The loop of \<open>_flush\<close>; every turn that goes on takes at least a byte out of the FIFO, so that its
  size bounds the turns.
\<close>

primrec flush_loop :: "nat \<Rightarrow> 'w netlib \<Rightarrow> ('w sock, unit) js" where
  "flush_loop 0 N = jret ()"
| "flush_loop (Suc k) N =
     jbind (jget (\<lambda>s. (num_lt (Fin 0) (bsize (wb s)), sfd s, bview_data (wb s)))) (\<lambda>(more, fd, data).
     if \<not> more then jret ()
     else jbind (on_world (net_send N fd data)) (\<lambda>r.
          case r of
            SBlock \<Rightarrow> jret ()
          | Took n \<Rightarrow>
              jbind (logged (NSend (take n data))) (\<lambda>_.
              jbind (on_wb (Buf_skip (js_nat n))) (\<lambda>_. flush_loop k N))))"

definition flush_drained :: "'w netlib \<Rightarrow> 'w emitter \<Rightarrow> ('w sock, unit) js" where
  "flush_drained N emit =
     jbind (on_wb Buf_reset) (\<lambda>_.
     jbind (emit ''drain'' []) (\<lambda>_.
     jbind (jget (\<lambda>s. ending s \<and> \<not> wrShut s)) (\<lambda>fin.
     if fin then
       jbind (jput (\<lambda>s. s\<lparr>wrShut := True, sw := net_shutwr N (sfd s) (sw s)\<rparr>)) (\<lambda>_. logged NShut)
     else jret ())))"

definition flush :: "'w netlib \<Rightarrow> 'w emitter \<Rightarrow> ('w sock, unit) js" where
  "flush N emit = (\<lambda>s.
     case flush_loop (length (bview_data (wb s)) + 1) N s of
       (Inl e, s') \<Rightarrow> fatal N emit (exn_text N e) s'
     | (Inr _, s') \<Rightarrow> if num_eq (bsize (wb s')) (Fin 0) then flush_drained N emit s' else (Inr (), s'))"

definition sock_mask :: "'w netlib \<Rightarrow> 'w emitter \<Rightarrow> ('w sock, u16) js" where
  "sock_mask N emit =
     jbind (jget closed) (\<lambda>c.
     if c then jret 0
     else jbind (jget (\<lambda>s. readEnded s \<and> wrShut s)) (\<lambda>both.
     if both then jbind (doClose N emit) (\<lambda>_. jret 0)
     else jget (\<lambda>s.
       let m = (if \<not> readEnded s then POLLIN else 0) OR
               (if num_lt (Fin 0) (bsize (wb s)) \<or> ending s \<and> \<not> wrShut s then POLLOUT else 0)
       in if m \<noteq> 0 then m else POLLIN)))"

text \<open>
  One readiness event.  The bytes the kernel puts into the view of the read buffer's IDLE are
  \<open>Got bs\<close>.
\<close>

definition sock_read :: "'w netlib \<Rightarrow> 'w emitter \<Rightarrow> ('w sock, bool) js" where
  "sock_read N emit =
     jbind (on_rb Buf_reset) (\<lambda>_.
     jbind (jget (\<lambda>s. (sfd s, length (bview_idle (rb s))))) (\<lambda>(fd, room).
     jbind (logged NRecv) (\<lambda>_. \<lambda>s.
       case on_world (net_recv N fd room) s of
         (Inl e, s') \<Rightarrow> jbind (fatal N emit (exn_text N e)) (\<lambda>_. jret False) s'
       | (Inr (Got bs), s') \<Rightarrow>
           jbind (on_rb (jput (\<lambda>b. b\<lparr>bytes := splice_at (bytes b) 0 bs\<rparr>))) (\<lambda>_.
           jbind (on_rb (Buf_fed (js_nat (length bs)))) (\<lambda>_.
           jbind (jget (\<lambda>s. bview_data (rb s))) (\<lambda>d.
           jbind (emit ''data'' [AData d]) (\<lambda>_. jret True)))) s'
       | (Inr Eof, s') \<Rightarrow> jbind (readEnd N emit) (\<lambda>_. jret True) s'
       | (Inr RBlock, s') \<Rightarrow> (Inr True, s'))))"

definition sock_poll :: "'w netlib \<Rightarrow> 'w emitter \<Rightarrow> u16 \<Rightarrow> ('w sock, u16) js" where
  "sock_poll N emit revents =
     (if revents AND (POLLERR OR POLLNVAL) \<noteq> 0
      then jbind (fatal N emit ''socket error'') (\<lambda>_. jret 0)
      else
        jbind (if revents AND POLLOUT \<noteq> 0 then jbind (flush N emit) (\<lambda>_. jget closed) else jret False) (\<lambda>done.
        if done then jret 0
        else
          jbind (if revents AND POLLIN \<noteq> 0 then sock_read N emit else jret True) (\<lambda>go.
          if \<not> go then jret 0
          else
            jbind (if revents AND POLLHUP \<noteq> 0 \<and> revents AND POLLIN = 0 then readEnd N emit else jret ()) (\<lambda>_.
            sock_mask N emit))))"

section \<open>Listeners\<close>

definition run_op :: "'w netlib \<Rightarrow> 'w emitter \<Rightarrow> 'w sop \<Rightarrow> ('w sock, unit) js" where
  "run_op N emit op =
     (case op of
        OpWrite u \<Rightarrow> jbind (sock_write N u) (\<lambda>_. jret ())
      | OpEnd d \<Rightarrow> sock_end N d
      | OpDestroy \<Rightarrow> sock_destroy N emit
      | OpOn n f \<Rightarrow> emitter_on n (Plain f)
      | OpOnce n f \<Rightarrow> emitter_once n f
      | OpOff n f \<Rightarrow> emitter_off n (Plain f)
      | OpWorld g \<Rightarrow> jput (\<lambda>s. s\<lparr>sw := g (sw s)\<rparr>)
      | OpThrow e \<Rightarrow> jthrow e)"

primrec run_ops :: "'w netlib \<Rightarrow> 'w emitter \<Rightarrow> 'w sop list \<Rightarrow> ('w sock, unit) js" where
  "run_ops N emit [] = jret ()"
| "run_ops N emit (op # ops) = jbind (run_op N emit op) (\<lambda>_. run_ops N emit ops)"

definition call_listener :: "'w netlib \<Rightarrow> 'w emitter \<Rightarrow> string \<Rightarrow> sarg list \<Rightarrow> listener \<Rightarrow> ('w sock, unit) js" where
  "call_listener N emit name args l =
     (case l of
        Plain f \<Rightarrow> (\<lambda>s. run_ops N emit (behave N f args s) s)
      | Once k f \<Rightarrow> jbind (emitter_off name l) (\<lambda>_ s. run_ops N emit (behave N f args s) s))"

primrec call_all :: "'w netlib \<Rightarrow> 'w emitter \<Rightarrow> string \<Rightarrow> sarg list \<Rightarrow> listener list \<Rightarrow> ('w sock, unit) js" where
  "call_all N emit name args [] = jret ()"
| "call_all N emit name args (l # ls) =
     jbind (call_listener N emit name args l) (\<lambda>_. call_all N emit name args ls)"

text \<open>\<open>emit\<close>, with \<open>d\<close> nested emits left on the stack.  The listeners called are those at its start.\<close>

primrec emit :: "nat \<Rightarrow> 'w netlib \<Rightarrow> 'w emitter" where
  "emit 0 N name args = jthrow (ThrowError ''Maximum call stack size exceeded'')"
| "emit (Suc d) N name args =
     jbind (jget (\<lambda>s. ev s name)) (\<lambda>a.
     case a of None \<Rightarrow> jret () | Some ls \<Rightarrow> call_all N (emit d N) name args ls)"

end
