(* ===== verification/SocketSafe.thy ===== *)
theory SocketSafe
  imports Socket
begin

text \<open>
  What a socket guarantees whatever its listeners do: the kernel gets the written bytes in order,
  the fd is closed once and not used for transfers afterwards.  The methods take the dispatch of
  events as an argument; its contract is the locale \<open>sock_dispatch\<close>, and the nested \<open>emit\<close>s of the
  code satisfy it by induction on the depth of the stack.
\<close>

fun sent :: "nsys list \<Rightarrow> u8 list" where
  "sent [] = []"
| "sent (NSend bs # xs) = bs @ sent xs"
| "sent (x # xs) = sent xs"

text \<open>After the close of the fd nothing but the FIN may still be tried on it.\<close>

fun calm :: "nsys list \<Rightarrow> bool" where
  "calm [] = True"
| "calm (NClose # xs) = (set xs \<subseteq> {NShut})"
| "calm (x # xs) = calm xs"

lemma sent_append [simp]: "sent (xs @ ys) = sent xs @ sent ys"
  by (induction xs rule: sent.induct) simp_all

lemma calm_append:
  "NClose \<notin> set xs \<Longrightarrow> calm (xs @ ys) = calm ys"
  by (induction xs rule: calm.induct) simp_all

lemma calm_shut: "calm xs \<Longrightarrow> calm (xs @ [NShut])"
  by (induction xs rule: calm.induct) simp_all

definition sock_ok :: "'w sock \<Rightarrow> bool" where
  "sock_ok s \<longleftrightarrow>
     buf_ok (wb s) \<and> (\<exists>rest. accepted s = sent (sys s) @ rest \<and> (\<not> closed s \<longrightarrow> rest = live (wb s))) \<and>
     (closed s \<longleftrightarrow> NClose \<in> set (sys s)) \<and> calm (sys s) \<and>
     count_list (sys s) NShut = (if wrShut s then 1 else 0)"

text \<open>What \<open>send\<close> promises: of a view it takes at least one byte and at most all.\<close>

definition net_sane :: "'w netlib \<Rightarrow> bool" where
  "net_sane N \<longleftrightarrow> (\<forall>fd data w n w'. net_send N fd data w = (Inr (Took n), w') \<longrightarrow> 0 < n \<and> n \<le> length data)"

definition sock_keeps :: "('w sock, 'a) js \<Rightarrow> bool" where
  "sock_keeps m \<longleftrightarrow> (\<forall>s. sock_ok s \<longrightarrow> sock_ok (snd (m s)))"

lemma keepsD: "sock_keeps m \<Longrightarrow> sock_ok s \<Longrightarrow> m s = (r, s') \<Longrightarrow> sock_ok s'"
  unfolding sock_keeps_def by (metis snd_conv)

named_theorems keeps_intros "computations that keep a socket in order"

lemma sock_keeps_jret [keeps_intros]: "sock_keeps (jret x)"
  by (simp add: sock_keeps_def)

lemma sock_keeps_Pair [keeps_intros]: "sock_keeps (Pair r)"
  by (simp add: sock_keeps_def)

lemma sock_keeps_jthrow [keeps_intros]: "sock_keeps (jthrow x)"
  by (simp add: sock_keeps_def)

lemma sock_keeps_jget [keeps_intros]: "sock_keeps (jget f)"
  by (simp add: sock_keeps_def)

lemma sock_keeps_jbind [keeps_intros]:
  fixes m :: "('w sock, 'a) js"
  assumes m: "sock_keeps m" and f: "\<And>x. sock_keeps (f x)"
  shows "sock_keeps (jbind m f)"
  unfolding sock_keeps_def
proof (intro allI impI)
  fix s :: "'w sock"
  assume s: "sock_ok s"
  obtain r s' where r: "m s = (r, s')" by (cases "m s")
  from keepsD [OF m s r] have "sock_ok s'" .
  with f r show "sock_ok (snd (jbind m f s))" by (cases r) (simp_all add: sock_keeps_def)
qed

lemma sock_keeps_if [keeps_intros]: "(b \<Longrightarrow> sock_keeps m) \<Longrightarrow> (\<not> b \<Longrightarrow> sock_keeps n) \<Longrightarrow> sock_keeps (if b then m else n)"
  by simp

lemma sock_keeps_option [keeps_intros]:
  "(x = None \<Longrightarrow> sock_keeps m) \<Longrightarrow> (\<And>y. x = Some y \<Longrightarrow> sock_keeps (f y)) \<Longrightarrow>
   sock_keeps (case x of None \<Rightarrow> m | Some y \<Rightarrow> f y)"
  by (cases x) auto

lemma sock_keeps_jput [keeps_intros]: "(\<And>s. sock_ok s \<Longrightarrow> sock_ok (f s)) \<Longrightarrow> sock_keeps (jput f)"
  by (simp add: sock_keeps_def)

lemma keeps_jcatch [keeps_intros]: "sock_keeps m \<Longrightarrow> (\<And>e. sock_keeps (h e)) \<Longrightarrow> sock_keeps (jcatch m h)"
  unfolding sock_keeps_def jcatch_def by (auto split: prod.splits sum.splits)

text \<open>The fields the invariant does not read.\<close>

lemma ok_irrelevant [simp]:
  "sock_ok (s\<lparr>sw := w\<rparr>) = sock_ok s" "sock_ok (s\<lparr>rb := b\<rparr>) = sock_ok s"
  "sock_ok (s\<lparr>readEnded := x\<rparr>) = sock_ok s" "sock_ok (s\<lparr>ending := x\<rparr>) = sock_ok s"
  "sock_ok (s\<lparr>ev := e\<rparr>) = sock_ok s"
  "sock_ok (s\<lparr>onces := k\<rparr>) = sock_ok s"
  by (simp_all add: sock_ok_def)

lemma keeps_on_world [keeps_intros]: "sock_keeps (on_world f)"
  by (simp add: sock_keeps_def on_world_def split: prod.splits)

lemma keeps_on_rb [keeps_intros]: "sock_keeps (on_rb m)"
  by (simp add: sock_keeps_def on_rb_def split: prod.splits)

lemma keeps_emitter [keeps_intros]:
  "sock_keeps (emitter_on n l)" "sock_keeps (emitter_off n l)" "sock_keeps (emitter_once n f)"
  by (auto simp: sock_keeps_def emitter_on_def emitter_off_def emitter_once_def jbind_def split: option.split)

section \<open>write\<close>

text \<open>
  After the shift and the growth there is room: the FIFO never refuses what \<open>write\<close> was given, and
  takes it at its end.
\<close>

lemma on_wb_eq: "m (wb s) = (r, b) \<Longrightarrow> on_wb m s = (r, s\<lparr>wb := b\<rparr>)"
  by (simp add: on_wb_def)

lemma live_regrown:
  assumes "buf_at b 0 i" and "cap b \<le> n"
  shows "buf_at (snd (Buf_grow n b)) 0 i" "live (snd (Buf_grow n b)) = live b" "cap (snd (Buf_grow n b)) = n"
proof -
  note at = buf_at_simps [OF assms(1)]
  let ?bs = "splice_at (replicate n 0) 0 (take i (bytes b))"
  have g: "snd (Buf_grow n b) = (if n \<le> cap b then b else b\<lparr>bytes := ?bs, cap := n\<rparr>)"
    using at assms by (simp add: Buf_grow_def ta_nat Fin_0_nat)
  have len: "length ?bs = n" using at assms(2) by simp
  show "buf_at (snd (Buf_grow n b)) 0 i"
    using g len at assms by (auto intro!: buf_atI)
  note at' = buf_at_simps [OF this]
  have "take i ?bs = take i (bytes b)"
    using take_splice_at_all [of 0 "replicate n 0" "take i (bytes b)"] at by simp
  then show "live (snd (Buf_grow n b)) = live b" using g at at' by (simp split: if_splits)
  show "cap (snd (Buf_grow n b)) = n" using g assms(2) by simp
qed

lemma make_room_result:
  assumes "buf_ok (wb s)"
  shows "\<exists>b d i. make_room u s = (Inr (), s\<lparr>wb := b\<rparr>) \<and> buf_at b d i \<and> length u \<le> cap b - i \<and> live b = live (wb s)"
proof -
  obtain d i where at: "buf_at (wb s) d i" using assms by (auto simp: buf_ok_def)
  note bs = buf_at_simps [OF at]
  show ?thesis
  proof (cases "cap (wb s) - i < length u")
    case False
    then have "make_room u s = (Inr (), s\<lparr>wb := wb s\<rparr>)" using bs by (simp add: make_room_def)
    with at False show ?thesis by (metis not_less)
  next
    case True
    let ?b = "snd (Buf_shift (wb s))"
    note sh = live_shift [OF at]
    note bs' = buf_at_simps [OF sh(1)]
    have shift: "on_wb Buf_shift s = (Inr (), s\<lparr>wb := ?b\<rparr>)" by (simp add: on_wb_def Buf_shift_at [OF at])
    show ?thesis
    proof (cases "cap ?b - (i - d) < length u")
      case False
      then have "make_room u s = (Inr (), s\<lparr>wb := ?b\<rparr>)"
        using True bs bs' shift by (simp add: make_room_def)
      with sh False show ?thesis by (metis not_less)
    next
      case more: True
      let ?n = "max (cap ?b * 2) (length (bview_data ?b) + length u)"
      let ?g = "snd (Buf_grow ?n ?b)"
      have n: "cap ?b \<le> ?n" by simp
      note gr = live_regrown [OF sh(1) n]
      have len: "length (bview_data ?b) = i - d" using length_live [OF sh(1)] by (simp add: live_def)
      have "Buf_grow ?n (wb (s\<lparr>wb := ?b\<rparr>)) = (Inr (), ?g)" by (simp add: Buf_grow_def)
      then have "on_wb (Buf_grow ?n) (s\<lparr>wb := ?b\<rparr>) = (Inr (), (s\<lparr>wb := ?b\<rparr>)\<lparr>wb := ?g\<rparr>)" by (rule on_wb_eq)
      then have "on_wb (Buf_grow ?n) (s\<lparr>wb := ?b\<rparr>) = (Inr (), s\<lparr>wb := ?g\<rparr>)" by simp
      then have "make_room u s = (Inr (), s\<lparr>wb := ?g\<rparr>)"
        using True more bs bs' shift by (simp add: make_room_def)
      moreover have "length u \<le> cap ?g - (i - d)" using gr(3) len by simp
      ultimately show ?thesis using gr(1,2) sh(2) by metis
    qed
  qed
qed

text \<open>What a write does to the FIFO, up to the call of \<open>pol.more\<close>.\<close>

lemma write_takes:
  assumes "buf_ok (wb s)" and "\<not> closed s" and "\<not> ending s"
  shows "\<exists>b. buf_ok b \<and> live b = live (wb s) @ u \<and>
    sock_write N u s = jbind (on_world (pol_more_out N (sfd s)))
      (\<lambda>_. jget (\<lambda>s. num_lt (bsize (wb s)) (js_nat 262144))) (s\<lparr>wb := b, accepted := accepted s @ u\<rparr>)"
proof -
  obtain b d i where b: "make_room u s = (Inr (), s\<lparr>wb := b\<rparr>)" "buf_at b d i" "length u \<le> cap b - i"
    "live b = live (wb s)"
    using make_room_result [OF assms(1)] by blast
  let ?b = "b\<lparr>bytes := splice_at (bytes b) i u, bidle := js_nat (i + length u)\<rparr>"
  have "on_wb (Buf_feed u) (s\<lparr>wb := b\<rparr>) = (Inr (length u), s\<lparr>wb := ?b\<rparr>)"
    using Buf_feed_at [OF b(2), of u] b(3) by (simp add: on_wb_def)
  then have "sock_write N u s = jbind (on_world (pol_more_out N (sfd s)))
      (\<lambda>_. jget (\<lambda>s. num_lt (bsize (wb s)) (js_nat 262144))) (s\<lparr>wb := ?b, accepted := accepted s @ u\<rparr>)"
    using assms b(1) by (simp add: sock_write_def)
  moreover have "buf_ok ?b" "live ?b = live (wb s) @ u"
    using live_feed [OF b(2,3)] b(4) by (auto intro: buf_at_ok)
  ultimately show ?thesis by blast
qed

lemma keeps_write [keeps_intros]: "sock_keeps (sock_write N u)"
  unfolding sock_keeps_def
proof (intro allI impI)
  fix s :: "'a sock"
  assume s: "sock_ok s"
  show "sock_ok (snd (sock_write N u s))"
  proof (cases "closed s \<or> ending s")
    case True
    with s show ?thesis by (simp add: sock_write_def)
  next
    case False
    with s obtain b where b: "buf_ok b" "live b = live (wb s) @ u"
      "sock_write N u s = jbind (on_world (pol_more_out N (sfd s)))
        (\<lambda>_. jget (\<lambda>s. num_lt (bsize (wb s)) (js_nat 262144))) (s\<lparr>wb := b, accepted := accepted s @ u\<rparr>)"
      using write_takes [of s u N] by (auto simp: sock_ok_def)
    have "sock_ok (s\<lparr>wb := b, accepted := accepted s @ u\<rparr>)"
      using s b(1,2) False by (auto simp: sock_ok_def)
    moreover have "sock_keeps (jbind (on_world (pol_more_out N (sfd s)))
        (\<lambda>_. jget (\<lambda>s :: 'a sock. num_lt (bsize (wb s)) (js_nat 262144))))"
      by (intro keeps_intros)
    ultimately show ?thesis unfolding b(3) sock_keeps_def by blast
  qed
qed

lemma keeps_end [keeps_intros]: "sock_keeps (sock_end N d)"
  unfolding sock_end_def case_prod_unfold
  by (intro keeps_intros) (cases d; auto intro!: keeps_intros)+

section \<open>flush\<close>

lemma send_ok:
  assumes "sock_ok s" and "\<not> closed s" and "n \<le> length (live (wb s))"
  shows "\<exists>b. jbind (logged (NSend (take n (live (wb s))))) (\<lambda>_. on_wb (Buf_skip (js_nat n))) s =
      (Inr (), s\<lparr>wb := b, sys := sys s @ [NSend (take n (live (wb s)))]\<rparr>) \<and> live b = drop n (live (wb s)) \<and>
    sock_ok (s\<lparr>wb := b, sys := sys s @ [NSend (take n (live (wb s)))]\<rparr>)"
proof -
  obtain d i where at: "buf_at (wb s) d i" using assms(1) by (auto simp: sock_ok_def buf_ok_def)
  have n: "n \<le> i - d" using assms(3) length_live [OF at] by simp
  let ?b = "wb s\<lparr>bdata := js_nat (d + n)\<rparr>"
  note sk = live_skip [OF at n]
  have "Buf_skip (js_nat n) (wb s) = (Inr (), ?b)" using Buf_skip_at [OF at, of n] n by simp
  then have "jbind (logged (NSend (take n (live (wb s))))) (\<lambda>_. on_wb (Buf_skip (js_nat n))) s =
      (Inr (), s\<lparr>wb := ?b, sys := sys s @ [NSend (take n (live (wb s)))]\<rparr>)"
    by (simp add: logged_def on_wb_def)
  moreover have "sock_ok (s\<lparr>wb := ?b, sys := sys s @ [NSend (take n (live (wb s)))]\<rparr>)"
    using assms(1,2) sk by (auto simp: sock_ok_def calm_append intro: buf_at_ok)
  ultimately show ?thesis using sk(2) by blast
qed

lemma flush_loop_ok:
  assumes "net_sane N"
  shows "sock_ok s \<Longrightarrow> \<not> closed s \<Longrightarrow> flush_loop k N s = (r, s') \<Longrightarrow> sock_ok s' \<and> \<not> closed s'"
proof (induction k arbitrary: s)
  case (Suc k)
  let ?data = "bview_data (wb s)"
  show ?case
  proof (cases "num_lt (Fin 0) (bsize (wb s))")
    case False
    with Suc.prems show ?thesis by auto
  next
    case more: True
    obtain q w where q: "net_send N (sfd s) ?data (sw s) = (q, w)" by fastforce
    then have world: "on_world (net_send N (sfd s) ?data) s = (q, s\<lparr>sw := w\<rparr>)" by (simp add: on_world_def)
    consider e where "q = Inl e" | "q = Inr SBlock" | n where "q = Inr (Took n)"
      by (metis sent_out.exhaust sum.exhaust)
    then show ?thesis
    proof cases
      case (3 n)
      have n: "n \<le> length ?data" using assms q 3 unfolding net_sane_def by blast
      let ?s = "s\<lparr>sw := w\<rparr>"
      have ok: "sock_ok ?s" "\<not> closed ?s" using Suc.prems by simp_all
      from send_ok [OF ok, of n] n obtain b where
        b: "jbind (logged (NSend (take n (live (wb ?s))))) (\<lambda>_. on_wb (Buf_skip (js_nat n))) ?s =
          (Inr (), ?s\<lparr>wb := b, sys := sys ?s @ [NSend (take n (live (wb ?s)))]\<rparr>)"
        "sock_ok (?s\<lparr>wb := b, sys := sys ?s @ [NSend (take n (live (wb ?s)))]\<rparr>)"
        by (auto simp: live_def)
      let ?log = "logged (NSend (take n (live (wb ?s))))" and ?skip = "on_wb (Buf_skip (js_nat n))"
      have "flush_loop (Suc k) N s = jbind (jbind ?log (\<lambda>_. ?skip)) (\<lambda>_. flush_loop k N) ?s"
        using more world 3 by (simp add: live_def jbind_assoc)
      also have "\<dots> = flush_loop k N (?s\<lparr>wb := b, sys := sys ?s @ [NSend (take n (live (wb ?s)))]\<rparr>)"
        using b(1) by (rule jbind_Inr)
      finally have "flush_loop (Suc k) N s =
        flush_loop k N (?s\<lparr>wb := b, sys := sys ?s @ [NSend (take n (live (wb ?s)))]\<rparr>)" .
      with Suc.IH [OF b(2)] Suc.prems ok show ?thesis by simp
    qed (use more world Suc.prems in auto)
  qed
qed simp

text \<open>
  An empty FIFO may be reset; the FIN is sent once, and may be sent even after the close.
\<close>

lemma reset_ok: "sock_ok s \<Longrightarrow> num_eq (bsize (wb s)) (Fin 0) \<Longrightarrow> sock_ok (snd (on_wb Buf_reset s))"
proof -
  assume s: "sock_ok s" and empty: "num_eq (bsize (wb s)) (Fin 0)"
  obtain d i where at: "buf_at (wb s) d i" using s by (auto simp: sock_ok_def buf_ok_def)
  note bs = buf_at_simps [OF at]
  let ?b = "wb s\<lparr>bdata := Fin 0, bidle := Fin 0\<rparr>"
  have at': "buf_at ?b 0 0" using bs by (auto intro!: buf_atI simp: Fin_0_nat)
  have "live ?b = live (wb s)" using buf_at_simps(9) [OF at'] bs empty by (simp add: Fin_0_nat)
  moreover have "snd (on_wb Buf_reset s) = s\<lparr>wb := ?b\<rparr>" by (simp add: on_wb_def Buf_reset_def)
  ultimately show ?thesis using s buf_at_ok [OF at'] by (auto simp: sock_ok_def)
qed

lemma shut_ok:
  "sock_keeps (jbind (jget (\<lambda>s. ending s \<and> \<not> wrShut s)) (\<lambda>fin.
     if fin then
       jbind (jput (\<lambda>s. s\<lparr>wrShut := True, sw := net_shutwr N (sfd s) (sw s)\<rparr>)) (\<lambda>_. logged NShut)
     else jret ()))"
  by (auto simp: sock_keeps_def sock_ok_def calm_shut logged_def jbind_def)

section \<open>The methods, over a dispatch of events that sock_keeps the socket in order\<close>

locale sock_dispatch =
  fixes N :: "'w netlib" and emt :: "'w emitter"
  assumes emit_ok: "net_sane N \<Longrightarrow> sock_keeps (emt name args)"
begin

lemma close_ok: "net_sane N \<Longrightarrow> sock_keeps (doClose N emt)"
  unfolding sock_keeps_def
proof (intro allI impI)
  fix s :: "'w sock"
  assume sane: "net_sane N" and s: "sock_ok s"
  let ?s = "s\<lparr>closed := True, sw := net_close N (sfd s) (sw s), sys := sys s @ [NClose]\<rparr>"
  have "sock_ok ?s" if "\<not> closed s" using s that by (auto simp: sock_ok_def calm_append)
  moreover have "doClose N emt s = (if closed s then (Inr (), s) else emt ''close'' [] ?s)"
    by (simp add: doClose_def logged_def)
  ultimately show "sock_ok (snd (doClose N emt s))"
    using s emit_ok [OF sane] by (simp add: sock_keeps_def)
qed

lemma fatal_ok: "net_sane N \<Longrightarrow> sock_keeps (fatal N emt t)"
  unfolding fatal_def by (intro keeps_intros emit_ok close_ok)

lemma destroy_ok: "net_sane N \<Longrightarrow> sock_keeps (sock_destroy N emt)"
  unfolding sock_destroy_def by (intro keeps_intros close_ok) simp_all

lemma readEnd_ok: "net_sane N \<Longrightarrow> sock_keeps (readEnd N emt)"
  unfolding readEnd_def by (intro keeps_intros emit_ok) simp_all

lemma drained_ok:
  assumes "net_sane N" and "sock_ok s" and "num_eq (bsize (wb s)) (Fin 0)"
  shows "sock_ok (snd (flush_drained N emt s))"
proof -
  let ?rest = "jbind (emt ''drain'' []) (\<lambda>_.
     jbind (jget (\<lambda>s. ending s \<and> \<not> wrShut s)) (\<lambda>fin.
     if fin then
       jbind (jput (\<lambda>s. s\<lparr>wrShut := True, sw := net_shutwr N (sfd s) (sw s)\<rparr>)) (\<lambda>_. logged NShut)
     else jret ()))"
  have "sock_keeps ?rest"
    by (rule sock_keeps_jbind [OF emit_ok [OF assms(1)] shut_ok])
  moreover have "flush_drained N emt s = ?rest (snd (on_wb Buf_reset s))"
    by (simp add: flush_drained_def on_wb_def Buf_reset_def)
  ultimately show ?thesis using reset_ok [OF assms(2,3)] by (simp add: sock_keeps_def)
qed

lemma flush_ok:
  assumes "net_sane N" and "sock_ok s" and "\<not> closed s"
  shows "sock_ok (snd (flush N emt s))"
proof -
  obtain r t where r: "flush_loop (length (bview_data (wb s)) + 1) N s = (r, t)" by fastforce
  with flush_loop_ok [OF assms] have t: "sock_ok t" by blast
  show ?thesis
  proof (cases r)
    case (Inl e)
    with r t fatal_ok [OF assms(1)] show ?thesis by (simp add: flush_def sock_keeps_def del: flush_loop.simps)
  next
    case (Inr u)
    with r t drained_ok [OF assms(1) t] show ?thesis by (simp add: flush_def del: flush_loop.simps)
  qed
qed

lemma read_ok:
  assumes "net_sane N" and "sock_ok s" and "\<not> closed s"
  shows "sock_ok (snd (sock_read N emt s))"
proof -
  let ?s = "(snd (on_rb Buf_reset s))\<lparr>sys := sys s @ [NRecv]\<rparr>"
  let ?fd = "sfd s" and ?room = "length (bview_idle (rb ?s))"
  have ok: "sock_ok ?s" using assms(2,3) by (auto simp: sock_ok_def on_rb_def Buf_reset_def calm_append)
  obtain r w where r: "net_recv N ?fd ?room (sw ?s) = (r, w)" by fastforce
  let ?t = "?s\<lparr>sw := w\<rparr>"
  have t: "sock_ok ?t" using ok by simp
  have eq: "sock_read N emt s =
     (case r of Inl e \<Rightarrow> jbind (fatal N emt (exn_text N e)) (\<lambda>_. jret False) ?t
      | Inr (Got bs) \<Rightarrow>
           jbind (on_rb (jput (\<lambda>b. b\<lparr>bytes := splice_at (bytes b) 0 bs\<rparr>))) (\<lambda>_.
           jbind (on_rb (Buf_fed (js_nat (length bs)))) (\<lambda>_.
           jbind (jget (\<lambda>s. bview_data (rb s))) (\<lambda>d.
           jbind (emt ''data'' [AData d]) (\<lambda>_. jret True)))) ?t
      | Inr Eof \<Rightarrow> jbind (readEnd N emt) (\<lambda>_. jret True) ?t
      | Inr RBlock \<Rightarrow> (Inr True, ?t))"
    using r by (simp add: sock_read_def on_rb_def Buf_reset_def logged_def on_world_def jbind_def split: sum.split received.split)
  have "sock_keeps (jbind (fatal N emt (exn_text N e)) (\<lambda>_. jret False))"
    "sock_keeps (jbind (on_rb (jput (\<lambda>b. b\<lparr>bytes := splice_at (bytes b) 0 bs\<rparr>))) (\<lambda>_.
           jbind (on_rb (Buf_fed (js_nat (length bs)))) (\<lambda>_.
           jbind (jget (\<lambda>s. bview_data (rb s))) (\<lambda>d.
           jbind (emt ''data'' [AData d]) (\<lambda>_. jret True)))))"
    "sock_keeps (jbind (readEnd N emt) (\<lambda>_. jret True))" for e bs
    by (intro keeps_intros fatal_ok [OF assms(1)] readEnd_ok [OF assms(1)] emit_ok [OF assms(1)])+
  with t show ?thesis unfolding eq by (auto simp: sock_keeps_def split: sum.split received.split)
qed

lemma mask_ok: "net_sane N \<Longrightarrow> sock_keeps (sock_mask N emt)"
  unfolding sock_mask_def by (intro keeps_intros close_ok)

lemma poll_ok:
  assumes "net_sane N" and "sock_ok s" and "\<not> closed s"
  shows "sock_ok (snd (sock_poll N emt revents s))"
proof (cases "revents AND (POLLERR OR POLLNVAL) \<noteq> 0")
  case True
  have "sock_keeps (jbind (fatal N emt ''socket error'') (\<lambda>_. jret (0 :: u16)))"
    by (intro keeps_intros fatal_ok [OF assms(1)])
  with True assms(2) show ?thesis by (simp add: sock_poll_def sock_keeps_def)
next
  case False
  let ?hup = "if revents AND POLLHUP \<noteq> 0 \<and> revents AND POLLIN = 0 then readEnd N emt else jret ()"
  let ?go_on = "\<lambda>go. if \<not> go then jret 0 else jbind ?hup (\<lambda>_. sock_mask N emt)"
  let ?in = "if revents AND POLLIN \<noteq> 0 then sock_read N emt else jret True"
  have tail: "sock_keeps (?go_on go)" for go
    by (intro keeps_intros readEnd_ok [OF assms(1)] mask_ok [OF assms(1)])
  have rest: "sock_ok (snd ((if done then jret 0 else jbind ?in ?go_on) t))"
    if "sock_ok t" "\<not> done \<longrightarrow> \<not> closed t" for t "done"
  proof (cases "done")
    case False
    obtain r t' where r: "?in t = (r, t')" by fastforce
    then have "sock_ok t'"
      using read_ok [OF assms(1) that(1)] that(2) False that(1) by (auto split: if_splits)
    with r tail False show ?thesis by (cases r) (simp_all add: sock_keeps_def)
  qed (use that in simp)
  let ?out = "if revents AND POLLOUT \<noteq> 0 then jbind (flush N emt) (\<lambda>_. jget closed) else jret False"
  obtain r t where r: "?out s = (r, t)" by fastforce
  have "sock_ok t \<and> (\<forall>c. r = Inr c \<longrightarrow> \<not> c \<longrightarrow> \<not> closed t)"
  proof (cases "revents AND POLLOUT \<noteq> 0")
    case True
    obtain q u where q: "flush N emt s = (q, u)" by fastforce
    then have "sock_ok u" using flush_ok [OF assms] by simp
    with q True r show ?thesis by (cases q) auto
  next
    case out: False
    with r assms show ?thesis by auto
  qed
  moreover have "sock_poll N emt revents s = jbind ?out (\<lambda>done. if done then jret 0 else jbind ?in ?go_on) s"
    using False by (simp add: sock_poll_def)
  ultimately show ?thesis using r rest by (cases r) auto
qed

lemma run_op_ok: "net_sane N \<Longrightarrow> sock_keeps (run_op N emt op)"
  unfolding run_op_def by (cases op) (auto intro!: keeps_intros destroy_ok)

lemma run_ops_ok: "net_sane N \<Longrightarrow> sock_keeps (run_ops N emt ops)"
  by (induction ops) (auto intro!: keeps_intros run_op_ok)

lemma call_all_ok: "net_sane N \<Longrightarrow> sock_keeps (call_all N emt name args ls)"
proof (induction ls)
  case (Cons l ls)
  have prog: "sock_keeps (\<lambda>s. run_ops N emt (behave N f args s) s)" for f
    using run_ops_ok [OF Cons.prems] by (simp add: sock_keeps_def)
  have "sock_keeps (call_listener N emt name args l)"
    unfolding call_listener_def by (cases l) (auto intro!: keeps_intros prog)
  with Cons show ?case by (auto intro!: keeps_intros)
qed (simp add: keeps_intros)

end

text \<open>The nested emits of the code keep the contract, by induction on the stack that is left.\<close>

lemma emit_dispatch: "sock_dispatch N (emit d N)"
proof (induction d)
  case 0
  show ?case by unfold_locales (simp add: sock_keeps_def)
next
  case (Suc d)
  show ?case
  proof
    fix name args
    assume "net_sane N"
    then show "sock_keeps (emit (Suc d) N name args)"
      unfolding emit.simps by (intro keeps_intros sock_dispatch.call_all_ok [OF Suc])
  qed
qed

interpretation stack: sock_dispatch N "emit d N" for N d
  by (rule emit_dispatch)

section \<open>Runs of a socket\<close>

text \<open>
  What happens to a registered socket: the program calls a method (or does something else) from the
  top level, and the loop reports readiness while the socket is open.
\<close>

inductive sock_runs :: "'w netlib \<Rightarrow> int \<Rightarrow> 'w sock \<Rightarrow> bool" for N fd where
  start: "sock_runs N fd (new_socket fd w)"
| program: "sock_runs N fd s \<Longrightarrow> run_ops N (emit d N) ops s = (r, s') \<Longrightarrow> sock_runs N fd s'"
| ready: "sock_runs N fd s \<Longrightarrow> \<not> closed s \<Longrightarrow> sock_poll N (emit d N) revents s = (r, s') \<Longrightarrow> sock_runs N fd s'"

lemma new_socket_ok: "sock_ok (new_socket fd w)"
proof -
  have at: "buf_at (Buf_into (replicate 65536 0)) 0 0" by (rule Buf_into_at)
  then have "live (Buf_into (replicate 65536 0)) = []" using length_live by fastforce
  then show ?thesis using buf_at_ok [OF at] by (simp add: sock_ok_def new_socket_def)
qed

lemma sock_runs_ok:
  assumes "net_sane N"
  shows "sock_runs N fd s \<Longrightarrow> sock_ok s"
proof (induction rule: sock_runs.induct)
  case (start w)
  show ?case by (rule new_socket_ok)
next
  case (program s d ops r s')
  from keepsD [OF stack.run_ops_ok [OF assms] program.IH program.hyps(2)] show ?case .
next
  case (ready s d revents r s')
  from stack.poll_ok [OF assms ready.IH ready.hyps(2), of d revents] ready.hyps(3) show ?case by simp
qed

section \<open>Properties\<close>

text \<open>
  C6: the byte stream of a socket.  Whatever the listeners do, what the kernel took is a prefix of
  what \<open>write\<close> accepted, byte for byte and in order, and while the socket is open the rest is exactly
  the content of the write FIFO: nothing is lost, repeated or reordered, at any size of the FIFO and
  however the kernel splits the transfers.
\<close>

theorem stream_in_order:
  assumes "net_sane N" and "sock_runs N fd s"
  shows "\<exists>rest. accepted s = sent (sys s) @ rest \<and> (\<not> closed s \<longrightarrow> rest = live (wb s))"
  using sock_runs_ok [OF assms] unfolding sock_ok_def by blast

text \<open>
  A kernel that takes two bytes at a time, a listener 1 that writes the byte 9 and ends, a listener
  2 that destroys the socket.
\<close>

definition two_bytes :: "nat netlib" where
  "two_bytes = \<lparr>net_recv = \<lambda>fd n w. (Inr RBlock, w),
     net_send = \<lambda>fd data w. if data = [] then (Inr SBlock, w) else (Inr (Took (min 2 (length data))), w),
     net_shutwr = \<lambda>fd w. w, net_close = \<lambda>fd w. w + 1,
     pol_watch_in = \<lambda>fd w. (Inr (), w), pol_more_out = \<lambda>fd w. (Inr (), w),
     behave = \<lambda>f args s. if f = 1 then [OpWrite [9], OpEnd None] else if f = 2 then [OpDestroy] else [],
     exn_text = \<lambda>e. ''error''\<rparr>"

lemma two_bytes_sane: "net_sane two_bytes"
  by (auto simp: net_sane_def two_bytes_def split: if_splits)

theorem stream_in_order_witness:
  "\<exists>rest. accepted (snd (run_ops two_bytes (emit 1 two_bytes) [OpWrite [1, 2, 3]] (new_socket 5 0))) =
     sent (sys (snd (run_ops two_bytes (emit 1 two_bytes) [OpWrite [1, 2, 3]] (new_socket 5 0)))) @ rest"
proof -
  obtain r s where s: "run_ops two_bytes (emit 1 two_bytes) [OpWrite [1, 2, 3]] (new_socket 5 0) = (r, s)"
    by fastforce
  from sock_runs.program [OF sock_runs.start this] have "sock_runs two_bytes 5 s" .
  from stream_in_order [OF two_bytes_sane this] s show ?thesis by auto
qed

text \<open>
  C11: the fd of a socket is closed at most once, exactly when the socket is marked closed; no byte is
  received or sent on its number afterwards; and the write side is shut down at most once, exactly
  when it is marked shut, however the listeners of \<open>error\<close>, \<open>close\<close>, \<open>end\<close>, \<open>data\<close> and \<open>drain\<close> re-enter its
  methods.  The loop is assumed to deliver no event to a closed socket, which holds when the close
  happens inside an event (\<open>_poll\<close> answers 0); after a \<open>destroy\<close> from elsewhere it does not
  (\<open>destroyed_socket_reads\<close>).
\<close>

theorem fd_closed_once:
  assumes "net_sane N" and "sock_runs N fd s"
  shows "count_list (sys s) NClose = (if closed s then 1 else 0) \<and>
    count_list (sys s) NShut = (if wrShut s then 1 else 0) \<and>
    (\<forall>before after. sys s = before @ NClose # after \<longrightarrow> set after \<subseteq> {NShut})"
proof (intro conjI allI impI)
  note ok = sock_runs_ok [OF assms]
  show "count_list (sys s) NShut = (if wrShut s then 1 else 0)" using ok by (simp add: sock_ok_def)
  have "calm xs \<Longrightarrow> count_list xs NClose = (if NClose \<in> set xs then 1 else 0)" for xs
    by (induction xs rule: calm.induct) (auto simp: count_list_0_iff)
  then show "count_list (sys s) NClose = (if closed s then 1 else 0)" using ok by (simp add: sock_ok_def)
  fix before after
  assume "sys s = before @ NClose # after"
  with ok have "calm (before @ NClose # after)" by (simp add: sock_ok_def)
  then show "set after \<subseteq> {NShut}" by (induction before rule: calm.induct) auto
qed

theorem fd_closed_once_witness:
  "\<exists>t. t = snd (run_ops two_bytes (emit (Suc (Suc 0)) two_bytes) [OpOn ''close'' 2, OpDestroy] (new_socket 5 0)) \<and>
     sys t = [NClose] \<and> closed t \<and> \<not> wrShut t"
proof -
  let ?m = "run_ops two_bytes (emit (Suc (Suc 0)) two_bytes) [OpOn ''close'' 2, OpDestroy]"
  obtain r s where s: "?m (new_socket 5 0) = (r, s)" by fastforce
  have "sys (snd (?m (new_socket 5 0))) = [NClose]"
    by (simp add: run_op_def emitter_on_def sock_destroy_def doClose_def logged_def new_socket_def jbind_def
        call_listener_def two_bytes_def)
  with s have sys: "sys s = [NClose]" by simp
  from sock_runs.program [OF sock_runs.start s] have "sock_runs two_bytes 5 s" .
  note f = fd_closed_once [OF two_bytes_sane this]
  have "closed s" using conjunct1 [OF f] unfolding sys by (cases "closed s") simp_all
  moreover have "\<not> wrShut s" using conjunct1 [OF conjunct2 [OF f]] unfolding sys by (cases "wrShut s") simp_all
  ultimately show ?thesis using s sys by simp
qed

text \<open>
  C30: the FIN can overtake the data.  When the FIFO has run empty and the listener of \<open>drain\<close> writes
  the last bytes and ends the socket, as a program that feeds a socket from its drains does, \<open>_flush\<close>
  goes on to half-close the connection at once, with those bytes, which \<open>write\<close> accepted, still in
  the FIFO.
\<close>

theorem fin_overtakes_the_data:
  assumes "sock_ok s" and "\<not> closed s" and "\<not> ending s" and "\<not> wrShut s"
    and "num_eq (bsize (wb s)) (Fin 0)" and "ev s ''drain'' = Some [Plain f]"
    and "\<And>t. behave N f [] t = [OpWrite u, OpEnd None]" and "\<And>fd w. fst (pol_more_out N fd w) = Inr ()"
  shows "\<exists>s'. flush_drained N (emit (Suc d) N) s = (Inr (), s') \<and> sys s' = sys s @ [NShut] \<and>
    \<not> closed s' \<and> live (wb s') = u \<and> accepted s' = accepted s @ u"
proof -
  let ?b = "wb s\<lparr>bdata := Fin 0, bidle := Fin 0\<rparr>"
  let ?t = "s\<lparr>wb := ?b\<rparr>"
  have t: "on_wb Buf_reset s = (Inr (), ?t)" by (simp add: on_wb_def Buf_reset_def)
  have ok: "sock_ok ?t" using reset_ok [OF assms(1,5)] t by simp
  then have "buf_ok ?b" by (simp add: sock_ok_def)
  have at: "buf_at ?b 0 0"
    using assms(1) buf_at_simps(5) by (auto intro!: buf_atI simp: Fin_0_nat sock_ok_def buf_ok_def buf_at_def)
  have empty: "live ?b = []" using length_live [OF at] by simp
  have more: "on_world (pol_more_out N fd) v = (Inr (), v\<lparr>sw := snd (pol_more_out N fd (sw v))\<rparr>)" for fd v
    using assms(8) [of fd "sw v"] by (cases "pol_more_out N fd (sw v)") (simp add: on_world_def)
  obtain b where b: "live b = u" "sock_write N u ?t = jbind (on_world (pol_more_out N (sfd ?t)))
      (\<lambda>_. jget (\<lambda>s. num_lt (bsize (wb s)) (js_nat 262144))) (?t\<lparr>wb := b, accepted := accepted s @ u\<rparr>)"
    using write_takes [of ?t u N] \<open>buf_ok ?b\<close> assms(2,3) empty by auto
  then show ?thesis
    using assms(2,4,6,7) t
    by (simp add: flush_drained_def call_listener_def run_op_def more sock_end_def jcatch_def logged_def)
qed

definition drained_socket :: "nat sock" where
  "drained_socket = (new_socket 5 0)\<lparr>ev := [''drain'' \<mapsto> [Plain 1]]\<rparr>"

theorem fin_overtakes_the_data_witness:
  "\<exists>s'. flush_drained two_bytes (emit 4 two_bytes) drained_socket = (Inr (), s') \<and>
     sys s' = [NShut] \<and> live (wb s') = [9]"
proof -
  have ok: "sock_ok drained_socket" by (simp add: drained_socket_def new_socket_ok)
  have flags: "\<not> closed drained_socket" "\<not> ending drained_socket" "\<not> wrShut drained_socket"
    "num_eq (bsize (wb drained_socket)) (Fin 0)" "ev drained_socket ''drain'' = Some [Plain 1]" "sys drained_socket = []"
    using buf_at_simps(6) [OF Buf_into_at, of "replicate 65536 0"]
    by (simp_all add: drained_socket_def new_socket_def Fin_0_nat)
  have "fst (pol_more_out two_bytes fd w) = Inr ()" "behave two_bytes 1 [] t = [OpWrite [9], OpEnd None]" for fd w t
    by (simp_all add: two_bytes_def)
  from fin_overtakes_the_data [OF ok flags(1-5) this(2,1), of 3] flags(6) show ?thesis
    by (auto simp: numeral_eq_Suc)
qed

text \<open>
  The same turn half-closes the number of a closed fd, when the listener of \<open>drain\<close> destroys the
  socket; and an event that the loop still reports for a destroyed socket (\<open>destroy\<close> does not unwatch)
  reads from the number of the closed fd.
\<close>

lemma shut_after_close:
  assumes "\<not> closed s" and "\<not> wrShut s" and "ev s ''drain'' = Some [Plain f]" and "ev s ''close'' = None"
    and "\<And>t. behave N f [] t = [OpDestroy]"
  shows "sys (snd (flush_drained N (emit (Suc (Suc d)) N) s)) = sys s @ [NClose, NShut]"
  using assms
  by (simp add: flush_drained_def on_wb_def Buf_reset_def call_listener_def run_op_def sock_destroy_def
      doClose_def logged_def jbind_def)

lemma destroyed_socket_reads:
  assumes "closed s" and "\<And>n w. fst (net_recv N (sfd s) n w) = Inr RBlock"
  shows "sys (snd (sock_poll N emt POLLIN s)) = sys s @ [NRecv]"
proof -
  have bits: "POLLIN AND (POLLERR OR POLLNVAL) = 0" "POLLIN AND POLLOUT = 0" "POLLIN \<noteq> 0"
    "POLLIN AND POLLHUP = 0"
    by (simp_all add: POLLIN_def POLLERR_def POLLNVAL_def POLLOUT_def POLLHUP_def)
  have recv: "on_world (net_recv N (sfd s) n) t = (Inr RBlock, t\<lparr>sw := snd (net_recv N (sfd s) n (sw t))\<rparr>)" for n t
    using assms(2) [of n "sw t"] by (cases "net_recv N (sfd s) n (sw t)") (simp add: on_world_def)
  show ?thesis
    using assms(1)
    by (simp add: sock_poll_def bits sock_read_def on_rb_def Buf_reset_def logged_def recv sock_mask_def)
qed

end
