(* ===== verification/Fsw.thy ===== *)
theory Fsw
  imports Lanes Utf8
begin

text \<open>
  The directory watcher, \<open>fsw.c\<close>: the leaf that drains the kernel's events into a caller's Buf as
  packed records, and the bundle that parses them and calls the handler of each watched directory.
  libabc's \<open>FSW\<close> module and its feeders are the fields of \<open>fswlib\<close>; in the bundle the leaves are
  calls of \<open>fswjs\<close>, and a handler may do anything to the state, the bundle's variables included.
\<close>

section \<open>The leaves\<close>

text \<open>
  \<open>FSWDrain\<close> reads the queued events and hands each, a watch descriptor and a name, to the callback,
  until the callback answers with a code, which is then its own; after the last event it answers with
  the code given here.
\<close>

record 'w fswlib =
  FSWInit :: "'w \<Rightarrow> (ok64 \<times> int) \<times> 'w"
  FSWDir :: "32 word \<Rightarrow> string \<Rightarrow> 'w \<Rightarrow> (ok64 \<times> 32 word) \<times> 'w"
  FSWDrain :: "32 word \<Rightarrow> 'w \<Rightarrow> ((32 word \<times> u8 list) list \<times> ok64) \<times> 'w"
  FSWClose :: "32 word \<Rightarrow> 'w \<Rightarrow> 'w"
  u8sFeed32 :: "u32 \<Rightarrow> u8b \<times> 'w \<Rightarrow> u8b \<times> 'w"
  u8bFeed :: "u8 list \<Rightarrow> u8b \<times> 'w \<Rightarrow> ok64 \<times> u8b \<times> 'w"

record sink =
  out :: u8b
  n_out :: u32

definition JABCFswPack :: "'w fswlib \<Rightarrow> 32 word \<Rightarrow> u8 list \<Rightarrow> sink \<times> 'w \<Rightarrow> ok64 \<times> sink \<times> 'w" where
  "JABCFswPack F wd name = (\<lambda>(s, w).
     let len = word_of_nat (length name) :: u32; raw = wd :: u32 in
     if idle_len (out s) < 4 + 4 + unat len then (FSWNOROOM, s, w)
     else case u8sFeed32 F raw (out s, w) of (b, w) \<Rightarrow>
          case u8sFeed32 F len (b, w) of (b, w) \<Rightarrow>
          case u8bFeed F name (b, w) of (o', b, w) \<Rightarrow>
            if o' \<noteq> OK then (o', s\<lparr>out := b\<rparr>, w)
            else (OK, s\<lparr>out := b, n_out := n_out s + 1\<rparr>, w))"

text \<open>The events go through the callback one by one; a code of the callback ends the drain.\<close>

primrec pack_all :: "'w fswlib \<Rightarrow> (32 word \<times> u8 list) list \<Rightarrow> ok64 \<Rightarrow> sink \<times> 'w \<Rightarrow> ok64 \<times> sink \<times> 'w" where
  "pack_all F [] code s = (code, s)"
| "pack_all F (e # es) code s =
     (case JABCFswPack F (fst e) (snd e) s of
        (o', s') \<Rightarrow> if o' = OK then pack_all F es code s' else (o', s'))"

definition JABCFswInit :: "'w fswlib \<Rightarrow> ('w, jout) js" where
  "JABCFswInit F = (\<lambda>w. case FSWInit F w of ((o', fd), w') \<Rightarrow>
     if o' \<noteq> OK then (Inl (ThrowError ''fsw.init: cannot create a watcher''), w')
     else (Inr (JVal (JNum (js_int fd))), w'))"

definition JABCFswDir :: "'w engine \<Rightarrow> abc \<Rightarrow> 'w fswlib \<Rightarrow> jsval list \<Rightarrow> ('w, jout) js" where
  "JABCFswDir E A F argv =
     need 2 ''fsw.dir(wfd, path)'' argv
     (jbind (JABCFdOf E (argv ! 0)) (\<lambda>wfd.
      jbind (path_or A ''fsw.dir: bad path'' (argv ! 1)) (\<lambda>path. \<lambda>w.
      case FSWDir F wfd path w of ((o', wd), w') \<Rightarrow>
        if o' \<noteq> OK then (Inl (ThrowError ''fsw.dir: cannot watch that directory''), w')
        else (Inr (JVal (JNum (js_int (sint wd)))), w'))))"

definition JABCFswDrain :: "'w engine \<Rightarrow> abc \<Rightarrow> 'w fswlib \<Rightarrow> jsval list \<Rightarrow> ('w, jout) js" where
  "JABCFswDrain E A F argv =
     need 2 ''fsw.drain(wfd, buf)'' argv
     (jbind (JABCFdOf E (argv ! 0)) (\<lambda>wfd.
      if \<not> is_obj (argv ! 1) then jthrow (ThrowError ''fsw.drain: buf must be a Buf'')
      else jbind (JABCBufOf E A (argv ! 1)) (\<lambda>buf. \<lambda>w.
        case FSWDrain F wfd w of ((evs, code), w1) \<Rightarrow>
        case pack_all F evs code (\<lparr>out = buf, n_out = 0\<rparr>, w1) of (o', sink, w2) \<Rightarrow>
          jbind (JABCBufBack E (argv ! 1) (out sink)) (\<lambda>_.
          if o' = FSWNOROOM then jthrow (ThrowError ''fsw.drain: the buffer is full, events lost'')
          else if o' \<noteq> OK then jthrow (ThrowError ''fsw.drain: cannot read the watcher'')
          else js_num (unat (n_out sink))) w2)))"

definition JABCFswClose :: "'w engine \<Rightarrow> 'w fswlib \<Rightarrow> jsval list \<Rightarrow> ('w, jout) js" where
  "JABCFswClose E F argv =
     need 1 ''fsw.close(wfd)'' argv
     (jbind (JABCFdOf E (argv ! 0)) (\<lambda>wfd. jbind (jput (FSWClose F wfd)) (\<lambda>_. js_undef)))"

section \<open>The bundle\<close>

text \<open>
  The variables of the bundle.  \<open>dirs\<close> is a JavaScript \<open>Map\<close>, which is walked in the order of
  insertion while it changes: each entry carries the moment it was inserted.  \<open>buf\<close> is made and
  dropped as a whole; \<open>has_buf\<close> says whether it is there.
\<close>

record 'w fsws =
  fworld :: 'w
  wfd :: int
  has_buf :: bool
  dirs :: "(nat \<times> int \<times> jsval) list"
  inserted :: nat
  subs :: "int \<rightharpoonup> nat"
  over :: "nat option"

text \<open>
  What the bundle calls.  \<open>J_drain fd\<close> is \<open>fsw.drain (fd, buf.reset ())\<close>: the count and the bytes the
  Buf holds after it.  \<open>J_valid\<close> is libabc's test of UTF-8, which \<open>utf8.Decode\<close> makes.
\<close>

record 'w fswjs =
  J_init :: "('w fsws, int) js"
  J_dir :: "int \<Rightarrow> jsval \<Rightarrow> ('w fsws, int) js"
  J_drain :: "int \<Rightarrow> ('w fsws, nat \<times> u8 list) js"
  J_close :: "int \<Rightarrow> ('w fsws, unit) js"
  J_watch :: "int \<Rightarrow> ('w fsws, unit) js"
  J_unwatch :: "int \<Rightarrow> ('w fsws, unit) js"
  J_call :: "nat \<Rightarrow> jsval list \<Rightarrow> ('w fsws, unit) js"
  J_valid :: "u8 list \<Rightarrow> bool"

definition dirs_get :: "'w fsws \<Rightarrow> int \<Rightarrow> jsval" where
  "dirs_get s wd = (case map_of (map snd (dirs s)) wd of Some d \<Rightarrow> d | None \<Rightarrow> JUndef)"

text \<open>A key that is there keeps its place.\<close>

definition dirs_set :: "int \<Rightarrow> jsval \<Rightarrow> 'w fsws \<Rightarrow> 'w fsws" where
  "dirs_set wd d s =
     (if wd \<in> fst ` snd ` set (dirs s)
      then s\<lparr>dirs := map (\<lambda>e. if fst (snd e) = wd then (fst e, wd, d) else e) (dirs s)\<rparr>
      else s\<lparr>dirs := dirs s @ [(inserted s, wd, d)], inserted := inserted s + 1\<rparr>)"

text \<open>\<open>if (h) h (...)\<close>.\<close>

definition tell :: "'w fswjs \<Rightarrow> nat option \<Rightarrow> jsval list \<Rightarrow> ('w fsws, unit) js" where
  "tell J h args = (case h of Some f \<Rightarrow> J_call J f args | None \<Rightarrow> jret ())"

text \<open>\<open>dirs.forEach\<close>, with fuel: a handler may add entries as it goes.  The answer says it ended.\<close>

primrec rescan :: "nat \<Rightarrow> 'w fswjs \<Rightarrow> nat \<Rightarrow> ('w fsws, bool) js" where
  "rescan 0 J from = jret False"
| "rescan (Suc k) J from =
     jbind (jget (\<lambda>s. filter (\<lambda>e. from \<le> fst e) (dirs s))) (\<lambda>left.
     case left of
       [] \<Rightarrow> jret True
     | (i, wd, d) # _ \<Rightarrow>
         jbind (jget (\<lambda>s. subs s wd)) (\<lambda>h.
         jbind (tell J h [JStr '''', d]) (\<lambda>_.
         rescan k J (i + 1))))"

definition lost :: "nat \<Rightarrow> 'w fswjs \<Rightarrow> ('w fsws, bool) js" where
  "lost k J = jbind (jget over) (\<lambda>o'.
     case o' of Some f \<Rightarrow> jbind (J_call J f []) (\<lambda>_. jret True) | None \<Rightarrow> rescan k J 0)"

definition HDR :: nat where "HDR = 8"

text \<open>\<open>fsw.records\<close>: the list is what is left of the bytes at the offset \<open>o\<close>.\<close>

function records :: "(u8 list \<Rightarrow> bool) \<Rightarrow> u8 list \<Rightarrow> exn + (int \<times> jsval) list" where
  "records valid b =
     (if length b < HDR then Inr []
      else let wd = sint (word_of_nat (le_nat (take 4 b)) :: 32 word); len = le_nat (take 4 (drop 4 b)) in
        if length b < HDR + len then Inr []
        else case JABCutf8Decode valid (take len (drop HDR b)) of
          Inl e \<Rightarrow> Inl e
        | Inr name \<Rightarrow> map_sum id (\<lambda>rows. (wd, name) # rows) (records valid (drop (HDR + len) b)))"
  by pat_completeness auto
termination by (relation "measure (\<lambda>(v, b). length b)") (auto simp: HDR_def)

declare records.simps [simp del]

definition OVERFLOW :: int where "OVERFLOW = - 1"

primrec dispatch :: "nat \<Rightarrow> 'w fswjs \<Rightarrow> (int \<times> jsval) list \<Rightarrow> ('w fsws, bool) js" where
  "dispatch k J [] = jret True"
| "dispatch k J (r # rs) =
     (if fst r = OVERFLOW
      then jbind (lost k J) (\<lambda>ended. if ended then dispatch k J rs else jret False)
      else jbind (jget (\<lambda>s. (dirs_get s (fst r), subs s (fst r)))) (\<lambda>(d, h).
           jbind (tell J h [snd r, d]) (\<lambda>_. dispatch k J rs)))"

text \<open>
  The handler of the watcher's fd: it drains to empty.  \<open>buf.reset ()\<close> of a \<open>null\<close> throws inside the
  same \<open>try\<close> as the drain.
\<close>

definition drain_once :: "'w fswjs \<Rightarrow> int \<Rightarrow> ('w fsws, (nat \<times> u8 list) option) js" where
  "drain_once J fd =
     jcatch (jbind (jget has_buf) (\<lambda>b.
       if b then jbind (J_drain J fd) (\<lambda>x. jret (Some x))
       else jthrow (ThrowError ''TypeError''))) (\<lambda>e. if e = CUndef then jthrow e else jret None)"

primrec drain_loop :: "nat \<Rightarrow> 'w fswjs \<Rightarrow> int \<Rightarrow> ('w fsws, bool) js" where
  "drain_loop 0 J fd = jret False"
| "drain_loop (Suc k) J fd =
     jbind (drain_once J fd) (\<lambda>r.
     case r of
       None \<Rightarrow> lost k J
     | Some (n, bs) \<Rightarrow>
         if n = 0 then jret True
         else (case records (J_valid J) bs of
                 Inl e \<Rightarrow> jthrow e
               | Inr rows \<Rightarrow> jbind (dispatch k J rows) (\<lambda>ended. if ended then drain_loop k J fd else jret False)))"

definition fsw_watch :: "'w fswjs \<Rightarrow> jsval \<Rightarrow> nat option \<Rightarrow> ('w fsws, int) js" where
  "fsw_watch J dir fn =
     jbind (jget wfd) (\<lambda>fd0.
     jbind (if fd0 < 0
            then jbind (J_init J) (\<lambda>fd.
                 jbind (jput (\<lambda>s. s\<lparr>wfd := fd, has_buf := True\<rparr>)) (\<lambda>_. J_watch J fd))
            else jret ()) (\<lambda>_.
     jbind (jget wfd) (\<lambda>fd.
     jbind (J_dir J fd dir) (\<lambda>wd.
     jbind (jput (\<lambda>s. (dirs_set wd dir s)\<lparr>subs := (subs s)(wd := fn)\<rparr>)) (\<lambda>_. jret wd)))))"

definition fsw_onoverflow :: "nat option \<Rightarrow> ('w fsws, unit) js" where
  "fsw_onoverflow fn = jput (\<lambda>s. s\<lparr>over := fn\<rparr>)"

definition fsw_unwatch :: "int \<Rightarrow> ('w fsws, unit) js" where
  "fsw_unwatch wd = jput (\<lambda>s. s\<lparr>dirs := filter (\<lambda>e. fst (snd e) \<noteq> wd) (dirs s), subs := (subs s)(wd := None)\<rparr>)"

definition fsw_stop :: "'w fswjs \<Rightarrow> ('w fsws, unit) js" where
  "fsw_stop J =
     jbind (jget wfd) (\<lambda>fd.
     if fd < 0 then jret ()
     else jbind (J_unwatch J fd) (\<lambda>_.
          jbind (J_close J fd) (\<lambda>_.
          jput (\<lambda>s. s\<lparr>wfd := - 1, has_buf := False, dirs := [], subs := Map.empty\<rparr>))))"

end
