(* ===== verification/FswSafe.thy ===== *)
theory FswSafe
  imports Fsw
begin

text \<open>
  What the directory watcher promises: the bytes a drain leaves are whole records which the bundle
  parses back into the events (\<open>drained_records_parse\<close>), and every event that a readiness of the
  watcher finds reaches its handler, or the loss is announced (\<open>every_event_is_told\<close>); and where it
  does not keep the promise.
\<close>

section \<open>Records on the wire\<close>

definition feed_laws :: "'w fswlib \<Rightarrow> 'w memory \<Rightarrow> bool" where
  "feed_laws F M \<longleftrightarrow>
     (\<forall>x b w. wf_u8b b \<and> 4 \<le> idle_len b \<longrightarrow>
        u8sFeed32 F x (b, w) = (b\<lparr>b2 := b2 b + 4\<rparr>, poke M (b2 b) (le_bytes 4 (unat x)) w)) \<and>
     (\<forall>bs b w. wf_u8b b \<longrightarrow>
        u8bFeed F bs (b, w) =
          (if length bs \<le> idle_len b then (OK, b\<lparr>b2 := b2 b + length bs\<rparr>, poke M (b2 b) bs w)
           else (NOROOM, b, w)))"

lemma feed_lawsD:
  "feed_laws F M \<Longrightarrow> wf_u8b b \<Longrightarrow> 4 \<le> idle_len b \<Longrightarrow>
     u8sFeed32 F x (b, w) = (b\<lparr>b2 := b2 b + 4\<rparr>, poke M (b2 b) (le_bytes 4 (unat x)) w)"
  "feed_laws F M \<Longrightarrow> wf_u8b b \<Longrightarrow> length bs \<le> idle_len b \<Longrightarrow>
     u8bFeed F bs (b, w) = (OK, b\<lparr>b2 := b2 b + length bs\<rparr>, poke M (b2 b) bs w)"
  by (simp_all add: feed_laws_def)

definition wire :: "32 word \<times> u8 list \<Rightarrow> u8 list" where
  "wire e = le_bytes 4 (unat (fst e)) @ le_bytes 4 (length (snd e)) @ snd e"

abbreviation short_name :: "32 word \<times> u8 list \<Rightarrow> bool" where
  "short_name e \<equiv> length (snd e) < 2 ^ 32"

lemma length_wire [simp]: "length (wire e) = 8 + length (snd e)"
  by (simp add: wire_def)

lemma data_grows:
  assumes "mem_laws E M" and "wf_u8b b"
  shows "bytes_at M (poke M (b2 b) bs w) (b1 b) (b2 b - b1 b + length bs) = bytes_at M w (b1 b) (b2 b - b1 b) @ bs"
proof (rule nth_equalityI)
  fix i assume "i < length (bytes_at M (poke M (b2 b) bs w) (b1 b) (b2 b - b1 b + length bs))"
  then show "bytes_at M (poke M (b2 b) bs w) (b1 b) (b2 b - b1 b + length bs) ! i =
      (bytes_at M w (b1 b) (b2 b - b1 b) @ bs) ! i"
    using assms(2) by (auto simp: bytes_at_def peek_poke [OF assms(1)] nth_append wf_u8b_def add.commute)
qed simp

definition data_bytes :: "'w memory \<Rightarrow> 'w \<Rightarrow> u8b \<Rightarrow> u8 list" where
  "data_bytes M w b = bytes_at M w (b1 b) (data_len b)"

text \<open>A feed as the memory and the buffer see it.\<close>

definition appended :: "'w memory \<Rightarrow> u8 list \<Rightarrow> u8b \<times> 'w \<Rightarrow> u8b \<times> 'w \<Rightarrow> bool" where
  "appended M bs from to \<longleftrightarrow>
     fst to = (fst from)\<lparr>b2 := b2 (fst from) + length bs\<rparr> \<and> b2 (fst to) \<le> b3 (fst to) \<and>
     data_bytes M (snd to) (fst to) = data_bytes M (snd from) (fst from) @ bs \<and>
     (\<forall>x. x < b2 (fst from) \<or> b2 (fst to) \<le> x \<longrightarrow> peek M (snd to) x = peek M (snd from) x)"

lemma appended_poke:
  assumes "mem_laws E M" and "wf_u8b b" and "length bs \<le> idle_len b"
  shows "appended M bs (b, w) (b\<lparr>b2 := b2 b + length bs\<rparr>, poke M (b2 b) bs w)"
  using data_grows [OF assms(1,2), of bs w] assms(2,3)
  by (auto simp: appended_def data_bytes_def u8b_defs peek_poke [OF assms(1)])

lemma appended_trans:
  assumes "appended M xs a b" and "appended M ys b c"
  shows "appended M (xs @ ys) a c"
proof -
  obtain ba wa bb wb bc wc where p: "a = (ba, wa)" "b = (bb, wb)" "c = (bc, wc)" by (cases a, cases b, cases c)
  from assms have b: "bb = ba\<lparr>b2 := b2 ba + length xs\<rparr>" "bc = ba\<lparr>b2 := b2 ba + length xs + length ys\<rparr>"
    by (simp_all add: appended_def p)
  show ?thesis using assms by (auto simp: appended_def p b add.assoc)
qed

lemma appended_wf: "appended M bs (b, w) (b', w') \<Longrightarrow> wf_u8b b \<Longrightarrow>
    wf_u8b b' \<and> idle_len b = length bs + idle_len b'"
  by (auto simp: appended_def u8b_defs)

lemma pack_step:
  assumes "mem_laws E M" and "feed_laws F M" and "wf_u8b (out s)" and "short_name e"
  shows "if idle_len (out s) < length (wire e) then JABCFswPack F (fst e) (snd e) (s, w) = (FSWNOROOM, s, w)
    else \<exists>b w'. JABCFswPack F (fst e) (snd e) (s, w) = (OK, s\<lparr>out := b, n_out := n_out s + 1\<rparr>, w') \<and>
      appended M (wire e) (out s, w) (b, w')"
proof -
  have len: "unat (word_of_nat (length (snd e)) :: u32) = length (snd e)"
    using assms(4) by (simp add: unat_of_nat)
  show ?thesis
  proof (cases "idle_len (out s) < length (wire e)")
    case True
    then show ?thesis by (simp add: JABCFswPack_def len Let_def)
  next
    case False
    let ?b = "out s"
    let ?b' = "?b\<lparr>b2 := b2 ?b + 4\<rparr>" and ?b'' = "?b\<lparr>b2 := b2 ?b + 8\<rparr>"
    let ?e = "?b\<lparr>b2 := b2 ?b + length (wire e)\<rparr>"
    define w1 where "w1 = poke M (b2 ?b) (le_bytes 4 (unat (fst e))) w"
    define w2 where "w2 = poke M (b2 ?b + 4) (le_bytes 4 (length (snd e))) w1"
    define w3 where "w3 = poke M (b2 ?b + 8) (snd e) w2"
    have room: "wf_u8b ?b'" "wf_u8b ?b''" "4 \<le> idle_len ?b" "4 \<le> idle_len ?b'" "length (snd e) \<le> idle_len ?b''"
      using False assms(3) by (auto simp: u8b_defs)
    have "JABCFswPack F (fst e) (snd e) (s, w) = (OK, s\<lparr>out := ?e, n_out := n_out s + 1\<rparr>, w3)"
      using False room assms(3)
      by (simp add: JABCFswPack_def Let_def len feed_lawsD [OF assms(2)] w1_def w2_def w3_def add.assoc)
    moreover have "appended M (wire e) (?b, w) (?e, w3)"
    proof -
      have "appended M (le_bytes 4 (unat (fst e))) (?b, w) (?b', w1)"
        using appended_poke [OF assms(1,3), of "le_bytes 4 (unat (fst e))" w] room(3) by (simp add: w1_def)
      moreover have "appended M (le_bytes 4 (length (snd e))) (?b', w1) (?b'', w2)"
        using appended_poke [OF assms(1) room(1), of "le_bytes 4 (length (snd e))" w1] room(4)
        by (simp add: w2_def add.assoc)
      moreover have "appended M (snd e) (?b'', w2) (?e, w3)"
        using appended_poke [OF assms(1) room(2) room(5), of w2] by (simp add: w3_def add.assoc)
      ultimately show ?thesis by (auto simp: wire_def intro!: appended_trans)
    qed
    ultimately show ?thesis using False by auto
  qed
qed

lemma pack_all_packs:
  assumes "mem_laws E M" and "feed_laws F M" and "\<forall>e\<in>set evs. short_name e" and "wf_u8b (out s)"
    and "pack_all F evs code (s, w) = (o', s', w')"
  shows "\<exists>taken left. evs = taken @ left \<and> o' = (if left = [] then code else FSWNOROOM) \<and>
    n_out s' = n_out s + of_nat (length taken) \<and> appended M (concat (map wire taken)) (out s, w) (out s', w') \<and>
    (left \<noteq> [] \<longrightarrow> idle_len (out s') < length (wire (hd left)))"
  using assms(3-5)
proof (induction evs arbitrary: s w)
  case Nil
  then show ?case by (auto simp: appended_def wf_u8b_def)
next
  case (Cons e evs)
  show ?case
  proof (cases "idle_len (out s) < length (wire e)")
    case True
    with pack_step [OF assms(1,2) Cons.prems(2), of e w] Cons.prems(1,3)
    have "o' = FSWNOROOM" "s' = s" "w' = w" by simp_all
    with True Cons.prems(2) show ?thesis
      by (intro exI [of _ "[]"] exI [of _ "e # evs"]) (auto simp: appended_def wf_u8b_def)
  next
    case False
    with pack_step [OF assms(1,2) Cons.prems(2), of e w] Cons.prems(1)
    obtain b w1 where step: "JABCFswPack F (fst e) (snd e) (s, w) = (OK, s\<lparr>out := b, n_out := n_out s + 1\<rparr>, w1)"
      and app: "appended M (wire e) (out s, w) (b, w1)" by auto
    have "wf_u8b b" using appended_wf [OF app Cons.prems(2)] by simp
    with Cons.IH [of "s\<lparr>out := b, n_out := n_out s + 1\<rparr>" w1] Cons.prems(1,3) step
    obtain taken left where t: "evs = taken @ left" "o' = (if left = [] then code else FSWNOROOM)"
      "n_out s' = n_out s + 1 + of_nat (length taken)" "appended M (concat (map wire taken)) (b, w1) (out s', w')"
      "left \<noteq> [] \<longrightarrow> idle_len (out s') < length (wire (hd left))" by auto
    with appended_trans [OF app t(4)] show ?thesis
      by (intro exI [of _ "e # taken"] exI [of _ left]) simp
  qed
qed

text \<open>Parsing is the inverse of packing, for names that are UTF-8.\<close>

definition told :: "32 word \<times> u8 list \<Rightarrow> int \<times> jsval" where
  "told e = (sint (fst e), JStr (string_of (snd e)))"

lemma records_wire:
  assumes "short_name e" and "valid (snd e)"
  shows "records valid (wire e @ rest) = map_sum id (\<lambda>rows. told e # rows) (records valid rest)"
proof -
  have "word_of_nat (le_nat (take 4 (wire e))) = (fst e :: 32 word)"
    using unat_less_exp [of "fst e"] by (simp add: wire_def le_nat_le_bytes)
  moreover have "le_nat (take 4 (drop 4 (wire e))) = length (snd e)"
    using assms(1) by (simp add: wire_def le_nat_le_bytes)
  moreover have "drop 8 (wire e) = snd e" by (simp add: wire_def)
  ultimately show ?thesis
    using assms(2) by (subst records.simps) (simp add: HDR_def JABCutf8Decode_def told_def Let_def)
qed

lemma records_Nil [simp]: "records valid [] = Inr []"
  by (subst records.simps) (simp add: HDR_def)

lemma records_wires:
  "\<forall>e\<in>set evs. short_name e \<and> valid (snd e) \<Longrightarrow> records valid (concat (map wire evs)) = Inr (map told evs)"
  by (induction evs) (simp_all add: records_wire)

lemma records_malformed:
  assumes "\<forall>e\<in>set evs. short_name e" and "e \<in> set evs" and "\<not> valid (snd e)"
  shows "\<exists>x. records valid (concat (map wire evs)) = Inl x"
  using assms
proof (induction evs)
  case (Cons a evs)
  show ?case
  proof (cases "valid (snd a)")
    case True
    with Cons have "e \<in> set evs" by auto
    with Cons obtain x where "records valid (concat (map wire evs)) = Inl x" by auto
    with Cons.prems(1) True show ?thesis by (simp add: records_wire)
  next
    case False
    have "le_nat (take 4 (drop 4 (wire a))) = length (snd a)" "drop 8 (wire a) = snd a"
      using Cons.prems(1) by (simp_all add: wire_def le_nat_le_bytes)
    with False show ?thesis
      by (subst records.simps) (simp add: HDR_def JABCutf8Decode_def Let_def)
  qed
qed simp

section \<open>Events and handlers\<close>

text \<open>
  A world in which the handlers return and leave the bundle's variables alone: \<open>told_to\<close> is what they
  were called with, \<open>queue\<close> the chunks the drains will find, \<open>None\<close> for one that throws (a full Buf, or
  a watcher that cannot be read).
\<close>

definition listens :: "'w fswjs \<Rightarrow> ('w \<Rightarrow> (32 word \<times> u8 list) list option list) \<Rightarrow>
    ('w \<Rightarrow> (nat \<times> jsval list) list) \<Rightarrow> bool" where
  "listens J queue told_to \<longleftrightarrow>
     (\<forall>f args s. \<exists>w. J_call J f args s = (Inr (), s\<lparr>fworld := w\<rparr>) \<and>
        told_to w = told_to (fworld s) @ [(f, args)] \<and> queue w = queue (fworld s)) \<and>
     (\<forall>fd s. queue (fworld s) = [] \<longrightarrow> (\<exists>w. J_drain J fd s = (Inr (0, []), s\<lparr>fworld := w\<rparr>) \<and>
        told_to w = told_to (fworld s) \<and> queue w = [])) \<and>
     (\<forall>fd s evs q. queue (fworld s) = Some evs # q \<longrightarrow>
        (\<exists>w. J_drain J fd s = (Inr (length evs, concat (map wire evs)), s\<lparr>fworld := w\<rparr>) \<and>
           told_to w = told_to (fworld s) \<and> queue w = q)) \<and>
     (\<forall>fd s q. queue (fworld s) = None # q \<longrightarrow>
        (\<exists>w e. J_drain J fd s = (Inl e, s\<lparr>fworld := w\<rparr>) \<and> e \<noteq> CUndef \<and>
           told_to w = told_to (fworld s) \<and> queue w = q))"

definition chunks_ok :: "(u8 list \<Rightarrow> bool) \<Rightarrow> (32 word \<times> u8 list) list option list \<Rightarrow> bool" where
  "chunks_ok valid q \<longleftrightarrow> (\<forall>evs. Some evs \<in> set q \<longrightarrow> evs \<noteq> [] \<and> (\<forall>e\<in>set evs. short_name e \<and> valid (snd e)))"

definition dirs_ok :: "'w fsws \<Rightarrow> bool" where
  "dirs_ok s \<longleftrightarrow> sorted_wrt (<) (map fst (dirs s)) \<and> (\<forall>e\<in>set (dirs s). fst e < inserted s)"

text \<open>The calls an event, a loss and a queue should lead to.\<close>

definition handler_calls :: "'w fsws \<Rightarrow> int \<Rightarrow> jsval list \<Rightarrow> (nat \<times> jsval list) list" where
  "handler_calls s wd args = (case subs s wd of Some f \<Rightarrow> [(f, args)] | None \<Rightarrow> [])"

definition lost_calls :: "'w fsws \<Rightarrow> (nat \<times> jsval list) list" where
  "lost_calls s = (case over s of Some f \<Rightarrow> [(f, [])]
     | None \<Rightarrow> concat (map (\<lambda>(i, wd, d). handler_calls s wd [JStr '''', d]) (dirs s)))"

definition row_calls :: "'w fsws \<Rightarrow> int \<times> jsval \<Rightarrow> (nat \<times> jsval list) list" where
  "row_calls s r = (if fst r = OVERFLOW then lost_calls s else handler_calls s (fst r) [snd r, dirs_get s (fst r)])"

fun queue_calls :: "'w fsws \<Rightarrow> (32 word \<times> u8 list) list option list \<Rightarrow> (nat \<times> jsval list) list" where
  "queue_calls s [] = []"
| "queue_calls s (None # q) = lost_calls s"
| "queue_calls s (Some evs # q) = concat (map (\<lambda>e. row_calls s (told e)) evs) @ queue_calls s q"

text \<open>What is left in the queue behind the first drain that fails.\<close>

fun untold :: "(32 word \<times> u8 list) list option list \<Rightarrow> (32 word \<times> u8 list) list option list" where
  "untold [] = []"
| "untold (None # q) = q"
| "untold (Some evs # q) = untold q"

lemma dirs_ok_set: "dirs_ok s \<Longrightarrow> dirs_ok (dirs_set wd d s)"
proof -
  assume ok: "dirs_ok s"
  have "map fst (map (\<lambda>e. if fst (snd e) = wd then (fst e, wd, d) else e) (dirs s)) = map fst (dirs s)" by simp
  then show ?thesis
    using ok by (auto simp: dirs_ok_def dirs_set_def sorted_wrt_append simp del: map_map)
qed

lemma dirs_ok_unwatch: "dirs_ok s \<Longrightarrow> dirs_ok (snd (fsw_unwatch wd s))"
  by (auto simp: dirs_ok_def fsw_unwatch_def sorted_wrt_map intro: sorted_wrt_filter)

text \<open>Calls that were made: the state but for the world is as it was.\<close>

definition called :: "('w \<Rightarrow> (32 word \<times> u8 list) list option list) \<Rightarrow> ('w \<Rightarrow> (nat \<times> jsval list) list) \<Rightarrow>
    'w fsws \<Rightarrow> 'w \<Rightarrow> (nat \<times> jsval list) list \<Rightarrow> bool" where
  "called queue told_to s w cs \<longleftrightarrow> told_to w = told_to (fworld s) @ cs \<and> queue w = queue (fworld s)"

lemma dirs_get_world [simp]: "dirs_get (s\<lparr>fworld := w\<rparr>) wd = dirs_get s wd"
  by (simp add: dirs_get_def)

lemma handler_call:
  assumes "listens J queue told_to"
  shows "\<exists>w. tell J (subs s wd) args t = (Inr (), t\<lparr>fworld := w\<rparr>) \<and>
    called queue told_to t w (handler_calls s wd args)"
proof (cases "subs s wd")
  case (Some f)
  moreover obtain w where "J_call J f args t = (Inr (), t\<lparr>fworld := w\<rparr>)"
    "told_to w = told_to (fworld t) @ [(f, args)]" "queue w = queue (fworld t)"
    using assms unfolding listens_def by blast
  ultimately show ?thesis by (auto simp: called_def handler_calls_def tell_def)
next
  case None
  then show ?thesis by (intro exI [of _ "fworld t"]) (simp add: called_def handler_calls_def tell_def)
qed

lemma rescan_calls:
  assumes "listens J queue told_to" and "sorted_wrt (<) (map fst (dirs s))"
  shows "filter (\<lambda>e. from \<le> fst e) (dirs s) = left \<Longrightarrow> length left < k \<Longrightarrow>
    \<exists>w'. rescan k J from (s\<lparr>fworld := w\<rparr>) = (Inr True, s\<lparr>fworld := w'\<rparr>) \<and>
      called queue told_to (s\<lparr>fworld := w\<rparr>) w' (concat (map (\<lambda>(i, wd, d). handler_calls s wd [JStr '''', d]) left))"
proof (induction left arbitrary: "from" k w)
  case Nil
  then obtain j where "k = Suc j" by (cases k) auto
  then show ?case using Nil by (intro exI [of _ w]) (simp add: called_def)
next
  case (Cons e left)
  then obtain j where k: "k = Suc j" by (cases k) auto
  obtain i wd d where e: "e = (i, wd, d)" by (cases e)
  have i: "from \<le> i" using Cons.prems(1) unfolding e by (auto simp: filter_eq_Cons_iff)
  have "sorted_wrt (<) (map fst (filter (\<lambda>e. from \<le> fst e) (dirs s)))"
    using assms(2) by (auto simp: sorted_wrt_map intro: sorted_wrt_filter)
  then have above: "\<forall>x\<in>set left. i < fst x" unfolding Cons.prems(1) e by auto
  have "filter (\<lambda>e. i + 1 \<le> fst e) (dirs s) = filter (\<lambda>e. i + 1 \<le> fst e) (filter (\<lambda>e. from \<le> fst e) (dirs s))"
    using i by (auto intro: filter_cong)
  also have "\<dots> = left" unfolding Cons.prems(1) e using above by (simp add: filter_id_conv Suc_le_eq)
  finally have left: "filter (\<lambda>e. i + 1 \<le> fst e) (dirs s) = left" .
  obtain w1 where w1: "tell J (subs s wd) [JStr '''', d] (s\<lparr>fworld := w\<rparr>) =
      (Inr (), s\<lparr>fworld := w1\<rparr>)" "called queue told_to (s\<lparr>fworld := w\<rparr>) w1 (handler_calls s wd [JStr '''', d])"
    using handler_call [OF assms(1), where s = s and wd = wd and args = "[JStr '''', d]" and t = "s\<lparr>fworld := w\<rparr>"] by auto
  obtain w' where "rescan j J (i + 1) (s\<lparr>fworld := w1\<rparr>) = (Inr True, s\<lparr>fworld := w'\<rparr>)"
    "called queue told_to (s\<lparr>fworld := w1\<rparr>) w' (concat (map (\<lambda>(i, wd, d). handler_calls s wd [JStr '''', d]) left))"
    using Cons.IH [OF left, of j w1] Cons.prems(2) k by auto
  then show ?case
    using w1 by (intro exI [of _ w']) (simp add: k e Cons.prems(1) jbind_def w1(1) called_def)
qed

lemma lost_tells:
  assumes "listens J queue told_to" and "dirs_ok s" and "length (dirs s) < k"
  shows "\<exists>w'. lost k J (s\<lparr>fworld := w\<rparr>) = (Inr True, s\<lparr>fworld := w'\<rparr>) \<and>
    called queue told_to (s\<lparr>fworld := w\<rparr>) w' (lost_calls s)"
proof (cases "over s")
  case (Some f)
  moreover obtain w' where "J_call J f [] (s\<lparr>fworld := w\<rparr>) = (Inr (), s\<lparr>fworld := w'\<rparr>)"
    "told_to w' = told_to w @ [(f, [])]" "queue w' = queue w"
    using assms(1) unfolding listens_def by (metis fsws.surjective fsws.select_convs(1) fsws.update_convs(1))
  ultimately show ?thesis by (auto simp: lost_def lost_calls_def called_def jbind_Inr)
next
  case None
  have all: "filter (\<lambda>e. 0 \<le> fst e) (dirs s) = dirs s" by simp
  have "sorted_wrt (<) (map fst (dirs s))" using assms(2) by (simp add: dirs_ok_def)
  from rescan_calls [OF assms(1) this all assms(3), of w] None show ?thesis
    by (simp add: lost_def lost_calls_def)
qed

lemma dispatch_tells:
  assumes "listens J queue told_to" and "dirs_ok s" and "length (dirs s) < k"
  shows "\<exists>w'. dispatch k J rows (s\<lparr>fworld := w\<rparr>) = (Inr True, s\<lparr>fworld := w'\<rparr>) \<and>
    called queue told_to (s\<lparr>fworld := w\<rparr>) w' (concat (map (row_calls s) rows))"
proof (induction rows arbitrary: w)
  case Nil
  then show ?case by (intro exI [of _ w]) (simp add: called_def)
next
  case (Cons r rows)
  have "\<exists>w1. called queue told_to (s\<lparr>fworld := w\<rparr>) w1 (row_calls s r) \<and>
      dispatch k J (r # rows) (s\<lparr>fworld := w\<rparr>) = dispatch k J rows (s\<lparr>fworld := w1\<rparr>)"
  proof (cases "fst r = OVERFLOW")
    case True
    with lost_tells [OF assms, of w] show ?thesis by (auto simp: row_calls_def jbind_Inr)
  next
    case False
    obtain w1 where w1: "tell J (subs s (fst r)) [snd r, dirs_get s (fst r)]
        (s\<lparr>fworld := w\<rparr>) = (Inr (), s\<lparr>fworld := w1\<rparr>)"
      "called queue told_to (s\<lparr>fworld := w\<rparr>) w1 (handler_calls s (fst r) [snd r, dirs_get s (fst r)])"
      using handler_call [OF assms(1), where s = s and wd = "fst r" and args = "[snd r, dirs_get s (fst r)]" and t = "s\<lparr>fworld := w\<rparr>"] by auto
    then show ?thesis using False
      by (intro exI [of _ w1]) (simp add: row_calls_def jbind_def w1(1))
  qed
  then obtain w1 where w1: "called queue told_to (s\<lparr>fworld := w\<rparr>) w1 (row_calls s r)"
    "dispatch k J (r # rows) (s\<lparr>fworld := w\<rparr>) = dispatch k J rows (s\<lparr>fworld := w1\<rparr>)" by blast
  obtain w' where "dispatch k J rows (s\<lparr>fworld := w1\<rparr>) = (Inr True, s\<lparr>fworld := w'\<rparr>)"
    "called queue told_to (s\<lparr>fworld := w1\<rparr>) w' (concat (map (row_calls s) rows))"
    using Cons.IH by blast
  with w1 show ?case by (auto simp: called_def)
qed

lemma drain_finds:
  assumes "listens J queue told_to" and "has_buf s"
  shows "queue w = [] \<Longrightarrow> \<exists>w'. drain_once J fd (s\<lparr>fworld := w\<rparr>) = (Inr (Some (0, [])), s\<lparr>fworld := w'\<rparr>) \<and>
      told_to w' = told_to w \<and> queue w' = []"
    and "queue w = None # q \<Longrightarrow> \<exists>w'. drain_once J fd (s\<lparr>fworld := w\<rparr>) = (Inr None, s\<lparr>fworld := w'\<rparr>) \<and>
      told_to w' = told_to w \<and> queue w' = q"
    and "queue w = Some evs # q \<Longrightarrow>
      \<exists>w'. drain_once J fd (s\<lparr>fworld := w\<rparr>) = (Inr (Some (length evs, concat (map wire evs))), s\<lparr>fworld := w'\<rparr>) \<and>
      told_to w' = told_to w \<and> queue w' = q"
proof -
  let ?s = "s\<lparr>fworld := w\<rparr>"
  show "\<exists>w'. drain_once J fd ?s = (Inr (Some (0, [])), s\<lparr>fworld := w'\<rparr>) \<and> told_to w' = told_to w \<and> queue w' = []"
    if "queue w = []"
  proof -
    have "\<exists>w'. J_drain J fd ?s = (Inr (0, []), ?s\<lparr>fworld := w'\<rparr>) \<and> told_to w' = told_to (fworld ?s) \<and> queue w' = []"
      using assms(1) that unfolding listens_def by (metis fsws.select_convs(1) fsws.surjective fsws.update_convs(1))
    then show ?thesis using assms(2) by (auto simp: drain_once_def jcatch_def jbind_def)
  qed
  show "\<exists>w'. drain_once J fd ?s = (Inr None, s\<lparr>fworld := w'\<rparr>) \<and> told_to w' = told_to w \<and> queue w' = q"
    if "queue w = None # q"
  proof -
    have "\<exists>w' e. J_drain J fd ?s = (Inl e, ?s\<lparr>fworld := w'\<rparr>) \<and> e \<noteq> CUndef \<and> told_to w' = told_to (fworld ?s) \<and> queue w' = q"
      using assms(1) that unfolding listens_def by (metis fsws.select_convs(1) fsws.surjective fsws.update_convs(1))
    then show ?thesis using assms(2) by (auto simp: drain_once_def jcatch_def jbind_def)
  qed
  show "\<exists>w'. drain_once J fd ?s = (Inr (Some (length evs, concat (map wire evs))), s\<lparr>fworld := w'\<rparr>) \<and>
      told_to w' = told_to w \<and> queue w' = q" if "queue w = Some evs # q"
  proof -
    have "\<exists>w'. J_drain J fd ?s = (Inr (length evs, concat (map wire evs)), ?s\<lparr>fworld := w'\<rparr>) \<and>
        told_to w' = told_to (fworld ?s) \<and> queue w' = q"
      using assms(1) that unfolding listens_def by (metis fsws.select_convs(1) fsws.surjective fsws.update_convs(1))
    then show ?thesis using assms(2) by (auto simp: drain_once_def jcatch_def jbind_def)
  qed
qed

lemma loop_tells:
  assumes "listens J queue told_to" and "dirs_ok s" and "has_buf s"
  shows "chunks_ok (J_valid J) (queue w) \<Longrightarrow> length (queue w) + length (dirs s) < k \<Longrightarrow>
    \<exists>w'. drain_loop k J fd (s\<lparr>fworld := w\<rparr>) = (Inr True, s\<lparr>fworld := w'\<rparr>) \<and>
      told_to w' = told_to w @ queue_calls s (queue w) \<and> queue w' = untold (queue w)"
proof (induction k arbitrary: w)
  case (Suc k)
  note finds = drain_finds [OF assms(1,3), of w]
  show ?case
  proof (cases "queue w")
    case Nil
    with finds(1) [of fd] show ?thesis by (auto simp: jbind_Inr)
  next
    case (Cons c q)
    show ?thesis
    proof (cases c)
      case None
      obtain w1 where w1: "drain_once J fd (s\<lparr>fworld := w\<rparr>) = (Inr None, s\<lparr>fworld := w1\<rparr>)" "told_to w1 = told_to w"
          "queue w1 = q"
        using finds(2) [of q fd] Cons None by auto
      from lost_tells [OF assms(1,2), of k w1] Suc.prems(2) Cons obtain w' where
        "lost k J (s\<lparr>fworld := w1\<rparr>) = (Inr True, s\<lparr>fworld := w'\<rparr>)" "told_to w' = told_to w1 @ lost_calls s"
        "queue w' = queue w1"
        by (auto simp: called_def)
      with w1 Cons None show ?thesis by (auto simp: jbind_def)
    next
      case (Some evs)
      obtain w1 where w1: "drain_once J fd (s\<lparr>fworld := w\<rparr>) =
          (Inr (Some (length evs, concat (map wire evs))), s\<lparr>fworld := w1\<rparr>)" "told_to w1 = told_to w" "queue w1 = q"
        using finds(3) [of evs q fd] Cons Some by auto
      have evs: "evs \<noteq> []" "\<forall>e\<in>set evs. short_name e \<and> J_valid J (snd e)" and q: "chunks_ok (J_valid J) q"
        using Suc.prems(1) Cons Some by (auto simp: chunks_ok_def)
      obtain w2 where w2: "dispatch k J (map told evs) (s\<lparr>fworld := w1\<rparr>) = (Inr True, s\<lparr>fworld := w2\<rparr>)"
        "called queue told_to (s\<lparr>fworld := w1\<rparr>) w2 (concat (map (row_calls s) (map told evs)))"
        using dispatch_tells [OF assms(1,2), of k "map told evs" w1] Suc.prems(2) Cons by auto
      obtain w' where "drain_loop k J fd (s\<lparr>fworld := w2\<rparr>) = (Inr True, s\<lparr>fworld := w'\<rparr>)"
        "told_to w' = told_to w2 @ queue_calls s q" "queue w' = untold q"
        using Suc.IH [of w2] w1(3) w2(2) q Suc.prems(2) Cons by (auto simp: called_def)
      with w1 w2 evs Cons Some show ?thesis
        by (auto simp: jbind_def records_wires called_def comp_def)
    qed
  qed
qed simp

section \<open>The properties\<close>

text \<open>
  C31: the records a drain leaves are whole, and the bundle parses them back.  Into an emptied Buf the
  drain packs events from the front of the kernel's list for as long as the next one fits; when the
  names of these are UTF-8, what \<open>fsw.records\<close> reads there are exactly these events, in order, with the
  watch descriptor signed again; when one is not, the parse throws.  Their number is the one the leaf
  returns, and no byte outside the Buf's IDLE is written.
\<close>

theorem drained_records_parse:
  assumes "mem_laws E M" and "feed_laws F M" and "wf_u8b buf" and "data_len buf = 0"
    and short: "\<forall>e\<in>set evs. length (snd e) < 2 ^ 32"
    and "pack_all F evs code (\<lparr>out = buf, n_out = 0\<rparr>, w) = (o', s', w')"
  shows "\<exists>taken left. evs = taken @ left \<and> o' = (if left = [] then code else FSWNOROOM) \<and>
    n_out s' = of_nat (length taken) \<and>
    (case records valid (data_bytes M w' (out s')) of
       Inr rs \<Rightarrow> (\<forall>e\<in>set taken. valid (snd e)) \<and>
         rs = map (\<lambda>e. (sint (fst e), JStr (string_of (snd e)))) taken
     | Inl x \<Rightarrow> \<exists>e\<in>set taken. \<not> valid (snd e)) \<and>
    (\<forall>x. x < b2 buf \<or> b3 buf \<le> x \<longrightarrow> peek M w' x = peek M w x)"
proof -
  from pack_all_packs [OF assms(1,2) _ _ assms(6)] assms(3) short
  obtain taken left where t: "evs = taken @ left" "o' = (if left = [] then code else FSWNOROOM)"
    "n_out s' = of_nat (length taken)" "appended M (concat (map wire taken)) (buf, w) (out s', w')" by auto
  have data: "data_bytes M w' (out s') = concat (map wire taken)"
  proof -
    have "data_bytes M w buf = []" using assms(4) by (simp add: data_bytes_def bytes_at_def)
    moreover have "data_bytes M w' (out s') = data_bytes M w buf @ concat (map wire taken)"
      using t(4) unfolding appended_def fst_conv snd_conv by blast
    ultimately show ?thesis by (simp only: append_Nil)
  qed
  have short': "\<forall>e\<in>set taken. short_name e" using short t(1) by simp
  have "case records valid (data_bytes M w' (out s')) of
       Inr rs \<Rightarrow> (\<forall>e\<in>set taken. valid (snd e)) \<and>
         rs = map (\<lambda>e. (sint (fst e), JStr (string_of (snd e)))) taken
     | Inl x \<Rightarrow> \<exists>e\<in>set taken. \<not> valid (snd e)"
  proof (cases "\<forall>e\<in>set taken. valid (snd e)")
    case True
    with short' have "records valid (concat (map wire taken)) = Inr (map told taken)"
      by (intro records_wires) simp
    with True show ?thesis unfolding data by (simp add: told_def [abs_def])
  next
    case False
    then obtain e where "e \<in> set taken" "\<not> valid (snd e)" by blast
    with records_malformed [of taken e valid] short' show ?thesis unfolding data by auto
  qed
  moreover have "b2 (out s') \<le> b3 buf" using t(4) by (auto simp: appended_def)
  ultimately show ?thesis
    using t by (intro exI [of _ taken] exI [of _ left]) (auto simp: appended_def)
qed

text \<open>A library over plain memory.\<close>

definition sample_fsw :: "(addr \<Rightarrow> u8) fswlib" where
  "sample_fsw = \<lparr>FSWInit = \<lambda>w. ((OK, 3), w), FSWDir = \<lambda>fd p w. ((OK, 1), w),
     FSWDrain = \<lambda>fd w. (([], OK), w), FSWClose = \<lambda>fd w. w,
     u8sFeed32 = \<lambda>x (b, w). (b\<lparr>b2 := b2 b + 4\<rparr>, poke ram (b2 b) (le_bytes 4 (unat x)) w),
     u8bFeed = \<lambda>bs (b, w). if length bs \<le> idle_len b then (OK, b\<lparr>b2 := b2 b + length bs\<rparr>, poke ram (b2 b) bs w)
                           else (NOROOM, b, w)\<rparr>"

lemma sample_feed_laws: "feed_laws sample_fsw ram"
  by (simp add: feed_laws_def sample_fsw_def)

theorem drained_records_parse_witness:
  "\<exists>o' s' w'. pack_all sample_fsw [(-1, []), (7, [97, 98]), (8, [99])] OK
      (\<lparr>out = \<lparr>b0 = 64, b1 = 64, b2 = 64, b3 = 84\<rparr>, n_out = 0\<rparr>, \<lambda>_. 0) = (o', s', w') \<and>
     o' = FSWNOROOM \<and> n_out s' = 2 \<and>
     records (\<lambda>_. True) (data_bytes ram w' (out s')) = Inr [(-1, JStr ''''), (7, JStr ''ab'')]"
proof -
  let ?evs = "[(-1, []), (7, [97, 98]), (8, [99])] :: (32 word \<times> u8 list) list"
  obtain o' s' w' where run: "pack_all sample_fsw ?evs OK
      (\<lparr>out = \<lparr>b0 = 64, b1 = 64, b2 = 64, b3 = 84\<rparr>, n_out = 0\<rparr>, \<lambda>_. 0) = (o', s', w')" by (cases rule: prod_cases3)
  then have n: "o' = FSWNOROOM \<and> n_out s' = 2"
    by (auto simp: JABCFswPack_def sample_fsw_def u8b_defs Let_def)
  let ?rs = "records (\<lambda>_. True) (data_bytes ram w' (out s'))"
  from drained_records_parse [OF ram_laws [of "[]"] sample_feed_laws _ _ _ run, of "\<lambda>_. True"]
  obtain taken left where t: "?evs = taken @ left" "n_out s' = of_nat (length taken)"
    "case ?rs of Inr rs \<Rightarrow> rs = map (\<lambda>e. (sint (fst e), JStr (string_of (snd e)))) taken | Inl x \<Rightarrow> False"
    by (cases ?rs) (auto simp: u8b_defs)
  have "length taken \<le> 3" using arg_cong [OF t(1), of length] by simp
  then have "length taken = 0 \<or> length taken = 1 \<or> length taken = 2 \<or> length taken = 3" by arith
  with t(2) n have "length taken = 2" by auto
  then have "taken = take 2 ?evs" using t(1) by simp
  moreover have "string_of [] = ''''" "string_of [97, 98] = ''ab''" by code_simp+
  ultimately show ?thesis using t(3) n run
    by (intro exI [of _ o'] exI [of _ s'] exI [of _ w']) (simp split: sum.split_asm)
qed

text \<open>
  C32: what the watcher makes of the kernel's queue.  When the watcher is ready, the names are UTF-8 and
  the handlers return and leave the bundle and the queue alone, the loop ends, with fuel for the
  chunks and the watched directories, and has called the handlers with exactly the events before the
  first drain that fails, in order: an event of a watched directory goes to its handler with the name
  and the directory, one of a forgotten directory to nobody, and an overflow of the kernel or a drain
  that fails (a Buf too small for the burst) is announced to \<open>fsw.onoverflow\<close>, or to every watched
  directory as a rescan when nobody claimed it.  After a drain that fails the loop ends with that
  announcement, and the chunks behind it are left in the queue, as they were, for the next call.
\<close>

theorem every_event_is_told:
  assumes "listens J queue told_to" and "dirs_ok s" and "has_buf s"
    and "chunks_ok (J_valid J) (queue (fworld s))"
    and "length (queue (fworld s)) + length (dirs s) < k"
  shows "\<exists>w. drain_loop k J fd s = (Inr True, s\<lparr>fworld := w\<rparr>) \<and>
    told_to w = told_to (fworld s) @ queue_calls s (queue (fworld s)) \<and> queue w = untold (queue (fworld s))"
  using loop_tells [OF assms] by simp

text \<open>A world that keeps the queue and the calls.\<close>

definition listening :: "((32 word \<times> u8 list) list option list \<times> (nat \<times> jsval list) list) fswjs" where
  "listening = \<lparr>J_init = jret 3, J_dir = \<lambda>fd d. jret 1,
     J_drain = \<lambda>fd s. (case fst (fworld s) of
        [] \<Rightarrow> (Inr (0, []), s)
      | None # q \<Rightarrow> (Inl (ThrowError ''fsw.drain''), s\<lparr>fworld := (q, snd (fworld s))\<rparr>)
      | Some evs # q \<Rightarrow> (Inr (length evs, concat (map wire evs)), s\<lparr>fworld := (q, snd (fworld s))\<rparr>)),
     J_close = \<lambda>fd. jret (), J_watch = \<lambda>fd. jret (), J_unwatch = \<lambda>fd. jret (),
     J_call = \<lambda>f args. jput (\<lambda>s. s\<lparr>fworld := (fst (fworld s), snd (fworld s) @ [(f, args)])\<rparr>),
     J_valid = \<lambda>bs. \<forall>b\<in>set bs. b < 128\<rparr>"

lemma listening_listens: "listens listening fst snd"
proof -
  have same: "s = s\<lparr>fworld := ([], snd (fworld s))\<rparr>" if "fst (fworld s) = []"
    for s :: "((32 word \<times> u8 list) list option list \<times> (nat \<times> jsval list) list) fsws"
    using that by (cases s; cases "fworld s") simp
  show ?thesis
    unfolding listens_def listening_def by (auto simp: js_defs intro: same)
qed

definition two_dirs :: "((32 word \<times> u8 list) list option list \<times> (nat \<times> jsval list) list) fsws" where
  "two_dirs = \<lparr>fworld = ([Some [(1, [97]), (9, [98]), (2, [])], None], []), wfd = 3, has_buf = True,
     dirs = [(0, 1, JStr ''a''), (1, 2, JStr ''b'')], inserted = 2, subs = [1 \<mapsto> 10, 2 \<mapsto> 20], over = None\<rparr>"

theorem every_event_is_told_witness:
  "\<exists>w. drain_loop 5 listening 3 two_dirs = (Inr True, two_dirs\<lparr>fworld := w\<rparr>) \<and>
     snd w = [(10, [JStr (string_of [97]), JStr ''a'']), (20, [JStr '''', JStr ''b'']),
              (10, [JStr '''', JStr ''a'']), (20, [JStr '''', JStr ''b''])]"
proof -
  have "\<exists>w. drain_loop 5 listening 3 two_dirs = (Inr True, two_dirs\<lparr>fworld := w\<rparr>) \<and>
      snd w = snd (fworld two_dirs) @ queue_calls two_dirs (fst (fworld two_dirs)) \<and> fst w = untold (fst (fworld two_dirs))"
    by (rule every_event_is_told [OF listening_listens])
      (auto simp: two_dirs_def dirs_ok_def chunks_ok_def listening_def)
  then show ?thesis
    by (auto simp: two_dirs_def row_calls_def told_def handler_calls_def dirs_get_def lost_calls_def
        OVERFLOW_def string_of_def)
qed

text \<open>
  A file name that is not UTF-8, which a file system allows, ends the event loop.  The parse of
  the whole chunk throws out of the watcher's handler: the events of the chunk, the well-named ones
  before it included, reach nobody, no loss is announced, and the chunk is gone from the queue.
\<close>

theorem malformed_name_escapes:
  assumes "listens J queue told_to" and "has_buf s" and "queue (fworld s) = Some evs # q"
    and "\<forall>e\<in>set evs. length (snd e) < 2 ^ 32" and "e \<in> set evs" and "\<not> J_valid J (snd e)"
  shows "\<exists>x w. drain_loop (Suc k) J fd s = (Inl x, s\<lparr>fworld := w\<rparr>) \<and> told_to w = told_to (fworld s) \<and> queue w = q"
proof -
  obtain x where x: "records (J_valid J) (concat (map wire evs)) = Inl x"
    using records_malformed [where valid = "J_valid J", OF assms(4,5)] assms(6) by blast
  obtain w where "drain_once J fd s = (Inr (Some (length evs, concat (map wire evs))), s\<lparr>fworld := w\<rparr>)"
    "told_to w = told_to (fworld s)" "queue w = q"
    using drain_finds(3) [OF assms(1,2), of "fworld s" evs q fd] assms(3) by auto
  with x assms(5) show ?thesis by (auto simp: jbind_def)
qed

theorem malformed_name_escapes_witness:
  "\<exists>x w. drain_loop 1 listening 3 (two_dirs\<lparr>fworld := ([Some [(1, [97]), (1, [255])]], [])\<rparr>) =
     (Inl x, two_dirs\<lparr>fworld := w\<rparr>) \<and> snd w = [] \<and> fst w = []"
proof -
  have "\<exists>x w. drain_loop (Suc 0) listening 3 (two_dirs\<lparr>fworld := ([Some [(1, [97]), (1, [255])]], [])\<rparr>) =
      (Inl x, two_dirs\<lparr>fworld := ([Some [(1, [97]), (1, [255])]], [])\<rparr>\<lparr>fworld := w\<rparr>) \<and>
      snd w = snd (fworld (two_dirs\<lparr>fworld := ([Some [(1, [97]), (1, [255])]], [])\<rparr>)) \<and> fst w = []"
    by (rule malformed_name_escapes [OF listening_listens, where e = "(1, [255])"])
      (auto simp: two_dirs_def listening_def)
  then show ?thesis by simp
qed

text \<open>
  A watcher whose registration with the loop failed stays deaf: the next \<open>fsw.watch\<close> finds \<open>wfd\<close> set and
  does not register it again.
\<close>

lemma deaf_watcher:
  assumes "wfd s < 0" and "J_init J s = (Inr fd, s)" and "0 \<le> fd"
    and "J_watch J fd (s\<lparr>wfd := fd, has_buf := True\<rparr>) = (Inl e, s\<lparr>wfd := fd, has_buf := True\<rparr>)"
    and "J_dir J fd d (s\<lparr>wfd := fd, has_buf := True\<rparr>) = (Inr wd, s\<lparr>wfd := fd, has_buf := True\<rparr>)"
  shows "fsw_watch J d fn s = (Inl e, s\<lparr>wfd := fd, has_buf := True\<rparr>)"
    and "fst (fsw_watch J d fn (s\<lparr>wfd := fd, has_buf := True\<rparr>)) = Inr wd"
  using assms by (simp_all add: fsw_watch_def jbind_def)

text \<open>
  A handler that stops the watcher makes the loop take the missing Buf for a loss: \<open>fsw.onoverflow\<close> is
  told of events that were never dropped.
\<close>

lemma stop_is_told_as_loss:
  assumes "\<not> has_buf s" and "over s = Some f"
  shows "drain_loop (Suc k) J fd s = jbind (J_call J f []) (\<lambda>_. jret True) s"
  using assms by (simp add: drain_once_def jcatch_def jbind_def lost_def)

end
