(* ===== verification/Logs.thy ===== *)
theory Logs
  imports Lanes Utf8
begin

text \<open>
  The vocabulary of the leaves that marshal bytes into libdog and out of it, and \<open>hunk.c\<close>, the
  first of the three logs kept in a byte array (\<open>hunk.c\<close>, \<open>ulog.c\<close>, \<open>pack.c\<close>).  A call of the
  library is a function from the bytes it is given to a code and the bytes it writes, which go into
  the caller's IDLE; a record it drains reports where its fields lie, as offsets into the bytes it was
  given.
\<close>

section \<open>Bytes in and out\<close>

definition data_of :: "'w memory \<Rightarrow> u8b \<Rightarrow> ('w, u8 list) js" where
  "data_of M b = jget (\<lambda>w. bytes_at M w (b1 b) (data_len b))"

text \<open>What a call leaves in IDLE stays there even when it fails; the end of DATA moves on success.\<close>

definition into_idle :: "'w memory \<Rightarrow> u8b \<Rightarrow> u8 list \<Rightarrow> ('w, u8b) js" where
  "into_idle M b bs = jbind (jput (poke M (b2 b) bs)) (\<lambda>_. jret (b\<lparr>b2 := b2 b + length bs\<rparr>))"

definition emit_or :: "'w memory \<Rightarrow> string \<Rightarrow> u8b \<Rightarrow> ok64 \<times> u8 list \<Rightarrow> ('w, u8b) js" where
  "emit_or M msg b r =
     jbind (into_idle M b (snd r)) (\<lambda>b'. if fst r = OK then jret b' else jthrow (ThrowError msg))"

text \<open>A view that is written from its offset \<open>off\<close> on: DATA is \<open>[0, off)\<close>.\<close>

definition idle_from :: "'w engine \<Rightarrow> abc \<Rightarrow> jsval \<Rightarrow> jsval \<Rightarrow> ('w, u8b) js" where
  "idle_from E A view off = jbind (JABCIdleOf E A view) (\<lambda>b. JABCBufFed E A b off)"

text \<open>
  A string, copied into a scratch of \<open>room\<close> bytes and cut to fit (with a byte to spare), or the bytes
  of a typed array.
\<close>

definition JABChunkArgU8 :: "'w engine \<Rightarrow> abc \<Rightarrow> 'w memory \<Rightarrow> nat \<Rightarrow> jsval \<Rightarrow> ('w, u8 list) js" where
  "JABChunkArgU8 E A M room v =
     (case v of
        JStr s \<Rightarrow> jret (let bs = bytes_of s in if room \<le> length bs then take (room - 1) bs else bs)
      | _ \<Rightarrow> jbind (JABCDataOf E A v) (data_of M))"

text \<open>
  A gate that failed leaves its exception pending; a getter that answers undefined all the same hides
  it.  Undefined behaviour is no exception.
\<close>

definition or_undef :: "('w, 'a) js \<Rightarrow> ('w, 'a option) js" where
  "or_undef m = jcatch (jbind m (\<lambda>x. jret (Some x))) (\<lambda>e. if e = CUndef then jthrow e else jret None)"

section \<open>The walk of a log\<close>

text \<open>
  \<open>_next (buf, off, dataLen)\<close> of the three logs: two gated offsets, the end of the data as -1, and the
  record at \<open>off\<close> asked for its end by \<open>step\<close>, which sees the bytes before \<open>dataLen\<close> and answers
  with \<open>None\<close> for no record.  libabc's \<open>u8csSub\<close> takes 32-bit ends.
\<close>

record slicer =
  u8csSub :: "u8 list \<Rightarrow> u32 \<Rightarrow> u32 \<Rightarrow> (u8 list) option"

definition slicer_law :: "slicer \<Rightarrow> bool" where
  "slicer_law C \<longleftrightarrow> (\<forall>bs i j. u8csSub C bs i j =
     (if i \<le> j \<and> unat j \<le> length bs then Some (take (unat j - unat i) (drop (unat i) bs)) else None))"

definition sub_or :: "slicer \<Rightarrow> string \<Rightarrow> u8 list \<Rightarrow> nat \<Rightarrow> nat \<Rightarrow> ('w, u8 list) js" where
  "sub_or C msg bs i j =
     (if 0xffffffff < j then jthrow (ThrowError msg)
      else case u8csSub C bs (word_of_nat i) (word_of_nat j) of
             None \<Rightarrow> jthrow (ThrowError msg) | Some s \<Rightarrow> jret s)"

definition js_opt_nat :: "nat option \<Rightarrow> ('w, jout) js" where
  "js_opt_nat r = jret (JVal (JNum (case r of None \<Rightarrow> js_int (- 1) | Some n \<Rightarrow> js_nat n)))"

definition log_next :: "'w engine \<Rightarrow> abc \<Rightarrow> 'w memory \<Rightarrow> string \<Rightarrow>
    (u8 list \<Rightarrow> nat \<Rightarrow> nat \<Rightarrow> ('w, nat option) js) \<Rightarrow> jsval list \<Rightarrow> ('w, jout) js" where
  "log_next E A M usage step argv =
     need 3 usage argv
     (jbind (JABCDataOf E A (argv ! 0)) (\<lambda>c.
      jbind (JABCOffOf E (data_len c) (argv ! 1)) (\<lambda>off.
      jbind (JABCOffOf E (data_len c) (argv ! 2)) (\<lambda>dl.
      if dl \<le> off then js_opt_nat None
      else jbind (data_of M c) (\<lambda>bs. jbind (step bs off dl) js_opt_nat)))))"

text \<open>The record at an offset: DATA is moved there and a copy of it drained.\<close>

definition log_at :: "'w engine \<Rightarrow> abc \<Rightarrow> 'w memory \<Rightarrow> (u8 list \<Rightarrow> (ok64 \<times> 'r) \<times> nat) \<Rightarrow>
    jsval \<Rightarrow> jsval \<Rightarrow> ('w, u8b \<times> 'r) js" where
  "log_at E A M drain bufv offv =
     jbind (JABCDataOf E A bufv) (\<lambda>c.
     jbind (JABCBufAt E A c offv) (\<lambda>c.
     jbind (data_of M c) (\<lambda>bs.
     case drain bs of ((o', r), _) \<Rightarrow>
       if o' = OK then jret (c, r) else jthrow (ThrowError ''no record''))))"

section \<open>HUNK\<close>

record hunk =
  hk_uri :: "(nat \<times> nat) option"    \<comment> \<open>offset and length; \<open>None\<close> is a slice that was never set\<close>
  hk_text :: "(nat \<times> nat) option"
  hk_toks :: "u8 list"              \<comment> \<open>whole 32-bit tokens\<close>
  hk_verb :: u64
  hk_time :: u64

record hunklib =
  HUNKu8sFeed :: "u8 list \<Rightarrow> u8 list \<Rightarrow> u8 list \<Rightarrow> nat \<Rightarrow> ok64 \<times> u8 list"
    \<comment> \<open>uri, text, tokens, and the room there is\<close>
  HUNKu8sDrain :: "u8 list \<Rightarrow> (ok64 \<times> hunk) \<times> nat"
  HUNKu32bTokenize :: "u8 list \<Rightarrow> u8 list \<Rightarrow> nat \<Rightarrow> ok64 \<times> u8 list"
  HUNKu8sFeedHtml :: "u8 list \<Rightarrow> nat \<Rightarrow> ok64 \<times> u8 list"   \<comment> \<open>the record's bytes, the room\<close>
  HUNKu8sFeedColor :: "u8 list \<Rightarrow> nat \<Rightarrow> ok64 \<times> u8 list"
  HUNKu8sFeedText :: "u8 list \<Rightarrow> nat \<Rightarrow> ok64 \<times> u8 list"
  malloc_ok :: "nat \<Rightarrow> bool"

definition TOK_OFF_MASK :: nat where "TOK_OFF_MASK = 2 ^ 24 - 1"

definition JABChunkFeed :: "'w engine \<Rightarrow> abc \<Rightarrow> 'w memory \<Rightarrow> hunklib \<Rightarrow> jsval list \<Rightarrow> ('w, jout) js" where
  "JABChunkFeed E A M H argv =
     need 5 ''hunk.feed(buf, off, uri, text, toks)'' argv
     (jbind (idle_from E A (argv ! 0) (argv ! 1)) (\<lambda>buf.
      jbind (JABChunkArgU8 E A M (FILE_PATH_MAX_LEN A) (argv ! 2)) (\<lambda>uri.
      jbind (JABCDataOf E A (argv ! 3)) (\<lambda>textb.
      jbind (JABCDataOf E A (argv ! 4)) (\<lambda>toksb.
      jbind (data_of M textb) (\<lambda>text.
      jbind (data_of M toksb) (\<lambda>toks.
      jbind (emit_or M ''hunk.feed: out full'' buf (HUNKu8sFeed H uri text toks (idle_len buf))) (\<lambda>buf.
      js_num (data_len buf)))))))))"

definition JABChunkDogenize :: "'w engine \<Rightarrow> abc \<Rightarrow> 'w memory \<Rightarrow> hunklib \<Rightarrow> jsval list \<Rightarrow> ('w, jout) js" where
  "JABChunkDogenize E A M H argv =
     need 4 ''hunk.dogenize(buf, off, source, ext, uri)'' argv
     (jbind (idle_from E A (argv ! 0) (argv ! 1)) (\<lambda>buf.
      jbind (JABCDataOf E A (argv ! 2)) (\<lambda>sourceb.
      jbind (JABChunkArgU8 E A M 64 (argv ! 3)) (\<lambda>ext.
      jbind (if 4 < length argv then JABChunkArgU8 E A M (FILE_PATH_MAX_LEN A) (argv ! 4) else jret []) (\<lambda>uri.
      if TOK_OFF_MASK < data_len sourceb then jthrow (ThrowError ''hunk.dogenize: source > 16 MiB'')
      else if \<not> malloc_ok H ((data_len sourceb + 1) * 4) then jthrow (ThrowError ''hunk.dogenize: oom'')
      else
        jbind (data_of M sourceb) (\<lambda>source.
        case HUNKu32bTokenize H source ext (data_len sourceb + 1) of (o', toks) \<Rightarrow>
          if o' \<noteq> OK then jthrow (ThrowError ''hunk.dogenize: lex'')
          else jbind (emit_or M ''hunk.dogenize: out full'' buf (HUNKu8sFeed H uri source toks (idle_len buf))) (\<lambda>buf.
               js_num (data_len buf))))))))"

definition JABChunkNext :: "'w engine \<Rightarrow> abc \<Rightarrow> 'w memory \<Rightarrow> slicer \<Rightarrow> hunklib \<Rightarrow> jsval list \<Rightarrow> ('w, jout) js" where
  "JABChunkNext E A M C H argv =
     log_next E A M ''hunk._next(buf, readOff, dataLen)''
       (\<lambda>bs r dl. jbind (sub_or C ''hunk: the record range is out of range'' bs r dl) (\<lambda>from.
          case HUNKu8sDrain H from of ((o', hk), n) \<Rightarrow> jret (if o' = OK then Some (r + n) else None))) argv"

definition JABChunkAt :: "'w engine \<Rightarrow> abc \<Rightarrow> 'w memory \<Rightarrow> hunklib \<Rightarrow> jsval \<Rightarrow> jsval \<Rightarrow> ('w, u8b \<times> hunk) js" where
  "JABChunkAt E A M H bufv offv = log_at E A M (HUNKu8sDrain H) bufv offv"

text \<open>A field as a view into the log: its offset counts from the base of the view, before PAST.\<close>

definition JABChunkField :: "'w engine \<Rightarrow> jsval \<Rightarrow> u8b \<Rightarrow> (nat \<times> nat) option \<Rightarrow> ('w, jout) js" where
  "JABChunkField E view c fld =
     (case fld of
        None \<Rightarrow> jret (JBytes [])
      | Some (off, n) \<Rightarrow>
          if n = 0 then jret (JBytes [])
          else jbind (JABCSubView E view (past_len c + off) n) (\<lambda>v. jret (JVal v)))"

definition hunk_getter :: "'w engine \<Rightarrow> abc \<Rightarrow> 'w memory \<Rightarrow> hunklib \<Rightarrow> string \<Rightarrow>
    (u8b \<Rightarrow> hunk \<Rightarrow> ('w, jout) js) \<Rightarrow> jsval list \<Rightarrow> ('w, jout) js" where
  "hunk_getter E A M H usage get argv =
     need 2 usage argv
     (jbind (or_undef (JABChunkAt E A M H (argv ! 0) (argv ! 1))) (\<lambda>r.
      case r of None \<Rightarrow> js_undef | Some (c, hk) \<Rightarrow> get c hk))"

definition JABChunkUri :: "'w engine \<Rightarrow> abc \<Rightarrow> 'w memory \<Rightarrow> hunklib \<Rightarrow> jsval list \<Rightarrow> ('w, jout) js" where
  "JABChunkUri E A M H argv =
     hunk_getter E A M H ''hunk._uri(buf, recOff)'' (\<lambda>c hk. JABChunkField E (argv ! 0) c (hk_uri hk)) argv"

definition JABChunkText :: "'w engine \<Rightarrow> abc \<Rightarrow> 'w memory \<Rightarrow> hunklib \<Rightarrow> jsval list \<Rightarrow> ('w, jout) js" where
  "JABChunkText E A M H argv =
     hunk_getter E A M H ''hunk._text(buf, recOff)'' (\<lambda>c hk. JABChunkField E (argv ! 0) c (hk_text hk)) argv"

text \<open>The tokens come back as a copy, a fresh \<open>Uint32Array\<close>.\<close>

definition JABChunkToks :: "'w engine \<Rightarrow> abc \<Rightarrow> 'w memory \<Rightarrow> hunklib \<Rightarrow> jsval list \<Rightarrow> ('w, jout) js" where
  "JABChunkToks E A M H argv =
     hunk_getter E A M H ''hunk._toks(buf, recOff)'' (\<lambda>c hk. jret (JBytes (hk_toks hk))) argv"

definition JABChunkVerb :: "'w engine \<Rightarrow> abc \<Rightarrow> 'w memory \<Rightarrow> hunklib \<Rightarrow> jsval list \<Rightarrow> ('w, jout) js" where
  "JABChunkVerb E A M H argv =
     hunk_getter E A M H ''hunk._verb(buf, recOff)'' (\<lambda>c hk. jret (JVal (JABCBigU64 (hk_verb hk)))) argv"

definition JABChunkTime :: "'w engine \<Rightarrow> abc \<Rightarrow> 'w memory \<Rightarrow> hunklib \<Rightarrow> jsval list \<Rightarrow> ('w, jout) js" where
  "JABChunkTime E A M H argv =
     hunk_getter E A M H ''hunk._time(buf, recOff)'' (\<lambda>c hk. jret (JVal (JABCBigU64 (hk_time hk)))) argv"

text \<open>The record is unwrapped first, then the output; the mode picks the renderer.\<close>

definition JABChunkRender :: "'w engine \<Rightarrow> abc \<Rightarrow> 'w memory \<Rightarrow> hunklib \<Rightarrow> jsval list \<Rightarrow> ('w, jout) js" where
  "JABChunkRender E A M H argv =
     need 5 ''hunk._render(buf, recOff, out, outOff, mode)'' argv
     (jbind (or_undef (JABChunkAt E A M H (argv ! 0) (argv ! 1))) (\<lambda>r.
      case r of
        None \<Rightarrow> jthrow (ThrowError ''hunk.render: bad record'')
      | Some (c, hk) \<Rightarrow>
          jbind (idle_from E A (argv ! 2) (argv ! 3)) (\<lambda>out.
          jbind (JABCu32Of E (argv ! 4)) (\<lambda>mode.
          jbind (data_of M c) (\<lambda>rec.
          let call = (if mode = 3 then HUNKu8sFeedHtml H else if mode = 1 then HUNKu8sFeedColor H
                      else HUNKu8sFeedText H) in
          jbind (emit_or M ''hunk.render: out full'' out (call rec (idle_len out))) (\<lambda>out'.
          js_num (data_len out' - data_len out)))))))"

end
