(* ===== verification/Ulog.thy ===== *)
theory Ulog
  imports Logs
begin

text \<open>
  \<open>ulog.c\<close>: the append-only log of rows (time, verb, URI), one line each, without an index.  The row
  codec of libdog, the RON60 codec and the URI parser are the fields of \<open>uloglib\<close>, a parsed URI is of
  the type \<open>'u\<close>; the boxes of the file-backed logs are in \<open>ulogfile\<close>.
\<close>

section \<open>Rows\<close>

record 'u ulogrec =
  ul_ts :: u64
  ul_verb :: u64
  ul_uri :: 'u

record 'u uloglib =
  ULOGu8sFeed :: "'u ulogrec \<Rightarrow> nat \<Rightarrow> ok64 \<times> u8 list"
  ULOGu8sDrain :: "u8 list \<Rightarrow> (ok64 \<times> 'u ulogrec) \<times> nat"
    \<comment> \<open>the code, the row, and how far the front of the slice moved\<close>
  RONutf8sDrain :: "u8 list \<Rightarrow> u64"
  RONutf8sFeed :: "u64 \<Rightarrow> u8 list"
  URILexer :: "u8 list \<Rightarrow> ok64 \<times> 'u"
  DOGCanonURI :: "'u \<Rightarrow> ok64 \<times> 'u"
  URIMake :: "'u \<Rightarrow> nat \<Rightarrow> ok64 \<times> u8 list"
  uri_parts :: "'u \<Rightarrow> nat"               \<comment> \<open>the bytes of the five components\<close>
  malloc_fits :: "nat \<Rightarrow> bool"

definition JABCulogUriText :: "'u uloglib \<Rightarrow> nat \<Rightarrow> 'u \<Rightarrow> u8 list" where
  "JABCulogUriText L room u = (case URIMake L u room of (o', t) \<Rightarrow> if o' \<noteq> OK then [] else t)"

definition JABCulogUriStr :: "'u uloglib \<Rightarrow> 'u ulogrec \<Rightarrow> ('w, jout) js" where
  "JABCulogUriStr L r =
     (let bound = 3 * uri_parts L (ul_uri r) + 16 in
      if 2048 < bound \<and> \<not> malloc_fits L bound then jthrow (ThrowError ''ulog uri: out of memory'')
      else js_str (string_of (JABCulogUriText L (if 2048 < bound then bound else 2048) (ul_uri r))))"

definition NL :: u8 where "NL = 10"

text \<open>\<open>while (j > 0 && base[j - 1] != '\\n') j--\<close>; the row that ends before an offset above 0.\<close>

fun line_start :: "u8 list \<Rightarrow> nat \<Rightarrow> nat" where
  "line_start base 0 = 0"
| "line_start base (Suc j) = (if base ! j \<noteq> NL then line_start base j else Suc j)"

definition JABCulogPrevRow :: "u8 list \<Rightarrow> nat \<Rightarrow> nat option" where
  "JABCulogPrevRow base off = (if off = 0 then None else Some (line_start base (off - 1)))"

definition JABCulogUriGate :: "'u uloglib \<Rightarrow> u8 list \<Rightarrow> 'u option" where
  "JABCulogUriGate L us =
     (case URILexer L us of (o1, u) \<Rightarrow>
        if o1 \<noteq> OK then None
        else case DOGCanonURI L u of (o2, u') \<Rightarrow> if o2 = OK then Some u' else None)"

section \<open>The leaves over a byte array\<close>

text \<open>The verb and the URI of a row to be written; the code of the RON60 parse is not looked at.\<close>

definition row_args :: "'w engine \<Rightarrow> abc \<Rightarrow> 'w memory \<Rightarrow> 'u uloglib \<Rightarrow> jsval \<Rightarrow> jsval \<Rightarrow>
    ('w, u64 \<times> u8 list) js" where
  "row_args E A M L verbv uriv =
     jbind (JABChunkArgU8 E A M 16 verbv) (\<lambda>vs.
     jbind (JABChunkArgU8 E A M (FILE_PATH_MAX_LEN A) uriv) (\<lambda>us.
     jret (RONutf8sDrain L vs, us)))"

definition JABCulogFeed :: "'w engine \<Rightarrow> abc \<Rightarrow> 'w memory \<Rightarrow> 'u uloglib \<Rightarrow> ('w \<Rightarrow> u64 \<times> 'w) \<Rightarrow>
    jsval list \<Rightarrow> ('w, jout) js" where
  "JABCulogFeed E A M L RONNow argv =
     need 4 ''ulog._feed(buf, off, verb, uri, ts)'' argv
     (jbind (idle_from E A (argv ! 0) (argv ! 1)) (\<lambda>c.
      jbind (row_args E A M L (argv ! 2) (argv ! 3)) (\<lambda>(verb, us).
      jbind (\<lambda>w. case RONNow w of (t, w') \<Rightarrow> (Inr t, w')) (\<lambda>now.
      jbind (if 4 < length argv \<and> argv ! 4 \<noteq> JUndef then JABCBigU64Of E (argv ! 4) else jret now) (\<lambda>ts.
      case JABCulogUriGate L us of
        None \<Rightarrow> jthrow (ThrowError ''ulog._feed: malformed uri'')
      | Some u \<Rightarrow>
          jbind (emit_or M ''ulog: feed (full?)'' c
            (ULOGu8sFeed L \<lparr>ul_ts = ts, ul_verb = verb, ul_uri = u\<rparr> (idle_len c))) (\<lambda>c.
          js_num (data_len c)))))))"

definition JABCulogNow :: "('w \<Rightarrow> u64 \<times> 'w) \<Rightarrow> ('w, jout) js" where
  "JABCulogNow RONNow = (\<lambda>w. case RONNow w of (t, w') \<Rightarrow> (Inr (JVal (JABCBigU64 t)), w'))"

definition ulog_end :: "'u uloglib \<Rightarrow> u8 list \<Rightarrow> nat \<Rightarrow> nat option" where
  "ulog_end L from off = (case ULOGu8sDrain L from of ((o', r), n) \<Rightarrow> if o' \<noteq> OK then None else Some (off + n))"

definition JABCulogNext :: "'w engine \<Rightarrow> abc \<Rightarrow> 'w memory \<Rightarrow> slicer \<Rightarrow> 'u uloglib \<Rightarrow> jsval list \<Rightarrow> ('w, jout) js" where
  "JABCulogNext E A M C L argv =
     log_next E A M ''ulog._next(buf, off, dataLen)''
       (\<lambda>bs off dl. jbind (sub_or C ''ulog: the row range is out of range'' bs off dl) (\<lambda>from.
          jret (ulog_end L from off))) argv"

definition JABCulogAt :: "'w engine \<Rightarrow> abc \<Rightarrow> 'w memory \<Rightarrow> 'u uloglib \<Rightarrow> jsval \<Rightarrow> jsval \<Rightarrow> ('w, u8b \<times> 'u ulogrec) js" where
  "JABCulogAt E A M L bufv offv = log_at E A M (ULOGu8sDrain L) bufv offv"

definition ulog_getter :: "'w engine \<Rightarrow> abc \<Rightarrow> 'w memory \<Rightarrow> 'u uloglib \<Rightarrow>
    ('u ulogrec \<Rightarrow> ('w, jout) js) \<Rightarrow> jsval list \<Rightarrow> ('w, jout) js" where
  "ulog_getter E A M L get argv =
     (if length argv < 2 then js_undef
      else jbind (or_undef (JABCulogAt E A M L (argv ! 0) (argv ! 1))) (\<lambda>r.
           case r of None \<Rightarrow> js_undef | Some (c, x) \<Rightarrow> get x))"

definition JABCulogTime :: "'w engine \<Rightarrow> abc \<Rightarrow> 'w memory \<Rightarrow> 'u uloglib \<Rightarrow> jsval list \<Rightarrow> ('w, jout) js" where
  "JABCulogTime E A M L argv = ulog_getter E A M L (\<lambda>r. jret (JVal (JABCBigU64 (ul_ts r)))) argv"

definition JABCulogVerb :: "'w engine \<Rightarrow> abc \<Rightarrow> 'w memory \<Rightarrow> 'u uloglib \<Rightarrow> jsval list \<Rightarrow> ('w, jout) js" where
  "JABCulogVerb E A M L argv = ulog_getter E A M L (\<lambda>r. js_str (string_of (RONutf8sFeed L (ul_verb r)))) argv"

definition JABCulogUri :: "'w engine \<Rightarrow> abc \<Rightarrow> 'w memory \<Rightarrow> 'u uloglib \<Rightarrow> jsval list \<Rightarrow> ('w, jout) js" where
  "JABCulogUri E A M L argv = ulog_getter E A M L (JABCulogUriStr L) argv"

section \<open>The scans\<close>

datatype want = ByVerb u64 | ByTime u64 | ByUri "u8 list"

text \<open>The URI is rendered into 2048 bytes; one that does not fit has the empty text.\<close>

definition row_hit :: "'u uloglib \<Rightarrow> bool \<Rightarrow> want \<Rightarrow> 'u ulogrec \<Rightarrow> bool" where
  "row_hit L back want r =
     (case want of
        ByVerb v \<Rightarrow> ul_verb r = v
      | ByTime t \<Rightarrow> if back then ul_ts r \<le> t else t \<le> ul_ts r
      | ByUri pfx \<Rightarrow> (let text = JABCulogUriText L 2048 (ul_uri r) in
          length pfx \<le> length text \<and> take (length pfx) text = pfx))"

text \<open>
  A slice whose front lies past its end is no slice: what the library does with it is undefined.
\<close>

definition row_at :: "'u uloglib \<Rightarrow> u8 list \<Rightarrow> nat \<Rightarrow> nat \<Rightarrow> exn + (ok64 \<times> 'u ulogrec) \<times> nat" where
  "row_at L base cur dl =
     (if dl < cur then Inl CUndef else Inr (ULOGu8sDrain L (take (dl - cur) (drop cur base))))"

function scan_forward :: "'u uloglib \<Rightarrow> want \<Rightarrow> u8 list \<Rightarrow> nat \<Rightarrow> nat \<Rightarrow> exn + nat option" where
  "scan_forward L want base dl cur =
     (if \<not> cur < dl then Inr None
      else case row_at L base cur dl of
        Inl e \<Rightarrow> Inl e
      | Inr ((o', r), n) \<Rightarrow>
          if o' = OK \<and> row_hit L False want r then Inr (Some cur)
          else if cur + n \<le> cur then Inr None
          else scan_forward L want base dl (cur + n))"
  by pat_completeness auto
termination by (relation "measure (\<lambda>(L, want, base, dl, cur). dl - cur)") auto

declare scan_forward.simps [simp del]

lemma line_start_le: "line_start base j \<le> j"
  by (induction j) auto

function scan_back :: "'u uloglib \<Rightarrow> want \<Rightarrow> u8 list \<Rightarrow> nat \<Rightarrow> nat \<Rightarrow> exn + nat option" where
  "scan_back L want base dl cur =
     (case JABCulogPrevRow base cur of
        None \<Rightarrow> Inr None
      | Some rs \<Rightarrow>
          if cur \<le> rs then Inr None
          else case row_at L base rs dl of
            Inl e \<Rightarrow> Inl e
          | Inr ((o', r), n) \<Rightarrow>
              if o' = OK \<and> row_hit L True want r then Inr (Some rs)
              else scan_back L want base dl rs)"
  by pat_completeness auto
termination by (relation "measure (\<lambda>(L, want, base, dl, cur). cur)") auto

declare scan_back.simps [simp del]

definition JABCulogScan :: "'u uloglib \<Rightarrow> want \<Rightarrow> bool \<Rightarrow> u8 list \<Rightarrow> nat \<Rightarrow> nat \<Rightarrow> exn + nat option" where
  "JABCulogScan L want back base off dl =
     (if back then scan_back L want base dl off else scan_forward L want base dl off)"

text \<open>The common head of the three seeks, and the search with what the fourth argument asks for.\<close>

definition ulog_seek :: "'w engine \<Rightarrow> abc \<Rightarrow> 'w memory \<Rightarrow> 'u uloglib \<Rightarrow> (jsval \<Rightarrow> ('w, want) js) \<Rightarrow>
    jsval list \<Rightarrow> ('w, jout) js" where
  "ulog_seek E A M L arg argv =
     need 4 ''ulog._seek(buf, off, dataLen, arg, rev)'' argv
     (jbind (JABCDataOf E A (argv ! 0)) (\<lambda>c.
      jbind (JABCOffOf E (data_len c) (argv ! 1)) (\<lambda>off.
      jbind (JABCOffOf E (data_len c) (argv ! 2)) (\<lambda>dl.
      let back = (4 < length argv \<and> to_bool (argv ! 4)) in
      jbind (arg (argv ! 3)) (\<lambda>want.
      jbind (data_of M c) (\<lambda>base.
      jbind (jlift (JABCulogScan L want back base off dl)) js_opt_nat))))))"

definition JABCulogSeekVerb :: "'w engine \<Rightarrow> abc \<Rightarrow> 'w memory \<Rightarrow> 'u uloglib \<Rightarrow> jsval list \<Rightarrow> ('w, jout) js" where
  "JABCulogSeekVerb E A M L argv =
     ulog_seek E A M L (\<lambda>v. jbind (JABChunkArgU8 E A M 16 v) (\<lambda>vs. jret (ByVerb (RONutf8sDrain L vs)))) argv"

definition JABCulogSeekTime :: "'w engine \<Rightarrow> abc \<Rightarrow> 'w memory \<Rightarrow> 'u uloglib \<Rightarrow> jsval list \<Rightarrow> ('w, jout) js" where
  "JABCulogSeekTime E A M L argv =
     ulog_seek E A M L (\<lambda>v. jbind (JABCBigU64Of E v) (\<lambda>t. jret (ByTime t))) argv"

definition JABCulogSeekURI :: "'w engine \<Rightarrow> abc \<Rightarrow> 'w memory \<Rightarrow> 'u uloglib \<Rightarrow> jsval list \<Rightarrow> ('w, jout) js" where
  "JABCulogSeekURI E A M L argv =
     ulog_seek E A M L (\<lambda>v. jbind (JABChunkArgU8 E A M 2048 v) (\<lambda>ps. jret (ByUri ps))) argv"

section \<open>The file-backed log\<close>

text \<open>
  A handle is the address of a box on the C heap, handed to JavaScript as a number; \<open>live_box\<close> says
  which addresses are boxes.
\<close>

record ('w, 'u) ulogfile =
  calloc_box :: "'w \<Rightarrow> addr option \<times> 'w"
  free_box :: "addr \<Rightarrow> 'w \<Rightarrow> 'w"
  live_box :: "'w \<Rightarrow> addr \<Rightarrow> bool"
  ULOGOpen :: "addr \<Rightarrow> u8 list \<Rightarrow> 'w \<Rightarrow> ok64 \<times> 'w"
  ULOGAppendAt :: "addr \<Rightarrow> 'u ulogrec \<Rightarrow> 'w \<Rightarrow> ok64 \<times> 'w"
  ULOGCount :: "'w \<Rightarrow> addr \<Rightarrow> nat"
  ULOGRow :: "'w \<Rightarrow> addr \<Rightarrow> u32 \<Rightarrow> ok64 \<times> 'u ulogrec"
  ULOGClose :: "addr \<Rightarrow> 'w \<Rightarrow> 'w"

definition JABCulogPath :: "'w engine \<Rightarrow> abc \<Rightarrow> 'w memory \<Rightarrow> nat \<Rightarrow> jsval \<Rightarrow> ('w, (u8 list) option) js" where
  "JABCulogPath E A M room v =
     jbind (JABChunkArgU8 E A M room v) (\<lambda>p.
     jret (if room \<le> length p + 1 then None else Some (p @ [0])))"

text \<open>A path that is too long fails with no exception set: the engine sees its exception value all the same.\<close>

definition JABCulogOpen :: "'w engine \<Rightarrow> abc \<Rightarrow> 'w memory \<Rightarrow> ('w, 'u) ulogfile \<Rightarrow> jsval list \<Rightarrow> ('w, jout) js" where
  "JABCulogOpen E A M B argv =
     need 1 ''ulog._open(path)'' argv
     (jbind (JABCulogPath E A M (FILE_PATH_MAX_LEN A) (argv ! 0)) (\<lambda>p.
      case p of
        None \<Rightarrow> jthrow (ThrowVal JUndef)
      | Some path \<Rightarrow> (\<lambda>w.
          case calloc_box B w of
            (None, w1) \<Rightarrow> (Inl (ThrowError ''ulog._open: oom''), w1)
          | (Some h, w1) \<Rightarrow>
              (case ULOGOpen B h path w1 of (o', w2) \<Rightarrow>
                 if o' \<noteq> OK then (Inl (ThrowError ''ulog._open failed''), free_box B h w2)
                 else (Inr (JVal (JNum (js_nat h))), w2)))))"

definition JABCulogHandle :: "'w engine \<Rightarrow> jsval \<Rightarrow> ('w, addr option) js" where
  "JABCulogHandle E v = (\<lambda>w.
     case to_number E v w of
       (Inl e, w') \<Rightarrow> if e = CUndef then (Inl e, w') else (Inr None, w')
     | (Inr d, w') \<Rightarrow> if num_le d (Fin 0) then (Inr None, w') else jbind (as_size d) (\<lambda>n. jret (Some n)) w')"

definition handle_or :: "'w engine \<Rightarrow> string \<Rightarrow> jsval \<Rightarrow> ('w, addr) js" where
  "handle_or E msg v = jbind (JABCulogHandle E v) (\<lambda>h.
     case h of None \<Rightarrow> jthrow (ThrowError msg) | Some a \<Rightarrow> jret a)"

text \<open>The use of a handle: nothing but the number says that there is a box.\<close>

definition deref :: "('w, 'u) ulogfile \<Rightarrow> addr \<Rightarrow> ('w, unit) js" where
  "deref B h = (\<lambda>w. if live_box B w h then (Inr (), w) else (Inl CUndef, w))"

definition JABCulogAppend :: "'w engine \<Rightarrow> abc \<Rightarrow> 'w memory \<Rightarrow> 'u uloglib \<Rightarrow> ('w, 'u) ulogfile \<Rightarrow>
    jsval list \<Rightarrow> ('w, jout) js" where
  "JABCulogAppend E A M L B argv =
     need 4 ''ulog._append(handle, ts, verb, uri)'' argv
     (jbind (handle_or E ''ulog._append: bad handle'' (argv ! 0)) (\<lambda>h.
      jbind (JABCBigU64Of E (argv ! 1)) (\<lambda>ts.
      jbind (row_args E A M L (argv ! 2) (argv ! 3)) (\<lambda>(verb, us).
      case JABCulogUriGate L us of
        None \<Rightarrow> jthrow (ThrowError ''ulog._append: malformed uri'')
      | Some u \<Rightarrow>
          jbind (deref B h) (\<lambda>_.
          jbind (\<lambda>w. case ULOGAppendAt B h \<lparr>ul_ts = ts, ul_verb = verb, ul_uri = u\<rparr> w of (o', w') \<Rightarrow> (Inr o', w')) (\<lambda>o'.
          jbind (or_msg ''ulog._append (clock/full?)'' o') (\<lambda>_.
          jret (JVal (JABCBigU64 ts)))))))))"

definition JABCulogCount :: "'w engine \<Rightarrow> ('w, 'u) ulogfile \<Rightarrow> jsval list \<Rightarrow> ('w, jout) js" where
  "JABCulogCount E B argv =
     need 1 ''ulog._count(handle)'' argv
     (jbind (handle_or E ''ulog._count: bad handle'' (argv ! 0)) (\<lambda>h.
      jbind (deref B h) (\<lambda>_. jbind (jget (\<lambda>w. ULOGCount B w h)) js_num)))"

text \<open>A row of the file: the index may be an object, so its conversion may run JavaScript.\<close>

definition file_row :: "'w engine \<Rightarrow> ('w, 'u) ulogfile \<Rightarrow> string \<Rightarrow> string \<Rightarrow> ('u ulogrec \<Rightarrow> ('w, jout) js) \<Rightarrow>
    jsval list \<Rightarrow> ('w, jout) js" where
  "file_row E B usage bad get argv =
     need 2 usage argv
     (jbind (handle_or E bad (argv ! 0)) (\<lambda>h.
      jbind (to_number E (argv ! 1)) (\<lambda>d.
      jbind (cast_or_undef 0 (2 ^ 32 - 1) d) (\<lambda>i.
      jbind (deref B h) (\<lambda>_.
      jbind (jget (\<lambda>w. ULOGRow B w h (word_of_int i))) (\<lambda>(o', r).
      if o' \<noteq> OK then js_undef else get r))))))"

definition JABCulogRowUri :: "'w engine \<Rightarrow> 'u uloglib \<Rightarrow> ('w, 'u) ulogfile \<Rightarrow> jsval list \<Rightarrow> ('w, jout) js" where
  "JABCulogRowUri E L B argv =
     file_row E B ''ulog._rowUri(handle, i)'' ''ulog._rowUri: bad handle'' (JABCulogUriStr L) argv"

definition JABCulogRowTime :: "'w engine \<Rightarrow> ('w, 'u) ulogfile \<Rightarrow> jsval list \<Rightarrow> ('w, jout) js" where
  "JABCulogRowTime E B argv =
     file_row E B ''ulog._rowTime(handle, i)'' ''ulog._rowTime: bad handle''
       (\<lambda>r. jret (JVal (JABCBigU64 (ul_ts r)))) argv"

definition JABCulogClose :: "'w engine \<Rightarrow> ('w, 'u) ulogfile \<Rightarrow> jsval list \<Rightarrow> ('w, jout) js" where
  "JABCulogClose E B argv =
     need 1 ''ulog._close(handle)'' argv
     (jbind (handle_or E ''ulog._close: bad handle'' (argv ! 0)) (\<lambda>h.
      jbind (deref B h) (\<lambda>_.
      jbind (jput (\<lambda>w. free_box B h (ULOGClose B h w))) (\<lambda>_. js_undef))))"

end
