(* ===== verification/Packs.thy ===== *)
theory Packs
  imports Logs
begin

text \<open>
  \<open>pack.c\<close>: the leaves over a git pack log (a header and deflated records, addressed by offset), the
  delta codec, the parsers of trees and commits, and the one-call repack of a stream.  libdog's
  functions are the fields of \<open>packlib\<close>; the repack's run is a schedule of bursts, between which the
  progress handler, which is JavaScript, may do anything.
\<close>

section \<open>The library\<close>

record packobj =
  po_type :: nat
  po_size :: u64
  ofs_delta :: u64
  ref_delta :: "u8 list"

record treeent =
  te_file :: "nat \<times> nat"   \<comment> \<open>start and length of \<open><mode> <name>\<close> in the bytes given\<close>
  te_sha :: "u8 list"
  te_mode :: u32

record packlib =
  PACKu8sFeedHdr :: "u32 \<Rightarrow> nat \<Rightarrow> ok64 \<times> u8 list"
  PACKDrainHdr :: "u8 list \<Rightarrow> ok64 \<times> u32"
  PACKu8sFeedObj :: "u8 \<Rightarrow> u8 list \<Rightarrow> u8 list \<Rightarrow> u64 \<Rightarrow> u64 \<Rightarrow> nat \<Rightarrow> nat \<Rightarrow> (ok64 \<times> u8 list) \<times> u8 list"
    \<comment> \<open>type, content, base, offset, offset of the base, the room in the log and in the delta scratch;
       the record, and what the scratch holds after it\<close>
  PACKDrainObjHdr :: "u8 list \<Rightarrow> (ok64 \<times> packobj) \<times> nat"
  PACKRecordEnd :: "u8 list \<Rightarrow> u64 \<Rightarrow> ok64 \<times> u64"
  PACKInflate :: "u8 list \<Rightarrow> u64 \<Rightarrow> nat \<Rightarrow> ok64 \<times> u8 list"
  PACKResolveOfs :: "u8 list \<Rightarrow> u64 \<Rightarrow> nat \<Rightarrow> nat \<Rightarrow> (ok64 \<times> u8 list) \<times> u8 list \<times> u8 list"
    \<comment> \<open>the object, and what the two scratches hold after it\<close>
  DELTApply :: "u8 list \<Rightarrow> u8 list \<Rightarrow> nat \<Rightarrow> ok64 \<times> u8 list"
  DELTEncode :: "u8 list \<Rightarrow> u8 list \<Rightarrow> nat \<Rightarrow> ok64 \<times> u8 list"
  PIDXScan :: "u8 list \<Rightarrow> nat \<Rightarrow> nat \<Rightarrow> nat \<Rightarrow> (ok64 \<times> u8 list) \<times> u8 list \<times> u8 list"
    \<comment> \<open>the pack, the entries there is room for, the room of the scratches\<close>
  PIDXFeedEmit :: "u8 \<Rightarrow> u8 list \<Rightarrow> u64 \<Rightarrow> ok64 \<times> u8 list"
  GITu8sDrainTree :: "u8 list \<Rightarrow> (ok64 \<times> treeent) \<times> nat"
  GITu8sFileSplit :: "u8 list \<Rightarrow> nat \<times> nat"   \<comment> \<open>where the name starts and ends\<close>
  GITu8sCommitTree :: "u8 list \<Rightarrow> ok64 \<times> u8 list"
  GITu8sDrainCommit :: "u8 list \<Rightarrow> (ok64 \<times> u8 list \<times> u8 list) \<times> nat"
  HEXu8sFeedSome :: "u8 list \<Rightarrow> u8 list"
  GIT_FIELD_PARENT :: "u8 list"
  GIT_FIELD_FOSTER :: "u8 list"
  GIT_FIELD_AUTHOR :: "u8 list"
  GIT_FIELD_COMMITTER :: "u8 list"
  to_double :: "u64 \<Rightarrow> jsnum"                  \<comment> \<open>\<open>(double)\<close> of a u64, rounded above \<open>2 ^ 53\<close>\<close>

definition PACK_OBJ_OFS_DELTA :: nat where "PACK_OBJ_OFS_DELTA = 6"
definition PACK_OBJ_REF_DELTA :: nat where "PACK_OBJ_REF_DELTA = 7"
definition WH128 :: nat where "WH128 = 16"

definition JABCHexOf :: "packlib \<Rightarrow> u8 list \<Rightarrow> jsval" where
  "JABCHexOf P bs = JStr (string_of (HEXu8sFeedSome P bs))"

definition aligned :: "addr \<Rightarrow> bool" where "aligned a \<longleftrightarrow> a mod 8 = 0"

section \<open>Writing\<close>

definition JABCpackHeader :: "'w engine \<Rightarrow> abc \<Rightarrow> 'w memory \<Rightarrow> packlib \<Rightarrow> jsval list \<Rightarrow> ('w, jout) js" where
  "JABCpackHeader E A M P argv =
     need 3 ''pack._header(buf, off, count)'' argv
     (jbind (idle_from E A (argv ! 0) (argv ! 1)) (\<lambda>c.
      jbind (JABCu32Of E (argv ! 2)) (\<lambda>n_objs.
      jbind (emit_or M ''pack: header'' c (PACKu8sFeedHdr P n_objs (idle_len c))) (\<lambda>c.
      js_num (data_len c)))))"

definition JABCpackCount :: "'w engine \<Rightarrow> abc \<Rightarrow> 'w memory \<Rightarrow> packlib \<Rightarrow> jsval list \<Rightarrow> ('w, jout) js" where
  "JABCpackCount E A M P argv =
     need 1 ''pack._count(buf)'' argv
     (jbind (JABCDataOf E A (argv ! 0)) (\<lambda>c.
      jbind (data_of M c) (\<lambda>bs.
      case PACKDrainHdr P bs of (o', n_objs) \<Rightarrow>
        if o' \<noteq> OK then jthrow (ThrowError ''pack: bad header'') else js_num (unat n_objs))))"

text \<open>An argument that may be absent leaves an empty buffer.\<close>

definition no_buf :: u8b where "no_buf = \<lparr>b0 = 0, b1 = 0, b2 = 0, b3 = 0\<rparr>"

definition optional :: "nat \<Rightarrow> (jsval \<Rightarrow> ('w, 'a) js) \<Rightarrow> 'a \<Rightarrow> jsval list \<Rightarrow> ('w, 'a) js" where
  "optional i gate dflt argv = (if i < length argv then gate (argv ! i) else jret dflt)"

definition JABCpackFeed :: "'w engine \<Rightarrow> abc \<Rightarrow> 'w memory \<Rightarrow> packlib \<Rightarrow> jsval list \<Rightarrow> ('w, jout) js" where
  "JABCpackFeed E A M P argv =
     need 4 ''pack._feed(buf, off, type, content, base, baseOff, delta)'' argv
     (jbind (idle_from E A (argv ! 0) (argv ! 1)) (\<lambda>logb.
      let off = data_len logb in
      jbind (JABCu8Of E (argv ! 2)) (\<lambda>type.
      jbind (JABCDataOf E A (argv ! 3)) (\<lambda>contentb.
      jbind (optional 4 (JABCDataOf E A) no_buf argv) (\<lambda>baseb.
      jbind (optional 5 (JABCi64Of E) (- 1) argv) (\<lambda>bod.
      let base_off = (if 0 \<le> sint bod then bod else word_of_nat off) in
      jbind (optional 6 (JABCIdleOf E A) no_buf argv) (\<lambda>deltab.
      jbind (data_of M contentb) (\<lambda>content.
      jbind (data_of M baseb) (\<lambda>base.
      case PACKu8sFeedObj P type content base (word_of_nat off) base_off (idle_len logb) (idle_len deltab) of
        (r, scratch) \<Rightarrow>
          jbind (jput (poke M (b2 deltab) scratch)) (\<lambda>_.
          jbind (emit_or M ''pack: feed (full?)'' logb r) (\<lambda>logb.
          js_num (busy_len logb))))))))))))"

section \<open>Reading\<close>

definition JABCpackAt :: "'w engine \<Rightarrow> abc \<Rightarrow> 'w memory \<Rightarrow> packlib \<Rightarrow> jsval \<Rightarrow> jsval \<Rightarrow> ('w, u8b \<times> packobj) js" where
  "JABCpackAt E A M P bufv offv = log_at E A M (PACKDrainObjHdr P) bufv offv"

definition JABCpackNext :: "'w engine \<Rightarrow> abc \<Rightarrow> 'w memory \<Rightarrow> slicer \<Rightarrow> packlib \<Rightarrow> jsval list \<Rightarrow> ('w, jout) js" where
  "JABCpackNext E A M C P argv =
     log_next E A M ''pack._next(buf, off, dataLen)''
       (\<lambda>bs off dl. jbind (sub_or C ''pack: the data length is out of range'' bs 0 dl) (\<lambda>pack.
          case PACKRecordEnd P pack (word_of_nat off) of
            (o', end) \<Rightarrow> jret (if o' \<noteq> OK then None else Some (unat end)))) argv"

definition pack_getter :: "'w engine \<Rightarrow> abc \<Rightarrow> 'w memory \<Rightarrow> packlib \<Rightarrow> (u8b \<Rightarrow> packobj \<Rightarrow> ('w, jout) js) \<Rightarrow>
    jsval list \<Rightarrow> ('w, jout) js" where
  "pack_getter E A M P get argv =
     (if length argv < 2 then js_undef
      else jbind (or_undef (JABCpackAt E A M P (argv ! 0) (argv ! 1))) (\<lambda>r.
           case r of None \<Rightarrow> js_undef | Some (c, o') \<Rightarrow> get c o'))"

definition JABCpackType :: "'w engine \<Rightarrow> abc \<Rightarrow> 'w memory \<Rightarrow> packlib \<Rightarrow> jsval list \<Rightarrow> ('w, jout) js" where
  "JABCpackType E A M P argv = pack_getter E A M P (\<lambda>c o'. js_num (po_type o')) argv"

definition JABCpackSize :: "'w engine \<Rightarrow> abc \<Rightarrow> 'w memory \<Rightarrow> packlib \<Rightarrow> jsval list \<Rightarrow> ('w, jout) js" where
  "JABCpackSize E A M P argv = pack_getter E A M P (\<lambda>c o'. jret (JVal (JNum (to_double P (po_size o'))))) argv"

text \<open>The difference is one of 64-bit words.\<close>

definition JABCpackBaseOff :: "'w engine \<Rightarrow> abc \<Rightarrow> 'w memory \<Rightarrow> packlib \<Rightarrow> jsval list \<Rightarrow> ('w, jout) js" where
  "JABCpackBaseOff E A M P argv = pack_getter E A M P (\<lambda>c o'.
     if po_type o' \<noteq> PACK_OBJ_OFS_DELTA then jret (JVal (JNum (js_int (- 1))))
     else jret (JVal (JNum (to_double P (word_of_nat (past_len c) - ofs_delta o'))))) argv"

definition JABCpackRef :: "'w engine \<Rightarrow> abc \<Rightarrow> 'w memory \<Rightarrow> packlib \<Rightarrow> jsval list \<Rightarrow> ('w, jout) js" where
  "JABCpackRef E A M P argv = pack_getter E A M P (\<lambda>c o'.
     if po_type o' \<noteq> PACK_OBJ_REF_DELTA then js_undef else jret (JBytes (ref_delta o'))) argv"

definition JABCpackInflate :: "'w engine \<Rightarrow> abc \<Rightarrow> 'w memory \<Rightarrow> packlib \<Rightarrow> jsval list \<Rightarrow> ('w, jout) js" where
  "JABCpackInflate E A M P argv =
     need 4 ''pack._inflate(buf, recOff, out, outOff)'' argv
     (jbind (or_undef (JABCpackAt E A M P (argv ! 0) (argv ! 1))) (\<lambda>r.
      case r of
        None \<Rightarrow> jthrow (ThrowError ''pack: bad record'')
      | Some (c, _) \<Rightarrow>
          jbind (idle_from E A (argv ! 2) (argv ! 3)) (\<lambda>out.
          jbind (data_of M c) (\<lambda>from.
          case PACKDrainObjHdr P from of ((_, tmp), n) \<Rightarrow>
            jbind (emit_or M ''pack: inflate (out full?)'' out
              (PACKInflate P (drop n from) (po_size tmp) (idle_len out))) (\<lambda>_.
            jret (JVal (JNum (to_double P (po_size tmp)))))))))"

text \<open>The object comes back as a copy; the scratches keep what the chase left in them.\<close>

definition JABCpackResolve :: "'w engine \<Rightarrow> abc \<Rightarrow> 'w memory \<Rightarrow> packlib \<Rightarrow> jsval list \<Rightarrow> ('w, jout) js" where
  "JABCpackResolve E A M P argv =
     need 4 ''pack._resolve(buf, recOff, base, delta)'' argv
     (jbind (JABCDataOf E A (argv ! 0)) (\<lambda>c.
      jbind (JABCOffOf E (data_len c) (argv ! 1)) (\<lambda>rec.
      jbind (JABCIdleOf E A (argv ! 2)) (\<lambda>base.
      jbind (JABCIdleOf E A (argv ! 3)) (\<lambda>delta.
      jbind (data_of M c) (\<lambda>pack.
      case PACKResolveOfs P pack (word_of_nat rec) (idle_len base) (idle_len delta) of
        ((r, out), sb, sd) \<Rightarrow>
          jbind (jput (\<lambda>w. poke M (b2 delta) sd (poke M (b2 base) sb w))) (\<lambda>_.
          if r = NOROOM then jthrow (ThrowError ''pack: resolve NOROOM'')
          else if r = PACKREF then jthrow (ThrowError ''pack: resolve ref-delta'')
          else if r \<noteq> OK then jthrow (ThrowError ''pack: resolve'')
          else jret (JBytes out))))))))"

definition JABCdeltApply :: "'w engine \<Rightarrow> abc \<Rightarrow> 'w memory \<Rightarrow> packlib \<Rightarrow> jsval list \<Rightarrow> ('w, jout) js" where
  "JABCdeltApply E A M P argv =
     need 4 ''delt._apply(base, delta, out, outOff)'' argv
     (jbind (JABCDataOf E A (argv ! 0)) (\<lambda>baseb.
      jbind (JABCDataOf E A (argv ! 1)) (\<lambda>deltab.
      jbind (idle_from E A (argv ! 2) (argv ! 3)) (\<lambda>outb.
      jbind (data_of M baseb) (\<lambda>base.
      jbind (data_of M deltab) (\<lambda>delta.
      jbind (emit_or M ''delt: apply (out full?)'' outb (DELTApply P delta base (idle_len outb))) (\<lambda>outb'.
      js_num (data_len outb' - data_len outb))))))))"

definition JABCdeltEncode :: "'w engine \<Rightarrow> abc \<Rightarrow> 'w memory \<Rightarrow> packlib \<Rightarrow> jsval list \<Rightarrow> ('w, jout) js" where
  "JABCdeltEncode E A M P argv =
     need 4 ''delt._encode(base, target, out, outOff)'' argv
     (jbind (JABCDataOf E A (argv ! 0)) (\<lambda>baseb.
      jbind (JABCDataOf E A (argv ! 1)) (\<lambda>targetb.
      jbind (idle_from E A (argv ! 2) (argv ! 3)) (\<lambda>outb.
      jbind (data_of M baseb) (\<lambda>base.
      jbind (data_of M targetb) (\<lambda>target.
      case DELTEncode P base target (idle_len outb) of (r, bs) \<Rightarrow>
        jbind (into_idle M outb bs) (\<lambda>outb'.
        if r = DELTFAIL then jret (JVal (JNum (js_int (- 1))))
        else if r \<noteq> OK then jthrow (ThrowError ''delt: encode'')
        else js_num (data_len outb' - data_len outb))))))))"

section \<open>Index entries\<close>

definition JABCpackScan :: "'w engine \<Rightarrow> abc \<Rightarrow> 'w memory \<Rightarrow> slicer \<Rightarrow> packlib \<Rightarrow> jsval list \<Rightarrow> ('w, jout) js" where
  "JABCpackScan E A M C P argv =
     need 5 ''pack._scan(buf, dataLen, out, base, delta)'' argv
     (jbind (JABCDataOf E A (argv ! 0)) (\<lambda>c.
      jbind (JABCOffOf E (data_len c) (argv ! 1)) (\<lambda>dl.
      jbind (JABCIdleOf E A (argv ! 2)) (\<lambda>outb.
      jbind (JABCIdleOf E A (argv ! 3)) (\<lambda>baseb.
      jbind (JABCIdleOf E A (argv ! 4)) (\<lambda>deltab.
      jbind (data_of M c) (\<lambda>bs.
      jbind (sub_or C ''pack.scan: the data length is out of range'' bs 0 dl) (\<lambda>pack.
      case PACKDrainHdr P pack of (ho, n_objs) \<Rightarrow>
        if ho \<noteq> OK then jthrow (ThrowError ''pack.scan: bad header'')
        else if \<not> aligned (b2 outb) then jthrow (ThrowError ''pack.scan: out not 8-byte aligned (reset the Buf)'')
        else if idle_len outb < unat n_objs * WH128 then jthrow (ThrowError ''pack.scan: out too small'')
        else case PIDXScan P pack (idle_len outb div WH128) (idle_len baseb) (idle_len deltab) of
          ((r, entries), sb, sd) \<Rightarrow>
            jbind (jput (\<lambda>w. poke M (b2 deltab) sd (poke M (b2 baseb) sb (poke M (b2 outb) entries w)))) (\<lambda>_.
            if r = NOROOM then jthrow (ThrowError ''pack.scan: NOROOM'')
            else if r = PACKREF then jthrow (ThrowError ''pack.scan: ref-delta'')
            else if r \<noteq> OK then jthrow (ThrowError ''pack.scan: scan (out full? corrupt?)'')
            else js_num (length entries div WH128))))))))))"

definition JABCpackFeedEmit :: "'w engine \<Rightarrow> abc \<Rightarrow> 'w memory \<Rightarrow> packlib \<Rightarrow> jsval list \<Rightarrow> ('w, jout) js" where
  "JABCpackFeedEmit E A M P argv =
     need 5 ''pack._feed_emit(type, content, offset, out, outOff)'' argv
     (jbind (JABCu8Of E (argv ! 0)) (\<lambda>type.
      jbind (JABCDataOf E A (argv ! 1)) (\<lambda>contentb.
      jbind (JABCu64Of E (argv ! 2)) (\<lambda>offset.
      jbind (idle_from E A (argv ! 3) (argv ! 4)) (\<lambda>outb.
      if \<not> aligned (b2 outb) then jthrow (ThrowError ''pack.feedEmit: out slot not 8-byte aligned'')
      else if idle_len outb < WH128 then jthrow (ThrowError ''pack.feedEmit: out full'')
      else jbind (data_of M contentb) (\<lambda>content.
           jbind (emit_or M ''pack.feedEmit: emit'' outb (PIDXFeedEmit P type content offset)) (\<lambda>_.
           js_num WH128)))))))"

section \<open>Trees and commits\<close>

definition JABCgitTreeNext :: "'w engine \<Rightarrow> abc \<Rightarrow> 'w memory \<Rightarrow> packlib \<Rightarrow> jsval list \<Rightarrow> ('w, jout) js" where
  "JABCgitTreeNext E A M P argv =
     need 2 ''git._tree_next(bytes, off)'' argv
     (jbind (JABCDataOf E A (argv ! 0)) (\<lambda>c.
      jbind (JABCOffOf E (data_len c) (argv ! 1)) (\<lambda>off.
      if data_len c \<le> off then jret (JVal JNull)
      else
        jbind (JABCBufAt E A c (argv ! 1)) (\<lambda>c.
        jbind (data_of M c) (\<lambda>obj.
        case GITu8sDrainTree P obj of ((r, t), n) \<Rightarrow>
          if r = NODATA then jret (JVal JNull)
          else if r \<noteq> OK then jthrow (ThrowError ''git.tree: bad tree entry'')
          else
            (let base = past_len c;
                 file = take (snd (te_file t)) (drop (fst (te_file t)) obj);
                 (ns, ne) = GITu8sFileSplit P file
             in jret (JFields [
                  (''mode'', JNum (js_nat (unat (te_mode t)))),
                  (''nameStart'', JNum (js_nat (base + fst (te_file t) + ns))),
                  (''nameEnd'', JNum (js_nat (base + fst (te_file t) + ne))),
                  (''sha'', JABCHexOf P (te_sha t)),
                  (''nextOff'', JNum (js_nat (base + n)))])))))))"

record commit =
  c_parents :: "jsval list"
  c_foster :: "jsval list"
  c_author :: jsval
  c_committer :: jsval
  c_body :: jsval

text \<open>The header loop, with fuel: \<open>None\<close> when it runs out, which a parser that always takes a byte excludes.\<close>

primrec commit_headers :: "nat \<Rightarrow> packlib \<Rightarrow> u8 list \<Rightarrow> commit \<Rightarrow> commit option" where
  "commit_headers 0 P scan k = None"
| "commit_headers (Suc fuel) P scan k =
     (case GITu8sDrainCommit P scan of ((o', field, value), n) \<Rightarrow>
        if o' \<noteq> OK then Some k
        else if field = [] then Some (k\<lparr>c_body := JStr (string_of value)\<rparr>)
        else
          (let hv = JStr (string_of value) in
           commit_headers fuel P (drop n scan)
             (if field = GIT_FIELD_PARENT P then k\<lparr>c_parents := c_parents k @ [hv]\<rparr>
              else if field = GIT_FIELD_FOSTER P then k\<lparr>c_foster := c_foster k @ [hv]\<rparr>
              else if field = GIT_FIELD_AUTHOR P then k\<lparr>c_author := hv\<rparr>
              else if field = GIT_FIELD_COMMITTER P then k\<lparr>c_committer := hv\<rparr>
              else k)))"

definition no_commit :: commit where
  "no_commit = \<lparr>c_parents = [], c_foster = [], c_author = JUndef, c_committer = JUndef, c_body = JStr ''''\<rparr>"

text \<open>The result: the tree, and the rest; the object's two arrays are the lists.\<close>

definition JABCgitParseCommit :: "'w engine \<Rightarrow> abc \<Rightarrow> 'w memory \<Rightarrow> packlib \<Rightarrow> jsval list \<Rightarrow>
    ('w, (jsval \<times> commit) option) js" where
  "JABCgitParseCommit E A M P argv =
     need 1 ''git._parse_commit(bytes)'' argv
     (jbind (JABCDataOf E A (argv ! 0)) (\<lambda>c.
      jbind (data_of M c) (\<lambda>bs.
      let tree = (case GITu8sCommitTree P bs of (o', sha) \<Rightarrow> if o' = OK then JABCHexOf P sha else JStr '''') in
      jret (map_option (\<lambda>k. (tree, k)) (commit_headers (length bs + 2) P bs no_commit)))))"

section \<open>Repack\<close>

text \<open>An option that is absent, or no whole number, is the default.\<close>

definition JABCOptNumOf :: "'w engine \<Rightarrow> jsval \<Rightarrow> string \<Rightarrow> u64 \<Rightarrow> ('w, u64) js" where
  "JABCOptNumOf E obj name dflt =
     (if \<not> is_obj obj then jret dflt
      else jcatch (jbind (get_prop E obj name) (\<lambda>v.
             if v = JUndef \<or> v = JNull then jret dflt else JABCu64Of E v))
           (\<lambda>e. if e = CUndef then jthrow e else jret dflt))"

record repack_stat =
  st_objects :: nat
  st_total :: nat
  st_raw :: nat
  st_ofs :: nat
  st_ref :: nat
  st_in :: nat
  st_out :: nat
  st_log0 :: nat
  st_logs :: nat
  st_log_len :: nat
  st_index_n :: nat

definition JABCPackStats :: "repack_stat \<Rightarrow> (string \<times> jsval) list" where
  "JABCPackStats st =
     [(''objects'', JNum (js_nat (st_objects st))), (''total'', JNum (js_nat (st_total st))),
      (''raw'', JNum (js_nat (st_raw st))), (''ofs'', JNum (js_nat (st_ofs st))),
      (''ref'', JNum (js_nat (st_ref st))), (''inBytes'', JNum (js_nat (st_in st))),
      (''outBytes'', JNum (js_nat (st_out st))), (''log0'', JNum (js_nat (st_log0 st))),
      (''logs'', JNum (js_nat (st_logs st))), (''logLen'', JNum (js_nat (st_log_len st))),
      (''indexN'', JNum (js_nat (st_index_n st)))]"

record repack_conf =
  cf_cap :: u64
  cf_log0 :: u32
  cf_every :: u64
  cf_watched :: bool

text \<open>
  A region of a typed array: the view, and the base and the length in bytes that were read off it.
  The run writes anywhere in the two regions it was given, through the bases unwrapped before it
  started (\<open>reach\<close>: that is still memory of the view); the watch compares the two views with what
  they were when it was set up.
\<close>

type_synonym region = "jsval \<times> addr \<times> nat"

definition reach :: "'w engine \<Rightarrow> region \<Rightarrow> 'w \<Rightarrow> bool" where
  "reach E R w = (case R of (v, base, n) \<Rightarrow>
     (case fst (JABCViewOf E v w) of Inl _ \<Rightarrow> False | Inr (b, m) \<Rightarrow> b \<le> base \<and> base + n \<le> b + m))"

definition buf_region :: "jsval \<Rightarrow> u8b \<Rightarrow> region" where
  "buf_region v b = (v, b0 b, b3 b - b0 b)"

text \<open>\<open>ibuf\<close>: the whole records from the start of the IDLE of the index view.\<close>

definition index_region :: "jsval \<Rightarrow> u8b \<Rightarrow> region" where
  "index_region v b = (v, b2 b, 16 * (idle_len b div 16))"

text \<open>
  What \<open>REPACKRun\<close> does: bursts of work on the two regions, each followed by the progress handler
  when there is one, and at the end a code, the statistics and the advanced Buf.  \<open>stats_value\<close> is the
  object made of the statistics.
\<close>

record 'w burst =
  touch :: "'w \<Rightarrow> 'w"
  burst_stat :: repack_stat

record 'w repacker =
  bursts :: "int \<Rightarrow> string \<Rightarrow> repack_conf \<Rightarrow> 'w \<Rightarrow> 'w burst list"
  outcome :: "int \<Rightarrow> string \<Rightarrow> repack_conf \<Rightarrow> 'w \<Rightarrow> ok64 \<times> repack_stat"
  ate :: "u8b \<Rightarrow> 'w \<Rightarrow> u8b"
  stats_value :: "repack_stat \<Rightarrow> jsval"

text \<open>\<open>JABCPackHold\<close> keeps the exception; the run ends with \<open>REPACKFAIL\<close>.\<close>

definition JABCPackHold :: "exn \<Rightarrow> ('w, ok64 \<times> exn option) js" where
  "JABCPackHold e = (if e = CUndef then jthrow e else jret (REPACKFAIL, Some e))"

definition JABCPackWatch :: "'w engine \<Rightarrow> 'w repacker \<Rightarrow> jsval \<Rightarrow> region \<Rightarrow> region \<Rightarrow> repack_stat \<Rightarrow>
    ('w, ok64 \<times> exn option) js" where
  "JABCPackWatch E R fn bufr ixr st =
     jcatch
       (jbind (call_fn E fn [stats_value R st]) (\<lambda>_.
        jbind (JABCViewSame E (fst bufr) (fst (snd bufr)) (snd (snd bufr))) (\<lambda>_.
        jbind (JABCViewSame E (fst ixr) (fst (snd ixr)) (snd (snd ixr))) (\<lambda>_.
        jret (OK, None)))))
       JABCPackHold"

definition run_burst :: "'w engine \<Rightarrow> region \<Rightarrow> region \<Rightarrow> 'w burst \<Rightarrow> ('w, unit) js" where
  "run_burst E bufr ixr b = (\<lambda>w.
     if reach E bufr w \<and> reach E ixr w then (Inr (), touch b w) else (Inl CUndef, w))"

text \<open>The watch is the handler with the two regions it asserts again after every call.\<close>

type_synonym watch = "jsval \<times> region \<times> region"

primrec REPACKRun :: "'w engine \<Rightarrow> 'w repacker \<Rightarrow> watch option \<Rightarrow> region \<Rightarrow> region \<Rightarrow> ok64 \<Rightarrow> 'w burst list \<Rightarrow>
    ('w, ok64 \<times> exn option) js" where
  "REPACKRun E R watch bufr ixr code [] = jret (code, None)"
| "REPACKRun E R watch bufr ixr code (b # bs) =
     jbind (run_burst E bufr ixr b) (\<lambda>_.
     case watch of
       None \<Rightarrow> REPACKRun E R watch bufr ixr code bs
     | Some (f, wb, wi) \<Rightarrow>
         jbind (JABCPackWatch E R f wb wi (burst_stat b)) (\<lambda>(o', e).
         if o' \<noteq> OK then jret (o', e) else REPACKRun E R watch bufr ixr code bs))"

text \<open>The setting up of the watch: the two views as they are now.\<close>

definition repack_watch :: "'w engine \<Rightarrow> jsval option \<Rightarrow> jsval \<Rightarrow> jsval \<Rightarrow> ('w, watch option) js" where
  "repack_watch E fn bufv iv =
     (case fn of
        None \<Rightarrow> jret None
      | Some f \<Rightarrow>
          jbind (JABCViewOf E bufv) (\<lambda>p.
          jbind (JABCViewOf E iv) (\<lambda>q.
          jret (Some (f, (bufv, p), (iv, q))))))"

definition JABCPackWords :: "ok64 \<Rightarrow> string" where
  "JABCPackWords o' =
     (if o' = REPACKTORN then ''pack: the stream ended in the middle of a record''
      else if o' = REPACKBIG then ''pack: an object is too big for the buffer and the log cap''
      else if o' = REPACKBASE then ''pack: a delta cites a base that never arrived''
      else if o' = REPACKROOM then ''pack: the index region is full''
      else if o' = REPACKLOGS then ''pack: the stream needs more logs than allowed''
      else if o' = REPACKHDR then ''pack: the stream does not start with a pack header''
      else if o' = REPACKSUM then ''pack: the stream's checksum does not match '' @ [CHR 0xE2, CHR 0x80, CHR 0x94] @ '' it arrived damaged''
      else if o' = ZINFFAIL then ''pack: the compressed data is damaged''
      else if o' = PACKBADFMT \<or> o' = PACKBADOBJ then ''pack: malformed pack record''
      else if o' = DELTFAIL \<or> o' = DELTBADFMT then ''pack: a delta could not be applied''
      else ''pack: the stream could not be repacked'')"

text \<open>
  The two options that are no numbers.  A getter of \<open>onStep\<close> that throws leaves no handler and its
  exception pending, which shows only when \<open>opts.index\<close> is missing; one of \<open>index\<close> leaves a value that is
  no typed array.
\<close>

definition repack_opts :: "'w engine \<Rightarrow> jsval \<Rightarrow> ('w, jsval option \<times> exn option \<times> jsval) js" where
  "repack_opts E oo = (\<lambda>w0.
     if \<not> is_obj oo then (Inr (None, None, JUndef), w0)
     else case get_prop E oo ''onStep'' w0 of
       (r, w1) \<Rightarrow>
         if r = Inl CUndef then (Inl CUndef, w1)
         else (case get_prop E oo ''index'' w1 of
           (Inl e, w2) \<Rightarrow> if e = CUndef then (Inl e, w2) else (Inr (None, Some e, JNull), w2)
         | (Inr iv, w2) \<Rightarrow>
             (case r of
                Inl e \<Rightarrow> (Inr (None, Some e, iv), w2)
              | Inr cb \<Rightarrow> (Inr (if is_callable E w1 cb then Some cb else None, None, iv), w2))))"

text \<open>After the run: the Buf takes its cursors back, whatever the outcome; the exception kept is thrown.\<close>

definition repack_end :: "'w engine \<Rightarrow> 'w repacker \<Rightarrow> jsval \<Rightarrow> u8b \<Rightarrow> repack_stat \<Rightarrow> ok64 \<times> exn option \<Rightarrow> ('w, jout) js" where
  "repack_end E R bo buf st r =
     jbind (jget (ate R buf)) (\<lambda>buf'.
     jbind (JABCBufBack E bo buf') (\<lambda>_.
     case snd r of
       Some x \<Rightarrow> jthrow x
     | None \<Rightarrow> if fst r \<noteq> OK then jthrow (ThrowError (JABCPackWords (fst r))) else jret (JFields (JABCPackStats st))))"

definition JABCpackRepack :: "'w engine \<Rightarrow> abc \<Rightarrow> 'w repacker \<Rightarrow> jsval list \<Rightarrow> ('w, jout) js" where
  "JABCpackRepack E A R argv =
     need 3 ''git.pack(fd, buf, shard, opts) -> stats'' argv
     (jbind (JABCi64Of E (argv ! 0)) (\<lambda>fdv.
      if sint fdv < 0 \<or> 2 ^ 31 \<le> sint fdv then jthrow (ThrowError ''git.pack: bad fd'')
      else if \<not> is_obj (argv ! 1) then jthrow (ThrowError ''git.pack: buf must be a Buf'')
      else
        jbind (path_or A ''git.pack: bad shard path'' (argv ! 2)) (\<lambda>shard.
        let oo = (if 3 < length argv \<and> is_obj (argv ! 3) then argv ! 3 else JNull) in
        jbind (JABCOptNumOf E oo ''cap'' 0) (\<lambda>cap.
        jbind (JABCOptNumOf E oo ''log0'' 0) (\<lambda>log0.
        jbind (JABCOptNumOf E oo ''every'' 0) (\<lambda>every.
        jbind (repack_opts E oo) (\<lambda>(fn, pending, iv).
        jbind (JABCBufOfKeep E A (argv ! 1)) (\<lambda>(buf, bufv).
        if iv = JUndef then
          (case pending of
             Some e \<Rightarrow> jthrow e
           | None \<Rightarrow> jthrow (ThrowError ''git.pack: opts.index (a wh128 region) is required''))
        else
          jbind (JABCIdleOf E A iv) (\<lambda>ixb.
          if \<not> aligned (b2 ixb) then jthrow (ThrowError ''git.pack: opts.index is not 8-byte aligned'')
          else
            jbind (repack_watch E fn bufv iv) (\<lambda>watch w.
            let conf = \<lparr>cf_cap = cap, cf_log0 = ucast log0,
                        cf_every = (if fn \<noteq> None \<and> every = 0 then 100000 else every), cf_watched = fn \<noteq> None\<rparr>
            in case outcome R (sint fdv) shard conf w of (code, st) \<Rightarrow>
                 jbind (REPACKRun E R watch (buf_region bufv buf) (index_region iv ixb) code
                          (bursts R (sint fdv) shard conf w))
                   (repack_end E R (argv ! 1) buf st) w))))))))))"

end
