(* ===== verification/Cursors.thy ===== *)
theory Cursors
  imports Ulog Packs
begin

text \<open>
  The three log prototypes of \<open>cont.c\<close>'s bundle (\<open>HUNK\<close>, \<open>ULOG\<close> and the pack log of \<open>git.pack\<close>).  A log
  is a byte array whose object is also the cursor: \<open>_read\<close> is where the next record starts, \<open>_rec\<close>
  where the current one does, and the write head is the \<open>watermark\<close> of the array buffer.  The verbs
  marshal into the leaves of \<open>hunk.c\<close>, \<open>ulog.c\<close> and \<open>pack.c\<close>.
\<close>

section \<open>The object\<close>

record 'w rlog =
  lw :: 'w
  self :: jsval
  wm :: jsnum        \<comment> \<open>\<open>this.buffer.watermark\<close>\<close>
  rd :: jsnum        \<comment> \<open>\<open>_read\<close>\<close>
  at_rec :: jsnum    \<comment> \<open>\<open>_rec\<close>\<close>

definition on_lw :: "('w, 'a) js \<Rightarrow> (('w, 'b) rlog_scheme, 'a) js" where
  "on_lw f = (\<lambda>s. case f (lw s) of (r, w) \<Rightarrow> (r, s\<lparr>lw := w\<rparr>))"

text \<open>\<open>x | 0\<close> as the number it is.\<close>

definition or0 :: "jsnum \<Rightarrow> jsval" where "or0 x = JNum (js_int (to_int32 x))"

definition out_num :: "jout \<Rightarrow> jsnum" where
  "out_num out = (case out of JVal (JNum d) \<Rightarrow> d | _ \<Rightarrow> NaN)"

definition num_times :: "rat \<Rightarrow> jsnum \<Rightarrow> jsnum" where
  "num_times k d = (case d of Fin r \<Rightarrow> Fin (k * r) | _ \<Rightarrow> d)"

definition out_big :: "jout \<Rightarrow> int" where
  "out_big out = (case out of JVal (JBig i) \<Rightarrow> i | _ \<Rightarrow> 0)"

text \<open>\<open>x || y\<close> picks \<open>y\<close> when \<open>x\<close> is one of these.\<close>

definition truthy :: "jsval \<Rightarrow> bool" where
  "truthy v = (case v of JUndef \<Rightarrow> False | JNull \<Rightarrow> False | JBool b \<Rightarrow> b | JStr s \<Rightarrow> s \<noteq> [] | JBig i \<Rightarrow> i \<noteq> 0
     | JNum d \<Rightarrow> d \<noteq> NaN \<and> d \<noteq> Fin 0 | _ \<Rightarrow> True)"

text \<open>A leaf that takes the write head and answers with the new one.\<close>

definition wm_by :: "(jsval \<Rightarrow> jsnum \<Rightarrow> ('w, jout) js) \<Rightarrow> (('w, 'b) rlog_scheme, unit) js" where
  "wm_by leaf = (\<lambda>s. jbind (on_lw (leaf (self s) (wm s))) (\<lambda>out. jput (\<lambda>s. s\<lparr>wm := out_num out\<rparr>)) s)"

definition cur_rewind :: "nat \<Rightarrow> (('w, 'b) rlog_scheme, unit) js" where
  "cur_rewind n = jput (\<lambda>s. s\<lparr>rd := js_nat n, at_rec := js_int (- 1)\<rparr>)"

definition cur_next :: "(jsval list \<Rightarrow> ('w, jout) js) \<Rightarrow> (('w, 'b) rlog_scheme, bool) js" where
  "cur_next leaf = (\<lambda>s.
     jbind (on_lw (leaf [self s, or0 (rd s), or0 (wm s)])) (\<lambda>out.
     if num_lt (out_num out) (Fin 0) then jret False
     else jbind (jput (\<lambda>s. s\<lparr>at_rec := js_int (to_int32 (rd s)), rd := out_num out\<rparr>)) (\<lambda>_. jret True)) s)"

text \<open>\<open>seek\<close> of a log: \<open>forget\<close> is what a refused offset does to the cursor.\<close>

definition cur_seek :: "string \<Rightarrow> (jsval list \<Rightarrow> ('w, jout) js) \<Rightarrow> (('w, 'b) rlog_scheme \<Rightarrow> ('w, 'b) rlog_scheme) \<Rightarrow>
    jsval \<Rightarrow> (('w, 'b) rlog_scheme, bool) js" where
  "cur_seek msg leaf forget off =
     (case off of
        JNum d \<Rightarrow> (\<lambda>s.
          jbind (on_lw (leaf [self s, JNum d, or0 (wm s)])) (\<lambda>out.
          if num_lt (out_num out) (Fin 0) then jbind (jput forget) (\<lambda>_. jret False)
          else jbind (jput (\<lambda>s. s\<lparr>at_rec := d, rd := out_num out\<rparr>)) (\<lambda>_. jret True)) s)
      | _ \<Rightarrow> jthrow (ThrowStr msg))"

text \<open>A getter of the current record.\<close>

definition cur_get :: "(jsval list \<Rightarrow> ('w, jout) js) \<Rightarrow> (('w, 'b) rlog_scheme, jout) js" where
  "cur_get leaf = (\<lambda>s. on_lw (leaf [self s, JNum (at_rec s)]) s)"

section \<open>Output Bufs\<close>

text \<open>
  The methods of the caller's Buf that the verbs use (\<open>buf.c\<close>): its IDLE as a typed array, the cursor
  moved over what was written there, bytes appended.
\<close>

record 's bufapi =
  api_idle :: "('s, jsval) js"
  api_fed :: "jsnum \<Rightarrow> ('s, unit) js"
  api_feed :: "jout \<Rightarrow> ('s, unit) js"

text \<open>\<open>out.fed (leaf (this, _rec, out.idle (), ...))\<close>.\<close>

definition fed_by :: "('w, 'b) rlog_scheme bufapi \<Rightarrow> (jsval \<Rightarrow> jsval \<Rightarrow> jsval \<Rightarrow> ('w, jout) js) \<Rightarrow>
    (('w, 'b) rlog_scheme, unit) js" where
  "fed_by B leaf =
     jbind (api_idle B) (\<lambda>idle. \<lambda>s.
     jbind (on_lw (leaf (self s) (JNum (at_rec s)) idle)) (\<lambda>out. api_fed B (out_num out)) s)"

section \<open>HUNK\<close>

definition HUNK_feed :: "'w engine \<Rightarrow> abc \<Rightarrow> 'w memory \<Rightarrow> hunklib \<Rightarrow> jsval \<Rightarrow> jsval \<Rightarrow> jsval \<Rightarrow> jsval \<Rightarrow> jsval \<Rightarrow>
    ('w rlog, unit) js" where
  "HUNK_feed E A M H EMPTY8 EMPTY32 uri text toks =
     wm_by (\<lambda>this off. JABChunkFeed E A M H [this, JNum off, uri,
       if truthy text then text else EMPTY8, if truthy toks then toks else EMPTY32])"

definition HUNK_dogenize :: "'w engine \<Rightarrow> abc \<Rightarrow> 'w memory \<Rightarrow> hunklib \<Rightarrow> jsval \<Rightarrow> jsval \<Rightarrow> jsval \<Rightarrow> ('w rlog, unit) js" where
  "HUNK_dogenize E A M H src ext uri =
     wm_by (\<lambda>this off. JABChunkDogenize E A M H [this, JNum off, src, ext, if truthy uri then uri else JStr ''''])"

definition HUNK_rewind :: "('w rlog, unit) js" where "HUNK_rewind = cur_rewind 0"

definition HUNK_next :: "'w engine \<Rightarrow> abc \<Rightarrow> 'w memory \<Rightarrow> slicer \<Rightarrow> hunklib \<Rightarrow> ('w rlog, bool) js" where
  "HUNK_next E A M C H = cur_next (JABChunkNext E A M C H)"

definition HUNK_uri :: "'w engine \<Rightarrow> abc \<Rightarrow> 'w memory \<Rightarrow> hunklib \<Rightarrow> ('w rlog, jout) js" where
  "HUNK_uri E A M H = cur_get (JABChunkUri E A M H)"

definition HUNK_text :: "'w engine \<Rightarrow> abc \<Rightarrow> 'w memory \<Rightarrow> hunklib \<Rightarrow> ('w rlog, jout) js" where
  "HUNK_text E A M H = cur_get (JABChunkText E A M H)"

definition HUNK_toks :: "'w engine \<Rightarrow> abc \<Rightarrow> 'w memory \<Rightarrow> hunklib \<Rightarrow> ('w rlog, jout) js" where
  "HUNK_toks E A M H = cur_get (JABChunkToks E A M H)"

definition HUNK_verb :: "'w engine \<Rightarrow> abc \<Rightarrow> 'w memory \<Rightarrow> hunklib \<Rightarrow> ('w rlog, jout) js" where
  "HUNK_verb E A M H = cur_get (JABChunkVerb E A M H)"

definition HUNK_time :: "'w engine \<Rightarrow> abc \<Rightarrow> 'w memory \<Rightarrow> hunklib \<Rightarrow> ('w rlog, jout) js" where
  "HUNK_time E A M H = cur_get (JABChunkTime E A M H)"

text \<open>\<open>color\<close>, \<open>plain\<close> and \<open>html\<close> are the modes 1, 2 and 3.\<close>

definition HUNK_render :: "'w engine \<Rightarrow> abc \<Rightarrow> 'w memory \<Rightarrow> hunklib \<Rightarrow> nat \<Rightarrow> 'w rlog bufapi \<Rightarrow> ('w rlog, unit) js" where
  "HUNK_render E A M H mode B =
     fed_by B (\<lambda>this rec idle. JABChunkRender E A M H [this, rec, idle, JNum (js_nat 0), JNum (js_nat mode)])"

section \<open>ULOG\<close>

record 'w ulogobj = "'w rlog" +
  lastTs :: "int option"

text \<open>
  What the verbs use of the engine: \<open>BigInt (x)\<close>, \<open>"" + e\<close> of an exception, a fresh \<open>Uint8Array (n)\<close>, \<open>x >= 0\<close>
  of a value that is no number, and what a leaf answered with as a value to pass on.
\<close>

record 'w jsenv =
  BigInt :: "jsval \<Rightarrow> ('w, int) js"
  exn_str :: "exn \<Rightarrow> string"
  new_Uint8Array :: "nat \<Rightarrow> ('w, jsval) js"
  ge_zero :: "jsval \<Rightarrow> ('w, bool) js"
  as_value :: "jout \<Rightarrow> ('w, jsval) js"

definition ULOG_stamp :: "int option \<Rightarrow> int \<Rightarrow> int" where
  "ULOG_stamp prev t = (case prev of Some p \<Rightarrow> if t \<le> p then p + 1 else t | None \<Rightarrow> t)"

definition ULOG_feed :: "'w engine \<Rightarrow> abc \<Rightarrow> 'w memory \<Rightarrow> 'u uloglib \<Rightarrow> ('w \<Rightarrow> u64 \<times> 'w) \<Rightarrow> 'w jsenv \<Rightarrow>
    jsval \<Rightarrow> jsval \<Rightarrow> jsval \<Rightarrow> ('w ulogobj, jsnum) js" where
  "ULOG_feed E A M L RONNow J verb uri ts =
     jbind (on_lw (if ts = JNull \<or> ts = JUndef then jbind (JABCulogNow RONNow) (\<lambda>out. jret (out_big out)) else BigInt J ts)) (\<lambda>t.
     jbind (jget (\<lambda>s. ULOG_stamp (lastTs s) t)) (\<lambda>t.
     jbind (jput (\<lambda>s. s\<lparr>lastTs := Some t\<rparr>)) (\<lambda>_.
     jbind (jget wm) (\<lambda>off.
     jbind (wm_by (\<lambda>this off. JABCulogFeed E A M L RONNow [this, JNum off, verb, uri, JBig t])) (\<lambda>_.
     jret off)))))"

definition ULOG_rewind :: "('w ulogobj, unit) js" where "ULOG_rewind = cur_rewind 0"

definition ULOG_next :: "'w engine \<Rightarrow> abc \<Rightarrow> 'w memory \<Rightarrow> slicer \<Rightarrow> 'u uloglib \<Rightarrow> ('w ulogobj, bool) js" where
  "ULOG_next E A M C L = cur_next (JABCulogNext E A M C L)"

definition ULOG_seek :: "'w engine \<Rightarrow> abc \<Rightarrow> 'w memory \<Rightarrow> slicer \<Rightarrow> 'u uloglib \<Rightarrow> jsval \<Rightarrow> ('w ulogobj, bool) js" where
  "ULOG_seek E A M C L off = cur_seek ''ULOG addresses by offset'' (JABCulogNext E A M C L) id off"

definition ULOG_time :: "'w engine \<Rightarrow> abc \<Rightarrow> 'w memory \<Rightarrow> 'u uloglib \<Rightarrow> ('w ulogobj, jout) js" where
  "ULOG_time E A M L = cur_get (JABCulogTime E A M L)"

definition ULOG_verb :: "'w engine \<Rightarrow> abc \<Rightarrow> 'w memory \<Rightarrow> 'u uloglib \<Rightarrow> ('w ulogobj, jout) js" where
  "ULOG_verb E A M L = cur_get (JABCulogVerb E A M L)"

definition ULOG_uri :: "'w engine \<Rightarrow> abc \<Rightarrow> 'w memory \<Rightarrow> 'u uloglib \<Rightarrow> ('w ulogobj, jout) js" where
  "ULOG_uri E A M L = cur_get (JABCulogUri E A M L)"

text \<open>Where the log ends, where the next row starts, where the current one does; the last is the pack's too.\<close>

definition ULOG_end :: "('w, 'b) rlog_scheme \<Rightarrow> jsnum" where "ULOG_end s = wm s"
definition ULOG_after :: "('w, 'b) rlog_scheme \<Rightarrow> jsnum" where "ULOG_after s = rd s"
definition ULOG_offset :: "('w, 'b) rlog_scheme \<Rightarrow> jsnum" where "ULOG_offset s = at_rec s"

text \<open>A search; a hit is sought, so that the cursor stands on it.\<close>

definition ULOG_mkseek :: "'w engine \<Rightarrow> abc \<Rightarrow> 'w memory \<Rightarrow> slicer \<Rightarrow> 'u uloglib \<Rightarrow> (jsval list \<Rightarrow> ('w, jout) js) \<Rightarrow> bool \<Rightarrow>
    jsval \<Rightarrow> jsval \<Rightarrow> ('w ulogobj, jsnum) js" where
  "ULOG_mkseek E A M C L leaf backwards off arg = (\<lambda>s.
     jbind (on_lw (leaf [self s, off, or0 (wm s), arg, JBool backwards])) (\<lambda>out.
     let hit = out_num out in
     if num_le (Fin 0) hit then jbind (ULOG_seek E A M C L (JNum hit)) (\<lambda>_. jret hit)
     else jret hit) s)"

section \<open>The pack log\<close>

record 'w packobj_js = "'w rlog" +
  p_count :: jsnum                 \<comment> \<open>\<open>_count\<close>, \<open>NaN\<close> while it is undefined\<close>
  bsc :: "(jsval \<times> nat) option"    \<comment> \<open>a scratch array and its \<open>byteLength\<close>\<close>
  dsc :: "(jsval \<times> nat) option"

text \<open>The two tables; an unknown name is \<open>undefined\<close>.\<close>

definition T2N :: "string \<Rightarrow> jsval" where
  "T2N t = (if t = ''commit'' then JNum (js_nat 1) else if t = ''tree'' then JNum (js_nat 2)
     else if t = ''blob'' then JNum (js_nat 3) else if t = ''tag'' then JNum (js_nat 4)
     else if t = ''ofs-delta'' then JNum (js_nat 6) else if t = ''ref-delta'' then JNum (js_nat 7) else JUndef)"

definition N2T :: "jsnum \<Rightarrow> jsval" where
  "N2T n = (if n = js_nat 1 then JStr ''commit'' else if n = js_nat 2 then JStr ''tree''
     else if n = js_nat 3 then JStr ''blob'' else if n = js_nat 4 then JStr ''tag''
     else if n = js_nat 6 then JStr ''ofs-delta'' else if n = js_nat 7 then JStr ''ref-delta'' else JUndef)"

definition SCRATCH_MIN :: nat where "SCRATCH_MIN = 2 ^ 16"

text \<open>\<open>req ? (req | 0) : SCRATCH_MIN\<close>, at least the minimum.\<close>

definition scratch_size :: "jsnum \<Rightarrow> nat" where
  "scratch_size req =
     (let n = (if req = NaN \<or> req = Fin 0 then int SCRATCH_MIN else to_int32 req)
      in if n < int SCRATCH_MIN then SCRATCH_MIN else nat n)"

definition scratch_new :: "'w jsenv \<Rightarrow> nat \<Rightarrow> ('w packobj_js, unit) js" where
  "scratch_new J n =
     jbind (on_lw (new_Uint8Array J n)) (\<lambda>b.
     jbind (jput (\<lambda>s. s\<lparr>bsc := Some (b, n)\<rparr>)) (\<lambda>_.
     jbind (on_lw (new_Uint8Array J (2 * n))) (\<lambda>d.
     jput (\<lambda>s. s\<lparr>dsc := Some (d, 2 * n)\<rparr>))))"

definition PACK_scratch :: "'w jsenv \<Rightarrow> jsnum \<Rightarrow> ('w packobj_js, unit) js" where
  "PACK_scratch J req = (\<lambda>s.
     let n = scratch_size req in
     case bsc s of
       Some (_, len) \<Rightarrow> if len < n then scratch_new J n s else (Inr (), s)
     | None \<Rightarrow> scratch_new J n s)"

text \<open>\<open>String.prototype.includes\<close>.\<close>

fun str_includes :: "string \<Rightarrow> string \<Rightarrow> bool" where
  "str_includes [] p \<longleftrightarrow> p = []"
| "str_includes (c # s) p \<longleftrightarrow> take (length p) (c # s) = p \<or> str_includes s p"

definition no_room :: "'w jsenv \<Rightarrow> exn \<Rightarrow> bool" where
  "no_room J e \<longleftrightarrow> e \<noteq> CUndef \<and> str_includes (exn_str J e) ''NOROOM''"

text \<open>The retries: \<open>op\<close> is run at most 40 times, with the scratch doubled in between.\<close>

primrec grow_loop :: "'w jsenv \<Rightarrow> ('w packobj_js, jout) js \<Rightarrow> nat \<Rightarrow> ('w packobj_js, jout) js" where
  "grow_loop J op 0 = jthrow (ThrowStr ''pack: scratch exhausted'')"
| "grow_loop J op (Suc tries) = (\<lambda>s.
     case op s of
       (Inr out, s') \<Rightarrow> (Inr out, s')
     | (Inl e, s') \<Rightarrow>
         if \<not> no_room J e then (Inl e, s')
         else jbind (PACK_scratch J (js_nat (case bsc s' of Some (_, n) \<Rightarrow> n * 2 | None \<Rightarrow> 0)))
                (\<lambda>_. grow_loop J op tries) s')"

definition PACK_grow :: "'w jsenv \<Rightarrow> jsnum \<Rightarrow> ('w packobj_js, jout) js \<Rightarrow> ('w packobj_js, jout) js" where
  "PACK_grow J req op = jbind (PACK_scratch J req) (\<lambda>_. grow_loop J op 40)"

definition sc :: "(jsval \<times> nat) option \<Rightarrow> jsval" where
  "sc x = (case x of Some (v, _) \<Rightarrow> v | None \<Rightarrow> JUndef)"

definition PACK_header :: "'w engine \<Rightarrow> abc \<Rightarrow> 'w memory \<Rightarrow> packlib \<Rightarrow> ('w packobj_js, unit) js" where
  "PACK_header E A M P =
     jbind (wm_by (\<lambda>this _. JABCpackHeader E A M P [this, JNum (js_nat 0), JNum (js_nat 0)])) (\<lambda>_.
     jput (\<lambda>s. s\<lparr>p_count := js_nat 0, rd := js_nat 12, at_rec := js_int (- 1)\<rparr>))"

text \<open>The full bytes of the record at an offset, by the resolver, in scratches that grow.\<close>

definition resolved :: "'w engine \<Rightarrow> abc \<Rightarrow> 'w memory \<Rightarrow> packlib \<Rightarrow> 'w jsenv \<Rightarrow> jsval \<Rightarrow> ('w packobj_js, jout) js" where
  "resolved E A M P J off = (\<lambda>s.
     jbind (on_lw (JABCpackSize E A M P [self s, off])) (\<lambda>req.
     PACK_grow J (out_num req) (\<lambda>s. on_lw (JABCpackResolve E A M P [self s, off, sc (bsc s), sc (dsc s)]) s)) s)"

definition PACK_feed :: "'w engine \<Rightarrow> abc \<Rightarrow> 'w memory \<Rightarrow> packlib \<Rightarrow> 'w jsenv \<Rightarrow> jsval \<Rightarrow>
    jsval \<Rightarrow> jsval \<Rightarrow> jsval \<Rightarrow> 'w packobj_js bufapi option \<Rightarrow> ('w packobj_js, jsnum) js" where
  "PACK_feed E A M P J EMPTY8 type content prevOff sink =
     jbind (jget wm) (\<lambda>off.
     let t = (case type of JNum d \<Rightarrow> JNum d | JStr n \<Rightarrow> T2N n | _ \<Rightarrow> JUndef) in
     jbind (if prevOff = JUndef \<or> prevOff = JNull then jret False
            else (case prevOff of JNum d \<Rightarrow> jret (num_le (Fin 0) d) | v \<Rightarrow> on_lw (ge_zero J v))) (\<lambda>based.
     jbind (if based
            then jbind (resolved E A M P J prevOff) (\<lambda>out. jbind (on_lw (as_value J out)) (\<lambda>b. jret (b, prevOff)))
            else jret (EMPTY8, JNum (js_int (- 1)))) (\<lambda>(base, bo).
     jbind (on_lw (get_prop E content ''length'')) (\<lambda>len.
     jbind (PACK_scratch J (case len of JNum d \<Rightarrow> d | _ \<Rightarrow> NaN)) (\<lambda>_.
     jbind (\<lambda>s. wm_by (\<lambda>this _. JABCpackFeed E A M P [this, JNum off, t, content, base, bo, sc (dsc s)]) s) (\<lambda>_.
     jbind (jput (\<lambda>s. s\<lparr>p_count := js_int (to_int32 (p_count s) + 1)\<rparr>)) (\<lambda>_.
     case sink of
       None \<Rightarrow> jret off
     | Some B \<Rightarrow>
         jbind (api_idle B) (\<lambda>idle.
         jbind (on_lw (JABCpackFeedEmit E A M P [t, content, JNum off, idle, JNum (js_nat 0)])) (\<lambda>n.
         jbind (api_fed B (out_num n)) (\<lambda>_.
         jret off))))))))))"

definition PACK_resolve :: "'w engine \<Rightarrow> abc \<Rightarrow> 'w memory \<Rightarrow> packlib \<Rightarrow> 'w jsenv \<Rightarrow> 'w packobj_js bufapi \<Rightarrow>
    ('w packobj_js, unit) js" where
  "PACK_resolve E A M P J B = (\<lambda>s. jbind (resolved E A M P J (JNum (at_rec s))) (api_feed B) s)"

text \<open>The entries lie in the IDLE as it was: that array and the number of its words that are theirs.\<close>

definition PACK_scan :: "'w engine \<Rightarrow> abc \<Rightarrow> 'w memory \<Rightarrow> slicer \<Rightarrow> packlib \<Rightarrow> 'w jsenv \<Rightarrow> 'w packobj_js bufapi \<Rightarrow>
    ('w packobj_js, jsval \<times> jsnum) js" where
  "PACK_scan E A M C P J B =
     jbind (api_idle B) (\<lambda>idle.
     jbind (PACK_grow J (Fin 0) (\<lambda>s. on_lw (JABCpackScan E A M C P [self s, or0 (wm s), idle, sc (bsc s), sc (dsc s)]) s)) (\<lambda>n.
     jbind (api_fed B (num_times 16 (out_num n))) (\<lambda>_.
     jret (idle, num_times 2 (out_num n)))))"

definition PACK_finish :: "'w engine \<Rightarrow> abc \<Rightarrow> 'w memory \<Rightarrow> packlib \<Rightarrow> ('w packobj_js, unit) js" where
  "PACK_finish E A M P = (\<lambda>s.
     jbind (on_lw (JABCpackHeader E A M P [self s, JNum (js_nat 0), or0 (p_count s)])) (\<lambda>_. jret ()) s)"

definition PACK_rewind :: "('w packobj_js, unit) js" where "PACK_rewind = cur_rewind 12"

definition PACK_next :: "'w engine \<Rightarrow> abc \<Rightarrow> 'w memory \<Rightarrow> slicer \<Rightarrow> packlib \<Rightarrow> ('w packobj_js, bool) js" where
  "PACK_next E A M C P = cur_next (JABCpackNext E A M C P)"

definition PACK_seek :: "'w engine \<Rightarrow> abc \<Rightarrow> 'w memory \<Rightarrow> slicer \<Rightarrow> packlib \<Rightarrow> jsval \<Rightarrow> ('w packobj_js, bool) js" where
  "PACK_seek E A M C P off =
     cur_seek ''PACK addresses by offset, not sha'' (JABCpackNext E A M C P) (\<lambda>s. s\<lparr>at_rec := js_int (- 1)\<rparr>) off"

definition PACK_at :: "'w packobj_js \<Rightarrow> bool" where "PACK_at s \<longleftrightarrow> 0 \<le> to_int32 (at_rec s)"

definition PACK_offset :: "'w packobj_js \<Rightarrow> jsnum" where "PACK_offset s = at_rec s"

text \<open>A getter of the record, undefined while the cursor is at none.\<close>

definition PACK_get :: "(jsval list \<Rightarrow> ('w, jout) js) \<Rightarrow> (jout \<Rightarrow> jout) \<Rightarrow> ('w packobj_js, jout) js" where
  "PACK_get leaf f = (\<lambda>s. if PACK_at s then jbind (cur_get leaf) (\<lambda>out. jret (f out)) s else (Inr (JVal JUndef), s))"

definition PACK_type :: "'w engine \<Rightarrow> abc \<Rightarrow> 'w memory \<Rightarrow> packlib \<Rightarrow> ('w packobj_js, jout) js" where
  "PACK_type E A M P = PACK_get (JABCpackType E A M P) (\<lambda>out. JVal (N2T (out_num out)))"

definition PACK_size :: "'w engine \<Rightarrow> abc \<Rightarrow> 'w memory \<Rightarrow> packlib \<Rightarrow> ('w packobj_js, jout) js" where
  "PACK_size E A M P = PACK_get (JABCpackSize E A M P) id"

definition PACK_baseOffset :: "'w engine \<Rightarrow> abc \<Rightarrow> 'w memory \<Rightarrow> packlib \<Rightarrow> ('w packobj_js, jout) js" where
  "PACK_baseOffset E A M P = PACK_get (JABCpackBaseOff E A M P)
     (\<lambda>out. if num_lt (out_num out) (Fin 0) then JVal JUndef else out)"

definition PACK_ref :: "'w engine \<Rightarrow> abc \<Rightarrow> 'w memory \<Rightarrow> packlib \<Rightarrow> ('w packobj_js, jout) js" where
  "PACK_ref E A M P = PACK_get (JABCpackRef E A M P) id"

definition PACK_count :: "'w engine \<Rightarrow> abc \<Rightarrow> 'w memory \<Rightarrow> packlib \<Rightarrow> ('w packobj_js, jout) js" where
  "PACK_count E A M P = (\<lambda>s. on_lw (JABCpackCount E A M P [self s]) s)"

definition PACK_inflate :: "'w engine \<Rightarrow> abc \<Rightarrow> 'w memory \<Rightarrow> packlib \<Rightarrow> 'w packobj_js bufapi \<Rightarrow> ('w packobj_js, unit) js" where
  "PACK_inflate E A M P B = fed_by B (\<lambda>this rec idle. JABCpackInflate E A M P [this, rec, idle, JNum (js_nat 0)])"

section \<open>Trees and deltas\<close>

text \<open>The pull cursor over a tree object: the offset of the next entry and the current entry's fields.\<close>

record 'w gittree =
  tw :: 'w
  t_bytes :: jsval
  t_off :: jsnum
  t_entry :: "(string \<times> jsval) list option"

definition field :: "string \<Rightarrow> (string \<times> jsval) list \<Rightarrow> jsval" where
  "field k fs = (case map_of fs k of Some v \<Rightarrow> v | None \<Rightarrow> JUndef)"

definition GitTree_next :: "'w engine \<Rightarrow> abc \<Rightarrow> 'w memory \<Rightarrow> packlib \<Rightarrow> ('w gittree, bool) js" where
  "GitTree_next E A M P = (\<lambda>s.
     case JABCgitTreeNext E A M P [t_bytes s, JNum (t_off s)] (tw s) of
       (Inl e, w) \<Rightarrow> (Inl e, s\<lparr>tw := w\<rparr>)
     | (Inr (JFields fs), w) \<Rightarrow>
         (Inr True, s\<lparr>tw := w, t_entry := Some fs, t_off := (case field ''nextOff'' fs of JNum d \<Rightarrow> d | _ \<Rightarrow> NaN)\<rparr>)
     | (Inr _, w) \<Rightarrow> (Inr False, s\<lparr>tw := w, t_entry := None\<rparr>))"

definition GitTree_mode :: "'w gittree \<Rightarrow> jsval" where
  "GitTree_mode s = (case t_entry s of Some fs \<Rightarrow> field ''mode'' fs | None \<Rightarrow> JUndef)"

definition GitTree_sha :: "'w gittree \<Rightarrow> jsval" where
  "GitTree_sha s = (case t_entry s of Some fs \<Rightarrow> field ''sha'' fs | None \<Rightarrow> JUndef)"

text \<open>Where the name lies in the bytes.\<close>

definition GitTree_name :: "'w gittree \<Rightarrow> (jsval \<times> jsval) option" where
  "GitTree_name s = map_option (\<lambda>fs. (field ''nameStart'' fs, field ''nameEnd'' fs)) (t_entry s)"

text \<open>\<open>while (t.next ()) cb (t)\<close>, with fuel; \<open>None\<close> is fuel run out.\<close>

primrec gitTree_each :: "nat \<Rightarrow> 'w engine \<Rightarrow> abc \<Rightarrow> 'w memory \<Rightarrow> packlib \<Rightarrow> ('w gittree, unit) js \<Rightarrow>
    ('w gittree, unit option) js" where
  "gitTree_each 0 E A M P cb = jret None"
| "gitTree_each (Suc n) E A M P cb =
     jbind (GitTree_next E A M P) (\<lambda>more.
     if more then jbind cb (\<lambda>_. gitTree_each n E A M P cb) else jret (Some ()))"

definition delta_apply :: "'w engine \<Rightarrow> abc \<Rightarrow> 'w memory \<Rightarrow> packlib \<Rightarrow> jsval \<Rightarrow> jsval \<Rightarrow> 'w bufapi \<Rightarrow> ('w, jsnum) js" where
  "delta_apply E A M P base delta B =
     jbind (api_idle B) (\<lambda>idle.
     jbind (JABCdeltApply E A M P [base, delta, idle, JNum (js_nat 0)]) (\<lambda>n.
     jbind (api_fed B (out_num n)) (\<lambda>_. jret (out_num n))))"

definition delta_encode :: "'w engine \<Rightarrow> abc \<Rightarrow> 'w memory \<Rightarrow> packlib \<Rightarrow> jsval \<Rightarrow> jsval \<Rightarrow> 'w bufapi \<Rightarrow> ('w, jsnum) js" where
  "delta_encode E A M P base target B =
     jbind (api_idle B) (\<lambda>idle.
     jbind (JABCdeltEncode E A M P [base, target, idle, JNum (js_nat 0)]) (\<lambda>n.
     if num_lt (out_num n) (Fin 0) then jret (js_int (- 1))
     else jbind (api_fed B (out_num n)) (\<lambda>_. jret (out_num n))))"

end
