(* ===== verification/UlogSafe.thy ===== *)
theory UlogSafe
  imports Ulog
begin

text \<open>
  What the scans of the row log find (\<open>scans_find_rows\<close>): on a log of whole rows the two loops, which
  see bytes only, are the searches of a list of rows, and they end.  Then what the seeks and the
  file-backed log do outside of that.
\<close>

section \<open>Logs of whole rows\<close>

text \<open>
  The codec: a row is one line, a drain at its start answers with it and stops behind its newline,
  and a feed writes it when it fits.
\<close>

definition row_codec :: "'u uloglib \<Rightarrow> ('u ulogrec \<Rightarrow> u8 list) \<Rightarrow> ('u ulogrec \<Rightarrow> bool) \<Rightarrow> bool" where
  "row_codec L row good \<longleftrightarrow> (\<forall>r. good r \<longrightarrow>
     (\<exists>x. row r = x @ [NL] \<and> NL \<notin> set x) \<and>
     (\<forall>rest. ULOGu8sDrain L (row r @ rest) = ((OK, r), length (row r))) \<and>
     (\<forall>n. ULOGu8sFeed L r n = (if length (row r) \<le> n then (OK, row r) else (NOROOM, []))))"

lemma row_codecD:
  assumes "row_codec L row good" and "good r"
  shows "\<exists>x. row r = x @ [NL] \<and> NL \<notin> set x"
    and "ULOGu8sDrain L (row r @ rest) = ((OK, r), length (row r))"
    and "0 < length (row r)"
  using assms unfolding row_codec_def by (blast, blast, metis append_is_Nil_conv length_greater_0_conv not_Cons_self2)

definition log_bytes :: "('u ulogrec \<Rightarrow> u8 list) \<Rightarrow> 'u ulogrec list \<Rightarrow> u8 list" where
  "log_bytes row rs = concat (map row rs)"

text \<open>The offset at which row \<open>i\<close> starts.\<close>

definition row_off :: "('u ulogrec \<Rightarrow> u8 list) \<Rightarrow> 'u ulogrec list \<Rightarrow> nat \<Rightarrow> nat" where
  "row_off row rs i = length (log_bytes row (take i rs))"

lemma log_bytes_split: "i < length rs \<Longrightarrow>
    log_bytes row rs = log_bytes row (take i rs) @ row (rs ! i) @ log_bytes row (drop (Suc i) rs)"
  unfolding log_bytes_def by (metis append_assoc concat.simps(2) concat_append id_take_nth_drop list.simps(9) map_append)

lemma log_bytes_from: "drop (row_off row rs i) (log_bytes row rs) = log_bytes row (drop i rs)"
proof -
  have "log_bytes row rs = log_bytes row (take i rs) @ log_bytes row (drop i rs)"
    unfolding log_bytes_def by (metis append_take_drop_id concat_append map_append)
  then show ?thesis by (simp add: row_off_def)
qed

lemma row_off_Suc: "i < length rs \<Longrightarrow> row_off row rs (Suc i) = row_off row rs i + length (row (rs ! i))"
  by (simp add: row_off_def log_bytes_def take_Suc_conv_app_nth)

lemma row_off_0 [simp]: "row_off row rs 0 = 0"
  by (simp add: row_off_def log_bytes_def)

lemma row_off_all [simp]: "length rs \<le> i \<Longrightarrow> row_off row rs i = length (log_bytes row rs)"
  by (simp add: row_off_def)

lemma row_off_le: "row_off row rs i \<le> length (log_bytes row rs)"
  unfolding row_off_def log_bytes_def by (metis append_take_drop_id concat_append le_add1 length_append map_append)

text \<open>The row at its offset, in an array of which the log is the front.\<close>

lemma row_at_start:
  assumes "row_codec L row good" and "\<forall>r\<in>set rs. good r" and "i < length rs"
  shows "row_at L (log_bytes row rs @ junk) (row_off row rs i) (length (log_bytes row rs)) =
    Inr ((OK, rs ! i), length (row (rs ! i)))"
proof -
  have "take (length (log_bytes row rs) - row_off row rs i) (drop (row_off row rs i) (log_bytes row rs @ junk)) =
      log_bytes row (drop i rs)"
    using row_off_le [of row rs i] by (simp add: log_bytes_from flip: length_drop)
  also have "\<dots> = row (rs ! i) @ log_bytes row (drop (Suc i) rs)"
    using assms(3) by (simp add: log_bytes_def flip: Cons_nth_drop_Suc)
  finally have front: "take (length (log_bytes row rs) - row_off row rs i) (drop (row_off row rs i) (log_bytes row rs @ junk)) =
      row (rs ! i) @ log_bytes row (drop (Suc i) rs)" .
  show ?thesis
    unfolding row_at_def front
    using row_off_le [of row rs i] row_codecD(2) [OF assms(1), of "rs ! i"] assms(2,3) by (simp add: not_less)
qed

lemma line_start_between:
  "p \<le> j \<Longrightarrow> (\<And>k. p \<le> k \<Longrightarrow> k < j \<Longrightarrow> base ! k \<noteq> NL) \<Longrightarrow> p = 0 \<or> base ! (p - 1) = NL \<Longrightarrow> line_start base j = p"
proof (induction j)
  case (Suc j)
  show ?case
  proof (cases "p = Suc j")
    case True
    with Suc.prems(3) show ?thesis by simp
  next
    case False
    with Suc show ?thesis by simp
  qed
qed simp

lemma prev_row:
  assumes "row_codec L row good" and "\<forall>r\<in>set rs. good r" and "i < length rs"
  shows "JABCulogPrevRow (log_bytes row rs @ junk) (row_off row rs (Suc i)) = Some (row_off row rs i)"
proof -
  let ?b = "log_bytes row rs @ junk" and ?p = "row_off row rs i"
  obtain x where x: "row (rs ! i) = x @ [NL]" "NL \<notin> set x"
    using row_codecD(1) [OF assms(1), of "rs ! i"] assms(2,3) by auto
  have split: "?b = log_bytes row (take i rs) @ x @ [NL] @ log_bytes row (drop (Suc i) rs) @ junk"
    using log_bytes_split [OF assms(3), of row] x(1) by simp
  have "?b ! k \<noteq> NL" if "?p \<le> k" "k < ?p + length x" for k
  proof -
    have k: "k - ?p < length x" using that by linarith
    then have "?b ! k = x ! (k - ?p)" using that by (simp add: split nth_append row_off_def)
    then show ?thesis using x(2) nth_mem [OF k] by auto
  qed
  moreover have "?p = 0 \<or> ?b ! (?p - 1) = NL"
  proof (cases i)
    case (Suc j)
    then obtain y where y: "row (rs ! j) = y @ [NL]"
      using row_codecD(1) [OF assms(1), of "rs ! j"] assms(2,3) by fastforce
    have "log_bytes row (take i rs) = (log_bytes row (take j rs) @ y) @ [NL]"
      using Suc assms(3) y by (simp add: log_bytes_def take_Suc_conv_app_nth)
    then show ?thesis by (simp add: split row_off_def nth_append)
  qed simp
  ultimately have "line_start ?b (?p + length x) = ?p" by (intro line_start_between) auto
  then show ?thesis by (simp add: JABCulogPrevRow_def row_off_Suc [OF assms(3)] x(1))
qed

text \<open>The searches of the list: the first index from \<open>i\<close> on, the last before \<open>i\<close>.\<close>

definition first_from :: "('r \<Rightarrow> bool) \<Rightarrow> 'r list \<Rightarrow> nat \<Rightarrow> nat option" where
  "first_from P rs i = find (\<lambda>j. P (rs ! j)) [i..<length rs]"

definition last_before :: "('r \<Rightarrow> bool) \<Rightarrow> 'r list \<Rightarrow> nat \<Rightarrow> nat option" where
  "last_before P rs i = find (\<lambda>j. P (rs ! j)) (rev [0..<i])"

lemma forward_finds:
  assumes "row_codec L row good" and "\<forall>r\<in>set rs. good r"
  shows "i \<le> length rs \<Longrightarrow>
    scan_forward L want (log_bytes row rs @ junk) (length (log_bytes row rs)) (row_off row rs i) =
      Inr (map_option (row_off row rs) (first_from (row_hit L False want) rs i))"
proof (induction "length rs - i" arbitrary: i)
  case 0
  then show ?case by (subst scan_forward.simps) (simp add: first_from_def)
next
  case (Suc n)
  then have i: "i < length rs" by simp
  note next_off = row_off_Suc [OF i, of row]
  have pos: "0 < length (row (rs ! i))" using row_codecD(3) [OF assms(1)] assms(2) i by simp
  have "row_off row rs i < length (log_bytes row rs)"
    using row_off_le [of row rs "Suc i"] next_off pos by linarith
  moreover have "scan_forward L want (log_bytes row rs @ junk) (length (log_bytes row rs)) (row_off row rs (Suc i)) =
      Inr (map_option (row_off row rs) (first_from (row_hit L False want) rs (Suc i)))"
    using Suc i by simp
  moreover have "[i..<length rs] = i # [Suc i..<length rs]" using i by (rule upt_conv_Cons)
  ultimately show ?case
    using pos by (subst scan_forward.simps)
      (simp add: row_at_start [OF assms i] first_from_def next_off)
qed

lemma back_finds:
  assumes "row_codec L row good" and "\<forall>r\<in>set rs. good r"
  shows "i \<le> length rs \<Longrightarrow>
    scan_back L want (log_bytes row rs @ junk) (length (log_bytes row rs)) (row_off row rs i) =
      Inr (map_option (row_off row rs) (last_before (row_hit L True want) rs i))"
proof (induction i)
  case 0
  then show ?case by (subst scan_back.simps) (simp add: JABCulogPrevRow_def last_before_def)
next
  case (Suc i)
  then have i: "i < length rs" by simp
  have pos: "row_off row rs i < row_off row rs (Suc i)"
    using row_codecD(3) [OF assms(1)] assms(2) i by (simp add: row_off_Suc [OF i])
  show ?case
    using Suc pos by (subst scan_back.simps)
      (simp add: prev_row [OF assms i] row_at_start [OF assms i] last_before_def)
qed

section \<open>The property\<close>

text \<open>
  C33: the seeks are searches of the list of rows.  On an array that starts with whole rows, from the
  start of any row or the end, the forward scan returns the offset of the first row from there on with
  the verb, a time not before the one asked for, or the URI prefix; the backward scan the offset of
  the last row before it; -1 when there is none.  Both loops end, and read no byte after the rows.
\<close>

theorem scans_find_rows:
  assumes "row_codec L row good" and "\<forall>r\<in>set rs. good r" and "i \<le> length rs"
  shows "JABCulogScan L want False (log_bytes row rs @ junk) (row_off row rs i) (length (log_bytes row rs)) =
      Inr (map_option (row_off row rs) (first_from (row_hit L False want) rs i)) \<and>
    JABCulogScan L want True (log_bytes row rs @ junk) (row_off row rs i) (length (log_bytes row rs)) =
      Inr (map_option (row_off row rs) (last_before (row_hit L True want) rs i))"
  using forward_finds [OF assms] back_finds [OF assms] by (simp add: JABCulogScan_def)

text \<open>A codec of rows of two bytes and a newline: the time, the verb.\<close>

definition tiny_row :: "unit ulogrec \<Rightarrow> u8 list" where
  "tiny_row r = [ucast (ul_ts r), ucast (ul_verb r), NL]"

definition tiny_good :: "unit ulogrec \<Rightarrow> bool" where
  "tiny_good r \<longleftrightarrow> ul_ts r < 256 \<and> ul_verb r < 256 \<and> ul_ts r \<noteq> 10 \<and> ul_verb r \<noteq> 10"

definition tiny :: "unit uloglib" where
  "tiny = \<lparr>ULOGu8sFeed = \<lambda>r n. if 3 \<le> n then (OK, tiny_row r) else (NOROOM, []),
     ULOGu8sDrain = \<lambda>bs. (case bs of
        t # v # c # _ \<Rightarrow> ((OK, \<lparr>ul_ts = ucast t, ul_verb = ucast v, ul_uri = ()\<rparr>), 3)
      | _ \<Rightarrow> ((NODATA, \<lparr>ul_ts = 0, ul_verb = 0, ul_uri = ()\<rparr>), 0)),
     RONutf8sDrain = \<lambda>bs. 0, RONutf8sFeed = \<lambda>v. [], URILexer = \<lambda>bs. (OK, ()), DOGCanonURI = \<lambda>u. (OK, u),
     URIMake = \<lambda>u n. (OK, []), uri_parts = \<lambda>u. 0, malloc_fits = \<lambda>n. True\<rparr>"

lemma ucast_back: "x < 256 \<Longrightarrow> ucast (ucast (x :: u64) :: u8) = x"
proof -
  assume "x < 256"
  then have "unat x < 256" by (simp add: word_less_nat_alt)
  then have "unat (ucast (ucast x :: u8) :: u64) = unat x" by (simp add: unsigned_ucast_eq take_bit_nat_eq_self unsigned_take_bit_eq)
  then show ?thesis by (simp add: word_unat_eq_iff)
qed

lemma tiny_codec: "row_codec tiny tiny_row tiny_good"
proof -
  have "NL \<noteq> ucast x" if "x < 256" "x \<noteq> 10" for x :: u64
  proof
    assume "NL = ucast x"
    then have "ucast (ucast x :: u8) = (10 :: u64)" by (simp add: NL_def)
    with ucast_back [OF that(1)] that(2) show False by simp
  qed
  then show ?thesis
    by (auto simp: row_codec_def tiny_def tiny_row_def tiny_good_def ucast_back)
qed

theorem scans_find_rows_witness:
  "JABCulogScan tiny (ByVerb 7) False [1, 5, 10, 2, 7, 10, 3, 7, 10, 255] 0 9 = Inr (Some 3) \<and>
   JABCulogScan tiny (ByTime 2) True [1, 5, 10, 2, 7, 10, 3, 7, 10, 255] 9 9 = Inr (Some 3)"
proof -
  let ?rs = "[\<lparr>ul_ts = 1, ul_verb = 5, ul_uri = ()\<rparr>, \<lparr>ul_ts = 2, ul_verb = 7, ul_uri = ()\<rparr>,
    \<lparr>ul_ts = 3, ul_verb = 7, ul_uri = ()\<rparr>]"
  have bytes: "log_bytes tiny_row ?rs = [1, 5, 10, 2, 7, 10, 3, 7, 10]"
    by (simp add: log_bytes_def tiny_row_def NL_def)
  have good: "\<forall>r\<in>set ?rs. tiny_good r" by (simp add: tiny_good_def)
  have off: "row_off tiny_row ?rs 1 = 3" by (simp add: row_off_def log_bytes_def tiny_row_def)
  have "first_from (row_hit tiny False (ByVerb 7)) ?rs 0 = Some 1"
    by (simp add: first_from_def upt_conv_Cons row_hit_def)
  moreover have "last_before (row_hit tiny True (ByTime 2)) ?rs 3 = Some 1"
    by (simp add: last_before_def upt_rec [of _ 3] upt_rec [of _ 2] upt_rec [of _ 1] row_hit_def numeral_3_eq_3)
  ultimately show ?thesis
    using scans_find_rows [OF tiny_codec good, where i = 0 and want = "ByVerb 7" and junk = "[255]"]
      scans_find_rows [OF tiny_codec good, where i = 3 and want = "ByTime 2" and junk = "[255]"] off
    by (simp add: bytes eval_nat_numeral)
qed

section \<open>Outside of it\<close>

text \<open>
  Only the forward scan is bounded by \<open>dataLen\<close>: a backward scan that starts behind it hands libdog a
  slice whose front is past its end.
\<close>

lemma back_past_the_data:
  assumes "0 < cur" and "dl < line_start base (cur - 1)"
  shows "JABCulogScan L want True base cur dl = Inl CUndef"
  using assms line_start_le [of base "cur - 1"]
  by (subst JABCulogScan_def, subst scan_back.simps) (simp add: JABCulogPrevRow_def row_at_def)

text \<open>
  \<open>seekURI\<close> renders a URI into 2048 bytes: a longer one is taken for the empty text, which no prefix
  matches, while the getter \<open>uri\<close> reads it back whole.
\<close>

lemma long_uri_is_invisible:
  assumes "fst (URIMake L (ul_uri r) 2048) = NOROOM" and "pfx \<noteq> []"
  shows "\<not> row_hit L back (ByUri pfx) r"
  using assms by (cases "URIMake L (ul_uri r) 2048") (simp add: row_hit_def JABCulogUriText_def)

text \<open>A string argument is cut to the scratch in silence, be it a URI to be written or a prefix to look for.\<close>

lemma long_string_is_cut:
  assumes "room \<le> length str"
  shows "JABChunkArgU8 E A M room (JStr str) w = (Inr (take (room - 1) (bytes_of str)), w)"
  using assms by (simp add: JABChunkArgU8_def)

text \<open>A handle is a bare address: any number that is none, or is none any more, is followed.\<close>

lemma forged_handle:
  assumes "num_faithful E" and "\<not> live_box B w n" and "0 < n" and "n < 2 ^ 64"
  shows "JABCulogCount E B [JNum (js_nat n)] w = (Inl CUndef, w)"
    and "JABCulogClose E B [JNum (js_nat n)] w = (Inl CUndef, w)"
  using assms
  by (simp_all add: JABCulogCount_def JABCulogClose_def handle_or_def JABCulogHandle_def num_faithful_def
      js_nat_def [of n] jbind_def deref_def as_size_nat [unfolded js_nat_def])

text \<open>The row index is converted after the handle: its \<open>valueOf\<close> may close the log under the leaf.\<close>

lemma index_closes_the_log:
  assumes "num_faithful E" and "0 < n" and "n < 2 ^ 64"
    and "to_number E v w = (Inr (Fin 0), w')" and "\<not> live_box B w' n"
  shows "JABCulogRowTime E B [JNum (js_nat n), v] w = (Inl CUndef, w')"
  using assms
  by (simp add: JABCulogRowTime_def file_row_def handle_or_def JABCulogHandle_def num_faithful_def
      js_nat_def [of n] jbind_def deref_def as_size_nat [unfolded js_nat_def] cast_or_undef_def c_cast_def Let_def)

end
