(* ===== verification/CursorsSafe.thy ===== *)
theory CursorsSafe
  imports Cursors UlogSafe
begin

text \<open>
  What the cursors of the logs promise: a walk visits every record once and ends
  (\<open>cursor_visits_every_row\<close>), the times a log object writes ascend (\<open>feed_times_ascend\<close>), and the
  scratch of the pack log grows until the object fits or the retries are over (\<open>grow_finds_room\<close>).
\<close>

section \<open>The walk of a record log\<close>

text \<open>
  The contract between a log's \<open>_next\<close> leaf and its cursor: in a state where the records of the array
  \<open>v\<close> end at the offsets \<open>bs\<close> (the first offset is the start, the last the write head), the leaf at
  an offset of the list answers with the next one, and at the write head with -1.  \<open>'p\<close> is what the
  leaf is a leaf over (engine, libraries).
\<close>

lemma js_int_of_nat: "js_int (int n) = js_nat n"
  by (simp add: js_int_def js_nat_def)

locale record_log =
  fixes leaf :: "'p \<Rightarrow> jsval list \<Rightarrow> ('w, jout) js"
    and laid :: "'p \<Rightarrow> jsval \<Rightarrow> nat list \<Rightarrow> 'w \<Rightarrow> bool"
  assumes next_offset: "laid p v bs w \<Longrightarrow> Suc i < length bs \<Longrightarrow>
      leaf p [v, JNum (js_nat (bs ! i)), JNum (js_nat (last bs))] w = (Inr (JVal (JNum (js_nat (bs ! Suc i)))), w)"
    and at_head: "laid p v bs w \<Longrightarrow>
      leaf p [v, JNum (js_nat (last bs)), JNum (js_nat (last bs))] w = (Inr (JVal (JNum (js_int (- 1)))), w)"
    and laid_fits: "laid p v bs w \<Longrightarrow> bs \<noteq> [] \<and> (\<forall>b\<in>set bs. b < 2 ^ 31)"
begin

lemma or0_at: "laid p v bs w \<Longrightarrow> b \<in> set bs \<Longrightarrow> or0 (js_nat b) = JNum (js_nat b)"
  using laid_fits [of p v bs w] to_int32_nat [of b] by (simp add: or0_def js_int_of_nat)

text \<open>The cursor stands before record \<open>i\<close>.\<close>

definition before :: "'p \<Rightarrow> nat list \<Rightarrow> nat \<Rightarrow> ('w, 'b) rlog_scheme \<Rightarrow> bool" where
  "before p bs i s \<longleftrightarrow> laid p (self s) bs (lw s) \<and> i < length bs \<and> wm s = js_nat (last bs) \<and> rd s = js_nat (bs ! i)"

lemma step:
  assumes b: "before p bs i s" and i: "Suc i < length bs"
  shows "cur_next (leaf p) s = (Inr True, s\<lparr>at_rec := js_nat (bs ! i), rd := js_nat (bs ! Suc i)\<rparr>)"
proof -
  have l: "laid p (self s) bs (lw s)" using b by (simp add: before_def)
  then have m: "bs ! i \<in> set bs" "last bs \<in> set bs" using i laid_fits by auto
  have "js_int (to_int32 (js_nat (bs ! i))) = js_nat (bs ! i)" using or0_at [OF l m(1)] by (simp add: or0_def)
  then show ?thesis
    using b or0_at [OF l m(1)] or0_at [OF l m(2)] next_offset [OF l i]
    by (simp add: cur_next_def before_def on_lw_def out_num_def)
qed

lemma stop:
  assumes b: "before p bs i s" and i: "length bs = Suc i"
  shows "cur_next (leaf p) s = (Inr False, s)"
proof -
  have l: "laid p (self s) bs (lw s)" using b by (simp add: before_def)
  then have m: "last bs \<in> set bs" and h: "bs ! i = last bs" using i laid_fits by (auto simp: last_conv_nth)
  then show ?thesis
    using b or0_at [OF l m] at_head [OF l] by (simp add: cur_next_def before_def on_lw_def out_num_def js_int_def)
qed

text \<open>\<open>while (log.next ()) seen.push (log._rec)\<close>, with fuel for the loop; \<open>None\<close> is fuel run out.\<close>

end

primrec walk :: "nat \<Rightarrow> (('w, 'b) rlog_scheme, bool) js \<Rightarrow> jsnum list \<Rightarrow> (('w, 'b) rlog_scheme, jsnum list option) js" where
  "walk 0 nxt seen = jret None"
| "walk (Suc n) nxt seen =
     jbind nxt (\<lambda>more. if more then (\<lambda>s. walk n nxt (seen @ [at_rec s]) s) else jret (Some seen))"

context record_log
begin

lemma walk_from:
  "before p bs i s \<Longrightarrow> \<exists>s'. walk (length bs - i) (cur_next (leaf p)) seen s =
     (Inr (Some (seen @ map js_nat (drop i (butlast bs)))), s') \<and> before p bs (length bs - 1) s' \<and> lw s' = lw s"
proof (induction "length bs - i" arbitrary: i s seen)
  case 0
  then show ?case by (simp add: before_def)
next
  case (Suc n)
  show ?case
  proof (cases "Suc i = length bs")
    case True
    then have i: "length bs = Suc i" by simp
    show ?thesis using stop [OF Suc.prems i] Suc.prems i by (simp add: jbind_def)
  next
    case False
    then have i: "Suc i < length bs" using Suc.prems by (simp add: before_def)
    let ?s = "s\<lparr>at_rec := js_nat (bs ! i), rd := js_nat (bs ! Suc i)\<rparr>"
    have b: "before p bs (Suc i) ?s" using Suc.prems i by (simp add: before_def)
    have n: "n = length bs - Suc i" using Suc.hyps(2) by simp
    have d: "drop i (butlast bs) = bs ! i # drop (Suc i) (butlast bs)"
      using i by (metis Cons_nth_drop_Suc length_butlast less_diff_conv nth_butlast Suc_eq_plus1)
    have len: "length bs - i = Suc (length bs - Suc i)" using Suc.hyps(2) n by simp
    have "walk (length bs - i) (cur_next (leaf p)) seen s =
        walk (length bs - Suc i) (cur_next (leaf p)) (seen @ [js_nat (bs ! i)]) ?s"
      unfolding len walk.simps by (simp add: jbind_def step [OF Suc.prems i])
    with Suc.hyps(1) [OF n b, of "seen @ [js_nat (bs ! i)]"] show ?thesis
      by (simp add: d)
  qed
qed

lemma walk_all:
  assumes "laid p (self s) bs (lw s)" and "wm s = js_nat (last bs)" and "bs ! 0 = start"
  shows "\<exists>s'. jbind (cur_rewind start) (\<lambda>_. walk (length bs) (cur_next (leaf p)) []) s =
    (Inr (Some (map js_nat (butlast bs))), s')"
proof -
  have "before p bs 0 (s\<lparr>rd := js_nat start, at_rec := js_int (- 1)\<rparr>)"
    using assms laid_fits [OF assms(1)] by (simp add: before_def)
  from walk_from [OF this, of "[]"] show ?thesis by (auto simp: cur_rewind_def)
qed

text \<open>A seek to a record puts the cursor on it: the next step goes to the one after it.\<close>

lemma seek_at:
  assumes l: "laid p (self s) bs (lw s)" and w: "wm s = js_nat (last bs)" and i: "Suc i < length bs"
  shows "cur_seek msg (leaf p) forget (JNum (js_nat (bs ! i))) s =
    (Inr True, s\<lparr>at_rec := js_nat (bs ! i), rd := js_nat (bs ! Suc i)\<rparr>)"
  using or0_at [OF l, of "last bs"] laid_fits [OF l] w next_offset [OF l i]
  by (simp add: cur_seek_def on_lw_def out_num_def)

end

section \<open>The three logs keep the contract\<close>

text \<open>The offsets at which parts laid end to end start, and where the last one ends.\<close>

primrec cuts :: "nat \<Rightarrow> u8 list list \<Rightarrow> nat list" where
  "cuts k [] = [k]"
| "cuts k (q # qs) = k # cuts (k + length q) qs"

lemma length_cuts [simp]: "length (cuts k qs) = Suc (length qs)"
  by (induction qs arbitrary: k) simp_all

lemma cuts_Nil [simp]: "cuts k qs \<noteq> []"
  by (cases qs) simp_all

lemma cuts_nth: "i \<le> length qs \<Longrightarrow> cuts k qs ! i = k + length (concat (take i qs))"
  by (induction qs arbitrary: k i) (auto simp: nth_Cons' take_Cons' split: nat.splits)

lemma last_cuts: "last (cuts k qs) = k + length (concat qs)"
  using cuts_nth [of "length qs" qs k] by (simp add: last_conv_nth)

lemma cuts_le: "b \<in> set (cuts k qs) \<Longrightarrow> b \<le> k + length (concat qs)"
  by (induction qs arbitrary: k) fastforce+

lemma cuts_part:
  assumes "i < length qs"
  shows "\<exists>rest. drop (length (concat (take i qs))) (concat qs) = qs ! i @ rest"
    and "cuts k qs ! Suc i = cuts k qs ! i + length (qs ! i)"
proof -
  have "concat qs = concat (take i qs) @ qs ! i @ concat (drop (Suc i) qs)"
    by (metis assms concat.simps(2) concat_append id_take_nth_drop)
  then show "\<exists>rest. drop (length (concat (take i qs))) (concat qs) = qs ! i @ rest" by simp
  show "cuts k qs ! Suc i = cuts k qs ! i + length (qs ! i)"
    using assms by (simp add: cuts_nth take_Suc_conv_app_nth)
qed

text \<open>The array's bytes begin with the log's.\<close>

definition holds_log :: "'w engine \<Rightarrow> abc \<Rightarrow> 'w memory \<Rightarrow> jsval \<Rightarrow> u8 list \<Rightarrow> 'w \<Rightarrow> bool" where
  "holds_log E A M v bs0 w \<longleftrightarrow> length bs0 < 2 ^ 31 \<and>
     (\<exists>c junk. JABCDataOf E A v w = (Inr c, w) \<and> bytes_at M w (b1 c) (data_len c) = bs0 @ junk)"

lemma u64_at_nat:
  assumes "num_faithful E" and "n < 2 ^ 31"
  shows "JABCu64Of E (JNum (js_nat n)) w = (Inr (word_of_nat n), w)"
    and "unat (word_of_nat n :: u64) = n"
proof -
  have "to_number E (JNum (js_nat n)) w = (Inr (js_nat n), w)" using assms(1) by (simp add: num_faithful_def)
  then show "JABCu64Of E (JNum (js_nat n)) w = (Inr (word_of_nat n), w)"
    using assms(2) by (simp add: JABCu64Of_prim is_obj_def jbind_def)
  show "unat (word_of_nat n :: u64) = n" using assms(2) by (simp add: unsigned_of_nat take_bit_nat_eq_self)
qed

lemma off_of_nat:
  assumes "num_faithful E" and "n < 2 ^ 31" and "n \<le> len"
  shows "JABCOffOf E len (JNum (js_nat n)) w = (Inr n, w)"
  using u64_at_nat [OF assms(1,2)] assms(3) by (simp add: JABCOffOf_def jbind_def)

lemma log_next_on:
  assumes "num_faithful E" and log: "holds_log E A M v bs0 w" and off: "off \<le> length bs0"
  shows "\<exists>junk. log_next E A M usage step [v, JNum (js_nat off), JNum (js_nat (length bs0))] w =
    (if off = length bs0 then js_opt_nat None
     else jbind (step (bs0 @ junk) off (length bs0)) js_opt_nat) w"
proof -
  obtain c junk where c: "JABCDataOf E A v w = (Inr c, w)" "bytes_at M w (b1 c) (data_len c) = bs0 @ junk"
    and n: "length bs0 < 2 ^ 31" using log by (auto simp: holds_log_def)
  have "data_len c = length (bs0 @ junk)" using c(2) by (metis length_bytes_at)
  then have "JABCOffOf E (data_len c) (JNum (js_nat off)) w = (Inr off, w)"
    "JABCOffOf E (data_len c) (JNum (js_nat (length bs0))) w = (Inr (length bs0), w)"
    using off n by (simp_all add: off_of_nat [OF assms(1)])
  with c off show ?thesis
    by (intro exI [of _ junk]) (simp add: log_next_def jbind_def data_of_def)
qed

lemma sub_log:
  assumes "slicer_law C" and "off \<le> length bs0" and "length bs0 < 2 ^ 31"
  shows "sub_or C msg (bs0 @ junk) off (length bs0) = jret (drop off bs0)"
proof -
  have "unat (word_of_nat n :: u32) = n" if "n \<le> length bs0" for n
    using that assms(3) by (simp add: unsigned_of_nat take_bit_nat_eq_self)
  with assms show ?thesis
    by (simp add: sub_or_def slicer_law_def word_le_nat_alt)
qed

text \<open>A drain that takes each part whole.\<close>

definition drains :: "(u8 list \<Rightarrow> (ok64 \<times> 'r) \<times> nat) \<Rightarrow> u8 list list \<Rightarrow> bool" where
  "drains drain qs \<longleftrightarrow> (\<forall>q\<in>set qs. q \<noteq> [] \<and> (\<forall>rest. \<exists>r. drain (q @ rest) = ((OK, r), length q)))"

definition drain_next :: "(u8 list \<Rightarrow> (ok64 \<times> 'r) \<times> nat) \<Rightarrow> u8 list \<Rightarrow> nat \<Rightarrow> nat option" where
  "drain_next drain from off = (case drain from of ((o', r), n) \<Rightarrow> if o' = OK then Some (off + n) else None)"

lemma drain_log:
  fixes usage msg :: string
  assumes "num_faithful E" and "slicer_law C" and "holds_log E A M v (concat qs) w" and "drains drain qs"
  defines "leaf \<equiv> log_next E A M usage (\<lambda>bs off dl. jbind (sub_or C msg bs off dl) (\<lambda>from. jret (drain_next drain from off)))"
  shows "i < length qs \<Longrightarrow> leaf [v, JNum (js_nat (cuts 0 qs ! i)), JNum (js_nat (last (cuts 0 qs)))] w =
      (Inr (JVal (JNum (js_nat (cuts 0 qs ! Suc i)))), w)"
    and "leaf [v, JNum (js_nat (last (cuts 0 qs))), JNum (js_nat (last (cuts 0 qs)))] w =
      (Inr (JVal (JNum (js_int (- 1)))), w)"
proof -
  have len: "length (concat qs) < 2 ^ 31" using assms(3) by (simp add: holds_log_def)
  let ?step = "\<lambda>bs off dl. jbind (sub_or C msg bs off dl) (\<lambda>from. jret (drain_next drain from off))"
  have last: "last (cuts 0 qs) = length (concat qs)" by (simp add: last_cuts)
  from log_next_on [OF assms(1,3) order.refl, of usage ?step]
  show "leaf [v, JNum (js_nat (last (cuts 0 qs))), JNum (js_nat (last (cuts 0 qs)))] w =
      (Inr (JVal (JNum (js_int (- 1)))), w)"
    by (simp add: leaf_def last js_opt_nat_def)
  assume i: "i < length qs"
  let ?off = "length (concat (take i qs))"
  obtain rest where rest: "drop ?off (concat qs) = qs ! i @ rest" using cuts_part(1) [OF i] by auto
  have q: "qs ! i \<noteq> []" "\<exists>r. drain (qs ! i @ rest) = ((OK, r), length (qs ! i))"
    using assms(4) i by (auto simp: drains_def)
  have lt: "?off < length (concat qs)"
    using rest q(1) by (metis append_is_Nil_conv drop_all not_le_imp_less)
  from log_next_on [OF assms(1,3) order.strict_implies_order [OF lt], of usage ?step] lt
  obtain junk where "leaf [v, JNum (js_nat ?off), JNum (js_nat (length (concat qs)))] w =
      jbind (?step (concat qs @ junk) ?off (length (concat qs))) js_opt_nat w"
    by (auto simp: leaf_def)
  moreover have "?step (concat qs @ junk) ?off (length (concat qs)) w = (Inr (Some (?off + length (qs ! i))), w)"
    using q(2) by (auto simp: sub_log [OF assms(2) order.strict_implies_order [OF lt] len] rest drain_next_def)
  ultimately have "leaf [v, JNum (js_nat ?off), JNum (js_nat (length (concat qs)))] w =
      js_opt_nat (Some (?off + length (qs ! i))) w"
    by (simp only: jbind_Inr)
  then show "leaf [v, JNum (js_nat (cuts 0 qs ! i)), JNum (js_nat (last (cuts 0 qs)))] w =
      (Inr (JVal (JNum (js_nat (cuts 0 qs ! Suc i)))), w)"
    using cuts_part(2) [OF i, of 0] i by (simp add: last cuts_nth js_opt_nat_def)
qed

text \<open>What the three leaves are leaves over, and the states their contract speaks of.\<close>

type_synonym ('w, 'l) log_env = "'w engine \<times> abc \<times> 'w memory \<times> slicer \<times> 'l"

definition ulog_laid :: "('w, 'u uloglib) log_env \<Rightarrow> jsval \<Rightarrow> nat list \<Rightarrow> 'w \<Rightarrow> bool" where
  "ulog_laid p v bs w = (case p of (E, A, M, C, L) \<Rightarrow> num_faithful E \<and> slicer_law C \<and>
     (\<exists>qs. bs = cuts 0 qs \<and> holds_log E A M v (concat qs) w \<and> drains (ULOGu8sDrain L) qs))"

definition hunk_laid :: "('w, hunklib) log_env \<Rightarrow> jsval \<Rightarrow> nat list \<Rightarrow> 'w \<Rightarrow> bool" where
  "hunk_laid p v bs w = (case p of (E, A, M, C, H) \<Rightarrow> num_faithful E \<and> slicer_law C \<and>
     (\<exists>qs. bs = cuts 0 qs \<and> holds_log E A M v (concat qs) w \<and> drains (HUNKu8sDrain H) qs))"

text \<open>A pack has its header first; where a record ends is for the library to say, from the whole pack.\<close>

definition pack_laid :: "('w, packlib) log_env \<Rightarrow> jsval \<Rightarrow> nat list \<Rightarrow> 'w \<Rightarrow> bool" where
  "pack_laid p v bs w = (case p of (E, A, M, C, P) \<Rightarrow> num_faithful E \<and> slicer_law C \<and>
     (\<exists>hdr qs. bs = cuts (length hdr) qs \<and> holds_log E A M v (hdr @ concat qs) w \<and> (\<forall>q\<in>set qs. q \<noteq> []) \<and>
        (\<forall>i<length qs. PACKRecordEnd P (hdr @ concat qs) (word_of_nat (bs ! i)) = (OK, word_of_nat (bs ! Suc i)))))"

definition ulog_leaf :: "('w, 'u uloglib) log_env \<Rightarrow> jsval list \<Rightarrow> ('w, jout) js" where
  "ulog_leaf p = (case p of (E, A, M, C, L) \<Rightarrow> JABCulogNext E A M C L)"

definition hunk_leaf :: "('w, hunklib) log_env \<Rightarrow> jsval list \<Rightarrow> ('w, jout) js" where
  "hunk_leaf p = (case p of (E, A, M, C, H) \<Rightarrow> JABChunkNext E A M C H)"

definition pack_leaf :: "('w, packlib) log_env \<Rightarrow> jsval list \<Rightarrow> ('w, jout) js" where
  "pack_leaf p = (case p of (E, A, M, C, P) \<Rightarrow> JABCpackNext E A M C P)"

lemma ulog_leaf_drain: "ulog_leaf (E, A, M, C, L) = log_next E A M ''ulog._next(buf, off, dataLen)''
    (\<lambda>bs off dl. jbind (sub_or C ''ulog: the row range is out of range'' bs off dl) (\<lambda>from.
      jret (drain_next (ULOGu8sDrain L) from off)))"
proof -
  have "ulog_end L from off = drain_next (ULOGu8sDrain L) from off" for "from" off
    by (simp add: ulog_end_def drain_next_def split: prod.split)
  then show ?thesis by (simp add: ulog_leaf_def JABCulogNext_def fun_eq_iff)
qed

lemma hunk_leaf_drain: "hunk_leaf (E, A, M, C, H) = log_next E A M ''hunk._next(buf, readOff, dataLen)''
    (\<lambda>bs off dl. jbind (sub_or C ''hunk: the record range is out of range'' bs off dl) (\<lambda>from.
      jret (drain_next (HUNKu8sDrain H) from off)))"
  by (rule ext) (simp add: hunk_leaf_def JABChunkNext_def drain_next_def case_prod_unfold)

lemma cuts_fit: "b \<in> set (cuts k qs) \<Longrightarrow> holds_log E A M v (hdr @ concat qs) w \<Longrightarrow> k = length hdr \<Longrightarrow> b < 2 ^ 31"
  using cuts_le [of b k qs] by (auto simp: holds_log_def)

interpretation ulog_walk: record_log ulog_leaf ulog_laid
proof
  fix p :: "('w, 'u uloglib) log_env" and v bs w i
  obtain E A M C L where p: "p = (E, A, M, C, L)" by (cases p)
  assume l: "ulog_laid p v bs w"
  then obtain qs where laws: "num_faithful E" "slicer_law C" and bs: "bs = cuts 0 qs"
    and log: "holds_log E A M v (concat qs) w" "drains (ULOGu8sDrain L) qs"
    by (auto simp: ulog_laid_def p)
  show "ulog_leaf p [v, JNum (js_nat (last bs)), JNum (js_nat (last bs))] w = (Inr (JVal (JNum (js_int (- 1)))), w)"
    unfolding p bs ulog_leaf_drain by (rule drain_log(2) [OF laws log])
  show "bs \<noteq> [] \<and> (\<forall>b\<in>set bs. b < 2 ^ 31)"
    using cuts_fit [of _ 0 qs E A M v "[]" w] log bs by auto
  assume "Suc i < length bs"
  then show "ulog_leaf p [v, JNum (js_nat (bs ! i)), JNum (js_nat (last bs))] w = (Inr (JVal (JNum (js_nat (bs ! Suc i)))), w)"
    unfolding p bs ulog_leaf_drain by (intro drain_log(1) [OF laws log]) simp
qed

interpretation hunk_walk: record_log hunk_leaf hunk_laid
proof
  fix p :: "('w, hunklib) log_env" and v bs w i
  obtain E A M C H where p: "p = (E, A, M, C, H)" by (cases p)
  assume l: "hunk_laid p v bs w"
  then obtain qs where laws: "num_faithful E" "slicer_law C" and bs: "bs = cuts 0 qs"
    and log: "holds_log E A M v (concat qs) w" "drains (HUNKu8sDrain H) qs"
    by (auto simp: hunk_laid_def p)
  show "hunk_leaf p [v, JNum (js_nat (last bs)), JNum (js_nat (last bs))] w = (Inr (JVal (JNum (js_int (- 1)))), w)"
    unfolding p bs hunk_leaf_drain by (rule drain_log(2) [OF laws log])
  show "bs \<noteq> [] \<and> (\<forall>b\<in>set bs. b < 2 ^ 31)"
    using cuts_fit [of _ 0 qs E A M v "[]" w] log bs by auto
  assume "Suc i < length bs"
  then show "hunk_leaf p [v, JNum (js_nat (bs ! i)), JNum (js_nat (last bs))] w = (Inr (JVal (JNum (js_nat (bs ! Suc i)))), w)"
    unfolding p bs hunk_leaf_drain by (intro drain_log(1) [OF laws log]) simp
qed

text \<open>The pack's leaf reads the whole pack again from its header.\<close>

lemma pack_log:
  assumes laws: "num_faithful E" "slicer_law C" and log: "holds_log E A M v (hdr @ concat qs) w"
    and ne: "\<forall>q\<in>set qs. q \<noteq> []"
    and ends: "\<forall>i<length qs. PACKRecordEnd P (hdr @ concat qs) (word_of_nat (cuts (length hdr) qs ! i)) =
      (OK, word_of_nat (cuts (length hdr) qs ! Suc i))"
  defines "bs \<equiv> cuts (length hdr) qs"
  shows "i < length qs \<Longrightarrow> JABCpackNext E A M C P [v, JNum (js_nat (bs ! i)), JNum (js_nat (last bs))] w =
      (Inr (JVal (JNum (js_nat (bs ! Suc i)))), w)"
    and "JABCpackNext E A M C P [v, JNum (js_nat (last bs)), JNum (js_nat (last bs))] w =
      (Inr (JVal (JNum (js_int (- 1)))), w)"
proof -
  let ?step = "\<lambda>bs off dl. jbind (sub_or C ''pack: the data length is out of range'' bs 0 dl) (\<lambda>pack.
          case PACKRecordEnd P pack (word_of_nat off) of
            (o', end) \<Rightarrow> jret (if o' \<noteq> OK then None else Some (unat end)))"
  have last: "last bs = length (hdr @ concat qs)" by (simp add: bs_def last_cuts)
  have len: "length (hdr @ concat qs) < 2 ^ 31" using log by (simp only: holds_log_def)
  note run = log_next_on [OF laws(1) log, of _ "''pack._next(buf, off, dataLen)''" ?step, folded JABCpackNext_def]
  from run [OF order.refl]
  show "JABCpackNext E A M C P [v, JNum (js_nat (last bs)), JNum (js_nat (last bs))] w =
      (Inr (JVal (JNum (js_int (- 1)))), w)"
    by (auto simp only: last js_opt_nat_def option.case jret_def if_True refl)
  assume i: "i < length qs"
  have le: "bs ! Suc i \<le> length (hdr @ concat qs)"
    using cuts_le [of "bs ! Suc i" "length hdr" qs] i by (simp add: bs_def)
  have "bs ! i < bs ! Suc i" using cuts_part(2) [OF i] ne i by (simp add: bs_def)
  with le have lt: "bs ! i < length (hdr @ concat qs)" by linarith
  from run [OF order.strict_implies_order [OF lt]] lt
  obtain junk where r: "JABCpackNext E A M C P [v, JNum (js_nat (bs ! i)), JNum (js_nat (length (hdr @ concat qs)))] w =
      jbind (?step ((hdr @ concat qs) @ junk) (bs ! i) (length (hdr @ concat qs))) js_opt_nat w"
    by auto
  have "unat (word_of_nat (bs ! Suc i) :: u64) = bs ! Suc i"
    using le len by (simp add: unsigned_of_nat take_bit_nat_eq_self)
  moreover have "PACKRecordEnd P (hdr @ concat qs) (word_of_nat (bs ! i)) = (OK, word_of_nat (bs ! Suc i))"
    using ends i by (simp add: bs_def)
  ultimately have "?step ((hdr @ concat qs) @ junk) (bs ! i) (length (hdr @ concat qs)) w = (Inr (Some (bs ! Suc i)), w)"
    unfolding sub_log [OF laws(2) le0 len] by simp
  with r have "JABCpackNext E A M C P [v, JNum (js_nat (bs ! i)), JNum (js_nat (length (hdr @ concat qs)))] w =
      js_opt_nat (Some (bs ! Suc i)) w"
    by (simp only: jbind_Inr)
  then show "JABCpackNext E A M C P [v, JNum (js_nat (bs ! i)), JNum (js_nat (last bs))] w =
      (Inr (JVal (JNum (js_nat (bs ! Suc i)))), w)"
    by (simp add: last js_opt_nat_def)
qed

interpretation pack_walk: record_log pack_leaf pack_laid
proof
  fix p :: "('w, packlib) log_env" and v bs w i
  obtain E A M C P where p: "p = (E, A, M, C, P)" by (cases p)
  assume l: "pack_laid p v bs w"
  then obtain hdr qs where laws: "num_faithful E" "slicer_law C" and bs: "bs = cuts (length hdr) qs"
    and log: "holds_log E A M v (hdr @ concat qs) w" "\<forall>q\<in>set qs. q \<noteq> []"
      "\<forall>i<length qs. PACKRecordEnd P (hdr @ concat qs) (word_of_nat (cuts (length hdr) qs ! i)) =
        (OK, word_of_nat (cuts (length hdr) qs ! Suc i))"
    by (auto simp: pack_laid_def p)
  show "pack_leaf p [v, JNum (js_nat (last bs)), JNum (js_nat (last bs))] w = (Inr (JVal (JNum (js_int (- 1)))), w)"
    unfolding p bs pack_leaf_def prod.case by (rule pack_log(2) [OF laws log])
  show "bs \<noteq> [] \<and> (\<forall>b\<in>set bs. b < 2 ^ 31)"
    using cuts_fit [OF _ log(1) refl] bs by auto
  assume "Suc i < length bs"
  then show "pack_leaf p [v, JNum (js_nat (bs ! i)), JNum (js_nat (last bs))] w = (Inr (JVal (JNum (js_nat (bs ! Suc i)))), w)"
    unfolding p bs pack_leaf_def prod.case by (intro pack_log(1) [OF laws log]) simp
qed

section \<open>Every row, once\<close>

lemma row_cuts: "cuts 0 (map row rs) = map (row_off row rs) [0..<Suc (length rs)]"
  by (rule nth_equalityI) (auto simp: cuts_nth row_off_def log_bytes_def take_map simp del: upt_Suc)

lemma rows_laid:
  assumes "num_faithful E" and "slicer_law C" and "row_codec L row good" and "\<forall>r\<in>set rs. good r"
    and "holds_log E A M v (log_bytes row rs) w"
  shows "ulog_laid (E, A, M, C, L) v (map (row_off row rs) [0..<Suc (length rs)]) w"
  unfolding ulog_laid_def prod.case
  using assms row_codecD(2,3) [OF assms(3)]
  by (intro conjI exI [of _ "map row rs"]) (auto simp: row_cuts drains_def simp flip: log_bytes_def simp del: upt_Suc)

text \<open>
  C35: The cursor of a row log visits every row: \<open>rewind ()\<close> followed by \<open>next ()\<close> until it answers false
  goes through the offsets of all rows, oldest first, each once, and ends after as many steps as
  there are rows (and one that says so).  \<open>seek\<close> to the offset of any row succeeds and the \<open>next\<close> after
  it goes on with the row behind.  (For a log of whole rows below 2 GiB; the array may be longer than
  the log.)
\<close>

theorem cursor_visits_every_row:
  assumes laws: "num_faithful E" "slicer_law C" "row_codec L row good" "\<forall>r\<in>set rs. good r"
    and log: "holds_log E A M (self s) (log_bytes row rs) (lw s)"
    and head: "wm s = js_nat (length (log_bytes row rs))"
  shows "(\<exists>s'. jbind ULOG_rewind (\<lambda>_. walk (Suc (length rs)) (ULOG_next E A M C L) []) s =
      (Inr (Some (map (\<lambda>i. js_nat (row_off row rs i)) [0..<length rs])), s')) \<and>
    (\<forall>i<length rs. ULOG_seek E A M C L (JNum (js_nat (row_off row rs i))) s =
      (Inr True, s\<lparr>at_rec := js_nat (row_off row rs i), rd := js_nat (row_off row rs (Suc i))\<rparr>))"
proof -
  let ?p = "(E, A, M, C, L)" and ?bs = "map (row_off row rs) [0..<Suc (length rs)]"
  have l: "ulog_laid ?p (self s) ?bs (lw s)" by (rule rows_laid [OF laws log])
  have last: "wm s = js_nat (last ?bs)" using head by simp
  have leaf: "ulog_leaf ?p = JABCulogNext E A M C L" by (simp add: ulog_leaf_def)
  have "?bs ! 0 = 0" by (simp del: upt_Suc)
  from ulog_walk.walk_all [OF l last this] show ?thesis
    using ulog_walk.seek_at [OF l last]
    by (auto simp: leaf ULOG_rewind_def ULOG_next_def ULOG_seek_def nth_append id_def comp_def simp flip: map_butlast)
qed

text \<open>Two rows in an array of eight bytes.\<close>

definition two_rows :: "addr \<Rightarrow> u8" where
  "two_rows a = (if 100 \<le> a \<and> a < 106 then [1, 5, 10, 2, 7, 10] ! (a - 100) else 0)"

definition two_log :: "(addr \<Rightarrow> u8) ulogobj" where
  "two_log = \<lparr>lw = two_rows, self = JObj 0, wm = js_nat 6, rd = NaN, at_rec = NaN, lastTs = None\<rparr>"

definition plain_slicer :: slicer where
  "plain_slicer = \<lparr>u8csSub = \<lambda>bs i j.
     if i \<le> j \<and> unat j \<le> length bs then Some (take (unat j - unat i) (drop (unat i) bs)) else None\<rparr>"

theorem cursor_visits_every_row_witness:
  "\<exists>s'. jbind ULOG_rewind (\<lambda>_. walk 3 (ULOG_next (ram_engine [(100, 8)]) sample_abc ram plain_slicer tiny) []) two_log =
    (Inr (Some [js_nat 0, js_nat 3]), s')"
proof -
  let ?rs = "[\<lparr>ul_ts = 1, ul_verb = 5, ul_uri = ()\<rparr>, \<lparr>ul_ts = 2, ul_verb = 7, ul_uri = ()\<rparr>]"
  have log: "log_bytes tiny_row ?rs = [1, 5, 10, 2, 7, 10]"
    by (simp add: log_bytes_def tiny_row_def NL_def)
  have good: "\<forall>r\<in>set ?rs. tiny_good r" by (simp add: tiny_good_def)
  have offs: "map (\<lambda>i. js_nat (row_off tiny_row ?rs i)) [0..<length ?rs] = [js_nat 0, js_nat 3]"
    by (simp add: row_off_def log_bytes_def tiny_row_def upt_conv_Cons)
  have mem: "bytes_at ram two_rows 100 8 = [1, 5, 10, 2, 7, 10] @ [0, 0]"
    by (simp add: bytes_at_def ram_def two_rows_def upt_conv_Cons)
  have view: "JABCDataOf (ram_engine [(100, 8)]) sample_abc (JObj 0) two_rows =
      (Inr \<lparr>b0 = 100, b1 = 100, b2 = 108, b3 = 108\<rparr>, two_rows)"
    by (simp add: JABCDataOf_def ram_view sample_abc_def u8b_defs Let_def jbind_def)
  have "holds_log (ram_engine [(100, 8)]) sample_abc ram (self two_log) (log_bytes tiny_row ?rs) (lw two_log)"
    unfolding holds_log_def log
    by (intro conjI exI [of _ "\<lparr>b0 = 100, b1 = 100, b2 = 108, b3 = 108\<rparr>"] exI [of _ "[0, 0]"])
      (use mem view in \<open>simp_all add: two_log_def data_len_def\<close>)
  note visits = cursor_visits_every_row [OF ram_num_faithful _ tiny_codec good this, of plain_slicer]
  have "slicer_law plain_slicer" by (simp add: slicer_law_def plain_slicer_def)
  moreover have "wm two_log = js_nat (length (log_bytes tiny_row ?rs))" unfolding log by (simp add: two_log_def)
  moreover have "Suc (length ?rs) = 3" by simp
  ultimately show ?thesis using visits [THEN conjunct1, unfolded offs] by (simp only:)
qed

section \<open>The times of a row log\<close>

lemma on_lw_Inr: "on_lw f s = (Inr x, s') \<longleftrightarrow> (\<exists>w. f (lw s) = (Inr x, w) \<and> s' = s\<lparr>lw := w\<rparr>)"
  by (auto simp: on_lw_def split: prod.splits)

lemma wm_by_Inr:
  "wm_by leaf s = (Inr u, s') \<longleftrightarrow>
     (\<exists>out w. leaf (self s) (wm s) (lw s) = (Inr out, w) \<and> s' = s\<lparr>lw := w, wm := out_num out\<rparr>)"
  by (auto simp: wm_by_def jbind_eq_Inr on_lw_Inr)

lemma wm_then_ret:
  "jbind (wm_by leaf) (\<lambda>_. jret x) s = (Inr off, s') \<longleftrightarrow>
     off = x \<and> (\<exists>out w. leaf (self s) (wm s) (lw s) = (Inr out, w) \<and> s' = s\<lparr>lw := w, wm := out_num out\<rparr>)"
  by (auto simp: jbind_eq_Inr wm_by_Inr)

text \<open>What \<open>feed\<close> does, once the time is a number.\<close>

lemma feed_Inr:
  assumes "ULOG_feed E A M L RONNow J verb uri ts s = (Inr off, s')"
  shows "off = wm s \<and> (\<exists>t w out w'. lastTs s' = Some t \<and> (\<forall>p. lastTs s = Some p \<longrightarrow> p < t) \<and>
    JABCulogFeed E A M L RONNow [self s, JNum off, verb, uri, JBig t] w = (Inr out, w') \<and>
    wm s' = out_num out \<and> lw s' = w' \<and> self s' = self s)"
proof -
  from assms obtain t0 w1 where
    run: "jbind (wm_by (\<lambda>this off. JABCulogFeed E A M L RONNow [this, JNum off, verb, uri, JBig (ULOG_stamp (lastTs s) t0)]))
      (\<lambda>_. jret (wm s)) (s\<lparr>lw := w1, lastTs := Some (ULOG_stamp (lastTs s) t0)\<rparr>) = (Inr off, s')"
    unfolding ULOG_feed_def by (auto simp: jbind_eq_Inr on_lw_Inr)
  let ?s1 = "s\<lparr>lw := w1, lastTs := Some (ULOG_stamp (lastTs s) t0)\<rparr>"
  from wm_then_ret [THEN iffD1, OF run] obtain out w where off: "off = wm s"
    and f: "JABCulogFeed E A M L RONNow [self ?s1, JNum (wm ?s1), verb, uri, JBig (ULOG_stamp (lastTs s) t0)] (lw ?s1) = (Inr out, w)"
    and s': "s' = ?s1\<lparr>lw := w, wm := out_num out\<rparr>" by blast
  have "JABCulogFeed E A M L RONNow [self s, JNum (wm s), verb, uri, JBig (ULOG_stamp (lastTs s) t0)] w1 = (Inr out, w)"
    using f by simp
  moreover have "\<forall>p. lastTs s = Some p \<longrightarrow> p < ULOG_stamp (lastTs s) t0" by (auto simp: ULOG_stamp_def)
  ultimately show ?thesis unfolding off
    by (intro conjI exI [of _ "ULOG_stamp (lastTs s) t0"] exI [of _ w1] exI [of _ out] exI [of _ w]) (simp_all add: s')
qed

lemma feed_keeps: "lastTs s = Some p \<Longrightarrow> \<exists>t. lastTs (snd (ULOG_feed E A M L RONNow J verb uri ts s)) = Some t \<and> p \<le> t"
  by (auto simp: ULOG_feed_def jbind_def on_lw_def wm_by_def ULOG_stamp_def split: prod.splits sum.splits option.splits if_splits)

text \<open>A program that feeds: the times and offsets of the rows it has written, failed feeds left out.\<close>

primrec ULOG_feeds :: "'w engine \<Rightarrow> abc \<Rightarrow> 'w memory \<Rightarrow> 'u uloglib \<Rightarrow> ('w \<Rightarrow> u64 \<times> 'w) \<Rightarrow> 'w jsenv \<Rightarrow>
    (jsval \<times> jsval \<times> jsval) list \<Rightarrow> 'w ulogobj \<Rightarrow> int list" where
  "ULOG_feeds E A M L RONNow J [] s = []"
| "ULOG_feeds E A M L RONNow J (a # as) s =
     (case ULOG_feed E A M L RONNow J (fst a) (fst (snd a)) (snd (snd a)) s of
        (Inl e, s') \<Rightarrow> ULOG_feeds E A M L RONNow J as s'
      | (Inr off, s') \<Rightarrow> (case lastTs s' of Some t \<Rightarrow> t | None \<Rightarrow> 0) # ULOG_feeds E A M L RONNow J as s')"

lemma feeds_above:
  "lastTs s = Some p \<Longrightarrow> t \<in> set (ULOG_feeds E A M L RONNow J as s) \<Longrightarrow> p < t"
proof (induction as arbitrary: s p)
  case (Cons a as)
  obtain r s' where f: "ULOG_feed E A M L RONNow J (fst a) (fst (snd a)) (snd (snd a)) s = (r, s')" by fastforce
  obtain q where q: "lastTs s' = Some q" "p \<le> q"
    using feed_keeps [OF Cons.prems(1), of E A M L RONNow J "fst a" "fst (snd a)" "snd (snd a)"] f by auto
  show ?case
  proof (cases r)
    case (Inl e)
    with f Cons.prems(2) have "t \<in> set (ULOG_feeds E A M L RONNow J as s')" by simp
    from Cons.IH [OF q(1) this] q(2) show ?thesis by simp
  next
    case (Inr off)
    with f feed_Inr [of E A M L RONNow J _ _ _ s off s'] Cons.prems(1) q(1) have "p < q" by fastforce
    moreover have "t = q \<or> t \<in> set (ULOG_feeds E A M L RONNow J as s')" using f Inr q(1) Cons.prems(2) by simp
    ultimately show ?thesis using Cons.IH [OF q(1)] by force
  qed
qed simp

text \<open>
  The row a feed hands to the encoder: the leaf is the making of the row, then the writing of its
  bytes at the old write head.
\<close>

definition feed_row :: "'w engine \<Rightarrow> abc \<Rightarrow> 'w memory \<Rightarrow> 'u uloglib \<Rightarrow> ('w \<Rightarrow> u64 \<times> 'w) \<Rightarrow> jsval list \<Rightarrow>
    ('w, u8b \<times> 'u ulogrec) js" where
  "feed_row E A M L RONNow argv =
     jbind (idle_from E A (argv ! 0) (argv ! 1)) (\<lambda>c.
     jbind (row_args E A M L (argv ! 2) (argv ! 3)) (\<lambda>(verb, us).
     jbind (\<lambda>w. case RONNow w of (t, w') \<Rightarrow> (Inr t, w')) (\<lambda>now.
     jbind (if 4 < length argv \<and> argv ! 4 \<noteq> JUndef then JABCBigU64Of E (argv ! 4) else jret now) (\<lambda>ts.
     case JABCulogUriGate L us of
       None \<Rightarrow> jthrow (ThrowError ''ulog._feed: malformed uri'')
     | Some u \<Rightarrow> jret (c, \<lparr>ul_ts = ts, ul_verb = verb, ul_uri = u\<rparr>)))))"

lemma feed_leaf:
  "4 \<le> length argv \<Longrightarrow> JABCulogFeed E A M L RONNow argv =
     jbind (feed_row E A M L RONNow argv) (\<lambda>(c, row).
     jbind (emit_or M ''ulog: feed (full?)'' c (ULOGu8sFeed L row (idle_len c))) (\<lambda>c. js_num (data_len c)))"
  by (rule ext) (simp add: JABCulogFeed_def feed_row_def need_def jbind_def split: prod.splits sum.splits option.splits)

text \<open>\<open>JS_ToInt64Ext\<close> of a BigInt: its low 64 bits.\<close>

definition big_law :: "'w engine \<Rightarrow> bool" where
  "big_law E \<longleftrightarrow> (\<forall>t w. \<exists>v. fst (to_int64 E (JBig t) w) = Inr v \<and> (word_of_int v :: u64) = word_of_int t)"

lemma feed_row_time:
  assumes "feed_row E A M L RONNow [v, off, verb, uri, JBig t] w = (Inr (c, row), w')" and "big_law E"
  shows "ul_ts row = word_of_int t"
  using assms
  by (auto simp: feed_row_def jbind_eq_Inr JABCBigU64Of_def big_law_def split: option.splits) (metis Inr_inject fst_conv)

text \<open>The time a feed asks for: the one given, or the clock's.\<close>

definition asked_time :: "('w \<Rightarrow> u64 \<times> 'w) \<Rightarrow> 'w jsenv \<Rightarrow> jsval \<Rightarrow> ('w, int) js" where
  "asked_time RONNow J ts =
     (if ts = JNull \<or> ts = JUndef then jbind (JABCulogNow RONNow) (\<lambda>out. jret (out_big out)) else BigInt J ts)"

definition ULOG_row :: "'w engine \<Rightarrow> abc \<Rightarrow> 'w memory \<Rightarrow> 'u uloglib \<Rightarrow> ('w \<Rightarrow> u64 \<times> 'w) \<Rightarrow> 'w jsenv \<Rightarrow>
    jsval \<Rightarrow> jsval \<Rightarrow> jsval \<Rightarrow> 'w ulogobj \<Rightarrow> (u8b \<times> 'u ulogrec) option" where
  "ULOG_row E A M L RONNow J verb uri ts s =
     (case asked_time RONNow J ts (lw s) of
        (Inl e, w) \<Rightarrow> None
      | (Inr t, w) \<Rightarrow>
          (case feed_row E A M L RONNow [self s, JNum (wm s), verb, uri, JBig (ULOG_stamp (lastTs s) t)] w of
             (Inl e, w') \<Rightarrow> None | (Inr r, w') \<Rightarrow> Some r))"

text \<open>The rows a program of feeds writes, in order; a feed that fails writes none.\<close>

primrec ULOG_rows :: "'w engine \<Rightarrow> abc \<Rightarrow> 'w memory \<Rightarrow> 'u uloglib \<Rightarrow> ('w \<Rightarrow> u64 \<times> 'w) \<Rightarrow> 'w jsenv \<Rightarrow>
    (jsval \<times> jsval \<times> jsval) list \<Rightarrow> 'w ulogobj \<Rightarrow> 'u ulogrec list" where
  "ULOG_rows E A M L RONNow J [] s = []"
| "ULOG_rows E A M L RONNow J (a # as) s =
     (case ULOG_feed E A M L RONNow J (fst a) (fst (snd a)) (snd (snd a)) s of
        (Inl e, s') \<Rightarrow> ULOG_rows E A M L RONNow J as s'
      | (Inr off, s') \<Rightarrow> snd (the (ULOG_row E A M L RONNow J (fst a) (fst (snd a)) (snd (snd a)) s)) #
          ULOG_rows E A M L RONNow J as s')"

lemma feed_asked:
  "ULOG_feed E A M L RONNow J verb uri ts =
     jbind (on_lw (asked_time RONNow J ts)) (\<lambda>t.
     jbind (jget (\<lambda>s. ULOG_stamp (lastTs s) t)) (\<lambda>t.
     jbind (jput (\<lambda>s. s\<lparr>lastTs := Some t\<rparr>)) (\<lambda>_.
     jbind (jget wm) (\<lambda>off.
     jbind (wm_by (\<lambda>this off. JABCulogFeed E A M L RONNow [this, JNum off, verb, uri, JBig t])) (\<lambda>_.
     jret off)))))"
  by (simp add: ULOG_feed_def asked_time_def)

lemma feed_cases:
  obtains e w where "asked_time RONNow J ts (lw s) = (Inl e, w)"
      "ULOG_feed E A M L RONNow J verb uri ts s = (Inl e, s\<lparr>lw := w\<rparr>)"
  | t w r s' where "asked_time RONNow J ts (lw s) = (Inr t, w)"
      "ULOG_feed E A M L RONNow J verb uri ts s = (r, s')" "lastTs s' = Some (ULOG_stamp (lastTs s) t)"
proof (cases "asked_time RONNow J ts (lw s)")
  case (Pair x w)
  show ?thesis
  proof (cases x)
    case (Inl e)
    with Pair show ?thesis by (intro that(1)) (auto simp: feed_asked jbind_def on_lw_def)
  next
    case (Inr t)
    with Pair show ?thesis
      by (intro that(2) [of t w "fst (ULOG_feed E A M L RONNow J verb uri ts s)" "snd (ULOG_feed E A M L RONNow J verb uri ts s)"])
        (auto simp: feed_asked jbind_def on_lw_def wm_by_def split: prod.splits sum.splits)
  qed
qed

lemma row_of_feed:
  assumes "ULOG_feed E A M L RONNow J verb uri ts s = (Inr off, s')" and "big_law E"
  shows "\<exists>c row. ULOG_row E A M L RONNow J verb uri ts s = Some (c, row) \<and>
    ul_ts row = word_of_int (case lastTs s' of Some t \<Rightarrow> t | None \<Rightarrow> 0)"
proof -
  from assms(1) obtain t w where asked: "asked_time RONNow J ts (lw s) = (Inr t, w)"
    and run: "jbind (wm_by (\<lambda>this off. JABCulogFeed E A M L RONNow [this, JNum off, verb, uri, JBig (ULOG_stamp (lastTs s) t)]))
      (\<lambda>_. jret (wm s)) (s\<lparr>lw := w, lastTs := Some (ULOG_stamp (lastTs s) t)\<rparr>) = (Inr off, s')"
    unfolding feed_asked by (auto simp: jbind_eq_Inr on_lw_Inr)
  let ?t = "ULOG_stamp (lastTs s) t" and ?argv = "[self s, JNum (wm s), verb, uri, JBig (ULOG_stamp (lastTs s) t)]"
  from wm_then_ret [THEN iffD1, OF run] obtain out w' where
    leaf: "JABCulogFeed E A M L RONNow ?argv w = (Inr out, w')" and last: "lastTs s' = Some ?t" by auto
  then obtain c row w1 where row: "feed_row E A M L RONNow ?argv w = (Inr (c, row), w1)"
    by (auto simp: feed_leaf jbind_eq_Inr)
  then have "ULOG_row E A M L RONNow J verb uri ts s = Some (c, row)" using asked by (simp add: ULOG_row_def)
  with last feed_row_time [OF row assms(2)] show ?thesis by simp
qed

lemma rows_are_feeds:
  "big_law E \<Longrightarrow> map ul_ts (ULOG_rows E A M L RONNow J as s) = map word_of_int (ULOG_feeds E A M L RONNow J as s)"
proof (induction as arbitrary: s)
  case (Cons a as)
  obtain r s' where f: "ULOG_feed E A M L RONNow J (fst a) (fst (snd a)) (snd (snd a)) s = (r, s')" by fastforce
  show ?case
  proof (cases r)
    case (Inr off)
    with f row_of_feed [OF _ Cons.prems] Cons.IH [OF Cons.prems] show ?thesis by fastforce
  qed (use f Cons in simp)
qed simp

lemma feeds_ascend: "sorted_wrt (<) (ULOG_feeds E A M L RONNow J as s)"
proof (induction as arbitrary: s)
  case (Cons a as)
  obtain r s' where f: "ULOG_feed E A M L RONNow J (fst a) (fst (snd a)) (snd (snd a)) s = (r, s')" by fastforce
  show ?case
  proof (cases r)
    case (Inr off)
    with f feed_Inr [of E A M L RONNow J _ _ _ s off s'] obtain t where "lastTs s' = Some t" by fastforce
    with f Inr Cons.IH [of s'] show ?thesis by (auto dest: feeds_above)
  qed (use f Cons.IH in simp)
qed simp

text \<open>Times with room above them for one step a feed stay 64-bit numbers.\<close>

definition roomy :: "nat \<Rightarrow> int \<Rightarrow> bool" where
  "roomy n t \<longleftrightarrow> 0 \<le> t \<and> t + int n < 2 ^ 64"

lemma feeds_fit:
  assumes "\<And>a w t w'. a \<in> set as \<Longrightarrow> asked_time RONNow J (snd (snd a)) w = (Inr t, w') \<Longrightarrow> roomy (length as) t"
    and "\<And>p. lastTs s = Some p \<Longrightarrow> roomy (length as) p"
  shows "\<forall>t\<in>set (ULOG_feeds E A M L RONNow J as s). 0 \<le> t \<and> t < 2 ^ 64"
  using assms
proof (induction as arbitrary: s)
  case (Cons a as)
  obtain r s' where f: "ULOG_feed E A M L RONNow J (fst a) (fst (snd a)) (snd (snd a)) s = (r, s')" by fastforce
  have less: "roomy (length as) t" if "roomy (length (a # as)) t" for t using that by (simp add: roomy_def)
  have last: "roomy (length as) p" if "lastTs s' = Some p" for p
  proof (rule feed_cases [of RONNow J "snd (snd a)" s E A M L "fst a" "fst (snd a)"])
    fix e w
    assume "ULOG_feed E A M L RONNow J (fst a) (fst (snd a)) (snd (snd a)) s = (Inl e, s\<lparr>lw := w\<rparr>)"
    with f that Cons.prems(2) less show ?thesis by auto
  next
    fix t w r' t'
    assume ask: "asked_time RONNow J (snd (snd a)) (lw s) = (Inr t, w)"
      and g: "ULOG_feed E A M L RONNow J (fst a) (fst (snd a)) (snd (snd a)) s = (r', t')"
        "lastTs t' = Some (ULOG_stamp (lastTs s) t)"
    have "roomy (length (a # as)) t" by (rule Cons.prems(1) [OF _ ask]) simp
    with g f that Cons.prems(2) show ?thesis
      by (cases "lastTs s") (auto simp: ULOG_stamp_def roomy_def split: if_splits)
  qed
  have IH: "\<forall>t\<in>set (ULOG_feeds E A M L RONNow J as s'). 0 \<le> t \<and> t < 2 ^ 64"
  proof (rule Cons.IH [OF _ last])
    fix b w t w'
    assume "b \<in> set as" and "asked_time RONNow J (snd (snd b)) w = (Inr t, w')"
    then show "roomy (length as) t" by (intro less Cons.prems(1)) auto
  qed
  show ?case
  proof (cases r)
    case (Inr off)
    with f feed_Inr [of E A M L RONNow J _ _ _ s off s'] obtain t where "lastTs s' = Some t" by fastforce
    with f Inr IH last show ?thesis by (auto simp: roomy_def)
  qed (use f IH in simp)
qed simp

lemma word_ascend:
  assumes "sorted_wrt (<) ts" and "\<forall>t\<in>set ts. 0 \<le> t \<and> t < 2 ^ 64"
  shows "sorted_wrt (<) (map (word_of_int :: int \<Rightarrow> u64) ts)"
proof -
  have "(word_of_int t :: u64) < word_of_int u" if "t < u" "0 \<le> t" "u < 2 ^ 64" for t u
    using that by (simp add: word_less_def uint_word_of_int)
  then have "sorted_wrt (\<lambda>t u. (word_of_int t :: u64) < word_of_int u) ts"
    using assms by (intro sorted_wrt_mono_rel [OF _ assms(1)]) auto
  then show ?thesis by (simp add: sorted_wrt_map)
qed

text \<open>
  C36: The rows one log object writes carry strictly ascending 64-bit times: in any program of feeds,
  with times given or taken from the clock, whatever their order and whatever the feeds that fail in
  between, as long as no time asked for, nor the time of the last row, lies within the number of feeds
  of \<open>2 ^ 64\<close> or below 0.  Outside that the row, which takes the clamped time modulo \<open>2 ^ 64\<close>, can carry
  an earlier time (\<open>last_time_wraps\<close>).
\<close>

theorem feed_times_ascend:
  assumes "big_law E"
    and "\<And>a w t w'. a \<in> set as \<Longrightarrow> asked_time RONNow J (snd (snd a)) w = (Inr t, w') \<Longrightarrow> roomy (length as) t"
    and "\<And>p. lastTs s = Some p \<Longrightarrow> roomy (length as) p"
  shows "sorted_wrt (<) (map ul_ts (ULOG_rows E A M L RONNow J as s))"
  unfolding rows_are_feeds [OF assms(1)]
  by (rule word_ascend [OF feeds_ascend feeds_fit [OF assms(2,3)]])

text \<open>
  Feeds at the times 9, 3 and 4 into an array with room for two rows of three bytes: the second time is
  raised to 10, the third feed fails.
\<close>

definition nine_log :: "(addr \<Rightarrow> u8) ulogobj" where
  "nine_log = two_log\<lparr>wm := js_nat 0, lastTs := None\<rparr>"

definition big_env :: "'w jsenv" where
  "big_env = \<lparr>BigInt = \<lambda>v. jret (case v of JBig t \<Rightarrow> t | _ \<Rightarrow> 0), exn_str = \<lambda>e. '''', new_Uint8Array = \<lambda>n. jret JNull,
     ge_zero = \<lambda>v. jret False, as_value = \<lambda>v. jret JUndef\<rparr>"

definition nine_feeds :: "(jsval \<times> jsval \<times> jsval) list" where
  "nine_feeds = [(JStr ''a'', JStr ''b'', JBig 9), (JStr ''a'', JStr ''b'', JBig 3), (JStr ''a'', JStr ''b'', JBig 4)]"

lemma nine_rows:
  "map ul_ts (ULOG_rows (ram_engine [(100, 8)]) sample_abc ram tiny (\<lambda>w. (0, w)) big_env nine_feeds nine_log) = [9, 10]"
  by code_simp

theorem feed_times_ascend_witness:
  "sorted_wrt (<) (map ul_ts (ULOG_rows (ram_engine [(100, 8)]) sample_abc ram tiny (\<lambda>w. (0, w)) big_env nine_feeds nine_log))"
proof (rule feed_times_ascend)
  show "big_law (ram_engine [(100, 8)])" by (auto simp: big_law_def ram_engine_def)
next
  fix a :: "jsval \<times> jsval \<times> jsval" and w :: "addr \<Rightarrow> u8" and t w'
  assume "a \<in> set nine_feeds" and "asked_time (\<lambda>w. (0, w)) big_env (snd (snd a)) w = (Inr t, w')"
  then show "roomy (length nine_feeds) t"
    by (auto simp: asked_time_def big_env_def roomy_def nine_feeds_def)
qed (simp add: nine_log_def)

text \<open>The row writer takes the time modulo \<open>2 ^ 64\<close>: behind the last representable time comes 0.\<close>

lemma last_time_wraps: "ULOG_stamp (Some (2 ^ 64 - 1)) 0 = 2 ^ 64 \<and> (word_of_int (2 ^ 64) :: u64) = 0"
  by (simp add: ULOG_stamp_def)

section \<open>Scratch\<close>

lemma scratch_size_min: "SCRATCH_MIN \<le> scratch_size x"
  by (auto simp: scratch_size_def Let_def SCRATCH_MIN_def)

lemma scratch_size_nat: "n < 2 ^ 31 \<Longrightarrow> scratch_size (js_nat n) = max SCRATCH_MIN n"
proof -
  assume "n < 2 ^ 31"
  then have "to_int32 (js_nat n) = int n" by (rule to_int32_nat)
  moreover have "js_nat n \<noteq> NaN" "js_nat n = Fin 0 \<longleftrightarrow> n = 0" by (simp_all add: js_nat_def)
  ultimately show ?thesis by (simp add: scratch_size_def Let_def)
qed

text \<open>Past \<open>2 ^ 31\<close> the wish is a negative number and the scratch is the smallest.\<close>

lemma big_wish_is_small: "scratch_size (js_nat (2 ^ 31)) = SCRATCH_MIN"
  by (simp add: scratch_size_def to_int32_def js_nat_def SCRATCH_MIN_def)

definition allocates :: "'w jsenv \<Rightarrow> bool" where
  "allocates J \<longleftrightarrow> (\<forall>n < 2 ^ 31. \<forall>w. \<exists>v w'. new_Uint8Array J n w = (Inr v, w'))"

lemma scratch_new_ok:
  assumes "allocates J" and "n < 2 ^ 30"
  shows "\<exists>v s'. scratch_new J n s = (Inr (), s') \<and> bsc s' = Some (v, n)"
proof -
  obtain v w' where v: "new_Uint8Array J n (lw s) = (Inr v, w')"
    using assms by (fastforce simp: allocates_def)
  obtain d w'' where d: "new_Uint8Array J (2 * n) w' = (Inr d, w'')"
    using assms by (fastforce simp: allocates_def)
  show ?thesis using v d by (simp add: scratch_new_def jbind_def on_lw_def)
qed

lemma scratch_ok:
  assumes "allocates J" and "scratch_size x < 2 ^ 30" and "\<And>v n. bsc s = Some (v, n) \<Longrightarrow> n < 2 ^ 30"
  shows "\<exists>v n s'. PACK_scratch J x s = (Inr (), s') \<and> bsc s' = Some (v, n) \<and> scratch_size x \<le> n \<and> n < 2 ^ 30"
  using scratch_new_ok [OF assms(1,2), of s] assms(2,3)
  by (auto simp: PACK_scratch_def Let_def split: option.splits)

text \<open>An operation that fits once the scratch has \<open>m\<close> bytes, and asks for room until then.\<close>

definition fits_at :: "'w jsenv \<Rightarrow> nat \<Rightarrow> ('w packobj_js, jout) js \<Rightarrow> bool" where
  "fits_at J m op \<longleftrightarrow> (\<forall>s v n. bsc s = Some (v, n) \<longrightarrow>
     (if m \<le> n then (\<exists>out s'. op s = (Inr out, s'))
      else (\<exists>e s'. op s = (Inl e, s') \<and> no_room J e \<and> bsc s' = bsc s)))"

lemma grow_loop_ok:
  assumes "allocates J" and "fits_at J m op" and "m \<le> 2 ^ 29"
  shows "bsc s = Some (v, n) \<Longrightarrow> SCRATCH_MIN \<le> n \<Longrightarrow> m \<le> n * 2 ^ k \<Longrightarrow> k < tries \<Longrightarrow>
    \<exists>out s'. grow_loop J op tries s = (Inr out, s')"
proof (induction tries arbitrary: s v n k)
  case (Suc tries)
  show ?case
  proof (cases "m \<le> n")
    case True
    with assms(2) Suc.prems(1) show ?thesis unfolding fits_at_def by fastforce
  next
    case False
    then obtain e s' where op: "op s = (Inl e, s')" "no_room J e" "bsc s' = Some (v, n)"
      using assms(2) Suc.prems(1) unfolding fits_at_def by fastforce
    have n2: "n * 2 < 2 ^ 30" using False assms(3) by simp
    then have size: "scratch_size (js_nat (n * 2)) = n * 2"
      using Suc.prems(2) by (simp add: scratch_size_nat)
    obtain v' s'' where grown: "PACK_scratch J (js_nat (n * 2)) s' = (Inr (), s'')" "bsc s'' = Some (v', n * 2)"
      using scratch_new_ok [OF assms(1) n2, of s'] op(3) False Suc.prems(2) n2
      by (auto simp: PACK_scratch_def Let_def size SCRATCH_MIN_def)
    obtain j where j: "k = Suc j" using False Suc.prems(3) by (cases k) auto
    have "\<exists>out t. grow_loop J op tries s'' = (Inr out, t)"
      using Suc.IH [OF grown(2), of j] Suc.prems(2-4) j by (simp add: mult.assoc)
    then show ?thesis using op grown by (simp add: jbind_def)
  qed
qed simp

text \<open>
  C37: \<open>_grow\<close> finds the room: when the operation fits a scratch of some size up to \<open>2 ^ 29\<close> bytes and asks
  for room with a smaller one, then, whatever the size wished for at first (absent, 0, wrong or right,
  as long as it is below \<open>2 ^ 30\<close>) and whatever scratch is left from before, the 40 tries are enough and
  the answer is the operation's.
\<close>

theorem grow_finds_room:
  assumes "allocates J" and "fits_at J m op" and "m \<le> 2 ^ 29"
    and "scratch_size req < 2 ^ 30" and "\<And>v n. bsc s = Some (v, n) \<Longrightarrow> n < 2 ^ 30"
  shows "\<exists>out s'. PACK_grow J req op s = (Inr out, s')"
proof -
  obtain v n s' where start: "PACK_scratch J req s = (Inr (), s')" "bsc s' = Some (v, n)" "scratch_size req \<le> n"
    using scratch_ok [OF assms(1,4), of s] assms(5) by blast
  have min: "SCRATCH_MIN \<le> n" using start(3) scratch_size_min [of req] by linarith
  then have "m \<le> n * 2 ^ 13" using assms(3) by (simp add: SCRATCH_MIN_def)
  from grow_loop_ok [OF assms(1-3) start(2) min this, of 40] show ?thesis
    using start(1) by (simp add: PACK_grow_def jbind_def)
qed

definition sample_jsenv :: "unit jsenv" where
  "sample_jsenv = \<lparr>BigInt = \<lambda>v. jret 0, exn_str = \<lambda>e. (case e of ThrowError m \<Rightarrow> ''Error: '' @ m | _ \<Rightarrow> ''''),
     new_Uint8Array = \<lambda>n. jret (JObj n), ge_zero = \<lambda>v. jret False, as_value = \<lambda>out. jret JNull\<rparr>"

definition needs_a_mebibyte :: "(unit packobj_js, jout) js" where
  "needs_a_mebibyte = (\<lambda>s. case bsc s of
     Some (v, n) \<Rightarrow> if 2 ^ 20 \<le> n then (Inr (JVal JNull), s) else (Inl (ThrowError ''pack: resolve NOROOM''), s)
   | None \<Rightarrow> (Inl (ThrowError ''pack''), s))"

definition no_scratch :: "unit packobj_js" where
  "no_scratch = \<lparr>lw = (), self = JObj 0, wm = js_nat 0, rd = js_nat 12, at_rec = js_int (- 1), p_count = NaN,
     bsc = None, dsc = None\<rparr>"

theorem grow_finds_room_witness:
  "\<exists>out s'. PACK_grow sample_jsenv NaN needs_a_mebibyte no_scratch = (Inr out, s')"
proof (rule grow_finds_room)
  show "allocates sample_jsenv" by (simp add: allocates_def sample_jsenv_def)
  show "fits_at sample_jsenv (2 ^ 20) needs_a_mebibyte"
    by (auto simp: fits_at_def needs_a_mebibyte_def no_room_def sample_jsenv_def)
  show "scratch_size NaN < 2 ^ 30" by (simp add: scratch_size_def SCRATCH_MIN_def)
qed (simp_all add: no_scratch_def)

end
