(* ===== verification/PacksSafe.thy ===== *)
theory PacksSafe
  imports Packs Defined
begin

text \<open>
  The one-call repack and the memory it is given (\<open>repack_writes_live_memory\<close>): its bursts are undefined
  as soon as a base unwrapped at the start is no longer memory of its view, the getters of the options
  and the progress handler may do anything, and still no run is undefined.
\<close>

definition repack_sound :: "'w engine \<Rightarrow> bool" where
  "repack_sound E \<longleftrightarrow> engine_defined E \<and> (\<forall>v w. typed_buffer E w v \<noteq> Inl CUndef) \<and>
     (\<forall>v p w. fst (get_prop E v p w) \<noteq> Inl CUndef) \<and> (\<forall>v p x w. fst (set_prop E v p x w) \<noteq> Inl CUndef) \<and>
     (\<forall>f vs w. fst (call_fn E f vs w) \<noteq> Inl CUndef)"

text \<open>The view of a region is exactly what it was read off.\<close>

definition region_live :: "'w engine \<Rightarrow> region \<Rightarrow> 'w \<Rightarrow> bool" where
  "region_live E R w = (case R of (v, base, n) \<Rightarrow> fst (JABCViewOf E v w) = Inr (base, n))"

text \<open>One region of a view covers another of the same view.\<close>

definition covers :: "region \<Rightarrow> region \<Rightarrow> bool" where
  "covers R S = (case (R, S) of ((v, b, m), (u, base, n)) \<Rightarrow> v = u \<and> b \<le> base \<and> base + n \<le> b + m)"

lemma reach_iff: "reach E (v, base, n) w \<longleftrightarrow> (\<exists>b m. region_live E (v, b, m) w \<and> covers (v, b, m) (v, base, n))"
  by (auto simp: reach_def region_live_def covers_def split: sum.splits)

lemma live_reach: "region_live E R w \<Longrightarrow> covers R S \<Longrightarrow> reach E S w"
  by (cases R; cases S) (auto simp: reach_def region_live_def covers_def)

text \<open>What a watch holds covers what the run writes.\<close>

definition watch_covers :: "watch option \<Rightarrow> region \<Rightarrow> region \<Rightarrow> bool" where
  "watch_covers watch bufr ixr = (case watch of None \<Rightarrow> True | Some (f, wb, wi) \<Rightarrow> covers wb bufr \<and> covers wi ixr)"

text \<open>The library's own work moves no view.\<close>

definition bursts_stay :: "'w engine \<Rightarrow> 'w burst list \<Rightarrow> bool" where
  "bursts_stay E bs \<longleftrightarrow> (\<forall>b\<in>set bs. \<forall>v w. fst (JABCViewOf E v (touch b w)) = fst (JABCViewOf E v w))"

abbreviation defined_at_all :: "('w \<Rightarrow> bool) \<Rightarrow> ('w, 'a) js \<Rightarrow> bool" where
  "defined_at_all P m \<equiv> defined_from P m (\<lambda>_ _. True)"

lemma defined_catch:
  assumes "defined_from P m Q" and "\<And>e. e \<noteq> CUndef \<Longrightarrow> defined_from (\<lambda>_. True) (h e) Q"
  shows "defined_from P (jcatch m h) Q"
  unfolding defined_from_def
proof (intro allI impI)
  fix w
  assume "P w"
  obtain r w' where m: "m w = (r, w')" by (cases "m w")
  show "case jcatch m h w of (Inl e, w') \<Rightarrow> e \<noteq> CUndef | (Inr x, w') \<Rightarrow> Q x w'"
  proof (cases r)
    case (Inl e)
    with assms(1) \<open>P w\<close> m have "e \<noteq> CUndef" unfolding defined_from_def by force
    from assms(2) [OF this] Inl m show ?thesis by (simp add: defined_from_def jcatch_def)
  next
    case (Inr x)
    with assms(1) \<open>P w\<close> m show ?thesis unfolding defined_from_def jcatch_def by force
  qed
qed

lemma defined_weaken:
  assumes "defined_from P m Q'" and "\<And>x w. Q' x w \<Longrightarrow> Q x w"
  shows "defined_from P m Q"
proof -
  have "defined_from P (jbind m jret) Q" by (intro defined_bind [OF assms(1)] defined_ret assms(2))
  moreover have "jbind m jret = m" by (rule ext) (simp add: jbind_def split: prod.splits sum.splits)
  ultimately show ?thesis by simp
qed

lemma defined_split:
  "(\<And>a b. p = (a, b) \<Longrightarrow> defined_from P (f a b) Q) \<Longrightarrow> defined_from P (case p of (a, b) \<Rightarrow> f a b) Q"
  by (cases p) simp

lemma defined_quiet:
  "quiet m \<Longrightarrow> defined_at_all P m \<Longrightarrow> (\<And>w x. P w \<Longrightarrow> m w = (Inr x, w) \<Longrightarrow> Q x w) \<Longrightarrow> defined_from P m Q"
  by (rule defined_post) (auto dest: quietD)

lemma soundD:
  assumes "repack_sound E"
  shows "engine_defined E" and "\<forall>v w. typed_buffer E w v \<noteq> Inl CUndef"
    and "fst (get_prop E v p w) \<noteq> Inl CUndef" and "fst (set_prop E v p x w) \<noteq> Inl CUndef"
    and "fst (call_fn E f vs w) \<noteq> Inl CUndef"
  using assms by (simp_all add: repack_sound_def)

lemma gates_defined:
  assumes "repack_sound E"
  shows "defined_at_all P (JABCu64Of E v)" and "defined_at_all P (JABCi64Of E v)"
  using soundD(1) [OF assms]
  by (auto simp: defined_from_def dest: u64_gate.gate_defined i64_gate.gate_defined split: prod.splits sum.splits)

lemma view_of_defined:
  assumes "repack_sound E"
  shows "defined_at_all P (JABCViewOf E v)"
  by (rule defined_any, rule view_defined, rule soundD(2) [OF assms])

lemma idle_defined:
  assumes "repack_sound E"
  shows "defined_from P (JABCIdleOf E A v) (\<lambda>b w. reach E (buf_region v b) w \<and> reach E (index_region v b) w \<and> P w)"
proof (rule defined_post)
  show "defined_at_all P (JABCIdleOf E A v)"
    unfolding JABCIdleOf_def
    by (intro defined_bind [OF view_of_defined [OF assms]])
      (auto simp: Let_def intro!: defined_ret defined_throw split: prod.splits)
next
  fix w x w'
  assume P: "P w" and run: "JABCIdleOf E A v w = (Inr x, w')"
  have w': "w' = w" by (rule quietD [OF JABCIdleOf_quiet run])
  from run [unfolded JABCIdleOf_Inr] obtain base len where view: "fst (JABCViewOf E v w') = Inr (base, len)"
    and x: "x = \<lparr>b0 = base, b1 = base, b2 = base, b3 = base + len\<rparr>"
    using w' by (metis fst_conv)
  have "16 * (len div 16) \<le> len" by simp
  with view x P w' show "reach E (buf_region v x) w' \<and> reach E (index_region v x) w' \<and> P w'"
    by (simp add: reach_def buf_region_def index_region_def idle_len_def)
qed

lemma same_view_defined:
  assumes "repack_sound E"
  shows "defined_from P (JABCViewSame E v base len) (\<lambda>_. region_live E (v, base, len))"
proof (rule defined_post)
  show "defined_at_all P (JABCViewSame E v base len)"
    unfolding JABCViewSame_def
    by (intro defined_bind [OF view_of_defined [OF assms]] defined_split) (auto intro!: defined_ret defined_throw)
next
  fix w x w'
  assume "JABCViewSame E v base len w = (Inr x, w')"
  then have v: "JABCViewOf E v w = (Inr (base, len), w')" by (simp add: JABCViewSame_Inr)
  with quietD [OF JABCViewOf_quiet v] show "region_live E (v, base, len) w'" by (simp add: region_live_def)
qed

lemma prop_defined:
  assumes "repack_sound E"
  shows "defined_at_all P (get_prop E v p)" and "defined_at_all P (set_prop E v p x)"
  by (auto intro!: defined_any simp: soundD(3,4) [OF assms])

lemma buf_in_defined:
  assumes "repack_sound E" and "abc_laws A"
  shows "defined_from P (JABCBufOfKeep E A arg) (\<lambda>(buf, v). reach E (buf_region v buf))"
proof (rule defined_post)
  show "defined_at_all P (JABCBufOfKeep E A arg)"
    unfolding JABCBufOfKeep_def JABCBufIn_def
    by (intro defined_if defined_throw defined_bind [OF prop_defined(1) [OF assms(1)]]
        defined_bind [OF gates_defined(1) [OF assms(1)]] defined_bind [OF idle_defined [OF assms(1)]])
      (auto intro!: defined_ret defined_throw split: option.splits)
next
  fix w x w'
  assume "JABCBufOfKeep E A arg w = (Inr x, w')"
  then show "(case x of (buf, v) \<Rightarrow> reach E (buf_region v buf)) w'"
    using JABCBufIn_Inr [OF assms(2)] by (cases x) (fastforce simp: JABCBufOfKeep_def reach_def buf_region_def)
qed

lemma opt_num_defined:
  assumes "repack_sound E"
  shows "defined_at_all P (JABCOptNumOf E obj name dflt)"
proof -
  have inner: "defined_at_all P (jbind (get_prop E obj name) (\<lambda>v.
      if v = JUndef \<or> v = JNull then jret dflt else JABCu64Of E v))"
    by (intro defined_bind [OF prop_defined(1) [OF assms]] defined_if defined_ret TrueI gates_defined(1) [OF assms])
  show ?thesis
    unfolding JABCOptNumOf_def
  proof (intro defined_if defined_ret TrueI)
    show "defined_at_all P (jcatch (jbind (get_prop E obj name) (\<lambda>v.
        if v = JUndef \<or> v = JNull then jret dflt else JABCu64Of E v))
        (\<lambda>e. if e = CUndef then jthrow e else jret dflt))"
      using inner by (auto simp: defined_from_def jcatch_def split: prod.splits sum.splits)
  qed
qed

lemma opts_defined:
  assumes "repack_sound E"
  shows "defined_from P (repack_opts E oo) (\<lambda>r _. fst (snd r) \<noteq> Some CUndef)"
proof -
  have "fst (repack_opts E oo w) \<noteq> Inl CUndef" for w
    using soundD(3) [OF assms]
    by (auto simp: repack_opts_def split: prod.splits sum.splits) (metis fst_conv)+
  moreover have "fst (snd r) \<noteq> Some CUndef" if "repack_opts E oo w = (Inr r, w')" for r w w'
    using that by (auto simp: repack_opts_def split: prod.splits sum.splits if_splits)
  ultimately show ?thesis
    by (intro defined_post [OF defined_any]) auto
qed

lemma defined_keep: "defined_from (\<lambda>_. C) m Q \<Longrightarrow> defined_from (\<lambda>_. C) m (\<lambda>x w. C \<and> Q x w)"
  by (cases C) (simp_all add: defined_from_def)

text \<open>The handler: when the watch answers \<open>OK\<close> both regions have just been found where they were.\<close>

lemma watch_defined:
  assumes "repack_sound E"
  shows "defined_from P (JABCPackWatch E R f bufr ixr st)
    (\<lambda>r w. snd r \<noteq> Some CUndef \<and> (fst r = OK \<longrightarrow> region_live E bufr w \<and> region_live E ixr w))"
proof -
  let ?m = "jbind (call_fn E f [stats_value R st]) (\<lambda>_.
    jbind (JABCViewSame E (fst bufr) (fst (snd bufr)) (snd (snd bufr))) (\<lambda>_.
    jbind (JABCViewSame E (fst ixr) (fst (snd ixr)) (snd (snd ixr))) (\<lambda>_. jret (OK, None))))"
  have both: "defined_from (region_live E bufr) (JABCViewSame E (fst ixr) (fst (snd ixr)) (snd (snd ixr)))
      (\<lambda>_ w. region_live E bufr w \<and> region_live E ixr w)"
  proof (rule defined_post [OF same_view_defined [OF assms]])
    fix w x w'
    assume live: "region_live E bufr w" and run: "JABCViewSame E (fst ixr) (fst (snd ixr)) (snd (snd ixr)) w = (Inr x, w')"
    have "w' = w" by (rule quietD [OF JABCViewSame_quiet run])
    moreover have "region_live E ixr w'"
      using run quietD [OF JABCViewSame_quiet run] by (cases ixr) (simp add: JABCViewSame_Inr region_live_def)
    ultimately show "region_live E bufr w' \<and> region_live E ixr w'" using live by simp
  qed
  have first: "defined_from Q (JABCViewSame E (fst bufr) (fst (snd bufr)) (snd (snd bufr))) (\<lambda>_. region_live E bufr)" for Q
    using same_view_defined [OF assms, of Q "fst bufr" "fst (snd bufr)" "snd (snd bufr)"] by simp
  have "defined_from P ?m (\<lambda>r w. snd r = None \<and> region_live E bufr w \<and> region_live E ixr w)"
    by (intro defined_bind [OF defined_any [OF soundD(5) [OF assms]]] defined_bind [OF first] defined_bind [OF both]
        defined_ret) simp
  then have "defined_from P ?m (\<lambda>r w. snd r \<noteq> Some CUndef \<and> (fst r = OK \<longrightarrow> region_live E bufr w \<and> region_live E ixr w))"
    by (rule defined_weaken) auto
  then show ?thesis
    unfolding JABCPackWatch_def
    by (rule defined_catch) (auto simp: JABCPackHold_def intro!: defined_ret)
qed

lemma run_defined:
  assumes "repack_sound E" and cov: "watch_covers watch bufr ixr"
  shows "bursts_stay E bs \<Longrightarrow>
    defined_from (\<lambda>w. reach E bufr w \<and> reach E ixr w) (REPACKRun E R watch bufr ixr code bs) (\<lambda>r _. snd r \<noteq> Some CUndef)"
proof (induction bs)
  case Nil
  then show ?case by (simp add: defined_ret)
next
  case (Cons b bs)
  let ?live = "\<lambda>w. reach E bufr w \<and> reach E ixr w"
  have burst: "defined_from ?live (run_burst E bufr ixr b) (\<lambda>_. ?live)"
    using Cons.prems by (auto simp: defined_from_def run_burst_def reach_def bursts_stay_def split: prod.splits)
  have rest: "defined_from ?live (REPACKRun E R watch bufr ixr code bs) (\<lambda>r _. snd r \<noteq> Some CUndef)"
    using Cons by (simp add: bursts_stay_def)
  have "defined_from ?live (case watch of None \<Rightarrow> REPACKRun E R watch bufr ixr code bs
     | Some (f, wb, wi) \<Rightarrow> jbind (JABCPackWatch E R f wb wi (burst_stat b)) (\<lambda>(o', e).
         if o' \<noteq> OK then jret (o', e) else REPACKRun E R watch bufr ixr code bs)) (\<lambda>r _. snd r \<noteq> Some CUndef)"
  proof (cases watch)
    case None
    with rest show ?thesis by simp
  next
    case (Some x)
    obtain f wb wi where x: "x = (f, wb, wi)" by (cases x)
    with Some cov have c: "covers wb bufr" "covers wi ixr" by (simp_all add: watch_covers_def)
    have "defined_from (\<lambda>w. snd r \<noteq> Some CUndef \<and> (fst r = OK \<longrightarrow> region_live E wb w \<and> region_live E wi w))
        (case r of (o', e) \<Rightarrow> if o' \<noteq> OK then jret (o', e) else REPACKRun E R watch bufr ixr code bs) (\<lambda>r _. snd r \<noteq> Some CUndef)" for r
    proof (cases "fst r = OK")
      case True
      show ?thesis
        by (cases r, use True in simp, rule defined_pre [OF rest]) (use c in \<open>auto intro: live_reach\<close>)
    qed (auto simp: defined_from_def split: prod.splits)
    with Some x show ?thesis by (auto intro: defined_bind [OF watch_defined [OF assms(1)]])
  qed
  with burst show ?case by (auto intro: defined_bind)
qed

text \<open>Set up while the two bases are memory of their views, the watch holds what covers them.\<close>

lemma watch_set:
  assumes sound: "repack_sound E"
  shows "defined_from (\<lambda>w. reach E (bv, b, m) w \<and> reach E (iv, i, n) w) (repack_watch E fn bv iv)
    (\<lambda>x w. watch_covers x (bv, b, m) (iv, i, n) \<and> reach E (bv, b, m) w \<and> reach E (iv, i, n) w)"
proof (rule defined_post)
  show "defined_at_all (\<lambda>w. reach E (bv, b, m) w \<and> reach E (iv, i, n) w) (repack_watch E fn bv iv)"
    unfolding repack_watch_def
    by (cases fn) (auto intro!: defined_ret defined_bind [OF view_of_defined [OF sound]])
next
  fix w x w'
  assume live: "reach E (bv, b, m) w \<and> reach E (iv, i, n) w" and run: "repack_watch E fn bv iv w = (Inr x, w')"
  have "quiet (repack_watch E fn bv iv)"
    unfolding repack_watch_def by (cases fn) (auto intro!: quiet_intros)
  then have w': "w' = w" using run by (rule quietD)
  have "watch_covers x (bv, b, m) (iv, i, n)"
  proof (cases fn)
    case None
    with run show ?thesis by (simp add: repack_watch_def watch_covers_def)
  next
    case (Some f)
    with run obtain p q w1 where p: "JABCViewOf E bv w = (Inr p, w1)" and q: "JABCViewOf E iv w1 = (Inr q, w')"
      and x: "x = Some (f, (bv, p), (iv, q))"
      by (auto simp: repack_watch_def jbind_def split: prod.splits sum.splits)
    have "w1 = w" by (rule quietD [OF JABCViewOf_quiet p])
    with live p q x show ?thesis by (cases p; cases q) (auto simp: reach_def watch_covers_def covers_def)
  qed
  with live w' show "watch_covers x (bv, b, m) (iv, i, n) \<and> reach E (bv, b, m) w' \<and> reach E (iv, i, n) w'" by simp
qed

lemma defined_local: "(\<And>w0. defined_from P (F w0) Q) \<Longrightarrow> defined_from P (\<lambda>w. F w w) Q"
  by (simp add: defined_from_def)

lemma path_or_defined: "defined_at_all P (path_or A msg v)"
  unfolding path_or_def by (auto intro!: defined_ret defined_throw split: sum.splits)


lemma back_defined:
  assumes "repack_sound E"
  shows "defined_at_all P (JABCBufBack E bo buf)"
  unfolding JABCBufBack_def
  by (intro defined_bind [OF prop_defined(2) [OF assms]] prop_defined(2) [OF assms])

text \<open>What follows the run: the Buf is given its cursors back, and the exception kept is the one thrown.\<close>

lemma end_defined:
  assumes "repack_sound E"
  shows "defined_at_all (\<lambda>_. snd r \<noteq> Some CUndef) (repack_end E R bo buf st r)"
proof (cases "snd r = Some CUndef")
  case False
  have tail: "defined_at_all Q (case snd r of Some x \<Rightarrow> jthrow x
      | None \<Rightarrow> if fst r \<noteq> OK then jthrow (ThrowError (JABCPackWords (fst r))) else jret (JFields (JABCPackStats st)))" for Q
    using False by (auto intro!: defined_throw defined_ret split: option.splits)
  have got: "defined_at_all Q (jget (ate R buf))" for Q by (rule defined_get) simp
  show ?thesis
    unfolding repack_end_def by (intro defined_bind [OF got] defined_bind [OF back_defined [OF assms]] tail)
qed (simp add: defined_from_def)

lemma bursts_defined:
  assumes "repack_sound E" and "bursts_stay E bs"
  shows "defined_from (\<lambda>w. watch_covers watch bufr ixr \<and> reach E bufr w \<and> reach E ixr w)
    (jbind (REPACKRun E R watch bufr ixr code bs) (repack_end E R bo buf st)) (\<lambda>_ _. True)"
proof (cases "watch_covers watch bufr ixr")
  case True
  have "defined_from (\<lambda>w. reach E bufr w \<and> reach E ixr w)
    (jbind (REPACKRun E R watch bufr ixr code bs) (repack_end E R bo buf st)) (\<lambda>_ _. True)"
    by (intro defined_bind [OF run_defined [OF assms(1) True assms(2)]] end_defined [OF assms(1)])
  with True show ?thesis by (simp add: defined_from_def)
qed (simp add: defined_from_def)

lemma repack_run_defined:
  assumes sound: "repack_sound E"
    and stay: "\<And>fd shard conf w. bursts_stay E (bursts R fd shard conf w)"
  shows "defined_from (\<lambda>w. reach E (buf_region bv buf) w \<and> reach E (index_region iv ixb) w)
    (jbind (repack_watch E fn bv iv) (\<lambda>watch w.
      case outcome R fd shard conf w of (code, st) \<Rightarrow>
        jbind (REPACKRun E R watch (buf_region bv buf) (index_region iv ixb) code (bursts R fd shard conf w))
          (repack_end E R bo buf st) w)) (\<lambda>_ _. True)"
  unfolding buf_region_def index_region_def
proof (rule defined_bind [OF watch_set [OF sound]])
  fix watch
  show "defined_from (\<lambda>w. watch_covers watch br ir \<and> reach E br w \<and> reach E ir w)
      (\<lambda>w. case outcome R fd shard conf w of (code, st) \<Rightarrow>
        jbind (REPACKRun E R watch br ir code (bursts R fd shard conf w))
          (repack_end E R bo buf st) w) (\<lambda>_ _. True)" for br ir
    using bursts_defined [OF sound stay, of watch br ir R _ fd shard conf _ bo buf]
    unfolding defined_any_iff by (auto split: prod.split)
qed

text \<open>
  C34: No call of \<open>git.pack\<close> (\<open>_pack_repack\<close>) is undefined, whatever its arguments, its stream, the
  getters of its options and its handler.  The run writes the Buf and the index through the bases that
  were unwrapped before it started, with or without a handler, and a burst through a base that is no
  longer memory of its view is undefined in the model.  Getters and handler may run any JavaScript, so
  they may move the Buf's bytes or detach the index region: every option has been read before the first
  base is taken, and after each call of the handler both views are what they were, or the run stops.
\<close>

theorem repack_writes_live_memory:
  assumes sound: "repack_sound E" and laws: "abc_laws A"
    and stay: "\<And>fd shard conf w. bursts_stay E (bursts R fd shard conf w)"
  shows "fst (JABCpackRepack E A R argv w) \<noteq> Inl CUndef"
proof -
  have "defined_at_all (\<lambda>_. True) (JABCpackRepack E A R argv)"
    unfolding JABCpackRepack_def need_def Let_def
  proof (intro defined_if defined_throw exn.distinct defined_bind [OF gates_defined(2) [OF sound]]
      defined_bind [OF path_or_defined] defined_bind [OF opt_num_defined [OF sound]]
      defined_bind [OF opts_defined [OF sound]] defined_bind [OF defined_keep [OF buf_in_defined [OF sound laws]]]
      defined_bind [OF idle_defined [OF sound]] defined_split)
    fix r :: "jsval option \<times> exn option \<times> jsval" and fn x pending iv bb
    assume "r = (fn, x)" and "x = (pending, iv)"
    then show "defined_at_all (\<lambda>w. fst (snd r) \<noteq> Some CUndef \<and> (case bb of (buf, v) \<Rightarrow> reach E (buf_region v buf)) w)
        (case pending of
          None \<Rightarrow> jthrow (ThrowError ''git.pack: opts.index (a wh128 region) is required'') | Some x \<Rightarrow> jthrow x)"
      by (cases pending) (auto simp: defined_any_iff)
  next
    fix bb :: "u8b \<times> jsval" and buf bufv and r :: "jsval option \<times> exn option \<times> jsval"
    assume "bb = (buf, bufv)"
    then show "defined_at_all (\<lambda>w. reach E (buf_region iv ixb) w \<and> reach E (index_region iv ixb) w \<and>
          fst (snd r) \<noteq> Some CUndef \<and> (case bb of (buf, v) \<Rightarrow> reach E (buf_region v buf)) w)
        (jbind (repack_watch E fn bufv iv) (\<lambda>watch w.
          case outcome R fd shard conf w of (code, st) \<Rightarrow>
            jbind (REPACKRun E R watch (buf_region bufv buf) (index_region iv ixb) code (bursts R fd shard conf w))
              (repack_end E R bo buf st) w))" for iv ixb fn fd shard conf bo
      by (intro defined_pre [OF repack_run_defined [OF sound stay]]) simp
  qed
  then show ?thesis by (simp add: defined_any_iff)
qed

text \<open>A handler that detaches the index region at its first call, and a run that would go on for three bursts.\<close>

definition rogue_engine :: "sample_state engine" where
  "rogue_engine = sample_engine\<lparr>is_callable := \<lambda>s v. is_obj v,
     call_fn := \<lambda>f vs s. (Inr JUndef, detach_buffer sample_engine (JObj 1) s)\<rparr>"

definition no_stat :: repack_stat where
  "no_stat = \<lparr>st_objects = 0, st_total = 0, st_raw = 0, st_ofs = 0, st_ref = 0, st_in = 0, st_out = 0, st_log0 = 0,
     st_logs = 0, st_log_len = 0, st_index_n = 0\<rparr>"

definition three_bursts :: "sample_state repacker" where
  "three_bursts = \<lparr>
     bursts = (\<lambda>fd shard conf s. replicate 3 \<lparr>touch = \<lambda>s. s\<lparr>props := (props s)(''written'' := JBool True)\<rparr>, burst_stat = no_stat\<rparr>),
     outcome = (\<lambda>fd shard conf s. (OK, no_stat)), ate = (\<lambda>b s. b), stats_value = (\<lambda>st. JObj 99)\<rparr>"

theorem repack_writes_live_memory_witness:
  "\<forall>argv s. fst (JABCpackRepack rogue_engine sample_abc three_bursts argv s) \<noteq> Inl CUndef"
proof (intro allI)
  fix argv s
  show "fst (JABCpackRepack rogue_engine sample_abc three_bursts argv s) \<noteq> Inl CUndef"
  proof (rule repack_writes_live_memory)
    show "abc_laws sample_abc" by (rule sample_abc_laws)
    show "repack_sound rogue_engine"
      by (auto simp: repack_sound_def rogue_engine_def engine_defined_def sample_engine_def split: jsval.splits)
    show "bursts_stay rogue_engine (bursts three_bursts fd shard conf w)" for fd shard conf w
      by (auto simp: bursts_stay_def three_bursts_def rogue_engine_def JABCViewOf_def sample_engine_def sample_buf_def
          Let_def split: jsval.splits sum.splits if_splits)
  qed
qed

section \<open>Findings\<close>

text \<open>An offset delta that reaches below the start of the log gives a base that is neither negative nor in the log.\<close>

lemma base_offset_wraps:
  "past < 2 ^ 64 \<Longrightarrow> past < unat d \<Longrightarrow> unat (word_of_nat past - d :: u64) = 2 ^ 64 + past - unat d"
proof -
  assume p: "past < 2 ^ 64" and d: "past < unat d"
  have "int past < int (unat d)" using d by (simp only: of_nat_less_iff)
  then have pd: "int past < uint d" by (simp only: uint_nat)
  have "uint (word_of_nat past :: u64) = int past"
    using p by (simp add: unsigned_of_nat take_bit_nat_eq_self)
  then have "uint (word_of_nat past - d :: u64) = int past - uint d + 2 ^ 64"
    using pd by (simp add: uint_sub_if_size word_size)
  moreover have "unat d < 2 ^ 64" by (rule order_less_le_trans [OF unsigned_less]) simp
  ultimately have "int (unat (word_of_nat past - d :: u64)) = int (2 ^ 64 + past - unat d)"
    using pd d by (simp add: of_nat_diff)
  then show ?thesis by (simp only: of_nat_eq_iff)
qed

end
