(* ===== verification/Containers.thy ===== *)
theory Containers
  imports IoMaps Hash
begin

text \<open>
  The container framework of \<open>cont.c\<close>'s bundle: the lanes, the constructors \<open>abc.ram\<close>, \<open>abc.mmap\<close>,
  \<open>abc.over\<close> and \<open>abc.book\<close> (and those of \<open>git.pack\<close>), \<open>abc.close\<close>, and the bulk merge.  A container is a
  typed array over an array buffer that JavaScript owns; \<open>watermark\<close>, \<open>_map\<close> and \<open>_path\<close> are properties of
  the buffer, so two containers over one buffer share them.  The mapping calls are those of
  \<open>IoMaps\<close>.
\<close>

section \<open>Lanes\<close>

record jslane =
  A_bytes :: nat      \<comment> \<open>\<open>M.A.BYTES_PER_ELEMENT\<close>\<close>
  lane_w :: nat       \<comment> \<open>elements per slot\<close>
  lane_pair :: bool
  lane_big :: bool
  lane_set :: bool
  lane_blob :: bool

definition LANE :: "string \<Rightarrow> jslane option" where
  "LANE n = map_of [
     (''u8'',     \<lparr>A_bytes = 1, lane_w = 1, lane_pair = False, lane_big = False, lane_set = False, lane_blob = False\<rparr>),
     (''u16'',    \<lparr>A_bytes = 2, lane_w = 1, lane_pair = False, lane_big = False, lane_set = False, lane_blob = False\<rparr>),
     (''u32'',    \<lparr>A_bytes = 4, lane_w = 1, lane_pair = False, lane_big = False, lane_set = False, lane_blob = False\<rparr>),
     (''u64'',    \<lparr>A_bytes = 8, lane_w = 1, lane_pair = False, lane_big = True, lane_set = False, lane_blob = False\<rparr>),
     (''kv32'',   \<lparr>A_bytes = 4, lane_w = 2, lane_pair = True, lane_big = False, lane_set = False, lane_blob = False\<rparr>),
     (''kv64'',   \<lparr>A_bytes = 8, lane_w = 2, lane_pair = True, lane_big = True, lane_set = False, lane_blob = False\<rparr>),
     (''wh64'',   \<lparr>A_bytes = 8, lane_w = 1, lane_pair = False, lane_big = True, lane_set = False, lane_blob = False\<rparr>),
     (''wh128'',  \<lparr>A_bytes = 8, lane_w = 2, lane_pair = True, lane_big = True, lane_set = True, lane_blob = False\<rparr>),
     (''sha1'',   \<lparr>A_bytes = 1, lane_w = 20, lane_pair = False, lane_big = False, lane_set = False, lane_blob = True\<rparr>),
     (''sha256'', \<lparr>A_bytes = 1, lane_w = 32, lane_pair = False, lane_big = False, lane_set = False, lane_blob = True\<rparr>)] n"

text \<open>\<open>fam.slice (4)\<close>: what follows \<open>HEAP\<close> or \<open>HASH\<close>.\<close>

definition laneOf :: "string \<Rightarrow> string" where "laneOf fam = drop 4 fam"

definition isLog :: "string \<Rightarrow> bool" where
  "isLog f \<longleftrightarrow> f = ''HUNK'' \<or> f = ''ULOG'' \<or> f = ''CFOLD''"

text \<open>The families that have a prototype.\<close>

definition PROTO :: "string \<Rightarrow> bool" where
  "PROTO f \<longleftrightarrow> isLog f \<or> ((take 4 f = ''HEAP'' \<or> take 4 f = ''HASH'') \<and> LANE (laneOf f) \<noteq> None)"

section \<open>Buffers and containers\<close>

record abuf =
  mapped :: "mrec option"        \<comment> \<open>the mapping under the buffer\<close>
  blen :: nat
  gone :: bool                  \<comment> \<open>transferred\<close>
  watermark :: jsnum            \<comment> \<open>\<open>NaN\<close> while it is undefined\<close>
  pathof :: "string option"     \<comment> \<open>\<open>_path\<close>\<close>
  pinned :: bool                \<comment> \<open>\<open>_map\<close> is set\<close>

record u8v =
  ubuf :: nat
  uoff :: nat
  ulen :: nat

record cont =
  family :: string              \<comment> \<open>the prototype; \<open>git.pack\<close>'s is \<open>PACK\<close>\<close>
  cbuf :: nat
  coff :: nat
  elems :: nat

text \<open>
  The world: the buffers made so far, libabc's mappings, and the truncations of files, a history the
  code does not keep.
\<close>

record cworld =
  abufs :: "nat \<Rightarrow> abuf"
  fresh :: nat
  maps :: mapst
  trims :: "(string \<times> jsnum) list"

record contenv =
  fmap :: filemap
  menv :: mapenv
  errtext :: string
  trim_fails :: "string \<Rightarrow> jsnum \<Rightarrow> exn option"

definition on_maps :: "(mapst, 'a) js \<Rightarrow> (cworld, 'a) js" where
  "on_maps f = (\<lambda>s. case f (maps s) of (r, m) \<Rightarrow> (r, s\<lparr>maps := m\<rparr>))"

definition on_buf :: "nat \<Rightarrow> (abuf \<Rightarrow> abuf) \<Rightarrow> cworld \<Rightarrow> cworld" where
  "on_buf b f s = s\<lparr>abufs := (abufs s)(b := f (abufs s b))\<rparr>"

text \<open>What a mapping leaf answers with: an array over a new buffer.\<close>

definition fresh_view :: "mrec option \<Rightarrow> (cworld, u8v) js" where
  "fresh_view r = (\<lambda>s. let n = (case r of Some x \<Rightarrow> mlen x | None \<Rightarrow> 0) in
     (Inr \<lparr>ubuf = fresh s, uoff = 0, ulen = n\<rparr>,
      s\<lparr>fresh := Suc (fresh s), abufs := (abufs s)(fresh s :=
        \<lparr>mapped = r, blen = n, gone = False, watermark = NaN, pathof = None, pinned = False\<rparr>)\<rparr>))"

definition io_ram :: "contenv \<Rightarrow> jsnum \<Rightarrow> (cworld, u8v) js" where
  "io_ram V n = jbind (on_maps (JABCioRam (fmap V) (menv V) (errtext V) n)) fresh_view"

definition io_mmap :: "contenv \<Rightarrow> string \<Rightarrow> string \<Rightarrow> jsnum \<Rightarrow> (cworld, u8v) js" where
  "io_mmap V path mode n = jbind (on_maps (JABCioMmap (fmap V) (menv V) (errtext V) path mode n)) fresh_view"

section \<open>Constructors\<close>

definition unknown_family :: "string \<Rightarrow> exn" where
  "unknown_family f = ThrowStr (''abc: unknown family '' @ f)"

text \<open>A typed array of whole elements of the lane over the view's bytes, at an offset that is a multiple.\<close>

definition build :: "string \<Rightarrow> u8v \<Rightarrow> (cworld, cont) js" where
  "build f u =
     (if \<not> PROTO f then jthrow (unknown_family f)
      else
        jbind (if isLog f then jret \<lparr>family = f, cbuf = ubuf u, coff = uoff u, elems = ulen u\<rparr>
               else (case LANE (laneOf f) of
                  None \<Rightarrow> jthrow (unknown_family f)
                | Some M \<Rightarrow>
                    if uoff u mod A_bytes M \<noteq> 0 then jthrow (ThrowError ''RangeError'')
                    else jret \<lparr>family = f, cbuf = ubuf u, coff = uoff u, elems = ulen u div A_bytes M\<rparr>)) (\<lambda>c.
        jbind (jput (on_buf (ubuf u) (\<lambda>b. b\<lparr>pinned := True, watermark := js_nat 0\<rparr>))) (\<lambda>_.
        jret c)))"

text \<open>\<open>pow2up\<close> of a number that need not be whole; a wish that is none ends at 16.\<close>

definition pow2up_num :: "jsnum \<Rightarrow> jsnum" where
  "pow2up_num d = (case d of Fin r \<Rightarrow> js_nat (pow2up (nat \<lceil>r\<rceil>)) | PInf \<Rightarrow> PInf | _ \<Rightarrow> js_nat 16)"

definition num_mult :: "nat \<Rightarrow> jsnum \<Rightarrow> jsnum" where
  "num_mult k d = (case d of Fin r \<Rightarrow> Fin (of_nat k * r) | _ \<Rightarrow> d)"

definition bytes_for :: "string \<Rightarrow> jsnum \<Rightarrow> (cworld, jsnum) js" where
  "bytes_for f slots =
     (if isLog f then jret slots
      else case LANE (laneOf f) of
        None \<Rightarrow> jthrow (ThrowError ''cannot read property of undefined'')
      | Some M \<Rightarrow> jret (num_mult (lane_w M * A_bytes M) (if take 4 f = ''HASH'' then pow2up_num slots else slots)))"

definition abc_ram :: "contenv \<Rightarrow> string \<Rightarrow> jsnum \<Rightarrow> (cworld, cont) js" where
  "abc_ram V f slots = jbind (bytes_for f slots) (\<lambda>n. jbind (io_ram V n) (build f))"

text \<open>\<open>mode || "rw"\<close>, \<open>slots || 0\<close>.\<close>

definition or_zero :: "jsnum \<Rightarrow> jsnum" where "or_zero d = (if d = NaN then Fin 0 else d)"

definition abc_mmap :: "contenv \<Rightarrow> string \<Rightarrow> string \<Rightarrow> string \<Rightarrow> jsnum \<Rightarrow> (cworld, cont) js" where
  "abc_mmap V f path mode0 slots =
     (let mode = (if mode0 = [] then ''rw'' else mode0) in
      jbind (if mode = ''c'' then bytes_for f (or_zero slots) else jret (js_nat 0)) (\<lambda>n.
      jbind (io_mmap V path mode n) (build f)))"

definition abc_over :: "string \<Rightarrow> u8v \<Rightarrow> (cworld, cont) js" where
  "abc_over f ta = build f ta"

definition set_path :: "string \<Rightarrow> cont \<Rightarrow> (cworld, cont) js" where
  "set_path path c = jbind (jput (on_buf (cbuf c) (\<lambda>b. b\<lparr>pathof := Some path\<rparr>))) (\<lambda>_. jret c)"

definition abc_book :: "contenv \<Rightarrow> string \<Rightarrow> string \<Rightarrow> jsnum \<Rightarrow> (cworld, cont) js" where
  "abc_book V f path slots =
     jbind (bytes_for f slots) (\<lambda>n. jbind (io_mmap V path ''c'' n) (\<lambda>u. jbind (build f u) (set_path path)))"

definition packBuild :: "u8v \<Rightarrow> (cworld, cont) js" where
  "packBuild u =
     jbind (jput (on_buf (ubuf u) (\<lambda>b. b\<lparr>pinned := True, watermark := js_nat 0\<rparr>))) (\<lambda>_.
     jret \<lparr>family = ''PACK'', cbuf = ubuf u, coff = uoff u, elems = ulen u\<rparr>)"

definition pack_ram :: "contenv \<Rightarrow> jsnum \<Rightarrow> (cworld, cont) js" where
  "pack_ram V slots = jbind (io_ram V slots) packBuild"

definition pack_over :: "u8v \<Rightarrow> (cworld, cont) js" where
  "pack_over ta = packBuild ta"

definition pack_mmap :: "contenv \<Rightarrow> string \<Rightarrow> string \<Rightarrow> jsnum \<Rightarrow> (cworld, cont) js" where
  "pack_mmap V path mode0 slots =
     (let mode = (if mode0 = [] then ''rw'' else mode0) in
      jbind (io_mmap V path mode (if mode = ''c'' then or_zero slots else js_nat 0)) packBuild)"

definition pack_book :: "contenv \<Rightarrow> string \<Rightarrow> jsnum \<Rightarrow> (cworld, cont) js" where
  "pack_book V path slots = jbind (io_mmap V path ''c'' slots) (\<lambda>u. jbind (packBuild u) (set_path path))"

section \<open>Closing\<close>

text \<open>Only a heap has a \<open>lane\<close> and a \<open>size\<close> (the watermark); those of the others are undefined.\<close>

definition lane_of :: "cont \<Rightarrow> jslane option" where
  "lane_of c = (if take 4 (family c) = ''HEAP'' then LANE (laneOf (family c)) else None)"

definition trim_of :: "cont \<Rightarrow> abuf \<Rightarrow> int option" where
  "trim_of c b =
     (case pathof b of
        None \<Rightarrow> None
      | Some p \<Rightarrow>
          if p = [] then None
          else let n = (case lane_of c of
                   Some M \<Rightarrow> to_int32 (watermark b) * int (lane_w M) * int (A_bytes M)
                 | None \<Rightarrow> to_int32 (watermark b))
               in if 0 \<le> n then Some n else None)"

definition io_truncate :: "contenv \<Rightarrow> string \<Rightarrow> jsnum \<Rightarrow> (cworld, unit) js" where
  "io_truncate V path n = (case trim_fails V path n of
     Some e \<Rightarrow> jthrow e
   | None \<Rightarrow> jput (\<lambda>s. s\<lparr>trims := trims s @ [(path, n)]\<rparr>))"

text \<open>
  The transfer comes first: a buffer that is gone cannot be transferred, and the close ends there.  The
  flush (whose errors are dropped) changes nothing here.
\<close>

definition abc_close :: "contenv \<Rightarrow> cont \<Rightarrow> (cworld, unit) js" where
  "abc_close V c = (\<lambda>s.
     let b = abufs s (cbuf c); trim = trim_of c b in
     if gone b then (Inr (), s)
     else
       (jbind (jput (on_buf (cbuf c) (\<lambda>b. b\<lparr>gone := True, blen := 0, mapped := None\<rparr>))) (\<lambda>_.
        jbind (case trim of
                 Some n \<Rightarrow> io_truncate V (case pathof b of Some p \<Rightarrow> p | None \<Rightarrow> []) (js_int n)
               | None \<Rightarrow> jret ()) (\<lambda>_.
        jput (\<lambda>s. on_buf (cbuf c) (\<lambda>b. b\<lparr>pinned := False\<rparr>)
          (case mapped b of Some r \<Rightarrow> s\<lparr>maps := JABCioMunmap (fmap V) (base r) (maps s)\<rparr> | None \<Rightarrow> s)))) s))"

section \<open>Bulk operations\<close>

text \<open>
  \<open>abc.merge\<close> and \<open>abc.intersect\<close>: the lane of the first operand, a run per operand (its elements below
  \<open>size\<close>), and the leaf of the lane, which writes into \<open>out\<close> and answers with the number of slots, or
  answers with the bytes of a new run.
\<close>

datatype kway_out = KCount jsnum | KRun u8v

type_synonym kway_leaf = "string \<Rightarrow> (cont \<times> nat) list \<Rightarrow> cont option \<Rightarrow> (cworld, kway_out) js"

definition live_elems :: "jslane \<Rightarrow> cont \<Rightarrow> cworld \<Rightarrow> nat" where
  "live_elems M c s = rel_index (elems c) (js_int (to_int32 (watermark (abufs s (cbuf c))) * int (lane_w M)))"

definition kway_js :: "string \<Rightarrow> kway_leaf \<Rightarrow> cont list \<Rightarrow> cont option \<Rightarrow> (cworld, cont + u8v) js" where
  "kway_js op leaf inputs out =
     (case inputs of
        [] \<Rightarrow> jthrow (ThrowStr (''abc.'' @ op @ '': no inputs''))
      | c0 # _ \<Rightarrow>
          (case lane_of c0 of
             None \<Rightarrow> jthrow (ThrowStr (''abc.'' @ op @ '': inputs need a lane (use abc.ram/over)''))
           | Some M \<Rightarrow>
               if (\<exists>c\<in>set inputs. lane_of c = None \<or> laneOf (family c) \<noteq> laneOf (family c0))
               then jthrow (ThrowStr (''abc.'' @ op @ '': lane mismatch''))
               else (\<lambda>s.
                 let runs = map (\<lambda>c. (c, live_elems M c s)) inputs in
                 (case out of
                    Some d \<Rightarrow>
                      if lane_of d = None \<or> laneOf (family d) \<noteq> laneOf (family c0)
                      then jthrow (ThrowStr (''abc.'' @ op @ '': out lane mismatch''))
                      else jbind (leaf (laneOf (family c0)) runs (Some d)) (\<lambda>r.
                           jbind (jput (on_buf (cbuf d) (\<lambda>b. b\<lparr>watermark := (case r of KCount n \<Rightarrow> n | KRun _ \<Rightarrow> NaN)\<rparr>))) (\<lambda>_.
                           jret (Inl d)))
                  | None \<Rightarrow>
                      jbind (leaf (laneOf (family c0)) runs None) (\<lambda>r.
                      case r of KRun u \<Rightarrow> jret (Inr u) | KCount _ \<Rightarrow> jthrow (ThrowError ''TypeError''))) s)))"

end
