(* ===== verification/ContainersSafe.thy ===== *)
theory ContainersSafe
  imports Containers
begin

text \<open>
  What a container is when a constructor hands it out (\<open>ram_typed\<close>), and what closing one does
  (\<open>close_releases\<close>), with the two ways in which it does not do what it is for.
\<close>

section \<open>Constructors\<close>

text \<open>
  A container in order: its prototype exists, its elements are aligned and lie inside a live buffer, the
  mapping is pinned, and a table of hashes has a power of two of slots, from 16 on.
\<close>

definition cont_ok :: "cworld \<Rightarrow> cont \<Rightarrow> bool" where
  "cont_ok s c \<longleftrightarrow> PROTO (family c) \<and> \<not> gone (abufs s (cbuf c)) \<and> pinned (abufs s (cbuf c)) \<and>
     (if isLog (family c) then coff c + elems c \<le> blen (abufs s (cbuf c))
      else \<exists>M. LANE (laneOf (family c)) = Some M \<and> coff c mod A_bytes M = 0 \<and>
        coff c + elems c * A_bytes M \<le> blen (abufs s (cbuf c)) \<and>
        (take 4 (family c) = ''HASH'' \<longrightarrow> (\<exists>k. elems c = lane_w M * k \<and> line_pow2 k)))"

lemma LANE_Some:
  "LANE n = Some M \<Longrightarrow> 0 < A_bytes M \<and> 0 < lane_w M"
  by (auto simp: LANE_def split: if_splits)

lemma as_size_of_nat: "as_size (js_nat n) s = (Inr m, s') \<Longrightarrow> m = n \<and> s' = s"
  by (auto simp: as_size_def cast_or_undef_def c_cast_def js_nat_def Let_def jbind_def split: if_splits)

lemma hand_out_Inr: "hand_out F env err k r f s = (Inr x, s') \<Longrightarrow> x = Some r"
  by (auto simp: hand_out_def split: if_splits)

lemma ram_Inr:
  assumes "JABCioRam F env err (js_nat n) s = (Inr r, s')"
  shows "\<exists>x. r = Some x \<and> mlen x = n"
proof -
  let ?k = "\<lambda>n s. let s1 = JABCPinSweep F (reap env) s in
       case mmap_anon F n of
         None \<Rightarrow> (Inl (ThrowError err), s1)
       | Some b \<Rightarrow> hand_out F env err Anon \<lparr>kind = Anon, base = b, mlen = n, ident = 0\<rparr> id s1"
  from assms have "jbind (as_size (js_nat n)) ?k s = (Inr r, s')"
    unfolding JABCioRam_def by (simp split: if_splits)
  then obtain m s1 where "as_size (js_nat n) s = (Inr m, s1)" and k: "?k m s1 = (Inr r, s')"
    unfolding jbind_eq_Inr by blast
  then have "m = n" by (blast dest: as_size_of_nat)
  with k show ?thesis
    by (auto simp: Let_def split: option.splits dest: hand_out_Inr)
qed

lemma io_ram_Inr:
  assumes "io_ram V (js_nat n) s = (Inr u, s')"
  shows "uoff u = 0 \<and> ulen u = n \<and> blen (abufs s' (ubuf u)) = n \<and> \<not> gone (abufs s' (ubuf u))"
  using assms
  by (auto simp: io_ram_def jbind_eq_Inr on_maps_def fresh_view_def Let_def split: prod.splits dest!: ram_Inr)

lemma num_mult_nat: "num_mult k (js_nat n) = js_nat (k * n)"
  by (simp add: num_mult_def js_nat_def)

lemma pow2up_num_nat: "pow2up_num (js_nat n) = js_nat (pow2up n)"
  by (simp add: pow2up_num_def js_nat_def)

text \<open>
  C39: Every container \<open>abc.ram\<close> hands out is well formed: its family has a prototype, its elements lie
  in its own live and pinned buffer, its watermark is 0, a heap has exactly the slots asked for, and a
  hash table a power of two of at least 16 slots, not fewer than asked for, which is what the leaves
  of \<open>hash.c\<close> admit.
\<close>

theorem ram_typed:
  assumes "abc_ram V f (js_nat n) s = (Inr c, s')"
  shows "cont_ok s' c \<and> family c = f \<and> watermark (abufs s' (cbuf c)) = js_nat 0 \<and>
    (if isLog f then elems c = n
     else \<exists>M. LANE (laneOf f) = Some M \<and>
       (if take 4 f = ''HASH'' then elems c = lane_w M * pow2up n \<and> n \<le> pow2up n else elems c = lane_w M * n))"
proof -
  from assms obtain d s1 u s2 where d: "bytes_for f (js_nat n) s = (Inr d, s1)"
    and u: "io_ram V d s1 = (Inr u, s2)" and b: "build f u s2 = (Inr c, s')"
    unfolding abc_ram_def jbind_eq_Inr by blast
  have proto: "PROTO f" using b by (auto simp: build_def split: if_splits)
  show ?thesis
  proof (cases "isLog f")
    case True
    with d have "d = js_nat n" by (simp add: bytes_for_def)
    with io_ram_Inr u have "uoff u = 0 \<and> ulen u = n \<and> blen (abufs s2 (ubuf u)) = n \<and> \<not> gone (abufs s2 (ubuf u))"
      by blast
    with b proto True show ?thesis
      by (auto simp: build_def cont_ok_def on_buf_def)
  next
    case False
    then obtain M where M: "LANE (laneOf f) = Some M" using proto by (auto simp: PROTO_def)
    let ?k = "if take 4 f = ''HASH'' then pow2up n else n"
    have "d = js_nat (lane_w M * A_bytes M * ?k)"
      using d False M by (auto simp: bytes_for_def num_mult_nat pow2up_num_nat)
    with io_ram_Inr u have r: "uoff u = 0" "ulen u = lane_w M * A_bytes M * ?k"
      "blen (abufs s2 (ubuf u)) = lane_w M * A_bytes M * ?k" "\<not> gone (abufs s2 (ubuf u))"
      by blast+
    have "ulen u div A_bytes M = lane_w M * ?k"
      using LANE_Some [OF M] by (simp add: r(2) mult.commute [of _ "A_bytes M"] mult.assoc)
    then have "c = \<lparr>family = f, cbuf = ubuf u, coff = 0, elems = lane_w M * ?k\<rparr>"
      "s' = on_buf (ubuf u) (\<lambda>b. b\<lparr>pinned := True, watermark := js_nat 0\<rparr>) s2"
      using b proto False M r(1) by (auto simp: build_def)
    then show ?thesis
      using False M proto r pow2up_ok [of n] by (auto simp: cont_ok_def on_buf_def mult_ac)
  qed
qed

definition tiny_maps :: filemap where
  "tiny_maps = \<lparr>open_bits = 8, FILEMapCreate = \<lambda>p n t. if t 3 = None then ((OK, \<lparr>bfd = 3, bbase = 4096, bdlen = n, bilen = 0\<rparr>), t(3 \<mapsto> 4096))
       else ((NODATA, \<lparr>bfd = 0, bbase = 0, bdlen = 0, bilen = 0\<rparr>), t),
     FILEMapRW = \<lambda>p t. ((NODATA, \<lparr>bfd = 0, bbase = 0, bdlen = 0, bilen = 0\<rparr>), t), FILEMapOnce = \<lambda>p. (NODATA, 0, 0),
     mmap_anon = \<lambda>n. Some 8192, FILEUnMap = \<lambda>fd t. t(fd := None),
     FILEUnMapBase = \<lambda>b t. (\<lambda>fd. if t fd = Some b then None else t fd)\<rparr>"

definition tiny_env :: contenv where
  "tiny_env = \<lparr>fmap = tiny_maps, menv = \<lparr>reap = [], rec_oom = False, view_oom = False\<rparr>, errtext = ''ENOMEM'',
     trim_fails = \<lambda>p n. None\<rparr>"

definition no_buffers :: cworld where
  "no_buffers = \<lparr>abufs = \<lambda>_. \<lparr>mapped = None, blen = 0, gone = False, watermark = NaN, pathof = None, pinned = False\<rparr>,
     fresh = 0, maps = maps0, trims = []\<rparr>"

text \<open>A table of 64-bit numbers for 20 of them has 32 slots.\<close>

lemma pow2up_20: "pow2up 20 = 32"
  by (simp add: pow2up_def pow2from.simps)

lemma tiny_map_256: "JABCioRam tiny_maps \<lparr>reap = [], rec_oom = False, view_oom = False\<rparr> err (js_nat 256) maps0 =
    (Inr (Some \<lparr>kind = Anon, base = 8192, mlen = 256, ident = 0\<rparr>),
     JABCPinTake False (maps0\<lparr>lives := [\<lparr>kind = Anon, base = 8192, mlen = 256, ident = 0\<rparr>]\<rparr>))"
proof -
  have "\<not> num_le (js_nat 256) (Fin 0)" "\<not> num_lt (js_nat JABC_MAP_MAX) (js_nat 256)"
    by (simp_all add: js_nat_def JABC_MAP_MAX_def)
  then show ?thesis
    by (simp add: JABCioRam_def jbind_def JABCPinSweep_def maps0_def JABC_PIN_MAPS_def JABC_PIN_FDS_def Let_def
        tiny_maps_def hand_out_def)
qed

lemma tiny_ram: "abc_ram tiny_env ''HASHu64'' (js_nat 20) no_buffers =
    (Inr \<lparr>family = ''HASHu64'', cbuf = 0, coff = 0, elems = 32\<rparr>, snd (abc_ram tiny_env ''HASHu64'' (js_nat 20) no_buffers))"
proof -
  have lane: "LANE (laneOf ''HASHu64'') = Some \<lparr>A_bytes = 8, lane_w = 1, lane_pair = False, lane_big = True,
      lane_set = False, lane_blob = False\<rparr>" by (simp add: LANE_def laneOf_def)
  have log: "\<not> isLog ''HASHu64''" by (simp add: isLog_def)
  have bytes: "bytes_for ''HASHu64'' (js_nat 20) no_buffers = (Inr (js_nat 256), no_buffers)"
    by (simp add: bytes_for_def log lane pow2up_num_nat pow2up_20 num_mult_nat)
  obtain s' where "io_ram tiny_env (js_nat 256) no_buffers = (Inr \<lparr>ubuf = 0, uoff = 0, ulen = 256\<rparr>, s')"
    by (simp add: io_ram_def jbind_def on_maps_def tiny_env_def no_buffers_def tiny_map_256 fresh_view_def Let_def)
  then show ?thesis
    by (simp add: abc_ram_def jbind_def bytes build_def PROTO_def lane log)
qed

theorem ram_typed_witness:
  "\<exists>c s'. abc_ram tiny_env ''HASHu64'' (js_nat 20) no_buffers = (Inr c, s') \<and> cont_ok s' c \<and> elems c = 32"
  using ram_typed [OF tiny_ram, THEN conjunct1] tiny_ram
  by (intro exI [of _ "\<lparr>family = ''HASHu64'', cbuf = 0, coff = 0, elems = 32\<rparr>"]
      exI [of _ "snd (abc_ram tiny_env ''HASHu64'' (js_nat 20) no_buffers)"] conjI) (assumption | simp)+

section \<open>Closing\<close>

text \<open>Two closes in a row are one.\<close>

lemma close_gone: "gone (abufs s (cbuf c)) \<Longrightarrow> abc_close V c s = (Inr (), s)"
  by (simp add: abc_close_def Let_def)

lemma close_Inr:
  assumes "abc_close V c s = (Inr (), s')" and live: "\<not> gone (abufs s (cbuf c))"
  defines "b \<equiv> abufs s (cbuf c)"
  shows "abufs s' = (abufs s)(cbuf c := b\<lparr>gone := True, blen := 0, mapped := None, pinned := False\<rparr>)"
    and "maps s' = (case mapped b of Some r \<Rightarrow> JABCioMunmap (fmap V) (base r) (maps s) | None \<Rightarrow> maps s)"
    and "trims s' = trims s @ (case trim_of c b of Some n \<Rightarrow> [(the (pathof b), js_int n)] | None \<Rightarrow> [])"
proof -
  have path: "\<exists>p. pathof b = Some p" if "trim_of c b = Some n" for n
    using that by (auto simp: trim_of_def split: option.splits)
  show "abufs s' = (abufs s)(cbuf c := b\<lparr>gone := True, blen := 0, mapped := None, pinned := False\<rparr>)"
    "maps s' = (case mapped b of Some r \<Rightarrow> JABCioMunmap (fmap V) (base r) (maps s) | None \<Rightarrow> maps s)"
    "trims s' = trims s @ (case trim_of c b of Some n \<Rightarrow> [(the (pathof b), js_int n)] | None \<Rightarrow> [])"
    using assms(1) live path
    by (auto simp: abc_close_def Let_def jbind_eq_Inr on_buf_def io_truncate_def b_def split: option.splits)
qed

lemma close_returns: "(\<And>p n. trim_fails V p n = None) \<Longrightarrow> \<exists>s'. abc_close V c s = (Inr (), s')"
  by (auto simp: abc_close_def Let_def jbind_def io_truncate_def split: option.splits)

lemma close_Inl:
  assumes "abc_close V c s = (Inl e, s')"
  shows "gone (abufs s' (cbuf c)) \<and> maps s' = maps s \<and> trims s' = trims s \<and>
    (\<exists>n p. trim_of c (abufs s (cbuf c)) = Some n \<and> pathof (abufs s (cbuf c)) = Some p \<and> trim_fails V p (js_int n) = Some e)"
  using assms
  by (auto simp: abc_close_def Let_def jbind_def on_buf_def io_truncate_def trim_of_def split: option.splits if_splits)

text \<open>
  What the file of a booked container should be cut to when it holds \<open>n\<close>: a heap keeps \<open>n\<close> rows of the
  size its lane has in C; a log and a pack keep the \<open>n\<close> bytes before their write head.
\<close>

definition row_bytes :: "string \<Rightarrow> nat" where
  "row_bytes lane =
     (if lane = ''u8'' then 1 else if lane = ''u16'' then 2 else if lane = ''u32'' then 4
      else if lane \<in> {''u64'', ''wh64'', ''kv32''} then 8 else if lane \<in> {''kv64'', ''wh128''} then 16
      else if lane = ''sha1'' then 20 else 32)"

definition live_bytes :: "string \<Rightarrow> nat \<Rightarrow> nat" where
  "live_bytes f n = (if take 4 f = ''HEAP'' then n * row_bytes (drop 4 f) else n)"

lemma LANE_row: "LANE l = Some M \<Longrightarrow> lane_w M * A_bytes M = row_bytes l"
  by (auto simp: LANE_def row_bytes_def split: if_splits)

lemma trim_live:
  assumes "PROTO (family c) \<or> family c = ''PACK''" and "pathof b = Some p" and "p \<noteq> []"
    and "watermark b = js_nat n" and "n < 2 ^ 31"
  shows "trim_of c b = Some (int (live_bytes (family c) n))"
proof (cases "take 4 (family c) = ''HEAP''")
  case True
  then have "\<not> isLog (family c)" "family c \<noteq> ''PACK''" by (auto simp: isLog_def)
  then obtain M where M: "LANE (laneOf (family c)) = Some M" using assms(1) by (auto simp: PROTO_def)
  have "n * lane_w M * A_bytes M = live_bytes (family c) n"
    using True LANE_row [OF M] by (simp add: live_bytes_def laneOf_def mult.assoc)
  then show ?thesis
    using assms(2-) True M by (simp add: trim_of_def lane_of_def Let_def to_int32_nat flip: of_nat_mult)
next
  case False
  then show ?thesis using assms(2-) by (simp add: trim_of_def lane_of_def live_bytes_def Let_def to_int32_nat)
qed

text \<open>
  C38: Closing a container releases it: its buffer is detached, so that every view of it reads empty,
  before anything else happens, whether or not the close succeeds; when it does, no slot of the
  mapping table holds its mapping any more, every other buffer is as it was, a file that was booked is
  cut once, to the bytes of what its watermark counts (\<open>live_bytes\<close>: rows of the lane for a heap, bytes
  for a log or a pack), and no other file is; the table stays one a program can reach; and to close again
  changes nothing.  A booked table of hashes counts nothing in its watermark, so its file is cut to
  nothing (\<open>booked_hash_is_wiped\<close>).
\<close>

theorem close_releases:
  assumes laws: "filemap_laws (fmap V)" and live: "\<not> gone (abufs s (cbuf c))"
    and r: "mapped (abufs s (cbuf c)) = Some r" and close: "abc_close V c s = (res, s')"
    and kind: "PROTO (family c) \<or> family c = ''PACK''"
    and count: "watermark (abufs s (cbuf c)) = js_nat n" "n < 2 ^ 31"
  shows "gone (abufs s' (cbuf c)) \<and> blen (abufs s' (cbuf c)) = 0 \<and> abc_close V c s' = (Inr (), s') \<and>
    (\<forall>i. i \<noteq> cbuf c \<longrightarrow> abufs s' i = abufs s i) \<and>
    (maps_reach (fmap V) (maps s) \<longrightarrow> maps_reach (fmap V) (maps s')) \<and>
    (res = Inr () \<longrightarrow> (\<forall>fd. want (maps s') fd \<noteq> Some (base r)) \<and>
       trims s' = trims s @ (case pathof (abufs s (cbuf c)) of
         Some p \<Rightarrow> if p = [] then [] else [(p, js_nat (live_bytes (family c) n))] | None \<Rightarrow> []))"
proof (cases res)
  case (Inl e)
  have "abufs s' = (abufs s)(cbuf c := (abufs s (cbuf c))\<lparr>gone := True, blen := 0, mapped := None\<rparr>) \<and> maps s' = maps s"
    using close live Inl
    by (auto simp: abc_close_def Let_def jbind_def on_buf_def io_truncate_def split: option.splits)
  then show ?thesis using Inl by (simp add: close_gone)
next
  case (Inr u)
  have u: "u = ()" by simp
  note c = close_Inr [OF close [unfolded Inr u] live]
  have "want (JABCioMunmap (fmap V) (base r) (maps s)) fd \<noteq> Some (base r)" for fd
    using laws by (simp add: JABCioMunmap_def filemap_laws_def)
  moreover have "(case trim_of c (abufs s (cbuf c)) of
        Some n \<Rightarrow> [(the (pathof (abufs s (cbuf c))), js_int n)] | None \<Rightarrow> []) =
      (case pathof (abufs s (cbuf c)) of
        Some p \<Rightarrow> if p = [] then [] else [(p, js_nat (live_bytes (family c) n))] | None \<Rightarrow> [])"
  proof (cases "pathof (abufs s (cbuf c))")
    case (Some p)
    show ?thesis
    proof (cases "p = []")
      case False
      with trim_live [OF kind Some False count] Some show ?thesis by (simp add: js_int_def js_nat_def)
    qed (use Some in \<open>simp add: trim_of_def\<close>)
  qed (simp add: trim_of_def)
  ultimately show ?thesis using c r by (simp add: close_gone reach_munmap)
qed

text \<open>A booked heap of 32-bit numbers with three of them in it: the file is cut to 12 bytes.\<close>

definition booked_heap :: cworld where
  "booked_heap = \<lparr>abufs = (\<lambda>_. \<lparr>mapped = Some \<lparr>kind = Slot, base = 4096, mlen = 400, ident = 259\<rparr>, blen = 400, gone = False,
       watermark = js_nat 3, pathof = Some ''x'', pinned = True\<rparr>),
     fresh = 1, maps = maps0\<lparr>want := [3 \<mapsto> 4096]\<rparr>, trims = []\<rparr>"

theorem close_releases_witness:
  "\<exists>s'. abc_close tiny_env \<lparr>family = ''HEAPu32'', cbuf = 0, coff = 0, elems = 100\<rparr> booked_heap = (Inr (), s') \<and>
     trims s' = [(''x'', js_int 12)] \<and> want (maps s') 3 \<noteq> Some 4096 \<and> gone (abufs s' 0)"
proof -
  let ?c = "\<lparr>family = ''HEAPu32'', cbuf = 0, coff = 0, elems = 100\<rparr>"
  obtain s' where s': "abc_close tiny_env ?c booked_heap = (Inr (), s')"
    using close_returns [of tiny_env ?c booked_heap] by (auto simp: tiny_env_def)
  have "filemap_laws (fmap tiny_env)"
    by (auto simp: filemap_laws_def tiny_env_def tiny_maps_def books_def)
  then show ?thesis
    using close_releases [of tiny_env booked_heap ?c _ "Inr ()" s' 3] s'
    by (simp add: booked_heap_def PROTO_def laneOf_def LANE_def live_bytes_def row_bytes_def js_int_def js_nat_def)
qed

text \<open>A booked table of hashes has neither lane nor size: its file is cut to nothing.\<close>

lemma booked_hash_is_wiped:
  assumes "take 4 (family c) = ''HASH''" and "pathof b = Some p" and "p \<noteq> []" and "watermark b = js_nat 0"
  shows "trim_of c b = Some 0"
  using assms to_int32_nat [of 0] by (simp add: trim_of_def lane_of_def Let_def)

text \<open>A truncation that fails leaves the mapping in its slot.\<close>

lemma failed_trim_leaks:
  "abc_close V c s = (Inl e, s') \<Longrightarrow> gone (abufs s' (cbuf c)) \<and> maps s' = maps s"
  using close_Inl by blast

text \<open>A container laid over the buffer of another takes its watermark away.\<close>

lemma over_resets_the_other:
  assumes "build f u s = (Inr c, s')" and "cbuf c0 = ubuf u"
  shows "watermark (abufs s' (cbuf c0)) = js_nat 0"
  using assms by (auto simp: build_def jbind_eq_Inr on_buf_def split: if_splits option.splits)

end
