(* ===== verification/Wrappers.thy ===== *)
theory Wrappers
  imports Cursors Containers
begin

text \<open>
  The rest of \<open>cont.c\<close>'s bundle, which marshals into leaves bound by name: the verbs of the hash and heap
  prototypes, the \<open>CFOLD\<close> weave, and the handle of \<open>abc.index\<close>.  \<open>call\<close> is \<open>abc[name](...)\<close>; the installs
  say which leaf a name is (\<open>all_modules_bound\<close>).
\<close>

type_synonym 'w by_name = "string \<Rightarrow> jsval list \<Rightarrow> ('w, jout) js"

section \<open>Hash tables and heaps\<close>

text \<open>A key is one argument, or two for a set of pairs; a map's \<open>put\<close> takes the value as well.\<close>

definition put_args :: "jslane \<Rightarrow> nat" where
  "put_args M = (if lane_blob M then 1 else if lane_set M \<or> lane_pair M then 2 else 1)"

definition key_args :: "jslane \<Rightarrow> nat" where
  "key_args M = (if lane_blob M then 1 else if lane_set M then 2 else 1)"

text \<open>JavaScript passes \<open>undefined\<close> for a missing argument and drops what is too many.\<close>

definition pad_args :: "nat \<Rightarrow> jsval list \<Rightarrow> jsval list" where
  "pad_args n as = take n (as @ replicate n JUndef)"

definition HASH_put :: "'w by_name \<Rightarrow> string \<Rightarrow> jslane \<Rightarrow> jsval \<Rightarrow> jsval list \<Rightarrow> ('w, jsval) js" where
  "HASH_put call l M this as =
     jbind (call (''_hash_'' @ l @ ''_put'') (this # pad_args (put_args M) as)) (\<lambda>_. jret this)"

definition HASH_get :: "'w by_name \<Rightarrow> string \<Rightarrow> jslane \<Rightarrow> jsval \<Rightarrow> jsval list \<Rightarrow> ('w, jout) js" where
  "HASH_get call l M this as = call (''_hash_'' @ l @ ''_get'') (this # pad_args (key_args M) as)"

definition HASH_has :: "'w by_name \<Rightarrow> string \<Rightarrow> jslane \<Rightarrow> jsval \<Rightarrow> jsval list \<Rightarrow> ('w, bool) js" where
  "HASH_has call l M this as = jbind (HASH_get call l M this as) (\<lambda>out. jret (out \<noteq> JVal JUndef))"

definition HASH_del :: "'w by_name \<Rightarrow> string \<Rightarrow> jslane \<Rightarrow> jsval \<Rightarrow> jsval list \<Rightarrow> ('w, jsval) js" where
  "HASH_del call l M this as =
     jbind (call (''_hash_'' @ l @ ''_del'') (this # pad_args (key_args M) as)) (\<lambda>_. jret this)"

text \<open>
  \<open>peek\<close>: nothing of an empty heap, else the first slot: a number, a pair, or a view of the first bytes
  (\<open>elem\<close> reads an element of the array).
\<close>

definition HEAP_peek :: "(nat \<Rightarrow> jsval) \<Rightarrow> jslane \<Rightarrow> jsnum \<Rightarrow> jout" where
  "HEAP_peek elem M n =
     (if n = NaN \<or> n = Fin 0 then JVal JUndef
      else if lane_blob M then JArr (map elem [0..<lane_w M])
      else if lane_pair M then JArr [elem 0, elem 1]
      else JVal (elem 0))"

definition HEAP_sort :: "'w by_name \<Rightarrow> string \<Rightarrow> jsval \<Rightarrow> jsnum \<Rightarrow> ('w, jsval) js" where
  "HEAP_sort call l this n = jbind (call (''_sort_'' @ l) [this, JNum n]) (\<lambda>_. jret this)"

section \<open>CFOLD\<close>

record 'w cfoldobj = "'w rlog" +
  cf_rev :: jsval       \<comment> \<open>\<open>_rev\<close>\<close>
  cf_cur :: jsval       \<comment> \<open>\<open>_cur\<close>\<close>
  cf_tok :: jout        \<comment> \<open>\<open>tok\<close>\<close>

definition leaf0 :: "'w by_name \<Rightarrow> string \<Rightarrow> (jsval \<Rightarrow> jsval \<Rightarrow> jsval list) \<Rightarrow> ('w cfoldobj, jout) js" where
  "leaf0 call name as = (\<lambda>s. on_lw (call name (as (self s) (or0 (wm s)))) s)"

definition CFOLD_size :: "'w by_name \<Rightarrow> ('w cfoldobj, jout) js" where
  "CFOLD_size call = leaf0 call ''_cfold_count'' (\<lambda>this n. [this, n])"

definition CFOLD_empty :: "'w by_name \<Rightarrow> ('w cfoldobj, bool) js" where
  "CFOLD_empty call = jbind (CFOLD_size call) (\<lambda>out. jret (out_num out = Fin 0))"

definition CFOLD_commits :: "'w by_name \<Rightarrow> ('w cfoldobj, jout) js" where
  "CFOLD_commits call = leaf0 call ''_cfold_commits'' (\<lambda>this n. [this, n])"

text \<open>The blob is bytes, a Buf's \<open>data ()\<close> if it is one.  The base is another weave (its value and its watermark), or none; an empty list of ancestors is a fresh array.\<close>

definition base_args :: "(jsval \<times> jsnum) option \<Rightarrow> jsval list" where
  "base_args old = (case old of None \<Rightarrow> [JNull, JNum (js_nat 0)] | Some (v, n) \<Rightarrow> [v, or0 n])"

definition CFOLD_fold :: "'w by_name \<Rightarrow> jsval \<Rightarrow> (jsval \<times> jsnum) option \<Rightarrow> jsval \<Rightarrow> jsval \<Rightarrow> jsval \<Rightarrow> jsval \<Rightarrow>
    ('w cfoldobj, unit) js" where
  "CFOLD_fold call EMPTY old blob ext hash ancestors =
     wm_by (\<lambda>this _. call ''_cfold_next'' (this # base_args old @
       [blob, ext, hash, if truthy ancestors then ancestors else EMPTY]))"

definition CFOLD_merge :: "'w by_name \<Rightarrow> jsval \<Rightarrow> jsval \<times> jsnum \<Rightarrow> jsval \<Rightarrow> jsval \<Rightarrow> ('w cfoldobj, unit) js" where
  "CFOLD_merge call EMPTY old hash ancestors =
     wm_by (\<lambda>this _. call ''_cfold_merge'' (this # base_args (Some old) @
       [hash, if truthy ancestors then ancestors else EMPTY]))"

definition CFOLD_alive :: "'w by_name \<Rightarrow> 'w cfoldobj bufapi \<Rightarrow> ('w cfoldobj, unit) js" where
  "CFOLD_alive call B = jbind (api_idle B) (\<lambda>idle.
     jbind (leaf0 call ''_cfold_alive'' (\<lambda>this n. [this, n, idle])) (\<lambda>out. api_fed B (out_num out)))"

definition CFOLD_produce :: "'w by_name \<Rightarrow> jsval \<Rightarrow> 'w cfoldobj bufapi \<Rightarrow> ('w cfoldobj, unit) js" where
  "CFOLD_produce call rv B = jbind (api_idle B) (\<lambda>idle.
     jbind (leaf0 call ''_cfold_produce'' (\<lambda>this n. [this, n, rv, idle])) (\<lambda>out. api_fed B (out_num out)))"

definition CFOLD_blame :: "'w by_name \<Rightarrow> jsnum \<Rightarrow> ('w cfoldobj, jout) js" where
  "CFOLD_blame call off = leaf0 call ''_cfold_blame'' (\<lambda>this n. [this, n, or0 off])"

text \<open>The token cursor: \<open>rewind\<close> arms an array of words, \<open>next\<close> steps it.\<close>

definition CFOLD_rewind :: "'w by_name \<Rightarrow> (jout \<Rightarrow> ('w, jsval) js) \<Rightarrow> jsval \<Rightarrow> ('w cfoldobj, unit) js" where
  "CFOLD_rewind call new_Uint32Array rv =
     jbind (jput (\<lambda>s. s\<lparr>cf_rev := rv\<rparr>)) (\<lambda>_.
     jbind (leaf0 call ''_cfold_itermem'' (\<lambda>this n. [this, n])) (\<lambda>out.
     jbind (on_lw (new_Uint32Array out)) (\<lambda>cur.
     jput (\<lambda>s. s\<lparr>cf_cur := cur\<rparr>))))"

definition CFOLD_next :: "'w by_name \<Rightarrow> ('w cfoldobj, bool) js" where
  "CFOLD_next call = (\<lambda>s.
     jbind (leaf0 call ''_cfold_step'' (\<lambda>this n. [this, n, cf_rev s, cf_cur s])) (\<lambda>t.
     if (case t of JVal v \<Rightarrow> \<not> truthy v | _ \<Rightarrow> False) then jret False
     else jbind (jput (\<lambda>s. s\<lparr>cf_tok := t\<rparr>)) (\<lambda>_. jret True)) s)"

text \<open>A diff is appended to a \<open>HUNK\<close> container (its value and its watermark), whose write head it moves.\<close>

definition or_empty :: "jsval \<Rightarrow> jsval" where "or_empty v = (if truthy v then v else JStr '''')"

definition CFOLD_emitDiff :: "'w by_name \<Rightarrow> jsval \<Rightarrow> jsval \<Rightarrow> jsval \<Rightarrow> jsval \<Rightarrow> jsval \<times> jsnum \<Rightarrow> ('w cfoldobj, jsval \<times> jsnum) js" where
  "CFOLD_emitDiff call frm to nm navver hunk =
     jbind (leaf0 call ''_cfold_emitdiff'' (\<lambda>this n. [this, n, or_empty nm, or_empty navver, frm, to, fst hunk, or0 (snd hunk)])) (\<lambda>out.
     jret (fst hunk, out_num out))"

definition CFOLD_emitFull :: "'w by_name \<Rightarrow> jsval \<Rightarrow> jsval \<Rightarrow> jsval \<Rightarrow> jsval \<Rightarrow> jsval \<Rightarrow> jsval \<times> jsnum \<Rightarrow>
    ('w cfoldobj, jsval \<times> jsnum) js" where
  "CFOLD_emitFull call frm to nm scheme navver hunk =
     jbind (leaf0 call ''_cfold_emitfull'' (\<lambda>this n. [this, n, or_empty nm, or_empty scheme, or_empty navver, frm, to,
       fst hunk, or0 (snd hunk)])) (\<lambda>out.
     jret (fst hunk, out_num out))"

section \<open>Index handles\<close>

record idxlane =
  ix_pair :: bool
  ix_big :: bool
  ix_bytes :: nat

definition IDX :: "string \<Rightarrow> idxlane option" where
  "IDX l = map_of [
     (''kv64'', \<lparr>ix_pair = True, ix_big = True, ix_bytes = 8\<rparr>),
     (''wh128'', \<lparr>ix_pair = True, ix_big = True, ix_bytes = 8\<rparr>),
     (''u64'', \<lparr>ix_pair = False, ix_big = True, ix_bytes = 8\<rparr>),
     (''u32'', \<lparr>ix_pair = False, ix_big = False, ix_bytes = 4\<rparr>)] l"

record idxobj =
  ix_lane :: string
  ix_dir :: jsval
  ix_ext :: jsval
  ix_h :: jsval
  ix_mem :: jout
  ix_durable :: bool

text \<open>\<open>abc["_pup_" + lane + "_" + verb]\<close>.\<close>

definition pup_name :: "string \<Rightarrow> string \<Rightarrow> string" where
  "pup_name l verb = ''_pup_'' @ l @ ''_'' @ verb"

record idxopts =
  o_dir :: jsval
  o_ext :: jsval
  o_mode :: jsval
  o_mem :: jsval
  o_durable :: jsval

definition abc_index :: "'w by_name \<Rightarrow> (jsval \<Rightarrow> ('w, unit) js) \<Rightarrow> (jout \<Rightarrow> jsval) \<Rightarrow> string \<Rightarrow> idxopts \<Rightarrow> ('w, idxobj) js" where
  "abc_index call io_mkdir handle l opts =
     (case IDX l of
        None \<Rightarrow> jthrow (ThrowStr (''abc.index: unsupported lane '' @ l @ '' (u32 | u64 | kv64 | wh128)''))
      | Some M \<Rightarrow>
          if o_dir opts = JUndef \<or> o_dir opts = JNull then jthrow (ThrowStr ''abc.index: an index needs a dir'')
          else
            (let ext = (if truthy (o_ext opts) then o_ext opts else JStr (CHR ''.'' # l)) in
             jbind (io_mkdir (o_dir opts)) (\<lambda>_.
             jbind (call (pup_name l ''open'') [o_dir opts, ext,
                 if truthy (o_mode opts) then o_mode opts else JStr ''rw'',
                 if truthy (o_mem opts) then o_mem opts else JNum (js_nat 0)]) (\<lambda>h.
             jbind (call ''_pup_mem'' [handle h]) (\<lambda>mem.
             jret \<lparr>ix_lane = l, ix_dir = o_dir opts, ix_ext = ext, ix_h = handle h, ix_mem = mem,
               ix_durable = (o_durable opts \<noteq> JBool False)\<rparr>)))))"

text \<open>A number in the lane's own domain: a BigInt, or as it comes.\<close>

definition in_lane :: "'w jsenv \<Rightarrow> string \<Rightarrow> jsval \<Rightarrow> ('w, jsval) js" where
  "in_lane J l v = (case IDX l of
     Some M \<Rightarrow> if ix_big M then jbind (BigInt J v) (\<lambda>i. jret (JBig i)) else jret v
   | None \<Rightarrow> jret v)"

definition paired :: "string \<Rightarrow> bool" where
  "paired l \<longleftrightarrow> (case IDX l of Some M \<Rightarrow> ix_pair M | None \<Rightarrow> False)"

definition idx_put :: "'w by_name \<Rightarrow> 'w jsenv \<Rightarrow> idxobj \<Rightarrow> jsval \<Rightarrow> jsval \<Rightarrow> ('w, unit) js" where
  "idx_put call J x k v =
     jbind (in_lane J (ix_lane x) k) (\<lambda>k'.
     if paired (ix_lane x)
     then jbind (in_lane J (ix_lane x) v) (\<lambda>v'.
          jbind (call (pup_name (ix_lane x) ''put'') [ix_h x, ix_dir x, ix_ext x, k', v']) (\<lambda>_. jret ()))
     else jbind (call (pup_name (ix_lane x) ''put'') [ix_h x, ix_dir x, ix_ext x, k']) (\<lambda>_. jret ()))"

text \<open>A view's elements in twos, an odd one at the end left out; or one by one.\<close>

fun idx_feed :: "'w by_name \<Rightarrow> 'w jsenv \<Rightarrow> idxobj \<Rightarrow> jsval list \<Rightarrow> ('w, unit) js" where
  "idx_feed call J x [] = jret ()"
| "idx_feed call J x [v] = (if paired (ix_lane x) then jret () else idx_put call J x v JUndef)"
| "idx_feed call J x (v # v' # vs) =
     (if paired (ix_lane x) then jbind (idx_put call J x v v') (\<lambda>_. idx_feed call J x vs)
      else jbind (idx_put call J x v JUndef) (\<lambda>_. idx_feed call J x (v' # vs)))"

definition idx_commit :: "'w by_name \<Rightarrow> idxobj \<Rightarrow> jsval \<Rightarrow> ('w, unit) js" where
  "idx_commit call x durable =
     jbind (call (pup_name (ix_lane x) ''commit'') [ix_h x, ix_dir x, ix_ext x,
       JBool (if durable = JUndef then ix_durable x else truthy durable)]) (\<lambda>_. jret ())"

definition idx_get :: "'w by_name \<Rightarrow> 'w jsenv \<Rightarrow> idxobj \<Rightarrow> jsval \<Rightarrow> ('w, jout) js" where
  "idx_get call J x k = jbind (in_lane J (ix_lane x) k) (\<lambda>k'. call (pup_name (ix_lane x) ''get'') [ix_h x, k'])"

definition idx_range :: "'w by_name \<Rightarrow> 'w jsenv \<Rightarrow> idxobj \<Rightarrow> jsval \<Rightarrow> jsval \<Rightarrow> jsval \<Rightarrow> ('w, unit) js" where
  "idx_range call J x lo hi cb =
     jbind (in_lane J (ix_lane x) lo) (\<lambda>lo'. jbind (in_lane J (ix_lane x) hi) (\<lambda>hi'.
     jbind (call (pup_name (ix_lane x) ''range'') [ix_h x, lo', hi', cb]) (\<lambda>_. jret ())))"

text \<open>
  \<open>prefix (p, lowBits)\<close>.  The width is a BigInt shift on the wide lanes (a shift by a negative count is 0),
  and a power of two, which may be a fraction, on \<open>u32\<close>.
\<close>

definition block_width :: "int \<Rightarrow> int" where
  "block_width b = (if b < 0 then 0 else 2 ^ nat b)"

definition pow2_num :: "int \<Rightarrow> rat" where
  "pow2_num b = (if b < 0 then 1 / 2 ^ nat (- b) else 2 ^ nat b)"

definition idx_prefix :: "'w by_name \<Rightarrow> 'w jsenv \<Rightarrow> idxobj \<Rightarrow> jsval \<Rightarrow> jsnum \<Rightarrow> jsval \<Rightarrow> ('w, unit) js" where
  "idx_prefix call J x p lowBits cb =
     (let b = to_int32 lowBits in
      case IDX (ix_lane x) of
        Some M \<Rightarrow>
          if ix_big M
          then jbind (BigInt J p) (\<lambda>lo. idx_range call J x (JBig lo) (JBig (lo + block_width b)) cb)
          else idx_range call J x p (case p of JNum d \<Rightarrow> JNum (num_add d (Fin (pow2_num b))) | v \<Rightarrow> v) cb
      | None \<Rightarrow> jret ())"

text \<open>The pull cursor: the state is the handle's, the object shows the last row.\<close>

record idxcur =
  cur_key :: jsval
  cur_val :: jsval
  cur_entry :: jout

definition idx_seek :: "'w by_name \<Rightarrow> 'w jsenv \<Rightarrow> idxobj \<Rightarrow> jsval \<Rightarrow> ('w, idxcur) js" where
  "idx_seek call J x k =
     jbind (in_lane J (ix_lane x) k) (\<lambda>k'.
     jbind (call (pup_name (ix_lane x) ''seek'') [ix_h x, k']) (\<lambda>_.
     jret \<lparr>cur_key = JUndef, cur_val = JUndef, cur_entry = JVal JUndef\<rparr>))"

definition idxcur_next :: "'w by_name \<Rightarrow> idxobj \<Rightarrow> idxcur \<Rightarrow> ('w, bool \<times> idxcur) js" where
  "idxcur_next call x c =
     jbind (call (pup_name (ix_lane x) ''next'') [ix_h x]) (\<lambda>e.
     jret (if e = JVal JUndef then (False, \<lparr>cur_key = JUndef, cur_val = JUndef, cur_entry = JVal JUndef\<rparr>)
           else (case e of
             JArr (k # v # _) \<Rightarrow> if paired (ix_lane x) then (True, \<lparr>cur_key = k, cur_val = v, cur_entry = e\<rparr>)
               else (True, \<lparr>cur_key = JUndef, cur_val = JUndef, cur_entry = e\<rparr>)
           | JVal v \<Rightarrow> (True, \<lparr>cur_key = v, cur_val = v, cur_entry = e\<rparr>)
           | _ \<Rightarrow> (True, \<lparr>cur_key = JUndef, cur_val = JUndef, cur_entry = e\<rparr>))))"

definition idx_count :: "'w by_name \<Rightarrow> idxobj \<Rightarrow> ('w, jout) js" where
  "idx_count call x = call (pup_name (ix_lane x) ''count'') [ix_h x]"

text \<open>A run as a view of whole elements (\<open>bytes_of_view\<close> is the length of the byte array the leaf answered with).\<close>

definition idx_run :: "'w by_name \<Rightarrow> (jout \<Rightarrow> nat) \<Rightarrow> idxobj \<Rightarrow> jsval \<Rightarrow> ('w, jout \<times> nat) js" where
  "idx_run call bytes_of_view x i =
     jbind (call (pup_name (ix_lane x) ''run'') [ix_h x, i]) (\<lambda>u.
     jret (u, bytes_of_view u div (case IDX (ix_lane x) of Some M \<Rightarrow> ix_bytes M | None \<Rightarrow> 1)))"

definition idx_drop :: "'w by_name \<Rightarrow> idxobj \<Rightarrow> jsval \<Rightarrow> ('w, unit) js" where
  "idx_drop call x i =
     jbind (call (pup_name (ix_lane x) ''drop'') ([ix_h x, ix_dir x, ix_ext x] @ (if i = JUndef then [] else [i]))) (\<lambda>_.
     jret ())"

definition idx_close :: "'w by_name \<Rightarrow> idxobj \<Rightarrow> ('w, unit) js" where
  "idx_close call x = jbind (call (pup_name (ix_lane x) ''close'') [ix_h x]) (\<lambda>_. jret ())"

section \<open>What the wrappers get wrong\<close>

text \<open>
  The block that ends at the top of the 64-bit range has the bound \<open>2 ^ 64\<close>, which the leaf reads as 0:
  an empty range.
\<close>

lemma top_block_is_empty:
  "IDX (ix_lane x) = Some M \<Longrightarrow> ix_big M \<Longrightarrow> BigInt J p w = (Inr (2 ^ 64 - 2 ^ n), w') \<Longrightarrow> n < 31 \<Longrightarrow>
   idx_prefix call J x p (js_nat n) cb w = idx_range call J x (JBig (2 ^ 64 - 2 ^ n)) (JBig (2 ^ 64)) cb w' \<and>
   (word_of_int (2 ^ 64) :: u64) = 0"
proof -
  assume "IDX (ix_lane x) = Some M" "ix_big M" "BigInt J p w = (Inr (2 ^ 64 - 2 ^ n), w')" "n < 31"
  moreover have "to_int32 (js_nat n) = int n" using \<open>n < 31\<close> by (intro to_int32_nat) simp
  ultimately show ?thesis by (simp add: idx_prefix_def Let_def block_width_def jbind_def)
qed

end
