(* ===== verification/Codec.thy ===== *)
theory Codec
  imports Logs "HOL-Library.Signed_Division"
begin

text \<open>
  \<open>codec.c\<close> and \<open>uri.c\<close>: the byte transforms.  The transforms themselves (hex, the digests,
  RON64, the URI grammar) are libabc's and libdog's; what is modelled is how their input is
  taken from JavaScript, in which scratch it is copied, where it is cut, and what comes back.
\<close>

section \<open>codec.c\<close>

text \<open>
  A call that writes is given the room it has.  \<open>'t\<close> is the calendar time of libc (\<open>struct tm\<close>).
\<close>

record ('w, 't) codeclib =
  HEXFeedSome :: "u8 list \<Rightarrow> nat \<Rightarrow> u8 list"
  HEXValid :: "u8 list \<Rightarrow> bool"
  HEXDrainSome :: "u8 list \<Rightarrow> nat \<Rightarrow> u8 list"
  SHA1Sum :: "u8 list \<Rightarrow> u8 list"
  SHASum :: "u8 list \<Rightarrow> u8 list"
  cd_alloc :: "nat \<Rightarrow> 'w \<Rightarrow> bool"
  RON_feed :: "u64 \<Rightarrow> nat \<Rightarrow> u8 list"
  RON_drain :: "u8 list \<Rightarrow> ok64 \<times> u64"     \<comment> \<open>the value is 0 until something sets it\<close>
  RONNow :: "'w \<Rightarrow> u64"
  localtime :: "int \<Rightarrow> 't"
  RONOfTime :: "'t \<Rightarrow> u32 \<Rightarrow> ok64 \<times> u64"
  RONToTime :: "u64 \<Rightarrow> ok64 \<times> 't"
  mktime :: "'t \<Rightarrow> int"               \<comment> \<open>with \<open>tm_isdst = -1\<close>\<close>
  time_now :: "'w \<Rightarrow> int"
  DOG_date :: "int \<Rightarrow> int \<Rightarrow> nat \<Rightarrow> ok64 \<times> u8 list"

text \<open>\<open>JABCStrOfSlice\<close>: every byte of the slice.\<close>

definition JABCStrOfSlice :: "u8 list \<Rightarrow> jsval" where
  "JABCStrOfSlice s = JStr (string_of s)"

definition JABChexEncode :: "'w engine \<Rightarrow> abc \<Rightarrow> 'w memory \<Rightarrow> ('w, 't) codeclib \<Rightarrow> jsval list \<Rightarrow> ('w, jout) js" where
  "JABChexEncode E A M L argv =
     need 1 ''hex.encode(Uint8Array)'' argv
     (jbind (JABCDataOf E A (argv ! 0)) (\<lambda>binb.
      let n = data_len binb in
      jbind (jget (cd_alloc L (n * 2 + 1))) (\<lambda>ok.
      if \<not> ok then jthrow (ThrowError ''hex.encode: oom'')
      else jbind (data_of M binb) (\<lambda>bin. jret (JVal (JABCStrOfSlice (HEXFeedSome L bin (n * 2))))))))"

text \<open>What does not fit the given buffer is left out.\<close>

definition JABChexEncodeInto :: "'w engine \<Rightarrow> abc \<Rightarrow> 'w memory \<Rightarrow> ('w, 't) codeclib \<Rightarrow> jsval list \<Rightarrow> ('w, jout) js" where
  "JABChexEncodeInto E A M L argv =
     need 2 ''hex.encodeInto(src, dst)'' argv
     (jbind (JABCDataOf E A (argv ! 0)) (\<lambda>binb.
      jbind (JABCIdleOf E A (argv ! 1)) (\<lambda>dstb.
      jbind (data_of M binb) (\<lambda>bin.
      jbind (into_idle M dstb (HEXFeedSome L bin (idle_len dstb))) (\<lambda>dst. js_num (data_len dst))))))"

definition JABChexDecode :: "('w, 't) codeclib \<Rightarrow> jsval list \<Rightarrow> ('w, jout) js" where
  "JABChexDecode L argv =
     (case argv of
        JStr s # _ \<Rightarrow>
          (let hex = bytes_of s; n = length hex div 2 in
           if odd (length hex) \<or> \<not> HEXValid L hex then jthrow (ThrowError ''hex.decode: bad hex'')
           else jbind (jget (cd_alloc L (if n = 0 then 1 else n))) (\<lambda>ok.
                if \<not> ok then jthrow (ThrowError ''hex.decode: oom'')
                else jret (JBytes (if n = 0 then [] else HEXDrainSome L hex n))))
      | _ \<Rightarrow> jthrow (ThrowError ''hex.decode(string)''))"

definition JABCsha1 :: "'w engine \<Rightarrow> abc \<Rightarrow> 'w memory \<Rightarrow> ('w, 't) codeclib \<Rightarrow> jsval list \<Rightarrow> ('w, jout) js" where
  "JABCsha1 E A M L argv =
     need 1 ''sha1(Uint8Array)'' argv
     (jbind (JABCDataOf E A (argv ! 0)) (\<lambda>binb.
      jbind (data_of M binb) (\<lambda>bin. jret (JBytes (SHA1Sum L bin)))))"

definition JABCsha256 :: "'w engine \<Rightarrow> abc \<Rightarrow> 'w memory \<Rightarrow> ('w, 't) codeclib \<Rightarrow> jsval list \<Rightarrow> ('w, jout) js" where
  "JABCsha256 E A M L argv =
     need 1 ''sha256(Uint8Array)'' argv
     (jbind (JABCDataOf E A (argv ! 0)) (\<lambda>binb.
      jbind (data_of M binb) (\<lambda>bin. jret (JBytes (SHASum L bin)))))"

definition JABCronEncode :: "'w engine \<Rightarrow> ('w, 't) codeclib \<Rightarrow> jsval list \<Rightarrow> ('w, jout) js" where
  "JABCronEncode E L argv =
     need 1 ''ron.encode(BigInt)'' argv
     (jbind (JABCBigU64Of E (argv ! 0)) (\<lambda>v. jret (JVal (JABCStrOfSlice (RON_feed L v 16)))))"

text \<open>At most 31 bytes of the text are looked at, and the drain's code is not.\<close>

definition JABCronDecode :: "('w, 't) codeclib \<Rightarrow> jsval list \<Rightarrow> ('w, jout) js" where
  "JABCronDecode L argv =
     (case argv of
        JStr s # _ \<Rightarrow> jret (JVal (JABCBigU64 (snd (RON_drain L (take 31 (bytes_of s))))))
      | _ \<Rightarrow> jthrow (ThrowError ''ron.decode(string)''))"

definition JABCronNow :: "('w, 't) codeclib \<Rightarrow> jsval list \<Rightarrow> ('w, jout) js" where
  "JABCronNow L argv = jbind (jget (RONNow L)) (\<lambda>v. jret (JVal (JABCBigU64 v)))"

text \<open>C's division truncates; the milliseconds are made a floor modulus, the seconds are not.\<close>

definition of_ms :: "int \<Rightarrow> int \<times> u32" where
  "of_ms msi = (msi sdiv 1000, word_of_int ((msi smod 1000 + 1000) smod 1000))"

definition JABCronOfMs :: "'w engine \<Rightarrow> ('w, 't) codeclib \<Rightarrow> jsval list \<Rightarrow> ('w, jout) js" where
  "JABCronOfMs E L argv =
     need 1 ''ron._ofMs(ms)'' argv
     (jbind (to_number E (argv ! 0)) (\<lambda>msd.
      jbind (cast_or_undef (- (2 ^ 63)) (2 ^ 63 - 1) msd) (\<lambda>msi.
      case of_ms msi of (sec, ms) \<Rightarrow>
        (case RONOfTime L (localtime L sec) ms of (o', r) \<Rightarrow>
           if o' \<noteq> OK then jthrow (ThrowError ''ron._ofMs: out of range'')
           else jret (JVal (JABCBigU64 r))))))"

definition JABCronDate :: "'w engine \<Rightarrow> ('w, 't) codeclib \<Rightarrow> jsval list \<Rightarrow> ('w, jout) js" where
  "JABCronDate E L argv =
     need 1 ''ron._date(BigInt)'' argv
     (jbind (JABCBigU64Of E (argv ! 0)) (\<lambda>v.
      jbind (if v = 0 then jret 0
             else case RONToTime L v of (o', tm) \<Rightarrow>
               if o' \<noteq> OK then jthrow (ThrowError ''ron._date: bad ron60'')
               else let s = mktime L tm in jret (if s = - 1 then 0 else s)) (\<lambda>secs.
      jbind (jget (time_now L)) (\<lambda>now.
      case DOG_date L secs now 16 of (o', txt) \<Rightarrow>
        if o' \<noteq> OK then jthrow (ThrowError ''ron._date: format failed'')
        else jret (JVal (JABCStrOfSlice txt))))))"

text \<open>
  The bundle: \<open>ron.of\<close> takes \<open>getTime ()\<close> of a \<open>Date\<close>, which is NaN for one that is not valid, or what
  \<open>Number\<close> makes of its argument.
\<close>

definition ron_of :: "'w engine \<Rightarrow> ('w, 't) codeclib \<Rightarrow> jsnum \<Rightarrow> ('w, jout) js" where
  "ron_of E L d = JABCronOfMs E L [JNum d]"

section \<open>uri.c\<close>

text \<open>The eight components of a parsed URI; \<open>None\<close> is a component whose sigil never appeared.\<close>

record uri =
  u_scheme :: "u8 list option"
  u_authority :: "u8 list option"
  u_user :: "u8 list option"
  u_host :: "u8 list option"
  u_port :: "u8 list option"
  u_path :: "u8 list option"
  u_query :: "u8 list option"
  u_fragment :: "u8 list option"

record urilib =
  URILexer :: "u8 list \<Rightarrow> ok64 \<times> uri"
  URIMake :: "nat \<Rightarrow> (u8 list option) list \<Rightarrow> ok64 \<times> u8 list"
  URIEsc :: "nat \<Rightarrow> u8 list option \<Rightarrow> ok64 \<times> u8 list"
  URIUnesc :: "nat \<Rightarrow> u8 list option \<Rightarrow> ok64 \<times> u8 list"

definition JABCSetComp :: "string \<Rightarrow> u8 list option \<Rightarrow> string \<times> jsval" where
  "JABCSetComp name s = (name, case s of None \<Rightarrow> JUndef | Some bs \<Rightarrow> JABCStrOfSlice bs)"

text \<open>A string argument cut to the scratch less one byte; anything else is absent.\<close>

definition JABCArgSlice :: "nat \<Rightarrow> jsval \<Rightarrow> u8 list option" where
  "JABCArgSlice room v = (case v of JStr s \<Rightarrow> Some (take (room - 1) (bytes_of s)) | _ \<Rightarrow> None)"

definition JABCuriParse :: "urilib \<Rightarrow> jsval list \<Rightarrow> ('w, jout) js" where
  "JABCuriParse U argv =
     (case argv of
        JStr s # _ \<Rightarrow>
          (case URILexer U (take 4095 (bytes_of s)) of (o', u) \<Rightarrow>
             if o' \<noteq> OK then jthrow (ThrowError ''uri.parse: malformed'')
             else jret (JFields
               [JABCSetComp ''scheme'' (u_scheme u), JABCSetComp ''authority'' (u_authority u),
                JABCSetComp ''user'' (u_user u), JABCSetComp ''host'' (u_host u),
                JABCSetComp ''port'' (u_port u), JABCSetComp ''path'' (u_path u),
                JABCSetComp ''query'' (u_query u), JABCSetComp ''fragment'' (u_fragment u)]))
      | _ \<Rightarrow> jthrow (ThrowError ''uri.parse(string)''))"

definition nth_arg :: "jsval list \<Rightarrow> nat \<Rightarrow> jsval" where
  "nth_arg argv i = (if i < length argv then argv ! i else JUndef)"

text \<open>A call of the library into a scratch of 4096 bytes, as a string or as the leaf's message.\<close>

definition text_or :: "string \<Rightarrow> ok64 \<times> u8 list \<Rightarrow> ('w, jout) js" where
  "text_or msg r = (if fst r \<noteq> OK then jthrow (ThrowError msg) else jret (JVal (JABCStrOfSlice (snd r))))"

definition JABCuriMake :: "urilib \<Rightarrow> jsval list \<Rightarrow> ('w, jout) js" where
  "JABCuriMake U argv =
     text_or ''uri.make: failed'' (URIMake U 4096
       [JABCArgSlice 256 (nth_arg argv 0), JABCArgSlice 256 (nth_arg argv 1),
        JABCArgSlice 1024 (nth_arg argv 2), JABCArgSlice 512 (nth_arg argv 3),
        JABCArgSlice 512 (nth_arg argv 4)])"

definition JABCuriEsc :: "urilib \<Rightarrow> jsval list \<Rightarrow> ('w, jout) js" where
  "JABCuriEsc U argv =
     need 1 ''uri.escape(string)'' argv
     (text_or ''uri.escape: failed'' (URIEsc U 4096 (JABCArgSlice 2048 (argv ! 0))))"

definition JABCuriUnesc :: "urilib \<Rightarrow> jsval list \<Rightarrow> ('w, jout) js" where
  "JABCuriUnesc U argv =
     need 1 ''uri.unescape(string)'' argv
     (text_or ''uri.unescape: failed'' (URIUnesc U 4096 (JABCArgSlice 4096 (argv ! 0))))"

text \<open>The class \<open>URI\<close>: the text it was made of and the components of the (possibly cut) text.\<close>

record uri_obj =
  href :: string
  parts :: "(string \<times> jsval) list"

definition URI_new :: "urilib \<Rightarrow> string \<Rightarrow> ('w, uri_obj) js" where
  "URI_new U text = jbind (JABCuriParse U [JStr text]) (\<lambda>p.
     jret \<lparr>href = text, parts = (case p of JFields fs \<Rightarrow> fs | _ \<Rightarrow> [])\<rparr>)"

definition URI_make :: "urilib \<Rightarrow> jsval \<Rightarrow> jsval \<Rightarrow> jsval \<Rightarrow> jsval \<Rightarrow> jsval \<Rightarrow> ('w, jout) js" where
  "URI_make U scheme authority path query fragment =
     JABCuriMake U [scheme, authority, path, query, fragment]"

definition URI_escape :: "urilib \<Rightarrow> string \<Rightarrow> ('w, jout) js" where
  "URI_escape U s = JABCuriEsc U [JStr s]"

definition URI_unescape :: "urilib \<Rightarrow> string \<Rightarrow> ('w, jout) js" where
  "URI_unescape U s = JABCuriUnesc U [JStr s]"

definition URI_toString :: "uri_obj \<Rightarrow> string" where
  "URI_toString u = href u"

section \<open>Lemmas\<close>

text \<open>Before 1970 a time that is no whole second comes out a second late: here -1.5 s as -0.5 s.\<close>

definition ms_of_pair :: "int \<times> u32 \<Rightarrow> int" where
  "ms_of_pair p = fst p * 1000 + uint (snd p)"

lemma of_ms_after_epoch: "0 \<le> msi \<Longrightarrow> ms_of_pair (of_ms msi) = msi"
proof -
  assume m: "0 \<le> msi"
  have d: "msi sdiv 1000 = msi div 1000" and r: "(msi smod 1000 + 1000) smod 1000 = msi mod 1000"
    using m by (simp_all add: signed_divide_int_def signed_modulo_int_def sgn_if)
  have "uint (word_of_int (msi mod 1000) :: u32) = msi mod 1000"
    by (simp add: uint_word_of_int)
  then show ?thesis by (simp add: ms_of_pair_def of_ms_def d r)
qed

lemma before_epoch_is_late: "ms_of_pair (of_ms (- 1500)) = - 500"
  by (simp add: ms_of_pair_def of_ms_def signed_divide_int_def signed_modulo_int_def)

lemma invalid_date_undefined:
  "num_faithful E \<Longrightarrow> ron_of E L NaN w = (Inl CUndef, w)"
  by (simp add: ron_of_def JABCronOfMs_def num_faithful_def cast_or_undef_def c_cast_def)

text \<open>Two texts that differ only behind the cut make the same URI.\<close>

lemma make_cuts_the_path:
  assumes "take 1023 p = take 1023 q"
  shows "JABCuriMake U [JUndef, JUndef, JStr p] = JABCuriMake U [JUndef, JUndef, JStr q]"
proof -
  have "take 1023 (bytes_of p) = take 1023 (bytes_of q)"
    using assms by (simp add: bytes_of_def take_map)
  then show ?thesis by (simp add: JABCuriMake_def nth_arg_def JABCArgSlice_def)
qed

lemma ron_decode_cuts:
  assumes "take 31 p = take 31 q"
  shows "JABCronDecode L [JStr p] = JABCronDecode L [JStr q]"
proof -
  have "take 31 (bytes_of p) = take 31 (bytes_of q)"
    using assms by (simp add: bytes_of_def take_map)
  then show ?thesis by (simp add: JABCronDecode_def)
qed

end
