(* ===== verification/Zip.thy ===== *)
theory Zip
  imports Codec
begin

text \<open>
  \<open>zip.c\<close>: zlib over byte regions and the size-and-grow sugar.  libdog's \<open>ZINF\<close> is the record
  \<open>zinflib\<close>; what the comment of the file says of it is \<open>zinf_law\<close>: where the output does not fit, it
  wraps around the region, still says \<open>OK\<close>, and reports nothing produced.  The leaf tells that from an
  empty output by a sentinel in the first byte.
\<close>

section \<open>The leaves\<close>

record zinflib =
  ZINFDeflate :: "u8 list \<Rightarrow> nat \<Rightarrow> ok64 \<times> u8 list"
  ZINFInflate :: "u8 list \<Rightarrow> nat \<Rightarrow> (ok64 \<times> nat) \<times> u8 list"
    \<comment> \<open>the code and the count reported; the bytes written at the head of the region\<close>

definition zip_views :: "'w engine \<Rightarrow> abc \<Rightarrow> string \<Rightarrow> jsval list \<Rightarrow> ('w, u8b \<times> u8b) js" where
  "zip_views E A usage argv =
     need 3 usage argv
     (jbind (JABCu64Of E (argv ! 2)) (\<lambda>off.
      jbind (JABCDataOf E A (argv ! 0)) (\<lambda>srcb.
      jbind (JABCIdleOf E A (argv ! 1)) (\<lambda>outb.
      jbind (JABCBufFedAt A outb off) (\<lambda>outb. jret (srcb, outb))))))"

definition JABCzipDeflate :: "'w engine \<Rightarrow> abc \<Rightarrow> 'w memory \<Rightarrow> zinflib \<Rightarrow> jsval list \<Rightarrow> ('w, jout) js" where
  "JABCzipDeflate E A M Z argv =
     jbind (zip_views E A ''zip._deflate(src, out, outOff)'' argv) (\<lambda>(srcb, outb).
     jbind (data_of M srcb) (\<lambda>src.
     jbind (emit_or M ''zip.deflate: failed (out too small?)'' outb (ZINFDeflate Z src (idle_len outb))) (\<lambda>outb'.
     js_num (data_len outb' - data_len outb))))"

text \<open>The sentinel differs from the byte that was there; what remains of it decides.\<close>

definition sentinel :: "u8 list \<Rightarrow> u8" where "sentinel out = xor (hd out) 0xa5"

definition inflated :: "nat \<Rightarrow> u8 \<Rightarrow> (ok64 \<times> nat) \<Rightarrow> u8 list \<Rightarrow> exn + nat" where
  "inflated room s r out =
     (if fst r \<noteq> OK then Inl (ThrowError ''zip.inflate: bad zlib stream'')
      else if snd r = 0 \<and> room \<noteq> 0 \<and> hd out \<noteq> s
      then Inl (ThrowError ''zip.inflate: NOROOM (out too small)'')
      else Inr (snd r))"

definition JABCzipInflate :: "'w engine \<Rightarrow> abc \<Rightarrow> 'w memory \<Rightarrow> zinflib \<Rightarrow> jsval list \<Rightarrow> ('w, jout) js" where
  "JABCzipInflate E A M Z argv =
     jbind (zip_views E A ''zip._inflate(src, out, outOff)'' argv) (\<lambda>(srcb, outb).
     let room = idle_len outb; pos = b2 outb in
     jbind (jget (\<lambda>w. sentinel (bytes_at M w pos 1))) (\<lambda>s.
     jbind (if room \<noteq> 0 then jput (poke M pos [s]) else jret ()) (\<lambda>_.
     jbind (data_of M srcb) (\<lambda>src.
     case ZINFInflate Z src room of (r, written) \<Rightarrow>
       jbind (jput (poke M pos written)) (\<lambda>_.
       jbind (jget (\<lambda>w. bytes_at M w pos 1)) (\<lambda>head.
       jbind (jlift (inflated room s r head)) js_num))))))"

section \<open>The sugar\<close>

text \<open>
  The leaf on an array of its own, which cannot overlap the source: what it answers and what the
  array holds after it.
\<close>

definition inflate_into :: "zinflib \<Rightarrow> u8 list \<Rightarrow> u8 list \<Rightarrow> (exn + nat) \<times> u8 list" where
  "inflate_into Z src out =
     (let s = sentinel out; marked = (if out = [] then [] else s # tl out) in
      case ZINFInflate Z src (length out) of (r, written) \<Rightarrow>
        let after = splice_at marked 0 written in (inflated (length out) s r after, after))"

definition MAX_OUT :: nat where "MAX_OUT = 2 ^ 26"

definition cap0 :: "nat \<Rightarrow> exn + nat" where
  "cap0 n = (if MAX_OUT < n then Inl (ThrowStr ''zip.inflate: output would exceed 64 MiB'') else Inr n)"

text \<open>\<open>zip.inflate (bytes)\<close>: eight tries, each in a fresh array twice as long as the last.\<close>

primrec inflate_try :: "nat \<Rightarrow> zinflib \<Rightarrow> u8 list \<Rightarrow> nat \<Rightarrow> exn + u8 list" where
  "inflate_try 0 Z src n = Inl CUndef"
| "inflate_try (Suc tries) Z src n =
     (case inflate_into Z src (replicate n 0) of
        (Inr k, scratch) \<Rightarrow> Inr (take k scratch)
      | (Inl e, _) \<Rightarrow>
          if tries = 0 then Inl e
          else case cap0 (n * 2) of Inl e' \<Rightarrow> Inl e' | Inr n' \<Rightarrow> inflate_try tries Z src n')"

definition zip_inflate :: "zinflib \<Rightarrow> u8 list \<Rightarrow> exn + u8 list" where
  "zip_inflate Z src =
     (case cap0 (max 64 (length src * 4)) of Inl e \<Rightarrow> Inl e | Inr n \<Rightarrow> inflate_try 8 Z src n)"

text \<open>
  \<open>zip.inflate (bytes, out)\<close>: the same tries in the IDLE of a \<open>Buf\<close>, grown to hold the next size.
\<close>

definition grow_to :: "nat \<Rightarrow> (buf, unit) js" where
  "grow_to n = jbind (jget broom) (\<lambda>r.
     if num_lt r (js_nat n)
     then jbind (jget (\<lambda>b. num_add (js_nat (cap b)) (num_sub (js_nat n) r))) (\<lambda>want.
          case whole_of want of Some n' \<Rightarrow> Buf_grow (nat n') | None \<Rightarrow> jret ())
     else jret ())"

definition inflate_idle :: "zinflib \<Rightarrow> u8 list \<Rightarrow> (buf, nat) js" where
  "inflate_idle Z src = (\<lambda>b.
     case inflate_into Z src (bview_idle b) of (r, idle') \<Rightarrow>
       (r, b\<lparr>bytes := splice_at (bytes b) (rel_index (length (bytes b)) (bidle b)) idle'\<rparr>))"

primrec inflate_buf_try :: "nat \<Rightarrow> zinflib \<Rightarrow> u8 list \<Rightarrow> nat \<Rightarrow> (buf, nat) js" where
  "inflate_buf_try 0 Z src n = jthrow CUndef"
| "inflate_buf_try (Suc tries) Z src n =
     jbind (grow_to n) (\<lambda>_.
     jcatch (jbind (inflate_idle Z src) (\<lambda>k. jbind (Buf_fed (js_nat k)) (\<lambda>_. jret k)))
       (\<lambda>e. if tries = 0 then jthrow e
            else jbind (jlift (cap0 (n * 2))) (inflate_buf_try tries Z src)))"

definition zip_inflate_buf :: "zinflib \<Rightarrow> u8 list \<Rightarrow> (buf, nat) js" where
  "zip_inflate_buf Z src = jbind (jlift (cap0 (max 64 (length src * 4)))) (inflate_buf_try 8 Z src)"

definition zip_deflate :: "zinflib \<Rightarrow> u8 list \<Rightarrow> exn + u8 list" where
  "zip_deflate Z src =
     (case ZINFDeflate Z src (length src + length src div 1024 + 128) of (o', written) \<Rightarrow>
        if o' \<noteq> OK then Inl (ThrowError ''zip.deflate: failed (out too small?)'') else Inr written)"

definition zip_deflate_buf :: "zinflib \<Rightarrow> u8 list \<Rightarrow> (buf, nat) js" where
  "zip_deflate_buf Z src =
     jbind (jget (\<lambda>b. (ZINFDeflate Z src (length (bview_idle b)), bidle b))) (\<lambda>((o', written), i).
     jbind (bset written i) (\<lambda>_.
     if o' \<noteq> OK then jthrow (ThrowError ''zip.deflate: failed (out too small?)'')
     else jbind (Buf_fed (js_nat (length written))) (\<lambda>_. jret (length written))))"

section \<open>What comes back\<close>

text \<open>
  The comment's account of \<open>ZINFInflate\<close>, for the text \<open>plain\<close> of a stream (\<open>None\<close>: no zlib stream).
  Of a text too long for the region each position keeps the last byte that fell on it.
\<close>

definition wrapped :: "u8 list \<Rightarrow> nat \<Rightarrow> u8 list" where
  "wrapped p room = map (\<lambda>i. p ! (i + room * ((length p - 1 - i) div room))) [0..<room]"

definition zinf_law :: "zinflib \<Rightarrow> (u8 list \<Rightarrow> u8 list option) \<Rightarrow> bool" where
  "zinf_law Z plain \<longleftrightarrow> (\<forall>src room. 0 < room \<longrightarrow>
     (case plain src of
        None \<Rightarrow> fst (fst (ZINFInflate Z src room)) \<noteq> OK
      | Some p \<Rightarrow> ZINFInflate Z src room =
          (if length p \<le> room then ((OK, length p), p) else ((OK, 0), wrapped p room))))"

lemma hd_wrapped: "0 < room \<Longrightarrow> room < length p \<Longrightarrow> length (wrapped p room) = room \<and> hd (wrapped p room) \<in> set p"
proof -
  assume r: "0 < room" "room < length p"
  have "room * ((length p - 1) div room) \<le> length p - 1" by simp
  then have "room * ((length p - 1) div room) < length p" using r by linarith
  moreover have "hd (wrapped p room) = p ! (room * ((length p - 1) div room))"
    using r(1) by (simp add: wrapped_def hd_map)
  ultimately show ?thesis by (simp add: wrapped_def)
qed

text \<open>One try in a fresh array, where the sentinel is \<open>0xa5\<close>.\<close>

lemma inflate_bad:
  assumes "zinf_law Z plain" "0 < n" "plain src = None"
  shows "fst (inflate_into Z src (replicate n 0)) = Inl (ThrowError ''zip.inflate: bad zlib stream'')"
proof -
  obtain c k bs where z: "ZINFInflate Z src n = ((c, k), bs)" by (metis prod.collapse)
  have "c \<noteq> OK"
    using assms(1)[unfolded zinf_law_def, rule_format, of n src] assms(2,3) z by simp
  then show ?thesis
    by (simp add: inflate_into_def inflated_def Let_def z)
qed

lemma inflate_fits:
  assumes "zinf_law Z plain" "0 < n" "plain src = Some p" "length p \<le> n"
  shows "\<exists>out. inflate_into Z src (replicate n 0) = (Inr (length p), out) \<and> take (length p) out = p"
proof -
  have law: "ZINFInflate Z src n = ((OK, length p), p)"
    using assms(1)[unfolded zinf_law_def, rule_format, of n src] assms(2-4) by simp
  obtain m where n: "n = Suc m" using assms(2) by (cases n) auto
  show ?thesis
    by (cases p) (auto simp: law [unfolded n] n inflate_into_def inflated_def sentinel_def splice_at_def Let_def)
qed

lemma inflate_overflows:
  assumes "zinf_law Z plain" "0 < n" "plain src = Some p" "n < length p"
  shows "inflate_into Z src (replicate n 0) =
    (if hd (wrapped p n) = 0xa5 then Inr 0
     else Inl (ThrowError ''zip.inflate: NOROOM (out too small)''), wrapped p n)"
proof -
  have law: "ZINFInflate Z src n = ((OK, 0), wrapped p n)"
    using assms(1)[unfolded zinf_law_def, rule_format, of n src] assms(2-4) by simp
  moreover have w: "length (wrapped p n) = n" using hd_wrapped assms(2,4) by blast
  moreover obtain m where "n = Suc m" using assms(2) by (cases n) auto
  ultimately show ?thesis
    by (auto simp: inflate_into_def inflated_def sentinel_def splice_at_def Let_def)
qed

text \<open>The sizes tried: doubled from \<open>n\<close>, at most \<open>tries\<close> of them, none above the ceiling.\<close>

definition some_size :: "nat \<Rightarrow> nat \<Rightarrow> nat \<Rightarrow> bool" where
  "some_size tries n len \<longleftrightarrow> (\<exists>k < tries. n * 2 ^ k \<le> MAX_OUT \<and> len \<le> n * 2 ^ k)"

lemma some_size_0 [simp]: "\<not> some_size 0 n len"
  by (simp add: some_size_def)

lemma some_size_Suc:
  assumes "n \<le> MAX_OUT" and "n < len"
  shows "some_size (Suc tries) n len \<longleftrightarrow> n * 2 \<le> MAX_OUT \<and> some_size tries (n * 2) len"
proof
  assume "some_size (Suc tries) n len"
  then obtain k where k: "k < Suc tries" "n * 2 ^ k \<le> MAX_OUT" "len \<le> n * 2 ^ k"
    by (auto simp: some_size_def)
  with assms(2) obtain j where j: "k = Suc j" by (cases k) auto
  have "n * 2 * 1 \<le> n * 2 * 2 ^ j" by (rule mult_le_mono2) simp
  also have "n * 2 * 2 ^ j \<le> MAX_OUT" using k(2) j by (simp add: mult.assoc)
  finally have "n * 2 \<le> MAX_OUT" by simp
  with k j show "n * 2 \<le> MAX_OUT \<and> some_size tries (n * 2) len"
    by (auto simp: some_size_def mult.assoc)
next
  assume "n * 2 \<le> MAX_OUT \<and> some_size tries (n * 2) len"
  then obtain k where "k < tries" "n * 2 * 2 ^ k \<le> MAX_OUT" "len \<le> n * 2 * 2 ^ k"
    by (auto simp: some_size_def)
  then show "some_size (Suc tries) n len"
    unfolding some_size_def by (intro exI [of _ "Suc k"]) (simp add: mult.assoc)
qed

lemma some_size_now: "n \<le> MAX_OUT \<Longrightarrow> len \<le> n \<Longrightarrow> some_size (Suc tries) n len"
  by (auto simp: some_size_def intro!: exI [of _ 0])

text \<open>The text when some size holds it, an exception when none does.\<close>

lemma inflate_try_exact:
  assumes "zinf_law Z plain" "0 < n" "n \<le> MAX_OUT" "0 < tries"
    and "\<And>p. plain src = Some p \<Longrightarrow> 0xa5 \<notin> set p"
  shows "case plain src of
      Some p \<Rightarrow> if some_size tries n (length p) then inflate_try tries Z src n = Inr p
                else \<exists>e. inflate_try tries Z src n = Inl e
    | None \<Rightarrow> \<exists>e. inflate_try tries Z src n = Inl e"
  using assms(2-4)
proof (induction tries arbitrary: n)
  case (Suc t)
  obtain r out where run: "inflate_into Z src (replicate n 0) = (r, out)" by (cases "inflate_into Z src (replicate n 0)")
  show ?case
  proof (cases "\<exists>p. plain src = Some p \<and> length p \<le> n")
    case True
    then obtain p where p: "plain src = Some p" "length p \<le> n" by blast
    obtain out where "inflate_into Z src (replicate n 0) = (Inr (length p), out)" "take (length p) out = p"
      using inflate_fits [OF assms(1) Suc.prems(1) p] by blast
    moreover have "some_size (Suc t) n (length p)" using Suc.prems(2) p(2) by (rule some_size_now)
    ultimately show ?thesis using p(1) by simp
  next
    case no: False
    have "\<exists>e. r = Inl e"
    proof (cases "plain src")
      case None
      from inflate_bad [OF assms(1) Suc.prems(1) this] run show ?thesis by simp
    next
      case (Some p)
      with no have big: "n < length p" by auto
      with hd_wrapped [OF Suc.prems(1)] assms(5) [OF Some] have "hd (wrapped p n) \<noteq> 0xa5" by metis
      with inflate_overflows [OF assms(1) Suc.prems(1) Some big] run show ?thesis by simp
    qed
    then obtain e where r: "r = Inl e" ..
    have big: "n < length p" if "plain src = Some p" for p using no that by auto
    show ?thesis
    proof (cases "t = 0 \<or> MAX_OUT < n * 2")
      case True
      then have "\<exists>e. inflate_try (Suc t) Z src n = Inl e" using run r by (auto simp: cap0_def)
      moreover have "\<not> some_size (Suc t) n (length p)" if "plain src = Some p" for p
        using some_size_Suc [OF Suc.prems(2) big [OF that]] True by auto
      ultimately show ?thesis by (auto split: option.splits)
    next
      case False
      then have "inflate_try (Suc t) Z src n = inflate_try t Z src (n * 2)" using run r by (simp add: cap0_def)
      moreover have "some_size (Suc t) n (length p) = some_size t (n * 2) (length p)" if "plain src = Some p" for p
        using some_size_Suc [OF Suc.prems(2) big [OF that]] False by auto
      moreover have "0 < n * 2" "n * 2 \<le> MAX_OUT" "0 < t" using False Suc.prems(1) by auto
      ultimately show ?thesis using Suc.IH [of "n * 2"] by (auto split: option.splits if_splits)
    qed
  qed
qed simp

text \<open>
  C17: for a zlib stream whose text has no byte \<open>0xa5\<close>, \<open>zip.inflate\<close> returns exactly the text when one of
  the eight sizes it tries (64 bytes or four times the stream, doubled; none above 64 MiB) holds it,
  and throws when none does; for anything that is no stream it throws.  It never returns part of a text.
\<close>

theorem inflate_all_or_throws:
  assumes "zinf_law Z plain"
    and "\<And>p. plain src = Some p \<Longrightarrow> 0xa5 \<notin> set p"
  shows "case plain src of
      Some p \<Rightarrow> if some_size 8 (max 64 (length src * 4)) (length p) then zip_inflate Z src = Inr p
                else \<exists>e. zip_inflate Z src = Inl e
    | None \<Rightarrow> \<exists>e. zip_inflate Z src = Inl e"
proof (cases "max 64 (length src * 4) \<le> MAX_OUT")
  case True
  then have "zip_inflate Z src = inflate_try 8 Z src (max 64 (length src * 4))"
    by (simp only: zip_inflate_def cap0_def not_less [symmetric] if_False sum.case)
  moreover have "0 < max 64 (length src * 4)" "0 < (8 :: nat)" by simp_all
  ultimately show ?thesis
    using inflate_try_exact [OF assms(1) _ True _ assms(2), where tries = 8 and src = src]
    by (simp only:)
next
  case False
  then have "\<not> some_size 8 (max 64 (length src * 4)) len" for len
    unfolding some_size_def by (metis le_trans mult.right_neutral mult_le_mono2 one_le_numeral one_le_power)
  with False show ?thesis by (auto simp: zip_inflate_def cap0_def split: option.splits)
qed

section \<open>A small zlib\<close>

text \<open>A stream is a count and a byte, its text the byte 256 times the count, or nothing at all.\<close>

fun runs_of :: "u8 list \<Rightarrow> u8 list option" where
  "runs_of [] = Some []"
| "runs_of [n, c] = Some (replicate (256 * unat n) c)"
| "runs_of _ = None"

definition run_zlib :: zinflib where
  "run_zlib = \<lparr>
     ZINFDeflate = (\<lambda>src room. (NOROOM, [])),
     ZINFInflate = (\<lambda>src room. case runs_of src of
        None \<Rightarrow> ((OTHERFAIL, 0), [])
      | Some p \<Rightarrow> if length p \<le> room then ((OK, length p), p) else ((OK, 0), wrapped p room)) \<rparr>"

lemma run_zlib_law: "zinf_law run_zlib runs_of"
  by (auto simp: zinf_law_def run_zlib_def split: option.splits)

theorem inflate_all_or_throws_witness:
  "zip_inflate run_zlib [3, 7] = Inr (replicate 768 7)"
proof -
  have "some_size 8 64 768"
    by (auto simp: some_size_def MAX_OUT_def intro!: exI [of _ 4])
  then show ?thesis
    using inflate_all_or_throws [OF run_zlib_law, of "[3, 7]"] by simp
qed

text \<open>A text of which the byte that falls last on the first position is \<open>0xa5\<close> comes back empty.\<close>

lemma text_lost_silently: "zip_inflate run_zlib [1, 0xa5] = Inr []"
proof -
  have big: "(64 :: nat) < length (replicate 256 (0xa5 :: u8))" by simp
  have head: "hd (wrapped (replicate 256 (0xa5 :: u8)) 64) = 0xa5"
    using hd_wrapped [of 64 "replicate 256 (0xa5 :: u8)"] by simp
  have "inflate_into run_zlib [1, 0xa5] (replicate 64 0) = (Inr 0, wrapped (replicate 256 0xa5) 64)"
    using inflate_overflows [OF run_zlib_law _ _ big, of "[1, 0xa5]"] head by simp
  then have "inflate_try (Suc 7) run_zlib [1, 0xa5] 64 = Inr []"
    by (simp only: inflate_try.simps prod.case sum.case take_0)
  moreover have "Suc 7 = (8 :: nat)" by simp
  ultimately have "inflate_try 8 run_zlib [1, 0xa5] 64 = Inr []" by (simp only:)
  then show ?thesis by (simp add: zip_inflate_def cap0_def MAX_OUT_def)
qed

text \<open>A good stream of a text 512 times as long as itself or more is refused (zlib reaches 1032).\<close>

lemma dense_stream_refused: "\<exists>e. zip_inflate run_zlib [255, 1] = Inl e"
proof -
  have "64 * 2 ^ k \<le> (8192 :: nat)" if "k < 8" for k
    using power_increasing [of k 7 "2 :: nat"] that by simp
  then have none: "\<not> some_size 8 64 65280"
    unfolding some_size_def by fastforce
  have "\<exists>e. inflate_try 8 run_zlib [255, 1] 64 = Inl e"
    using inflate_try_exact [OF run_zlib_law, of 64 8 "[255, 1]"] none by (simp add: MAX_OUT_def)
  then show ?thesis by (simp add: zip_inflate_def cap0_def MAX_OUT_def)
qed

end
