(* ===== verification/NetLeaves.thy ===== *)
theory NetLeaves
  imports Io Require Socket
begin

text \<open>
  The native leaves of \<open>net.c\<close>: TCP and UDP sockets as bare descriptors.  The calls of libabc (\<open>TCP\<close>,
  \<open>UDP\<close>) and of libc are the fields of \<open>netsys\<close>.  A transfer that is interrupted is repeated; a
  transfer that would block is the number -1, every other failure is thrown.  After the leaves the
  two classes of the bundle that accept connections and datagrams, \<open>Server\<close> and \<open>Dgram\<close>.
\<close>

section \<open>The system\<close>

text \<open>What a transfer answers: a count, an interruption, no data or no room yet, another failure.\<close>

datatype moved = Moved nat | Interrupted | WouldBlock | NetFailed

record 'w netsys =
  net_errno :: "'w \<Rightarrow> string"   \<comment> \<open>\<open>strerror (errno)\<close>\<close>
  fcntl_getfl :: "int \<Rightarrow> 'w \<Rightarrow> int \<times> 'w"
  fcntl_setfl :: "int \<Rightarrow> 32 word \<Rightarrow> 'w \<Rightarrow> 'w"
  TCPListen :: "string \<Rightarrow> 'w \<Rightarrow> (ok64 \<times> int) \<times> 'w"
  TCPConnect :: "string \<Rightarrow> 'w \<Rightarrow> (ok64 \<times> int) \<times> 'w"
  TCPAccept :: "int \<Rightarrow> 'w \<Rightarrow> (ok64 \<times> int) \<times> 'w"
  UDPBind :: "string \<Rightarrow> 'w \<Rightarrow> (ok64 \<times> int) \<times> 'w"
  c_recv :: "int \<Rightarrow> addr \<Rightarrow> nat \<Rightarrow> 'w \<Rightarrow> moved \<times> 'w"
  c_send :: "int \<Rightarrow> addr \<Rightarrow> nat \<Rightarrow> 'w \<Rightarrow> moved \<times> 'w"   \<comment> \<open>with \<open>MSG_NOSIGNAL\<close>\<close>
  c_shutwr :: "int \<Rightarrow> 'w \<Rightarrow> 'w"
  c_close :: "int \<Rightarrow> 'w \<Rightarrow> 'w"
  c_recvfrom :: "int \<Rightarrow> addr \<Rightarrow> nat \<Rightarrow> 'w \<Rightarrow> (moved \<times> u8 list) \<times> 'w"
    \<comment> \<open>with the sender's address\<close>
  getnameinfo :: "u8 list \<Rightarrow> string \<times> string"   \<comment> \<open>numeric; two empty strings when it fails\<close>
  getaddrinfo :: "string \<Rightarrow> string \<Rightarrow> 'w \<Rightarrow> (u8 list) option \<times> 'w"
  c_sendto :: "int \<Rightarrow> addr \<Rightarrow> nat \<Rightarrow> u8 list \<Rightarrow> 'w \<Rightarrow> moved \<times> 'w"
  NETmaxhost :: nat
  NETmaxserv :: nat

definition O_NONBLOCK :: "32 word" where "O_NONBLOCK = 2048"

definition JABCNonblock :: "'w netsys \<Rightarrow> int \<Rightarrow> 'w \<Rightarrow> 'w" where
  "JABCNonblock N fd w =
     (case fcntl_getfl N fd w of (fl, w') \<Rightarrow>
        if fl \<noteq> - 1 then fcntl_setfl N fd (or (word_of_int fl) O_NONBLOCK) w' else w')"

text \<open>A string argument that fits with its NUL; anything else is the empty string.\<close>

definition JABCUri :: "nat \<Rightarrow> jsval \<Rightarrow> string" where
  "JABCUri room arg =
     (case arg of JStr s \<Rightarrow> if s = [] \<or> room < length s + 1 then [] else s | _ \<Rightarrow> [])"

definition uri_or :: "string \<Rightarrow> nat \<Rightarrow> jsval \<Rightarrow> ('w, string) js" where
  "uri_or msg room arg =
     (let s = JABCUri room arg in if s = [] then jthrow (ThrowError msg) else jret s)"

text \<open>A descriptor a call of libabc opened, made nonblocking.\<close>

definition opened_fd :: "'w netsys \<Rightarrow> ('w \<Rightarrow> (ok64 \<times> int) \<times> 'w) \<Rightarrow> ('w, jout) js" where
  "opened_fd N call = (\<lambda>w. case call w of ((o', fd), w') \<Rightarrow>
     if o' \<noteq> OK \<or> fd < 0 then (Inl (ThrowError (net_errno N w')), w')
     else (Inr (JVal (JNum (js_int fd))), JABCNonblock N fd w'))"

section \<open>TCP\<close>

definition JABCNetListen :: "'w netsys \<Rightarrow> jsval list \<Rightarrow> ('w, jout) js" where
  "JABCNetListen N argv =
     need 1 ''net._listen(uri)'' argv
     (jbind (uri_or ''net._listen: bad uri'' 256 (argv ! 0)) (\<lambda>uri. opened_fd N (TCPListen N uri)))"

definition JABCNetConnect :: "'w netsys \<Rightarrow> jsval list \<Rightarrow> ('w, jout) js" where
  "JABCNetConnect N argv =
     need 1 ''net._connect(uri)'' argv
     (jbind (uri_or ''net._connect: bad uri'' 256 (argv ! 0)) (\<lambda>uri. opened_fd N (TCPConnect N uri)))"

text \<open>Any failure of \<open>accept\<close> reads as \<open>nothing pending\<close>.\<close>

definition JABCNetAccept :: "'w engine \<Rightarrow> 'w netsys \<Rightarrow> jsval list \<Rightarrow> ('w, jout) js" where
  "JABCNetAccept E N argv =
     need 1 ''net._accept(sfd)'' argv
     (jbind (JABCFdOf E (argv ! 0)) (\<lambda>sfd w.
      case TCPAccept N (sint sfd) w of ((o', cfd), w') \<Rightarrow>
        if o' \<noteq> OK \<or> cfd < 0 then (Inr (JVal (JNum (js_int (- 1)))), w')
        else (Inr (JVal (JNum (js_int cfd))), JABCNonblock N cfd w')))"

text \<open>One transfer, repeated while it is interrupted; with fuel, \<open>None\<close> when that never ends.\<close>

primrec net_retry :: "nat \<Rightarrow> ('w \<Rightarrow> (moved \<times> 'x) \<times> 'w) \<Rightarrow> 'w \<Rightarrow> (moved \<times> 'x) option \<times> 'w" where
  "net_retry 0 call w = (None, w)"
| "net_retry (Suc k) call w =
     (case call w of ((Interrupted, x), w') \<Rightarrow> net_retry k call w' | (r, w') \<Rightarrow> (Some r, w'))"

definition transfer :: "'w netsys \<Rightarrow> nat \<Rightarrow> ('w \<Rightarrow> (moved \<times> 'x) \<times> 'w) \<Rightarrow> jout \<Rightarrow> (nat \<Rightarrow> 'x \<Rightarrow> jout) \<Rightarrow>
    ('w, jout option) js" where
  "transfer N fuel call block done = (\<lambda>w. case net_retry fuel call w of
     (None, w') \<Rightarrow> (Inr None, w')
   | (Some (Moved n, x), w') \<Rightarrow> (Inr (Some (done n x)), w')
   | (Some (WouldBlock, x), w') \<Rightarrow> (Inr (Some block), w')
   | (Some (_, x), w') \<Rightarrow> (Inl (ThrowError (net_errno N w')), w'))"

definition plain_call :: "('w \<Rightarrow> moved \<times> 'w) \<Rightarrow> 'w \<Rightarrow> (moved \<times> unit) \<times> 'w" where
  "plain_call call w = (case call w of (r, w') \<Rightarrow> ((r, ()), w'))"

abbreviation minus_one :: jout where "minus_one \<equiv> JVal (JNum (js_int (- 1)))"

definition JABCNetRecv :: "'w engine \<Rightarrow> abc \<Rightarrow> 'w netsys \<Rightarrow> nat \<Rightarrow> jsval list \<Rightarrow> ('w, jout option) js" where
  "JABCNetRecv E A N fuel argv =
     need 2 ''net._recv(fd, Uint8Array)'' argv
     (jbind (JABCFdOf E (argv ! 0)) (\<lambda>fd.
      jbind (JABCIdleOf E A (argv ! 1)) (\<lambda>tab.
      transfer N fuel (plain_call (c_recv N (sint fd) (b2 tab) (idle_len tab)))
        minus_one (\<lambda>n _. JVal (JNum (js_nat n))))))"

definition JABCNetSend :: "'w engine \<Rightarrow> abc \<Rightarrow> 'w netsys \<Rightarrow> nat \<Rightarrow> jsval list \<Rightarrow> ('w, jout option) js" where
  "JABCNetSend E A N fuel argv =
     need 2 ''net._send(fd, Uint8Array)'' argv
     (jbind (JABCFdOf E (argv ! 0)) (\<lambda>fd.
      jbind (JABCDataOf E A (argv ! 1)) (\<lambda>tab.
      transfer N fuel (plain_call (c_send N (sint fd) (b1 tab) (data_len tab)))
        minus_one (\<lambda>n _. JVal (JNum (js_nat n))))))"

definition JABCNetShutwr :: "'w engine \<Rightarrow> 'w netsys \<Rightarrow> jsval list \<Rightarrow> ('w, jout) js" where
  "JABCNetShutwr E N argv =
     need 1 ''net._shutwr(fd)'' argv
     (jbind (JABCFdOf E (argv ! 0)) (\<lambda>fd. jbind (jput (c_shutwr N (sint fd))) (\<lambda>_. js_undef)))"

definition JABCNetClose :: "'w engine \<Rightarrow> 'w netsys \<Rightarrow> jsval list \<Rightarrow> ('w, jout) js" where
  "JABCNetClose E N argv =
     need 1 ''net._close(fd)'' argv
     (jbind (JABCFdOf E (argv ! 0)) (\<lambda>fd. jbind (jput (c_close N (sint fd))) (\<lambda>_. js_undef)))"

section \<open>UDP\<close>

definition JABCDgramBind :: "'w netsys \<Rightarrow> jsval list \<Rightarrow> ('w, jout) js" where
  "JABCDgramBind N argv =
     need 1 ''dgram._bind(uri)'' argv
     (jbind (uri_or ''dgram._bind: bad uri'' 256 (argv ! 0)) (\<lambda>uri. opened_fd N (UDPBind N uri)))"

text \<open>\<open>atoi\<close> of a numeric service.\<close>

definition atoi :: "string \<Rightarrow> nat" where
  "atoi s = fold (\<lambda>c n. 10 * n + (of_char c - 48))
     (takeWhile (\<lambda>c. 48 \<le> (of_char c :: nat) \<and> (of_char c :: nat) \<le> 57) s) 0"

definition JABCDgramRecv :: "'w engine \<Rightarrow> abc \<Rightarrow> 'w netsys \<Rightarrow> nat \<Rightarrow> jsval list \<Rightarrow> ('w, jout option) js" where
  "JABCDgramRecv E A N fuel argv =
     need 2 ''dgram._recv(fd, Uint8Array)'' argv
     (jbind (JABCFdOf E (argv ! 0)) (\<lambda>fd.
      jbind (JABCIdleOf E A (argv ! 1)) (\<lambda>tab.
      transfer N fuel (c_recvfrom N (sint fd) (b2 tab) (idle_len tab)) (JVal JNull)
        (\<lambda>n from. case getnameinfo N from of (host, serv) \<Rightarrow>
           JFields [(''n'', JNum (js_nat n)), (''address'', JStr host),
                    (''port'', JNum (js_nat (atoi serv)))]))))"

text \<open>
  Every scalar is coerced before the payload is unwrapped.  The host is read by the resolver up to
  its first NUL.
\<close>

definition JABCDgramSend :: "'w engine \<Rightarrow> abc \<Rightarrow> 'w netsys \<Rightarrow> nat \<Rightarrow> jsval list \<Rightarrow> ('w, jout option) js" where
  "JABCDgramSend E A N fuel argv =
     need 4 ''dgram._send(fd, u8, host, port)'' argv
     (jbind (JABCFdOf E (argv ! 0)) (\<lambda>fd.
      jbind (uri_or ''dgram._send: bad host'' (NETmaxhost N) (argv ! 2)) (\<lambda>host.
      jbind (JABCu64Of E (argv ! 3)) (\<lambda>p.
      if 65535 < p then jthrow (ThrowError ''dgram._send: bad port'')
      else
        jbind (JABCDataOf E A (argv ! 1)) (\<lambda>tab w.
        case getaddrinfo N (takeWhile (\<lambda>c. c \<noteq> CHR 0x00) host)
               (take (NETmaxserv N - 1) (decimal (unat p))) w of
          (None, w') \<Rightarrow> (Inl (ThrowError ''dgram._send: resolve failed''), w')
        | (Some res, w') \<Rightarrow>
            transfer N fuel (plain_call (c_sendto N (sint fd) (b1 tab) (data_len tab) res))
              minus_one (\<lambda>n _. JVal (JNum (js_nat n))) w')))))"

section \<open>Server and Dgram\<close>

text \<open>
  Both classes are an \<open>Emitter\<close> around one descriptor that \<open>pol\<close> watches.  A listener is any code: a
  step of the whole state, which may close the object, register others or throw.  \<open>heard\<close> names what
  the object emits.
\<close>

datatype heard = HListening | HConnection int | HMessage "u8 list" string nat | HClose

record 'w netobj =
  ow :: 'w
  ofd :: int
  orb :: buf
  oev :: "string \<rightharpoonup> nat list"

record 'w objlib =
  o_open :: "string \<Rightarrow> 'w \<Rightarrow> (exn + int) \<times> 'w"    \<comment> \<open>\<open>net._listen\<close>, \<open>dgram._bind\<close>\<close>
  o_accept :: "int \<Rightarrow> 'w \<Rightarrow> (exn + int) \<times> 'w"
  o_recvfrom :: "int \<Rightarrow> nat \<Rightarrow> 'w \<Rightarrow> (exn + (u8 list \<times> string \<times> nat) option) \<times> 'w"
  o_sendto :: "int \<Rightarrow> u8 list \<Rightarrow> string \<Rightarrow> string \<Rightarrow> 'w \<Rightarrow> (exn + int) \<times> 'w"
  o_close :: "int \<Rightarrow> 'w \<Rightarrow> (exn + unit) \<times> 'w"
  o_watch :: "int \<Rightarrow> 'w \<Rightarrow> (exn + unit) \<times> 'w"
  o_unwatch :: "int \<Rightarrow> 'w \<Rightarrow> (exn + unit) \<times> 'w"
  o_register :: "int \<Rightarrow> 'w \<Rightarrow> (exn + unit) \<times> 'w"  \<comment> \<open>\<open>new Socket (cfd)._register ()\<close>\<close>
  o_soon :: "'w \<Rightarrow> 'w"   \<comment> \<open>\<open>setTimeout (() => emit ("listening"), 0)\<close>\<close>
  o_behave :: "nat \<Rightarrow> heard \<Rightarrow> 'w netobj \<Rightarrow> (exn + unit) \<times> 'w netobj"

definition outside :: "('w \<Rightarrow> (exn + 'a) \<times> 'w) \<Rightarrow> ('w netobj, 'a) js" where
  "outside f = (\<lambda>s. case f (ow s) of (r, w) \<Rightarrow> (r, s\<lparr>ow := w\<rparr>))"

definition on_orb :: "(buf, 'a) js \<Rightarrow> ('w netobj, 'a) js" where
  "on_orb m = (\<lambda>s. case m (orb s) of (r, b) \<Rightarrow> (r, s\<lparr>orb := b\<rparr>))"

fun event_name :: "heard \<Rightarrow> string" where
  "event_name HListening = ''listening''"
| "event_name (HConnection c) = ''connection''"
| "event_name (HMessage d a p) = ''message''"
| "event_name HClose = ''close''"

definition obj_on :: "string \<Rightarrow> nat \<Rightarrow> ('w netobj, unit) js" where
  "obj_on name f = jput (\<lambda>s. s\<lparr>oev := (oev s)(name \<mapsto> (case oev s name of Some a \<Rightarrow> a | None \<Rightarrow> []) @ [f])\<rparr>)"

primrec obj_call :: "'w objlib \<Rightarrow> heard \<Rightarrow> nat list \<Rightarrow> ('w netobj, unit) js" where
  "obj_call OL h [] = jret ()"
| "obj_call OL h (f # fs) = jbind (o_behave OL f h) (\<lambda>_. obj_call OL h fs)"

definition obj_emit :: "'w objlib \<Rightarrow> heard \<Rightarrow> ('w netobj, unit) js" where
  "obj_emit OL h = jbind (jget (\<lambda>s. oev s (event_name h))) (\<lambda>a.
     case a of None \<Rightarrow> jret () | Some fs \<Rightarrow> obj_call OL h fs)"

definition new_netobj :: "'w \<Rightarrow> 'w netobj" where
  "new_netobj w = \<lparr>ow = w, ofd = - 1, orb = Buf_into (replicate 65536 0), oev = Map.empty\<rparr>"

definition createServer :: "nat option \<Rightarrow> 'w \<Rightarrow> 'w netobj" where
  "createServer onConn w = (case onConn of None \<Rightarrow> new_netobj w
     | Some f \<Rightarrow> (new_netobj w)\<lparr>oev := [''connection'' \<mapsto> [f]]\<rparr>)"

definition createSocket :: "nat option \<Rightarrow> 'w \<Rightarrow> 'w netobj" where
  "createSocket onMsg w = (case onMsg of None \<Rightarrow> new_netobj w
     | Some f \<Rightarrow> (new_netobj w)\<lparr>oev := [''message'' \<mapsto> [f]]\<rparr>)"

text \<open>
  \<open>listen\<close> and \<open>bind\<close>: the same steps over another scheme.  The port is the text the template makes of
  it; an absent or empty host is the wildcard address.
\<close>

definition obj_bind :: "'w objlib \<Rightarrow> string \<Rightarrow> string \<Rightarrow> string \<Rightarrow> nat option \<Rightarrow> ('w netobj, unit) js" where
  "obj_bind OL scheme port host cb =
     (let host = (if host = [] then ''0.0.0.0'' else host) in
      jbind (outside (o_open OL (scheme @ ''://'' @ host @ '':'' @ port))) (\<lambda>fd.
      jbind (jput (\<lambda>s. s\<lparr>ofd := fd\<rparr>)) (\<lambda>_.
      jbind (case cb of None \<Rightarrow> jret () | Some f \<Rightarrow> obj_on ''listening'' f) (\<lambda>_.
      jbind (outside (o_watch OL fd)) (\<lambda>_.
      jput (\<lambda>s. s\<lparr>ow := o_soon OL (ow s)\<rparr>))))))"

definition Server_listen :: "'w objlib \<Rightarrow> string \<Rightarrow> string \<Rightarrow> nat option \<Rightarrow> ('w netobj, unit) js" where
  "Server_listen OL port host cb = obj_bind OL ''tcp'' port host cb"

definition Dgram_bind :: "'w objlib \<Rightarrow> string \<Rightarrow> string \<Rightarrow> nat option \<Rightarrow> ('w netobj, unit) js" where
  "Dgram_bind OL port host cb = obj_bind OL ''udp'' port host cb"

text \<open>The handler of the listening descriptor; the loop ends when nothing is pending.\<close>

primrec accept_loop :: "nat \<Rightarrow> 'w objlib \<Rightarrow> int \<Rightarrow> ('w netobj, u16 option) js" where
  "accept_loop 0 OL fd = jret None"
| "accept_loop (Suc k) OL fd =
     jbind (outside (o_accept OL fd)) (\<lambda>cfd.
     if cfd < 0 then jret (Some POLLIN)
     else jbind (outside (o_register OL cfd)) (\<lambda>_.
          jbind (obj_emit OL (HConnection cfd)) (\<lambda>_. accept_loop k OL fd)))"

text \<open>The handler of the datagram descriptor looks at the object's own fd before each turn.\<close>

primrec message_loop :: "nat \<Rightarrow> 'w objlib \<Rightarrow> int \<Rightarrow> ('w netobj, u16 option) js" where
  "message_loop 0 OL fd = jret None"
| "message_loop (Suc k) OL fd =
     jbind (jget ofd) (\<lambda>own.
     if own < 0 then jret (Some 0)
     else
       jbind (on_orb Buf_reset) (\<lambda>_.
       jbind (jget (\<lambda>s. length (bview_idle (orb s)))) (\<lambda>room.
       jbind (outside (o_recvfrom OL fd room)) (\<lambda>r.
       case r of
         None \<Rightarrow> jbind (jget ofd) (\<lambda>own. jret (Some (if own < 0 then 0 else POLLIN)))
       | Some (bs, address, port) \<Rightarrow>
           jbind (on_orb (jput (\<lambda>b. b\<lparr>bytes := splice_at (bytes b) 0 bs\<rparr>))) (\<lambda>_.
           jbind (on_orb (Buf_fed (js_nat (length bs)))) (\<lambda>_.
           jbind (jget (\<lambda>s. bview_data (orb s))) (\<lambda>d.
           jbind (obj_emit OL (HMessage d address port)) (\<lambda>_. message_loop k OL fd))))))))"

definition obj_close :: "'w objlib \<Rightarrow> ('w netobj, unit) js" where
  "obj_close OL =
     jbind (jget ofd) (\<lambda>fd.
     if 0 \<le> fd then
       jbind (outside (o_unwatch OL fd)) (\<lambda>_.
       jbind (outside (o_close OL fd)) (\<lambda>_.
       jbind (jput (\<lambda>s. s\<lparr>ofd := - 1\<rparr>)) (\<lambda>_. obj_emit OL HClose)))
     else jret ())"

text \<open>\<open>send\<close> answers with the object, whatever the leaf said.\<close>

definition Dgram_send :: "'w objlib \<Rightarrow> u8 list \<Rightarrow> string \<Rightarrow> string \<Rightarrow> ('w netobj, unit) js" where
  "Dgram_send OL data port host =
     jbind (jget ofd) (\<lambda>fd.
     jbind (outside (o_sendto OL fd data (if host = [] then ''127.0.0.1'' else host) port)) (\<lambda>_. jret ()))"

text \<open>\<open>connect\<close>: the socket is connected before the call returns, and told so from a timer.\<close>

definition net_connect :: "('w \<Rightarrow> (exn + int) \<times> 'w) \<Rightarrow> ('w \<Rightarrow> 'w) \<Rightarrow> 'w netlib \<Rightarrow> nat option \<Rightarrow>
    'w \<Rightarrow> (exn + 'w sock) \<times> 'w" where
  "net_connect open_fd soon N cb w =
     (case open_fd w of
        (Inl e, w') \<Rightarrow> (Inl e, w')
      | (Inr fd, w') \<Rightarrow>
          (case jbind (sock_register N) (\<lambda>_. case cb of None \<Rightarrow> jret () | Some f \<Rightarrow> emitter_once ''connect'' f)
                  (new_socket fd w') of
             (Inl e, s) \<Rightarrow> (Inl e, sw s)
           | (Inr _, s) \<Rightarrow> (let s' = s\<lparr>sw := soon (sw s)\<rparr> in (Inr s', sw s'))))"

section \<open>Lemmas\<close>

text \<open>The code's promise for a datagram handler: after a listener has closed the object, no more is read.\<close>

lemma closed_dgram_stops:
  "ofd s < 0 \<Longrightarrow> message_loop (Suc k) OL fd s = (Inr (Some 0), s)"
  by simp

text \<open>
  The handler of a server has no such test.  The listener of this server closes it on the first
  connection; the loop goes on to accept on the closed descriptor, whose number may be another
  file's by then.  The state lists what was done to descriptor 3.
\<close>

definition closing_server :: "string list objlib" where
  "closing_server = \<lparr>
     o_open = (\<lambda>u w. (Inr 3, w)),
     o_accept = (\<lambda>fd w. (Inr (if ''accept'' \<in> set w then - 1 else 4), w @ [''accept''])),
     o_recvfrom = (\<lambda>fd room w. (Inr None, w)),
     o_sendto = (\<lambda>fd d h p w. (Inr (- 1), w)),
     o_close = (\<lambda>fd w. (Inr (), w @ [''close''])),
     o_watch = (\<lambda>fd w. (Inr (), w)),
     o_unwatch = (\<lambda>fd w. (Inr (), w)),
     o_register = (\<lambda>fd w. (Inr (), w)),
     o_soon = (\<lambda>w. w),
     o_behave = (\<lambda>f h s. (Inr (), s)) \<rparr>"

definition closing_lib :: "string list objlib" where
  "closing_lib = closing_server\<lparr>o_behave := (\<lambda>f h. obj_close closing_server)\<rparr>"

lemma server_accepts_after_close:
  "ow (snd (accept_loop 2 closing_lib 3 ((createServer (Some 0) [])\<lparr>ofd := 3\<rparr>))) =
   [''accept'', ''close'', ''accept'']"
  by (simp add: numeral_2_eq_2 closing_lib_def closing_server_def createServer_def new_netobj_def
      obj_emit_def obj_close_def outside_def jbind_def jget_def jput_def jret_def)

lemma datagram_lost_silently:
  "fst (Dgram_send closing_lib d port host s) = Inr ()"
  by (simp add: Dgram_send_def closing_lib_def closing_server_def outside_def jbind_def jget_def jret_def)

lemma recv_failure_escapes:
  assumes "0 \<le> ofd s"
    and "\<And>room w. o_recvfrom OL fd room w = (Inl e, w)"
  shows "fst (message_loop (Suc k) OL fd s) = Inl e"
  using assms by (simp add: jbind_def jget_def outside_def on_orb_def Buf_reset_def jput_def split: prod.splits)

end
