(* ===== verification/Tools.thy ===== *)
theory Tools
  imports Codec NetLeaves
begin

unbundle bit_operations_syntax

text \<open>
  The small modules: \<open>tok.c\<close> (the lexer leaf and the cursor over its tokens), \<open>tty.c\<close> (terminal
  control), \<open>ansi.c\<close> (styles) and \<open>weave.c\<close>, whose install does nothing.
\<close>

section \<open>tok.c\<close>

definition JABCArgU8 :: "'w engine \<Rightarrow> abc \<Rightarrow> 'w memory \<Rightarrow> nat \<Rightarrow> jsval \<Rightarrow> ('w, u8 list) js" where
  "JABCArgU8 E A M room v =
     (case v of
        JStr s \<Rightarrow> jret (let bs = bytes_of s in
          if room \<le> length bs then take (if room = 0 then 0 else room - 1) bs else bs)
      | _ \<Rightarrow> jbind (JABCDataOf E A v) (data_of M))"

text \<open>
  Every guard comes before the first write: the 24-bit offset, the alignment of the output, room for
  a token per byte and one more.
\<close>

definition JABCtokParseInto :: "'w engine \<Rightarrow> abc \<Rightarrow> 'w memory \<Rightarrow> hunklib \<Rightarrow> jsval list \<Rightarrow> ('w, jout) js" where
  "JABCtokParseInto E A M H argv =
     need 3 ''tok._tok_parse_into(srcBytes, lang, outU8)'' argv
     (jbind (JABCDataOf E A (argv ! 0)) (\<lambda>sourceb.
      let srcn = data_len sourceb in
      if TOK_OFF_MASK < srcn then jthrow (ThrowError ''tok.parse: source > 16 MiB'')
      else
        jbind (JABCArgU8 E A M 64 (argv ! 1)) (\<lambda>ext.
        jbind (JABCIdleOf E A (argv ! 2)) (\<lambda>outb.
        if b2 outb mod 4 \<noteq> 0 then jthrow (ThrowError ''tok.parse: out not 4-byte aligned (reset the Buf)'')
        else if idle_len outb < (srcn + 1) * 4 then jthrow (ThrowError ''tok.parse: out too small'')
        else
          jbind (data_of M sourceb) (\<lambda>source.
          case HUNKu32bTokenize H source ext (srcn + 1) of (o', toks) \<Rightarrow>
            jbind (jput (poke M (b2 outb) toks)) (\<lambda>_.
            if o' \<noteq> OK then jthrow (ThrowError ''tok.parse: lex'')
            else js_num (length toks div 4)))))))"

text \<open>
  \<open>tok.parse\<close>: the leaf on an array whose address is \<open>base\<close> and which does not overlap the source
  (what it answers, and what the array holds after), without a \<open>Buf\<close> over a scratch for the worst
  case, with one over its IDLE.
\<close>

definition tok_lex :: "hunklib \<Rightarrow> nat \<Rightarrow> u8 list \<Rightarrow> u8 list \<Rightarrow> u8 list \<Rightarrow> (exn + nat) \<times> u8 list" where
  "tok_lex H base src ext out =
     (if TOK_OFF_MASK < length src then (Inl (ThrowError ''tok.parse: source > 16 MiB''), out)
      else if base mod 4 \<noteq> 0
      then (Inl (ThrowError ''tok.parse: out not 4-byte aligned (reset the Buf)''), out)
      else if length out < (length src + 1) * 4 then (Inl (ThrowError ''tok.parse: out too small''), out)
      else case HUNKu32bTokenize H src ext (length src + 1) of (o', toks) \<Rightarrow>
        (if o' \<noteq> OK then Inl (ThrowError ''tok.parse: lex'') else Inr (length toks div 4),
         splice_at out 0 toks))"

text \<open>\<open>lang || ""\<close>, as \<open>JABCArgU8\<close> cuts it to a pad of 64 bytes.\<close>

definition tok_lang :: "string option \<Rightarrow> u8 list" where
  "tok_lang lang = take 63 (bytes_of (case lang of None \<Rightarrow> [] | Some l \<Rightarrow> l))"

definition u32_view :: "u8 list \<Rightarrow> nat \<Rightarrow> u32 list" where
  "u32_view bs n = map (\<lambda>i. word_of_nat (le_nat (take 4 (drop (4 * i) bs)))) [0..<n]"

definition tok_scratch :: "nat \<Rightarrow> nat" where "tok_scratch n = (n + 1) * 4"

definition tok_parse :: "hunklib \<Rightarrow> u8 list \<Rightarrow> string option \<Rightarrow> exn + u32 list" where
  "tok_parse H src lang =
     (case tok_lex H 0 src (tok_lang lang) (replicate (tok_scratch (length src)) 0) of
        (Inl e, _) \<Rightarrow> Inl e | (Inr n, scratch) \<Rightarrow> Inr (u32_view scratch n))"

definition tok_parse_buf :: "hunklib \<Rightarrow> nat \<Rightarrow> u8 list \<Rightarrow> string option \<Rightarrow> (buf, u32 list) js" where
  "tok_parse_buf H base src lang = (\<lambda>b.
     let start = rel_index (length (bytes b)) (bidle b) in
     case tok_lex H (base + start) src (tok_lang lang) (bview_idle b) of (r, idle') \<Rightarrow>
       jbind (jput (\<lambda>b. b\<lparr>bytes := splice_at (bytes b) start idle'\<rparr>)) (\<lambda>_.
       jbind (jlift r) (\<lambda>n.
       jbind (Buf_fed (js_nat (n * 4))) (\<lambda>_. jret (u32_view idle' n)))) b)"

text \<open>The cursor over packed tokens; reading past the array is \<open>undefined\<close>, which \<open>>>> 0\<close> makes 0.\<close>

record tokstream =
  ts_t :: "u32 list"
  ts_src :: "u8 list"
  ts_i :: int


definition tok_length :: "tokstream \<Rightarrow> nat" where "tok_length s = length (ts_t s)"

definition tok_at :: "u32 list \<Rightarrow> int \<Rightarrow> u32" where
  "tok_at t i = (if 0 \<le> i \<and> nat i < length t then t ! nat i else 0)"

definition tok_w :: "tokstream \<Rightarrow> u32" where "tok_w s = tok_at (ts_t s) (ts_i s)"
definition tok_tag :: "tokstream \<Rightarrow> nat" where "tok_tag s = 65 + unat (drop_bit 27 (tok_w s))"
definition tok_custom :: "tokstream \<Rightarrow> u32" where "tok_custom s = drop_bit 26 (tok_w s) AND 1"
definition tok_side :: "tokstream \<Rightarrow> u32" where "tok_side s = drop_bit 24 (tok_w s) AND 3"



definition tok_seek :: "jsnum \<Rightarrow> tokstream \<Rightarrow> tokstream" where
  "tok_seek i s = s\<lparr>ts_i := to_int32 i\<rparr>"



section \<open>tty.c\<close>

record 'w ttylib =
  ANSITtyTermiosSize :: nat
  ANSIRaw :: "int \<Rightarrow> 'w \<Rightarrow> (ok64 \<times> u8 list) \<times> 'w"   \<comment> \<open>with the saved termios\<close>
  ANSICook :: "int \<Rightarrow> u8 list \<Rightarrow> 'w \<Rightarrow> ok64 \<times> 'w"
  ANSITtySize :: "int \<Rightarrow> 'w \<Rightarrow> (ok64 \<times> u16 \<times> u16) \<times> 'w"
  ANSIOpenPty :: "'w \<Rightarrow> (ok64 \<times> int \<times> int) \<times> 'w"
  ANSISetSize :: "int \<Rightarrow> u16 \<Rightarrow> u16 \<Rightarrow> 'w \<Rightarrow> ok64 \<times> 'w"
  tty_alloc :: "nat \<Rightarrow> 'w \<Rightarrow> bool"
  tty_errno :: "'w \<Rightarrow> string"

definition JABCttyInt :: "'w engine \<Rightarrow> jsval \<Rightarrow> ('w, int) js" where
  "JABCttyInt E v = jbind (JABCFdOf E v) (\<lambda>fd. jret (sint fd))"

definition JABCttySetNum :: "string \<Rightarrow> int \<Rightarrow> string \<times> jsval" where
  "JABCttySetNum k v = (k, JNum (js_int v))"

definition JABCttyRaw :: "'w engine \<Rightarrow> 'w ttylib \<Rightarrow> jsval list \<Rightarrow> ('w, jout) js" where
  "JABCttyRaw E T argv =
     need 1 ''tty.raw(fd) -> savedTermios'' argv
     (jbind (JABCttyInt E (argv ! 0)) (\<lambda>fd.
      let n = ANSITtyTermiosSize T in
      jbind (jget (tty_alloc T (if n = 0 then 1 else n))) (\<lambda>ok.
      if \<not> ok then jthrow (ThrowError ''tty.raw: out of memory'')
      else jbind (val_or_errno (tty_errno T) (ANSIRaw T fd)) (\<lambda>saved. jret (JBytes saved)))))"

definition JABCttyCook :: "'w engine \<Rightarrow> abc \<Rightarrow> 'w memory \<Rightarrow> 'w ttylib \<Rightarrow> jsval list \<Rightarrow> ('w, jout) js" where
  "JABCttyCook E A M T argv =
     need 2 ''tty.cook(fd, savedTermios)'' argv
     (jbind (JABCttyInt E (argv ! 0)) (\<lambda>fd.
      jbind (JABCDataOf E A (argv ! 1)) (\<lambda>savedb.
      if data_len savedb \<noteq> ANSITtyTermiosSize T
      then jthrow (ThrowError ''tty.cook: saved termios has wrong size'')
      else jbind (data_of M savedb) (\<lambda>saved.
           jbind (or_errno (tty_errno T) (ANSICook T fd saved)) (\<lambda>_. js_undef)))))"

definition JABCttySize :: "'w engine \<Rightarrow> 'w ttylib \<Rightarrow> jsval list \<Rightarrow> ('w, jout) js" where
  "JABCttySize E T argv =
     jbind (case argv of [] \<Rightarrow> jret 1 | v # _ \<Rightarrow> if v = JUndef then jret 1 else JABCttyInt E v) (\<lambda>fd.
     jbind (val_or_errno (tty_errno T) (ANSITtySize T fd)) (\<lambda>(rows, cols).
     jret (JFields [JABCttySetNum ''rows'' (uint rows), JABCttySetNum ''cols'' (uint cols)])))"

definition JABCttyOpenPty :: "'w ttylib \<Rightarrow> jsval list \<Rightarrow> ('w, jout) js" where
  "JABCttyOpenPty T argv =
     jbind (val_or_errno (tty_errno T) (ANSIOpenPty T)) (\<lambda>(master, slave).
     jret (JFields [JABCttySetNum ''master'' master, JABCttySetNum ''slave'' slave]))"

text \<open>
  The sizes are converted with no check: C truncates the fraction, and a value outside 16 bits is
  undefined.
\<close>

definition JABCttySetSize :: "'w engine \<Rightarrow> 'w ttylib \<Rightarrow> jsval list \<Rightarrow> ('w, jout) js" where
  "JABCttySetSize E T argv =
     need 3 ''tty.setSize(fd, rows, cols)'' argv
     (jbind (JABCttyInt E (argv ! 0)) (\<lambda>fd.
      jbind (to_number E (argv ! 1)) (\<lambda>rows.
      jbind (to_number E (argv ! 2)) (\<lambda>cols.
      jbind (cast_or_undef 0 65535 rows) (\<lambda>r.
      jbind (cast_or_undef 0 65535 cols) (\<lambda>c.
      jbind (or_errno (tty_errno T) (ANSISetSize T fd (word_of_int r) (word_of_int c))) (\<lambda>_. js_undef)))))))"

section \<open>ansi.c\<close>

definition ansi_E :: string where "ansi_E = CHR 0x1b # ''[''"
definition ansi_reset :: string where "ansi_reset = ansi_E @ ''0m''"

definition ansi_sgr :: "nat \<Rightarrow> string" where "ansi_sgr n = ansi_E @ decimal n @ ''m''"

definition ansi_wrap :: "nat \<Rightarrow> string \<Rightarrow> string" where
  "ansi_wrap n s = ansi_E @ decimal n @ ''m'' @ s @ ansi_reset"

definition ansi_styles :: "(string \<times> nat) list" where
  "ansi_styles =
     [(''bold'', 1), (''dim'', 2), (''italic'', 3), (''under'', 4), (''rev'', 7),
      (''black'', 30), (''red'', 31), (''green'', 32), (''yellow'', 33),
      (''blue'', 34), (''magenta'', 35), (''cyan'', 36), (''white'', 37), (''grey'', 90)]"

definition ansi_style :: "string \<Rightarrow> string \<Rightarrow> string option" where
  "ansi_style name s = map_option (\<lambda>n. ansi_wrap n s) (map_of ansi_styles name)"

section \<open>\<open>tok.parse\<close> returns the tokens\<close>

lemma cells_nth:
  "i < length ws \<Longrightarrow> take 4 (drop (4 * i) (concat (map (\<lambda>w. le_bytes 4 (unat w)) ws) @ zs)) = le_bytes 4 (unat (ws ! i))"
proof (induction ws arbitrary: i)
  case (Cons w ws)
  then show ?case by (cases i) (simp_all add: drop_append)
qed simp

lemma u32_view_cells:
  "u32_view (concat (map (\<lambda>w. le_bytes 4 (unat w)) (ws :: u32 list)) @ zs) (length ws) = ws"
proof -
  have "word_of_nat (unat (w :: u32) mod 256 ^ 4) = w" for w
    using unat_less_exp [of w] by simp
  then show ?thesis by (auto simp: u32_view_def cells_nth le_nat_le_bytes simp del: take_append drop_append intro!: nth_equalityI)
qed

lemma tok_lex_ok:
  assumes "HUNKu32bTokenize H src ext (length src + 1) = (OK, concat (map (\<lambda>w. le_bytes 4 (unat w)) (ws :: u32 list)))"
    and "length ws \<le> length src + 1" and "length src \<le> TOK_OFF_MASK" and "base mod 4 = 0"
    and "(length src + 1) * 4 \<le> length out"
  obtains zs where "tok_lex H base src ext out = (Inr (length ws), concat (map (\<lambda>w. le_bytes 4 (unat w)) ws) @ zs)"
    "length zs + 4 * length ws = length out"
proof -
  have len: "length (concat (map (\<lambda>w. le_bytes 4 (unat w)) ws)) = 4 * length ws"
    by (induction ws) auto
  show thesis by (rule that [of "drop (4 * length ws) out"]) (use assms in \<open>auto simp: tok_lex_def splice_at_def len\<close>)
qed

text \<open>
  When the lexer fits its tokens in the space it was promised, both forms of \<open>tok.parse\<close> return exactly
  them, and the \<open>Buf\<close> has their bytes appended to its DATA.
\<close>

lemma tok_parse_exact:
  assumes "HUNKu32bTokenize H src (tok_lang lang) (length src + 1) = (OK, concat (map (\<lambda>w. le_bytes 4 (unat w)) ws))"
    and "length ws \<le> length src + 1" and "length src \<le> TOK_OFF_MASK"
  shows "tok_parse H src lang = Inr ws"
proof -
  have "0 mod 4 = (0 :: nat)" "(length src + 1) * 4 \<le> length (replicate (tok_scratch (length src)) (0 :: u8))"
    by (simp_all add: tok_scratch_def)
  from tok_lex_ok [OF assms this] obtain zs where
    "tok_lex H 0 src (tok_lang lang) (replicate (tok_scratch (length src)) 0) =
      (Inr (length ws), concat (map (\<lambda>w. le_bytes 4 (unat w)) ws) @ zs)" by blast
  then show ?thesis by (simp add: tok_parse_def u32_view_cells)
qed

lemma tok_parse_buf_exact:
  assumes "HUNKu32bTokenize H src (tok_lang lang) (length src + 1) = (OK, concat (map (\<lambda>w. le_bytes 4 (unat w)) ws))"
    and "length ws \<le> length src + 1" and "length src \<le> TOK_OFF_MASK"
    and at: "buf_at b d i" and "(base + i) mod 4 = 0" and "(length src + 1) * 4 \<le> cap b - i"
  shows "\<exists>b'. tok_parse_buf H base src lang b = (Inr ws, b') \<and>
    live b' = live b @ concat (map (\<lambda>w. le_bytes 4 (unat w)) ws)"
proof -
  let ?t = "concat (map (\<lambda>w. le_bytes 4 (unat w)) ws)"
  note s = buf_at_simps [OF at]
  have idle: "length (drop i (bytes b)) = cap b - i" using s by simp
  from tok_lex_ok [OF assms(1-3) assms(5), of "drop i (bytes b)"] idle assms(6)
  obtain zs where l: "tok_lex H (base + i) src (tok_lang lang) (drop i (bytes b)) = (Inr (length ws), ?t @ zs)"
    "length zs + 4 * length ws = cap b - i" by metis
  have len: "length ?t = 4 * length ws" by (induction ws) auto
  let ?b1 = "b\<lparr>bytes := splice_at (bytes b) i (?t @ zs)\<rparr>"
  let ?b2 = "?b1\<lparr>bidle := js_nat (i + length ws * 4)\<rparr>"
  have fits: "length (?t @ zs) = cap b - i" using l(2) len by simp
  then have bytes: "splice_at (bytes b) i (?t @ zs) = take i (bytes b) @ ?t @ zs"
    using s(4,5) by (simp add: splice_at_def)
  have at1: "buf_at ?b1 d i" using s fits by (auto intro!: buf_atI)
  have at2: "buf_at ?b2 d (i + length ws * 4)" using s l(2) fits by (auto intro!: buf_atI)
  have "Buf_fed (js_nat (length ws * 4)) ?b1 = (Inr (), ?b2)"
    using l(2) by (simp add: Buf_fed_at [OF at1])
  then have "tok_parse_buf H base src lang b = (Inr ws, ?b2)"
    using l(1) s by (simp add: tok_parse_buf_def jbind_def u32_view_cells jput_def jlift_def jret_def)
  moreover have "live ?b2 = live b @ ?t"
    unfolding buf_at_simps(9) [OF at2] s(9) using s(3-5) len by (simp add: bytes drop_append drop_take)
  ultimately show ?thesis by blast
qed

section \<open>Lemmas\<close>

lemma size_of_nan_undefined:
  assumes "num_faithful E"
  shows "fst (JABCttySetSize E T [JNum (js_nat 0), JNum NaN, JNum (js_nat 80)] w) = Inl CUndef"
proof -
  have "JABCFdOf E (JNum (js_nat 0)) w = (Inr 0, w)"
    using fd_gate.gate_of_number [OF assms, of 0 w]
    by (auto simp: js_nat_def js_int_def) (metis signed_eq_0_iff)
  then show ?thesis
    using assms by (simp add: JABCttySetSize_def JABCttyInt_def num_faithful_def cast_or_undef_def c_cast_def)
qed





end
