(* ===== verification/Git.thy ===== *)
theory Git
  imports Codec
begin

text \<open>
  \<open>git.c\<close>: the read-only waist over a foreign \<open>.git\<close>.  A repository is a slot of a table of 100; what
  JavaScript holds is a pin, eight bytes with the slot's number and its generation.  The object store
  itself is libdog's \<open>ODB\<close>, the record \<open>odblib\<close>; \<open>'o\<close> is its struct.
\<close>

section \<open>State\<close>

definition GIT_MAX_OPEN :: nat where "GIT_MAX_OPEN = 100"

record 'o gitslot =
  g_odb :: 'o
  g_live :: bool
  g_gen :: u32

record ('w, 'o) gitw =
  gw :: 'w
  g_slots :: "'o gitslot list"   \<comment> \<open>\<open>JABC_GITS\<close>\<close>
  g_count :: u32                 \<comment> \<open>\<open>JABC_GIT_GEN\<close>\<close>

datatype gitpin = Pin (pin_gen: u32) (pin_id: u32)

record ('w, 'o) odblib =
  ODBOpen :: "'o \<Rightarrow> string \<Rightarrow> 'w \<Rightarrow> (ok64 \<times> 'o) \<times> 'w"
  ODBClose :: "'o \<Rightarrow> 'w \<Rightarrow> 'o \<times> 'w"
  odb_say :: "'o \<Rightarrow> string"
  ODBWords :: "ok64 \<Rightarrow> string"
  odb_dir :: "'o \<Rightarrow> string"
  odb_objects :: "'o \<Rightarrow> string"
  odb_packs :: "'o \<Rightarrow> nat list"   \<comment> \<open>the object count of each pack\<close>
  ODBHex :: "'o \<Rightarrow> string \<Rightarrow> 'w \<Rightarrow> (ok64 \<times> 'o \<times> u8 list \<times> u8) \<times> 'w"
  ODBSafe :: "'o \<Rightarrow> u8 list \<Rightarrow> 'w \<Rightarrow> (ok64 \<times> 'o \<times> u8 list \<times> u8) \<times> 'w"
  GITTypeName :: "u8 \<Rightarrow> ok64 \<times> u8 list"
  DOG_OBJ_TREE :: u8
  GITTreeDiff :: "u8 list \<Rightarrow> u8 list \<Rightarrow> nat \<Rightarrow> ok64 \<times> u8 list"
  git_hex_ok :: "string \<Rightarrow> bool"       \<comment> \<open>\<open>HEXu8sValid\<close>\<close>
  sha1FromHex :: "string \<Rightarrow> ok64 \<times> u8 list"
  new_pin :: "gitpin \<Rightarrow> 'w \<Rightarrow> (exn + jsval) option \<times> 'w"
    \<comment> \<open>\<open>malloc\<close> (\<open>None\<close> when it fails) and \<open>JABCBytesNoCopy\<close>\<close>
  free_pin :: "gitpin \<Rightarrow> 'w \<Rightarrow> 'w"

definition on_gw :: "('w, 'a) js \<Rightarrow> (('w, 'o) gitw, 'a) js" where
  "on_gw m = (\<lambda>s. case m (gw s) of (r, w) \<Rightarrow> (r, s\<lparr>gw := w\<rparr>))"

section \<open>Slots\<close>

definition JABCGitSay :: "('w, 'o) odblib \<Rightarrow> 'o \<Rightarrow> ok64 \<Rightarrow> string" where
  "JABCGitSay D o' r = (if odb_say D o' \<noteq> [] then odb_say D o' else ODBWords D r)"

definition JABCGitFree :: "('w, 'o) odblib \<Rightarrow> nat \<Rightarrow> ('w, 'o) gitw \<Rightarrow> ('w, 'o) gitw" where
  "JABCGitFree D i s =
     (case ODBClose D (g_odb (g_slots s ! i)) (gw s) of (o', w) \<Rightarrow>
        s\<lparr>gw := w, g_slots := (g_slots s)[i := (g_slots s ! i)\<lparr>g_odb := o', g_live := False\<rparr>]\<rparr>)"

definition pin_live :: "('w, 'o) gitw \<Rightarrow> gitpin \<Rightarrow> bool" where
  "pin_live s p \<longleftrightarrow> unat (pin_id p) < GIT_MAX_OPEN \<and>
     g_live (g_slots s ! unat (pin_id p)) \<and> g_gen (g_slots s ! unat (pin_id p)) = pin_gen p"

text \<open>The pin's finalizer: a handle nobody closed.\<close>

definition JABCGitPinFree :: "('w, 'o) odblib \<Rightarrow> gitpin \<Rightarrow> ('w, 'o) gitw \<Rightarrow> ('w, 'o) gitw" where
  "JABCGitPinFree D p s =
     (let s' = (if pin_live s p then JABCGitFree D (unat (pin_id p)) s else s) in
      s'\<lparr>gw := free_pin D p (gw s')\<rparr>)"

text \<open>The pin is the eight bytes the view shows, whoever wrote them.  A gate's refusal is an exception.\<close>

definition JABCGitOf :: "'w engine \<Rightarrow> abc \<Rightarrow> 'w memory \<Rightarrow> jsval \<Rightarrow> (('w, 'o) gitw, nat option) js" where
  "JABCGitOf E A M v =
     jbind (on_gw (JABCDataOf E A v)) (\<lambda>b.
     if data_len b \<noteq> 8 then jret None
     else
       jbind (on_gw (data_of M b)) (\<lambda>bs.
       let p = Pin (word_of_nat (le_nat (take 4 bs))) (word_of_nat (le_nat (drop 4 bs))) in
       jget (\<lambda>s. if b1 b \<noteq> 0 \<and> pin_live s p then Some (unat (pin_id p)) else None)))"

text \<open>The reads clear a pending refusal and answer in their own words.\<close>

definition git_of_or :: "'w engine \<Rightarrow> abc \<Rightarrow> 'w memory \<Rightarrow> ('w, 'o) odblib \<Rightarrow> jsval \<Rightarrow> (('w, 'o) gitw, nat) js" where
  "git_of_or E A M D v =
     jbind (or_undef (JABCGitOf E A M v)) (\<lambda>r.
     case r of Some (Some i) \<Rightarrow> jret i | _ \<Rightarrow> jthrow (ThrowError (ODBWords D ODBCLOSED)))"

text \<open>A short string; what the callers make of it ends at its first NUL (\<open>strlen\<close>).\<close>

definition jgit_str :: "nat \<Rightarrow> jsval \<Rightarrow> string option" where
  "jgit_str room v =
     (case v of JStr s \<Rightarrow> if s \<noteq> [] \<and> length s < room then Some (takeWhile (\<lambda>c. c \<noteq> CHR 0x00) s) else None
              | _ \<Rightarrow> None)"

definition str_or :: "string \<Rightarrow> nat \<Rightarrow> jsval \<Rightarrow> ('s, string) js" where
  "str_or msg room v = (case jgit_str room v of None \<Rightarrow> jthrow (ThrowError msg) | Some s \<Rightarrow> jret s)"

definition jgit_object :: "('w, 'o) odblib \<Rightarrow> u8 \<Rightarrow> u8 list \<Rightarrow> ('s, (string \<times> jout) list) js" where
  "jgit_object D type content =
     (case GITTypeName D type of (o', tn) \<Rightarrow>
        if o' \<noteq> OK then jthrow (ThrowError (ODBWords D ODBNOTYPE))
        else jret [(''type'', JVal (JABCStrOfSlice tn)), (''bytes'', JBytes content)])"

section \<open>The leaves\<close>

definition free_slot :: "'o gitslot list \<Rightarrow> nat option" where
  "free_slot ss = find (\<lambda>i. \<not> g_live (ss ! i)) [0..<GIT_MAX_OPEN]"

text \<open>Opening takes a slot and a generation; every failure after that gives the slot back.\<close>

definition JABCgitOpen :: "abc \<Rightarrow> ('w, 'o) odblib \<Rightarrow> jsval list \<Rightarrow> (('w, 'o) gitw, (string \<times> jsval) list) js" where
  "JABCgitOpen A D argv =
     need 1 ''git.open(path)'' argv
     (jbind (str_or ''git.open: the path must be a string'' (FILE_PATH_MAX_LEN A) (argv ! 0)) (\<lambda>path s.
      case free_slot (g_slots s) of
        None \<Rightarrow> (Inl (ThrowError (ODBWords D ODBFULL)), s)
      | Some i \<Rightarrow>
          (case ODBOpen D (g_odb (g_slots s ! i)) path (gw s) of ((r, o'), w) \<Rightarrow>
             let sl = (g_slots s ! i)\<lparr>g_odb := o'\<rparr> in
             if r \<noteq> OK then (Inl (ThrowError (JABCGitSay D o' r)), s\<lparr>gw := w, g_slots := (g_slots s)[i := sl]\<rparr>)
             else
               let gen = g_count s + 1;
                   s1 = s\<lparr>gw := w, g_count := gen, g_slots := (g_slots s)[i := sl\<lparr>g_live := True, g_gen := gen\<rparr>]\<rparr> in
               case new_pin D (Pin gen (word_of_nat i)) w of
                 (None, w') \<Rightarrow> (Inl (ThrowError (ODBWords D ODBNOMEM)), JABCGitFree D i (s1\<lparr>gw := w'\<rparr>))
               | (Some (Inl e), w') \<Rightarrow> (Inl e, JABCGitFree D i (s1\<lparr>gw := w'\<rparr>))
               | (Some (Inr ta), w') \<Rightarrow>
                   (Inr [(''pin'', ta), (''dir'', JStr (odb_dir D o')), (''odb'', JStr (odb_objects D o')),
                         (''packs'', JNum (js_nat (length (odb_packs D o')))),
                         (''objects'', JNum (js_nat (sum_list (odb_packs D o'))))], s1\<lparr>gw := w'\<rparr>))))"

text \<open>A call of the store of a slot, which keeps the struct it leaves.\<close>

definition on_store :: "nat \<Rightarrow> ('o \<Rightarrow> 'w \<Rightarrow> (ok64 \<times> 'o \<times> 'a) \<times> 'w) \<Rightarrow> (('w, 'o) gitw, ok64 \<times> 'a) js" where
  "on_store i call = (\<lambda>s.
     case call (g_odb (g_slots s ! i)) (gw s) of ((r, o', x), w) \<Rightarrow>
       (Inr (r, x), s\<lparr>gw := w, g_slots := (g_slots s)[i := (g_slots s ! i)\<lparr>g_odb := o'\<rparr>]\<rparr>))"

definition said :: "('w, 'o) odblib \<Rightarrow> nat \<Rightarrow> ok64 \<Rightarrow> (('w, 'o) gitw, 'a) js" where
  "said D i r = jbind (jget (\<lambda>s. JABCGitSay D (g_odb (g_slots s ! i)) r)) (\<lambda>m. jthrow (ThrowError m))"

definition jgit_read :: "'w engine \<Rightarrow> abc \<Rightarrow> 'w memory \<Rightarrow> ('w, 'o) odblib \<Rightarrow> bool \<Rightarrow> jsval list \<Rightarrow>
    (('w, 'o) gitw, ((string \<times> jout) list) option) js" where
  "jgit_read E A M D safe argv =
     need 2 (if safe then ''git.getSafe(h, sha40)'' else ''git.getHex(h, hexlet)'') argv
     (jbind (git_of_or E A M D (argv ! 0)) (\<lambda>i.
      jbind (str_or ''git: the object name must be a hex string'' 64 (argv ! 1)) (\<lambda>hl.
      jbind (if safe then
               if \<not> git_hex_ok D hl then jthrow (ThrowError (ODBWords D ODBNOTHEX))
               else if length hl \<noteq> 40 then jthrow (ThrowError (ODBWords D ODBSHA40))
               else case sha1FromHex D hl of (o', sha) \<Rightarrow>
                 if o' \<noteq> OK then jthrow (ThrowError (ODBWords D ODBNOTHEX))
                 else on_store i (\<lambda>o'. ODBSafe D o' sha)
             else on_store i (\<lambda>o'. ODBHex D o' hl)) (\<lambda>(r, content, type).
      if r = NODATA then jret None
      else if r \<noteq> OK then said D i r
      else jbind (jgit_object D type content) (\<lambda>x. jret (Some x))))))"

definition JABCgitGet :: "'w engine \<Rightarrow> abc \<Rightarrow> 'w memory \<Rightarrow> ('w, 'o) odblib \<Rightarrow> jsval list \<Rightarrow>
    (('w, 'o) gitw, ((string \<times> jout) list) option) js" where
  "JABCgitGet E A M D argv = jgit_read E A M D False argv"

definition JABCgitGetSafe :: "'w engine \<Rightarrow> abc \<Rightarrow> 'w memory \<Rightarrow> ('w, 'o) odblib \<Rightarrow> jsval list \<Rightarrow>
    (('w, 'o) gitw, ((string \<times> jout) list) option) js" where
  "JABCgitGetSafe E A M D argv = jgit_read E A M D True argv"

text \<open>
  The diff of two trees: the first is copied before the second is read, because both reads share the
  store's scratch.  An unreadable new side is no tree; an unreadable old side is the empty tree.
\<close>

definition zero40 :: string where "zero40 = replicate 40 (CHR ''0'')"

definition jgit_tree_diff :: "('w, 'o) odblib \<Rightarrow> nat \<Rightarrow> string \<Rightarrow> string \<Rightarrow>
    (('w, 'o) gitw, ok64 \<times> (u8 list) option) js" where
  "jgit_tree_diff D i ha hb =
     jbind (if ha = zero40 then jret (OK, Some [])
            else jbind (on_store i (\<lambda>o'. ODBHex D o' ha)) (\<lambda>(r, t, type).
                 jret (if r \<noteq> OK \<and> r \<noteq> NODATA then (r, None)
                       else if r \<noteq> OK \<or> type \<noteq> DOG_OBJ_TREE D then (OK, None) else (OK, Some t)))) (\<lambda>(ra, anew).
     case anew of
       None \<Rightarrow> jret (ra, None)
     | Some anew \<Rightarrow>
         jbind (if hb = zero40 then jret (OK, [])
                else jbind (on_store i (\<lambda>o'. ODBHex D o' hb)) (\<lambda>(r, t, type).
                     jret (if r \<noteq> OK \<and> r \<noteq> NODATA then (r, [])
                           else if r \<noteq> OK \<or> type \<noteq> DOG_OBJ_TREE D then (OK, []) else (OK, t)))) (\<lambda>(rb, tb).
         if rb \<noteq> OK then jret (rb, None)
         else case GITTreeDiff D anew tb (2 * (length anew + length tb) + 64) of (o', res) \<Rightarrow>
                jret (if o' \<noteq> OK then (o', None) else (OK, Some res))))"

definition JABCgitTreeDiff :: "'w engine \<Rightarrow> abc \<Rightarrow> 'w memory \<Rightarrow> ('w, 'o) odblib \<Rightarrow> jsval list \<Rightarrow>
    (('w, 'o) gitw, jout) js" where
  "JABCgitTreeDiff E A M D argv =
     need 3 ''git.getTreeDiff(h, sha40A, sha40B)'' argv
     (jbind (git_of_or E A M D (argv ! 0)) (\<lambda>i.
      jbind (str_or ''git: the object name must be a hex string'' 64 (argv ! 1)) (\<lambda>ha.
      jbind (str_or ''git: the object name must be a hex string'' 64 (argv ! 2)) (\<lambda>hb.
      jbind (jgit_tree_diff D i ha hb) (\<lambda>(r, res).
      if r \<noteq> OK then said D i r
      else case res of None \<Rightarrow> jret (JVal JNull) | Some bs \<Rightarrow> jret (JBytes bs))))))"

text \<open>Closing a pin that is not live is no error; a value that is no view is.\<close>

definition JABCgitClose :: "'w engine \<Rightarrow> abc \<Rightarrow> 'w memory \<Rightarrow> ('w, 'o) odblib \<Rightarrow> jsval list \<Rightarrow>
    (('w, 'o) gitw, jout) js" where
  "JABCgitClose E A M D argv =
     need 1 ''git.close(h)'' argv
     (jbind (JABCGitOf E A M (argv ! 0)) (\<lambda>r.
      jbind (case r of None \<Rightarrow> jret () | Some i \<Rightarrow> jput (JABCGitFree D i)) (\<lambda>_. js_undef)))"

section \<open>The class \<open>GitOdb\<close>\<close>

text \<open>The handle of the bundle: its pin, \<open>null\<close> once it is closed.\<close>

definition GitOdb_live :: "jsval option \<Rightarrow> ('s, jsval) js" where
  "GitOdb_live pin = (case pin of None \<Rightarrow> jthrow (ThrowStr ''git: this repository handle is closed'')
                                | Some p \<Rightarrow> jret p)"

definition GitOdb_getHex :: "'w engine \<Rightarrow> abc \<Rightarrow> 'w memory \<Rightarrow> ('w, 'o) odblib \<Rightarrow> jsval option \<Rightarrow> jsval \<Rightarrow>
    (('w, 'o) gitw, ((string \<times> jout) list) option) js" where
  "GitOdb_getHex E A M D pin hexlet = jbind (GitOdb_live pin) (\<lambda>p. JABCgitGet E A M D [p, hexlet])"

definition GitOdb_getSafe :: "'w engine \<Rightarrow> abc \<Rightarrow> 'w memory \<Rightarrow> ('w, 'o) odblib \<Rightarrow> jsval option \<Rightarrow> jsval \<Rightarrow>
    (('w, 'o) gitw, ((string \<times> jout) list) option) js" where
  "GitOdb_getSafe E A M D pin sha40 = jbind (GitOdb_live pin) (\<lambda>p. JABCgitGetSafe E A M D [p, sha40])"

definition GitOdb_getTreeDiff :: "'w engine \<Rightarrow> abc \<Rightarrow> 'w memory \<Rightarrow> ('w, 'o) odblib \<Rightarrow> jsval option \<Rightarrow> jsval \<Rightarrow>
    jsval \<Rightarrow> (('w, 'o) gitw, jout) js" where
  "GitOdb_getTreeDiff E A M D pin a b = jbind (GitOdb_live pin) (\<lambda>p. JABCgitTreeDiff E A M D [p, a, b])"

definition GitOdb_close :: "'w engine \<Rightarrow> abc \<Rightarrow> 'w memory \<Rightarrow> ('w, 'o) odblib \<Rightarrow> jsval option \<Rightarrow>
    (('w, 'o) gitw, jsval option) js" where
  "GitOdb_close E A M D pin =
     (case pin of None \<Rightarrow> jret None | Some p \<Rightarrow> jbind (JABCgitClose E A M D [p]) (\<lambda>_. jret None))"

section \<open>Stale pins\<close>

text \<open>Fewer slots are live, and a live one has the generation it had.\<close>

definition fewer :: "('w, 'o) gitw \<Rightarrow> ('w, 'o) gitw \<Rightarrow> bool" where
  "fewer s s' \<longleftrightarrow> length (g_slots s') = length (g_slots s) \<and> g_count s' = g_count s \<and>
     (\<forall>i < length (g_slots s). g_live (g_slots s' ! i) \<longrightarrow>
        g_live (g_slots s ! i) \<and> g_gen (g_slots s' ! i) = g_gen (g_slots s ! i))"

definition sheds :: "(('w, 'o) gitw, 'a) js \<Rightarrow> bool" where
  "sheds m \<longleftrightarrow> (\<forall>s. fewer s (snd (m s)))"

lemma fewer_refl [simp]: "fewer s s"
  by (simp add: fewer_def)

lemma fewer_trans: "fewer s t \<Longrightarrow> fewer t u \<Longrightarrow> fewer s u"
  unfolding fewer_def by metis

lemma fewer_world [simp]: "fewer s (t\<lparr>gw := w\<rparr>) = fewer s t"
  by (simp add: fewer_def)

lemma nth_upd: "j < length xs \<Longrightarrow> xs[i := x] ! j = (if i = j then x else xs ! j)"
  by (simp add: nth_list_update)

lemma fewer_free: "fewer s (JABCGitFree D i s)"
  by (auto simp: fewer_def JABCGitFree_def nth_upd split: prod.splits)

lemma sheds_run: "sheds m \<Longrightarrow> m s = (r, s') \<Longrightarrow> fewer s s'"
  unfolding sheds_def by (metis snd_conv)

lemma sheds_jret: "sheds (jret x)" and sheds_jthrow: "sheds (jthrow e)" and sheds_jget: "sheds (jget f)"
  by (simp_all add: sheds_def)

lemma sheds_jbind: "sheds m \<Longrightarrow> (\<And>x. sheds (k x)) \<Longrightarrow> sheds (jbind m k)"
  unfolding sheds_def jbind_def by (auto split: prod.splits sum.splits) (metis fewer_trans snd_conv)+

lemma sheds_if: "sheds a \<Longrightarrow> sheds b \<Longrightarrow> sheds (if c then a else b)"
  by simp

lemma sheds_on_gw: "sheds (on_gw m)"
  by (simp add: sheds_def on_gw_def split: prod.splits)

lemma sheds_catch: "sheds m \<Longrightarrow> (\<And>e. sheds (h e)) \<Longrightarrow> sheds (jcatch m h)"
  unfolding sheds_def jcatch_def by (auto split: prod.splits sum.splits) (metis fewer_trans snd_conv)+

lemma sheds_option: "sheds a \<Longrightarrow> (\<And>x. sheds (b x)) \<Longrightarrow> sheds (case z of None \<Rightarrow> a | Some x \<Rightarrow> b x)"
  by (cases z) simp_all

lemma sheds_prod: "(\<And>x y. sheds (f x y)) \<Longrightarrow> sheds (case z of (x, y) \<Rightarrow> f x y)"
  by (cases z) simp

lemma sheds_free: "sheds (jput (JABCGitFree D i))"
  by (simp add: sheds_def fewer_free)

lemma sheds_store: "sheds (on_store i call)"
  unfolding sheds_def on_store_def by (auto simp: fewer_def nth_upd split: prod.splits)

lemma sheds_need: "sheds m \<Longrightarrow> sheds (need n u argv m)"
  by (simp add: need_def sheds_jthrow)

lemmas sheds_rules = sheds_jret sheds_jthrow sheds_jget sheds_jbind sheds_if sheds_on_gw sheds_catch
  sheds_option sheds_prod sheds_free sheds_store sheds_need

lemma sheds_GitOf: "sheds (JABCGitOf E A M v)"
  unfolding JABCGitOf_def Let_def by (intro sheds_rules)

lemma sheds_of_or: "sheds (git_of_or E A M D v)"
  unfolding git_of_or_def or_undef_def by (intro sheds_rules sheds_GitOf)

lemma sheds_str_or: "sheds (str_or m n v)"
  unfolding str_or_def by (intro sheds_rules)

lemma sheds_said: "sheds (said D i r)"
  unfolding said_def by (intro sheds_rules)

lemma sheds_object: "sheds (jgit_object D t c)"
  unfolding jgit_object_def by (intro sheds_rules)

lemma sheds_read: "sheds (jgit_read E A M D safe argv)"
  unfolding jgit_read_def by (intro sheds_rules sheds_of_or sheds_str_or sheds_said sheds_object)

lemma sheds_diff: "sheds (JABCgitTreeDiff E A M D argv)"
  unfolding JABCgitTreeDiff_def jgit_tree_diff_def
  by (intro sheds_rules sheds_of_or sheds_str_or sheds_said)

lemma sheds_close: "sheds (JABCgitClose E A M D argv)"
  unfolding JABCgitClose_def by (intro sheds_rules sheds_GitOf)

lemma fewer_pin_free: "fewer s (JABCGitPinFree D p s)"
  by (simp add: JABCGitPinFree_def Let_def fewer_free)

text \<open>
  Everything that touches the table: the leaves, the finalizer of a pin, and whatever else happens to
  the world.  The number counts the calls of \<open>git.open\<close>.
\<close>

inductive git_steps :: "('w, 'o) odblib \<Rightarrow> ('w, 'o) gitw \<Rightarrow> nat \<Rightarrow> ('w, 'o) gitw \<Rightarrow> bool" for D s where
  start: "git_steps D s 0 s"
| opens: "git_steps D s n t \<Longrightarrow> JABCgitOpen A D argv t = (r, u) \<Longrightarrow> git_steps D s (Suc n) u"
| reads: "git_steps D s n t \<Longrightarrow> jgit_read E A M D safe argv t = (q, u) \<Longrightarrow> git_steps D s n u"
| diffs: "git_steps D s n t \<Longrightarrow> JABCgitTreeDiff E A M D argv t = (q', u) \<Longrightarrow> git_steps D s n u"
| closes: "git_steps D s n t \<Longrightarrow> JABCgitClose E A M D argv t = (q', u) \<Longrightarrow> git_steps D s n u"
| finalizes: "git_steps D s n t \<Longrightarrow> git_steps D s n (JABCGitPinFree D p t)"
| world: "git_steps D s n t \<Longrightarrow> git_steps D s n (t\<lparr>gw := w\<rparr>)"

text \<open>Every live slot was live at the start, with its generation, or has a later one.\<close>

definition later :: "nat \<Rightarrow> ('w, 'o) gitw \<Rightarrow> ('w, 'o) gitw \<Rightarrow> bool" where
  "later n s t \<longleftrightarrow> length (g_slots t) = length (g_slots s) \<and>
     uint (g_count s) \<le> uint (g_count t) \<and> uint (g_count t) \<le> uint (g_count s) + int n \<and>
     (\<forall>i < length (g_slots s). g_live (g_slots t ! i) \<longrightarrow>
        g_live (g_slots s ! i) \<and> g_gen (g_slots t ! i) = g_gen (g_slots s ! i) \<or>
        uint (g_count s) < uint (g_gen (g_slots t ! i)))"

lemma later_refl: "later 0 s s"
  by (simp add: later_def)

lemma later_fewer: "later n s t \<Longrightarrow> fewer t u \<Longrightarrow> later n s u"
  unfolding later_def fewer_def by metis

lemma later_Suc: "later n s t \<Longrightarrow> later (Suc n) s t"
  unfolding later_def by auto

lemma uint_next: "uint (c :: u32) + 1 < 2 ^ 32 \<Longrightarrow> uint (c + 1) = uint c + 1"
  by (simp add: uint_word_ariths)

lemma later_open:
  assumes "later n s t" and "uint (g_count s) + int (Suc n) < 2 ^ 32"
  shows "later (Suc n) s
    (t\<lparr>g_count := g_count t + 1,
       g_slots := (g_slots t)[i := sl\<lparr>g_odb := o', g_live := True, g_gen := g_count t + 1\<rparr>], gw := w\<rparr>)"
proof -
  have "uint (g_count t + 1) = uint (g_count t) + 1"
    using assms by (intro uint_next) (auto simp: later_def)
  with assms(1) show ?thesis
    unfolding later_def by (auto simp: nth_upd)
qed

lemma open_later:
  assumes "later n s t" and "JABCgitOpen A D argv t = (r, u)" and "uint (g_count s) + int (Suc n) < 2 ^ 32"
  shows "later (Suc n) s u"
proof (cases "length argv < 1 \<or> jgit_str (FILE_PATH_MAX_LEN A) (argv ! 0) = None \<or> free_slot (g_slots t) = None")
  case True
  then have "u = t" using assms(2)
    by (auto simp: JABCgitOpen_def need_def str_or_def split: if_splits option.splits)
  with assms(1) show ?thesis by (simp add: later_Suc)
next
  case False
  then obtain path i where p: "jgit_str (FILE_PATH_MAX_LEN A) (argv ! 0) = Some path" "free_slot (g_slots t) = Some i"
    and argv: "1 \<le> length argv" by (metis not_less not_None_eq)
  obtain c o' w where op: "ODBOpen D (g_odb (g_slots t ! i)) path (gw t) = ((c, o'), w)" by (metis prod.collapse)
  obtain q w' where q: "new_pin D (Pin (g_count t + 1) (word_of_nat i)) w = (q, w')" by (metis prod.collapse)
  show ?thesis
  proof (cases "c = OK")
    case False
    then have "u = t\<lparr>gw := w, g_slots := (g_slots t)[i := (g_slots t ! i)\<lparr>g_odb := o'\<rparr>]\<rparr>"
      using assms(2) p argv op by (simp add: JABCgitOpen_def str_or_def Let_def)
    then have "fewer t u" by (auto simp: fewer_def nth_upd)
    with assms(1) show ?thesis by (blast intro: later_Suc later_fewer)
  next
    case True
    let ?u = "t\<lparr>g_count := g_count t + 1,
      g_slots := (g_slots t)[i := (g_slots t ! i)\<lparr>g_odb := o', g_live := True, g_gen := g_count t + 1\<rparr>],
      gw := w'\<rparr>"
    have "u = ?u \<or> u = JABCGitFree D i ?u"
      using assms(2) p argv op q True
      by (auto simp: JABCgitOpen_def str_or_def Let_def split: option.splits sum.splits)
    then have "fewer ?u u" using fewer_free by auto
    with later_open [OF assms(1,3)] show ?thesis by (rule later_fewer)
  qed
qed

lemma steps_later:
  assumes "git_steps D s n t" and "uint (g_count s) + int n < 2 ^ 32"
  shows "later n s t"
  using assms
proof (induction rule: git_steps.induct)
  case (opens n t A argv r u)
  then show ?case by (intro open_later [OF _ opens.hyps(2)]) simp_all
next
  case (reads n t E A M safe argv q u)
  then show ?case by (blast intro: later_fewer sheds_run [OF sheds_read])
next
  case (diffs n t E A M argv q' u)
  then show ?case by (blast intro: later_fewer sheds_run [OF sheds_diff])
next
  case (closes n t E A M argv q' u)
  then show ?case by (blast intro: later_fewer sheds_run [OF sheds_close])
next
  case (finalizes n t p)
  then show ?case by (blast intro: later_fewer fewer_pin_free)
next
  case (world n t w)
  then show ?case by (auto simp: later_def)
qed (rule later_refl)

definition gits_ok :: "('w, 'o) gitw \<Rightarrow> bool" where
  "gits_ok s \<longleftrightarrow> length (g_slots s) = GIT_MAX_OPEN \<and>
     (\<forall>i < GIT_MAX_OPEN. uint (g_gen (g_slots s ! i)) \<le> uint (g_count s))"

text \<open>
  C18: once a repository is closed its pin never resolves again, whatever is opened (into the same slot
  too), read, closed or finalized afterwards, as long as the 32-bit generation does not come round;
  and the finalizer of the pin then leaves every slot as it is.
\<close>

theorem closed_pin_never_resolves:
  assumes "gits_ok s" and "pin_live s p"
    and "git_steps D (JABCGitFree D (unat (pin_id p)) s) n t"
    and "uint (g_count s) + int n < 2 ^ 32"
  shows "\<not> pin_live t p \<and> g_slots (JABCGitPinFree D p t) = g_slots t"
proof -
  let ?s = "JABCGitFree D (unat (pin_id p)) s" and ?i = "unat (pin_id p)"
  have i: "?i < GIT_MAX_OPEN" and gen: "uint (pin_gen p) \<le> uint (g_count s)"
    using assms(1,2) by (auto simp: gits_ok_def pin_live_def)
  have s: "length (g_slots ?s) = GIT_MAX_OPEN" "g_count ?s = g_count s" "\<not> g_live (g_slots ?s ! ?i)"
    using assms(1) i by (auto simp: JABCGitFree_def gits_ok_def split: prod.splits)
  have "later n ?s t" by (rule steps_later [OF assms(3)]) (use assms(4) in \<open>simp only: s(2)\<close>)
  with s i have "g_live (g_slots t ! ?i) \<Longrightarrow> uint (g_count s) < uint (g_gen (g_slots t ! ?i))"
    by (auto simp: later_def)
  with gen have "\<not> pin_live t p" by (auto simp: pin_live_def)
  then show ?thesis by (simp add: JABCGitPinFree_def Let_def)
qed

text \<open>A store of nothing: every path opens, and the struct is the path.\<close>

definition path_odb :: "(nat, string) odblib" where
  "path_odb = \<lparr>ODBOpen = (\<lambda>o' p w. ((OK, p), w)), ODBClose = (\<lambda>o' w. ([], w)), odb_say = (\<lambda>o'. []),
     ODBWords = (\<lambda>r. ''git''), odb_dir = (\<lambda>o'. o'), odb_objects = (\<lambda>o'. o'), odb_packs = (\<lambda>o'. []),
     ODBHex = (\<lambda>o' h w. ((NODATA, o', [], 0), w)), ODBSafe = (\<lambda>o' h w. ((NODATA, o', [], 0), w)),
     GITTypeName = (\<lambda>t. (OK, [])), DOG_OBJ_TREE = 2, GITTreeDiff = (\<lambda>a b n. (OK, [])),
     git_hex_ok = (\<lambda>h. True), sha1FromHex = (\<lambda>h. (OK, [])),
     new_pin = (\<lambda>p w. (Some (Inr (JObj w)), w + 1)), free_pin = (\<lambda>p w. w)\<rparr>"

definition one_repo :: "(nat, string) gitw" where
  "one_repo = \<lparr>gw = 0, g_slots = replicate 100 \<lparr>g_odb = ''a'', g_live = True, g_gen = 1\<rparr>, g_count = 1\<rparr>"

text \<open>The slot of a closed repository is opened again: the old pin names the slot and is refused.\<close>

theorem closed_pin_never_resolves_witness:
  "\<not> pin_live (snd (JABCgitOpen sample_abc path_odb [JStr ''b''] (JABCGitFree path_odb 5 one_repo))) (Pin 1 5)"
proof -
  let ?s = "JABCGitFree path_odb (unat (pin_id (Pin 1 5))) one_repo"
  have "git_steps path_odb ?s (Suc 0) (snd (JABCgitOpen sample_abc path_odb [JStr ''b''] ?s))"
    by (rule opens [OF start]) (rule surjective_pairing)
  moreover have "gits_ok one_repo" "pin_live one_repo (Pin 1 5)"
    by (simp_all add: gits_ok_def pin_live_def one_repo_def GIT_MAX_OPEN_def)
  ultimately show ?thesis
    using closed_pin_never_resolves [of one_repo "Pin 1 5" path_odb "Suc 0"] by (simp add: one_repo_def)
qed

text \<open>\<open>never a silent truncation\<close>: a path with an inner NUL opens the path before it.\<close>

lemma path_cut_at_nul:
  "jgit_str 1024 (JStr (''repo'' @ CHR 0x00 # ''/../other'')) = Some ''repo''"
  by (simp add: jgit_str_def)

end
