(* ===== verification/Http.thy ===== *)
theory Http
  imports Codec
begin

text \<open>
  \<open>http.c\<close>: one message head, lexed off a byte view and spelled from an object.  The grammar and the
  speller are libabc's \<open>HTTP\<close>, the record \<open>httplib\<close>; the checks in front of the speller are the
  program's own, and keep a field from ending its line.
\<close>

section \<open>Parsing\<close>

definition JHTTP_BYTES :: nat where "JHTTP_BYTES = 65536"
definition JHTTP_TOKS :: nat where "JHTTP_TOKS = 2048"

text \<open>
  What the lexer marked, as offsets and lengths in its input (\<open>None\<close> where it marked nothing), and how
  much of the input it did not reach.
\<close>

record lexed =
  lx_method :: "(nat \<times> nat) option"
  lx_uri :: "(nat \<times> nat) option"
  lx_version :: "(nat \<times> nat) option"
  lx_status :: "(nat \<times> nat) option"
  lx_reason :: "(nat \<times> nat) option"
  lx_pairs :: "(nat \<times> nat) list"
  lx_left :: nat

text \<open>A head to be spelled: its fields, and the flat list of names and values.\<close>

record httpstate =
  h_method :: "u8 list option"
  h_uri :: "u8 list option"
  h_version :: "u8 list option"
  h_status :: "u8 list option"
  h_reason :: "u8 list option"
  h_headers :: "(u8 list option) list"

record 'w httplib =
  HTTPutf8Drain :: "u8 list \<Rightarrow> nat \<Rightarrow> ok64 \<times> lexed"
  HTTPutf8Feed :: "httpstate \<Rightarrow> nat \<Rightarrow> ok64 \<times> u8 list"
  u64decdrain :: "u8 list \<Rightarrow> ok64 \<times> u64"
  to_cstr :: "jsval \<Rightarrow> ('w, string) js"   \<comment> \<open>\<open>JS_ToCStringLen\<close>, which runs an object's \<open>toString\<close>\<close>

definition lx_end :: "(nat \<times> nat) \<Rightarrow> nat" where "lx_end p = fst p + snd p"

text \<open>
  The code of a drain, and the head's length: four bytes (CRLF CRLF) behind the last token.  A lexer
  that stopped at the end of its input has seen a head that is not all there.
\<close>

definition jhttp_drain :: "'w httplib \<Rightarrow> u8 list \<Rightarrow> ok64 \<times> lexed \<times> nat" where
  "jhttp_drain H inp =
     (let toks = length inp div 2 + 4 in
      case HTTPutf8Drain H inp (if toks < JHTTP_TOKS then toks else JHTTP_TOKS) of (r, x) \<Rightarrow>
        if r \<noteq> OK then (if r = HTTPBAD \<and> lx_left x = 0 then HTTPNONE else r, x, 0)
        else
          let e = (case lx_version x of None \<Rightarrow> 0 | Some p \<Rightarrow> lx_end p);
              e = (case lx_reason x of None \<Rightarrow> e | Some p \<Rightarrow> lx_end p);
              e = (if lx_pairs x = [] then e else lx_end (last (lx_pairs x))) in
          (OK, x, e + 4))"

definition cut :: "u8 list \<Rightarrow> (nat \<times> nat) \<Rightarrow> u8 list" where
  "cut inp p = take (snd p) (drop (fst p) inp)"

definition jhttp_str :: "u8 list \<Rightarrow> (nat \<times> nat) option \<Rightarrow> jsval" where
  "jhttp_str inp s = (case s of None \<Rightarrow> JUndef | Some p \<Rightarrow> JABCStrOfSlice (cut inp p))"

definition jhttp_code :: "'w httplib \<Rightarrow> u8 list \<Rightarrow> (nat \<times> nat) option \<Rightarrow> jsval" where
  "jhttp_code H inp s =
     (case s of None \<Rightarrow> JUndef
      | Some p \<Rightarrow> (case u64decdrain H (cut inp p) of (r, n) \<Rightarrow>
                    if r \<noteq> OK then JUndef else JNum (js_nat (unat n))))"

text \<open>\<open>for (i = 0; i + 1 < len; i += 2)\<close>: a name without a value is left out.\<close>

fun header_pairs :: "u8 list \<Rightarrow> (nat \<times> nat) list \<Rightarrow> (jsval \<times> jsval) list" where
  "header_pairs inp (n # v # ps) = (JABCStrOfSlice (cut inp n), JABCStrOfSlice (cut inp v)) # header_pairs inp ps"
| "header_pairs inp _ = []"

record jhttp_head =
  jh_fields :: "(string \<times> jsval) list"
  jh_headers :: "(jsval \<times> jsval) list"
  jh_length :: nat

definition JABChttpDrain :: "'w engine \<Rightarrow> abc \<Rightarrow> 'w memory \<Rightarrow> 'w httplib \<Rightarrow> jsval list \<Rightarrow> ('w, jhttp_head option) js" where
  "JABChttpDrain E A M H argv =
     need 1 ''http._drain(Uint8Array)'' argv
     (jbind (JABCDataOf E A (argv ! 0)) (\<lambda>tab.
      jbind (data_of M tab) (\<lambda>inp.
      case jhttp_drain H inp of (r, x, n) \<Rightarrow>
        if r = HTTPNONE then jret None
        else if r = HTTPBAD then jthrow (ThrowError ''http: malformed message head'')
        else if r \<noteq> OK then jthrow (ThrowError ''http: the message head has too many headers'')
        else jret (Some \<lparr>
          jh_fields = [(''method'', jhttp_str inp (lx_method x)), (''uri'', jhttp_str inp (lx_uri x)),
                       (''version'', jhttp_str inp (lx_version x)), (''status'', jhttp_code H inp (lx_status x)),
                       (''reason'', jhttp_str inp (lx_reason x))],
          jh_headers = header_pairs inp (lx_pairs x), jh_length = n\<rparr>))))"

section \<open>Spelling\<close>

datatype jhttp_shape = JHTTP_TOKEN | JHTTP_TEXT | JHTTP_BARE

text \<open>The punctuation of a token: \<open>!#$%&'*+-.^_`|~\<close>.\<close>

definition tchar :: "u8 list" where
  "tchar = [0x21, 0x23, 0x24, 0x25, 0x26, 0x27, 0x2a, 0x2b, 0x2d, 0x2e, 0x5e, 0x5f, 0x60, 0x7c, 0x7e]"

definition jhttp_byte :: "u8 \<Rightarrow> jhttp_shape \<Rightarrow> bool" where
  "jhttp_byte b shape =
     (case shape of
        JHTTP_BARE \<Rightarrow> b \<noteq> 13 \<and> b \<noteq> 10 \<and> b \<noteq> 0
      | JHTTP_TEXT \<Rightarrow> b = 9 \<or> 0x20 \<le> b \<and> b \<noteq> 0x7f
      | JHTTP_TOKEN \<Rightarrow> 48 \<le> b \<and> b \<le> 57 \<or> 97 \<le> b \<and> b \<le> 122 \<or> 65 \<le> b \<and> b \<le> 90 \<or> b \<in> set tchar)"

definition jhttp_valid :: "u8 list \<Rightarrow> jhttp_shape \<Rightarrow> ok64" where
  "jhttp_valid s shape = (if list_all (\<lambda>b. jhttp_byte b shape) s then OK else HTTPFAIL)"

text \<open>The flow of libabc's procedures: the first code that is not \<open>OK\<close> is the result.\<close>

definition cret :: "'a \<Rightarrow> ('w, ok64 + 'a) js" where "cret x = jret (Inr x)"
definition cfail :: "ok64 \<Rightarrow> ('w, ok64 + 'a) js" where "cfail c = jret (Inl c)"

definition cbind :: "('w, ok64 + 'a) js \<Rightarrow> ('a \<Rightarrow> ('w, ok64 + 'b) js) \<Rightarrow> ('w, ok64 + 'b) js" where
  "cbind m k = jbind m (\<lambda>r. case r of Inl c \<Rightarrow> jret (Inl c) | Inr x \<Rightarrow> k x)"

text \<open>A call of the engine whose exception becomes a code.\<close>

definition or_code :: "ok64 \<Rightarrow> ('w, 'a) js \<Rightarrow> ('w, ok64 + 'a) js" where
  "or_code c m = jcatch (jbind m cret) (\<lambda>e. if e = CUndef then jthrow e else cfail c)"

text \<open>
  A value's bytes, appended to the text scratch of which \<open>room\<close> bytes are left; a missing value is no
  slice at all.
\<close>

definition jhttp_bytes :: "'w httplib \<Rightarrow> nat \<Rightarrow> jsval \<Rightarrow> jhttp_shape \<Rightarrow> ('w, ok64 + (u8 list option) \<times> nat) js" where
  "jhttp_bytes H room v shape =
     (if v = JUndef \<or> v = JNull then cret (None, room)
      else cbind (or_code HTTPBAD (to_cstr H v)) (\<lambda>s.
           let from = bytes_of s in
           if jhttp_valid from shape \<noteq> OK then cfail HTTPFAIL
           else if room < length from then cfail SNOROOM
           else cret (Some from, room - length from)))"

definition jhttp_slot :: "'w engine \<Rightarrow> 'w httplib \<Rightarrow> nat \<Rightarrow> jsval \<Rightarrow> string \<Rightarrow> jhttp_shape \<Rightarrow>
    ('w, ok64 + (u8 list option) \<times> nat) js" where
  "jhttp_slot E H room head name shape =
     cbind (or_code HTTPBAD (get_prop E head name)) (\<lambda>v. jhttp_bytes H room v shape)"

text \<open>The headers, pair by pair; \<open>left\<close> slots of the token list remain.\<close>

primrec header_slots :: "'w engine \<Rightarrow> 'w httplib \<Rightarrow> nat \<Rightarrow> nat \<Rightarrow> jsval \<Rightarrow> nat \<Rightarrow> nat \<Rightarrow>
    ('w, ok64 + (u8 list option) list \<times> nat) js" where
  "header_slots E H room left hs i 0 = cret ([], room)"
| "header_slots E H room left hs i (Suc n) =
     cbind (or_code HTTPBAD (get_index E hs i)) (\<lambda>pair.
     cbind (or_code HTTPBAD (get_index E pair 0)) (\<lambda>nm.
     cbind (jhttp_bytes H room nm JHTTP_TOKEN) (\<lambda>(name, room).
     cbind (or_code HTTPBAD (get_index E pair 1)) (\<lambda>vl.
     cbind (jhttp_bytes H room vl JHTTP_TEXT) (\<lambda>(val, room).
     if left < 2 then cfail SNOROOM
     else cbind (header_slots E H room (left - 2) hs (i + 1) n) (\<lambda>(rest, room).
          cret (name # val # rest, room)))))))"

definition to_uint32 :: "jsnum \<Rightarrow> nat" where
  "to_uint32 d = (case d of Fin r \<Rightarrow> nat (trunc r mod 2 ^ 32) | _ \<Rightarrow> 0)"

text \<open>Headers that are no object, and a length that does not convert, are no headers at all.\<close>

definition jhttp_slots :: "'w engine \<Rightarrow> 'w httplib \<Rightarrow> nat \<Rightarrow> jsval \<Rightarrow> ('w, ok64 + (u8 list option) list \<times> nat) js" where
  "jhttp_slots E H room head =
     jbind (or_undef (get_prop E head ''headers'')) (\<lambda>hs.
     case hs of
       Some (JObj h) \<Rightarrow>
         jbind (or_undef (jbind (get_prop E (JObj h) ''length'') (to_number E))) (\<lambda>n.
         header_slots E H room JHTTP_TOKS (JObj h) 0 (case n of None \<Rightarrow> 0 | Some d \<Rightarrow> to_uint32 d))
     | _ \<Rightarrow> cret ([], room))"

definition jhttp_state :: "'w engine \<Rightarrow> 'w httplib \<Rightarrow> jsval \<Rightarrow> ('w, ok64 + httpstate) js" where
  "jhttp_state E H head =
     cbind (jhttp_slot E H JHTTP_BYTES head ''method'' JHTTP_TOKEN) (\<lambda>(m, room).
     cbind (jhttp_slot E H room head ''uri'' JHTTP_BARE) (\<lambda>(u, room).
     cbind (jhttp_slot E H room head ''version'' JHTTP_BARE) (\<lambda>(v, room).
     cbind (jhttp_slot E H room head ''status'' JHTTP_BARE) (\<lambda>(s, room).
     cbind (jhttp_slot E H room head ''reason'' JHTTP_TEXT) (\<lambda>(r, room).
     cbind (jhttp_slots E H room head) (\<lambda>(hs, room).
     cret \<lparr>h_method = m, h_uri = u, h_version = v, h_status = s, h_reason = r, h_headers = hs\<rparr>))))))"

definition jhttp_feed :: "'w engine \<Rightarrow> 'w httplib \<Rightarrow> jsval \<Rightarrow> ('w, ok64 + u8 list) js" where
  "jhttp_feed E H head =
     cbind (jhttp_state E H head) (\<lambda>http.
     case HTTPutf8Feed H http JHTTP_BYTES of (r, spelled) \<Rightarrow> if r \<noteq> OK then cfail r else cret spelled)"

definition JABChttpFeed :: "'w engine \<Rightarrow> 'w httplib \<Rightarrow> jsval list \<Rightarrow> ('w, jout) js" where
  "JABChttpFeed E H argv =
     (if length argv < 1 \<or> \<not> is_obj (argv ! 0) then jthrow (ThrowError ''http._feed(head)'')
      else jbind (jhttp_feed E H (argv ! 0)) (\<lambda>r.
        case r of
          Inl c \<Rightarrow> jthrow (ThrowError
            (if c = SNOROOM then ''http: the message head is over 64K''
             else if c = HTTPFAIL then ''http: bad byte in a message head field''
             else ''http: the message head cannot be spelled''))
        | Inr out \<Rightarrow> jret (JBytes out)))"

section \<open>No field ends its line\<close>

definition slot_ok :: "jhttp_shape \<Rightarrow> u8 list option \<Rightarrow> bool" where
  "slot_ok shape s = (case s of None \<Rightarrow> True | Some bs \<Rightarrow> list_all (\<lambda>b. jhttp_byte b shape) bs)"

fun headers_ok :: "(u8 list option) list \<Rightarrow> bool" where
  "headers_ok [] = True"
| "headers_ok [x] = False"
| "headers_ok (n # v # hs) = (slot_ok JHTTP_TOKEN n \<and> slot_ok JHTTP_TEXT v \<and> headers_ok hs)"

definition head_ok :: "httpstate \<Rightarrow> bool" where
  "head_ok h \<longleftrightarrow> slot_ok JHTTP_TOKEN (h_method h) \<and> slot_ok JHTTP_BARE (h_uri h) \<and>
     slot_ok JHTTP_BARE (h_version h) \<and> slot_ok JHTTP_BARE (h_status h) \<and>
     slot_ok JHTTP_TEXT (h_reason h) \<and> headers_ok (h_headers h)"

definition slot_len :: "u8 list option \<Rightarrow> nat" where
  "slot_len s = (case s of None \<Rightarrow> 0 | Some bs \<Rightarrow> length bs)"

definition head_slots :: "httpstate \<Rightarrow> (u8 list option) list" where
  "head_slots h = h_method h # h_uri h # h_version h # h_status h # h_reason h # h_headers h"

lemma cbind_Inr: "cbind m k w = (Inr (Inr y), w') \<longleftrightarrow>
    (\<exists>x w1. m w = (Inr (Inr x), w1) \<and> k x w1 = (Inr (Inr y), w'))"
  by (fastforce simp: cbind_def jbind_def jret_def split: prod.splits sum.splits)

lemma cret_Inr: "cret x w = (Inr (Inr y), w') \<longleftrightarrow> y = x \<and> w' = w"
  by (auto simp: cret_def)

lemma cfail_Inr: "cfail c w \<noteq> (Inr (Inr y), w')"
  by (simp add: cfail_def)

lemma bytes_ok:
  assumes "jhttp_bytes H room v shape w = (Inr (Inr (s, room')), w')"
  shows "slot_ok shape s \<and> room' + slot_len s = room"
  using assms
  by (auto simp: jhttp_bytes_def cbind_Inr cret_Inr cfail_Inr jhttp_valid_def slot_ok_def slot_len_def Let_def
      split: if_splits)

lemma slot_keeps:
  assumes "jhttp_slot E H room head name shape w = (Inr (Inr (s, room')), w')"
  shows "slot_ok shape s \<and> room' + slot_len s = room"
proof -
  obtain v w1 where "jhttp_bytes H room v shape w1 = (Inr (Inr (s, room')), w')"
    using assms unfolding jhttp_slot_def cbind_Inr by blast
  then show ?thesis by (rule bytes_ok)
qed

lemma header_slots_ok:
  assumes "header_slots E H room left hs i n w = (Inr (Inr (out, room')), w')"
  shows "headers_ok out \<and> room' + sum_list (map slot_len out) = room \<and> length out \<le> left"
  using assms
proof (induction n arbitrary: room left i w out room')
  case 0
  then show ?case by (simp add: cret_Inr)
next
  case (Suc n)
  then obtain nm w1 name room1 w2 vl w3 val room2 w4 rest
    where name: "jhttp_bytes H room nm JHTTP_TOKEN w1 = (Inr (Inr (name, room1)), w2)"
      and val: "jhttp_bytes H room1 vl JHTTP_TEXT w3 = (Inr (Inr (val, room2)), w4)"
      and left: "\<not> left < 2"
      and rest: "header_slots E H room2 (left - 2) hs (i + 1) n w4 = (Inr (Inr (rest, room')), w')"
      and out: "out = name # val # rest"
    by (auto simp: cbind_Inr cret_Inr cfail_Inr split: if_splits)
  from Suc.IH [OF rest] bytes_ok [OF name] bytes_ok [OF val] left out show ?case by auto
qed

lemma slots_keep:
  assumes "jhttp_slots E H room head w = (Inr (Inr (out, room')), w')"
  shows "headers_ok out \<and> room' + sum_list (map slot_len out) = room \<and> length out \<le> JHTTP_TOKS"
proof -
  obtain hs w1 where run: "(case hs of
       Some (JObj h) \<Rightarrow>
         jbind (or_undef (jbind (get_prop E (JObj h) ''length'') (to_number E))) (\<lambda>n.
         header_slots E H room JHTTP_TOKS (JObj h) 0 (case n of None \<Rightarrow> 0 | Some d \<Rightarrow> to_uint32 d))
     | _ \<Rightarrow> cret ([], room)) w1 = (Inr (Inr (out, room')), w')"
    using assms unfolding jhttp_slots_def jbind_eq_Inr by blast
  show ?thesis
  proof (cases "\<exists>h. hs = Some (JObj h)")
    case True
    then obtain h where hs: "hs = Some (JObj h)" ..
    from run obtain n w2 where "header_slots E H room JHTTP_TOKS (JObj h) 0 n w2 = (Inr (Inr (out, room')), w')"
      unfolding hs option.case jsval.case jbind_eq_Inr by blast
    then show ?thesis by (rule header_slots_ok)
  next
    case False
    then have "cret ([], room) w1 = (Inr (Inr (out, room')), w')"
      using run by (simp split: option.splits jsval.splits)
    then show ?thesis by (simp add: cret_Inr)
  qed
qed

lemma state_ok:
  assumes "jhttp_state E H head w = (Inr (Inr h), w')"
  shows "head_ok h \<and> sum_list (map slot_len (head_slots h)) \<le> JHTTP_BYTES \<and> length (h_headers h) \<le> JHTTP_TOKS"
proof -
  obtain m r1 w1 u r2 w2 v r3 w3 s r4 w4 r r5 w5 hs r6
    where "jhttp_slot E H JHTTP_BYTES head ''method'' JHTTP_TOKEN w = (Inr (Inr (m, r1)), w1)"
      and "jhttp_slot E H r1 head ''uri'' JHTTP_BARE w1 = (Inr (Inr (u, r2)), w2)"
      and "jhttp_slot E H r2 head ''version'' JHTTP_BARE w2 = (Inr (Inr (v, r3)), w3)"
      and "jhttp_slot E H r3 head ''status'' JHTTP_BARE w3 = (Inr (Inr (s, r4)), w4)"
      and "jhttp_slot E H r4 head ''reason'' JHTTP_TEXT w4 = (Inr (Inr (r, r5)), w5)"
      and "jhttp_slots E H r5 head w5 = (Inr (Inr (hs, r6)), w')"
      and "h = \<lparr>h_method = m, h_uri = u, h_version = v, h_status = s, h_reason = r, h_headers = hs\<rparr>"
    using assms by (auto simp: jhttp_state_def cbind_Inr cret_Inr)
  then show ?thesis
    by (auto simp: head_ok_def head_slots_def dest!: slot_keeps slots_keep)
qed

text \<open>The floor every shape keeps.\<close>

definition no_break :: "u8 list option \<Rightarrow> bool" where
  "no_break s = (case s of None \<Rightarrow> True | Some bs \<Rightarrow> 13 \<notin> set bs \<and> 10 \<notin> set bs \<and> 0 \<notin> set bs)"

lemma no_break_shape: "slot_ok shape s \<Longrightarrow> no_break s"
proof -
  have "\<not> jhttp_byte 13 shape \<and> \<not> jhttp_byte 10 shape \<and> \<not> jhttp_byte 0 shape" for shape
    by (cases shape) (simp_all add: jhttp_byte_def tchar_def)
  then show "slot_ok shape s \<Longrightarrow> no_break s"
    by (auto simp: slot_ok_def no_break_def list_all_iff split: option.splits)
qed

lemma no_break_headers: "headers_ok hs \<Longrightarrow> \<forall>s \<in> set hs. no_break s"
  by (induction hs rule: headers_ok.induct) (auto intro: no_break_shape)

lemma no_break_head: "head_ok h \<Longrightarrow> \<forall>s \<in> set (head_slots h). no_break s"
  by (auto simp: head_ok_def head_slots_def dest: no_break_headers intro: no_break_shape)

text \<open>
  C19: a head that \<open>http._feed\<close> spells has no CR, LF or NUL in any of its fields, names and values, so
  none of them ends its line or the head; the method and the names are tokens, the reason and the
  values field content; all of it is at most 64 KiB and 1024 headers.  This holds whatever the
  getters and \<open>toString\<close>s of the head object do.
\<close>

theorem fed_head_cannot_be_split:
  assumes "JABChttpFeed E H argv w = (Inr (JBytes out), w')"
  shows "\<exists>h. HTTPutf8Feed H h 65536 = (OK, out) \<and> head_ok h \<and>
    (\<forall>s \<in> set (head_slots h). no_break s) \<and>
    sum_list (map slot_len (head_slots h)) \<le> 65536 \<and> length (h_headers h) \<le> 2 * 1024"
proof -
  obtain r where run: "jhttp_feed E H (argv ! 0) w = (Inr r, w')" and r: "r = Inr out"
    using assms unfolding JABChttpFeed_def
    by (cases "jhttp_feed E H (argv ! 0) w") (auto simp: jbind_def split: if_splits sum.splits)
  obtain h w1 where st: "jhttp_state E H (argv ! 0) w = (Inr (Inr h), w1)"
    and fed: "HTTPutf8Feed H h JHTTP_BYTES = (OK, out)"
  proof -
    obtain h w1 where "jhttp_state E H (argv ! 0) w = (Inr (Inr h), w1)"
      and "(case HTTPutf8Feed H h JHTTP_BYTES of (r, spelled) \<Rightarrow> if r \<noteq> OK then cfail r else cret spelled) w1 =
        (Inr (Inr out), w')"
      using run unfolding r jhttp_feed_def cbind_Inr by blast
    moreover obtain c bs where "HTTPutf8Feed H h JHTTP_BYTES = (c, bs)" by (metis prod.collapse)
    ultimately show ?thesis by (intro that) (auto simp: cret_Inr cfail_Inr split: if_splits)
  qed
  from state_ok [OF st] fed no_break_head show ?thesis
    by (intro exI [of _ h]) (auto simp: JHTTP_BYTES_def JHTTP_TOKS_def)
qed

text \<open>An engine of one object whose properties are strings, and a speller of the request line.\<close>

definition spell_line :: "httpstate \<Rightarrow> u8 list" where
  "spell_line h = concat (map (\<lambda>s. case s of None \<Rightarrow> [] | Some bs \<Rightarrow> bs @ [32]) [h_method h, h_uri h, h_version h]) @ [13, 10]"

definition line_http :: "sample_state httplib" where
  "line_http = \<lparr>HTTPutf8Drain = (\<lambda>bs n. (HTTPBAD, \<lparr>lx_method = None, lx_uri = None, lx_version = None,
       lx_status = None, lx_reason = None, lx_pairs = [], lx_left = 0\<rparr>)),
     HTTPutf8Feed = (\<lambda>h n. (OK, spell_line h)), u64decdrain = (\<lambda>bs. (OK, 0)),
     to_cstr = (\<lambda>v. case v of JStr s \<Rightarrow> jret s | _ \<Rightarrow> jthrow (ThrowError ''no string''))\<rparr>"

definition get_root :: sample_state where
  "get_root = \<lparr>bufs = [], props = (\<lambda>p. if p = ''method'' then JStr ''GET'' else if p = ''uri'' then JStr ''/ x'' else JUndef)\<rparr>"

lemma get_root_feeds: "JABChttpFeed sample_engine line_http [JObj 0] get_root = (Inr (JBytes (bytes_of ''GET / x '' @ [13, 10])), get_root)"
  by (simp add: JABChttpFeed_def jhttp_feed_def jhttp_state_def jhttp_slot_def jhttp_slots_def jhttp_bytes_def
      jhttp_valid_def jhttp_byte_def cbind_def cret_def or_code_def or_undef_def jcatch_def jbind_def jret_def jget_def
      sample_engine_def line_http_def get_root_def spell_line_def JHTTP_BYTES_def bytes_of_def tchar_def)

theorem fed_head_cannot_be_split_witness:
  "\<exists>h. HTTPutf8Feed line_http h 65536 = (OK, bytes_of ''GET / x '' @ [13, 10]) \<and> head_ok h"
  using fed_head_cannot_be_split [OF get_root_feeds] by blast

text \<open>
  A space is let into a URI, though it ends the URI on the line: the URI below spells a request for
  \<open>/\<close> with a version and a tail of its own.
\<close>

lemma space_in_uri_accepted: "jhttp_valid (bytes_of ''/ HTTP/1.0 x'') JHTTP_BARE = OK"
  by (simp add: jhttp_valid_def jhttp_byte_def bytes_of_def)

end
