(* ===== verification/DogFiles.thy ===== *)
theory DogFiles
  imports Codec
begin

text \<open>
  \<open>igno.c\<close> and \<open>dirc.c\<close>, the leaves under \<open>dog\<close>: a \<open>.gitignore\<close> behind a handle, and the index of a
  git repository read whole.  A handle of \<open>igno.c\<close> is the address of a box; a closed box is parked on
  a list and used again, never freed before the process ends.
\<close>

section \<open>igno.c\<close>

text \<open>Every box there is: open over a mapped file, or closed.  The list is \<open>JABC_IGNO_FREE\<close>.\<close>

record ('w, 's) ignw =
  igw :: 'w
  ig_boxes :: "addr \<rightharpoonup> 's option"
  ig_free :: "addr list"

record ('w, 's) ignlib =
  ig_calloc :: "addr set \<Rightarrow> 'w \<Rightarrow> addr option \<times> 'w"
  IGNOSetOpen :: "string \<Rightarrow> 'w \<Rightarrow> 's option \<times> 'w"        \<comment> \<open>\<open>None\<close>: absent or unreadable\<close>
  IGNOSetDecide :: "'s option \<Rightarrow> string \<Rightarrow> bool \<Rightarrow> int"   \<comment> \<open>of a set with no mapping too\<close>
  IGNOSetClose :: "'s \<Rightarrow> 'w \<Rightarrow> 'w"
  ig_cstr :: "jsval \<Rightarrow> (('w, 's) ignw, string) js"        \<comment> \<open>\<open>JS_ToCStringLen\<close>\<close>

definition JABCignoHandle :: "('w, 's) ignw engine \<Rightarrow> jsval \<Rightarrow> (('w, 's) ignw, addr option) js" where
  "JABCignoHandle E v = (\<lambda>s.
     case to_number E v s of
       (Inl e, s') \<Rightarrow> if e = CUndef then (Inl e, s') else (Inr None, s')
     | (Inr d, s') \<Rightarrow> if num_le d (Fin 0) then (Inr None, s') else jbind (as_size d) (\<lambda>n. jret (if n = 0 then None else Some n)) s')"

definition JABCignoPark :: "addr \<Rightarrow> ('w, 's) ignw \<Rightarrow> ('w, 's) ignw" where
  "JABCignoPark b s = s\<lparr>ig_free := b # ig_free s\<rparr>"

text \<open>A box off the list, or a new one that holds no mapping.\<close>

definition take_box :: "('w, 's) ignlib \<Rightarrow> ('w, 's) ignw \<Rightarrow> addr option \<times> ('w, 's) ignw" where
  "take_box G s =
     (case ig_free s of
        b # bs \<Rightarrow> (Some b, s\<lparr>ig_free := bs\<rparr>)
      | [] \<Rightarrow> (case ig_calloc G (dom (ig_boxes s)) (igw s) of
                (None, w) \<Rightarrow> (None, s\<lparr>igw := w\<rparr>)
              | (Some b, w) \<Rightarrow> (Some b, s\<lparr>igw := w, ig_boxes := (ig_boxes s)(b \<mapsto> None)\<rparr>)))"

definition JABCignoOpen :: "abc \<Rightarrow> ('w, 's) ignlib \<Rightarrow> jsval list \<Rightarrow> (('w, 's) ignw, jout) js" where
  "JABCignoOpen A G argv =
     need 1 ''dog._igno_open(gitignorePath)'' argv
     (jbind (ig_cstr G (argv ! 0)) (\<lambda>path s.
      if length path < 1 \<or> FILE_PATH_MAX_LEN A \<le> length path + 2
      then (Inl (ThrowError ''igno: that .gitignore path is not usable''), s)
      else case take_box G s of
        (None, s1) \<Rightarrow> (Inl (ThrowError ''igno: out of memory''), s1)
      | (Some b, s1) \<Rightarrow>
          (case IGNOSetOpen G path (igw s1) of
             (None, w) \<Rightarrow> (Inr (JVal (JNum (js_nat 0))), JABCignoPark b (s1\<lparr>igw := w\<rparr>))
           | (Some x, w) \<Rightarrow>
               (Inr (JVal (JNum (js_nat b))), s1\<lparr>igw := w, ig_boxes := (ig_boxes s1)(b \<mapsto> Some x)\<rparr>))))"

text \<open>The use of a handle: a number that is the address of no box is undefined behaviour.\<close>

definition box_at :: "addr \<Rightarrow> (('w, 's) ignw, 's option) js" where
  "box_at b = (\<lambda>s. case ig_boxes s b of None \<Rightarrow> (Inl CUndef, s) | Some x \<Rightarrow> (Inr x, s))"

definition JABCignoMatch :: "('w, 's) ignw engine \<Rightarrow> ('w, 's) ignlib \<Rightarrow> jsval list \<Rightarrow> (('w, 's) ignw, jout) js" where
  "JABCignoMatch E G argv =
     need 2 ''dog._igno_match(handle, path, isDir)'' argv
     (jbind (JABCignoHandle E (argv ! 0)) (\<lambda>h.
      case h of
        None \<Rightarrow> jthrow (ThrowError ''igno: that match handle is not open'')
      | Some b \<Rightarrow>
          jbind (ig_cstr G (argv ! 1)) (\<lambda>path.
          jbind (box_at b) (\<lambda>x.
          jret (JVal (JNum (js_int (IGNOSetDecide G x path (2 < length argv \<and> to_bool (argv ! 2))))))))))"

definition JABCignoClose :: "('w, 's) ignw engine \<Rightarrow> ('w, 's) ignlib \<Rightarrow> jsval list \<Rightarrow> (('w, 's) ignw, jout) js" where
  "JABCignoClose E G argv =
     need 1 ''dog._igno_close(handle)'' argv
     (jbind (JABCignoHandle E (argv ! 0)) (\<lambda>h.
      case h of
        None \<Rightarrow> js_undef
      | Some b \<Rightarrow>
          jbind (box_at b) (\<lambda>x.
          case x of
            None \<Rightarrow> js_undef
          | Some y \<Rightarrow>
              jbind (jput (\<lambda>s. JABCignoPark b
                (s\<lparr>igw := IGNOSetClose G y (igw s), ig_boxes := (ig_boxes s)(b \<mapsto> None)\<rparr>))) (\<lambda>_. js_undef))))"

text \<open>The end of the process: the parked boxes are freed, one by one.\<close>

definition JABCUninstallIgno :: "('w, 's) ignw \<Rightarrow> ('w, 's) ignw" where
  "JABCUninstallIgno s = s\<lparr>ig_boxes := fold (\<lambda>b m. m(b := None)) (ig_free s) (ig_boxes s), ig_free := []\<rparr>"

section \<open>dirc.c\<close>

record dirc_entry =
  de_path :: "u8 list"
  de_sha :: "u8 list"    \<comment> \<open>as 40 hex digits\<close>
  de_mode :: u32
  de_stage :: u32
  de_size :: u32
  de_mtime :: u32
  de_mtime_ns :: u32
  de_assume :: bool
  de_skip :: bool

record ('w, 'c) dirclib =
  path_feed :: "string \<Rightarrow> ok64"        \<comment> \<open>\<open>PATHu8bFeed\<close> into a path buffer\<close>
  FILEMapOnce :: "string \<Rightarrow> 'w \<Rightarrow> (u8 list) option \<times> 'w"
  FILEUnMapOnce :: "'w \<Rightarrow> 'w"
  DIRCOpen :: "u8 list \<Rightarrow> ok64 \<times> 'c"
  DIRCDrain :: "'c \<Rightarrow> (ok64 \<times> dirc_entry) \<times> 'c"
  dc_version :: "'c \<Rightarrow> u32"

definition JABCdircWords :: "ok64 \<Rightarrow> string" where
  "JABCdircWords r =
     (if r = DIRCSPLIT then ''index: this is a split index, which bee does not read''
      else if r = DIRCBADFMT then ''index: not a readable git index (v2/v3/v4, SHA-1 only)''
      else if r = SNOROOM \<or> r = NOROOM then ''index: a path in this index is too long to read''
      else ''index: this index could not be read'')"

definition jdirc_str :: "abc \<Rightarrow> nat \<Rightarrow> jsval \<Rightarrow> string option" where
  "jdirc_str A room v =
     (case v of JStr s \<Rightarrow> if s \<noteq> [] \<and> length s < room \<and> \<not> u8csFind A s (CHR 0x00) then Some s else None
              | _ \<Rightarrow> None)"

definition jdirc_row :: "dirc_entry \<Rightarrow> (string \<times> jsval) list" where
  "jdirc_row e =
     [(''path'', JABCStrOfSlice (de_path e)), (''sha'', JABCStrOfSlice (de_sha e)),
      (''mode'', JNum (js_nat (unat (de_mode e)))), (''stage'', JNum (js_nat (unat (de_stage e)))),
      (''size'', JNum (js_nat (unat (de_size e)))), (''mtime'', JNum (js_nat (unat (de_mtime e)))),
      (''mtimeNs'', JNum (js_nat (unat (de_mtime_ns e)))),
      (''assumeValid'', JBool (de_assume e)), (''skipWorktree'', JBool (de_skip e))]"

text \<open>The entries in the order they come; with fuel, \<open>None\<close> when the drain never says that it is done.\<close>

primrec dirc_rows :: "nat \<Rightarrow> ('w, 'c) dirclib \<Rightarrow> 'c \<Rightarrow> (ok64 + ((string \<times> jsval) list) list \<times> 'c) option" where
  "dirc_rows 0 D c = None"
| "dirc_rows (Suc k) D c =
     (case DIRCDrain D c of ((d, e), c') \<Rightarrow>
        if d = NODATA then Some (Inr ([], c'))
        else if d \<noteq> OK then Some (Inl d)
        else map_option (map_sum id (\<lambda>(rows, c). (jdirc_row e # rows, c))) (dirc_rows k D c'))"

text \<open>The map is undone on every way out.\<close>

definition JABCdircRead :: "abc \<Rightarrow> ('w, 'c) dirclib \<Rightarrow> nat \<Rightarrow> jsval list \<Rightarrow>
    ('w, ((nat \<times> ((string \<times> jsval) list) list) option) option) js" where
  "JABCdircRead A D fuel argv =
     need 1 ''dog.readIndex(repo|path)'' argv
     (case jdirc_str A (FILE_PATH_MAX_LEN A) (argv ! 0) of
        None \<Rightarrow> jthrow (ThrowError ''index: the path must be a string'')
      | Some path \<Rightarrow>
          if path_feed D path \<noteq> OK then jthrow (ThrowError ''index: that path is too long'')
          else (\<lambda>w. case FILEMapOnce D path w of
            (None, w1) \<Rightarrow> (Inr (Some None), w1)
          | (Some idx, w1) \<Rightarrow>
              (case DIRCOpen D idx of (r, c) \<Rightarrow>
                 if r \<noteq> OK then (Inl (ThrowError (JABCdircWords r)), FILEUnMapOnce D w1)
                 else case dirc_rows fuel D c of
                   None \<Rightarrow> (Inr None, w1)
                 | Some (Inl d) \<Rightarrow> (Inl (ThrowError (JABCdircWords d)), FILEUnMapOnce D w1)
                 | Some (Inr (rows, c')) \<Rightarrow>
                     (Inr (Some (Some (unat (dc_version D c'), rows))), FILEUnMapOnce D w1))))"

text \<open>\<open>dog.readIndex\<close>: the index file's name is added unless it is there.\<close>

definition ends_with :: "string \<Rightarrow> string \<Rightarrow> bool" where
  "ends_with s t \<longleftrightarrow> length t \<le> length s \<and> drop (length s - length t) s = t"

definition index_path :: "string \<Rightarrow> string" where
  "index_path p = (if ends_with p ''/index'' then p else p @ ''/index'')"

definition readIndex :: "abc \<Rightarrow> ('w, 'c) dirclib \<Rightarrow> nat \<Rightarrow> string \<Rightarrow>
    ('w, ((nat \<times> ((string \<times> jsval) list) list) option) option) js" where
  "readIndex A D fuel repo = JABCdircRead A D fuel [JStr (index_path repo)]"

section \<open>The boxes\<close>

text \<open>The parked boxes are the closed ones, each parked once.\<close>

definition igno_ok :: "('w, 's) ignw \<Rightarrow> bool" where
  "igno_ok s \<longleftrightarrow> distinct (ig_free s) \<and> (\<forall>b. b \<in> set (ig_free s) \<longleftrightarrow> ig_boxes s b = Some None)"

definition calloc_law :: "('w, 's) ignlib \<Rightarrow> bool" where
  "calloc_law G \<longleftrightarrow> (\<forall>A w b w'. ig_calloc G A w = (Some b, w') \<longrightarrow> b \<notin> A)"

text \<open>
  The JavaScript that a conversion runs (a \<open>valueOf\<close>, a \<open>toString\<close>) reaches the boxes through these
  leaves only.
\<close>

definition igno_plays :: "('w, 's) ignw engine \<Rightarrow> ('w, 's) ignlib \<Rightarrow> bool" where
  "igno_plays E G \<longleftrightarrow> (\<forall>v s. igno_ok s \<longrightarrow> igno_ok (snd (to_number E v s)) \<and> igno_ok (snd (ig_cstr G v s)))"

lemma park_ok:
  "igno_ok s \<Longrightarrow> ig_boxes s b = Some (Some x) \<Longrightarrow>
   igno_ok (JABCignoPark b (s\<lparr>igw := w, ig_boxes := (ig_boxes s)(b \<mapsto> None)\<rparr>))"
  by (auto simp: igno_ok_def JABCignoPark_def)

lemma take_box_ok:
  assumes "igno_ok s" and "calloc_law G" and "take_box G s = (r, s')"
  shows "case r of None \<Rightarrow> igno_ok s'
    | Some b \<Rightarrow> b \<notin> set (ig_free s') \<and> distinct (ig_free s') \<and> (\<forall>x. ig_boxes s b \<noteq> Some (Some x)) \<and>
        (\<forall>a. a \<noteq> b \<longrightarrow> (a \<in> set (ig_free s') \<longleftrightarrow> ig_boxes s' a = Some None)) \<and> ig_boxes s' b = Some None"
proof (cases "ig_free s")
  case (Cons b bs)
  with assms(3) have "r = Some b" "s' = s\<lparr>ig_free := bs\<rparr>" by (auto simp: take_box_def)
  moreover have "distinct (b # bs)" "\<And>a. a \<in> set (b # bs) \<longleftrightarrow> ig_boxes s a = Some None"
    using assms(1) Cons by (auto simp: igno_ok_def)
  moreover from this(2) [of b] have "ig_boxes s b = Some None" by simp
  ultimately show ?thesis by auto
next
  case Nil
  obtain q w where q: "ig_calloc G (dom (ig_boxes s)) (igw s) = (q, w)" by (metis prod.collapse)
  with assms(2) have "\<And>b. q = Some b \<Longrightarrow> ig_boxes s b = None" by (auto simp: calloc_law_def)
  with assms(1,3) Nil q show ?thesis
    by (cases q) (auto simp: take_box_def igno_ok_def)
qed

lemma handle_ok:
  assumes "igno_plays E G" "igno_ok s" "JABCignoHandle E v s = (r, s')"
  shows "igno_ok s'"
proof -
  have "igno_ok (snd (to_number E v s))" using assms(1,2) by (simp add: igno_plays_def)
  with assms(3) show ?thesis
    by (auto simp: JABCignoHandle_def as_size_def cast_or_undef_def jbind_def
        split: prod.splits sum.splits if_splits option.splits)
qed

lemma open_ok:
  assumes "igno_plays E G" "calloc_law G" "igno_ok s" "JABCignoOpen A G argv s = (r, s')"
  shows "igno_ok s' \<and> (\<forall>b. r = Inr (JVal (JNum (js_nat b))) \<longrightarrow> b \<noteq> 0 \<longrightarrow>
    (\<exists>s1 x. ig_cstr G (argv ! 0) s = (Inr x, s1) \<and> (\<forall>x. ig_boxes s1 b \<noteq> Some (Some x))) \<and> (\<exists>x. ig_boxes s' b = Some (Some x)))"
proof (cases "length argv < 1")
  case True
  with assms(3,4) show ?thesis by (auto simp: JABCignoOpen_def)
next
  case False
  obtain q s1 where q: "ig_cstr G (argv ! 0) s = (q, s1)" by (metis prod.collapse)
  have ok1: "igno_ok s1" using assms(1,3) q by (metis igno_plays_def snd_conv)
  show ?thesis
  proof (cases "\<exists>path. q = Inr path \<and> \<not> (length path < 1 \<or> FILE_PATH_MAX_LEN A \<le> length path + 2)")
    case no: False
    have "s' = s1 \<and> (\<exists>e. r = Inl e)"
    proof (cases q)
      case (Inr p)
      with no have "length p < 1 \<or> FILE_PATH_MAX_LEN A \<le> length p + 2" by blast
      with assms(4) False q Inr show ?thesis by (auto simp: JABCignoOpen_def jbind_def)
    qed (use assms(4) False q in \<open>auto simp: JABCignoOpen_def jbind_def\<close>)
    with ok1 show ?thesis by auto
  next
    case True
    then obtain path where path: "q = Inr path" "\<not> (length path < 1 \<or> FILE_PATH_MAX_LEN A \<le> length path + 2)" by blast
    obtain t s2 where t: "take_box G s1 = (t, s2)" by (metis prod.collapse)
    note box = take_box_ok [OF ok1 assms(2) t]
    show ?thesis
    proof (cases t)
      case None
      with box assms(4) False q path t show ?thesis
        by (auto simp: JABCignoOpen_def jbind_def)
    next
      case (Some b)
      obtain z w where z: "IGNOSetOpen G path (igw s2) = (z, w)" by (metis prod.collapse)
      have "JABCignoOpen A G argv s = (case z of
             None \<Rightarrow> (Inr (JVal (JNum (js_nat 0))), JABCignoPark b (s2\<lparr>igw := w\<rparr>))
           | Some x \<Rightarrow> (Inr (JVal (JNum (js_nat b))), s2\<lparr>igw := w, ig_boxes := (ig_boxes s2)(b \<mapsto> Some x)\<rparr>))"
        using False q path t Some z
        by (cases z) (simp_all add: JABCignoOpen_def jbind_def need_def)
      with box Some assms(4) q path(1) show ?thesis
        by (cases z) (auto simp: igno_ok_def JABCignoPark_def split: if_splits)
    qed
  qed
qed

lemma box_at_Inr: "box_at b s = (Inr x, s') \<longleftrightarrow> ig_boxes s b = Some x \<and> s' = s"
  by (auto simp: box_at_def split: option.splits)

lemma box_at_same: "snd (box_at b s) = s"
  by (simp add: box_at_def split: option.splits)

lemma igno_close_ok:
  assumes "igno_plays E G" "igno_ok s" "JABCignoClose E G argv s = (r, s')"
  shows "igno_ok s'"
proof (cases "length argv < 1")
  case True
  with assms(2,3) show ?thesis by (simp add: JABCignoClose_def)
next
  case False
  obtain q s1 where q: "JABCignoHandle E (argv ! 0) s = (q, s1)" by (metis prod.collapse)
  have ok1: "igno_ok s1" by (rule handle_ok [OF assms(1,2) q])
  show ?thesis
  proof (cases "\<exists>b. q = Inr (Some b)")
    case no: False
    with assms(3) False q ok1 show ?thesis
      by (cases q) (auto simp: JABCignoClose_def jbind_def split: option.splits)
  next
    case True
    then obtain b where b: "q = Inr (Some b)" ..
    show ?thesis
    proof (cases "ig_boxes s1 b")
      case None
      with assms(3) False q b ok1 show ?thesis by (simp add: JABCignoClose_def jbind_def box_at_def)
    next
      case (Some z)
      with assms(3) False q b ok1 park_ok [OF ok1] show ?thesis
        by (cases z) (auto simp: JABCignoClose_def jbind_def box_at_def)
    qed
  qed
qed

lemma match_ok:
  assumes "igno_plays E G" "igno_ok s" "JABCignoMatch E G argv s = (r, s')"
  shows "igno_ok s'"
proof (cases "length argv < 2")
  case True
  with assms(2,3) show ?thesis by (simp add: JABCignoMatch_def)
next
  case False
  obtain q s1 where q: "JABCignoHandle E (argv ! 0) s = (q, s1)" by (metis prod.collapse)
  have ok1: "igno_ok s1" by (rule handle_ok [OF assms(1,2) q])
  obtain p s2 where p: "ig_cstr G (argv ! 1) s1 = (p, s2)" by (metis prod.collapse)
  have ok2: "igno_ok s2" using assms(1) ok1 p by (metis igno_plays_def snd_conv)
  have "s' = s1 \<or> s' = s2"
    using assms(3) False q p
    by (auto simp: JABCignoMatch_def jbind_def box_at_def split: sum.splits option.splits)
  with ok1 ok2 show ?thesis by auto
qed

text \<open>Everything that reaches the boxes.\<close>

inductive igno_reach :: "('w, 's) ignw engine \<Rightarrow> ('w, 's) ignlib \<Rightarrow> ('w, 's) ignw \<Rightarrow> bool" for E G where
  fresh: "igno_reach E G \<lparr>igw = w, ig_boxes = Map.empty, ig_free = []\<rparr>"
| opened: "igno_reach E G s \<Longrightarrow> JABCignoOpen A G argv s = (r, s') \<Longrightarrow> igno_reach E G s'"
| matched: "igno_reach E G s \<Longrightarrow> JABCignoMatch E G argv s = (r, s') \<Longrightarrow> igno_reach E G s'"
| closed: "igno_reach E G s \<Longrightarrow> JABCignoClose E G argv s = (r, s') \<Longrightarrow> igno_reach E G s'"
| world: "igno_reach E G s \<Longrightarrow> igno_reach E G (s\<lparr>igw := w\<rparr>)"

lemma igno_reach_ok:
  assumes "igno_plays E G" "calloc_law G" "igno_reach E G s"
  shows "igno_ok s"
  using assms(3)
proof (induction rule: igno_reach.induct)
  case (opened s A argv r s')
  then show ?case using open_ok [OF assms(1,2)] by blast
next
  case (matched s argv r s')
  then show ?case using match_ok [OF assms(1)] by blast
next
  case (closed s argv r s')
  then show ?case using igno_close_ok [OF assms(1)] by blast
qed (simp_all add: igno_ok_def)

text \<open>
  C16: after any sequence of opens, matches and closes, with any numbers for handles and whatever the
  conversions of their arguments run, the parked boxes are exactly the closed ones, each parked once;
  so a file is never opened into a box that another file holds, and a second close parks nothing.
\<close>

theorem boxes_never_shared:
  assumes "igno_plays E G" and "calloc_law G" and "igno_reach E G s"
  shows "igno_ok s \<and>
    (\<forall>A argv b s'. JABCignoOpen A G argv s = (Inr (JVal (JNum (js_nat b))), s') \<and> b \<noteq> 0 \<longrightarrow>
       (\<exists>s1 p. ig_cstr G (argv ! 0) s = (Inr p, s1) \<and> (\<forall>x. ig_boxes s1 b \<noteq> Some (Some x))) \<and>
       (\<exists>x. ig_boxes s' b = Some (Some x)))"
  using igno_reach_ok [OF assms] open_ok [OF assms(1,2)] by blast

text \<open>Files that all open, and an engine whose conversions run nothing.\<close>

definition flat_igno :: "(nat, string) ignlib" where
  "flat_igno = \<lparr>ig_calloc = (\<lambda>A w. (if w + 1 \<in> A then None else Some (w + 1), w + 1)),
     IGNOSetOpen = (\<lambda>p w. (Some p, w)), IGNOSetDecide = (\<lambda>x p d. case x of None \<Rightarrow> - 1 | Some y \<Rightarrow> if p = y then 1 else 0),
     IGNOSetClose = (\<lambda>x w. w), ig_cstr = (\<lambda>v. case v of JStr t \<Rightarrow> jret t | _ \<Rightarrow> jthrow (ThrowError ''no string''))\<rparr>"

definition flat_engine :: "(nat, string) ignw engine" where
  "flat_engine = \<lparr>is_typed = (\<lambda>s v. False), typed_buffer = (\<lambda>s v. Inr (v, 0, 0)), buffer_data = (\<lambda>s v. (0, 0)),
     to_number = (\<lambda>v. jret (sample_number v)), to_int64 = (\<lambda>v. jret 0), is_callable = (\<lambda>s v. False),
     get_prop = (\<lambda>v p. jret JUndef), set_prop = (\<lambda>v p x. jret ()), is_array = (\<lambda>s v. False),
     get_length = (\<lambda>v. jret 0), get_index = (\<lambda>v i. jret JUndef), call_fn = (\<lambda>f vs. jret JUndef),
     new_view = (\<lambda>b off n. jret b), new_external = (\<lambda>p n f. jret JUndef), detach_buffer = (\<lambda>v s. s)\<rparr>"

lemma flat_plays: "igno_plays flat_engine flat_igno" and flat_calloc: "calloc_law flat_igno"
  by (auto simp: igno_plays_def calloc_law_def flat_engine_def flat_igno_def split: jsval.splits if_splits)

definition no_boxes :: "(nat, string) ignw" where
  "no_boxes = \<lparr>igw = 0, ig_boxes = Map.empty, ig_free = []\<rparr>"

definition handle_1 :: jsval where "handle_1 = JNum (js_nat 1)"

lemma open_a: "JABCignoOpen sample_abc flat_igno [JStr ''a''] no_boxes =
    (Inr (JVal handle_1), \<lparr>igw = 1, ig_boxes = [1 \<mapsto> Some ''a''], ig_free = []\<rparr>)"
  by (simp add: JABCignoOpen_def flat_igno_def no_boxes_def take_box_def jbind_def jret_def sample_abc_def handle_1_def)

theorem boxes_never_shared_witness:
  "igno_ok (snd (JABCignoOpen sample_abc flat_igno [JStr ''a''] no_boxes))"
proof -
  have "igno_reach flat_engine flat_igno (snd (JABCignoOpen sample_abc flat_igno [JStr ''a''] no_boxes))"
    unfolding no_boxes_def by (rule opened [OF fresh]) (rule surjective_pairing)
  from boxes_never_shared [OF flat_plays flat_calloc this] show ?thesis ..
qed

text \<open>
  What the list does not save: a handle closed twice with an open in between closes the other file.
\<close>

lemma handle_of_one: "JABCignoHandle flat_engine handle_1 s = (Inr (Some 1), s)"
  by (simp add: JABCignoHandle_def handle_1_def flat_engine_def sample_number_def js_nat_def as_size_def
      cast_or_undef_def c_cast_def jbind_def jret_def)

lemma second_close_hits_another:
  "snd (jbind (JABCignoOpen sample_abc flat_igno [JStr ''a'']) (\<lambda>_.
        jbind (JABCignoClose flat_engine flat_igno [handle_1]) (\<lambda>_.
        jbind (JABCignoOpen sample_abc flat_igno [JStr ''b'']) (\<lambda>_.
        JABCignoClose flat_engine flat_igno [handle_1]))) no_boxes) =
   \<lparr>igw = 1, ig_boxes = [1 \<mapsto> None], ig_free = [1]\<rparr>"
proof -
  have close: "JABCignoClose flat_engine flat_igno [handle_1] \<lparr>igw = 1, ig_boxes = [1 \<mapsto> Some x], ig_free = []\<rparr> =
      (Inr (JVal JUndef), \<lparr>igw = 1, ig_boxes = [1 \<mapsto> None], ig_free = [1]\<rparr>)" for x
    by (simp add: JABCignoClose_def jbind_def handle_of_one box_at_def JABCignoPark_def flat_igno_def jput_def jret_def)
  have again: "JABCignoOpen sample_abc flat_igno [JStr ''b''] \<lparr>igw = 1, ig_boxes = [1 \<mapsto> None], ig_free = [1]\<rparr> =
      (Inr (JVal handle_1), \<lparr>igw = 1, ig_boxes = [1 \<mapsto> Some ''b''], ig_free = []\<rparr>)"
    by (simp add: JABCignoOpen_def flat_igno_def take_box_def jbind_def jret_def sample_abc_def handle_1_def)
  show ?thesis by (simp add: jbind_def open_a close again del: One_nat_def)
qed

lemma index_path_idem: "index_path (index_path p) = index_path p"
  by (simp add: index_path_def ends_with_def)

end
