(* ===== verification/Cfold.thy ===== *)
theory Cfold
  imports Codec
begin

text \<open>
  \<open>cfold.c\<close>: the leaves over a weave, one \<open>V\<close> blob in a byte array of JavaScript.  A leaf parses the
  blob first and keeps pointers into it (and into the output it was given), then converts the rest of
  its arguments.  A conversion can run JavaScript; \<open>still\<close> is the use of memory after that: where a
  view no longer shows what it did when it was unwrapped, the use is undefined behaviour.
\<close>

section \<open>The library\<close>

record cfoldtok =
  ct_off :: nat       \<comment> \<open>in the body of the weave\<close>
  ct_end :: nat
  ct_tag :: u8
  ct_alive :: bool

record ('w, 'c) cfoldlib =
  cf_cstr :: "jsval \<Rightarrow> ('w, string) js"
  cf_alloc :: "nat \<Rightarrow> 'w \<Rightarrow> bool"
  CFOLDParse :: "u8 list \<Rightarrow> 'c option"
  cf_idx_len :: "'c \<Rightarrow> nat"
  cf_body :: "'c \<Rightarrow> nat"      \<comment> \<open>where the body starts in the blob\<close>
  CFOLDNCommits :: "'c \<Rightarrow> u8 list \<Rightarrow> u32"
  CFOLDCommitAt :: "'c \<Rightarrow> u8 list \<Rightarrow> u32 \<Rightarrow> u64 option"
  CFOLDFindCommit :: "'c \<Rightarrow> u8 list \<Rightarrow> u64 \<Rightarrow> u32 option"
  CFOLDFold :: "nat \<Rightarrow> ('c \<times> u8 list) option \<Rightarrow> u8 list \<Rightarrow> u8 list \<Rightarrow> u64 \<Rightarrow> u64 list \<Rightarrow> ok64 \<times> u8 list"
  cfoldbig :: ok64            \<comment> \<open>\<open>CFOLDBIG\<close>\<close>
  CFOLDMerge :: "nat \<Rightarrow> 'c \<times> u8 list \<Rightarrow> u64 \<Rightarrow> u64 list \<Rightarrow> ok64 \<times> u8 list"
  CFOLDAlive :: "'c \<times> u8 list \<Rightarrow> nat \<Rightarrow> ok64 \<times> u8 list"
  CFOLDProduce :: "'c \<times> u8 list \<Rightarrow> u32 \<Rightarrow> nat \<Rightarrow> ok64 \<times> u8 list"
  CFOLDBlame :: "'c \<times> u8 list \<Rightarrow> u32 \<Rightarrow> u32 option"
  CFOLDIterMem :: "'c \<Rightarrow> nat"
  CFOLDIterNext :: "'c \<times> u8 list \<Rightarrow> u32 \<Rightarrow> u8 list \<Rightarrow> (cfoldtok option) option \<times> u8 list"
    \<comment> \<open>\<open>None\<close>: malformed; \<open>Some None\<close>: the end; the cursor after the step\<close>
  CFOLDEmitDiff :: "'c \<times> u8 list \<Rightarrow> u8 list \<Rightarrow> u8 list \<Rightarrow> u32 \<Rightarrow> u32 \<Rightarrow> nat \<Rightarrow> ok64 \<times> u8 list"
    \<comment> \<open>the \<open>H\<close> records its callback appends to an output of so many bytes\<close>
  CFOLDEmitFull :: "'c \<times> u8 list \<Rightarrow> u8 list \<Rightarrow> u8 list \<Rightarrow> u8 list \<Rightarrow> u32 \<Rightarrow> u32 \<Rightarrow> nat \<Rightarrow> ok64 \<times> u8 list"

section \<open>Views that are held\<close>

text \<open>A view and the region it was unwrapped to.\<close>

type_synonym held_view = "jsval \<times> u8b"

definition shows_still :: "'w engine \<Rightarrow> 'w \<Rightarrow> held_view \<Rightarrow> bool" where
  "shows_still E w h = (JABCViewOf E (fst h) w = (Inr (b0 (snd h), b3 (snd h) - b0 (snd h)), w))"

definition still :: "'w engine \<Rightarrow> held_view list \<Rightarrow> ('w, 'a) js \<Rightarrow> ('w, 'a) js" where
  "still E hs m = (\<lambda>w. if list_all (shows_still E w) hs then m w else (Inl CUndef, w))"

section \<open>Hashlets\<close>

definition cf_digit :: "char \<Rightarrow> u64 option" where
  "cf_digit c = (let n = of_char c :: nat in
     if 48 \<le> n \<and> n \<le> 57 then Some (word_of_nat (n - 48))
     else if 97 \<le> n \<and> n \<le> 102 then Some (word_of_nat (n - 97 + 10))
     else if 65 \<le> n \<and> n \<le> 70 then Some (word_of_nat (n - 65 + 10)) else None)"

text \<open>At most 16 digits, up to the first character that is none.\<close>

fun hi64 :: "nat \<Rightarrow> u64 \<Rightarrow> string \<Rightarrow> u64" where
  "hi64 0 h s = h"
| "hi64 (Suc k) h [] = h"
| "hi64 (Suc k) h (c # s) = (case cf_digit c of None \<Rightarrow> h | Some d \<Rightarrow> hi64 k (or (push_bit 4 h) d) s)"

definition JABCcfoldHi64 :: "('w, 'c) cfoldlib \<Rightarrow> jsval \<Rightarrow> ('w, u64) js" where
  "JABCcfoldHi64 L v = jbind (cf_cstr L v) (\<lambda>s. jret (hi64 16 0 s))"

definition HX :: "nat \<Rightarrow> char" where "HX d = (if d < 10 then char_of (48 + d) else char_of (87 + d))"

text \<open>The digits from the last to the first, as the loop writes them.\<close>

primrec hashlet :: "nat \<Rightarrow> u64 \<Rightarrow> string" where
  "hashlet 0 h = []"
| "hashlet (Suc k) h = hashlet k (drop_bit 4 h) @ [HX (unat (and h 0xf))]"

definition JABCcfoldHashlet :: "u64 \<Rightarrow> jsval" where "JABCcfoldHashlet h = JStr (hashlet 16 h)"

section \<open>Arguments\<close>

text \<open>A weave that parsed: where it is, how much of the view it is, and what was made of it.\<close>

record 'c weave =
  wv_view :: jsval
  wv_buf :: u8b
  wv_len :: nat
  wv_c :: 'c

definition weave_held :: "'c weave \<Rightarrow> held_view" where "weave_held v = (wv_view v, wv_buf v)"

text \<open>
  Any refusal (no typed array, an offset past it, an empty or malformed blob) is \<open>NO\<close>; the exception a
  gate left stays pending behind the answer.
\<close>

definition JABCcfoldAt :: "'w engine \<Rightarrow> abc \<Rightarrow> 'w memory \<Rightarrow> slicer \<Rightarrow> ('w, 'c) cfoldlib \<Rightarrow> jsval \<Rightarrow> jsval \<Rightarrow>
    ('w, 'c weave option) js" where
  "JABCcfoldAt E A M C L bv lv =
     jbind (or_undef (jbind (JABCDataOf E A bv) (\<lambda>b. jbind (JABCOffOf E (data_len b) lv) (\<lambda>n. jret (b, n))))) (\<lambda>r.
     case r of
       None \<Rightarrow> jret None
     | Some (b, n) \<Rightarrow>
         if 0xffffffff < n then jret None
         else jbind (data_of M b) (\<lambda>bs.
              case u8csSub C bs 0 (word_of_nat n) of
                None \<Rightarrow> jret None
              | Some blob \<Rightarrow> jret (map_option (\<lambda>c. \<lparr>wv_view = bv, wv_buf = b, wv_len = n, wv_c = c\<rparr>) (CFOLDParse L blob))))"

text \<open>The weave's bytes at the time of a call.\<close>

definition weave_now :: "'w engine \<Rightarrow> 'w memory \<Rightarrow> 'c weave \<Rightarrow> ('w, 'c \<times> u8 list) js" where
  "weave_now E M v = still E [weave_held v] (jget (\<lambda>w. (wv_c v, bytes_at M w (b1 (wv_buf v)) (wv_len v))))"

definition JABCcfoldRev :: "'w engine \<Rightarrow> 'w memory \<Rightarrow> ('w, 'c) cfoldlib \<Rightarrow> 'c weave \<Rightarrow> jsval \<Rightarrow> ('w, u32 option) js" where
  "JABCcfoldRev E M L v arg =
     jbind (or_undef (JABCcfoldHi64 L arg)) (\<lambda>r.
     case r of None \<Rightarrow> jret None
     | Some i \<Rightarrow> jbind (weave_now E M v) (\<lambda>(c, bs). jret (CFOLDFindCommit L c bs i)))"

definition rev_or :: "'w engine \<Rightarrow> 'w memory \<Rightarrow> ('w, 'c) cfoldlib \<Rightarrow> string \<Rightarrow> 'c weave \<Rightarrow> jsval \<Rightarrow> ('w, u32) js" where
  "rev_or E M L msg v arg =
     jbind (JABCcfoldRev E M L v arg) (\<lambda>r. case r of None \<Rightarrow> jthrow (ThrowError msg) | Some i \<Rightarrow> jret i)"

text \<open>Elements that do not convert are the id 0.\<close>

primrec ids_from :: "'w engine \<Rightarrow> ('w, 'c) cfoldlib \<Rightarrow> jsval \<Rightarrow> nat \<Rightarrow> nat \<Rightarrow> ('w, u64 list) js" where
  "ids_from E L arr i 0 = jret []"
| "ids_from E L arr i (Suc n) =
     jbind (or_undef (jbind (get_index E arr i) (JABCcfoldHi64 L))) (\<lambda>r.
     jbind (ids_from E L arr (i + 1) n) (\<lambda>ids. jret ((case r of None \<Rightarrow> 0 | Some x \<Rightarrow> x) # ids)))"

text \<open>What is no object, has no 32-bit length or is too long for the allocator is an empty list.\<close>

definition JABCcfoldIds :: "'w engine \<Rightarrow> ('w, 'c) cfoldlib \<Rightarrow> jsval \<Rightarrow> ('w, u64 list) js" where
  "JABCcfoldIds E L v =
     (if \<not> is_obj v then jret []
      else jbind (or_undef (jbind (get_prop E v ''length'') (JABCu32Of E))) (\<lambda>an.
        case an of
          None \<Rightarrow> jret []
        | Some an \<Rightarrow>
            if an = 0 then jret []
            else jbind (jget (cf_alloc L (unat an * 8))) (\<lambda>ok.
                 if \<not> ok then jret [] else ids_from E L v 0 (unat an))))"

text \<open>A string is copied when it is taken; a typed array is read when the call is made.\<close>

definition late_arg :: "'w engine \<Rightarrow> abc \<Rightarrow> 'w memory \<Rightarrow> nat \<Rightarrow> jsval \<Rightarrow> ('w, ('w, u8 list) js) js" where
  "late_arg E A M room v =
     (case v of
        JStr s \<Rightarrow> jbind (JABChunkArgU8 E A M room v) (\<lambda>bs. jret (jret bs))
      | _ \<Rightarrow> jbind (JABCDataOf E A v) (\<lambda>b. jret (still E [(v, b)] (data_of M b))))"

text \<open>What a call writes into an output region that is still there.\<close>

definition put_out :: "'w engine \<Rightarrow> 'w memory \<Rightarrow> held_view \<Rightarrow> u8 list \<Rightarrow> ('w, u8b) js" where
  "put_out E M h bs = still E [h] (into_idle M (snd h) bs)"

definition weave_or :: "'w engine \<Rightarrow> abc \<Rightarrow> 'w memory \<Rightarrow> slicer \<Rightarrow> ('w, 'c) cfoldlib \<Rightarrow> string \<Rightarrow> jsval \<Rightarrow> jsval \<Rightarrow>
    ('w, 'c weave) js" where
  "weave_or E A M C L msg bv lv =
     jbind (JABCcfoldAt E A M C L bv lv) (\<lambda>r. case r of None \<Rightarrow> jthrow (ThrowError msg) | Some v \<Rightarrow> jret v)"

text \<open>A reader of an empty or malformed weave answers with a value of its own.\<close>

definition weave_else :: "'w engine \<Rightarrow> abc \<Rightarrow> 'w memory \<Rightarrow> slicer \<Rightarrow> ('w, 'c) cfoldlib \<Rightarrow> ('w, 'a) js \<Rightarrow> jsval list \<Rightarrow>
    ('c weave \<Rightarrow> ('w, 'a) js) \<Rightarrow> ('w, 'a) js" where
  "weave_else E A M C L none argv k =
     jbind (JABCcfoldAt E A M C L (argv ! 0) (argv ! 1)) (\<lambda>r. case r of None \<Rightarrow> none | Some v \<Rightarrow> k v)"

section \<open>The leaves\<close>

definition JABCcfoldCount :: "'w engine \<Rightarrow> abc \<Rightarrow> 'w memory \<Rightarrow> slicer \<Rightarrow> ('w, 'c) cfoldlib \<Rightarrow> jsval list \<Rightarrow> ('w, jout) js" where
  "JABCcfoldCount E A M C L argv =
     need 2 ''cfold._count(blob, len)'' argv
     (weave_else E A M C L (js_num 0) argv (\<lambda>v. js_num (cf_idx_len L (wv_c v))))"

definition JABCcfoldCommits :: "'w engine \<Rightarrow> abc \<Rightarrow> 'w memory \<Rightarrow> slicer \<Rightarrow> ('w, 'c) cfoldlib \<Rightarrow> jsval list \<Rightarrow> ('w, jout) js" where
  "JABCcfoldCommits E A M C L argv =
     need 2 ''cfold._commits(blob, len)'' argv
     (weave_else E A M C L (jret (JArr [])) argv (\<lambda>v.
      jbind (weave_now E M v) (\<lambda>(c, bs).
      let n = CFOLDNCommits L c bs in
      if n = 0 then jret (JArr [])
      else jbind (jget (cf_alloc L (unat n * 16))) (\<lambda>ok.
        if \<not> ok then jthrow (ThrowError ''cfold.commits: out of memory'')
        else case those (map (\<lambda>i. CFOLDCommitAt L c bs (word_of_nat i)) [0..<unat n]) of
               None \<Rightarrow> jthrow (ThrowError ''cfold.commits: malformed weave'')
             | Some ids \<Rightarrow> jret (JArr (map JABCcfoldHashlet ids))))))"

text \<open>
  \<open>_cfold_next\<close> unwraps the output, the base and the new text, and only then converts the hash and
  reads the ancestors.
\<close>

definition JABCcfoldNext :: "'w engine \<Rightarrow> abc \<Rightarrow> 'w memory \<Rightarrow> slicer \<Rightarrow> ('w, 'c) cfoldlib \<Rightarrow> jsval list \<Rightarrow> ('w, jout) js" where
  "JABCcfoldNext E A M C L argv =
     need 7 ''cfold._next(dest, base, baseLen, newBlob, ext, hash, ancestors)'' argv
     (jbind (JABCIdleOf E A (argv ! 0)) (\<lambda>destb.
      jbind (if argv ! 1 = JNull \<or> argv ! 1 = JUndef then jret None
             else JABCcfoldAt E A M C L (argv ! 1) (argv ! 2)) (\<lambda>wp.
      jbind (JABCDataOf E A (argv ! 3)) (\<lambda>nbb.
      jbind (late_arg E A M 64 (argv ! 4)) (\<lambda>ext.
      jbind (JABCcfoldHi64 L (argv ! 5)) (\<lambda>commit.
      jbind (JABCcfoldIds E L (argv ! 6)) (\<lambda>anc.
      jbind (case wp of None \<Rightarrow> jret None | Some v \<Rightarrow> jbind (weave_now E M v) (\<lambda>x. jret (Some x))) (\<lambda>base.
      jbind (still E [(argv ! 3, nbb)] (data_of M nbb)) (\<lambda>text.
      jbind ext (\<lambda>ext.
      case CFOLDFold L (idle_len destb) base text ext commit anc of (o', out) \<Rightarrow>
        jbind (put_out E M (argv ! 0, destb) out) (\<lambda>_.
        if o' = cfoldbig L
        then jthrow (ThrowError ''cfold.fold: the file is too big to weave (over 16 MB of history)'')
        else if o' \<noteq> OK then jthrow (ThrowError ''cfold.fold: failed (buffer full?)'')
        else js_num (length out))))))))))))"

definition JABCcfoldMerge :: "'w engine \<Rightarrow> abc \<Rightarrow> 'w memory \<Rightarrow> slicer \<Rightarrow> ('w, 'c) cfoldlib \<Rightarrow> jsval list \<Rightarrow> ('w, jout) js" where
  "JABCcfoldMerge E A M C L argv =
     need 5 ''cfold._merge(dest, base, baseLen, hash, ancestors)'' argv
     (jbind (JABCIdleOf E A (argv ! 0)) (\<lambda>destb.
      jbind (weave_or E A M C L ''cfold.merge: the base weave is empty or malformed'' (argv ! 1) (argv ! 2)) (\<lambda>v.
      jbind (JABCcfoldHi64 L (argv ! 3)) (\<lambda>commit.
      jbind (JABCcfoldIds E L (argv ! 4)) (\<lambda>anc.
      jbind (weave_now E M v) (\<lambda>base.
      case CFOLDMerge L (idle_len destb) base commit anc of (o', out) \<Rightarrow>
        jbind (put_out E M (argv ! 0, destb) out) (\<lambda>_.
        if o' \<noteq> OK then jthrow (ThrowError ''cfold.merge: failed (buffer full?)'') else js_num (length out))))))))"

definition JABCcfoldAlive :: "'w engine \<Rightarrow> abc \<Rightarrow> 'w memory \<Rightarrow> slicer \<Rightarrow> ('w, 'c) cfoldlib \<Rightarrow> jsval list \<Rightarrow> ('w, jout) js" where
  "JABCcfoldAlive E A M C L argv =
     need 3 ''cfold._alive(blob, len, outIdle)'' argv
     (weave_else E A M C L (js_num 0) argv (\<lambda>v.
      jbind (JABCIdleOf E A (argv ! 2)) (\<lambda>bb.
      jbind (weave_now E M v) (\<lambda>x.
      case CFOLDAlive L x (idle_len bb) of (o', out) \<Rightarrow>
        jbind (put_out E M (argv ! 2, bb) out) (\<lambda>_.
        if o' \<noteq> OK then jthrow (ThrowError ''cfold.alive: output buffer full'') else js_num (length out))))))"

definition JABCcfoldProduce :: "'w engine \<Rightarrow> abc \<Rightarrow> 'w memory \<Rightarrow> slicer \<Rightarrow> ('w, 'c) cfoldlib \<Rightarrow> jsval list \<Rightarrow> ('w, jout) js" where
  "JABCcfoldProduce E A M C L argv =
     need 4 ''cfold._produce(blob, len, rev, outIdle)'' argv
     (weave_else E A M C L (js_num 0) argv (\<lambda>v.
      jbind (rev_or E M L ''cfold.produce: no such commit'' v (argv ! 2)) (\<lambda>rv.
      jbind (JABCIdleOf E A (argv ! 3)) (\<lambda>bb.
      jbind (weave_now E M v) (\<lambda>x.
      case CFOLDProduce L x rv (idle_len bb) of (o', out) \<Rightarrow>
        jbind (put_out E M (argv ! 3, bb) out) (\<lambda>_.
        if o' \<noteq> OK then jthrow (ThrowError ''cfold.produce: output buffer full'') else js_num (length out)))))))"

definition JABCcfoldBlame :: "'w engine \<Rightarrow> abc \<Rightarrow> 'w memory \<Rightarrow> slicer \<Rightarrow> ('w, 'c) cfoldlib \<Rightarrow> jsval list \<Rightarrow> ('w, jout) js" where
  "JABCcfoldBlame E A M C L argv =
     need 3 ''cfold._blame(blob, len, off)'' argv
     (jbind (weave_or E A M C L ''cfold.blame: the weave is empty or malformed'' (argv ! 0) (argv ! 1)) (\<lambda>v.
      jbind (JABCu32Of E (argv ! 2)) (\<lambda>off.
      jbind (weave_now E M v) (\<lambda>(c, bs).
      case CFOLDBlame L (c, bs) off of
        None \<Rightarrow> jthrow (ThrowError ''cfold.blame: that offset belongs to no commit'')
      | Some ci \<Rightarrow>
          (case CFOLDCommitAt L c bs ci of
             None \<Rightarrow> jthrow (ThrowError ''cfold.blame: malformed weave'')
           | Some i \<Rightarrow> jret (JVal (JABCcfoldHashlet i)))))))"

definition JABCcfoldIterMem :: "'w engine \<Rightarrow> abc \<Rightarrow> 'w memory \<Rightarrow> slicer \<Rightarrow> ('w, 'c) cfoldlib \<Rightarrow> jsval list \<Rightarrow> ('w, jout) js" where
  "JABCcfoldIterMem E A M C L argv =
     need 2 ''cfold._itermem(blob, len)'' argv
     (weave_else E A M C L (js_num 0) argv (\<lambda>v. js_num (CFOLDIterMem L (wv_c v))))"

text \<open>One step of the walk; its state is the caller's array of words, written back.\<close>

definition JABCcfoldStep :: "'w engine \<Rightarrow> abc \<Rightarrow> 'w memory \<Rightarrow> slicer \<Rightarrow> ('w, 'c) cfoldlib \<Rightarrow> jsval list \<Rightarrow> ('w, jout) js" where
  "JABCcfoldStep E A M C L argv =
     need 4 ''cfold._step(blob, len, rev, cursor)'' argv
     (weave_else E A M C L (js_bool False) argv (\<lambda>v.
      jbind (rev_or E M L ''cfold.step: no such commit'' v (argv ! 2)) (\<lambda>rv.
      jbind (JABCDataOf E A (argv ! 3)) (\<lambda>curb.
      if data_len curb div 4 < CFOLDIterMem L (wv_c v)
      then jthrow (ThrowError ''cfold.step: the cursor is too small (size it by _cfold_itermem)'')
      else
        jbind (weave_now E M v) (\<lambda>x.
        jbind (data_of M curb) (\<lambda>cur.
        case CFOLDIterNext L x rv (take (4 * (length cur div 4)) cur) of (t, cur') \<Rightarrow>
          jbind (jput (poke M (b1 curb) cur')) (\<lambda>_.
          case t of
            None \<Rightarrow> jthrow (ThrowError ''cfold.step: the weave is malformed'')
          | Some None \<Rightarrow> js_bool False
          | Some (Some t) \<Rightarrow>
              jbind (JABCSubView E (argv ! 0) (cf_body L (wv_c v) + ct_off t) (ct_end t - ct_off t)) (\<lambda>text.
              jret (JFields [(''text'', text), (''tag'', JNum (js_nat (unat (ct_tag t)))),
                             (''off'', JNum (js_nat (ct_off t))), (''end'', JNum (js_nat (ct_end t))),
                             (''alive'', JBool (ct_alive t))])))))))))"

text \<open>What the two emitters share: the records appended behind the write head, and the new head.\<close>

definition emitted :: "'w engine \<Rightarrow> 'w memory \<Rightarrow> string \<Rightarrow> held_view \<Rightarrow> ok64 \<times> u8 list \<Rightarrow> ('w, jout) js" where
  "emitted E M msg h r =
     jbind (put_out E M h (snd r)) (\<lambda>b.
     if fst r \<noteq> OK then jthrow (ThrowError msg) else js_num (data_len b))"

definition JABCcfoldEmitDiff :: "'w engine \<Rightarrow> abc \<Rightarrow> 'w memory \<Rightarrow> slicer \<Rightarrow> ('w, 'c) cfoldlib \<Rightarrow> jsval list \<Rightarrow> ('w, jout) js" where
  "JABCcfoldEmitDiff E A M C L argv =
     need 8 ''cfold._emitdiff(blob,len,name,navver,from,to,hunk,off)'' argv
     (jbind (weave_or E A M C L ''cfold.emitDiff: the weave is empty or malformed'' (argv ! 0) (argv ! 1)) (\<lambda>v.
      jbind (late_arg E A M (FILE_PATH_MAX_LEN A) (argv ! 2)) (\<lambda>name.
      jbind (late_arg E A M (FILE_PATH_MAX_LEN A) (argv ! 3)) (\<lambda>nav.
      jbind (rev_or E M L ''cfold.emitDiff: no such commit (from)'' v (argv ! 4)) (\<lambda>frm.
      jbind (rev_or E M L ''cfold.emitDiff: no such commit (to)'' v (argv ! 5)) (\<lambda>to.
      jbind (idle_from E A (argv ! 6) (argv ! 7)) (\<lambda>destb.
      jbind (weave_now E M v) (\<lambda>x. jbind name (\<lambda>name. jbind nav (\<lambda>nav.
      emitted E M ''cfold.emitDiff: failed (buffer full?)'' (argv ! 6, destb)
        (CFOLDEmitDiff L x name nav frm to (idle_len destb))))))))))))"

definition JABCcfoldEmitFull :: "'w engine \<Rightarrow> abc \<Rightarrow> 'w memory \<Rightarrow> slicer \<Rightarrow> ('w, 'c) cfoldlib \<Rightarrow> jsval list \<Rightarrow> ('w, jout) js" where
  "JABCcfoldEmitFull E A M C L argv =
     need 9 ''cfold._emitfull(blob,len,name,scheme,navver,from,to,hunk,off)'' argv
     (jbind (weave_or E A M C L ''cfold.emitFull: the weave is empty or malformed'' (argv ! 0) (argv ! 1)) (\<lambda>v.
      jbind (late_arg E A M (FILE_PATH_MAX_LEN A) (argv ! 2)) (\<lambda>name.
      jbind (late_arg E A M (FILE_PATH_MAX_LEN A) (argv ! 3)) (\<lambda>sch.
      jbind (late_arg E A M (FILE_PATH_MAX_LEN A) (argv ! 4)) (\<lambda>nav.
      jbind (rev_or E M L ''cfold.emitFull: no such commit (from)'' v (argv ! 5)) (\<lambda>frm.
      jbind (rev_or E M L ''cfold.emitFull: no such commit (to)'' v (argv ! 6)) (\<lambda>to.
      jbind (idle_from E A (argv ! 7) (argv ! 8)) (\<lambda>destb.
      jbind (weave_now E M v) (\<lambda>x. jbind name (\<lambda>name. jbind sch (\<lambda>sch. jbind nav (\<lambda>nav.
      emitted E M ''cfold.emitFull: failed (buffer full?)'' (argv ! 7, destb)
        (CFOLDEmitFull L x name sch nav frm to (idle_len destb))))))))))))))"

section \<open>Hashlets round trip\<close>

lemma cf_digit_HX: "n < 16 \<Longrightarrow> cf_digit (HX n) = Some (word_of_nat n)"
proof -
  assume "n < 16"
  then have "n \<in> set [0..<16]" by simp
  then show ?thesis
    by (auto simp: upt_conv_Cons cf_digit_def HX_def Let_def)
qed

lemma low_digit: "cf_digit (HX (unat (and (h :: u64) 0xf))) = Some (take_bit 4 h)"
proof -
  have t: "and h 0xf = take_bit 4 h" by (simp add: take_bit_eq_mask mask_eq_exp_minus_1)
  have "unat (take_bit 4 h) < 16"
    using take_bit_nat_less_exp [of 4 "unat h"] by (simp add: unsigned_take_bit_eq)
  then show ?thesis by (simp add: t cf_digit_HX)
qed

lemma shifted_digits:
  "or (push_bit 4 (or (push_bit (4 * k) a) (take_bit (4 * k) (drop_bit 4 h)))) (take_bit 4 h) =
   or (push_bit (4 * Suc k) a) (take_bit (4 * Suc k) (h :: u64))"
  by (rule bit_word_eqI)
    (auto simp: bit_or_iff bit_push_bit_iff bit_take_bit_iff bit_drop_bit_eq bit_imp_le_length
      dest: bit_imp_le_length)

lemma hi64_hashlet:
  "hi64 (k + j) a (hashlet k h @ s) = hi64 j (or (push_bit (4 * k) a) (take_bit (4 * k) h)) s"
proof (induction k arbitrary: h j s)
  case 0
  then show ?case by simp
next
  case (Suc k)
  have "hi64 (Suc k + j) a (hashlet (Suc k) h @ s) =
      hi64 (k + Suc j) a (hashlet k (drop_bit 4 h) @ (HX (unat (and h 0xf)) # s))" by simp
  also have "\<dots> = hi64 j (or (push_bit 4 (or (push_bit (4 * k) a) (take_bit (4 * k) (drop_bit 4 h)))) (take_bit 4 h)) s"
    by (simp only: Suc.IH hi64.simps low_digit option.case)
  finally show ?case by (simp only: shifted_digits)
qed

text \<open>
  C40: the hashlet of a commit id, sixteen hex digits, reads back as the id: every 64-bit id crosses
  into JavaScript as a string and comes back unchanged.
\<close>

theorem hashlet_round_trip: "\<exists>s. JABCcfoldHashlet h = JStr s \<and> length s = 16 \<and> hi64 16 0 s = h"
proof -
  have "length (hashlet k x) = k" for k x by (induction k arbitrary: x) auto
  moreover have "hi64 16 0 (hashlet 16 h) = h"
    using hi64_hashlet [of 16 0 0 h "[]"] by (simp add: take_bit_word_eq_self)
  ultimately show ?thesis by (simp add: JABCcfoldHashlet_def)
qed

section \<open>A conversion that takes the buffer away\<close>

text \<open>
  The hash of \<open>_cfold_next\<close> is an object whose \<open>toString\<close> detaches the output: the fold is then written
  into memory the array no longer owns.
\<close>

lemma fold_writes_dead_memory:
  assumes "JABCIdleOf E A d w = (Inr db, w)" and "JABCDataOf E A t w = (Inr tb, w)"
    and "cf_cstr L h w = (Inr s, w')" and "shows_still E w' (t, tb)" and "\<not> shows_still E w' (d, db)"
  shows "fst (JABCcfoldNext E A M C L [d, JNull, JUndef, t, JStr ext, h, JNull] w) = Inl CUndef"
  using assms
  by (simp add: JABCcfoldNext_def JABCcfoldHi64_def JABCcfoldIds_def late_arg_def JABChunkArgU8_def Let_def
      jbind_def still_def data_of_def put_out_def numeral_nat split: prod.splits)

text \<open>The same of a reader: the revision's \<open>toString\<close> detaches the weave that was parsed.\<close>

lemma produce_reads_dead_memory:
  assumes "JABCcfoldAt E A M C L b n w = (Inr (Some v), w)" and "cf_cstr L r w = (Inr s, w')"
    and "\<not> shows_still E w' (weave_held v)"
  shows "fst (JABCcfoldProduce E A M C L [b, n, r, out] w) = Inl CUndef"
  using assms
  by (simp add: JABCcfoldProduce_def weave_else_def rev_or_def JABCcfoldRev_def JABCcfoldHi64_def or_undef_def
      weave_now_def still_def jbind_def jcatch_def numeral_nat)

text \<open>Ancestors whose number does not convert are no ancestors: the commit is folded without them.\<close>

lemma bad_length_is_no_ancestors:
  assumes "get_prop E v ''length'' w = (Inr (JObj n), w)" and "is_obj v"
  shows "JABCcfoldIds E L v w = (Inr [], w)"
  using assms
  by (simp add: JABCcfoldIds_def or_undef_def JABCu32Of_def JABCu64Of_def jbind_def jcatch_def)

lemma any_text_is_a_commit: "hi64 16 0 ''no commit'' = 0"
proof -
  have "hi64 (Suc 15) 0 ''no commit'' = 0" by (subst hi64.simps(3)) (simp add: cf_digit_def)
  moreover have "Suc 15 = (16 :: nat)" by simp
  ultimately show ?thesis by (simp only:)
qed

end
