(* ===== verification/Console.thy ===== *)
theory Console
  imports Io Require
begin

text \<open>
  \<open>console.c\<close>, a bundle over \<open>utf8.Encode\<close> and \<open>io.writeAll\<close>: how a value is rendered (\<open>inspect\<close>), how a
  line is put together (\<open>format\<close>), and which descriptor a method writes to.  After it the remaining
  small pieces of \<open>io.c\<close>, \<open>buf.c\<close> and \<open>jsrcpack.c\<close>.
\<close>

section \<open>Values\<close>

text \<open>
  What the engine says of an object: an error with its stack, a function with its name, an array, a
  plain object of data properties in the order of \<open>Object.keys\<close>.
\<close>

datatype obj_shape =
    ErrObj string
  | FnObj string
  | ArrObj "jsval list"
  | PlainObj "(string \<times> jsval) list"

record jsrt =
  objs :: "obj_shape list"
  num_str :: "jsnum \<Rightarrow> string"
  sym_str :: string
  fn_src :: "nat \<Rightarrow> string"              \<comment> \<open>\<open>String (f)\<close>\<close>
  obj_str :: "nat \<Rightarrow> string"             \<comment> \<open>\<open>String (o)\<close>\<close>
  number_of :: "jsval \<Rightarrow> jsnum option"   \<comment> \<open>\<open>Number (x)\<close>; \<open>None\<close> throws\<close>
  json :: "jsval \<Rightarrow> string option"       \<comment> \<open>\<open>JSON.stringify (x)\<close>; \<open>None\<close> throws\<close>

definition shape :: "jsrt \<Rightarrow> nat \<Rightarrow> obj_shape" where
  "shape G n = (if n < length (objs G) then objs G ! n else PlainObj [])"

definition int_str :: "int \<Rightarrow> string" where
  "int_str i = (if i < 0 then ''-'' @ decimal (nat (- i)) else decimal (nat i))"

text \<open>A backslash, a quote and a newline are escaped.\<close>

definition escaped :: "string \<Rightarrow> string" where
  "escaped s = concat (map (\<lambda>c. if c = CHR 0x5c then [CHR 0x5c, CHR 0x5c]
     else if c = CHR 0x27 then [CHR 0x5c, CHR 0x27] else if c = CHR 0x0a then [CHR 0x5c, CHR ''n''] else [c]) s)"

definition quoted :: "string \<Rightarrow> string" where "quoted s = CHR 0x27 # s @ [CHR 0x27]"

definition is_letter :: "char \<Rightarrow> bool" where
  "is_letter c \<longleftrightarrow> (let n = of_char c :: nat in 65 \<le> n \<and> n \<le> 90 \<or> 97 \<le> n \<and> n \<le> 122) \<or> c = CHR ''_'' \<or> c = CHR 0x24"

definition word_digit :: "char \<Rightarrow> bool" where
  "word_digit c \<longleftrightarrow> (let n = of_char c :: nat in 48 \<le> n \<and> n \<le> 57)"

text \<open>A key that is a bare word is printed as it is, any other in quotes (nothing in it is escaped).\<close>

definition key_text :: "string \<Rightarrow> string" where
  "key_text k = (case k of c # cs \<Rightarrow> if is_letter c \<and> list_all (\<lambda>d. is_letter d \<or> word_digit d) cs then k else quoted k
                         | [] \<Rightarrow> quoted k)"

fun commas :: "string list \<Rightarrow> string" where
  "commas [] = []"
| "commas [s] = s"
| "commas (s # t # ss) = s @ '', '' @ commas (t # ss)"

section \<open>\<open>inspect\<close>\<close>

text \<open>The path holds an object once, so it is never longer than the objects there are.\<close>

lemma path_grows:
  assumes "shape G n \<noteq> PlainObj []" and "n \<notin> set seen"
  shows "card ({..<length (objs G)} - insert n (set seen)) < card ({..<length (objs G)} - set seen)"
proof -
  have "n < length (objs G)" using assms(1) by (auto simp: shape_def split: if_splits)
  with assms(2) show ?thesis by (intro psubset_card_mono) auto
qed

text \<open>\<open>seen\<close> is the path from the root; an object on it is a cycle.\<close>

function inspect :: "jsrt \<Rightarrow> jsval \<Rightarrow> nat list \<Rightarrow> string" where
  "inspect G v seen =
     (case v of
        JStr s \<Rightarrow> quoted (escaped s)
      | JBig i \<Rightarrow> int_str i @ ''n''
      | JSym \<Rightarrow> sym_str G
      | JNum d \<Rightarrow> num_str G d
      | JBool b \<Rightarrow> if b then ''true'' else ''false''
      | JUndef \<Rightarrow> ''undefined''
      | JNull \<Rightarrow> ''null''
      | JObj n \<Rightarrow>
          (case shape G n of
             FnObj name \<Rightarrow> ''[Function'' @ (if name = [] then '' (anonymous)'' else '': '' @ name) @ '']''
           | s \<Rightarrow>
               if n \<in> set seen then ''[Circular]''
               else case s of
                 ErrObj st \<Rightarrow> st
               | ArrObj xs \<Rightarrow> if xs = [] then ''[]''
                             else ''[ '' @ commas (map (\<lambda>x. inspect G x (n # seen)) xs) @ '' ]''
               | PlainObj ps \<Rightarrow> if ps = [] then ''{}''
                             else ''{ '' @ commas (map (\<lambda>(k, x). key_text k @ '': '' @ inspect G x (n # seen)) ps) @ '' }''
               | FnObj _ \<Rightarrow> []))"
  by pat_completeness auto

termination
  by (relation "measure (\<lambda>(G, v, seen). card ({..<length (objs G)} - set seen))") (auto intro!: path_grows)

declare inspect.simps [simp del]

section \<open>\<open>format\<close> and the methods\<close>

definition str_of :: "jsrt \<Rightarrow> jsval \<Rightarrow> string" where
  "str_of G v = (case v of JStr s \<Rightarrow> s | _ \<Rightarrow> inspect G v [])"

text \<open>\<open>String (x)\<close>.\<close>

definition String_of :: "jsrt \<Rightarrow> jsval \<Rightarrow> string" where
  "String_of G v = (case v of JStr s \<Rightarrow> s | JBig i \<Rightarrow> int_str i
     | JObj n \<Rightarrow> (case shape G n of FnObj _ \<Rightarrow> fn_src G n | _ \<Rightarrow> obj_str G n)
     | _ \<Rightarrow> inspect G v [])"

definition is_object :: "jsrt \<Rightarrow> jsval \<Rightarrow> bool" where
  "is_object G v = (case v of JObj n \<Rightarrow> (case shape G n of FnObj _ \<Rightarrow> False | _ \<Rightarrow> True) | _ \<Rightarrow> False)"

definition trunc_num :: "jsnum \<Rightarrow> jsnum" where
  "trunc_num d = (case d of Fin r \<Rightarrow> Fin (of_int (trunc r)) | _ \<Rightarrow> d)"

text \<open>One specifier; \<open>None\<close> is an exception (\<open>Number\<close> of a symbol).\<close>

definition specifier :: "jsrt \<Rightarrow> char \<Rightarrow> jsval \<Rightarrow> string option" where
  "specifier G k x =
     (if k = CHR ''s'' then Some (if is_object G x then inspect G x []
        else case x of JBig i \<Rightarrow> int_str i @ ''n'' | _ \<Rightarrow> String_of G x)
      else if k = CHR ''d'' \<or> k = CHR ''i'' then
        (case x of JBig i \<Rightarrow> Some (int_str i @ ''n'')
         | _ \<Rightarrow> map_option (\<lambda>d. if d = NaN then ''NaN'' else num_str G (trunc_num d)) (number_of G x))
      else if k = CHR ''f'' then map_option (\<lambda>d. if d = NaN then ''NaN'' else num_str G d) (number_of G x)
      else if k = CHR ''j'' then Some (case json G x of None \<Rightarrow> ''[Circular]'' | Some t \<Rightarrow> t)
      else if k = CHR ''o'' \<or> k = CHR ''O'' then Some (inspect G x [])
      else Some [])"

definition is_spec :: "char \<Rightarrow> bool" where
  "is_spec k \<longleftrightarrow> k \<in> set ''sdifjoOc'' \<or> k = CHR 0x25"

fun has_spec :: "string \<Rightarrow> bool" where
  "has_spec (a # b # cs) = (a = CHR 0x25 \<and> is_spec b \<or> has_spec (b # cs))"
| "has_spec _ = False"

text \<open>The replacement runs from the left; a specifier with no argument left stays as it is.\<close>

fun format_first :: "jsrt \<Rightarrow> string \<Rightarrow> jsval list \<Rightarrow> (string \<times> jsval list) option" where
  "format_first G (a # b # cs) args =
     (if a = CHR 0x25 \<and> is_spec b then
        if b = CHR 0x25 then map_option (\<lambda>(t, r). (b # t, r)) (format_first G cs args)
        else case args of
          [] \<Rightarrow> map_option (\<lambda>(t, r). (a # b # t, r)) (format_first G cs [])
        | x # xs \<Rightarrow> (case specifier G b x of None \<Rightarrow> None
                    | Some t0 \<Rightarrow> map_option (\<lambda>(t, r). (t0 @ t, r)) (format_first G cs xs))
      else map_option (\<lambda>(t, r). (a # t, r)) (format_first G (b # cs) args))"
| "format_first G s args = Some (s, args)"

definition format_args :: "jsrt \<Rightarrow> jsval list \<Rightarrow> string option" where
  "format_args G a =
     (case a of
        [] \<Rightarrow> Some []
      | v # vs \<Rightarrow>
          map_option (\<lambda>(out, more). out @ concat (map (\<lambda>x. '' '' @ str_of G x) more))
            (case v of JStr s \<Rightarrow> if has_spec s then format_first G s vs else Some (s, vs)
                     | _ \<Rightarrow> Some (str_of G v, vs)))"

text \<open>What a method writes, and to which descriptor: \<open>Some None\<close> is nothing at all.\<close>

datatype console_call = CLog "jsval list" | CInfo "jsval list" | CDebug "jsval list" | CWarn "jsval list"
  | CError "jsval list" | CTrace "jsval list" | CDir jsval | CAssert "jsval list"

definition line_to :: "nat \<Rightarrow> string option \<Rightarrow> ((nat \<times> string) option) option" where
  "line_to fd s = map_option (\<lambda>t. Some (fd, t @ [CHR 0x0a])) s"

definition console :: "jsrt \<Rightarrow> console_call \<Rightarrow> ((nat \<times> string) option) option" where
  "console G c =
     (case c of
        CLog a \<Rightarrow> line_to 1 (format_args G a)
      | CInfo a \<Rightarrow> line_to 1 (format_args G a)
      | CDebug a \<Rightarrow> line_to 1 (format_args G a)
      | CWarn a \<Rightarrow> line_to 2 (format_args G a)
      | CError a \<Rightarrow> line_to 2 (format_args G a)
      | CTrace a \<Rightarrow> line_to 2 (map_option (\<lambda>t. ''Trace: '' @ t) (format_args G a))
      | CDir v \<Rightarrow> line_to 1 (Some (inspect G v []))
      | CAssert a \<Rightarrow>
          if (case a of [] \<Rightarrow> False | v # _ \<Rightarrow> to_bool v) then Some None
          else if tl a = [] then line_to 2 (Some ''Assertion failed'')
          else line_to 2 (map_option (\<lambda>t. ''Assertion failed: '' @ t) (format_args G (tl a))))"

section \<open>\<open>io.log\<close> and the buffer constructors\<close>

text \<open>
  \<open>io.log\<close>: a string is written until it is out or a write fails, a typed array with one write; then a
  newline.  \<open>wr\<close> is \<open>write (2, ...)\<close>, with the count it returned.
\<close>

primrec log_string :: "nat \<Rightarrow> (u8 list \<Rightarrow> 'w \<Rightarrow> int \<times> 'w) \<Rightarrow> u8 list \<Rightarrow> 'w \<Rightarrow> 'w" where
  "log_string 0 wr bs w = w"
| "log_string (Suc k) wr bs w =
     (if bs = [] then w
      else case wr bs w of (n, w') \<Rightarrow> if n \<le> 0 then w' else log_string k wr (drop (nat n) bs) w')"

primrec log_args :: "'w engine \<Rightarrow> abc \<Rightarrow> (u8b \<Rightarrow> 'w \<Rightarrow> u8 list) \<Rightarrow> (u8 list \<Rightarrow> 'w \<Rightarrow> int \<times> 'w) \<Rightarrow> jsval list \<Rightarrow>
    ('w, unit) js" where
  "log_args E A read wr [] = jret ()"
| "log_args E A read wr (v # vs) =
     jbind (case v of
         JStr s \<Rightarrow> (let bs = map (\<lambda>c. word_of_nat (of_char c)) s in jput (log_string (length bs + 1) wr bs))
       | _ \<Rightarrow> (\<lambda>w. if is_typed E w v
                   then jbind (JABCDataOf E A v) (\<lambda>tab. jput (\<lambda>w. snd (wr (read tab w) w))) w
                   else (Inr (), w))) (\<lambda>_.
     log_args E A read wr vs)"

definition JABCioLog :: "'w engine \<Rightarrow> abc \<Rightarrow> (u8b \<Rightarrow> 'w \<Rightarrow> u8 list) \<Rightarrow> (u8 list \<Rightarrow> 'w \<Rightarrow> int \<times> 'w) \<Rightarrow> jsval list \<Rightarrow>
    ('w, jout) js" where
  "JABCioLog E A read wr argv =
     jbind (log_args E A read wr argv) (\<lambda>_. jbind (jput (\<lambda>w. snd (wr [10] w))) (\<lambda>_. js_undef))"

text \<open>\<open>io.buf\<close>, \<open>io.ram\<close>, \<open>io.mmap\<close>, \<open>io.book\<close>: a fresh region is all IDLE, a mapped file all DATA.\<close>

definition io_buf :: "nat \<Rightarrow> buf" where "io_buf n = Buf_into (replicate n 0)"

definition buf_ram :: "('w, u8 list) js \<Rightarrow> ('w, buf) js" where
  "buf_ram leaf = jbind leaf (\<lambda>u. jret (Buf_into u))"

definition buf_mmap :: "(string \<Rightarrow> string \<Rightarrow> jsnum \<Rightarrow> ('w, u8 list) js) \<Rightarrow> string \<Rightarrow> string \<Rightarrow> jsnum \<Rightarrow> ('w, buf) js" where
  "buf_mmap leaf path mode n =
     (let mode = (if mode = [] then ''r'' else mode) in
      jbind (leaf path mode (if n = NaN then Fin 0 else n)) (\<lambda>u.
      jret (if mode = ''c'' then Buf_into u else Buf_over u)))"

definition io_book :: "('w, buf) js" where
  "io_book = jthrow (ThrowStr ''io.book(): booked mmap not wired yet (use io.mmap + io.resize)'')"

text \<open>\<open>Buf.msync\<close>: the leaf on the array of the \<open>Buf\<close>, which it returns.\<close>

definition Buf_msync :: "(u8 list \<Rightarrow> ('w, jout) js) \<Rightarrow> buf \<Rightarrow> ('w, buf) js" where
  "Buf_msync leaf b = jbind (leaf (bytes b)) (\<lambda>_. jret b)"

section \<open>jsrcpack.c\<close>

text \<open>The bytes between the two symbols of the image; none in a build without a pack.\<close>

definition JABCJsrcPacked :: "u8 list \<Rightarrow> bool" where "JABCJsrcPacked pack = (pack \<noteq> [])"

definition jsrcpack_global :: "('w, jsval) js \<Rightarrow> (exn \<Rightarrow> 'w \<Rightarrow> 'w) \<Rightarrow> (jsval \<Rightarrow> 'w \<Rightarrow> 'w) \<Rightarrow> u8 list \<Rightarrow> 'w \<Rightarrow> 'w" where
  "jsrcpack_global no_copy report define_global pack w =
     (if pack = [] then w
      else case no_copy w of (Inl e, w') \<Rightarrow> report e w' | (Inr ta, w') \<Rightarrow> define_global ta w')"

section \<open>Lemmas\<close>

text \<open>An object on the path is a cycle, whatever it holds; so a cyclic graph renders.\<close>

lemma inspect_cycle:
  "shape G n = ArrObj xs \<Longrightarrow> n \<in> set seen \<Longrightarrow> inspect G (JObj n) seen = ''[Circular]''"
  by (subst inspect.simps) simp

text \<open>
  Only the path is remembered: an object reached twice is rendered twice, and a chain of \<open>n\<close> pairs
  makes a text that doubles with every link.
\<close>

definition pairs :: "nat \<Rightarrow> jsrt" where
  "pairs n = \<lparr>objs = map (\<lambda>i. ArrObj [JObj (i + 1), JObj (i + 1)]) [0..<n] @ [ArrObj []],
     num_str = (\<lambda>_. []), sym_str = [], fn_src = (\<lambda>_. []), obj_str = (\<lambda>_. []),
     number_of = (\<lambda>_. Some NaN), json = (\<lambda>_. None)\<rparr>"

lemma inspect_doubles:
  assumes "k \<le> n" and "\<forall>m \<in> set seen. m < k"
  shows "2 ^ (n - k) \<le> length (inspect (pairs n) (JObj k) seen)"
  using assms
proof (induction "n - k" arbitrary: k seen)
  case 0
  then have "shape (pairs n) k = ArrObj []" "k \<notin> set seen" by (auto simp: shape_def pairs_def nth_append)
  then show ?case using 0 by (subst inspect.simps) simp
next
  case (Suc d)
  then have k: "k < n" by simp
  then have "shape (pairs n) k = ArrObj [JObj (k + 1), JObj (k + 1)]" "k \<notin> set seen"
    using Suc.prems by (auto simp: shape_def pairs_def nth_append)
  then have "inspect (pairs n) (JObj k) seen =
      ''[ '' @ (inspect (pairs n) (JObj (k + 1)) (k # seen) @ '', '' @ inspect (pairs n) (JObj (k + 1)) (k # seen)) @ '' ]''"
    by (subst inspect.simps) simp
  moreover have "2 ^ (n - (k + 1)) \<le> length (inspect (pairs n) (JObj (k + 1)) (k # seen))"
    using Suc k by (intro Suc.hyps(1)) auto
  moreover have "n - k = Suc (n - (k + 1))" using k by simp
  ultimately show ?case by simp
qed

end
